(* ===== verification/Prelude.thy ===== *)
theory Prelude
  imports Main "HOL-Library.Word" "HOL-Library.AList"
begin

unbundle bit_operations_syntax

text \<open>
  Shared vocabulary of the development: bytes, the result type of fallible Go functions
  (a Go panic is a value of its own), checked slice reads, big-endian integers, loops over
  the keys of a Go map, and the two interfaces the components share: self-delimiting byte
  encodings (\<open>stream_codec\<close>) and guarded transition systems (\<open>guarded_system\<close>).
\<close>

named_theorems res_simps "evaluation of results, binds and checked reads"
named_theorems bytes_simps "lengths and reads of encoded byte strings"

type_synonym byte = "8 word"
type_synonym rune = nat

subsection \<open>Results: a value, an error, or a run-time panic\<close>

datatype 'e fault = Panic | Fail 'e

type_synonym ('e, 'a) res = "'e fault + 'a"

abbreviation err :: "'e \<Rightarrow> ('e, 'a) res" where
  "err e \<equiv> Inl (Fail e)"

fun rbind :: "('e, 'a) res \<Rightarrow> ('a \<Rightarrow> ('e, 'b) res) \<Rightarrow> ('e, 'b) res" where
  "rbind (Inl f) k = Inl f"
| "rbind (Inr a) k = k a"

lemma rbind_cong [fundef_cong]:
  "m = m' \<Longrightarrow> (\<And>a. m' = Inr a \<Longrightarrow> k a = k' a) \<Longrightarrow> rbind m k = rbind m' k'"
  by (cases m') auto

lemma rbind_Inr_iff: "rbind m k = Inr b \<longleftrightarrow> (\<exists>a. m = Inr a \<and> k a = Inr b)"
  by (cases m) auto

lemma rbind_Inl_iff: "rbind m k = Inl f \<longleftrightarrow> m = Inl f \<or> (\<exists>a. m = Inr a \<and> k a = Inl f)"
  by (cases m) auto

lemma rbind_not_Panic:
  "m \<noteq> Inl Panic \<Longrightarrow> (\<And>a. m = Inr a \<Longrightarrow> k a \<noteq> Inl Panic) \<Longrightarrow> rbind m k \<noteq> Inl Panic"
  by (cases m) auto

lemma rbind_assoc: "rbind (rbind m f) g = rbind m (\<lambda>a. rbind (f a) g)"
  by (cases m) auto

declare rbind.simps [res_simps]

text \<open>A checked index and a checked slice expression \<open>xs[lo:hi]\<close>.\<close>

definition idx :: "'a list \<Rightarrow> nat \<Rightarrow> ('e, 'a) res" where
  "idx xs i = (if i < length xs then Inr (xs ! i) else Inl Panic)"

definition slice :: "'a list \<Rightarrow> nat \<Rightarrow> nat \<Rightarrow> ('e, 'a list) res" where
  "slice xs lo hi = (if lo \<le> hi \<and> hi \<le> length xs then Inr (take (hi - lo) (drop lo xs)) else Inl Panic)"

lemma idx_ok [res_simps]: "i < length xs \<Longrightarrow> idx xs i = Inr (xs ! i)"
  by (simp add: idx_def)

lemma slice_ok [res_simps]:
  "lo \<le> hi \<Longrightarrow> hi \<le> length xs \<Longrightarrow> slice xs lo hi = Inr (take (hi - lo) (drop lo xs))"
  by (simp add: slice_def)

lemma idx_append2: "idx (xs @ ys) (length xs + i) = idx ys i"
  by (simp add: idx_def)

lemma slice_append2: "slice (xs @ ys) (length xs + i) (length xs + j) = slice ys i j"
  by (auto simp: slice_def)

subsection \<open>Big-endian integers\<close>

definition put16 :: "16 word \<Rightarrow> byte list" where
  "put16 v = [ucast (drop_bit 8 v), ucast v]"

definition un16 :: "byte \<Rightarrow> byte \<Rightarrow> 16 word" where
  "un16 a b = push_bit 8 (ucast a) OR ucast b"

definition put32 :: "32 word \<Rightarrow> byte list" where
  "put32 v = [ucast (drop_bit 24 v), ucast (drop_bit 16 v), ucast (drop_bit 8 v), ucast v]"

definition un32 :: "byte \<Rightarrow> byte \<Rightarrow> byte \<Rightarrow> byte \<Rightarrow> 32 word" where
  "un32 a b c d = push_bit 24 (ucast a) OR push_bit 16 (ucast b) OR push_bit 8 (ucast c) OR ucast d"

lemma un16_put16 [simp]: "un16 (ucast (drop_bit 8 v)) (ucast (v :: 16 word)) = v"
  by (rule bit_word_eqI) (auto simp: un16_def bit_simps)

lemma bit_word_beyond: "bit (w :: byte) n \<Longrightarrow> n < 8"
  by (auto dest: bit_imp_le_length)

lemma put16_un16 [simp]: "put16 (un16 a b) = [a, b]"
proof -
  have "ucast (drop_bit 8 (un16 a b)) = a" and "ucast (un16 a b) = b"
    by (rule bit_word_eqI; auto simp: un16_def bit_simps dest: bit_word_beyond)+
  then show ?thesis by (simp add: put16_def)
qed

lemma un32_put32 [simp]:
  "un32 (ucast (drop_bit 24 v)) (ucast (drop_bit 16 v)) (ucast (drop_bit 8 v)) (ucast (v :: 32 word)) = v"
proof (rule bit_word_eqI)
  fix n assume "n < LENGTH(32)"
  then consider "n < 8" | "8 \<le> n" "n < 16" | "16 \<le> n" "n < 24" | "24 \<le> n" "n < 32"
    by fastforce
  then show "bit (un32 (ucast (drop_bit 24 v)) (ucast (drop_bit 16 v)) (ucast (drop_bit 8 v)) (ucast v)) n
      = bit v n"
    by cases (auto simp: un32_def bit_simps)
qed

lemma length_put16 [simp, bytes_simps]: "length (put16 v) = 2"
  by (simp add: put16_def)

lemma length_put32 [simp, bytes_simps]: "length (put32 v) = 4"
  by (simp add: put32_def)

lemma unat_un16_less: "unat (un16 a b) < 65536"
  using unsigned_less[of "un16 a b"] by simp

lemma unat_of_nat16: "n < 65536 \<Longrightarrow> unat (word_of_nat n :: 16 word) = n"
  by (simp add: unsigned_of_nat take_bit_nat_eq_self)

lemma unat_of_nat8: "n < 256 \<Longrightarrow> unat (word_of_nat n :: byte) = n"
  by (simp add: unsigned_of_nat take_bit_nat_eq_self)

lemma unat_of_nat32: "n < 4294967296 \<Longrightarrow> unat (word_of_nat n :: 32 word) = n"
  by (simp add: unsigned_of_nat take_bit_nat_eq_self)

text \<open>Checked reads of \<open>binary.BigEndian.Uint16(xs[i:i+2])\<close> and \<open>Uint32(xs[i:i+4])\<close>.\<close>

definition get16 :: "byte list \<Rightarrow> nat \<Rightarrow> ('e, 16 word) res" where
  "get16 xs i = (if i + 2 \<le> length xs then Inr (un16 (xs ! i) (xs ! (i + 1))) else Inl Panic)"

definition get32 :: "byte list \<Rightarrow> nat \<Rightarrow> ('e, 32 word) res" where
  "get32 xs i = (if i + 4 \<le> length xs
     then Inr (un32 (xs ! i) (xs ! (i + 1)) (xs ! (i + 2)) (xs ! (i + 3))) else Inl Panic)"

lemma get16_ok [res_simps]: "i + 2 \<le> length xs \<Longrightarrow> get16 xs i = Inr (un16 (xs ! i) (xs ! (i + 1)))"
  by (simp add: get16_def)

lemma get32_ok [res_simps]:
  "i + 4 \<le> length xs \<Longrightarrow> get32 xs i = Inr (un32 (xs ! i) (xs ! (i + 1)) (xs ! (i + 2)) (xs ! (i + 3)))"
  by (simp add: get32_def)

lemma get16_append2: "get16 (xs @ ys) (length xs + i) = get16 ys i"
  by (auto simp: get16_def nth_append)

text \<open>A checked read fails only by leaving the range.\<close>

lemma idx_Inl_iff: "idx xs i = Inl f \<longleftrightarrow> \<not> i < length xs \<and> f = Panic"
  by (auto simp: idx_def)

lemma slice_Inl_iff: "slice xs lo hi = Inl f \<longleftrightarrow> \<not> (lo \<le> hi \<and> hi \<le> length xs) \<and> f = Panic"
  by (auto simp: slice_def)

lemma get16_Inl_iff: "get16 xs i = Inl f \<longleftrightarrow> \<not> i + 2 \<le> length xs \<and> f = Panic"
  by (auto simp: get16_def)

lemma get32_Inl_iff: "get32 xs i = Inl f \<longleftrightarrow> \<not> i + 4 \<le> length xs \<and> f = Panic"
  by (auto simp: get32_def)

lemmas read_Inl_iff = idx_Inl_iff slice_Inl_iff get16_Inl_iff get32_Inl_iff rbind_Inl_iff

subsection \<open>Loops over the keys of a map\<close>

text \<open>
  \<open>for key := range m { ... }\<close> whose body changes a state and appends to a result: the body
  runs once for each key of the snapshot, in the order of the list.
\<close>

fun each :: "('k \<Rightarrow> 's \<Rightarrow> 's \<times> 'a list) \<Rightarrow> 'k list \<Rightarrow> 's \<Rightarrow> 's \<times> 'a list" where
  "each f [] s = (s, [])"
| "each f (k # ks) s =
     (let (s', as) = f k s; (s'', bs) = each f ks s' in (s'', as @ bs))"

lemma each_invariant:
  assumes "P s" and "\<And>k s. k \<in> set ks \<Longrightarrow> P s \<Longrightarrow> P (fst (f k s))"
  shows "P (fst (each f ks s))"
  using assms
proof (induction ks arbitrary: s)
  case Nil
  then show ?case by simp
next
  case (Cons k ks)
  have "P (fst (f k s))" using Cons.prems by simp
  then have "P (fst (each f ks (fst (f k s))))" using Cons.prems(2) by (intro Cons.IH) auto
  then show ?case by (simp add: split_beta)
qed

lemma each_append:
  "each f (xs @ ys) s =
    (let (s', as) = each f xs s; (s'', bs) = each f ys s' in (s'', as @ bs))"
  by (induction xs arbitrary: s) (auto simp: Let_def split_beta)

lemma each_actions:
  assumes "\<And>k s a. k \<in> set ks \<Longrightarrow> a \<in> set (snd (f k s)) \<Longrightarrow> Q a" and "a \<in> set (snd (each f ks s))"
  shows "Q a"
  using assms by (induction ks arbitrary: s) (fastforce simp: split_beta)+

subsection \<open>Association lists as Go maps\<close>

abbreviation keys :: "('k \<times> 'v) list \<Rightarrow> 'k list" where
  "keys al \<equiv> map fst al"

lemma map_of_update [simp]: "map_of (AList.update k v al) = (map_of al)(k \<mapsto> v)"
  by (simp add: AList.update_conv')

lemma map_of_delete' [simp]: "map_of (AList.delete k al) = (map_of al)(k := None)"
  by (simp add: AList.delete_conv')

lemma distinct_keys_update [simp]: "distinct (keys al) \<Longrightarrow> distinct (keys (AList.update k v al))"
  by (rule AList.distinct_update)

lemma distinct_keys_delete [simp]: "distinct (keys al) \<Longrightarrow> distinct (keys (AList.delete k al))"
  by (rule AList.distinct_delete)

lemma set_keys_dom: "set (keys al) = dom (map_of al)"
  by (simp add: dom_map_of_conv_image_fst)

lemma map_of_in_keys: "map_of al k = Some v \<Longrightarrow> k \<in> set (keys al)"
  by (metis domI set_keys_dom)

subsection \<open>Decimal numbers\<close>

text \<open>\<open>strconv.Itoa\<close> and the verb \<open>%d\<close>.\<close>

definition digitChar :: "nat \<Rightarrow> char" where
  "digitChar n = char_of (48 + n)"

fun showNat :: "nat \<Rightarrow> string" where
  "showNat n = (if n < 10 then [digitChar n] else showNat (n div 10) @ [digitChar (n mod 10)])"

declare showNat.simps [simp del]

definition showInt :: "int \<Rightarrow> string" where
  "showInt i = (if i < 0 then CHR ''-'' # showNat (nat (- i)) else showNat (nat i))"

definition charDigit :: "char \<Rightarrow> nat option" where
  "charDigit c = (let n = (of_char c :: nat) in if 48 \<le> n \<and> n < 58 then Some (n - 48) else None)"

lemma charDigit_digitChar [simp]: "n < 10 \<Longrightarrow> charDigit (digitChar n) = Some n"
  by (simp add: charDigit_def digitChar_def)

fun readNat :: "string \<Rightarrow> nat \<Rightarrow> nat option" where
  "readNat [] acc = Some acc"
| "readNat (c # cs) acc = (case charDigit c of None \<Rightarrow> None | Some d \<Rightarrow> readNat cs (10 * acc + d))"

lemma readNat_append:
  "readNat (xs @ ys) acc = (case readNat xs acc of None \<Rightarrow> None | Some a \<Rightarrow> readNat ys a)"
  by (induction xs arbitrary: acc) (auto split: option.splits)

lemma readNat_showNat [simp]: "readNat (showNat n) 0 = Some n"
proof (induction n rule: showNat.induct)
  case (1 n)
  then show ?case
    by (cases "n < 10") (simp_all add: showNat.simps[of n] readNat_append)
qed

lemma showNat_not_Nil [simp]: "showNat n \<noteq> []"
  by (simp add: showNat.simps)

subsection \<open>Interface: self-delimiting encodings\<close>

text \<open>
  \<open>put\<close> writes a value in front of any remaining bytes and \<open>get\<close> reads it back, returning
  the rest. Every wire field of the components below is such an encoding.
\<close>

locale stream_codec =
  fixes valid :: "'a \<Rightarrow> bool"
    and put :: "'a \<Rightarrow> byte list"
    and get :: "byte list \<Rightarrow> ('e, 'a \<times> byte list) res"
  assumes get_put: "valid x \<Longrightarrow> get (put x @ rest) = Inr (x, rest)"
begin

lemma put_prefix_free:
  assumes "valid x" and "valid y" and "put x @ r = put y @ s"
  shows "x = y \<and> r = s"
proof -
  have "(Inr (x, r) :: ('e, 'a \<times> byte list) res) = get (put x @ r)"
    by (rule get_put [OF assms(1), symmetric])
  also have "\<dots> = Inr (y, s)"
    unfolding assms(3) by (rule get_put [OF assms(2)])
  finally have "(Inr (x, r) :: ('e, 'a \<times> byte list) res) = Inr (y, s)" .
  then show ?thesis by simp
qed

lemma put_inj: "valid x \<Longrightarrow> valid y \<Longrightarrow> put x = put y \<Longrightarrow> x = y"
  using put_prefix_free[of x y "[]" "[]"] by simp

lemma concat_put_inj:
  assumes "\<forall>x \<in> set xs. valid x" and "\<forall>y \<in> set ys. valid y" and "length xs = length ys"
    and "concat (map put xs) @ r = concat (map put ys) @ s"
  shows "xs = ys \<and> r = s"
  using assms(3,1,2,4)
proof (induction xs ys arbitrary: r s rule: list_induct2)
  case Nil
  then show ?case by simp
next
  case (Cons x xs y ys)
  then have "x = y \<and> concat (map put xs) @ r = concat (map put ys) @ s"
    by (intro put_prefix_free) auto
  with Cons show ?case by auto
qed

end

subsection \<open>Interface: guarded transition systems\<close>

text \<open>
  States reached from an initial state by steps. A component proves that its invariant holds
  initially and that each step keeps it; the invariant then holds in every reachable state.
\<close>

inductive reachable :: "('s \<Rightarrow> bool) \<Rightarrow> ('s \<Rightarrow> 's \<Rightarrow> bool) \<Rightarrow> 's \<Rightarrow> bool"
  for init :: "'s \<Rightarrow> bool" and step :: "'s \<Rightarrow> 's \<Rightarrow> bool" where
  start: "init s \<Longrightarrow> reachable init step s"
| next_step: "reachable init step s \<Longrightarrow> step s t \<Longrightarrow> reachable init step t"

locale guarded_system =
  fixes init :: "'s \<Rightarrow> bool"
    and step :: "'s \<Rightarrow> 's \<Rightarrow> bool"
    and inv :: "'s \<Rightarrow> bool"
  assumes init_inv: "init s \<Longrightarrow> inv s"
    and step_inv: "inv s \<Longrightarrow> step s t \<Longrightarrow> inv t"
begin

lemma reachable_inv: "reachable init step s \<Longrightarrow> inv s"
  by (induction rule: reachable.induct) (auto intro: init_inv step_inv)

lemma steps_inv: "step\<^sup>*\<^sup>* s t \<Longrightarrow> inv s \<Longrightarrow> inv t"
  by (induction rule: rtranclp_induct) (auto intro: step_inv)

lemma reachable_steps: "step\<^sup>*\<^sup>* s t \<Longrightarrow> reachable init step s \<Longrightarrow> reachable init step t"
  by (induction rule: rtranclp_induct) (auto intro: reachable.next_step)

end

end
