(* ===== verification/GoText.thy ===== *)
theory GoText
  imports Prelude
begin

text \<open>
  Text as the Go standard library has it. A string that holds text is the list of runes that
  ranging over it yields; a string of raw bytes is a byte list. This theory has the UTF-8 and
  UTF-16 codecs (\<open>unicode/utf8\<close>, \<open>unicode/utf16\<close>), \<open>encoding/hex\<close>, \<open>strings.TrimSpace\<close> and
  \<open>strings.ToUpper\<close>, and the facts about them the message components use. Runes above 127 are
  upper-cased by a parameter, the table of the \<open>unicode\<close> package.
\<close>

type_synonym gostring = "rune list"

abbreviation runes :: "string \<Rightarrow> gostring" where
  "runes \<equiv> map of_char"

definition replacementChar :: rune where
  "replacementChar = 0xFFFD"

definition scalar :: "rune \<Rightarrow> bool" where
  "scalar r \<longleftrightarrow> r < 0xD800 \<or> 0xE000 \<le> r \<and> r < 0x110000"

subsection \<open>White space and case\<close>

definition isSpace :: "rune \<Rightarrow> bool" where
  "isSpace r \<longleftrightarrow> r \<in> {9, 10, 11, 12, 13, 32, 0x85, 0xA0, 0x1680, 0x2028, 0x2029, 0x202F, 0x205F, 0x3000}
     \<or> 0x2000 \<le> r \<and> r \<le> 0x200A"

definition TrimSpace :: "gostring \<Rightarrow> gostring" where
  "TrimSpace s = rev (dropWhile isSpace (rev (dropWhile isSpace s)))"

definition upperRune :: "(rune \<Rightarrow> rune) \<Rightarrow> rune \<Rightarrow> rune" where
  "upperRune tbl r = (if r < 128 then (if 97 \<le> r \<and> r \<le> 122 then r - 32 else r) else tbl r)"

definition ToUpper :: "(rune \<Rightarrow> rune) \<Rightarrow> gostring \<Rightarrow> gostring" where
  "ToUpper tbl s = map (upperRune tbl) s"

lemma TrimSpace_no_space [simp]:
  assumes "\<forall>r \<in> set s. \<not> isSpace r"
  shows "TrimSpace s = s"
proof -
  have drop: "dropWhile isSpace t = t" if "\<forall>r \<in> set t. \<not> isSpace r" for t
    using that by (cases t) auto
  show ?thesis using assms drop[of s] drop[of "rev s"] by (simp add: TrimSpace_def)
qed

lemma set_TrimSpace: "set (TrimSpace s) \<subseteq> set s"
  unfolding TrimSpace_def by (auto dest!: set_dropWhileD)

lemma ToUpper_id: "\<forall>r \<in> set s. r < 128 \<and> \<not> (97 \<le> r \<and> r \<le> 122) \<Longrightarrow> ToUpper tbl s = s"
  unfolding ToUpper_def by (rule map_idI) (auto simp: upperRune_def)

subsection \<open>Hexadecimal\<close>

definition hexDigit :: "nat \<Rightarrow> rune" where
  "hexDigit n = (if n < 10 then 48 + n else 87 + n)"

definition hexValue :: "rune \<Rightarrow> nat option" where
  "hexValue r = (if 48 \<le> r \<and> r \<le> 57 then Some (r - 48)
     else if 97 \<le> r \<and> r \<le> 102 then Some (r - 87)
     else if 65 \<le> r \<and> r \<le> 70 then Some (r - 55) else None)"

fun hexEncode :: "byte list \<Rightarrow> gostring" where
  "hexEncode [] = []"
| "hexEncode (b # bs) = hexDigit (unat b div 16) # hexDigit (unat b mod 16) # hexEncode bs"

fun hexDecode :: "gostring \<Rightarrow> byte list option" where
  "hexDecode [] = Some []"
| "hexDecode [_] = None"
| "hexDecode (h # l # rest) =
     (case (hexValue h, hexValue l, hexDecode rest) of
        (Some a, Some b, Some bs) \<Rightarrow> Some (word_of_nat (a * 16 + b) # bs)
      | _ \<Rightarrow> None)"

text \<open>\<open>strings.ToUpper(hex.EncodeToString(bs))\<close>: the digits are ASCII, so no table is needed.\<close>

definition hexUpper :: "byte list \<Rightarrow> gostring" where
  "hexUpper bs = ToUpper (\<lambda>r. r) (hexEncode bs)"

lemma hexValue_hexDigit [simp]: "n < 16 \<Longrightarrow> hexValue (hexDigit n) = Some n"
  by (auto simp: hexValue_def hexDigit_def)

lemma hexValue_upper_hexDigit [simp]: "n < 16 \<Longrightarrow> hexValue (upperRune tbl (hexDigit n)) = Some n"
  by (auto simp: hexValue_def hexDigit_def upperRune_def)

lemma byte_nibbles: "word_of_nat (unat b div 16 * 16 + unat b mod 16) = (b :: byte)"
  by (simp add: div_mult_mod_eq)

lemma unat_byte_less [simp]: "unat (b :: byte) < 256"
  using unsigned_less[of b] by simp

lemma hexDecode_hexEncode [simp]: "hexDecode (hexEncode bs) = Some bs"
  by (induction bs) (auto simp: byte_nibbles less_mult_imp_div_less simp del: word_of_nat_eq_0_iff)

lemma hexDecode_ToUpper [simp]: "hexDecode (ToUpper tbl (hexEncode bs)) = Some bs"
  by (induction bs) (auto simp: ToUpper_def byte_nibbles less_mult_imp_div_less)

lemma hexDecode_hexUpper [simp]: "hexDecode (hexUpper bs) = Some bs"
  by (simp add: hexUpper_def)

lemma set_hexEncode: "r \<in> set (hexEncode bs) \<Longrightarrow> 48 \<le> r \<and> r \<le> 57 \<or> 97 \<le> r \<and> r \<le> 102"
proof (induction bs)
  case (Cons b bs)
  have "unat b div 16 < 16" "unat b mod 16 < 16" by (auto simp: less_mult_imp_div_less)
  with Cons show ?case by (auto simp: hexDigit_def split: if_splits)
qed simp

lemma set_hexUpper: "r \<in> set (hexUpper bs) \<Longrightarrow> 48 \<le> r \<and> r \<le> 57 \<or> 65 \<le> r \<and> r \<le> 70"
  by (auto simp: hexUpper_def ToUpper_def upperRune_def dest!: set_hexEncode)

lemma TrimSpace_hexEncode [simp]: "TrimSpace (hexEncode bs) = hexEncode bs"
  by (rule TrimSpace_no_space) (auto simp: isSpace_def dest!: set_hexEncode)

lemma length_hexEncode [simp]: "length (hexEncode bs) = 2 * length bs"
  by (induction bs) auto

subsection \<open>UTF-8\<close>

definition utf8Rune :: "rune \<Rightarrow> byte list" where
  "utf8Rune r = map word_of_nat
     (if r < 0x80 then [r]
      else if r < 0x800 then [0xC0 + r div 64, 0x80 + r mod 64]
      else if r < 0x10000 then [0xE0 + r div 4096, 0x80 + r div 64 mod 64, 0x80 + r mod 64]
      else [0xF0 + r div 262144, 0x80 + r div 4096 mod 64, 0x80 + r div 64 mod 64, 0x80 + r mod 64])"

definition utf8Encode :: "gostring \<Rightarrow> byte list" where
  "utf8Encode s = concat (map utf8Rune s)"

definition between :: "nat \<Rightarrow> nat \<Rightarrow> byte \<Rightarrow> bool" where
  "between lo hi b \<longleftrightarrow> lo \<le> unat b \<and> unat b \<le> hi"

abbreviation continuation :: "byte \<Rightarrow> bool" where
  "continuation \<equiv> between 0x80 0xBF"

text \<open>\<open>utf8.DecodeRune\<close>: the rune and its width, or None where Go yields \<open>RuneError\<close> of width 1.\<close>

fun utf8DecodeRune :: "byte list \<Rightarrow> (rune \<times> nat) option" where
  "utf8DecodeRune (a # bs) =
    (let x = unat a in
     if x < 0x80 then Some (x, 1)
     else if x < 0xC2 then None
     else if x < 0xE0 then
       (case bs of b # _ \<Rightarrow> if continuation b then Some (x mod 32 * 64 + unat b mod 64, 2) else None | _ \<Rightarrow> None)
     else if x < 0xF0 then
       (case bs of b # c # _ \<Rightarrow>
          if between (if x = 0xE0 then 0xA0 else 0x80) (if x = 0xED then 0x9F else 0xBF) b \<and> continuation c
          then Some (x mod 16 * 4096 + unat b mod 64 * 64 + unat c mod 64, 3) else None | _ \<Rightarrow> None)
     else if x < 0xF5 then
       (case bs of b # c # d # _ \<Rightarrow>
          if between (if x = 0xF0 then 0x90 else 0x80) (if x = 0xF4 then 0x8F else 0xBF) b
             \<and> continuation c \<and> continuation d
          then Some (x mod 8 * 262144 + unat b mod 64 * 4096 + unat c mod 64 * 64 + unat d mod 64, 4)
          else None | _ \<Rightarrow> None)
     else None)"
| "utf8DecodeRune [] = None"

lemma utf8DecodeRune_width: "utf8DecodeRune bs = Some (r, n) \<Longrightarrow> 0 < n \<and> n \<le> length bs"
  by (cases bs) (auto simp: Let_def split: if_splits list.splits)

function utf8Decode :: "byte list \<Rightarrow> gostring" where
  "utf8Decode [] = []"
| "utf8Decode (b # bs) =
    (case utf8DecodeRune (b # bs) of
       Some (r, n) \<Rightarrow> r # utf8Decode (drop (n - 1) bs)
     | None \<Rightarrow> replacementChar # utf8Decode bs)"
  by pat_completeness auto
termination by (relation "measure length") (auto simp: less_Suc_eq_le)

function utf8Valid :: "byte list \<Rightarrow> bool" where
  "utf8Valid [] = True"
| "utf8Valid (b # bs) =
    (case utf8DecodeRune (b # bs) of
       Some (r, n) \<Rightarrow> utf8Valid (drop (n - 1) bs)
     | None \<Rightarrow> False)"
  by pat_completeness auto
termination by (relation "measure length") (auto simp: less_Suc_eq_le)

lemma base64_digits:
  fixes r :: nat
  obtains a b c d where "r = a * 262144 + b * 4096 + c * 64 + d" "b < 64" "c < 64" "d < 64"
    "r div 262144 = a" "r div 4096 mod 64 = b" "r div 64 mod 64 = c" "r mod 64 = d"
    "r div 4096 = a * 64 + b" "r div 64 = a * 4096 + b * 64 + c"
proof -
  define p q where "p = r div 64" and "q = p div 64"
  have q: "q = r div 4096" and a: "q div 64 = r div 262144"
    unfolding p_def q_def by (simp_all flip: div_mult2_eq)
  have "r = p * 64 + r mod 64" "p = q * 64 + p mod 64" "q = q div 64 * 64 + q mod 64"
    by (simp_all add: p_def q_def)
  then have "r = q div 64 * 262144 + q mod 64 * 4096 + p mod 64 * 64 + r mod 64"
    and "q = q div 64 * 64 + q mod 64" and "p = q div 64 * 4096 + q mod 64 * 64 + p mod 64"
    by linarith+
  then show thesis
    by (intro that[of "q div 64" "q mod 64" "p mod 64" "r mod 64"]) (simp_all only: p_def[symmetric] q[symmetric] a[symmetric], simp_all)
qed

lemma mod_offset: "(k :: nat) mod m = 0 \<Longrightarrow> c < m \<Longrightarrow> (k + c) mod m = c"
  by (metis add_0 mod_add_left_eq mod_less)

lemma utf8DecodeRune_utf8Rune:
  assumes "scalar r"
  shows "utf8DecodeRune (utf8Rune r @ bs) = Some (r, length (utf8Rune r))"
proof -
  obtain a b c d where r: "r = a * 262144 + b * 4096 + c * 64 + d" and d: "b < 64" "c < 64" "d < 64"
    and dm: "r div 262144 = a" "r div 4096 mod 64 = b" "r div 64 mod 64 = c" "r mod 64 = d"
    "r div 4096 = a * 64 + b" "r div 64 = a * 4096 + b * 64 + c"
    by (rule base64_digits)
  note unats = unat_of_nat8
  consider "r < 0x80" | "0x80 \<le> r" "r < 0x800" | "0x800 \<le> r" "r < 0x10000" | "0x10000 \<le> r" "r < 0x110000"
    using assms unfolding scalar_def by linarith
  then show ?thesis
  proof cases
    case 1
    then show ?thesis by (simp add: utf8Rune_def unats)
  next
    case 2
    then have ab: "a = 0" "b = 0" using r d by auto
    then have ab: "a = 0" "b = 0" "2 \<le> c" "c < 32" using r d 2 by linarith+
    define x y where "x = 0xC0 + c" and "y = 0x80 + d"
    have "utf8Rune r = [word_of_nat x, word_of_nat y]"
      using 2 ab d by (simp only: utf8Rune_def dm x_def y_def) simp
    moreover have "x < 0xE0" "0xC2 \<le> x" "0x80 \<le> y" "y \<le> 0xBF" "x mod 32 = c" "y mod 64 = d"
      using ab d by (auto simp: x_def y_def mod_offset)
    ultimately show ?thesis using r ab by (simp add: unats between_def)
  next
    case 3
    then have "a = 0" using r d by auto
    then have ab: "a = 0" "b < 16" "b = 0 \<longrightarrow> 0x20 \<le> c" using r d 3 by linarith+
    have sur: "b = 13 \<longrightarrow> c < 0x20" using assms r d ab(1) unfolding scalar_def by auto
    define x y z where "x = 0xE0 + b" and "y = 0x80 + c" and "z = 0x80 + d"
    have "utf8Rune r = [word_of_nat x, word_of_nat y, word_of_nat z]"
      using 3 ab d by (simp only: utf8Rune_def dm x_def y_def z_def) simp
    moreover have "x < 0xF0" "0xE0 \<le> x" "0x80 \<le> y" "y \<le> 0xBF" "0x80 \<le> z" "z \<le> 0xBF"
      "x mod 16 = b" "y mod 64 = c" "z mod 64 = d" "x = 0xE0 \<longrightarrow> 0xA0 \<le> y" "x = 0xED \<longrightarrow> y \<le> 0x9F"
      using ab sur d by (auto simp: x_def y_def z_def mod_offset)
    ultimately show ?thesis using r ab by (simp add: unats between_def)
  next
    case 4
    then have ab: "a < 5" "a = 0 \<longrightarrow> 0x10 \<le> b" "a = 4 \<longrightarrow> b < 0x10" using r d by linarith+
    define x y z w where "x = 0xF0 + a" and "y = 0x80 + b" and "z = 0x80 + c" and "w = 0x80 + d"
    have "utf8Rune r = [word_of_nat x, word_of_nat y, word_of_nat z, word_of_nat w]"
      using 4 ab d by (simp only: utf8Rune_def dm(1-4) x_def y_def z_def w_def) simp
    moreover have "x < 0xF5" "0xF0 \<le> x" "0x80 \<le> y" "y \<le> 0xBF" "0x80 \<le> z" "z \<le> 0xBF" "0x80 \<le> w" "w \<le> 0xBF"
      "x mod 8 = a" "y mod 64 = b" "z mod 64 = c" "w mod 64 = d"
      "x = 0xF0 \<longrightarrow> 0x90 \<le> y" "x = 0xF4 \<longrightarrow> y \<le> 0x8F"
      using ab d by (auto simp: x_def y_def z_def w_def mod_offset)
    ultimately show ?thesis using r ab by (simp add: unats between_def)
  qed
qed

lemma utf8Rune_not_Nil [simp]: "utf8Rune r \<noteq> []"
  by (simp add: utf8Rune_def)

lemma utf8Decode_utf8Encode [simp]: "\<forall>r \<in> set s. scalar r \<Longrightarrow> utf8Decode (utf8Encode s) = s"
proof (induction s)
  case Nil
  then show ?case by (simp add: utf8Encode_def)
next
  case (Cons r s)
  obtain b bs where b: "utf8Rune r = b # bs" by (cases "utf8Rune r") auto
  have "utf8DecodeRune (b # bs @ utf8Encode s) = Some (r, Suc (length bs))"
    using utf8DecodeRune_utf8Rune[of r "utf8Encode s"] Cons.prems b by simp
  then show ?case using Cons b by (simp add: utf8Encode_def)
qed

lemma utf8Valid_utf8Encode [simp]: "\<forall>r \<in> set s. scalar r \<Longrightarrow> utf8Valid (utf8Encode s)"
proof (induction s)
  case Nil
  then show ?case by (simp add: utf8Encode_def)
next
  case (Cons r s)
  obtain b bs where b: "utf8Rune r = b # bs" by (cases "utf8Rune r") auto
  have "utf8DecodeRune (b # bs @ utf8Encode s) = Some (r, Suc (length bs))"
    using utf8DecodeRune_utf8Rune[of r "utf8Encode s"] Cons.prems b by simp
  then show ?case using Cons b by (simp add: utf8Encode_def)
qed

lemma utf8Encode_ascii: "\<forall>r \<in> set s. r < 128 \<Longrightarrow> utf8Encode s = map word_of_nat s"
  by (induction s) (auto simp: utf8Encode_def utf8Rune_def)

subsection \<open>UTF-16\<close>

definition utf16Rune :: "rune \<Rightarrow> 16 word list" where
  "utf16Rune r = map word_of_nat
     (if scalar r then
        if r < 0x10000 then [r] else [0xD800 + (r - 0x10000) div 1024, 0xDC00 + (r - 0x10000) mod 1024]
      else [replacementChar])"

definition utf16Encode :: "gostring \<Rightarrow> 16 word list" where
  "utf16Encode s = concat (map utf16Rune s)"

definition isHigh :: "16 word \<Rightarrow> bool" where
  "isHigh u \<longleftrightarrow> 0xD800 \<le> unat u \<and> unat u \<le> 0xDBFF"

definition isLow :: "16 word \<Rightarrow> bool" where
  "isLow u \<longleftrightarrow> 0xDC00 \<le> unat u \<and> unat u \<le> 0xDFFF"

definition utf16IsSurrogate :: "16 word \<Rightarrow> bool" where
  "utf16IsSurrogate u \<longleftrightarrow> 0xD800 \<le> unat u \<and> unat u < 0xE000"

fun utf16Decode :: "16 word list \<Rightarrow> gostring" where
  "utf16Decode [] = []"
| "utf16Decode [u] = [if utf16IsSurrogate u then replacementChar else unat u]"
| "utf16Decode (u # v # us) =
    (if isHigh u \<and> isLow v
     then ((unat u - 0xD800) * 1024 + (unat v - 0xDC00) + 0x10000) # utf16Decode us
     else (if utf16IsSurrogate u then replacementChar else unat u) # utf16Decode (v # us))"

lemma utf16Decode_Cons_plain:
  "\<not> (isHigh u \<and> us \<noteq> [] \<and> isLow (hd us)) \<Longrightarrow>
   utf16Decode (u # us) = (if utf16IsSurrogate u then replacementChar else unat u) # utf16Decode us"
  by (cases us) auto

lemma utf16Decode_append:
  "\<not> (xs \<noteq> [] \<and> ys \<noteq> [] \<and> isHigh (last xs) \<and> isLow (hd ys)) \<Longrightarrow>
   utf16Decode (xs @ ys) = utf16Decode xs @ utf16Decode ys"
proof (induction xs rule: utf16Decode.induct)
  case 1
  then show ?case by simp
next
  case (2 u)
  then show ?case by (simp add: utf16Decode_Cons_plain)
next
  case (3 u v us)
  then show ?case by (cases us) auto
qed

lemma utf16Rune_decode:
  assumes "scalar r"
  shows "utf16Decode (utf16Rune r @ us) = r # utf16Decode us"
proof (cases "r < 0x10000")
  case True
  then show ?thesis using assms
    by (auto simp: utf16Rune_def unat_of_nat16 scalar_def isHigh_def utf16IsSurrogate_def utf16Decode_Cons_plain)
next
  case False
  define h l where "h = 0xD800 + (r - 0x10000) div 1024" and "l = 0xDC00 + (r - 0x10000) mod 1024"
  have r: "r < 0x110000" "0x10000 \<le> r" using assms False by (auto simp: scalar_def)
  then have "(r - 0x10000) div 1024 < 1024" by (simp add: less_mult_imp_div_less)
  then have h: "0xD800 \<le> h" "h \<le> 0xDBFF" by (auto simp: h_def)
  have "(r - 0x10000) mod 1024 < 1024" by simp
  then have l: "0xDC00 \<le> l" "l \<le> 0xDFFF" by (auto simp: l_def)
  have "(r - 0x10000) div 1024 * 1024 + (r - 0x10000) mod 1024 + 0x10000 = r" using r by simp
  then have "(h - 0xD800) * 1024 + (l - 0xDC00) + 0x10000 = r" by (simp add: h_def l_def)
  moreover have "utf16Rune r = [word_of_nat h, word_of_nat l]"
    using assms False by (simp only: utf16Rune_def h_def l_def) simp
  ultimately show ?thesis using h l by (simp add: isHigh_def isLow_def unat_of_nat16)
qed

lemma utf16Decode_utf16Encode [simp]: "\<forall>r \<in> set s. scalar r \<Longrightarrow> utf16Decode (utf16Encode s) = s"
  by (induction s) (auto simp: utf16Encode_def utf16Rune_decode)

end
