(* ===== verification/GoStrings.thy ===== *)
theory GoStrings
  imports GoText
begin

text \<open>
  The part of the \<open>strings\<close>, \<open>bytes\<close> and \<open>strconv\<close> packages that the text protocols use: reading the
  bytes of a packet as text, splitting, joining, trimming and folding, and decimal numbers. The
  runes of a string read from the wire are those of ranging over it, except that a byte that is
  not part of a valid encoding stands for itself, as the code 0x110000 plus the byte, so that no
  two byte strings have the same text.
\<close>

named_theorems text_simps "evaluation of the string functions"

function textOf :: "byte list \<Rightarrow> gostring" where
  "textOf [] = []"
| "textOf (b # bs) =
    (case utf8DecodeRune (b # bs) of
       Some (r, n) \<Rightarrow> r # textOf (drop (n - 1) bs)
     | None \<Rightarrow> (0x110000 + unat b) # textOf bs)"
  by pat_completeness auto
termination by (relation "measure length") (auto simp: less_Suc_eq_le)

definition runeBytes :: "rune \<Rightarrow> byte list" where
  "runeBytes r = (if 0x110000 \<le> r then [word_of_nat (r - 0x110000)] else utf8Rune r)"

text \<open>\<open>[]byte(s)\<close>.\<close>

definition bytesOf :: "gostring \<Rightarrow> byte list" where
  "bytesOf s = concat (map runeBytes s)"

lemma bytesOf_simps [simp]:
  "bytesOf [] = []"
  "bytesOf (r # s) = runeBytes r @ bytesOf s"
  "bytesOf (s @ t) = bytesOf s @ bytesOf t"
  by (simp_all add: bytesOf_def)

lemma runeBytes_ascii: "r < 128 \<Longrightarrow> runeBytes r = [word_of_nat r]"
  by (simp add: runeBytes_def utf8Rune_def)

lemma textOf_ascii_Cons: "unat b < 128 \<Longrightarrow> textOf (b # bs) = unat b # textOf bs"
  by (simp add: Let_def)

lemma runeBytes_scalar: "scalar r \<Longrightarrow> runeBytes r = utf8Rune r"
  by (auto simp: runeBytes_def scalar_def)

lemma textOf_rune: "scalar r \<Longrightarrow> textOf (runeBytes r @ bs) = r # textOf bs"
proof -
  assume r: "scalar r"
  obtain x xs where x: "utf8Rune r = x # xs" by (cases "utf8Rune r") auto
  have "utf8DecodeRune (x # xs @ bs) = Some (r, Suc (length xs))"
    using utf8DecodeRune_utf8Rune[OF r, of bs] x by simp
  then show ?thesis using r x by (simp add: runeBytes_scalar)
qed

lemma textOf_bytesOf_append: "\<forall>r \<in> set s. scalar r \<Longrightarrow> textOf (bytesOf s @ bs) = s @ textOf bs"
  by (induction s) (auto simp: textOf_rune)

lemma textOf_bytesOf [simp]: "\<forall>r \<in> set s. scalar r \<Longrightarrow> textOf (bytesOf s) = s"
  using textOf_bytesOf_append[of s "[]"] by simp

lemma utf8Rune_bytes:
  assumes "scalar r" "128 \<le> r" "x \<in> set (utf8Rune r)"
  shows "128 \<le> unat x"
proof -
  have m: "r mod 64 < 64" "r div 64 mod 64 < 64" "r div 4096 mod 64 < 64" by simp_all
  have big: "128 \<le> unat (word_of_nat n :: byte)" if "128 \<le> n" "n < 256" for n
    using that by (simp add: unat_of_nat8)
  consider "r < 0x800" | "0x800 \<le> r" "r < 0x10000" | "0x10000 \<le> r" "r < 0x110000"
    using assms(1) unfolding scalar_def by linarith
  then show ?thesis
  proof cases
    case 1
    then have "r div 64 < 32" by (simp add: less_mult_imp_div_less)
    then have "x = word_of_nat (0xC0 + r div 64) \<or> x = word_of_nat (0x80 + r mod 64)" and "0xC0 + r div 64 < 256"
      using assms 1 by (simp_all only: utf8Rune_def) auto
    then show ?thesis using m big[of "0xC0 + r div 64"] big[of "0x80 + r mod 64"] by auto
  next
    case 2
    then have d: "r div 4096 < 16" by (simp add: less_mult_imp_div_less)
    have "x = word_of_nat (0xE0 + r div 4096) \<or> x = word_of_nat (0x80 + r div 64 mod 64) \<or> x = word_of_nat (0x80 + r mod 64)"
      using assms 2 by (simp only: utf8Rune_def) auto
    then show ?thesis using m d big[of "0xE0 + r div 4096"] big[of "0x80 + r div 64 mod 64"] big[of "0x80 + r mod 64"] by auto
  next
    case 3
    then have d: "r div 262144 < 5" by (simp add: less_mult_imp_div_less)
    have "x = word_of_nat (0xF0 + r div 262144) \<or> x = word_of_nat (0x80 + r div 4096 mod 64)
       \<or> x = word_of_nat (0x80 + r div 64 mod 64) \<or> x = word_of_nat (0x80 + r mod 64)"
      using assms 3 by (simp only: utf8Rune_def) auto
    then show ?thesis using m d big[of "0xF0 + r div 262144"] big[of "0x80 + r div 4096 mod 64"]
        big[of "0x80 + r div 64 mod 64"] big[of "0x80 + r mod 64"] by auto
  qed
qed

lemma runeBytes_plain: "scalar r \<Longrightarrow> r \<noteq> 10 \<Longrightarrow> 10 \<notin> set (runeBytes r)"
proof (cases "r < 128")
  case True
  assume "scalar r" "r \<noteq> 10"
  then show ?thesis using True by (auto simp: runeBytes_ascii dest!: arg_cong[of _ _ unat] simp: unat_of_nat8)
next
  case False
  assume "scalar r" "r \<noteq> 10"
  then show ?thesis using False utf8Rune_bytes[of r 10] by (auto simp: runeBytes_scalar)
qed

subsection \<open>Case, prefixes and fields\<close>

definition lowerRune :: "(rune \<Rightarrow> rune) \<Rightarrow> rune \<Rightarrow> rune" where
  "lowerRune lo r = (if r < 128 then (if 65 \<le> r \<and> r \<le> 90 then r + 32 else r) else lo r)"

definition ToLower :: "(rune \<Rightarrow> rune) \<Rightarrow> gostring \<Rightarrow> gostring" where
  "ToLower lo s = map (lowerRune lo) s"

text \<open>
  \<open>strings.EqualFold(s, t)\<close> for a \<open>t\<close> of ASCII letters: simple folding makes the long s and the Kelvin
  sign equal to a letter of ASCII, and no other rune.
\<close>

definition foldRune :: "rune \<Rightarrow> rune" where
  "foldRune r = (if 65 \<le> r \<and> r \<le> 90 then r + 32 else if r = 0x17F then 115 else if r = 0x212A then 107 else r)"

definition EqualFold :: "gostring \<Rightarrow> gostring \<Rightarrow> bool" where
  "EqualFold s t \<longleftrightarrow> map foldRune s = map foldRune t"

definition HasPrefix :: "gostring \<Rightarrow> gostring \<Rightarrow> bool" where
  "HasPrefix s p \<longleftrightarrow> take (length p) s = p"

function Fields :: "gostring \<Rightarrow> gostring list" where
  "Fields s = (let t = dropWhile isSpace s in
     if t = [] then [] else takeWhile (\<lambda>r. \<not> isSpace r) t # Fields (dropWhile (\<lambda>r. \<not> isSpace r) t))"
  by pat_completeness auto
termination
proof (relation "measure length", simp)
  fix s t :: gostring
  assume t: "t = dropWhile isSpace s" and ne: "t \<noteq> []"
  then have "\<not> isSpace (hd t)" by (metis hd_dropWhile)
  then have "length (dropWhile (\<lambda>r. \<not> isSpace r) t) < length t"
    using ne by (cases t) (auto simp: length_dropWhile_le le_imp_less_Suc)
  also have "length t \<le> length s" by (simp add: t length_dropWhile_le)
  finally show "(dropWhile (\<lambda>r. \<not> isSpace r) t, s) \<in> measure length" by simp
qed

declare Fields.simps [simp del]

text \<open>\<open>strings.Split(s, sep)\<close> for a separator of one rune, and \<open>strings.Cut\<close>, \<open>strings.Join\<close>.\<close>

fun splitOn :: "rune \<Rightarrow> gostring \<Rightarrow> gostring list" where
  "splitOn c [] = [[]]"
| "splitOn c (r # s) = (if r = c then [] # splitOn c s
     else (case splitOn c s of f # fs \<Rightarrow> (r # f) # fs | [] \<Rightarrow> [[r]]))"

definition Cut :: "rune \<Rightarrow> gostring \<Rightarrow> (gostring \<times> gostring) option" where
  "Cut c s = (case dropWhile (\<lambda>r. r \<noteq> c) s of [] \<Rightarrow> None | _ # t \<Rightarrow> Some (takeWhile (\<lambda>r. r \<noteq> c) s, t))"

fun joinWith :: "gostring \<Rightarrow> gostring list \<Rightarrow> gostring" where
  "joinWith sep [] = []"
| "joinWith sep [s] = s"
| "joinWith sep (s # t # ts) = s @ sep @ joinWith sep (t # ts)"

text \<open>\<open>strings.ReplaceAll(s, "\r\n", "\n")\<close>.\<close>

fun unixLines :: "gostring \<Rightarrow> gostring" where
  "unixLines (r # r' # s) = (if r = 13 \<and> r' = 10 then 10 # unixLines s else r # unixLines (r' # s))"
| "unixLines s = s"

text \<open>\<open>bytes.Index\<close>.\<close>

fun indexOf :: "'a list \<Rightarrow> 'a list \<Rightarrow> nat option" where
  "indexOf p [] = (if p = [] then Some 0 else None)"
| "indexOf p (x # xs) = (if take (length p) (x # xs) = p then Some 0 else map_option Suc (indexOf p xs))"

subsection \<open>Decimal numbers\<close>

definition decimal :: "rune \<Rightarrow> bool" where
  "decimal r \<longleftrightarrow> 48 \<le> r \<and> r \<le> 57"

definition decimalValue :: "gostring \<Rightarrow> nat" where
  "decimalValue s = foldl (\<lambda>n r. 10 * n + (r - 48)) 0 s"

text \<open>\<open>strconv.Atoi\<close> on 64 bits: an optional sign, digits, and a range.\<close>

definition Atoi :: "gostring \<Rightarrow> int option" where
  "Atoi s =
    (let digits = (case s of r # t \<Rightarrow> if r = 43 \<or> r = 45 then t else s | [] \<Rightarrow> s);
         v = int (decimalValue digits);
         n = (if s \<noteq> [] \<and> hd s = 45 then - v else v) in
     if digits \<noteq> [] \<and> list_all decimal digits \<and> - (2 ^ 63) \<le> n \<and> n < 2 ^ 63 then Some n else None)"

text \<open>\<open>strconv.ParseUint(s, 10, bits)\<close>.\<close>

definition ParseUint :: "gostring \<Rightarrow> nat \<Rightarrow> nat option" where
  "ParseUint s width =
    (if s \<noteq> [] \<and> list_all decimal s \<and> decimalValue s < 2 ^ width then Some (decimalValue s) else None)"

fun Itoa :: "nat \<Rightarrow> gostring" where
  "Itoa n = (if n < 10 then [48 + n] else Itoa (n div 10) @ [48 + n mod 10])"

declare Itoa.simps [simp del]

lemma Itoa_decimal: "list_all decimal (Itoa n)"
proof (induction n rule: Itoa.induct)
  case (1 n)
  then show ?case by (cases "n < 10") (auto simp: Itoa.simps[of n] decimal_def)
qed

lemma Itoa_not_Nil [simp]: "Itoa n \<noteq> []"
  by (subst Itoa.simps) simp

lemma decimalValue_snoc: "decimalValue (s @ [r]) = 10 * decimalValue s + (r - 48)"
  by (simp add: decimalValue_def)

lemma decimalValue_Itoa [simp]: "decimalValue (Itoa n) = n"
proof (induction n rule: Itoa.induct)
  case (1 n)
  show ?case
  proof (cases "n < 10")
    case True
    then show ?thesis by (simp add: Itoa.simps[of n] decimalValue_def)
  next
    case False
    then show ?thesis using 1 by (simp add: Itoa.simps[of n] decimalValue_snoc)
  qed
qed

lemma Itoa_range: "r \<in> set (Itoa n) \<Longrightarrow> 48 \<le> r \<and> r \<le> 57"
  using Itoa_decimal[of n] by (auto simp: list_all_iff decimal_def)

lemma Atoi_Itoa: "n < 2 ^ 63 \<Longrightarrow> Atoi (Itoa n) = Some (int n)"
proof -
  assume n: "n < 2 ^ 63"
  obtain r t where r: "Itoa n = r # t" by (cases "Itoa n") auto
  have range: "48 \<le> r" using Itoa_range[of r n] r by simp
  have v: "decimalValue (r # t) = n" using decimalValue_Itoa[of n] r by simp
  have "int n < 2 ^ 63" using n by (metis of_nat_less_iff of_nat_numeral of_nat_power)
  then show ?thesis using Itoa_decimal[of n] r range v by (simp add: Atoi_def Let_def)
qed

lemma ParseUint_Itoa: "n < 2 ^ width \<Longrightarrow> ParseUint (Itoa n) width = Some n"
  by (simp add: ParseUint_def Itoa_decimal)

subsection \<open>Splitting and joining\<close>

lemma splitOn_not_Nil [simp]: "splitOn c s \<noteq> []"
  by (cases s) (auto split: list.splits)

lemma splitOn_plain: "c \<notin> set s \<Longrightarrow> splitOn c s = [s]"
  by (induction s) auto

lemma splitOn_append: "c \<notin> set s \<Longrightarrow> splitOn c (s @ c # t) = s # splitOn c t"
  by (induction s) auto

lemma Cut_append: "c \<notin> set s \<Longrightarrow> Cut c (s @ c # t) = Some (s, t)"
  by (induction s) (auto simp: Cut_def split: list.splits)

lemma Cut_Some_iff: "Cut c s = Some (a, b) \<longleftrightarrow> s = a @ c # b \<and> c \<notin> set a"
proof
  assume cut: "Cut c s = Some (a, b)"
  then obtain r where d: "dropWhile (\<lambda>r. r \<noteq> c) s = r # b" and a: "a = takeWhile (\<lambda>r. r \<noteq> c) s"
    by (auto simp: Cut_def split: list.splits)
  have "r = c" using d by (metis (mono_tags, lifting) dropWhile_eq_Cons_conv)
  moreover have "s = takeWhile (\<lambda>r. r \<noteq> c) s @ dropWhile (\<lambda>r. r \<noteq> c) s" by simp
  ultimately show "s = a @ c # b \<and> c \<notin> set a" using a d by (metis (mono_tags, lifting) set_takeWhileD)
qed (simp add: Cut_append)

lemma Fields_Nil [simp]: "Fields [] = []"
  by (simp add: Fields.simps)

lemma Fields_word: "w \<noteq> [] \<Longrightarrow> \<forall>r \<in> set w. \<not> isSpace r \<Longrightarrow> Fields w = [w]"
proof -
  assume w: "w \<noteq> []" "\<forall>r \<in> set w. \<not> isSpace r"
  have h: "dropWhile isSpace w = w" using w by (cases w) auto
  have d: "dropWhile (\<lambda>r. \<not> isSpace r) w = []" and t: "takeWhile (\<lambda>r. \<not> isSpace r) w = w"
    using w by (auto simp: takeWhile_eq_all_conv)
  show ?thesis by (subst Fields.simps) (simp only: Let_def h d t w(1) if_False Fields_Nil)
qed

lemma Fields_Cons:
  assumes "w \<noteq> []" "\<forall>r \<in> set w. \<not> isSpace r" "isSpace c"
  shows "Fields (w @ c # s) = w # Fields s"
proof -
  have "dropWhile isSpace (w @ c # s) = w @ c # s" using assms by (cases w) auto
  moreover have "takeWhile (\<lambda>r. \<not> isSpace r) (w @ c # s) = w"
    and "dropWhile (\<lambda>r. \<not> isSpace r) (w @ c # s) = c # s"
    using assms by (auto simp: takeWhile_append2 dropWhile_append2)
  moreover have "Fields (c # s) = Fields s"
    using assms(3) by (simp add: Fields.simps[of "c # s"] Fields.simps[of s])
  ultimately show ?thesis by (simp add: Fields.simps[of "w @ c # s"])
qed

lemma TrimSpace_ends:
  assumes "s \<noteq> []" "\<not> isSpace (hd s)" "\<not> isSpace (last s)"
  shows "TrimSpace s = s"
proof -
  have h: "dropWhile isSpace s = s" using assms by (cases s) auto
  have "dropWhile isSpace t = t" if "t \<noteq> []" "\<not> isSpace (hd t)" for t
    using that by (cases t) auto
  then have "dropWhile isSpace (rev s) = rev s" using assms by (simp add: hd_rev)
  then show ?thesis by (simp add: TrimSpace_def h)
qed

lemma TrimSpace_edges:
  assumes "TrimSpace s \<noteq> []"
  shows "\<not> isSpace (hd (TrimSpace s)) \<and> \<not> isSpace (last (TrimSpace s))"
proof -
  define t where "t = dropWhile isSpace s"
  define u where "u = dropWhile isSpace (rev t)"
  have trim: "TrimSpace s = rev u" by (simp add: TrimSpace_def t_def u_def)
  then have u: "u \<noteq> []" using assms by auto
  then have "\<not> isSpace (hd u)" unfolding u_def by (rule hd_dropWhile)
  moreover have "rev t = takeWhile isSpace (rev t) @ u" by (simp add: u_def)
  then have "last u = last (rev t)" and "t \<noteq> []" using u by (metis last_appendR, auto)
  then have "last u = hd t" by (simp add: last_rev)
  moreover have "\<not> isSpace (hd t)" using \<open>t \<noteq> []\<close> unfolding t_def by (rule hd_dropWhile)
  ultimately show ?thesis using u by (simp add: trim hd_rev last_rev)
qed

lemma TrimSpace_idem [simp]: "TrimSpace (TrimSpace s) = TrimSpace s"
  using TrimSpace_edges[of s] TrimSpace_ends[of "TrimSpace s"] by (cases "TrimSpace s = []") (simp_all add: TrimSpace_def[of "[]"])

lemma TrimSpace_Nil [simp]: "TrimSpace [] = []"
  by (simp add: TrimSpace_def)

lemma TrimSpace_lead: "isSpace c \<Longrightarrow> TrimSpace (c # s) = TrimSpace s"
  by (simp add: TrimSpace_def)

lemma ToLower_id: "\<forall>r \<in> set s. r < 128 \<and> \<not> (65 \<le> r \<and> r \<le> 90) \<Longrightarrow> ToLower lo s = s"
  unfolding ToLower_def by (rule map_idI) (auto simp: lowerRune_def)

lemma EqualFold_refl [simp]: "EqualFold s s"
  by (simp add: EqualFold_def)

lemma indexOf_Some:
  "indexOf p xs = Some i \<Longrightarrow> take (length p) (drop i xs) = p \<and> i + length p \<le> length xs"
proof (induction p xs arbitrary: i rule: indexOf.induct)
  case (2 p x xs)
  then show ?case
  proof (cases "take (length p) (x # xs) = p")
    case True
    then have "length p \<le> length (x # xs)" by (metis length_take min.cobounded1)
    then show ?thesis using 2 True by auto
  next
    case False
    then show ?thesis using 2 by auto
  qed
qed (auto split: if_splits)

lemma indexOf_None_iff: "indexOf p xs = None \<longleftrightarrow> (\<forall>i \<le> length xs. take (length p) (drop i xs) \<noteq> p)"
proof (induction p xs rule: indexOf.induct)
  case (1 p)
  then show ?case by auto
next
  case (2 p x xs)
  show ?case
  proof (cases "take (length p) (x # xs) = p")
    case True
    then show ?thesis by (metis drop0 indexOf.simps(2) le0 option.distinct(1))
  next
    case False
    have "(\<forall>i \<le> length (x # xs). take (length p) (drop i (x # xs)) \<noteq> p)
        \<longleftrightarrow> (\<forall>i \<le> length xs. take (length p) (drop i xs) \<noteq> p)" (is "?L \<longleftrightarrow> ?R")
    proof
      assume ?L
      show ?R
      proof (intro allI impI)
        fix i assume "i \<le> length xs"
        then show "take (length p) (drop i xs) \<noteq> p" using \<open>?L\<close>[rule_format, of "Suc i"] by simp
      qed
    next
      assume ?R
      show ?L
      proof (intro allI impI)
        fix i assume "i \<le> length (x # xs)"
        then show "take (length p) (drop i (x # xs)) \<noteq> p" using \<open>?R\<close> False by (cases i) auto
      qed
    qed
    then show ?thesis using 2 False by simp
  qed
qed

lemma indexOf_first:
  assumes "take (length p) (drop i xs) = p" "i + length p \<le> length xs"
    and "\<And>j. j < i \<Longrightarrow> take (length p) (drop j xs) \<noteq> p"
  shows "indexOf p xs = Some i"
  using assms
proof (induction i arbitrary: xs)
  case 0
  then show ?case by (cases xs) auto
next
  case (Suc i)
  then obtain x ys where xs: "xs = x # ys" by (cases xs) auto
  have "take (length p) xs \<noteq> p" using Suc.prems(3)[of 0] by simp
  moreover have "indexOf p ys = Some i"
  proof (rule Suc.IH)
    show "take (length p) (drop j ys) \<noteq> p" if "j < i" for j
      using Suc.prems(3)[of "Suc j"] xs that by simp
  qed (use Suc.prems xs in auto)
  ultimately show ?case using xs by simp
qed

end
