(* ===== verification/Registrar.thy ===== *)
theory Registrar
  imports GoStrings
begin

text \<open>
  The registrar of SIP clients (\<open>internal/sipregistrar/registrar.go\<close>). A request is what the handlers
  read of it; parsing of credentials and the digest itself belong to third-party packages and are the
  record \<open>sip_library\<close>. Go maps are association lists, in the order in which a loop over the map meets the
  entries; times are integers in nanoseconds and the random source is an argument. The mutex makes every
  method one step.
\<close>

abbreviation realm :: gostring where "realm \<equiv> runes ''rykvo''"

abbreviation ttlSeconds :: int where "ttlSeconds \<equiv> 300"

abbreviation second :: int where "second \<equiv> 10 ^ 9"

abbreviation registerMethod :: gostring where "registerMethod \<equiv> runes ''REGISTER''"
abbreviation optionsMethod :: gostring where "optionsMethod \<equiv> runes ''OPTIONS''"
abbreviation inviteMethod :: gostring where "inviteMethod \<equiv> runes ''INVITE''"

record sipAccount =
  ac_ID :: gostring
  ac_Username :: gostring
  ac_Port :: int
  ac_Revision :: int
  ac_MD5 :: "byte list"
  ac_SHA256 :: "byte list"

text \<open>What the code reads of a Contact header: its URI as text and the header's parameters.\<close>

record contact =
  ct_Wildcard :: bool
  ct_Host :: gostring
  ct_Address :: gostring
  ct_Params :: "gostring \<rightharpoonup> gostring"

record reg_binding =
  rg_ID :: gostring
  rg_Account :: gostring
  rg_CallID :: gostring
  rg_Instance :: gostring
  rg_Source :: gostring
  rg_Transport :: gostring
  rg_Listener :: gostring
  rg_Sequence :: nat
  rg_Expires :: int
  rg_Contact :: "contact option"

record nonce_entry =
  ne_source :: gostring
  ne_username :: gostring
  ne_port :: int
  ne_expires :: int
  ne_count :: int

record rate =
  rt_start :: int
  rt_count :: nat

record registrar =
  accounts :: "(gostring \<times> sipAccount) list"
  current :: "(gostring \<times> reg_binding) list"
  nonces :: "(gostring \<times> nonce_entry) list"
  rates :: "(gostring \<times> rate) list"

record request =
  rq_Method :: gostring
  rq_FromUser :: "gostring option"
  rq_ToUser :: "gostring option"
  rq_CallID :: "gostring option"
  rq_CSeq :: "(nat \<times> gostring) option"
  rq_BodyLength :: nat
  rq_Source :: gostring
  rq_Transport :: gostring
  rq_Destination :: gostring
  rq_Recipient :: gostring
  rq_Authorization :: "gostring option"
  rq_UserAgent :: "gostring option"
  rq_Expires :: "gostring option"
  rq_Contacts :: "gostring list"
  rq_Contact :: "contact option"

record credentials =
  cd_Username :: gostring
  cd_Realm :: gostring
  cd_URI :: gostring
  cd_QOP :: gostring
  cd_Nc :: int
  cd_Cnonce :: gostring
  cd_Nonce :: gostring
  cd_Algorithm :: gostring
  cd_Response :: gostring
  cd_Userhash :: bool

text \<open>
  \<open>ParseCredentials\<close> and \<open>Digest\<close> of the digest package (nonce, algorithm, method, URI, user name, A1,
  count and client nonce to the response), and the tables of \<open>unicode\<close>.
\<close>

record sip_library =
  ParseCredentials :: "gostring \<Rightarrow> credentials option"
  Digest :: "gostring \<Rightarrow> gostring \<Rightarrow> gostring \<Rightarrow> gostring \<Rightarrow> gostring \<Rightarrow> gostring \<Rightarrow> int \<Rightarrow> gostring \<Rightarrow> gostring option"
  lowerCase :: "rune \<Rightarrow> rune"
  upperCase :: "rune \<Rightarrow> rune"

record answer =
  an_code :: nat
  an_reason :: string
  an_headers :: "(string \<times> gostring) list"
  an_contact :: "(contact \<times> int) option"

definition newRegistrar :: registrar where
  "newRegistrar = \<lparr>accounts = [], current = [], nonces = [], rates = []\<rparr>"

definition accountKey :: "gostring \<Rightarrow> int \<Rightarrow> gostring" where
  "accountKey username port = runes (showInt port) @ [47] @ username"

subsection \<open>Accounts\<close>

fun replaceLoop ::
    "(gostring \<times> sipAccount) list \<Rightarrow> sipAccount list \<Rightarrow> (gostring \<times> sipAccount) list \<times> gostring list \<Rightarrow>
     (gostring \<times> sipAccount) list \<times> gostring list" where
  "replaceLoop old [] s = s"
| "replaceLoop old (a # as) (next, valid) =
    (let key = accountKey (ac_Username a) (ac_Port a);
         same = (case map_of old key of Some p \<Rightarrow> ac_ID p = ac_ID a \<and> ac_Revision p = ac_Revision a | None \<Rightarrow> False) in
     replaceLoop old as (AList.update key a next, if same then ac_ID a # valid else valid))"

definition Replace :: "sipAccount list \<Rightarrow> registrar \<Rightarrow> registrar" where
  "Replace as r =
    (case replaceLoop (accounts r) as ([], []) of (next, valid) \<Rightarrow>
      r\<lparr>current := filter (\<lambda>(_, reg). rg_Account reg \<in> set valid) (current r), accounts := next\<rparr>)"

definition OfflinePort :: "int \<Rightarrow> registrar \<Rightarrow> registrar" where
  "OfflinePort port r = r\<lparr>current := filter (\<lambda>(_, reg).
     \<not> list_ex (\<lambda>(_, a). ac_Port a = port \<and> rg_Account reg = ac_ID a) (accounts r)) (current r)\<rparr>"

definition Online :: "int \<Rightarrow> gostring \<Rightarrow> registrar \<Rightarrow> bool" where
  "Online now account r \<longleftrightarrow> list_ex (\<lambda>(_, reg). rg_Account reg = account \<and> now < rg_Expires reg) (current r)"

definition sweep :: "int \<Rightarrow> registrar \<Rightarrow> registrar" where
  "sweep now r = r\<lparr>current := filter (\<lambda>(_, v). now < rg_Expires v) (current r),
     nonces := filter (\<lambda>(_, v). now < ne_expires v) (nonces r),
     rates := filter (\<lambda>(_, v). now - rt_start v < 60 * second) (rates r)\<rparr>"

definition Registrations :: "int \<Rightarrow> registrar \<Rightarrow> (gostring \<times> reg_binding) list \<times> registrar" where
  "Registrations now r = (current (sweep now r), sweep now r)"

subsection \<open>Answers\<close>

definition respond :: "nat \<Rightarrow> string \<Rightarrow> answer" where
  "respond code reason = \<lparr>an_code = code, an_reason = reason, an_headers = [(''Server'', runes ''Rykvo Voice'')], an_contact = None\<rparr>"

definition withHeader :: "string \<Rightarrow> gostring \<Rightarrow> answer \<Rightarrow> answer" where
  "withHeader name v a = a\<lparr>an_headers := an_headers a @ [(name, v)]\<rparr>"

definition challengeAlgorithms :: "request \<Rightarrow> gostring list" where
  "challengeAlgorithms req =
    (case rq_UserAgent req of
       Some ua \<Rightarrow> if HasPrefix ua (runes ''Zoiper v2.'') \<or> HasPrefix ua (runes ''PortSIP UC Client iOS - v12.'')
                  then [runes ''MD5''] else [runes ''SHA-256'', runes ''MD5'']
     | None \<Rightarrow> [runes ''SHA-256'', runes ''MD5''])"

definition challengeHeader :: "gostring \<Rightarrow> gostring \<Rightarrow> gostring" where
  "challengeHeader v algorithm = runes ''Digest realm='' @ [34] @ realm @ [34] @ runes '', nonce='' @ [34] @ v @ [34]
     @ runes '', algorithm='' @ algorithm @ runes '', qop='' @ [34] @ runes ''auth'' @ [34]"

text \<open>\<open>net.SplitHostPort\<close>; the host is empty where it fails.\<close>

definition indexRune :: "rune \<Rightarrow> gostring \<Rightarrow> nat option" where
  "indexRune c s = (if c \<in> set s then Some (length (takeWhile (\<lambda>r. r \<noteq> c) s)) else None)"

definition lastRune :: "rune \<Rightarrow> gostring \<Rightarrow> nat option" where
  "lastRune c s = (if c \<in> set s then Some (length s - 1 - length (takeWhile (\<lambda>r. r \<noteq> c) (rev s))) else None)"

definition splitHost :: "gostring \<Rightarrow> gostring" where
  "splitHost s =
    (case lastRune 58 s of
       None \<Rightarrow> []
     | Some i \<Rightarrow>
         if hd s = 91 then
           (case indexRune 93 s of
              None \<Rightarrow> []
            | Some e \<Rightarrow> if e + 1 = i \<and> 91 \<notin> set (drop 1 s) \<and> 93 \<notin> set (drop (e + 1) s) then take (e - 1) (drop 1 s) else [])
         else if 58 \<in> set (take i s) \<or> 91 \<in> set s \<or> 93 \<in> set s then [] else take i s)"

subsection \<open>Credentials\<close>

definition nonceSource :: "request \<Rightarrow> gostring" where
  "nonceSource req = rq_Source req @ [47] @ rq_Transport req"

definition knownAlgorithm :: "gostring \<Rightarrow> bool" where
  "knownAlgorithm a \<longleftrightarrow> a = runes ''MD5'' \<or> a = runes ''SHA-256'' \<or> a = []"

text \<open>The response that the account's stored hash gives for the request and these credentials.\<close>

definition expectedResponse :: "sip_library \<Rightarrow> request \<Rightarrow> gostring \<Rightarrow> sipAccount \<Rightarrow> credentials \<Rightarrow> gostring option" where
  "expectedResponse lib req username a c =
    (let algorithm = ToUpper (upperCase lib) (cd_Algorithm c);
         hash = (if algorithm = runes ''SHA-256'' then ac_SHA256 a else ac_MD5 a) in
     Digest lib (cd_Nonce c) algorithm (rq_Method req) (cd_URI c) username (hexEncode hash) (cd_Nc c) (cd_Cnonce c))"

definition wellFormedCredentials :: "request \<Rightarrow> gostring \<Rightarrow> credentials \<Rightarrow> bool" where
  "wellFormedCredentials req username c \<longleftrightarrow> cd_Username c = username \<and> cd_Realm c = realm \<and> cd_URI c = rq_Recipient req
     \<and> cd_QOP c = runes ''auth'' \<and> 0 < cd_Nc c \<and> 0 < length (bytesOf (cd_Cnonce c)) \<and> length (bytesOf (cd_Cnonce c)) \<le> 256
     \<and> \<not> cd_Userhash c"

definition nonceUsable :: "sip_library \<Rightarrow> request \<Rightarrow> int \<Rightarrow> gostring \<Rightarrow> credentials \<Rightarrow> nonce_entry \<Rightarrow> bool" where
  "nonceUsable lib req port username c n \<longleftrightarrow> ne_source n = nonceSource req \<and> ne_port n = port \<and> ne_username n = username
     \<and> ne_count n < cd_Nc c \<and> knownAlgorithm (ToUpper (upperCase lib) (cd_Algorithm c))"

text \<open>The credentials of an authorized request, with the nonce entry they used.\<close>

definition authorizedBy ::
    "sip_library \<Rightarrow> request \<Rightarrow> int \<Rightarrow> registrar \<Rightarrow> (credentials \<times> nonce_entry) option" where
  "authorizedBy lib req port r =
    (let username = (case rq_FromUser req of Some u \<Rightarrow> u | None \<Rightarrow> []) in
     case rq_Authorization req of
       None \<Rightarrow> None
     | Some h \<Rightarrow>
         if length (bytesOf h) > 2048 then None
         else (case ParseCredentials lib h of
             None \<Rightarrow> None
           | Some c \<Rightarrow>
               (case map_of (accounts r) (accountKey username port) of
                  None \<Rightarrow> None
                | Some a \<Rightarrow>
                    if \<not> wellFormedCredentials req username c then None
                    else (case map_of (nonces r) (cd_Nonce c) of
                        None \<Rightarrow> None
                      | Some n \<Rightarrow>
                          if \<not> nonceUsable lib req port username c n then None
                          else (case expectedResponse lib req username a c of
                              None \<Rightarrow> None
                            | Some e \<Rightarrow>
                                if bytesOf (ToLower (lowerCase lib) (cd_Response c)) = bytesOf e then Some (c, n) else None)))))"

definition useNonce :: "credentials \<Rightarrow> nonce_entry \<Rightarrow> registrar \<Rightarrow> registrar" where
  "useNonce c n r = r\<lparr>nonces := AList.update (cd_Nonce c) (n\<lparr>ne_count := cd_Nc c\<rparr>) (nonces r)\<rparr>"

definition issueChallenge ::
    "(nat \<Rightarrow> byte list option) \<Rightarrow> int \<Rightarrow> request \<Rightarrow> int \<Rightarrow> gostring \<Rightarrow> registrar \<Rightarrow> answer \<times> registrar" where
  "issueChallenge random now req port username r =
    (if length (nonces r) \<ge> 2048 then (respond 503 ''Service Unavailable'', r)
     else case random 24 of
       None \<Rightarrow> (respond 503 ''Service Unavailable'', r)
     | Some seed \<Rightarrow>
         (fold (\<lambda>algorithm. withHeader ''WWW-Authenticate'' (challengeHeader (hexEncode seed) algorithm))
            (challengeAlgorithms req) (respond 401 ''Unauthorized''),
          r\<lparr>nonces := AList.update (hexEncode seed)
             \<lparr>ne_source = nonceSource req, ne_username = username, ne_port = port, ne_expires = now + 60 * second, ne_count = 0\<rparr>
             (nonces r)\<rparr>))"

subsection \<open>Bindings\<close>

definition endpoint :: "gostring \<Rightarrow> request \<Rightarrow> registrar \<Rightarrow> reg_binding option" where
  "endpoint account req r = map_option snd (List.find
    (\<lambda>(_, reg). rg_Account reg = account \<and> rg_Source reg = rq_Source req \<and> rg_Transport reg = rq_Transport req) (current r))"

definition instanceParam :: "contact \<Rightarrow> gostring" where
  "instanceParam c = (case ct_Params c (runes ''+sip.instance'') of Some v \<Rightarrow> v | None \<Rightarrow> [])"

text \<open>\<open>strings.Trim\<close> with the cut set of a quotation mark and a space.\<close>

definition trimInstance :: "gostring \<Rightarrow> gostring" where
  "trimInstance s = rev (dropWhile (\<lambda>r. r = 34 \<or> r = 32) (rev (dropWhile (\<lambda>r. r = 34 \<or> r = 32) s)))"

definition sameLogin :: "request \<Rightarrow> contact \<Rightarrow> gostring \<Rightarrow> reg_binding \<Rightarrow> bool" where
  "sameLogin req c callID old =
    (if ct_Wildcard c then
       rg_CallID old = callID \<and> rg_Source old = rq_Source req \<and> rg_Transport old = rq_Transport req
     else case rg_Contact old of
       None \<Rightarrow> False
     | Some oc \<Rightarrow>
         let i = trimInstance (instanceParam c); previous = trimInstance (instanceParam oc) in
         if i \<noteq> [] \<or> previous \<noteq> [] then i \<noteq> [] \<and> i = previous
         else ct_Address oc = ct_Address c \<and> rg_Source old = rq_Source req \<and> rg_Transport old = rq_Transport req)"

text \<open>The requested lifetime: None is an answer 400 already.\<close>

definition requestedSeconds :: "request \<Rightarrow> contact \<Rightarrow> int option" where
  "requestedSeconds req c =
    (case (case ct_Params c (runes ''expires'') of Some v \<Rightarrow> Some v | None \<Rightarrow> rq_Expires req) of
       None \<Rightarrow> Some ttlSeconds
     | Some raw \<Rightarrow> (case Atoi raw of
           None \<Rightarrow> None
         | Some n \<Rightarrow> if n < 0 \<or> n > 86400 then None else Some (min n ttlSeconds)))"

definition registeredAnswer :: "contact \<Rightarrow> int \<Rightarrow> answer" where
  "registeredAnswer c seconds =
    (let res = respond 200 ''OK'' in
     withHeader ''Expires'' (runes (showInt seconds)) (if seconds > 0 then res\<lparr>an_contact := Some (c, seconds)\<rparr> else res))"

text \<open>The binding of a REGISTER whose lifetime is known.\<close>

definition bind ::
    "(nat \<Rightarrow> byte list option) \<Rightarrow> int \<Rightarrow> request \<Rightarrow> gostring \<Rightarrow> nat \<Rightarrow> contact \<Rightarrow> gostring \<Rightarrow> int \<Rightarrow> registrar \<Rightarrow> answer \<times> registrar" where
  "bind random now req callID cseq c account seconds r =
    (let instance0 = (if instanceParam c = [] then ct_Address c else instanceParam c) in
     if length (bytesOf instance0) > 512 then (respond 400 ''Bad Contact'', r)
     else
       let old = map_option snd (List.find (\<lambda>(_, reg). rg_Account reg = account \<and> sameLogin req c callID reg) (current r));
           instance1 = (case old of
               Some p \<Rightarrow> if ct_Wildcard c \<and> seconds = 0 \<and> rg_CallID p = callID then rg_Instance p else instance0
             | None \<Rightarrow> instance0);
           stale = (case old of
               Some p \<Rightarrow> rg_CallID p = callID \<and> rg_Instance p = instance1 \<and> cseq \<le> rg_Sequence p | None \<Rightarrow> False) in
       if stale then (respond 500 ''CSeq Out of Order'', r)
       else if seconds = 0 then
         (registeredAnswer c seconds,
          case old of Some p \<Rightarrow> r\<lparr>current := AList.delete (rg_ID p) (current r)\<rparr> | None \<Rightarrow> r)
       else if ct_Wildcard c \<or> ct_Host c = [] then (respond 400 ''Bad Contact'', r)
       else
         let put = (\<lambda>key. (registeredAnswer c seconds,
               r\<lparr>current := AList.update key
                 \<lparr>rg_ID = key, rg_Account = account, rg_CallID = callID, rg_Instance = instance1, rg_Source = rq_Source req,
                  rg_Transport = rq_Transport req, rg_Listener = rq_Destination req, rg_Sequence = cseq,
                  rg_Expires = now + seconds * second, rg_Contact = Some c\<rparr> (current r)\<rparr>)) in
         (case old of
            Some p \<Rightarrow> put (rg_ID p)
          | None \<Rightarrow>
              if length (current r) \<ge> 2048 then (respond 503 ''Registration Capacity'', r)
              else (case random 16 of
                  None \<Rightarrow> (respond 503 ''Service Unavailable'', r)
                | Some seed \<Rightarrow> put (hexEncode seed))))"

definition registerContact ::
    "(nat \<Rightarrow> byte list option) \<Rightarrow> int \<Rightarrow> request \<Rightarrow> gostring \<Rightarrow> nat \<Rightarrow> gostring \<Rightarrow> registrar \<Rightarrow> answer \<times> registrar" where
  "registerContact random now req callID cseq account r =
    (case (rq_Contacts req, rq_Contact req) of
       ([h], Some c) \<Rightarrow>
         if length (bytesOf h) > 1024 then (respond 400 ''Bad Contact'', r)
         else (case requestedSeconds req c of
             None \<Rightarrow> (respond 400 ''Bad Expires'', r)
           | Some seconds \<Rightarrow>
               if seconds > 0 \<and> seconds < 60
               then (withHeader ''Min-Expires'' (runes ''60'') (respond 423 ''Interval Too Brief''), r)
               else bind random now req callID cseq c account seconds r)
     | _ \<Rightarrow> (respond 400 ''Bad Contact'', r))"

subsection \<open>Requests\<close>

text \<open>What follows once the request is authorized; None lets the call through.\<close>

definition authorizedRequest ::
    "(nat \<Rightarrow> byte list option) \<Rightarrow> int \<Rightarrow> request \<Rightarrow> gostring \<Rightarrow> nat \<Rightarrow> bool \<Rightarrow> gostring \<Rightarrow> registrar \<Rightarrow> answer option \<times> registrar" where
  "authorizedRequest random now req callID cseq voice account r =
    (if rq_Method req \<noteq> registerMethod then
       (case endpoint account req r of
          None \<Rightarrow> (Some (respond 403 ''Forbidden''), r)
        | Some _ \<Rightarrow>
            if rq_Method req = optionsMethod
            then (Some (withHeader ''Allow'' (runes ''REGISTER, OPTIONS'') (respond 200 ''OK'')), r)
            else if voice then (None, r)
            else (Some (withHeader ''Retry-After'' (runes ''30'') (respond 503 ''Voice Service Unavailable'')), r))
     else apfst Some (registerContact random now req callID cseq account r))"

text \<open>The request's account and digest, once its rate has been counted.\<close>

definition admitRequest ::
    "sip_library \<Rightarrow> (nat \<Rightarrow> byte list option) \<Rightarrow> int \<Rightarrow> request \<Rightarrow> gostring \<Rightarrow> gostring \<Rightarrow> nat \<Rightarrow> int \<Rightarrow> bool \<Rightarrow> registrar \<Rightarrow>
     answer option \<times> registrar" where
  "admitRequest lib random now req username callID cseq port voice r =
    (if length (bytesOf username) > 64 \<or> length (bytesOf callID) > 256 then (Some (respond 400 ''Bad Request''), r)
     else if rq_Method req = registerMethod \<and> rq_ToUser req \<noteq> Some username then (Some (respond 403 ''Forbidden''), r)
     else case authorizedBy lib req port r of
         None \<Rightarrow> apfst Some (issueChallenge random now req port username r)
       | Some (c, n) \<Rightarrow>
           (case map_of (accounts r) (accountKey username port) of
              None \<Rightarrow> (None, r)
            | Some a \<Rightarrow> authorizedRequest random now req callID cseq voice (ac_ID a) (useNonce c n r)))"

definition countRate :: "int \<Rightarrow> gostring \<Rightarrow> registrar \<Rightarrow> rate" where
  "countRate now host r =
    (case map_of (rates r) host of Some b \<Rightarrow> b\<lparr>rt_count := rt_count b + 1\<rparr> | None \<Rightarrow> \<lparr>rt_start = now, rt_count = 1\<rparr>)"

definition handleLocked ::
    "sip_library \<Rightarrow> (nat \<Rightarrow> byte list option) \<Rightarrow> int \<Rightarrow> request \<Rightarrow> int \<Rightarrow> bool \<Rightarrow> registrar \<Rightarrow> answer option \<times> registrar" where
  "handleLocked lib random now req port voice r0 =
    (let r = sweep now r0 in
     case (rq_FromUser req, rq_ToUser req, rq_CallID req, rq_CSeq req) of
       (Some username, Some _, Some callID, Some (seqNo, name)) \<Rightarrow>
         if seqNo = 0 \<or> name \<noteq> rq_Method req \<or> rq_BodyLength req > 4096 then (Some (respond 400 ''Bad Request''), r)
         else if rq_Method req \<noteq> registerMethod \<and> rq_Method req \<noteq> optionsMethod \<and> rq_Method req \<noteq> inviteMethod
         then (Some (respond 405 ''Method Not Allowed''), r)
         else
           let host = splitHost (rq_Source req); bucket = countRate now host r in
           if host = [] then (Some (respond 400 ''Bad Request''), r)
           else if length (rates r) \<ge> 2048 \<and> rt_count bucket = 1 then (Some (respond 503 ''Service Unavailable''), r)
           else
             let r = r\<lparr>rates := AList.update host bucket (rates r)\<rparr> in
             if rt_count bucket > 120 then (Some (respond 429 ''Too Many Requests''), r)
             else admitRequest lib random now req username callID seqNo port voice r
     | _ \<Rightarrow> (Some (respond 400 ''Bad Request''), r))"

definition Handle where
  "Handle lib random now req port r = handleLocked lib random now req port False r"

text \<open>The account and the registration of a call, or the answer that refuses it.\<close>

definition AuthenticateInvite ::
    "sip_library \<Rightarrow> (nat \<Rightarrow> byte list option) \<Rightarrow> int \<Rightarrow> request \<Rightarrow> int \<Rightarrow> registrar \<Rightarrow>
     (answer + sipAccount option \<times> reg_binding option) \<times> registrar" where
  "AuthenticateInvite lib random now req port r =
    (if rq_Method req \<noteq> inviteMethod then (Inl (respond 405 ''Method Not Allowed''), r)
     else case handleLocked lib random now req port True r of
         (Some res, r') \<Rightarrow> (Inl res, r')
       | (None, r') \<Rightarrow>
           (let a = map_of (accounts r') (accountKey (case rq_FromUser req of Some u \<Rightarrow> u | None \<Rightarrow> []) port) in
            (Inr (a, case a of Some a \<Rightarrow> endpoint (ac_ID a) req r' | None \<Rightarrow> None), r')))"

end
