(* ===== verification/Registrar_Props.thy ===== *)
theory Registrar_Props
  imports Registrar "HOL-Library.Multiset"
begin

text \<open>
  The registrar: its tables stay bounded and consistent, nothing is granted without a digest response
  computed from the stored hash for a nonce issued to that very endpoint, and no nonce count is accepted
  twice.
\<close>

subsection \<open>What a request leads to\<close>

definition refused :: "answer option \<Rightarrow> bool" where
  "refused ans \<longleftrightarrow> (\<exists>a. ans = Some a \<and> an_code a \<noteq> 200)"

lemma refused_respond [simp]:
  "refused (Some (respond code reason)) \<longleftrightarrow> code \<noteq> 200" "refused (Some (withHeader n v a)) \<longleftrightarrow> refused (Some a)" "\<not> refused None"
  by (simp_all add: refused_def respond_def withHeader_def)

lemma refused_headers: "refused (Some (fold (\<lambda>x. withHeader n (f x)) xs a)) \<longleftrightarrow> refused (Some a)"
  by (induction xs arbitrary: a) simp_all

text \<open>
  A request is refused with the tables only swept and its rate counted, or challenged, or it is
  authorized by credentials that \<open>authorizedBy\<close> accepts.
\<close>

definition counted :: "int \<Rightarrow> registrar \<Rightarrow> registrar \<Rightarrow> bool" where
  "counted now r r1 \<longleftrightarrow> (\<exists>rt. r1 = (sweep now r)\<lparr>rates := rt\<rparr> \<and> (distinct (keys (rates r)) \<and> length (rates r) \<le> 2048 \<longrightarrow>
     distinct (keys rt) \<and> length rt \<le> 2048))"

lemma length_update: "length (AList.update k v xs) = (if k \<in> set (keys xs) then length xs else Suc (length xs))"
  by (induction xs) auto

lemma distinct_keys_filter: "distinct (keys xs) \<Longrightarrow> distinct (keys (filter P xs))"
  by (induction xs) auto

lemma length_filter_bound: "length xs \<le> n \<Longrightarrow> length (filter P xs) \<le> n"
  using length_filter_le[of P xs] by linarith

lemma sweep_rates:
  "distinct (keys (rates r)) \<and> length (rates r) \<le> 2048 \<longrightarrow>
    distinct (keys (rates (sweep now r))) \<and> length (rates (sweep now r)) \<le> 2048"
  by (auto simp: sweep_def distinct_keys_filter length_filter_bound)

lemma counted_sweep: "counted now r (sweep now r)"
  unfolding counted_def using sweep_rates by (intro exI[of _ "rates (sweep now r)"]) simp

lemma counted_rate:
  assumes "\<not> (2048 \<le> length (rates (sweep now r)) \<and> rt_count (countRate now host (sweep now r)) = 1)"
  shows "counted now r ((sweep now r)\<lparr>rates := AList.update host (countRate now host (sweep now r)) (rates (sweep now r))\<rparr>)"
proof -
  let ?rs = "rates (sweep now r)"
  have new: "host \<notin> set (keys ?rs) \<Longrightarrow> rt_count (countRate now host (sweep now r)) = 1"
  proof -
    assume "host \<notin> set (keys ?rs)"
    then have "map_of ?rs host = None" by (simp add: map_of_eq_None_iff)
    then show "rt_count (countRate now host (sweep now r)) = 1" by (simp add: countRate_def)
  qed
  have "distinct (keys (rates r)) \<and> length (rates r) \<le> 2048 \<longrightarrow> distinct (keys ?rs) \<and> length ?rs \<le> 2048"
    by (rule sweep_rates)
  then show ?thesis
    unfolding counted_def using new assms
    by (intro exI[of _ "AList.update host (countRate now host (sweep now r)) ?rs"]) (auto simp: length_update)
qed

inductive outcome ::
    "sip_library \<Rightarrow> (nat \<Rightarrow> byte list option) \<Rightarrow> int \<Rightarrow> request \<Rightarrow> int \<Rightarrow> bool \<Rightarrow> registrar \<Rightarrow> answer option \<Rightarrow> registrar \<Rightarrow> bool"
  for lib random now req port voice r where
  refusal: "counted now r r1 \<Longrightarrow> refused ans \<Longrightarrow> outcome lib random now req port voice r ans r1"
| challenge: "counted now r r1 \<Longrightarrow> issueChallenge random now req port username r1 = (a, r2) \<Longrightarrow>
    outcome lib random now req port voice r (Some a) r2"
| granted: "counted now r r1 \<Longrightarrow> rq_FromUser req = Some username \<Longrightarrow> authorizedBy lib req port r1 = Some (c, n) \<Longrightarrow>
    map_of (accounts r1) (accountKey username port) = Some a \<Longrightarrow>
    authorizedRequest random now req callID cseq voice (ac_ID a) (useNonce c n r1) = (ans, r2) \<Longrightarrow>
    outcome lib random now req port voice r ans r2"

lemma authorizedBy_account:
  "rq_FromUser req = Some u \<Longrightarrow> authorizedBy lib req port r = Some cn \<Longrightarrow>
    \<exists>a. map_of (accounts r) (accountKey u port) = Some a"
  by (cases "map_of (accounts r) (accountKey u port)") (auto simp: authorizedBy_def Let_def split: option.splits if_split_asm)

lemma admitRequest_outcome:
  assumes "counted now r r1" and "rq_FromUser req = Some username"
    and "admitRequest lib random now req username callID cseq port voice r1 = (ans, r2)"
  shows "outcome lib random now req port voice r ans r2"
proof (cases "length (bytesOf username) > 64 \<or> length (bytesOf callID) > 256 \<or> rq_Method req = registerMethod \<and> rq_ToUser req \<noteq> Some username")
  case True
  then show ?thesis using assms by (auto simp: admitRequest_def intro!: refusal split: if_split_asm)
next
  case False
  show ?thesis
  proof (cases "authorizedBy lib req port r1")
    case None
    then obtain a where "issueChallenge random now req port username r1 = (a, r2)" "ans = Some a"
      using assms(3) False by (cases "issueChallenge random now req port username r1") (auto simp: admitRequest_def)
    then show ?thesis using challenge[OF assms(1)] by blast
  next
    case (Some cn)
    obtain c n where cn: "cn = (c, n)" by (cases cn)
    obtain a where a: "map_of (accounts r1) (accountKey username port) = Some a"
      using authorizedBy_account[OF assms(2) Some] by blast
    have "authorizedRequest random now req callID cseq voice (ac_ID a) (useNonce c n r1) = (ans, r2)"
      using assms(3) False Some cn a by (auto simp: admitRequest_def)
    then show ?thesis by (rule granted[OF assms(1,2) Some[unfolded cn] a])
  qed
qed

lemma handleLocked_outcome:
  assumes "handleLocked lib random now req port voice r = (ans, r2)"
  shows "outcome lib random now req port voice r ans r2"
proof -
  let ?s = "sweep now r"
  have same: "refused ans \<Longrightarrow> r2 = ?s \<Longrightarrow> ?thesis" using counted_sweep by (auto intro: refusal)
  show ?thesis
  proof (cases "\<exists>u t i s. rq_FromUser req = Some u \<and> rq_ToUser req = Some t \<and> rq_CallID req = Some i \<and> rq_CSeq req = Some s")
    case False
    then have "ans = Some (respond 400 ''Bad Request'') \<and> r2 = ?s"
      using assms by (auto simp: handleLocked_def Let_def split: option.splits)
    then show ?thesis using same by simp
  next
    case True
    then obtain u t i seqNo name where h: "rq_FromUser req = Some u" "rq_ToUser req = Some t" "rq_CallID req = Some i"
      "rq_CSeq req = Some (seqNo, name)" by (metis surj_pair)
    define host where "host = splitHost (rq_Source req)"
    define bucket where "bucket = countRate now host ?s"
    define bad where "bad = (seqNo = 0 \<or> name \<noteq> rq_Method req \<or> rq_BodyLength req > 4096 \<or>
      (rq_Method req \<noteq> registerMethod \<and> rq_Method req \<noteq> optionsMethod \<and> rq_Method req \<noteq> inviteMethod) \<or> host = [] \<or>
      (length (rates ?s) \<ge> 2048 \<and> rt_count bucket = 1))"
    show ?thesis
    proof (cases bad)
      case True
      then have "refused ans \<and> r2 = ?s" unfolding bad_def
        using assms h by (auto simp: handleLocked_def Let_def host_def[symmetric] bucket_def[symmetric] split: if_split_asm)
      then show ?thesis using same by blast
    next
      case False
      define r1 where "r1 = ?s\<lparr>rates := AList.update host bucket (rates ?s)\<rparr>"
      have r1: "counted now r r1" unfolding r1_def bucket_def using False
        by (intro counted_rate) (auto simp: bad_def bucket_def)
      have run: "(if rt_count bucket > 120 then (Some (respond 429 ''Too Many Requests''), r1)
             else admitRequest lib random now req u i seqNo port voice r1) = (ans, r2)"
        using assms False unfolding bad_def
        by (simp add: handleLocked_def h Let_def host_def[symmetric] bucket_def[symmetric] r1_def split: if_split_asm)
      show ?thesis
      proof (cases "rt_count bucket > 120")
        case True
        then show ?thesis using run refusal[OF r1] by auto
      next
        case False
        then show ?thesis using run admitRequest_outcome[OF r1 h(1)] by simp
      qed
    qed
  qed
qed

subsection \<open>Credentials\<close>

lemma authorizedBy_Some:
  assumes "authorizedBy lib req port r = Some (c, n)" and u: "rq_FromUser req = Some u"
  shows "\<exists>h a. rq_Authorization req = Some h \<and> length (bytesOf h) \<le> 2048 \<and> ParseCredentials lib h = Some c
    \<and> map_of (accounts r) (accountKey u port) = Some a \<and> wellFormedCredentials req u c
    \<and> map_of (nonces r) (cd_Nonce c) = Some n \<and> nonceUsable lib req port u c n
    \<and> (\<exists>e. expectedResponse lib req u a c = Some e \<and> bytesOf (ToLower (lowerCase lib) (cd_Response c)) = bytesOf e)"
  using assms(1) by (auto simp: authorizedBy_def u Let_def split: option.splits if_split_asm)

text \<open>Binding a contact leaves everything but the bindings alone.\<close>

definition same_frame :: "registrar \<Rightarrow> registrar \<Rightarrow> bool" where
  "same_frame r r' \<longleftrightarrow> nonces r' = nonces r \<and> accounts r' = accounts r \<and> rates r' = rates r"

lemma bind_frame: "same_frame r (snd (bind random now req callID cseq c account seconds r))"
  unfolding bind_def Let_def by (simp add: same_frame_def split: option.split)

lemma registerContact_frame: "same_frame r (snd (registerContact random now req callID cseq account r))"
  using bind_frame
  by (simp add: registerContact_def same_frame_def split: option.split list.split)

lemma authorizedRequest_frame:
  assumes "authorizedRequest random now req callID cseq voice account r = (ans, r')"
  shows "same_frame r r'"
  using assms registerContact_frame[of r random now req callID cseq account]
  by (cases "registerContact random now req callID cseq account r")
    (auto simp: authorizedRequest_def same_frame_def split: option.splits if_split_asm)

lemma issueChallenge_cases:
  assumes "issueChallenge random now req port username r = (a, r')"
  shows "refused (Some a) \<and> (r' = r \<or> (\<exists>seed. random 24 = Some seed \<and> length (nonces r) < 2048 \<and>
    r' = r\<lparr>nonces := AList.update (hexEncode seed)
             \<lparr>ne_source = nonceSource req, ne_username = username, ne_port = port, ne_expires = now + 60 * second, ne_count = 0\<rparr>
             (nonces r)\<rparr>))"
  using assms by (auto simp: issueChallenge_def refused_headers split: option.splits if_split_asm)

subsection \<open>Runs\<close>

text \<open>
  The registrar's methods in any order. \<open>I\<close> is the set of nonces issued so far, \<open>es\<close> the list of nonces
  and counts of the requests that were granted, in order: a request is granted when it is answered with
  200 or, for a call, let through. A new nonce is one that was not issued before (192 random bits).
  The maps may be traversed in another order at any time.
\<close>

definition granted_use :: "sip_library \<Rightarrow> request \<Rightarrow> answer option \<Rightarrow> (gostring \<times> int) list" where
  "granted_use lib req ans =
    (if refused ans then []
     else case rq_Authorization req of
         Some h \<Rightarrow> (case ParseCredentials lib h of Some c \<Rightarrow> [(cd_Nonce c, cd_Nc c)] | None \<Rightarrow> [])
       | None \<Rightarrow> [])"

definition drawn :: "(nat \<Rightarrow> byte list option) \<Rightarrow> gostring set" where
  "drawn random = (case random 24 of Some seed \<Rightarrow> {hexEncode seed} | None \<Rightarrow> {})"

definition same_maps :: "registrar \<Rightarrow> registrar \<Rightarrow> bool" where
  "same_maps r r' \<longleftrightarrow> mset (accounts r') = mset (accounts r) \<and> mset (current r') = mset (current r)
     \<and> mset (nonces r') = mset (nonces r) \<and> mset (rates r') = mset (rates r)"

inductive registrar_run :: "sip_library \<Rightarrow> registrar \<Rightarrow> gostring set \<Rightarrow> (gostring \<times> int) list \<Rightarrow> bool"
  for lib :: sip_library where
  new: "registrar_run lib newRegistrar {} []"
| replaced: "registrar_run lib r I es \<Longrightarrow> distinct (map (\<lambda>a. accountKey (ac_Username a) (ac_Port a)) as) \<Longrightarrow>
    registrar_run lib (Replace as r) I es"
| offline: "registrar_run lib r I es \<Longrightarrow> registrar_run lib (OfflinePort port r) I es"
| swept: "registrar_run lib r I es \<Longrightarrow> registrar_run lib (sweep now r) I es"
| handled: "registrar_run lib r I es \<Longrightarrow> I \<inter> drawn random = {} \<Longrightarrow>
    handleLocked lib random now req port voice r = (ans, r') \<Longrightarrow>
    registrar_run lib r' (I \<union> drawn random) (es @ granted_use lib req ans)"
| reordered: "registrar_run lib r I es \<Longrightarrow> same_maps r r' \<Longrightarrow> registrar_run lib r' I es"

text \<open>What the nonces know of the uses so far.\<close>

definition uses_ok :: "registrar \<Rightarrow> gostring set \<Rightarrow> (gostring \<times> int) list \<Rightarrow> bool" where
  "uses_ok r I es \<longleftrightarrow> distinct (keys (nonces r)) \<and> set (keys (nonces r)) \<subseteq> I \<and> fst ` set es \<subseteq> I \<and> distinct es
     \<and> (\<forall>v k n. (v, k) \<in> set es \<longrightarrow> (v, n) \<in> set (nonces r) \<longrightarrow> k \<le> ne_count n)"

lemma uses_ok_filter: "uses_ok r I es \<Longrightarrow> nonces r' = filter P (nonces r) \<Longrightarrow> uses_ok r' I es"
  by (auto simp: uses_ok_def distinct_keys_filter image_subset_iff)

lemma uses_ok_same: "uses_ok r I es \<Longrightarrow> nonces r' = nonces r \<Longrightarrow> uses_ok r' I es"
  by (simp add: uses_ok_def)

lemma uses_ok_counted: "uses_ok r I es \<Longrightarrow> counted now r r1 \<Longrightarrow> uses_ok r1 I es"
  by (auto simp: counted_def sweep_def intro: uses_ok_filter)

lemma uses_ok_mono: "uses_ok r I es \<Longrightarrow> I \<subseteq> J \<Longrightarrow> uses_ok r J es"
  unfolding uses_ok_def by blast

lemma in_update_iff:
  "distinct (keys xs) \<Longrightarrow> (k', v') \<in> set (AList.update k v xs) \<longleftrightarrow> (if k' = k then v' = v else (k', v') \<in> set xs)"
  by (induction xs) (auto simp: rev_image_eqI)

lemma fst_update: "fst ` set (AList.update k v xs) = insert k (fst ` set xs)"
  by (induction xs) auto

lemma uses_ok_challenge:
  assumes ok: "uses_ok r I es" and fresh: "I \<inter> drawn random = {}"
    and "issueChallenge random now req port username r = (a, r')"
  shows "uses_ok r' (I \<union> drawn random) es"
proof -
  from issueChallenge_cases[OF assms(3)] consider "r' = r" | seed where "random 24 = Some seed" and
    "r' = r\<lparr>nonces := AList.update (hexEncode seed)
             \<lparr>ne_source = nonceSource req, ne_username = username, ne_port = port, ne_expires = now + 60 * second, ne_count = 0\<rparr>
             (nonces r)\<rparr>" by blast
  then show ?thesis
  proof cases
    case 1
    then show ?thesis using uses_ok_mono[OF ok] by simp
  next
    case 2
    obtain v e where v: "v = hexEncode seed" "nonces r' = AList.update v e (nonces r)" by (simp add: 2(2))
    have d: "drawn random = {v}" using 2(1) v by (simp add: drawn_def)
    have ns: "distinct (keys (nonces r))" and parts: "fst ` set (nonces r) \<subseteq> I" "fst ` set es \<subseteq> I" "distinct es"
      and le: "\<And>w k n. (w, k) \<in> set es \<Longrightarrow> (w, n) \<in> set (nonces r) \<Longrightarrow> k \<le> ne_count n"
      using ok by (auto simp: uses_ok_def)
    have new: "(v, k) \<notin> set es" for k using parts fresh d by force
    show ?thesis
      unfolding uses_ok_def v(2) d using ns parts le new by (simp add: fst_update in_update_iff[OF ns]) blast
  qed
qed

lemma uses_ok_granted:
  assumes ok: "uses_ok r I es" and n: "map_of (nonces r) (cd_Nonce c) = Some n" and more: "ne_count n < cd_Nc c"
  shows "uses_ok (useNonce c n r) I (es @ [(cd_Nonce c, cd_Nc c)])" and "uses_ok (useNonce c n r) I es"
proof -
  have old: "(cd_Nonce c, n) \<in> set (nonces r)" using n by (rule map_of_SomeD)
  have "(cd_Nonce c, cd_Nc c) \<notin> set es" using ok old more by (fastforce simp: uses_ok_def)
  moreover have "k \<le> cd_Nc c" if "(cd_Nonce c, k) \<in> set es" for k
    using that ok old more by (fastforce simp: uses_ok_def)
  moreover have "cd_Nonce c \<in> I"
    using ok image_eqI[OF _ old, of "cd_Nonce c" fst] unfolding uses_ok_def by auto
  ultimately show "uses_ok (useNonce c n r) I (es @ [(cd_Nonce c, cd_Nc c)])" and "uses_ok (useNonce c n r) I es"
    using ok by (auto simp: uses_ok_def useNonce_def in_update_iff fst_update image_subset_iff split: if_split_asm)
qed

text \<open>
  C35: Over any run of the registrar, with requests of any kind from anywhere, no pair of a nonce and a
  count in an Authorization header is ever accepted twice: a recorded request cannot be replayed, not
  even against the same endpoint, whatever is replaced, swept or expires in between.
\<close>

theorem sip_nonce_once:
  assumes "registrar_run lib r I es"
  shows "distinct es"
proof -
  have "uses_ok r I es" using assms
  proof (induction rule: registrar_run.induct)
    case (replaced r I es as)
    then show ?case by (auto simp: Replace_def split: prod.splits intro: uses_ok_same)
  next
    case (swept r I es now)
    then show ?case by (auto simp: sweep_def intro: uses_ok_filter)
  next
    case (handled r I es random now req port voice ans r')
    from handleLocked_outcome[OF handled.hyps(3)] show ?case
    proof cases
      case refusal
      then show ?thesis using uses_ok_mono[OF uses_ok_counted[OF handled.IH refusal(1)]]
        by (simp add: granted_use_def)
    next
      case (challenge r1 username a)
      then show ?thesis
        using uses_ok_challenge[OF uses_ok_counted[OF handled.IH challenge(2)] handled.hyps(2) challenge(3)]
          issueChallenge_cases[OF challenge(3)] by (simp add: granted_use_def)
    next
      case (granted r1 username c n a callID cseq)
      note ok = uses_ok_counted[OF handled.IH granted(1)]
      note g = authorizedBy_Some[OF granted(3,2)]
      then have n: "map_of (nonces r1) (cd_Nonce c) = Some n" "ne_count n < cd_Nc c"
        by (auto simp: nonceUsable_def)
      have "granted_use lib req ans = [] \<or> granted_use lib req ans = [(cd_Nonce c, cd_Nc c)]"
        using g by (auto simp: granted_use_def)
      then have "uses_ok (useNonce c n r1) I (es @ granted_use lib req ans)"
        using uses_ok_granted[OF ok n] by auto
      moreover have "nonces r' = nonces (useNonce c n r1)"
        using authorizedRequest_frame[OF granted(5)] by (simp add: same_frame_def)
      ultimately show ?thesis using uses_ok_same uses_ok_mono by blast
    qed
  next
    case (reordered r I es r')
    then have "set (nonces r') = set (nonces r)" "image_mset fst (mset (nonces r')) = image_mset fst (mset (nonces r))"
      by (auto simp: same_maps_def dest: mset_eq_setD)
    moreover from this(2) have "distinct (keys (nonces r')) = distinct (keys (nonces r))"
      by (metis mset_map mset_eq_imp_distinct_iff)
    ultimately show ?case using reordered.IH by (simp add: uses_ok_def)
  qed (auto simp: uses_ok_def newRegistrar_def OfflinePort_def)
  then show ?thesis by (simp add: uses_ok_def)
qed

subsection \<open>Bindings\<close>

lemma set_update_subset: "set (AList.update k v xs) \<subseteq> insert (k, v) (set xs)"
  by (induction xs) auto

lemma set_delete_subset: "set (AList.delete k xs) \<subseteq> set xs"
  by (induction xs) auto

text \<open>Where the bindings come from: the old ones, or one for the account at the request's endpoint.\<close>

definition boundBy :: "request \<Rightarrow> int \<Rightarrow> gostring \<Rightarrow> gostring \<times> reg_binding \<Rightarrow> bool" where
  "boundBy req now account b \<longleftrightarrow> rg_ID (snd b) = fst b \<and> rg_Account (snd b) = account \<and> rg_Source (snd b) = rq_Source req
     \<and> rg_Transport (snd b) = rq_Transport req \<and> now < rg_Expires (snd b) \<and> rg_Expires (snd b) \<le> now + ttlSeconds * second"

definition bindings_step :: "request \<Rightarrow> int \<Rightarrow> gostring \<Rightarrow> registrar \<Rightarrow> registrar \<Rightarrow> bool" where
  "bindings_step req now account r r' \<longleftrightarrow>
    (\<forall>b \<in> set (current r'). b \<in> set (current r) \<or> boundBy req now account b)
    \<and> (distinct (keys (current r)) \<and> length (current r) \<le> 2048 \<and> (\<forall>b \<in> set (current r). rg_ID (snd b) = fst b) \<longrightarrow>
        distinct (keys (current r')) \<and> length (current r') \<le> 2048)"

lemma bindings_same [simp]: "bindings_step req now account r r"
  by (simp add: bindings_step_def)

lemma length_delete_le: "length (AList.delete k xs) \<le> length xs"
  by (induction xs) auto

lemma bindings_delete: "bindings_step req now account r (r\<lparr>current := AList.delete k (current r)\<rparr>)"
  using set_delete_subset[of k "current r"] length_delete_le[of k "current r"]
  by (auto simp: bindings_step_def)

lemma bindings_update:
  assumes "boundBy req now account (k, v)" and "k \<in> set (keys (current r)) \<or> length (current r) < 2048"
  shows "bindings_step req now account r (r\<lparr>current := AList.update k v (current r)\<rparr>)"
  using assms set_update_subset[of k v "current r"] by (auto simp: bindings_step_def length_update)

lemma find_current:
  assumes "map_option snd (List.find (\<lambda>(_, reg). P reg) xs) = Some p"
  shows "\<exists>k. (k, p) \<in> set xs \<and> P p"
proof -
  obtain b where "List.find (\<lambda>(_, reg). P reg) xs = Some b" "snd b = p" using assms by auto
  moreover from this(1) have "b \<in> set xs" "P (snd b)" by (auto simp: find_Some_iff case_prod_beta)
  ultimately show ?thesis by (metis prod.collapse)
qed

lemma bind_step:
  assumes ids: "\<forall>b \<in> set (current r). rg_ID (snd b) = fst b" and seconds: "seconds = 0 \<or> 60 \<le> seconds" "seconds \<le> ttlSeconds"
  shows "bindings_step req now account r (snd (bind random now req callID cseq c account seconds r))"
proof -
  define old where "old = map_option snd (List.find (\<lambda>(_, reg). rg_Account reg = account \<and> sameLogin req c callID reg) (current r))"
  have old_key: "rg_ID p \<in> set (keys (current r))" if "old = Some p" for p
    using find_current[OF that[unfolded old_def]] ids by force
  have put: "bindings_step req now account r (r\<lparr>current := AList.update key
      \<lparr>rg_ID = key, rg_Account = account, rg_CallID = callID, rg_Instance = i, rg_Source = rq_Source req,
       rg_Transport = rq_Transport req, rg_Listener = rq_Destination req, rg_Sequence = cseq,
       rg_Expires = now + seconds * second, rg_Contact = Some c\<rparr> (current r)\<rparr>)"
    if "key \<in> set (keys (current r)) \<or> length (current r) < 2048" and "seconds \<noteq> 0" for key i
    using that seconds by (intro bindings_update) (auto simp: boundBy_def)
  show ?thesis
    unfolding bind_def Let_def old_def[symmetric]
    using put old_key by (auto simp: bindings_delete split: option.split)
qed

lemma requestedSeconds_bound: "requestedSeconds req c = Some s \<Longrightarrow> 0 \<le> s \<and> s \<le> ttlSeconds"
  by (auto simp: requestedSeconds_def split: option.splits if_split_asm)

lemma registerContact_step:
  assumes "\<forall>b \<in> set (current r). rg_ID (snd b) = fst b"
  shows "bindings_step req now account r (snd (registerContact random now req callID cseq account r))"
proof -
  have "bindings_step req now account r (snd (bind random now req callID cseq c account s r))"
    if "requestedSeconds req c = Some s" "\<not> (0 < s \<and> s < 60)" for c s
  proof (rule bind_step[OF assms])
    show "s = 0 \<or> 60 \<le> s" "s \<le> ttlSeconds" using requestedSeconds_bound[OF that(1)] that(2) by linarith+
  qed
  then show ?thesis
    by (auto simp: registerContact_def split: option.split list.split)
qed

subsection \<open>The tables\<close>

definition accountOf :: "registrar \<Rightarrow> gostring \<Rightarrow> bool" where
  "accountOf r account \<longleftrightarrow> (\<exists>b \<in> set (accounts r). ac_ID (snd b) = account)"

lemma accountOf_updates [simp]:
  "accountOf (nonces_update f r) = accountOf r" "accountOf (current_update g r) = accountOf r"
  "accountOf (rates_update h r) = accountOf r"
  by (simp_all add: accountOf_def fun_eq_iff)

definition registrar_ok :: "registrar \<Rightarrow> bool" where
  "registrar_ok r \<longleftrightarrow> distinct (keys (accounts r)) \<and> distinct (keys (current r)) \<and> distinct (keys (nonces r))
     \<and> distinct (keys (rates r)) \<and> length (current r) \<le> 2048 \<and> length (nonces r) \<le> 2048 \<and> length (rates r) \<le> 2048
     \<and> (\<forall>b \<in> set (accounts r). fst b = accountKey (ac_Username (snd b)) (ac_Port (snd b)))
     \<and> (\<forall>b \<in> set (current r). rg_ID (snd b) = fst b \<and> accountOf r (rg_Account (snd b)))"

abbreviation keyOf :: "sipAccount \<Rightarrow> gostring" where
  "keyOf a \<equiv> accountKey (ac_Username a) (ac_Port a)"

text \<open>An account that is the same, by key, identifier and revision, in the old table.\<close>

definition unchanged :: "(gostring \<times> sipAccount) list \<Rightarrow> sipAccount \<Rightarrow> bool" where
  "unchanged old a \<longleftrightarrow> (\<exists>p. map_of old (keyOf a) = Some p \<and> ac_ID p = ac_ID a \<and> ac_Revision p = ac_Revision a)"

lemma update_new: "k \<notin> fst ` set xs \<Longrightarrow> AList.update k v xs = xs @ [(k, v)]"
  by (induction xs) auto

lemma replaceLoop_facts:
  assumes "replaceLoop old as (next, valid) = (next', valid')" and "distinct (map keyOf as)"
    and "set (map keyOf as) \<inter> set (keys next) = {}" and "distinct (keys next)"
  shows "distinct (keys next') \<and> set next' = set next \<union> (\<lambda>a. (keyOf a, a)) ` set as
    \<and> set valid' = set valid \<union> ac_ID ` {a \<in> set as. unchanged old a}"
  using assms
proof (induction as arbitrary: "next" valid)
  case (Cons a as)
  define same where "same = (case map_of old (keyOf a) of Some p \<Rightarrow> ac_ID p = ac_ID a \<and> ac_Revision p = ac_Revision a | None \<Rightarrow> False)"
  have same: "same = unchanged old a" by (auto simp: same_def unchanged_def split: option.splits)
  have "replaceLoop old as (AList.update (keyOf a) a next, if same then ac_ID a # valid else valid) = (next', valid')"
    using Cons.prems(1) by (simp add: Let_def same_def)
  from Cons.IH[OF this] Cons.prems
  have ih: "distinct (keys next') \<and> set next' = set (AList.update (keyOf a) a next) \<union> (\<lambda>a. (keyOf a, a)) ` set as
    \<and> set valid' = set (if same then ac_ID a # valid else valid) \<union> ac_ID ` {a \<in> set as. unchanged old a}"
    by (auto simp: fst_update)
  moreover have "set (AList.update (keyOf a) a next) = insert (keyOf a, a) (set next)"
    using Cons.prems(3) by (subst update_new) auto
  ultimately show ?case using same by auto
qed simp

lemma Replace_facts:
  assumes "distinct (map keyOf as)"
  shows "distinct (keys (accounts (Replace as r))) \<and> set (accounts (Replace as r)) = (\<lambda>a. (keyOf a, a)) ` set as
    \<and> current (Replace as r) = filter (\<lambda>b. \<exists>a \<in> set as. unchanged (accounts r) a \<and> rg_Account (snd b) = ac_ID a) (current r)
    \<and> nonces (Replace as r) = nonces r \<and> rates (Replace as r) = rates r"
proof -
  obtain n v where l: "replaceLoop (accounts r) as ([], []) = (n, v)" by fastforce
  from replaceLoop_facts[OF l assms] have "distinct (keys n)" "set n = (\<lambda>a. (keyOf a, a)) ` set as"
    "set v = ac_ID ` {a \<in> set as. unchanged (accounts r) a}" by simp_all
  then show ?thesis by (auto simp: Replace_def l intro!: filter_cong)
qed

lemma registrar_ok_counted:
  assumes "registrar_ok r" and "counted now r r1"
  shows "registrar_ok r1 \<and> accounts r1 = accounts r \<and> set (current r1) \<subseteq> set (current r)
    \<and> (\<forall>b \<in> set (current r1). now < rg_Expires (snd b))
    \<and> (\<forall>b \<in> set (nonces r1). b \<in> set (nonces r) \<and> now < ne_expires (snd b))"
proof -
  obtain rt where rt: "r1 = (sweep now r)\<lparr>rates := rt\<rparr>" "distinct (keys rt)" "length rt \<le> 2048"
    using assms by (auto simp: counted_def registrar_ok_def)
  show ?thesis
    using assms(1) rt(2,3) unfolding rt(1) registrar_ok_def sweep_def accountOf_def
    by (auto simp: distinct_keys_filter length_filter_bound)
qed

lemma registrar_ok_bindings:
  assumes ok: "registrar_ok r" and s: "bindings_step req now account r r'" and f: "same_frame r r'" and a: "accountOf r account"
  shows "registrar_ok r'"
proof -
  have f': "nonces r' = nonces r" "accounts r' = accounts r" "rates r' = rates r" using f by (simp_all add: same_frame_def)
  have of: "accountOf r' = accountOf r" by (simp add: accountOf_def f' fun_eq_iff)
  have "rg_ID (snd b) = fst b \<and> accountOf r (rg_Account (snd b))" if "b \<in> set (current r')" for b
    using that ok s a unfolding registrar_ok_def bindings_step_def boundBy_def by blast
  then show ?thesis using ok s unfolding registrar_ok_def bindings_step_def f' of by blast
qed

lemma authorizedRequest_step:
  assumes ok: "registrar_ok r" and "authorizedRequest random now req callID cseq voice account r = (ans, r')"
  shows "bindings_step req now account r r'"
proof -
  have "\<forall>b \<in> set (current r). rg_ID (snd b) = fst b" using ok by (simp add: registrar_ok_def)
  from registerContact_step[OF this, of req now account random callID cseq] show ?thesis
    using assms(2) by (cases "registerContact random now req callID cseq account r")
      (auto simp: authorizedRequest_def split: option.splits if_split_asm)
qed

lemma registrar_ok_use: "registrar_ok r \<Longrightarrow> map_of (nonces r) (cd_Nonce c) = Some n \<Longrightarrow> registrar_ok (useNonce c n r)"
  using map_of_in_keys[of "nonces r" "cd_Nonce c"]
  by (simp add: registrar_ok_def useNonce_def accountOf_def length_update)

lemma registrar_ok_handled:
  assumes ok: "registrar_ok r" and "handleLocked lib random now req port voice r = (ans, r')"
  shows "registrar_ok r'"
  using handleLocked_outcome[OF assms(2)]
proof cases
  case refusal
  then show ?thesis using registrar_ok_counted[OF ok] by blast
next
  case (challenge r1 username a)
  then have "registrar_ok r1" using registrar_ok_counted[OF ok] by blast
  then show ?thesis using issueChallenge_cases[OF challenge(3)]
    by (elim conjE disjE exE) (simp_all add: registrar_ok_def length_update)
next
  case (granted r1 username c n a callID cseq)
  have ok1: "registrar_ok r1" using registrar_ok_counted[OF ok granted(1)] by blast
  have n: "map_of (nonces r1) (cd_Nonce c) = Some n" using authorizedBy_Some[OF granted(3,2)] by blast
  have ok2: "registrar_ok (useNonce c n r1)" by (rule registrar_ok_use[OF ok1 n])
  have "accountOf (useNonce c n r1) (ac_ID a)"
    using map_of_SomeD[OF granted(4)] by (force simp: accountOf_def useNonce_def)
  then show ?thesis
    using registrar_ok_bindings[OF ok2 authorizedRequest_step[OF ok2 granted(5)] authorizedRequest_frame[OF granted(5)]] by blast
qed

lemma registrar_ok_Replace:
  assumes ok: "registrar_ok r" and d: "distinct (map keyOf as)"
  shows "registrar_ok (Replace as r)"
proof -
  note f = Replace_facts[OF d, of r]
  have "accountOf (Replace as r) (rg_Account (snd b))" if "b \<in> set (current (Replace as r))" for b
    using that f unfolding accountOf_def by force
  moreover have "length (current (Replace as r)) \<le> 2048" "distinct (keys (current (Replace as r)))"
    using f ok by (simp_all add: registrar_ok_def distinct_keys_filter length_filter_bound)
  ultimately show ?thesis using f ok by (auto simp: registrar_ok_def)
qed

lemma registrar_ok_same:
  assumes ok: "registrar_ok r" and s: "same_maps r r'"
  shows "registrar_ok r'"
proof -
  have d: "distinct (keys xs) = distinct (keys ys) \<and> length xs = length ys \<and> set xs = set ys"
    if "mset xs = mset ys" for xs ys :: "('a \<times> 'b) list"
    using that mset_eq_length[OF that] mset_eq_setD[OF that] by (metis mset_map mset_eq_imp_distinct_iff)
  show ?thesis using ok s d[of "accounts r'" "accounts r"] d[of "current r'" "current r"] d[of "nonces r'" "nonces r"] d[of "rates r'" "rates r"]
    unfolding registrar_ok_def same_maps_def accountOf_def by simp
qed

text \<open>
  C36: In every state of a run the tables hold at most 2048 entries each, under distinct keys; every binding
  is stored under its identifier and belongs to an account of the table. After the accounts are replaced
  only those bindings are left whose account is there, old and new, with the same port, user name,
  identifier and revision: removing an account or raising its revision logs all its phones out.
\<close>

theorem registrar_consistent:
  assumes run: "registrar_run lib r I es" and d: "distinct (map (\<lambda>a. accountKey (ac_Username a) (ac_Port a)) as)"
  shows "registrar_ok r \<and> (\<forall>b \<in> set (current (Replace as r)). b \<in> set (current r)
    \<and> (\<exists>a \<in> set as. unchanged (accounts r) a \<and> rg_Account (snd b) = ac_ID a))"
proof -
  have "registrar_ok r" using run
  proof (induction rule: registrar_run.induct)
    case (replaced r I es as)
    then show ?case using registrar_ok_Replace by blast
  next
    case (offline r I es port)
    then show ?case
      by (auto simp: registrar_ok_def OfflinePort_def distinct_keys_filter accountOf_def
          intro: length_filter_bound)
  next
    case (swept r I es now)
    then show ?case using registrar_ok_counted[OF _ counted_sweep] by blast
  next
    case (handled r I es random now req port voice ans r')
    then show ?case using registrar_ok_handled by blast
  next
    case (reordered r I es r')
    then show ?case using registrar_ok_same by blast
  qed (simp add: registrar_ok_def newRegistrar_def)
  then show ?thesis using Replace_facts[OF d, of r] by simp
qed

subsection \<open>Who is let in\<close>

text \<open>
  C34: A call is let through, or a binding appears, only for a request whose digest response equals the one
  computed from the account's stored hash, over this method and URI, with a nonce that was issued to the
  same network endpoint, port and user name, has not expired and was not used with that count; the new
  binding is the account's, at the endpoint the request came from and for five minutes at most, and a call
  comes from an endpoint the account is registered at.
\<close>

theorem binding_authenticated:
  assumes ok: "registrar_ok r" and run: "handleLocked lib random now req port voice r = (ans, r')"
    and granted: "ans = None \<or> b \<in> set (current r') \<and> b \<notin> set (current r)"
  shows "\<exists>u h c n a e. rq_FromUser req = Some u \<and> rq_Authorization req = Some h \<and> ParseCredentials lib h = Some c
    \<and> wellFormedCredentials req u c \<and> map_of (accounts r) (accountKey u port) = Some a
    \<and> (cd_Nonce c, n) \<in> set (nonces r) \<and> now < ne_expires n \<and> nonceUsable lib req port u c n
    \<and> expectedResponse lib req u a c = Some e \<and> bytesOf (ToLower (lowerCase lib) (cd_Response c)) = bytesOf e
    \<and> (if ans = None then \<exists>p \<in> set (current r). rg_Account (snd p) = ac_ID a \<and> rg_Source (snd p) = rq_Source req
          \<and> rg_Transport (snd p) = rq_Transport req \<and> now < rg_Expires (snd p)
       else boundBy req now (ac_ID a) b)"
  using handleLocked_outcome[OF run]
proof cases
  case refusal
  then show ?thesis using granted registrar_ok_counted[OF ok refusal(1)] by auto
next
  case (challenge r1 username x)
  then show ?thesis using granted registrar_ok_counted[OF ok challenge(2)] issueChallenge_cases[OF challenge(3)]
    by auto
next
  case (granted r1 username c n a callID cseq)
  note k = registrar_ok_counted[OF ok granted(1)]
  obtain h e where h: "rq_Authorization req = Some h" "ParseCredentials lib h = Some c" "wellFormedCredentials req username c"
    "map_of (nonces r1) (cd_Nonce c) = Some n" "nonceUsable lib req port username c n"
    "expectedResponse lib req username a c = Some e" "bytesOf (ToLower (lowerCase lib) (cd_Response c)) = bytesOf e"
    using authorizedBy_Some[OF granted(3,2)] granted(4) by auto
  have n: "(cd_Nonce c, n) \<in> set (nonces r)" "now < ne_expires n" using map_of_SomeD[OF h(4)] k by force+
  have a: "map_of (accounts r) (accountKey username port) = Some a" using granted(4) k by simp
  have ok2: "registrar_ok (useNonce c n r1)" using registrar_ok_use[OF _ h(4)] k by blast
  have here: "if ans = None then \<exists>p \<in> set (current r). rg_Account (snd p) = ac_ID a \<and> rg_Source (snd p) = rq_Source req
          \<and> rg_Transport (snd p) = rq_Transport req \<and> now < rg_Expires (snd p)
       else boundBy req now (ac_ID a) b"
  proof (cases "ans = None")
    case True
    then obtain p where "endpoint (ac_ID a) req (useNonce c n r1) = Some p"
      using granted(5)
      by (cases "registerContact random now req callID cseq (ac_ID a) (useNonce c n r1)")
        (auto simp: authorizedRequest_def split: option.splits if_split_asm)
    then have "\<exists>key. (key, p) \<in> set (current (useNonce c n r1)) \<and> (rg_Account p = ac_ID a \<and> rg_Source p = rq_Source req
          \<and> rg_Transport p = rq_Transport req)"
      unfolding endpoint_def by (rule find_current)
    then obtain key where p: "(key, p) \<in> set (current r1)" "rg_Account p = ac_ID a \<and> rg_Source p = rq_Source req
          \<and> rg_Transport p = rq_Transport req" by (auto simp: useNonce_def)
    then have "(key, p) \<in> set (current r)" "now < rg_Expires (snd (key, p))" using k by blast+
    then show ?thesis using p(2) True by (simp add: bexI[of _ "(key, p)"])
  next
    case False
    then have "b \<in> set (current r')" "b \<notin> set (current r)" using assms(3) by auto
    then show ?thesis using authorizedRequest_step[OF ok2 granted(5)] k False
      unfolding bindings_step_def useNonce_def by auto
  qed
  show ?thesis using granted(2) h n a here by blast
qed

subsection \<open>A phone that registers\<close>

definition phoneContact :: contact where
  "phoneContact = \<lparr>ct_Wildcard = False, ct_Host = runes ''h'', ct_Address = runes ''sip:u@h'', ct_Params = Map.empty\<rparr>"

definition phoneRequest :: "gostring option \<Rightarrow> request" where
  "phoneRequest auth = \<lparr>rq_Method = registerMethod, rq_FromUser = Some (runes ''u''), rq_ToUser = Some (runes ''u''),
     rq_CallID = Some (runes ''c''), rq_CSeq = Some (1, registerMethod), rq_BodyLength = 0, rq_Source = runes ''h:5'',
     rq_Transport = runes ''TCP'', rq_Destination = runes ''s:1'', rq_Recipient = runes ''sip:s'', rq_Authorization = auth,
     rq_UserAgent = None, rq_Expires = None, rq_Contacts = [runes ''sip:u@h''], rq_Contact = Some phoneContact\<rparr>"

definition phoneNonce :: gostring where
  "phoneNonce = hexEncode [7]"

definition phoneCredentials :: credentials where
  "phoneCredentials = \<lparr>cd_Username = runes ''u'', cd_Realm = realm, cd_URI = runes ''sip:s'', cd_QOP = runes ''auth'', cd_Nc = 1,
     cd_Cnonce = runes ''x'', cd_Nonce = phoneNonce, cd_Algorithm = [], cd_Response = runes ''ok'', cd_Userhash = False\<rparr>"

definition phoneLibrary :: sip_library where
  "phoneLibrary = \<lparr>ParseCredentials = (\<lambda>_. Some phoneCredentials), Digest = (\<lambda>_ _ _ _ _ _ _ _. Some (runes ''ok'')),
     lowerCase = (\<lambda>r. r), upperCase = (\<lambda>r. r)\<rparr>"

definition phoneAccount :: sipAccount where
  "phoneAccount = \<lparr>ac_ID = runes ''a'', ac_Username = runes ''u'', ac_Port = 5060, ac_Revision = 1, ac_MD5 = [1], ac_SHA256 = [2]\<rparr>"

definition phoneKey :: gostring where "phoneKey = accountKey (runes ''u'') 5060"

definition phoneRandom :: "nat \<Rightarrow> byte list option" where
  "phoneRandom n = Some [7]"

definition phoneIds :: "nat \<Rightarrow> byte list option" where
  "phoneIds n = (if n = 24 then None else Some [7])"

definition phoneEntry :: "int \<Rightarrow> nonce_entry" where
  "phoneEntry n = \<lparr>ne_source = runes ''h:5/TCP'', ne_username = runes ''u'', ne_port = 5060, ne_expires = 60 * second, ne_count = n\<rparr>"

definition phoneStart :: registrar where
  "phoneStart = \<lparr>accounts = [(phoneKey, phoneAccount)], current = [], nonces = [], rates = []\<rparr>"

definition phoneChallenged :: registrar where
  "phoneChallenged = phoneStart\<lparr>nonces := [(phoneNonce, phoneEntry 0)], rates := [(runes ''h'', \<lparr>rt_start = 0, rt_count = 1\<rparr>)]\<rparr>"

lemma phone_start: "registrar_run phoneLibrary phoneStart {} []"
proof -
  have "Replace [phoneAccount] newRegistrar = phoneStart"
    by (simp add: Replace_def newRegistrar_def phoneStart_def phoneKey_def phoneAccount_def)
  then show ?thesis using registrar_run.replaced[OF registrar_run.new, of "[phoneAccount]"] by simp
qed

lemma phone_fields:
  "rq_Method (phoneRequest auth) = registerMethod" "rq_FromUser (phoneRequest auth) = Some (runes ''u'')"
  "rq_ToUser (phoneRequest auth) = Some (runes ''u'')" "rq_CallID (phoneRequest auth) = Some (runes ''c'')"
  "rq_CSeq (phoneRequest auth) = Some (1, registerMethod)" "rq_BodyLength (phoneRequest auth) = 0"
  by (simp_all add: phoneRequest_def)

lemma phone_host: "splitHost (rq_Source (phoneRequest auth)) = runes ''h''"
  by (simp add: splitHost_def lastRune_def phoneRequest_def)

lemma phone_challenged:
  "\<exists>a. handleLocked phoneLibrary phoneRandom 0 (phoneRequest None) 5060 False phoneStart = (Some a, phoneChallenged) \<and> refused (Some a)"
proof -
  have "authorizedBy phoneLibrary (phoneRequest None) 5060 r = None" for r
    by (simp add: authorizedBy_def phoneRequest_def)
  then show ?thesis
    unfolding handleLocked_def Let_def phone_host
    by (simp add: phoneRequest_def sweep_def phoneStart_def countRate_def admitRequest_def issueChallenge_def
        phoneRandom_def phoneNonce_def phoneChallenged_def phoneEntry_def nonceSource_def runeBytes_ascii refused_headers)
qed

lemma phone_registered:
  "\<exists>a r b. handleLocked phoneLibrary phoneIds 1 (phoneRequest (Some [])) 5060 False phoneChallenged = (Some a, r)
     \<and> \<not> refused (Some a) \<and> b \<in> set (current r) \<and> b \<notin> set (current phoneChallenged)"
proof -
  let ?r1 = "phoneChallenged\<lparr>rates := [(runes ''h'', \<lparr>rt_start = 0, rt_count = Suc (Suc 0)\<rparr>)]\<rparr>"
  have auth: "authorizedBy phoneLibrary (phoneRequest (Some [])) 5060 ?r1 = Some (phoneCredentials, phoneEntry 0)"
    by (simp add: authorizedBy_def phoneRequest_def phoneLibrary_def phoneChallenged_def phoneStart_def phoneKey_def
        wellFormedCredentials_def phoneCredentials_def nonceUsable_def nonceSource_def phoneEntry_def knownAlgorithm_def
        expectedResponse_def ToUpper_def ToLower_def lowerRune_def runeBytes_ascii Let_def)
  have sweep: "sweep 1 phoneChallenged = phoneChallenged"
    by (simp add: sweep_def phoneChallenged_def phoneStart_def phoneEntry_def)
  have "\<exists>a r b. registerContact phoneIds 1 (phoneRequest (Some [])) (runes ''c'') 1 (ac_ID phoneAccount)
      (useNonce phoneCredentials (phoneEntry 0) ?r1) = (a, r) \<and> \<not> refused (Some a) \<and> b \<in> set (current r)"
    by (simp add: registerContact_def bind_def phoneRequest_def requestedSeconds_def phoneContact_def instanceParam_def
        phoneIds_def useNonce_def phoneChallenged_def phoneStart_def runeBytes_ascii registeredAnswer_def Let_def refused_def
        respond_def withHeader_def)
  then obtain a r b where reg: "registerContact phoneIds 1 (phoneRequest (Some [])) (runes ''c'') 1 (ac_ID phoneAccount)
      (useNonce phoneCredentials (phoneEntry 0) ?r1) = (a, r)" "\<not> refused (Some a)" "b \<in> set (current r)" by blast
  have rates: "rates phoneChallenged = [(runes ''h'', \<lparr>rt_start = 0, rt_count = 1\<rparr>)]"
    by (simp add: phoneChallenged_def)
  have account: "map_of (accounts phoneChallenged) (accountKey (runes ''u'') 5060) = Some phoneAccount"
    by (simp add: phoneChallenged_def phoneStart_def phoneKey_def)
  have "handleLocked phoneLibrary phoneIds 1 (phoneRequest (Some [])) 5060 False phoneChallenged
      = authorizedRequest phoneIds 1 (phoneRequest (Some [])) (runes ''c'') 1 False (ac_ID phoneAccount)
          (useNonce phoneCredentials (phoneEntry 0) ?r1)"
    unfolding handleLocked_def Let_def phone_host sweep
    by (simp add: phone_fields countRate_def rates admitRequest_def runeBytes_ascii auth[simplified] account[simplified])
  then have "handleLocked phoneLibrary phoneIds 1 (phoneRequest (Some [])) 5060 False phoneChallenged = (Some a, r)"
    using reg(1) by (simp add: authorizedRequest_def) (simp add: phoneRequest_def)
  moreover have "current phoneChallenged = []" by (simp add: phoneChallenged_def phoneStart_def)
  ultimately show ?thesis using reg(2,3) by (intro exI[of _ a] exI[of _ r] exI[of _ b]) simp
qed

theorem sip_nonce_once_witness:
  "\<exists>r. registrar_run phoneLibrary r {phoneNonce} [(phoneNonce, 1)] \<and> distinct [(phoneNonce, 1 :: int)]"
proof -
  obtain a where "handleLocked phoneLibrary phoneRandom 0 (phoneRequest None) 5060 False phoneStart = (Some a, phoneChallenged)"
    "refused (Some a)" using phone_challenged by blast
  from registrar_run.handled[OF phone_start _ this(1)] this(2)
  have run: "registrar_run phoneLibrary phoneChallenged {phoneNonce} []"
    by (simp add: drawn_def phoneRandom_def phoneNonce_def granted_use_def)
  obtain b r where h: "handleLocked phoneLibrary phoneIds 1 (phoneRequest (Some [])) 5060 False phoneChallenged = (Some b, r)"
    "\<not> refused (Some b)" using phone_registered by blast
  have "registrar_run phoneLibrary r {phoneNonce} [(phoneNonce, 1)]"
    using registrar_run.handled[OF run _ h(1)] h(2)
    by (simp add: drawn_def phoneIds_def granted_use_def phoneRequest_def phoneLibrary_def phoneCredentials_def)
  then show ?thesis using sip_nonce_once by blast
qed

theorem registrar_consistent_witness:
  "registrar_ok phoneStart \<and> current (Replace [] phoneStart) = []"
  using registrar_consistent[OF phone_start, of "[]"] by (auto simp: phoneStart_def Replace_def)

theorem binding_authenticated_witness:
  "\<exists>r b. (\<exists>a. handleLocked phoneLibrary phoneIds 1 (phoneRequest (Some [])) 5060 False phoneChallenged = (Some a, r))
     \<and> b \<in> set (current r) \<and> (\<exists>account. boundBy (phoneRequest (Some [])) 1 account b)"
proof -
  obtain a r b where run: "handleLocked phoneLibrary phoneIds 1 (phoneRequest (Some [])) 5060 False phoneChallenged = (Some a, r)"
    and b: "b \<in> set (current r)" "b \<notin> set (current phoneChallenged)" using phone_registered by blast
  have "registrar_ok phoneChallenged"
    by (simp add: registrar_ok_def phoneChallenged_def phoneStart_def phoneKey_def phoneAccount_def)
  from binding_authenticated[OF this run] b show ?thesis using run by fastforce
qed

end
