(* ===== verification/IkeWire.thy ===== *)
theory IkeWire
  imports Prelude
begin

text \<open>
  The IKEv2 wire format of \<open>backend/internal/vocat/vowifi/ike/wire.go\<close>: the fixed header, the
  payload chain, security association proposals, suite selection and notify payloads. Parsers read
  with checked indices, so a Go index panic would be the value \<open>Inl Panic\<close>; the byte offsets are
  \<open>nat\<close> (Go's \<open>int\<close> cannot overflow on a datagram), \<open>uint8\<close>, \<open>uint16\<close> and \<open>uint32\<close> are words and
  a fixed-size array \<open>[8]byte\<close> is a list whose length is part of the well-formedness predicate.
\<close>

subsection \<open>Constants and errors\<close>

datatype ike_error =
    MalformedPacket | UnexpectedPacket | UnsupportedSuite | IntegrityMismatch
  | InvalidPayloadType | PayloadTooLong | ProposalTooLong | InvalidSelector | InvalidConfiguration
  | NegativeLength | StreamTooLong | BadCipherKey | RandomFailure
  | NotInitialized | PeerLength | PeerRange | TrivialSecret | NotAnAddress

abbreviation payloadNone :: byte where "payloadNone \<equiv> 0"
abbreviation payloadNotify :: byte where "payloadNotify \<equiv> 41"
abbreviation payloadEncrypted :: byte where "payloadEncrypted \<equiv> 46"
abbreviation payloadCP :: byte where "payloadCP \<equiv> 47"

abbreviation protocolIKE :: byte where "protocolIKE \<equiv> 1"
abbreviation protocolESP :: byte where "protocolESP \<equiv> 3"

abbreviation transformEncryption :: byte where "transformEncryption \<equiv> 1"
abbreviation transformPRF :: byte where "transformPRF \<equiv> 2"
abbreviation transformIntegrity :: byte where "transformIntegrity \<equiv> 3"
abbreviation transformDH :: byte where "transformDH \<equiv> 4"
abbreviation transformESN :: byte where "transformESN \<equiv> 5"

abbreviation encryptionAESCBC :: "16 word" where "encryptionAESCBC \<equiv> 12"
abbreviation prfHMACSHA1 :: "16 word" where "prfHMACSHA1 \<equiv> 2"
abbreviation prfHMACSHA256 :: "16 word" where "prfHMACSHA256 \<equiv> 5"
abbreviation integrityHMACSHA1_96 :: "16 word" where "integrityHMACSHA1_96 \<equiv> 2"
abbreviation integrityHMACSHA256_128 :: "16 word" where "integrityHMACSHA256_128 \<equiv> 12"
abbreviation dhMODP1024 :: "16 word" where "dhMODP1024 \<equiv> 2"
abbreviation dhMODP2048 :: "16 word" where "dhMODP2048 \<equiv> 14"
abbreviation transformAttributeKeyLen :: "16 word" where "transformAttributeKeyLen \<equiv> 14"

subsection \<open>The fixed header\<close>

record ike_header =
  hdr_initiator :: "byte list"
  hdr_responder :: "byte list"
  hdr_next :: byte
  hdr_version :: byte
  hdr_exchange :: byte
  hdr_flags :: byte
  hdr_message :: "32 word"
  hdr_length :: "32 word"

definition marshalHeader :: "ike_header \<Rightarrow> byte list \<Rightarrow> byte list" where
  "marshalHeader h body =
     (let version = (if hdr_version h = 0 then 0x20 else hdr_version h)
      in hdr_initiator h @ hdr_responder h @ [hdr_next h, version, hdr_exchange h, hdr_flags h] @
         put32 (hdr_message h) @ put32 (word_of_nat (28 + length body)) @ body)"

definition parseIKEPacket :: "byte list \<Rightarrow> (ike_error, ike_header \<times> byte list) res" where
  "parseIKEPacket packet =
     (if length packet < 28 then err MalformedPacket
      else
        rbind (slice packet 0 8) (\<lambda>ispi.
        rbind (slice packet 8 16) (\<lambda>rspi.
        rbind (idx packet 16) (\<lambda>next.
        rbind (idx packet 17) (\<lambda>version.
        rbind (idx packet 18) (\<lambda>exchange.
        rbind (idx packet 19) (\<lambda>flags.
        rbind (get32 packet 20) (\<lambda>message.
        rbind (get32 packet 24) (\<lambda>len.
          if drop_bit 4 version \<noteq> 2 then err MalformedPacket
          else if len < 28 \<or> unat len \<noteq> length packet then err MalformedPacket
          else rbind (slice packet 28 (length packet)) (\<lambda>body.
            Inr (\<lparr>hdr_initiator = ispi, hdr_responder = rspi, hdr_next = next, hdr_version = version,
                  hdr_exchange = exchange, hdr_flags = flags, hdr_message = message, hdr_length = len\<rparr>,
                 body)))))))))))"

subsection \<open>The payload chain\<close>

record payload =
  pl_type :: byte
  pl_critical :: bool
  pl_body :: "byte list"

definition followingType :: "payload list \<Rightarrow> byte" where
  "followingType ps = (case ps of [] \<Rightarrow> payloadNone | p # _ \<Rightarrow> pl_type p)"

fun marshalPayloads :: "payload list \<Rightarrow> (ike_error, byte list) res" where
  "marshalPayloads [] = Inr []"
| "marshalPayloads (p # ps) =
     (if pl_type p = payloadNone \<or> pl_type p = payloadEncrypted then err InvalidPayloadType
      else if 4 + length (pl_body p) > 65535 then err PayloadTooLong
      else rbind (marshalPayloads ps) (\<lambda>rest.
        Inr ([followingType ps, if pl_critical p then 0x80 else 0] @
             put16 (word_of_nat (4 + length (pl_body p))) @ pl_body p @ rest)))"

definition marshalPayloadChain :: "payload list \<Rightarrow> (ike_error, byte \<times> byte list) res" where
  "marshalPayloadChain ps =
     (if ps = [] then Inr (payloadNone, [])
      else rbind (marshalPayloads ps) (\<lambda>out. Inr (followingType ps, out)))"

function parsePayloads :: "byte list \<Rightarrow> byte \<Rightarrow> nat \<Rightarrow> payload list \<Rightarrow> (ike_error, payload list) res" where
  "parsePayloads encoded next offset result =
     (if next = payloadNone
      then (if offset \<noteq> length encoded then err MalformedPacket else Inr result)
      else if 64 \<le> length result then err MalformedPacket
      else if offset + 4 > length encoded then err MalformedPacket
      else
        rbind (idx encoded offset) (\<lambda>following.
        rbind (idx encoded (offset + 1)) (\<lambda>flags.
        rbind (get16 encoded (offset + 2)) (\<lambda>len16.
          (let len = unat len16
           in if len < 4 \<or> offset + len > length encoded then err MalformedPacket
              else rbind (slice encoded (offset + 4) (offset + len)) (\<lambda>body.
                parsePayloads encoded following (offset + len)
                  (result @ [\<lparr>pl_type = next, pl_critical = (flags AND 0x80 \<noteq> 0), pl_body = body\<rparr>])))))))"
  by pat_completeness auto
termination by (relation "measure (\<lambda>(encoded, next, offset, result). 64 - length result)") auto

declare parsePayloads.simps [simp del]

definition parsePayloadChain :: "byte \<Rightarrow> byte list \<Rightarrow> (ike_error, payload list) res" where
  "parsePayloadChain first encoded = parsePayloads encoded first 0 []"

definition payloadsOfType :: "payload list \<Rightarrow> byte \<Rightarrow> payload list" where
  "payloadsOfType ps kind = filter (\<lambda>p. pl_type p = kind) ps"

definition onePayload :: "payload list \<Rightarrow> byte \<Rightarrow> (ike_error, payload) res" where
  "onePayload ps kind =
     (case payloadsOfType ps kind of [p] \<Rightarrow> Inr p | _ \<Rightarrow> err UnexpectedPacket)"

subsection \<open>Proposals\<close>

record transform =
  tr_type :: byte
  tr_id :: "16 word"
  tr_keyLength :: int

record proposal =
  pr_number :: byte
  pr_protocol :: byte
  pr_spi :: "byte list"
  pr_transforms :: "transform list"

definition marshalAttributes :: "transform \<Rightarrow> byte list" where
  "marshalAttributes t =
     (if tr_keyLength t > 0
      then put16 (0x8000 OR transformAttributeKeyLen) @ put16 (word_of_int (tr_keyLength t)) else [])"

fun marshalTransforms :: "transform list \<Rightarrow> byte list" where
  "marshalTransforms [] = []"
| "marshalTransforms (t # ts) =
     [if ts \<noteq> [] then 3 else 0, 0] @ put16 (word_of_nat (8 + length (marshalAttributes t))) @
     [tr_type t, 0] @ put16 (tr_id t) @ marshalAttributes t @ marshalTransforms ts"

fun marshalProposals :: "proposal list \<Rightarrow> (ike_error, byte list) res" where
  "marshalProposals [] = Inr []"
| "marshalProposals (p # ps) =
     (if length (pr_spi p) > 255 \<or> length (pr_transforms p) > 255 then err ProposalTooLong
      else
        (let transforms = marshalTransforms (pr_transforms p)
         in rbind (marshalProposals ps) (\<lambda>rest.
              Inr ([if ps \<noteq> [] then 2 else 0, 0] @
                   put16 (word_of_nat (8 + length (pr_spi p) + length transforms)) @
                   [pr_number p, pr_protocol p, word_of_nat (length (pr_spi p)),
                    word_of_nat (length (pr_transforms p))] @ pr_spi p @ transforms @ rest))))"

function parseAttributes :: "byte list \<Rightarrow> int \<Rightarrow> (ike_error, int) res" where
  "parseAttributes attributes keyLength =
     (if attributes = [] then Inr keyLength
      else if length attributes < 4 then err MalformedPacket
      else
        rbind (get16 attributes 0) (\<lambda>kind.
        rbind (get16 attributes 2) (\<lambda>value.
          if kind AND 0x8000 \<noteq> 0
          then parseAttributes (drop 4 attributes)
                 (if kind AND 0x7fff = transformAttributeKeyLen then uint value else keyLength)
          else if 4 + unat value > length attributes then err MalformedPacket
          else if kind = transformAttributeKeyLen \<and> unat value = 2
          then rbind (get16 attributes 4) (\<lambda>bits.
                 parseAttributes (drop (4 + unat value) attributes) (uint bits))
          else parseAttributes (drop (4 + unat value) attributes) keyLength)))"
  by pat_completeness auto
termination by (relation "measure (\<lambda>(attributes, keyLength). length attributes)") auto

declare parseAttributes.simps [simp del]

function parseTransforms ::
  "byte list \<Rightarrow> nat \<Rightarrow> nat \<Rightarrow> transform list \<Rightarrow> (ike_error, transform list) res" where
  "parseTransforms encoded offset limit transforms =
     (if \<not> offset < limit then (if offset \<noteq> limit then err MalformedPacket else Inr transforms)
      else if 32 \<le> length transforms \<or> offset + 8 > limit then err MalformedPacket
      else
        rbind (get16 encoded (offset + 2)) (\<lambda>len16.
          (let len = unat len16; tend = offset + len
           in if len < 8 \<or> tend > limit then err MalformedPacket
              else
                rbind (idx encoded offset) (\<lambda>marker.
                  if tend < limit \<and> marker \<noteq> 3 then err MalformedPacket
                  else if tend = limit \<and> marker \<noteq> 0 then err MalformedPacket
                  else
                    rbind (idx encoded (offset + 4)) (\<lambda>kind.
                    rbind (get16 encoded (offset + 6)) (\<lambda>ident.
                    rbind (slice encoded (offset + 8) tend) (\<lambda>attributes.
                    rbind (parseAttributes attributes 0) (\<lambda>bits.
                      parseTransforms encoded tend limit
                        (transforms @ [\<lparr>tr_type = kind, tr_id = ident, tr_keyLength = bits\<rparr>])))))))))"
  by pat_completeness auto
termination by (relation "measure (\<lambda>(encoded, offset, limit, transforms). 32 - length transforms)") auto

declare parseTransforms.simps [simp del]

function parseProposalList ::
  "byte list \<Rightarrow> nat \<Rightarrow> proposal list \<Rightarrow> (ike_error, proposal list) res" where
  "parseProposalList encoded offset result =
     (if offset = length encoded then Inr result
      else if 16 \<le> length result \<or> offset + 8 > length encoded then err MalformedPacket
      else
        rbind (idx encoded offset) (\<lambda>last.
        rbind (get16 encoded (offset + 2)) (\<lambda>len16.
        rbind (idx encoded (offset + 6)) (\<lambda>spi8.
        rbind (idx encoded (offset + 7)) (\<lambda>count8.
          (let len = unat len16; spiSize = unat spi8
           in if len < 8 + spiSize \<or> offset + len > length encoded then err MalformedPacket
              else
                rbind (idx encoded (offset + 4)) (\<lambda>number.
                rbind (idx encoded (offset + 5)) (\<lambda>protocol.
                rbind (slice encoded (offset + 8) (offset + 8 + spiSize)) (\<lambda>spi.
                rbind (parseTransforms encoded (offset + 8 + spiSize) (offset + len) []) (\<lambda>transforms.
                  if length transforms \<noteq> unat count8 then err MalformedPacket
                  else
                    (let result' = result @ [\<lparr>pr_number = number, pr_protocol = protocol, pr_spi = spi,
                                              pr_transforms = transforms\<rparr>]
                     in if last = 0
                        then (if offset + len \<noteq> length encoded then err MalformedPacket else Inr result')
                        else if last \<noteq> 2 then err MalformedPacket
                        else parseProposalList encoded (offset + len) result')))))))))))"
  by pat_completeness auto
termination by (relation "measure (\<lambda>(encoded, offset, result). 16 - length result)") auto

declare parseProposalList.simps [simp del]

definition parseProposals :: "byte list \<Rightarrow> (ike_error, proposal list) res" where
  "parseProposals encoded =
     rbind (parseProposalList encoded 0 []) (\<lambda>result. if result = [] then err MalformedPacket else Inr result)"


subsection \<open>Suite selection\<close>

record negotiated_suite =
  su_encryption :: "16 word"
  su_bits :: int
  su_prf :: "16 word"
  su_integrity :: "16 word"
  su_dh :: "16 word"

fun collectIKE :: "transform list \<Rightarrow> byte list \<Rightarrow> negotiated_suite \<Rightarrow> (ike_error, negotiated_suite) res" where
  "collectIKE [] seen s = Inr s"
| "collectIKE (t # ts) seen s =
     (if tr_type t \<in> set seen then err UnsupportedSuite
      else if tr_type t = transformEncryption
      then collectIKE ts (tr_type t # seen) (s\<lparr>su_encryption := tr_id t, su_bits := tr_keyLength t\<rparr>)
      else if tr_type t = transformPRF then collectIKE ts (tr_type t # seen) (s\<lparr>su_prf := tr_id t\<rparr>)
      else if tr_type t = transformIntegrity then collectIKE ts (tr_type t # seen) (s\<lparr>su_integrity := tr_id t\<rparr>)
      else if tr_type t = transformDH then collectIKE ts (tr_type t # seen) (s\<lparr>su_dh := tr_id t\<rparr>)
      else err UnsupportedSuite)"

definition parseIKESuite :: "proposal \<Rightarrow> (ike_error, negotiated_suite) res" where
  "parseIKESuite item =
     (if pr_protocol item \<noteq> protocolIKE \<or> length (pr_spi item) \<noteq> 0 then err UnsupportedSuite
      else
        rbind (collectIKE (pr_transforms item) []
                 \<lparr>su_encryption = 0, su_bits = 0, su_prf = 0, su_integrity = 0, su_dh = 0\<rparr>) (\<lambda>s.
          if su_encryption s \<noteq> encryptionAESCBC \<or> (su_bits s \<noteq> 128 \<and> su_bits s \<noteq> 256) then err UnsupportedSuite
          else if su_prf s \<noteq> prfHMACSHA1 \<and> su_prf s \<noteq> prfHMACSHA256 then err UnsupportedSuite
          else if su_integrity s \<noteq> integrityHMACSHA1_96 \<and> su_integrity s \<noteq> integrityHMACSHA256_128
          then err UnsupportedSuite
          else if su_dh s \<noteq> dhMODP1024 \<and> su_dh s \<noteq> dhMODP2048 then err UnsupportedSuite
          else Inr s))"

subsection \<open>Notify payloads\<close>

definition makeNotify :: "16 word \<Rightarrow> byte list \<Rightarrow> payload" where
  "makeNotify notifyType data =
     \<lparr>pl_type = payloadNotify, pl_critical = False, pl_body = [0, 0] @ put16 notifyType @ data\<rparr>"

definition parseNotify :: "payload \<Rightarrow> (ike_error, 16 word \<times> byte list) res" where
  "parseNotify item =
     (if pl_type item \<noteq> payloadNotify \<or> length (pl_body item) < 4 then err MalformedPacket
      else
        rbind (idx (pl_body item) 1) (\<lambda>spi8.
          (let spiSize = unat spi8
           in if 4 + spiSize > length (pl_body item) then err MalformedPacket
              else
                rbind (get16 (pl_body item) 2) (\<lambda>kind.
                rbind (slice (pl_body item) (4 + spiSize) (length (pl_body item))) (\<lambda>data.
                  Inr (kind, data))))))"

end
