(* ===== verification/IkeKeys.thy ===== *)
theory IkeKeys
  imports IkeWire
begin

text \<open>
  Key derivation of \<open>backend/internal/vocat/vowifi/ike/crypto.go\<close> and \<open>child.go\<close>: suite lengths, the
  pseudo-random function, \<open>prfPlus\<close> with its one-byte counter, and the split of its stream into IKE
  and CHILD_SA keys. AES and HMAC come from Go's \<open>crypto\<close> packages: they are the fields of a record
  \<open>crypto\<close> that every definition takes, and \<open>crypto_ok\<close> states what their documentation promises
  (block and digest sizes, decryption inverting encryption).
\<close>

record crypto =
  aes_encrypt :: "byte list \<Rightarrow> byte list \<Rightarrow> byte list"
  aes_decrypt :: "byte list \<Rightarrow> byte list \<Rightarrow> byte list"
  hmac_sha1 :: "byte list \<Rightarrow> byte list \<Rightarrow> byte list"
  hmac_sha256 :: "byte list \<Rightarrow> byte list \<Rightarrow> byte list"

definition crypto_ok :: "crypto \<Rightarrow> bool" where
  "crypto_ok cr \<longleftrightarrow>
     (\<forall>key block. length block = 16 \<longrightarrow> length (aes_encrypt cr key block) = 16 \<and>
        aes_decrypt cr key (aes_encrypt cr key block) = block) \<and>
     (\<forall>key block. length block = 16 \<longrightarrow> length (aes_decrypt cr key block) = 16) \<and>
     (\<forall>key data. length (hmac_sha1 cr key data) = 20) \<and> (\<forall>key data. length (hmac_sha256 cr key data) = 32)"

subsection \<open>Suite lengths\<close>

datatype hash_alg = SHA1 | SHA256

definition hashSize :: "hash_alg \<Rightarrow> nat" where
  "hashSize h = (case h of SHA1 \<Rightarrow> 20 | SHA256 \<Rightarrow> 32)"

definition suitePRF :: "negotiated_suite \<Rightarrow> (ike_error, hash_alg \<times> nat) res" where
  "suitePRF s =
     (if su_prf s = prfHMACSHA1 then Inr (SHA1, hashSize SHA1)
      else if su_prf s = prfHMACSHA256 then Inr (SHA256, hashSize SHA256)
      else err UnsupportedSuite)"

definition ikeEncryptionKeyLength :: "negotiated_suite \<Rightarrow> (ike_error, nat) res" where
  "ikeEncryptionKeyLength s =
     (if su_bits s = 128 \<or> su_bits s = 256 then Inr (nat (su_bits s div 8)) else err UnsupportedSuite)"

definition integrityLengths :: "negotiated_suite \<Rightarrow> (ike_error, nat \<times> nat) res" where
  "integrityLengths s =
     (if su_integrity s = integrityHMACSHA1_96 then Inr (hashSize SHA1, 12)
      else if su_integrity s = integrityHMACSHA256_128 then Inr (hashSize SHA256, 16)
      else err UnsupportedSuite)"

definition hmac :: "crypto \<Rightarrow> hash_alg \<Rightarrow> byte list \<Rightarrow> byte list \<Rightarrow> byte list" where
  "hmac cr h key data = (case h of SHA1 \<Rightarrow> hmac_sha1 cr key data | SHA256 \<Rightarrow> hmac_sha256 cr key data)"

definition prfMac :: "crypto \<Rightarrow> negotiated_suite \<Rightarrow> byte list \<Rightarrow> byte list \<Rightarrow> (ike_error, byte list) res" where
  "prfMac cr s key data = rbind (suitePRF s) (\<lambda>(h, _). Inr (hmac cr h key data))"

subsection \<open>The key stream\<close>

function prfLoop ::
  "crypto \<Rightarrow> negotiated_suite \<Rightarrow> byte list \<Rightarrow> byte list \<Rightarrow> nat \<Rightarrow> byte \<Rightarrow> byte list \<Rightarrow> byte list \<Rightarrow>
   (ike_error, byte list) res" where
  "prfLoop cr s key seed n counter previous result =
     (if \<not> length result < n then slice result 0 n
      else if counter = 0 then err StreamTooLong
      else rbind (prfMac cr s key (previous @ seed @ [counter])) (\<lambda>block.
             prfLoop cr s key seed n (counter + 1) block (result @ block)))"
  by pat_completeness auto
termination
proof (relation "measure (\<lambda>(cr, s, key, seed, n, counter, previous, result). if counter = 0 then 0 else 256 - unat counter)")
  show "wf (measure (\<lambda>(cr :: crypto, s :: negotiated_suite, key :: byte list, seed :: byte list, n :: nat,
      counter :: byte, previous :: byte list, result :: byte list). if counter = 0 then 0 else 256 - unat counter))"
    by simp
next
  fix cr s key seed n and counter :: byte and previous result block :: "byte list"
  assume "counter \<noteq> 0"
  moreover have "unat counter < 256" using unsigned_less[of counter] by simp
  moreover have "counter + 1 = 0 \<or> unat (counter + 1) = unat counter + 1"
    using unatSuc[of counter] by (auto simp: add.commute)
  ultimately show "((cr, s, key, seed, n, counter + 1, block, result @ block), cr, s, key, seed, n, counter, previous, result)
      \<in> measure (\<lambda>(cr, s, key, seed, n, counter, previous, result). if counter = 0 then 0 else 256 - unat counter)"
    by auto
qed

declare prfLoop.simps [simp del]

definition prfPlus ::
  "crypto \<Rightarrow> negotiated_suite \<Rightarrow> byte list \<Rightarrow> byte list \<Rightarrow> int \<Rightarrow> (ike_error, byte list) res" where
  "prfPlus cr s key seed n =
     (if n < 0 then err NegativeLength else prfLoop cr s key seed (nat n) 1 [] [])"

text \<open>The closure \<open>take\<close> of the callers: cut a prefix off the stream.\<close>

definition cut :: "nat \<Rightarrow> byte list \<Rightarrow> (ike_error, byte list \<times> byte list) res" where
  "cut n stream = rbind (slice stream 0 n) (\<lambda>v. rbind (slice stream n (length stream)) (\<lambda>rest. Inr (v, rest)))"

record ike_keys =
  sk_d :: "byte list"
  sk_ai :: "byte list"
  sk_ar :: "byte list"
  sk_ei :: "byte list"
  sk_er :: "byte list"
  sk_pi :: "byte list"
  sk_pr :: "byte list"

definition deriveIKEKeys ::
  "crypto \<Rightarrow> negotiated_suite \<Rightarrow> byte list \<Rightarrow> byte list \<Rightarrow> byte list \<Rightarrow> byte list \<Rightarrow> byte list \<Rightarrow>
   (ike_error, ike_keys) res" where
  "deriveIKEKeys cr s sharedSecret ni nr spii spir =
     rbind (suitePRF s) (\<lambda>(_, pl).
     rbind (ikeEncryptionKeyLength s) (\<lambda>el.
     rbind (integrityLengths s) (\<lambda>(il, _).
     rbind (prfMac cr s (ni @ nr) sharedSecret) (\<lambda>skeyseed.
     rbind (prfPlus cr s skeyseed (ni @ nr @ spii @ spir) (int (pl + il * 2 + el * 2 + pl * 2))) (\<lambda>st0.
     rbind (cut pl st0) (\<lambda>(d, st1).
     rbind (cut il st1) (\<lambda>(ai, st2).
     rbind (cut il st2) (\<lambda>(ar, st3).
     rbind (cut el st3) (\<lambda>(ei, st4).
     rbind (cut el st4) (\<lambda>(er, st5).
     rbind (cut pl st5) (\<lambda>(pi, st6).
     rbind (cut pl st6) (\<lambda>(pr, st7).
       Inr \<lparr>sk_d = d, sk_ai = ai, sk_ar = ar, sk_ei = ei, sk_er = er, sk_pi = pi, sk_pr = pr\<rparr>))))))))))))"

subsection \<open>CHILD_SA suites and keys\<close>

record esp_suite =
  es_encryption :: "16 word"
  es_bits :: int
  es_integrity :: "16 word"
  es_esn :: "16 word"

definition espEncryptionKeyLength :: "esp_suite \<Rightarrow> (ike_error, nat) res" where
  "espEncryptionKeyLength s =
     (if es_encryption s \<noteq> encryptionAESCBC \<or> (es_bits s \<noteq> 128 \<and> es_bits s \<noteq> 256) then err UnsupportedSuite
      else Inr (nat (es_bits s div 8)))"

definition espIntegrityKeyLength :: "esp_suite \<Rightarrow> (ike_error, nat) res" where
  "espIntegrityKeyLength s =
     (if es_integrity s = integrityHMACSHA1_96 then Inr 20
      else if es_integrity s = integrityHMACSHA256_128 then Inr 32
      else err UnsupportedSuite)"

fun collectESP :: "transform list \<Rightarrow> byte list \<Rightarrow> esp_suite \<Rightarrow> (ike_error, esp_suite) res" where
  "collectESP [] seen s = Inr s"
| "collectESP (t # ts) seen s =
     (if tr_type t \<in> set seen then err UnsupportedSuite
      else if tr_type t = transformEncryption
      then collectESP ts (tr_type t # seen) (s\<lparr>es_encryption := tr_id t, es_bits := tr_keyLength t\<rparr>)
      else if tr_type t = transformIntegrity then collectESP ts (tr_type t # seen) (s\<lparr>es_integrity := tr_id t\<rparr>)
      else if tr_type t = transformESN then collectESP ts (tr_type t # seen) (s\<lparr>es_esn := tr_id t\<rparr>)
      else err UnsupportedSuite)"

definition parseESPSuite :: "proposal \<Rightarrow> (ike_error, esp_suite) res" where
  "parseESPSuite item =
     (if pr_protocol item \<noteq> protocolESP \<or> length (pr_spi item) \<noteq> 4 then err UnsupportedSuite
      else
        rbind (collectESP (pr_transforms item) [] \<lparr>es_encryption = 0, es_bits = 0, es_integrity = 0, es_esn = 0\<rparr>) (\<lambda>s.
        rbind (espEncryptionKeyLength s) (\<lambda>_.
        rbind (espIntegrityKeyLength s) (\<lambda>_.
          if es_esn s \<noteq> 0 then err UnsupportedSuite else Inr s))))"

definition deriveChildSAKeys ::
  "crypto \<Rightarrow> negotiated_suite \<Rightarrow> esp_suite \<Rightarrow> byte list \<Rightarrow> byte list \<Rightarrow> byte list \<Rightarrow>
   (ike_error, byte list \<times> byte list \<times> byte list \<times> byte list) res" where
  "deriveChildSAKeys cr s child skd ni nr =
     rbind (espEncryptionKeyLength child) (\<lambda>el.
     rbind (espIntegrityKeyLength child) (\<lambda>il.
     rbind (prfPlus cr s skd (ni @ nr) (int (2 * (el + il)))) (\<lambda>st0.
     rbind (cut el st0) (\<lambda>(oe, st1).
     rbind (cut il st1) (\<lambda>(oi, st2).
     rbind (cut el st2) (\<lambda>(ie, st3).
     rbind (cut il st3) (\<lambda>(ii, st4).
       Inr (oe, oi, ie, ii))))))))"

definition espSuiteNames :: "esp_suite \<Rightarrow> string \<times> string" where
  "espSuiteNames s =
     (''aes-cbc-'' @ showInt (es_bits s),
      if es_integrity s = integrityHMACSHA1_96 then ''hmac-sha1-96''
      else if es_integrity s = integrityHMACSHA256_128 then ''hmac-sha2-256-128'' else [])"

end
