(* ===== verification/IkeChild.thy ===== *)
theory IkeChild
  imports IkeWire
begin

text \<open>
  Traffic selectors and configuration payloads of \<open>backend/internal/vocat/vowifi/ike/child.go\<close>, with
  the \<open>net.IP\<close> conversions they and the ESP policy use. A \<open>net.IP\<close> is a byte list; \<open>nil\<close> is the empty
  list (the code tests addresses only through \<open>To4\<close>, \<open>To16\<close> and their length).
\<close>

subsection \<open>net.IP\<close>

abbreviation v4InV6Prefix :: "byte list" where
  "v4InV6Prefix \<equiv> [0, 0, 0, 0, 0, 0, 0, 0, 0, 0, 0xff, 0xff]"

definition To4 :: "byte list \<Rightarrow> byte list option" where
  "To4 ip = (if length ip = 4 then Some ip
     else if length ip = 16 \<and> take 12 ip = v4InV6Prefix then Some (drop 12 ip) else None)"

definition To16 :: "byte list \<Rightarrow> byte list option" where
  "To16 ip = (if length ip = 4 then Some (v4InV6Prefix @ ip) else if length ip = 16 then Some ip else None)"

subsection \<open>Traffic selectors\<close>

record selector =
  ts_protocol :: byte
  ts_startPort :: "16 word"
  ts_endPort :: "16 word"
  ts_start :: "byte list"
  ts_end :: "byte list"

definition anyTrafficSelector :: "bool \<Rightarrow> payload" where
  "anyTrafficSelector ipv6 =
     (let selector = (if ipv6 then [8, 0] @ put16 40 @ [0, 0] @ put16 65535 @ replicate 16 0 @ replicate 16 0xff
                      else [7, 0] @ put16 16 @ [0, 0] @ put16 65535 @ replicate 4 0 @ replicate 4 0xff)
      in \<lparr>pl_type = 0, pl_critical = False, pl_body = [1, 0, 0, 0] @ selector\<rparr>)"

definition dualStackTrafficSelectors :: "byte \<Rightarrow> payload" where
  "dualStackTrafficSelectors kind =
     \<lparr>pl_type = kind, pl_critical = False,
      pl_body = [2, 0, 0, 0] @ drop 4 (pl_body (anyTrafficSelector False)) @ drop 4 (pl_body (anyTrafficSelector True))\<rparr>"

text \<open>The \<open>switch\<close> on the selector type.\<close>

definition selectorAddresses ::
  "byte list \<Rightarrow> nat \<Rightarrow> byte \<Rightarrow> nat \<Rightarrow> (ike_error, byte list \<times> byte list) res" where
  "selectorAddresses body offset kind len =
     (if kind = 7 then
        (if len \<noteq> 16 then err InvalidSelector
         else rbind (slice body (offset + 8) (offset + 12)) (\<lambda>a.
              rbind (slice body (offset + 12) (offset + 16)) (\<lambda>b. Inr (a, b))))
      else if kind = 8 then
        (if len \<noteq> 40 then err InvalidSelector
         else rbind (slice body (offset + 8) (offset + 24)) (\<lambda>a.
              rbind (slice body (offset + 24) (offset + 40)) (\<lambda>b. Inr (a, b))))
      else err InvalidSelector)"

fun parseSelectors :: "byte list \<Rightarrow> nat \<Rightarrow> nat \<Rightarrow> (ike_error, selector list \<times> nat) res" where
  "parseSelectors body 0 offset = Inr ([], offset)"
| "parseSelectors body (Suc n) offset =
     (if offset + 8 > length body then err InvalidSelector
      else
        rbind (get16 body (offset + 2)) (\<lambda>len16.
        (let len = unat len16
         in if len < 16 \<or> offset + len > length body then err InvalidSelector
            else
              rbind (idx body (offset + 1)) (\<lambda>protocol.
              rbind (get16 body (offset + 4)) (\<lambda>startPort.
              rbind (get16 body (offset + 6)) (\<lambda>endPort.
              rbind (idx body offset) (\<lambda>kind.
              rbind (selectorAddresses body offset kind len) (\<lambda>(a, b).
              rbind (parseSelectors body n (offset + len)) (\<lambda>(rest, final).
                Inr (\<lparr>ts_protocol = protocol, ts_startPort = startPort, ts_endPort = endPort,
                      ts_start = a, ts_end = b\<rparr> # rest, final))))))))))"

definition parseTrafficSelectors :: "payload \<Rightarrow> (ike_error, selector list) res" where
  "parseTrafficSelectors item =
     (if length (pl_body item) < 4 then err InvalidSelector
      else
        rbind (idx (pl_body item) 0) (\<lambda>count.
        rbind (parseSelectors (pl_body item) (unat count) 4) (\<lambda>(result, offset).
          if offset \<noteq> length (pl_body item) then err InvalidSelector else Inr result)))"

subsection \<open>Configuration\<close>

record network_configuration =
  nc_ipv4 :: "byte list"
  nc_ipv6 :: "byte list"
  nc_prefix :: byte
  nc_dns :: "byte list list"
  nc_pcscf :: "byte list list"

definition configurationAttributes :: "16 word list \<Rightarrow> payload" where
  "configurationAttributes attributes =
     \<lparr>pl_type = payloadCP, pl_critical = False,
      pl_body = [1, 0, 0, 0] @ concat (map (\<lambda>a. put16 a @ [0, 0]) attributes)\<rparr>"

definition configurationRequest :: payload where
  "configurationRequest = configurationAttributes [1, 8, 3, 10, 20, 21, 7]"

definition applyAttribute ::
  "16 word \<Rightarrow> byte list \<Rightarrow> network_configuration \<Rightarrow> (ike_error, network_configuration) res" where
  "applyAttribute kind val c =
     (let k = kind AND 0x7fff
      in if k = 1 then Inr (if length val = 4 then c\<lparr>nc_ipv4 := val\<rparr> else c)
         else if k = 8 then
           (if length val \<noteq> 17 then err InvalidConfiguration
            else
              rbind (idx val 16) (\<lambda>prefix.
                if prefix > 128 then err InvalidConfiguration
                else rbind (slice val 0 16) (\<lambda>ip. Inr (c\<lparr>nc_ipv6 := ip, nc_prefix := prefix\<rparr>))))
         else if k = 3 then Inr (if length val = 4 then c\<lparr>nc_dns := nc_dns c @ [val]\<rparr> else c)
         else if k = 10 then Inr (if length val = 16 then c\<lparr>nc_dns := nc_dns c @ [val]\<rparr> else c)
         else if k = 20 then Inr (if length val = 4 then c\<lparr>nc_pcscf := nc_pcscf c @ [val]\<rparr> else c)
         else if k = 21 then Inr (if length val = 16 then c\<lparr>nc_pcscf := nc_pcscf c @ [val]\<rparr> else c)
         else Inr c)"

function parseConfigurationLoop ::
  "byte list \<Rightarrow> nat \<Rightarrow> network_configuration \<Rightarrow> (ike_error, network_configuration) res" where
  "parseConfigurationLoop body offset c =
     (if \<not> offset < length body then Inr c
      else if offset + 4 > length body then err InvalidConfiguration
      else
        rbind (get16 body offset) (\<lambda>kind.
        rbind (get16 body (offset + 2)) (\<lambda>len16.
          if offset + 4 + unat len16 > length body then err InvalidConfiguration
          else
            rbind (slice body (offset + 4) (offset + 4 + unat len16)) (\<lambda>val.
            rbind (applyAttribute kind val c) (\<lambda>c'.
              parseConfigurationLoop body (offset + 4 + unat len16) c')))))"
  by pat_completeness auto
termination by (relation "measure (\<lambda>(body, offset, c). length body - offset)") auto

declare parseConfigurationLoop.simps [simp del]

definition emptyConfiguration :: network_configuration where
  "emptyConfiguration = \<lparr>nc_ipv4 = [], nc_ipv6 = [], nc_prefix = 0, nc_dns = [], nc_pcscf = []\<rparr>"

definition parseConfiguration :: "payload \<Rightarrow> (ike_error, network_configuration) res" where
  "parseConfiguration item =
     (if pl_type item \<noteq> payloadCP \<or> length (pl_body item) < 4 then err InvalidConfiguration
      else
        rbind (idx (pl_body item) 0) (\<lambda>kind.
          if kind \<noteq> 2 then err InvalidConfiguration
          else parseConfigurationLoop (pl_body item) 4 emptyConfiguration))"

subsection \<open>What is accepted\<close>

definition address_ok :: "byte list \<Rightarrow> bool" where
  "address_ok ip \<longleftrightarrow> length ip = 4 \<or> length ip = 16"

definition selector_ok :: "selector \<Rightarrow> bool" where
  "selector_ok s \<longleftrightarrow> address_ok (ts_start s) \<and> length (ts_end s) = length (ts_start s)"

definition configuration_ok :: "network_configuration \<Rightarrow> bool" where
  "configuration_ok c \<longleftrightarrow> (nc_ipv4 c = [] \<or> length (nc_ipv4 c) = 4) \<and>
     (nc_ipv6 c = [] \<or> length (nc_ipv6 c) = 16) \<and> nc_prefix c \<le> 128 \<and>
     list_all address_ok (nc_dns c) \<and> list_all address_ok (nc_pcscf c)"

lemma selectorAddresses_ok:
  "selectorAddresses body offset kind len = Inr (a, b) \<Longrightarrow> address_ok a \<and> length b = length a"
  by (auto simp: selectorAddresses_def rbind_Inr_iff slice_def address_ok_def split: if_splits)

lemma selectorAddresses_no_panic:
  "offset + len \<le> length body \<Longrightarrow> selectorAddresses body offset kind len \<noteq> Inl Panic"
  by (auto simp: selectorAddresses_def read_Inl_iff split: if_splits)

lemma parseSelectors_accepts:
  "parseSelectors body n offset = Inr (ss, final) \<Longrightarrow>
    length ss = n \<and> list_all selector_ok ss \<and> offset + 16 * n \<le> final"
proof (induction n arbitrary: offset ss final)
  case 0
  then show ?case by simp
next
  case (Suc n)
  then obtain len16 protocol sp ep kind a b rest where "16 \<le> unat (len16 :: 16 word)"
    and ab: "selectorAddresses body offset kind (unat len16) = Inr (a, b)"
    and "parseSelectors body n (offset + unat len16) = Inr (rest, final)"
    "ss = \<lparr>ts_protocol = protocol, ts_startPort = sp, ts_endPort = ep, ts_start = a, ts_end = b\<rparr> # rest"
    by (simp add: rbind_Inr_iff Let_def not_less split: if_splits prod.splits) blast
  moreover have "selector_ok \<lparr>ts_protocol = protocol, ts_startPort = sp, ts_endPort = ep, ts_start = a, ts_end = b\<rparr>"
    using selectorAddresses_ok[OF ab] by (simp add: selector_ok_def)
  ultimately obtain len rest s where "16 \<le> len" "parseSelectors body n (offset + len) = Inr (rest, final)"
    "ss = s # rest" "selector_ok s" by blast
  then show ?case using Suc.IH[of "offset + len" rest final] by simp
qed

lemma parseSelectors_no_panic: "parseSelectors body n offset \<noteq> Inl Panic"
proof (induction n arbitrary: offset)
  case 0
  then show ?case by simp
next
  case (Suc n)
  then show ?case by (auto simp: read_Inl_iff Let_def selectorAddresses_no_panic split: if_splits prod.splits)
qed

lemma applyAttribute_ok:
  "configuration_ok c \<Longrightarrow> applyAttribute kind val c = Inr c' \<Longrightarrow> configuration_ok c'"
  by (auto simp: applyAttribute_def configuration_ok_def address_ok_def Let_def slice_def idx_def split: if_splits)

lemma applyAttribute_no_panic: "applyAttribute kind val c \<noteq> Inl Panic"
  by (auto simp: applyAttribute_def Let_def slice_def idx_def)

lemma parseConfigurationLoop_facts:
  "parseConfigurationLoop body offset c \<noteq> Inl Panic \<and>
   (configuration_ok c \<longrightarrow> parseConfigurationLoop body offset c = Inr c' \<longrightarrow> configuration_ok c')"
proof (induction "length body - offset" arbitrary: offset c rule: less_induct)
  case less
  show ?case
  proof (cases "offset < length body \<and> offset + 4 \<le> length body \<and>
      offset + 4 + unat (un16 (body ! (offset + 2)) (body ! (offset + 3))) \<le> length body")
    case True
    define n where "n = unat (un16 (body ! (offset + 2)) (body ! (offset + 3)))"
    define a where "a = applyAttribute (un16 (body ! offset) (body ! (offset + 1))) (take n (drop (offset + 4) body)) c"
    have eq: "parseConfigurationLoop body offset c = rbind a (\<lambda>c'. parseConfigurationLoop body (offset + 4 + n) c')"
      using True by (subst parseConfigurationLoop.simps) (simp add: get16_def slice_def n_def a_def numeral_3_eq_3)
    have "length body - (offset + 4 + n) < length body - offset"
      using True unfolding n_def by linarith
    note hyp = less.hyps[OF this]
    show ?thesis
    proof (cases a)
      case (Inl f)
      then show ?thesis unfolding eq using applyAttribute_no_panic by (auto simp: a_def)
    next
      case (Inr c1)
      then have "configuration_ok c \<longrightarrow> configuration_ok c1" unfolding a_def using applyAttribute_ok by blast
      then show ?thesis unfolding eq Inr rbind.simps using hyp[of c1] by blast
    qed
  next
    case False
    then show ?thesis
      by (subst (1 2) parseConfigurationLoop.simps) (auto simp: get16_def numeral_3_eq_3)
  qed
qed

text \<open>Accepted selectors and configurations are well formed, whatever the gateway sent: exactly the
  announced number of selectors with two addresses of one family, configuration addresses of 4 or
  16 bytes and an IPv6 prefix of at most 128 bits; and neither parser can read out of range.\<close>
theorem child_parsers_accept:
  "parseTrafficSelectors item \<noteq> Inl Panic \<and> parseConfiguration item \<noteq> Inl Panic \<and>
   (parseTrafficSelectors item = Inr ss \<longrightarrow>
      length ss = unat (pl_body item ! 0) \<and> list_all selector_ok ss \<and> 4 + 16 * length ss \<le> length (pl_body item)) \<and>
   (parseConfiguration item = Inr c \<longrightarrow> configuration_ok c)"
proof (intro conjI impI)
  show "parseTrafficSelectors item \<noteq> Inl Panic"
    by (auto simp: parseTrafficSelectors_def read_Inl_iff parseSelectors_no_panic split: if_splits prod.splits)
  show "parseConfiguration item \<noteq> Inl Panic"
    using parseConfigurationLoop_facts by (auto simp: parseConfiguration_def read_Inl_iff split: if_splits)
  have "configuration_ok emptyConfiguration" by (simp add: configuration_ok_def emptyConfiguration_def)
  then show "configuration_ok c" if "parseConfiguration item = Inr c"
    using that parseConfigurationLoop_facts by (auto simp: parseConfiguration_def rbind_Inr_iff split: if_splits)
  assume "parseTrafficSelectors item = Inr ss"
  then have n: "parseSelectors (pl_body item) (unat (pl_body item ! 0)) 4 = Inr (ss, length (pl_body item))"
    by (auto simp: parseTrafficSelectors_def rbind_Inr_iff idx_def split: if_splits prod.splits)
  from parseSelectors_accepts[OF n] show "length ss = unat (pl_body item ! 0)" "list_all selector_ok ss"
    "4 + 16 * length ss \<le> length (pl_body item)" by auto
qed

end
