(* ===== verification/IkeDh.thy ===== *)
theory IkeDh
  imports IkeChild
begin

text \<open>
  The Diffie-Hellman exchange over the two MODP groups and the NAT detection hash of
  \<open>backend/internal/vocat/vowifi/ike/crypto.go\<close>. A \<open>big.Int\<close> is a natural number (every value here
  is non-negative), \<open>nil\<close> is None; \<open>Exp\<close> is square-and-multiply, proved to be the power modulo the prime.
  SHA-1 is an argument. Both sides of an exchange agree, and no unsafe value is accepted or produced.
\<close>

subsection \<open>Integers and bytes\<close>

definition setBytes :: "byte list \<Rightarrow> nat" where
  "setBytes bs = foldl (\<lambda>v b. v * 256 + unat b) 0 bs"

fun bigEndian :: "nat \<Rightarrow> nat \<Rightarrow> byte list" where
  "bigEndian 0 v = []"
| "bigEndian (Suc n) v = bigEndian n (v div 256) @ [word_of_nat (v mod 256)]"

text \<open>\<open>x.FillBytes(make([]byte, n))\<close> panics when the value does not fit.\<close>

definition fillBytes :: "nat \<Rightarrow> nat \<Rightarrow> (ike_error, byte list) res" where
  "fillBytes n v = (if v < 256 ^ n then Inr (bigEndian n v) else Inl Panic)"

function expMod :: "nat \<Rightarrow> nat \<Rightarrow> nat \<Rightarrow> nat" where
  "expMod b e m =
    (if e = 0 then 1 mod m
     else if even e then expMod (b * b mod m) (e div 2) m
     else b * expMod (b * b mod m) (e div 2) m mod m)"
  by auto
termination by (relation "measure (\<lambda>(b, e, m). e)") auto

declare expMod.simps [simp del]

subsection \<open>The exchange\<close>

text \<open>The primes of groups 2 and 14 with their length in bytes.\<close>

definition modpPrimes :: "16 word \<Rightarrow> (nat \<times> nat) option" where
  "modpPrimes dhGroup =
    (if dhGroup = dhMODP1024 then Some (128,
       0xffffffffffffffffc90fdaa22168c234c4c6628b80dc1cd129024e088a67cc74020bbea63b139b22514a08798e3404ddef9519b3cd3a431b302b0a6df25f14374fe1356d6d51c245e485b576625e7ec6f44c42e9a637ed6b0bff5cb6f406b7edee386bfb5a899fa5ae9f24117c4b1fe649286651ece65381ffffffffffffffff)
     else if dhGroup = dhMODP2048 then Some (256,
       0xffffffffffffffffc90fdaa22168c234c4c6628b80dc1cd129024e088a67cc74020bbea63b139b22514a08798e3404ddef9519b3cd3a431b302b0a6df25f14374fe1356d6d51c245e485b576625e7ec6f44c42e9a637ed6b0bff5cb6f406b7edee386bfb5a899fa5ae9f24117c4b1fe649286651ece45b3dc2007cb8a163bf0598da48361c55d39a69163fa8fd24cf5f83655d23dca3ad961c62f356208552bb9ed529077096966d670c354e4abc9804f1746c08ca18217c32905e462e36ce3be39e772c180e86039b2783a2ec07a28fb5c55df06f4c52c9de2bcbf6955817183995497cea956ae515d2261898fa051015728e5a8aacaa68ffffffffffffffff)
     else None)"

record dh_exchange =
  dh_group :: "16 word"
  dh_prime :: "nat option"
  dh_private :: "nat option"
  dh_public :: "byte list"

definition newDHExchange :: "16 word \<Rightarrow> byte list \<Rightarrow> (ike_error, dh_exchange \<times> byte list) res" where
  "newDHExchange dhGroup random =
    (case modpPrimes dhGroup of
       None \<Rightarrow> err UnsupportedSuite
     | Some (primeLength, prime) \<Rightarrow>
         if length random < primeLength then err RandomFailure
         else
           let sample = take primeLength random;
               private = setBytes sample mod (prime - 3) + 2;
               publicInteger = expMod 2 private prime
           in rbind (fillBytes primeLength publicInteger) (\<lambda>public.
                Inr (\<lparr>dh_group = dhGroup, dh_prime = Some prime, dh_private = Some private, dh_public = public\<rparr>,
                     drop primeLength random)))"

definition dhShared :: "dh_exchange option \<Rightarrow> byte list \<Rightarrow> (ike_error, byte list) res" where
  "dhShared exchange peerPublic =
    (case exchange of
       None \<Rightarrow> err NotInitialized
     | Some ex \<Rightarrow>
         (case (dh_prime ex, dh_private ex) of
            (Some prime, Some private) \<Rightarrow>
              if length peerPublic \<noteq> length (dh_public ex) then err PeerLength
              else
                let peer = setBytes peerPublic in
                if peer < 2 \<or> int peer > int prime - 2 then err PeerRange
                else
                  let secret = expMod peer private prime in
                  if secret = 0 \<or> secret = 1 then err TrivialSecret
                  else fillBytes (length (dh_public ex)) secret
          | _ \<Rightarrow> err NotInitialized))"

definition natDetectionHash ::
  "(byte list \<Rightarrow> byte list) \<Rightarrow> byte list \<Rightarrow> byte list \<Rightarrow> byte list \<Rightarrow> 16 word \<Rightarrow> (ike_error, byte list) res" where
  "natDetectionHash sha1 initiatorSPI responderSPI ip port =
    rbind (case To4 ip of
             Some ip4 \<Rightarrow> Inr ip4
           | None \<Rightarrow> (case To16 ip of Some ip16 \<Rightarrow> Inr ip16 | None \<Rightarrow> err NotAnAddress)) (\<lambda>ip.
      Inr (sha1 (initiatorSPI @ responderSPI @ ip @ put16 port)))"

subsection \<open>Arithmetic of the exchange\<close>

lemma expMod_power: "expMod b e m = b ^ e mod m"
proof (induction b e m rule: expMod.induct)
  case (1 b e m)
  show ?case
  proof (cases "e = 0")
    case True
    then show ?thesis by (subst expMod.simps) simp
  next
    case False
    have half: "(b * b mod m) ^ (e div 2) mod m = b ^ (2 * (e div 2)) mod m"
      by (simp add: power_mod power_mult power2_eq_square)
    show ?thesis
    proof (cases "even e")
      case True
      then show ?thesis using 1 False half by (subst expMod.simps) simp
    next
      case odd: False
      then have "b ^ e = b * b ^ (2 * (e div 2))" by (metis odd_two_times_div_two_succ power_Suc add.commute plus_1_eq_Suc)
      then show ?thesis using 1 False odd half by (subst expMod.simps) (simp add: mod_mult_right_eq)
    qed
  qed
qed

lemma length_bigEndian [simp]: "length (bigEndian n v) = n"
  by (induction n arbitrary: v) auto

lemma setBytes_bigEndian: "v < 256 ^ n \<Longrightarrow> setBytes (bigEndian n v) = v"
proof (induction n arbitrary: v)
  case 0
  then show ?case by (simp add: setBytes_def)
next
  case (Suc n)
  then have "v div 256 < 256 ^ n" by (simp add: less_mult_imp_div_less mult.commute)
  then have "setBytes (bigEndian n (v div 256)) = v div 256" by (rule Suc.IH)
  moreover have "unat (word_of_nat (v mod 256) :: byte) = v mod 256" by (intro unat_of_nat8) simp
  ultimately show ?case by (simp add: setBytes_def)
qed

lemma fillBytes_Inr: "fillBytes n v = Inr bs \<Longrightarrow> length bs = n \<and> setBytes bs = v"
  by (auto simp: fillBytes_def setBytes_bigEndian split: if_splits)

text \<open>What the code relies on about its primes: more than 3, and short enough for the byte strings.\<close>

lemma modpPrimes_range: "modpPrimes g = Some (n, p) \<Longrightarrow> 3 < p \<and> p < 256 ^ n \<and> 2 \<le> n"
  by (auto simp: modpPrimes_def split: if_splits)

subsection \<open>Agreement\<close>

lemma newDHExchange_Inr:
  assumes "newDHExchange g random = Inr (ex, random')"
  shows "\<exists>n p a. modpPrimes g = Some (n, p) \<and> dh_prime ex = Some p \<and> dh_private ex = Some a \<and> 2 \<le> a \<and> a \<le> p - 2 \<and>
    length (dh_public ex) = n \<and> setBytes (dh_public ex) = 2 ^ a mod p \<and> dh_group ex = g"
proof -
  obtain n p where np: "modpPrimes g = Some (n, p)" using assms by (auto simp: newDHExchange_def split: option.splits)
  let ?a = "setBytes (take n random) mod (p - 3) + 2"
  obtain public where f: "fillBytes n (expMod 2 ?a p) = Inr public" "dh_prime ex = Some p" "dh_private ex = Some ?a"
      "dh_public ex = public" "dh_group ex = g"
    using assms np by (auto simp: newDHExchange_def Let_def rbind_Inr_iff split: if_splits)
  have "setBytes (take n random) mod (p - 3) < p - 3" using modpPrimes_range[OF np] by simp
  then show ?thesis using np f fillBytes_Inr[OF f(1)] by (auto simp: expMod_power)
qed

lemma dhShared_eq:
  assumes "dh_prime ex = Some p" and "dh_private ex = Some a" and "length peer = length (dh_public ex)"
  shows "dhShared (Some ex) peer =
    (if setBytes peer < 2 \<or> int (setBytes peer) > int p - 2 then err PeerRange
     else if setBytes peer ^ a mod p \<le> 1 then err TrivialSecret
     else fillBytes (length (dh_public ex)) (setBytes peer ^ a mod p))"
  using assms by (auto simp: dhShared_def Let_def expMod_power)

text \<open>C15: The exchange is sound. Two parties of one group whose public values lie in the safe range compute the
  same answer from each other's values, \<open>2^(ab)\<close> modulo the prime, and whatever a peer sends, an accepted
  secret has the length of the group, comes from a value between 2 and the prime less 2, and is itself
  neither 0 nor 1; the code never panics.\<close>
theorem dh_agreement:
  assumes a: "newDHExchange g r1 = Inr (ex1, r1')" and b: "newDHExchange g r2 = Inr (ex2, r2')" and p: "modpPrimes g = Some (n, p)"
    and safe: "\<forall>ex \<in> {ex1, ex2}. 2 \<le> setBytes (dh_public ex) \<and> setBytes (dh_public ex) \<le> p - 2"
  shows "dhShared (Some ex1) (dh_public ex2) = dhShared (Some ex2) (dh_public ex1) \<and>
    (\<forall>peer. case dhShared (Some ex1) peer of
        Inl f \<Rightarrow> f \<noteq> Panic
      | Inr k \<Rightarrow> length k = n \<and> 2 \<le> setBytes peer \<and> setBytes peer \<le> p - 2 \<and> 2 \<le> setBytes k \<and> setBytes k < p)"
proof (intro conjI allI)
  have pr: "3 < p" "p < 256 ^ n" using modpPrimes_range[OF p] by auto
  obtain x where x: "dh_prime ex1 = Some p" "dh_private ex1 = Some x" "length (dh_public ex1) = n" "setBytes (dh_public ex1) = 2 ^ x mod p"
    using newDHExchange_Inr[OF a] p by auto
  obtain y where y: "dh_prime ex2 = Some p" "dh_private ex2 = Some y" "length (dh_public ex2) = n" "setBytes (dh_public ex2) = 2 ^ y mod p"
    using newDHExchange_Inr[OF b] p by auto
  have "(2 ^ y mod p) ^ x mod p = (2 ^ x mod p) ^ y mod p"
    by (simp add: power_mod flip: power_mult) (simp add: mult.commute)
  moreover have "\<not> (setBytes (dh_public ex1) < 2 \<or> int (setBytes (dh_public ex1)) > int p - 2)"
    "\<not> (setBytes (dh_public ex2) < 2 \<or> int (setBytes (dh_public ex2)) > int p - 2)" using safe pr by auto
  moreover have "length (dh_public ex2) = length (dh_public ex1)" using x(3) y(3) by simp
  ultimately show "dhShared (Some ex1) (dh_public ex2) = dhShared (Some ex2) (dh_public ex1)"
    using dhShared_eq[OF x(1,2), of "dh_public ex2"] dhShared_eq[OF y(1,2), of "dh_public ex1"] x(4) y(4) by simp
  fix peer
  show "case dhShared (Some ex1) peer of Inl f \<Rightarrow> f \<noteq> Panic
      | Inr k \<Rightarrow> length k = n \<and> 2 \<le> setBytes peer \<and> setBytes peer \<le> p - 2 \<and> 2 \<le> setBytes k \<and> setBytes k < p"
  proof (cases "length peer = length (dh_public ex1)")
    case False
    then show ?thesis using x(1,2) by (simp add: dhShared_def)
  next
    case True
    note eq = dhShared_eq[OF x(1,2) True]
    show ?thesis
    proof (cases "setBytes peer < 2 \<or> int (setBytes peer) > int p - 2 \<or> setBytes peer ^ x mod p \<le> 1")
      case True
      then show ?thesis by (auto simp: eq)
    next
      case False
      have lt: "setBytes peer ^ x mod p < p" using pr by simp
      have "setBytes peer ^ x mod p < 256 ^ n" using lt pr by linarith
      then have "dhShared (Some ex1) peer = Inr (bigEndian n (setBytes peer ^ x mod p))" using False eq x(3) by (simp add: fillBytes_def)
      moreover have "setBytes (bigEndian n (setBytes peer ^ x mod p)) = setBytes peer ^ x mod p"
        by (rule setBytes_bigEndian) (use lt pr in linarith)
      ultimately show ?thesis using False lt by auto
    qed
  qed
qed

text \<open>With the random bytes 0 and 1 the private values are 2 and 3 and the secret is \<open>2^6\<close>.\<close>

theorem dh_agreement_witness:
  "\<exists>ex1 ex2. newDHExchange 2 (replicate 128 0) = Inr (ex1, []) \<and> newDHExchange 2 (replicate 127 0 @ [1]) = Inr (ex2, []) \<and>
    dhShared (Some ex1) (dh_public ex2) = dhShared (Some ex2) (dh_public ex1) \<and>
    dhShared (Some ex1) (dh_public ex2) = Inr (bigEndian 128 64)"
proof -
  obtain p where p: "modpPrimes 2 = Some (128, p)" and big: "100 < p" by (simp add: modpPrimes_def)
  have pr: "p < 256 ^ 128" using modpPrimes_range[OF p] by simp
  have zeros: "setBytes (replicate k 0) = 0" for k by (induction k) (simp_all add: setBytes_def)
  then have s: "setBytes (replicate 128 0) = 0" "setBytes (replicate 127 0 @ [1]) = 1" by (simp_all add: setBytes_def)
  have len: "length (replicate 128 (0 :: byte)) = 128" "length (replicate 127 (0 :: byte) @ [1]) = 128" by simp_all
  define ex1 where "ex1 = \<lparr>dh_group = 2, dh_prime = Some p, dh_private = Some 2, dh_public = bigEndian 128 4\<rparr>"
  define ex2 where "ex2 = \<lparr>dh_group = 2, dh_prime = Some p, dh_private = Some 3, dh_public = bigEndian 128 8\<rparr>"
  have small: "v < 256 ^ 128" if "v < 100" for v :: nat using that big pr by linarith
  have m: "expMod 2 (0 mod (p - 3) + 2) p = 4" "expMod 2 (1 mod (p - 3) + 2) p = 8" using big by (simp_all add: expMod_power numeral_3_eq_3)
  have priv: "0 mod (p - 3) + 2 = 2" "1 mod (p - 3) + 2 = 3" using big by simp_all
  have n1: "newDHExchange 2 (replicate 128 0) = Inr (ex1, [])"
    unfolding newDHExchange_def p option.case case_prod_conv Let_def take_all[OF eq_refl[OF len(1)]] s
    unfolding m unfolding priv using small[of 4] by (simp add: fillBytes_def ex1_def)
  have n2: "newDHExchange 2 (replicate 127 0 @ [1]) = Inr (ex2, [])"
    unfolding newDHExchange_def p option.case case_prod_conv Let_def take_all[OF eq_refl[OF len(2)]] s
    unfolding m unfolding priv using small[of 8] by (simp add: fillBytes_def ex2_def)
  have pub: "setBytes (dh_public ex1) = 4" "setBytes (dh_public ex2) = 8"
    using small[of 4] small[of 8] by (simp_all add: ex1_def ex2_def setBytes_bigEndian)
  then have "\<forall>ex \<in> {ex1, ex2}. 2 \<le> setBytes (dh_public ex) \<and> setBytes (dh_public ex) \<le> p - 2" using big by auto
  note sound = dh_agreement[OF n1 n2 p this]
  have "dhShared (Some ex1) (dh_public ex2) = Inr (bigEndian 128 64)"
    using dhShared_eq[of ex1 p 2 "dh_public ex2"] pub big small[of 64] by (simp add: ex1_def ex2_def fillBytes_def)
  then show ?thesis using n1 n2 sound by blast
qed

end
