(* ===== verification/Aka.thy ===== *)
theory Aka
  imports Prelude
begin

text \<open>
  What a SIM answers to an authentication challenge (\<open>vowifi/types.go\<close>): the answer is shared by the
  EAP-AKA client of the IKE tunnel and the digest of the IMS registration.
\<close>

record akaResult =
  RES :: "byte list"
  CK :: "byte list"
  IK :: "byte list"
  resultAUTS :: "byte list"
  SynchronizationFailure :: bool

end
