(* ===== verification/Eap.thy ===== *)
theory Eap
  imports IkeKeys IkeDh GoStrings Aka
begin

text \<open>
  EAP-AKA inside the IKE tunnel (\<open>ike/eap.go\<close>): the packet and attribute formats, the FIPS 186-2
  generator with its SHA-1 compression function, the derived keys and the client that answers the
  responder. SHA-1 itself (\<open>sha1\<close>) and HMAC are the standard library's; the SIM is a function from RAND
  and AUTN to its answer. A method that returns an error after changing the client returns the changed
  client beside the error.
\<close>

datatype eap_stage = InitialIdentity | AfterIdentity | AfterAKAIdentity | AfterChallenge

datatype eap_error =
    EAPTruncated | EAPLength | EAPTypedTruncated | EAPTrailing | EAPCode | EAPNoType | EAPTypeData | EAPTooLong
  | AttributeList | AttributeLength | AttributeCount | AttributeTooLong | IdentityEmpty | KeyLengths
  | IMSILength | IMSIDigits | HomeNetwork | ProviderRequired | AuthenticationRejected eap_stage | EarlySuccess
  | UnprotectedSuccess | UnexpectedEAPCode | UnsupportedEAPType | IdentityRequest | MandatoryAttribute
  | ChallengeLengths | AKAProvider | AUTSLength | RESLength | MACOffset | ServerMAC | ResultIndication
  | NotificationLength | UnexpectedNotification | NotificationMAC

abbreviation eapRequest :: byte where "eapRequest \<equiv> 1"
abbreviation eapResponse :: byte where "eapResponse \<equiv> 2"
abbreviation eapSuccess :: byte where "eapSuccess \<equiv> 3"
abbreviation eapFailure :: byte where "eapFailure \<equiv> 4"
abbreviation eapTypeIdentity :: byte where "eapTypeIdentity \<equiv> 1"
abbreviation eapTypeAKA :: byte where "eapTypeAKA \<equiv> 23"
abbreviation akaSubtypeChallenge :: byte where "akaSubtypeChallenge \<equiv> 1"
abbreviation akaSubtypeAuthReject :: byte where "akaSubtypeAuthReject \<equiv> 2"
abbreviation akaSubtypeSyncFailure :: byte where "akaSubtypeSyncFailure \<equiv> 4"
abbreviation akaSubtypeIdentity :: byte where "akaSubtypeIdentity \<equiv> 5"
abbreviation akaSubtypeNotification :: byte where "akaSubtypeNotification \<equiv> 12"
abbreviation akaSubtypeClientError :: byte where "akaSubtypeClientError \<equiv> 14"
abbreviation akaAttrRAND :: byte where "akaAttrRAND \<equiv> 1"
abbreviation akaAttrAUTN :: byte where "akaAttrAUTN \<equiv> 2"
abbreviation akaAttrRES :: byte where "akaAttrRES \<equiv> 3"
abbreviation akaAttrAUTS :: byte where "akaAttrAUTS \<equiv> 4"
abbreviation akaAttrPermanentIDReq :: byte where "akaAttrPermanentIDReq \<equiv> 10"
abbreviation akaAttrMAC :: byte where "akaAttrMAC \<equiv> 11"
abbreviation akaAttrNotification :: byte where "akaAttrNotification \<equiv> 12"
abbreviation akaAttrAnyIDReq :: byte where "akaAttrAnyIDReq \<equiv> 13"
abbreviation akaAttrIdentity :: byte where "akaAttrIdentity \<equiv> 14"
abbreviation akaAttrFullAuthIDReq :: byte where "akaAttrFullAuthIDReq \<equiv> 17"
abbreviation akaAttrClientError :: byte where "akaAttrClientError \<equiv> 22"
abbreviation akaAttrResultInd :: byte where "akaAttrResultInd \<equiv> 135"

subsection \<open>Packets\<close>

record eapPacket =
  eap_code :: byte
  eap_identifier :: byte
  eap_type :: byte
  eap_data :: "byte list"

definition parseEAPPacket :: "byte list \<Rightarrow> (eap_error, eapPacket) res" where
  "parseEAPPacket encoded =
    (if length encoded < 4 then err EAPTruncated
     else rbind (get16 encoded 2) (\<lambda>len.
       if unat len \<noteq> length encoded then err EAPLength
       else rbind (idx encoded 0) (\<lambda>code. rbind (idx encoded 1) (\<lambda>identifier.
         if code = eapRequest \<or> code = eapResponse then
           (if length encoded < 5 then err EAPTypedTruncated
            else rbind (idx encoded 4) (\<lambda>t. rbind (slice encoded 5 (length encoded)) (\<lambda>d.
              Inr \<lparr>eap_code = code, eap_identifier = identifier, eap_type = t, eap_data = d\<rparr>)))
         else if code = eapSuccess \<or> code = eapFailure then
           (if length encoded \<noteq> 4 then err EAPTrailing
            else Inr \<lparr>eap_code = code, eap_identifier = identifier, eap_type = 0, eap_data = []\<rparr>)
         else err EAPCode))))"

definition marshalEAPPacket :: "eapPacket \<Rightarrow> (eap_error, byte list) res" where
  "marshalEAPPacket p =
    (let typed = (eap_code p = eapRequest \<or> eap_code p = eapResponse);
         len = (if typed then 4 + (1 + length (eap_data p)) else 4) in
     if typed \<and> eap_type p = 0 then err EAPNoType
     else if \<not> typed \<and> (eap_data p \<noteq> [] \<or> eap_type p \<noteq> 0) then err EAPTypeData
     else if len > 65535 then err EAPTooLong
     else Inr ([eap_code p, eap_identifier p] @ put16 (word_of_nat len)
               @ (if len > 4 then eap_type p # eap_data p else [])))"

subsection \<open>Attributes\<close>

record akaAttribute =
  at_type :: byte
  at_raw :: "byte list"
  at_offset :: nat

function parseAttributesLoop :: "byte list \<Rightarrow> nat \<Rightarrow> akaAttribute list \<Rightarrow> (eap_error, akaAttribute list) res" where
  "parseAttributesLoop encoded offset result =
    (if offset \<ge> length encoded then Inr result
     else if length result \<ge> 64 \<or> offset + 2 > length encoded then err AttributeList
     else rbind (idx encoded (offset + 1)) (\<lambda>l.
       let len = unat l * 4 in
       if len < 4 \<or> offset + len > length encoded then err AttributeLength
       else rbind (idx encoded offset) (\<lambda>t. rbind (slice encoded offset (offset + len)) (\<lambda>raw.
         parseAttributesLoop encoded (offset + len)
           (result @ [\<lparr>at_type = t, at_raw = raw, at_offset = offset\<rparr>])))))"
  by pat_completeness auto
termination by (relation "measure (\<lambda>(encoded, offset, result). length encoded - offset)") auto

declare parseAttributesLoop.simps [simp del]

definition parseAKAAttributes :: "byte list \<Rightarrow> (eap_error, akaAttribute list) res" where
  "parseAKAAttributes encoded = parseAttributesLoop encoded 0 []"

definition oneAKAAttribute :: "akaAttribute list \<Rightarrow> byte \<Rightarrow> (eap_error, akaAttribute) res" where
  "oneAKAAttribute attributes kind =
    (case filter (\<lambda>a. at_type a = kind) attributes of [a] \<Rightarrow> Inr a | _ \<Rightarrow> err AttributeCount)"

definition marshalAKAAttribute :: "byte \<Rightarrow> byte list \<Rightarrow> (eap_error, byte list) res" where
  "marshalAKAAttribute kind v =
    (let len = 2 + length v; padded = (len + 3) div 4 * 4 in
     if padded div 4 > 255 then err AttributeTooLong
     else Inr ([kind, word_of_nat (padded div 4)] @ v @ replicate (padded - len) 0))"

subsection \<open>Keys\<close>

text \<open>The message schedule of SHA-1 and one of its eighty rounds.\<close>

fun extendWords :: "nat \<Rightarrow> 32 word list \<Rightarrow> 32 word list" where
  "extendWords 0 ws = ws"
| "extendWords (Suc n) ws =
    (let i = length ws; v = ws ! (i - 3) XOR ws ! (i - 8) XOR ws ! (i - 14) XOR ws ! (i - 16) in
     extendWords n (ws @ [push_bit 1 v OR drop_bit 31 v]))"

type_synonym sha_state = "32 word \<times> 32 word \<times> 32 word \<times> 32 word \<times> 32 word"

definition shaRound :: "nat \<Rightarrow> 32 word \<Rightarrow> sha_state \<Rightarrow> sha_state" where
  "shaRound i w s = (case s of (a, b, c, d, e) \<Rightarrow>
    let (f, k) =
      (if i < 20 then ((b AND c) OR (NOT b AND d), 0x5A827999)
       else if i < 40 then (b XOR c XOR d, 0x6ED9EBA1)
       else if i < 60 then ((b AND c) OR (b AND d) OR (c AND d), 0x8F1BBCDC)
       else (b XOR c XOR d, 0xCA62C1D6));
      rotatedA = push_bit 5 a OR drop_bit 27 a;
      next = rotatedA + f + e + k + w in
    (next, a, push_bit 30 b OR drop_bit 2 b, c, d))"

definition shaInitial :: sha_state where
  "shaInitial = (0x67452301, 0xEFCDAB89, 0x98BADCFE, 0x10325476, 0xC3D2E1F0)"

definition fipsSHA1G :: "byte list \<Rightarrow> byte list" where
  "fipsSHA1G xval =
    (let block = take 20 xval @ replicate (64 - length (take 20 xval)) 0;
         words = extendWords 64
           (map (\<lambda>i. un32 (block ! (4 * i)) (block ! (4 * i + 1)) (block ! (4 * i + 2)) (block ! (4 * i + 3))) [0..<16]) in
     case fold (\<lambda>i. shaRound i (words ! i)) [0..<80] shaInitial of (a, b, c, d, e) \<Rightarrow>
       case shaInitial of (a0, b0, c0, d0, e0) \<Rightarrow>
         put32 (a0 + a) @ put32 (b0 + b) @ put32 (c0 + c) @ put32 (d0 + d) @ put32 (e0 + e))"

text \<open>The loop of \<open>fips1862PRF\<close>; a key of more than 20 octets would make \<open>FillBytes\<close> panic.\<close>

lemma length_fipsSHA1G [simp]: "length (fipsSHA1G x) = 20"
  by (simp add: fipsSHA1G_def Let_def split: prod.split)

function prfWords :: "nat \<Rightarrow> nat \<Rightarrow> byte list \<Rightarrow> (eap_error, byte list) res" where
  "prfWords n xkey result =
    (if length result \<ge> n then slice result 0 n
     else if xkey \<ge> 256 ^ 20 then Inl Panic
     else let w = fipsSHA1G (bigEndian 20 xkey) in
       prfWords n ((xkey + setBytes w + 1) mod 2 ^ 160) (result @ w))"
  by pat_completeness auto
termination by (relation "measure (\<lambda>(n, xkey, result). n - length result)") auto

declare prfWords.simps [simp del]

definition fips1862PRF :: "byte list \<Rightarrow> nat \<Rightarrow> (eap_error, byte list) res" where
  "fips1862PRF seed n = prfWords n (setBytes seed) []"

record akaKeys =
  KEncr :: "byte list"
  KAut :: "byte list"
  MSK :: "byte list"
  EMSK :: "byte list"

definition deriveAKAKeys ::
    "(byte list \<Rightarrow> byte list) \<Rightarrow> byte list \<Rightarrow> byte list \<Rightarrow> byte list \<Rightarrow> (eap_error, akaKeys) res" where
  "deriveAKAKeys sha1 identity ik ck =
    (if identity = [] then err IdentityEmpty
     else if length ik \<noteq> 16 \<or> length ck \<noteq> 16 then err KeyLengths
     else rbind (fips1862PRF (sha1 (identity @ ik @ ck)) 160) (\<lambda>stream.
       rbind (slice stream 0 16) (\<lambda>kencr. rbind (slice stream 16 32) (\<lambda>kaut.
       rbind (slice stream 32 96) (\<lambda>msk. rbind (slice stream 96 160) (\<lambda>emsk.
         Inr \<lparr>KEncr = kencr, KAut = kaut, MSK = msk, EMSK = emsk\<rparr>))))))"

definition akaMAC :: "crypto \<Rightarrow> byte list \<Rightarrow> byte list \<Rightarrow> (eap_error, byte list) res" where
  "akaMAC cr key packet = slice (hmac_sha1 cr key packet) 0 16"

subsection \<open>The permanent identity\<close>

text \<open>The fields of the identity and of the carrier profile that the client reads.\<close>

record simIdentity =
  IMSI :: gostring
  HomeMCC :: gostring
  HomeMNC :: gostring

record carrierProfile =
  RouteMCC :: gostring
  RouteMNC :: gostring
  FromPrefix :: gostring
  ToPrefix :: gostring

definition EffectiveSubscriberIMSI :: "carrierProfile \<Rightarrow> gostring \<Rightarrow> gostring" where
  "EffectiveSubscriberIMSI profile imsi0 =
    (let imsi = TrimSpace imsi0; fromPrefix = TrimSpace (FromPrefix profile); toPrefix = TrimSpace (ToPrefix profile) in
     if fromPrefix \<noteq> [] \<and> toPrefix \<noteq> [] \<and> HasPrefix imsi fromPrefix
     then toPrefix @ drop (length fromPrefix) imsi else imsi)"

definition permanentAKAIdentity :: "simIdentity \<Rightarrow> carrierProfile \<Rightarrow> (eap_error, byte list) res" where
  "permanentAKAIdentity identity profile =
    (let imsi = EffectiveSubscriberIMSI profile (TrimSpace (IMSI identity)) in
     if length (bytesOf imsi) < 5 \<or> length (bytesOf imsi) > 16 then err IMSILength
     else if \<not> list_all decimal imsi then err IMSIDigits
     else
       let (mcc, mnc) =
         (if TrimSpace (RouteMCC profile) = [] \<or> TrimSpace (RouteMNC profile) = []
          then (TrimSpace (HomeMCC identity), TrimSpace (HomeMNC identity))
          else (TrimSpace (RouteMCC profile), TrimSpace (RouteMNC profile))) in
       if length (bytesOf mcc) \<noteq> 3 \<or> length (bytesOf mnc) \<noteq> 2 \<and> length (bytesOf mnc) \<noteq> 3 then err HomeNetwork
       else
         let mnc3 = (if length (bytesOf mnc) < 3 then 48 # mnc else mnc) in
         Inr (bytesOf (runes ''0'' @ imsi @ runes ''@nai.epc.mnc'' @ mnc3 @ runes ''.mcc'' @ mcc @ runes ''.3gppnetwork.org'')))"

subsection \<open>The client\<close>

record eapAction =
  EAPResponse :: "byte list"
  EAPSuccess :: bool

record akaClient =
  cl_identity :: "byte list"
  cl_keys :: akaKeys
  lastResponseStage :: eap_stage
  challengeComplete :: bool
  resultIndication :: bool
  protectedSuccess :: bool

datatype sim_answer = SIMResult akaResult | SIMMacFailure | SIMFailed

record eap_env =
  eapCrypto :: crypto
  eapSHA1 :: "byte list \<Rightarrow> byte list"
  SIM :: "byte list \<Rightarrow> byte list \<Rightarrow> sim_answer"

definition newAKAClient :: "bool \<Rightarrow> simIdentity \<Rightarrow> carrierProfile \<Rightarrow> (eap_error, akaClient) res" where
  "newAKAClient hasProvider identity profile =
    (if \<not> hasProvider then err ProviderRequired
     else rbind (permanentAKAIdentity identity profile) (\<lambda>nai.
       Inr \<lparr>cl_identity = nai, cl_keys = \<lparr>KEncr = [], KAut = [], MSK = [], EMSK = []\<rparr>,
            lastResponseStage = InitialIdentity, challengeComplete = False, resultIndication = False,
            protectedSuccess = False\<rparr>))"

text \<open>\<open>x, _ := f()\<close> where the failing call returns nil.\<close>

definition orNil :: "(eap_error, 'a list) res \<Rightarrow> 'a list" where
  "orNil r = (case r of Inr x \<Rightarrow> x | Inl _ \<Rightarrow> [])"

definition akaResponse :: "byte \<Rightarrow> byte list \<Rightarrow> (eap_error, eapAction) res" where
  "akaResponse identifier data =
    rbind (marshalEAPPacket \<lparr>eap_code = eapResponse, eap_identifier = identifier, eap_type = eapTypeAKA, eap_data = data\<rparr>)
      (\<lambda>bytes. Inr \<lparr>EAPResponse = bytes, EAPSuccess = False\<rparr>)"

definition akaClientErrorResponse :: "byte \<Rightarrow> (eap_error, eapAction) res" where
  "akaClientErrorResponse identifier =
    rbind (marshalAKAAttribute akaAttrClientError [0, 0]) (\<lambda>a.
      akaResponse identifier ([akaSubtypeClientError, 0, 0] @ a))"

definition akaAuthenticationRejectResponse :: "byte \<Rightarrow> (eap_error, eapAction) res" where
  "akaAuthenticationRejectResponse identifier = akaResponse identifier [akaSubtypeAuthReject, 0, 0]"

text \<open>The MAC field of a packet cleared, and filled in.\<close>

definition zeroMAC :: "byte list \<Rightarrow> nat \<Rightarrow> (eap_error, byte list) res" where
  "zeroMAC bytes off =
    (if off + 20 > length bytes then Inl Panic
     else Inr (take (off + 4) bytes @ replicate 16 0 @ drop (off + 20) bytes))"

definition writeMAC :: "byte list \<Rightarrow> nat \<Rightarrow> byte list \<Rightarrow> (eap_error, byte list) res" where
  "writeMAC bytes off mac =
    (if off + 20 > length bytes then Inl Panic
     else Inr (take (off + 4) bytes @ take 16 mac @ drop (off + 4 + min 16 (length mac)) bytes))"

text \<open>The offset of AT_MAC in a response whose data is \<open>data\<close>.\<close>

definition responseMAC :: "byte list \<Rightarrow> (eap_error, nat) res" where
  "responseMAC data =
    rbind (oneAKAAttribute (orNil (parseAKAAttributes (drop 3 data))) akaAttrMAC) (\<lambda>m. Inr (5 + 3 + at_offset m))"

definition signedResponse ::
    "eap_env \<Rightarrow> akaKeys \<Rightarrow> byte \<Rightarrow> byte list \<Rightarrow> (eap_error, nat) res \<Rightarrow> (eap_error, eapAction) res" where
  "signedResponse env ks identifier data macOffset =
    rbind (marshalEAPPacket \<lparr>eap_code = eapResponse, eap_identifier = identifier, eap_type = eapTypeAKA, eap_data = data\<rparr>)
      (\<lambda>bytes. rbind macOffset (\<lambda>off. rbind (akaMAC (eapCrypto env) (KAut ks) bytes) (\<lambda>mac.
        rbind (writeMAC bytes off mac) (\<lambda>signed. Inr \<lparr>EAPResponse = signed, EAPSuccess = False\<rparr>))))"

text \<open>Whether the request, with its MAC cleared, has that MAC under the key.\<close>

definition requestMAC :: "eap_env \<Rightarrow> akaKeys \<Rightarrow> byte list \<Rightarrow> akaAttribute \<Rightarrow> (eap_error, bool) res" where
  "requestMAC env ks bytes m =
    rbind (zeroMAC bytes (5 + 3 + at_offset m)) (\<lambda>zeroed.
    rbind (akaMAC (eapCrypto env) (KAut ks) zeroed) (\<lambda>expected.
    rbind (slice (at_raw m) 4 20) (\<lambda>mac. Inr (expected = mac))))"

subsubsection \<open>AKA-Identity\<close>

fun identityRequests :: "akaAttribute list \<Rightarrow> (eap_error, nat) res" where
  "identityRequests [] = Inr 0"
| "identityRequests (a # as) =
    (if at_type a = akaAttrPermanentIDReq \<or> at_type a = akaAttrAnyIDReq \<or> at_type a = akaAttrFullAuthIDReq then
       (if length (at_raw a) \<noteq> 4 then err IdentityRequest else rbind (identityRequests as) (\<lambda>n. Inr (n + 1)))
     else if at_type a < 128 then err MandatoryAttribute else identityRequests as)"

definition respondAKAIdentity :: "akaClient \<Rightarrow> byte \<Rightarrow> akaAttribute list \<Rightarrow> (eap_error, eapAction) res \<times> akaClient" where
  "respondAKAIdentity c identifier attributes =
    (case rbind (identityRequests attributes) (\<lambda>requests. if requests \<noteq> 1 then err IdentityRequest
            else marshalAKAAttribute akaAttrIdentity
              (put16 (word_of_nat (length (cl_identity c))) @ cl_identity c)) of
       Inl f \<Rightarrow> (Inl f, c)
     | Inr a \<Rightarrow> (akaResponse identifier ([akaSubtypeIdentity, 0, 0] @ a), c\<lparr>lastResponseStage := AfterAKAIdentity\<rparr>))"

subsubsection \<open>AKA-Challenge\<close>

definition challengeAttribute :: "akaAttribute \<Rightarrow> bool" where
  "challengeAttribute a \<longleftrightarrow> at_type a = akaAttrRAND \<or> at_type a = akaAttrAUTN \<or> at_type a = akaAttrMAC
     \<or> at_type a = akaAttrResultInd \<or> at_type a \<ge> 128"

fun resultIndications :: "akaAttribute list \<Rightarrow> (eap_error, byte list \<times> bool) res" where
  "resultIndications [] = Inr ([], False)"
| "resultIndications (a # as) =
    (if at_type a = akaAttrResultInd then
       (if length (at_raw a) \<noteq> 4 then err ResultIndication
        else rbind (resultIndications as) (\<lambda>(raw, _). Inr (at_raw a @ raw, True)))
     else resultIndications as)"

definition challengeResponse ::
    "eap_env \<Rightarrow> akaKeys \<Rightarrow> byte \<Rightarrow> akaAttribute list \<Rightarrow> byte list \<Rightarrow> (eap_error, eapAction \<times> bool) res" where
  "challengeResponse env ks identifier attributes res =
    rbind (marshalAKAAttribute akaAttrRES (put16 (word_of_nat (length res * 8)) @ res)) (\<lambda>resAttribute.
    rbind (resultIndications attributes) (\<lambda>(raw, indicated).
      let data = [akaSubtypeChallenge, 0, 0] @ resAttribute @ raw @ orNil (marshalAKAAttribute akaAttrMAC (replicate 18 0)) in
      rbind (signedResponse env ks identifier data (responseMAC data)) (\<lambda>a. Inr (a, indicated))))"

definition acceptChallenge ::
    "eap_env \<Rightarrow> akaClient \<Rightarrow> byte \<Rightarrow> akaAttribute list \<Rightarrow> eapPacket \<Rightarrow> akaAttribute \<Rightarrow> akaResult \<Rightarrow>
     (eap_error, eapAction \<times> akaClient) res" where
  "acceptChallenge env c identifier attributes request m result =
    (if SynchronizationFailure result then
       (if length (resultAUTS result) \<noteq> 14 then err AUTSLength
        else rbind (marshalAKAAttribute akaAttrAUTS (resultAUTS result)) (\<lambda>a.
          rbind (akaResponse identifier ([akaSubtypeSyncFailure, 0, 0] @ a)) (\<lambda>action. Inr (action, c))))
     else if length (RES result) < 4 \<or> length (RES result) > 16 then err RESLength
     else rbind (deriveAKAKeys (eapSHA1 env) (cl_identity c) (IK result) (CK result)) (\<lambda>ks.
       rbind (marshalEAPPacket request) (\<lambda>bytes.
       if 5 + 3 + at_offset m + 20 > length bytes then err MACOffset
       else rbind (requestMAC env ks bytes m) (\<lambda>ok.
         if \<not> ok then err ServerMAC
         else rbind (challengeResponse env ks identifier attributes (RES result)) (\<lambda>(action, indicated).
           Inr (action, c\<lparr>cl_keys := ks, challengeComplete := True, resultIndication := indicated\<rparr>))))))"

definition respondAKAChallenge ::
    "eap_env \<Rightarrow> akaClient \<Rightarrow> byte \<Rightarrow> akaAttribute list \<Rightarrow> eapPacket \<Rightarrow> (eap_error, eapAction \<times> akaClient) res" where
  "respondAKAChallenge env c identifier attributes request =
    (if \<not> list_all challengeAttribute attributes then err MandatoryAttribute
     else rbind (oneAKAAttribute attributes akaAttrRAND) (\<lambda>r.
       rbind (oneAKAAttribute attributes akaAttrAUTN) (\<lambda>a.
       rbind (oneAKAAttribute attributes akaAttrMAC) (\<lambda>m.
       if length (at_raw r) \<noteq> 20 \<or> length (at_raw a) \<noteq> 20 \<or> length (at_raw m) \<noteq> 20 then err ChallengeLengths
       else rbind (slice (at_raw r) 4 20) (\<lambda>rand. rbind (slice (at_raw a) 4 20) (\<lambda>autn.
         case SIM env rand autn of
           SIMMacFailure \<Rightarrow> rbind (akaAuthenticationRejectResponse identifier) (\<lambda>action. Inr (action, c))
         | SIMFailed \<Rightarrow> err AKAProvider
         | SIMResult result \<Rightarrow> acceptChallenge env c identifier attributes request m result))))))"

subsubsection \<open>AKA-Notification\<close>

definition notificationData :: "byte list" where
  "notificationData = [akaSubtypeNotification, 0, 0] @ orNil (marshalAKAAttribute akaAttrMAC (replicate 18 0))"

text \<open>\<open>attribute, _ := oneAKAAttribute(...)\<close>: where it failed the offset is that of the zero value.\<close>

definition notificationResponse :: "eap_env \<Rightarrow> akaKeys \<Rightarrow> byte \<Rightarrow> (eap_error, eapAction) res" where
  "notificationResponse env ks identifier =
    signedResponse env ks identifier notificationData
      (case responseMAC notificationData of Inr off \<Rightarrow> Inr off | Inl _ \<Rightarrow> Inr (5 + 3))"

definition authenticatedNotification ::
    "eap_env \<Rightarrow> akaClient \<Rightarrow> byte \<Rightarrow> akaAttribute list \<Rightarrow> eapPacket \<Rightarrow> (eap_error, eapAction) res" where
  "authenticatedNotification env c identifier attributes request =
    (if \<not> challengeComplete c then akaClientErrorResponse identifier
     else case oneAKAAttribute attributes akaAttrMAC of
         Inl _ \<Rightarrow> akaClientErrorResponse identifier
       | Inr m \<Rightarrow>
           if length (at_raw m) \<noteq> 20 then akaClientErrorResponse identifier
           else rbind (marshalEAPPacket request) (\<lambda>bytes.
             rbind (requestMAC env (cl_keys c) bytes m) (\<lambda>ok.
               if \<not> ok then akaClientErrorResponse identifier
               else notificationResponse env (cl_keys c) identifier)))"

definition successNotification ::
    "eap_env \<Rightarrow> akaClient \<Rightarrow> byte \<Rightarrow> akaAttribute list \<Rightarrow> eapPacket \<Rightarrow> (eap_error, eapAction \<times> akaClient) res" where
  "successNotification env c identifier attributes request =
    (if \<not> challengeComplete c \<or> \<not> resultIndication c then err UnexpectedNotification
     else rbind (oneAKAAttribute attributes akaAttrMAC) (\<lambda>m.
       if length (at_raw m) \<noteq> 20 then err NotificationMAC
       else rbind (marshalEAPPacket request) (\<lambda>bytes.
         rbind (requestMAC env (cl_keys c) bytes m) (\<lambda>ok.
           if \<not> ok then err NotificationMAC
           else rbind (notificationResponse env (cl_keys c) identifier) (\<lambda>action.
             Inr (action, c\<lparr>protectedSuccess := True\<rparr>))))))"

definition respondAKANotification ::
    "eap_env \<Rightarrow> akaClient \<Rightarrow> byte \<Rightarrow> akaAttribute list \<Rightarrow> eapPacket \<Rightarrow> (eap_error, eapAction \<times> akaClient) res" where
  "respondAKANotification env c identifier attributes request =
    rbind (oneAKAAttribute attributes akaAttrNotification) (\<lambda>notification.
      if length (at_raw notification) \<noteq> 4 then err NotificationLength
      else rbind (get16 (at_raw notification) 2) (\<lambda>code.
        if code \<noteq> 32768 then
          rbind (if code AND 0x4000 = 0 then authenticatedNotification env c identifier attributes request
                 else akaResponse identifier [akaSubtypeNotification, 0, 0]) (\<lambda>action. Inr (action, c))
        else successNotification env c identifier attributes request))"

subsubsection \<open>Requests\<close>

text \<open>The method returns and the client as it left it.\<close>

fun withClient :: "akaClient \<Rightarrow> (eap_error, eapAction \<times> akaClient) res \<Rightarrow> (eap_error, eapAction) res \<times> akaClient" where
  "withClient c (Inl f) = (Inl f, c)"
| "withClient c (Inr (a, c')) = (Inr a, c')"

text \<open>An error other than one of the provider is answered with a client error.\<close>

definition orClientError ::
    "byte \<Rightarrow> eap_error list \<Rightarrow> (eap_error, eapAction) res \<times> akaClient \<Rightarrow> (eap_error, eapAction) res \<times> akaClient" where
  "orClientError identifier passed r =
    (case r of (Inl (Fail e), c) \<Rightarrow> if e \<in> set passed then (err e, c) else (akaClientErrorResponse identifier, c)
     | _ \<Rightarrow> r)"

definition handleAKARequest :: "eap_env \<Rightarrow> akaClient \<Rightarrow> eapPacket \<Rightarrow> (eap_error, eapAction) res \<times> akaClient" where
  "handleAKARequest env c packet =
    (let identifier = eap_identifier packet; data = eap_data packet in
     case data of
       subtype # r1 # r2 # rest \<Rightarrow>
         if r1 \<noteq> 0 \<or> r2 \<noteq> 0 then (akaClientErrorResponse identifier, c)
         else (case parseAKAAttributes rest of
             Inl Panic \<Rightarrow> (Inl Panic, c)
           | Inl (Fail _) \<Rightarrow> (akaClientErrorResponse identifier, c)
           | Inr attributes \<Rightarrow>
               if subtype = akaSubtypeIdentity then orClientError identifier [] (respondAKAIdentity c identifier attributes)
               else if subtype = akaSubtypeChallenge then
                 orClientError identifier [AKAProvider] (withClient c (respondAKAChallenge env c identifier attributes packet))
               else if subtype = akaSubtypeNotification then
                 withClient c (respondAKANotification env c identifier attributes packet)
               else (akaClientErrorResponse identifier, c))
     | _ \<Rightarrow> (akaClientErrorResponse identifier, c))"

definition handle :: "eap_env \<Rightarrow> akaClient \<Rightarrow> byte list \<Rightarrow> (eap_error, eapAction) res \<times> akaClient" where
  "handle env c encoded =
    (case parseEAPPacket encoded of
       Inl f \<Rightarrow> (Inl f, c)
     | Inr packet \<Rightarrow>
         if eap_code packet = eapFailure then
           (err (AuthenticationRejected (if challengeComplete c then AfterChallenge else lastResponseStage c)), c)
         else if eap_code packet = eapSuccess then
           (if \<not> challengeComplete c then err EarlySuccess
            else if resultIndication c \<and> \<not> protectedSuccess c then err UnprotectedSuccess
            else Inr \<lparr>EAPResponse = [], EAPSuccess = True\<rparr>, c)
         else if eap_code packet \<noteq> eapRequest then (err UnexpectedEAPCode, c)
         else if eap_type packet = eapTypeIdentity then
           (rbind (marshalEAPPacket \<lparr>eap_code = eapResponse, eap_identifier = eap_identifier packet,
                     eap_type = eapTypeIdentity, eap_data = cl_identity c\<rparr>)
              (\<lambda>bytes. Inr \<lparr>EAPResponse = bytes, EAPSuccess = False\<rparr>), c\<lparr>lastResponseStage := AfterIdentity\<rparr>)
         else if eap_type packet = eapTypeAKA then handleAKARequest env c packet
         else (err UnsupportedEAPType, c))"

end
