(* ===== verification/Fips.thy ===== *)
theory Fips
  imports Eap
begin

text \<open>
  The generator of FIPS 186-2 (change notice 1), written from the standards and not from the code: the
  functions, constants and message schedule of SHA-1 as FIPS 180 gives them, G(t, x) on 160-bit numbers,
  and the stream of blocks.  \<open>fipsSHA1G\<close> of eap.go is shown to compute G.
\<close>

subsection \<open>The standard\<close>

definition Ch :: "32 word \<Rightarrow> 32 word \<Rightarrow> 32 word \<Rightarrow> 32 word" where
  "Ch x y z = (x AND y) XOR (NOT x AND z)"

definition Parity :: "32 word \<Rightarrow> 32 word \<Rightarrow> 32 word \<Rightarrow> 32 word" where
  "Parity x y z = x XOR y XOR z"

definition Maj :: "32 word \<Rightarrow> 32 word \<Rightarrow> 32 word \<Rightarrow> 32 word" where
  "Maj x y z = (x AND y) XOR (x AND z) XOR (y AND z)"

definition fipsF :: "nat \<Rightarrow> 32 word \<Rightarrow> 32 word \<Rightarrow> 32 word \<Rightarrow> 32 word" where
  "fipsF t = (if t \<le> 19 then Ch else if t \<le> 39 then Parity else if t \<le> 59 then Maj else Parity)"

definition fipsK :: "nat \<Rightarrow> 32 word" where
  "fipsK t = (if t \<le> 19 then 0x5a827999 else if t \<le> 39 then 0x6ed9eba1 else if t \<le> 59 then 0x8f1bbcdc else 0xca62c1d6)"

text \<open>The message schedule of a block of sixteen words.\<close>

fun scheduleW :: "(nat \<Rightarrow> 32 word) \<Rightarrow> nat \<Rightarrow> 32 word" where
  "scheduleW M t =
    (if t < 16 then M t
     else word_rotl 1 (scheduleW M (t - 3) XOR scheduleW M (t - 8) XOR scheduleW M (t - 14) XOR scheduleW M (t - 16)))"

declare scheduleW.simps [simp del]

definition fipsIV :: sha_state where
  "fipsIV = (0x67452301, 0xefcdab89, 0x98badcfe, 0x10325476, 0xc3d2e1f0)"

text \<open>The five working variables after \<open>t\<close> steps.\<close>

fun fipsState :: "(nat \<Rightarrow> 32 word) \<Rightarrow> nat \<Rightarrow> sha_state" where
  "fipsState M 0 = fipsIV"
| "fipsState M (Suc t) =
    (case fipsState M t of (a, b, c, d, e) \<Rightarrow>
      (word_rotl 5 a + fipsF t b c d + e + fipsK t + scheduleW M t, a, word_rotl 30 b, c, d))"

text \<open>A number of 160 bits, padded with 352 zero bits on the right, as a block of sixteen words.\<close>

definition fipsBlock :: "nat \<Rightarrow> nat \<Rightarrow> 32 word" where
  "fipsBlock x j = (if j < 5 then word_of_nat (x div 2 ^ (32 * (4 - j))) else 0)"

definition fipsG :: "nat \<Rightarrow> nat" where
  "fipsG x =
    (case fipsIV of (h0, h1, h2, h3, h4) \<Rightarrow> case fipsState (fipsBlock x) 80 of (a, b, c, d, e) \<Rightarrow>
      unat (h0 + a) * 2 ^ 128 + unat (h1 + b) * 2 ^ 96 + unat (h2 + c) * 2 ^ 64 + unat (h3 + d) * 2 ^ 32 + unat (h4 + e))"

text \<open>The key of each block, \<open>XKEY = (1 + XKEY + x) mod 2^160\<close>, and the blocks one after the other.\<close>

fun seedOf :: "nat \<Rightarrow> nat \<Rightarrow> nat" where
  "seedOf xkey 0 = xkey"
| "seedOf xkey (Suc i) = (1 + seedOf xkey i + fipsG (seedOf xkey i)) mod 2 ^ 160"

definition fipsStream :: "nat \<Rightarrow> nat \<Rightarrow> byte list" where
  "fipsStream xkey n = concat (map (\<lambda>i. bigEndian 20 (fipsG (seedOf xkey i))) [0..<n])"

text \<open>The four constants are \<open>2^30\<close> times the square roots of 2, 3, 5 and 10, rounded down.\<close>

lemma fipsK_roots:
  "\<forall>(t, k) \<in> {(0, 2), (20, 3), (40, 5), (60, 10)}.
    (unat (fipsK t))\<^sup>2 \<le> k * 2 ^ 60 \<and> k * 2 ^ 60 < (unat (fipsK t) + 1)\<^sup>2"
  by (simp add: fipsK_def)

subsection \<open>The code computes it\<close>

lemma Maj_or: "(b AND c) OR (b AND d) OR (c AND d) = Maj b c d" for b c d :: "32 word"
  by (rule bit_word_eqI) (auto simp: Maj_def bit_simps)

lemma Ch_or: "(b AND c) OR (NOT b AND d) = Ch b c d" for b c d :: "32 word"
  by (rule bit_word_eqI) (auto simp: Ch_def bit_simps)

lemma rotl_or:
  fixes w :: "32 word"
  assumes "0 < k" and "k < 32"
  shows "push_bit k w OR drop_bit (32 - k) w = word_rotl k w"
proof (rule bit_word_eqI)
  fix n assume n: "n < LENGTH(32)"
  show "bit (push_bit k w OR drop_bit (32 - k) w) n = bit (word_rotl k w) n"
  proof (cases "k \<le> n")
    case True
    then have "(n + 32 - k) mod 32 = n - k" using n mod_add_self2[of "n - k" 32] by simp
    then show ?thesis using True n assms bit_imp_le_length[of w "32 - k + n"]
      by (auto simp: bit_simps bit_word_rotl_iff)
  next
    case False
    then have "(n + 32 - k) mod 32 = 32 - k + n" using assms by simp
    then show ?thesis using False n assms by (auto simp: bit_simps bit_word_rotl_iff)
  qed
qed

lemma shaRound_step:
  "shaRound t (scheduleW M t) (fipsState M t) = fipsState M (Suc t)"
  using rotl_or[of 5] rotl_or[of 30]
  by (auto simp: shaRound_def Ch_or Maj_or fipsF_def fipsK_def Parity_def Let_def split: prod.split)

lemma fold_rounds: "fold (\<lambda>i. shaRound i (scheduleW M i)) [0..<n] shaInitial = fipsState M n"
proof (induction n)
  case 0
  then show ?case by (simp add: shaInitial_def fipsIV_def)
next
  case (Suc n)
  then show ?case by (simp add: shaRound_step del: fipsState.simps)
qed

lemma extendWords_schedule:
  "16 \<le> k \<Longrightarrow> extendWords n (map (scheduleW M) [0..<k]) = map (scheduleW M) [0..<k + n]"
proof (induction n arbitrary: k)
  case (Suc n)
  let ?W = "scheduleW M"
  have "extendWords (Suc n) (map ?W [0..<k]) =
      extendWords n (map ?W [0..<k] @ [word_rotl 1 (?W (k - 3) XOR ?W (k - 8) XOR ?W (k - 14) XOR ?W (k - 16))])"
    using Suc.prems rotl_or[of 1] by (simp add: Let_def)
  also have "\<dots> = extendWords n (map ?W [0..<Suc k])"
    using Suc.prems scheduleW.simps[of M k] by simp
  finally show ?case using Suc.IH[of "Suc k"] Suc.prems by simp
qed simp

lemma bigEndian_put32: "bigEndian (n + 4) v = bigEndian n (v div 2 ^ 32) @ put32 (word_of_nat v)"
proof -
  have byte: "word_of_nat (v div 2 ^ k mod 256) = (ucast (drop_bit k (word_of_nat v :: 32 word)) :: byte)" if "k + 8 \<le> 32" for k
  proof -
    have "v div 2 ^ k mod 256 = take_bit 8 (drop_bit k v)" by (simp add: drop_bit_eq_div take_bit_eq_mod)
    then have "(word_of_nat (v div 2 ^ k mod 256) :: byte) = word_of_nat (take_bit 8 (drop_bit k v))" by (simp only:)
    also have "\<dots> = ucast (drop_bit k (word_of_nat v :: 32 word))"
      by (rule bit_word_eqI)
        (use that in \<open>simp add: bit_of_nat_iff bit_take_bit_iff bit_drop_bit_eq bit_unsigned_iff Bit_Operations.bit_take_bit_iff Bit_Operations.bit_drop_bit_eq\<close>)
    finally show ?thesis .
  qed
  have four: "n + 4 = Suc (Suc (Suc (Suc n)))" by simp
  have "bigEndian (n + 4) v = bigEndian (Suc (Suc (Suc (Suc n)))) v" unfolding four ..
  also have "\<dots> = bigEndian n (v div 2 ^ 32) @
      [word_of_nat (v div 2 ^ 24 mod 256), word_of_nat (v div 2 ^ 16 mod 256), word_of_nat (v div 2 ^ 8 mod 256), word_of_nat (v mod 256)]"
    unfolding bigEndian.simps div_mult2_eq[symmetric] append_assoc by simp
  also have "\<dots> = bigEndian n (v div 2 ^ 32) @ put32 (word_of_nat v)"
    using byte[of 24] byte[of 16] byte[of 8] byte[of 0] by (simp add: put32_def)
  finally show ?thesis .
qed

lemma bigEndian_words:
  "bigEndian 20 x = put32 (fipsBlock x 0) @ put32 (fipsBlock x 1) @ put32 (fipsBlock x 2) @ put32 (fipsBlock x 3) @ put32 (fipsBlock x 4)"
  using bigEndian_put32[of 16 x] bigEndian_put32[of 12 "x div 2 ^ 32"] bigEndian_put32[of 8 "x div 2 ^ 64"]
    bigEndian_put32[of 4 "x div 2 ^ 96"] bigEndian_put32[of 0 "x div 2 ^ 128"]
  by (simp add: fipsBlock_def div_mult2_eq[symmetric])

lemma bigEndian_snoc32: "bigEndian (n + 4) (hi * 2 ^ 32 + unat w) = bigEndian n hi @ put32 w"
proof -
  have "unat w < 2 ^ 32" using unsigned_less[of w, where ?'a = nat] by simp
  then have "(hi * 2 ^ 32 + unat w) div 2 ^ 32 = hi" by simp
  moreover have "word_of_nat (hi * 2 ^ 32 + unat w) = w"
  proof -
    have zero: "(2 :: 32 word) ^ 32 = 0" using word_exp_length_eq_0[where ?'a = 32] by (simp only: len_of_numeral_defs) simp
    show ?thesis unfolding of_nat_add of_nat_mult of_nat_power of_nat_numeral zero by simp
  qed
  ultimately show ?thesis by (simp add: bigEndian_put32)
qed

lemma bigEndian_digest:
  "bigEndian 20 (unat a * 2 ^ 128 + unat b * 2 ^ 96 + unat c * 2 ^ 64 + unat d * 2 ^ 32 + unat e) =
    put32 a @ put32 b @ put32 c @ put32 d @ put32 e"
proof -
  have "unat a * 2 ^ 128 + unat b * 2 ^ 96 + unat c * 2 ^ 64 + unat d * 2 ^ 32 + unat e =
      (((((0 * 2 ^ 32 + unat a) * 2 ^ 32 + unat b) * 2 ^ 32 + unat c) * 2 ^ 32 + unat d) * 2 ^ 32 + unat e)"
    by simp
  then show ?thesis
    using bigEndian_snoc32[of 16 _ e] bigEndian_snoc32[of 12 _ d] bigEndian_snoc32[of 8 _ c]
      bigEndian_snoc32[of 4 _ b] bigEndian_snoc32[of 0 0 a]
    by (simp only: append_assoc numeral_plus_numeral add_num_simps add_0 bigEndian.simps append_Nil)
qed

lemma un32_zero [simp]: "un32 0 0 0 0 = 0"
  by (simp add: un32_def)

lemma schedule_start:
  fixes x
  defines "block \<equiv> bigEndian 20 x @ replicate 44 0"
  shows "map (\<lambda>i. un32 (block ! (4 * i)) (block ! (4 * i + 1)) (block ! (4 * i + 2)) (block ! (4 * i + 3))) [0..<16] =
    map (scheduleW (fipsBlock x)) [0..<16]"
proof (rule map_cong[OF refl])
  fix i assume "i \<in> set [0..<16]"
  then have i: "i < 16" by simp
  have W: "scheduleW (fipsBlock x) i = fipsBlock x i" using i by (simp add: scheduleW.simps)
  show "un32 (block ! (4 * i)) (block ! (4 * i + 1)) (block ! (4 * i + 2)) (block ! (4 * i + 3)) = scheduleW (fipsBlock x) i"
  proof (cases "i < 5")
    case True
    then have "i = 0 \<or> i = 1 \<or> i = 2 \<or> i = 3 \<or> i = 4" by auto
    then show ?thesis unfolding W block_def bigEndian_words by (elim disjE) (simp_all add: put32_def)
  next
    case False
    then show ?thesis using i unfolding W by (simp add: block_def nth_append fipsBlock_def)
  qed
qed

theorem fipsSHA1G_G: "fipsSHA1G (bigEndian 20 x) = bigEndian 20 (fipsG x)"
proof -
  have words: "extendWords 64 (map (scheduleW (fipsBlock x)) [0..<16]) = map (scheduleW (fipsBlock x)) [0..<80]"
    using extendWords_schedule[of 16 64 "fipsBlock x"] by simp
  have "fold (\<lambda>i. shaRound i (map (scheduleW (fipsBlock x)) [0..<80] ! i)) [0..<80] shaInitial =
      fold (\<lambda>i. shaRound i (scheduleW (fipsBlock x) i)) [0..<80] shaInitial"
    by (rule fold_cong) simp_all
  also have "\<dots> = fipsState (fipsBlock x) 80" by (rule fold_rounds)
  finally have rounds: "fold (\<lambda>i. shaRound i (map (scheduleW (fipsBlock x)) [0..<80] ! i)) [0..<80] shaInitial =
      fipsState (fipsBlock x) 80" .
  have block: "take 20 (bigEndian 20 x) @ replicate (64 - length (take 20 (bigEndian 20 x))) 0 = bigEndian 20 x @ replicate 44 0"
    by simp
  obtain a b c d e where state: "fipsState (fipsBlock x) 80 = (a, b, c, d, e)" by (metis prod_cases5)
  show ?thesis
    unfolding fipsSHA1G_def Let_def block schedule_start words rounds[unfolded state shaInitial_def] fipsG_def state shaInitial_def
      fipsIV_def prod.case
      bigEndian_digest ..
qed

lemma fipsG_less: "fipsG x < 256 ^ 20"
proof -
  have bound: "unat a * 2 ^ 128 + unat b * 2 ^ 96 + unat c * 2 ^ 64 + unat d * 2 ^ 32 + unat e < 256 ^ 20"
    for a b c d e :: "32 word"
    using unsigned_less[of a, where ?'a = nat] unsigned_less[of b, where ?'a = nat] unsigned_less[of c, where ?'a = nat]
      unsigned_less[of d, where ?'a = nat] unsigned_less[of e, where ?'a = nat]
    by simp
  show ?thesis by (simp only: fipsG_def bound split: prod.split) simp
qed

end
