(* ===== verification/Eap_Props.thy ===== *)
theory Eap_Props
  imports Fips
begin

text \<open>
  The EAP-AKA client: packets parse rest, the generator is that of FIPS 186-2, no message of the
  responder makes the client panic, and success is reported only after a challenge whose MAC verified
  under the keys of this SIM.
\<close>

subsection \<open>Packets\<close>

lemma parse_marshal_eap:
  assumes "marshalEAPPacket p = Inr e" and code: "eap_code p \<in> {1, 2, 3, 4}"
  shows "parseEAPPacket e = Inr p"
proof -
  define len where "len = (if eap_code p = 1 \<or> eap_code p = 2 then 4 + (1 + length (eap_data p)) else 4)"
  have e: "e = [eap_code p, eap_identifier p] @ put16 (word_of_nat len) @ (if len > 4 then eap_type p # eap_data p else [])"
    and le: "len \<le> 65535"
    and t: "\<not> (eap_code p = 1 \<or> eap_code p = 2) \<Longrightarrow> eap_data p = [] \<and> eap_type p = 0"
    using assms by (auto simp: marshalEAPPacket_def len_def Let_def split: if_split_asm)
  have l: "length e = len" unfolding e by (auto simp: len_def)
  have four: "4 \<le> len" by (simp add: len_def)
  have "(get16 e 2 :: (eap_error, _) res) = Inr (word_of_nat len)" unfolding e by (simp add: get16_def put16_def)
  moreover have "unat (word_of_nat len :: 16 word) = len" using le by (intro unat_of_nat16) simp
  moreover have "(idx e 0 :: (eap_error, _) res) = Inr (eap_code p)" "(idx e (Suc 0) :: (eap_error, _) res) = Inr (eap_identifier p)"
    unfolding e by (simp_all add: idx_def)
  moreover have "len > 4 \<Longrightarrow> (idx e 4 :: (eap_error, _) res) = Inr (eap_type p)" "len > 4 \<Longrightarrow> (slice e 5 len :: (eap_error, _) res) = Inr (eap_data p)"
    using l unfolding e by (simp_all add: idx_def slice_def put16_def)
  ultimately show ?thesis
    using l four t code by (auto simp: parseEAPPacket_def len_def)
qed


lemma parseEAPPacket_Inr:
  assumes "parseEAPPacket e = Inr p"
  shows "4 \<le> length e \<and> length e < 65536 \<and> eap_code p = e ! 0 \<and> eap_identifier p = e ! 1
    \<and> unat (un16 (e ! 2) (e ! 3)) = length e
    \<and> (eap_code p = 1 \<or> eap_code p = 2 \<longrightarrow> 5 \<le> length e \<and> eap_type p = e ! 4 \<and> eap_data p = drop 5 e)
    \<and> (eap_code p \<noteq> 1 \<and> eap_code p \<noteq> 2 \<longrightarrow> (eap_code p = 3 \<or> eap_code p = 4) \<and> length e = 4 \<and> eap_type p = 0 \<and> eap_data p = [])"
  using assms unat_un16_less[of "e ! 2" "e ! 3"]
  by (auto simp: parseEAPPacket_def rbind_Inr_iff get16_def idx_def slice_def numeral_3_eq_3 split: if_split_asm)

lemma parseEAPPacket_no_panic: "parseEAPPacket e \<noteq> Inl Panic"
  by (auto simp: parseEAPPacket_def rbind_Inl_iff get16_def idx_def slice_def)

text \<open>What was received is what the MAC of a request is computed over.\<close>

lemma marshal_parse_eap:
  assumes "parseEAPPacket e = Inr p" and "eap_code p = 1 \<or> eap_code p = 2" and "eap_type p \<noteq> 0"
  shows "marshalEAPPacket p = Inr e"
proof -
  note f = parseEAPPacket_Inr[OF assms(1)]
  then have "Suc (Suc (Suc (Suc (Suc 0)))) \<le> length e" using assms(2) by auto
  then obtain b0 b1 b2 b3 b4 r where e: "e = b0 # b1 # b2 # b3 # b4 # r"
    unfolding Suc_le_length_iff by blast
  have "unat (un16 b2 b3) = length e" using f by (simp add: e numeral_3_eq_3)
  from this[symmetric] have "(word_of_nat (length e) :: 16 word) = un16 b2 b3" by simp
  then show ?thesis using f assms(2,3) unfolding e
    by (auto simp: marshalEAPPacket_def Let_def)
qed

subsection \<open>Attributes\<close>

text \<open>An attribute is a stretch of the encoding that starts with its type and gives its length in words.\<close>

definition attrBytes :: "byte list \<Rightarrow> bool" where
  "attrBytes x \<longleftrightarrow> 4 \<le> length x \<and> unat (x ! 1) * 4 = length x"

definition placed :: "byte list \<Rightarrow> akaAttribute \<Rightarrow> bool" where
  "placed encoded a \<longleftrightarrow> at_offset a + length (at_raw a) \<le> length encoded \<and> attrBytes (at_raw a)
     \<and> at_raw a = take (length (at_raw a)) (drop (at_offset a) encoded) \<and> hd (at_raw a) = at_type a"

lemma parseAttributesLoop_Inr:
  "parseAttributesLoop encoded off res = Inr as \<Longrightarrow> \<forall>a \<in> set res. placed encoded a \<Longrightarrow> length res \<le> 64 \<Longrightarrow>
    (\<forall>a \<in> set as. placed encoded a) \<and> length as \<le> 64"
proof (induction encoded off res rule: parseAttributesLoop.induct)
  case (1 encoded off res)
  show ?case
  proof (cases "off \<ge> length encoded")
    case True
    then show ?thesis using "1.prems" by (simp add: parseAttributesLoop.simps)
  next
    case False
    then have ok: "length res < 64" "off + 2 \<le> length encoded"
      using "1.prems"(1) by (auto simp: parseAttributesLoop.simps[of encoded] split: if_split_asm)
    define len where "len = unat (encoded ! (off + 1)) * 4"
    have i: "(idx encoded (off + 1) :: (eap_error, _) res) = Inr (encoded ! (off + 1))"
      "(idx encoded off :: (eap_error, _) res) = Inr (encoded ! off)" using ok by (simp_all add: idx_def)
    have l: "4 \<le> len" "off + len \<le> length encoded"
      using "1.prems"(1) False ok by (auto simp: parseAttributesLoop.simps[of encoded] i[simplified] len_def Let_def split: if_split_asm)
    have nz: "unat (encoded ! Suc off) \<noteq> 0" using l(1) by (auto simp: len_def)
    define raw where "raw = take len (drop off encoded)"
    have sl: "(slice encoded off (off + len) :: (eap_error, _) res) = Inr raw" using l by (simp add: slice_def raw_def)
    define a where "a = \<lparr>at_type = encoded ! off, at_raw = raw, at_offset = off\<rparr>"
    have "length raw = len" using l by (simp add: raw_def)
    moreover have "raw ! 1 = encoded ! Suc off" using l by (simp add: raw_def)
    ultimately have "placed encoded a" using l
      by (simp add: placed_def attrBytes_def a_def raw_def hd_drop_conv_nth len_def)
    moreover have "parseAttributesLoop encoded (off + len) (res @ [a]) = Inr as"
      using "1.prems"(1) False ok l nz
      by (simp add: parseAttributesLoop.simps[of encoded off] i[simplified] sl a_def flip: len_def[simplified])
    ultimately show ?thesis
      using "1.IH"[OF False _ i(1) len_def _ i(2) sl] "1.prems"(2,3) ok l by (auto simp: a_def)
  qed
qed

lemma parseAKAAttributes_Inr:
  "parseAKAAttributes encoded = Inr as \<Longrightarrow> a \<in> set as \<Longrightarrow> placed encoded a"
  using parseAttributesLoop_Inr[of encoded 0 "[]" as] by (simp add: parseAKAAttributes_def)

lemma parseAttributesLoop_no_panic: "parseAttributesLoop encoded off res \<noteq> Inl Panic"
proof (induction encoded off res rule: parseAttributesLoop.induct)
  case (1 encoded off res)
  then show ?case
    by (subst parseAttributesLoop.simps)
      (auto simp: rbind_Inl_iff idx_Inl_iff slice_Inl_iff Let_def split: if_split_asm)
qed

lemma oneAKAAttribute_Inr:
  assumes "oneAKAAttribute as k = Inr a"
  shows "a \<in> set as \<and> at_type a = k"
proof -
  have "filter (\<lambda>a. at_type a = k) as = [a]" using assms by (auto simp: oneAKAAttribute_def split: list.splits)
  then have "a \<in> set (filter (\<lambda>a. at_type a = k) as)" by simp
  then show ?thesis by simp
qed

lemma oneAKAAttribute_no_panic: "oneAKAAttribute as k \<noteq> Inl Panic"
  by (simp add: oneAKAAttribute_def split: list.splits)

lemma marshalAKAAttribute_Inr:
  assumes "marshalAKAAttribute k v = Inr bs"
  shows "\<exists>n z. bs = [k, word_of_nat n] @ v @ replicate z 0 \<and> length bs = 4 * n \<and> 0 < n \<and> n < 256 \<and> z < 4"
proof -
  define n where "n = (2 + length v + 3) div 4"
  have "bs = [k, word_of_nat n] @ v @ replicate (n * 4 - (2 + length v)) 0" and "n \<le> 255"
    using assms by (auto simp: marshalAKAAttribute_def Let_def n_def split: if_split_asm)
  moreover have "2 + length v \<le> n * 4" "n * 4 < 2 + length v + 4" "0 < n" unfolding n_def by presburger+
  ultimately show ?thesis by (intro exI[of _ n] exI[of _ "n * 4 - (2 + length v)"]) auto
qed

subsection \<open>Keys\<close>

lemma setBytes_less: "setBytes bs < 256 ^ length bs"
proof (induction bs rule: rev_induct)
  case (snoc b bs)
  have "unat b < 256" by simp
  then have "setBytes bs * 256 + unat b < (setBytes bs + 1) * 256" by simp
  also have "\<dots> \<le> 256 ^ length bs * 256" using snoc by (intro mult_right_mono) simp_all
  finally show ?case by (simp add: setBytes_def)
qed (simp add: setBytes_def)

lemma length_fipsStream [simp]: "length (fipsStream xkey n) = 20 * n"
  by (induction n) (simp_all add: fipsStream_def)

lemma seedOf_less: "xkey < 256 ^ 20 \<Longrightarrow> seedOf xkey i < 256 ^ 20"
  by (cases i) simp_all

lemma prfWords_stream:
  assumes "xkey < 256 ^ 20" and "n \<le> 20 * m" and "i \<le> m"
  shows "prfWords n (seedOf xkey i) (fipsStream xkey i) = Inr (take n (fipsStream xkey m))"
  using assms(3)
proof (induction i rule: inc_induct)
  case base
  then show ?case using assms(2) by (simp add: prfWords.simps slice_def)
next
  case (step i)
  have next_block: "fipsStream xkey (Suc i) = fipsStream xkey i @ bigEndian 20 (fipsG (seedOf xkey i))"
    by (simp add: fipsStream_def)
  show ?case
  proof (cases "20 * i \<ge> n")
    case True
    have "fipsStream xkey m = fipsStream xkey i @ concat (map (\<lambda>j. bigEndian 20 (fipsG (seedOf xkey j))) [i..<m])"
      using step upt_add_eq_append[of 0 i "m - i"] by (simp add: fipsStream_def)
    then show ?thesis using True by (simp add: prfWords.simps slice_def)
  next
    case False
    then show ?thesis using step.IH seedOf_less[OF assms(1), of i]
      by (subst prfWords.simps) (simp add: Let_def next_block fipsSHA1G_G setBytes_bigEndian[OF fipsG_less] add.commute add.left_commute)
  qed
qed

lemma prf_stream:
  assumes "length seed \<le> 20"
  shows "fips1862PRF seed n = Inr (take n (fipsStream (setBytes seed) ((n + 19) div 20)))"
proof -
  have "setBytes seed < 256 ^ length seed" by (rule setBytes_less)
  also have "\<dots> \<le> 256 ^ 20" using assms by (intro power_increasing) auto
  finally have "setBytes seed < 256 ^ 20" .
  moreover have "n \<le> 20 * ((n + 19) div 20)" by presburger
  moreover have "fipsStream (setBytes seed) 0 = []" by (simp add: fipsStream_def)
  ultimately show ?thesis
    using prfWords_stream[of "setBytes seed" n "(n + 19) div 20" 0] by (simp add: fips1862PRF_def)
qed

text \<open>
  C33: The key generator is the one of FIPS 186-2 with change notice 1: for a seed of at most 20 octets
  it returns, without a panic, the first octets of the stream of blocks G(t, XKEY), each block's XKEY
  being the sum of the one before, its block and 1 modulo 2^160.  G is the compression function of SHA-1
  as FIPS 180 writes it (theory \<open>Fips\<close>: Ch, Parity and Maj, the constants, the schedule with its
  rotations, the eighty steps), stated on 160-bit numbers and without the code's own function.
\<close>

theorem fips_stream:
  assumes "length seed \<le> 20"
  shows "fips1862PRF seed n = Inr (take n (fipsStream (setBytes seed) ((n + 19) div 20)))"
  by (rule prf_stream[OF assms])

definition sha1_ok :: "(byte list \<Rightarrow> byte list) \<Rightarrow> bool" where
  "sha1_ok sha1 \<longleftrightarrow> (\<forall>x. length (sha1 x) = 20)"

lemma deriveAKAKeys_no_panic: "sha1_ok sha1 \<Longrightarrow> deriveAKAKeys sha1 identity ik ck \<noteq> Inl Panic"
  using prf_stream[of "sha1 (identity @ ik @ ck)" 160]
  by (auto simp: deriveAKAKeys_def sha1_ok_def slice_def)

lemma deriveAKAKeys_ok:
  assumes "sha1_ok sha1" "identity \<noteq> []" "length ik = 16" "length ck = 16"
  shows "\<exists>ks. deriveAKAKeys sha1 identity ik ck = Inr ks"
  using assms prf_stream[of "sha1 (identity @ ik @ ck)" 160]
  by (auto simp: deriveAKAKeys_def sha1_ok_def slice_def)

lemma deriveAKAKeys_lengths:
  assumes "deriveAKAKeys sha1 identity ik ck = Inr ks"
  shows "length (KEncr ks) = 16 \<and> length (KAut ks) = 16 \<and> length (MSK ks) = 64 \<and> length (EMSK ks) = 64"
  using assms by (auto simp: deriveAKAKeys_def rbind_Inr_iff slice_def split: if_split_asm)

subsection \<open>Attribute lists that are built\<close>

fun attrsAt :: "nat \<Rightarrow> byte list list \<Rightarrow> akaAttribute list" where
  "attrsAt off [] = []"
| "attrsAt off (x # xs) = \<lparr>at_type = hd x, at_raw = x, at_offset = off\<rparr> # attrsAt (off + length x) xs"

lemma attrsAt_append: "attrsAt off (xs @ ys) = attrsAt off xs @ attrsAt (off + length (concat xs)) ys"
  by (induction xs arbitrary: off) (simp_all add: add.assoc)

lemma filter_attrsAt: "\<forall>x \<in> set xs. hd x \<noteq> k \<Longrightarrow> filter (\<lambda>a. at_type a = k) (attrsAt off xs) = []"
  by (induction xs arbitrary: off) auto

lemma parse_concat:
  "\<forall>x \<in> set xs. attrBytes x \<Longrightarrow> length res \<le> 64 \<Longrightarrow>
    parseAttributesLoop (pre @ concat xs) (length pre) res =
      (if length res + length xs \<le> 64 then Inr (res @ attrsAt (length pre) xs) else err AttributeList)"
proof (induction xs arbitrary: pre res)
  case Nil
  then show ?case by (simp add: parseAttributesLoop.simps)
next
  case (Cons x xs)
  let ?e = "pre @ x @ concat xs"
  have x: "4 \<le> length x" "unat (x ! 1) * 4 = length x" "x \<noteq> []" using Cons.prems by (auto simp: attrBytes_def)
  have r: "(idx ?e (Suc (length pre)) :: (eap_error, _) res) = Inr (x ! 1)"
    "(idx ?e (length pre) :: (eap_error, _) res) = Inr (hd x)"
    "(slice ?e (length pre) (length pre + length x) :: (eap_error, _) res) = Inr x"
    using x by (simp_all add: idx_def slice_def nth_append hd_conv_nth)
  have nz: "unat (x ! 1) \<noteq> 0" using x by auto
  show ?case
  proof (cases "length res < 64")
    case True
    then have "parseAttributesLoop ?e (length pre) res
        = parseAttributesLoop ((pre @ x) @ concat xs) (length (pre @ x)) (res @ [\<lparr>at_type = hd x, at_raw = x, at_offset = length pre\<rparr>])"
      using x nz by (subst parseAttributesLoop.simps) (simp add: r)
    then show ?thesis
      using Cons.IH[of "res @ [\<lparr>at_type = hd x, at_raw = x, at_offset = length pre\<rparr>]" "pre @ x"] Cons.prems True by simp
  next
    case False
    then show ?thesis using x Cons.prems by (simp add: parseAttributesLoop.simps)
  qed
qed

lemma attrBytes_marshal: "marshalAKAAttribute k v = Inr bs \<Longrightarrow> attrBytes bs \<and> hd bs = k"
proof -
  assume "marshalAKAAttribute k v = Inr bs"
  from marshalAKAAttribute_Inr[OF this] obtain n z where
    n: "bs = [k, word_of_nat n] @ v @ replicate z 0" "length bs = 4 * n" "0 < n" "n < 256" by blast
  have "bs ! 1 = word_of_nat n" "hd bs = k" by (simp_all add: n(1))
  then show "attrBytes bs \<and> hd bs = k" using n(2-4) by (simp add: attrBytes_def unat_of_nat8)
qed

definition macAttribute :: "byte list \<Rightarrow> byte list" where
  "macAttribute mac = [akaAttrMAC, 5, 0, 0] @ mac"

lemma macAttribute_simps [simp]:
  "length (macAttribute mac) = 4 + length mac" "hd (macAttribute mac) = akaAttrMAC"
  "length mac = 16 \<Longrightarrow> attrBytes (macAttribute mac)"
  by (simp_all add: macAttribute_def attrBytes_def)

lemma marshal_mac: "orNil (marshalAKAAttribute akaAttrMAC (replicate 18 0)) = macAttribute (replicate 16 0)"
proof -
  have "replicate 18 (0 :: byte) = 0 # 0 # replicate 16 0" by (simp add: numeral_eq_Suc)
  then show ?thesis by (simp add: marshalAKAAttribute_def orNil_def macAttribute_def)
qed

lemma responseMAC_built:
  assumes "\<forall>x \<in> set xs. attrBytes x \<and> hd x \<noteq> akaAttrMAC"
  shows "responseMAC ([s, 0, 0] @ concat xs @ macAttribute (replicate 16 0)) =
    (if length xs < 64 then Inr (8 + length (concat xs)) else err AttributeCount)"
proof -
  let ?ys = "xs @ [macAttribute (replicate 16 0)]"
  have "\<forall>x \<in> set ?ys. attrBytes x" using assms by auto
  from parse_concat[OF this, of "[]" "[]"]
  have p: "parseAKAAttributes (concat xs @ macAttribute (replicate 16 0)) =
      (if length xs < 64 then Inr (attrsAt 0 ?ys) else err AttributeList)"
    by (simp add: parseAKAAttributes_def Suc_le_eq)
  have "filter (\<lambda>a. at_type a = akaAttrMAC) (attrsAt 0 xs) = []" using assms by (intro filter_attrsAt) auto
  then show ?thesis
    by (simp add: responseMAC_def p orNil_def oneAKAAttribute_def attrsAt_append)
qed

text \<open>A response whose last attribute is the MAC over the response with that MAC cleared.\<close>

definition unsignedPacket :: "byte \<Rightarrow> byte \<Rightarrow> byte list list \<Rightarrow> byte list \<Rightarrow> byte list" where
  "unsignedPacket identifier subtype xs mac =
    [eapResponse, identifier] @ put16 (word_of_nat (28 + length (concat xs))) @ [eapTypeAKA, subtype, 0, 0]
      @ concat xs @ macAttribute mac"

definition signedPacket :: "eap_env \<Rightarrow> akaKeys \<Rightarrow> byte \<Rightarrow> byte \<Rightarrow> byte list list \<Rightarrow> byte list" where
  "signedPacket env ks identifier subtype xs = unsignedPacket identifier subtype xs
     (take 16 (hmac_sha1 (eapCrypto env) (KAut ks) (unsignedPacket identifier subtype xs (replicate 16 0))))"

lemma akaMAC_ok: "crypto_ok cr \<Longrightarrow> akaMAC cr k bytes = Inr (take 16 (hmac_sha1 cr k bytes))"
  by (simp add: akaMAC_def crypto_ok_def slice_def)

lemma signed_built:
  assumes "crypto_ok (eapCrypto env)" and "\<forall>x \<in> set xs. attrBytes x \<and> hd x \<noteq> akaAttrMAC"
    and data: "data = [s, 0, 0] @ concat xs @ macAttribute (replicate 16 0)"
  shows "signedResponse env ks identifier data (responseMAC data) =
    (if 28 + length (concat xs) > 65535 then err EAPTooLong
     else if length xs < 64 then Inr \<lparr>EAPResponse = signedPacket env ks identifier s xs, EAPSuccess = False\<rparr>
     else err AttributeCount)"
proof -
  define l where "l = length (concat xs)"
  have m: "marshalEAPPacket \<lparr>eap_code = eapResponse, eap_identifier = identifier, eap_type = eapTypeAKA, eap_data = data\<rparr> =
      (if 28 + l > 65535 then err EAPTooLong else Inr (unsignedPacket identifier s xs (replicate 16 0)))"
    unfolding data by (simp add: marshalEAPPacket_def unsignedPacket_def l_def)
  have off: "responseMAC data = (if length xs < 64 then Inr (8 + l) else err AttributeCount)"
    unfolding data l_def using assms(2) by (rule responseMAC_built)
  have w: "writeMAC (unsignedPacket identifier s xs (replicate 16 0)) (8 + l) mac = Inr (unsignedPacket identifier s xs mac)"
    if "length mac = 16" for mac
  proof -
    define front where "front = [eapResponse, identifier] @ put16 (word_of_nat (28 + l)) @ [eapTypeAKA, s, 0, 0]
      @ concat xs @ [akaAttrMAC, 5, 0, 0]"
    have "unsignedPacket identifier s xs m = front @ m" for m
      by (simp add: unsignedPacket_def front_def l_def macAttribute_def)
    moreover have "length front = 12 + l" by (simp add: front_def l_def)
    ultimately show ?thesis using that by (simp add: writeMAC_def)
  qed
  show ?thesis
    by (simp add: signedResponse_def m off akaMAC_ok[OF assms(1)] signedPacket_def l_def[symmetric])
      (use assms(1) in \<open>simp add: w crypto_ok_def\<close>)
qed

lemma resultIndications_Inr:
  assumes "resultIndications as = Inr (raw, ind)" and "\<forall>a \<in> set as. attrBytes (at_raw a) \<and> hd (at_raw a) = at_type a"
  shows "\<exists>xs. raw = concat xs \<and> (\<forall>x \<in> set xs. attrBytes x \<and> hd x = akaAttrResultInd)
    \<and> ind = (\<exists>a \<in> set as. at_type a = akaAttrResultInd)"
  using assms
proof (induction as arbitrary: raw ind)
  case Nil
  then show ?case by (auto intro: exI[of _ "[]"])
next
  case (Cons a as)
  show ?case
  proof (cases "at_type a = akaAttrResultInd")
    case True
    then obtain r i where r: "resultIndications as = Inr (r, i)" "raw = at_raw a @ r" "ind"
      using Cons.prems(1) by (auto simp: rbind_Inr_iff split: if_split_asm)
    obtain xs where "r = concat xs" "\<forall>x \<in> set xs. attrBytes x \<and> hd x = akaAttrResultInd"
      using Cons.IH[OF r(1)] Cons.prems(2) by auto
    then show ?thesis using r(2,3) True Cons.prems(2) by (intro exI[of _ "at_raw a # xs"]) auto
  next
    case False
    then have "resultIndications as = Inr (raw, ind)" using Cons.prems(1) by simp
    from Cons.IH[OF this] show ?thesis using Cons.prems(2) False by auto
  qed
qed

lemma resultIndications_no_panic: "resultIndications as \<noteq> Inl Panic"
  by (induction as) (auto simp: rbind_Inl_iff)

text \<open>The RES attribute: the length in bits, the response and the padding.\<close>

definition resAttribute :: "byte list \<Rightarrow> byte list" where
  "resAttribute res = [akaAttrRES, word_of_nat ((4 + length res + 3) div 4)] @ put16 (word_of_nat (length res * 8)) @ res
     @ replicate ((4 + length res + 3) div 4 * 4 - (4 + length res)) 0"

lemma marshal_res:
  "length res \<le> 16 \<Longrightarrow> marshalAKAAttribute akaAttrRES (put16 (word_of_nat (length res * 8)) @ res) = Inr (resAttribute res)"
proof -
  assume "length res \<le> 16"
  then have "\<not> 255 < (4 + length res + 3) div 4" by presburger
  moreover have "2 + length (put16 (word_of_nat (length res * 8)) @ res) = 4 + length res" by simp
  ultimately show "marshalAKAAttribute akaAttrRES (put16 (word_of_nat (length res * 8)) @ res) = Inr (resAttribute res)"
    unfolding marshalAKAAttribute_def resAttribute_def Let_def by (simp del: of_nat_mult)
qed

lemma challengeResponse_built:
  assumes ok: "crypto_ok (eapCrypto env)" and res: "length res \<le> 16"
    and as: "\<forall>a \<in> set as. attrBytes (at_raw a) \<and> hd (at_raw a) = at_type a"
  shows "challengeResponse env ks identifier as res \<noteq> Inl Panic
    \<and> (\<forall>a ind. challengeResponse env ks identifier as res = Inr (a, ind) \<longrightarrow>
        ind = (\<exists>a \<in> set as. at_type a = akaAttrResultInd) \<and> \<not> EAPSuccess a
        \<and> (\<exists>xs. (\<forall>x \<in> set xs. attrBytes x \<and> hd x = akaAttrResultInd) \<and> length xs < 63
            \<and> EAPResponse a = signedPacket env ks identifier akaSubtypeChallenge (resAttribute res # xs)))"
proof (cases "resultIndications as")
  case (Inl f)
  then show ?thesis using resultIndications_no_panic[of as]
    unfolding challengeResponse_def marshal_res[OF res] by (cases f) simp_all
next
  case (Inr r)
  obtain raw i where r: "r = (raw, i)" by (cases r)
  obtain xs where xs: "raw = concat xs" "\<forall>x \<in> set xs. attrBytes x \<and> hd x = akaAttrResultInd"
    and i: "i = (\<exists>a \<in> set as. at_type a = akaAttrResultInd)"
    using resultIndications_Inr[OF Inr[unfolded r] as] by blast
  define data where "data = [akaSubtypeChallenge, 0, 0] @ concat (resAttribute res # xs) @ macAttribute (replicate 16 0)"
  have "attrBytes (resAttribute res) \<and> hd (resAttribute res) = akaAttrRES"
    using attrBytes_marshal[OF marshal_res[OF res]] .
  then have all: "\<forall>x \<in> set (resAttribute res # xs). attrBytes x \<and> hd x \<noteq> akaAttrMAC" using xs(2) by auto
  have "challengeResponse env ks identifier as res =
      rbind (signedResponse env ks identifier data (responseMAC data)) (\<lambda>a. Inr (a, i))"
    unfolding challengeResponse_def marshal_res[OF res] by (simp add: Inr r marshal_mac data_def xs(1) Let_def)
  then show ?thesis
    unfolding signed_built[OF ok all data_def] using xs(2) i by (auto intro!: exI[of _ xs])
qed

subsection \<open>What the client accepts\<close>

definition env_ok :: "eap_env \<Rightarrow> bool" where
  "env_ok env \<longleftrightarrow> crypto_ok (eapCrypto env) \<and> sha1_ok (eapSHA1 env)"

text \<open>The octets of a request of the given AKA subtype, and its attributes.\<close>

definition akaRequest :: "byte list \<Rightarrow> byte \<Rightarrow> akaAttribute list \<Rightarrow> bool" where
  "akaRequest encoded subtype as \<longleftrightarrow> 8 \<le> length encoded \<and> encoded ! 0 = eapRequest \<and> encoded ! 4 = eapTypeAKA
     \<and> encoded ! 5 = subtype \<and> encoded ! 6 = 0 \<and> encoded ! 7 = 0 \<and> parseAKAAttributes (drop 8 encoded) = Inr as"

text \<open>The single MAC attribute covers the whole request, as received, with the MAC cleared.\<close>

definition macVerified :: "eap_env \<Rightarrow> akaKeys \<Rightarrow> byte list \<Rightarrow> akaAttribute list \<Rightarrow> bool" where
  "macVerified env ks encoded as \<longleftrightarrow>
    (\<exists>m front mac rest. oneAKAAttribute as akaAttrMAC = Inr m \<and> length (at_raw m) = 20
      \<and> encoded = front @ mac @ rest \<and> length front = 8 + at_offset m + 4 \<and> length mac = 16
      \<and> mac = take 16 (hmac_sha1 (eapCrypto env) (KAut ks) (front @ replicate 16 0 @ rest)))"

definition authenticChallenge :: "eap_env \<Rightarrow> byte list \<Rightarrow> byte list \<Rightarrow> akaKeys \<Rightarrow> bool \<Rightarrow> bool" where
  "authenticChallenge env identity encoded ks indicated \<longleftrightarrow>
    (\<exists>as r a result. akaRequest encoded akaSubtypeChallenge as
      \<and> oneAKAAttribute as akaAttrRAND = Inr r \<and> length (at_raw r) = 20
      \<and> oneAKAAttribute as akaAttrAUTN = Inr a \<and> length (at_raw a) = 20
      \<and> SIM env (drop 4 (at_raw r)) (drop 4 (at_raw a)) = SIMResult result \<and> \<not> SynchronizationFailure result
      \<and> deriveAKAKeys (eapSHA1 env) identity (IK result) (CK result) = Inr ks
      \<and> macVerified env ks encoded as \<and> indicated = (\<exists>x \<in> set as. at_type x = akaAttrResultInd))"

definition protectedNotice :: "eap_env \<Rightarrow> byte list \<Rightarrow> akaKeys \<Rightarrow> bool" where
  "protectedNotice env encoded ks \<longleftrightarrow>
    (\<exists>as n. akaRequest encoded akaSubtypeNotification as \<and> oneAKAAttribute as akaAttrNotification = Inr n
      \<and> drop 2 (at_raw n) = [0x80, 0] \<and> macVerified env ks encoded as)"

lemma request_placed:
  assumes "akaRequest encoded s as" and "oneAKAAttribute as k = Inr m"
  shows "placed (drop 8 encoded) m"
  using assms oneAKAAttribute_Inr parseAKAAttributes_Inr unfolding akaRequest_def by blast

lemma requestMAC_verified:
  assumes ok: "crypto_ok (eapCrypto env)" and req: "akaRequest encoded s as"
    and one: "oneAKAAttribute as akaAttrMAC = Inr m" and len: "length (at_raw m) = 20"
  shows "\<exists>b. requestMAC env ks encoded m = Inr b \<and> (b \<longrightarrow> macVerified env ks encoded as)
    \<and> 8 + at_offset m + 20 \<le> length encoded"
proof -
  have p: "placed (drop 8 encoded) m" by (rule request_placed[OF req one])
  have l: "8 + at_offset m + 20 \<le> length encoded"
    using p len req by (simp add: placed_def akaRequest_def)
  define off where "off = 8 + at_offset m + 4"
  define front where "front = take off encoded"
  define mac where "mac = drop 4 (at_raw m)"
  define rest where "rest = drop (off + 16) encoded"
  have "at_raw m = take 20 (drop (8 + at_offset m) encoded)"
    using p len by (simp add: placed_def add.commute)
  then have mac: "mac = take 16 (drop off encoded)"
    by (simp add: mac_def off_def drop_take add.commute)
  have e: "encoded = front @ mac @ rest"
    unfolding front_def mac rest_def by (metis append_take_drop_id drop_drop add.commute)
  have lens: "length front = off" "length mac = 16" using l len by (simp_all add: front_def mac_def off_def)
  have z: "zeroMAC encoded (8 + at_offset m) = Inr (front @ replicate 16 0 @ rest)"
    using l by (simp add: zeroMAC_def front_def rest_def off_def add.commute add.left_commute)
  have s: "(slice (at_raw m) 4 20 :: (eap_error, _) res) = Inr mac" using len by (simp add: slice_def mac_def)
  have run: "requestMAC env ks encoded m
      = Inr (take 16 (hmac_sha1 (eapCrypto env) (KAut ks) (front @ replicate 16 0 @ rest)) = mac)"
    by (simp add: requestMAC_def z akaMAC_ok[OF ok] s)
  show ?thesis
    using run l e lens len one unfolding macVerified_def off_def by fastforce
qed

subsection \<open>Steps of the client\<close>

lemma marshals_no_panic [simp]:
  "marshalEAPPacket p \<noteq> Inl Panic" "marshalAKAAttribute k v \<noteq> Inl Panic"
  by (simp_all add: marshalEAPPacket_def marshalAKAAttribute_def Let_def)

text \<open>A result that neither panics nor reports success.\<close>

definition plainAction :: "(eap_error, eapAction) res \<Rightarrow> bool" where
  "plainAction r \<longleftrightarrow> r \<noteq> Inl Panic \<and> (\<forall>a. r = Inr a \<longrightarrow> \<not> EAPSuccess a)"

lemma plain_responses [simp]:
  "plainAction (akaResponse identifier data)" "plainAction (akaClientErrorResponse identifier)"
  "plainAction (akaAuthenticationRejectResponse identifier)" "plainAction (err e)"
  by (auto simp: plainAction_def akaResponse_def akaClientErrorResponse_def akaAuthenticationRejectResponse_def
      rbind_Inl_iff rbind_Inr_iff)

lemma plain_notification [simp]:
  assumes "crypto_ok (eapCrypto env)"
  shows "plainAction (notificationResponse env ks identifier)"
proof -
  have d: "notificationData = [akaSubtypeNotification, 0, 0] @ concat [] @ macAttribute (replicate 16 0)"
    by (simp add: notificationData_def marshal_mac)
  have "responseMAC notificationData = Inr 8" unfolding d by (subst responseMAC_built) simp_all
  then have "notificationResponse env ks identifier
      = signedResponse env ks identifier notificationData (responseMAC notificationData)"
    by (simp add: notificationResponse_def)
  then show ?thesis using signed_built[OF assms _ d] by (simp add: plainAction_def)
qed

definition clientStep :: "eap_env \<Rightarrow> akaClient \<Rightarrow> byte list \<Rightarrow> akaClient \<Rightarrow> bool" where
  "clientStep env c encoded c' \<longleftrightarrow>
    (\<exists>st. c' = c\<lparr>lastResponseStage := st\<rparr>)
    \<or> (\<exists>ks ind. authenticChallenge env (cl_identity c) encoded ks ind
        \<and> c' = c\<lparr>cl_keys := ks, challengeComplete := True, resultIndication := ind\<rparr>)
    \<or> challengeComplete c \<and> resultIndication c \<and> protectedNotice env encoded (cl_keys c) \<and> c' = c\<lparr>protectedSuccess := True\<rparr>"

lemma clientStep_same [simp]: "clientStep env c encoded c" "clientStep env c encoded (c\<lparr>lastResponseStage := st\<rparr>)"
proof -
  have "c = c\<lparr>lastResponseStage := lastResponseStage c\<rparr>" by simp
  then show "clientStep env c encoded c" unfolding clientStep_def by blast
  show "clientStep env c encoded (c\<lparr>lastResponseStage := st\<rparr>)" unfolding clientStep_def by blast
qed

lemma clientStep_challenge:
  "authenticChallenge env (cl_identity c) encoded ks ind \<Longrightarrow>
    clientStep env c encoded (c\<lparr>cl_keys := ks, challengeComplete := True, resultIndication := ind\<rparr>)"
  unfolding clientStep_def by blast

text \<open>A result with the client: as above, and the client has made a step.\<close>

definition soundResult ::
    "eap_env \<Rightarrow> akaClient \<Rightarrow> byte list \<Rightarrow> (eap_error, eapAction \<times> akaClient) res \<Rightarrow> bool" where
  "soundResult env c encoded r \<longleftrightarrow> r \<noteq> Inl Panic
     \<and> (\<forall>a c'. r = Inr (a, c') \<longrightarrow> \<not> EAPSuccess a \<and> clientStep env c encoded c')"

lemma soundResult_err [simp]: "soundResult env c encoded (err e)"
  by (simp add: soundResult_def)

lemma soundResult_plain: "plainAction r \<Longrightarrow> soundResult env c encoded (rbind r (\<lambda>a. Inr (a, c)))"
  by (auto simp: soundResult_def plainAction_def rbind_Inl_iff rbind_Inr_iff)

lemma attributes_bytes:
  "akaRequest encoded s as \<Longrightarrow> \<forall>a \<in> set as. attrBytes (at_raw a) \<and> hd (at_raw a) = at_type a"
  using parseAKAAttributes_Inr by (fastforce simp: akaRequest_def placed_def)

lemma acceptChallenge_sound:
  assumes ok: "env_ok env" and req: "akaRequest encoded akaSubtypeChallenge as"
    and e: "marshalEAPPacket request = Inr encoded"
    and r: "oneAKAAttribute as akaAttrRAND = Inr r" "length (at_raw r) = 20"
    and a: "oneAKAAttribute as akaAttrAUTN = Inr a" "length (at_raw a) = 20"
    and m: "oneAKAAttribute as akaAttrMAC = Inr m" "length (at_raw m) = 20"
    and sim: "SIM env (drop 4 (at_raw r)) (drop 4 (at_raw a)) = SIMResult result"
  shows "soundResult env c encoded (acceptChallenge env c identifier as request m result)"
proof (cases "SynchronizationFailure result")
  case True
  have "soundResult env c encoded (rbind (marshalAKAAttribute akaAttrAUTS (resultAUTS result)) (\<lambda>a.
      rbind (akaResponse identifier ([akaSubtypeSyncFailure, 0, 0] @ a)) (\<lambda>action. Inr (action, c))))"
  proof (cases "marshalAKAAttribute akaAttrAUTS (resultAUTS result)")
    case (Inl f)
    then show ?thesis using marshals_no_panic(2)[of akaAttrAUTS "resultAUTS result"] by (cases f) auto
  qed (simp add: soundResult_plain)
  then show ?thesis using True by (simp add: acceptChallenge_def)
next
  case False
  have cr: "crypto_ok (eapCrypto env)" and sha: "sha1_ok (eapSHA1 env)" using ok by (simp_all add: env_ok_def)
  show ?thesis
  proof (cases "deriveAKAKeys (eapSHA1 env) (cl_identity c) (IK result) (CK result)")
    case (Inl f)
    then have "f \<noteq> Panic" using deriveAKAKeys_no_panic[OF sha] by blast
    then show ?thesis using False Inl by (simp add: acceptChallenge_def soundResult_def)
  next
    case (Inr ks)
    obtain b where b: "requestMAC env ks encoded m = Inr b" "b \<longrightarrow> macVerified env ks encoded as"
      and off: "8 + at_offset m + 20 \<le> length encoded"
      using requestMAC_verified[OF cr req m] by blast
    show ?thesis
    proof (cases "b \<and> length (RES result) \<le> 16")
      case True
      note resp = challengeResponse_built[OF cr conjunct2[OF True] attributes_bytes[OF req]]
      have "authenticChallenge env (cl_identity c) encoded ks (\<exists>x \<in> set as. at_type x = akaAttrResultInd)"
        unfolding authenticChallenge_def using req r a sim False Inr b True by blast
      then show ?thesis using False Inr b off True e resp
        by (auto simp: acceptChallenge_def soundResult_def rbind_Inl_iff rbind_Inr_iff intro: clientStep_challenge)
    next
      case False
      then show ?thesis using \<open>\<not> SynchronizationFailure result\<close> Inr b off e
        by (auto simp: acceptChallenge_def soundResult_def)
    qed
  qed
qed

lemma respondAKAChallenge_sound:
  assumes ok: "env_ok env" and req: "akaRequest encoded akaSubtypeChallenge as"
    and e: "marshalEAPPacket request = Inr encoded"
  shows "soundResult env c encoded (respondAKAChallenge env c ident as request)"
proof (cases "oneAKAAttribute as akaAttrRAND")
  case (Inl f)
  then show ?thesis using oneAKAAttribute_no_panic[of as akaAttrRAND]
    by (cases f) (simp_all add: respondAKAChallenge_def soundResult_def)
next
  case r: (Inr r)
  show ?thesis
  proof (cases "oneAKAAttribute as akaAttrAUTN")
    case (Inl f)
    then show ?thesis using oneAKAAttribute_no_panic[of as akaAttrAUTN] r
      by (cases f) (simp_all add: respondAKAChallenge_def soundResult_def)
  next
    case a: (Inr a)
    show ?thesis
    proof (cases "oneAKAAttribute as akaAttrMAC")
      case (Inl f)
      then show ?thesis using oneAKAAttribute_no_panic[of as akaAttrMAC] r a
        by (cases f) (simp_all add: respondAKAChallenge_def soundResult_def)
    next
      case m: (Inr m)
      show ?thesis
      proof (cases "list_all challengeAttribute as \<and> length (at_raw r) = 20 \<and> length (at_raw a) = 20 \<and> length (at_raw m) = 20")
        case True
        then have run: "respondAKAChallenge env c ident as request =
            (case SIM env (drop 4 (at_raw r)) (drop 4 (at_raw a)) of
               SIMMacFailure \<Rightarrow> rbind (akaAuthenticationRejectResponse ident) (\<lambda>action. Inr (action, c))
             | SIMFailed \<Rightarrow> err AKAProvider
             | SIMResult result \<Rightarrow> acceptChallenge env c ident as request m result)"
          by (simp add: respondAKAChallenge_def r a m slice_def)
        show ?thesis
          unfolding run using acceptChallenge_sound[OF ok req e r _ a _ m] True
          by (cases "SIM env (drop 4 (at_raw r)) (drop 4 (at_raw a))") (simp_all add: soundResult_plain)
      next
        case False
        then show ?thesis using r a m by (auto simp: respondAKAChallenge_def)
      qed
    qed
  qed
qed

lemma respondAKANotification_sound:
  assumes ok: "env_ok env" and req: "akaRequest encoded akaSubtypeNotification as"
    and e: "marshalEAPPacket request = Inr encoded"
  shows "soundResult env c encoded (respondAKANotification env c ident as request)"
proof (cases "oneAKAAttribute as akaAttrNotification")
  case (Inl f)
  then show ?thesis using oneAKAAttribute_no_panic[of as akaAttrNotification]
    by (cases f) (simp_all add: respondAKANotification_def soundResult_def)
next
  case n: (Inr n)
  have cr: "crypto_ok (eapCrypto env)" using ok by (simp add: env_ok_def)
  show ?thesis
  proof (cases "length (at_raw n) = 4")
    case True
    define code where "code = un16 (at_raw n ! 2) (at_raw n ! 3)"
    have run: "respondAKANotification env c ident as request =
        (if code \<noteq> 32768 then
          rbind (if code AND 0x4000 = 0 then authenticatedNotification env c ident as request
                 else akaResponse ident [akaSubtypeNotification, 0, 0]) (\<lambda>action. Inr (action, c))
        else successNotification env c ident as request)"
      using True by (simp add: respondAKANotification_def n get16_def code_def)
    have mac: "\<exists>b. requestMAC env (cl_keys c) encoded m = Inr b \<and> (b \<longrightarrow> macVerified env (cl_keys c) encoded as)"
      if "oneAKAAttribute as akaAttrMAC = Inr m" "length (at_raw m) = 20" for m
      using requestMAC_verified[OF cr req that] by blast
    have plain: "plainAction (authenticatedNotification env c ident as request)"
      using mac e plain_notification[OF cr, of "cl_keys c" ident]
      by (auto simp: authenticatedNotification_def split: sum.splits)
    have success: "soundResult env c encoded (successNotification env c ident as request)" if "code = 32768"
    proof (cases "oneAKAAttribute as akaAttrMAC")
      case (Inl f)
      then show ?thesis using oneAKAAttribute_no_panic[of as akaAttrMAC]
        by (cases f) (simp_all add: successNotification_def soundResult_def)
    next
      case m: (Inr m)
      have "put16 code = [at_raw n ! 2, at_raw n ! 3]" by (simp add: code_def)
      moreover have "put16 code = [0x80, 0]" unfolding that by (simp add: put16_def)
      moreover have "drop 2 (at_raw n) = [at_raw n ! 2, at_raw n ! 3]"
        using True by (simp add: list_eq_iff_nth_eq nth_Cons less_Suc_eq split: nat.splits) (auto simp: numeral_eq_Suc)
      ultimately have "macVerified env (cl_keys c) encoded as \<Longrightarrow> protectedNotice env encoded (cl_keys c)"
        using req n unfolding protectedNotice_def by auto
      then show ?thesis
        using mac[OF m] e plain_notification[OF cr, of "cl_keys c" ident]
        by (cases "length (at_raw m) = 20")
          (auto simp: successNotification_def m soundResult_def plainAction_def rbind_Inl_iff rbind_Inr_iff clientStep_def)
    qed
    show ?thesis unfolding run using success by (simp add: soundResult_plain[OF plain] soundResult_plain)
  next
    case False
    then show ?thesis by (simp add: respondAKANotification_def n)
  qed
qed

text \<open>What a call of \<open>handle\<close> does, with the client it leaves behind.\<close>

definition soundStep ::
    "eap_env \<Rightarrow> akaClient \<Rightarrow> byte list \<Rightarrow> (eap_error, eapAction) res \<times> akaClient \<Rightarrow> bool" where
  "soundStep env c encoded r \<longleftrightarrow> fst r \<noteq> Inl Panic \<and> clientStep env c encoded (snd r)
     \<and> (\<forall>a. fst r = Inr a \<longrightarrow> EAPSuccess a \<longrightarrow> challengeComplete c \<and> (resultIndication c \<longrightarrow> protectedSuccess c))"

lemma soundStep_plain: "plainAction r \<Longrightarrow> clientStep env c encoded c' \<Longrightarrow> soundStep env c encoded (r, c')"
  by (auto simp: soundStep_def plainAction_def)

lemma soundStep_withClient: "soundResult env c encoded r \<Longrightarrow> soundStep env c encoded (withClient c r)"
  by (cases r) (auto simp: soundStep_def soundResult_def)

lemma soundStep_orClientError: "soundStep env c encoded r \<Longrightarrow> soundStep env c encoded (orClientError ident passed r)"
proof (cases r)
  case (Pair a c')
  assume s: "soundStep env c encoded r"
  then show ?thesis unfolding Pair orClientError_def
    using plain_responses(2)[of ident] by (cases a; cases "projl a") (auto simp: soundStep_def plainAction_def)
qed

lemma identityRequests_no_panic: "identityRequests as \<noteq> Inl Panic"
  by (induction as) (auto simp: rbind_Inl_iff)

lemma respondAKAIdentity_sound: "soundStep env c encoded (respondAKAIdentity c ident as)"
proof -
  define r where "r = rbind (identityRequests as) (\<lambda>requests. if requests \<noteq> 1 then err IdentityRequest
            else marshalAKAAttribute akaAttrIdentity (put16 (word_of_nat (length (cl_identity c))) @ cl_identity c))"
  have "r \<noteq> Inl Panic" using identityRequests_no_panic[of as] by (auto simp: r_def rbind_Inl_iff)
  then show ?thesis
    unfolding respondAKAIdentity_def r_def[symmetric]
    by (cases r) (simp_all add: soundStep_plain, simp add: soundStep_def)
qed

lemma handleAKARequest_sound:
  assumes ok: "env_ok env" and e: "parseEAPPacket encoded = Inr packet"
    and t: "eap_code packet = eapRequest" "eap_type packet = eapTypeAKA"
  shows "soundStep env c encoded (handleAKARequest env c packet)"
proof -
  note f = parseEAPPacket_Inr[OF e]
  have m: "marshalEAPPacket packet = Inr encoded" using marshal_parse_eap[OF e] t by simp
  have d: "eap_data packet = drop 5 encoded" using f t by simp
  show ?thesis
  proof (cases "length (drop 5 encoded) < 3")
    case True
    have "\<nexists>s r1 r2 rest. drop 5 encoded = s # r1 # r2 # rest" using True by (auto dest!: arg_cong[of _ _ length])
    then show ?thesis
      unfolding handleAKARequest_def d Let_def by (auto split: list.splits intro: soundStep_plain)
  next
    case False
    then have eight: "8 \<le> length encoded" unfolding length_drop by arith
    then have "Suc (Suc (Suc 0)) \<le> length (drop 5 encoded)" unfolding length_drop by arith
    then obtain s r1 r2 rest where shape: "drop 5 encoded = s # r1 # r2 # rest"
      unfolding Suc_le_length_iff by blast
    define start where "start = take 5 encoded"
    have whole: "encoded = start @ s # r1 # r2 # rest" "length start = 5"
      using eight shape append_take_drop_id[of 5 encoded] by (simp_all add: start_def)
    have nth: "encoded ! 5 = s" "encoded ! 6 = r1" "encoded ! 7 = r2" "drop 8 encoded = rest" "8 \<le> length encoded"
      using whole(2) by (simp_all add: whole(1) nth_append)
    show ?thesis
    proof (cases "r1 = 0 \<and> r2 = 0")
      case False
      then show ?thesis by (auto simp: handleAKARequest_def d shape intro: soundStep_plain)
    next
      case True
      show ?thesis
      proof (cases "parseAKAAttributes rest")
        case (Inl g)
        then show ?thesis using parseAttributesLoop_no_panic[of rest 0 "[]"] True
          by (cases g) (simp_all add: handleAKARequest_def d shape parseAKAAttributes_def soundStep_plain)
      next
        case (Inr as)
        have req: "akaRequest encoded s as" using nth f t True Inr by (simp add: akaRequest_def)
        show ?thesis
          using True Inr req m
          by (auto simp: handleAKARequest_def Let_def d shape intro!: soundStep_orClientError soundStep_withClient
              respondAKAIdentity_sound respondAKAChallenge_sound respondAKANotification_sound ok soundStep_plain)
      qed
    qed
  qed
qed

lemma handle_sound:
  assumes "env_ok env"
  shows "soundStep env c encoded (handle env c encoded)"
proof (cases "parseEAPPacket encoded")
  case (Inl f)
  then show ?thesis using parseEAPPacket_no_panic[of encoded] by (auto simp: handle_def soundStep_def)
next
  case (Inr packet)
  show ?thesis
  proof (cases "eap_code packet = eapRequest")
    case False
    then show ?thesis using Inr by (auto simp: handle_def soundStep_def)
  next
    case True
    then show ?thesis
      using Inr handleAKARequest_sound[OF assms Inr]
      by (auto simp: handle_def soundStep_def rbind_Inl_iff rbind_Inr_iff)
  qed
qed

subsection \<open>Runs\<close>

text \<open>The client after it was given the packets one after the other.\<close>

definition clientAfter :: "eap_env \<Rightarrow> akaClient \<Rightarrow> byte list list \<Rightarrow> akaClient" where
  "clientAfter env c packets = fold (\<lambda>p c. snd (handle env c p)) packets c"

lemma clientAfter_snoc: "clientAfter env c (ps @ [p]) = snd (handle env (clientAfter env c ps) p)"
  by (simp add: clientAfter_def)

lemma clientAfter_identity: "env_ok env \<Longrightarrow> cl_identity (clientAfter env c ps) = cl_identity c"
proof (induction ps rule: rev_induct)
  case (snoc p ps)
  then show ?case using handle_sound[OF snoc.prems, of "clientAfter env c ps" p]
    by (auto simp: clientAfter_snoc soundStep_def clientStep_def)
qed (simp add: clientAfter_def)

text \<open>What the packets so far have proved to the client.\<close>

definition proved :: "eap_env \<Rightarrow> byte list \<Rightarrow> byte list list \<Rightarrow> akaClient \<Rightarrow> bool" where
  "proved env identity ps c \<longleftrightarrow>
    (challengeComplete c \<longrightarrow> (\<exists>p \<in> set ps. authenticChallenge env identity p (cl_keys c) (resultIndication c)))
    \<and> (protectedSuccess c \<longrightarrow> (\<exists>p \<in> set ps. \<exists>q \<in> set ps. \<exists>ks. authenticChallenge env identity p ks True \<and> protectedNotice env q ks))"

lemma proved_step:
  assumes "proved env (cl_identity c) ps c" and "clientStep env c p c'"
  shows "proved env (cl_identity c) (ps @ [p]) c'"
  using assms by (fastforce simp: proved_def clientStep_def)

lemma clientAfter_proved:
  assumes "env_ok env" and "\<not> challengeComplete c" "\<not> protectedSuccess c"
  shows "proved env (cl_identity c) ps (clientAfter env c ps)"
proof (induction ps rule: rev_induct)
  case Nil
  then show ?case using assms by (simp add: proved_def clientAfter_def)
next
  case (snoc p ps)
  then show ?case
    using handle_sound[OF assms(1), of "clientAfter env c ps" p] proved_step[of env "clientAfter env c ps" ps p]
    by (simp add: clientAfter_identity[OF assms(1)] clientAfter_snoc soundStep_def)
qed

text \<open>
  C31: Whatever the responder sends, in whatever order, the client of a SIM reports success only after a
  challenge whose MAC over the request, as received, verified under the keys that this SIM's answer to
  its RAND and AUTN gives; the keys it then exports are those of such a challenge. If that challenge
  announced protected results, a success notification with a MAC under the keys of such a challenge came
  before. An unprotected EAP success, a forged challenge or a forged notification do not suffice.
\<close>

theorem eap_success_authenticated:
  assumes ok: "env_ok env" and new: "newAKAClient hasProvider identity profile = Inr c0"
    and success: "handle env (clientAfter env c0 ps) p = (Inr a, c)" "EAPSuccess a"
  shows "\<exists>ind. (\<exists>q \<in> set ps. authenticChallenge env (cl_identity c0) q (cl_keys (clientAfter env c0 ps)) ind)
    \<and> (ind \<longrightarrow> (\<exists>q \<in> set ps. \<exists>n \<in> set ps. \<exists>ks. authenticChallenge env (cl_identity c0) q ks True \<and> protectedNotice env n ks))"
proof -
  have "\<not> challengeComplete c0" "\<not> protectedSuccess c0"
    using new by (auto simp: newAKAClient_def rbind_Inr_iff split: if_split_asm)
  then have "proved env (cl_identity c0) ps (clientAfter env c0 ps)" by (rule clientAfter_proved[OF ok])
  moreover have "challengeComplete (clientAfter env c0 ps)"
    "resultIndication (clientAfter env c0 ps) \<longrightarrow> protectedSuccess (clientAfter env c0 ps)"
    using handle_sound[OF ok, of "clientAfter env c0 ps" p] success by (simp_all add: soundStep_def)
  ultimately show ?thesis unfolding proved_def by blast
qed

text \<open>
  C32: In no state does a packet make the client panic.
\<close>

theorem eap_no_panic:
  assumes "env_ok env"
  shows "fst (handle env c packet) \<noteq> Inl Panic"
  using handle_sound[OF assms, of c packet] by (simp add: soundStep_def)

subsection \<open>A run\<close>

text \<open>A MAC that is constant, and a SIM that answers every challenge.\<close>

definition sampleCrypto :: crypto where
  "sampleCrypto = \<lparr>aes_encrypt = (\<lambda>_ b. b), aes_decrypt = (\<lambda>_ b. b), hmac_sha1 = (\<lambda>_ _. replicate 20 9),
     hmac_sha256 = (\<lambda>_ _. replicate 32 9)\<rparr>"

definition sampleEnv :: eap_env where
  "sampleEnv = \<lparr>eapCrypto = sampleCrypto, eapSHA1 = (\<lambda>_. replicate 20 1),
     SIM = (\<lambda>_ _. SIMResult \<lparr>RES = [1, 2, 3, 4], CK = replicate 16 5, IK = replicate 16 6, resultAUTS = [],
       SynchronizationFailure = False\<rparr>)\<rparr>"

lemma sampleEnv_ok: "env_ok sampleEnv"
  by (simp add: env_ok_def sampleEnv_def sampleCrypto_def crypto_ok_def sha1_ok_def)

definition sampleClient :: akaClient where
  "sampleClient = \<lparr>cl_identity = bytesOf (runes ''0001010123456789@nai.epc.mnc001.mcc001.3gppnetwork.org''),
     cl_keys = \<lparr>KEncr = [], KAut = [], MSK = [], EMSK = []\<rparr>, lastResponseStage = InitialIdentity,
     challengeComplete = False, resultIndication = False, protectedSuccess = False\<rparr>"

definition sampleIdentity :: simIdentity where
  "sampleIdentity = \<lparr>IMSI = runes '' 001010123456789'', HomeMCC = runes ''001'', HomeMNC = runes ''01''\<rparr>"

definition sampleProfile :: carrierProfile where
  "sampleProfile = \<lparr>RouteMCC = [], RouteMNC = [], FromPrefix = [], ToPrefix = []\<rparr>"

lemma sampleClient_new: "newAKAClient True sampleIdentity sampleProfile = Inr sampleClient"
  by (simp add: newAKAClient_def permanentAKAIdentity_def sampleIdentity_def sampleProfile_def sampleClient_def
      EffectiveSubscriberIMSI_def TrimSpace_def isSpace_def decimal_def runeBytes_ascii HasPrefix_def)

definition sampleAttributes :: "byte list list" where
  "sampleAttributes = [[akaAttrRAND, 5, 0, 0] @ replicate 16 1, [akaAttrAUTN, 5, 0, 0] @ replicate 16 2, macAttribute (replicate 16 9)]"

definition sampleChallengePacket :: "byte list" where
  "sampleChallengePacket = [eapRequest, 7, 0, 68, eapTypeAKA, akaSubtypeChallenge, 0, 0] @ concat sampleAttributes"

lemma sampleChallenge_parsed:
  "parseEAPPacket sampleChallengePacket = Inr \<lparr>eap_code = eapRequest, eap_identifier = 7, eap_type = eapTypeAKA,
     eap_data = [akaSubtypeChallenge, 0, 0] @ concat sampleAttributes\<rparr>"
  by (simp add: parseEAPPacket_def sampleChallengePacket_def sampleAttributes_def get16_def un16_def idx_def slice_def)

lemma sampleAttributes_parsed: "parseAKAAttributes (concat sampleAttributes) = Inr (attrsAt 0 sampleAttributes)"
proof -
  have "\<forall>x \<in> set sampleAttributes. attrBytes x" "length sampleAttributes = 3"
    by (simp_all add: sampleAttributes_def) (simp_all add: attrBytes_def)
  then show ?thesis using parse_concat[of sampleAttributes "[]" "[]"] by (simp add: parseAKAAttributes_def)
qed

lemma sampleChallenge_accepted:
  "\<exists>a ks. handle sampleEnv sampleClient sampleChallengePacket
     = (Inr a, sampleClient\<lparr>cl_keys := ks, challengeComplete := True, resultIndication := False\<rparr>)"
proof -
  let ?as = "attrsAt 0 sampleAttributes"
  let ?p = "\<lparr>eap_code = eapRequest, eap_identifier = 7, eap_type = eapTypeAKA,
     eap_data = [akaSubtypeChallenge, 0, 0] @ concat sampleAttributes\<rparr>"
  have "cl_identity sampleClient \<noteq> []" by (simp add: sampleClient_def runeBytes_ascii)
  then obtain ks where ks: "deriveAKAKeys (eapSHA1 sampleEnv) (cl_identity sampleClient) (replicate 16 6) (replicate 16 5) = Inr ks"
    using deriveAKAKeys_ok[of "eapSHA1 sampleEnv" "cl_identity sampleClient" "replicate 16 6" "replicate 16 5"] sampleEnv_ok
    by (auto simp: env_ok_def)
  have m: "marshalEAPPacket ?p = Inr sampleChallengePacket"
    using marshal_parse_eap[OF sampleChallenge_parsed] by simp
  define mac where "mac = \<lparr>at_type = akaAttrMAC, at_raw = macAttribute (replicate 16 9), at_offset = 40\<rparr>"
  have ones: "oneAKAAttribute ?as akaAttrRAND = Inr \<lparr>at_type = akaAttrRAND, at_raw = [akaAttrRAND, 5, 0, 0] @ replicate 16 1, at_offset = 0\<rparr>"
    "oneAKAAttribute ?as akaAttrAUTN = Inr \<lparr>at_type = akaAttrAUTN, at_raw = [akaAttrAUTN, 5, 0, 0] @ replicate 16 2, at_offset = 20\<rparr>"
    "oneAKAAttribute ?as akaAttrMAC = Inr mac"
    by (simp_all add: oneAKAAttribute_def sampleAttributes_def mac_def)
  have known: "list_all challengeAttribute ?as" "resultIndications ?as = Inr ([], False)"
    by (simp_all add: sampleAttributes_def challengeAttribute_def)
  have cr: "crypto_ok (eapCrypto sampleEnv)" using sampleEnv_ok by (simp add: env_ok_def)
  have verified: "requestMAC sampleEnv ks sampleChallengePacket mac = Inr True"
    by (simp add: requestMAC_def zeroMAC_def akaMAC_ok[OF cr] slice_def mac_def macAttribute_def
        sampleChallengePacket_def sampleAttributes_def) (simp add: sampleEnv_def sampleCrypto_def)
  define data where "data = [akaSubtypeChallenge, 0, 0] @ concat [resAttribute [1, 2, 3, 4]] @ macAttribute (replicate 16 0)"
  have "attrBytes (resAttribute [1, 2, 3, 4]) \<and> hd (resAttribute [1, 2, 3, 4]) = akaAttrRES"
    using attrBytes_marshal[OF marshal_res[of "[1, 2, 3, 4]"]] by simp
  then have "\<exists>a. signedResponse sampleEnv ks 7 data (responseMAC data) = Inr a"
    by (subst signed_built[OF cr _ data_def]) (simp_all add: resAttribute_def)
  then obtain a where "signedResponse sampleEnv ks 7 data (responseMAC data) = Inr a" ..
  then have "challengeResponse sampleEnv ks 7 ?as [1, 2, 3, 4] = Inr (a, False)"
    unfolding challengeResponse_def using marshal_res[of "[1, 2, 3, 4]"]
    by (simp add: known Let_def marshal_mac data_def)
  then have "acceptChallenge sampleEnv sampleClient 7 ?as ?p mac
      \<lparr>RES = [1, 2, 3, 4], CK = replicate 16 5, IK = replicate 16 6, resultAUTS = [], SynchronizationFailure = False\<rparr>
      = Inr (a, sampleClient\<lparr>cl_keys := ks, challengeComplete := True, resultIndication := False\<rparr>)"
    by (simp add: acceptChallenge_def ks m[simplified] verified)
      (simp add: mac_def sampleChallengePacket_def sampleAttributes_def)
  then have "respondAKAChallenge sampleEnv sampleClient 7 ?as ?p
      = Inr (a, sampleClient\<lparr>cl_keys := ks, challengeComplete := True, resultIndication := False\<rparr>)"
    by (simp add: respondAKAChallenge_def known ones slice_def) (simp add: mac_def sampleEnv_def)
  then show ?thesis
    by (auto simp: handle_def sampleChallenge_parsed handleAKARequest_def sampleAttributes_parsed orClientError_def)
qed

theorem eap_success_authenticated_witness:
  "\<exists>a c. handle sampleEnv (clientAfter sampleEnv sampleClient [sampleChallengePacket]) [eapSuccess, 8, 0, 4] = (Inr a, c)
     \<and> EAPSuccess a \<and> (\<exists>ind. authenticChallenge sampleEnv (cl_identity sampleClient) sampleChallengePacket
         (cl_keys (clientAfter sampleEnv sampleClient [sampleChallengePacket])) ind)"
proof -
  obtain a ks where "handle sampleEnv sampleClient sampleChallengePacket
     = (Inr a, sampleClient\<lparr>cl_keys := ks, challengeComplete := True, resultIndication := False\<rparr>)"
    using sampleChallenge_accepted by blast
  then have c: "clientAfter sampleEnv sampleClient [sampleChallengePacket]
      = sampleClient\<lparr>cl_keys := ks, challengeComplete := True, resultIndication := False\<rparr>" by (simp add: clientAfter_def)
  have run: "handle sampleEnv (clientAfter sampleEnv sampleClient [sampleChallengePacket]) [eapSuccess, 8, 0, 4]
      = (Inr \<lparr>EAPResponse = [], EAPSuccess = True\<rparr>, clientAfter sampleEnv sampleClient [sampleChallengePacket])"
    unfolding c by (simp add: handle_def parseEAPPacket_def get16_def un16_def idx_def)
  from eap_success_authenticated[OF sampleEnv_ok sampleClient_new run] run show ?thesis by auto
qed

theorem eap_no_panic_witness: "fst (handle sampleEnv sampleClient [1, 2, 0, 5, 23]) \<noteq> Inl Panic"
  by (rule eap_no_panic[OF sampleEnv_ok])

theorem fips_stream_witness:
  "fips1862PRF (replicate 20 0) 20 = Inr (take 20 (fipsStream (setBytes (replicate 20 0)) ((20 + 19) div 20)))"
  by (rule fips_stream) simp

end
