(* ===== verification/Router.thy ===== *)
theory Router
  imports Prelude "HOL-Library.List_Lexorder" "HOL-Library.Char_ord"
begin

text \<open>
  The call scheduler of \<open>backend/internal/telephony/router.go\<close>: policies, registrations,
  calls with their client legs, and the two reservation tables (module and account). Go maps are
  association lists; \<open>for k := range m\<close> runs over the keys in list order, and the transition
  system of \<open>Router_Inv\<close> may reorder every list between two operations. \<open>time.Time\<close> is
  nanoseconds as an \<open>int\<close>, the zero time is 0, and the clock is the field \<open>rt_now\<close>, read once
  per operation. The mutex makes every exported method one atomic operation. A pointer to an
  active call is the call's identifier in \<open>rt_calls\<close>; internal methods that only change the
  call (\<open>closeLeg\<close>, \<open>end\<close>, \<open>withdraw\<close>) are functions on the call itself.
\<close>

declare map_of_eq_Some_iff [simp del] Some_eq_map_of_iff [simp del]

subsection \<open>Data\<close>

datatype router_error =
  ErrInvalid | ErrUnauthorized | ErrBusy | ErrModuleBusy | ErrUnavailable | ErrState

datatype status = Offline | Online | Busy

datatype kind =
  Ring | DialModule | AnswerModule | StopMedia | TerminateClient | HangupModule | RevokeRegistration

record action =
  act_kind :: kind
  act_call :: nat
  act_registration :: nat
  act_module :: string
  act_reason :: string

record policy =
  pol_account :: string
  pol_revision :: nat
  pol_all :: bool
  pol_modules :: "string list"
  pol_receive :: bool

record registration =
  reg_id :: nat
  reg_account :: string
  reg_expires :: int

datatype phase = Dialing | Ringing | Connecting | Connected | Ending

record leg =
  leg_registration :: registration
  leg_closing :: bool

record acall =
  call_id :: nat
  call_module :: string
  call_phase :: phase
  call_winner :: nat
  call_deadline :: int
  call_legs :: "(nat \<times> leg) list"
  call_moduleClosed :: bool
  call_ownerAccount :: string

record router =
  rt_now :: int
  rt_next :: nat
  rt_policies :: "(string \<times> policy) list"
  rt_revisions :: "(string \<times> nat) list"
  rt_registrations :: "(nat \<times> registration) list"
  rt_ready :: "(string \<times> bool) list"
  rt_calls :: "(nat \<times> acall) list"
  rt_moduleUse :: "(string \<times> nat) list"
  rt_accountUse :: "(string \<times> nat) list"
  rt_lastDial :: "(string \<times> string) list"

text \<open>\<open>type Call struct\<close>, the view handed to callers, and its zero value.\<close>

record call_view =
  cv_id :: nat
  cv_module :: string
  cv_phase :: "phase option"
  cv_winner :: nat
  cv_deadline :: int

definition zero_call :: call_view where
  "zero_call = \<lparr>cv_id = 0, cv_module = [], cv_phase = None, cv_winner = 0, cv_deadline = 0\<rparr>"

definition view :: "acall \<Rightarrow> call_view" where
  "view c = \<lparr>cv_id = call_id c, cv_module = call_module c, cv_phase = Some (call_phase c),
     cv_winner = call_winner c, cv_deadline = call_deadline c\<rparr>"

definition mkAction :: "kind \<Rightarrow> nat \<Rightarrow> nat \<Rightarrow> string \<Rightarrow> string \<Rightarrow> action" where
  "mkAction k c reg m reason =
     \<lparr>act_kind = k, act_call = c, act_registration = reg, act_module = m, act_reason = reason\<rparr>"

definition seconds :: "int \<Rightarrow> int" where
  "seconds n = n * 1000000000"

text \<open>Indexing a Go map yields the zero value for a missing key.\<close>

definition get0 :: "('k \<times> nat) list \<Rightarrow> 'k \<Rightarrow> nat" where
  "get0 al k = (case map_of al k of None \<Rightarrow> 0 | Some v \<Rightarrow> v)"

definition newRouter :: "int \<Rightarrow> router" where
  "newRouter t = \<lparr>rt_now = t, rt_next = 0, rt_policies = [], rt_revisions = [],
     rt_registrations = [], rt_ready = [], rt_calls = [], rt_moduleUse = [], rt_accountUse = [],
     rt_lastDial = []\<rparr>"

definition allows :: "policy \<Rightarrow> string \<Rightarrow> bool" where
  "allows p m \<longleftrightarrow> pol_all p \<or> m \<in> set (pol_modules p)"

text \<open>\<open>r.policies[account].allows(module)\<close>: the zero policy allows nothing.\<close>

definition allowed :: "router \<Rightarrow> string \<Rightarrow> string \<Rightarrow> bool" where
  "allowed r a m = (case map_of (rt_policies r) a of None \<Rightarrow> False | Some p \<Rightarrow> allows p m)"

definition receives :: "router \<Rightarrow> string \<Rightarrow> bool" where
  "receives r a = (case map_of (rt_policies r) a of None \<Rightarrow> False | Some p \<Rightarrow> pol_receive p)"

definition valid :: "router \<Rightarrow> registration \<Rightarrow> bool" where
  "valid r reg = (case map_of (rt_registrations r) (reg_id reg) of
     None \<Rightarrow> False
   | Some cur \<Rightarrow> reg_account cur = reg_account reg \<and> reg_expires cur > rt_now r)"

text \<open>\<open>r.calls[r.accountUse[account]]\<close> and \<open>r.calls[r.moduleUse[module]]\<close>.\<close>

definition callOfAccount :: "router \<Rightarrow> string \<Rightarrow> acall option" where
  "callOfAccount r a = map_of (rt_calls r) (get0 (rt_accountUse r) a)"

definition callOfModule :: "router \<Rightarrow> string \<Rightarrow> acall option" where
  "callOfModule r m = map_of (rt_calls r) (get0 (rt_moduleUse r) m)"

definition putCall :: "router \<Rightarrow> acall \<Rightarrow> router" where
  "putCall r c = r\<lparr>rt_calls := AList.update (call_id c) c (rt_calls r)\<rparr>"

subsection \<open>Closing legs, ending and withdrawing from a call\<close>

definition closeLeg :: "string \<Rightarrow> nat \<Rightarrow> acall \<Rightarrow> acall \<times> action list" where
  "closeLeg reason rid c =
     (case map_of (call_legs c) rid of
        None \<Rightarrow> (c, [])
      | Some l \<Rightarrow>
          if leg_closing l then (c, [])
          else (c\<lparr>call_legs := AList.update rid (l\<lparr>leg_closing := True\<rparr>) (call_legs c)\<rparr>,
                [mkAction TerminateClient (call_id c) rid (call_module c) reason]))"

definition endCall :: "string \<Rightarrow> acall \<Rightarrow> acall \<times> action list" where
  "endCall reason c =
     (if call_phase c = Ending then (c, [])
      else
        (let c1 = c\<lparr>call_phase := Ending, call_deadline := 0\<rparr>;
             (c2, closes) = each (closeLeg reason) (keys (call_legs c1)) c1
         in (c2, mkAction StopMedia (call_id c) 0 (call_module c) reason # closes @
                 (if call_moduleClosed c then []
                  else [mkAction HangupModule (call_id c) 0 (call_module c) reason]))))"

definition withdraw :: "string \<Rightarrow> nat \<Rightarrow> acall \<Rightarrow> acall \<times> action list" where
  "withdraw reason rid c =
     (if map_of (call_legs c) rid = None then (c, [])
      else if call_winner c = rid then endCall reason c
      else
        (let (c1, as) = closeLeg reason rid c
         in if call_phase c1 = Ringing
            then (if \<exists>(k, l) \<in> set (call_legs c1). \<not> leg_closing l then (c1, as)
                  else (let (c2, bs) = endCall reason c1 in (c2, as @ bs)))
            else (c1, as)))"

subsection \<open>Revocation\<close>

definition keepsDialog :: "acall \<Rightarrow> nat \<Rightarrow> string \<Rightarrow> bool" where
  "keepsDialog c rid reason \<longleftrightarrow> call_phase c = Connected \<and> call_winner c = rid \<and>
     (reason = ''logout'' \<or> reason = ''registration-expired'')"

definition revokeRegistration :: "string \<Rightarrow> nat \<Rightarrow> router \<Rightarrow> router \<times> action list" where
  "revokeRegistration reason rid r =
     (case map_of (rt_registrations r) rid of
        None \<Rightarrow> (r, [])
      | Some reg \<Rightarrow>
          (let r1 = r\<lparr>rt_registrations := AList.delete rid (rt_registrations r)\<rparr>;
               (r2, as) =
                 (case callOfAccount r1 (reg_account reg) of
                    None \<Rightarrow> (r1, [])
                  | Some c \<Rightarrow>
                      if keepsDialog c rid reason then (r1, [])
                      else (let (c', as) = withdraw reason rid c in (putCall r1 c', as)))
           in (r2, as @ [mkAction RevokeRegistration 0 rid [] reason])))"

text \<open>The loop over \<open>c.legs\<close> that withdraws the legs a condition selects.\<close>

definition withdrawLegs :: "(acall \<Rightarrow> leg \<Rightarrow> bool) \<Rightarrow> string \<Rightarrow> acall \<Rightarrow> acall \<times> action list" where
  "withdrawLegs sel reason c =
     each (\<lambda>rid c. case map_of (call_legs c) rid of
                     None \<Rightarrow> (c, [])
                   | Some l \<Rightarrow> if sel c l then withdraw reason rid c else (c, []))
          (keys (call_legs c)) c"

definition revoke :: "string \<Rightarrow> string \<Rightarrow> router \<Rightarrow> router \<times> action list" where
  "revoke account reason r =
     (let (r1, as) =
            (case callOfAccount r account of
               None \<Rightarrow> (r, [])
             | Some c \<Rightarrow>
                 (let (c', as) = withdrawLegs (\<lambda>_ l. reg_account (leg_registration l) = account) reason c
                  in (putCall r c', as)));
          (r2, bs) =
            each (\<lambda>rid r. case map_of (rt_registrations r) rid of
                            None \<Rightarrow> (r, [])
                          | Some reg \<Rightarrow>
                              if reg_account reg = account then revokeRegistration reason rid r else (r, []))
                 (keys (rt_registrations r1)) r1
      in (r2, as @ bs))"

subsection \<open>Exported operations\<close>

definition PutPolicy :: "policy \<Rightarrow> router \<Rightarrow> router \<times> action list \<times> router_error option" where
  "PutPolicy p r =
     (if pol_account p = [] \<or> pol_revision p = 0 \<or> (\<not> pol_all p \<and> pol_modules p = []) \<or>
         [] \<in> set (pol_modules p)
      then (r, [], Some ErrInvalid)
      else
        (let a = pol_account p; old = map_of (rt_policies r) a; rev = get0 (rt_revisions r) a
         in if pol_revision p < rev \<or> (old = None \<and> pol_revision p = rev)
            then (r, [], Some ErrUnauthorized)
            else
              (let p' = (if pol_all p then p\<lparr>pol_modules := []\<rparr> else p);
                   r1 = r\<lparr>rt_policies := AList.update a p' (rt_policies r),
                          rt_revisions := AList.update a (pol_revision p) (rt_revisions r)\<rparr>;
                   (r2, as) =
                     (case old of
                        None \<Rightarrow> (r1, [])
                      | Some q \<Rightarrow>
                          if pol_revision q \<noteq> pol_revision p then revoke a ''credentials-changed'' r1
                          else (r1, []));
                   (r3, bs) =
                     (case callOfAccount r2 a of
                        None \<Rightarrow> (r2, [])
                      | Some c \<Rightarrow>
                          (let (c', bs) = withdrawLegs
                                 (\<lambda>c l. reg_account (leg_registration l) = a \<and>
                                    (\<not> allows p' (call_module c) \<or>
                                     call_phase c = Ringing \<and> \<not> pol_receive p'))
                                 ''permission-changed'' c
                           in (putCall r2 c', bs)))
               in (r3, as @ bs, None))))"

definition DeleteAccount :: "string \<Rightarrow> router \<Rightarrow> router \<times> action list" where
  "DeleteAccount a r =
     revoke a ''account-deleted''
       (r\<lparr>rt_policies := AList.delete a (rt_policies r),
          rt_lastDial := AList.delete a (rt_lastDial r)\<rparr>)"

definition SuspendAccount :: "string \<Rightarrow> router \<Rightarrow> router \<times> action list" where
  "SuspendAccount a r = revoke a ''account-unavailable'' r"

definition Register :: "string \<Rightarrow> nat \<Rightarrow> int \<Rightarrow> router \<Rightarrow> router \<times> (router_error + registration)" where
  "Register a revision ttl r =
     (case map_of (rt_policies r) a of
        None \<Rightarrow> (r, Inl ErrUnauthorized)
      | Some p \<Rightarrow>
          if pol_revision p \<noteq> revision then (r, Inl ErrUnauthorized)
          else if ttl \<le> 0 \<or> ttl > seconds 3600 then (r, Inl ErrInvalid)
          else
            (let i = rt_next r + 1;
                 reg = \<lparr>reg_id = i, reg_account = a, reg_expires = rt_now r + ttl\<rparr>
             in (r\<lparr>rt_next := i, rt_registrations := AList.update i reg (rt_registrations r)\<rparr>, Inr reg)))"

definition Refresh :: "registration \<Rightarrow> int \<Rightarrow> router \<Rightarrow> router \<times> (router_error + registration)" where
  "Refresh reg ttl r =
     (if \<not> valid r reg then (r, Inl ErrUnauthorized)
      else if ttl \<le> 0 \<or> ttl > seconds 3600 then (r, Inl ErrInvalid)
      else
        (case map_of (rt_registrations r) (reg_id reg) of
           None \<Rightarrow> (r, Inl ErrUnauthorized)
         | Some cur \<Rightarrow>
             (let reg' = cur\<lparr>reg_expires := rt_now r + ttl\<rparr>
              in (r\<lparr>rt_registrations := AList.update (reg_id reg') reg' (rt_registrations r)\<rparr>, Inr reg'))))"

definition Logout :: "registration \<Rightarrow> router \<Rightarrow> router \<times> action list \<times> router_error option" where
  "Logout reg r =
     (case map_of (rt_registrations r) (reg_id reg) of
        None \<Rightarrow> (r, [], Some ErrUnauthorized)
      | Some cur \<Rightarrow>
          if reg_id reg = 0 \<or> reg_id cur \<noteq> reg_id reg \<or> reg_account cur \<noteq> reg_account reg
          then (r, [], Some ErrUnauthorized)
          else
            (let reason = (if \<not> reg_expires cur > rt_now r then ''registration-expired'' else ''logout'');
                 (r', as) = revokeRegistration reason (reg_id reg) r
             in (r', as, None)))"

definition SetModuleReady :: "string \<Rightarrow> bool \<Rightarrow> router \<Rightarrow> router \<times> action list" where
  "SetModuleReady m rdy r =
     (if m = [] then (r, [])
      else
        (let r1 = r\<lparr>rt_ready := AList.update m rdy (rt_ready r)\<rparr>
         in if \<not> rdy
            then (case callOfModule r1 m of
                    None \<Rightarrow> (r1, [])
                  | Some c \<Rightarrow> (let (c', as) = endCall ''module-unavailable'' c in (putCall r1 c', as)))
            else (r1, [])))"

definition newCall :: "string \<Rightarrow> phase \<Rightarrow> int \<Rightarrow> router \<Rightarrow> router \<times> acall" where
  "newCall m ph timeout r =
     (let i = rt_next r + 1;
          c = \<lparr>call_id = i, call_module = m, call_phase = ph, call_winner = 0,
               call_deadline = rt_now r + timeout, call_legs = [], call_moduleClosed = False,
               call_ownerAccount = []\<rparr>
      in (r\<lparr>rt_next := i, rt_calls := AList.update i c (rt_calls r),
            rt_moduleUse := AList.update m i (rt_moduleUse r)\<rparr>, c))"

definition addLeg :: "registration \<Rightarrow> router \<times> acall \<Rightarrow> router \<times> acall" where
  "addLeg reg rc =
     (let (r, c) = rc;
          c' = c\<lparr>call_legs := AList.update (reg_id reg)
                   \<lparr>leg_registration = reg, leg_closing = False\<rparr> (call_legs c)\<rparr>
      in (putCall (r\<lparr>rt_accountUse := AList.update (reg_account reg) (call_id c) (rt_accountUse r)\<rparr>) c', c'))"

text \<open>\<open>rand.IntN(n)\<close> returns any number below \<open>n\<close>: the random source \<open>seed\<close> reduced modulo \<open>n\<close>.\<close>

definition eligibleModules :: "string \<Rightarrow> router \<Rightarrow> string list" where
  "eligibleModules a r =
     map fst (filter (\<lambda>(m, rdy). rdy \<and> get0 (rt_moduleUse r) m = 0 \<and> allowed r a m) (rt_ready r))"

definition dialChoices :: "string \<Rightarrow> router \<Rightarrow> string list" where
  "dialChoices a r =
     (let eligible = eligibleModules a r;
          last = (case map_of (rt_lastDial r) a of None \<Rightarrow> [] | Some m \<Rightarrow> m)
      in sort (if 1 < length eligible then filter (\<lambda>m. m \<noteq> last) eligible else eligible))"

definition Dial :: "registration \<Rightarrow> nat \<Rightarrow> router \<Rightarrow> router \<times> call_view \<times> action list \<times> router_error option" where
  "Dial reg seed r =
     (if \<not> valid r reg then (r, zero_call, [], Some ErrUnauthorized)
      else if get0 (rt_accountUse r) (reg_account reg) \<noteq> 0 then (r, zero_call, [], Some ErrBusy)
      else if eligibleModules (reg_account reg) r = []
      then (r, zero_call, [],
            Some (if \<exists>(m, rdy) \<in> set (rt_ready r). get0 (rt_moduleUse r) m \<noteq> 0 \<and> allowed r (reg_account reg) m
                  then ErrModuleBusy else ErrUnavailable))
      else
        (let choices = dialChoices (reg_account reg) r;
             (r1, c) = newCall (choices ! (seed mod length choices)) Dialing (seconds 60) r;
             r2 = r1\<lparr>rt_lastDial := AList.update (reg_account reg) (call_module c) (rt_lastDial r1)\<rparr>;
             c1 = c\<lparr>call_winner := reg_id reg, call_ownerAccount := reg_account reg\<rparr>;
             (r3, c2) = addLeg reg (r2, c1)
         in (r3, view c2, [mkAction DialModule (call_id c2) (reg_id reg) (call_module c2) []], None)))"

definition incomingTargets :: "string \<Rightarrow> router \<Rightarrow> registration list" where
  "incomingTargets m r =
     sort_key reg_id
       (filter (\<lambda>reg. valid r reg \<and> receives r (reg_account reg) \<and> allowed r (reg_account reg) m \<and>
                      get0 (rt_accountUse r) (reg_account reg) = 0)
               (map snd (rt_registrations r)))"

definition Incoming :: "string \<Rightarrow> router \<Rightarrow> router \<times> call_view \<times> action list \<times> router_error option" where
  "Incoming m r =
     (if map_of (rt_ready r) m \<noteq> Some True then (r, zero_call, [], Some ErrUnavailable)
      else if get0 (rt_moduleUse r) m \<noteq> 0 then (r, zero_call, [], Some ErrBusy)
      else
        (let targets = incomingTargets m r
         in if targets = [] then (r, zero_call, [], Some ErrUnavailable)
            else
              (let (r1, c) = newCall m Ringing (seconds 30) r;
                   ((r2, c2), as) =
                     each (\<lambda>reg rc. (addLeg reg rc, [mkAction Ring (call_id c) (reg_id reg) m []]))
                          targets (r1, c)
               in (r2, view c2, as, None))))"

definition Answer :: "registration \<Rightarrow> nat \<Rightarrow> router \<Rightarrow> router \<times> call_view \<times> action list \<times> router_error option" where
  "Answer reg i r =
     (if \<not> valid r reg then (r, zero_call, [], Some ErrUnauthorized)
      else
        (case map_of (rt_calls r) i of
           None \<Rightarrow> (r, zero_call, [], Some ErrState)
         | Some c \<Rightarrow>
             (case map_of (call_legs c) (reg_id reg) of
                None \<Rightarrow> (r, zero_call, [], Some ErrUnauthorized)
              | Some l \<Rightarrow>
                  if call_phase c \<noteq> Ringing \<or> leg_closing l then (r, view c, [], Some ErrState)
                  else if \<not> call_deadline c > rt_now r
                  then (let (c', as) = endCall ''timeout'' c in (putCall r c', view c', as, Some ErrState))
                  else
                    (let c1 = c\<lparr>call_phase := Connecting, call_winner := reg_id reg,
                               call_deadline := rt_now r + seconds 30,
                               call_ownerAccount := reg_account reg\<rparr>;
                         (c2, as) =
                           each (\<lambda>other c. if other \<noteq> reg_id reg
                                            then closeLeg ''answered-elsewhere'' other c else (c, []))
                                (keys (call_legs c1)) c1
                     in (putCall r c2, view c2,
                         as @ [mkAction AnswerModule (call_id c) (reg_id reg) (call_module c) []], None)))))"

definition markConnected :: "nat \<Rightarrow> router \<Rightarrow> router \<times> router_error option" where
  "markConnected i r =
     (case map_of (rt_calls r) i of
        None \<Rightarrow> (r, Some ErrState)
      | Some c \<Rightarrow>
          if (call_phase c \<noteq> Dialing \<and> call_phase c \<noteq> Connecting) \<or> \<not> call_deadline c > rt_now r
          then (r, Some ErrState)
          else
            (case map_of (call_legs c) (call_winner c) of
               None \<Rightarrow> (r, Some ErrUnauthorized)
             | Some l \<Rightarrow>
                 if \<not> valid r (leg_registration l) then (r, Some ErrUnauthorized)
                 else (putCall r (c\<lparr>call_phase := Connected, call_deadline := 0\<rparr>), None)))"

definition Hangup :: "registration \<Rightarrow> nat \<Rightarrow> router \<Rightarrow> router \<times> action list \<times> router_error option" where
  "Hangup reg i r =
     (if \<not> valid r reg then (r, [], Some ErrUnauthorized)
      else
        (case map_of (rt_calls r) i of
           None \<Rightarrow> (r, [], Some ErrState)
         | Some c \<Rightarrow>
             if map_of (call_legs c) (reg_id reg) = None then (r, [], Some ErrUnauthorized)
             else (let (c', as) = withdraw ''hangup'' (reg_id reg) c in (putCall r c', as, None))))"

definition finish :: "acall \<Rightarrow> router \<Rightarrow> router" where
  "finish c r =
     (if \<not> call_moduleClosed c \<or> call_legs c \<noteq> [] then r
      else
        (let r1 = r\<lparr>rt_calls := AList.delete (call_id c) (rt_calls r)\<rparr>;
             r2 = (if get0 (rt_moduleUse r1) (call_module c) = call_id c
                   then r1\<lparr>rt_moduleUse := AList.delete (call_module c) (rt_moduleUse r1)\<rparr> else r1)
         in if call_ownerAccount c \<noteq> [] \<and> get0 (rt_accountUse r2) (call_ownerAccount c) = call_id c
            then r2\<lparr>rt_accountUse := AList.delete (call_ownerAccount c) (rt_accountUse r2)\<rparr> else r2))"

definition ModuleClosed :: "nat \<Rightarrow> router \<Rightarrow> router \<times> action list" where
  "ModuleClosed i r =
     (case map_of (rt_calls r) i of
        None \<Rightarrow> (r, [])
      | Some c \<Rightarrow>
          (let (c1, as) = endCall ''module-ended'' (c\<lparr>call_moduleClosed := True\<rparr>)
           in (finish c1 (putCall r c1), as)))"

definition ClientClosed :: "nat \<Rightarrow> nat \<Rightarrow> router \<Rightarrow> router \<times> action list" where
  "ClientClosed i rid r =
     (case map_of (rt_calls r) i of
        None \<Rightarrow> (r, [])
      | Some c \<Rightarrow>
          if map_of (call_legs c) rid = None then (r, [])
          else
            (let (c1, as) = withdraw ''client-ended'' rid c
             in (case map_of (call_legs c1) rid of
                   None \<Rightarrow> (r, as)
                 | Some l \<Rightarrow>
                     (let account = reg_account (leg_registration l);
                          c2 = c1\<lparr>call_legs := AList.delete rid (call_legs c1)\<rparr>;
                          r2 = putCall r c2;
                          r3 = (if get0 (rt_accountUse r2) account = i \<and> call_ownerAccount c2 \<noteq> account \<and>
                                   \<not> (\<exists>(k, l) \<in> set (call_legs c2). reg_account (leg_registration l) = account)
                                then r2\<lparr>rt_accountUse := AList.delete account (rt_accountUse r2)\<rparr> else r2)
                      in (finish c2 r3, as)))))"

definition Tick :: "router \<Rightarrow> router \<times> action list" where
  "Tick r =
     (let (r1, as) =
            each (\<lambda>rid r. case map_of (rt_registrations r) rid of
                            None \<Rightarrow> (r, [])
                          | Some reg \<Rightarrow>
                              if \<not> valid r reg then revokeRegistration ''registration-expired'' rid r
                              else (r, []))
                 (keys (rt_registrations r)) r;
          (r2, bs) =
            each (\<lambda>i r. case map_of (rt_calls r) i of
                          None \<Rightarrow> (r, [])
                        | Some c \<Rightarrow>
                            if call_deadline c \<noteq> 0 \<and> \<not> call_deadline c > rt_now r
                            then (let (c', as) = endCall ''timeout'' c in (putCall r c', as))
                            else (r, []))
                 (keys (rt_calls r1)) r1
      in (r2, as @ bs))"

subsection \<open>Queries\<close>

definition StatusOf :: "string \<Rightarrow> router \<Rightarrow> status" where
  "StatusOf a r =
     (if (case callOfAccount r a of
            None \<Rightarrow> False
          | Some c \<Rightarrow> call_phase c = Connected \<and> call_ownerAccount c = a) then Busy
      else if \<not> (\<exists>(k, reg) \<in> set (rt_registrations r). reg_account reg = a \<and> valid r reg) then Offline
      else if get0 (rt_accountUse r) a \<noteq> 0 then Busy
      else Online)"

definition Snapshot :: "nat \<Rightarrow> router \<Rightarrow> call_view \<times> bool" where
  "Snapshot i r = (case map_of (rt_calls r) i of None \<Rightarrow> (zero_call, False) | Some c \<Rightarrow> (view c, True))"

definition ActionCurrent :: "action \<Rightarrow> router \<Rightarrow> bool" where
  "ActionCurrent a r =
     (if act_kind a = RevokeRegistration
      then \<not> (\<exists>(k, reg) \<in> set (rt_registrations r). reg_id reg = act_registration a) \<and> act_registration a \<noteq> 0
      else if act_kind a = StopMedia then act_call a \<noteq> 0
      else
        (case map_of (rt_calls r) (act_call a) of
           None \<Rightarrow> False
         | Some c \<Rightarrow>
             if call_module c \<noteq> act_module a then False
             else
               (let l = map_of (call_legs c) (act_registration a);
                    live = (case l of None \<Rightarrow> False
                            | Some l \<Rightarrow> \<not> leg_closing l \<and> valid r (leg_registration l))
                in (case act_kind a of
                      Ring \<Rightarrow> call_phase c = Ringing \<and> call_deadline c > rt_now r \<and> live
                    | DialModule \<Rightarrow> call_phase c = Dialing \<and> \<not> call_moduleClosed c \<and>
                        call_deadline c > rt_now r \<and> call_winner c = act_registration a \<and> live
                    | AnswerModule \<Rightarrow> call_phase c = Connecting \<and> \<not> call_moduleClosed c \<and>
                        call_deadline c > rt_now r \<and> call_winner c = act_registration a \<and> live
                    | TerminateClient \<Rightarrow> (case l of None \<Rightarrow> False | Some l \<Rightarrow> leg_closing l)
                    | HangupModule \<Rightarrow> call_phase c = Ending \<and> \<not> call_moduleClosed c
                    | _ \<Rightarrow> False))))"

end
