(* ===== verification/Router_Calls.thy ===== *)
theory Router_Calls
  imports Router
begin

text \<open>
  What the call-level methods of the router compute: closing a set of legs, ending a call and
  withdrawing a leg as equations, the well-formedness of one call, and the evolution relation
  all of them respect (legs only close, the phase only moves to \<open>Ending\<close>).
\<close>

subsection \<open>Closing sets of legs\<close>

definition shut :: "leg \<Rightarrow> leg" where
  "shut l = l\<lparr>leg_closing := True\<rparr>"

definition shutLegs :: "nat set \<Rightarrow> (nat \<times> leg) list \<Rightarrow> (nat \<times> leg) list" where
  "shutLegs S ls = map (\<lambda>(k, l). (k, if k \<in> S then shut l else l)) ls"

lemma shut_simps [simp]:
  "leg_registration (shut l) = leg_registration l" "leg_closing (shut l)" "shut (shut l) = shut l"
  by (simp_all add: shut_def)

lemma shut_closing: "leg_closing l \<Longrightarrow> shut l = l"
  by (simp add: shut_def)

lemma shut_eq_iff [simp]: "shut l = l \<longleftrightarrow> leg_closing l" "l = shut l \<longleftrightarrow> leg_closing l"
  by (cases l; auto simp: shut_def)+

lemma shutLegs_empty [simp]: "shutLegs {} ls = ls" "shutLegs S [] = []"
  by (auto simp: shutLegs_def)

lemma keys_shutLegs [simp]: "keys (shutLegs S ls) = keys ls"
  by (simp add: shutLegs_def split_beta comp_def)

lemma shutLegs_shutLegs [simp]: "shutLegs S (shutLegs T ls) = shutLegs (S \<union> T) ls"
  by (auto simp: shutLegs_def)

lemma shutLegs_Nil_iff [simp]: "shutLegs S ls = [] \<longleftrightarrow> ls = []"
  by (simp add: shutLegs_def)

lemma map_of_shutLegs [simp]:
  "map_of (shutLegs S ls) k = map_option (\<lambda>l. if k \<in> S then shut l else l) (map_of ls k)"
  by (induction ls) (auto simp: shutLegs_def)

lemma shutLegs_notin: "k \<notin> set (keys ls) \<Longrightarrow> shutLegs (insert k S) ls = shutLegs S ls"
  by (force simp: shutLegs_def)

lemma shutLegs_closed: "\<forall>(k, l) \<in> set ls. k \<in> S \<longrightarrow> leg_closing l \<Longrightarrow> shutLegs S ls = ls"
  unfolding shutLegs_def by (intro map_idI) (auto simp: shut_closing)

lemma shutLegs_cover: "set (keys ls) \<subseteq> S \<Longrightarrow> shutLegs S ls = shutLegs UNIV ls"
  by (force simp: shutLegs_def)

lemma shutLegs_keys: "shutLegs (set (keys ls) \<inter> S) ls = shutLegs S ls"
  by (force simp: shutLegs_def)

lemma update_shutLegs:
  "distinct (keys ls) \<Longrightarrow> map_of ls k = Some l \<Longrightarrow> AList.update k (shut l) ls = shutLegs {k} ls"
proof (induction ls)
  case Nil
  then show ?case by simp
next
  case (Cons kv ls)
  obtain k' v where kv: "kv = (k', v)" by (cases kv)
  show ?case
  proof (cases "k' = k")
    case True
    with Cons.prems kv have "k \<notin> set (keys ls)" and "v = l" by auto
    moreover from this have "shutLegs {k} ls = ls"
      using shutLegs_notin[of k ls "{}"] by simp
    ultimately show ?thesis using True kv by (simp add: shutLegs_def)
  next
    case False
    with Cons kv show ?thesis by (simp add: shutLegs_def)
  qed
qed

abbreviation distinct_legs :: "acall \<Rightarrow> bool" where
  "distinct_legs c \<equiv> distinct (keys (call_legs c))"

lemma closeLeg_eq:
  assumes "distinct_legs c"
  shows "fst (closeLeg reason rid c) = c\<lparr>call_legs := shutLegs {rid} (call_legs c)\<rparr>"
proof (cases "map_of (call_legs c) rid")
  case None
  then have "rid \<notin> set (keys (call_legs c))" by (metis set_keys_dom domIff)
  then have "shutLegs {rid} (call_legs c) = call_legs c"
    using shutLegs_notin[of rid "call_legs c" "{}"] by simp
  with None show ?thesis by (simp add: closeLeg_def)
next
  case (Some l)
  show ?thesis
  proof (cases "leg_closing l")
    case True
    have "shutLegs {rid} (call_legs c) = call_legs c"
      using Some True assms
      by (intro shutLegs_closed) (metis (mono_tags, lifting) case_prodI2 map_of_is_SomeI option.inject singletonD)
    with Some True show ?thesis by (simp add: closeLeg_def)
  next
    case False
    with Some assms show ?thesis
      by (simp add: closeLeg_def update_shutLegs flip: shut_def)
  qed
qed

lemma each_closeLeg_eq:
  assumes "distinct_legs c"
  shows "fst (each (\<lambda>rid c. if rid \<in> S then closeLeg reason rid c else (c, [])) ks c) =
    c\<lparr>call_legs := shutLegs (set ks \<inter> S) (call_legs c)\<rparr>"
  using assms
proof (induction ks arbitrary: c)
  case Nil
  then show ?case by simp
next
  case (Cons k ks)
  have "distinct_legs (fst (closeLeg reason k c))" using Cons.prems by (simp add: closeLeg_eq)
  then show ?case
    using Cons.IH[of c] Cons.IH[of "fst (closeLeg reason k c)"] Cons.prems
    by (auto simp: split_beta closeLeg_eq Un_commute)
qed

subsection \<open>Ending and withdrawing\<close>

definition ended :: "acall \<Rightarrow> acall" where
  "ended c = c\<lparr>call_phase := Ending, call_deadline := 0, call_legs := shutLegs UNIV (call_legs c)\<rparr>"

lemma endCall_eq:
  assumes "distinct_legs c"
  shows "fst (endCall reason c) = (if call_phase c = Ending then c else ended c)"
proof -
  let ?c1 = "c\<lparr>call_phase := Ending, call_deadline := 0\<rparr>"
  have "fst (each (closeLeg reason) (keys (call_legs ?c1)) ?c1) =
      ?c1\<lparr>call_legs := shutLegs (set (keys (call_legs c))) (call_legs c)\<rparr>"
    using each_closeLeg_eq[of ?c1 UNIV reason "keys (call_legs ?c1)"] assms by simp
  also have "\<dots> = ended c"
    by (simp add: ended_def shutLegs_cover[of _ "set (keys (call_legs c))", simplified])
  finally show ?thesis by (simp add: endCall_def split_beta Let_def)
qed

definition all_closing :: "(nat \<times> leg) list \<Rightarrow> bool" where
  "all_closing ls \<longleftrightarrow> (\<forall>(k, l) \<in> set ls. leg_closing l)"

lemma all_closing_shutLegs [simp]: "all_closing (shutLegs UNIV ls)"
  by (auto simp: all_closing_def shutLegs_def)

lemma all_closing_map_of:
  "distinct (keys ls) \<Longrightarrow> all_closing ls \<longleftrightarrow> (\<forall>k l. map_of ls k = Some l \<longrightarrow> leg_closing l)"
  unfolding all_closing_def by (metis (no_types, lifting) case_prodD case_prodI2 map_of_eq_Some_iff)

lemma ended_shutLegs [simp]: "ended (c\<lparr>call_legs := shutLegs S (call_legs c)\<rparr>) = ended c"
  by (simp add: ended_def)

lemma withdraw_eq:
  assumes "distinct_legs c"
  shows "fst (withdraw reason rid c) =
    (if map_of (call_legs c) rid = None then c
     else if call_winner c = rid then (if call_phase c = Ending then c else ended c)
     else if call_phase c = Ringing \<and> all_closing (shutLegs {rid} (call_legs c)) then ended c
     else c\<lparr>call_legs := shutLegs {rid} (call_legs c)\<rparr>)"
proof -
  let ?c1 = "c\<lparr>call_legs := shutLegs {rid} (call_legs c)\<rparr>"
  have "distinct_legs ?c1" using assms by simp
  note [simp] = closeLeg_eq[OF assms] endCall_eq[OF assms] endCall_eq[OF this]
  have "(\<exists>(k, l) \<in> set (call_legs ?c1). \<not> leg_closing l) \<longleftrightarrow> \<not> all_closing (shutLegs {rid} (call_legs c))"
    by (auto simp: all_closing_def)
  then show ?thesis
    by (auto simp: withdraw_def split_beta Let_def)
qed

subsection \<open>Well-formed calls and their evolution\<close>

abbreviation leg_account :: "leg \<Rightarrow> string" where
  "leg_account l \<equiv> reg_account (leg_registration l)"

lemma leg_account_shutLegs:
  "(\<exists>rid l. map_of (shutLegs S ls) rid = Some l \<and> leg_account l = a) \<longleftrightarrow>
   (\<exists>rid l. map_of ls rid = Some l \<and> leg_account l = a)" (is "?L \<longleftrightarrow> ?R")
proof
  show "?L \<Longrightarrow> ?R" by (auto split: if_splits) blast
next
  assume ?R
  then obtain rid l where "map_of ls rid = Some l" "leg_account l = a" by blast
  then show ?L by (intro exI[of _ rid] exI[of _ "if rid \<in> S then shut l else l"]) auto
qed

definition call_ok :: "acall \<Rightarrow> bool" where
  "call_ok c \<longleftrightarrow> distinct_legs c \<and>
     (\<forall>rid l. map_of (call_legs c) rid = Some l \<longrightarrow>
        reg_id (leg_registration l) = rid \<and> rid \<noteq> 0 \<and> leg_account l \<noteq> []) \<and>
     (case call_phase c of
        Ringing \<Rightarrow> call_winner c = 0 \<and> call_ownerAccount c = [] \<and> 0 < call_deadline c \<and>
          \<not> all_closing (call_legs c)
      | Ending \<Rightarrow> all_closing (call_legs c) \<and> call_deadline c = 0
      | ph \<Rightarrow>
          (\<exists>l. map_of (call_legs c) (call_winner c) = Some l \<and> \<not> leg_closing l \<and>
               call_ownerAccount c = leg_account l) \<and>
          (\<forall>rid l. map_of (call_legs c) rid = Some l \<and> rid \<noteq> call_winner c \<longrightarrow> leg_closing l) \<and>
          (if ph = Connected then call_deadline c = 0 else 0 < call_deadline c)) \<and>
     (call_moduleClosed c \<longrightarrow> call_phase c = Ending)"

text \<open>
  \<open>evolves c c'\<close>: some more legs close, or the call ends; identity, module, winner, owner and the
  registrations of the legs stay.
\<close>

definition evolves :: "acall \<Rightarrow> acall \<Rightarrow> bool" where
  "evolves c c' \<longleftrightarrow> call_ok c' \<and>
     ((\<exists>S. c' = c\<lparr>call_legs := shutLegs S (call_legs c)\<rparr>) \<or> c' = ended c)"

lemma call_ok_distinct: "call_ok c \<Longrightarrow> distinct_legs c"
  by (simp add: call_ok_def)

lemma evolves_refl [simp]: "call_ok c \<Longrightarrow> evolves c c"
  by (auto simp: evolves_def intro!: exI[of _ "{}"])

lemma ended_ended [simp]: "ended (ended c) = ended c"
  by (simp add: ended_def)

lemma ended_shut [simp]: "(ended c)\<lparr>call_legs := shutLegs S (call_legs (ended c))\<rparr> = ended c"
  by (simp add: ended_def)

lemma evolves_trans: "evolves a b \<Longrightarrow> evolves b c \<Longrightarrow> evolves a c"
  unfolding evolves_def by (auto simp del: ended_shut) (auto simp: ended_def)

lemma evolves_ok: "evolves c c' \<Longrightarrow> call_ok c'"
  by (simp add: evolves_def)

lemma evolves_fields:
  assumes "evolves c c'"
  shows "call_id c' = call_id c" "call_module c' = call_module c" "call_winner c' = call_winner c"
    "call_moduleClosed c' = call_moduleClosed c" "call_ownerAccount c' = call_ownerAccount c"
    "keys (call_legs c') = keys (call_legs c)" "call_legs c' = [] \<longleftrightarrow> call_legs c = []"
    "call_phase c' = call_phase c \<or> call_phase c' = Ending"
  using assms by (auto simp: evolves_def ended_def)

lemma evolves_leg:
  assumes "evolves c c'" and "map_of (call_legs c') rid = Some l'"
  obtains l where "map_of (call_legs c) rid = Some l" "leg_registration l' = leg_registration l"
    "leg_closing l \<Longrightarrow> leg_closing l'"
  using assms by (auto simp: evolves_def ended_def split: if_splits)

lemma evolves_leg_back:
  assumes "evolves c c'" and "map_of (call_legs c) rid = Some l"
  obtains l' where "map_of (call_legs c') rid = Some l'" "leg_registration l' = leg_registration l"
    "leg_closing l \<Longrightarrow> leg_closing l'"
  using assms by (auto simp: evolves_def ended_def)

lemma evolves_open:
  assumes "evolves c c'" and "map_of (call_legs c') rid = Some l'" and "\<not> leg_closing l'"
  shows "map_of (call_legs c) rid = Some l' \<and> call_phase c' = call_phase c"
  using assms by (auto simp: evolves_def ended_def split: if_splits)

lemma call_ok_ended: "call_ok c \<Longrightarrow> call_ok (ended c)"
  by (auto simp: call_ok_def ended_def)

lemma evolves_ended: "call_ok c \<Longrightarrow> evolves c (ended c)"
  by (auto simp: evolves_def call_ok_ended)

lemma call_ok_shut:
  assumes "call_ok c" and "call_winner c \<notin> S \<or> call_phase c = Ringing \<or> call_phase c = Ending"
    and "call_phase c = Ringing \<Longrightarrow> \<not> all_closing (shutLegs S (call_legs c))"
  shows "call_ok (c\<lparr>call_legs := shutLegs S (call_legs c)\<rparr>)"
proof -
  have "all_closing ls \<Longrightarrow> all_closing (shutLegs S ls)" for ls
    by (auto simp: all_closing_def shutLegs_def)
  then show ?thesis using assms
    by (cases "call_phase c") (auto simp: call_ok_def)
qed

lemma endCall_evolves: "call_ok c \<Longrightarrow> evolves c (fst (endCall reason c))"
  by (simp add: endCall_eq call_ok_distinct evolves_ended)

lemma withdraw_evolves: "call_ok c \<Longrightarrow> evolves c (fst (withdraw reason rid c))"
  by (auto simp: withdraw_eq call_ok_distinct evolves_ended)
     (auto simp: evolves_def intro!: call_ok_shut)

lemma evolves_withdraw: "evolves c d \<Longrightarrow> evolves c (fst (withdraw reason rid d))"
  by (metis evolves_ok evolves_trans withdraw_evolves)

lemma evolves_endCall: "evolves c d \<Longrightarrow> evolves c (fst (endCall reason d))"
  by (metis evolves_ok evolves_trans endCall_evolves)

lemma withdrawLegs_evolves:
  assumes "call_ok c"
  shows "evolves c (fst (withdrawLegs sel reason c))"
  unfolding withdrawLegs_def
proof (rule each_invariant[where P = "evolves c"])
  show "evolves c c" using assms by simp
next
  fix rid d
  assume "evolves c d"
  then show "evolves c (fst (case map_of (call_legs d) rid of None \<Rightarrow> (d, [])
      | Some l \<Rightarrow> if sel d l then withdraw reason rid d else (d, [])))"
    by (auto split: option.splits intro: evolves_withdraw)
qed

text \<open>A withdrawn leg is closing afterwards.\<close>

lemma withdraw_closes:
  assumes "call_ok c" and "map_of (call_legs (fst (withdraw reason rid c))) rid = Some l"
  shows "leg_closing l"
proof (cases "call_phase c = Ending")
  case True
  then have "all_closing (call_legs c)" using assms(1) by (simp add: call_ok_def)
  moreover have "evolves c (fst (withdraw reason rid c))" by (rule withdraw_evolves[OF assms(1)])
  ultimately show ?thesis
    using assms by (metis (no_types) all_closing_map_of call_ok_distinct evolves_leg)
next
  case False
  then show ?thesis
    using assms by (auto simp: withdraw_eq call_ok_distinct ended_def split: if_splits)
qed

text \<open>The selecting loop leaves no open leg that its condition still selects.\<close>

lemma each_withdraw_closed:
  assumes "evolves c d" and "rid \<in> set ks" and sel: "\<And>d l. evolves c d \<Longrightarrow> call_phase d \<noteq> Ending \<Longrightarrow>
      map_of (call_legs d) rid = Some l \<Longrightarrow> \<not> leg_closing l \<Longrightarrow> call_phase d = call_phase c \<Longrightarrow> sel d l"
    and "map_of (call_legs (fst (each (\<lambda>rid c. case map_of (call_legs c) rid of None \<Rightarrow> (c, [])
           | Some l \<Rightarrow> if sel c l then withdraw reason rid c else (c, [])) ks d))) rid = Some l"
  shows "leg_closing l"
  using assms(1,2,4)
proof (induction ks arbitrary: d)
  case Nil
  then show ?case by simp
next
  case (Cons k ks)
  let ?f = "\<lambda>rid c. case map_of (call_legs c) rid of None \<Rightarrow> (c, [])
           | Some l \<Rightarrow> if sel c l then withdraw reason rid c else (c, [])"
  let ?d1 = "fst (?f k d)"
  have okd: "call_ok d" using Cons.prems(1) by (rule evolves_ok)
  have d1: "evolves d ?d1"
    using okd by (auto split: option.splits intro: withdraw_evolves)
  then have c1: "evolves c ?d1" using Cons.prems(1) evolves_trans by blast
  have rest: "evolves ?d1 (fst (each ?f ks ?d1))"
    by (rule each_invariant[where P = "evolves ?d1"])
       (use d1 in \<open>auto dest: evolves_ok split: option.splits intro: evolves_withdraw\<close>)
  have last: "map_of (call_legs (fst (each ?f ks ?d1))) rid = Some l"
    using Cons.prems(3) by (simp add: split_beta)
  show ?case
  proof (cases "rid \<in> set ks")
    case True
    then show ?thesis using Cons.IH[OF c1] last by simp
  next
    case False
    then have k: "k = rid" using Cons.prems(2) by simp
    obtain l1 where l1: "map_of (call_legs ?d1) rid = Some l1"
      and mono: "leg_closing l1 \<Longrightarrow> leg_closing l"
      by (rule evolves_leg[OF rest last]) blast
    have "leg_closing l1"
    proof (rule ccontr)
      assume open1: "\<not> leg_closing l1"
      with d1 l1 have l0: "map_of (call_legs d) rid = Some l1" and ph: "call_phase ?d1 = call_phase d"
        using evolves_open by blast+
      have ne: "call_phase d \<noteq> Ending"
        using okd l0 open1 by (auto simp: call_ok_def all_closing_map_of)
      moreover have "call_phase d = call_phase c"
        using evolves_fields(8)[OF Cons.prems(1)] ne by auto
      ultimately have "sel d l1" using sel[OF Cons.prems(1)] l0 open1 by blast
      then have "?d1 = fst (withdraw reason rid d)" using k l0 by simp
      then show False using withdraw_closes[OF okd] l1 open1 by auto
    qed
    then show ?thesis by (rule mono)
  qed
qed

lemma withdrawLegs_closed:
  assumes "call_ok c" and "map_of (call_legs (fst (withdrawLegs sel reason c))) rid = Some l"
    and "\<And>d l. evolves c d \<Longrightarrow> map_of (call_legs d) rid = Some l \<Longrightarrow> call_phase d = call_phase c \<Longrightarrow> sel d l"
  shows "leg_closing l"
proof -
  have "rid \<in> set (keys (call_legs c))"
    using assms(2) evolves_fields(6)[OF withdrawLegs_evolves[OF assms(1)]] map_of_in_keys by metis
  then show ?thesis
    using assms(1,3) assms(2)[unfolded withdrawLegs_def]
    by (intro each_withdraw_closed[of c c rid "keys (call_legs c)" sel reason l]) auto
qed

end
