(* ===== verification/Router_Inv.thy ===== *)
theory Router_Inv
  imports Router_Calls
begin

text \<open>
  The router's invariant and its preservation by every exported operation. \<open>core_inv\<close> ties the
  two reservation tables to the live calls in both directions; \<open>auth_ok\<close> says that an open leg
  belongs to an account whose current policy allows the call's module; \<open>regs_live\<close> that an open
  leg of a call that is not yet established still has its registration.
\<close>

subsection \<open>The invariant\<close>

definition uses :: "acall \<Rightarrow> string \<Rightarrow> bool" where
  "uses c a \<longleftrightarrow> (a \<noteq> [] \<and> call_ownerAccount c = a) \<or>
     (\<exists>rid l. map_of (call_legs c) rid = Some l \<and> leg_account l = a)"

definition keys_ok :: "router \<Rightarrow> bool" where
  "keys_ok r \<longleftrightarrow> distinct (keys (rt_policies r)) \<and> distinct (keys (rt_registrations r)) \<and>
     distinct (keys (rt_ready r)) \<and> distinct (keys (rt_calls r))"

definition calls_ok :: "router \<Rightarrow> bool" where
  "calls_ok r \<longleftrightarrow> (\<forall>i c. map_of (rt_calls r) i = Some c \<longrightarrow>
     call_id c = i \<and> 0 < i \<and> i \<le> rt_next r \<and> call_ok c \<and>
     (call_moduleClosed c \<longrightarrow> call_legs c \<noteq> []))"

definition modules_ok :: "router \<Rightarrow> bool" where
  "modules_ok r \<longleftrightarrow> (\<forall>m i. map_of (rt_moduleUse r) m = Some i \<longleftrightarrow>
     (\<exists>c. map_of (rt_calls r) i = Some c \<and> call_module c = m))"

definition accounts_ok :: "router \<Rightarrow> bool" where
  "accounts_ok r \<longleftrightarrow> (\<forall>a i. map_of (rt_accountUse r) a = Some i \<longleftrightarrow>
     (\<exists>c. map_of (rt_calls r) i = Some c \<and> uses c a))"

definition regs_ok :: "router \<Rightarrow> bool" where
  "regs_ok r \<longleftrightarrow> (\<forall>i reg. map_of (rt_registrations r) i = Some reg \<longrightarrow>
     reg_id reg = i \<and> 0 < i \<and> i \<le> rt_next r \<and> reg_account reg \<noteq> [])"

definition legs_ok :: "router \<Rightarrow> bool" where
  "legs_ok r \<longleftrightarrow> (\<forall>i c rid l. map_of (rt_calls r) i = Some c \<longrightarrow> map_of (call_legs c) rid = Some l \<longrightarrow>
     rid \<le> rt_next r \<and>
     (\<forall>reg. map_of (rt_registrations r) rid = Some reg \<longrightarrow> reg_account reg = leg_account l))"

definition policies_ok :: "router \<Rightarrow> bool" where
  "policies_ok r \<longleftrightarrow> (\<forall>a p. map_of (rt_policies r) a = Some p \<longrightarrow>
     pol_account p = a \<and> a \<noteq> [] \<and> map_of (rt_revisions r) a = Some (pol_revision p))"

definition core_inv :: "router \<Rightarrow> bool" where
  "core_inv r \<longleftrightarrow> keys_ok r \<and> calls_ok r \<and> modules_ok r \<and> accounts_ok r \<and> regs_ok r \<and>
     legs_ok r \<and> policies_ok r \<and> 0 \<le> rt_now r"

definition regs_live :: "router \<Rightarrow> bool" where
  "regs_live r \<longleftrightarrow> (\<forall>i c rid l. map_of (rt_calls r) i = Some c \<longrightarrow> map_of (call_legs c) rid = Some l \<longrightarrow>
     \<not> leg_closing l \<longrightarrow> call_phase c \<noteq> Connected \<longrightarrow> map_of (rt_registrations r) rid \<noteq> None)"

definition leg_auth :: "router \<Rightarrow> acall \<Rightarrow> leg \<Rightarrow> bool" where
  "leg_auth r c l \<longleftrightarrow> allowed r (leg_account l) (call_module c) \<and>
     (call_phase c = Ringing \<longrightarrow> receives r (leg_account l))"

definition auth_ok :: "string set \<Rightarrow> router \<Rightarrow> bool" where
  "auth_ok A r \<longleftrightarrow> (\<forall>i c rid l. map_of (rt_calls r) i = Some c \<longrightarrow> map_of (call_legs c) rid = Some l \<longrightarrow>
     \<not> leg_closing l \<longrightarrow> leg_account l \<notin> A \<longrightarrow> leg_auth r c l)"

definition regs_auth :: "string set \<Rightarrow> router \<Rightarrow> bool" where
  "regs_auth A r \<longleftrightarrow> (\<forall>i reg. map_of (rt_registrations r) i = Some reg \<longrightarrow> reg_account reg \<notin> A \<longrightarrow>
     map_of (rt_policies r) (reg_account reg) \<noteq> None)"

text \<open>The invariant outside the accounts \<open>A\<close> whose policy is being changed.\<close>

definition inv_except :: "string set \<Rightarrow> router \<Rightarrow> bool" where
  "inv_except A r \<longleftrightarrow> core_inv r \<and> regs_live r \<and> auth_ok A r \<and> regs_auth A r"

definition router_inv :: "router \<Rightarrow> bool" where
  "router_inv r \<longleftrightarrow> inv_except {} r"

lemmas core_defs = core_inv_def keys_ok_def calls_ok_def modules_ok_def accounts_ok_def
  regs_ok_def legs_ok_def policies_ok_def

lemma inv_core: "inv_except A r \<Longrightarrow> core_inv r"
  by (simp add: inv_except_def)

lemmas inv_defs = inv_except_def regs_live_def auth_ok_def regs_auth_def

lemma router_inv_init: "0 \<le> t \<Longrightarrow> router_inv (newRouter t)"
  by (simp add: router_inv_def inv_defs core_defs newRouter_def)

subsection \<open>Consequences of the core invariant\<close>

lemma core_callD:
  assumes "core_inv r" and "map_of (rt_calls r) i = Some c"
  shows "call_id c = i" "0 < i" "i \<le> rt_next r" "call_ok c" "distinct_legs c"
    "call_moduleClosed c \<Longrightarrow> call_legs c \<noteq> []"
  using assms by (auto simp: core_inv_def calls_ok_def dest: call_ok_distinct)

lemma core_moduleUse:
  "core_inv r \<Longrightarrow> map_of (rt_moduleUse r) m = Some i \<longleftrightarrow>
     (\<exists>c. map_of (rt_calls r) i = Some c \<and> call_module c = m)"
  by (simp add: core_inv_def modules_ok_def)

lemma core_accountUse:
  "core_inv r \<Longrightarrow> map_of (rt_accountUse r) a = Some i \<longleftrightarrow>
     (\<exists>c. map_of (rt_calls r) i = Some c \<and> uses c a)"
  by (simp add: core_inv_def accounts_ok_def)

lemma get0_0: "(\<And>v. map_of al k = Some v \<Longrightarrow> 0 < v) \<Longrightarrow> get0 al k = 0 \<longleftrightarrow> map_of al k = None"
  by (cases "map_of al k") (auto simp: get0_def)

lemma core_get0_module:
  assumes "core_inv r"
  shows "get0 (rt_moduleUse r) m = 0 \<longleftrightarrow> map_of (rt_moduleUse r) m = None"
  by (rule get0_0) (use core_moduleUse[OF assms] core_callD(2)[OF assms] in blast)

lemma core_get0_account:
  assumes "core_inv r"
  shows "get0 (rt_accountUse r) a = 0 \<longleftrightarrow> map_of (rt_accountUse r) a = None"
  by (rule get0_0) (use core_accountUse[OF assms] core_callD(2)[OF assms] in blast)

lemma core_no_call0: "core_inv r \<Longrightarrow> map_of (rt_calls r) 0 = None"
  using core_callD(2) by (metis less_not_refl not_None_eq)

lemma callOfAccount_Some:
  assumes core: "core_inv r"
  shows "callOfAccount r a = Some c \<longleftrightarrow> map_of (rt_calls r) (call_id c) = Some c \<and> uses c a"
proof
  assume "callOfAccount r a = Some c"
  then obtain i where "map_of (rt_accountUse r) a = Some i" and c: "map_of (rt_calls r) i = Some c"
    using core_no_call0[OF core] by (auto simp: callOfAccount_def get0_def split: option.splits)
  then have "uses c a" using core_accountUse[OF core] by auto
  with c show "map_of (rt_calls r) (call_id c) = Some c \<and> uses c a"
    using core_callD(1)[OF core c] by simp
next
  assume "map_of (rt_calls r) (call_id c) = Some c \<and> uses c a"
  then have "map_of (rt_accountUse r) a = Some (call_id c)" using core_accountUse[OF core] by blast
  with \<open>_ \<and> _\<close> show "callOfAccount r a = Some c" by (simp add: callOfAccount_def get0_def)
qed

lemma callOfModule_Some:
  assumes core: "core_inv r"
  shows "callOfModule r m = Some c \<longleftrightarrow> map_of (rt_calls r) (call_id c) = Some c \<and> call_module c = m"
proof
  assume "callOfModule r m = Some c"
  then obtain i where "map_of (rt_moduleUse r) m = Some i" and c: "map_of (rt_calls r) i = Some c"
    using core_no_call0[OF core] by (auto simp: callOfModule_def get0_def split: option.splits)
  then have "call_module c = m" using core_moduleUse[OF core] by auto
  with c show "map_of (rt_calls r) (call_id c) = Some c \<and> call_module c = m"
    using core_callD(1)[OF core c] by simp
next
  assume "map_of (rt_calls r) (call_id c) = Some c \<and> call_module c = m"
  then have "map_of (rt_moduleUse r) m = Some (call_id c)" using core_moduleUse[OF core] by blast
  with \<open>_ \<and> _\<close> show "callOfModule r m = Some c" by (simp add: callOfModule_def get0_def)
qed

lemma uses_leg: "map_of (call_legs c) rid = Some l \<Longrightarrow> leg_account l = a \<Longrightarrow> uses c a"
  by (auto simp: uses_def)

text \<open>No account takes part in two calls, and no module carries two.\<close>

lemma core_account_unique:
  assumes "core_inv r" "map_of (rt_calls r) i = Some c" "map_of (rt_calls r) j = Some d"
    "uses c a" "uses d a"
  shows "i = j"
  using assms core_accountUse[OF assms(1), of a] by (metis option.inject)

lemma core_module_unique:
  assumes "core_inv r" "map_of (rt_calls r) i = Some c" "map_of (rt_calls r) j = Some d"
    "call_module c = call_module d"
  shows "i = j"
  using assms core_moduleUse[OF assms(1)] by (metis option.inject)

subsection \<open>Evolving one call\<close>

lemma uses_evolves:
  assumes ev: "evolves c c'"
  shows "uses c' a = uses c a"
proof
  assume "uses c' a"
  then consider "a \<noteq> []" "call_ownerAccount c' = a"
    | rid l where "map_of (call_legs c') rid = Some l" "leg_account l = a" by (auto simp: uses_def)
  then show "uses c a"
  proof cases
    case 1
    then show ?thesis by (simp add: uses_def evolves_fields(5)[OF ev])
  next
    case 2
    then show ?thesis using evolves_leg[OF ev 2(1)] by (metis uses_leg)
  qed
next
  assume "uses c a"
  then consider "a \<noteq> []" "call_ownerAccount c = a"
    | rid l where "map_of (call_legs c) rid = Some l" "leg_account l = a" by (auto simp: uses_def)
  then show "uses c' a"
  proof cases
    case 1
    then show ?thesis by (simp add: uses_def evolves_fields(5)[OF ev])
  next
    case 2
    then show ?thesis using evolves_leg_back[OF ev 2(1)] by (metis uses_leg)
  qed
qed

lemma putCall_simps [simp]:
  "rt_now (putCall r c) = rt_now r" "rt_next (putCall r c) = rt_next r"
  "rt_policies (putCall r c) = rt_policies r" "rt_revisions (putCall r c) = rt_revisions r"
  "rt_registrations (putCall r c) = rt_registrations r" "rt_ready (putCall r c) = rt_ready r"
  "rt_moduleUse (putCall r c) = rt_moduleUse r" "rt_accountUse (putCall r c) = rt_accountUse r"
  "rt_lastDial (putCall r c) = rt_lastDial r"
  "map_of (rt_calls (putCall r c)) = (map_of (rt_calls r))(call_id c \<mapsto> c)"
  "distinct (keys (rt_calls r)) \<Longrightarrow> distinct (keys (rt_calls (putCall r c)))"
  by (simp_all add: putCall_def)

lemma allowed_putCall [simp]: "allowed (putCall r c) = allowed r" "receives (putCall r c) = receives r"
  by (auto simp: allowed_def receives_def fun_eq_iff)

text \<open>
  Replacing one call by another with the same identity and module. The legs of the new call are
  legs of the old one, its open legs were open, and the account table loses exactly the accounts
  the new call no longer uses.
\<close>

definition advances :: "acall \<Rightarrow> acall \<Rightarrow> bool" where
  "advances c c' \<longleftrightarrow> call_ok c' \<and> call_id c' = call_id c \<and> call_module c' = call_module c \<and>
     (call_moduleClosed c' \<longrightarrow> call_legs c' \<noteq> []) \<and>
     (\<forall>rid l'. map_of (call_legs c') rid = Some l' \<longrightarrow>
        (\<exists>l. map_of (call_legs c) rid = Some l \<and> leg_registration l' = leg_registration l \<and>
             (leg_closing l \<longrightarrow> leg_closing l'))) \<and>
     (\<forall>a. uses c' a \<longrightarrow> uses c a) \<and>
     (call_phase c' = Ringing \<longrightarrow> call_phase c = Ringing) \<and>
     (call_phase c = Connected \<longrightarrow> call_phase c' \<in> {Connected, Ending})"

lemma advances_leg:
  assumes "advances c c'" and "map_of (call_legs c') rid = Some l'"
  obtains l where "map_of (call_legs c) rid = Some l" "leg_registration l' = leg_registration l"
    "leg_closing l \<Longrightarrow> leg_closing l'"
  using assms unfolding advances_def by blast

lemma advances_open_phase:
  assumes "advances c c'" and "map_of (call_legs c') rid = Some l'" and "\<not> leg_closing l'"
  shows "call_phase c = Connected \<longrightarrow> call_phase c' = Connected"
proof -
  have "call_phase c' \<noteq> Ending"
    using assms by (auto simp: advances_def call_ok_def all_closing_map_of)
  then show ?thesis using assms(1) by (auto simp: advances_def)
qed

lemma replace_call_inv:
  assumes inv: "inv_except A r" and c: "map_of (rt_calls r) i = Some c" and adv: "advances c c'"
    and calls: "map_of (rt_calls r') = (map_of (rt_calls r))(i \<mapsto> c')" "distinct (keys (rt_calls r'))"
    and use: "\<And>a. map_of (rt_accountUse r') a =
        (if uses c a \<and> \<not> uses c' a then None else map_of (rt_accountUse r) a)"
    and rest: "rt_now r' = rt_now r" "rt_next r' = rt_next r" "rt_policies r' = rt_policies r"
      "rt_revisions r' = rt_revisions r" "rt_registrations r' = rt_registrations r"
      "distinct (keys (rt_ready r'))" "rt_moduleUse r' = rt_moduleUse r"
  shows "inv_except A r'"
proof -
  have core: "core_inv r" using inv by (rule inv_core)
  have cid: "call_id c' = i" using adv core_callD(1)[OF core c] by (simp add: advances_def)
  have other: "map_of (rt_calls r') j = Some d \<Longrightarrow> j \<noteq> i \<Longrightarrow> map_of (rt_calls r) j = Some d" for j d
    by (simp add: calls)
  have this_call: "map_of (rt_calls r') i = Some d \<longleftrightarrow> d = c'" for d by (auto simp: calls)
  have perm: "allowed r' = allowed r" "receives r' = receives r"
    by (auto simp: allowed_def receives_def fun_eq_iff rest)
  have "keys_ok r'" using core calls(2) rest by (simp add: core_inv_def keys_ok_def)
  moreover have "calls_ok r'"
    using core_callD[OF core] other this_call cid adv core_callD(2,3)[OF core c] rest(2)
    unfolding calls_ok_def advances_def by metis
  moreover have "modules_ok r'"
    using core_moduleUse[OF core] c cid adv by (auto simp: modules_ok_def rest calls advances_def)
  moreover have "accounts_ok r'"
    unfolding accounts_ok_def
  proof (intro allI)
    fix a j
    show "map_of (rt_accountUse r') a = Some j \<longleftrightarrow> (\<exists>d. map_of (rt_calls r') j = Some d \<and> uses d a)"
    proof (cases "j = i")
      case True
      then show ?thesis
        using core_accountUse[OF core, of a i] c adv use[of a] this_call
        by (auto simp: advances_def split: if_splits)
    next
      case False
      have "uses c a \<Longrightarrow> \<not> (\<exists>d. map_of (rt_calls r) j = Some d \<and> uses d a)"
        using core_account_unique[OF core c] False by blast
      then show ?thesis
        using core_accountUse[OF core, of a j] use[of a] False calls(1) by (auto split: if_splits)
    qed
  qed
  moreover have "legs_ok r'"
    unfolding legs_ok_def
  proof (intro allI impI)
    fix j d rid l
    assume d: "map_of (rt_calls r') j = Some d" and l: "map_of (call_legs d) rid = Some l"
    have "\<exists>d0 l0. map_of (rt_calls r) j = Some d0 \<and> map_of (call_legs d0) rid = Some l0 \<and>
        leg_registration l = leg_registration l0"
      using d l c other this_call advances_leg[OF adv] by metis
    then show "rid \<le> rt_next r' \<and>
        (\<forall>reg. map_of (rt_registrations r') rid = Some reg \<longrightarrow> reg_account reg = leg_account l)"
      using core rest unfolding core_inv_def legs_ok_def by metis
  qed
  ultimately have "core_inv r'"
    using core rest by (simp add: core_inv_def regs_ok_def policies_ok_def)
  moreover have open_old: "\<exists>d0. map_of (rt_calls r) j = Some d0 \<and> call_module d0 = call_module d \<and>
      (call_phase d = Ringing \<longrightarrow> call_phase d0 = Ringing) \<and>
      (call_phase d0 = Connected \<longrightarrow> call_phase d = Connected) \<and>
      (\<exists>l0. map_of (call_legs d0) rid = Some l0 \<and> leg_registration l0 = leg_registration l \<and> \<not> leg_closing l0)"
    if d: "map_of (rt_calls r') j = Some d" "map_of (call_legs d) rid = Some l" "\<not> leg_closing l" for j d rid l
  proof (cases "j = i")
    case True
    then have [simp]: "d = c'" using d this_call by simp
    have l: "map_of (call_legs c') rid = Some l" using d(2) by simp
    obtain l0 where "map_of (call_legs c) rid = Some l0" "leg_registration l = leg_registration l0"
      "leg_closing l0 \<Longrightarrow> leg_closing l"
      by (rule advances_leg[OF adv l]) blast
    moreover have "call_phase c = Connected \<longrightarrow> call_phase c' = Connected"
      by (rule advances_open_phase[OF adv l d(3)])
    moreover have "call_module c = call_module c'" "call_phase c' = Ringing \<longrightarrow> call_phase c = Ringing"
      using adv by (simp_all add: advances_def)
    ultimately show ?thesis
      using True c d(3) by (intro exI[of _ c]) auto
  next
    case False
    then show ?thesis using d other by auto
  qed
  moreover have "regs_live r'"
    unfolding regs_live_def
  proof (intro allI impI)
    fix j d rid l
    assume d: "map_of (rt_calls r') j = Some d" "map_of (call_legs d) rid = Some l" "\<not> leg_closing l"
      "call_phase d \<noteq> Connected"
    from open_old[OF d(1-3)] obtain d0 l0 where "map_of (rt_calls r) j = Some d0"
      "map_of (call_legs d0) rid = Some l0" "\<not> leg_closing l0" "call_phase d0 \<noteq> Connected"
      using d(4) by blast
    then show "map_of (rt_registrations r') rid \<noteq> None"
      using inv unfolding rest inv_except_def regs_live_def by blast
  qed
  moreover have "auth_ok A r'"
    unfolding auth_ok_def
  proof (intro allI impI)
    fix j d rid l
    assume d: "map_of (rt_calls r') j = Some d" "map_of (call_legs d) rid = Some l" "\<not> leg_closing l"
      "leg_account l \<notin> A"
    from open_old[OF d(1-3)] obtain d0 l0 where d0: "map_of (rt_calls r) j = Some d0"
      "map_of (call_legs d0) rid = Some l0" "\<not> leg_closing l0"
      and same: "leg_registration l0 = leg_registration l" "call_module d0 = call_module d"
      "call_phase d = Ringing \<longrightarrow> call_phase d0 = Ringing"
      by blast
    then have "leg_auth r d0 l0"
      using inv d(4) unfolding inv_except_def auth_ok_def by metis
    then show "leg_auth r' d l" using same unfolding leg_auth_def perm by auto
  qed
  moreover have "regs_auth A r'" using inv unfolding inv_except_def regs_auth_def rest by blast
  ultimately show ?thesis by (simp add: inv_except_def)
qed

lemma evolves_advances:
  assumes ev: "evolves c c'" and "call_moduleClosed c \<longrightarrow> call_legs c \<noteq> []"
  shows "advances c c'"
proof -
  have "\<exists>l. map_of (call_legs c) rid = Some l \<and> leg_registration l' = leg_registration l \<and>
      (leg_closing l \<longrightarrow> leg_closing l')" if "map_of (call_legs c') rid = Some l'" for rid l'
    by (rule evolves_leg[OF ev that]) blast
  then show ?thesis
    unfolding advances_def
    using evolves_ok[OF ev] evolves_fields[OF ev] uses_evolves[OF ev] assms(2) by auto
qed

lemma putCall_inv_advances:
  assumes inv: "inv_except A r" and c: "map_of (rt_calls r) i = Some c" and adv: "advances c c'"
    and same: "\<And>a. uses c a \<Longrightarrow> uses c' a"
  shows "inv_except A (putCall r c')"
proof (rule replace_call_inv[OF inv c adv])
  have core: "core_inv r" using inv by (rule inv_core)
  have "call_id c' = i" using adv core_callD(1)[OF core c] by (simp add: advances_def)
  then show "map_of (rt_calls (putCall r c')) = (map_of (rt_calls r))(i \<mapsto> c')" by simp
  show "distinct (keys (rt_calls (putCall r c')))" "distinct (keys (rt_ready (putCall r c')))"
    using core by (simp_all add: core_inv_def keys_ok_def)
qed (use same in auto)

lemma putCall_inv:
  assumes inv: "inv_except A r" and c: "map_of (rt_calls r) i = Some c" and ev: "evolves c c'"
  shows "inv_except A (putCall r c')"
  using uses_evolves[OF ev] core_callD(6)[OF inv_core[OF inv] c]
  by (intro putCall_inv_advances[OF inv c] evolves_advances[OF ev]) auto

subsection \<open>Revocation\<close>

definition same_tables :: "router \<Rightarrow> router \<Rightarrow> bool" where
  "same_tables r r' \<longleftrightarrow> rt_now r' = rt_now r \<and> rt_next r' = rt_next r \<and>
     rt_policies r' = rt_policies r \<and> rt_revisions r' = rt_revisions r \<and> rt_ready r' = rt_ready r \<and>
     rt_moduleUse r' = rt_moduleUse r \<and> rt_accountUse r' = rt_accountUse r \<and>
     rt_lastDial r' = rt_lastDial r"

lemma same_tables_refl [simp]: "same_tables r r"
  by (simp add: same_tables_def)

lemma same_tables_trans: "same_tables r s \<Longrightarrow> same_tables s t \<Longrightarrow> same_tables r t"
  by (simp add: same_tables_def)

lemma same_tables_putCall [simp]: "same_tables r (putCall r c)"
  by (simp add: same_tables_def)

lemma same_tables_allowed:
  "same_tables r r' \<Longrightarrow> allowed r' = allowed r \<and> receives r' = receives r"
  by (auto simp: same_tables_def allowed_def receives_def fun_eq_iff)

text \<open>No open leg of an account is left.\<close>

definition quiet :: "string \<Rightarrow> router \<Rightarrow> bool" where
  "quiet a r \<longleftrightarrow> (\<forall>i c rid l. map_of (rt_calls r) i = Some c \<longrightarrow> map_of (call_legs c) rid = Some l \<longrightarrow>
     leg_account l = a \<longrightarrow> leg_closing l)"

lemma quiet_putCall:
  assumes "quiet a r" and "core_inv r" and c: "map_of (rt_calls r) i = Some c" and ev: "evolves c c'"
  shows "quiet a (putCall r c')"
proof -
  have id: "call_id c' = i" using evolves_fields(1)[OF ev] core_callD(1)[OF assms(2) c] by simp
  show ?thesis
    unfolding quiet_def
  proof (intro allI impI)
    fix j d rid l
    assume d: "map_of (rt_calls (putCall r c')) j = Some d" and l: "map_of (call_legs d) rid = Some l"
      "leg_account l = a"
    show "leg_closing l"
    proof (cases "j = i")
      case True
      then have "d = c'" using d id by simp
      then show ?thesis using assms(1) c l evolves_open[OF ev, of rid l] unfolding quiet_def by blast
    next
      case False
      then show ?thesis using assms(1) d l id unfolding quiet_def by simp
    qed
  qed
qed

lemma revokeRegistration_cases:
  assumes core: "core_inv r"
  obtains (absent) "map_of (rt_registrations r) rid = None" "fst (revokeRegistration reason rid r) = r"
  | (idle) reg where "map_of (rt_registrations r) rid = Some reg" "callOfAccount r (reg_account reg) = None"
      "fst (revokeRegistration reason rid r) = r\<lparr>rt_registrations := AList.delete rid (rt_registrations r)\<rparr>"
  | (call) reg c c' where "map_of (rt_registrations r) rid = Some reg"
      "map_of (rt_calls r) (call_id c) = Some c" "uses c (reg_account reg)" "evolves c c'"
      "call_phase c' = Connected \<or> (\<forall>l. map_of (call_legs c') rid = Some l \<longrightarrow> leg_closing l)"
      "fst (revokeRegistration reason rid r) =
         (putCall r c')\<lparr>rt_registrations := AList.delete rid (rt_registrations r)\<rparr>"
proof (cases "map_of (rt_registrations r) rid")
  case None
  then show ?thesis using absent by (simp add: revokeRegistration_def)
next
  case (Some reg)
  let ?r1 = "r\<lparr>rt_registrations := AList.delete rid (rt_registrations r)\<rparr>"
  have coa: "callOfAccount ?r1 b = callOfAccount r b" for b by (simp add: callOfAccount_def)
  have put: "putCall ?r1 d = (putCall r d)\<lparr>rt_registrations := AList.delete rid (rt_registrations r)\<rparr>" for d
    by (simp add: putCall_def)
  show ?thesis
  proof (cases "callOfAccount r (reg_account reg)")
    case None
    then show ?thesis using Some idle coa by (simp add: revokeRegistration_def)
  next
    case c: (Some c)
    then have cid: "map_of (rt_calls r) (call_id c) = Some c" and u: "uses c (reg_account reg)"
      using callOfAccount_Some[OF core] by auto
    have ok: "call_ok c" using core_callD(4)[OF core cid] .
    show ?thesis
    proof (cases "keepsDialog c rid reason")
      case True
      have "putCall r c = r"
      proof -
        have "AList.update (call_id c) c (rt_calls r) = rt_calls r"
          using cid by (simp add: AList.update_triv)
        then show ?thesis by (simp add: putCall_def)
      qed
      with True Some c coa ok cid u show ?thesis
        by (intro call[of reg c c]) (auto simp: revokeRegistration_def keepsDialog_def)
    next
      case False
      let ?c' = "fst (withdraw reason rid c)"
      have "fst (revokeRegistration reason rid r) =
          (putCall r ?c')\<lparr>rt_registrations := AList.delete rid (rt_registrations r)\<rparr>"
        using Some c coa False put by (simp add: revokeRegistration_def split_beta Let_def)
      then show ?thesis
        using Some cid u withdraw_evolves[OF ok, of reason rid] withdraw_closes[OF ok, of reason rid]
        by (intro call[of reg c ?c']) blast+
    qed
  qed
qed

lemma delete_registration_inv:
  assumes inv: "inv_except A r"
    and safe: "\<And>i c l. map_of (rt_calls r) i = Some c \<Longrightarrow> map_of (call_legs c) rid = Some l \<Longrightarrow>
      \<not> leg_closing l \<Longrightarrow> call_phase c = Connected"
  shows "inv_except A (r\<lparr>rt_registrations := AList.delete rid (rt_registrations r)\<rparr>)"
proof -
  let ?r = "r\<lparr>rt_registrations := AList.delete rid (rt_registrations r)\<rparr>"
  have core: "core_inv r" using inv by (simp add: inv_except_def)
  have "core_inv ?r"
    using core unfolding core_defs by (simp add: AList.distinct_delete)
  moreover have "regs_live ?r"
    using inv safe unfolding inv_except_def regs_live_def by auto
  moreover have "auth_ok A ?r"
    using inv unfolding inv_except_def auth_ok_def leg_auth_def allowed_def receives_def by simp
  moreover have "regs_auth A ?r"
    using inv unfolding inv_except_def regs_auth_def by simp
  ultimately show ?thesis by (simp add: inv_except_def)
qed

lemma leg_call_unique:
  assumes core: "core_inv r" and reg: "map_of (rt_registrations r) rid = Some reg"
    and d: "map_of (rt_calls r) j = Some d" "map_of (call_legs d) rid = Some l"
  shows "callOfAccount r (reg_account reg) = Some d"
proof -
  have "reg_account reg = leg_account l"
    using core reg d by (auto simp: core_inv_def legs_ok_def)
  then show ?thesis
    using callOfAccount_Some[OF core] d core_callD(1)[OF core d(1)] uses_leg by metis
qed

lemma revokeRegistration_inv:
  assumes inv: "inv_except A r"
  shows "inv_except A (fst (revokeRegistration reason rid r))"
proof -
  have core: "core_inv r" using inv by (simp add: inv_except_def)
  show ?thesis
    using core
  proof (cases rule: revokeRegistration_cases[where rid = rid and reason = reason])
    case absent
    then show ?thesis using inv by simp
  next
    case (idle reg)
    then show ?thesis
      using delete_registration_inv[OF inv] leg_call_unique[OF core idle(1)] by fastforce
  next
    case (call reg c c')
    let ?r1 = "putCall r c'"
    have inv1: "inv_except A ?r1" by (rule putCall_inv[OF inv call(2,4)])
    have cid: "call_id c' = call_id c" by (rule evolves_fields(1)[OF call(4)])
    have "call_phase d = Connected"
      if d: "map_of (rt_calls ?r1) j = Some d" "map_of (call_legs d) rid = Some l" "\<not> leg_closing l" for j d l
    proof (cases "j = call_id c")
      case True
      with d(1) cid have "d = c'" by simp
      with call(5) d show ?thesis by blast
    next
      case False
      with d(1) cid have "map_of (rt_calls r) j = Some d" by simp
      then have "uses d (reg_account reg)" "map_of (rt_calls r) (call_id d) = Some d"
        using leg_call_unique[OF core call(1) _ d(2)] callOfAccount_Some[OF core] by blast+
      then show ?thesis
        using False core_account_unique[OF core _ call(2) _ call(3)]
          core_callD(1)[OF core \<open>map_of (rt_calls r) j = Some d\<close>] by metis
    qed
    then show ?thesis
      using delete_registration_inv[OF inv1, of rid] call(6) by simp
  qed
qed

lemma revokeRegistration_frame:
  assumes core: "core_inv r"
  shows "same_tables r (fst (revokeRegistration reason rid r))"
    "map_of (rt_registrations (fst (revokeRegistration reason rid r))) = (map_of (rt_registrations r))(rid := None)"
  using core
  by (cases rule: revokeRegistration_cases[where rid = rid and reason = reason],
      auto simp: same_tables_def fun_eq_iff)+

lemma revokeRegistration_quiet:
  assumes core: "core_inv r" and q: "quiet a r"
  shows "quiet a (fst (revokeRegistration reason rid r))"
using core
proof (cases rule: revokeRegistration_cases[where rid = rid and reason = reason])
  case absent
  then show ?thesis using q by simp
next
  case (idle reg)
  then show ?thesis using q by (simp add: quiet_def)
next
  case (call reg c c')
  then show ?thesis using quiet_putCall[OF q core call(2,4)] by (simp add: quiet_def)
qed

text \<open>The loop that revokes the registrations a condition selects.\<close>

definition revokeSome :: "(router \<Rightarrow> registration \<Rightarrow> bool) \<Rightarrow> string \<Rightarrow> nat list \<Rightarrow> router \<Rightarrow> router \<times> action list" where
  "revokeSome sel reason ks r =
     each (\<lambda>rid r. case map_of (rt_registrations r) rid of
                     None \<Rightarrow> (r, [])
                   | Some reg \<Rightarrow> if sel r reg then revokeRegistration reason rid r else (r, [])) ks r"

lemma revokeSome_inv: "inv_except A r \<Longrightarrow> inv_except A (fst (revokeSome sel reason ks r))"
  unfolding revokeSome_def
  by (rule each_invariant) (auto split: option.splits intro: revokeRegistration_inv)

lemma revokeSome_quiet:
  assumes "inv_except A r" "quiet a r"
  shows "quiet a (fst (revokeSome sel reason ks r))"
proof -
  have "inv_except A (fst (revokeSome sel reason ks r)) \<and> quiet a (fst (revokeSome sel reason ks r))"
    unfolding revokeSome_def
    by (rule each_invariant)
       (use assms in \<open>auto split: option.splits
          intro: revokeRegistration_inv revokeRegistration_quiet [OF inv_core]\<close>)
  then show ?thesis ..
qed

lemma revokeSome_frame:
  assumes "inv_except A r"
  shows "same_tables r (fst (revokeSome sel reason ks r))"
proof -
  have "inv_except A (fst (revokeSome sel reason ks r)) \<and> same_tables r (fst (revokeSome sel reason ks r))"
    unfolding revokeSome_def
    by (rule each_invariant)
       (use assms in \<open>auto split: option.splits intro: revokeRegistration_inv
          same_tables_trans [OF _ revokeRegistration_frame(1) [OF inv_core]]\<close>)
  then show ?thesis ..
qed

lemma revokeSome_registrations:
  assumes "inv_except A r" and sel: "\<And>r' reg. same_tables r r' \<Longrightarrow> sel r' reg = P reg"
  shows "map_of (rt_registrations (fst (revokeSome sel reason ks r))) =
    (\<lambda>i. case map_of (rt_registrations r) i of None \<Rightarrow> None
         | Some reg \<Rightarrow> if i \<in> set ks \<and> P reg then None else Some reg)"
  using assms
proof (induction ks arbitrary: r)
  case Nil
  then show ?case by (auto simp: revokeSome_def fun_eq_iff split: option.splits)
next
  case (Cons k ks)
  let ?f = "\<lambda>rid r. case map_of (rt_registrations r) rid of None \<Rightarrow> (r, [])
                   | Some reg \<Rightarrow> if sel r reg then revokeRegistration reason rid r else (r, [])"
  let ?r1 = "fst (?f k r)"
  have core: "core_inv r" using Cons.prems(1) by (simp add: inv_except_def)
  have inv1: "inv_except A ?r1"
    using Cons.prems(1) by (auto split: option.splits intro: revokeRegistration_inv)
  have st: "same_tables r ?r1"
    by (auto split: option.splits intro: revokeRegistration_frame(1)[OF core])
  have regs1: "map_of (rt_registrations ?r1) = (\<lambda>i. case map_of (rt_registrations r) i of None \<Rightarrow> None
         | Some reg \<Rightarrow> if i = k \<and> P reg then None else Some reg)"
    using Cons.prems(2)[OF same_tables_refl]
    by (auto simp: fun_eq_iff revokeRegistration_frame(2)[OF core] split: option.splits)
  have "map_of (rt_registrations (fst (revokeSome sel reason ks ?r1))) =
      (\<lambda>i. case map_of (rt_registrations ?r1) i of None \<Rightarrow> None
         | Some reg \<Rightarrow> if i \<in> set ks \<and> P reg then None else Some reg)"
    by (rule Cons.IH[OF inv1]) (use Cons.prems(2) st in \<open>blast intro: same_tables_trans\<close>)
  then show ?case
    unfolding regs1 revokeSome_def by (auto simp: fun_eq_iff split_beta split: option.splits)
qed

end
