(* ===== verification/Router_Ops.thy ===== *)
theory Router_Ops
  imports Router_Inv
begin

text \<open>
  Each exported operation of the router keeps the invariant. Three lemmas carry the proofs: a new
  call, a replaced call (\<open>replace_call_inv\<close> of \<open>Router_Inv\<close>) and a removed call.
\<close>

subsection \<open>Adding and removing a call\<close>

lemma new_call_inv:
  assumes inv: "inv_except {} r" and i: "i = rt_next r + 1"
    and c: "call_ok c" "call_id c = i" "\<not> call_moduleClosed c" "map_of (rt_moduleUse r) (call_module c) = None"
    and legs: "\<And>rid l. map_of (call_legs c) rid = Some l \<Longrightarrow>
        (\<exists>reg. map_of (rt_registrations r) rid = Some reg \<and> reg_account reg = leg_account l) \<and>
        map_of (rt_accountUse r) (leg_account l) = None \<and> leg_auth r c l"
    and owner: "call_ownerAccount c \<noteq> [] \<Longrightarrow>
        (\<exists>rid l. map_of (call_legs c) rid = Some l \<and> leg_account l = call_ownerAccount c)"
    and calls: "map_of (rt_calls r') = (map_of (rt_calls r))(i \<mapsto> c)" "distinct (keys (rt_calls r'))"
    and muse: "map_of (rt_moduleUse r') = (map_of (rt_moduleUse r))(call_module c \<mapsto> i)"
    and ause: "\<And>a. map_of (rt_accountUse r') a = (if uses c a then Some i else map_of (rt_accountUse r) a)"
    and rest: "rt_now r' = rt_now r" "rt_next r' = i" "rt_policies r' = rt_policies r"
      "rt_revisions r' = rt_revisions r" "rt_registrations r' = rt_registrations r" "rt_ready r' = rt_ready r"
  shows "inv_except {} r'"
proof -
  have core: "core_inv r" using inv by (rule inv_core)
  have fresh: "map_of (rt_calls r) i = None"
    using core_callD(3)[OF core, of i] i by (cases "map_of (rt_calls r) i") auto
  have perm: "allowed r' = allowed r" "receives r' = receives r"
    by (auto simp: allowed_def receives_def fun_eq_iff rest)
  have unused: "uses c a \<Longrightarrow> map_of (rt_accountUse r) a = None" for a
    using legs owner unfolding uses_def by metis
  have old_use: "map_of (rt_calls r) j = Some d \<Longrightarrow> uses d a \<Longrightarrow> \<not> uses c a" for j d a
    using unused core_accountUse[OF core] by (metis option.distinct(1))
  have no_i: "map_of (rt_accountUse r) a \<noteq> Some i" "map_of (rt_moduleUse r) m \<noteq> Some i" for a m
    using fresh core_accountUse[OF core] core_moduleUse[OF core] by auto
  have "keys_ok r'" using core calls(2) rest by (simp add: core_inv_def keys_ok_def)
  moreover have "calls_ok r'"
    unfolding calls_ok_def
  proof (intro allI impI)
    fix j d assume d: "map_of (rt_calls r') j = Some d"
    show "call_id d = j \<and> 0 < j \<and> j \<le> rt_next r' \<and> call_ok d \<and> (call_moduleClosed d \<longrightarrow> call_legs d \<noteq> [])"
      using d c i rest(2) core_callD[OF core, of j d] by (cases "j = i") (auto simp: calls)
  qed
  moreover have "modules_ok r'"
    unfolding modules_ok_def
  proof (intro allI)
    fix m j
    have "map_of (rt_calls r) j = Some d \<Longrightarrow> call_module d \<noteq> call_module c" for d
      using core_moduleUse[OF core, of "call_module c" j] c(4) by auto
    then show "map_of (rt_moduleUse r') m = Some j \<longleftrightarrow> (\<exists>d. map_of (rt_calls r') j = Some d \<and> call_module d = m)"
      using core_moduleUse[OF core, of m j] no_i(2)[of m] by (cases "j = i") (auto simp: calls muse)
  qed
  moreover have "accounts_ok r'"
    unfolding accounts_ok_def
  proof (intro allI)
    fix a j
    show "map_of (rt_accountUse r') a = Some j \<longleftrightarrow> (\<exists>d. map_of (rt_calls r') j = Some d \<and> uses d a)"
    proof (cases "j = i")
      case True
      then show ?thesis using no_i(1)[of a] by (simp add: calls ause)
    next
      case False
      then show ?thesis
        using core_accountUse[OF core, of a j] old_use[of j _ a] by (auto simp: calls ause)
    qed
  qed
  moreover have "regs_ok r'"
    using core i by (fastforce simp: core_inv_def regs_ok_def rest)
  moreover have "legs_ok r'"
    unfolding legs_ok_def
  proof (intro allI impI)
    fix j d rid l
    assume d: "map_of (rt_calls r') j = Some d" and l: "map_of (call_legs d) rid = Some l"
    show "rid \<le> rt_next r' \<and>
        (\<forall>reg. map_of (rt_registrations r') rid = Some reg \<longrightarrow> reg_account reg = leg_account l)"
    proof (cases "j = i")
      case True
      then have "map_of (call_legs c) rid = Some l" using d l by (simp add: calls)
      from legs[OF this] show ?thesis
        using core i by (fastforce simp: core_inv_def regs_ok_def rest)
    next
      case False
      then have "map_of (rt_calls r) j = Some d" using d by (simp add: calls)
      then have "rid \<le> rt_next r \<and>
          (\<forall>reg. map_of (rt_registrations r) rid = Some reg \<longrightarrow> reg_account reg = leg_account l)"
        using core l unfolding core_inv_def legs_ok_def by blast
      then show ?thesis by (simp add: rest i)
    qed
  qed
  ultimately have "core_inv r'"
    using core rest by (simp add: core_inv_def policies_ok_def)
  moreover have "regs_live r'"
    unfolding regs_live_def
  proof (intro allI impI)
    fix j d rid l
    assume d: "map_of (rt_calls r') j = Some d" "map_of (call_legs d) rid = Some l" "\<not> leg_closing l"
      "call_phase d \<noteq> Connected"
    show "map_of (rt_registrations r') rid \<noteq> None"
    proof (cases "j = i")
      case True
      then show ?thesis using d(1,2) legs[of rid l] by (auto simp: calls rest)
    next
      case False
      then show ?thesis using d inv unfolding inv_except_def regs_live_def by (simp add: calls rest)
    qed
  qed
  moreover have "auth_ok {} r'"
    unfolding auth_ok_def
  proof (intro allI impI)
    fix j d rid l
    assume d: "map_of (rt_calls r') j = Some d" "map_of (call_legs d) rid = Some l" "\<not> leg_closing l"
    have "leg_auth r d l"
    proof (cases "j = i")
      case True
      then show ?thesis using d(1,2) legs[of rid l] by (auto simp: calls)
    next
      case False
      then show ?thesis using d inv unfolding inv_except_def auth_ok_def by (simp add: calls)
    qed
    then show "leg_auth r' d l" by (simp add: leg_auth_def perm)
  qed
  moreover have "regs_auth {} r'"
    using inv unfolding inv_except_def regs_auth_def rest by blast
  ultimately show ?thesis by (simp add: inv_except_def)
qed

lemma remove_call_inv:
  assumes inv: "inv_except A r" and c: "map_of (rt_calls r) i = Some c"
    and calls: "map_of (rt_calls r') = (map_of (rt_calls r))(i := None)" "distinct (keys (rt_calls r'))"
    and muse: "map_of (rt_moduleUse r') = (map_of (rt_moduleUse r))(call_module c := None)"
    and ause: "\<And>a. map_of (rt_accountUse r') a = (if uses c a then None else map_of (rt_accountUse r) a)"
    and rest: "rt_now r' = rt_now r" "rt_next r' = rt_next r" "rt_policies r' = rt_policies r"
      "rt_revisions r' = rt_revisions r" "rt_registrations r' = rt_registrations r" "rt_ready r' = rt_ready r"
  shows "inv_except A r'"
proof -
  have core: "core_inv r" using inv by (rule inv_core)
  have perm: "allowed r' = allowed r" "receives r' = receives r"
    by (auto simp: allowed_def receives_def fun_eq_iff rest)
  have old: "map_of (rt_calls r') j = Some d \<Longrightarrow> map_of (rt_calls r) j = Some d" for j d
    by (auto simp: calls split: if_splits)
  have mod: "map_of (rt_calls r) j = Some d \<Longrightarrow> j \<noteq> i \<Longrightarrow> call_module d \<noteq> call_module c" for j d
    using core_module_unique[OF core _ c] by blast
  have acc: "map_of (rt_calls r) j = Some d \<Longrightarrow> j \<noteq> i \<Longrightarrow> uses d a \<Longrightarrow> \<not> uses c a" for j d a
    using core_account_unique[OF core _ c] by blast
  have "keys_ok r'" using core calls(2) rest by (simp add: core_inv_def keys_ok_def)
  moreover have "calls_ok r'" using core old unfolding core_inv_def calls_ok_def rest by blast
  moreover have "modules_ok r'"
    using core_moduleUse[OF core] c mod by (auto simp: modules_ok_def calls muse)
  moreover have "accounts_ok r'"
    using core_accountUse[OF core] c acc by (auto simp: accounts_ok_def calls ause)
  moreover have "legs_ok r'"
    using core old unfolding core_inv_def legs_ok_def rest by blast
  ultimately have "core_inv r'"
    using core rest by (simp add: core_inv_def policies_ok_def regs_ok_def)
  moreover have "regs_live r'" using inv old unfolding inv_except_def regs_live_def rest by blast
  moreover have "auth_ok A r'"
    using inv old unfolding inv_except_def auth_ok_def leg_auth_def perm by blast
  moreover have "regs_auth A r'" using inv unfolding inv_except_def regs_auth_def rest by blast
  ultimately show ?thesis by (simp add: inv_except_def)
qed

subsection \<open>Account operations\<close>

lemma callOfAccount_None:
  assumes core: "core_inv r" and "callOfAccount r a = None" and c: "map_of (rt_calls r) i = Some c"
  shows "\<not> uses c a"
  using callOfAccount_Some[OF core, of a c] core_callD(1)[OF core c] assms(2) c by auto

lemma revoke_split:
  "fst (revoke a reason r) =
     (let r1 = (case callOfAccount r a of None \<Rightarrow> r
                | Some c \<Rightarrow> putCall r (fst (withdrawLegs (\<lambda>_ l. leg_account l = a) reason c)))
      in fst (revokeSome (\<lambda>_ reg. reg_account reg = a) reason (keys (rt_registrations r1)) r1))"
  by (auto simp: revoke_def revokeSome_def split_beta Let_def split: option.splits)

lemma revoke_facts:
  assumes inv: "inv_except A r"
  shows "inv_except A (fst (revoke a reason r))" "same_tables r (fst (revoke a reason r))"
    "quiet a (fst (revoke a reason r))"
    "map_of (rt_registrations (fst (revoke a reason r))) i = Some reg \<Longrightarrow>
       reg_account reg \<noteq> a \<and> map_of (rt_registrations r) i = Some reg"
proof -
  have core: "core_inv r" using inv by (rule inv_core)
  let ?w = "\<lambda>c. fst (withdrawLegs (\<lambda>_ l. leg_account l = a) reason c)"
  define r1 where "r1 = (case callOfAccount r a of None \<Rightarrow> r | Some c \<Rightarrow> putCall r (?w c))"
  have r1: "inv_except A r1 \<and> same_tables r r1 \<and> quiet a r1 \<and> rt_registrations r1 = rt_registrations r"
  proof (cases "callOfAccount r a")
    case None
    then have "quiet a r"
      using callOfAccount_None[OF core] uses_leg unfolding quiet_def by blast
    then show ?thesis using None inv by (simp add: r1_def)
  next
    case (Some c)
    then have c: "map_of (rt_calls r) (call_id c) = Some c" "uses c a"
      using callOfAccount_Some[OF core] by auto
    have ok: "call_ok c" by (rule core_callD(4)[OF core c(1)])
    have ev: "evolves c (?w c)" by (rule withdrawLegs_evolves[OF ok])
    have closed: "leg_closing l"
      if l: "map_of (call_legs (?w c)) rid = Some l" "leg_account l = a" for rid l
    proof (rule withdrawLegs_closed[OF ok l(1)])
      fix d l' assume d: "evolves c d" "map_of (call_legs d) rid = Some l'"
      obtain l0 where "map_of (call_legs c) rid = Some l0" "leg_registration l = leg_registration l0"
        by (rule evolves_leg[OF ev l(1)]) blast
      moreover obtain l1 where "map_of (call_legs c) rid = Some l1" "leg_registration l' = leg_registration l1"
        by (rule evolves_leg[OF d]) blast
      ultimately show "leg_account l' = a" using l(2) by simp
    qed
    have "quiet a (putCall r (?w c))"
      unfolding quiet_def
    proof (intro allI impI)
      fix j d rid l
      assume d: "map_of (rt_calls (putCall r (?w c))) j = Some d" "map_of (call_legs d) rid = Some l"
        "leg_account l = a"
      show "leg_closing l"
      proof (cases "j = call_id c")
        case True
        then show ?thesis using d closed evolves_fields(1)[OF ev] by simp
      next
        case False
        then have "map_of (rt_calls r) j = Some d" using d(1) evolves_fields(1)[OF ev] by simp
        moreover have "uses d a" using d(2,3) by (rule uses_leg)
        ultimately show ?thesis using False core_account_unique[OF core _ c(1) _ c(2)] by blast
      qed
    qed
    then show ?thesis using Some putCall_inv[OF inv c(1) ev] by (simp add: r1_def)
  qed
  have eq: "fst (revoke a reason r) =
      fst (revokeSome (\<lambda>_ reg. reg_account reg = a) reason (keys (rt_registrations r1)) r1)"
    by (simp add: revoke_split r1_def Let_def)
  show "inv_except A (fst (revoke a reason r))" "quiet a (fst (revoke a reason r))"
    unfolding eq using r1 by (auto intro: revokeSome_inv revokeSome_quiet)
  show "same_tables r (fst (revoke a reason r))"
    unfolding eq using r1 revokeSome_frame same_tables_trans by blast
  assume "map_of (rt_registrations (fst (revoke a reason r))) i = Some reg"
  then have "(case map_of (rt_registrations r) i of None \<Rightarrow> None
      | Some reg \<Rightarrow> if i \<in> set (keys (rt_registrations r)) \<and> reg_account reg = a then None else Some reg) = Some reg"
    unfolding eq using r1 revokeSome_registrations[of A r1 "\<lambda>_ reg. reg_account reg = a" "\<lambda>reg. reg_account reg = a"]
    by simp
  then show "reg_account reg \<noteq> a \<and> map_of (rt_registrations r) i = Some reg"
    using map_of_in_keys[of "rt_registrations r" i] by (auto split: option.splits if_splits)
qed

text \<open>Once an account is quiet and has no registration, its policy no longer matters.\<close>

lemma inv_except_quiet:
  assumes "inv_except {a} r" and "quiet a r"
    and "\<And>i reg. map_of (rt_registrations r) i = Some reg \<Longrightarrow> reg_account reg \<noteq> a"
  shows "inv_except {} r"
  using assms unfolding inv_except_def auth_ok_def regs_auth_def quiet_def by blast

lemma DeleteAccount_inv:
  assumes inv: "router_inv r"
  shows "router_inv (fst (DeleteAccount a r))"
proof -
  let ?r1 = "r\<lparr>rt_policies := AList.delete a (rt_policies r), rt_lastDial := AList.delete a (rt_lastDial r)\<rparr>"
  have "core_inv ?r1"
    using inv unfolding router_inv_def inv_except_def core_defs by simp
  moreover have "regs_live ?r1" using inv unfolding router_inv_def inv_except_def regs_live_def by simp
  moreover have "auth_ok {a} ?r1"
    using inv unfolding router_inv_def inv_except_def auth_ok_def leg_auth_def allowed_def receives_def
    by simp
  moreover have "regs_auth {a} ?r1" using inv unfolding router_inv_def inv_except_def regs_auth_def by simp
  ultimately have "inv_except {a} ?r1" by (simp add: inv_except_def)
  then have "inv_except {} (fst (revoke a ''account-deleted'' ?r1))"
    using revoke_facts[of "{a}" ?r1 a] by (intro inv_except_quiet[of a]) blast+
  then show ?thesis by (simp add: router_inv_def DeleteAccount_def)
qed

lemma SuspendAccount_inv: "router_inv r \<Longrightarrow> router_inv (fst (SuspendAccount a r))"
  by (simp add: router_inv_def SuspendAccount_def revoke_facts)

lemma PutPolicy_inv:
  assumes inv: "router_inv r"
  shows "router_inv (fst (PutPolicy p r))"
proof (cases "pol_account p = [] \<or> pol_revision p = 0 \<or> (\<not> pol_all p \<and> pol_modules p = []) \<or> [] \<in> set (pol_modules p)")
  case True
  then show ?thesis using inv by (simp add: PutPolicy_def)
next
  case good: False
  define a where "a = pol_account p"
  define p' where "p' = (if pol_all p then p\<lparr>pol_modules := []\<rparr> else p)"
  define r1 where "r1 = r\<lparr>rt_policies := AList.update a p' (rt_policies r),
      rt_revisions := AList.update a (pol_revision p) (rt_revisions r)\<rparr>"
  define r2 where "r2 = (case map_of (rt_policies r) a of None \<Rightarrow> r1
      | Some q \<Rightarrow> if pol_revision q \<noteq> pol_revision p then fst (revoke a ''credentials-changed'' r1) else r1)"
  define sel where "sel = (\<lambda>(c :: acall) l. leg_account l = a \<and>
      (\<not> allows p' (call_module c) \<or> call_phase c = Ringing \<and> \<not> pol_receive p'))"
  define r3 where "r3 = (case callOfAccount r2 a of None \<Rightarrow> r2
      | Some c \<Rightarrow> putCall r2 (fst (withdrawLegs sel ''permission-changed'' c)))"
  have [simp]: "pol_account p' = a" "pol_revision p' = pol_revision p" "a \<noteq> []"
    using good by (auto simp: p'_def a_def)
  have "fst (PutPolicy p r) = r \<or> fst (PutPolicy p r) = r3"
    using good
    by (auto simp: PutPolicy_def Let_def split_beta r3_def r2_def r1_def sel_def p'_def a_def split: option.splits)
  moreover have "router_inv r3"
  proof -
    have "core_inv r1" using inv unfolding router_inv_def inv_except_def core_defs r1_def by simp
    moreover have "regs_live r1" using inv unfolding router_inv_def inv_except_def regs_live_def r1_def by simp
    moreover have "auth_ok {a} r1"
      using inv unfolding router_inv_def inv_except_def auth_ok_def leg_auth_def allowed_def receives_def r1_def
      by simp
    moreover have "regs_auth {a} r1" using inv unfolding router_inv_def inv_except_def regs_auth_def r1_def by simp
    ultimately have inv1: "inv_except {a} r1" by (simp add: inv_except_def)
    have r2: "inv_except {a} r2 \<and> same_tables r1 r2"
      using inv1 by (auto simp: r2_def revoke_facts split: option.splits)
    then have core2: "core_inv r2" by (simp add: inv_except_def)
    have pol2: "map_of (rt_policies r2) a = Some p'" using r2 by (simp add: same_tables_def r1_def)
    have r3: "inv_except {a} r3 \<and> map_of (rt_policies r3) a = Some p' \<and>
        (\<forall>i c rid l. map_of (rt_calls r3) i = Some c \<longrightarrow> map_of (call_legs c) rid = Some l \<longrightarrow>
           \<not> leg_closing l \<longrightarrow> leg_account l = a \<longrightarrow>
           allows p' (call_module c) \<and> (call_phase c = Ringing \<longrightarrow> pol_receive p'))"
    proof (cases "callOfAccount r2 a")
      case None
      then show ?thesis
        using r2 pol2 callOfAccount_None[OF core2] uses_leg by (simp add: r3_def) blast
    next
      case (Some c)
      then have c: "map_of (rt_calls r2) (call_id c) = Some c" "uses c a"
        using callOfAccount_Some[OF core2] by auto
      let ?c' = "fst (withdrawLegs sel ''permission-changed'' c)"
      have ok: "call_ok c" by (rule core_callD(4)[OF core2 c(1)])
      have ev: "evolves c ?c'" by (rule withdrawLegs_evolves[OF ok])
      have open_leg: "allows p' (call_module c) \<and> (call_phase c = Ringing \<longrightarrow> pol_receive p')"
        if l: "map_of (call_legs ?c') rid = Some l" "\<not> leg_closing l" "leg_account l = a" for rid l
      proof (rule ccontr)
        assume bad: "\<not> (allows p' (call_module c) \<and> (call_phase c = Ringing \<longrightarrow> pol_receive p'))"
        have "leg_closing l"
        proof (rule withdrawLegs_closed[OF ok l(1)])
          fix d l' assume d: "evolves c d" "map_of (call_legs d) rid = Some l'" "call_phase d = call_phase c"
          obtain l0 where "map_of (call_legs c) rid = Some l0" "leg_registration l = leg_registration l0"
            by (rule evolves_leg[OF ev l(1)]) blast
          moreover obtain l1 where "map_of (call_legs c) rid = Some l1" "leg_registration l' = leg_registration l1"
            by (rule evolves_leg[OF d(1,2)]) blast
          ultimately show "sel d l'"
            using l(3) bad d(3) evolves_fields(2)[OF d(1)] by (auto simp: sel_def)
        qed
        with l(2) show False by simp
      qed
      have "inv_except {a} (putCall r2 ?c')" using putCall_inv[OF _ c(1) ev] r2 by blast
      moreover have "allows p' (call_module d) \<and> (call_phase d = Ringing \<longrightarrow> pol_receive p')"
        if d: "map_of (rt_calls (putCall r2 ?c')) i = Some d" "map_of (call_legs d) rid = Some l"
          "\<not> leg_closing l" "leg_account l = a" for i d rid l
      proof (cases "i = call_id c")
        case True
        then have "d = ?c'" using d(1) evolves_fields(1)[OF ev] by simp
        then show ?thesis
          using open_leg[of rid l] d evolves_fields(2)[OF ev] evolves_open[OF ev, of rid l] by metis
      next
        case False
        then have "map_of (rt_calls r2) i = Some d" using d(1) evolves_fields(1)[OF ev] by simp
        moreover have "uses d a" using d(2,4) by (rule uses_leg)
        ultimately show ?thesis using False core_account_unique[OF core2 _ c(1) _ c(2)] by blast
      qed
      ultimately show ?thesis using Some pol2 by (simp add: r3_def)
    qed
    have "auth_ok {} r3"
      unfolding auth_ok_def
    proof (intro allI impI)
      fix i c rid l
      assume c: "map_of (rt_calls r3) i = Some c" "map_of (call_legs c) rid = Some l" "\<not> leg_closing l"
      show "leg_auth r3 c l"
      proof (cases "leg_account l = a")
        case True
        then show ?thesis using r3 c by (auto simp: leg_auth_def allowed_def receives_def)
      next
        case False
        then show ?thesis using r3 c unfolding inv_except_def auth_ok_def by blast
      qed
    qed
    moreover have "regs_auth {} r3"
      using r3 unfolding inv_except_def regs_auth_def by (metis empty_iff option.distinct(1) singletonD)
    ultimately show ?thesis using r3 by (simp add: router_inv_def inv_except_def)
  qed
  ultimately show ?thesis using inv by metis
qed

subsection \<open>Registrations\<close>

lemma Register_inv:
  assumes inv: "router_inv r"
  shows "router_inv (fst (Register a revision ttl r))"
proof -
  have core: "core_inv r" using inv by (simp add: router_inv_def inv_except_def)
  define i where "i = rt_next r + 1"
  define reg where "reg = \<lparr>reg_id = i, reg_account = a, reg_expires = rt_now r + ttl\<rparr>"
  let ?r = "r\<lparr>rt_next := i, rt_registrations := AList.update i reg (rt_registrations r)\<rparr>"
  have "router_inv ?r" if p: "map_of (rt_policies r) a = Some p" for p
  proof -
    have "a \<noteq> []" using core p by (auto simp: core_inv_def policies_ok_def)
    have "calls_ok ?r" using core unfolding core_inv_def calls_ok_def i_def by fastforce
    moreover have "legs_ok ?r"
      unfolding legs_ok_def
    proof (intro allI impI)
      fix j c rid l
      assume "map_of (rt_calls ?r) j = Some c" "map_of (call_legs c) rid = Some l"
      then have "rid \<le> rt_next r \<and>
          (\<forall>reg. map_of (rt_registrations r) rid = Some reg \<longrightarrow> reg_account reg = leg_account l)"
        using core unfolding core_inv_def legs_ok_def by simp
      then show "rid \<le> rt_next ?r \<and>
          (\<forall>reg. map_of (rt_registrations ?r) rid = Some reg \<longrightarrow> reg_account reg = leg_account l)"
        by (auto simp: i_def)
    qed
    moreover have "regs_ok ?r"
      using core \<open>a \<noteq> []\<close> unfolding core_inv_def regs_ok_def
      by (auto simp: i_def reg_def intro: le_SucI)
    ultimately have "core_inv ?r"
      using core by (auto simp: core_inv_def keys_ok_def modules_ok_def accounts_ok_def policies_ok_def)
    moreover have "regs_live ?r" using inv by (simp add: router_inv_def inv_except_def regs_live_def)
    moreover have "auth_ok {} ?r"
      using inv by (simp add: router_inv_def inv_except_def auth_ok_def leg_auth_def allowed_def receives_def)
    moreover have "regs_auth {} ?r"
      using inv p by (auto simp: router_inv_def inv_except_def regs_auth_def reg_def)
    ultimately show ?thesis by (simp add: router_inv_def inv_except_def)
  qed
  then show ?thesis
    using inv by (auto simp: Register_def Let_def i_def reg_def split: option.splits)
qed

lemma Refresh_inv:
  assumes inv: "router_inv r"
  shows "router_inv (fst (Refresh reg ttl r))"
proof -
  have core: "core_inv r" using inv by (simp add: router_inv_def inv_except_def)
  have "router_inv (r\<lparr>rt_registrations := AList.update (reg_id cur) (cur\<lparr>reg_expires := t\<rparr>) (rt_registrations r)\<rparr>)"
    (is "router_inv ?r") if cur: "map_of (rt_registrations r) (reg_id reg) = Some cur" for cur t
  proof -
    have id: "reg_id cur = reg_id reg" using core cur by (simp add: core_inv_def regs_ok_def)
    have "legs_ok ?r"
      using core cur id unfolding core_inv_def legs_ok_def by auto
    moreover have "regs_ok ?r" using core cur id unfolding core_inv_def regs_ok_def by auto
    ultimately have "core_inv ?r"
      using core by (auto simp: core_inv_def keys_ok_def calls_ok_def modules_ok_def accounts_ok_def policies_ok_def)
    moreover have "regs_live ?r" using inv by (simp add: router_inv_def inv_except_def regs_live_def)
    moreover have "auth_ok {} ?r"
      using inv by (simp add: router_inv_def inv_except_def auth_ok_def leg_auth_def allowed_def receives_def)
    moreover have "regs_auth {} ?r"
      using inv cur id by (auto simp: router_inv_def inv_except_def regs_auth_def)
    ultimately show ?thesis by (simp add: router_inv_def inv_except_def)
  qed
  then show ?thesis
    using inv by (auto simp: Refresh_def Let_def split: option.splits)
qed

lemma Logout_inv: "router_inv r \<Longrightarrow> router_inv (fst (Logout reg r))"
  by (auto simp: Logout_def router_inv_def Let_def split_beta revokeRegistration_inv split: option.splits)

end
