(* ===== verification/Router_Lifecycle.thy ===== *)
theory Router_Lifecycle
  imports Router_Ops
begin

text \<open>
  The call-side operations keep the invariant: offering and dialling a call, answering,
  connecting, hanging up, the two cleanup confirmations and the timer.
\<close>

lemma inv0: "router_inv r \<longleftrightarrow> inv_except {} r"
  by (simp add: router_inv_def)

lemma SetModuleReady_inv:
  assumes inv: "router_inv r"
  shows "router_inv (fst (SetModuleReady m rdy r))"
proof -
  let ?r1 = "r\<lparr>rt_ready := AList.update m rdy (rt_ready r)\<rparr>"
  have inv1: "inv_except {} ?r1"
    using inv unfolding inv0 inv_defs core_defs leg_auth_def allowed_def receives_def
    by (simp add: distinct_keys_update)
  have "inv_except {} (putCall ?r1 (fst (endCall reason c)))" if "callOfModule ?r1 m = Some c" for c reason
  proof -
    have c: "map_of (rt_calls ?r1) (call_id c) = Some c"
      using that callOfModule_Some[OF inv_core[OF inv1]] by blast
    show ?thesis
      by (rule putCall_inv[OF inv1 c endCall_evolves[OF core_callD(4)[OF inv_core[OF inv1] c]]])
  qed
  then show ?thesis
    using inv inv1 by (auto simp: SetModuleReady_def inv0 Let_def split_beta split: option.splits)
qed

lemma Hangup_inv:
  assumes inv: "router_inv r"
  shows "router_inv (fst (Hangup reg i r))"
proof -
  have inv1: "inv_except {} r" using inv by (simp add: inv0)
  have "inv_except {} (putCall r (fst (withdraw reason rid c)))" if c: "map_of (rt_calls r) i = Some c" for c reason rid
    by (rule putCall_inv[OF inv1 c withdraw_evolves[OF core_callD(4)[OF inv_core[OF inv1] c]]])
  then show ?thesis
    using inv by (auto simp: Hangup_def inv0 Let_def split_beta split: option.splits)
qed

lemma markConnected_inv:
  assumes inv: "router_inv r"
  shows "router_inv (fst (markConnected i r))"
proof -
  have inv1: "inv_except {} r" using inv by (simp add: inv0)
  have "inv_except {} (putCall r (c\<lparr>call_phase := Connected, call_deadline := 0\<rparr>))" (is "inv_except {} (putCall r ?c)")
    if c: "map_of (rt_calls r) i = Some c" and ph: "call_phase c = Dialing \<or> call_phase c = Connecting" for c
  proof (rule putCall_inv_advances[OF inv1 c])
    have ok: "call_ok c" by (rule core_callD(4)[OF inv_core[OF inv1] c])
    have "call_ok ?c" using ok ph unfolding call_ok_def by auto
    moreover have "uses ?c a = uses c a" for a by (simp add: uses_def)
    moreover have "\<not> call_moduleClosed c" using ok ph by (auto simp: call_ok_def)
    ultimately show "advances c ?c" by (auto simp: advances_def)
    show "\<And>a. uses c a \<Longrightarrow> uses ?c a" by (simp add: uses_def)
  qed
  then show ?thesis
    using inv by (auto simp: markConnected_def inv0 Let_def split: option.splits)
qed

lemma Answer_inv:
  assumes inv: "router_inv r"
  shows "router_inv (fst (Answer reg i r))"
proof -
  have inv1: "inv_except {} r" using inv by (simp add: inv0)
  have core: "core_inv r" by (rule inv_core[OF inv1])
  have ended: "inv_except {} (putCall r (fst (endCall reason c)))" if c: "map_of (rt_calls r) i = Some c" for c reason
    by (rule putCall_inv[OF inv1 c endCall_evolves[OF core_callD(4)[OF core c]]])
  have answered: "inv_except {} (putCall r (fst (each
        (\<lambda>other c. if other \<noteq> reg_id reg then closeLeg ''answered-elsewhere'' other c else (c, []))
        (keys (call_legs c1)) c1)))"
    if c: "map_of (rt_calls r) i = Some c" and l: "map_of (call_legs c) (reg_id reg) = Some l"
      and v: "valid r reg" and ph: "call_phase c = Ringing" and op: "\<not> leg_closing l"
      and c1: "c1 = c\<lparr>call_phase := Connecting, call_winner := reg_id reg,
          call_deadline := rt_now r + seconds 30, call_ownerAccount := reg_account reg\<rparr>" for c l c1
  proof -
    let ?c2 = "c1\<lparr>call_legs := shutLegs (- {reg_id reg}) (call_legs c)\<rparr>"
    have ok: "call_ok c" by (rule core_callD(4)[OF core c])
    have eq: "fst (each (\<lambda>other c. if other \<noteq> reg_id reg then closeLeg ''answered-elsewhere'' other c else (c, []))
        (keys (call_legs c1)) c1) = ?c2"
      using each_closeLeg_eq[of c1 "- {reg_id reg}" "''answered-elsewhere''" "keys (call_legs c1)"] ok
        shutLegs_keys[of "call_legs c" "- {reg_id reg}"] by (simp add: c1 call_ok_def)
    obtain cur where "map_of (rt_registrations r) (reg_id reg) = Some cur" "reg_account cur = reg_account reg"
      using v by (auto simp: valid_def split: option.splits)
    then have acc: "leg_account l = reg_account reg"
      using core c l unfolding core_inv_def legs_ok_def by metis
    have now: "0 \<le> rt_now r" using core by (simp add: core_inv_def)
    have "call_ok ?c2"
      using ok ph l op acc now
      unfolding call_ok_def c1 by (auto simp: seconds_def)
    moreover have us: "uses ?c2 a = uses c a" for a
    proof -
      have "call_ownerAccount c = []" using ok ph by (simp add: call_ok_def)
      moreover have "(\<exists>rid l. map_of (call_legs c) rid = Some l \<and> leg_account l = a)"
        if "reg_account reg = a" using l acc that by blast
      ultimately show ?thesis
        using leg_account_shutLegs[of "- {reg_id reg}" "call_legs c" a] by (simp add: uses_def c1) blast
    qed
    moreover have "\<not> call_moduleClosed c" using ok ph by (auto simp: call_ok_def)
    ultimately have "advances c ?c2" using ph by (auto simp: advances_def c1)
    then show ?thesis unfolding eq by (rule putCall_inv_advances[OF inv1 c]) (simp add: us)
  qed
  show ?thesis
  proof (cases "valid r reg")
    case True
    then show ?thesis
      using inv ended answered
      by (auto simp: Answer_def inv0 Let_def split_beta split: option.splits)
  qed (simp add: Answer_def inv)
qed

text \<open>The legs and the account table after adding several legs.\<close>

definition mkLeg :: "registration \<Rightarrow> leg" where
  "mkLeg reg = \<lparr>leg_registration = reg, leg_closing = False\<rparr>"

lemma each_addLeg:
  assumes "distinct (map reg_id regs)" and "call_id c = i" and "distinct (keys (rt_calls r))"
    and "distinct (keys (call_legs c))"
  shows "\<exists>r' c'. fst (each (\<lambda>reg rc. (addLeg reg rc, f reg)) regs (r, c)) = (r', c') \<and>
    c' = c\<lparr>call_legs := call_legs c'\<rparr> \<and> distinct (keys (call_legs c')) \<and>
    map_of (call_legs c') = map_of (call_legs c) ++ map_of (map (\<lambda>reg. (reg_id reg, mkLeg reg)) regs) \<and>
    r' = r\<lparr>rt_calls := rt_calls r', rt_accountUse := rt_accountUse r'\<rparr> \<and>
    distinct (keys (rt_calls r')) \<and>
    map_of (rt_calls r') = (if regs = [] then map_of (rt_calls r) else (map_of (rt_calls r))(i \<mapsto> c')) \<and>
    map_of (rt_accountUse r') =
      (\<lambda>a. if a \<in> reg_account ` set regs then Some i else map_of (rt_accountUse r) a)"
  using assms
proof (induction regs arbitrary: r c)
  case Nil
  then show ?case by simp
next
  case (Cons reg regs)
  define c1 where "c1 = c\<lparr>call_legs := AList.update (reg_id reg) (mkLeg reg) (call_legs c)\<rparr>"
  define r1 where "r1 = putCall (r\<lparr>rt_accountUse := AList.update (reg_account reg) i (rt_accountUse r)\<rparr>) c1"
  have add: "addLeg reg (r, c) = (r1, c1)"
    using Cons.prems(2) by (simp add: addLeg_def c1_def r1_def mkLeg_def Let_def)
  have hyp: "distinct (map reg_id regs)" "call_id c1 = i" "distinct (keys (rt_calls r1))"
    "distinct (keys (call_legs c1))"
    using Cons.prems by (simp_all add: c1_def r1_def distinct_keys_update)
  obtain r' c' where rc: "fst (each (\<lambda>reg rc. (addLeg reg rc, f reg)) regs (r1, c1)) = (r', c')"
    and p: "c' = c1\<lparr>call_legs := call_legs c'\<rparr>" "distinct (keys (call_legs c'))"
    "map_of (call_legs c') = map_of (call_legs c1) ++ map_of (map (\<lambda>reg. (reg_id reg, mkLeg reg)) regs)"
    "r' = r1\<lparr>rt_calls := rt_calls r', rt_accountUse := rt_accountUse r'\<rparr>" "distinct (keys (rt_calls r'))"
    "map_of (rt_calls r') = (if regs = [] then map_of (rt_calls r1) else (map_of (rt_calls r1))(i \<mapsto> c'))"
    "map_of (rt_accountUse r') =
      (\<lambda>a. if a \<in> reg_account ` set regs then Some i else map_of (rt_accountUse r1) a)"
    using Cons.IH[OF hyp] by blast
  have "map_of (map (\<lambda>reg. (reg_id reg, mkLeg reg)) regs) (reg_id reg) = None"
    using Cons.prems(1) by (force simp: map_of_eq_None_iff)
  then have legs: "map_of (call_legs c') = map_of (call_legs c) ++
      map_of (map (\<lambda>reg. (reg_id reg, mkLeg reg)) (reg # regs))"
    unfolding p(3) by (auto simp: c1_def fun_eq_iff map_add_def split: option.splits)
  have c': "regs = [] \<Longrightarrow> c' = c1" using rc by simp
  have "fst (each (\<lambda>reg rc. (addLeg reg rc, f reg)) (reg # regs) (r, c)) = (r', c')"
    using rc by (simp add: add split_beta)
  moreover have "c' = c\<lparr>call_legs := call_legs c'\<rparr>" using p(1) by (metis (no_types) acall.surjective acall.update_convs(6) c1_def)
  moreover have "r' = r\<lparr>rt_calls := rt_calls r', rt_accountUse := rt_accountUse r'\<rparr>"
    using p(4) by (cases r, cases r') (simp add: r1_def putCall_def)
  moreover have "map_of (rt_calls r') =
      (if reg # regs = [] then map_of (rt_calls r) else (map_of (rt_calls r))(i \<mapsto> c'))"
    using p(6) c' hyp(2) by (auto simp: r1_def)
  moreover have "map_of (rt_accountUse r') =
      (\<lambda>a. if a \<in> reg_account ` set (reg # regs) then Some i else map_of (rt_accountUse r) a)"
    unfolding p(7) by (auto simp: r1_def fun_eq_iff)
  ultimately show ?case using legs p(2,5) by blast
qed

lemma legs_mkLeg:
  assumes "map_of (map (\<lambda>reg. (reg_id reg, mkLeg reg)) regs) rid = Some l"
  obtains reg where "reg \<in> set regs" "reg_id reg = rid" "l = mkLeg reg"
  using map_of_SomeD[OF assms] by auto

lemma mkLeg_simps [simp]: "leg_registration (mkLeg reg) = reg" "\<not> leg_closing (mkLeg reg)"
  by (simp_all add: mkLeg_def)

text \<open>A new call whose legs are valid registrations of free, allowed accounts.\<close>

lemma offer_inv:
  assumes inv: "inv_except {} r" and regs: "distinct (map reg_id regs)" "regs \<noteq> []"
    and ok: "\<And>reg. reg \<in> set regs \<Longrightarrow> valid r reg \<and> allowed r (reg_account reg) m \<and>
        (ph = Ringing \<longrightarrow> receives r (reg_account reg)) \<and> get0 (rt_accountUse r) (reg_account reg) = 0"
    and m: "get0 (rt_moduleUse r) m = 0" and pos: "0 < timeout"
    and ph: "ph = Ringing \<and> winner = 0 \<and> owner = [] \<or>
        ph = Dialing \<and> (\<exists>reg. regs = [reg] \<and> winner = reg_id reg \<and> owner = reg_account reg)"
    and nc: "newCall m ph timeout r = (r1, c)"
    and fin: "fst (each (\<lambda>reg rc. (addLeg reg rc, f reg)) regs
        (r1\<lparr>rt_lastDial := ld\<rparr>, c\<lparr>call_winner := winner, call_ownerAccount := owner\<rparr>)) = (r', c')"
  shows "inv_except {} r'"
proof -
  have core: "core_inv r" by (rule inv_core[OF inv])
  define i where "i = rt_next r + 1"
  let ?c1 = "c\<lparr>call_winner := winner, call_ownerAccount := owner\<rparr>"
  let ?r1 = "r1\<lparr>rt_lastDial := ld\<rparr>"
  have c: "call_id c = i" "call_module c = m" "call_phase c = ph" "call_deadline c = rt_now r + timeout"
    "call_legs c = []" "\<not> call_moduleClosed c"
    using nc by (auto simp: newCall_def i_def Let_def)
  have r1: "r1 = r\<lparr>rt_next := i, rt_calls := AList.update i c (rt_calls r),
      rt_moduleUse := AList.update m i (rt_moduleUse r)\<rparr>"
    using nc by (auto simp: newCall_def i_def Let_def)
  have dk: "distinct (keys (rt_calls ?r1))" using core by (simp add: r1 core_inv_def keys_ok_def distinct_keys_update)
  have "\<exists>r'' c''. fst (each (\<lambda>reg rc. (addLeg reg rc, f reg)) regs (?r1, ?c1)) = (r'', c'') \<and>
      c'' = ?c1\<lparr>call_legs := call_legs c''\<rparr> \<and> distinct (keys (call_legs c'')) \<and>
      map_of (call_legs c'') = map_of (call_legs ?c1) ++ map_of (map (\<lambda>reg. (reg_id reg, mkLeg reg)) regs) \<and>
      r'' = ?r1\<lparr>rt_calls := rt_calls r'', rt_accountUse := rt_accountUse r''\<rparr> \<and>
      distinct (keys (rt_calls r'')) \<and>
      map_of (rt_calls r'') = (if regs = [] then map_of (rt_calls ?r1) else (map_of (rt_calls ?r1))(i \<mapsto> c'')) \<and>
      map_of (rt_accountUse r'') =
        (\<lambda>a. if a \<in> reg_account ` set regs then Some i else map_of (rt_accountUse ?r1) a)"
    using each_addLeg[OF regs(1), of ?c1 i ?r1 f] dk c by simp
  then have p: "c' = ?c1\<lparr>call_legs := call_legs c'\<rparr>" "distinct (keys (call_legs c'))"
    "map_of (call_legs c') = map_of (map (\<lambda>reg. (reg_id reg, mkLeg reg)) regs)"
    "r' = ?r1\<lparr>rt_calls := rt_calls r', rt_accountUse := rt_accountUse r'\<rparr>" "distinct (keys (rt_calls r'))"
    "map_of (rt_calls r') = (map_of (rt_calls r))(i \<mapsto> c')"
    "map_of (rt_accountUse r') =
      (\<lambda>a. if a \<in> reg_account ` set regs then Some i else map_of (rt_accountUse r) a)"
    unfolding fin using regs(2) c(5) by (auto simp: r1)
  have c': "call_id c' = i" "call_module c' = m" "call_phase c' = ph" "call_deadline c' = rt_now r + timeout"
    "\<not> call_moduleClosed c'" "call_winner c' = winner" "call_ownerAccount c' = owner"
    by (subst p(1), simp add: c)+
  have grant: "\<exists>cur. map_of (rt_registrations r) (reg_id reg) = Some cur \<and> reg_account cur = reg_account reg \<and>
      reg_id reg \<noteq> 0 \<and> reg_account reg \<noteq> []" if reg: "reg \<in> set regs" for reg
  proof -
    obtain cur where "map_of (rt_registrations r) (reg_id reg) = Some cur" "reg_account cur = reg_account reg"
      using ok[OF reg] by (auto simp: valid_def split: option.splits)
    then show ?thesis using core unfolding core_inv_def regs_ok_def by force
  qed
  have leg: "\<exists>reg \<in> set regs. reg_id reg = rid \<and> l = mkLeg reg" if "map_of (call_legs c') rid = Some l" for rid l
    using that unfolding p(3) by (blast elim: legs_mkLeg)
  have leg_of: "map_of (call_legs c') (reg_id reg) = Some (mkLeg reg)" if "reg \<in> set regs" for reg
    unfolding p(3) using that regs(1) by (intro map_of_is_SomeI) (auto simp: comp_def)
  have now: "0 \<le> rt_now r" using core by (simp add: core_inv_def)
  have "\<not> all_closing (call_legs c')"
    using leg_of[of "hd regs"] regs(2) p(2) by (simp add: all_closing_map_of) (metis mkLeg_simps(2))
  note some_open = this
  have base: "reg_id (leg_registration l) = rid \<and> rid \<noteq> 0 \<and> leg_account l \<noteq> []"
    if l: "map_of (call_legs c') rid = Some l" for rid l
  proof -
    obtain reg where "reg \<in> set regs" "reg_id reg = rid" "l = mkLeg reg" using leg[OF l] by blast
    then show ?thesis using grant[of reg] by auto
  qed
  then have base_all: "\<forall>rid l. map_of (call_legs c') rid = Some l \<longrightarrow>
      reg_id (leg_registration l) = rid \<and> rid \<noteq> 0 \<and> leg_account l \<noteq> []" by blast
  have dl: "0 < call_deadline c'" using now pos c' by simp
  have dial: "(\<exists>l. map_of (call_legs c') (call_winner c') = Some l \<and> \<not> leg_closing l \<and>
        call_ownerAccount c' = leg_account l) \<and>
      (\<forall>rid l. map_of (call_legs c') rid = Some l \<and> rid \<noteq> call_winner c' \<longrightarrow> leg_closing l)" if "ph = Dialing"
  proof -
    obtain reg where reg: "regs = [reg]" "winner = reg_id reg" "owner = reg_account reg" using ph \<open>ph = Dialing\<close> by auto
    then have "map_of (call_legs c') (call_winner c') = Some (mkLeg reg)" using leg_of[of reg] c' by simp
    moreover have "rid = call_winner c'" if "map_of (call_legs c') rid = Some l" for rid l
      using leg[OF that] reg c' by simp
    moreover have "call_ownerAccount c' = leg_account (mkLeg reg)" "\<not> leg_closing (mkLeg reg)"
      using reg c' by simp_all
    ultimately show ?thesis by blast
  qed
  from ph have "call_ok c'"
  proof
    assume r: "ph = Ringing \<and> winner = 0 \<and> owner = []"
    show ?thesis
      unfolding call_ok_def
      by (intro conjI p(2) base_all) (use some_open dl c' r in simp_all)
  next
    assume d: "ph = Dialing \<and> (\<exists>reg. regs = [reg] \<and> winner = reg_id reg \<and> owner = reg_account reg)"
    then have "ph = Dialing" by simp
    from dial[OF this] show ?thesis
      unfolding call_ok_def c'(3) \<open>ph = Dialing\<close>
      by (intro conjI p(2) base_all) (use dl c'(5) in simp_all)
  qed
  moreover have us: "uses c' a \<longleftrightarrow> a \<in> reg_account ` set regs" for a
  proof
    assume "uses c' a"
    then consider "a \<noteq> []" "owner = a" | rid l where "map_of (call_legs c') rid = Some l" "leg_account l = a"
      by (auto simp: uses_def c')
    then show "a \<in> reg_account ` set regs"
    proof cases
      case 1
      then show ?thesis using ph by auto
    next
      case 2
      then obtain reg where "reg \<in> set regs" "l = mkLeg reg" using leg by blast
      with 2 show ?thesis by auto
    qed
  next
    assume "a \<in> reg_account ` set regs"
    then obtain reg where "reg \<in> set regs" "a = reg_account reg" by auto
    then show "uses c' a" using uses_leg[OF leg_of] by simp
  qed
  moreover have rest: "rt_now r' = rt_now r" "rt_next r' = i" "rt_policies r' = rt_policies r"
    "rt_revisions r' = rt_revisions r" "rt_registrations r' = rt_registrations r" "rt_ready r' = rt_ready r"
    by (subst p(4), simp add: r1)+
  ultimately show ?thesis
  proof (intro new_call_inv[OF inv i_def, of c'])
    show "map_of (rt_moduleUse r) (call_module c') = None" using m core_get0_module[OF core] c' by simp
    show "(\<exists>reg. map_of (rt_registrations r) rid = Some reg \<and> reg_account reg = leg_account l) \<and>
        map_of (rt_accountUse r) (leg_account l) = None \<and> leg_auth r c' l"
      if "map_of (call_legs c') rid = Some l" for rid l
      using leg[OF that] ok grant core_get0_account[OF core] c' by (force simp: leg_auth_def)
    show "\<exists>rid l. map_of (call_legs c') rid = Some l \<and> leg_account l = call_ownerAccount c'"
      if "call_ownerAccount c' \<noteq> []"
      using that ph c' leg_of by fastforce
    show "map_of (rt_moduleUse r') = (map_of (rt_moduleUse r))(call_module c' \<mapsto> i)"
      by (subst p(4)) (simp add: r1 c')
  qed (use c' p(5-7) us rest in simp_all)
qed

lemma dialChoices_nonempty:
  assumes "core_inv r" and "eligibleModules a r \<noteq> []"
  shows "dialChoices a r \<noteq> []"
proof -
  have d: "distinct (eligibleModules a r)"
    using assms(1) by (auto simp: eligibleModules_def core_inv_def keys_ok_def distinct_map_filter)
  have "\<exists>x \<in> set xs. x \<noteq> l" if "distinct xs" "1 < length xs" for xs :: "string list" and l
    using that by (cases xs; cases "tl xs") auto
  then show ?thesis
    using assms(2) d unfolding dialChoices_def Let_def set_empty[symmetric] set_sort
    by (auto simp: filter_empty_conv simp del: set_empty)
qed

lemma Dial_inv:
  assumes inv: "router_inv r"
  shows "router_inv (fst (Dial reg seed r))"
proof (cases "valid r reg \<and> get0 (rt_accountUse r) (reg_account reg) = 0 \<and> eligibleModules (reg_account reg) r \<noteq> []")
  case False
  then show ?thesis using inv by (auto simp: Dial_def)
next
  case True
  have core: "core_inv r" using inv by (simp add: inv0 inv_except_def)
  let ?a = "reg_account reg"
  let ?ch = "dialChoices ?a r"
  define m where "m = ?ch ! (seed mod length ?ch)"
  have ne: "?ch \<noteq> []"
    using dialChoices_nonempty[OF core] True by blast
  then have "m \<in> set ?ch" unfolding m_def by (intro nth_mem) simp
  then have "m \<in> set (eligibleModules ?a r)" by (auto simp: dialChoices_def Let_def split: if_splits)
  then have m: "get0 (rt_moduleUse r) m = 0" "allowed r ?a m" by (auto simp: eligibleModules_def)
  obtain r1 c where nc: "newCall m Dialing (seconds 60) r = (r1, c)" by fastforce
  have cm: "call_module c = m" using nc by (auto simp: newCall_def Let_def)
  obtain r3 c2 where fin: "fst (each (\<lambda>reg rc. (addLeg reg rc, [] :: action list)) [reg]
      (r1\<lparr>rt_lastDial := AList.update ?a m (rt_lastDial r1)\<rparr>,
       c\<lparr>call_winner := reg_id reg, call_ownerAccount := ?a\<rparr>)) = (r3, c2)"
    by fastforce
  have "fst (Dial reg seed r) = r3"
    using True nc fin cm by (simp add: Dial_def Let_def split_beta flip: m_def)
  moreover have "inv_except {} r3"
    by (rule offer_inv[OF _ _ _ _ _ _ _ nc fin]) (use inv True m in \<open>auto simp: inv0 seconds_def\<close>)
  ultimately show ?thesis by (simp add: inv0)
qed

lemma incomingTargets_distinct:
  assumes "core_inv r"
  shows "distinct (map reg_id (incomingTargets m r))"
proof -
  have "map reg_id (map snd (rt_registrations r)) = keys (rt_registrations r)"
    using assms by (auto simp: core_inv_def regs_ok_def keys_ok_def map_of_eq_Some_iff)
  moreover have "distinct (keys (rt_registrations r))"
    using assms by (simp add: core_inv_def keys_ok_def)
  ultimately have "distinct (map reg_id (map snd (rt_registrations r)))" by metis
  then have "distinct (map reg_id (filter P (map snd (rt_registrations r))))" for P
    by (rule distinct_map_filter)
  then show ?thesis unfolding incomingTargets_def by (simp add: distinct_map)
qed

lemma Incoming_inv:
  assumes inv: "router_inv r"
  shows "router_inv (fst (Incoming m r))"
proof (cases "map_of (rt_ready r) m = Some True \<and> get0 (rt_moduleUse r) m = 0 \<and> incomingTargets m r \<noteq> []")
  case False
  then show ?thesis using inv by (auto simp: Incoming_def Let_def)
next
  case True
  have core: "core_inv r" using inv by (simp add: inv0 inv_except_def)
  obtain r1 c where nc: "newCall m Ringing (seconds 30) r = (r1, c)" by fastforce
  have c: "r1\<lparr>rt_lastDial := rt_lastDial r1\<rparr> = r1" "c\<lparr>call_winner := 0, call_ownerAccount := []\<rparr> = c"
    using nc by (auto simp: newCall_def Let_def)
  obtain r2 c2 where fin: "fst (each (\<lambda>reg rc. (addLeg reg rc, [mkAction Ring (call_id c) (reg_id reg) m []]))
      (incomingTargets m r) (r1\<lparr>rt_lastDial := rt_lastDial r1\<rparr>,
        c\<lparr>call_winner := 0, call_ownerAccount := []\<rparr>)) = (r2, c2)"
    by fastforce
  have "fst (Incoming m r) = r2"
    using True nc fin unfolding c by (simp add: Incoming_def Let_def split_beta)
  moreover have "inv_except {} r2"
    by (rule offer_inv[OF _ incomingTargets_distinct[OF core] _ _ _ _ _ nc fin])
       (use inv True in \<open>auto simp: inv0 seconds_def incomingTargets_def\<close>)
  ultimately show ?thesis by (simp add: inv0)
qed

subsection \<open>Cleanup confirmations\<close>

text \<open>\<open>finish\<close> on a call that has been put back: the call goes away exactly when nothing is left.\<close>

lemma finish_cases:
  assumes "map_of (rt_calls r) (call_id c) = Some c" and "distinct (keys (rt_calls r))"
  shows "if call_moduleClosed c \<and> call_legs c = []
    then map_of (rt_calls (finish c r)) = (map_of (rt_calls r))(call_id c := None) \<and>
      distinct (keys (rt_calls (finish c r))) \<and>
      map_of (rt_moduleUse (finish c r)) =
        (if get0 (rt_moduleUse r) (call_module c) = call_id c
         then (map_of (rt_moduleUse r))(call_module c := None) else map_of (rt_moduleUse r)) \<and>
      map_of (rt_accountUse (finish c r)) =
        (if call_ownerAccount c \<noteq> [] \<and> get0 (rt_accountUse r) (call_ownerAccount c) = call_id c
         then (map_of (rt_accountUse r))(call_ownerAccount c := None) else map_of (rt_accountUse r)) \<and>
      rt_now (finish c r) = rt_now r \<and> rt_next (finish c r) = rt_next r \<and>
      rt_policies (finish c r) = rt_policies r \<and> rt_revisions (finish c r) = rt_revisions r \<and>
      rt_registrations (finish c r) = rt_registrations r \<and> rt_ready (finish c r) = rt_ready r
    else finish c r = r"
  using assms by (auto simp: finish_def Let_def distinct_keys_delete)

lemma call_ok_moduleClosed:
  "call_ok d \<Longrightarrow> call_phase d = Ending \<Longrightarrow> call_ok (d\<lparr>call_moduleClosed := True\<rparr>)"
  by (simp add: call_ok_def)

lemma ModuleClosed_inv:
  assumes inv: "router_inv r"
  shows "router_inv (fst (ModuleClosed i r))"
proof (cases "map_of (rt_calls r) i")
  case None
  then show ?thesis using inv by (simp add: ModuleClosed_def)
next
  case (Some c)
  have inv1: "inv_except {} r" using inv by (simp add: inv0)
  have core: "core_inv r" by (rule inv_core[OF inv1])
  have ok: "call_ok c" and id: "call_id c = i" using core_callD[OF core Some] by auto
  define c1 where "c1 = (ended c)\<lparr>call_moduleClosed := True\<rparr>"
  have ends: "fst (endCall ''module-ended'' (c\<lparr>call_moduleClosed := True\<rparr>)) = c1"
  proof (cases "call_phase c = Ending")
    case True
    then have "ended c = c"
      using ok shutLegs_closed[of "call_legs c" UNIV]
      by (simp add: ended_def call_ok_def all_closing_def)
    then show ?thesis using True ok by (simp add: endCall_eq call_ok_def c1_def)
  next
    case False
    then show ?thesis using ok by (simp add: endCall_eq call_ok_def c1_def ended_def)
  qed
  have res: "fst (ModuleClosed i r) = finish c1 (putCall r c1)"
    using Some ends by (simp add: ModuleClosed_def split_beta Let_def)
  have c1: "call_id c1 = i" "call_module c1 = call_module c" "call_ownerAccount c1 = call_ownerAccount c"
    "call_moduleClosed c1" "call_legs c1 = shutLegs UNIV (call_legs c)" "call_phase c1 = Ending"
    using id by (simp_all add: c1_def ended_def)
  have us: "uses c1 a = uses c a" for a
    using leg_account_shutLegs[of UNIV "call_legs c" a] by (simp add: uses_def c1)
  have fc: "map_of (rt_calls (putCall r c1)) (call_id c1) = Some c1" "distinct (keys (rt_calls (putCall r c1)))"
    using core by (auto simp: core_inv_def keys_ok_def)
  show ?thesis
  proof (cases "call_legs c = []")
    case True
    then have usc: "uses c a \<longleftrightarrow> a \<noteq> [] \<and> call_ownerAccount c = a" for a by (simp add: uses_def)
    have m: "map_of (rt_moduleUse r) (call_module c) = Some i" using core_moduleUse[OF core] Some by blast
    have o: "call_ownerAccount c \<noteq> [] \<Longrightarrow> map_of (rt_accountUse r) (call_ownerAccount c) = Some i"
      using core_accountUse[OF core] Some usc by blast
    have "inv_except {} (finish c1 (putCall r c1))"
      by (rule remove_call_inv[OF inv1 Some])
         (use finish_cases[OF fc] True c1 m o usc in \<open>auto simp: get0_def fun_eq_iff\<close>)
    then show ?thesis using res by (simp add: inv0)
  next
    case False
    have "call_ok c1"
      unfolding c1_def by (rule call_ok_moduleClosed[OF call_ok_ended[OF ok]]) (simp add: ended_def)
    then have "advances c c1"
      using False us c1 id by (auto simp: advances_def)
    then have "inv_except {} (putCall r c1)"
      by (rule putCall_inv_advances[OF inv1 Some]) (simp add: us)
    moreover have "finish c1 (putCall r c1) = putCall r c1"
      using finish_cases[OF fc] False c1 by simp
    ultimately show ?thesis using res by (simp add: inv0)
  qed
qed

lemma ClientClosed_inv:
  assumes inv: "router_inv r"
  shows "router_inv (fst (ClientClosed i rid r))"
proof (cases "\<exists>c. map_of (rt_calls r) i = Some c \<and> map_of (call_legs c) rid \<noteq> None")
  case False
  then show ?thesis using inv by (auto simp: ClientClosed_def split: option.splits)
next
  case True
  then obtain c l0 where c: "map_of (rt_calls r) i = Some c" and l0: "map_of (call_legs c) rid = Some l0" by auto
  have inv1: "inv_except {} r" using inv by (simp add: inv0)
  have core: "core_inv r" by (rule inv_core[OF inv1])
  have ok: "call_ok c" and id: "call_id c = i" using core_callD[OF core c] by auto
  define c1 where "c1 = fst (withdraw ''client-ended'' rid c)"
  have ev: "evolves c c1" unfolding c1_def by (rule withdraw_evolves[OF ok])
  have ok1: "call_ok c1" by (rule evolves_ok[OF ev])
  obtain l where l: "map_of (call_legs c1) rid = Some l" using evolves_leg_back[OF ev l0] by blast
  have closing: "leg_closing l" using withdraw_closes[OF ok] l by (simp add: c1_def)
  define acc where "acc = leg_account l"
  define c2 where "c2 = c1\<lparr>call_legs := AList.delete rid (call_legs c1)\<rparr>"
  have f1: "call_id c1 = i" "call_module c1 = call_module c" "call_ownerAccount c1 = call_ownerAccount c"
    "call_moduleClosed c1 = call_moduleClosed c" using evolves_fields[OF ev] id by auto
  have c2: "call_id c2 = i" "call_module c2 = call_module c" "call_ownerAccount c2 = call_ownerAccount c"
    "call_moduleClosed c2 = call_moduleClosed c" "call_phase c2 = call_phase c1"
    "map_of (call_legs c2) = (map_of (call_legs c1))(rid := None)" "distinct_legs c2"
    using f1 call_ok_distinct[OF ok1] by (simp_all add: c2_def distinct_keys_delete)
  have us1: "uses c1 a = uses c a" for a by (rule uses_evolves[OF ev])
  have us2: "uses c a \<longleftrightarrow> uses c2 a \<or> a = acc" for a
  proof -
    have "(\<exists>k l. map_of (call_legs c1) k = Some l \<and> leg_account l = a) \<longleftrightarrow>
        (\<exists>k l. map_of (call_legs c2) k = Some l \<and> leg_account l = a) \<or> a = acc"
      using l unfolding c2(6) acc_def by (metis fun_upd_apply option.distinct(1) option.inject)
    then show ?thesis unfolding us1[symmetric] unfolding uses_def c2(3) f1(3) by blast
  qed
  have mem: "(\<exists>(k, l) \<in> set (call_legs c2). leg_account l = acc) \<longleftrightarrow>
      (\<exists>rid l. map_of (call_legs c2) rid = Some l \<and> leg_account l = acc)"
    using c2(7) by (auto simp: map_of_eq_Some_iff)
  have acc_ne: "acc \<noteq> []" using ok1 l by (auto simp: call_ok_def acc_def)
  have au: "map_of (rt_accountUse r) acc = Some i" using core_accountUse[OF core] c us2 by blast
  define r3 where "r3 = (if call_ownerAccount c2 \<noteq> acc \<and> \<not> (\<exists>(k, l) \<in> set (call_legs c2). leg_account l = acc)
      then (putCall r c2)\<lparr>rt_accountUse := AList.delete acc (rt_accountUse r)\<rparr> else putCall r c2)"
  have r3_alt: "r3 = (if uses c2 acc then putCall r c2 else (putCall r c2)\<lparr>rt_accountUse := AList.delete acc (rt_accountUse r)\<rparr>)"
    unfolding r3_def mem by (auto simp: uses_def acc_ne)
  have res: "fst (ClientClosed i rid r) = finish c2 r3"
    using c l0 l au
    by (simp add: ClientClosed_def split_beta Let_def c1_def[symmetric] c2_def[symmetric] acc_def[symmetric] r3_def get0_def)
  have r3: "map_of (rt_calls r3) = (map_of (rt_calls r))(i \<mapsto> c2)" "distinct (keys (rt_calls r3))"
    "map_of (rt_accountUse r3) = (if uses c2 acc then map_of (rt_accountUse r) else (map_of (rt_accountUse r))(acc := None))"
    "rt_now r3 = rt_now r" "rt_next r3 = rt_next r" "rt_policies r3 = rt_policies r"
    "rt_revisions r3 = rt_revisions r" "rt_registrations r3 = rt_registrations r"
    "rt_ready r3 = rt_ready r" "rt_moduleUse r3 = rt_moduleUse r"
    using core c2(1) by (auto simp: r3_alt core_inv_def keys_ok_def)
  have fc: "map_of (rt_calls r3) (call_id c2) = Some c2" by (simp add: r3 c2)
  show ?thesis
  proof (cases "call_moduleClosed c2 \<and> call_legs c2 = []")
    case True
    then have usc2: "uses c2 a \<longleftrightarrow> a \<noteq> [] \<and> call_ownerAccount c2 = a" for a by (simp add: uses_def)
    have m: "map_of (rt_moduleUse r) (call_module c) = Some i" using core_moduleUse[OF core] c by blast
    have o: "call_ownerAccount c \<noteq> [] \<Longrightarrow> map_of (rt_accountUse r) (call_ownerAccount c) = Some i"
      using core_accountUse[OF core] c us2 usc2 c2(3) by blast
    have "inv_except {} (finish c2 r3)"
      by (rule remove_call_inv[OF inv1 c])
         (use finish_cases[OF fc r3(2)] True c2 m o us2 usc2 r3 au in \<open>auto simp: get0_def fun_eq_iff\<close>)
    then show ?thesis using res by (simp add: inv0)
  next
    case False
    have ac: "all_closing (call_legs c2) = all_closing (call_legs c1)"
      using closing l unfolding all_closing_map_of[OF c2(7)] all_closing_map_of[OF call_ok_distinct[OF ok1]] c2(6)
      by (metis fun_upd_apply option.distinct(1) option.inject)
    have fields: "call_winner c2 = call_winner c1" "call_deadline c2 = call_deadline c1"
      "call_ownerAccount c2 = call_ownerAccount c1" by (simp_all add: c2_def)
    have okc2: "call_ok c2"
      using ok1 ac c2 fields closing l f1 unfolding call_ok_def by (cases "call_phase c1") auto
    have "\<exists>l0. map_of (call_legs c) k = Some l0 \<and> leg_registration l' = leg_registration l0 \<and>
        (leg_closing l0 \<longrightarrow> leg_closing l')" if "map_of (call_legs c2) k = Some l'" for k l'
    proof -
      have "map_of (call_legs c1) k = Some l'" using that c2(6) by (simp split: if_splits)
      then show ?thesis by (rule evolves_leg[OF ev]) blast
    qed
    then have "advances c c2"
      using okc2 c2 id us2 False evolves_fields(8)[OF ev] unfolding advances_def by auto
    then have "inv_except {} r3"
      by (rule replace_call_inv[OF inv1 c])
         (use r3 us2 core in \<open>auto simp: core_inv_def keys_ok_def\<close>)
    moreover have "finish c2 r3 = r3" using finish_cases[OF fc r3(2)] False by simp
    ultimately show ?thesis using res by (simp add: inv0)
  qed
qed

subsection \<open>The timer\<close>

definition endDue :: "nat list \<Rightarrow> router \<Rightarrow> router \<times> action list" where
  "endDue ks r =
     each (\<lambda>i r. case map_of (rt_calls r) i of
                   None \<Rightarrow> (r, [])
                 | Some c \<Rightarrow>
                     if call_deadline c \<noteq> 0 \<and> \<not> call_deadline c > rt_now r
                     then (let (c', as) = endCall ''timeout'' c in (putCall r c', as))
                     else (r, [])) ks r"

lemma Tick_split:
  "fst (Tick r) =
    (let r1 = fst (revokeSome (\<lambda>r reg. \<not> valid r reg) ''registration-expired'' (keys (rt_registrations r)) r)
     in fst (endDue (keys (rt_calls r1)) r1))"
  by (simp add: Tick_def revokeSome_def endDue_def split_beta Let_def)

lemma endDue_inv: "inv_except A r \<Longrightarrow> inv_except A (fst (endDue ks r))"
  unfolding endDue_def
proof (rule each_invariant)
  fix i s
  assume inv: "inv_except A s"
  have "inv_except A (putCall s (fst (endCall reason c)))" if "map_of (rt_calls s) i = Some c" for c reason
    by (rule putCall_inv[OF inv that endCall_evolves[OF core_callD(4)[OF inv_core[OF inv] that]]])
  then show "inv_except A (fst (case map_of (rt_calls s) i of None \<Rightarrow> (s, []) | Some c \<Rightarrow>
      if call_deadline c \<noteq> 0 \<and> \<not> call_deadline c > rt_now s
      then (let (c', as) = endCall ''timeout'' c in (putCall s c', as)) else (s, [])))"
    using inv by (auto simp: split_beta Let_def split: option.splits)
qed

lemma Tick_inv: "router_inv r \<Longrightarrow> router_inv (fst (Tick r))"
  by (simp add: Tick_split Let_def inv0 endDue_inv revokeSome_inv)

end
