(* ===== verification/Router_System.thy ===== *)
theory Router_System
  imports Router_Lifecycle
begin

text \<open>
  The router as a transition system. A step is one exported operation with any arguments, the
  clock moving forward, or a reordering of the maps (so that every iteration order Go may choose
  is a behaviour of the model). \<open>guarded_system\<close> is interpreted on it, and the safety properties
  of the scheduler are read off the invariant.
\<close>

subsection \<open>Operations and steps\<close>

datatype op =
    OpPutPolicy policy
  | OpDeleteAccount string
  | OpSuspendAccount string
  | OpRegister string nat int
  | OpRefresh registration int
  | OpLogout registration
  | OpSetModuleReady string bool
  | OpDial registration nat
  | OpIncoming string
  | OpAnswer registration nat
  | OpConnected nat
  | OpHangup registration nat
  | OpModuleClosed nat
  | OpClientClosed nat nat
  | OpTick

fun exec :: "op \<Rightarrow> router \<Rightarrow> router" where
  "exec (OpPutPolicy p) r = fst (PutPolicy p r)"
| "exec (OpDeleteAccount a) r = fst (DeleteAccount a r)"
| "exec (OpSuspendAccount a) r = fst (SuspendAccount a r)"
| "exec (OpRegister a v ttl) r = fst (Register a v ttl r)"
| "exec (OpRefresh reg ttl) r = fst (Refresh reg ttl r)"
| "exec (OpLogout reg) r = fst (Logout reg r)"
| "exec (OpSetModuleReady m b) r = fst (SetModuleReady m b r)"
| "exec (OpDial reg seed) r = fst (Dial reg seed r)"
| "exec (OpIncoming m) r = fst (Incoming m r)"
| "exec (OpAnswer reg i) r = fst (Answer reg i r)"
| "exec (OpConnected i) r = fst (markConnected i r)"
| "exec (OpHangup reg i) r = fst (Hangup reg i r)"
| "exec (OpModuleClosed i) r = fst (ModuleClosed i r)"
| "exec (OpClientClosed i rid) r = fst (ClientClosed i rid r)"
| "exec OpTick r = fst (Tick r)"

lemma exec_inv: "router_inv r \<Longrightarrow> router_inv (exec op r)"
  by (cases op)
     (simp_all add: PutPolicy_inv DeleteAccount_inv SuspendAccount_inv Register_inv Refresh_inv
       Logout_inv SetModuleReady_inv Dial_inv Incoming_inv Answer_inv markConnected_inv Hangup_inv
       ModuleClosed_inv ClientClosed_inv Tick_inv)

definition same_call :: "acall \<Rightarrow> acall \<Rightarrow> bool" where
  "same_call c c' \<longleftrightarrow> c' = c\<lparr>call_legs := call_legs c'\<rparr> \<and>
     map_of (call_legs c') = map_of (call_legs c) \<and> distinct_legs c'"

definition reorder :: "router \<Rightarrow> router \<Rightarrow> bool" where
  "reorder r r' \<longleftrightarrow> keys_ok r' \<and> rt_now r' = rt_now r \<and> rt_next r' = rt_next r \<and>
     map_of (rt_policies r') = map_of (rt_policies r) \<and> map_of (rt_revisions r') = map_of (rt_revisions r) \<and>
     map_of (rt_registrations r') = map_of (rt_registrations r) \<and> map_of (rt_ready r') = map_of (rt_ready r) \<and>
     map_of (rt_moduleUse r') = map_of (rt_moduleUse r) \<and>
     map_of (rt_accountUse r') = map_of (rt_accountUse r) \<and>
     map_of (rt_lastDial r') = map_of (rt_lastDial r) \<and>
     (\<forall>i. rel_option same_call (map_of (rt_calls r) i) (map_of (rt_calls r') i))"

inductive router_step :: "router \<Rightarrow> router \<Rightarrow> bool" where
  operation: "router_step r (exec op r)"
| clock: "rt_now r \<le> t \<Longrightarrow> router_step r (r\<lparr>rt_now := t\<rparr>)"
| shuffle: "reorder r r' \<Longrightarrow> router_step r r'"

inductive_cases router_stepE: "router_step r r'"

definition router_start :: "router \<Rightarrow> bool" where
  "router_start r \<longleftrightarrow> (\<exists>t \<ge> 0. r = newRouter t)"

abbreviation router_reachable :: "router \<Rightarrow> bool" where
  "router_reachable \<equiv> reachable router_start router_step"

subsection \<open>Reordering keeps the invariant\<close>

lemma same_call_facts:
  assumes "same_call c c'" and ok: "call_ok c"
  shows "call_ok c'" "uses c' a = uses c a" "call_id c' = call_id c" "call_module c' = call_module c"
    "call_moduleClosed c' = call_moduleClosed c" "call_legs c' = [] \<longleftrightarrow> call_legs c = []"
    "call_phase c' = call_phase c" "map_of (call_legs c') = map_of (call_legs c)"
proof -
  obtain ls where c': "c' = c\<lparr>call_legs := ls\<rparr>" and m: "map_of ls = map_of (call_legs c)" and d: "distinct (keys ls)"
    using assms(1) unfolding same_call_def by (metis acall.select_convs(6) acall.surjective acall.update_convs(6))
  have ac: "all_closing ls = all_closing (call_legs c)"
    using all_closing_map_of[OF d] all_closing_map_of[OF call_ok_distinct[OF ok]] m by simp
  show "call_ok c'" using ok m d ac unfolding c' call_ok_def by (cases "call_phase c") simp_all
  show "uses c' a = uses c a" unfolding c' uses_def by (simp add: m)
  show "call_legs c' = [] \<longleftrightarrow> call_legs c = []"
    using m unfolding c' by (metis acall.select_convs(6) acall.surjective acall.update_convs(6) empty_eq_map_of_iff map_of.simps(1))
qed (use assms in \<open>auto simp: same_call_def; metis acall.select_convs acall.surjective acall.update_convs(6)\<close>)+

lemma reorder_inv:
  assumes inv: "router_inv r" and re: "reorder r r'"
  shows "router_inv r'"
proof -
  have inv1: "inv_except {} r" using inv by (simp add: inv0)
  have core: "core_inv r" by (rule inv_core[OF inv1])
  have eqs: "rt_now r' = rt_now r" "rt_next r' = rt_next r" "map_of (rt_policies r') = map_of (rt_policies r)"
    "map_of (rt_revisions r') = map_of (rt_revisions r)"
    "map_of (rt_registrations r') = map_of (rt_registrations r)"
    "map_of (rt_moduleUse r') = map_of (rt_moduleUse r)"
    "map_of (rt_accountUse r') = map_of (rt_accountUse r)" "keys_ok r'"
    using re by (simp_all add: reorder_def)
  have perm: "allowed r' = allowed r" "receives r' = receives r"
    by (auto simp: allowed_def receives_def fun_eq_iff eqs)
  have backw: "\<exists>c. map_of (rt_calls r) i = Some c \<and> same_call c c' \<and> call_ok c"
    if "map_of (rt_calls r') i = Some c'" for i c'
  proof -
    have "rel_option same_call (map_of (rt_calls r) i) (map_of (rt_calls r') i)"
      using re by (simp add: reorder_def)
    with that obtain c where "map_of (rt_calls r) i = Some c" "same_call c c'"
      by (auto simp: option_rel_Some2)
    then show ?thesis using core_callD(4)[OF core] by blast
  qed
  have forw: "\<exists>c'. map_of (rt_calls r') i = Some c' \<and> same_call c c' \<and> call_ok c"
    if "map_of (rt_calls r) i = Some c" for i c
  proof -
    have "rel_option same_call (map_of (rt_calls r) i) (map_of (rt_calls r') i)"
      using re by (simp add: reorder_def)
    with that obtain c' where "map_of (rt_calls r') i = Some c'" "same_call c c'"
      by (auto simp: option_rel_Some1)
    then show ?thesis using core_callD(4)[OF core that] by blast
  qed
  have exc: "(\<exists>c. map_of (rt_calls r') i = Some c \<and> P c) \<longleftrightarrow> (\<exists>c. map_of (rt_calls r) i = Some c \<and> P c)"
    if "\<And>c c'. same_call c c' \<Longrightarrow> call_ok c \<Longrightarrow> P c' = P c" for i P
    using backw forw that by metis
  have "calls_ok r'"
    unfolding calls_ok_def
  proof (intro allI impI)
    fix i c' assume "map_of (rt_calls r') i = Some c'"
    then obtain c where c: "map_of (rt_calls r) i = Some c" "same_call c c'" "call_ok c" using backw by blast
    show "call_id c' = i \<and> 0 < i \<and> i \<le> rt_next r' \<and> call_ok c' \<and> (call_moduleClosed c' \<longrightarrow> call_legs c' \<noteq> [])"
      using core_callD[OF core c(1)] same_call_facts[OF c(2,3)] eqs(2) by simp
  qed
  moreover have "modules_ok r'"
    using core_moduleUse[OF core] unfolding modules_ok_def eqs
    by (subst exc) (simp_all add: same_call_facts)
  moreover have "accounts_ok r'"
    using core_accountUse[OF core] unfolding accounts_ok_def eqs
    by (subst exc) (simp_all add: same_call_facts)
  moreover have leg_back: "\<exists>c. map_of (rt_calls r) i = Some c \<and> map_of (call_legs c) rid = Some l \<and>
      call_module c = call_module c' \<and> call_phase c = call_phase c'"
    if "map_of (rt_calls r') i = Some c'" "map_of (call_legs c') rid = Some l" for i c' rid l
    using backw[OF that(1)] same_call_facts that(2) by metis
  then have "legs_ok r'"
    using core unfolding legs_ok_def eqs core_inv_def by metis
  ultimately have "core_inv r'"
    using core by (simp add: core_inv_def regs_ok_def policies_ok_def eqs)
  moreover have "regs_live r'"
    using inv1 leg_back unfolding inv_except_def regs_live_def eqs by metis
  moreover have "auth_ok {} r'"
    using inv1 leg_back unfolding inv_except_def auth_ok_def leg_auth_def perm by metis
  moreover have "regs_auth {} r'" using inv1 unfolding inv_except_def regs_auth_def eqs by blast
  ultimately show ?thesis by (simp add: inv0 inv_except_def)
qed

lemma clock_inv: "router_inv r \<Longrightarrow> rt_now r \<le> t \<Longrightarrow> router_inv (r\<lparr>rt_now := t\<rparr>)"
  unfolding router_inv_def inv_defs core_defs leg_auth_def allowed_def receives_def by auto

interpretation router: guarded_system router_start router_step router_inv
proof unfold_locales
  fix s assume "router_start s"
  then show "router_inv s" by (auto simp: router_start_def router_inv_init)
next
  fix s t assume "router_inv s" "router_step s t"
  then show "router_inv t"
    by (auto elim!: router_stepE intro: exec_inv clock_inv reorder_inv)
qed

lemmas reachable_core = router.reachable_inv [unfolded inv0, THEN inv_core]

lemma newRouter_reachable: "0 \<le> t \<Longrightarrow> router_reachable (newRouter t)"
  by (rule reachable.start) (auto simp: router_start_def)

fun execs :: "op list \<Rightarrow> router \<Rightarrow> router" where
  "execs [] r = r"
| "execs (x # xs) r = execs xs (exec x r)"

lemma execs_reachable: "router_reachable r \<Longrightarrow> router_reachable (execs xs r)"
  by (induction xs arbitrary: r) (auto intro: reachable.next_step router_step.operation)

end
