(* ===== verification/Router_Winner.thy ===== *)
theory Router_Winner
  imports Router_System
begin

text \<open>
  What no step of the scheduler undoes: a call that has stopped ringing never rings again and keeps its
  winner for as long as it exists, and the identifiers of calls are never given out again.
\<close>

declare map_of_eq_Some_iff [simp del] Some_eq_map_of_iff [simp del]

definition keepsWinner :: "acall \<Rightarrow> acall \<Rightarrow> bool" where
  "keepsWinner c c' \<longleftrightarrow> (call_phase c \<noteq> Ringing \<longrightarrow> call_phase c' \<noteq> Ringing \<and> call_winner c' = call_winner c)"

definition settles :: "router \<Rightarrow> router \<Rightarrow> bool" where
  "settles r r' \<longleftrightarrow> rt_next r \<le> rt_next r' \<and>
    (\<forall>i \<le> rt_next r. \<forall>c'. map_of (rt_calls r') i = Some c' \<longrightarrow>
      (\<exists>c. map_of (rt_calls r) i = Some c \<and> keepsWinner c c'))"

lemma keepsWinner_refl [simp]: "keepsWinner c c"
  by (simp add: keepsWinner_def)

lemma keepsWinner_trans: "keepsWinner a b \<Longrightarrow> keepsWinner b c \<Longrightarrow> keepsWinner a c"
  by (simp add: keepsWinner_def)

lemma settles_trans:
  assumes rs: "settles r s" and st: "settles s t"
  shows "settles r t"
  unfolding settles_def
proof (intro conjI allI impI)
  show "rt_next r \<le> rt_next t" using rs st by (simp add: settles_def)
next
  fix i c' assume i: "i \<le> rt_next r" and c': "map_of (rt_calls t) i = Some c'"
  have "i \<le> rt_next s" using i rs by (simp add: settles_def)
  then obtain b where b: "map_of (rt_calls s) i = Some b" "keepsWinner b c'" using st c' unfolding settles_def by blast
  then obtain a where "map_of (rt_calls r) i = Some a" "keepsWinner a b" using rs i unfolding settles_def by blast
  then show "\<exists>a. map_of (rt_calls r) i = Some a \<and> keepsWinner a c'" using b(2) keepsWinner_trans by blast
qed

lemma settles_same: "rt_calls r' = rt_calls r \<Longrightarrow> rt_next r \<le> rt_next r' \<Longrightarrow> settles r r'"
  by (simp add: settles_def)

lemma settles_putCall:
  "map_of (rt_calls r) (call_id c') = Some c \<Longrightarrow> keepsWinner c c' \<Longrightarrow> settles r (putCall r c')"
  by (auto simp: settles_def)

lemma evolves_keepsWinner: "evolves c c' \<Longrightarrow> keepsWinner c c'"
  using evolves_fields(3,8) unfolding keepsWinner_def by fastforce

lemma finish_settles: "settles r (finish c r)"
  by (auto simp: finish_def settles_def Let_def AList.delete_conv' split: if_splits)

subsection \<open>Operations that evolve calls\<close>

definition calls_wf :: "router \<Rightarrow> bool" where
  "calls_wf r \<longleftrightarrow> (\<forall>i c. map_of (rt_calls r) i = Some c \<longrightarrow> call_id c = i \<and> call_ok c)"

definition moves :: "router \<Rightarrow> router \<Rightarrow> bool" where
  "moves r r' \<longleftrightarrow> calls_wf r' \<and> settles r r'"

lemma inv_calls_wf: "router_inv r \<Longrightarrow> calls_wf r"
  using core_callD unfolding calls_wf_def by (metis inv0 inv_core)

lemma moves_trans: "moves r s \<Longrightarrow> moves s t \<Longrightarrow> moves r t"
  unfolding moves_def using settles_trans by blast

lemma moves_wf: "moves r s \<Longrightarrow> calls_wf s"
  by (simp add: moves_def)

lemma moves_same: "calls_wf r \<Longrightarrow> rt_calls r' = rt_calls r \<Longrightarrow> rt_next r' = rt_next r \<Longrightarrow> moves r r'"
  by (simp add: moves_def settles_same calls_wf_def)

lemma moves_evolves:
  assumes wf: "calls_wf r" and c: "map_of (rt_calls r) i = Some c" and ev: "evolves c c'"
  shows "moves r (putCall r c')"
proof -
  have id: "call_id c' = i" "call_id c = i" using wf c evolves_fields(1)[OF ev] by (auto simp: calls_wf_def)
  have "calls_wf (putCall r c')" using wf id evolves_ok[OF ev] by (auto simp: calls_wf_def)
  then show ?thesis using settles_putCall[of r c' c] c id evolves_keepsWinner[OF ev] by (simp add: moves_def)
qed

lemma wf_ok: "calls_wf r \<Longrightarrow> map_of (rt_calls r) i = Some c \<Longrightarrow> call_ok c"
  by (simp add: calls_wf_def)

lemma revokeRegistration_moves:
  assumes wf: "calls_wf r"
  shows "moves r (fst (revokeRegistration reason rid r))"
proof -
  let ?r1 = "r\<lparr>rt_registrations := AList.delete rid (rt_registrations r)\<rparr>"
  have r1: "moves r ?r1" using wf by (intro moves_same) simp_all
  then have wf1: "calls_wf ?r1" by (simp add: moves_def)
  have "moves ?r1 (putCall ?r1 (fst (withdraw reason rid c)))" if "callOfAccount ?r1 a = Some c" for a c
    using that moves_evolves[OF wf1 _ withdraw_evolves] wf_ok[OF wf1] unfolding callOfAccount_def by blast
  then show ?thesis using r1 moves_trans[OF r1] moves_same[OF wf]
    by (auto simp: revokeRegistration_def split_beta Let_def split: option.split)
qed

lemma revokeSome_moves:
  assumes wf: "calls_wf r"
  shows "moves r (fst (revokeSome sel reason ks r))"
  unfolding revokeSome_def
proof (rule each_invariant)
  show "moves r r" using wf by (intro moves_same) simp_all
next
  fix rid s assume s: "moves r s"
  then have "moves r (fst (revokeRegistration reason rid s))"
    using revokeRegistration_moves[of s] moves_trans[OF s] by (simp add: moves_def)
  then show "moves r (fst (case map_of (rt_registrations s) rid of None \<Rightarrow> (s, [])
      | Some reg \<Rightarrow> if sel s reg then revokeRegistration reason rid s else (s, [])))"
    using s by (auto split: option.split)
qed

lemma withdrawLegs_moves:
  assumes wf: "calls_wf r" and c: "callOfAccount r a = Some c"
  shows "moves r (putCall r (fst (withdrawLegs sel reason c)))"
  using moves_evolves[OF wf _ withdrawLegs_evolves] wf_ok[OF wf] c unfolding callOfAccount_def by blast

lemma revoke_moves:
  assumes wf: "calls_wf r"
  shows "moves r (fst (revoke a reason r))"
proof -
  define r1 where "r1 = (case callOfAccount r a of None \<Rightarrow> r
    | Some c \<Rightarrow> putCall r (fst (withdrawLegs (\<lambda>_ l. leg_account l = a) reason c)))"
  have "moves r r1" using wf withdrawLegs_moves[OF wf] moves_same[OF wf] by (auto simp: r1_def split: option.split)
  from moves_trans[OF this revokeSome_moves[OF moves_wf[OF this]]] show ?thesis
    unfolding revoke_split r1_def[symmetric] Let_def .
qed

lemma PutPolicy_settles:
  assumes wf: "calls_wf r"
  shows "settles r (fst (PutPolicy p r))"
proof -
  define p' where "p' = (if pol_all p then p\<lparr>pol_modules := []\<rparr> else p)"
  define r1 where "r1 = r\<lparr>rt_policies := AList.update (pol_account p) p' (rt_policies r),
      rt_revisions := AList.update (pol_account p) (pol_revision p) (rt_revisions r)\<rparr>"
  define r2 where "r2 = (case map_of (rt_policies r) (pol_account p) of None \<Rightarrow> r1
    | Some q \<Rightarrow> if pol_revision q \<noteq> pol_revision p then fst (revoke (pol_account p) ''credentials-changed'' r1) else r1)"
  define r3 where "r3 = (case callOfAccount r2 (pol_account p) of None \<Rightarrow> r2
    | Some c \<Rightarrow> putCall r2 (fst (withdrawLegs (\<lambda>c l. leg_account l = pol_account p \<and>
        (\<not> allows p' (call_module c) \<or> call_phase c = Ringing \<and> \<not> pol_receive p')) ''permission-changed'' c)))"
  have 1: "moves r r1" using wf by (intro moves_same) (simp_all add: r1_def)
  have "moves r1 r2" using revoke_moves[OF moves_wf[OF 1]] moves_same[OF moves_wf[OF 1]]
    by (auto simp: r2_def split: option.split)
  note 2 = moves_trans[OF 1 this]
  have "moves r2 r3" using withdrawLegs_moves[OF moves_wf[OF 2]] moves_same[OF moves_wf[OF 2]]
    by (auto simp: r3_def split: option.split)
  note 3 = moves_trans[OF 2 this]
  let ?invalid = "pol_account p = [] \<or> pol_revision p = 0 \<or> (\<not> pol_all p \<and> pol_modules p = []) \<or> [] \<in> set (pol_modules p)"
  let ?stale = "pol_revision p < get0 (rt_revisions r) (pol_account p) \<or>
    map_of (rt_policies r) (pol_account p) = None \<and> pol_revision p = get0 (rt_revisions r) (pol_account p)"
  have done3: "fst (PutPolicy p r) = r3" if "\<not> ?invalid" "\<not> ?stale"
  proof -
    have r2: "fst (case map_of (rt_policies r) (pol_account p) of None \<Rightarrow> (r1, [])
        | Some q \<Rightarrow> if pol_revision q \<noteq> pol_revision p then revoke (pol_account p) ''credentials-changed'' r1 else (r1, [])) = r2"
      by (simp add: r2_def split: option.split)
    show ?thesis
      unfolding PutPolicy_def if_not_P[OF that(1)] Let_def if_not_P[OF that(2)] split_beta p'_def[symmetric] r1_def[symmetric] r2
      by (simp add: r3_def split: option.split)
  qed
  have invalid: "fst (PutPolicy p r) = r" if ?invalid
    unfolding PutPolicy_def if_P[OF that] by simp
  have stale: "fst (PutPolicy p r) = r" if "\<not> ?invalid" ?stale
    unfolding PutPolicy_def if_not_P[OF that(1)] Let_def if_P[OF that(2)] by simp
  have "fst (PutPolicy p r) = r3 \<or> fst (PutPolicy p r) = r"
    using done3 invalid stale by blast
  then show ?thesis using 3 settles_same[of r r] by (auto simp: moves_def)
qed

lemma DeleteAccount_settles:
  assumes wf: "calls_wf r"
  shows "settles r (fst (DeleteAccount a r))"
proof -
  have "moves r (r\<lparr>rt_policies := AList.delete a (rt_policies r), rt_lastDial := AList.delete a (rt_lastDial r)\<rparr>)"
    using wf by (intro moves_same) simp_all
  from moves_trans[OF this revoke_moves[OF moves_wf[OF this]]] show ?thesis
    by (simp add: DeleteAccount_def moves_def)
qed

lemma endDue_moves:
  assumes wf: "calls_wf r"
  shows "moves r (fst (endDue ks r))"
  unfolding endDue_def
proof (rule each_invariant)
  show "moves r r" using wf by (intro moves_same) simp_all
next
  fix i s assume s: "moves r s"
  then have "moves r (putCall s (fst (endCall reason c)))" if "map_of (rt_calls s) i = Some c" for c reason
    using moves_evolves[OF _ that endCall_evolves] wf_ok[OF _ that] moves_trans[OF s] by (simp add: moves_def)
  then show "moves r (fst (case map_of (rt_calls s) i of None \<Rightarrow> (s, []) | Some c \<Rightarrow>
      if call_deadline c \<noteq> 0 \<and> \<not> call_deadline c > rt_now s
      then (let (c', as) = endCall ''timeout'' c in (putCall s c', as)) else (s, [])))"
    using s by (auto simp: split_beta Let_def split: option.split)
qed

lemma Tick_settles:
  assumes wf: "calls_wf r"
  shows "settles r (fst (Tick r))"
proof -
  have "moves r (fst (revokeSome (\<lambda>r reg. \<not> valid r reg) ''registration-expired'' (keys (rt_registrations r)) r))"
    by (rule revokeSome_moves[OF wf])
  from moves_trans[OF this endDue_moves[OF moves_wf[OF this]]] show ?thesis
    by (simp add: Tick_split Let_def moves_def)
qed

subsection \<open>Operations on one call\<close>

lemma Answer_settles:
  assumes wf: "calls_wf r"
  shows "settles r (fst (Answer reg i r))"
proof -
  have "settles r (putCall r (fst (endCall reason c)))" if "map_of (rt_calls r) i = Some c" for c reason
    using moves_evolves[OF wf that endCall_evolves[OF wf_ok[OF wf that]]] by (simp add: moves_def)
  moreover have "settles r (putCall r (fst (each (\<lambda>other c. if other \<noteq> reg_id reg
      then closeLeg ''answered-elsewhere'' other c else (c, [])) ks
        (c\<lparr>call_phase := Connecting, call_winner := w, call_deadline := d, call_ownerAccount := a\<rparr>))))"
    if "map_of (rt_calls r) i = Some c" "call_phase c = Ringing" for c ks w d a
  proof (rule settles_putCall)
    have id: "call_id c = i" using wf that(1) by (simp add: calls_wf_def)
    have "call_id (fst (each (\<lambda>other c. if other \<noteq> reg_id reg
        then closeLeg ''answered-elsewhere'' other c else (c, [])) ks
        (c\<lparr>call_phase := Connecting, call_winner := w, call_deadline := d, call_ownerAccount := a\<rparr>))) = call_id c"
      by (rule each_invariant) (auto simp: closeLeg_def split: option.split)
    then show "map_of (rt_calls r) (call_id (fst (each (\<lambda>other c. if other \<noteq> reg_id reg
        then closeLeg ''answered-elsewhere'' other c else (c, [])) ks
        (c\<lparr>call_phase := Connecting, call_winner := w, call_deadline := d, call_ownerAccount := a\<rparr>)))) = Some c"
      using id that(1) by simp
  qed (simp add: keepsWinner_def that(2))
  ultimately show ?thesis using settles_same[of r r]
    by (auto simp: Answer_def Let_def split_beta split: option.split)
qed

lemma markConnected_settles:
  assumes wf: "calls_wf r"
  shows "settles r (fst (markConnected i r))"
proof -
  have "settles r (putCall r (c\<lparr>call_phase := Connected, call_deadline := 0\<rparr>))" if "map_of (rt_calls r) i = Some c" for c
    using that wf by (intro settles_putCall[of _ _ c]) (auto simp: calls_wf_def keepsWinner_def)
  then show ?thesis using settles_same[of r r] by (auto simp: markConnected_def split: option.split)
qed

lemma Hangup_settles:
  assumes wf: "calls_wf r"
  shows "settles r (fst (Hangup reg i r))"
proof -
  have "settles r (putCall r (fst (withdraw reason rid c)))" if "map_of (rt_calls r) i = Some c" for c reason rid
    using moves_evolves[OF wf that withdraw_evolves[OF wf_ok[OF wf that]]] by (simp add: moves_def)
  then show ?thesis using settles_same[of r r]
    by (auto simp: Hangup_def split_beta Let_def split: option.split)
qed

lemma SetModuleReady_settles:
  assumes wf: "calls_wf r"
  shows "settles r (fst (SetModuleReady m b r))"
proof -
  let ?r1 = "r\<lparr>rt_ready := AList.update m b (rt_ready r)\<rparr>"
  have r1: "moves r ?r1" using wf by (intro moves_same) simp_all
  then have wf1: "calls_wf ?r1" by (simp add: moves_def)
  have "moves r (putCall ?r1 (fst (endCall reason c)))" if "callOfModule ?r1 m = Some c" for c reason
    using that moves_trans[OF r1 moves_evolves[OF wf1 _ endCall_evolves]] wf_ok[OF wf1] unfolding callOfModule_def by blast
  then show ?thesis using r1 settles_same[of r r]
    by (auto simp: SetModuleReady_def split_beta Let_def moves_def split: option.split)
qed

lemma ModuleClosed_settles:
  assumes wf: "calls_wf r"
  shows "settles r (fst (ModuleClosed i r))"
proof (cases "map_of (rt_calls r) i")
  case None
  then show ?thesis using settles_same[of r r] by (simp add: ModuleClosed_def)
next
  case (Some c)
  define c1 where "c1 = fst (endCall ''module-ended'' (c\<lparr>call_moduleClosed := True\<rparr>))"
  have id: "call_id c = i" using wf Some by (simp add: calls_wf_def)
  have "call_id c1 = call_id c" "keepsWinner c c1"
    using call_ok_distinct[OF wf_ok[OF wf Some]] by (simp_all add: c1_def endCall_eq ended_def keepsWinner_def)
  then have "settles r (putCall r c1)" using Some id by (intro settles_putCall[of _ _ c]) simp_all
  then have "settles r (finish c1 (putCall r c1))" using finish_settles settles_trans by blast
  then show ?thesis using Some by (simp add: ModuleClosed_def split_beta Let_def c1_def)
qed

lemma ClientClosed_settles:
  assumes wf: "calls_wf r"
  shows "settles r (fst (ClientClosed i rid r))"
proof (cases "map_of (rt_calls r) i")
  case None
  then show ?thesis using settles_same[of r r] by (simp add: ClientClosed_def)
next
  case (Some c)
  define c1 where "c1 = fst (withdraw ''client-ended'' rid c)"
  have ev: "evolves c c1" unfolding c1_def by (rule withdraw_evolves[OF wf_ok[OF wf Some]])
  have id: "call_id c1 = i" using evolves_fields(1)[OF ev] wf Some by (simp add: calls_wf_def)
  have "settles r (finish c2 (if b then (putCall r c2)\<lparr>rt_accountUse := u\<rparr> else putCall r c2))"
    if c2: "c2 = c1\<lparr>call_legs := ls\<rparr>" for c2 ls b u
  proof -
    have "settles r (putCall r c2)"
      using Some id evolves_keepsWinner[OF ev] by (intro settles_putCall[of _ _ c]) (auto simp: c2 keepsWinner_def)
    moreover have "settles (putCall r c2) (if b then (putCall r c2)\<lparr>rt_accountUse := u\<rparr> else putCall r c2)"
      by (rule settles_same) simp_all
    ultimately show ?thesis using finish_settles settles_trans by blast
  qed
  then show ?thesis using Some settles_same[of r r]
    by (auto simp: ClientClosed_def split_beta Let_def simp flip: c1_def split: option.split)
qed

subsection \<open>New calls\<close>

text \<open>A new call gets a new identifier, so the calls that exist are left alone.\<close>

definition extends :: "router \<Rightarrow> router \<Rightarrow> bool" where
  "extends r r' \<longleftrightarrow> rt_next r \<le> rt_next r' \<and> (\<forall>i \<le> rt_next r. map_of (rt_calls r') i = map_of (rt_calls r) i)"

lemma extends_settles: "extends r r' \<Longrightarrow> settles r r'"
  by (simp add: extends_def settles_def)

lemma extends_same: "rt_calls r' = rt_calls r \<Longrightarrow> rt_next r \<le> rt_next r' \<Longrightarrow> extends r r'"
  by (simp add: extends_def)

lemma Register_extends: "extends r (fst (Register a v ttl r))"
  by (auto simp: Register_def Let_def intro!: extends_same split: option.split)

lemma Refresh_extends: "extends r (fst (Refresh reg ttl r))"
  by (auto simp: Refresh_def Let_def intro!: extends_same split: option.split)

lemma Dial_extends: "extends r (fst (Dial reg seed r))"
  by (auto simp: Dial_def newCall_def addLeg_def Let_def split_beta extends_def)

lemma Incoming_extends: "extends r (fst (Incoming m r))"
proof -
  define P where "P = (\<lambda>rc :: router \<times> acall. call_id (snd rc) = rt_next r + 1 \<and> rt_next (fst rc) = rt_next r + 1 \<and>
    (\<forall>i \<le> rt_next r. map_of (rt_calls (fst rc)) i = map_of (rt_calls r) i))"
  have "P (fst (each (\<lambda>reg rc. (addLeg reg rc, f reg)) regs (newCall m ph t r)))" for f :: "registration \<Rightarrow> action list" and regs ph t
  proof (rule each_invariant)
    show "P (newCall m ph t r)" by (simp add: P_def newCall_def Let_def)
  next
    fix reg rc assume "P rc"
    then show "P (fst (addLeg reg rc, f reg))" by (cases rc) (simp add: P_def addLeg_def Let_def)
  qed
  then have "extends r (fst (fst (each (\<lambda>reg rc. (addLeg reg rc, f reg)) regs (newCall m ph t r))))"
    for f :: "registration \<Rightarrow> action list" and regs ph t
    unfolding P_def by (simp add: extends_def)
  then show ?thesis
    by (simp add: Incoming_def Let_def split_beta extends_same)
qed

subsection \<open>Every step\<close>

lemma exec_settles:
  assumes "calls_wf r"
  shows "settles r (exec op r)"
proof (cases op)
  case (OpLogout reg)
  then show ?thesis using revokeRegistration_moves[OF assms] settles_same[of r r]
    by (auto simp: Logout_def Let_def split_beta moves_def split: option.split)
next
  case (OpSuspendAccount a)
  then show ?thesis using revoke_moves[OF assms] by (simp add: SuspendAccount_def moves_def)
qed (use assms in \<open>simp_all add: PutPolicy_settles DeleteAccount_settles SetModuleReady_settles Answer_settles markConnected_settles Hangup_settles ModuleClosed_settles ClientClosed_settles Tick_settles
  extends_settles[OF Register_extends] extends_settles[OF Refresh_extends] extends_settles[OF Dial_extends]
  extends_settles[OF Incoming_extends]\<close>)

lemma reorder_settles:
  assumes "reorder r r'"
  shows "settles r r'"
proof -
  have call: "rel_option same_call (map_of (rt_calls r) i) (map_of (rt_calls r') i)" for i
    using assms by (simp add: reorder_def)
  have same: "call_phase c' = call_phase c \<and> call_winner c' = call_winner c" if "same_call c c'" for c c'
    using that unfolding same_call_def by (metis acall.select_convs(3,4) acall.surjective acall.update_convs(6))
  have "\<exists>c. map_of (rt_calls r) i = Some c \<and> keepsWinner c c'" if c': "map_of (rt_calls r') i = Some c'" for i c'
  proof -
    obtain c where "map_of (rt_calls r) i = Some c" "same_call c c'" using call[of i] c' by (auto simp: option_rel_Some2)
    then show ?thesis using same by (auto simp: keepsWinner_def)
  qed
  then show ?thesis using assms by (simp add: settles_def reorder_def)
qed

lemma step_settles: "router_inv r \<Longrightarrow> router_step r r' \<Longrightarrow> settles r r'"
  using exec_settles[OF inv_calls_wf] reorder_settles settles_same by (auto elim!: router_stepE)

lemma run_settles:
  assumes "rtranclp router_step r r'" and "router_reachable r"
  shows "settles r r' \<and> router_reachable r'"
  using assms
proof (induction rule: rtranclp_induct)
  case base
  then show ?case by (simp add: settles_same)
next
  case (step s t)
  then have "settles s t" using step_settles router.reachable_inv by blast
  then show ?case using step settles_trans reachable.next_step by metis
qed

end
