(* ===== verification/Router_Props.thy ===== *)
theory Router_Props
  imports Router_Winner
begin

text \<open>
  The properties of the call scheduler: exact reservation tables, authorization of every open leg,
  credential revocation, a single winner for each offer, expiry, the release of every reservation
  once the adapters confirm, and the freshness of the actions handed to the adapters.
\<close>

declare map_of_eq_Some_iff [simp del] Some_eq_map_of_iff [simp del]

lemmas reachable_inv0 = router.reachable_inv [unfolded inv0]

subsection \<open>Cleanup confirmations still missing\<close>

text \<open>
  What a call still waits for: \<open>None\<close> is the module's confirmation, \<open>Some rid\<close> that of a client leg.
\<close>

definition pending :: "router \<Rightarrow> nat \<Rightarrow> nat option set" where
  "pending r i = (case map_of (rt_calls r) i of None \<Rightarrow> {}
     | Some c \<Rightarrow> (if call_moduleClosed c then {} else {None}) \<union> Some ` set (keys (call_legs c)))"

lemma pending_empty_iff:
  assumes "core_inv r"
  shows "pending r i = {} \<longleftrightarrow> map_of (rt_calls r) i = None"
  using core_callD(6)[OF assms] by (auto simp: pending_def split: option.splits)

lemma finish_calls:
  assumes "map_of (rt_calls r) (call_id c) = Some c" and "distinct (keys (rt_calls r))"
  shows "map_of (rt_calls (finish c r)) =
    (map_of (rt_calls r))(call_id c := if call_moduleClosed c \<and> call_legs c = [] then None else Some c)"
  using finish_cases[OF assms] assms(1) by (auto simp: fun_upd_idem)

lemma endCall_closed:
  assumes "call_ok c"
  shows "keys (call_legs (fst (endCall reason (c\<lparr>call_moduleClosed := True\<rparr>)))) = keys (call_legs c)"
    "call_moduleClosed (fst (endCall reason (c\<lparr>call_moduleClosed := True\<rparr>)))"
    "call_id (fst (endCall reason (c\<lparr>call_moduleClosed := True\<rparr>))) = call_id c"
  using call_ok_distinct[OF assms] by (simp_all add: endCall_eq ended_def)

lemma pending_ModuleClosed:
  assumes core: "core_inv r"
  shows "pending (fst (ModuleClosed i r)) j = (if j = i then pending r j - {None} else pending r j)"
proof (cases "map_of (rt_calls r) i")
  case None
  then show ?thesis by (auto simp: ModuleClosed_def pending_def)
next
  case (Some c)
  have ok: "call_ok c" and id: "call_id c = i" using core_callD[OF core Some] by auto
  define c1 where "c1 = fst (endCall ''module-ended'' (c\<lparr>call_moduleClosed := True\<rparr>))"
  have c1: "keys (call_legs c1) = keys (call_legs c)" "call_moduleClosed c1" "call_id c1 = i"
    using endCall_closed[OF ok] id by (simp_all add: c1_def)
  have "map_of (rt_calls (putCall r c1)) (call_id c1) = Some c1" "distinct (keys (rt_calls (putCall r c1)))"
    using core by (auto simp: core_inv_def keys_ok_def)
  then have "map_of (rt_calls (finish c1 (putCall r c1))) =
      (map_of (rt_calls r))(i := if call_legs c1 = [] then None else Some c1)"
    using c1 by (simp add: finish_calls)
  moreover have "fst (ModuleClosed i r) = finish c1 (putCall r c1)"
    using Some by (simp add: ModuleClosed_def split_beta Let_def c1_def)
  moreover have "call_legs c1 = [] \<longleftrightarrow> call_legs c = []" using c1(1) by (metis map_is_Nil_conv)
  ultimately show ?thesis using Some c1 by (auto simp: pending_def)
qed

lemma pending_ClientClosed:
  assumes core: "core_inv r"
  shows "pending (fst (ClientClosed i rid r)) j = (if j = i then pending r j - {Some rid} else pending r j)"
proof (cases "\<exists>c. map_of (rt_calls r) i = Some c \<and> map_of (call_legs c) rid \<noteq> None")
  case False
  then have "fst (ClientClosed i rid r) = r" by (auto simp: ClientClosed_def split: option.splits)
  moreover have "Some rid \<notin> pending r i"
    using False by (auto simp: pending_def map_of_eq_None_iff split: option.splits if_splits)
  ultimately show ?thesis by simp
next
  case True
  then obtain c l0 where c: "map_of (rt_calls r) i = Some c" and l0: "map_of (call_legs c) rid = Some l0" by auto
  have ok: "call_ok c" and id: "call_id c = i" using core_callD[OF core c] by auto
  define c1 where "c1 = fst (withdraw ''client-ended'' rid c)"
  have ev: "evolves c c1" unfolding c1_def by (rule withdraw_evolves[OF ok])
  obtain l where l: "map_of (call_legs c1) rid = Some l" using evolves_leg_back[OF ev l0] by blast
  define c2 where "c2 = c1\<lparr>call_legs := AList.delete rid (call_legs c1)\<rparr>"
  define r3 where "r3 = (if get0 (rt_accountUse (putCall r c2)) (leg_account l) = i \<and> call_ownerAccount c2 \<noteq> leg_account l \<and>
      \<not> (\<exists>(k, l') \<in> set (call_legs c2). leg_account l' = leg_account l)
    then (putCall r c2)\<lparr>rt_accountUse := AList.delete (leg_account l) (rt_accountUse (putCall r c2))\<rparr> else putCall r c2)"
  have f: "call_id c1 = i" "call_moduleClosed c1 = call_moduleClosed c"
    "keys (call_legs c1) = keys (call_legs c)"
    using evolves_fields[OF ev] id by simp_all
  have res: "fst (ClientClosed i rid r) = finish c2 r3"
    using c l0 l by (simp add: ClientClosed_def split_beta Let_def c1_def[symmetric] c2_def[symmetric] r3_def)
  have r3: "map_of (rt_calls r3) = (map_of (rt_calls r))(i \<mapsto> c2)" "distinct (keys (rt_calls r3))"
    using f core by (simp_all add: r3_def core_inv_def keys_ok_def c2_def)
  have c2: "call_id c2 = i" "call_moduleClosed c2 = call_moduleClosed c"
    "set (keys (call_legs c2)) = set (keys (call_legs c)) - {rid}"
    using f by (auto simp: c2_def AList.delete_keys)
  have "map_of (rt_calls (finish c2 r3)) = (map_of (rt_calls r))
      (i := if call_moduleClosed c2 \<and> call_legs c2 = [] then None else Some c2)"
    using finish_calls[of r3 c2] r3 c2(1) by (simp add: fun_upd_idem)
  then show ?thesis
    unfolding res using c c2 by (auto simp: pending_def)
qed


subsection \<open>Reservations, authorization and release\<close>

text \<open>C1: In every reachable state the two reservation tables are exact: a module (an account) is
  reserved for call \<open>i\<close> precisely when \<open>i\<close> is a live call on that module (using that account), so no
  module and no account ever serves two calls and no reservation outlives its call.\<close>
theorem reservations_exact:
  assumes "router_reachable r"
  shows "(map_of (rt_moduleUse r) m = Some i \<longleftrightarrow> (\<exists>c. map_of (rt_calls r) i = Some c \<and> call_module c = m)) \<and>
    (map_of (rt_accountUse r) a = Some i \<longleftrightarrow> (\<exists>c. map_of (rt_calls r) i = Some c \<and> uses c a))"
  using reachable_core[OF assms] by (simp add: core_moduleUse core_accountUse)

lemma open_leg_owner:
  assumes "call_ok c" and "map_of (call_legs c) rid = Some l" and "\<not> leg_closing l" and "call_phase c = Connected"
  shows "rid = call_winner c \<and> call_ownerAccount c = leg_account l"
proof -
  have "rid = call_winner c" using assms unfolding call_ok_def by auto
  then show ?thesis using assms unfolding call_ok_def by auto
qed

text \<open>C2: An open client leg always belongs to an account whose current policy allows the module of
  the call, and while the call still rings that policy also receives calls. Until the call is
  established the registration behind the leg is held, for that account. Once it is established the
  only open leg is the winner's and its account owns the call; the registration behind it may be gone
  then, because an established dialog outlives its registration.\<close>
theorem open_legs_authorized:
  assumes "router_reachable r" and "map_of (rt_calls r) i = Some c"
    and "map_of (call_legs c) rid = Some l" and "\<not> leg_closing l"
  shows "allowed r (leg_account l) (call_module c) \<and>
    (call_phase c = Ringing \<longrightarrow> receives r (leg_account l)) \<and>
    (call_phase c \<noteq> Connected \<longrightarrow>
      (\<exists>reg. map_of (rt_registrations r) rid = Some reg \<and> reg_id reg = rid \<and> reg_account reg = leg_account l)) \<and>
    (call_phase c = Connected \<longrightarrow> rid = call_winner c \<and> call_ownerAccount c = leg_account l)"
proof -
  have inv: "inv_except {} r" by (rule reachable_inv0[OF assms(1)])
  have core: "core_inv r" by (rule inv_core[OF inv])
  have "\<exists>reg. map_of (rt_registrations r) rid = Some reg \<and> reg_id reg = rid \<and> reg_account reg = leg_account l"
    if phase: "call_phase c \<noteq> Connected"
  proof -
    have "map_of (rt_registrations r) rid \<noteq> None"
      using inv assms(2-) phase unfolding inv_except_def regs_live_def by blast
    then obtain reg where reg: "map_of (rt_registrations r) rid = Some reg" by auto
    then have "reg_id reg = rid" "reg_account reg = leg_account l"
      using core assms(2,3) unfolding core_inv_def regs_ok_def legs_ok_def by blast+
    then show ?thesis using reg by blast
  qed
  moreover have "allowed r (leg_account l) (call_module c) \<and> (call_phase c = Ringing \<longrightarrow> receives r (leg_account l))"
    using inv assms(2-) unfolding inv_except_def auth_ok_def leg_auth_def by blast
  ultimately show ?thesis using open_leg_owner[OF core_callD(4)[OF core assms(2)] assms(3,4)] by blast
qed

fun confirmed :: "nat \<Rightarrow> op list \<Rightarrow> nat option set" where
  "confirmed i [] = {}"
| "confirmed i (OpModuleClosed j # ops) = (if j = i then {None} else {}) \<union> confirmed i ops"
| "confirmed i (OpClientClosed j rid # ops) = (if j = i then {Some rid} else {}) \<union> confirmed i ops"
| "confirmed i (_ # ops) = confirmed i ops"

definition confirmation :: "op \<Rightarrow> bool" where
  "confirmation op \<longleftrightarrow> (case op of OpModuleClosed _ \<Rightarrow> True | OpClientClosed _ _ \<Rightarrow> True | _ \<Rightarrow> False)"

lemma pending_confirmed:
  assumes "router_inv r" and "list_all confirmation ops"
  shows "pending (execs ops r) i = pending r i - confirmed i ops"
  using assms
proof (induction ops arbitrary: r)
  case Nil
  then show ?case by simp
next
  case (Cons op ops)
  have core: "core_inv r" using Cons.prems(1) by (simp add: inv0 inv_core)
  have "pending (execs ops (exec op r)) i = pending (exec op r) i - confirmed i ops"
    using Cons.prems by (intro Cons.IH exec_inv) simp_all
  then show ?case
    using Cons.prems(2)
    by (cases op) (auto simp: confirmation_def pending_ModuleClosed[OF core] pending_ClientClosed[OF core])
qed

text \<open>C5: Cleanup terminates: once the module and every client leg of a call have been confirmed closed,
  in any order and interleaved with the confirmations of other calls, the call is gone and neither
  its module nor any account is reserved for it; calls without such confirmations are kept.\<close>
theorem confirmed_call_released:
  assumes "router_reachable r" and "list_all confirmation ops"
  shows "(map_of (rt_calls (execs ops r)) i = None \<longleftrightarrow> pending r i \<subseteq> confirmed i ops) \<and>
    (pending r i \<subseteq> confirmed i ops \<longrightarrow>
      map_of (rt_moduleUse (execs ops r)) m \<noteq> Some i \<and> map_of (rt_accountUse (execs ops r)) a \<noteq> Some i)"
proof -
  have inv: "router_inv r" by (rule router.reachable_inv[OF assms(1)])
  have core: "core_inv (execs ops r)"
    using execs_reachable[OF assms(1)] by (rule reachable_core)
  have "map_of (rt_calls (execs ops r)) i = None \<longleftrightarrow> pending r i \<subseteq> confirmed i ops"
    unfolding pending_empty_iff[OF core, symmetric] pending_confirmed[OF inv assms(2)] by blast
  then show ?thesis using core_moduleUse[OF core] core_accountUse[OF core] by auto
qed

subsection \<open>Revocation\<close>

text \<open>C4: Raising an account's credential revision cuts the old credentials off at once: the account has
  no registration left, each of its client legs is being terminated, and registering with the old
  revision is refused.\<close>
theorem PutPolicy_revokes:
  assumes r: "router_reachable r" and old: "map_of (rt_policies r) (pol_account p) = Some q"
    and new: "pol_revision q < pol_revision p" and res: "PutPolicy p r = (r', as, None)"
  shows "(\<forall>i reg. map_of (rt_registrations r') i = Some reg \<longrightarrow> reg_account reg \<noteq> pol_account p) \<and>
    quiet (pol_account p) r' \<and> Register (pol_account p) (pol_revision q) ttl r' = (r', Inl ErrUnauthorized)"
proof -
  define a where "a = pol_account p"
  define p' where "p' = (if pol_all p then p\<lparr>pol_modules := []\<rparr> else p)"
  define r1 where "r1 = r\<lparr>rt_policies := AList.update a p' (rt_policies r),
      rt_revisions := AList.update a (pol_revision p) (rt_revisions r)\<rparr>"
  define r2 where "r2 = fst (revoke a ''credentials-changed'' r1)"
  define sel where "sel = (\<lambda>(c :: acall) l. leg_account l = a \<and>
      (\<not> allows p' (call_module c) \<or> call_phase c = Ringing \<and> \<not> pol_receive p'))"
  define r3 where "r3 = (case callOfAccount r2 a of None \<Rightarrow> r2
      | Some c \<Rightarrow> putCall r2 (fst (withdrawLegs sel ''permission-changed'' c)))"
  have r3: "r' = r3" and good: "pol_account p \<noteq> []"
    using res old new
    by (auto simp: PutPolicy_def Let_def split_beta r3_def r2_def r1_def sel_def p'_def a_def
        split: option.splits if_splits)
  have "inv_except {} r" by (rule reachable_inv0[OF r])
  then have "inv_except {a} r1"
    using old good unfolding inv_except_def core_defs regs_live_def auth_ok_def regs_auth_def leg_auth_def
      allowed_def receives_def r1_def by (simp add: p'_def a_def)
  then have r2: "inv_except {a} r2" "same_tables r1 r2" "quiet a r2"
    "\<And>i reg. map_of (rt_registrations r2) i = Some reg \<Longrightarrow> reg_account reg \<noteq> a"
    using revoke_facts[of "{a}" r1 a] by (simp_all add: r2_def)
  have core2: "core_inv r2" by (rule inv_core[OF r2(1)])
  have "quiet a r3"
  proof (cases "callOfAccount r2 a")
    case None
    then show ?thesis using r2(3) by (simp add: r3_def)
  next
    case (Some c)
    then have c: "map_of (rt_calls r2) (call_id c) = Some c" using callOfAccount_Some[OF core2] by blast
    show ?thesis
      using quiet_putCall[OF r2(3) core2 c withdrawLegs_evolves[OF core_callD(4)[OF core2 c]]] Some
      by (simp add: r3_def)
  qed
  moreover have "rt_registrations r3 = rt_registrations r2" "rt_policies r3 = rt_policies r1"
    using r2(2) by (auto simp: r3_def same_tables_def split: option.splits)
  moreover have "map_of (rt_policies r1) a = Some p'" by (simp add: r1_def)
  ultimately show ?thesis
    using r2(4) new by (auto simp: r3 a_def[symmetric] Register_def p'_def)
qed


subsection \<open>Answering\<close>

lemma Answer_success:
  assumes core: "core_inv r" and res: "Answer reg i r = (r', v, as, None)"
  obtains c l where "map_of (rt_calls r) i = Some c" "map_of (call_legs c) (reg_id reg) = Some l"
    "valid r reg" "call_phase c = Ringing" "\<not> leg_closing l" "call_deadline c > rt_now r"
    "r' = putCall r (c\<lparr>call_phase := Connecting, call_winner := reg_id reg,
        call_deadline := rt_now r + seconds 30, call_ownerAccount := reg_account reg,
        call_legs := shutLegs (- {reg_id reg}) (call_legs c)\<rparr>)"
    "as = snd (each (\<lambda>other c. if other \<noteq> reg_id reg then closeLeg ''answered-elsewhere'' other c else (c, []))
        (keys (call_legs c)) (c\<lparr>call_phase := Connecting, call_winner := reg_id reg,
        call_deadline := rt_now r + seconds 30, call_ownerAccount := reg_account reg\<rparr>)) @
        [mkAction AnswerModule i (reg_id reg) (call_module c) []]"
proof -
  obtain c l where c: "map_of (rt_calls r) i = Some c" "map_of (call_legs c) (reg_id reg) = Some l"
    "valid r reg" "call_phase c = Ringing" "\<not> leg_closing l" "call_deadline c > rt_now r"
    using res by (auto simp: Answer_def Let_def split_beta split: option.splits if_splits)
  let ?c1 = "c\<lparr>call_phase := Connecting, call_winner := reg_id reg,
        call_deadline := rt_now r + seconds 30, call_ownerAccount := reg_account reg\<rparr>"
  have "fst (each (\<lambda>other c. if other \<noteq> reg_id reg then closeLeg ''answered-elsewhere'' other c else (c, []))
        (keys (call_legs ?c1)) ?c1) = ?c1\<lparr>call_legs := shutLegs (- {reg_id reg}) (call_legs c)\<rparr>"
    using each_closeLeg_eq[of ?c1 "- {reg_id reg}" "''answered-elsewhere''" "keys (call_legs ?c1)"]
      shutLegs_keys[of "call_legs c" "- {reg_id reg}"] core_callD(5)[OF core c(1)] by simp
  then show thesis
    using that[OF c] res c core_callD(1)[OF core c(1)] by (auto simp: Answer_def Let_def split_beta)
qed

lemma each_closeLeg_actions:
  assumes "distinct ks" and "k \<in> set ks" and "P k" and "map_of (call_legs c) k = Some l" and "\<not> leg_closing l"
  shows "mkAction TerminateClient (call_id c) k (call_module c) reason \<in>
    set (snd (each (\<lambda>k c. if P k then closeLeg reason k c else (c, [])) ks c))"
  using assms
proof (induction ks arbitrary: c)
  case Nil
  then show ?case by simp
next
  case (Cons x ks)
  show ?case
  proof (cases "x = k")
    case True
    then show ?thesis using Cons.prems by (simp add: split_beta closeLeg_def)
  next
    case False
    define d where "d = fst (if P x then closeLeg reason x c else (c, []))"
    have "map_of (call_legs d) k = Some l" "call_id d = call_id c" "call_module d = call_module c"
      using False Cons.prems(4) by (auto simp: d_def closeLeg_def split: option.splits)
    then show ?thesis
      using Cons.IH[of d] Cons.prems False by (auto simp: split_beta simp flip: d_def)
  qed
qed

text \<open>C3: A call has a single winner: after a registration answers, the call is connecting and owned by
  it, every other leg is closing with its client told so, and the module is told to answer; and after
  any further steps of the scheduler, whatever they are, the call if it still exists has the same
  winner and does not ring, and no answer to it, by whoever, succeeds.\<close>
theorem single_winner:
  assumes r: "router_reachable r" and res: "Answer reg i r = (r', v, as, None)"
  shows "\<exists>c c'. map_of (rt_calls r) i = Some c \<and> map_of (rt_calls r') i = Some c' \<and>
    call_phase c' = Connecting \<and> call_winner c' = reg_id reg \<and> call_ownerAccount c' = reg_account reg \<and>
    (\<forall>rid l. map_of (call_legs c') rid = Some l \<longrightarrow> (leg_closing l \<longleftrightarrow> rid \<noteq> reg_id reg)) \<and>
    (\<forall>rid l. map_of (call_legs c) rid = Some l \<and> \<not> leg_closing l \<and> rid \<noteq> reg_id reg \<longrightarrow>
       mkAction TerminateClient i rid (call_module c) ''answered-elsewhere'' \<in> set as) \<and>
    mkAction AnswerModule i (reg_id reg) (call_module c) [] \<in> set as \<and>
    (\<forall>r''. rtranclp router_step r' r'' \<longrightarrow>
       (\<forall>c''. map_of (rt_calls r'') i = Some c'' \<longrightarrow> call_phase c'' \<noteq> Ringing \<and> call_winner c'' = reg_id reg) \<and>
       (\<forall>reg2. snd (snd (snd (Answer reg2 i r''))) \<noteq> None))"
proof -
  have core: "core_inv r" by (rule reachable_core[OF r])
  obtain c l where c: "map_of (rt_calls r) i = Some c" "map_of (call_legs c) (reg_id reg) = Some l"
    "\<not> leg_closing l"
    and r': "r' = putCall r (c\<lparr>call_phase := Connecting, call_winner := reg_id reg,
        call_deadline := rt_now r + seconds 30, call_ownerAccount := reg_account reg,
        call_legs := shutLegs (- {reg_id reg}) (call_legs c)\<rparr>)"
    and as: "as = snd (each (\<lambda>other c. if other \<noteq> reg_id reg then closeLeg ''answered-elsewhere'' other c else (c, []))
        (keys (call_legs c)) (c\<lparr>call_phase := Connecting, call_winner := reg_id reg,
        call_deadline := rt_now r + seconds 30, call_ownerAccount := reg_account reg\<rparr>)) @
        [mkAction AnswerModule i (reg_id reg) (call_module c) []]"
    by (rule Answer_success[OF core res]) blast
  define c' where "c' = c\<lparr>call_phase := Connecting, call_winner := reg_id reg,
        call_deadline := rt_now r + seconds 30, call_ownerAccount := reg_account reg,
        call_legs := shutLegs (- {reg_id reg}) (call_legs c)\<rparr>"
  have id: "call_id c = i" and d: "distinct_legs c" using core_callD[OF core c(1)] by auto
  have c': "map_of (rt_calls r') i = Some c'" using id by (simp add: r' c'_def)
  have told: "mkAction TerminateClient i rid (call_module c) ''answered-elsewhere'' \<in> set as"
    if leg: "map_of (call_legs c) rid = Some l'" "\<not> leg_closing l'" "rid \<noteq> reg_id reg" for rid l'
    using each_closeLeg_actions[of "keys (call_legs c)" rid "\<lambda>k. k \<noteq> reg_id reg"
        "c\<lparr>call_phase := Connecting, call_winner := reg_id reg,
           call_deadline := rt_now r + seconds 30, call_ownerAccount := reg_account reg\<rparr>" l' "''answered-elsewhere''"]
      leg d id map_of_in_keys[OF leg(1)] unfolding as by simp
  have r'_reachable: "router_reachable r'"
    using reachable.next_step[OF r router_step.operation[of r "OpAnswer reg i"]] res by simp
  have later: "call_phase c'' \<noteq> Ringing \<and> call_winner c'' = reg_id reg"
    if run: "rtranclp router_step r' r''" and c'': "map_of (rt_calls r'') i = Some c''" for r'' c''
  proof -
    have "i \<le> rt_next r'" by (rule core_callD(3)[OF reachable_core[OF r'_reachable] c'])
    then have "keepsWinner c' c''"
      using run_settles[OF run r'_reachable] c' c'' by (fastforce simp: settles_def)
    then show ?thesis by (simp add: keepsWinner_def c'_def)
  qed
  have again: "snd (snd (snd (Answer reg2 i r''))) \<noteq> None" if "rtranclp router_step r' r''" for reg2 r''
    using later[OF that] by (auto simp: Answer_def split: option.splits)
  show ?thesis
    by (intro exI[of _ c] exI[of _ c'] conjI allI impI)
       (use c c' told again later in \<open>auto simp: c'_def as\<close>)
qed


subsection \<open>Offering a call\<close>

lemma dialChoices_eligible:
  assumes "m \<in> set (dialChoices a r)"
  shows "m \<in> set (eligibleModules a r) \<and>
    (1 < length (eligibleModules a r) \<longrightarrow> map_of (rt_lastDial r) a \<noteq> Some m)"
  using assms by (auto simp: dialChoices_def Let_def split: if_splits)

text \<open>A successful dial takes a module that is ready, free and allowed by the account's policy, avoids
  the module of the account's previous dial whenever another one is eligible, remembers the choice,
  and hands out one dial order that is current for the new call.\<close>
theorem Dial_chooses:
  assumes r: "router_reachable r" and res: "Dial reg seed r = (r', v, as, None)"
  shows "map_of (rt_ready r) (cv_module v) = Some True \<and> map_of (rt_moduleUse r) (cv_module v) = None \<and>
    allowed r (reg_account reg) (cv_module v) \<and>
    (1 < length (eligibleModules (reg_account reg) r) \<longrightarrow>
       map_of (rt_lastDial r) (reg_account reg) \<noteq> Some (cv_module v)) \<and>
    map_of (rt_lastDial r') (reg_account reg) = Some (cv_module v) \<and>
    map_of (rt_moduleUse r') (cv_module v) = Some (cv_id v) \<and>
    map_of (rt_accountUse r') (reg_account reg) = Some (cv_id v) \<and>
    as = [mkAction DialModule (cv_id v) (reg_id reg) (cv_module v) []] \<and>
    list_all (\<lambda>a. ActionCurrent a r') as"
proof -
  have core: "core_inv r" by (rule reachable_core[OF r])
  let ?ch = "dialChoices (reg_account reg) r"
  let ?m = "?ch ! (seed mod length ?ch)"
  have g: "valid r reg" "get0 (rt_accountUse r) (reg_account reg) = 0" "eligibleModules (reg_account reg) r \<noteq> []"
    using res by (auto simp: Dial_def split: if_splits)
  then have "?ch \<noteq> []" using dialChoices_nonempty[OF core] by blast
  then have mem: "?m \<in> set ?ch" by (intro nth_mem) simp
  then have el: "map_of (rt_ready r) ?m = Some True" "get0 (rt_moduleUse r) ?m = 0" "allowed r (reg_account reg) ?m"
    using dialChoices_eligible[OF mem] core
    by (auto simp: eligibleModules_def core_inv_def keys_ok_def map_of_eq_Some_iff)
  define i where "i = rt_next r + 1"
  have out: "v = \<lparr>cv_id = i, cv_module = ?m, cv_phase = Some Dialing, cv_winner = reg_id reg,
      cv_deadline = rt_now r + seconds 60\<rparr>" "as = [mkAction DialModule i (reg_id reg) ?m []]"
    "map_of (rt_lastDial r') = (map_of (rt_lastDial r))(reg_account reg \<mapsto> ?m)"
    "map_of (rt_moduleUse r') = (map_of (rt_moduleUse r))(?m \<mapsto> i)"
    "map_of (rt_accountUse r') = (map_of (rt_accountUse r))(reg_account reg \<mapsto> i)"
    "rt_registrations r' = rt_registrations r" "rt_now r' = rt_now r"
    "map_of (rt_calls r') i = Some \<lparr>call_id = i, call_module = ?m, call_phase = Dialing,
       call_winner = reg_id reg, call_deadline = rt_now r + seconds 60,
       call_legs = [(reg_id reg, mkLeg reg)], call_moduleClosed = False, call_ownerAccount = reg_account reg\<rparr>"
    using res g by (auto simp: Dial_def Let_def newCall_def addLeg_def view_def i_def mkLeg_def putCall_def)
  have "valid r' reg" using g(1) unfolding valid_def out(6,7) .
  then show ?thesis
    using el dialChoices_eligible[OF mem] out core_get0_module[OF core, of ?m]
    by (simp add: ActionCurrent_def mkAction_def seconds_def)
qed

lemma each_addLeg_actions: "snd (each (\<lambda>reg rc. (addLeg reg rc, [f reg])) regs rc) = map f regs"
  by (induction regs arbitrary: rc) (simp_all add: split_beta)

lemma incomingTargets_iff:
  assumes core: "core_inv r"
  shows "reg \<in> set (incomingTargets m r) \<longleftrightarrow> map_of (rt_registrations r) (reg_id reg) = Some reg \<and>
    reg_expires reg > rt_now r \<and> receives r (reg_account reg) \<and> allowed r (reg_account reg) m \<and>
    map_of (rt_accountUse r) (reg_account reg) = None"
proof -
  have "reg \<in> snd ` set (rt_registrations r) \<longleftrightarrow> map_of (rt_registrations r) (reg_id reg) = Some reg"
  proof
    assume "reg \<in> snd ` set (rt_registrations r)"
    then obtain i where "(i, reg) \<in> set (rt_registrations r)" by auto
    then have "map_of (rt_registrations r) i = Some reg"
      using core by (simp add: core_inv_def keys_ok_def)
    moreover from this have "reg_id reg = i" using core by (simp add: core_inv_def regs_ok_def)
    ultimately show "map_of (rt_registrations r) (reg_id reg) = Some reg" by simp
  next
    assume "map_of (rt_registrations r) (reg_id reg) = Some reg"
    then show "reg \<in> snd ` set (rt_registrations r)" by (metis map_of_SomeD image_eqI snd_conv)
  qed
  then show ?thesis
    by (auto simp: incomingTargets_def valid_def core_get0_account[OF core])
qed

text \<open>An incoming call on a ready, free module rings exactly the unexpired registrations of the free
  accounts whose policy receives calls and allows the module, and each of these ring orders is
  current for the new call.\<close>
theorem Incoming_rings:
  assumes r: "router_reachable r" and res: "Incoming m r = (r', v, as, None)"
  shows "(\<forall>rid. mkAction Ring (cv_id v) rid m [] \<in> set as \<longleftrightarrow>
      (\<exists>reg. map_of (rt_registrations r) rid = Some reg \<and> reg_expires reg > rt_now r \<and>
         receives r (reg_account reg) \<and> allowed r (reg_account reg) m \<and>
         map_of (rt_accountUse r) (reg_account reg) = None)) \<and>
    list_all (\<lambda>a. act_kind a = Ring \<and> act_call a = cv_id v \<and> act_module a = m \<and> ActionCurrent a r') as"
proof -
  have core: "core_inv r" by (rule reachable_core[OF r])
  let ?T = "incomingTargets m r"
  let ?i = "rt_next r + 1"
  have ne: "?T \<noteq> []" using res by (auto simp: Incoming_def Let_def split: if_splits)
  obtain r1 c where nc: "newCall m Ringing (seconds 30) r = (r1, c)" by fastforce
  have c: "call_id c = ?i" "call_module c = m" "call_phase c = Ringing" "call_deadline c = rt_now r + seconds 30"
    "call_legs c = []" "distinct (keys (rt_calls r1))" "rt_registrations r1 = rt_registrations r" "rt_now r1 = rt_now r"
    using nc core by (auto simp: newCall_def Let_def core_inv_def keys_ok_def distinct_keys_update)
  obtain r2 c2 where fin: "fst (each (\<lambda>reg rc. (addLeg reg rc, [mkAction Ring (call_id c) (reg_id reg) m []])) ?T (r1, c)) = (r2, c2)"
    and c2: "c2 = c\<lparr>call_legs := call_legs c2\<rparr>"
      "map_of (call_legs c2) = map_of (map (\<lambda>reg. (reg_id reg, mkLeg reg)) ?T)"
    and r2: "r2 = r1\<lparr>rt_calls := rt_calls r2, rt_accountUse := rt_accountUse r2\<rparr>"
      "map_of (rt_calls r2) = (map_of (rt_calls r1))(?i \<mapsto> c2)"
    using each_addLeg[OF incomingTargets_distinct[OF core, of m] c(1,6), of "\<lambda>reg. [mkAction Ring (call_id c) (reg_id reg) m []]"]
      ne c(5) by auto
  have "call_id c2 = ?i"
    by (subst c2(1)) (simp add: c(1))
  then have out: "r' = r2" "cv_id v = ?i" "as = map (\<lambda>reg. mkAction Ring ?i (reg_id reg) m []) ?T"
    using res nc fin ne each_addLeg_actions[of "\<lambda>reg. mkAction Ring (call_id c) (reg_id reg) m []" ?T "(r1, c)"] c(1)
    by (auto simp: Incoming_def Let_def split_beta view_def split: if_splits)
  have fields: "call_module c2 = m" "call_phase c2 = Ringing" "call_deadline c2 = rt_now r + seconds 30"
    by (subst c2(1), simp add: c)+
  have tabs: "rt_registrations r2 = rt_registrations r" "rt_now r2 = rt_now r"
    by (subst r2(1), simp add: c)+
  have leg: "map_of (call_legs c2) (reg_id reg) = Some (mkLeg reg)" if "reg \<in> set ?T" for reg
    using that incomingTargets_distinct[OF core, of m] unfolding c2(2)
    by (intro map_of_is_SomeI) (auto simp: comp_def)
  have cur: "ActionCurrent (mkAction Ring ?i (reg_id reg) m []) r2" if "reg \<in> set ?T" for reg
  proof -
    have "valid r2 reg" using that incomingTargets_iff[OF core] by (simp add: valid_def tabs)
    then show ?thesis
      using leg[OF that] r2(2) fields tabs by (simp add: ActionCurrent_def mkAction_def seconds_def)
  qed
  have "(mkAction Ring ?i rid m [] \<in> set as) \<longleftrightarrow> (\<exists>reg \<in> set ?T. reg_id reg = rid)" for rid
    by (auto simp: out mkAction_def)
  moreover have "(\<exists>reg \<in> set ?T. reg_id reg = rid) \<longleftrightarrow> (\<exists>reg. map_of (rt_registrations r) rid = Some reg \<and>
      reg_expires reg > rt_now r \<and> receives r (reg_account reg) \<and> allowed r (reg_account reg) m \<and>
      map_of (rt_accountUse r) (reg_account reg) = None)" for rid
    using incomingTargets_iff[OF core] core unfolding core_inv_def regs_ok_def by metis
  moreover have "list_all (\<lambda>a. act_kind a = Ring \<and> act_call a = ?i \<and> act_module a = m \<and> ActionCurrent a r2) as"
    using cur by (auto simp: out list_all_iff mkAction_def)
  ultimately show ?thesis by (simp add: out)
qed


subsection \<open>Expiry\<close>

lemma endCall_deadline:
  assumes "call_ok c"
  shows "call_deadline (fst (endCall reason c)) = 0"
proof -
  have "call_phase c = Ending \<Longrightarrow> call_deadline c = 0" using assms by (auto simp: call_ok_def)
  then show ?thesis by (simp add: endCall_eq[OF call_ok_distinct[OF assms]] ended_def)
qed

lemma tick_sel:
  "inv_except A r \<Longrightarrow> revokeSome (\<lambda>r reg. \<not> valid r reg) reason ks r =
    revokeSome (\<lambda>r reg. \<not> reg_expires reg > rt_now r) reason ks r"
proof (induction ks arbitrary: r)
  case Nil
  then show ?case by (simp add: revokeSome_def)
next
  case (Cons k ks)
  have core: "core_inv r" by (rule inv_core[OF Cons.prems])
  let ?g = "\<lambda>sel r. (case map_of (rt_registrations r) k of None \<Rightarrow> (r, [])
      | Some reg \<Rightarrow> if sel r reg then revokeRegistration reason k r else (r, []))"
  have "valid r reg \<longleftrightarrow> reg_expires reg > rt_now r" if "map_of (rt_registrations r) k = Some reg" for reg
    using core that by (auto simp: core_inv_def regs_ok_def valid_def)
  then have eq: "?g (\<lambda>r reg. \<not> valid r reg) r = ?g (\<lambda>r reg. \<not> reg_expires reg > rt_now r) r"
    by (cases "map_of (rt_registrations r) k") simp_all
  have "inv_except A (fst (?g (\<lambda>r reg. \<not> reg_expires reg > rt_now r) r))"
    using Cons.prems by (auto split: option.splits intro: revokeRegistration_inv)
  from Cons.IH[OF this] show ?case
    unfolding revokeSome_def each.simps eq by (simp add: split_beta)
qed

lemma tick_regs:
  assumes inv: "inv_except A r"
  shows "map_of (rt_registrations (fst (revokeSome (\<lambda>r reg. \<not> valid r reg) reason ks r))) i =
    (case map_of (rt_registrations r) i of None \<Rightarrow> None
     | Some reg \<Rightarrow> if i \<in> set ks \<and> \<not> reg_expires reg > rt_now r then None else Some reg)"
  unfolding tick_sel[OF inv]
  using revokeSome_registrations[OF inv, of "\<lambda>r reg. \<not> reg_expires reg > rt_now r" "\<lambda>reg. \<not> reg_expires reg > rt_now r" reason ks]
  by (simp add: same_tables_def)

lemma endDue_calls:
  assumes "inv_except A r"
  shows "rt_now (fst (endDue ks r)) = rt_now r \<and>
    rt_registrations (fst (endDue ks r)) = rt_registrations r \<and>
    map_of (rt_calls (fst (endDue ks r))) i = map_option (\<lambda>c.
      if i \<in> set ks \<and> call_deadline c \<noteq> 0 \<and> \<not> call_deadline c > rt_now r
      then fst (endCall ''timeout'' c) else c) (map_of (rt_calls r) i)"
  using assms
proof (induction ks arbitrary: r)
  case Nil
  then show ?case by (simp add: endDue_def option.map_ident)
next
  case (Cons k ks)
  define r1 where "r1 = fst (endDue [k] r)"
  have inv1: "inv_except A r1" unfolding r1_def by (rule endDue_inv[OF Cons.prems])
  have core: "core_inv r" by (rule inv_core[OF Cons.prems])
  have step: "fst (endDue (k # ks) r) = fst (endDue ks r1)"
    by (simp add: endDue_def r1_def split_beta)
  have ids: "map_of (rt_calls r) k = Some c \<Longrightarrow> call_id (fst (endCall reason c)) = k" for c reason
    using core_callD(1,4)[OF core] evolves_fields(1)[OF endCall_evolves] by metis
  have r1: "rt_now r1 = rt_now r" "rt_registrations r1 = rt_registrations r"
    "map_of (rt_calls r1) i = map_option (\<lambda>c.
      if i = k \<and> call_deadline c \<noteq> 0 \<and> \<not> call_deadline c > rt_now r
      then fst (endCall ''timeout'' c) else c) (map_of (rt_calls r) i)"
    by (cases "map_of (rt_calls r) k"; cases "i = k"; force simp: r1_def endDue_def split_beta Let_def ids option.map_ident)+
  have "map_of (rt_calls r) i = Some c \<Longrightarrow> call_deadline (fst (endCall reason c)) = 0" for c reason
    using core_callD(4)[OF core] endCall_deadline by blast
  then show ?case
    unfolding step using Cons.IH[OF inv1] r1
    by (cases "map_of (rt_calls r) i") auto
qed

text \<open>The timer removes exactly the expired registrations and leaves no call past its deadline.\<close>
theorem Tick_expires:
  assumes "router_reachable r"
  shows "(\<forall>i reg. map_of (rt_registrations (fst (Tick r))) i = Some reg \<longleftrightarrow>
      map_of (rt_registrations r) i = Some reg \<and> reg_expires reg > rt_now r) \<and>
    (\<forall>i c. map_of (rt_calls (fst (Tick r))) i = Some c \<longrightarrow> call_deadline c = 0 \<or> call_deadline c > rt_now r)"
proof -
  have inv: "inv_except {} r" by (rule reachable_inv0[OF assms])
  have core: "core_inv r" by (rule inv_core[OF inv])
  define r1 where "r1 = fst (revokeSome (\<lambda>r reg. \<not> valid r reg) ''registration-expired'' (keys (rt_registrations r)) r)"
  have inv1: "inv_except {} r1" unfolding r1_def by (rule revokeSome_inv[OF inv])
  have now1: "rt_now r1 = rt_now r"
    using revokeSome_frame[OF inv] by (simp add: r1_def same_tables_def)
  have res: "fst (Tick r) = fst (endDue (keys (rt_calls r1)) r1)" by (simp add: Tick_split r1_def Let_def)
  have "call_deadline c = 0 \<or> call_deadline c > rt_now r" if fin: "map_of (rt_calls (fst (Tick r))) i = Some c" for i c
  proof -
    let ?due = "\<lambda>d. call_deadline d \<noteq> 0 \<and> \<not> call_deadline d > rt_now r"
    obtain d where d: "map_of (rt_calls r1) i = Some d"
      and c: "c = (if i \<in> set (keys (rt_calls r1)) \<and> ?due d then fst (endCall ''timeout'' d) else d)"
      using fin endDue_calls[OF inv1, of "keys (rt_calls r1)" i] unfolding res now1 by auto
    have "call_deadline (fst (endCall ''timeout'' d)) = 0"
      by (rule endCall_deadline[OF core_callD(4)[OF inv_core[OF inv1] d]])
    then show ?thesis using c map_of_in_keys[OF d] by presburger
  qed
  moreover have "map_of (rt_registrations (fst (Tick r))) i = Some reg \<longleftrightarrow>
      map_of (rt_registrations r) i = Some reg \<and> reg_expires reg > rt_now r" for i reg
  proof -
    have *: "map_of (rt_registrations (fst (Tick r))) = map_of (rt_registrations r1)"
      using endDue_calls[OF inv1] by (simp add: res)
    show ?thesis
      unfolding * r1_def tick_regs[OF inv] using map_of_in_keys[of "rt_registrations r" i]
      by (cases "map_of (rt_registrations r) i") auto
  qed
  ultimately show ?thesis by blast
qed


subsection \<open>An established dialog\<close>

definition connectedTo :: "nat \<Rightarrow> nat \<Rightarrow> router \<Rightarrow> bool" where
  "connectedTo i w r \<longleftrightarrow> (case map_of (rt_calls r) i of None \<Rightarrow> False
     | Some c \<Rightarrow> call_phase c = Connected \<and> call_winner c = w)"

lemma revokeRegistration_connected:
  assumes core: "core_inv r" and con: "connectedTo i w r"
    and reason: "reason = ''logout'' \<or> reason = ''registration-expired''"
  shows "connectedTo i w (fst (revokeRegistration reason rid r))"
proof (cases "map_of (rt_registrations r) rid")
  case None
  then show ?thesis using con by (simp add: revokeRegistration_def)
next
  case (Some reg)
  let ?r1 = "r\<lparr>rt_registrations := AList.delete rid (rt_registrations r)\<rparr>"
  have coa: "callOfAccount ?r1 (reg_account reg) = callOfAccount r (reg_account reg)"
    by (simp add: callOfAccount_def)
  have con1: "connectedTo i w ?r1" using con by (simp add: connectedTo_def)
  show ?thesis
  proof (cases "callOfAccount r (reg_account reg)")
    case None
    then show ?thesis using Some coa con1 by (simp add: revokeRegistration_def)
  next
    case c: (Some c)
    then have cid: "map_of (rt_calls r) (call_id c) = Some c" using callOfAccount_Some[OF core] by blast
    have ok: "call_ok c" by (rule core_callD(4)[OF core cid])
    have id: "call_id (fst (withdraw reason rid c)) = call_id c"
      by (rule evolves_fields(1)[OF withdraw_evolves[OF ok]])
    have "connectedTo i w (putCall ?r1 (fst (withdraw reason rid c)))" if "\<not> keepsDialog c rid reason"
    proof (cases "call_id c = i")
      case True
      then have "call_phase c = Connected" "call_winner c = w"
        using con cid by (auto simp: connectedTo_def)
      then show ?thesis
        using that reason True id
        by (auto simp: connectedTo_def keepsDialog_def withdraw_eq[OF call_ok_distinct[OF ok]])
    next
      case False
      then show ?thesis using con1 id by (simp add: connectedTo_def)
    qed
    then show ?thesis using Some c coa con1
      by (auto simp: revokeRegistration_def split_beta Let_def)
  qed
qed

lemma Logout_connected: "core_inv r \<Longrightarrow> connectedTo i w r \<Longrightarrow> connectedTo i w (fst (Logout reg r))"
  using revokeRegistration_connected
  by (auto simp: Logout_def split_beta Let_def split: option.splits)

lemma Tick_connected:
  assumes inv: "inv_except {} r" and con: "connectedTo i w r"
  shows "connectedTo i w (fst (Tick r))"
proof -
  define r1 where "r1 = fst (revokeSome (\<lambda>r reg. \<not> valid r reg) ''registration-expired'' (keys (rt_registrations r)) r)"
  have "inv_except {} r1 \<and> connectedTo i w r1"
    unfolding r1_def revokeSome_def
    by (rule each_invariant)
       (use inv con in \<open>auto split: option.splits
          intro: revokeRegistration_inv revokeRegistration_connected [OF inv_core]\<close>)
  moreover have "call_deadline c = 0"
    if "inv_except {} r1" "map_of (rt_calls r1) i = Some c" "call_phase c = Connected" for c
    using core_callD(4)[OF inv_core[OF that(1)] that(2)] that(3) by (simp add: call_ok_def)
  ultimately have "connectedTo i w (fst (endDue (keys (rt_calls r1)) r1))"
    using endDue_calls[of "{}" r1 "keys (rt_calls r1)" i]
    by (auto simp: connectedTo_def split: option.splits)
  then show ?thesis by (simp add: Tick_split r1_def Let_def)
qed

lemma extends_connected:
  assumes core: "core_inv r" and con: "connectedTo i w r" and ex: "extends r r'"
  shows "connectedTo i w r'"
proof -
  obtain c where c: "map_of (rt_calls r) i = Some c" using con by (auto simp: connectedTo_def split: option.splits)
  then have "map_of (rt_calls r') i = map_of (rt_calls r) i"
    using ex core_callD(3)[OF core c] by (simp add: extends_def)
  then show ?thesis using con by (simp add: connectedTo_def)
qed

lemma putCall_connected:
  "connectedTo i w r \<Longrightarrow> call_id c \<noteq> i \<Longrightarrow> connectedTo i w (putCall r c)"
  by (simp add: connectedTo_def)

lemma Answer_connected:
  assumes core: "core_inv r" and con: "connectedTo i w r"
  shows "connectedTo i w (fst (Answer reg j r))"
proof (cases "j = i")
  case True
  obtain c where c: "map_of (rt_calls r) i = Some c" "call_phase c = Connected"
    using con by (auto simp: connectedTo_def split: option.splits)
  have "fst (Answer reg i r) = r" by (simp add: Answer_def c split: option.split)
  then show ?thesis using con True by simp
next
  case False
  have ids: "call_id (fst (each f ks c)) = call_id c" if "\<And>k c. call_id (fst (f k c)) = call_id c" for f ks and c :: acall
    by (rule each_invariant[of "\<lambda>d. call_id d = call_id c"]) (simp_all add: that)
  have close: "call_id (fst (closeLeg reason k c)) = call_id c" for reason k c
    by (simp add: closeLeg_def split: option.split)
  have put: "connectedTo i w (putCall r (fst (each (\<lambda>other c. if other \<noteq> reg_id reg
      then closeLeg ''answered-elsewhere'' other c else (c, [])) ks
        (c\<lparr>call_phase := Connecting, call_winner := w', call_deadline := d, call_ownerAccount := a\<rparr>))))"
    if "map_of (rt_calls r) j = Some c" for c ks w' d a
    using core_callD(1)[OF core that] False by (intro putCall_connected[OF con]) (subst ids; simp add: close)
  have ended: "connectedTo i w (putCall r (fst (endCall reason c)))" if "map_of (rt_calls r) j = Some c" for c reason
    using core_callD(1)[OF core that] evolves_fields(1)[OF endCall_evolves[OF core_callD(4)[OF core that]], of reason] False
    by (intro putCall_connected[OF con]) simp
  show ?thesis
    using con put ended by (simp add: Answer_def Let_def split_beta split: option.split)
qed

lemma markConnected_connected:
  assumes core: "core_inv r" and con: "connectedTo i w r"
  shows "connectedTo i w (fst (markConnected j r))"
proof (cases "j = i")
  case True
  obtain c where c: "map_of (rt_calls r) i = Some c" "call_phase c = Connected"
    using con by (auto simp: connectedTo_def split: option.splits)
  have "fst (markConnected i r) = r" by (simp add: markConnected_def c)
  then show ?thesis using con True by simp
next
  case False
  have put: "connectedTo i w (putCall r (c\<lparr>call_phase := Connected, call_deadline := 0\<rparr>))" if "map_of (rt_calls r) j = Some c" for c
    using core_callD(1)[OF core that] False by (intro putCall_connected[OF con]) simp
  show ?thesis using con put by (simp add: markConnected_def split: option.split)
qed

text \<open>The operations that neither end calls on purpose nor change what an account may do.\<close>

fun undisturbing :: "op \<Rightarrow> bool" where
  "undisturbing (OpRegister _ _ _) = True"
| "undisturbing (OpRefresh _ _) = True"
| "undisturbing (OpLogout _) = True"
| "undisturbing (OpDial _ _) = True"
| "undisturbing (OpIncoming _) = True"
| "undisturbing (OpAnswer _ _) = True"
| "undisturbing (OpConnected _) = True"
| "undisturbing OpTick = True"
| "undisturbing _ = False"

definition undisturbed :: "router \<Rightarrow> router \<Rightarrow> bool" where
  "undisturbed r r' \<longleftrightarrow> (\<exists>op. undisturbing op \<and> r' = exec op r) \<or> (\<exists>t \<ge> rt_now r. r' = r\<lparr>rt_now := t\<rparr>)"

lemma undisturbed_step: "undisturbed r r' \<Longrightarrow> router_step r r'"
  unfolding undisturbed_def by (auto intro: router_step.operation router_step.clock)

lemma undisturbed_connected:
  assumes inv: "inv_except {} r" and con: "connectedTo i w r" and step: "undisturbed r r'"
  shows "connectedTo i w r'"
proof -
  have core: "core_inv r" by (rule inv_core[OF inv])
  have "connectedTo i w (exec op r)" if "undisturbing op" for op
    using that Logout_connected[OF core con] Tick_connected[OF inv con] Answer_connected[OF core con]
      markConnected_connected[OF core con] extends_connected[OF core con Register_extends]
      extends_connected[OF core con Refresh_extends] extends_connected[OF core con Dial_extends]
      extends_connected[OF core con Incoming_extends]
    by (cases op) simp_all
  moreover have "connectedTo i w (r\<lparr>rt_now := t\<rparr>)" for t using con by (simp add: connectedTo_def)
  ultimately show ?thesis using step by (auto simp: undisturbed_def)
qed

text \<open>C21: An established dialog outlives its registration: through any run of registrations, refreshes,
  logouts, expiries at the timer, new and answered calls and any passing of time, a connected call stays
  connected to the same winner, whether or not the winner's registration is still there. Only a hangup,
  a closed adapter, a module that is not ready or a change of the account ends it.\<close>
theorem dialog_survives:
  assumes r: "router_reachable r" and con: "connectedTo i w r" and run: "rtranclp undisturbed r r'"
  shows "connectedTo i w r'"
proof -
  have "router_reachable r' \<and> connectedTo i w r'"
    using run
  proof (induction rule: rtranclp_induct)
    case base
    then show ?case using r con by simp
  next
    case (step s t)
    then show ?case using undisturbed_connected[OF reachable_inv0] undisturbed_step reachable.next_step by metis
  qed
  then show ?thesis ..
qed

subsection \<open>A concrete run\<close>

text \<open>Two registered accounts, two modules, an incoming call on module \<open>m\<close> that the first account answers.\<close>

definition demo_policy :: "string \<Rightarrow> nat \<Rightarrow> policy" where
  "demo_policy a v = \<lparr>pol_account = a, pol_revision = v, pol_all = True, pol_modules = [], pol_receive = True\<rparr>"

definition demo_ready :: router where
  "demo_ready = execs [OpPutPolicy (demo_policy ''a'' 1), OpPutPolicy (demo_policy ''b'' 1),
     OpRegister ''a'' 1 (seconds 60), OpRegister ''b'' 1 (seconds 600), OpSetModuleReady ''m'' True, OpSetModuleReady ''n'' True] (newRouter 1)"

definition demo_ringing :: router where
  "demo_ringing = exec (OpIncoming ''m'') demo_ready"

definition demo_reg :: "nat \<Rightarrow> string \<Rightarrow> registration" where
  "demo_reg i a = \<lparr>reg_id = i, reg_account = a, reg_expires = 0\<rparr>"

definition demo_connected :: router where
  "demo_connected = execs [OpAnswer (demo_reg 1 ''a'') 3, OpConnected 3] demo_ringing"

lemma demo_reachable:
  "router_reachable demo_ready" "router_reachable demo_ringing" "router_reachable demo_connected"
proof -
  show 1: "router_reachable demo_ready"
    unfolding demo_ready_def by (intro execs_reachable newRouter_reachable) simp
  show 2: "router_reachable demo_ringing"
    unfolding demo_ringing_def by (rule reachable.next_step[OF 1 router_step.operation])
  show "router_reachable demo_connected"
    unfolding demo_connected_def by (rule execs_reachable[OF 2])
qed


theorem reservations_exact_witness:
  "map_of (rt_moduleUse demo_ringing) ''m'' = Some 3 \<and>
   (\<exists>c. map_of (rt_calls demo_ringing) 3 = Some c \<and> call_module c = ''m'') \<and>
   (\<exists>c. map_of (rt_calls demo_ringing) 3 = Some c \<and> uses c ''b'')"
proof -
  have "map_of (rt_moduleUse demo_ringing) ''m'' = Some 3" "map_of (rt_accountUse demo_ringing) ''b'' = Some 3"
    by code_simp+
  then show ?thesis using reservations_exact[OF demo_reachable(2), of "''m''" 3 "''b''"] by blast
qed

definition demo_call :: acall where
  "demo_call = the (map_of (rt_calls demo_ringing) 3)"

definition demo_leg :: leg where
  "demo_leg = the (map_of (call_legs demo_call) 2)"

theorem open_legs_authorized_witness:
  "allowed demo_ringing ''b'' ''m'' \<and> receives demo_ringing ''b''"
proof -
  have c: "map_of (rt_calls demo_ringing) 3 = Some demo_call" "map_of (call_legs demo_call) 2 = Some demo_leg"
    "\<not> leg_closing demo_leg" and v: "leg_account demo_leg = ''b''" "call_module demo_call = ''m''"
    "call_phase demo_call = Ringing"
    by code_simp+
  show ?thesis using open_legs_authorized[OF demo_reachable(2) c] v by simp
qed

theorem confirmed_call_released_witness:
  "map_of (rt_calls demo_connected) 3 \<noteq> None \<and>
   map_of (rt_calls (execs [OpClientClosed 3 2, OpModuleClosed 3, OpClientClosed 3 1] demo_connected)) 3 = None"
proof -
  have "list_all confirmation [OpClientClosed 3 2, OpModuleClosed 3, OpClientClosed 3 1]"
    "pending demo_connected 3 \<subseteq> confirmed 3 [OpClientClosed 3 2, OpModuleClosed 3, OpClientClosed 3 1]"
    "map_of (rt_calls demo_connected) 3 \<noteq> None"
    by code_simp+
  then show ?thesis using confirmed_call_released[OF demo_reachable(3)] by blast
qed

theorem PutPolicy_revokes_witness:
  "case PutPolicy (demo_policy ''a'' 2) demo_ringing of
     (r', as, e) \<Rightarrow> e = None \<and> quiet ''a'' r' \<and> Register ''a'' 1 7 r' = (r', Inl ErrUnauthorized)"
proof -
  obtain r' as e where res: "PutPolicy (demo_policy ''a'' 2) demo_ringing = (r', as, e)" by (metis surj_pair)
  have "snd (snd (PutPolicy (demo_policy ''a'' 2) demo_ringing)) = None"
    "map_of (rt_policies demo_ringing) (pol_account (demo_policy ''a'' 2)) = Some (demo_policy ''a'' 1)"
    "pol_revision (demo_policy ''a'' 1) < pol_revision (demo_policy ''a'' 2)"
    "pol_account (demo_policy ''a'' 2) = ''a''" "pol_revision (demo_policy ''a'' 1) = 1"
    by code_simp+
  then show ?thesis
    using PutPolicy_revokes[OF demo_reachable(2), of "demo_policy ''a'' 2" "demo_policy ''a'' 1" r' as 7] res by simp
qed

theorem single_winner_witness:
  "case Answer (demo_reg 1 ''a'') 3 demo_ringing of (r', v, as, e) \<Rightarrow> e = None \<and>
     mkAction TerminateClient 3 2 ''m'' ''answered-elsewhere'' \<in> set as \<and>
     snd (snd (snd (Answer (demo_reg 2 ''b'') 3 (exec OpTick r')))) \<noteq> None"
proof -
  obtain r' v as e where res: "Answer (demo_reg 1 ''a'') 3 demo_ringing = (r', v, as, e)" by (metis surj_pair)
  have *: "snd (snd (snd (Answer (demo_reg 1 ''a'') 3 demo_ringing))) = None"
    "map_of (rt_calls demo_ringing) 3 = Some demo_call" "map_of (call_legs demo_call) 2 = Some demo_leg"
    "\<not> leg_closing demo_leg" "call_module demo_call = ''m''" "reg_id (demo_reg 1 ''a'') = 1"
    by code_simp+
  then have "Answer (demo_reg 1 ''a'') 3 demo_ringing = (r', v, as, None)" using res by simp
  from single_winner[OF demo_reachable(2) this] obtain c where
    "map_of (rt_calls demo_ringing) 3 = Some c"
    "\<And>rid l. map_of (call_legs c) rid = Some l \<Longrightarrow> \<not> leg_closing l \<Longrightarrow> rid \<noteq> reg_id (demo_reg 1 ''a'') \<Longrightarrow>
       mkAction TerminateClient 3 rid (call_module c) ''answered-elsewhere'' \<in> set as"
    "snd (snd (snd (Answer (demo_reg 2 ''b'') 3 (exec OpTick r')))) \<noteq> None"
    using r_into_rtranclp[where r = router_step, OF router_step.operation[of r' OpTick]] by blast
  with * res show ?thesis by fastforce
qed

theorem Dial_chooses_witness:
  "case Dial (demo_reg 1 ''a'') 1 demo_ready of (r', v, as, e) \<Rightarrow> e = None \<and> cv_module v = ''n'' \<and>
     map_of (rt_ready demo_ready) ''n'' = Some True \<and> list_all (\<lambda>a. ActionCurrent a r') as"
proof -
  obtain r' v as e where res: "Dial (demo_reg 1 ''a'') 1 demo_ready = (r', v, as, e)" by (metis surj_pair)
  have "snd (snd (snd (Dial (demo_reg 1 ''a'') 1 demo_ready))) = None"
    "cv_module (fst (snd (Dial (demo_reg 1 ''a'') 1 demo_ready))) = ''n''"
    by code_simp+
  then show ?thesis
    using Dial_chooses[OF demo_reachable(1), of "demo_reg 1 ''a''" 1 r' v as] res by clarsimp
qed

theorem Incoming_rings_witness:
  "case Incoming ''m'' demo_ready of (r', v, as, e) \<Rightarrow> e = None \<and>
     mkAction Ring (cv_id v) 1 ''m'' [] \<in> set as \<and> mkAction Ring (cv_id v) 7 ''m'' [] \<notin> set as"
proof -
  obtain r' v as e where res: "Incoming ''m'' demo_ready = (r', v, as, e)" by (metis surj_pair)
  have *: "snd (snd (snd (Incoming ''m'' demo_ready))) = None" "map_of (rt_registrations demo_ready) 7 = None"
    "map_of (rt_registrations demo_ready) 1 = Some \<lparr>reg_id = 1, reg_account = ''a'', reg_expires = 1 + seconds 60\<rparr>"
    "rt_now demo_ready < 1 + seconds 60" "receives demo_ready ''a''" "allowed demo_ready ''a'' ''m''"
    "map_of (rt_accountUse demo_ready) ''a'' = None"
    by code_simp+
  then show ?thesis
    using Incoming_rings[OF demo_reachable(1), of "''m''" r' v as] res by auto
qed

definition demo_late :: router where
  "demo_late = demo_ringing\<lparr>rt_now := seconds 100\<rparr>"

theorem Tick_expires_witness:
  "map_of (rt_registrations demo_late) 1 \<noteq> None \<and> map_of (rt_registrations (fst (Tick demo_late))) 1 = None"
proof -
  have "rt_now demo_ringing \<le> seconds 100" by code_simp
  then have r: "router_reachable demo_late"
    unfolding demo_late_def by (rule reachable.next_step[OF demo_reachable(2) router_step.clock])
  have "map_of (rt_registrations demo_late) 1 = Some \<lparr>reg_id = 1, reg_account = ''a'', reg_expires = 1 + seconds 60\<rparr>"
    "rt_now demo_late = seconds 100" "\<not> 1 + seconds 60 > seconds 100"
    by code_simp+
  then show ?thesis
    using Tick_expires[OF r] by (cases "map_of (rt_registrations (fst (Tick demo_late))) 1") auto
qed

theorem dialog_survives_witness:
  "connectedTo 3 1 (exec OpTick (exec (OpLogout (demo_reg 1 ''a'')) demo_connected)) \<and>
   map_of (rt_registrations (exec (OpLogout (demo_reg 1 ''a'')) demo_connected)) 1 = None"
proof -
  have con: "connectedTo 3 1 demo_connected"
    and gone: "map_of (rt_registrations (exec (OpLogout (demo_reg 1 ''a'')) demo_connected)) 1 = None" by code_simp+
  have "undisturbed demo_connected (exec (OpLogout (demo_reg 1 ''a'')) demo_connected)"
    "undisturbed (exec (OpLogout (demo_reg 1 ''a'')) demo_connected) (exec OpTick (exec (OpLogout (demo_reg 1 ''a'')) demo_connected))"
    unfolding undisturbed_def by (metis undisturbing.simps(3), metis undisturbing.simps(8))
  then have "rtranclp undisturbed demo_connected (exec OpTick (exec (OpLogout (demo_reg 1 ''a'')) demo_connected))"
    by (rule converse_rtranclp_into_rtranclp[OF _ r_into_rtranclp])
  then show ?thesis using dialog_survives[OF demo_reachable(3) con] gone by blast
qed

end
