(* ===== verification/IkeWire_Props.thy ===== *)
theory IkeWire_Props
  imports IkeWire
begin

text \<open>
  Properties of the IKEv2 wire format: what is marshalled parses back to itself, what a parser
  accepts is well formed and bounded, no parser reads out of range, and only supported suites are
  selected.
\<close>

subsection \<open>Reading behind a prefix\<close>

lemma idx_at [res_simps]: "i = length pre + k \<Longrightarrow> k < length xs \<Longrightarrow> idx (pre @ xs) i = Inr (xs ! k)"
  by (simp add: idx_def nth_append)

lemma get16_at [res_simps]:
  "i = length pre + k \<Longrightarrow> k + 2 \<le> length xs \<Longrightarrow> get16 (pre @ xs) i = Inr (un16 (xs ! k) (xs ! (k + 1)))"
  by (simp add: get16_def nth_append)

lemma slice_at [res_simps]:
  "lo = length pre + i \<Longrightarrow> hi = length pre + j \<Longrightarrow> i \<le> j \<Longrightarrow> j \<le> length xs \<Longrightarrow>
    slice (pre @ xs) lo hi = Inr (take (j - i) (drop i xs))"
  by (simp add: slice_def)

lemma un16_word_of_nat:
  "un16 (ucast (drop_bit 8 (word_of_nat n :: 16 word))) (ucast (word_of_nat n :: 16 word)) = word_of_nat n"
  by simp

lemma put16_nth [simp]: "put16 v ! 0 = ucast (drop_bit 8 v)" "put16 v ! Suc 0 = ucast v"
  by (simp_all add: put16_def)

subsection \<open>The header\<close>

definition header_ok :: "ike_header \<Rightarrow> bool" where
  "header_ok h \<longleftrightarrow> length (hdr_initiator h) = 8 \<and> length (hdr_responder h) = 8 \<and>
     (hdr_version h = 0 \<or> drop_bit 4 (hdr_version h) = 2)"

lemma slice_prefix: "length xs = n \<Longrightarrow> slice (xs @ ys) 0 n = Inr xs"
  by (simp add: slice_def)

lemma get32_at: "i = length pre + k \<Longrightarrow> k + 4 \<le> length xs \<Longrightarrow>
    get32 (pre @ xs) i = Inr (un32 (xs ! k) (xs ! (k + 1)) (xs ! (k + 2)) (xs ! (k + 3)))"
  by (simp add: get32_def nth_append)

lemma parseIKEPacket_marshalHeader:
  assumes ok: "header_ok h" and len: "28 + length body < 4294967296"
  shows "parseIKEPacket (marshalHeader h body) =
    Inr (h\<lparr>hdr_version := if hdr_version h = 0 then 0x20 else hdr_version h,
           hdr_length := word_of_nat (28 + length body)\<rparr>, body)"
proof -
  define v where "v = (if hdr_version h = 0 then 0x20 else hdr_version h)"
  define L :: "32 word" where "L = word_of_nat (28 + length body)"
  define packet where "packet = hdr_initiator h @ hdr_responder h @ [hdr_next h, v, hdr_exchange h, hdr_flags h] @
      put32 (hdr_message h) @ put32 L @ body"
  have m: "marshalHeader h body = packet"
    unfolding marshalHeader_def Let_def v_def packet_def L_def ..
  obtain a0 a1 a2 a3 a4 a5 a6 a7 where i8: "hdr_initiator h = [a0, a1, a2, a3, a4, a5, a6, a7]"
    using ok by (auto simp: header_ok_def numeral_eq_Suc length_Suc_conv)
  obtain b0 b1 b2 b3 b4 b5 b6 b7 where r8: "hdr_responder h = [b0, b1, b2, b3, b4, b5, b6, b7]"
    using ok by (auto simp: header_ok_def numeral_eq_Suc length_Suc_conv)
  have reads: "slice packet 0 8 = Inr (hdr_initiator h)" "slice packet 8 16 = Inr (hdr_responder h)"
    "idx packet 16 = Inr (hdr_next h)" "idx packet 17 = Inr v" "idx packet 18 = Inr (hdr_exchange h)"
    "idx packet 19 = Inr (hdr_flags h)" "get32 packet 20 = Inr (hdr_message h)" "get32 packet 24 = Inr L"
    "slice packet 28 (28 + length body) = Inr body" "length packet = 28 + length body"
    unfolding packet_def i8 r8 put32_def
    by (simp_all add: slice_def idx_def get32_def un32_put32)
  have ver: "drop_bit 4 v = (2 :: byte)"
    using ok by (auto simp: v_def header_ok_def)
  have uL: "unat L = 28 + length body" unfolding L_def by (rule unat_of_nat32[OF len])
  then have "\<not> L < 28" by (simp add: word_less_nat_alt)
  then show ?thesis
    unfolding parseIKEPacket_def m L_def[symmetric] v_def[symmetric] reads rbind.simps ver uL by (simp add: reads)
qed

text \<open>A marshalled IKE packet parses back to its header, with the default version and the total
  length filled in, and its body.\<close>
theorem ike_packet_roundtrip:
  assumes ok: "header_ok h" and len: "28 + length body < 4294967296"
  shows "parseIKEPacket (marshalHeader h body) =
    Inr (h\<lparr>hdr_version := if hdr_version h = 0 then 0x20 else hdr_version h,
           hdr_length := word_of_nat (28 + length body)\<rparr>, body)"
  by (rule parseIKEPacket_marshalHeader [OF assms])

subsection \<open>The payload chain\<close>

lemma critical_bit [simp]: "((if c then 0x80 else 0) AND 0x80 \<noteq> (0 :: byte)) = c"
  by simp

lemma parsePayloads_marshal:
  assumes "marshalPayloads ps = Inr enc" and "length result + length ps \<le> 64"
  shows "parsePayloads (pre @ enc) (followingType ps) (length pre) result = Inr (result @ ps)"
  using assms
proof (induction ps arbitrary: enc pre result)
  case Nil
  then show ?case by (simp add: parsePayloads.simps followingType_def)
next
  case (Cons p ps)
  let ?len = "4 + length (pl_body p)"
  let ?hd = "[followingType ps, if pl_critical p then 0x80 else 0] @ put16 (word_of_nat ?len)"
  obtain rest where rest: "marshalPayloads ps = Inr rest"
    and enc: "enc = ?hd @ pl_body p @ rest"
    and ok: "pl_type p \<noteq> payloadNone" "?len \<le> 65535"
    using Cons.prems(1) by (auto simp: rbind_Inr_iff split: if_splits)
  have len: "unat (word_of_nat ?len :: 16 word) = ?len" using ok(2) by (intro unat_of_nat16) simp
  have nexts: "enc ! 0 = followingType ps" "enc ! 1 = (if pl_critical p then 0x80 else 0)"
    "un16 (enc ! 2) (enc ! (2 + 1)) = word_of_nat ?len" "take (?len - 4) (drop 4 enc) = pl_body p"
    "length enc = ?len + length rest"
    by (simp_all add: enc put16_def)
  have pos: "length (pre @ ?hd @ pl_body p) = length pre + ?len" by simp
  have "parsePayloads ((pre @ ?hd @ pl_body p) @ rest) (followingType ps) (length (pre @ ?hd @ pl_body p))
      (result @ [p]) = Inr ((result @ [p]) @ ps)"
    using Cons.prems(2) by (intro Cons.IH[OF rest]) simp
  then have IH: "parsePayloads (pre @ enc) (followingType ps) (length pre + ?len) (result @ [p]) = Inr (result @ p # ps)"
    unfolding pos enc by simp
  have p: "\<lparr>pl_type = pl_type p, pl_critical = pl_critical p, pl_body = pl_body p\<rparr> = p" by simp
  have reads: "idx (pre @ enc) (length pre) = Inr (followingType ps)"
    "idx (pre @ enc) (length pre + 1) = Inr (if pl_critical p then 0x80 else 0)"
    "get16 (pre @ enc) (length pre + 2) = Inr (word_of_nat ?len)"
    "slice (pre @ enc) (length pre + 4) (length pre + ?len) = Inr (pl_body p)"
    using nexts by (simp_all add: idx_def get16_def slice_def nth_append)
  have small: "\<not> 64 \<le> length result" "\<not> length pre + 4 > length (pre @ enc)"
    "\<not> (?len < 4 \<or> length pre + ?len > length (pre @ enc))"
    using Cons.prems(2) nexts(5) by simp_all
  have first: "followingType (p # ps) = pl_type p" by (simp add: followingType_def)
  show ?case
    unfolding first
    by (subst parsePayloads.simps)
       (simp only: ok(1) small reads rbind.simps len Let_def critical_bit p IH if_False)
qed

lemma parsePayloadChain_marshal:
  assumes "marshalPayloadChain ps = Inr (first, enc)" and "length ps \<le> 64"
  shows "parsePayloadChain first enc = Inr ps"
proof -
  have "marshalPayloads ps = Inr enc \<and> first = followingType ps"
    using assms(1) by (auto simp: marshalPayloadChain_def rbind_Inr_iff followingType_def split: if_splits)
  then show ?thesis
    using parsePayloads_marshal[of ps enc "[]" "[]"] assms(2) by (simp add: parsePayloadChain_def)
qed

text \<open>A payload chain of at most 64 payloads that marshals parses back to itself.\<close>
theorem payload_chain_roundtrip:
  assumes "marshalPayloadChain ps = Inr (first, enc)" and "length ps \<le> 64"
  shows "parsePayloadChain first enc = Inr ps"
  by (rule parsePayloadChain_marshal [OF assms])


subsection \<open>Proposals\<close>

definition transform_ok :: "transform \<Rightarrow> bool" where
  "transform_ok t \<longleftrightarrow> 0 \<le> tr_keyLength t \<and> tr_keyLength t < 65536"

lemma length_marshalAttributes: "length (marshalAttributes t) \<le> 4"
  by (simp add: marshalAttributes_def)

lemma length_marshalTransforms: "length (marshalTransforms ts) \<le> 12 * length ts"
  using length_marshalAttributes by (induction ts) (auto simp: add_mono intro: le_trans add_mono)

lemma get16_two: "get16 (put16 a @ put16 b) 0 = Inr a" "get16 (put16 a @ put16 b) 2 = Inr b"
  by (simp_all add: get16_def put16_def)

lemma parseAttributes_marshal:
  assumes "transform_ok t"
  shows "parseAttributes (marshalAttributes t) 0 = Inr (tr_keyLength t)"
proof (cases "tr_keyLength t > 0")
  case True
  define kind :: "16 word" where "kind = 0x8000 OR transformAttributeKeyLen"
  define bits :: "16 word" where "bits = word_of_int (tr_keyLength t)"
  have "uint bits = tr_keyLength t"
    unfolding bits_def using assms by (simp add: transform_ok_def unsigned_of_int take_bit_int_eq_self)
  moreover have "kind AND 0x8000 \<noteq> 0" "kind AND 0x7fff = transformAttributeKeyLen" by (simp_all add: kind_def)
  moreover have "drop 4 (put16 a @ put16 b) = []" "put16 a @ put16 b \<noteq> []" "\<not> length (put16 a @ put16 b) < 4" for a b
    by (simp_all add: put16_def)
  moreover have "marshalAttributes t = put16 kind @ put16 bits"
    unfolding marshalAttributes_def kind_def bits_def using True by (simp only: if_True)
  moreover have "parseAttributes [] k = Inr k" for k by (simp add: parseAttributes.simps)
  ultimately show ?thesis
    by (subst parseAttributes.simps) (simp only: get16_two rbind.simps if_True if_False not_False_eq_True simp_thms)
next
  case False
  then show ?thesis
    using assms by (simp add: parseAttributes.simps marshalAttributes_def transform_ok_def)
qed

lemma parseTransforms_marshal:
  assumes "list_all transform_ok ts" and "length result + length ts \<le> 32"
    and "limit = length pre + length (marshalTransforms ts)"
  shows "parseTransforms (pre @ marshalTransforms ts @ post) (length pre) limit result = Inr (result @ ts)"
  using assms
proof (induction ts arbitrary: pre result)
  case Nil
  then show ?case by (simp add: parseTransforms.simps)
next
  case (Cons t ts)
  let ?at = "marshalAttributes t"
  let ?len = "8 + length ?at"
  define rest where "rest = marshalTransforms ts"
  define marker :: byte where "marker = (if ts \<noteq> [] then 3 else 0)"
  define hd where "hd = [marker, 0] @ put16 (word_of_nat ?len) @ [tr_type t, 0] @ put16 (tr_id t)"
  have enc: "marshalTransforms (t # ts) = hd @ ?at @ rest"
    by (simp add: hd_def rest_def marker_def)
  define xs where "xs = pre @ (hd @ ?at @ rest) @ post"
  have hl: "length hd = 8" by (simp add: hd_def)
  have rest_empty: "length rest = 0 \<longleftrightarrow> ts = []"
    unfolding rest_def by (cases ts) simp_all
  have lim: "limit = length pre + ?len + length rest" using Cons.prems(3) hl unfolding enc by simp
  have len: "unat (word_of_nat ?len :: 16 word) = ?len"
    using length_marshalAttributes[of t] by (intro unat_of_nat16) simp
  have reads: "idx xs (length pre) = Inr marker" "idx xs (length pre + 4) = Inr (tr_type t)"
    "get16 xs (length pre + 2) = Inr (word_of_nat ?len)" "get16 xs (length pre + 6) = Inr (tr_id t)"
    "slice xs (length pre + 8) (length pre + ?len) = Inr ?at"
    unfolding xs_def hd_def put16_def by (simp_all add: idx_def get16_def slice_def nth_append)
  have pos: "length (pre @ hd @ ?at) = length pre + ?len" using hl by simp
  have "parseTransforms ((pre @ hd @ ?at) @ rest @ post) (length (pre @ hd @ ?at)) limit (result @ [t]) =
      Inr ((result @ [t]) @ ts)"
    unfolding rest_def using Cons.prems lim hl by (intro Cons.IH) (simp_all add: rest_def)
  then have IH: "parseTransforms xs (length pre + ?len) limit (result @ [t]) = Inr (result @ t # ts)"
    unfolding pos xs_def by simp
  have cond: "length pre < limit" "\<not> (32 \<le> length result \<or> length pre + 8 > limit)"
    "\<not> (?len < 8 \<or> length pre + ?len > limit)"
    "\<not> (length pre + ?len < limit \<and> marker \<noteq> 3)" "\<not> (length pre + ?len = limit \<and> marker \<noteq> 0)"
    using lim Cons.prems(2) rest_empty by (auto simp: marker_def)
  have t: "\<lparr>tr_type = tr_type t, tr_id = tr_id t, tr_keyLength = tr_keyLength t\<rparr> = t" by simp
  have att: "parseAttributes ?at 0 = Inr (tr_keyLength t)"
    using Cons.prems(1) by (intro parseAttributes_marshal) simp
  show ?case
    unfolding enc xs_def[symmetric]
    by (subst parseTransforms.simps)
       (simp only: cond reads rbind.simps len Let_def att t IH if_False not_True_eq_False)
qed

definition proposal_ok :: "proposal \<Rightarrow> bool" where
  "proposal_ok p \<longleftrightarrow> length (pr_transforms p) \<le> 32 \<and> list_all transform_ok (pr_transforms p)"

lemma parseProposalList_marshal:
  assumes "marshalProposals ps = Inr enc" and "list_all proposal_ok ps" and "length result + length ps \<le> 16"
  shows "parseProposalList (pre @ enc) (length pre) result = Inr (result @ ps)"
  using assms
proof (induction ps arbitrary: enc pre result)
  case Nil
  then show ?case by (simp add: parseProposalList.simps)
next
  case (Cons p ps)
  let ?ts = "pr_transforms p"
  define trs where "trs = marshalTransforms ?ts"
  let ?len = "8 + length (pr_spi p) + length trs"
  obtain rest where rest: "marshalProposals ps = Inr rest"
    and spi: "length (pr_spi p) \<le> 255"
    and enc0: "enc = [if ps \<noteq> [] then 2 else 0, 0] @ put16 (word_of_nat ?len) @
       [pr_number p, pr_protocol p, word_of_nat (length (pr_spi p)), word_of_nat (length ?ts)] @
       pr_spi p @ trs @ rest"
    using Cons.prems(1) by (auto simp: rbind_Inr_iff Let_def trs_def split: if_splits)
  define marker :: byte where "marker = (if ps \<noteq> [] then 2 else 0)"
  define hd where "hd = [marker, 0] @ put16 (word_of_nat ?len) @
       [pr_number p, pr_protocol p, word_of_nat (length (pr_spi p)), word_of_nat (length ?ts)]"
  have enc: "enc = hd @ pr_spi p @ trs @ rest" using enc0 by (simp add: hd_def marker_def)
  have hl: "length hd = 8" by (simp add: hd_def)
  define xs where "xs = pre @ hd @ pr_spi p @ trs @ rest"
  have okp: "length ?ts \<le> 32" "list_all transform_ok ?ts" using Cons.prems(2) by (simp_all add: proposal_ok_def)
  have tl: "length trs \<le> 384" using length_marshalTransforms[of ?ts] okp by (simp add: trs_def)
  have len: "unat (word_of_nat ?len :: 16 word) = ?len" using spi tl by (intro unat_of_nat16) simp
  have spi8: "unat (word_of_nat (length (pr_spi p)) :: byte) = length (pr_spi p)"
    and cnt8: "unat (word_of_nat (length ?ts) :: byte) = length ?ts"
    using spi okp(1) by (auto intro: unat_of_nat8)
  have reads: "idx xs (length pre) = Inr marker" "idx xs (length pre + 4) = Inr (pr_number p)"
    "idx xs (length pre + 5) = Inr (pr_protocol p)"
    "idx xs (length pre + 6) = Inr (word_of_nat (length (pr_spi p)))"
    "idx xs (length pre + 7) = Inr (word_of_nat (length ?ts))"
    "get16 xs (length pre + 2) = Inr (word_of_nat ?len)"
    "slice xs (length pre + 8) (length pre + 8 + length (pr_spi p)) = Inr (pr_spi p)"
    unfolding xs_def hd_def put16_def by (simp_all add: idx_def get16_def slice_def nth_append)
  have "parseTransforms ((pre @ hd @ pr_spi p) @ marshalTransforms ?ts @ rest) (length (pre @ hd @ pr_spi p))
      (length pre + ?len) [] = Inr ([] @ ?ts)"
    using okp hl by (intro parseTransforms_marshal) (simp_all add: trs_def)
  then have trp: "parseTransforms xs (length pre + 8 + length (pr_spi p)) (length pre + ?len) [] = Inr ?ts"
    using hl by (simp add: xs_def trs_def ac_simps)
  have total: "length xs = length pre + ?len + length rest" using hl by (simp add: xs_def)
  have pos: "length (pre @ hd @ pr_spi p @ trs) = length pre + ?len" using hl by simp
  have "parseProposalList ((pre @ hd @ pr_spi p @ trs) @ rest) (length (pre @ hd @ pr_spi p @ trs)) (result @ [p]) =
      Inr ((result @ [p]) @ ps)"
    using Cons.prems by (intro Cons.IH[OF rest]) simp_all
  then have IH: "parseProposalList xs (length pre + ?len) (result @ [p]) = Inr (result @ p # ps)"
    unfolding pos xs_def by simp
  have p: "\<lparr>pr_number = pr_number p, pr_protocol = pr_protocol p, pr_spi = pr_spi p, pr_transforms = ?ts\<rparr> = p"
    by simp
  have cond: "length pre \<noteq> length xs" "\<not> (16 \<le> length result \<or> length pre + 8 > length xs)"
    "\<not> (?len < 8 + length (pr_spi p) \<or> length pre + ?len > length xs)"
    using total Cons.prems(3) by auto
  have fin: "(if marker = 0 then (if length pre + ?len \<noteq> length xs then err MalformedPacket else Inr (result @ [p]))
      else if marker \<noteq> 2 then err MalformedPacket
      else parseProposalList xs (length pre + ?len) (result @ [p])) = Inr (result @ p # ps)"
  proof (cases "ps = []")
    case True
    then have "rest = []" using rest by simp
    then show ?thesis using True total by (simp add: marker_def)
  next
    case False
    then show ?thesis using IH by (simp add: marker_def)
  qed
  show ?case
    unfolding enc xs_def[symmetric]
    by (subst parseProposalList.simps)
       (simp only: cond reads rbind.simps len spi8 cnt8 Let_def trp p fin if_False simp_thms)
qed

text \<open>Proposals within the parser's limits (at most 16 proposals of at most 32 transforms, key lengths
  that fit their field) parse back from what \<open>marshalProposals\<close> writes.\<close>
theorem proposals_roundtrip:
  assumes "marshalProposals ps = Inr enc" and "list_all proposal_ok ps" and "ps \<noteq> []" and "length ps \<le> 16"
  shows "parseProposals enc = Inr ps"
  using parseProposalList_marshal[OF assms(1,2), of "[]" "[]"] assms(3,4)
  by (simp add: parseProposals_def)


subsection \<open>What the parsers accept\<close>

lemma parsePayloads_no_panic: "parsePayloads encoded next offset result \<noteq> Inl Panic"
proof (induction "64 - length result" arbitrary: "next" offset result rule: less_induct)
  case less
  show ?case
    by (subst parsePayloads.simps) (auto simp: Let_def read_Inl_iff less.hyps split: if_splits)
qed

lemma parseAttributes_no_panic: "parseAttributes attributes k \<noteq> Inl Panic"
proof (induction "length attributes" arbitrary: attributes k rule: less_induct)
  case less
  show ?case
    by (subst parseAttributes.simps) (auto simp: read_Inl_iff less.hyps split: if_splits)
qed

lemma parseTransforms_no_panic:
  "limit \<le> length encoded \<Longrightarrow> parseTransforms encoded offset limit transforms \<noteq> Inl Panic"
proof (induction "32 - length transforms" arbitrary: offset limit transforms rule: less_induct)
  case less
  then show ?case
    by (subst parseTransforms.simps)
       (auto simp: Let_def read_Inl_iff less.hyps parseAttributes_no_panic split: if_splits)
qed

lemma parseProposalList_no_panic: "parseProposalList encoded offset result \<noteq> Inl Panic"
proof (induction "16 - length result" arbitrary: offset result rule: less_induct)
  case less
  show ?case
    by (subst parseProposalList.simps)
       (auto simp: Let_def read_Inl_iff less.hyps parseTransforms_no_panic split: if_splits)
qed

text \<open>No packet, however malformed, makes an IKE parser read out of range: every input gives a value or
  an error.\<close>
theorem ike_parsers_no_panic:
  "parseIKEPacket packet \<noteq> Inl Panic \<and> parsePayloadChain first packet \<noteq> Inl Panic \<and>
   parseProposals packet \<noteq> Inl Panic \<and> parseNotify item \<noteq> Inl Panic"
proof (intro conjI)
  show "parseIKEPacket packet \<noteq> Inl Panic"
    by (auto simp: parseIKEPacket_def idx_def get32_def slice_def)
  show "parsePayloadChain first packet \<noteq> Inl Panic"
    by (simp add: parsePayloadChain_def parsePayloads_no_panic)
  show "parseProposals packet \<noteq> Inl Panic"
    by (auto simp: parseProposals_def parseProposalList_no_panic rbind_Inl_iff split: if_splits)
  show "parseNotify item \<noteq> Inl Panic"
    by (auto simp: parseNotify_def idx_def get16_def slice_def Let_def)
qed

lemma parsePayloads_accepts:
  "parsePayloads encoded next offset result = Inr out \<Longrightarrow> length result \<le> 64 \<Longrightarrow> offset \<le> length encoded \<Longrightarrow>
   \<exists>ps. out = result @ ps \<and> length out \<le> 64 \<and> list_all (\<lambda>p. pl_type p \<noteq> payloadNone) ps \<and>
     offset + sum_list (map (\<lambda>p. 4 + length (pl_body p)) ps) = length encoded \<and> followingType ps = next"
proof (induction "64 - length result" arbitrary: "next" offset result rule: less_induct)
  case less
  show ?case
  proof (cases "next = payloadNone")
    case True
    then show ?thesis
      using less.prems by (subst (asm) parsePayloads.simps) (auto simp: followingType_def split: if_splits)
  next
    case False
    define len where "len = unat (un16 (encoded ! (offset + 2)) (encoded ! (offset + 3)))"
    define p where "p = \<lparr>pl_type = next, pl_critical = (encoded ! (offset + 1) AND 0x80 \<noteq> 0),
      pl_body = take (len - 4) (drop (offset + 4) encoded)\<rparr>"
    have c: "length result < 64" "4 \<le> len" "offset + len \<le> length encoded"
      and rec: "parsePayloads encoded (encoded ! offset) (offset + len) (result @ [p]) = Inr out"
      using False less.prems(1)[unfolded parsePayloads.simps[of encoded "next" offset result]]
      by (auto simp: Let_def idx_def get16_def slice_def len_def p_def numeral_3_eq_3 split: if_splits)
    have dec: "64 - length (result @ [p]) < 64 - length result" using c(1) by simp
    obtain ps where "out = (result @ [p]) @ ps" "length out \<le> 64" "list_all (\<lambda>p. pl_type p \<noteq> payloadNone) ps"
      "offset + len + sum_list (map (\<lambda>p. 4 + length (pl_body p)) ps) = length encoded"
      using less.hyps[OF dec rec] c by auto
    moreover have "4 + length (pl_body p) = len" "pl_type p = next" using c by (simp_all add: p_def)
    ultimately show ?thesis
      using False by (intro exI[of _ "p # ps"]) (simp add: followingType_def)
  qed
qed

text \<open>An accepted payload chain is bounded and covers the input: at most 64 payloads, none of type
  \<open>payloadNone\<close>, the first of the announced type, and their headers and bodies account for every byte.\<close>
theorem payload_chain_accepts:
  assumes "parsePayloadChain first encoded = Inr ps"
  shows "length ps \<le> 64 \<and> list_all (\<lambda>p. pl_type p \<noteq> payloadNone) ps \<and> followingType ps = first \<and>
    sum_list (map (\<lambda>p. 4 + length (pl_body p)) ps) = length encoded"
  using parsePayloads_accepts[of encoded first 0 "[]" ps] assms by (auto simp: parsePayloadChain_def)

subsection \<open>Suites and notifications\<close>

lemma collectIKE_ok:
  "collectIKE ts seen s = Inr s' \<Longrightarrow>
    distinct (map tr_type ts) \<and> set (map tr_type ts) \<inter> set seen = {} \<and> set (map tr_type ts) \<subseteq> {1, 2, 3, 4} \<and>
    (1 \<notin> set (map tr_type ts) \<longrightarrow> su_encryption s' = su_encryption s \<and> su_bits s' = su_bits s) \<and>
    (2 \<notin> set (map tr_type ts) \<longrightarrow> su_prf s' = su_prf s) \<and>
    (3 \<notin> set (map tr_type ts) \<longrightarrow> su_integrity s' = su_integrity s) \<and>
    (4 \<notin> set (map tr_type ts) \<longrightarrow> su_dh s' = su_dh s) \<and>
    (\<forall>t \<in> set ts. (tr_type t = 1 \<longrightarrow> su_encryption s' = tr_id t \<and> su_bits s' = tr_keyLength t) \<and>
       (tr_type t = 2 \<longrightarrow> su_prf s' = tr_id t) \<and> (tr_type t = 3 \<longrightarrow> su_integrity s' = tr_id t) \<and>
       (tr_type t = 4 \<longrightarrow> su_dh s' = tr_id t))"
proof (induction ts arbitrary: seen s)
  case Nil
  then show ?case by simp
next
  case (Cons t ts)
  then have kind: "tr_type t \<in> {1, 2, 3, 4}" "tr_type t \<notin> set seen" by (auto split: if_splits)
  then obtain s1 where rec: "collectIKE ts (tr_type t # seen) s1 = Inr s'"
    and s1: "s1 = (if tr_type t = 1 then s\<lparr>su_encryption := tr_id t, su_bits := tr_keyLength t\<rparr>
      else if tr_type t = 2 then s\<lparr>su_prf := tr_id t\<rparr>
      else if tr_type t = 3 then s\<lparr>su_integrity := tr_id t\<rparr> else s\<lparr>su_dh := tr_id t\<rparr>)"
    using Cons.prems by (auto split: if_splits)
  have nt: "tr_type t \<notin> set (map tr_type ts)" using Cons.IH[OF rec] by auto
  from kind(1) consider "tr_type t = 1" | "tr_type t = 2" | "tr_type t = 3" | "tr_type t = 4" by blast
  then show ?case using Cons.IH[OF rec] kind(2) nt s1 by cases auto
qed

definition supported_suite :: "negotiated_suite \<Rightarrow> bool" where
  "supported_suite s \<longleftrightarrow> su_encryption s = encryptionAESCBC \<and> su_bits s \<in> {128, 256} \<and>
     su_prf s \<in> {prfHMACSHA1, prfHMACSHA256} \<and> su_integrity s \<in> {integrityHMACSHA1_96, integrityHMACSHA256_128} \<and>
     su_dh s \<in> {dhMODP1024, dhMODP2048}"

text \<open>A selected IKE suite is supported and was offered: the proposal is an IKE proposal without SPI
  that has exactly one encryption, PRF, integrity and DH transform, and the suite holds their values.\<close>
theorem parseIKESuite_supported:
  assumes "parseIKESuite item = Inr s"
  shows "pr_protocol item = protocolIKE \<and> pr_spi item = [] \<and> supported_suite s \<and>
    distinct (map tr_type (pr_transforms item)) \<and> set (map tr_type (pr_transforms item)) = {1, 2, 3, 4} \<and>
    (\<exists>e p i d. {e, p, i, d} = set (pr_transforms item) \<and> tr_type e = 1 \<and> tr_type p = 2 \<and> tr_type i = 3 \<and>
      tr_type d = 4 \<and> s = \<lparr>su_encryption = tr_id e, su_bits = tr_keyLength e, su_prf = tr_id p,
        su_integrity = tr_id i, su_dh = tr_id d\<rparr>)"
proof -
  let ?ts = "pr_transforms item"
  define s0 where "s0 = \<lparr>su_encryption = 0, su_bits = 0, su_prf = 0, su_integrity = 0, su_dh = 0\<rparr>"
  have col: "collectIKE ?ts [] s0 = Inr s"
    and sup: "supported_suite s" and pr: "pr_protocol item = protocolIKE" "pr_spi item = []"
    using assms by (auto simp: parseIKESuite_def rbind_Inr_iff supported_suite_def s0_def split: if_splits)
  note c = collectIKE_ok[OF col]
  have zero: "1 \<notin> set (map tr_type ?ts) \<longrightarrow> su_encryption s = su_encryption s0"
    "2 \<notin> set (map tr_type ?ts) \<longrightarrow> su_prf s = su_prf s0"
    "3 \<notin> set (map tr_type ?ts) \<longrightarrow> su_integrity s = su_integrity s0"
    "4 \<notin> set (map tr_type ?ts) \<longrightarrow> su_dh s = su_dh s0"
    and cd: "distinct (map tr_type ?ts)" "set (map tr_type ?ts) \<subseteq> {1, 2, 3, 4}"
    using c by blast+
  have "su_encryption s \<noteq> su_encryption s0" "su_prf s \<noteq> su_prf s0" "su_integrity s \<noteq> su_integrity s0" "su_dh s \<noteq> su_dh s0"
    using sup unfolding supported_suite_def s0_def by auto
  then have "1 \<in> set (map tr_type ?ts)" "2 \<in> set (map tr_type ?ts)" "3 \<in> set (map tr_type ?ts)" "4 \<in> set (map tr_type ?ts)"
    using zero by blast+
  then obtain e p i d where ts: "e \<in> set ?ts" "tr_type e = 1" "p \<in> set ?ts" "tr_type p = 2"
    "i \<in> set ?ts" "tr_type i = 3" "d \<in> set ?ts" "tr_type d = 4" by fastforce
  have all: "set (map tr_type ?ts) = {1, 2, 3, 4}" using ts cd(2) by force
  have "{e, p, i, d} = set ?ts"
  proof
    show "{e, p, i, d} \<subseteq> set ?ts" using ts by blast
    show "set ?ts \<subseteq> {e, p, i, d}"
    proof
      fix t assume t: "t \<in> set ?ts"
      have inj: "inj_on tr_type (set ?ts)" using cd(1) by (simp add: distinct_map)
      have "tr_type t \<in> {1, 2, 3, 4}" using t all by auto
      then consider "tr_type t = tr_type e" | "tr_type t = tr_type p" | "tr_type t = tr_type i" | "tr_type t = tr_type d"
        using ts by auto
      then show "t \<in> {e, p, i, d}"
        by cases (use inj_onD[OF inj _ t] ts in blast)+
    qed
  qed
  moreover have "s = \<lparr>su_encryption = tr_id e, su_bits = tr_keyLength e, su_prf = tr_id p,
        su_integrity = tr_id i, su_dh = tr_id d\<rparr>"
  proof -
    have "su_encryption s = tr_id e \<and> su_bits s = tr_keyLength e" "su_prf s = tr_id p" "su_integrity s = tr_id i"
      "su_dh s = tr_id d" using c ts by blast+
    then show ?thesis by simp
  qed
  ultimately show ?thesis using pr sup cd(1) all ts by blast
qed

text \<open>A notify payload built by \<open>makeNotify\<close> parses back to its type and data.\<close>
theorem notify_roundtrip: "parseNotify (makeNotify notifyType data) = Inr (notifyType, data)"
  by (simp add: parseNotify_def makeNotify_def idx_def get16_def slice_def put16_def Let_def)


subsection \<open>Concrete packets\<close>

definition demo_header :: ike_header where
  "demo_header = \<lparr>hdr_initiator = [1, 2, 3, 4, 5, 6, 7, 8], hdr_responder = [0, 0, 0, 0, 0, 0, 0, 0],
     hdr_next = 33, hdr_version = 0, hdr_exchange = 34, hdr_flags = 8, hdr_message = 0, hdr_length = 0\<rparr>"

theorem ike_packet_roundtrip_witness:
  "parseIKEPacket (marshalHeader demo_header [7]) =
    Inr (demo_header\<lparr>hdr_version := 0x20, hdr_length := 29\<rparr>, [7])"
proof -
  have "header_ok demo_header" "28 + length [7 :: byte] < 4294967296"
    by (simp_all add: header_ok_def demo_header_def)
  from ike_packet_roundtrip[OF this] show ?thesis by (simp add: demo_header_def)
qed

definition demo_payloads :: "payload list" where
  "demo_payloads = [\<lparr>pl_type = 34, pl_critical = True, pl_body = [1, 2]\<rparr>, makeNotify 16388 [9]]"

definition demo_chain :: "byte list" where
  "demo_chain = [41, 0x80, 0, 6, 1, 2, 0, 0, 0, 9, 0, 0, 64, 4, 9]"

lemma demo_chain_marshal: "marshalPayloadChain demo_payloads = Inr (34, demo_chain)"
  by (simp add: marshalPayloadChain_def demo_payloads_def demo_chain_def makeNotify_def followingType_def put16_def)

theorem payload_chain_roundtrip_witness: "parsePayloadChain 34 demo_chain = Inr demo_payloads"
proof -
  have "length demo_payloads \<le> 64" by (simp add: demo_payloads_def)
  from payload_chain_roundtrip[OF demo_chain_marshal this] show ?thesis .
qed

theorem payload_chain_accepts_witness:
  "\<exists>ps. parsePayloadChain 34 demo_chain = Inr ps \<and> sum_list (map (\<lambda>p. 4 + length (pl_body p)) ps) = 15"
proof -
  have "marshalPayloads demo_payloads = Inr demo_chain" "followingType demo_payloads = 34"
    using demo_chain_marshal
    by (auto simp: marshalPayloadChain_def demo_payloads_def rbind_Inr_iff followingType_def simp del: marshalPayloads.simps)
  then have "parsePayloadChain 34 demo_chain = Inr demo_payloads" "length demo_chain = 15"
    using parsePayloads_marshal[of demo_payloads demo_chain "[]" "[]"]
    by (simp_all add: parsePayloadChain_def demo_payloads_def demo_chain_def)
  then show ?thesis using payload_chain_accepts[of 34 demo_chain demo_payloads] by metis
qed

definition demo_proposal :: proposal where
  "demo_proposal = \<lparr>pr_number = 1, pr_protocol = 1, pr_spi = [], pr_transforms =
     [\<lparr>tr_type = 1, tr_id = 12, tr_keyLength = 256\<rparr>, \<lparr>tr_type = 2, tr_id = 5, tr_keyLength = 0\<rparr>,
      \<lparr>tr_type = 3, tr_id = 12, tr_keyLength = 0\<rparr>, \<lparr>tr_type = 4, tr_id = 14, tr_keyLength = 0\<rparr>]\<rparr>"

definition demo_sa :: "byte list" where
  "demo_sa = (case marshalProposals [demo_proposal] of Inr enc \<Rightarrow> enc | Inl _ \<Rightarrow> [])"

theorem proposals_roundtrip_witness: "parseProposals demo_sa = Inr [demo_proposal] \<and> length demo_sa = 44"
proof -
  have "marshalProposals [demo_proposal] = Inr demo_sa" "list_all proposal_ok [demo_proposal]" "[demo_proposal] \<noteq> []"
    "length [demo_proposal] \<le> 16" "length demo_sa = 44"
    by (simp_all add: demo_sa_def demo_proposal_def proposal_ok_def transform_ok_def marshalAttributes_def)
  then show ?thesis using proposals_roundtrip by blast
qed

theorem parseIKESuite_supported_witness:
  "\<exists>s. parseIKESuite demo_proposal = Inr s \<and> supported_suite s"
proof -
  have "parseIKESuite demo_proposal =
    Inr \<lparr>su_encryption = 12, su_bits = 256, su_prf = 5, su_integrity = 12, su_dh = 14\<rparr>"
    by (simp add: parseIKESuite_def demo_proposal_def)
  then show ?thesis using parseIKESuite_supported by blast
qed

end
