(* ===== verification/IkeKeys_Props.thy ===== *)
theory IkeKeys_Props
  imports IkeKeys
begin

text \<open>
  Key derivation agrees with the \<open>prf+\<close> construction of RFC 7296 for every length the one-byte
  counter can reach and fails beyond it; the derived keys partition the stream in the order of the
  RFC; accepted ESP suites are supported.
\<close>

subsection \<open>The key stream\<close>

text \<open>The specification: \<open>T1 | T2 | ...\<close> with \<open>Ti = prf(K, T(i-1) | S | i)\<close>.\<close>

fun prfStream :: "crypto \<Rightarrow> hash_alg \<Rightarrow> byte list \<Rightarrow> byte list \<Rightarrow> nat \<Rightarrow> nat \<Rightarrow> byte list \<Rightarrow> byte list" where
  "prfStream cr h key seed 0 i previous = []"
| "prfStream cr h key seed (Suc k) i previous =
     (let block = hmac cr h key (previous @ seed @ [word_of_nat i])
      in block @ prfStream cr h key seed k (i + 1) block)"

lemma length_hmac: "crypto_ok cr \<Longrightarrow> length (hmac cr h key data) = hashSize h"
  by (simp add: crypto_ok_def hmac_def hashSize_def split: hash_alg.splits)

lemma length_prfStream: "crypto_ok cr \<Longrightarrow> length (prfStream cr h key seed k i previous) = k * hashSize h"
  by (induction k arbitrary: i previous) (simp_all add: Let_def length_hmac)

lemma prfLoop_stream:
  assumes cr: "crypto_ok cr" and h: "suitePRF s = Inr (h, hs)"
  shows "i + k = 256 \<Longrightarrow> 0 < i \<Longrightarrow>
    prfLoop cr s key seed n (word_of_nat i) previous result =
      (if n \<le> length result + k * hashSize h then Inr (take n (result @ prfStream cr h key seed k i previous))
       else err StreamTooLong)"
proof (induction k arbitrary: i previous result)
  case 0
  then have "i = 256" by simp
  then have "(word_of_nat i :: byte) = 0" by simp
  then show ?case by (simp add: prfLoop.simps slice_def)
next
  case (Suc k)
  let ?block = "hmac cr h key (previous @ seed @ [word_of_nat i])"
  have nz: "(word_of_nat i :: byte) \<noteq> 0"
    using Suc.prems unat_of_nat8[of i] by (metis add_gr_0 less_add_same_cancel1 not_gr0 unat_0 zero_less_Suc)
  have "prfLoop cr s key seed n (word_of_nat (i + 1)) ?block (result @ ?block) =
      (if n \<le> length (result @ ?block) + k * hashSize h
       then Inr (take n ((result @ ?block) @ prfStream cr h key seed k (i + 1) ?block)) else err StreamTooLong)"
    using Suc.prems by (intro Suc.IH) auto
  then have "prfLoop cr s key seed n (word_of_nat i + 1) ?block (result @ ?block) =
      (if n \<le> length (result @ ?block) + k * hashSize h
       then Inr (take n ((result @ ?block) @ prfStream cr h key seed k (i + 1) ?block)) else err StreamTooLong)"
    by (simp only: of_nat_add of_nat_1)
  moreover have "prfMac cr s key (previous @ seed @ [word_of_nat i]) = Inr ?block" by (simp add: prfMac_def h)
  ultimately show ?case
    using nz length_hmac[OF cr, of h key]
    by (subst prfLoop.simps) (simp add: slice_def Let_def)
qed

text \<open>C6: \<open>prfPlus\<close> is the \<open>prf+\<close> of RFC 7296: for a length the 255 counter values can produce it returns
  that prefix of the stream, for any longer one it fails instead of reusing the counter.\<close>
theorem prfPlus_stream:
  assumes "crypto_ok cr" and "suitePRF s = Inr (h, hs)" and "0 \<le> n"
  shows "prfPlus cr s key seed n =
    (if n \<le> 255 * int (hashSize h) then Inr (take (nat n) (prfStream cr h key seed 255 1 []))
     else err StreamTooLong)"
  using prfLoop_stream[OF assms(1,2), of 1 255 key seed "nat n" "[]" "[]"] assms(3)
  by (simp add: prfPlus_def nat_le_iff)

subsection \<open>Splitting the stream\<close>

lemma cut_ok: "n \<le> length st \<Longrightarrow> cut n st = Inr (take n st, drop n st)"
  by (simp add: cut_def slice_def)

lemma integrityLengths_cases:
  "integrityLengths s = Inr (il, cl) \<longleftrightarrow> su_integrity s = integrityHMACSHA1_96 \<and> il = 20 \<and> cl = 12 \<or>
    su_integrity s = integrityHMACSHA256_128 \<and> il = 32 \<and> cl = 16"
  by (auto simp: integrityLengths_def hashSize_def)

lemma prfPlus_length:
  assumes cr: "crypto_ok cr" and h: "suitePRF s = Inr (h, hs)" and n: "n \<le> 5100"
  shows "\<exists>st. prfPlus cr s key seed (int n) = Inr st \<and> length st = n"
proof -
  have "20 \<le> hashSize h" by (cases h) (simp_all add: hashSize_def)
  then have "n \<le> 255 * hashSize h" using n by linarith
  then show ?thesis
    using prfLoop_stream[OF cr h, of 1 255 key seed n "[]" "[]"] length_prfStream[OF cr, of h key seed 255 1 "[]"]
    by (simp add: prfPlus_def)
qed

text \<open>For a supported suite the IKE key derivation succeeds, and the seven keys have the suite's lengths
  and are, in this order, the consecutive pieces of one key stream.\<close>
theorem deriveIKEKeys_partition:
  assumes cr: "crypto_ok cr" and p: "suitePRF s = Inr (h, pl)" and e: "ikeEncryptionKeyLength s = Inr el"
    and i: "integrityLengths s = Inr (il, cl)"
  shows "\<exists>ks seed. deriveIKEKeys cr s shared ni nr spii spir = Inr ks \<and>
    prfPlus cr s seed (ni @ nr @ spii @ spir) (int (3 * pl + 2 * il + 2 * el)) =
      Inr (sk_d ks @ sk_ai ks @ sk_ar ks @ sk_ei ks @ sk_er ks @ sk_pi ks @ sk_pr ks) \<and>
    map length [sk_d ks, sk_ai ks, sk_ar ks, sk_ei ks, sk_er ks, sk_pi ks, sk_pr ks] =
      [pl, il, il, el, el, pl, pl]"
proof -
  have bounds: "pl \<le> 32" "el \<le> 32" "il \<le> 32"
    using p e i by (auto simp: suitePRF_def ikeEncryptionKeyLength_def integrityLengths_def hashSize_def split: if_splits)
  define seed where "seed = hmac cr h (ni @ nr) shared"
  let ?n = "3 * pl + 2 * il + 2 * el"
  have n: "pl + il * 2 + el * 2 + pl * 2 = ?n" by simp
  obtain st where st: "prfPlus cr s seed (ni @ nr @ spii @ spir) (int ?n) = Inr st" and l: "length st = ?n"
    using prfPlus_length[OF cr p, of ?n seed] bounds by auto
  define s1 where "s1 = drop pl st"
  define s2 where "s2 = drop il s1"
  define s3 where "s3 = drop il s2"
  define s4 where "s4 = drop el s3"
  define s5 where "s5 = drop el s4"
  define s6 where "s6 = drop pl s5"
  have len: "length s1 = 2 * pl + 2 * il + 2 * el" "length s2 = 2 * pl + il + 2 * el" "length s3 = 2 * pl + 2 * el"
    "length s4 = 2 * pl + el" "length s5 = 2 * pl" "length s6 = pl"
    using l by (simp_all add: s1_def s2_def s3_def s4_def s5_def s6_def)
  define ks where "ks = \<lparr>sk_d = take pl st, sk_ai = take il s1, sk_ar = take il s2,
    sk_ei = take el s3, sk_er = take el s4, sk_pi = take pl s5, sk_pr = take pl s6\<rparr>"
  have cuts: "cut pl st = Inr (take pl st, s1)" "cut il s1 = Inr (take il s1, s2)" "cut il s2 = Inr (take il s2, s3)"
    "cut el s3 = Inr (take el s3, s4)" "cut el s4 = Inr (take el s4, s5)" "cut pl s5 = Inr (take pl s5, s6)"
    "cut pl s6 = Inr (take pl s6, [])"
    using l len by (simp_all add: cut_ok s1_def s2_def s3_def s4_def s5_def s6_def)
  have mac: "prfMac cr s (ni @ nr) shared = Inr seed" by (simp add: prfMac_def p seed_def)
  have "deriveIKEKeys cr s shared ni nr spii spir = Inr ks"
    unfolding deriveIKEKeys_def p e i rbind.simps prod.case n mac st cuts ks_def ..
  moreover have "sk_d ks @ sk_ai ks @ sk_ar ks @ sk_ei ks @ sk_er ks @ sk_pi ks @ sk_pr ks = st"
  proof -
    have "take pl s6 = s6" using len(6) by simp
    moreover have "take pl s5 @ s6 = s5" unfolding s6_def by (rule append_take_drop_id)
    moreover have "take el s4 @ s5 = s4" unfolding s5_def by (rule append_take_drop_id)
    moreover have "take el s3 @ s4 = s3" unfolding s4_def by (rule append_take_drop_id)
    moreover have "take il s2 @ s3 = s2" unfolding s3_def by (rule append_take_drop_id)
    moreover have "take il s1 @ s2 = s1" unfolding s2_def by (rule append_take_drop_id)
    moreover have "take pl st @ s1 = st" unfolding s1_def by (rule append_take_drop_id)
    ultimately show ?thesis by (simp add: ks_def)
  qed
  moreover have "map length [sk_d ks, sk_ai ks, sk_ar ks, sk_ei ks, sk_er ks, sk_pi ks, sk_pr ks] =
      [pl, il, il, el, el, pl, pl]"
    using l len by (simp add: ks_def)
  ultimately show ?thesis using st by metis
qed


text \<open>For a supported ESP suite the CHILD_SA derivation succeeds; the outbound and inbound encryption
  and integrity keys have the suite's lengths and are the four consecutive pieces of the stream
  \<open>prf+(SK_d, Ni | Nr)\<close>.\<close>
theorem deriveChildSAKeys_partition:
  assumes cr: "crypto_ok cr" and p: "suitePRF s = Inr (h, pl)" and e: "espEncryptionKeyLength child = Inr el"
    and i: "espIntegrityKeyLength child = Inr il"
  shows "\<exists>oe oi ie ii. deriveChildSAKeys cr s child skd ni nr = Inr (oe, oi, ie, ii) \<and>
    prfPlus cr s skd (ni @ nr) (int (2 * (el + il))) = Inr (oe @ oi @ ie @ ii) \<and>
    length oe = el \<and> length oi = il \<and> length ie = el \<and> length ii = il"
proof -
  have bounds: "el \<le> 32" "il \<le> 32"
    using e i by (auto simp: espEncryptionKeyLength_def espIntegrityKeyLength_def split: if_splits)
  obtain st where st: "prfPlus cr s skd (ni @ nr) (int (2 * (el + il))) = Inr st" and l: "length st = 2 * (el + il)"
    using prfPlus_length[OF cr p, of "2 * (el + il)" skd] bounds by auto
  define s1 where "s1 = drop el st"
  define s2 where "s2 = drop il s1"
  define s3 where "s3 = drop el s2"
  have len: "length s1 = el + 2 * il" "length s2 = el + il" "length s3 = il"
    using l by (simp_all add: s1_def s2_def s3_def)
  have cuts: "cut el st = Inr (take el st, s1)" "cut il s1 = Inr (take il s1, s2)" "cut el s2 = Inr (take el s2, s3)"
    "cut il s3 = Inr (take il s3, [])"
    using l len by (simp_all add: cut_ok s1_def s2_def s3_def)
  have "deriveChildSAKeys cr s child skd ni nr = Inr (take el st, take il s1, take el s2, take il s3)"
    unfolding deriveChildSAKeys_def e i rbind.simps prod.case st cuts ..
  moreover have "take el st @ take il s1 @ take el s2 @ take il s3 = st"
  proof -
    have "take il s3 = s3" using len(3) by simp
    moreover have "take el s2 @ s3 = s2" unfolding s3_def by (rule append_take_drop_id)
    moreover have "take il s1 @ s2 = s1" unfolding s2_def by (rule append_take_drop_id)
    moreover have "take el st @ s1 = st" unfolding s1_def by (rule append_take_drop_id)
    ultimately show ?thesis by simp
  qed
  ultimately show ?thesis using st l len by auto
qed

subsection \<open>A concrete suite\<close>

text \<open>A stand-in for the primitives that meets \<open>crypto_ok\<close>.\<close>

definition demo_crypto :: crypto where
  "demo_crypto = \<lparr>aes_encrypt = (\<lambda>key block. rev block), aes_decrypt = (\<lambda>key block. rev block),
     hmac_sha1 = (\<lambda>key data. replicate 20 (word_of_nat (length data))),
     hmac_sha256 = (\<lambda>key data. replicate 32 (word_of_nat (length data)))\<rparr>"

lemma demo_crypto_ok: "crypto_ok demo_crypto"
  by (simp add: crypto_ok_def demo_crypto_def)

definition demo_suite :: negotiated_suite where
  "demo_suite = \<lparr>su_encryption = 12, su_bits = 256, su_prf = 2, su_integrity = 12, su_dh = 14\<rparr>"

lemma demo_suite_lengths: "suitePRF demo_suite = Inr (SHA1, 20)" "ikeEncryptionKeyLength demo_suite = Inr 32"
  "integrityLengths demo_suite = Inr (32, 16)"
  by (simp_all add: suitePRF_def ikeEncryptionKeyLength_def integrityLengths_def demo_suite_def hashSize_def)

theorem prfPlus_stream_witness:
  "prfPlus demo_crypto demo_suite [] [] 3 = Inr [1, 1, 1] \<and> prfPlus demo_crypto demo_suite [] [] 5101 = err StreamTooLong"
proof -
  have "take 3 (prfStream demo_crypto SHA1 [] [] 255 1 []) = [1, 1, 1]"
    using prfStream.simps(2)[of demo_crypto SHA1 "[]" "[]" 254 1 "[]"]
    by (simp add: Let_def hmac_def demo_crypto_def numeral_3_eq_3 replicate_append_same take_Cons')
  then show ?thesis
    using prfPlus_stream[OF demo_crypto_ok demo_suite_lengths(1), of 3] prfPlus_stream[OF demo_crypto_ok demo_suite_lengths(1), of 5101]
    by (simp add: hashSize_def)
qed

theorem deriveIKEKeys_partition_witness:
  "\<exists>ks. deriveIKEKeys demo_crypto demo_suite [1] [2] [3] [4] [5] = Inr ks \<and> length (sk_ei ks) = 32 \<and> length (sk_ai ks) = 32"
  using deriveIKEKeys_partition[OF demo_crypto_ok demo_suite_lengths, of "[1]" "[2]" "[3]" "[4]" "[5]"] by auto

theorem deriveChildSAKeys_partition_witness:
  "\<exists>oe oi ie ii. deriveChildSAKeys demo_crypto demo_suite
      \<lparr>es_encryption = 12, es_bits = 128, es_integrity = 2, es_esn = 0\<rparr> [1] [2] [3] = Inr (oe, oi, ie, ii) \<and>
      length oe = 16 \<and> length oi = 20"
proof -
  have "espEncryptionKeyLength \<lparr>es_encryption = 12, es_bits = 128, es_integrity = 2, es_esn = 0\<rparr> = Inr 16"
    "espIntegrityKeyLength \<lparr>es_encryption = 12, es_bits = 128, es_integrity = 2, es_esn = 0\<rparr> = Inr 20"
    by (simp_all add: espEncryptionKeyLength_def espIntegrityKeyLength_def)
  from deriveChildSAKeys_partition[OF demo_crypto_ok demo_suite_lengths(1) this, of "[1]" "[2]" "[3]"]
  show ?thesis by blast
qed

end
