(* ===== verification/Cbc.thy ===== *)
theory Cbc
  imports IkeKeys
begin

text \<open>
  Cipher-block chaining over an AES block function, as \<open>crypto/cipher\<close> does it for the IKE and ESP
  transforms, and the fact that decryption undoes encryption.
\<close>

subsection \<open>Cipher-block chaining\<close>

fun cbcEnc :: "(byte list \<Rightarrow> byte list) \<Rightarrow> byte list \<Rightarrow> nat \<Rightarrow> byte list \<Rightarrow> byte list" where
  "cbcEnc E iv 0 xs = []"
| "cbcEnc E iv (Suc n) xs =
     (let c = E (map2 (XOR) (take 16 xs) iv) in c @ cbcEnc E c n (drop 16 xs))"

fun cbcDec :: "(byte list \<Rightarrow> byte list) \<Rightarrow> byte list \<Rightarrow> nat \<Rightarrow> byte list \<Rightarrow> byte list" where
  "cbcDec D iv 0 xs = []"
| "cbcDec D iv (Suc n) xs =
     map2 (XOR) (D (take 16 xs)) iv @ cbcDec D (take 16 xs) n (drop 16 xs)"

text \<open>\<open>NewCBCEncrypter(block, iv).CryptBlocks\<close> panics on a wrong IV length or a partial block.\<close>

definition cbcEncrypt :: "(byte list \<Rightarrow> byte list) \<Rightarrow> byte list \<Rightarrow> byte list \<Rightarrow> ('e, byte list) res" where
  "cbcEncrypt E iv xs = (if length iv \<noteq> 16 \<or> length xs mod 16 \<noteq> 0 then Inl Panic
     else Inr (cbcEnc E iv (length xs div 16) xs))"

definition cbcDecrypt :: "(byte list \<Rightarrow> byte list) \<Rightarrow> byte list \<Rightarrow> byte list \<Rightarrow> ('e, byte list) res" where
  "cbcDecrypt D iv xs = (if length iv \<noteq> 16 \<or> length xs mod 16 \<noteq> 0 then Inl Panic
     else Inr (cbcDec D iv (length xs div 16) xs))"

subsection \<open>Cipher-block chaining round trip\<close>

lemma map2_xor_cancel: "length xs = length ys \<Longrightarrow> map2 (XOR) (map2 (XOR) xs ys) (ys :: byte list) = xs"
  by (induction xs ys rule: list_induct2) (simp_all add: xor.assoc)

lemma length_cbcEnc:
  assumes E: "\<And>b. length b = 16 \<Longrightarrow> length (E b) = 16"
  shows "length iv = 16 \<Longrightarrow> length xs = 16 * n \<Longrightarrow> length (cbcEnc E iv n xs) = 16 * n"
proof (induction n arbitrary: iv xs)
  case (Suc n)
  have "length (E (map2 (XOR) (take 16 xs) iv)) = 16" using Suc.prems by (intro E) simp
  then show ?case using Suc.IH[of "E (map2 (XOR) (take 16 xs) iv)" "drop 16 xs"] Suc.prems by (simp add: Let_def)
qed simp

lemma length_cbcDec:
  assumes D: "\<And>b. length b = 16 \<Longrightarrow> length (D b) = 16"
  shows "length iv = 16 \<Longrightarrow> length xs = 16 * n \<Longrightarrow> length (cbcDec D iv n xs) = 16 * n"
proof (induction n arbitrary: iv xs)
  case (Suc n)
  have "length (D (take 16 xs)) = 16" using Suc.prems by (intro D) simp
  then show ?case using Suc.IH[of "take 16 xs" "drop 16 xs"] Suc.prems by simp
qed simp

lemma cbcDec_cbcEnc:
  assumes E: "\<And>b. length b = 16 \<Longrightarrow> length (E b) = 16 \<and> D (E b) = b"
  shows "length iv = 16 \<Longrightarrow> length xs = 16 * n \<Longrightarrow> cbcDec D iv n (cbcEnc E iv n xs) = xs"
proof (induction n arbitrary: iv xs)
  case 0
  then show ?case by simp
next
  case (Suc n)
  define b where "b = map2 (XOR) (take 16 xs) iv"
  have b: "length b = 16" using Suc.prems by (simp add: b_def)
  then have c: "length (E b) = 16" "D (E b) = b" using E by auto
  have "map2 (XOR) b iv = take 16 xs"
    unfolding b_def by (rule map2_xor_cancel) (use Suc.prems in simp)
  moreover have "cbcDec D (E b) n (cbcEnc E (E b) n (drop 16 xs)) = drop 16 xs"
    using Suc.prems c(1) by (intro Suc.IH) auto
  ultimately show ?case using c by (simp add: Let_def flip: b_def)
qed

lemma cbc_roundtrip:
  assumes "crypto_ok cr" and "length iv = 16" and "length xs mod 16 = 0"
  shows "\<exists>ct. cbcEncrypt (aes_encrypt cr key) iv xs = Inr ct \<and> length ct = length xs \<and>
    cbcDecrypt (aes_decrypt cr key) iv ct = Inr xs"
proof -
  have E: "length b = 16 \<Longrightarrow> length (aes_encrypt cr key b) = 16 \<and> aes_decrypt cr key (aes_encrypt cr key b) = b" for b
    using assms(1) by (simp add: crypto_ok_def)
  define n where "n = length xs div 16"
  have n: "length xs = 16 * n" using assms(3) by (auto simp: n_def)
  let ?ct = "cbcEnc (aes_encrypt cr key) iv n xs"
  have "length ?ct = 16 * n" using E by (intro length_cbcEnc[OF _ assms(2) n]) blast
  moreover have "cbcDec (aes_decrypt cr key) iv n ?ct = xs" using E by (intro cbcDec_cbcEnc[OF _ assms(2) n]) blast
  ultimately show ?thesis using assms(2) n by (simp add: cbcEncrypt_def cbcDecrypt_def)
qed

lemma cbcDecrypt_ok:
  assumes "crypto_ok cr" and "length iv = 16" and "length ct mod 16 = 0"
  shows "\<exists>pt. cbcDecrypt (aes_decrypt cr key) iv ct = (Inr pt :: ('e, byte list) res) \<and> length pt = length ct"
proof -
  define n where "n = length ct div 16"
  have n: "length ct = 16 * n" using assms(3) by (auto simp: n_def)
  have "length (cbcDec (aes_decrypt cr key) iv n ct) = 16 * n"
    using assms(1) by (intro length_cbcDec[OF _ assms(2) n]) (simp add: crypto_ok_def)
  then show ?thesis using assms(2) n by (simp add: cbcDecrypt_def)
qed

end
