(* ===== verification/Esp.thy ===== *)
theory Esp
  imports Cbc IkeChild
begin

text \<open>
  The user-space ESP transform of \<open>backend/internal/vocat/vowifi/ike/esp.go\<close>: sealing and opening of packets, the 64-packet replay window, and the
  inner packet policy check. \<open>sealPacket\<close> and \<open>openPacket\<close> pass the direction's state; the mutex
  makes each of them one atomic step. The random source is the list of bytes it will still
  deliver, so a short read is an error as in \<open>io.ReadFull\<close>. The inbound direction of the code shares
  the source but never reads it.
\<close>

subsection \<open>State\<close>

datatype esp_error =
    ESPConfiguration | SequenceExhausted | IVGeneration | ESPTruncated | UnexpectedSPI | ESPReplay
  | ESPUnaligned | ESPAuthentication | ESPPadding | UnsupportedNextHeader | ESPPolicyDrop | InnerMalformed
  | InboundRejected

record replay_window =
  rw_highest :: "32 word"
  rw_bitmap :: "64 word"

record esp_direction =
  dir_spi :: "32 word"
  dir_key :: "byte list"
  dir_auth :: "byte list"
  dir_integrity :: string
  dir_icv :: nat
  dir_random :: "byte list"
  dir_sequence :: "32 word"
  dir_replay :: replay_window

record esp_tunnel =
  tun_outbound :: esp_direction
  tun_inbound :: esp_direction
  tun_initiator :: "selector list"
  tun_responder :: "selector list"

record child_sa_config =
  cfg_inboundSPI :: "32 word"
  cfg_outboundSPI :: "32 word"
  cfg_encryption :: string
  cfg_integrity :: string
  cfg_inboundEncKey :: "byte list"
  cfg_inboundAuthKey :: "byte list"
  cfg_outboundEncKey :: "byte list"
  cfg_outboundAuthKey :: "byte list"
  cfg_initiator :: "selector list"
  cfg_responder :: "selector list"

definition emptyWindow :: replay_window where
  "emptyWindow = \<lparr>rw_highest = 0, rw_bitmap = 0\<rparr>"

definition newESPDirection ::
  "32 word \<Rightarrow> byte list \<Rightarrow> byte list \<Rightarrow> string \<Rightarrow> string \<Rightarrow> byte list \<Rightarrow> (esp_error, esp_direction) res" where
  "newESPDirection spi ekey akey encryption integrity random =
     (case (if encryption = ''aes-cbc-128'' then Some 16 else if encryption = ''aes-cbc-256'' then Some 32 else None) of
        None \<Rightarrow> err ESPConfiguration
      | Some el \<Rightarrow>
          if length ekey \<noteq> el then err ESPConfiguration
          else
            (case (if integrity = ''hmac-sha1-96'' then Some (20, 12)
                   else if integrity = ''hmac-sha2-256-128'' then Some (32, 16) else None) of
               None \<Rightarrow> err ESPConfiguration
             | Some (al, icv) \<Rightarrow>
                 if length akey \<noteq> al then err ESPConfiguration
                 else Inr \<lparr>dir_spi = spi, dir_key = ekey, dir_auth = akey, dir_integrity = integrity,
                        dir_icv = icv, dir_random = random, dir_sequence = 0, dir_replay = emptyWindow\<rparr>))"

definition newESPTunnel :: "child_sa_config \<Rightarrow> byte list \<Rightarrow> (esp_error, esp_tunnel) res" where
  "newESPTunnel c random =
     (if cfg_inboundSPI c = 0 \<or> cfg_outboundSPI c = 0 then err ESPConfiguration
      else
        rbind (newESPDirection (cfg_outboundSPI c) (cfg_outboundEncKey c) (cfg_outboundAuthKey c)
                 (cfg_encryption c) (cfg_integrity c) random) (\<lambda>outb.
        rbind (newESPDirection (cfg_inboundSPI c) (cfg_inboundEncKey c) (cfg_inboundAuthKey c)
                 (cfg_encryption c) (cfg_integrity c) random) (\<lambda>inb.
          if cfg_initiator c = [] \<or> cfg_responder c = [] then err ESPConfiguration
          else Inr \<lparr>tun_outbound = outb, tun_inbound = inb, tun_initiator = cfg_initiator c,
                 tun_responder = cfg_responder c\<rparr>)))"

subsection \<open>The replay window\<close>

definition wouldAccept :: "replay_window \<Rightarrow> 32 word \<Rightarrow> bool" where
  "wouldAccept w s =
     (if s = 0 then False
      else if rw_highest w = 0 \<or> s > rw_highest w then True
      else
        (let difference = rw_highest w - s
         in if difference \<ge> 64 then False else rw_bitmap w AND push_bit (unat difference) 1 = 0))"

definition commit :: "32 word \<Rightarrow> replay_window \<Rightarrow> replay_window" where
  "commit s w =
     (if rw_highest w = 0 then \<lparr>rw_highest = s, rw_bitmap = 1\<rparr>
      else if s > rw_highest w then
        (let difference = s - rw_highest w
         in if difference \<ge> 64 then \<lparr>rw_highest = s, rw_bitmap = 1\<rparr>
            else \<lparr>rw_highest = s, rw_bitmap = push_bit (unat difference) (rw_bitmap w) OR 1\<rparr>)
      else w\<lparr>rw_bitmap := rw_bitmap w OR push_bit (unat (rw_highest w - s)) 1\<rparr>)"

subsection \<open>Inner packets\<close>

record inner_metadata =
  md_source :: "byte list"
  md_destination :: "byte list"
  md_protocol :: byte
  md_sourcePort :: "16 word"
  md_destinationPort :: "16 word"
  md_nextHeader :: byte

definition parseTransportPorts :: "byte list \<Rightarrow> inner_metadata \<Rightarrow> (esp_error, inner_metadata) res" where
  "parseTransportPorts payload m =
     (if (md_protocol m \<noteq> 6 \<and> md_protocol m \<noteq> 17) \<or> length payload < 4 then Inr m
      else
        rbind (get16 payload 0) (\<lambda>s.
        rbind (get16 payload 2) (\<lambda>d.
          Inr (m\<lparr>md_sourcePort := s, md_destinationPort := d\<rparr>))))"

definition parseInnerIPv4 :: "byte list \<Rightarrow> (esp_error, inner_metadata) res" where
  "parseInnerIPv4 packet =
     (if length packet < 20 then err InnerMalformed
      else
        rbind (idx packet 0) (\<lambda>b0.
        (let headerLength = unat (b0 AND 0x0f) * 4
         in if headerLength < 20 \<or> headerLength > length packet then err InnerMalformed
            else
              rbind (get16 packet 2) (\<lambda>total.
              if unat total \<noteq> length packet \<or> unat total < headerLength then err InnerMalformed
              else
                rbind (slice packet 12 16) (\<lambda>source.
                rbind (slice packet 16 20) (\<lambda>destination.
                rbind (idx packet 9) (\<lambda>protocol.
                rbind (get16 packet 6) (\<lambda>frag.
                (let m = \<lparr>md_source = source, md_destination = destination, md_protocol = protocol,
                          md_sourcePort = 0, md_destinationPort = 0, md_nextHeader = 4\<rparr>
                 in if frag AND 0x1fff = 0
                    then rbind (slice packet headerLength (length packet)) (\<lambda>payload.
                           parseTransportPorts payload m)
                    else Inr m)))))))))"

function parseExtensions ::
  "byte list \<Rightarrow> byte \<Rightarrow> nat \<Rightarrow> bool \<Rightarrow> inner_metadata \<Rightarrow> (esp_error, inner_metadata) res" where
  "parseExtensions packet protocol offset firstFragment m =
     (if protocol = 0 \<or> protocol = 43 \<or> protocol = 60 then
        (if offset + 2 > length packet then err InnerMalformed
         else
           rbind (idx packet (offset + 1)) (\<lambda>l8.
           (let len = (unat l8 + 1) * 8
            in if len < 8 \<or> offset + len > length packet then err InnerMalformed
               else rbind (idx packet offset) (\<lambda>p. parseExtensions packet p (offset + len) firstFragment m))))
      else if protocol = 44 then
        (if offset + 8 > length packet then err InnerMalformed
         else
           rbind (get16 packet (offset + 2)) (\<lambda>frag.
           rbind (idx packet offset) (\<lambda>p.
             parseExtensions packet p (offset + 8) (frag AND 0xfff8 = 0) m)))
      else if protocol = 51 then
        (if offset + 2 > length packet then err InnerMalformed
         else
           rbind (idx packet (offset + 1)) (\<lambda>l8.
           (let len = (unat l8 + 2) * 4
            in if len < 8 \<or> offset + len > length packet then err InnerMalformed
               else rbind (idx packet offset) (\<lambda>p. parseExtensions packet p (offset + len) firstFragment m))))
      else
        (let m' = m\<lparr>md_protocol := protocol\<rparr>
         in if firstFragment
            then rbind (slice packet offset (length packet)) (\<lambda>payload. parseTransportPorts payload m')
            else Inr m'))"
  by pat_completeness auto
termination
  by (relation "measure (\<lambda>(packet, protocol, offset, firstFragment, m). length packet - offset)")
     (auto simp: idx_def split: if_splits)

declare parseExtensions.simps [simp del]

definition parseInnerIPv6 :: "byte list \<Rightarrow> (esp_error, inner_metadata) res" where
  "parseInnerIPv6 packet =
     (if length packet < 40 then err InnerMalformed
      else
        rbind (get16 packet 4) (\<lambda>payloadLength.
        (let declared = unat payloadLength + 40
         in if declared > length packet then err InnerMalformed
            else
              rbind (slice packet 0 declared) (\<lambda>packet.
              rbind (slice packet 8 24) (\<lambda>source.
              rbind (slice packet 24 40) (\<lambda>destination.
              rbind (idx packet 6) (\<lambda>protocol.
                parseExtensions packet protocol 40 True
                  \<lparr>md_source = source, md_destination = destination, md_protocol = 0,
                   md_sourcePort = 0, md_destinationPort = 0, md_nextHeader = 41\<rparr>)))))))"

definition parseInnerPacket :: "byte list \<Rightarrow> (esp_error, inner_metadata) res" where
  "parseInnerPacket packet =
     (if length packet = 0 then err InnerMalformed
      else
        rbind (idx packet 0) (\<lambda>b0.
          if drop_bit 4 b0 = 4 then parseInnerIPv4 packet
          else if drop_bit 4 b0 = 6 then parseInnerIPv6 packet
          else err InnerMalformed))"

subsection \<open>The traffic policy\<close>

text \<open>\<open>bytes.Compare(xs, ys) <= 0\<close>.\<close>

fun bytesLe :: "byte list \<Rightarrow> byte list \<Rightarrow> bool" where
  "bytesLe [] ys = True"
| "bytesLe (x # xs) [] = False"
| "bytesLe (x # xs) (y # ys) = (x < y \<or> x = y \<and> bytesLe xs ys)"

definition normalizeIPRange ::
  "byte list \<Rightarrow> byte list \<Rightarrow> byte list \<Rightarrow> (byte list \<times> byte list \<times> byte list) option" where
  "normalizeIPRange ip start final =
     (case To4 start of
        Some start4 \<Rightarrow>
          (case (To4 ip, To4 final) of (Some ip4, Some final4) \<Rightarrow> Some (ip4, start4, final4) | _ \<Rightarrow> None)
      | None \<Rightarrow>
          (case (To16 ip, To16 start, To16 final) of
             (Some ip16, Some start16, Some final16) \<Rightarrow>
               if To4 start \<noteq> None \<or> To4 final \<noteq> None then None else Some (ip16, start16, final16)
           | _ \<Rightarrow> None))"

definition ipWithinRange :: "byte list \<Rightarrow> byte list \<Rightarrow> byte list \<Rightarrow> bool" where
  "ipWithinRange ip start final =
     (case normalizeIPRange ip start final of
        None \<Rightarrow> False
      | Some (ip, start, final) \<Rightarrow> bytesLe start ip \<and> bytesLe ip final)"

definition endpointAllowed :: "byte list \<Rightarrow> byte \<Rightarrow> 16 word \<Rightarrow> selector list \<Rightarrow> bool" where
  "endpointAllowed ip protocol port selectors =
     list_ex (\<lambda>s. \<not> (ts_protocol s \<noteq> 0 \<and> ts_protocol s \<noteq> protocol) \<and>
                  \<not> (port < ts_startPort s \<or> port > ts_endPort s) \<and>
                  ipWithinRange ip (ts_start s) (ts_end s)) selectors"

definition packetAllowed :: "inner_metadata \<Rightarrow> selector list \<Rightarrow> selector list \<Rightarrow> bool" where
  "packetAllowed m sources destinations \<longleftrightarrow>
     endpointAllowed (md_source m) (md_protocol m) (md_sourcePort m) sources \<and>
     endpointAllowed (md_destination m) (md_protocol m) (md_destinationPort m) destinations"

subsection \<open>Sealing and opening\<close>

definition authenticationCode :: "crypto \<Rightarrow> esp_direction \<Rightarrow> byte list \<Rightarrow> (esp_error, byte list) res" where
  "authenticationCode cr d packet =
     (if dir_integrity d = ''hmac-sha1-96'' then slice (hmac_sha1 cr (dir_auth d) packet) 0 (dir_icv d)
      else if dir_integrity d = ''hmac-sha2-256-128'' then slice (hmac_sha256 cr (dir_auth d) packet) 0 (dir_icv d)
      else Inl Panic)"

definition padBytes :: "nat \<Rightarrow> byte list" where
  "padBytes n = map (\<lambda>i. word_of_nat (i + 1)) [0..<n]"

definition sealPacket ::
  "crypto \<Rightarrow> byte list \<Rightarrow> byte \<Rightarrow> esp_direction \<Rightarrow> esp_direction \<times> (esp_error, byte list) res" where
  "sealPacket cr inner nextHeader d =
     (if dir_sequence d = - 1 then (d, err SequenceExhausted)
      else
        (let sequence = dir_sequence d + 1;
             d1 = d\<lparr>dir_sequence := sequence\<rparr>;
             paddingLength = (16 - ((length inner + 2) mod 16)) mod 16;
             plaintext = inner @ padBytes paddingLength @ [word_of_nat paddingLength, nextHeader]
         in if length (dir_random d1) < 16 then (d1\<lparr>dir_random := []\<rparr>, err IVGeneration)
            else
              (let iv = take 16 (dir_random d1);
                   d2 = d1\<lparr>dir_random := drop 16 (dir_random d1)\<rparr>
               in (d2,
                   rbind (cbcEncrypt (aes_encrypt cr (dir_key d2)) iv plaintext) (\<lambda>ciphertext.
                   (let authenticated = put32 (dir_spi d2) @ put32 sequence @ iv @ ciphertext
                    in rbind (authenticationCode cr d2 authenticated) (\<lambda>icv.
                         Inr (authenticated @ icv))))))))"

text \<open>The padding loop: the \<open>n\<close> bytes from \<open>start\<close> are 1, 2, ..., n.\<close>

definition paddingValid :: "byte list \<Rightarrow> nat \<Rightarrow> nat \<Rightarrow> bool" where
  "paddingValid plaintext start n = (take n (drop start plaintext) = padBytes n)"

text \<open>\<open>open\<close> in three parts: checks up to the decrypted plaintext, the trailer, and the commit.\<close>

definition verifyPacket ::
  "crypto \<Rightarrow> byte list \<Rightarrow> esp_direction \<Rightarrow> (esp_error, 32 word \<times> byte list) res" where
  "verifyPacket cr packet d =
     (if length packet < 8 + 16 + 16 + dir_icv d then err ESPTruncated
      else
        rbind (get32 packet 0) (\<lambda>spi.
        if spi \<noteq> dir_spi d then err UnexpectedSPI
        else
          rbind (get32 packet 4) (\<lambda>sequence.
          if sequence = 0 \<or> \<not> wouldAccept (dir_replay d) sequence then err ESPReplay
          else
            rbind (slice packet 24 (length packet - dir_icv d)) (\<lambda>ciphertext.
            if length ciphertext = 0 \<or> length ciphertext mod 16 \<noteq> 0 then err ESPUnaligned
            else
              rbind (slice packet 0 (length packet - dir_icv d)) (\<lambda>authenticated.
              rbind (authenticationCode cr d authenticated) (\<lambda>expected.
              rbind (slice packet (length packet - dir_icv d) (length packet)) (\<lambda>actual.
              if expected \<noteq> actual then err ESPAuthentication
              else
                rbind (slice packet 8 24) (\<lambda>iv.
                rbind (cbcDecrypt (aes_decrypt cr (dir_key d)) iv ciphertext) (\<lambda>plaintext.
                  Inr (sequence, plaintext))))))))))"

definition stripTrailer :: "byte list \<Rightarrow> (esp_error, byte list \<times> byte) res" where
  "stripTrailer plaintext =
     (if length plaintext < 2 then err ESPTruncated
      else
        rbind (idx plaintext (length plaintext - 2)) (\<lambda>pad8.
        if unat pad8 > length plaintext - 2 then err ESPPadding
        else if \<not> paddingValid plaintext (length plaintext - 2 - unat pad8) (unat pad8) then err ESPPadding
        else
          rbind (idx plaintext (length plaintext - 1)) (\<lambda>nextHeader.
          if nextHeader \<noteq> 4 \<and> nextHeader \<noteq> 41 then err UnsupportedNextHeader
          else
            rbind (slice plaintext 0 (length plaintext - 2 - unat pad8)) (\<lambda>inner.
              Inr (inner, nextHeader)))))"

definition openPacket ::
  "crypto \<Rightarrow> byte list \<Rightarrow> (byte list \<Rightarrow> byte \<Rightarrow> (esp_error, unit) res) \<Rightarrow> esp_direction \<Rightarrow>
   esp_direction \<times> (esp_error, byte list) res" where
  "openPacket cr packet validate d =
     (case
        rbind (verifyPacket cr packet d) (\<lambda>(sequence, plaintext).
        rbind (stripTrailer plaintext) (\<lambda>(inner, nextHeader).
        rbind (validate inner nextHeader) (\<lambda>_. Inr (sequence, inner))))
      of Inl f \<Rightarrow> (d, Inl f)
       | Inr (sequence, inner) \<Rightarrow> (d\<lparr>dir_replay := commit sequence (dir_replay d)\<rparr>, Inr inner))"

definition tunnelSeal :: "crypto \<Rightarrow> byte list \<Rightarrow> esp_tunnel \<Rightarrow> esp_tunnel \<times> (esp_error, byte list) res" where
  "tunnelSeal cr inner t =
     (case parseInnerPacket inner of
        Inl Panic \<Rightarrow> (t, Inl Panic)
      | Inl (Fail e) \<Rightarrow> (t, err ESPPolicyDrop)
      | Inr m \<Rightarrow>
          if \<not> packetAllowed m (tun_initiator t) (tun_responder t) then (t, err ESPPolicyDrop)
          else (let (d, out) = sealPacket cr inner (md_nextHeader m) (tun_outbound t)
                in (t\<lparr>tun_outbound := d\<rparr>, out)))"

definition inboundPolicy :: "esp_tunnel \<Rightarrow> byte list \<Rightarrow> byte \<Rightarrow> (esp_error, unit) res" where
  "inboundPolicy t inner nextHeader =
     rbind (parseInnerPacket inner) (\<lambda>m.
       if md_nextHeader m \<noteq> nextHeader then err InboundRejected
       else if \<not> packetAllowed m (tun_responder t) (tun_initiator t) then err InboundRejected
       else Inr ())"

definition tunnelOpen :: "crypto \<Rightarrow> byte list \<Rightarrow> esp_tunnel \<Rightarrow> esp_tunnel \<times> (esp_error, byte list) res" where
  "tunnelOpen cr packet t =
     (let (d, out) = openPacket cr packet (inboundPolicy t) (tun_inbound t)
      in (t\<lparr>tun_inbound := d\<rparr>, out))"

end
