(* ===== verification/Esp_Replay.thy ===== *)
theory Esp_Replay
  imports Esp
begin

text \<open>
  The anti-replay window. The interface \<open>replay_guard\<close> is all the receiver needs: a recorded sequence
  number is never fresh again. It is proved once for any guard that the numbers accepted over a run
  are distinct; \<open>wouldAccept\<close> and \<open>commit\<close> are an instance. The window is also exact: it accepts
  precisely the numbers that were not accepted before and are not 64 or more below the highest.
\<close>

subsection \<open>Interface: a guard against replayed numbers\<close>

fun acceptedRun :: "('w \<Rightarrow> 's \<Rightarrow> bool) \<Rightarrow> ('s \<Rightarrow> 'w \<Rightarrow> 'w) \<Rightarrow> 'w \<Rightarrow> 's list \<Rightarrow> 's list" where
  "acceptedRun fresh rec w [] = []"
| "acceptedRun fresh rec w (s # ss) =
     (if fresh w s then s # acceptedRun fresh rec (rec s w) ss else acceptedRun fresh rec w ss)"

locale replay_guard =
  fixes fresh :: "'w \<Rightarrow> 's \<Rightarrow> bool"
    and rec :: "'s \<Rightarrow> 'w \<Rightarrow> 'w"
  assumes recorded: "fresh w s \<Longrightarrow> \<not> fresh (rec s w) s"
    and stays: "fresh w s \<Longrightarrow> \<not> fresh w t \<Longrightarrow> \<not> fresh (rec s w) t"
begin

lemma stale_never_accepted: "\<not> fresh w t \<Longrightarrow> t \<notin> set (acceptedRun fresh rec w ss)"
  by (induction ss arbitrary: w) (auto dest: stays)

lemma accepted_distinct: "distinct (acceptedRun fresh rec w ss)"
  by (induction ss arbitrary: w) (auto dest: recorded stale_never_accepted)

end

subsection \<open>The window as a guard\<close>

lemma mask_bit_iff: "n < 64 \<Longrightarrow> (w AND push_bit n 1 = 0) \<longleftrightarrow> \<not> bit (w :: 64 word) n"
proof -
  assume n: "n < 64"
  have "w AND push_bit n 1 = (if bit w n then push_bit n 1 else 0)"
    by (rule bit_word_eqI) (auto simp: bit_simps)
  moreover have "push_bit n (1 :: 64 word) \<noteq> 0"
  proof
    assume zero: "push_bit n (1 :: 64 word) = 0"
    have "bit (push_bit n (1 :: 64 word)) n" using n by (simp add: bit_exp_iff)
    then show False unfolding zero by simp
  qed
  ultimately show ?thesis by simp
qed

lemma unat_diff: "s \<le> h \<Longrightarrow> unat (h - s) = unat h - unat (s :: 32 word)"
  by (simp add: unat_sub)

lemma wouldAccept_iff:
  "wouldAccept w s \<longleftrightarrow> s \<noteq> 0 \<and> (rw_highest w = 0 \<or> unat s > unat (rw_highest w) \<or>
     unat (rw_highest w) < unat s + 64 \<and> \<not> bit (rw_bitmap w) (unat (rw_highest w) - unat s))"
proof (cases "s = 0 \<or> rw_highest w = 0 \<or> s > rw_highest w")
  case True
  then show ?thesis by (auto simp: wouldAccept_def word_less_nat_alt)
next
  case False
  then have le: "s \<le> rw_highest w" by (simp add: not_less)
  then have u: "unat (rw_highest w - s) = unat (rw_highest w) - unat s" "unat s \<le> unat (rw_highest w)"
    by (simp_all add: unat_diff word_le_nat_alt)
  then have "rw_highest w - s \<ge> 64 \<longleftrightarrow> \<not> unat (rw_highest w) < unat s + 64"
    by (auto simp: word_le_nat_alt)
  then show ?thesis
    using False u mask_bit_iff[of "unat (rw_highest w) - unat s" "rw_bitmap w"]
    by (auto simp: wouldAccept_def Let_def word_less_nat_alt)
qed

lemma commit_highest:
  "wouldAccept w s \<Longrightarrow> rw_highest (commit s w) = (if rw_highest w = 0 \<or> s > rw_highest w then s else rw_highest w)"
  by (simp add: commit_def Let_def)

lemma commit_bit:
  assumes "wouldAccept w s" and "d < 64"
  shows "bit (rw_bitmap (commit s w)) d \<longleftrightarrow>
    (if rw_highest w = 0 then d = 0
     else if s > rw_highest w
     then d = 0 \<or> unat s - unat (rw_highest w) \<le> d \<and> bit (rw_bitmap w) (d - (unat s - unat (rw_highest w)))
     else bit (rw_bitmap w) d \<or> d = unat (rw_highest w) - unat s)"
proof -
  consider "rw_highest w = 0" | "rw_highest w \<noteq> 0" "s > rw_highest w" | "rw_highest w \<noteq> 0" "\<not> s > rw_highest w"
    by blast
  then show ?thesis
  proof cases
    case 1
    then show ?thesis by (simp add: commit_def bit_1_iff)
  next
    case 2
    then have u: "unat (s - rw_highest w) = unat s - unat (rw_highest w)" "unat s > unat (rw_highest w)"
      by (simp_all add: unat_diff less_imp_le word_less_nat_alt [symmetric])
    have ge: "s - rw_highest w \<ge> 64 \<longleftrightarrow> unat s - unat (rw_highest w) \<ge> 64"
      using u(1) by (simp add: word_le_nat_alt)
    show ?thesis
      using 2 u ge assms(2)
      by (auto simp: commit_def Let_def bit_or_iff bit_1_iff bit_push_bit_iff dest: bit_imp_le_length)
  next
    case 3
    then have u: "unat (rw_highest w - s) = unat (rw_highest w) - unat s" by (simp add: unat_diff)
    then show ?thesis
      using 3 assms(2) by (auto simp: commit_def bit_or_iff bit_exp_iff)
  qed
qed


interpretation window: replay_guard wouldAccept "\<lambda>s w. commit s w"
proof
  fix w s assume acc: "wouldAccept w s"
  then have h: "rw_highest (commit s w) = (if rw_highest w = 0 \<or> s > rw_highest w then s else rw_highest w)"
    by (rule commit_highest)
  have nz: "s \<noteq> 0" using acc by (simp add: wouldAccept_iff)
  have range: "rw_highest w = 0 \<or> s > rw_highest w \<or> unat (rw_highest w) - unat s < 64"
    using acc by (auto simp: wouldAccept_iff word_less_nat_alt)
  show "\<not> wouldAccept (commit s w) s"
  proof (cases "rw_highest w = 0 \<or> s > rw_highest w")
    case True
    then have "bit (rw_bitmap (commit s w)) 0" using commit_bit[OF acc, of 0] by auto
    then show ?thesis using True h nz by (auto simp: wouldAccept_iff)
  next
    case False
    then have "bit (rw_bitmap (commit s w)) (unat (rw_highest w) - unat s)"
      using commit_bit[OF acc] range by auto
    then show ?thesis using False h by (auto simp: wouldAccept_iff word_less_nat_alt)
  qed
  fix t assume stale: "\<not> wouldAccept w t"
  show "\<not> wouldAccept (commit s w) t"
  proof (cases "t = 0")
    case True
    then show ?thesis by (simp add: wouldAccept_def)
  next
    case t: False
    then have old: "rw_highest w \<noteq> 0" "unat t \<le> unat (rw_highest w)"
      "unat (rw_highest w) < unat t + 64 \<longrightarrow> bit (rw_bitmap w) (unat (rw_highest w) - unat t)"
      using stale by (auto simp: wouldAccept_iff)
    show ?thesis
    proof (cases "s > rw_highest w")
      case True
      then have s: "unat (rw_highest w) < unat s" by (simp add: word_less_nat_alt)
      have "bit (rw_bitmap (commit s w)) (unat s - unat t)" if "unat s < unat t + 64"
        using commit_bit[OF acc, of "unat s - unat t"] True old s that by (auto simp: diff_diff_eq)
      then show ?thesis using True h t s old(2) nz by (auto simp: wouldAccept_iff)
    next
      case False
      then have "bit (rw_bitmap (commit s w)) (unat (rw_highest w) - unat t)" if "unat (rw_highest w) < unat t + 64"
        using commit_bit[OF acc, of "unat (rw_highest w) - unat t"] old that by auto
      then show ?thesis using False h t old by (auto simp: wouldAccept_iff)
    qed
  qed
qed

subsection \<open>Exactness\<close>

definition tracks :: "replay_window \<Rightarrow> 32 word set \<Rightarrow> bool" where
  "tracks w S \<longleftrightarrow> 0 \<notin> S \<and> (rw_highest w = 0 \<longleftrightarrow> S = {}) \<and> (S \<noteq> {} \<longrightarrow> rw_highest w \<in> S) \<and>
     (\<forall>s \<in> S. s \<le> rw_highest w) \<and>
     (\<forall>s. s \<noteq> 0 \<longrightarrow> S \<noteq> {} \<longrightarrow> s \<le> rw_highest w \<longrightarrow> unat (rw_highest w) < unat s + 64 \<longrightarrow>
        (bit (rw_bitmap w) (unat (rw_highest w) - unat s) \<longleftrightarrow> s \<in> S))"

definition eligible :: "32 word set \<Rightarrow> 32 word \<Rightarrow> bool" where
  "eligible S s \<longleftrightarrow> s \<noteq> 0 \<and> s \<notin> S \<and> (\<forall>x \<in> S. unat x < unat s + 64)"

lemma tracks_empty: "tracks emptyWindow {}"
  by (simp add: tracks_def emptyWindow_def)

lemma tracks_accepts:
  assumes tr: "tracks w S"
  shows "wouldAccept w s \<longleftrightarrow> eligible S s"
proof (cases "s = 0 \<or> S = {} \<or> s > rw_highest w")
  case True
  then consider "s = 0" | "S = {}" "s \<noteq> 0" | "s > rw_highest w" by blast
  then show ?thesis
  proof cases
    case 3
    then have "\<forall>x \<in> S. unat x < unat s" using tr by (auto simp: tracks_def word_less_nat_alt word_le_nat_alt)
    moreover have "s \<notin> S" using tr 3 by (auto simp: tracks_def not_le)
    moreover have "s \<noteq> 0" using 3 by auto
    ultimately show ?thesis using 3 by (fastforce simp: wouldAccept_iff eligible_def word_less_nat_alt)
  qed (use tr in \<open>auto simp: tracks_def wouldAccept_iff eligible_def\<close>)
next
  case False
  then have le: "s \<le> rw_highest w" "rw_highest w \<noteq> 0" "rw_highest w \<in> S"
    using tr by (auto simp: tracks_def not_less)
  have "(\<forall>x \<in> S. unat x < unat s + 64) \<longleftrightarrow> unat (rw_highest w) < unat s + 64"
    using tr le(3) unfolding tracks_def word_le_nat_alt by (meson le_less_trans)
  then show ?thesis
    using False le tr by (auto simp: wouldAccept_iff eligible_def tracks_def word_le_nat_alt)
qed

lemma tracks_commit:
  assumes tr: "tracks w S" and acc: "wouldAccept w s"
  shows "tracks (commit s w) (insert s S)"
proof -
  have h: "rw_highest (commit s w) = (if rw_highest w = 0 \<or> s > rw_highest w then s else rw_highest w)"
    by (rule commit_highest[OF acc])
  have nz: "s \<noteq> 0" using acc by (simp add: wouldAccept_iff)
  have S: "rw_highest w = 0 \<longleftrightarrow> S = {}" "\<forall>x \<in> S. x \<le> rw_highest w" "0 \<notin> S" "S \<noteq> {} \<longrightarrow> rw_highest w \<in> S"
    using tr by (auto simp: tracks_def)
  have old: "bit (rw_bitmap w) (unat (rw_highest w) - unat t) \<longleftrightarrow> t \<in> S"
    if "t \<noteq> 0" "S \<noteq> {}" "t \<le> rw_highest w" "unat (rw_highest w) < unat t + 64" for t
    using tr that by (simp add: tracks_def)
  have new: "bit (rw_bitmap (commit s w)) (unat (rw_highest (commit s w)) - unat t) \<longleftrightarrow> t \<in> insert s S"
    if t: "t \<noteq> 0" "t \<le> rw_highest (commit s w)" "unat (rw_highest (commit s w)) < unat t + 64" for t
  proof -
    let ?d = "unat (rw_highest (commit s w)) - unat t"
    have d: "?d < 64" using t(3) by linarith
    consider "S = {}" | "S \<noteq> {}" "s > rw_highest w" | "S \<noteq> {}" "s \<le> rw_highest w" by (meson not_le)
    then show ?thesis
    proof cases
      case 1
      then show ?thesis
        using commit_bit[OF acc d] h S(1) t(2) by (auto simp: word_le_nat_alt word_unat_eq_iff)
    next
      case 2
      then have s: "unat (rw_highest w) < unat s" by (simp add: word_less_nat_alt)
      have hs: "rw_highest (commit s w) = s" using h 2 by simp
      have tle: "unat t \<le> unat s" using t(2) hs by (simp add: word_le_nat_alt)
      have eqs: "t = s \<longleftrightarrow> unat t = unat s" by (simp add: word_unat_eq_iff)
      have split: "bit (rw_bitmap (commit s w)) ?d \<longleftrightarrow> t = s \<or>
          unat t \<le> unat (rw_highest w) \<and> bit (rw_bitmap w) (unat (rw_highest w) - unat t)"
        using commit_bit[OF acc d] 2 S(1) s tle hs unfolding eqs by (auto simp: diff_diff_eq)
      show ?thesis
      proof (cases "unat t \<le> unat (rw_highest w)")
        case True
        moreover have "unat (rw_highest w) < unat t + 64" using t(3) s unfolding hs by linarith
        ultimately show ?thesis using split old[OF t(1) 2(1)] by (simp add: word_le_nat_alt)
      next
        case False
        then have "t \<notin> S" using S(2) by (auto simp: word_le_nat_alt)
        then show ?thesis using split False by simp
      qed
    next
      case 3
      have hs: "rw_highest (commit s w) = rw_highest w" using h 3 S(1) by (auto simp: not_less)
      have le: "unat s \<le> unat (rw_highest w)" "unat t \<le> unat (rw_highest w)"
        using 3 t(2) hs by (simp_all add: word_le_nat_alt)
      then have eqs: "t = s \<longleftrightarrow> unat (rw_highest w) - unat t = unat (rw_highest w) - unat s"
        by (auto simp: word_unat_eq_iff)
      have "bit (rw_bitmap (commit s w)) ?d \<longleftrightarrow> bit (rw_bitmap w) (unat (rw_highest w) - unat t) \<or> t = s"
        using commit_bit[OF acc d] 3 S(1) hs unfolding eqs by (auto simp: not_less)
      then show ?thesis using old[OF t(1) 3(1)] t hs by auto
    qed
  qed
  show ?thesis
    unfolding tracks_def
  proof (intro conjI allI impI)
    show "\<forall>x \<in> insert s S. x \<le> rw_highest (commit s w)"
      using S h by (auto simp: not_less)
  qed (use nz S h new in \<open>auto simp: not_less\<close>)
qed

lemma tracks_run:
  "tracks w S \<Longrightarrow> tracks (foldl (\<lambda>w s. if wouldAccept w s then commit s w else w) w ss)
     (S \<union> set (acceptedRun wouldAccept (\<lambda>s w. commit s w) w ss))"
proof (induction ss arbitrary: w S)
  case Nil
  then show ?case by simp
next
  case (Cons s ss)
  then show ?case using Cons.IH[OF tracks_commit[OF Cons.prems]] by simp
qed

text \<open>C9: The replay window is exact: after any run of arriving numbers it accepts precisely the nonzero
  numbers that were not accepted before and that are less than 64 below every accepted one, and no
  number is accepted twice.\<close>
theorem replay_window_exact:
  "(wouldAccept (foldl (\<lambda>w s. if wouldAccept w s then commit s w else w) emptyWindow ss) s \<longleftrightarrow>
      eligible (set (acceptedRun wouldAccept (\<lambda>s w. commit s w) emptyWindow ss)) s) \<and>
   distinct (acceptedRun wouldAccept (\<lambda>s w. commit s w) emptyWindow ss)"
  using tracks_accepts[OF tracks_run[OF tracks_empty]] window.accepted_distinct by simp

end
