(* ===== verification/Esp_Props.thy ===== *)
theory Esp_Props
  imports Esp_Replay IkeKeys_Props
begin

text \<open>
  Properties of the ESP transform: what one peer seals the other opens, no received byte string can
  crash or replay, an opened packet was authenticated and satisfies the inbound policy, sequence
  numbers are never reused, and the selectors the client offers admit every packet.
\<close>

subsection \<open>Well-formed directions\<close>

definition direction_ok :: "esp_direction \<Rightarrow> bool" where
  "direction_ok d \<longleftrightarrow> dir_integrity d = ''hmac-sha1-96'' \<and> dir_icv d = 12 \<or>
     dir_integrity d = ''hmac-sha2-256-128'' \<and> dir_icv d = 16"

lemma newESPDirection_ok: "newESPDirection spi ek ak en integ random = Inr d \<Longrightarrow> direction_ok d"
  by (auto simp: newESPDirection_def direction_ok_def split: if_splits)

lemma authenticationCode_ok:
  assumes "crypto_ok cr" and "direction_ok d"
  shows "\<exists>icv. authenticationCode cr d packet = Inr icv \<and> length icv = dir_icv d"
  using assms by (auto simp: authenticationCode_def direction_ok_def crypto_ok_def slice_def)

definition same_keys :: "esp_direction \<Rightarrow> esp_direction \<Rightarrow> bool" where
  "same_keys d e \<longleftrightarrow> dir_spi e = dir_spi d \<and> dir_key e = dir_key d \<and> dir_auth e = dir_auth d \<and>
     dir_integrity e = dir_integrity d \<and> dir_icv e = dir_icv d"

lemma same_keys_mac: "same_keys d e \<Longrightarrow> authenticationCode cr e packet = authenticationCode cr d packet"
  by (simp add: same_keys_def authenticationCode_def)

subsection \<open>Sealing, then opening\<close>

lemma length_padBytes [simp]: "length (padBytes n) = n"
  by (simp add: padBytes_def)

lemma stripTrailer_seal:
  assumes "n < 256" and "nextHeader = 4 \<or> nextHeader = 41"
  shows "stripTrailer (inner @ padBytes n @ [word_of_nat n, nextHeader]) = Inr (inner, nextHeader)"
proof -
  have u: "unat (word_of_nat n :: byte) = n" using assms(1) by (intro unat_of_nat8) simp
  let ?pt = "inner @ padBytes n @ [word_of_nat n, nextHeader]"
  have len: "length ?pt = length inner + n + 2" by simp
  have "?pt ! (length ?pt - 2) = word_of_nat n" "?pt ! (length ?pt - 1) = nextHeader"
    by (simp_all add: nth_append)
  moreover have "paddingValid ?pt (length inner) n" by (simp add: paddingValid_def)
  ultimately show ?thesis
    using assms u len by (auto simp: stripTrailer_def idx_def slice_def)
qed

lemma verifyPacket_sealed:
  assumes cr: "crypto_ok cr" and ok: "direction_ok e" and iv: "length iv = 16"
    and ct: "cbcDecrypt (aes_decrypt cr (dir_key e)) iv ct = (Inr pt :: (esp_error, byte list) res)"
    and lct: "length ct \<noteq> 0" "length ct mod 16 = 0"
    and icv: "authenticationCode cr e (put32 (dir_spi e) @ put32 s @ iv @ ct) = Inr icv" "length icv = dir_icv e"
    and s: "s \<noteq> 0" "wouldAccept (dir_replay e) s"
  shows "verifyPacket cr (put32 (dir_spi e) @ put32 s @ iv @ ct @ icv) e = Inr (s, pt)"
proof -
  define au where "au = put32 (dir_spi e) @ put32 s @ iv @ ct"
  define packet where "packet = put32 (dir_spi e) @ put32 s @ iv @ ct @ icv"
  have pk: "packet = au @ icv" by (simp add: packet_def au_def)
  have la: "length au = 24 + length ct" using iv by (simp add: au_def)
  have lp: "length packet - dir_icv e = length au" "length packet = length au + dir_icv e" using icv(2) by (simp_all add: pk)
  have "16 \<le> length ct" using lct by (metis mod_less not_less)
  then have long: "\<not> length packet < 8 + 16 + 16 + dir_icv e" using lp la by simp
  have reads: "get32 packet 0 = Inr (dir_spi e)" "get32 packet 4 = Inr s"
    unfolding packet_def put32_def get32_def using iv by (simp_all add: un32_put32)
  have slices: "slice packet 24 (length au) = Inr ct" "slice packet 0 (length au) = Inr au"
    "slice packet (length au) (length packet) = Inr icv" "slice packet 8 24 = Inr iv"
  proof -
    have p24: "packet = (put32 (dir_spi e) @ put32 s @ iv) @ ct @ icv" by (simp add: packet_def)
    have l24: "length (put32 (dir_spi e) @ put32 s @ iv) = 24" using iv by simp
    show "slice packet 24 (length au) = Inr ct" unfolding p24 slice_def using l24 la by simp
    show "slice packet 0 (length au) = Inr au" "slice packet (length au) (length packet) = Inr icv"
      unfolding pk slice_def by simp_all
    show "slice packet 8 24 = Inr iv" unfolding packet_def slice_def put32_def using iv by simp
  qed
  show ?thesis
    unfolding packet_def[symmetric] verifyPacket_def lp(1)
    using long s lct icv(1)
    by (simp add: reads slices ct flip: au_def)
qed


definition padLength :: "nat \<Rightarrow> nat" where
  "padLength n = (16 - ((n + 2) mod 16)) mod 16"

lemma padLength_aligned: "(n + padLength n + 2) mod 16 = 0" "padLength n < 16"
proof -
  show "padLength n < 16" by (simp add: padLength_def)
  define k where "k = (n + 2) mod 16"
  define q where "q = (n + 2) div 16"
  have "n + 2 = 16 * q + k" unfolding k_def q_def by (rule mult_div_mod_eq [symmetric])
  moreover have "k < 16" by (simp add: k_def)
  ultimately have k: "k < 16" "n + 2 = 16 * q + k" by blast+
  show "(n + padLength n + 2) mod 16 = 0"
  proof (cases "k = 0")
    case True
    then show ?thesis using k_def by (simp add: padLength_def)
  next
    case False
    then have "padLength n = 16 - k" using k(1) unfolding padLength_def k_def[symmetric] by simp
    then have "n + padLength n + 2 = 16 * (q + 1)" using k by simp
    then show ?thesis by (metis mod_mult_self1_is_0)
  qed
qed

lemma sealPacket_shape:
  assumes cr: "crypto_ok cr" and ok: "direction_ok d" and sq: "dir_sequence d \<noteq> - 1" and rnd: "16 \<le> length (dir_random d)"
  obtains ct icv where
    "sealPacket cr inner nh d = (d\<lparr>dir_sequence := dir_sequence d + 1, dir_random := drop 16 (dir_random d)\<rparr>,
       Inr (put32 (dir_spi d) @ put32 (dir_sequence d + 1) @ take 16 (dir_random d) @ ct @ icv))"
    "cbcDecrypt (aes_decrypt cr (dir_key d)) (take 16 (dir_random d)) ct =
       (Inr (inner @ padBytes (padLength (length inner)) @ [word_of_nat (padLength (length inner)), nh]) :: (esp_error, byte list) res)"
    "length ct \<noteq> 0" "length ct mod 16 = 0"
    "authenticationCode cr d (put32 (dir_spi d) @ put32 (dir_sequence d + 1) @ take 16 (dir_random d) @ ct) = Inr icv"
    "length icv = dir_icv d"
proof -
  let ?n = "padLength (length inner)"
  let ?pt = "inner @ padBytes ?n @ [word_of_nat ?n, nh]"
  let ?iv = "take 16 (dir_random d)"
  have lp: "length ?pt mod 16 = 0" using padLength_aligned(1)[of "length inner"] by (simp add: add.assoc)
  have "length ?iv = 16" using rnd by simp
  from cbc_roundtrip[OF cr this lp, of "dir_key d"] obtain ct where
    ct: "cbcEncrypt (aes_encrypt cr (dir_key d)) ?iv ?pt = (Inr ct :: (esp_error, byte list) res)" "length ct = length ?pt"
      "cbcDecrypt (aes_decrypt cr (dir_key d)) ?iv ct = (Inr ?pt :: (esp_error, byte list) res)"
    by (auto simp: cbcEncrypt_def cbcDecrypt_def split: if_splits)
  let ?au = "put32 (dir_spi d) @ put32 (dir_sequence d + 1) @ ?iv @ ct"
  obtain icv where icv: "authenticationCode cr d ?au = Inr icv" "length icv = dir_icv d"
    using authenticationCode_ok[OF cr ok] by blast
  let ?d2 = "d\<lparr>dir_sequence := dir_sequence d + 1, dir_random := drop 16 (dir_random d)\<rparr>"
  have same: "authenticationCode cr ?d2 p = authenticationCode cr d p" for p
    by (simp add: authenticationCode_def)
  have "sealPacket cr inner nh d = (?d2, Inr (?au @ icv))"
    using sq rnd ct(1) icv(1) unfolding sealPacket_def padLength_def[symmetric] Let_def
    by (simp add: same)
  then show thesis using that[of ct icv] ct icv lp by simp
qed

lemma openPacket_sealed:
  assumes cr: "crypto_ok cr" and ok: "direction_ok d" and sq: "dir_sequence d \<noteq> - 1" and rnd: "16 \<le> length (dir_random d)"
    and keys: "same_keys d e" and fresh: "wouldAccept (dir_replay e) (dir_sequence d + 1)"
    and nh: "nh = 4 \<or> nh = 41" and val: "validate inner nh = Inr ()"
    and seal: "sealPacket cr inner nh d = (d', Inr packet)"
  shows "openPacket cr packet validate e =
    (e\<lparr>dir_replay := commit (dir_sequence d + 1) (dir_replay e)\<rparr>, Inr inner)"
proof -
  let ?s = "dir_sequence d + 1"
  obtain ct icv where shape: "sealPacket cr inner nh d =
      (d\<lparr>dir_sequence := ?s, dir_random := drop 16 (dir_random d)\<rparr>,
       Inr (put32 (dir_spi d) @ put32 ?s @ take 16 (dir_random d) @ ct @ icv))"
    and ct: "cbcDecrypt (aes_decrypt cr (dir_key d)) (take 16 (dir_random d)) ct =
       (Inr (inner @ padBytes (padLength (length inner)) @ [word_of_nat (padLength (length inner)), nh]) :: (esp_error, byte list) res)"
      "length ct \<noteq> 0" "length ct mod 16 = 0"
    and icv: "authenticationCode cr d (put32 (dir_spi d) @ put32 ?s @ take 16 (dir_random d) @ ct) = Inr icv"
      "length icv = dir_icv d"
    by (rule sealPacket_shape[OF cr ok sq rnd])
  have k: "dir_spi e = dir_spi d" "dir_key e = dir_key d" "dir_icv e = dir_icv d" "dir_integrity e = dir_integrity d"
    using keys by (simp_all add: same_keys_def)
  have oke: "direction_ok e" using ok k by (simp add: direction_ok_def)
  have p: "packet = put32 (dir_spi e) @ put32 ?s @ take 16 (dir_random d) @ ct @ icv" using shape seal k by simp
  have nz: "?s \<noteq> 0" using fresh by (simp add: wouldAccept_iff)
  have "verifyPacket cr packet e =
      Inr (?s, inner @ padBytes (padLength (length inner)) @ [word_of_nat (padLength (length inner)), nh])"
    unfolding p
    by (rule verifyPacket_sealed[OF cr oke])
       (use rnd ct icv k nz fresh same_keys_mac[OF keys] in simp_all)
  then show ?thesis
    using stripTrailer_seal[OF less_trans[OF padLength_aligned(2)] nh, where inner = inner] val
    by (simp add: openPacket_def)
qed

lemma parseTransportPorts_next: "parseTransportPorts p m = Inr m' \<Longrightarrow> md_nextHeader m' = md_nextHeader m"
  by (auto simp: parseTransportPorts_def rbind_Inr_iff split: if_splits)

lemma parseExtensions_next:
  "parseExtensions packet protocol offset ff m = Inr m' \<Longrightarrow> md_nextHeader m' = md_nextHeader m"
proof (induction "length packet - offset" arbitrary: protocol offset ff m rule: less_induct)
  case less
  have IH: "parseExtensions packet p o' f m = Inr m' \<Longrightarrow> offset < o' \<Longrightarrow> o' \<le> length packet \<Longrightarrow>
      md_nextHeader m' = md_nextHeader m" for p o' f
    by (rule less.hyps) (auto intro: diff_less_mono2)
  show ?case
    using less.prems[unfolded parseExtensions.simps[of packet protocol offset ff m]]
    by (auto simp: rbind_Inr_iff Let_def split: if_splits dest!: IH dest: parseTransportPorts_next)
qed

lemma parseInner_next: "parseInnerPacket packet = Inr m \<Longrightarrow> md_nextHeader m = 4 \<or> md_nextHeader m = 41"
  by (auto simp: parseInnerPacket_def parseInnerIPv4_def parseInnerIPv6_def rbind_Inr_iff Let_def
      split: if_splits dest!: parseTransportPorts_next parseExtensions_next)

lemma tunnel_opens:
  assumes cr: "crypto_ok cr" and ok: "direction_ok (tun_outbound t)" and rnd: "16 \<le> length (dir_random (tun_outbound t))"
    and keys: "same_keys (tun_outbound t) (tun_inbound u)"
    and mirror: "tun_responder u = tun_initiator t" "tun_initiator u = tun_responder t"
    and fresh: "wouldAccept (dir_replay (tun_inbound u)) (dir_sequence (tun_outbound t) + 1)"
    and seal: "tunnelSeal cr inner t = (t', Inr packet)"
  shows "snd (tunnelOpen cr packet u) = Inr inner"
proof -
  obtain m where m: "parseInnerPacket inner = Inr m" "packetAllowed m (tun_initiator t) (tun_responder t)"
    and sp: "snd (sealPacket cr inner (md_nextHeader m) (tun_outbound t)) = Inr packet"
    using seal by (auto simp: tunnelSeal_def split: sum.splits fault.splits if_splits prod.splits)
  then have sq: "dir_sequence (tun_outbound t) \<noteq> - 1" by (auto simp: sealPacket_def)
  obtain d' where "sealPacket cr inner (md_nextHeader m) (tun_outbound t) = (d', Inr packet)"
    using sp by (metis prod.collapse)
  moreover have "inboundPolicy u inner (md_nextHeader m) = Inr ()"
    using m mirror by (simp add: inboundPolicy_def)
  ultimately show ?thesis
    using openPacket_sealed[OF cr ok sq rnd keys fresh parseInner_next[OF m(1)]]
    by (simp add: tunnelOpen_def split_beta Let_def)
qed

text \<open>C10: Between two peers that share their keys and mirror their selectors, a packet that one tunnel seals
  is opened by the other to exactly the same inner packet, as long as its sequence number is still
  fresh there.\<close>
theorem tunnel_roundtrip:
  assumes cr: "crypto_ok cr" and ok: "direction_ok (tun_outbound t)" and rnd: "16 \<le> length (dir_random (tun_outbound t))"
    and keys: "same_keys (tun_outbound t) (tun_inbound u)"
    and mirror: "tun_responder u = tun_initiator t" "tun_initiator u = tun_responder t"
    and fresh: "wouldAccept (dir_replay (tun_inbound u)) (dir_sequence (tun_outbound t) + 1)"
    and seal: "tunnelSeal cr inner t = (t', Inr packet)"
  shows "snd (tunnelOpen cr packet u) = Inr inner"
  by (rule tunnel_opens[OF assms])


subsection \<open>What opening guarantees\<close>

lemma parseTransportPorts_no_panic: "parseTransportPorts p m \<noteq> Inl Panic"
  by (auto simp: parseTransportPorts_def read_Inl_iff)

lemma parseExtensions_no_panic:
  "offset \<le> length packet \<Longrightarrow> parseExtensions packet protocol offset ff m \<noteq> Inl Panic"
proof (induction "length packet - offset" arbitrary: protocol offset ff m rule: less_induct)
  case less
  have IH: "offset < o' \<Longrightarrow> o' \<le> length packet \<Longrightarrow> parseExtensions packet p o' f m \<noteq> Inl Panic" for p o' f
    by (rule less.hyps) (auto intro: diff_less_mono2)
  show ?case
    using less.prems
    by (subst parseExtensions.simps)
       (auto simp: read_Inl_iff Let_def IH parseTransportPorts_no_panic split: if_splits)
qed

lemma parseInnerPacket_no_panic: "parseInnerPacket packet \<noteq> Inl Panic"
proof -
  have "parseInnerIPv4 packet \<noteq> Inl Panic"
    by (auto simp: parseInnerIPv4_def read_Inl_iff Let_def parseTransportPorts_no_panic split: if_splits)
  moreover have "parseInnerIPv6 packet \<noteq> Inl Panic"
    by (auto simp: parseInnerIPv6_def read_Inl_iff Let_def slice_def split: if_splits intro!: parseExtensions_no_panic)
  ultimately show ?thesis by (auto simp: parseInnerPacket_def read_Inl_iff split: if_splits)
qed

lemma inboundPolicy_no_panic: "inboundPolicy t inner nh \<noteq> Inl Panic"
  by (auto simp: inboundPolicy_def rbind_Inl_iff parseInnerPacket_no_panic split: if_splits)

lemma verifyPacket_no_panic:
  assumes cr: "crypto_ok cr" and ok: "direction_ok d"
  shows "verifyPacket cr packet d \<noteq> Inl Panic"
proof (cases "length packet < 8 + 16 + 16 + dir_icv d")
  case True
  then show ?thesis by (simp add: verifyPacket_def)
next
  case False
  have "authenticationCode cr d p \<noteq> Inl Panic" for p using authenticationCode_ok[OF cr ok, of p] by auto
  moreover have "cbcDecrypt (aes_decrypt cr (dir_key d)) iv ct \<noteq> (Inl Panic :: (esp_error, byte list) res)"
    if "length iv = 16" "length ct mod 16 = 0" for iv ct using cbcDecrypt_ok[OF cr that] by (metis Inl_Inr_False)
  ultimately show ?thesis
    using False by (auto simp: verifyPacket_def read_Inl_iff slice_def split: if_splits)
qed

lemma stripTrailer_no_panic: "stripTrailer pt \<noteq> Inl Panic"
  by (auto simp: stripTrailer_def read_Inl_iff split: if_splits)

lemma verifyPacket_accepts:
  assumes "verifyPacket cr packet d = Inr (s, pt)"
  shows "\<exists>authenticated icv. packet = authenticated @ icv \<and> length icv = dir_icv d \<and>
      authenticationCode cr d authenticated = Inr icv \<and> wouldAccept (dir_replay d) s \<and>
      get32 packet 0 = (Inr (dir_spi d) :: (esp_error, 32 word) res) \<and> get32 packet 4 = (Inr s :: (esp_error, 32 word) res)"
proof -
  let ?n = "length packet - dir_icv d"
  have "\<not> length packet < 8 + 16 + 16 + dir_icv d" using assms by (auto simp: verifyPacket_def)
  then have "slice packet 0 ?n = (Inr (take ?n packet) :: (esp_error, byte list) res)"
    "slice packet ?n (length packet) = (Inr (drop ?n packet) :: (esp_error, byte list) res)"
    "length (drop ?n packet) = dir_icv d"
    by (auto simp: slice_def)
  moreover from this have "authenticationCode cr d (take ?n packet) = Inr (drop ?n packet) \<and> wouldAccept (dir_replay d) s \<and>
      get32 packet 0 = (Inr (dir_spi d) :: (esp_error, 32 word) res) \<and> get32 packet 4 = (Inr s :: (esp_error, 32 word) res)"
    using assms by (auto simp: verifyPacket_def rbind_Inr_iff split: if_splits)
  ultimately show ?thesis by (metis append_take_drop_id)
qed

lemma put32_un32: "put32 (un32 a b c d) = [a, b, c, d]"
proof -
  have "ucast (drop_bit 24 (un32 a b c d)) = a" and "ucast (drop_bit 16 (un32 a b c d)) = b"
    and "ucast (drop_bit 8 (un32 a b c d)) = c" and "ucast (un32 a b c d) = d"
    by (rule bit_word_eqI; auto simp: un32_def bit_simps dest: bit_word_beyond)+
  then show ?thesis by (simp add: put32_def)
qed

lemma get32_take: "get32 xs i = Inr v \<Longrightarrow> take 4 (drop i xs) = put32 v"
  by (auto simp: get32_def put32_un32 take_Suc_conv_app_nth numeral_eq_Suc split: if_splits)

text \<open>
  What the standard asks of a packet: the layout of RFC 4303, the integrity code over everything before
  it, a sequence number the window still takes, and a ciphertext that decrypts to the inner packet, the
  padding 1, 2, 3, ..., its length and the next header; the next header names the version of the inner
  packet, which parses and lies within the negotiated selectors.
\<close>

definition espDelivers :: "crypto \<Rightarrow> esp_tunnel \<Rightarrow> byte list \<Rightarrow> 32 word \<Rightarrow> byte list \<Rightarrow> bool" where
  "espDelivers cr t packet s inner \<longleftrightarrow>
    (let d = tun_inbound t in
     \<exists>iv ciphertext icv pad nextHeader m.
       packet = put32 (dir_spi d) @ put32 s @ iv @ ciphertext @ icv \<and>
       length iv = 16 \<and> ciphertext \<noteq> [] \<and> length ciphertext mod 16 = 0 \<and> length icv = dir_icv d \<and>
       s \<noteq> 0 \<and> wouldAccept (dir_replay d) s \<and>
       authenticationCode cr d (put32 (dir_spi d) @ put32 s @ iv @ ciphertext) = Inr icv \<and>
       cbcDecrypt (aes_decrypt cr (dir_key d)) iv ciphertext =
         (Inr (inner @ padBytes (unat pad) @ [pad, nextHeader]) :: (esp_error, byte list) res) \<and>
       nextHeader = (if drop_bit 4 (hd inner) = 4 then 4 else 41) \<and>
       parseInnerPacket inner = Inr m \<and> packetAllowed m (tun_responder t) (tun_initiator t))"

lemma verifyPacket_layout:
  assumes "verifyPacket cr packet d = Inr (s, pt)"
  obtains iv ct icv where "packet = put32 (dir_spi d) @ put32 s @ iv @ ct @ icv" "length iv = 16" "ct \<noteq> []"
    "length ct mod 16 = 0" "length icv = dir_icv d" "s \<noteq> 0" "wouldAccept (dir_replay d) s"
    "authenticationCode cr d (put32 (dir_spi d) @ put32 s @ iv @ ct) = Inr icv"
    "cbcDecrypt (aes_decrypt cr (dir_key d)) iv ct = (Inr pt :: (esp_error, byte list) res)"
proof -
  let ?n = "length packet - dir_icv d"
  have long: "\<not> length packet < 8 + 16 + 16 + dir_icv d" using assms by (auto simp: verifyPacket_def)
  then have n: "24 \<le> ?n" "?n \<le> length packet" by simp_all
  define iv where "iv = take 16 (drop 8 packet)"
  define ct where "ct = drop 24 (take ?n packet)"
  define icv where "icv = drop ?n packet"
  have reads: "get32 packet 0 = (Inr (dir_spi d) :: (esp_error, 32 word) res)" "get32 packet 4 = (Inr s :: (esp_error, 32 word) res)"
    and checks: "s \<noteq> 0" "wouldAccept (dir_replay d) s" "ct \<noteq> []" "length ct mod 16 = 0"
    and mac: "authenticationCode cr d (take ?n packet) = Inr icv"
    and dec: "cbcDecrypt (aes_decrypt cr (dir_key d)) iv ct = (Inr pt :: (esp_error, byte list) res)"
    using assms long n by (auto simp: verifyPacket_def rbind_Inr_iff slice_def iv_def ct_def icv_def drop_take split: if_splits)
  have "take ?n packet = take 4 packet @ take 4 (drop 4 packet) @ iv @ ct"
  proof -
    have "take ?n packet = take 24 packet @ ct"
      unfolding ct_def using n by (metis append_take_drop_id min.absorb1 take_take)
    moreover have "take 24 packet = take 4 packet @ take 4 (drop 4 packet) @ iv"
      using take_add[of 4 20 packet] take_add[of 4 16 "drop 4 packet"] by (simp add: iv_def add.commute)
    ultimately show ?thesis by simp
  qed
  then have au: "take ?n packet = put32 (dir_spi d) @ put32 s @ iv @ ct"
    using get32_take[OF reads(1)] get32_take[OF reads(2)] by simp
  have "packet = take ?n packet @ icv" by (simp add: icv_def)
  then have "packet = put32 (dir_spi d) @ put32 s @ iv @ ct @ icv" unfolding au by simp
  moreover have "length iv = 16" "length icv = dir_icv d" using long by (simp_all add: iv_def icv_def)
  ultimately show thesis
    by (rule that[OF _ _ checks(3) checks(4) _ checks(1) checks(2) mac[unfolded au] dec])
qed

lemma stripTrailer_layout:
  assumes "stripTrailer pt = Inr (inner, nh)"
  obtains pad where "pt = inner @ padBytes (unat pad) @ [pad, nh]"
proof -
  define pad where "pad = pt ! (length pt - 2)"
  let ?n = "length pt - 2 - unat pad"
  have two: "2 \<le> length pt" and fits: "unat pad \<le> length pt - 2"
    and padding: "take (unat pad) (drop ?n pt) = padBytes (unat pad)"
    and rest: "inner = take ?n pt" "nh = pt ! (length pt - 1)"
    using assms by (auto simp: stripTrailer_def rbind_Inr_iff idx_def slice_def paddingValid_def pad_def split: if_splits)
  have "take (length pt - 2) pt = inner @ padBytes (unat pad)"
  proof -
    have "?n + unat pad = length pt - 2" using fits by (rule le_add_diff_inverse2)
    then show ?thesis using take_add[of ?n "unat pad" pt] unfolding padding rest by (simp only:)
  qed
  moreover have "drop (length pt - 2) pt = [pad, nh]"
    using two rest by (intro nth_equalityI) (auto simp: pad_def less_Suc_eq numeral_2_eq_2)
  ultimately have "pt = inner @ padBytes (unat pad) @ [pad, nh]" by (metis append_assoc append_take_drop_id)
  then show thesis by (rule that)
qed

lemma parseInner_version:
  "parseInnerPacket inner = Inr m \<Longrightarrow> md_nextHeader m = (if drop_bit 4 (hd inner) = 4 then 4 else 41)"
  by (auto simp: parseInnerPacket_def parseInnerIPv4_def parseInnerIPv6_def rbind_Inr_iff Let_def idx_def hd_conv_nth
      split: if_splits dest!: parseTransportPorts_next parseExtensions_next)

lemma espDelivers_iff:
  assumes cr: "crypto_ok cr" and ok: "direction_ok (tun_inbound t)"
  shows "espDelivers cr t packet s inner \<longleftrightarrow>
    (\<exists>pt nh. verifyPacket cr packet (tun_inbound t) = Inr (s, pt) \<and> stripTrailer pt = Inr (inner, nh) \<and>
      inboundPolicy t inner nh = Inr ())"
proof
  assume "espDelivers cr t packet s inner"
  then obtain iv ct icv pad nh m where
    d: "packet = put32 (dir_spi (tun_inbound t)) @ put32 s @ iv @ ct @ icv"
      "length iv = 16" "ct \<noteq> []" "length ct mod 16 = 0" "length icv = dir_icv (tun_inbound t)"
      "s \<noteq> 0" "wouldAccept (dir_replay (tun_inbound t)) s"
      "authenticationCode cr (tun_inbound t) (put32 (dir_spi (tun_inbound t)) @ put32 s @ iv @ ct) = Inr icv"
      "cbcDecrypt (aes_decrypt cr (dir_key (tun_inbound t))) iv ct =
         (Inr (inner @ padBytes (unat pad) @ [pad, nh]) :: (esp_error, byte list) res)"
    and nh: "nh = (if drop_bit 4 (hd inner) = 4 then 4 else 41)"
    and m: "parseInnerPacket inner = Inr m" "packetAllowed m (tun_responder t) (tun_initiator t)"
    by (auto simp: espDelivers_def Let_def)
  have "verifyPacket cr packet (tun_inbound t) = Inr (s, inner @ padBytes (unat pad) @ [pad, nh])"
    unfolding d(1) by (rule verifyPacket_sealed[OF cr ok d(2) d(9) _ d(4) d(8) d(5) d(6) d(7)]) (use d(3) in simp)
  moreover have "stripTrailer (inner @ padBytes (unat pad) @ [pad, nh]) = Inr (inner, nh)"
    using stripTrailer_seal[of "unat pad" nh inner] unsigned_less[of pad, where ?'a = nat] nh by auto
  moreover have "inboundPolicy t inner nh = Inr ()"
    using m nh parseInner_version[OF m(1)] by (simp add: inboundPolicy_def)
  ultimately show "\<exists>pt nh. verifyPacket cr packet (tun_inbound t) = Inr (s, pt) \<and> stripTrailer pt = Inr (inner, nh) \<and>
      inboundPolicy t inner nh = Inr ()" by blast
next
  assume "\<exists>pt nh. verifyPacket cr packet (tun_inbound t) = Inr (s, pt) \<and> stripTrailer pt = Inr (inner, nh) \<and>
      inboundPolicy t inner nh = Inr ()"
  then obtain pt nh where v: "verifyPacket cr packet (tun_inbound t) = Inr (s, pt)"
    and st: "stripTrailer pt = Inr (inner, nh)" and p: "inboundPolicy t inner nh = Inr ()" by blast
  obtain m where m: "parseInnerPacket inner = Inr m" "md_nextHeader m = nh" "packetAllowed m (tun_responder t) (tun_initiator t)"
    using p by (auto simp: inboundPolicy_def rbind_Inr_iff split: if_splits)
  obtain pad where pt: "pt = inner @ padBytes (unat pad) @ [pad, nh]" using stripTrailer_layout[OF st] .
  from verifyPacket_layout[OF v] show "espDelivers cr t packet s inner"
    unfolding espDelivers_def Let_def using m parseInner_version[OF m(1)] pt by (metis (no_types, lifting))
qed

text \<open>C7: Opening is safe on any input and delivers exactly what the standard and the policy let through.  It
  never panics.  A delivered inner packet is what the packet's own ciphertext decrypts to before padding
  and trailer; the packet carries the tunnel's SPI, a fresh sequence number and the correct integrity
  code, the next header in the trailer is the one of the inner packet's IP version, and the inner packet
  parses and is admitted by the inbound selectors; only its sequence number is recorded.  A packet that
  is rejected meets no such description, and leaves the tunnel unchanged.\<close>
theorem tunnelOpen_safe:
  assumes cr: "crypto_ok cr" and ok: "direction_ok (tun_inbound t)"
  shows "case tunnelOpen cr packet t of
      (t', Inl f) \<Rightarrow> f \<noteq> Panic \<and> t' = t \<and> (\<forall>s inner. \<not> espDelivers cr t packet s inner)
    | (t', Inr inner) \<Rightarrow> \<exists>s. espDelivers cr t packet s inner \<and>
        t' = t\<lparr>tun_inbound := (tun_inbound t)\<lparr>dir_replay := commit s (dir_replay (tun_inbound t))\<rparr>\<rparr>"
proof -
  let ?d = "tun_inbound t"
  let ?r = "rbind (verifyPacket cr packet ?d) (\<lambda>(sequence, plaintext).
        rbind (stripTrailer plaintext) (\<lambda>(inner, nextHeader).
        rbind (inboundPolicy t inner nextHeader) (\<lambda>_. Inr (sequence, inner))))"
  have result: "?r = Inr (s, inner) \<longleftrightarrow> espDelivers cr t packet s inner" for s inner
    unfolding espDelivers_iff[OF cr ok] by (auto simp: rbind_Inr_iff split: prod.splits)
  show ?thesis
  proof (cases ?r)
    case (Inl f)
    then have "f \<noteq> Panic"
      using verifyPacket_no_panic[OF cr ok] stripTrailer_no_panic inboundPolicy_no_panic
      by (auto simp: rbind_Inl_iff split: prod.splits)
    moreover have "\<not> espDelivers cr t packet s inner" for s inner using result[of s inner] Inl by simp
    ultimately show ?thesis using Inl by (simp add: tunnelOpen_def openPacket_def)
  next
    case (Inr res)
    obtain s inner where res: "res = (s, inner)" by fastforce
    then have "espDelivers cr t packet s inner" using Inr result by simp
    then show ?thesis using Inr res by (auto simp: tunnelOpen_def openPacket_def)
  qed
qed

subsection \<open>Runs\<close>

text \<open>The sequence numbers of the packets a tunnel delivers over a run, and of those it sends.\<close>

fun delivered :: "crypto \<Rightarrow> esp_tunnel \<Rightarrow> byte list list \<Rightarrow> 32 word list" where
  "delivered cr t [] = []"
| "delivered cr t (p # ps) =
     (case tunnelOpen cr p t of
        (t', Inr inner) \<Rightarrow> un32 (p ! 4) (p ! 5) (p ! 6) (p ! 7) # delivered cr t' ps
      | (t', Inl f) \<Rightarrow> delivered cr t' ps)"

fun sent :: "crypto \<Rightarrow> esp_tunnel \<Rightarrow> byte list list \<Rightarrow> 32 word list" where
  "sent cr t [] = []"
| "sent cr t (p # ps) =
     (case tunnelSeal cr p t of
        (t', Inr packet) \<Rightarrow> un32 (packet ! 4) (packet ! 5) (packet ! 6) (packet ! 7) # sent cr t' ps
      | (t', Inl f) \<Rightarrow> sent cr t' ps)"

lemma openPacket_cases:
  obtains (rejected) f where "openPacket cr packet v d = (d, Inl f)"
  | (accepted) s inner where "openPacket cr packet v d = (d\<lparr>dir_replay := commit s (dir_replay d)\<rparr>, Inr inner)"
      "wouldAccept (dir_replay d) s" "s = un32 (packet ! 4) (packet ! 5) (packet ! 6) (packet ! 7)"
proof (cases "rbind (verifyPacket cr packet d) (\<lambda>(sequence, plaintext).
        rbind (stripTrailer plaintext) (\<lambda>(inner, nextHeader).
        rbind (v inner nextHeader) (\<lambda>_. Inr (sequence, inner))))")
  case (Inl f)
  then show ?thesis using rejected[of f] by (simp add: openPacket_def)
next
  case (Inr res)
  obtain s inner where res: "res = (s, inner)" by fastforce
  obtain pt where v: "verifyPacket cr packet d = Inr (s, pt)"
    using Inr res by (auto simp: rbind_Inr_iff split: prod.splits)
  have w: "wouldAccept (dir_replay d) s" and g: "get32 packet 4 = (Inr s :: (esp_error, 32 word) res)"
    using verifyPacket_accepts[OF v] by auto
  have "un32 (packet ! 4) (packet ! 5) (packet ! 6) (packet ! 7) = s"
    using g by (simp add: get32_def split: if_splits)
  moreover have "openPacket cr packet v d = (d\<lparr>dir_replay := commit s (dir_replay d)\<rparr>, Inr inner)"
    using Inr res unfolding openPacket_def by simp
  ultimately show ?thesis using accepted[of s inner] w by blast
qed

lemma delivered_window:
  "\<exists>ss. delivered cr t ps = acceptedRun wouldAccept (\<lambda>s w. commit s w) (dir_replay (tun_inbound t)) ss"
proof (induction ps arbitrary: t)
  case Nil
  show ?case by (rule exI[of _ "[]"]) simp
next
  case (Cons p ps)
  show ?case
  proof (cases rule: openPacket_cases[of cr p "inboundPolicy t" "tun_inbound t"])
    case (rejected f)
    then show ?thesis using Cons.IH[of t] by (simp add: tunnelOpen_def)
  next
    case (accepted s inner)
    let ?t' = "t\<lparr>tun_inbound := (tun_inbound t)\<lparr>dir_replay := commit s (dir_replay (tun_inbound t))\<rparr>\<rparr>"
    obtain ss where "delivered cr ?t' ps =
        acceptedRun wouldAccept (\<lambda>s w. commit s w) (commit s (dir_replay (tun_inbound t))) ss"
      using Cons.IH[of ?t'] by auto
    then show ?thesis
      using accepted by (intro exI[of _ "s # ss"]) (simp add: tunnelOpen_def)
  qed
qed

text \<open>C8: Over any sequence of received datagrams, forged, duplicated or reordered, no sequence number is
  delivered twice.\<close>
theorem no_replay: "distinct (delivered cr t ps)"
  using delivered_window[of cr t ps] window.accepted_distinct by metis

lemma sealPacket_sequence:
  assumes "sealPacket cr inner nh d = (d', Inr packet)"
  shows "dir_sequence d \<noteq> - 1 \<and> dir_sequence d' = dir_sequence d + 1 \<and>
    un32 (packet ! 4) (packet ! 5) (packet ! 6) (packet ! 7) = dir_sequence d + 1"
proof -
  have sq: "dir_sequence d \<noteq> - 1" using assms by (auto simp: sealPacket_def)
  have "dir_sequence d' = dir_sequence d + 1 \<and> (\<exists>rest. packet = put32 (dir_spi d) @ put32 (dir_sequence d + 1) @ rest)"
    using assms sq by (auto simp: sealPacket_def Let_def rbind_Inr_iff split: if_splits)
  then show ?thesis using sq by (auto simp: put32_def un32_put32)
qed

lemma sealPacket_monotone:
  "unat (dir_sequence d) \<le> unat (dir_sequence (fst (sealPacket cr inner nh d)))"
proof -
  have "dir_sequence d \<noteq> - 1 \<Longrightarrow> unat (dir_sequence d + 1) = unat (dir_sequence d) + 1"
    using unatSuc[of "dir_sequence d"] by (metis add.commute add_eq_0_iff Suc_eq_plus1)
  then show ?thesis by (auto simp: sealPacket_def Let_def)
qed

lemma sent_above:
  "sorted_wrt (<) (map unat (sent cr t ps)) \<and> (\<forall>s \<in> set (sent cr t ps). unat (dir_sequence (tun_outbound t)) < unat s)"
proof (induction ps arbitrary: t)
  case Nil
  then show ?case by simp
next
  case (Cons p ps)
  show ?case
  proof (cases "snd (tunnelSeal cr p t)")
    case (Inl f)
    have "unat (dir_sequence (tun_outbound t)) \<le> unat (dir_sequence (tun_outbound (fst (tunnelSeal cr p t))))"
      using sealPacket_monotone[of "tun_outbound t" cr p]
      by (auto simp: tunnelSeal_def Let_def split_beta split: sum.splits fault.splits)
    moreover have "sent cr t (p # ps) = sent cr (fst (tunnelSeal cr p t)) ps" using Inl by (simp add: split_beta)
    ultimately show ?thesis using Cons.IH[of "fst (tunnelSeal cr p t)"] by fastforce
  next
    case (Inr packet)
    obtain m where m: "parseInnerPacket p = Inr m"
      using Inr by (auto simp: tunnelSeal_def split: sum.splits fault.splits)
    then have "snd (sealPacket cr p (md_nextHeader m) (tun_outbound t)) = Inr packet"
      "fst (sealPacket cr p (md_nextHeader m) (tun_outbound t)) = tun_outbound (fst (tunnelSeal cr p t))"
      using Inr by (auto simp: tunnelSeal_def Let_def split_beta split: if_splits)
    then have sp: "sealPacket cr p (md_nextHeader m) (tun_outbound t) =
        (tun_outbound (fst (tunnelSeal cr p t)), Inr packet)"
      by (metis prod.collapse)
    note sq = sealPacket_sequence[OF sp]
    have "unat (dir_sequence (tun_outbound t) + 1) = unat (dir_sequence (tun_outbound t)) + 1"
      using unatSuc[of "dir_sequence (tun_outbound t)"] sq by (metis add.commute add_eq_0_iff Suc_eq_plus1)
    then show ?thesis
      using Cons.IH[of "fst (tunnelSeal cr p t)"] Inr sq by (fastforce simp: split_beta)
  qed
qed

text \<open>A tunnel never reuses a sequence number: over any sequence of packets it sends, the numbers on
  the wire strictly increase above the initial counter, so the 32-bit counter stops at its
  maximum instead of wrapping.\<close>
theorem sent_increasing:
  "sorted_wrt (<) (map unat (sent cr t ps)) \<and>
   (dir_sequence (tun_outbound t) = - 1 \<longrightarrow> sent cr t ps = [])"
proof -
  have "unat s \<le> unat (- 1 :: 32 word)" for s :: "32 word" by (simp add: word_le_nat_alt [symmetric])
  then have "dir_sequence (tun_outbound t) = - 1 \<longrightarrow> sent cr t ps = []"
    using sent_above[of cr t ps] by (metis leD list.set_intros(1) list.exhaust)
  then show ?thesis using sent_above by blast
qed


subsection \<open>The offered selectors\<close>

definition anySelectors :: "selector list" where
  "anySelectors = [\<lparr>ts_protocol = 0, ts_startPort = 0, ts_endPort = 65535, ts_start = replicate 4 0, ts_end = replicate 4 0xff\<rparr>,
     \<lparr>ts_protocol = 0, ts_startPort = 0, ts_endPort = 65535, ts_start = replicate 16 0, ts_end = replicate 16 0xff\<rparr>]"

definition offeredBody :: "byte list" where
  "offeredBody = [2, 0, 0, 0] @
     [7, 0, 0, 16, 0, 0, 0xff, 0xff] @ replicate 4 0 @ replicate 4 0xff @
     [8, 0, 0, 40, 0, 0, 0xff, 0xff] @ replicate 16 0 @ replicate 16 0xff"

lemma offeredBody_reads:
  "idx offeredBody 0 = (Inr 2 :: (ike_error, byte) res)"
  "get16 offeredBody 6 = (Inr 16 :: (ike_error, 16 word) res)" "idx offeredBody 5 = (Inr 0 :: (ike_error, byte) res)"
  "get16 offeredBody 8 = (Inr 0 :: (ike_error, 16 word) res)" "get16 offeredBody 10 = (Inr 65535 :: (ike_error, 16 word) res)"
  "idx offeredBody 4 = (Inr 7 :: (ike_error, byte) res)"
  "get16 offeredBody 22 = (Inr 40 :: (ike_error, 16 word) res)" "idx offeredBody 21 = (Inr 0 :: (ike_error, byte) res)"
  "get16 offeredBody 24 = (Inr 0 :: (ike_error, 16 word) res)" "get16 offeredBody 26 = (Inr 65535 :: (ike_error, 16 word) res)"
  "idx offeredBody 20 = (Inr 8 :: (ike_error, byte) res)"
  "slice offeredBody 12 16 = (Inr (replicate 4 0) :: (ike_error, byte list) res)"
  "slice offeredBody 16 20 = (Inr (replicate 4 0xff) :: (ike_error, byte list) res)"
  "slice offeredBody 28 44 = (Inr (replicate 16 0) :: (ike_error, byte list) res)"
  "slice offeredBody 44 60 = (Inr (replicate 16 0xff) :: (ike_error, byte list) res)"
  by code_simp+

lemma parse_dualStack: "parseTrafficSelectors (dualStackTrafficSelectors kind) = Inr anySelectors"
proof -
  have b: "pl_body (dualStackTrafficSelectors kind) = offeredBody"
    by (simp add: dualStackTrafficSelectors_def anyTrafficSelector_def put16_def offeredBody_def)
  have len: "length offeredBody = 60" by (simp add: offeredBody_def)
  have u: "parseSelectors offeredBody 2 4 = parseSelectors offeredBody (Suc (Suc 0)) 4"
    by (simp only: numeral_2_eq_2)
  show ?thesis
    unfolding parseTrafficSelectors_def b
    by (simp add: len u offeredBody_reads selectorAddresses_def anySelectors_def Let_def del: replicate_Suc)
qed

lemma bytesLe_zeros: "n \<le> length xs \<Longrightarrow> bytesLe (replicate n 0) xs"
proof (induction n arbitrary: xs)
  case (Suc n)
  show ?case
  proof (cases xs)
    case (Cons x ys)
    have "x = 0 \<or> 0 < x" by (simp add: word_greater_zero_iff)
    then show ?thesis using Cons Suc by (cases "x = 0") simp_all
  qed (use Suc in simp)
qed simp

lemma bytesLe_ones: "length xs \<le> n \<Longrightarrow> bytesLe xs (replicate n 0xff)"
proof (induction n arbitrary: xs)
  case (Suc n)
  show ?case
  proof (cases xs)
    case (Cons x ys)
    have "unat x < 2 ^ LENGTH(8)" by (rule unsigned_less)
    then have "x \<le> 0xff" by (simp add: word_le_nat_alt)
    then show ?thesis using Cons Suc by (auto simp: order_le_less)
  qed simp
qed simp

lemma any_endpoint: "address_ok ip \<Longrightarrow> endpointAllowed ip protocol port anySelectors"
proof -
  assume ok: "address_ok ip"
  have port: "\<not> (65535 :: 16 word) < port"
  proof -
    have "unat port < 2 ^ LENGTH(16)" by (rule unsigned_less)
    then have "port \<le> 65535" by (simp add: word_le_nat_alt)
    then show ?thesis by (simp add: not_less)
  qed
  have v4: "ipWithinRange ip (replicate 4 0) (replicate 4 0xff)" if "To4 ip = Some ip4" "length ip4 = 4" for ip4
    using that by (simp add: ipWithinRange_def normalizeIPRange_def To4_def[of "replicate _ _"] bytesLe_zeros bytesLe_ones)
  have v6: "ipWithinRange ip (replicate 16 0) (replicate 16 0xff)" if "length ip = 16"
  proof -
    have "To4 (replicate 16 0) = None" "To4 (replicate 16 0xff) = None" by code_simp+
    then show ?thesis
      using that by (simp add: ipWithinRange_def normalizeIPRange_def To16_def bytesLe_zeros bytesLe_ones)
  qed
  show ?thesis
    using ok v4[of ip] v6 port by (auto simp: endpointAllowed_def anySelectors_def address_ok_def To4_def)
qed

lemma parseTransportPorts_addresses:
  "parseTransportPorts p m = Inr m' \<Longrightarrow> md_source m' = md_source m \<and> md_destination m' = md_destination m"
  by (auto simp: parseTransportPorts_def rbind_Inr_iff split: if_splits)

lemma parseExtensions_addresses:
  "parseExtensions packet protocol offset ff m = Inr m' \<Longrightarrow>
    md_source m' = md_source m \<and> md_destination m' = md_destination m"
proof (induction "length packet - offset" arbitrary: protocol offset ff m rule: less_induct)
  case less
  have IH: "parseExtensions packet p o' f m = Inr m' \<Longrightarrow> offset < o' \<Longrightarrow> o' \<le> length packet \<Longrightarrow>
      md_source m' = md_source m \<and> md_destination m' = md_destination m" for p o' f
    by (rule less.hyps) (auto intro: diff_less_mono2)
  show ?case
    using less.prems[unfolded parseExtensions.simps[of packet protocol offset ff m]]
    by (auto simp: rbind_Inr_iff Let_def split: if_splits dest!: IH dest: parseTransportPorts_addresses)
qed

lemma parseInner_addresses:
  "parseInnerPacket packet = Inr m \<Longrightarrow> address_ok (md_source m) \<and> address_ok (md_destination m)"
  by (auto simp: parseInnerPacket_def parseInnerIPv4_def parseInnerIPv6_def rbind_Inr_iff Let_def slice_def address_ok_def
      split: if_splits dest!: parseTransportPorts_addresses parseExtensions_addresses)

text \<open>The dual-stack traffic selectors the client offers parse back, and they admit every well-formed
  IPv4 or IPv6 packet in either direction.\<close>
theorem offered_selectors_admit_all:
  "\<exists>ss. parseTrafficSelectors (dualStackTrafficSelectors kind) = Inr ss \<and>
    (\<forall>packet m. parseInnerPacket packet = Inr m \<longrightarrow> packetAllowed m ss ss)"
  using parse_dualStack any_endpoint parseInner_addresses unfolding packetAllowed_def by blast


subsection \<open>Two concrete peers\<close>

definition demo_out :: esp_direction where
  "demo_out = \<lparr>dir_spi = 7, dir_key = replicate 16 1, dir_auth = replicate 20 2, dir_integrity = ''hmac-sha1-96'',
     dir_icv = 12, dir_random = replicate 32 5, dir_sequence = 0, dir_replay = emptyWindow\<rparr>"

definition demo_tunnel :: esp_tunnel where
  "demo_tunnel = \<lparr>tun_outbound = demo_out, tun_inbound = demo_out, tun_initiator = anySelectors,
     tun_responder = anySelectors\<rparr>"

definition demo_inner :: "byte list" where
  "demo_inner = [0x45, 0, 0, 20, 0, 0, 0, 0, 64, 6, 0, 0, 10, 0, 0, 1, 10, 0, 0, 2]"

lemma demo_out_ok: "direction_ok demo_out"
  by (simp add: direction_ok_def demo_out_def)

lemma demo_seals: "\<exists>t' packet. tunnelSeal demo_crypto demo_inner demo_tunnel = (t', Inr packet)"
proof -
  obtain m where m: "parseInnerPacket demo_inner = Inr m"
    by (simp add: parseInnerPacket_def parseInnerIPv4_def demo_inner_def idx_def get16_def slice_def un16_def
        parseTransportPorts_def)
  then have "packetAllowed m anySelectors anySelectors"
    using any_endpoint parseInner_addresses by (simp add: packetAllowed_def)
  moreover have "dir_sequence demo_out \<noteq> - 1" "16 \<le> length (dir_random demo_out)" by (simp_all add: demo_out_def)
  from sealPacket_shape[OF demo_crypto_ok demo_out_ok this, of demo_inner "md_nextHeader m"]
  obtain d' packet where "sealPacket demo_crypto demo_inner (md_nextHeader m) demo_out = (d', Inr packet)" by blast
  ultimately show ?thesis using m by (simp add: tunnelSeal_def demo_tunnel_def)
qed

theorem tunnel_roundtrip_witness:
  "case tunnelSeal demo_crypto demo_inner demo_tunnel of
     (t', Inr packet) \<Rightarrow> snd (tunnelOpen demo_crypto packet demo_tunnel) = Inr demo_inner
   | (t', Inl f) \<Rightarrow> False"
proof -
  obtain t' packet where s: "tunnelSeal demo_crypto demo_inner demo_tunnel = (t', Inr packet)"
    using demo_seals by blast
  have "snd (tunnelOpen demo_crypto packet demo_tunnel) = Inr demo_inner"
    by (rule tunnel_roundtrip[OF demo_crypto_ok _ _ _ _ _ _ s])
       (simp_all add: demo_tunnel_def demo_out_ok, simp_all add: demo_out_def same_keys_def wouldAccept_iff emptyWindow_def)
  then show ?thesis using s by simp
qed

lemma demo_inbound_ok: "direction_ok (tun_inbound demo_tunnel)"
  using demo_out_ok by (simp add: demo_tunnel_def)

lemma demo_opens:
  "tunnelSeal demo_crypto demo_inner demo_tunnel = (t', Inr packet) \<Longrightarrow>
    snd (tunnelOpen demo_crypto packet demo_tunnel) = Inr demo_inner"
  by (rule tunnel_opens[OF demo_crypto_ok])
     (simp_all add: demo_tunnel_def demo_out_ok, simp_all add: demo_out_def same_keys_def wouldAccept_iff emptyWindow_def)

text \<open>A sealed packet that is delivered, and three octets that are rejected.\<close>
theorem tunnelOpen_safe_witness:
  "(\<exists>t' packet s. tunnelSeal demo_crypto demo_inner demo_tunnel = (t', Inr packet) \<and>
      espDelivers demo_crypto demo_tunnel packet s demo_inner) \<and>
   snd (tunnelOpen demo_crypto [1, 2, 3] demo_tunnel) = err ESPTruncated \<and>
   fst (tunnelOpen demo_crypto [1, 2, 3] demo_tunnel) = demo_tunnel"
proof -
  obtain t' packet where seal: "tunnelSeal demo_crypto demo_inner demo_tunnel = (t', Inr packet)"
    using demo_seals by blast
  then have "\<exists>s. espDelivers demo_crypto demo_tunnel packet s demo_inner"
    using demo_opens[OF seal] tunnelOpen_safe[OF demo_crypto_ok demo_inbound_ok, of packet]
    by (auto split: prod.splits sum.splits)
  moreover have "snd (tunnelOpen demo_crypto [1, 2, 3] demo_tunnel) = err ESPTruncated"
    by (simp add: tunnelOpen_def openPacket_def verifyPacket_def)
  moreover from this tunnelOpen_safe[OF demo_crypto_ok demo_inbound_ok, of "[1, 2, 3]"]
  have "fst (tunnelOpen demo_crypto [1, 2, 3] demo_tunnel) = demo_tunnel" by (auto split: prod.splits)
  ultimately show ?thesis using seal by blast
qed

theorem offered_selectors_admit_all_witness:
  "\<exists>ss m. parseTrafficSelectors (dualStackTrafficSelectors 44) = Inr ss \<and>
     parseInnerPacket demo_inner = Inr m \<and> packetAllowed m ss ss"
proof -
  obtain m where "parseInnerPacket demo_inner = Inr m"
    by (simp add: parseInnerPacket_def parseInnerIPv4_def demo_inner_def idx_def get16_def slice_def un16_def
        parseTransportPorts_def)
  then show ?thesis using offered_selectors_admit_all[of 44] by blast
qed

theorem child_parsers_accept_witness:
  "\<exists>ss. parseTrafficSelectors (dualStackTrafficSelectors 44) = Inr ss \<and> list_all selector_ok ss \<and> length ss = 2"
proof -
  have "list_all selector_ok anySelectors"
    using child_parsers_accept[of "dualStackTrafficSelectors 44" anySelectors undefined] parse_dualStack[of 44] by blast
  moreover have "length anySelectors = 2" by (simp add: anySelectors_def)
  ultimately show ?thesis using parse_dualStack[of 44] by blast
qed

theorem sent_increasing_witness:
  "sent demo_crypto (demo_tunnel\<lparr>tun_outbound := demo_out\<lparr>dir_sequence := - 1\<rparr>\<rparr>) [demo_inner] = []"
proof -
  have "dir_sequence (tun_outbound (demo_tunnel\<lparr>tun_outbound := demo_out\<lparr>dir_sequence := - 1\<rparr>\<rparr>)) = - 1" by simp
  then show ?thesis using sent_increasing by blast
qed

end
