(* ===== verification/IkeCrypt.thy ===== *)
theory IkeCrypt
  imports Cbc
begin

text \<open>
  The encrypted payload of \<open>backend/internal/vocat/vowifi/ike/crypto.go\<close>: sealing and opening a message,
  IKE fragmentation (RFC 7383) and reassembly. The random source is the list of bytes it will
  still deliver; a sealing function returns what is left of it. The statements that
  \<open>encryptPayloads\<close> and \<open>encryptPayloadsFragmented\<close> have in common are \<open>sealBody\<close>, those of the two
  decrypters \<open>verifyBody\<close> and \<open>decryptBody\<close>.
\<close>

abbreviation payloadEncryptedFragment :: byte where "payloadEncryptedFragment \<equiv> 53"

subsection \<open>Sealing\<close>

definition readFull :: "nat \<Rightarrow> byte list \<Rightarrow> (ike_error, byte list \<times> byte list) res" where
  "readFull n random = (if length random < n then err RandomFailure else Inr (take n random, drop n random))"

text \<open>\<open>aes.NewCipher\<close> accepts the three AES key sizes.\<close>

definition newCipher :: "byte list \<Rightarrow> (ike_error, unit) res" where
  "newCipher key = (if length key \<in> {16, 24, 32} then Inr () else err BadCipherKey)"

definition integrityMAC :: "crypto \<Rightarrow> negotiated_suite \<Rightarrow> byte list \<Rightarrow> byte list \<Rightarrow> (ike_error, byte list) res" where
  "integrityMAC cr s key packet =
    rbind (if su_integrity s = integrityHMACSHA1_96 then Inr SHA1
           else if su_integrity s = integrityHMACSHA256_128 then Inr SHA256
           else err UnsupportedSuite) (\<lambda>h.
    rbind (integrityLengths s) (\<lambda>(_, checksumLength).
      slice (hmac cr h key packet) 0 checksumLength))"

definition paddingLength :: "nat \<Rightarrow> nat" where
  "paddingLength n = (let p = 16 - (n + 1) mod 16 in if p = 16 then 0 else p)"

text \<open>
  Padding, IV, encryption, the body with its length field behind \<open>first\<close>, and the checksum over the
  packet that replaces the zeros at its end. \<open>extra\<close> is empty or the two fragment numbers.
\<close>

definition sealBody ::
  "crypto \<Rightarrow> negotiated_suite \<Rightarrow> byte list \<Rightarrow> byte list \<Rightarrow> ike_header \<Rightarrow> byte \<Rightarrow> byte list \<Rightarrow> byte list \<Rightarrow> byte list \<Rightarrow>
   (ike_error, byte list \<times> byte list) res" where
  "sealBody cr s encryptionKey integrityKey header first extra plaintext random =
    rbind (readFull (paddingLength (length plaintext)) random) (\<lambda>(padding, random).
    let padded = plaintext @ padding @ [word_of_nat (paddingLength (length plaintext))] in
    rbind (readFull 16 random) (\<lambda>(iv, random).
    rbind (cbcEncrypt (aes_encrypt cr encryptionKey) iv padded) (\<lambda>ciphertext.
    rbind (integrityLengths s) (\<lambda>(_, checksumLength).
    let skLength = 4 + length extra + length iv + length ciphertext + checksumLength in
    if skLength > 65535 then err PayloadTooLong
    else
      let body = [first, 0] @ put16 (word_of_nat skLength) @ extra @ iv @ ciphertext @ replicate checksumLength 0;
          packet = marshalHeader header body
      in rbind (slice packet 0 (length packet - checksumLength)) (\<lambda>signed.
         rbind (integrityMAC cr s integrityKey signed) (\<lambda>checksum.
           Inr (signed @ checksum, random)))))))"

definition encryptPayloads ::
  "crypto \<Rightarrow> ike_header \<Rightarrow> payload list \<Rightarrow> negotiated_suite \<Rightarrow> byte list \<Rightarrow> byte list \<Rightarrow> byte list \<Rightarrow>
   (ike_error, byte list \<times> byte list) res" where
  "encryptPayloads cr header inner s encryptionKey integrityKey random =
    rbind (marshalPayloadChain inner) (\<lambda>(first, plaintext).
    rbind (newCipher encryptionKey) (\<lambda>_.
      sealBody cr s encryptionKey integrityKey (header\<lparr>hdr_next := payloadEncrypted\<rparr>) first [] plaintext random))"

text \<open>The loop that cuts the plaintext; \<open>maxChunk\<close> is at least 64.\<close>

function chunksOf :: "nat \<Rightarrow> byte list \<Rightarrow> byte list list" where
  "chunksOf maxChunk plaintext =
    (if plaintext = [] \<or> maxChunk = 0 then []
     else take (min (length plaintext) maxChunk) plaintext # chunksOf maxChunk (drop (min (length plaintext) maxChunk) plaintext))"
  by auto
termination by (relation "measure (length \<circ> snd)") auto

declare chunksOf.simps [simp del]

fun sealFragments ::
  "crypto \<Rightarrow> negotiated_suite \<Rightarrow> byte list \<Rightarrow> byte list \<Rightarrow> ike_header \<Rightarrow> byte \<Rightarrow> 16 word \<Rightarrow> nat \<Rightarrow> byte list list \<Rightarrow> byte list \<Rightarrow>
   (ike_error, byte list list \<times> byte list) res" where
  "sealFragments cr s ek ik header first totalFragments index [] random = Inr ([], random)"
| "sealFragments cr s ek ik header first totalFragments index (chunk # chunks) random =
    (let fragNum = (word_of_nat (index + 1) :: 16 word);
         fragNext = (if fragNum = 1 then first else payloadNone)
     in rbind (sealBody cr s ek ik (header\<lparr>hdr_next := payloadEncryptedFragment\<rparr>) fragNext
                 (put16 fragNum @ put16 totalFragments) chunk random) (\<lambda>(packet, random).
        rbind (sealFragments cr s ek ik header first totalFragments (index + 1) chunks random) (\<lambda>(packets, random).
          Inr (packet # packets, random))))"

definition maximumChunk :: "int \<Rightarrow> nat \<Rightarrow> nat" where
  "maximumChunk maxFragmentSize checksumLength =
    (let size = (if maxFragmentSize \<le> 0 then 1100 else maxFragmentSize);
         maxChunk = size - 28 - 8 - 16 - 16 - int checksumLength
     in if maxChunk < 64 then 64 else nat maxChunk)"

definition encryptPayloadsFragmented ::
  "crypto \<Rightarrow> ike_header \<Rightarrow> payload list \<Rightarrow> negotiated_suite \<Rightarrow> byte list \<Rightarrow> byte list \<Rightarrow> int \<Rightarrow> byte list \<Rightarrow>
   (ike_error, byte list list \<times> byte list) res" where
  "encryptPayloadsFragmented cr header inner s encryptionKey integrityKey maxFragmentSize random =
    rbind (marshalPayloadChain inner) (\<lambda>(first, plaintext).
    rbind (newCipher encryptionKey) (\<lambda>_.
    rbind (integrityLengths s) (\<lambda>(_, checksumLength).
      let chunks = chunksOf (maximumChunk maxFragmentSize checksumLength) plaintext in
      if length chunks \<le> 1 then
        rbind (encryptPayloads cr header inner s encryptionKey integrityKey random) (\<lambda>(packet, random). Inr ([packet], random))
      else sealFragments cr s encryptionKey integrityKey header first (word_of_nat (length chunks)) 0 chunks random)))"

subsection \<open>Opening\<close>

text \<open>The checks before decryption; \<open>offset\<close> is 4, or 8 behind the fragment numbers.\<close>

definition verifyBody ::
  "crypto \<Rightarrow> negotiated_suite \<Rightarrow> byte list \<Rightarrow> byte list \<Rightarrow> byte \<Rightarrow> nat \<Rightarrow> byte list \<Rightarrow>
   (ike_error, ike_header \<times> byte list \<times> nat) res" where
  "verifyBody cr s encryptionKey integrityKey kind offset packet =
    rbind (parseIKEPacket packet) (\<lambda>(header, body).
    if hdr_next header \<noteq> kind \<or> length body < offset then err UnexpectedPacket
    else rbind (get16 body 2) (\<lambda>skLength.
    if unat skLength \<noteq> length body then err MalformedPacket
    else rbind (newCipher encryptionKey) (\<lambda>_.
    rbind (integrityLengths s) (\<lambda>(_, checksumLength).
    if length body < offset + 16 + 16 + checksumLength then err MalformedPacket
    else
      rbind (slice packet 0 (length packet - checksumLength)) (\<lambda>signed.
      rbind (integrityMAC cr s integrityKey signed) (\<lambda>expected.
      rbind (slice packet (length packet - checksumLength) (length packet)) (\<lambda>actual.
        if actual \<noteq> expected then err IntegrityMismatch
        else Inr (header, body, checksumLength))))))))"

definition decryptBody ::
  "crypto \<Rightarrow> byte list \<Rightarrow> nat \<Rightarrow> byte list \<Rightarrow> nat \<Rightarrow> (ike_error, byte list) res" where
  "decryptBody cr encryptionKey ivStart body checksumLength =
    rbind (slice body (ivStart + 16) (length body - checksumLength)) (\<lambda>ciphertext.
    if length ciphertext = 0 \<or> length ciphertext mod 16 \<noteq> 0 then err MalformedPacket
    else
      rbind (slice body ivStart (ivStart + 16)) (\<lambda>iv.
      rbind (cbcDecrypt (aes_decrypt cr encryptionKey) iv ciphertext) (\<lambda>plaintext.
      rbind (idx plaintext (length plaintext - 1)) (\<lambda>pad.
        if unat pad + 1 > length plaintext then err MalformedPacket
        else slice plaintext 0 (length plaintext - unat pad - 1)))))"

definition decryptPayloads ::
  "crypto \<Rightarrow> byte list \<Rightarrow> negotiated_suite \<Rightarrow> byte list \<Rightarrow> byte list \<Rightarrow> (ike_error, ike_header \<times> payload list) res" where
  "decryptPayloads cr packet s encryptionKey integrityKey =
    rbind (verifyBody cr s encryptionKey integrityKey payloadEncrypted 4 packet) (\<lambda>(header, body, checksumLength).
    rbind (decryptBody cr encryptionKey 4 body checksumLength) (\<lambda>plaintext.
    rbind (idx body 0) (\<lambda>first.
    rbind (parsePayloadChain first plaintext) (\<lambda>payloads.
      Inr (header, payloads)))))"

record fragment =
  fr_header :: ike_header
  fr_next :: byte
  fr_number :: "16 word"
  fr_total :: "16 word"
  fr_plaintext :: "byte list"

definition decryptSingleFragment ::
  "crypto \<Rightarrow> byte list \<Rightarrow> negotiated_suite \<Rightarrow> byte list \<Rightarrow> byte list \<Rightarrow> (ike_error, fragment) res" where
  "decryptSingleFragment cr packet s encryptionKey integrityKey =
    rbind (verifyBody cr s encryptionKey integrityKey payloadEncryptedFragment 8 packet) (\<lambda>(header, body, checksumLength).
    rbind (idx body 0) (\<lambda>fragNext.
    rbind (get16 body 4) (\<lambda>fragNum.
    rbind (get16 body 6) (\<lambda>totalFrags.
    if fragNum = 0 \<or> totalFrags = 0 \<or> fragNum > totalFrags then err MalformedPacket
    else
      rbind (decryptBody cr encryptionKey 8 body checksumLength) (\<lambda>plaintext.
        Inr \<lparr>fr_header = header, fr_next = fragNext, fr_number = fragNum, fr_total = totalFrags, fr_plaintext = plaintext\<rparr>)))))"

subsection \<open>Reassembly\<close>

record assembly =
  as_header :: "ike_header option"
  as_next :: byte
  as_total :: "16 word"
  as_plaintexts :: "(16 word \<times> byte list) list"

definition emptyAssembly :: assembly where
  "emptyAssembly = \<lparr>as_header = None, as_next = 0, as_total = 0, as_plaintexts = []\<rparr>"

definition addFragment :: "fragment \<Rightarrow> assembly \<Rightarrow> (ike_error, assembly) res" where
  "addFragment f a =
    rbind (if as_total a = 0 then Inr (a\<lparr>as_header := Some (fr_header f), as_total := fr_total f\<rparr>)
           else case as_header a of
               None \<Rightarrow> Inr a
             | Some h \<Rightarrow>
                 if fr_total f \<noteq> as_total a \<or> hdr_message (fr_header f) \<noteq> hdr_message h
                    \<or> hdr_exchange (fr_header f) \<noteq> hdr_exchange h
                 then err MalformedPacket else Inr a) (\<lambda>a.
      Inr (a\<lparr>as_next := (if fr_number f = 1 then fr_next f else as_next a),
             as_plaintexts := AList.update (fr_number f) (fr_plaintext f) (as_plaintexts a)\<rparr>))"

fun addFragments :: "crypto \<Rightarrow> negotiated_suite \<Rightarrow> byte list \<Rightarrow> byte list \<Rightarrow> byte list list \<Rightarrow> assembly \<Rightarrow> (ike_error, assembly) res" where
  "addFragments cr s ek ik [] a = Inr a"
| "addFragments cr s ek ik (packet # packets) a =
    rbind (decryptSingleFragment cr packet s ek ik) (\<lambda>f.
    rbind (addFragment f a) (\<lambda>a. addFragments cr s ek ik packets a))"

text \<open>
  \<open>for i := uint16(1); i <= totalExpected; i++\<close>: the counter wraps at 65535, so with that total the
  condition never fails and the loop ends at the missing key 0. None would be a loop that does not
  return.
\<close>

partial_function (option) joinChunks ::
  "(16 word \<times> byte list) list \<Rightarrow> 16 word \<Rightarrow> 16 word \<Rightarrow> byte list \<Rightarrow> (ike_error, byte list) res option" where
  [code]: "joinChunks plaintexts totalExpected i full =
    (if i > totalExpected then Some (Inr full)
     else case map_of plaintexts i of
         None \<Rightarrow> Some (err MalformedPacket)
       | Some chunk \<Rightarrow> joinChunks plaintexts totalExpected (i + 1) (full @ chunk))"

definition decryptPayloadsAny ::
  "crypto \<Rightarrow> byte list \<Rightarrow> byte list list \<Rightarrow> negotiated_suite \<Rightarrow> byte list \<Rightarrow> byte list \<Rightarrow>
   (ike_error, ike_header \<times> payload list) res option" where
  "decryptPayloadsAny cr packet fragments s encryptionKey integrityKey =
    (if fragments \<noteq> [] then
       (case addFragments cr s encryptionKey integrityKey fragments emptyAssembly of
          Inl f \<Rightarrow> Some (Inl f)
        | Inr a \<Rightarrow>
            if word_of_nat (length (as_plaintexts a)) \<noteq> as_total a then Some (err MalformedPacket)
            else
              Option.bind (joinChunks (as_plaintexts a) (as_total a) 1 []) (\<lambda>joined. Some (
                rbind joined (\<lambda>full.
                rbind (parsePayloadChain (as_next a) full) (\<lambda>payloads.
                  case as_header a of Some h \<Rightarrow> Inr (h, payloads) | None \<Rightarrow> err MalformedPacket)))))
     else Some (
       rbind (parseIKEPacket packet) (\<lambda>(header, _).
       if hdr_next header = payloadEncryptedFragment then
         rbind (decryptSingleFragment cr packet s encryptionKey integrityKey) (\<lambda>f.
         if fr_number f \<noteq> 1 \<or> fr_total f \<noteq> 1 then err MalformedPacket
         else rbind (parsePayloadChain (fr_next f) (fr_plaintext f)) (\<lambda>payloads. Inr (fr_header f, payloads)))
       else decryptPayloads cr packet s encryptionKey integrityKey)))"

end
