(* ===== verification/IkeCrypt_Props.thy ===== *)
theory IkeCrypt_Props
  imports IkeCrypt IkeWire_Props IkeKeys_Props
begin

text \<open>
  Properties of the encrypted payload: what is sealed opens, fragments reassemble in any order and
  with duplicates, and decryption returns on every input without a panic.
\<close>

subsection \<open>One sealed body\<close>

lemma paddingLength_aligned: "(n + paddingLength n + 1) mod 16 = 0" "paddingLength n < 16"
proof -
  define q m where "q = (n + 1) div 16" and "m = (n + 1) mod 16"
  have n: "n + 1 = 16 * q + m" "m < 16" by (simp_all add: q_def m_def)
  have p: "paddingLength n = (if m = 0 then 0 else 16 - m)" by (auto simp: paddingLength_def Let_def m_def)
  then show "paddingLength n < 16" using n(2) by auto
  have "n + paddingLength n + 1 = 16 * (if m = 0 then q else q + 1)" using n p by auto
  then show "(n + paddingLength n + 1) mod 16 = 0" by simp
qed

lemma integrityMAC_length:
  assumes "crypto_ok cr" and "integrityLengths s = Inr (kl, cl)"
  shows "\<exists>mac. integrityMAC cr s key packet = Inr mac \<and> length mac = cl"
  using assms by (auto simp: integrityMAC_def integrityLengths_def hmac_def crypto_ok_def slice_def hashSize_def split: if_splits)

lemma integrityMAC_Inr:
  assumes "crypto_ok cr" and "integrityLengths s = Inr (kl, cl)" and "integrityMAC cr s key packet = Inr mac"
  shows "length mac = cl"
  using integrityMAC_length[OF assms(1,2), of key packet] assms(3) by auto

lemma integrityLengths_bound: "integrityLengths s = Inr (kl, cl) \<Longrightarrow> cl \<le> 16"
  by (auto simp: integrityLengths_def split: if_splits)

definition headerOctets :: "ike_header \<Rightarrow> nat \<Rightarrow> byte list" where
  "headerOctets h n = hdr_initiator h @ hdr_responder h @
     [hdr_next h, if hdr_version h = 0 then 0x20 else hdr_version h, hdr_exchange h, hdr_flags h] @
     put32 (hdr_message h) @ put32 (word_of_nat (28 + n))"

lemma marshalHeader_octets: "marshalHeader h body = headerOctets h (length body) @ body"
  by (simp add: marshalHeader_def headerOctets_def Let_def)

lemma marshalHeader_append:
  assumes "length x = length y"
  shows "take (length (marshalHeader h (b @ x)) - length x) (marshalHeader h (b @ x)) @ y = marshalHeader h (b @ y)"
proof -
  have "marshalHeader h (b @ x) = (headerOctets h (length (b @ y)) @ b) @ x"
    "marshalHeader h (b @ y) = (headerOctets h (length (b @ y)) @ b) @ y"
    using assms by (simp_all add: marshalHeader_octets)
  then show ?thesis by simp
qed

lemma integrityLengths_fail: "integrityLengths s \<noteq> Inl Panic"
  by (auto simp: integrityLengths_def)

lemma sealBody_Inr:
  assumes cr: "crypto_ok cr" and s: "sealBody cr s ek ik h first extra plaintext random = Inr (packet, random')"
  obtains kl cl iv ct mac body where "integrityLengths s = Inr (kl, cl)"
    and "body = [first, 0] @ put16 (word_of_nat (length body)) @ extra @ iv @ ct @ mac"
    and "packet = marshalHeader h body" and "length iv = 16" and "length mac = cl" and "length body \<le> 65535"
    and "integrityMAC cr s ik (take (length packet - cl) packet) = Inr mac"
    and "\<exists>padding. length padding = paddingLength (length plaintext) \<and>
      cbcDecrypt (aes_decrypt cr ek) iv ct
        = (Inr (plaintext @ padding @ [word_of_nat (paddingLength (length plaintext))]) :: (ike_error, byte list) res) \<and>
      length ct = length plaintext + paddingLength (length plaintext) + 1"
proof -
  let ?p = "paddingLength (length plaintext)"
  have l1: "\<not> length random < ?p" using s by (auto simp: sealBody_def readFull_def)
  have l2: "\<not> length (drop ?p random) < 16" using s l1 by (auto simp: sealBody_def readFull_def Let_def split: if_splits)
  define padding iv where "padding = take ?p random" and "iv = take 16 (drop ?p random)"
  have pad: "length padding = ?p" and iv: "length iv = 16" using l1 l2 by (simp_all add: padding_def iv_def)
  have reads: "readFull ?p random = Inr (padding, drop ?p random)" "readFull 16 (drop ?p random) = Inr (iv, drop 16 (drop ?p random))"
    using l1 l2 by (simp_all add: readFull_def padding_def iv_def)
  have rest: "rbind (cbcEncrypt (aes_encrypt cr ek) iv (plaintext @ padding @ [word_of_nat ?p])) (\<lambda>ciphertext.
      rbind (integrityLengths s) (\<lambda>(_, cl).
      let skLength = 4 + length extra + length iv + length ciphertext + cl in
      if skLength > 65535 then err PayloadTooLong
      else let body = [first, 0] @ put16 (word_of_nat skLength) @ extra @ iv @ ciphertext @ replicate cl 0;
               packet = marshalHeader h body
        in rbind (slice packet 0 (length packet - cl)) (\<lambda>signed.
           rbind (integrityMAC cr s ik signed) (\<lambda>checksum. Inr (signed @ checksum, drop 16 (drop ?p random)))))) = Inr (packet, random')"
    using s unfolding sealBody_def reads rbind.simps case_prod_conv Let_def .
  let ?pt = "plaintext @ padding @ [word_of_nat ?p]"
  have al: "length ?pt mod 16 = 0" using paddingLength_aligned[of "length plaintext"] pad by simp
  have "\<exists>ct. cbcEncrypt (aes_encrypt cr ek) iv ?pt = (Inr ct :: (ike_error, byte list) res) \<and> length ct = length ?pt \<and>
      cbcDecrypt (aes_decrypt cr ek) iv ct = (Inr ?pt :: (ike_error, byte list) res)"
    by (rule cbc_roundtrip[OF cr iv al])
  then obtain ct where ct: "cbcEncrypt (aes_encrypt cr ek) iv ?pt = (Inr ct :: (ike_error, byte list) res)" "length ct = length ?pt"
    and dec: "cbcDecrypt (aes_decrypt cr ek) iv ct = (Inr ?pt :: (ike_error, byte list) res)" by blast
  obtain kl cl where il: "integrityLengths s = Inr (kl, cl)"
    using rest ct(1) by (auto simp: rbind_Inr_iff)
  define pre where "pre = [first, 0] @ put16 (word_of_nat (4 + length extra + length iv + length ct + cl)) @ extra @ iv @ ct"
  obtain mac where small: "4 + length extra + length iv + length ct + cl \<le> 65535"
    and mac: "integrityMAC cr s ik (take (length (marshalHeader h (pre @ replicate cl 0)) - cl) (marshalHeader h (pre @ replicate cl 0))) = Inr mac"
    and pk: "packet = take (length (marshalHeader h (pre @ replicate cl 0)) - cl) (marshalHeader h (pre @ replicate cl 0)) @ mac"
    using rest ct(1) il by (auto simp: Let_def slice_def pre_def rbind_Inr_iff split: if_splits)
  have lm: "length mac = cl" by (rule integrityMAC_Inr[OF cr il mac])
  have packet: "packet = marshalHeader h (pre @ mac)" using marshalHeader_append[of "replicate cl 0" mac h pre] lm pk by simp
  have len: "length (pre @ mac) = 4 + length extra + length iv + length ct + cl" by (simp add: pre_def lm)
  have signed: "take (length packet - cl) packet = take (length (marshalHeader h (pre @ replicate cl 0)) - cl) (marshalHeader h (pre @ replicate cl 0))"
    using pk lm by simp
  show thesis
  proof (rule that[OF il])
    show "pre @ mac = [first, 0] @ put16 (word_of_nat (length (pre @ mac))) @ extra @ iv @ ct @ mac"
      unfolding len by (simp add: pre_def)
    show "packet = marshalHeader h (pre @ mac)" by (rule packet)
    show "length iv = 16" "length mac = cl" by (rule iv lm)+
    show "length (pre @ mac) \<le> 65535" unfolding len by (rule small)
    show "integrityMAC cr s ik (take (length packet - cl) packet) = Inr mac" unfolding signed by (rule mac)
    show "\<exists>padding. length padding = ?p \<and> cbcDecrypt (aes_decrypt cr ek) iv ct = (Inr (plaintext @ padding @ [word_of_nat ?p]) :: (ike_error, byte list) res)
        \<and> length ct = length plaintext + ?p + 1"
      using dec pad ct(2) by (intro exI[of _ padding]) simp
  qed
qed

definition openedHeader :: "ike_header \<Rightarrow> nat \<Rightarrow> ike_header" where
  "openedHeader h n = h\<lparr>hdr_version := if hdr_version h = 0 then 0x20 else hdr_version h, hdr_length := word_of_nat (28 + n)\<rparr>"

lemma open_sealBody:
  assumes cr: "crypto_ok cr" and h: "header_ok h" and key: "newCipher ek = Inr ()"
    and s: "sealBody cr s ek ik h first extra plaintext random = Inr (packet, random')"
  shows "\<exists>body cl rest. verifyBody cr s ek ik (hdr_next h) (4 + length extra) packet = Inr (openedHeader h (length body), body, cl)
    \<and> decryptBody cr ek (4 + length extra) body cl = Inr plaintext
    \<and> body = [first, 0] @ put16 (word_of_nat (length body)) @ extra @ rest
    \<and> parseIKEPacket packet = Inr (openedHeader h (length body), body)"
proof -
  let ?p = "paddingLength (length plaintext)"
  obtain kl cl iv ct mac body where il: "integrityLengths s = Inr (kl, cl)"
    and body: "body = [first, 0] @ put16 (word_of_nat (length body)) @ extra @ iv @ ct @ mac"
    and packet: "packet = marshalHeader h body" and iv: "length iv = 16" and lm: "length mac = cl" and lb: "length body \<le> 65535"
    and mac: "integrityMAC cr s ik (take (length packet - cl) packet) = Inr mac"
    and dec0: "\<exists>padding. length padding = ?p \<and> cbcDecrypt (aes_decrypt cr ek) iv ct
        = (Inr (plaintext @ padding @ [word_of_nat ?p]) :: (ike_error, byte list) res) \<and> length ct = length plaintext + ?p + 1"
    using sealBody_Inr[OF cr s] .
  then obtain padding where lp: "length padding = ?p"
    and dec: "cbcDecrypt (aes_decrypt cr ek) iv ct = (Inr (plaintext @ padding @ [word_of_nat ?p]) :: (ike_error, byte list) res)"
    and lct: "length ct = length plaintext + ?p + 1" by blast
  have parse: "parseIKEPacket packet = Inr (openedHeader h (length body), body)"
    unfolding packet openedHeader_def by (rule parseIKEPacket_marshalHeader[OF h]) (use lb in simp)
  define pre where "pre = [first, 0] @ put16 (word_of_nat (length body)) @ extra"
  have lpre: "length pre = 4 + length extra" by (simp add: pre_def)
  have b: "body = pre @ iv @ ct @ mac" using body by (simp add: pre_def)
  have len: "length body = 4 + length extra + 16 + length ct + cl" unfolding b using lpre iv lm by simp
  have l16: "(get16 body 2 :: (ike_error, 16 word) res) = Inr (word_of_nat (length body))"
    by (subst body) (simp add: get16_def put16_def)
  have u16: "unat (word_of_nat (length body) :: 16 word) = length body" using lb by (intro unat_of_nat16) simp
  have al: "length ct mod 16 = 0" "length ct \<noteq> 0" "16 \<le> length ct"
    using paddingLength_aligned(1)[of "length plaintext"] lct by (auto dest: dvd_imp_le)
  have lpk: "cl \<le> length packet" unfolding packet marshalHeader_octets using len by simp
  have tail: "drop (length packet - cl) packet = mac"
  proof -
    have "packet = (headerOctets h (length body) @ pre @ iv @ ct) @ mac"
      unfolding packet marshalHeader_octets using b by simp
    then show ?thesis using lm by (simp del: append_assoc)
  qed
  have next_: "hdr_next (openedHeader h (length body)) = hdr_next h" by (simp add: openedHeader_def)
  have verify: "verifyBody cr s ek ik (hdr_next h) (4 + length extra) packet = Inr (openedHeader h (length body), body, cl)"
    unfolding verifyBody_def parse rbind.simps case_prod_conv next_ l16 u16 key il
    using len al lpk tail mac lm by (simp add: slice_def)
  have "(slice body (4 + length extra + 16) (length body - cl) :: (ike_error, byte list) res) = Inr ct"
    unfolding b using lpre iv lm by (simp add: slice_def)
  moreover have "(slice body (4 + length extra) (4 + length extra + 16) :: (ike_error, byte list) res) = Inr iv"
    unfolding b using lpre iv by (simp add: slice_def)
  moreover have "unat (word_of_nat ?p :: byte) = ?p" using paddingLength_aligned(2)[of "length plaintext"] by (intro unat_of_nat8) simp
  ultimately have "decryptBody cr ek (4 + length extra) body cl = Inr plaintext"
    unfolding decryptBody_def using al dec lp by (simp add: idx_def slice_def nth_append)
  then show ?thesis using verify parse body by blast
qed

lemma decryptPayloads_sealed:
  assumes cr: "crypto_ok cr" and h: "header_ok h" and inner: "length inner \<le> 64"
    and e: "encryptPayloads cr h inner s ek ik random = Inr (packet, random')"
  shows "\<exists>h'. decryptPayloads cr packet s ek ik = Inr (h', inner) \<and> hdr_message h' = hdr_message h \<and> hdr_exchange h' = hdr_exchange h
    \<and> (\<exists>body. parseIKEPacket packet = Inr (h', body)) \<and> hdr_next h' = payloadEncrypted"
proof -
  obtain first pt where m: "marshalPayloadChain inner = Inr (first, pt)" and key: "newCipher ek = Inr ()"
    and sb: "sealBody cr s ek ik (h\<lparr>hdr_next := payloadEncrypted\<rparr>) first [] pt random = Inr (packet, random')"
    using e by (auto simp: encryptPayloads_def rbind_Inr_iff)
  have h': "header_ok (h\<lparr>hdr_next := payloadEncrypted\<rparr>)" using h by (simp add: header_ok_def)
  obtain body cl rest where v: "verifyBody cr s ek ik payloadEncrypted 4 packet = Inr (openedHeader (h\<lparr>hdr_next := payloadEncrypted\<rparr>) (length body), body, cl)"
    and d: "decryptBody cr ek 4 body cl = Inr pt" and b: "body = [first, 0] @ put16 (word_of_nat (length body)) @ rest"
    and p: "parseIKEPacket packet = Inr (openedHeader (h\<lparr>hdr_next := payloadEncrypted\<rparr>) (length body), body)"
    using open_sealBody[OF cr h' key sb] by auto
  have "(idx body 0 :: (ike_error, byte) res) = Inr first" by (subst b) (simp add: idx_def)
  then show ?thesis
    using v d p parsePayloadChain_marshal[OF m inner] by (simp add: decryptPayloads_def openedHeader_def)
qed

subsection \<open>Fragments\<close>

lemma concat_chunksOf: "0 < m \<Longrightarrow> concat (chunksOf m xs) = xs"
  by (induction m xs rule: chunksOf.induct) (subst chunksOf.simps, auto)

lemma decryptSingle_sealed:
  assumes cr: "crypto_ok cr" and h: "header_ok h" and key: "newCipher ek = Inr ()"
    and n: "0 < num" "num \<le> tot"
    and sb: "sealBody cr s ek ik (h\<lparr>hdr_next := payloadEncryptedFragment\<rparr>) first (put16 num @ put16 tot) chunk random = Inr (packet, random')"
  shows "\<exists>h'. decryptSingleFragment cr packet s ek ik = Inr \<lparr>fr_header = h', fr_next = first, fr_number = num, fr_total = tot, fr_plaintext = chunk\<rparr>
    \<and> hdr_message h' = hdr_message h \<and> hdr_exchange h' = hdr_exchange h"
proof -
  have h': "header_ok (h\<lparr>hdr_next := payloadEncryptedFragment\<rparr>)" using h by (simp add: header_ok_def)
  obtain body cl rest where v: "verifyBody cr s ek ik payloadEncryptedFragment 8 packet = Inr (openedHeader (h\<lparr>hdr_next := payloadEncryptedFragment\<rparr>) (length body), body, cl)"
    and d: "decryptBody cr ek 8 body cl = Inr chunk"
    and b: "body = [first, 0] @ put16 (word_of_nat (length body)) @ (put16 num @ put16 tot) @ rest"
    using open_sealBody[OF cr h' key sb] by auto
  have "(idx body 0 :: (ike_error, byte) res) = Inr first" by (subst b) (simp add: idx_def)
  moreover have "(get16 body 4 :: (ike_error, 16 word) res) = Inr num" by (subst b) (simp add: get16_def put16_def)
  moreover have "(get16 body 6 :: (ike_error, 16 word) res) = Inr tot" by (subst b) (simp add: get16_def put16_def)
  moreover have "\<not> (num = 0 \<or> tot = 0 \<or> num > tot)" using n by auto
  ultimately show ?thesis
    using v d by (auto simp: decryptSingleFragment_def openedHeader_def)
qed

lemma sealFragments_nth:
  assumes "sealFragments cr s ek ik h first tot index chunks random = Inr (packets, random')"
  shows "length packets = length chunks \<and> (\<forall>i < length chunks. \<exists>r r'.
    sealBody cr s ek ik (h\<lparr>hdr_next := payloadEncryptedFragment\<rparr>)
      (if (word_of_nat (index + i + 1) :: 16 word) = 1 then first else payloadNone)
      (put16 (word_of_nat (index + i + 1)) @ put16 tot) (chunks ! i) r = Inr (packets ! i, r'))"
  using assms
proof (induction chunks arbitrary: index random packets)
  case Nil
  then show ?case by simp
next
  case (Cons chunk chunks)
  obtain packet r1 ps where one: "sealBody cr s ek ik (h\<lparr>hdr_next := payloadEncryptedFragment\<rparr>)
      (if (word_of_nat (index + 1) :: 16 word) = 1 then first else payloadNone)
      (put16 (word_of_nat (index + 1)) @ put16 tot) chunk random = Inr (packet, r1)"
    and more: "sealFragments cr s ek ik h first tot (index + 1) chunks r1 = Inr (ps, random')" and p: "packets = packet # ps"
    using Cons.prems by (auto simp: Let_def rbind_Inr_iff)
  have IH: "length ps = length chunks" "\<forall>i < length chunks. \<exists>r r'.
    sealBody cr s ek ik (h\<lparr>hdr_next := payloadEncryptedFragment\<rparr>)
      (if (word_of_nat (Suc index + i + 1) :: 16 word) = 1 then first else payloadNone)
      (put16 (word_of_nat (Suc index + i + 1)) @ put16 tot) (chunks ! i) r = Inr (ps ! i, r')"
    using Cons.IH[OF more] by simp_all
  show ?case
  proof (intro conjI allI impI)
    show "length packets = length (chunk # chunks)" using IH(1) p by simp
    fix i assume i: "i < length (chunk # chunks)"
    show "\<exists>r r'. sealBody cr s ek ik (h\<lparr>hdr_next := payloadEncryptedFragment\<rparr>)
      (if (word_of_nat (index + i + 1) :: 16 word) = 1 then first else payloadNone)
      (put16 (word_of_nat (index + i + 1)) @ put16 tot) ((chunk # chunks) ! i) r = Inr (packets ! i, r')"
    proof (cases i)
      case 0
      show ?thesis unfolding 0 p add_0_right nth_Cons_0 using one by blast
    next
      case (Suc j)
      then have "j < length chunks" using i by simp
      moreover have "Suc index + j + 1 = index + i + 1" using Suc by simp
      ultimately show ?thesis using IH(2) p Suc by (metis nth_Cons_Suc)
    qed
  qed
qed

text \<open>
  A sealed message in \<open>n\<close> fragments, seen by the receiver: packet \<open>i\<close> decrypts to fragment \<open>i + 1\<close>.
\<close>

definition fragmentsOf :: "crypto \<Rightarrow> negotiated_suite \<Rightarrow> byte list \<Rightarrow> byte list \<Rightarrow> ike_header \<Rightarrow> byte \<Rightarrow> byte list list \<Rightarrow> byte list list \<Rightarrow> bool" where
  "fragmentsOf cr s ek ik h first chunks packets \<longleftrightarrow> length packets = length chunks \<and>
    (\<forall>i < length chunks. \<exists>f. decryptSingleFragment cr (packets ! i) s ek ik = Inr f \<and>
       hdr_message (fr_header f) = hdr_message h \<and> hdr_exchange (fr_header f) = hdr_exchange h \<and>
       fr_number f = word_of_nat (i + 1) \<and> fr_total f = word_of_nat (length chunks) \<and> fr_plaintext f = chunks ! i \<and>
       (i = 0 \<longrightarrow> fr_next f = first))"

lemma word16_le: "a \<le> b \<Longrightarrow> b < 65536 \<Longrightarrow> (word_of_nat a :: 16 word) \<le> word_of_nat b"
  by (simp add: word_le_nat_alt unat_of_nat16)

lemma word16_eq: "a < 65536 \<Longrightarrow> b < 65536 \<Longrightarrow> (word_of_nat a :: 16 word) = word_of_nat b \<longleftrightarrow> a = b"
  by (metis unat_of_nat16)

lemma sealFragments_fragmentsOf:
  assumes cr: "crypto_ok cr" and h: "header_ok h" and key: "newCipher ek = Inr ()" and n: "length chunks < 65536"
    and s: "sealFragments cr s ek ik h first (word_of_nat (length chunks)) 0 chunks random = Inr (packets, random')"
  shows "fragmentsOf cr s ek ik h first chunks packets"
  unfolding fragmentsOf_def
proof (intro conjI allI impI)
  show "length packets = length chunks" using sealFragments_nth[OF s] by blast
  fix i assume i: "i < length chunks"
  then obtain r r' where sb: "sealBody cr s ek ik (h\<lparr>hdr_next := payloadEncryptedFragment\<rparr>)
      (if (word_of_nat (i + 1) :: 16 word) = 1 then first else payloadNone)
      (put16 (word_of_nat (i + 1)) @ put16 (word_of_nat (length chunks))) (chunks ! i) r = Inr (packets ! i, r')"
    using sealFragments_nth[OF s] by fastforce
  have "(0 :: 16 word) < word_of_nat (i + 1)" using i n by (simp add: word_less_nat_alt unat_of_nat16 del: of_nat_add of_nat_Suc)
  moreover have "(word_of_nat (i + 1) :: 16 word) \<le> word_of_nat (length chunks)" using i n by (intro word16_le) auto
  moreover have "i = 0 \<Longrightarrow> (word_of_nat (i + 1) :: 16 word) = 1" by simp
  ultimately show "\<exists>f. decryptSingleFragment cr (packets ! i) s ek ik = Inr f \<and>
       hdr_message (fr_header f) = hdr_message h \<and> hdr_exchange (fr_header f) = hdr_exchange h \<and>
       fr_number f = word_of_nat (i + 1) \<and> fr_total f = word_of_nat (length chunks) \<and> fr_plaintext f = chunks ! i \<and>
       (i = 0 \<longrightarrow> fr_next f = first)"
    using decryptSingle_sealed[OF cr h key _ _ sb] by fastforce
qed

subsection \<open>Reassembly\<close>

text \<open>What has been collected after fragments with the indices in \<open>I\<close>.\<close>

definition collected :: "ike_header \<Rightarrow> byte \<Rightarrow> byte list list \<Rightarrow> nat set \<Rightarrow> assembly \<Rightarrow> bool" where
  "collected h first chunks I a \<longleftrightarrow>
     distinct (keys (as_plaintexts a)) \<and>
     map_of (as_plaintexts a) = (\<lambda>k. if unat k \<in> Suc ` I then Some (chunks ! (unat k - 1)) else None) \<and>
     (0 \<in> I \<longrightarrow> as_next a = first) \<and>
     (if I = {} then as_total a = 0
      else as_total a = word_of_nat (length chunks) \<and> (\<exists>h'. as_header a = Some h' \<and>
        hdr_message h' = hdr_message h \<and> hdr_exchange h' = hdr_exchange h))"

lemma collected_add:
  assumes c: "collected h first chunks I a" and n: "i < length chunks" "length chunks < 65536"
    and f: "hdr_message (fr_header f) = hdr_message h" "hdr_exchange (fr_header f) = hdr_exchange h"
      "fr_number f = word_of_nat (i + 1)" "fr_total f = word_of_nat (length chunks)" "fr_plaintext f = chunks ! i" "i = 0 \<longrightarrow> fr_next f = first"
  shows "\<exists>a'. addFragment f a = Inr a' \<and> collected h first chunks (insert i I) a'"
proof -
  have u: "unat (fr_number f) = i + 1" unfolding f(3) using n by (intro unat_of_nat16) simp
  have one: "fr_number f = 1 \<longleftrightarrow> i = 0" using u by (metis add_cancel_left_left unsigned_1 word_unat_eq_iff)
  have t: "fr_total f \<noteq> 0" unfolding f(4) using n word16_eq[of "length chunks" 0] by auto
  have m: "map_of (AList.update (fr_number f) (fr_plaintext f) (as_plaintexts a))
      = (\<lambda>k. if unat k \<in> Suc ` insert i I then Some (chunks ! (unat k - 1)) else None)"
  proof
    fix k show "map_of (AList.update (fr_number f) (fr_plaintext f) (as_plaintexts a)) k
      = (if unat k \<in> Suc ` insert i I then Some (chunks ! (unat k - 1)) else None)"
    proof (cases "k = fr_number f")
      case True
      then show ?thesis using u f(5) by simp
    next
      case False
      then have "unat k \<noteq> Suc i" using u by (metis Suc_eq_plus1 word_unat_eq_iff)
      then show ?thesis using False c by (simp add: collected_def)
    qed
  qed
  show ?thesis
  proof (cases "I = {}")
    case True
    then have "as_total a = 0" using c by (simp add: collected_def)
    then show ?thesis
      using m c one f(1,2,4,6) by (auto simp: addFragment_def collected_def)
  next
    case False
    then obtain h' where "as_total a = word_of_nat (length chunks)" "as_header a = Some h'"
        "hdr_message h' = hdr_message h" "hdr_exchange h' = hdr_exchange h"
      using c by (auto simp: collected_def)
    then show ?thesis
      using m c one t f(1,2,4,6) False by (auto simp: addFragment_def collected_def)
  qed
qed

lemma collected_all:
  assumes fr: "fragmentsOf cr s ek ik h first chunks packets" and n: "length chunks < 65536"
    and c: "collected h first chunks I a" and set: "set frags \<subseteq> set packets"
  shows "\<exists>a'. addFragments cr s ek ik frags a = Inr a' \<and> (\<exists>J. collected h first chunks J a' \<and> I \<subseteq> J \<and> J \<subseteq> I \<union> {..<length chunks}
    \<and> (\<forall>i < length chunks. packets ! i \<in> set frags \<longrightarrow> (\<exists>j \<in> J. j < length chunks \<and> packets ! j = packets ! i)))"
  using c set
proof (induction frags arbitrary: a I)
  case Nil
  then show ?case by auto
next
  case (Cons p frags)
  then obtain i where i: "i < length chunks" "p = packets ! i"
    using fr by (auto simp: fragmentsOf_def in_set_conv_nth)
  then obtain f where f: "decryptSingleFragment cr p s ek ik = Inr f" "hdr_message (fr_header f) = hdr_message h" "hdr_exchange (fr_header f) = hdr_exchange h"
      "fr_number f = word_of_nat (i + 1)" "fr_total f = word_of_nat (length chunks)" "fr_plaintext f = chunks ! i" "i = 0 \<longrightarrow> fr_next f = first"
    using fr unfolding fragmentsOf_def by blast
  obtain a1 where a1: "addFragment f a = Inr a1" "collected h first chunks (insert i I) a1"
    using collected_add[OF Cons.prems(1) i(1) n f(2-7)] by blast
  obtain a2 J where a2: "addFragments cr s ek ik frags a1 = Inr a2" "collected h first chunks J a2" "insert i I \<subseteq> J" "J \<subseteq> insert i I \<union> {..<length chunks}"
      "\<forall>i < length chunks. packets ! i \<in> set frags \<longrightarrow> (\<exists>j \<in> J. j < length chunks \<and> packets ! j = packets ! i)"
    using Cons.IH[OF a1(2)] Cons.prems(2) by auto
  have "addFragments cr s ek ik (p # frags) a = Inr a2" using f(1) a1(1) a2(1) by simp
  moreover have "I \<subseteq> J" "J \<subseteq> I \<union> {..<length chunks}" using a2(3,4) i(1) by auto
  moreover have "\<forall>k < length chunks. packets ! k \<in> set (p # frags) \<longrightarrow> (\<exists>j \<in> J. j < length chunks \<and> packets ! j = packets ! k)"
    using a2(3,5) i by auto
  ultimately show ?case using a2(2) by blast
qed

lemma joinChunks_collected:
  assumes n: "length chunks < 65535" and k: "k \<le> length chunks"
    and m: "map_of pts = (\<lambda>k. if unat k \<in> Suc ` {..<length chunks} then Some (chunks ! (unat k - 1)) else None)"
  shows "joinChunks pts (word_of_nat (length chunks)) (word_of_nat (k + 1)) full = Some (Inr (full @ concat (drop k chunks)))"
  using k
proof (induction "length chunks - k" arbitrary: k full)
  case 0
  then have "k = length chunks" by simp
  moreover have "(word_of_nat (length chunks + 1) :: 16 word) > word_of_nat (length chunks)"
    using n by (simp add: word_less_nat_alt unat_of_nat16 del: of_nat_add of_nat_Suc)
  ultimately show ?case by (subst joinChunks.simps) simp
next
  case (Suc d)
  then have k: "k < length chunks" by simp
  have u: "unat (word_of_nat (k + 1) :: 16 word) = k + 1" using k n by (intro unat_of_nat16) simp
  have le: "\<not> (word_of_nat (k + 1) :: 16 word) > word_of_nat (length chunks)"
    using k n word16_le[of "k + 1" "length chunks"] by auto
  have lookup: "map_of pts (word_of_nat (k + 1)) = Some (chunks ! k)" unfolding m u using k by auto
  have next_: "(word_of_nat (k + 1) + 1 :: 16 word) = word_of_nat (Suc k + 1)" by simp
  have "joinChunks pts (word_of_nat (length chunks)) (word_of_nat (k + 1)) full
      = joinChunks pts (word_of_nat (length chunks)) (word_of_nat (Suc k + 1)) (full @ chunks ! k)"
    by (subst joinChunks.simps) (simp only: le lookup if_False option.case next_)
  also have "\<dots> = Some (Inr ((full @ chunks ! k) @ concat (drop (Suc k) chunks)))"
    using Suc by (intro Suc.hyps(1)) auto
  finally show ?case by (simp add: k Cons_nth_drop_Suc[symmetric])
qed

lemma fragmentsOf_distinct:
  assumes fr: "fragmentsOf cr s ek ik h first chunks packets" and n: "length chunks < 65535"
    and i: "i < length chunks" "j < length chunks" "packets ! i = packets ! j"
  shows "i = j"
proof -
  obtain f where f: "decryptSingleFragment cr (packets ! i) s ek ik = Inr f" "fr_number f = word_of_nat (i + 1)"
    using fr i(1) unfolding fragmentsOf_def by blast
  obtain g where g: "decryptSingleFragment cr (packets ! j) s ek ik = Inr g" "fr_number g = word_of_nat (j + 1)"
    using fr i(2) unfolding fragmentsOf_def by blast
  have "f = g" using f(1) g(1) i(3) by simp
  then have "(word_of_nat (i + 1) :: 16 word) = word_of_nat (j + 1)" using f(2) g(2) by (simp only:)
  moreover have "i + 1 < 65536" "j + 1 < 65536" using i(1,2) n by linarith+
  ultimately have "i + 1 = j + 1" using word16_eq by blast
  then show ?thesis by (rule add_right_imp_eq)
qed

lemma keys_of_range:
  assumes d: "distinct (keys pts)" and n: "n < 65535"
    and m: "map_of pts = (\<lambda>k. if unat (k :: 16 word) \<in> Suc ` {..<n} then Some (f k) else None)"
  shows "length pts = n"
proof -
  have "unat ` set (keys pts) = Suc ` {..<n}"
  proof (intro equalityI subsetI)
    fix x assume "x \<in> unat ` set (keys pts)"
    then obtain k where "k \<in> dom (map_of pts)" "x = unat k" by (auto simp: dom_map_of_conv_image_fst)
    then show "x \<in> Suc ` {..<n}" unfolding m by (auto split: if_splits)
  next
    fix x assume x: "x \<in> Suc ` {..<n}"
    then have u: "unat (word_of_nat x :: 16 word) = x" using n by (intro unat_of_nat16) auto
    then have "word_of_nat x \<in> dom (map_of pts)" unfolding m dom_def using x by simp
    then have "word_of_nat x \<in> set (keys pts)" by (simp add: dom_map_of_conv_image_fst)
    then show "x \<in> unat ` set (keys pts)" using u by force
  qed
  then have "card (unat ` set (keys pts)) = n" by (simp add: card_image)
  moreover have "card (unat ` set (keys pts)) = card (set (keys pts))" by (intro card_image inj_onI) (simp add: word_unat_eq_iff)
  ultimately show ?thesis using distinct_card[OF d] by simp
qed

lemma reassembled:
  assumes fr: "fragmentsOf cr s ek ik h first chunks packets" and n: "0 < length chunks" "length chunks < 65535"
    and eq: "set frags = set packets" and p: "parsePayloadChain first (concat chunks) = Inr inner"
  shows "\<exists>h'. decryptPayloadsAny cr packet frags s ek ik = Some (Inr (h', inner)) \<and> hdr_message h' = hdr_message h \<and> hdr_exchange h' = hdr_exchange h"
proof -
  have empty: "collected h first chunks {} emptyAssembly" by (simp add: collected_def emptyAssembly_def)
  have n': "length chunks < 65536" using n by simp
  obtain a J where a: "addFragments cr s ek ik frags emptyAssembly = Inr a" and c: "collected h first chunks J a" and J: "J \<subseteq> {..<length chunks}"
      and all: "\<forall>i < length chunks. packets ! i \<in> set frags \<longrightarrow> (\<exists>j \<in> J. j < length chunks \<and> packets ! j = packets ! i)"
    using collected_all[OF fr n' empty equalityD1[OF eq]] by auto
  have lp: "length packets = length chunks" using fr by (simp add: fragmentsOf_def)
  have "{..<length chunks} \<subseteq> J"
  proof
    fix i assume "i \<in> {..<length chunks}"
    then have i: "i < length chunks" "packets ! i \<in> set frags" using lp eq by simp_all
    then obtain j where "j \<in> J" "j < length chunks" "packets ! j = packets ! i" using all by blast
    then show "i \<in> J" using fragmentsOf_distinct[OF fr n(2) _ i(1)] by metis
  qed
  then have Jeq: "J = {..<length chunks}" using J by blast
  then have ne: "J \<noteq> {}" using n by auto
  then obtain h' where t: "as_total a = word_of_nat (length chunks)" "as_header a = Some h'" "hdr_message h' = hdr_message h" "hdr_exchange h' = hdr_exchange h"
      and first: "as_next a = first" and d: "distinct (keys (as_plaintexts a))"
      and m: "map_of (as_plaintexts a) = (\<lambda>k. if unat k \<in> Suc ` {..<length chunks} then Some (chunks ! (unat k - 1)) else None)"
    using c n(1) unfolding collected_def Jeq by auto
  have len: "length (as_plaintexts a) = length chunks" by (rule keys_of_range[OF d n(2) m])
  have j: "joinChunks (as_plaintexts a) (word_of_nat (length chunks)) 1 [] = Some (Inr (concat chunks))"
    using joinChunks_collected[OF n(2) _ m, of 0 "[]"] by simp
  have "frags \<noteq> []" using eq n(1) lp by auto
  then show ?thesis using a t first j p len by (simp add: decryptPayloadsAny_def)
qed

subsection \<open>Sealing succeeds and fits\<close>

lemma sealBody_packet_length:
  assumes cr: "crypto_ok cr" and h: "header_ok h" and il: "integrityLengths s = Inr (kl, cl)"
    and s: "sealBody cr s ek ik h first extra plaintext random = Inr (packet, random')"
  shows "length packet \<le> 28 + 4 + length extra + 16 + length plaintext + 16 + cl"
proof -
  obtain kl' cl' iv ct mac body where il': "integrityLengths s = Inr (kl', cl')"
    and body: "body = [first, 0] @ put16 (word_of_nat (length body)) @ extra @ iv @ ct @ mac"
    and packet: "packet = marshalHeader h body" and iv: "length iv = 16" and lm: "length mac = cl'"
    and dec: "\<exists>padding. length padding = paddingLength (length plaintext) \<and> cbcDecrypt (aes_decrypt cr ek) iv ct
        = (Inr (plaintext @ padding @ [word_of_nat (paddingLength (length plaintext))]) :: (ike_error, byte list) res)
        \<and> length ct = length plaintext + paddingLength (length plaintext) + 1"
    using sealBody_Inr[OF cr s] .
  have "length body = 4 + length extra + 16 + length ct + cl'" by (subst body) (simp add: iv lm)
  moreover have "length packet = 28 + length body" using h by (simp add: packet marshalHeader_octets headerOctets_def header_ok_def)
  moreover have "cl' = cl" using il il' by simp
  moreover have "length ct \<le> length plaintext + 16" using dec paddingLength_aligned(2)[of "length plaintext"] by auto
  ultimately show ?thesis by linarith
qed

lemma chunksOf_bound: "c \<in> set (chunksOf m xs) \<Longrightarrow> 0 < length c \<and> length c \<le> m"
proof (induction m xs rule: chunksOf.induct)
  case (1 m xs)
  show ?case
  proof (cases "xs = [] \<or> m = 0")
    case True
    then show ?thesis using 1(2) by (subst (asm) chunksOf.simps) simp
  next
    case False
    then have "c = take (min (length xs) m) xs \<or> c \<in> set (chunksOf m (drop (min (length xs) m) xs))"
      using 1(2) by (subst (asm) chunksOf.simps) simp
    moreover have "0 < min (length xs) m" using False by simp
    ultimately show ?thesis using 1(1)[OF False] by (auto simp del: min_less_iff_conj)
  qed
qed

lemma maximumChunk_fits:
  assumes "148 \<le> limit" and "limit = (if maxFragmentSize \<le> 0 then 1100 else maxFragmentSize)" and "cl \<le> 16"
  shows "int (28 + 8 + 16 + maximumChunk maxFragmentSize cl + 16 + cl) \<le> limit"
  using assms by (auto simp: maximumChunk_def Let_def split: if_splits)

lemma encryptPayloadsFragmented_Inr:
  assumes "encryptPayloadsFragmented cr header inner s ek ik mfs random = Inr (packets, random')"
  obtains first plaintext kl cl chunks where "marshalPayloadChain inner = Inr (first, plaintext)" and "newCipher ek = Inr ()"
    and "integrityLengths s = Inr (kl, cl)" and "chunks = chunksOf (maximumChunk mfs cl) plaintext"
    and "(\<exists>packet. length chunks \<le> 1 \<and> packets = [packet] \<and> encryptPayloads cr header inner s ek ik random = Inr (packet, random')) \<or>
      (2 \<le> length chunks \<and> sealFragments cr s ek ik header first (word_of_nat (length chunks)) 0 chunks random = Inr (packets, random'))"
proof -
  obtain first plaintext kl cl where m: "marshalPayloadChain inner = Inr (first, plaintext)" and key: "newCipher ek = Inr ()"
    and il: "integrityLengths s = Inr (kl, cl)"
    using assms by (auto simp: encryptPayloadsFragmented_def rbind_Inr_iff)
  define chunks where "chunks = chunksOf (maximumChunk mfs cl) plaintext"
  have r: "(if length chunks \<le> 1 then rbind (encryptPayloads cr header inner s ek ik random) (\<lambda>(packet, random). Inr ([packet], random))
      else sealFragments cr s ek ik header first (word_of_nat (length chunks)) 0 chunks random) = Inr (packets, random')"
    using assms unfolding encryptPayloadsFragmented_def m key il rbind.simps case_prod_conv Let_def chunks_def .
  show thesis
  proof (rule that[OF m key il chunks_def], cases "length chunks \<le> 1")
    case True
    then show "(\<exists>packet. length chunks \<le> 1 \<and> packets = [packet] \<and> encryptPayloads cr header inner s ek ik random = Inr (packet, random')) \<or>
      (2 \<le> length chunks \<and> sealFragments cr s ek ik header first (word_of_nat (length chunks)) 0 chunks random = Inr (packets, random'))"
      using r by (auto simp: rbind_Inr_iff)
  next
    case False
    then show "(\<exists>packet. length chunks \<le> 1 \<and> packets = [packet] \<and> encryptPayloads cr header inner s ek ik random = Inr (packet, random')) \<or>
      (2 \<le> length chunks \<and> sealFragments cr s ek ik header first (word_of_nat (length chunks)) 0 chunks random = Inr (packets, random'))"
      using r by simp
  qed
qed

lemma sealBody_returns:
  assumes cr: "crypto_ok cr" and il: "integrityLengths s = Inr (kl, cl)"
    and r: "31 \<le> length random" and n: "length extra + length plaintext \<le> 65000"
  shows "\<exists>packet random'. sealBody cr s ek ik h first extra plaintext random = Inr (packet, random') \<and> length random \<le> length random' + 31"
proof -
  let ?p = "paddingLength (length plaintext)"
  have p: "?p < 16" by (rule paddingLength_aligned)
  let ?pt = "plaintext @ take ?p random @ [word_of_nat ?p]"
  let ?iv = "take 16 (drop ?p random)"
  have reads: "readFull ?p random = Inr (take ?p random, drop ?p random)" "readFull 16 (drop ?p random) = Inr (?iv, drop 16 (drop ?p random))"
    using r p by (simp_all add: readFull_def)
  have al: "length ?pt mod 16 = 0" using paddingLength_aligned[of "length plaintext"] p r by (simp add: min_absorb2)
  have iv: "length ?iv = 16" using p r by simp
  obtain ct where ct: "cbcEncrypt (aes_encrypt cr ek) ?iv ?pt = (Inr ct :: (ike_error, byte list) res)" "length ct = length ?pt"
    using cbc_roundtrip[OF cr iv al] by blast
  have lct: "length ct \<le> length plaintext + 16" unfolding ct(2) using p by simp
  have mac: "\<exists>mac. integrityMAC cr s ik pk = Inr mac" for pk using integrityMAC_length[OF cr il] by blast
  define body where "body = [first, 0] @ put16 (word_of_nat (4 + length extra + length ?iv + length ct + cl)) @ extra @ ?iv @ ct @ replicate cl 0"
  obtain m where m: "integrityMAC cr s ik (take (length (marshalHeader h body) - cl) (marshalHeader h body)) = Inr m" using mac by blast
  have small: "\<not> 4 + length extra + length ?iv + length ct + cl > 65535" using n lct integrityLengths_bound[OF il] iv by linarith
  have "sealBody cr s ek ik h first extra plaintext random
      = Inr (take (length (marshalHeader h body) - cl) (marshalHeader h body) @ m, drop 16 (drop ?p random))"
    unfolding sealBody_def reads rbind.simps case_prod_conv Let_def ct(1) il if_not_P[OF small] body_def[symmetric] slice_def
    using m by simp
  then show ?thesis using p r by auto
qed

lemma sealFragments_returns:
  assumes cr: "crypto_ok cr" and il: "integrityLengths s = Inr (kl, cl)"
  shows "31 * length chunks \<le> length random \<Longrightarrow> \<forall>c \<in> set chunks. length c \<le> 64996 \<Longrightarrow>
    \<exists>packets random'. sealFragments cr s ek ik h first tot index chunks random = Inr (packets, random')"
proof (induction chunks arbitrary: index random)
  case (Cons c chunks)
  let ?nx = "if (word_of_nat (index + 1) :: 16 word) = 1 then first else payloadNone"
  let ?ex = "put16 (word_of_nat (index + 1)) @ put16 tot"
  have "31 \<le> length random" "length ?ex + length c \<le> 65000" using Cons.prems by simp_all
  from sealBody_returns[OF cr il this, of ek ik "h\<lparr>hdr_next := payloadEncryptedFragment\<rparr>" ?nx]
  obtain packet r where one: "sealBody cr s ek ik (h\<lparr>hdr_next := payloadEncryptedFragment\<rparr>) ?nx ?ex c random = Inr (packet, r)"
    and r: "length random \<le> length r + 31" by blast
  have "31 * length chunks \<le> length r" using Cons.prems r by simp
  then obtain ps r' where "sealFragments cr s ek ik h first tot (index + 1) chunks r = Inr (ps, r')" using Cons.IH[of r "index + 1"] Cons.prems by auto
  then show ?case unfolding sealFragments.simps Let_def one rbind.simps case_prod_conv by simp
qed simp

text \<open>Sealing respects the fragment size: with a limit of at least 148 bytes (below that the code uses its
  floor of 64 bytes of plaintext) every packet of \<open>encryptPayloadsFragmented\<close>, one or many, is at most
  the requested size, or the default of 1100 when none is requested.\<close>
theorem fragments_fit:
  assumes cr: "crypto_ok cr" and h: "header_ok header"
    and e: "encryptPayloadsFragmented cr header inner s ek ik maxFragmentSize random = Inr (packets, random')"
    and limit: "limit = (if maxFragmentSize \<le> 0 then 1100 else maxFragmentSize)" "148 \<le> limit"
  shows "\<forall>packet \<in> set packets. int (length packet) \<le> limit"
proof -
  obtain first pt kl cl chunks where m: "marshalPayloadChain inner = Inr (first, pt)" and il: "integrityLengths s = Inr (kl, cl)"
    and chunks: "chunks = chunksOf (maximumChunk maxFragmentSize cl) pt"
    and alt: "(\<exists>packet. length chunks \<le> 1 \<and> packets = [packet] \<and> encryptPayloads cr header inner s ek ik random = Inr (packet, random')) \<or>
      (2 \<le> length chunks \<and> sealFragments cr s ek ik header first (word_of_nat (length chunks)) 0 chunks random = Inr (packets, random'))"
    using encryptPayloadsFragmented_Inr[OF e] .
  have fits: "int (28 + 8 + 16 + maximumChunk maxFragmentSize cl + 16 + cl) \<le> limit"
    by (rule maximumChunk_fits[OF limit(2,1) integrityLengths_bound[OF il]])
  have hs: "header_ok (header\<lparr>hdr_next := k\<rparr>)" for k using h by (simp add: header_ok_def)
  have pos: "0 < maximumChunk maxFragmentSize cl" by (simp add: maximumChunk_def Let_def)
  show ?thesis
  proof (cases "length chunks \<le> 1")
    case True
    then obtain packet where p: "packets = [packet]" and ep: "encryptPayloads cr header inner s ek ik random = Inr (packet, random')" using alt by auto
    have "sealBody cr s ek ik (header\<lparr>hdr_next := payloadEncrypted\<rparr>) first [] pt random = Inr (packet, random')"
      using ep m by (auto simp: encryptPayloads_def rbind_Inr_iff)
    from sealBody_packet_length[OF cr hs il this] have lp: "length packet \<le> 28 + 4 + 16 + length pt + 16 + cl" by simp
    have "length (concat chunks) \<le> maximumChunk maxFragmentSize cl"
      using True chunksOf_bound[of _ "maximumChunk maxFragmentSize cl" pt] by (cases chunks) (auto simp: chunks[symmetric])
    then have "length pt \<le> maximumChunk maxFragmentSize cl" unfolding chunks concat_chunksOf[OF pos] .
    then show ?thesis using lp fits p by auto
  next
    case False
    then have sf: "sealFragments cr s ek ik header first (word_of_nat (length chunks)) 0 chunks random = Inr (packets, random')" using alt by auto
    show ?thesis
    proof
      fix packet assume "packet \<in> set packets"
      then obtain i where i: "i < length chunks" "packet = packets ! i" using sealFragments_nth[OF sf] by (auto simp: in_set_conv_nth)
      then obtain nx r r' where sb: "sealBody cr s ek ik (header\<lparr>hdr_next := payloadEncryptedFragment\<rparr>) nx
          (put16 (word_of_nat (0 + i + 1)) @ put16 (word_of_nat (length chunks))) (chunks ! i) r = Inr (packet, r')"
        using sealFragments_nth[OF sf] by blast
      have "length packet \<le> 28 + 4 + 4 + 16 + length (chunks ! i) + 16 + cl" using sealBody_packet_length[OF cr hs il sb] by simp
      moreover have "length (chunks ! i) \<le> maximumChunk maxFragmentSize cl" using chunksOf_bound nth_mem[OF i(1)] unfolding chunks by blast
      ultimately show "int (length packet) \<le> limit" using fits by linarith
    qed
  qed
qed

text \<open>C14: Messages of the signed exchanges survive sealing and opening. A payload list sealed into one packet
  opens to the same list; sealed into fragments it is reassembled from any sequence of packets with the
  same set of members, so in any order and with duplicates, under the original message identifier and
  exchange type. The bound of 65534 fragments is real: the 16-bit loop counter of the reassembly wraps
  at 65535.\<close>
theorem fragment_roundtrip:
  assumes cr: "crypto_ok cr" and h: "header_ok header" and inner: "length inner \<le> 64"
    and e: "encryptPayloadsFragmented cr header inner s ek ik maxFragmentSize random = Inr (packets, random')"
    and n: "length packets < 65535" and eq: "set frags = set packets"
  shows "\<exists>h'. (if length packets = 1 then decryptPayloadsAny cr (hd frags) [] s ek ik else decryptPayloadsAny cr packet frags s ek ik)
      = Some (Inr (h', inner)) \<and> hdr_message h' = hdr_message header \<and> hdr_exchange h' = hdr_exchange header"
proof -
  obtain first pt kl cl chunks where m: "marshalPayloadChain inner = Inr (first, pt)" and key: "newCipher ek = Inr ()"
    and il: "integrityLengths s = Inr (kl, cl)" and chunks: "chunks = chunksOf (maximumChunk maxFragmentSize cl) pt"
    and alt: "(\<exists>packet. length chunks \<le> 1 \<and> packets = [packet] \<and> encryptPayloads cr header inner s ek ik random = Inr (packet, random')) \<or>
      (2 \<le> length chunks \<and> sealFragments cr s ek ik header first (word_of_nat (length chunks)) 0 chunks random = Inr (packets, random'))"
    using encryptPayloadsFragmented_Inr[OF e] .
  have pos: "0 < maximumChunk maxFragmentSize cl" by (simp add: maximumChunk_def Let_def)
  show ?thesis
  proof (cases "length chunks \<le> 1")
    case True
    then obtain p where p: "packets = [p]" and ep: "encryptPayloads cr header inner s ek ik random = Inr (p, random')" using alt by auto
    have one: "set frags = {p}" unfolding eq p by simp
    then have "frags \<noteq> []" by (intro notI) simp
    then have "hd frags = p" using hd_in_set[of frags] one by simp
    then show ?thesis
      using p decryptPayloads_sealed[OF cr h inner ep] by (auto simp: decryptPayloadsAny_def)
  next
    case False
    then have sf: "sealFragments cr s ek ik header first (word_of_nat (length chunks)) 0 chunks random = Inr (packets, random')" using alt by auto
    have len: "length packets = length chunks" using sealFragments_nth[OF sf] by blast
    have n': "length chunks < 65535" "length chunks < 65536" "0 < length chunks" using n len False by linarith+
    have "parsePayloadChain first (concat chunks) = Inr inner"
      unfolding chunks concat_chunksOf[OF pos] by (rule parsePayloadChain_marshal[OF m inner])
    from reassembled[OF sealFragments_fragmentsOf[OF cr h key n'(2) sf] n'(3,1) eq this]
    show ?thesis using False len by simp
  qed
qed

subsection \<open>A concrete message in two fragments\<close>

definition demo_long :: "payload list" where
  "demo_long = [\<lparr>pl_type = 39, pl_critical = False, pl_body = replicate 100 7\<rparr>]"

lemma demo_fragments:
  "\<exists>p q random'. encryptPayloadsFragmented demo_crypto demo_header demo_long demo_suite (replicate 16 1) (replicate 32 2) 148 (replicate 100 0)
    = Inr ([p, q], random')"
proof -
  define pt :: "byte list" where "pt = [0, 0, 0, 104] @ replicate 100 7"
  have m: "marshalPayloadChain demo_long = Inr (39, pt)"
    by (simp add: marshalPayloadChain_def demo_long_def followingType_def put16_def pt_def)
  have il: "integrityLengths demo_suite = Inr (32, 16)" by (rule demo_suite_lengths)
  have mc: "maximumChunk 148 16 = 64" by (simp add: maximumChunk_def)
  have "length pt = 104" by (simp add: pt_def)
  then have "chunksOf 64 pt = [take 64 pt, drop 64 pt]"
    by (subst chunksOf.simps, subst chunksOf.simps, subst chunksOf.simps) auto
  then obtain a b where ab: "chunksOf 64 pt = [a, b]" "length a \<le> 64" "length b \<le> 64" using \<open>length pt = 104\<close> by simp
  have "31 * length [a, b] \<le> length (replicate 100 (0 :: byte))" "\<forall>c \<in> set [a, b]. length c \<le> 64996" using ab by simp_all
  from sealFragments_returns[OF demo_crypto_ok il this, of "replicate 16 1" "replicate 32 2" demo_header 39 2 0]
  obtain packets random' where sf: "sealFragments demo_crypto demo_suite (replicate 16 1) (replicate 32 2) demo_header 39 2 0 [a, b] (replicate 100 0)
      = Inr (packets, random')" by blast
  have "length packets = 2" using sealFragments_nth[OF sf] by simp
  then obtain p q where "packets = [p, q]" by (auto simp: numeral_2_eq_2 length_Suc_conv)
  then show ?thesis using sf m il mc ab(1) by (simp add: encryptPayloadsFragmented_def newCipher_def)
qed

theorem fragment_roundtrip_witness:
  "\<exists>p q random' h'. encryptPayloadsFragmented demo_crypto demo_header demo_long demo_suite (replicate 16 1) (replicate 32 2) 148 (replicate 100 0)
      = Inr ([p, q], random') \<and>
    decryptPayloadsAny demo_crypto [] [q, p, q] demo_suite (replicate 16 1) (replicate 32 2) = Some (Inr (h', demo_long))"
proof -
  obtain p q random' where e: "encryptPayloadsFragmented demo_crypto demo_header demo_long demo_suite (replicate 16 1) (replicate 32 2) 148 (replicate 100 0)
      = Inr ([p, q], random')" using demo_fragments by blast
  have "header_ok demo_header" "length demo_long \<le> 64" "length [p, q] < 65535" "set [q, p, q] = set [p, q]"
    by (auto simp: header_ok_def demo_header_def demo_long_def)
  from fragment_roundtrip[OF demo_crypto_ok this(1,2) e this(3,4), of "[]"] e show ?thesis by auto
qed

theorem fragments_fit_witness:
  "\<exists>p q random'. encryptPayloadsFragmented demo_crypto demo_header demo_long demo_suite (replicate 16 1) (replicate 32 2) 148 (replicate 100 0)
      = Inr ([p, q], random') \<and> length p \<le> 148 \<and> length q \<le> 148"
proof -
  obtain p q random' where e: "encryptPayloadsFragmented demo_crypto demo_header demo_long demo_suite (replicate 16 1) (replicate 32 2) 148 (replicate 100 0)
      = Inr ([p, q], random')" using demo_fragments by blast
  have "header_ok demo_header" by (simp add: header_ok_def demo_header_def)
  from fragments_fit[OF demo_crypto_ok this e, of 148] e show ?thesis by auto
qed

subsection \<open>Decryption returns\<close>

lemma parseIKEPacket_length:
  assumes "parseIKEPacket packet = Inr (h, body)"
  shows "length packet = 28 + length body"
  using assms by (auto simp: parseIKEPacket_def rbind_Inr_iff slice_def idx_def get32_def Let_def split: if_splits)

lemma parseIKEPacket_no_panic: "parseIKEPacket packet \<noteq> Inl Panic"
  by (auto simp: parseIKEPacket_def idx_def get32_def slice_def)

lemma integrityMAC_no_panic: "crypto_ok cr \<Longrightarrow> integrityMAC cr s key packet \<noteq> Inl Panic"
  using integrityMAC_length[of cr s _ _ key packet]
  by (cases "integrityLengths s") (auto simp: integrityMAC_def rbind_Inl_iff integrityLengths_fail)

lemma verifyBody_Inr:
  assumes "verifyBody cr s ek ik kind offset packet = Inr (header, body, cl)"
  shows "offset + 32 + cl \<le> length body"
  using assms by (auto simp: verifyBody_def rbind_Inr_iff split: if_splits)

lemma verifyBody_no_panic:
  assumes cr: "crypto_ok cr" and o: "4 \<le> offset"
  shows "verifyBody cr s ek ik kind offset packet \<noteq> Inl Panic"
proof -
  have nc: "newCipher ek \<noteq> Inl Panic" by (simp add: newCipher_def)
  show ?thesis
    using o parseIKEPacket_no_panic[of packet] integrityMAC_no_panic[OF cr] nc
    by (auto simp: verifyBody_def read_Inl_iff slice_def integrityLengths_fail split: if_splits)
qed

lemma decryptBody_no_panic:
  assumes cr: "crypto_ok cr" and l: "off + 32 + cl \<le> length body"
  shows "decryptBody cr ek off body cl \<noteq> Inl Panic"
proof -
  have dec: "\<exists>pt. cbcDecrypt (aes_decrypt cr ek) iv ct = (Inr pt :: (ike_error, byte list) res) \<and> length pt = length ct"
    if "length iv = 16" "length ct mod 16 = 0" for iv ct by (rule cbcDecrypt_ok[OF cr that])
  define ct iv where "ct = take (length body - cl - (off + 16)) (drop (off + 16) body)" and "iv = take 16 (drop off body)"
  have reads: "(slice body (off + 16) (length body - cl) :: (ike_error, byte list) res) = Inr ct"
    "(slice body off (off + 16) :: (ike_error, byte list) res) = Inr iv" "length iv = 16"
    using l by (simp_all add: slice_def ct_def iv_def)
  show ?thesis
  proof (cases "length ct = 0 \<or> length ct mod 16 \<noteq> 0")
    case True
    then show ?thesis by (simp add: decryptBody_def reads)
  next
    case False
    then obtain pt where pt: "cbcDecrypt (aes_decrypt cr ek) iv ct = (Inr pt :: (ike_error, byte list) res)" "length pt = length ct"
      using dec[OF reads(3)] by blast
    then show ?thesis using False by (auto simp: decryptBody_def reads read_Inl_iff)
  qed
qed

lemma decryptSingle_facts:
  assumes cr: "crypto_ok cr"
  shows "decryptSingleFragment cr packet s ek ik \<noteq> Inl Panic"
    and "decryptSingleFragment cr packet s ek ik = Inr f \<Longrightarrow> fr_number f \<noteq> 0"
proof -
  have v: "verifyBody cr s ek ik payloadEncryptedFragment 8 packet \<noteq> Inl Panic" by (rule verifyBody_no_panic[OF cr]) simp
  show "decryptSingleFragment cr packet s ek ik \<noteq> Inl Panic"
    using v decryptBody_no_panic[OF cr] by (auto simp: decryptSingleFragment_def read_Inl_iff dest!: verifyBody_Inr)
  show "decryptSingleFragment cr packet s ek ik = Inr f \<Longrightarrow> fr_number f \<noteq> 0"
    by (auto simp: decryptSingleFragment_def rbind_Inr_iff split: if_splits)
qed

lemma decryptPayloads_no_panic:
  assumes cr: "crypto_ok cr"
  shows "decryptPayloads cr packet s ek ik \<noteq> Inl Panic"
proof -
  have v: "verifyBody cr s ek ik payloadEncrypted 4 packet \<noteq> Inl Panic" by (rule verifyBody_no_panic[OF cr]) simp
  have p: "parsePayloadChain first pt \<noteq> Inl Panic" for first pt by (simp add: parsePayloadChain_def parsePayloads_no_panic)
  show ?thesis
    using v p decryptBody_no_panic[OF cr] by (auto simp: decryptPayloads_def read_Inl_iff dest!: verifyBody_Inr)
qed

lemma addFragments_facts:
  assumes cr: "crypto_ok cr"
  shows "map_of (as_plaintexts a) 0 = None \<Longrightarrow> addFragments cr s ek ik frags a \<noteq> Inl Panic \<and>
    (\<forall>b. addFragments cr s ek ik frags a = Inr b \<longrightarrow> map_of (as_plaintexts b) 0 = None)"
proof (induction frags arbitrary: a)
  case (Cons packet frags)
  show ?case
  proof (cases "decryptSingleFragment cr packet s ek ik")
    case (Inl e)
    then show ?thesis using decryptSingle_facts(1)[OF cr, of packet s ek ik] by auto
  next
    case (Inr f)
    have f0: "fr_number f \<noteq> 0" by (rule decryptSingle_facts(2)[OF cr Inr])
    have np: "addFragment f a \<noteq> Inl Panic" by (auto simp: addFragment_def rbind_Inl_iff split: option.splits)
    have key: "map_of (as_plaintexts b) 0 = None" if "addFragment f a = Inr b" for b
      using that f0 Cons.prems by (auto simp: addFragment_def rbind_Inr_iff split: if_splits option.splits)
    show ?thesis
    proof (cases "addFragment f a")
      case (Inl e)
      then show ?thesis using Inr np by auto
    next
      case b: (Inr b)
      then show ?thesis using Inr Cons.IH[OF key[OF b]] by simp
    qed
  qed
qed simp

lemma joinChunks_returns:
  assumes "map_of pts 0 = None"
  shows "\<exists>r. joinChunks pts t i full = Some r \<and> r \<noteq> Inl Panic"
proof (induction "65536 - unat i" arbitrary: i full rule: less_induct)
  case less
  show ?case
  proof (cases "i > t \<or> map_of pts i = None")
    case True
    then show ?thesis by (subst joinChunks.simps) auto
  next
    case False
    then obtain c where c: "map_of pts i = Some c" by auto
    have step: "joinChunks pts t i full = joinChunks pts t (i + 1) (full @ c)"
      using False c by (subst joinChunks.simps) simp
    show ?thesis
    proof (cases "i + 1 = 0")
      case True
      then show ?thesis unfolding step True using assms by (subst joinChunks.simps) auto
    next
      case False
      then have "unat (i + 1) = unat i + 1" by (metis unatSuc add.commute Suc_eq_plus1)
      moreover have "unat i < 65536" using unsigned_less[of i] by simp
      ultimately have "65536 - unat (i + 1) < 65536 - unat i" by simp
      then show ?thesis unfolding step by (rule less)
    qed
  qed
qed

text \<open>Opening always returns: whatever packets an attacker sends, in whatever number, \<open>decryptPayloadsAny\<close>
  ends (its 16-bit counter cannot run forever, because no accepted fragment has number 0) with a payload
  list or an error, never with a panic.\<close>
theorem decrypt_returns:
  assumes cr: "crypto_ok cr"
  shows "\<exists>r. decryptPayloadsAny cr packet fragments s ek ik = Some r \<and> r \<noteq> Inl Panic"
proof -
  have p: "parsePayloadChain first pt \<noteq> Inl Panic" for first pt by (simp add: parsePayloadChain_def parsePayloads_no_panic)
  have "map_of (as_plaintexts emptyAssembly) 0 = None" by (simp add: emptyAssembly_def)
  note add = addFragments_facts[OF cr this, of s ek ik fragments]
  show ?thesis
  proof (cases "fragments = []")
    case True
    show ?thesis
      using True p parseIKEPacket_no_panic[of packet] decryptSingle_facts(1)[OF cr, of packet s ek ik] decryptPayloads_no_panic[OF cr, of packet s ek ik]
      by (auto simp: decryptPayloadsAny_def read_Inl_iff)
  next
    case False
    show ?thesis
    proof (cases "addFragments cr s ek ik fragments emptyAssembly")
      case (Inl e)
      then show ?thesis using False add by (auto simp: decryptPayloadsAny_def)
    next
      case (Inr a)
      then obtain r where "joinChunks (as_plaintexts a) (as_total a) 1 [] = Some r" "r \<noteq> Inl Panic"
        using add joinChunks_returns by blast
      then show ?thesis
        using False Inr p by (auto simp: decryptPayloadsAny_def read_Inl_iff split: option.splits)
    qed
  qed
qed

theorem decrypt_returns_witness:
  "\<exists>r. decryptPayloadsAny demo_crypto [] [[1, 2, 3], []] demo_suite [] [] = Some r \<and> r \<noteq> Inl Panic"
  by (rule decrypt_returns[OF demo_crypto_ok])

end
