(* ===== verification/Gsm7.thy ===== *)
theory Gsm7
  imports GoText
begin

text \<open>
  The GSM 7-bit default alphabet of \<open>device/sms_pdu.go\<close>: the two tables, the encoder map built
  from them, the encoder and decoder, and the packing of septets into octets from an arbitrary
  start bit. Packing is related to an abstract bit string, \<open>bitAt\<close>.
\<close>

subsection \<open>Alphabets\<close>

definition gsm7DefaultAlphabet :: "rune list" where
  "gsm7DefaultAlphabet =
  [64, 163, 36, 165, 232, 233, 249, 236, 242, 199, 10, 216, 248, 13, 197, 229,
   916, 95, 934, 915, 923, 937, 928, 936, 931, 920, 926, 27, 198, 230, 223, 201,
   32, 33, 34, 35, 164, 37, 38, 39, 40, 41, 42, 43, 44, 45, 46, 47,
   48, 49, 50, 51, 52, 53, 54, 55, 56, 57, 58, 59, 60, 61, 62, 63,
   161, 65, 66, 67, 68, 69, 70, 71, 72, 73, 74, 75, 76, 77, 78, 79,
   80, 81, 82, 83, 84, 85, 86, 87, 88, 89, 90, 196, 214, 209, 220, 167,
   191, 97, 98, 99, 100, 101, 102, 103, 104, 105, 106, 107, 108, 109, 110, 111,
   112, 113, 114, 115, 116, 117, 118, 119, 120, 121, 122, 228, 246, 241, 252, 224]"

definition gsm7ExtensionAlphabet :: "(byte \<times> rune) list" where
  "gsm7ExtensionAlphabet =
  [(10, 12), (20, 94), (40, 123), (41, 125), (47, 92), (60, 91), (61, 126), (62, 93), (64, 124), (101, 8364)]"

definition gsm7Encoder :: "(rune \<times> byte list) list" where
  "gsm7Encoder =
     fold (\<lambda>(code, character) m. AList.update character [0x1b, code] m) gsm7ExtensionAlphabet
       (fold (\<lambda>(code, character) m. if code = 0x1b then m else AList.update character [word_of_nat code] m)
         (enumerate 0 gsm7DefaultAlphabet) [])"

fun encodeGSM7 :: "gostring \<Rightarrow> byte list option" where
  "encodeGSM7 [] = Some []"
| "encodeGSM7 (character # text) =
     (case map_of gsm7Encoder character of
        None \<Rightarrow> None
      | Some encoded \<Rightarrow> map_option (\<lambda>r. encoded @ r) (encodeGSM7 text))"

fun canSendDirectGSM7 :: "gostring \<Rightarrow> bool" where
  "canSendDirectGSM7 [] = True"
| "canSendDirectGSM7 (character # text) =
     (case map_of gsm7Encoder character of
        None \<Rightarrow> False
      | Some encoded \<Rightarrow>
          if length encoded \<noteq> 1 \<or> hd encoded = 0x1b \<or> character > 0x7f \<or> word_of_nat character \<noteq> hd encoded
          then False else canSendDirectGSM7 text)"

datatype gsm7_error = InvalidCode | TrailingEscape | UnknownExtension byte

text \<open>\<open>decodeGSM7\<close> returns what it decoded before an error along with the error.\<close>

fun decodeGSM7 :: "byte list \<Rightarrow> gostring \<times> gsm7_error option" where
  "decodeGSM7 [] = ([], None)"
| "decodeGSM7 (code # septets) =
     (if code \<noteq> 0x1b then
        (if unat code \<ge> length gsm7DefaultAlphabet then ([], Some InvalidCode)
         else apfst ((#) (gsm7DefaultAlphabet ! unat code)) (decodeGSM7 septets))
      else (case septets of
          [] \<Rightarrow> ([], Some TrailingEscape)
        | e # rest \<Rightarrow>
            (case map_of gsm7ExtensionAlphabet e of
               None \<Rightarrow> ([], Some (UnknownExtension e))
             | Some character \<Rightarrow> apfst ((#) character) (decodeGSM7 rest))))"

definition DecodeGSM7Septets :: "byte list \<Rightarrow> gostring \<times> bool" where
  "DecodeGSM7Septets d = (let (decoded, e) = decodeGSM7 d in (decoded, e = None))"

lemma length_alphabet [simp]: "length gsm7DefaultAlphabet = 128"
  by (simp add: gsm7DefaultAlphabet_def)

lemma distinct_alphabets: "distinct (gsm7DefaultAlphabet @ map snd gsm7ExtensionAlphabet)"
  by (simp add: gsm7DefaultAlphabet_def gsm7ExtensionAlphabet_def)

lemma distinct_extension: "distinct (map fst gsm7ExtensionAlphabet)"
  by (simp add: gsm7ExtensionAlphabet_def)


subsection \<open>The encoder map\<close>

lemma map_of_fold_update:
  "map_of (fold (\<lambda>(c, x) m. if P c then m else AList.update x (f c) m) xs m)
     = map_of m ++ map_of (rev (map (\<lambda>(c, x). (x, f c)) (filter (\<lambda>(c, x). \<not> P c) xs)))"
  by (induction xs arbitrary: m) (auto simp: map_add_def split: option.splits)

lemma fold_update_plain:
  "fold (\<lambda>(c, x) m. AList.update x (f c) m) xs m
     = fold (\<lambda>(c, x) m. if False then m else AList.update x (f c) m) xs m"
  by simp

definition septetsOf :: "(rune \<times> byte list) list" where
  "septetsOf = map (\<lambda>(c, x). (x, [word_of_nat c])) (filter (\<lambda>(c, x). c \<noteq> 0x1b) (enumerate 0 gsm7DefaultAlphabet))
     @ map (\<lambda>(c, x). (x, [0x1b, c])) gsm7ExtensionAlphabet"

lemma gsm7Encoder_septetsOf: "map_of gsm7Encoder = map_of (rev septetsOf)"
  unfolding gsm7Encoder_def
  by (subst fold_update_plain)
    (simp only: map_of_fold_update septetsOf_def rev_append map_of_append, simp)

lemma distinct_septetsOf: "distinct (map fst septetsOf)"
proof -
  have fst_map: "map fst (map (\<lambda>(c, x). (x, g c)) zs) = map snd zs" for g :: "'c \<Rightarrow> byte list" and zs :: "('c \<times> rune) list"
    by (induction zs) auto
  have "set (map snd (filter Q (enumerate 0 gsm7DefaultAlphabet))) \<subseteq> set gsm7DefaultAlphabet" for Q
    by (metis (no_types, lifting) filter_is_subset map_snd_enumerate set_map subset_image_iff image_mono)
  moreover have "distinct (map snd (filter Q (enumerate 0 gsm7DefaultAlphabet)))" for Q
    using distinct_alphabets by (simp add: distinct_map_filter)
  ultimately show ?thesis
    using distinct_alphabets unfolding septetsOf_def map_append fst_map distinct_append by blast
qed

lemma gsm7Encoder_Some:
  "map_of gsm7Encoder ch = Some bs \<longleftrightarrow>
     (\<exists>code < 128. code \<noteq> 0x1b \<and> ch = gsm7DefaultAlphabet ! code \<and> bs = [word_of_nat code])
   \<or> (\<exists>code. map_of gsm7ExtensionAlphabet code = Some ch \<and> bs = [0x1b, code])"
proof -
  have "map_of gsm7Encoder ch = Some bs \<longleftrightarrow> (ch, bs) \<in> set septetsOf"
    unfolding gsm7Encoder_septetsOf
    by (metis (no_types, lifting) distinct_rev distinct_septetsOf map_of_eq_Some_iff rev_map set_rev)
  also have "\<dots> \<longleftrightarrow> (\<exists>code < 128. code \<noteq> 0x1b \<and> ch = gsm7DefaultAlphabet ! code \<and> bs = [word_of_nat code])
   \<or> (\<exists>code. (code, ch) \<in> set gsm7ExtensionAlphabet \<and> bs = [0x1b, code])"
    unfolding septetsOf_def by (fastforce simp: in_set_enumerate_eq)
  finally show ?thesis by (simp only: map_of_eq_Some_iff[OF distinct_extension])
qed

lemma gsm7Encoder_default: "code < 128 \<Longrightarrow> code \<noteq> 0x1b \<Longrightarrow> map_of gsm7Encoder (gsm7DefaultAlphabet ! code) = Some [word_of_nat code]"
  by (auto simp: gsm7Encoder_Some)

lemma gsm7Encoder_extension: "map_of gsm7ExtensionAlphabet code = Some ch \<Longrightarrow> map_of gsm7Encoder ch = Some [0x1b, code]"
  by (auto simp: gsm7Encoder_Some)

subsection \<open>Encoding and decoding\<close>

lemma byte_code [simp]: "code < 128 \<Longrightarrow> unat (word_of_nat code :: byte) = code"
  by (simp add: unat_of_nat8)

lemma byte_escape: "code < 128 \<Longrightarrow> (word_of_nat code :: byte) = 0x1b \<longleftrightarrow> code = 0x1b"
  using byte_code[of code] by (auto simp del: byte_code)

lemma decodeGSM7_character:
  "map_of gsm7Encoder ch = Some bs \<Longrightarrow> decodeGSM7 (bs @ rest) = apfst ((#) ch) (decodeGSM7 rest)"
  by (auto simp: gsm7Encoder_Some byte_escape)

lemma decodeGSM7_encodeGSM7_append:
  "encodeGSM7 tx = Some s \<Longrightarrow> decodeGSM7 (s @ rest) = apfst ((@) tx) (decodeGSM7 rest)"
proof (induction tx arbitrary: s)
  case Nil
  then show ?case by (cases "decodeGSM7 rest") simp
next
  case (Cons ch tx)
  then obtain bs s' where "map_of gsm7Encoder ch = Some bs" "encodeGSM7 tx = Some s'" "s = bs @ s'"
    by (auto split: option.splits)
  then show ?case using Cons.IH[of s'] by (simp add: decodeGSM7_character apfst_def map_prod_def split_beta)
qed

lemma decodeGSM7_encodeGSM7: "encodeGSM7 tx = Some s \<Longrightarrow> decodeGSM7 s = (tx, None)"
  using decodeGSM7_encodeGSM7_append[of tx s "[]"] by simp

lemma encodeGSM7_decodeGSM7: "decodeGSM7 s = (tx, None) \<Longrightarrow> encodeGSM7 tx = Some s"
proof (induction s arbitrary: tx rule: decodeGSM7.induct)
  case 1
  then show ?case by simp
next
  case (2 code septets)
  show ?case
  proof (cases "code = 0x1b")
    case True
    then obtain e rest ch t where s: "septets = e # rest" "map_of gsm7ExtensionAlphabet e = Some ch"
        "decodeGSM7 rest = (t, None)" "tx = ch # t"
      using "2.prems" by (auto simp: apfst_def map_prod_def split: list.splits option.splits prod.splits)
    then have "encodeGSM7 t = Some rest" using "2.IH"(2) True by simp
    then show ?thesis using s True gsm7Encoder_extension[OF s(2)] by simp
  next
    case False
    then obtain t where t: "unat code < 128" "decodeGSM7 septets = (t, None)"
        "tx = gsm7DefaultAlphabet ! unat code # t"
      using "2.prems" by (auto simp: apfst_def map_prod_def split: if_splits prod.splits)
    then have "encodeGSM7 t = Some septets" using "2.IH"(1) False by simp
    moreover have "unat code \<noteq> 0x1b" using False byte_escape[OF t(1)] by auto
    ultimately show ?thesis using t gsm7Encoder_default[of "unat code"] by simp
  qed
qed

subsection \<open>Packing septets\<close>

text \<open>
  The loops of \<open>packSeptets\<close> and \<open>unpackSeptets\<close>. Their indices are in range by
  \<open>septet_in_range\<close>, so no read or write of theirs panics. \<open>unpackSeptets\<close> takes Go ints, of
  which the count may be negative.
\<close>

definition packStep :: "nat \<Rightarrow> nat \<times> byte \<Rightarrow> byte list \<Rightarrow> byte list" where
  "packStep startBit = (\<lambda>(index, septet) result.
     let b = startBit + index * 7; byteIndex = b div 8; shift = b mod 8;
         result' = result[byteIndex := result ! byteIndex OR push_bit shift (septet AND 0x7f)]
     in if shift > 1 \<and> byteIndex + 1 < length result
        then result'[byteIndex + 1 := result' ! (byteIndex + 1) OR drop_bit (8 - shift) (septet AND 0x7f)]
        else result')"

definition packSeptets :: "byte list \<Rightarrow> nat \<Rightarrow> byte list" where
  "packSeptets septets startBit =
    (if septets = [] then []
     else fold (packStep startBit) (enumerate 0 septets)
            (replicate ((startBit + length septets * 7 + 7) div 8) 0))"

definition unpackSeptet :: "byte list \<Rightarrow> nat \<Rightarrow> nat \<Rightarrow> byte" where
  "unpackSeptet d startBit index =
    (let b = startBit + index * 7; byteIndex = b div 8; shift = b mod 8;
         v = drop_bit shift (d ! byteIndex);
         v' = (if shift > 1 \<and> byteIndex + 1 < length d then v OR push_bit (8 - shift) (d ! (byteIndex + 1)) else v)
     in v' AND 0x7f)"

definition unpackSeptets :: "byte list \<Rightarrow> int \<Rightarrow> int \<Rightarrow> byte list option" where
  "unpackSeptets d count startBit =
    (if count < 0 \<or> startBit < 0 \<or> startBit + count * 7 > int (length d) * 8 then None
     else Some (map (unpackSeptet d (nat startBit)) [0..<nat count]))"

lemma septet_in_range:
  fixes i n st :: nat
  assumes "i < n"
  shows "(st + i * 7 + 6) div 8 < (st + n * 7 + 7) div 8"
proof -
  have "(st + i * 7 + 6 + 8) div 8 \<le> (st + n * 7 + 7) div 8" using assms by (intro div_le_mono) linarith
  then show ?thesis by simp
qed

lemma div_mod_octet:
  fixes x q m :: nat
  assumes "m < 8" and "x = 8 * q + m"
  shows "x div 8 = q" and "x mod 8 = m"
  using assms by auto

definition bitAt :: "byte list \<Rightarrow> nat \<Rightarrow> bool" where
  "bitAt d k = bit (d ! (k div 8)) (k mod 8)"

lemma bit_mask7: "bit (s AND 0x7f :: byte) j \<longleftrightarrow> j < 7 \<and> bit s j"
proof -
  have m: "(0x7f :: byte) = mask 7" by (simp add: mask_eq_exp_minus_1)
  show ?thesis unfolding m by (auto simp: bit_simps)
qed

lemma length_packStep [simp]: "length (packStep st p r) = length r"
  by (simp add: packStep_def Let_def split_beta)

lemma length_fold_packStep [simp]: "length (fold (packStep st) ps r) = length r"
  by (induction ps arbitrary: r) auto

lemma length_packSeptets:
  "length (packSeptets s st) = (if s = [] then 0 else (st + length s * 7 + 7) div 8)"
  by (simp add: packSeptets_def)

text \<open>Step \<open>i\<close> sets exactly the bits \<open>st + 7 i + j\<close> for which bit \<open>j < 7\<close> of the septet is set.\<close>

lemma bitAt_packStep:
  assumes r: "(st + i * 7) div 8 < length r" "(st + i * 7 + 6) div 8 < length r" and k: "k < 8 * length r"
  shows "bitAt (packStep st (i, s) r) k \<longleftrightarrow>
    bitAt r k \<or> (st + i * 7 \<le> k \<and> k < st + i * 7 + 7 \<and> bit s (k - (st + i * 7)))"
proof -
  define q sh where "q = (st + i * 7) div 8" and "sh = (st + i * 7) mod 8"
  have b: "st + i * 7 = 8 * q + sh" "sh < 8" by (simp_all add: q_def sh_def)
  define kq kr where "kq = k div 8" and "kr = k mod 8"
  have kk: "k = 8 * kq + kr" "kr < 8" by (simp_all add: kq_def kr_def)
  have q: "q < length r" using r(1) by (simp add: q_def)
  have "8 * q + sh + 6 < 8 * length r" using r(2) b(1) by linarith
  then have nx: "q + 1 < length r" if "1 < sh" using that by linarith
  obtain m where m: "m = s AND 0x7f" by simp
  then have bm: "bit m j \<longleftrightarrow> j < 7 \<and> bit s j" for j by (simp add: bit_mask7)
  have step: "packStep st (i, s) r = (let r' = r[q := r ! q OR push_bit sh m] in
      if 1 < sh then r'[q + 1 := r ! (q + 1) OR drop_bit (8 - sh) m] else r')"
    using nx by (auto simp: packStep_def q_def sh_def Let_def m)
  have bt: "bitAt d k = bit (d ! kq) kr" for d by (simp add: bitAt_def kq_def kr_def)
  consider "kq = q" | "kq = q + 1" | "kq \<noteq> q" "kq \<noteq> q + 1" by auto
  then show ?thesis
  proof cases
    case 1
    have "bitAt (packStep st (i, s) r) k \<longleftrightarrow> bit (r ! q OR push_bit sh m) kr"
      using 1 q by (simp add: step bt Let_def)
    also have "\<dots> \<longleftrightarrow> bit (r ! q) kr \<or> sh \<le> kr \<and> kr < sh + 7 \<and> bit s (kr - sh)"
      using kk(2) by (auto simp: bit_simps bm)
    also have "\<dots> \<longleftrightarrow> bitAt r k \<or> (st + i * 7 \<le> k \<and> k < st + i * 7 + 7 \<and> bit s (k - (st + i * 7)))"
      unfolding bt b(1) using kk(1) 1 by simp
    finally show ?thesis .
  next
    case 2
    have e: "k - (st + i * 7) = 8 - sh + kr" using b 2 kk by simp
    show ?thesis
    proof (cases "1 < sh")
      case True
      have "bitAt (packStep st (i, s) r) k \<longleftrightarrow> bit (r ! (q + 1) OR drop_bit (8 - sh) m) kr"
        using 2 True nx by (simp add: step bt Let_def)
      also have "\<dots> \<longleftrightarrow> bit (r ! (q + 1)) kr \<or> (8 - sh + kr < 7 \<and> bit s (8 - sh + kr))"
        by (auto simp: bit_simps bm)
      also have "\<dots> \<longleftrightarrow> bitAt r k \<or> (st + i * 7 \<le> k \<and> k < st + i * 7 + 7 \<and> bit s (k - (st + i * 7)))"
      proof -
        have "st + i * 7 \<le> k" "k < st + i * 7 + 7 \<longleftrightarrow> 8 - sh + kr < 7" using b 2 kk by linarith+
        then show ?thesis unfolding e bt using 2 by simp
      qed
      finally show ?thesis .
    next
      case False
      then have "\<not> k < st + i * 7 + 7" using b 2 kk by linarith
      then show ?thesis using 2 False by (simp add: step bt Let_def)
    qed
  next
    case 3
    then have "bitAt (packStep st (i, s) r) k = bitAt r k"
      by (simp add: step bt Let_def)
    moreover have "\<not> (st + i * 7 \<le> k \<and> k < st + i * 7 + 7)"
    proof
      assume "st + i * 7 \<le> k \<and> k < st + i * 7 + 7"
      then have "8 * q < 8 * kq + 8" "8 * kq < 8 * q + 16" using b kk by linarith+
      then show False using 3 by linarith
    qed
    ultimately show ?thesis by auto
  qed
qed

lemma bitAt_fold_packStep:
  assumes "\<forall>(i, s) \<in> set ps. (st + i * 7 + 6) div 8 < length r" and "k < 8 * length r"
  shows "bitAt (fold (packStep st) ps r) k \<longleftrightarrow> bitAt r k \<or>
    (\<exists>(i, s) \<in> set ps. st + i * 7 \<le> k \<and> k < st + i * 7 + 7 \<and> bit s (k - (st + i * 7)))"
  using assms
proof (induction ps arbitrary: r)
  case Nil
  then show ?case by simp
next
  case (Cons p ps)
  obtain i s where p: "p = (i, s)" by (cases p)
  then have r2: "(st + i * 7 + 6) div 8 < length r" using Cons.prems by auto
  have "(st + i * 7) div 8 \<le> (st + i * 7 + 6) div 8" by (intro div_le_mono) simp
  with r2 have r1: "(st + i * 7) div 8 < length r" by simp
  have "bitAt (fold (packStep st) ps (packStep st p r)) k \<longleftrightarrow> bitAt (packStep st p r) k \<or>
    (\<exists>(i, s) \<in> set ps. st + i * 7 \<le> k \<and> k < st + i * 7 + 7 \<and> bit s (k - (st + i * 7)))"
    using Cons.prems by (intro Cons.IH) auto
  then show ?case using bitAt_packStep[OF r1 r2, of k s] Cons.prems p by auto
qed

lemma bitAt_packSeptets:
  assumes s: "s \<noteq> []" and k: "k < st + 7 * length s"
  shows "bitAt (packSeptets s st) k \<longleftrightarrow> st \<le> k \<and> bit (s ! ((k - st) div 7)) ((k - st) mod 7)"
proof -
  define n where "n = (st + length s * 7 + 7) div 8"
  have kn: "k < 8 * n" using k unfolding n_def by linarith
  have "bitAt (packSeptets s st) k \<longleftrightarrow> bitAt (replicate n 0) k \<or>
    (\<exists>(i, x) \<in> set (enumerate 0 s). st + i * 7 \<le> k \<and> k < st + i * 7 + 7 \<and> bit x (k - (st + i * 7)))"
    unfolding packSeptets_def n_def[symmetric] using s kn
    by (auto intro!: bitAt_fold_packStep simp: in_set_enumerate_eq n_def intro!: septet_in_range)
  also have "bitAt (replicate n 0) k \<longleftrightarrow> False"
    using kn by (simp add: bitAt_def less_mult_imp_div_less mult.commute)
  also have "(\<exists>(i, x) \<in> set (enumerate 0 s). st + i * 7 \<le> k \<and> k < st + i * 7 + 7 \<and> bit x (k - (st + i * 7)))
    \<longleftrightarrow> st \<le> k \<and> bit (s ! ((k - st) div 7)) ((k - st) mod 7)"
  proof
    assume "\<exists>(i, x) \<in> set (enumerate 0 s). st + i * 7 \<le> k \<and> k < st + i * 7 + 7 \<and> bit x (k - (st + i * 7))"
    then obtain i where i: "i < length s" "st + i * 7 \<le> k" "k < st + i * 7 + 7" "bit (s ! i) (k - (st + i * 7))"
      by (auto simp: in_set_enumerate_eq)
    define j where "j = k - (st + i * 7)"
    have "k - st = i * 7 + j" "j < 7" using i by (auto simp: j_def)
    then show "st \<le> k \<and> bit (s ! ((k - st) div 7)) ((k - st) mod 7)" using i by (simp add: j_def[symmetric])
  next
    assume r: "st \<le> k \<and> bit (s ! ((k - st) div 7)) ((k - st) mod 7)"
    define i j where "i = (k - st) div 7" and "j = (k - st) mod 7"
    have "k = st + i * 7 + j" "j < 7" using r by (auto simp: i_def j_def)
    moreover have "i < length s" using k r by (auto simp: i_def)
    ultimately show "\<exists>(i, x) \<in> set (enumerate 0 s). st + i * 7 \<le> k \<and> k < st + i * 7 + 7 \<and> bit x (k - (st + i * 7))"
      using r by (intro bexI[of _ "(i, s ! i)"]) (auto simp: in_set_enumerate_eq i_def[symmetric] j_def[symmetric])
  qed
  finally show ?thesis by simp
qed

text \<open>A septet read back is the seven bits of the bit string at its place.\<close>

lemma bit_unpackSeptet:
  assumes "(st + i * 7 + 6) div 8 < length d"
  shows "bit (unpackSeptet d st i) j \<longleftrightarrow> j < 7 \<and> bitAt d (st + i * 7 + j)"
proof -
  define q sh where "q = (st + i * 7) div 8" and "sh = (st + i * 7) mod 8"
  have b: "st + i * 7 = 8 * q + sh" "sh < 8" by (simp_all add: q_def sh_def)
  have "8 * q + sh + 6 < 8 * length d" using assms b(1) by linarith
  then have nx: "q + 1 < length d" if "1 < sh" using that by linarith
  have "unpackSeptet d st i = (if 1 < sh then drop_bit sh (d ! q) OR push_bit (8 - sh) (d ! (q + 1)) else drop_bit sh (d ! q)) AND 0x7f"
    using nx by (auto simp: unpackSeptet_def Let_def q_def sh_def)
  then have u: "bit (unpackSeptet d st i) j \<longleftrightarrow> j < 7 \<and>
     (bit (d ! q) (sh + j) \<or> 1 < sh \<and> 8 - sh \<le> j \<and> bit (d ! (q + 1)) (j - (8 - sh)))"
    by (auto simp: bit_mask7) (auto simp: bit_simps)
  show ?thesis
  proof (cases "sh + j < 8")
    case True
    then have "(st + i * 7 + j) div 8 = q" "(st + i * 7 + j) mod 8 = sh + j"
      using b by (simp_all add: add.assoc)
    then show ?thesis using u True by (auto simp: bitAt_def)
  next
    case False
    then have nb: "\<not> bit (d ! q) (sh + j)" by (auto dest: bit_word_beyond)
    show ?thesis
    proof (cases "j < 7")
      case True
      obtain m where m: "sh + j = 8 + m" using False by (metis le_add_diff_inverse not_less)
      have "m < 8" using m b(2) True by linarith
      moreover have "st + i * 7 + j = 8 * (q + 1) + m" using b m by simp
      ultimately have "(st + i * 7 + j) div 8 = q + 1" "(st + i * 7 + j) mod 8 = m"
        by (rule div_mod_octet)+
      then have "bitAt d (st + i * 7 + j) = bit (d ! (q + 1)) m" by (simp only: bitAt_def)
      moreover have "j - (8 - sh) = m" "1 < sh" "8 - sh \<le> j" using m b(2) True by linarith+
      ultimately show ?thesis using u nb True by simp
    qed (simp add: u)
  qed
qed

lemma unpack_pack_septets:
  assumes s: "\<forall>x \<in> set s. unat x < 128" "s \<noteq> []"
    and d: "length d = length (packSeptets s st)" and "\<forall>k. st \<le> k \<longrightarrow> k < 8 * length d \<longrightarrow> bitAt d k = bitAt (packSeptets s st) k"
  shows "unpackSeptets d (int (length s)) (int st) = Some s"
proof -
  have ld: "length d = (st + length s * 7 + 7) div 8" using d s(2) by (simp add: length_packSeptets)
  have "unpackSeptet d st i = s ! i" if i: "i < length s" for i
  proof (rule bit_word_eqI)
    fix j assume "j < LENGTH(8)"
    have "s ! i = s ! i AND mask 7"
      using s(1) i by (simp flip: take_bit_eq_mask add: word_unat_eq_iff unsigned_take_bit_eq take_bit_nat_eq_self)
    then have hi: "bit (s ! i) j \<Longrightarrow> j < 7" by (metis bit_and_iff bit_mask_iff)
    have "bit (unpackSeptet d st i) j \<longleftrightarrow> j < 7 \<and> bitAt d (st + i * 7 + j)"
      using i ld septet_in_range by (intro bit_unpackSeptet) simp
    also have "\<dots> \<longleftrightarrow> j < 7 \<and> bitAt (packSeptets s st) (st + i * 7 + j)"
      using assms(4)[rule_format, of "st + i * 7 + j"] i ld by auto
    also have "\<dots> \<longleftrightarrow> j < 7 \<and> bit (s ! i) j"
    proof (cases "j < 7")
      case True
      have "(i * 7 + j) div 7 = i" "(i * 7 + j) mod 7 = j" using True by auto
      then show ?thesis using i s(2) True by (subst bitAt_packSeptets) (auto simp: add.assoc)
    qed simp
    finally show "bit (unpackSeptet d st i) j = bit (s ! i) j" using hi by auto
  qed
  then have "map (unpackSeptet d st) [0..<length s] = s" by (intro nth_equalityI) auto
  then show ?thesis using ld by (auto simp: unpackSeptets_def)
qed

end
