(* ===== verification/Sms.thy ===== *)
theory Sms
  imports Gsm7
begin

text \<open>
  Outgoing short messages, the first half of \<open>device/sms_pdu.go\<close>: recipient normalisation, the
  choice of an alphabet, splitting into concatenated segments and the SMS-SUBMIT encoder. The
  byte that \<open>crypto/rand\<close> yields is an argument. A split that does not return is None.
\<close>

datatype SMSEncoding =
    SMSEncodingGSM7Text | SMSEncodingGSM7PDU | SMSEncodingUCS2PDU | SMSEncodingUTF8PDU
  | SMSEncodingGB18030 | SMSEncodingLatin1 | SMSEncoding8BitPDU | SMSEncodingUnknown

datatype sms_error =
    ErrSMSInvalidRecipient | ErrSMSEmpty | ErrSMSTooLong | TextContainsNUL | RandomFailed
  | InvalidConcatHeader | NoUserData | NotGSM7 | InvalidEncodedPDU | NoTPDU | EmptyTPDU
  | InvalidHex | PDUTooShort | SMSCLengthExceeds | UnsupportedMessageType | PDUTruncated
  | UserDataTruncated | MissingUserDataHeader | UserDataHeaderTruncated | GSM7Truncated
  | GSM7Failed gsm7_error | NationalTableFailed | InvalidUTF16
  | TimestampLength | InvalidSemiOctet | InvalidTimezone | InvalidTimestampComponent

record preparedSMS =
  ps_to :: gostring
  ps_encoding :: SMSEncoding
  ps_payload :: "byte list"
  ps_prompt :: gostring
  ps_setup :: "gostring list"
  ps_tpduLength :: nat
  ps_part :: nat
  ps_total :: nat
  ps_concatReference :: "nat option"

record SMSSubmitTPDU =
  st_To :: gostring
  st_Encoding :: SMSEncoding
  st_TPDU :: "byte list"
  st_Part :: nat
  st_Total :: nat
  st_ConcatReference :: "nat option"

subsection \<open>Recipients\<close>

definition isDigit :: "rune \<Rightarrow> bool" where
  "isDigit c \<longleftrightarrow> 48 \<le> c \<and> c \<le> 57"

definition trimPlus :: "gostring \<Rightarrow> gostring" where
  "trimPlus s = (case s of c # cs \<Rightarrow> if c = 43 then cs else s | [] \<Rightarrow> [])"

definition hasPlus :: "gostring \<Rightarrow> bool" where
  "hasPlus s = (case s of c # _ \<Rightarrow> c = 43 | [] \<Rightarrow> False)"

fun recipientLoop :: "gostring \<Rightarrow> gostring \<Rightarrow> (sms_error, gostring) res" where
  "recipientLoop [] result = Inr result"
| "recipientLoop (character # cs) result =
    (if isDigit character then recipientLoop cs (result @ [character])
     else if character = 43 \<and> result = [] then recipientLoop cs (result @ [character])
     else if character = 32 \<or> character = 45 \<or> character = 40 \<or> character = 41 then recipientLoop cs result
     else err ErrSMSInvalidRecipient)"

definition normalizeSMSRecipient :: "gostring \<Rightarrow> (sms_error, gostring) res" where
  "normalizeSMSRecipient value =
    rbind (recipientLoop (TrimSpace value) []) (\<lambda>normalized.
      let digits = trimPlus normalized in
      if length digits < 1 \<or> length digits > 20 then err ErrSMSInvalidRecipient
      else if \<exists>c \<in> set digits. \<not> isDigit c then err ErrSMSInvalidRecipient
      else Inr normalized)"

fun semiOctets :: "gostring \<Rightarrow> (sms_error, byte list) res" where
  "semiOctets [] = Inr []"
| "semiOctets [low] =
    (if \<not> isDigit low then err ErrSMSInvalidRecipient
     else Inr [push_bit 4 0x0f OR word_of_nat (low - 48)])"
| "semiOctets (low # high # digits) =
    (if \<not> isDigit low then err ErrSMSInvalidRecipient
     else if \<not> isDigit high then err ErrSMSInvalidRecipient
     else rbind (semiOctets digits) (\<lambda>rest.
       Inr ((push_bit 4 (word_of_nat (high - 48)) OR word_of_nat (low - 48)) # rest)))"

definition encodeSemiOctets :: "gostring \<Rightarrow> (sms_error, byte list) res" where
  "encodeSemiOctets digits = (if digits = [] then err ErrSMSInvalidRecipient else semiOctets digits)"

subsection \<open>Segments\<close>

text \<open>
  The common loop of \<open>splitGSM7\<close> and \<open>splitUCS2\<close>: cut \<open>maximum\<close> items, one less where the cut
  would break a pair. With \<open>maximum = 0\<close> Go panics at index \<open>-1\<close>; with \<open>maximum = 1\<close> and a pair
  at the front the loop makes no progress. Both are None.
\<close>

partial_function (option) splitWith :: "('a list \<Rightarrow> nat \<Rightarrow> bool) \<Rightarrow> nat \<Rightarrow> 'a list \<Rightarrow> 'a list list option" where
  [code]: "splitWith breaks maximum xs =
    (if xs = [] then Some []
     else let count = min maximum (length xs) in
       if count = 0 then None
       else let count' = (if count < length xs \<and> breaks xs count then count - 1 else count) in
         Option.bind (splitWith breaks maximum (drop count' xs)) (\<lambda>rest. Some (take count' xs # rest)))"

definition breaksEscape :: "byte list \<Rightarrow> nat \<Rightarrow> bool" where
  "breaksEscape septets count \<longleftrightarrow> septets ! (count - 1) = 0x1b"

definition splitGSM7 :: "byte list \<Rightarrow> nat \<Rightarrow> byte list list option" where
  "splitGSM7 septets maximum = splitWith breaksEscape maximum septets"

definition breaksPair :: "16 word list \<Rightarrow> nat \<Rightarrow> bool" where
  "breaksPair units count \<longleftrightarrow> utf16IsSurrogate (units ! (count - 1)) \<and> isHigh (units ! (count - 1)) \<and> isLow (units ! count)"

definition splitUCS2 :: "16 word list \<Rightarrow> nat \<Rightarrow> 16 word list list option" where
  "splitUCS2 units maximum = splitWith breaksPair maximum units"

definition encodeUCS2Units :: "16 word list \<Rightarrow> byte list" where
  "encodeUCS2Units units = concat (map (\<lambda>u. [ucast (drop_bit 8 u), ucast u]) units)"

definition concatUDH :: "byte \<Rightarrow> nat \<Rightarrow> nat \<Rightarrow> byte list" where
  "concatUDH reference totalParts sequence = [0x05, 0x00, 0x03, reference, word_of_nat totalParts, word_of_nat sequence]"

subsection \<open>SMS-SUBMIT\<close>

text \<open>\<open>copy(dst, src)\<close>.\<close>

definition copyInto :: "'a list \<Rightarrow> 'a list \<Rightarrow> 'a list" where
  "copyInto dst source = take (length dst) source @ drop (length source) dst"

text \<open>The nil and the empty slice differ in the switch, so the two payloads are options.\<close>

definition encodeSubmitPDUWithHeader ::
  "gostring \<Rightarrow> byte list option \<Rightarrow> byte list option \<Rightarrow> byte list \<Rightarrow> (sms_error, gostring \<times> nat) res" where
  "encodeSubmitPDUWithHeader recipient gsm7Septets ucs2 userDataHeader =
    (let digits = trimPlus recipient in
     rbind (encodeSemiOctets digits) (\<lambda>address.
       let toa = (if hasPlus recipient then 0x91 else 0x81) in
       if userDataHeader \<noteq> [] \<and> unat (userDataHeader ! 0) + 1 \<noteq> length userDataHeader
       then err InvalidConcatHeader
       else
         let firstOctet = (if userDataHeader \<noteq> [] then 0x21 OR 0x40 else 0x21);
             pdu = [0x00, firstOctet, 0x00, word_of_nat (length digits), toa] @ address @ [0x00];
             finish = (\<lambda>pdu. Inr (hexUpper pdu, length pdu - 1))
         in case gsm7Septets of
              Some septets \<Rightarrow>
                (let headerSeptets = (if userDataHeader \<noteq> [] then (length userDataHeader * 8 + 6) div 7 else 0);
                     startBit = (if userDataHeader \<noteq> [] then headerSeptets * 7 else 0);
                     userDataLength = headerSeptets + length septets
                 in if userDataLength > 160 then err ErrSMSTooLong
                    else let packed = copyInto (packSeptets septets startBit) userDataHeader
                         in finish (pdu @ [0x00, word_of_nat userDataLength] @ packed))
            | None \<Rightarrow>
                (case ucs2 of
                   Some units \<Rightarrow>
                     (let userDataLength = length userDataHeader + length units
                      in if userDataLength > 140 then err ErrSMSTooLong
                         else finish (pdu @ [0x08, word_of_nat userDataLength] @ userDataHeader @ units))
                 | None \<Rightarrow> err NoUserData)))"

definition encodeSubmitPDU :: "gostring \<Rightarrow> byte list option \<Rightarrow> byte list option \<Rightarrow> (sms_error, gostring \<times> nat) res" where
  "encodeSubmitPDU recipient gsm7Septets ucs2 = encodeSubmitPDUWithHeader recipient gsm7Septets ucs2 []"

subsection \<open>Preparing a message\<close>

definition quote :: string where
  "quote = [CHR 0x22]"

definition pduPart :: "gostring \<Rightarrow> SMSEncoding \<Rightarrow> gostring \<Rightarrow> nat \<Rightarrow> nat \<Rightarrow> nat \<Rightarrow> nat option \<Rightarrow> preparedSMS" where
  "pduPart recipient encoding pdu tpduLength n totalParts reference =
    \<lparr>ps_to = recipient, ps_encoding = encoding, ps_payload = utf8Encode pdu,
     ps_prompt = runes (''AT+CMGS='' @ showNat tpduLength), ps_setup = [runes ''AT+CMGF=0''],
     ps_tpduLength = tpduLength, ps_part = n, ps_total = totalParts, ps_concatReference = reference\<rparr>"

text \<open>The loop over the segments; the encoder of a segment gets its index.\<close>

fun eachSegment :: "(nat \<Rightarrow> 'a \<Rightarrow> (sms_error, preparedSMS) res) \<Rightarrow> nat \<Rightarrow> 'a list \<Rightarrow> (sms_error, preparedSMS list) res" where
  "eachSegment f index [] = Inr []"
| "eachSegment f index (segment # segments) =
     rbind (f index segment) (\<lambda>part.
       rbind (eachSegment f (index + 1) segments) (\<lambda>result. Inr (part # result)))"

definition prepareSMSPartsWithReference :: "gostring \<Rightarrow> gostring \<Rightarrow> byte \<Rightarrow> (sms_error, preparedSMS list) res" where
  "prepareSMSPartsWithReference recipient0 text0 reference =
    rbind (normalizeSMSRecipient recipient0) (\<lambda>recipient.
      if text0 = [] then err ErrSMSEmpty
      else if 0 \<in> set text0 then err TextContainsNUL
      else case encodeGSM7 text0 of
        Some septets \<Rightarrow>
          if length septets \<le> 160 \<and> canSendDirectGSM7 text0 then
            Inr [\<lparr>ps_to = recipient, ps_encoding = SMSEncodingGSM7Text, ps_payload = utf8Encode text0,
                  ps_prompt = runes (''AT+CMGS='' @ quote) @ recipient @ runes quote,
                  ps_setup = [runes ''AT+CMGF=1'', runes (''AT+CSCS='' @ quote @ ''GSM'' @ quote), runes ''AT+CSMP=49,167,0,0''],
                  ps_tpduLength = 0, ps_part = 1, ps_total = 1, ps_concatReference = None\<rparr>]
          else if length septets \<le> 160 then
            rbind (encodeSubmitPDU recipient (Some septets) None) (\<lambda>(pdu, tpduLength).
              Inr [pduPart recipient SMSEncodingGSM7PDU pdu tpduLength 1 1 None])
          else (case splitGSM7 septets 153 of
              None \<Rightarrow> Inl Panic
            | Some segments \<Rightarrow>
                if length segments > 255 then err ErrSMSTooLong
                else eachSegment (\<lambda>index segment.
                  rbind (encodeSubmitPDUWithHeader recipient (Some segment) None
                           (concatUDH reference (length segments) (index + 1))) (\<lambda>(pdu, tpduLength).
                    Inr (pduPart recipient SMSEncodingGSM7PDU pdu tpduLength (index + 1) (length segments)
                           (Some (unat reference))))) 0 segments)
      | None \<Rightarrow>
          let units = utf16Encode text0 in
          if length units \<le> 70 then
            rbind (encodeSubmitPDU recipient None (Some (encodeUCS2Units units))) (\<lambda>(pdu, tpduLength).
              Inr [pduPart recipient SMSEncodingUCS2PDU pdu tpduLength 1 1 None])
          else (case splitUCS2 units 67 of
              None \<Rightarrow> Inl Panic
            | Some segments \<Rightarrow>
                if length segments > 255 then err ErrSMSTooLong
                else eachSegment (\<lambda>index segment.
                  rbind (encodeSubmitPDUWithHeader recipient None (Some (encodeUCS2Units segment))
                           (concatUDH reference (length segments) (index + 1))) (\<lambda>(pdu, tpduLength).
                    Inr (pduPart recipient SMSEncodingUCS2PDU pdu tpduLength (index + 1) (length segments)
                           (Some (unat reference))))) 0 segments))"

definition prepareSMS :: "gostring \<Rightarrow> gostring \<Rightarrow> (sms_error, preparedSMS) res" where
  "prepareSMS recipient text0 =
    rbind (prepareSMSPartsWithReference recipient text0 0) (\<lambda>parts.
      if length parts \<noteq> 1 then err ErrSMSTooLong else idx parts 0)"

definition prepareSMSParts :: "byte option \<Rightarrow> gostring \<Rightarrow> gostring \<Rightarrow> (sms_error, preparedSMS list) res" where
  "prepareSMSParts random recipient text0 =
    rbind (prepareSMSPartsWithReference recipient text0 0) (\<lambda>parts.
      if length parts \<le> 1 then Inr parts
      else case random of
        None \<Rightarrow> err RandomFailed
      | Some reference \<Rightarrow> prepareSMSPartsWithReference recipient text0 reference)"

definition submitTPDU :: "gostring \<Rightarrow> preparedSMS \<Rightarrow> (sms_error, SMSSubmitTPDU) res" where
  "submitTPDU text0 part =
    rbind (if ps_encoding part = SMSEncodingGSM7Text
           then case encodeGSM7 text0 of
               None \<Rightarrow> err NotGSM7
             | Some septets \<Rightarrow>
                 rbind (encodeSubmitPDU (ps_to part) (Some septets) None) (\<lambda>(pduHex, _).
                   Inr (pduHex, SMSEncodingGSM7PDU))
           else Inr (utf8Decode (ps_payload part), ps_encoding part)) (\<lambda>(pduHex, encoding).
      case hexDecode pduHex of
        None \<Rightarrow> err InvalidEncodedPDU
      | Some pdu \<Rightarrow>
          if length pdu < 2 then err InvalidEncodedPDU
          else
            let smscBytes = unat (pdu ! 0) in
            if 1 + smscBytes \<ge> length pdu then err NoTPDU
            else rbind (slice pdu (1 + smscBytes) (length pdu)) (\<lambda>tpdu.
              Inr \<lparr>st_To = ps_to part, st_Encoding = encoding, st_TPDU = tpdu, st_Part = ps_part part,
                   st_Total = ps_total part, st_ConcatReference = ps_concatReference part\<rparr>))"

fun submitTPDUs :: "gostring \<Rightarrow> preparedSMS list \<Rightarrow> (sms_error, SMSSubmitTPDU list) res" where
  "submitTPDUs text0 [] = Inr []"
| "submitTPDUs text0 (part # parts) =
     rbind (submitTPDU text0 part) (\<lambda>t. rbind (submitTPDUs text0 parts) (\<lambda>result. Inr (t # result)))"

definition PrepareSMSSubmitTPDUs :: "byte option \<Rightarrow> gostring \<Rightarrow> gostring \<Rightarrow> (sms_error, SMSSubmitTPDU list) res" where
  "PrepareSMSSubmitTPDUs random recipient text0 =
    rbind (prepareSMSParts random recipient text0) (submitTPDUs text0)"

end
