(* ===== verification/Sms_Segments.thy ===== *)
theory Sms_Segments
  imports Sms
begin

text \<open>
  Splitting a long message. A \<open>segmenter\<close> cuts a list of code units that carries a text; its
  law is that a cut chosen by the loop falls between two characters. Both loops of
  \<open>device/sms_pdu.go\<close> are instances: septets with escapes, and UTF-16 units with surrogates.
\<close>

lemma splitWith_Nil [simp]: "splitWith breaks maximum [] = Some []"
  by (subst splitWith.simps) simp

lemma splitWith_Cons:
  "xs \<noteq> [] \<Longrightarrow> maximum \<noteq> 0 \<Longrightarrow> splitWith breaks maximum xs =
    (let m = min maximum (length xs); c = (if m < length xs \<and> breaks xs m then m - 1 else m) in
     Option.bind (splitWith breaks maximum (drop c xs)) (\<lambda>rest. Some (take c xs # rest)))"
  by (subst splitWith.simps) (simp add: Let_def)

lemma splitWith_returns:
  assumes "2 \<le> maximum"
  shows "\<exists>segments. splitWith breaks maximum xs = Some segments"
proof (induction xs rule: length_induct)
  case (1 xs)
  let ?c = "min maximum (length xs)"
  let ?c' = "if ?c < length xs \<and> breaks xs ?c then ?c - 1 else ?c"
  show ?case
  proof (cases "xs = []")
    case True
    then show ?thesis by simp
  next
    case False
    have pos: "0 < ?c'" using assms False by auto
    then have "length (drop ?c' xs) < length xs" using False pos by (simp only: length_drop) (rule diff_less; simp)
    then obtain rest where "splitWith breaks maximum (drop ?c' xs) = Some rest" using 1 by blast
    then have "splitWith breaks maximum xs = Some (take ?c' xs # rest)"
      using splitWith_Cons[of xs maximum breaks] False assms by (simp add: Let_def split: if_splits)
    then show ?thesis by blast
  qed
qed

lemma splitWith_step:
  assumes s: "splitWith breaks maximum xs = Some segments" and xs: "xs \<noteq> []"
  obtains c rest where "c = (if min maximum (length xs) < length xs \<and> breaks xs (min maximum (length xs))
        then min maximum (length xs) - 1 else min maximum (length xs))"
    and "splitWith breaks maximum (drop c xs) = Some rest" and "segments = take c xs # rest"
proof -
  have "splitWith breaks 0 xs = None" by (subst splitWith.simps) (simp add: xs)
  then have "maximum \<noteq> 0" using s by (cases "maximum = 0") auto
  then show thesis using s xs that unfolding splitWith_Cons[OF xs \<open>maximum \<noteq> 0\<close>] Let_def bind_eq_Some_conv by blast
qed

lemma splitWith_parts:
  assumes "2 \<le> maximum" and "splitWith breaks maximum xs = Some segments"
  shows "concat segments = xs \<and> (\<forall>g \<in> set segments. g \<noteq> [] \<and> length g \<le> maximum)
    \<and> length segments * (maximum - 1) < length xs + maximum"
  using assms(2)
proof (induction xs arbitrary: segments rule: length_induct)
  case (1 xs)
  show ?case
  proof (cases "xs = []")
    case True
    then show ?thesis using "1.prems" assms(1) by simp
  next
    case False
    let ?m = "min maximum (length xs)"
    obtain c rest where c: "c = (if ?m < length xs \<and> breaks xs ?m then ?m - 1 else ?m)"
      and rest: "splitWith breaks maximum (drop c xs) = Some rest" "segments = take c xs # rest"
      using splitWith_step[OF "1.prems" False] by blast
    have c0: "0 < c" "c \<le> maximum" "c \<le> length xs" using assms(1) False c by (auto simp: min_def)
    then have "length (drop c xs) < length xs" using False by simp
    then have IH: "concat rest = drop c xs" "\<forall>g \<in> set rest. g \<noteq> [] \<and> length g \<le> maximum"
        "length rest * (maximum - 1) < length (drop c xs) + maximum"
      using 1(1) rest(1) by blast+
    have "length segments * (maximum - 1) < length xs + maximum"
    proof (cases "c = length xs")
      case True
      then have "rest = []" using rest(1) by simp
      then show ?thesis using rest(2) False assms(1) by simp
    next
      case nlast: False
      then have "maximum - 1 \<le> c" using c by (auto simp: min_def split: if_splits)
      then show ?thesis using IH(3) rest(2) c0 by simp
    qed
    then show ?thesis using IH rest(2) c0 False by auto
  qed
qed

locale segmenter =
  fixes breaks :: "'a list \<Rightarrow> nat \<Rightarrow> bool"
    and carries :: "'a list \<Rightarrow> gostring \<Rightarrow> bool"
  assumes carries_Nil: "carries [] t \<longleftrightarrow> t = []"
    and cut: "carries xs t \<Longrightarrow> 2 \<le> count \<Longrightarrow> count < length xs \<Longrightarrow>
      \<exists>t1 t2. t = t1 @ t2 \<and> carries (take (if breaks xs count then count - 1 else count) xs) t1
        \<and> carries (drop (if breaks xs count then count - 1 else count) xs) t2"
begin

lemma segments_carry:
  assumes "2 \<le> maximum" and "carries xs t" and "splitWith breaks maximum xs = Some segments"
  shows "\<exists>ts. concat ts = t \<and> list_all2 carries segments ts"
  using assms(2,3)
proof (induction xs arbitrary: t segments rule: length_induct)
  case (1 xs)
  show ?case
  proof (cases "xs = []")
    case True
    then show ?thesis using "1.prems" carries_Nil[of t] by simp
  next
    case False
    let ?m = "min maximum (length xs)"
    obtain c rest where c: "c = (if ?m < length xs \<and> breaks xs ?m then ?m - 1 else ?m)"
      and rest: "splitWith breaks maximum (drop c xs) = Some rest" "segments = take c xs # rest"
      using splitWith_step[OF "1.prems"(2) False] by blast
    have c0: "0 < c" using assms(1) False c by (auto simp: min_def)
    then have shorter: "length (drop c xs) < length xs" using False by simp
    have "\<exists>t1 t2. t = t1 @ t2 \<and> carries (take c xs) t1 \<and> carries (drop c xs) t2"
    proof (cases "maximum < length xs")
      case True
      then have "c = (if breaks xs maximum then maximum - 1 else maximum)" using c by simp
      then show ?thesis using cut[OF "1.prems"(1) assms(1) True] by simp
    next
      case all: False
      then have "c = length xs" using c by simp
      then show ?thesis using "1.prems"(1)
        by (intro exI[of _ t] exI[of _ "[]"]) (simp add: carries_Nil)
    qed
    then obtain t1 t2 where t: "t = t1 @ t2" "carries (take c xs) t1" "carries (drop c xs) t2" by blast
    then obtain ts where "concat ts = t2" "list_all2 carries rest ts" using 1(1) shorter rest(1) by blast
    then show ?thesis using t rest(2) by (intro exI[of _ "t1 # ts"]) simp
  qed
qed

end

subsection \<open>Septets\<close>

lemma encodeGSM7_Cons_cases:
  assumes "encodeGSM7 (ch # t) = Some s"
  obtains code s' where "s = code # s'" "code \<noteq> 0x1b" "encodeGSM7 t = Some s'" "encodeGSM7 [ch] = Some [code]"
  | code s' where "s = 0x1b # code # s'" "code \<noteq> 0x1b" "encodeGSM7 t = Some s'" "encodeGSM7 [ch] = Some [0x1b, code]"
proof -
  have ext: "code \<noteq> 0x1b" if "map_of gsm7ExtensionAlphabet code = Some ch" for code
    using that by (auto simp: gsm7ExtensionAlphabet_def split: if_splits)
  obtain bs s' where bs: "map_of gsm7Encoder ch = Some bs" "encodeGSM7 t = Some s'" "s = bs @ s'"
    using assms by (auto split: option.splits)
  then have one: "encodeGSM7 [ch] = Some bs" by simp
  from bs(1)[unfolded gsm7Encoder_Some] consider
      code where "code < 128" "code \<noteq> 0x1b" "bs = [word_of_nat code]"
    | code where "map_of gsm7ExtensionAlphabet code = Some ch" "bs = [0x1b, code]" by blast
  then show thesis
  proof cases
    case (1 code)
    then show thesis using that(1)[of "word_of_nat code" s'] bs one by (simp add: byte_escape)
  next
    case (2 code)
    then show thesis using that(2)[of code s'] bs one ext by simp
  qed
qed

lemma encodeGSM7_cut:
  assumes "encodeGSM7 t = Some s" and "c \<le> length s" and "c < length s \<Longrightarrow> c = 0 \<or> s ! (c - 1) \<noteq> 0x1b"
  shows "\<exists>t1 t2. t = t1 @ t2 \<and> encodeGSM7 t1 = Some (take c s) \<and> encodeGSM7 t2 = Some (drop c s)"
  using assms
proof (induction t arbitrary: s c)
  case Nil
  then show ?case by simp
next
  case (Cons ch t)
  show ?case
  proof (cases "c = 0")
    case True
    then show ?thesis using Cons.prems(1) by (intro exI[of _ "[]"] exI[of _ "ch # t"]) simp
  next
    case c0: False
    from Cons.prems(1) show ?thesis
    proof (cases rule: encodeGSM7_Cons_cases)
      case (1 code s')
      obtain k where k: "c = Suc k" using c0 by (cases c) auto
      have "c - 1 < length s' \<Longrightarrow> c - 1 = 0 \<or> s' ! (c - 1 - 1) \<noteq> 0x1b"
        using Cons.prems(3) k 1(1) by (cases k) auto
      then obtain t1 t2 where "t = t1 @ t2" "encodeGSM7 t1 = Some (take (c - 1) s')" "encodeGSM7 t2 = Some (drop (c - 1) s')"
        using Cons.IH[OF 1(3), of "c - 1"] Cons.prems(2) 1(1) k by auto
      then show ?thesis using 1 c0
        by (intro exI[of _ "ch # t1"] exI[of _ t2]) (auto simp: take_Cons' drop_Cons' split: option.splits)
    next
      case (2 code s')
      have c2: "2 \<le> c" using Cons.prems(2,3) c0 2(1) by (cases "c = 1") auto
      obtain k where k: "c = Suc (Suc k)" using c2 by (metis Suc_le_D numeral_2_eq_2 Suc_le_mono)
      have "c - 2 < length s' \<Longrightarrow> c - 2 = 0 \<or> s' ! (c - 2 - 1) \<noteq> 0x1b"
        using Cons.prems(3) k 2(1) by (cases k) auto
      then obtain t1 t2 where "t = t1 @ t2" "encodeGSM7 t1 = Some (take (c - 2) s')" "encodeGSM7 t2 = Some (drop (c - 2) s')"
        using Cons.IH[OF 2(3), of "c - 2"] Cons.prems(2) 2(1) k by auto
      then show ?thesis using 2 c2
        by (intro exI[of _ "ch # t1"] exI[of _ t2]) (auto simp: take_Cons' drop_Cons' numeral_2_eq_2 split: option.splits)
    qed
  qed
qed

lemma encodeGSM7_no_double_escape:
  "encodeGSM7 t = Some s \<Longrightarrow> Suc k < length s \<Longrightarrow> s ! k = 0x1b \<Longrightarrow> s ! Suc k \<noteq> 0x1b"
proof (induction t arbitrary: s k)
  case Nil
  then show ?case by simp
next
  case (Cons ch t)
  from Cons.prems(1) show ?case
  proof (cases rule: encodeGSM7_Cons_cases)
    case (1 code s')
    then show ?thesis using Cons.prems Cons.IH[OF 1(3), of "k - 1"] by (cases k) auto
  next
    case (2 code s')
    consider "k = 0" | "k = 1" | m where "k = Suc (Suc m)" by (metis One_nat_def not0_implies_Suc)
    then show ?thesis using Cons.prems 2 Cons.IH[OF 2(3)] by cases auto
  qed
qed

interpretation septets: segmenter breaksEscape "\<lambda>s t. encodeGSM7 t = Some s"
proof
  show "(encodeGSM7 t = Some []) \<longleftrightarrow> t = []" for t
    by (cases t) (auto elim!: encodeGSM7_Cons_cases simp del: encodeGSM7.simps(2))
next
  fix s t and count :: nat
  assume e: "encodeGSM7 t = Some s" and c: "2 \<le> count" "count < length s"
  define c' where "c' = (if breaksEscape s count then count - 1 else count)"
  have "s ! (c' - 1) \<noteq> 0x1b"
  proof
    assume esc: "s ! (c' - 1) = 0x1b"
    then have b: "s ! (count - 1) = 0x1b" "c' = count - 1" by (auto simp: c'_def breaksEscape_def split: if_splits)
    have "Suc (count - 2) = count - 1" "Suc (count - 2) < length s" using c by auto
    then show False using encodeGSM7_no_double_escape[OF e, of "count - 2"] esc b by (simp add: numeral_2_eq_2)
  qed
  moreover have "c' \<le> length s" using c by (auto simp: c'_def)
  ultimately show "\<exists>t1 t2. t = t1 @ t2 \<and> encodeGSM7 t1 = Some (take c' s) \<and> encodeGSM7 t2 = Some (drop c' s)"
    using encodeGSM7_cut[OF e, of c'] by blast
qed


subsection \<open>UTF-16 units\<close>

lemma utf16Rune_cases:
  assumes "scalar ch"
  obtains u where "utf16Rune ch = [u]" "\<not> isHigh u" "\<not> isLow u"
  | h l where "utf16Rune ch = [h, l]" "isHigh h" "isLow l"
proof (cases "ch < 0x10000")
  case True
  then have "\<not> isHigh (word_of_nat ch)" "\<not> isLow (word_of_nat ch)"
    using assms by (auto simp: isHigh_def isLow_def scalar_def unat_of_nat16)
  then show thesis using that(1)[of "word_of_nat ch"] True assms by (simp add: utf16Rune_def)
next
  case False
  define h l where "h = 0xD800 + (ch - 0x10000) div 1024" and "l = 0xDC00 + (ch - 0x10000) mod 1024"
  have r: "ch < 0x110000" "0x10000 \<le> ch" using assms False by (auto simp: scalar_def)
  then have "(ch - 0x10000) div 1024 < 1024" by (simp add: less_mult_imp_div_less)
  moreover have "(ch - 0x10000) mod 1024 < 1024" by simp
  ultimately have "0xD800 \<le> h" "h \<le> 0xDBFF" "0xDC00 \<le> l" "l \<le> 0xDFFF" by (auto simp: h_def l_def)
  then have "isHigh (word_of_nat h)" "isLow (word_of_nat l)"
    by (simp_all add: isHigh_def isLow_def unat_of_nat16)
  moreover have "utf16Rune ch = [word_of_nat h, word_of_nat l]"
    using assms False by (simp only: utf16Rune_def h_def l_def) simp
  ultimately show thesis using that(2) by blast
qed

definition carriesUnits :: "16 word list \<Rightarrow> gostring \<Rightarrow> bool" where
  "carriesUnits units t \<longleftrightarrow> utf16Encode t = units \<and> (\<forall>r \<in> set t. scalar r)"

lemma carriesUnits_Cons: "carriesUnits units (ch # t) \<longleftrightarrow>
    scalar ch \<and> (\<exists>us. units = utf16Rune ch @ us \<and> carriesUnits us t)"
  by (auto simp: carriesUnits_def utf16Encode_def)

lemma carriesUnits_Nil [simp]: "carriesUnits units [] \<longleftrightarrow> units = []"
  by (auto simp: carriesUnits_def utf16Encode_def)

lemma utf16_cut:
  assumes "carriesUnits s t" and "c \<le> length s"
    and "0 < c \<Longrightarrow> c < length s \<Longrightarrow> \<not> (isHigh (s ! (c - 1)) \<and> isLow (s ! c))"
  shows "\<exists>t1 t2. t = t1 @ t2 \<and> carriesUnits (take c s) t1 \<and> carriesUnits (drop c s) t2"
  using assms
proof (induction t arbitrary: s c)
  case Nil
  then show ?case by simp
next
  case (Cons ch t)
  obtain us where ch: "scalar ch" and us: "s = utf16Rune ch @ us" "carriesUnits us t"
    using Cons.prems(1) by (auto simp: carriesUnits_Cons)
  show ?case
  proof (cases "c = 0")
    case True
    then show ?thesis using Cons.prems(1) by (intro exI[of _ "[]"] exI[of _ "ch # t"]) simp
  next
    case c0: False
    let ?n = "length (utf16Rune ch)"
    have n: "?n \<le> c \<and> 0 < ?n"
      using ch
    proof (cases rule: utf16Rune_cases)
      case (1 u)
      then show ?thesis using c0 by auto
    next
      case (2 h l)
      then show ?thesis using c0 Cons.prems(3) us(1) by (cases "c = 1") auto
    qed
    obtain k where k: "c = ?n + k" using n le_Suc_ex by blast
    have "0 < c - ?n \<Longrightarrow> c - ?n < length us \<Longrightarrow> \<not> (isHigh (us ! (c - ?n - 1)) \<and> isLow (us ! (c - ?n)))"
      using Cons.prems(3) us(1) k by (cases k) (auto simp: nth_append)
    then obtain t1 t2 where "t = t1 @ t2" "carriesUnits (take (c - ?n) us) t1" "carriesUnits (drop (c - ?n) us) t2"
      using Cons.IH[OF us(2), of "c - ?n"] Cons.prems(2) us(1) k by auto
    then show ?thesis using us(1) n ch
      by (intro exI[of _ "ch # t1"] exI[of _ t2]) (auto simp: carriesUnits_Cons)
  qed
qed

interpretation units: segmenter breaksPair carriesUnits
proof
  show "carriesUnits [] t \<longleftrightarrow> t = []" for t
    by (cases t) (auto simp: carriesUnits_Cons utf16Rune_def)
next
  fix s t and count :: nat
  assume e: "carriesUnits s t" and c: "2 \<le> count" "count < length s"
  define c' where "c' = (if breaksPair s count then count - 1 else count)"
  have "\<not> (isHigh (s ! (c' - 1)) \<and> isLow (s ! c'))"
    by (auto simp: c'_def breaksPair_def isHigh_def isLow_def utf16IsSurrogate_def)
  moreover have "c' \<le> length s" using c by (auto simp: c'_def)
  ultimately show "\<exists>t1 t2. t = t1 @ t2 \<and> carriesUnits (take c' s) t1 \<and> carriesUnits (drop c' s) t2"
    using utf16_cut[OF e, of c'] by blast
qed

end
