(* ===== verification/SmsDecode.thy ===== *)
theory SmsDecode
  imports Sms
begin

text \<open>
  Incoming short messages, the second half of \<open>device/sms_pdu.go\<close>: the cursor, the three TPDU
  decoders, addresses, user data, data coding schemes, timestamps. A decoder returns the message
  as far as it was filled in, with the error if there was one. The Unicode tables, the GB 18030
  decoder and the national language tables are the record \<open>text_env\<close>.
\<close>

subsection \<open>Messages\<close>

datatype SMSStorageStatus =
    SMSStatusReceivedUnread | SMSStatusReceivedRead | SMSStatusStoredUnsent | SMSStatusStoredSent | SMSStatusUnknown

datatype SMSDirection =
    SMSDirectionReceived | SMSDirectionSubmitted | SMSDirectionStatusReport | SMSDirectionUnknown

record SMSConcatInfo =
  Reference :: nat
  Total :: nat
  Sequence :: nat

text \<open>The arguments of the call of \<open>time.Date\<close>; the offset is that of the fixed zone, in seconds.\<close>

record sms_time =
  year :: nat
  month :: nat
  day :: nat
  hour :: nat
  minute :: nat
  second :: nat
  offset :: int

record SMSMessage =
  msgIndex :: int
  msgStorage :: gostring
  msgStorageStatus :: SMSStorageStatus
  msgDirection :: SMSDirection
  msgFrom :: gostring
  msgTo :: gostring
  msgServiceCenter :: gostring
  msgText :: gostring
  msgEncoding :: SMSEncoding
  msgServiceCenterTimestamp :: "sms_time option"
  msgDischargeTimestamp :: "sms_time option"
  msgMessageReference :: "nat option"
  msgStatusCode :: "nat option"
  msgDeliveryStatus :: gostring
  msgConcat :: "SMSConcatInfo option"
  msgProtocolID :: nat
  msgDataCodingScheme :: nat
  msgModemLength :: int
  msgRawPDU :: gostring
  msgRawUserData :: gostring
  msgSIMDataDownload :: bool
  msgDecodeError :: gostring

definition blankMessage :: "SMSStorageStatus \<Rightarrow> SMSDirection \<Rightarrow> SMSEncoding \<Rightarrow> gostring \<Rightarrow> SMSMessage" where
  "blankMessage status direction encoding raw =
    \<lparr>msgIndex = 0, msgStorage = [], msgStorageStatus = status, msgDirection = direction, msgFrom = [], msgTo = [],
     msgServiceCenter = [], msgText = [], msgEncoding = encoding, msgServiceCenterTimestamp = None,
     msgDischargeTimestamp = None, msgMessageReference = None, msgStatusCode = None, msgDeliveryStatus = [],
     msgConcat = None, msgProtocolID = 0, msgDataCodingScheme = 0, msgModemLength = 0, msgRawPDU = raw,
     msgRawUserData = [], msgSIMDataDownload = False, msgDecodeError = []\<rparr>"

type_synonym decoded = "SMSMessage \<times> sms_error fault option"

record text_env =
  isPrint :: "rune \<Rightarrow> bool"
  isHan :: "rune \<Rightarrow> bool"
  upperTable :: "rune \<Rightarrow> rune"
  gb18030 :: "byte list \<Rightarrow> gostring option"
  nationalDecode :: "nat option \<Rightarrow> nat option \<Rightarrow> byte list \<Rightarrow> gostring \<times> bool"

text \<open>\<open>if err != nil { return err }\<close> with the message filled in so far.\<close>

fun orReturn :: "(sms_error, 'a) res \<Rightarrow> SMSMessage \<Rightarrow> ('a \<Rightarrow> decoded) \<Rightarrow> decoded" where
  "orReturn (Inl f) message k = (message, Some f)"
| "orReturn (Inr a) message k = k a"

subsection \<open>The cursor\<close>

record pduCursor =
  cdata :: "byte list"
  cindex :: nat

definition cursorByte :: "pduCursor \<Rightarrow> (sms_error, byte \<times> pduCursor) res" where
  "cursorByte cursor =
    (if cindex cursor \<ge> length (cdata cursor) then err PDUTruncated
     else rbind (idx (cdata cursor) (cindex cursor)) (\<lambda>v. Inr (v, cursor\<lparr>cindex := cindex cursor + 1\<rparr>)))"

definition cursorBytes :: "pduCursor \<Rightarrow> nat \<Rightarrow> (sms_error, byte list \<times> pduCursor) res" where
  "cursorBytes cursor count =
    (if cindex cursor + count > length (cdata cursor) then err PDUTruncated
     else rbind (slice (cdata cursor) (cindex cursor) (cindex cursor + count))
            (\<lambda>v. Inr (v, cursor\<lparr>cindex := cindex cursor + count\<rparr>)))"

subsection \<open>Addresses\<close>

fun addressDigits :: "byte list \<Rightarrow> nat \<Rightarrow> nat \<Rightarrow> gostring" where
  "addressDigits [] digits written = []"
| "addressDigits (digit # ds) digits written =
    (if written \<ge> digits then []
     else if unat digit \<le> 9 then (48 + unat digit) # addressDigits ds digits (written + 1)
     else addressDigits ds digits written)"

definition decodeNumericAddress :: "byte list \<Rightarrow> nat \<Rightarrow> byte \<Rightarrow> gostring" where
  "decodeNumericAddress v digits toa =
    (if toa AND 0x70 = 0x10 then [43] else [])
    @ addressDigits (concat (map (\<lambda>octet. [octet AND 0x0f, drop_bit 4 octet]) v)) digits 0"

definition hasZeroGSM7Padding :: "byte list \<Rightarrow> nat \<Rightarrow> bool" where
  "hasZeroGSM7Padding d septetCount =
    (if septetCount = 0 \<or> septetCount * 7 > length d * 8 then False
     else list_all (\<lambda>b. (d ! (b div 8)) AND push_bit (b mod 8) 1 = 0) [septetCount * 7..<length d * 8])"

text \<open>The byte and septet count of an address, with the fallback for a character count.\<close>

definition alphanumericLengths :: "pduCursor \<Rightarrow> nat \<Rightarrow> (sms_error, nat \<times> nat) res" where
  "alphanumericLengths cursor l =
    (let byteCount = (l + 1) div 2; septetCount = l * 4 div 7;
         fallback = ((l * 7 + 7) div 8, l)
     in if byteCount = 0 \<or> cindex cursor + byteCount > length (cdata cursor) then Inr fallback
        else rbind (slice (cdata cursor) (cindex cursor) (cindex cursor + byteCount)) (\<lambda>window.
          Inr (if \<not> hasZeroGSM7Padding window septetCount then fallback else (byteCount, septetCount))))"

definition readTPAddress :: "pduCursor \<Rightarrow> (sms_error, gostring \<times> pduCursor) res" where
  "readTPAddress cursor =
    rbind (cursorByte cursor) (\<lambda>(l, cursor).
    rbind (cursorByte cursor) (\<lambda>(toa, cursor).
    rbind (if toa AND 0x70 = 0x50 then alphanumericLengths cursor (unat l)
           else Inr ((unat l + 1) div 2, 0)) (\<lambda>(byteCount, septetCount).
    rbind (cursorBytes cursor byteCount) (\<lambda>(v, cursor).
      if toa AND 0x70 = 0x50 then
        (case unpackSeptets v (int septetCount) 0 of
           None \<Rightarrow> err GSM7Truncated
         | Some septets \<Rightarrow>
             (case decodeGSM7 septets of
                (s, None) \<Rightarrow> Inr (s, cursor)
              | (s, Some e) \<Rightarrow> err (GSM7Failed e)))
      else Inr (decodeNumericAddress v (unat l) toa, cursor)))))"

subsection \<open>Data coding scheme\<close>

datatype smsAlphabet = smsAlphabetGSM7 | smsAlphabet8Bit | smsAlphabetUCS2 | smsAlphabetUnknown

definition decodeSMSAlphabet :: "byte \<Rightarrow> smsAlphabet" where
  "decodeSMSAlphabet dcs =
    (if dcs AND 0x80 = 0 then
       if dcs AND 0x20 \<noteq> 0 then smsAlphabetUnknown
       else (let g = drop_bit 2 dcs AND 0x03 in
         if g = 0 then smsAlphabetGSM7 else if g = 1 then smsAlphabet8Bit
         else if g = 2 then smsAlphabetUCS2 else smsAlphabetUnknown)
     else if dcs AND 0xe0 = 0xc0 then smsAlphabetGSM7
     else if dcs AND 0xf0 = 0xe0 then smsAlphabetUCS2
     else if dcs AND 0xf0 = 0xf0 then (if dcs AND 0x04 \<noteq> 0 then smsAlphabet8Bit else smsAlphabetGSM7)
     else smsAlphabetUnknown)"

definition isSIMDataDownload :: "byte \<Rightarrow> byte \<Rightarrow> bool" where
  "isSIMDataDownload pid dcs =
    (if pid \<noteq> 0x7f then False
     else if dcs AND 0xf0 = 0xf0 then dcs AND 0x03 = 0x02
     else dcs AND 0xc0 = 0 \<and> dcs AND 0x10 \<noteq> 0 \<and> dcs AND 0x03 = 0x02)"

definition smsDeliveryStatus :: "byte \<Rightarrow> string" where
  "smsDeliveryStatus status =
    (if unat status \<le> 0x1f then ''delivered''
     else if unat status \<le> 0x3f then ''temporary_error''
     else if unat status \<le> 0x5f then ''permanent_error''
     else if unat status \<le> 0x7f then ''temporary_error_no_retry''
     else ''reserved'')"

subsection \<open>User data header\<close>

text \<open>
  The three walks over the information elements of a header. \<open>header\<close> is what is left from the
  index on; the loop condition \<open>index+1 < len(header)\<close> says that two octets are left.
\<close>

fun userDataHeaderLanguage :: "byte list \<Rightarrow> byte \<Rightarrow> nat option" where
  "userDataHeaderLanguage (i # l # rest) identifier =
    (if unat l > length rest then None
     else if i = identifier \<and> unat l = 1 then Some (unat (rest ! 0))
     else userDataHeaderLanguage (drop (unat l) rest) identifier)"
| "userDataHeaderLanguage _ identifier = None"

fun hasApplicationPortAddressing :: "byte list \<Rightarrow> bool" where
  "hasApplicationPortAddressing (i # l # rest) =
    (if unat l > length rest then True
     else if i = 0x04 \<and> unat l = 2 \<or> i = 0x05 \<and> unat l = 4 then True
     else hasApplicationPortAddressing (drop (unat l) rest))"
| "hasApplicationPortAddressing _ = False"

fun parseConcatHeader :: "byte list \<Rightarrow> SMSConcatInfo option" where
  "parseConcatHeader (i # l # rest) =
    (if unat l > length rest then None
     else let v = take (unat l) rest in
       if i = 0x00 \<and> unat l = 3 then
         Some \<lparr>Reference = unat (v ! 0), Total = unat (v ! 1), Sequence = unat (v ! 2)\<rparr>
       else if i = 0x08 \<and> unat l = 4 then
         Some \<lparr>Reference = unat (v ! 0) * 256 + unat (v ! 1), Total = unat (v ! 2), Sequence = unat (v ! 3)\<rparr>
       else parseConcatHeader (drop (unat l) rest))"
| "parseConcatHeader _ = None"

subsection \<open>Text payloads\<close>

definition printable :: "text_env \<Rightarrow> rune \<Rightarrow> bool" where
  "printable env c \<longleftrightarrow> isPrint env c \<or> c = 10 \<or> c = 13 \<or> c = 9"

definition readableText :: "text_env \<Rightarrow> gostring \<Rightarrow> bool" where
  "readableText env s =
    (if s = [] then True else length (filter (printable env) s) * 100 \<ge> length s * 90)"

fun utf16Units :: "bool \<Rightarrow> byte list \<Rightarrow> 16 word list" where
  "utf16Units littleEndian (a # b # payload) =
    (if littleEndian then un16 b a else un16 a b) # utf16Units littleEndian payload"
| "utf16Units littleEndian _ = []"

definition decodeUTF16Bytes :: "text_env \<Rightarrow> byte list \<Rightarrow> gostring \<times> bool" where
  "decodeUTF16Bytes env payload =
    (if payload = [] then ([], True)
     else if odd (length payload) then ([], False)
     else
       let littleEndian = payload ! 0 = 0xff \<and> payload ! 1 = 0xfe;
           payload' = (if payload ! 0 = 0xfe \<and> payload ! 1 = 0xff \<or> littleEndian then drop 2 payload else payload);
           s = utf16Decode (utf16Units littleEndian payload')
       in (s, replacementChar \<notin> set s \<and> readableText env s))"

definition containsNonASCII :: "byte list \<Rightarrow> bool" where
  "containsNonASCII d = (\<exists>v \<in> set d. unat v \<ge> 0x80)"

fun latin1Loop :: "byte list \<Rightarrow> nat \<Rightarrow> nat option" where
  "latin1Loop [] ascii = Some ascii"
| "latin1Loop (v # payload) ascii =
    (if v = 10 \<or> v = 13 \<or> v = 9 \<or> unat v \<ge> 0x20 \<and> unat v \<le> 0x7e then latin1Loop payload (ascii + 1)
     else if unat v \<ge> 0xa0 then latin1Loop payload ascii
     else None)"

definition decodeLatin1Text :: "text_env \<Rightarrow> byte list \<Rightarrow> gostring \<times> bool" where
  "decodeLatin1Text env payload =
    (case latin1Loop payload 0 of
       None \<Rightarrow> ([], False)
     | Some ascii \<Rightarrow>
         if ascii = 0 \<or> ascii * 2 < length payload then ([], False)
         else (map unat payload, readableText env (map unat payload)))"

definition decodeTextBytes :: "text_env \<Rightarrow> byte list \<Rightarrow> byte list \<Rightarrow> (gostring \<times> SMSEncoding) option" where
  "decodeTextBytes env payload header =
    (if hasApplicationPortAddressing header \<or> payload = [] then None
     else
       let bom = (length payload \<ge> 2 \<and> (payload ! 0 = 0xfe \<and> payload ! 1 = 0xff \<or> payload ! 0 = 0xff \<and> payload ! 1 = 0xfe));
           (t16, ok16) = decodeUTF16Bytes env payload
       in if bom \<and> ok16 then Some (t16, SMSEncodingUCS2PDU)
       else if utf8Valid payload \<and> readableText env (utf8Decode payload)
       then Some (utf8Decode payload, SMSEncodingUTF8PDU)
       else
         let latin1 = (case decodeLatin1Text env payload of
               (s, True) \<Rightarrow> Some (s, SMSEncodingLatin1)
             | (s, False) \<Rightarrow> None)
         in if containsNonASCII payload then
              (case gb18030 env payload of
                 Some s \<Rightarrow>
                   if (\<exists>c \<in> set s. isHan env c) \<and> readableText env s then Some (s, SMSEncodingGB18030) else latin1
               | None \<Rightarrow> latin1)
            else latin1)"

definition decodeGSM7WithHeader :: "text_env \<Rightarrow> byte list \<Rightarrow> byte list \<Rightarrow> gostring \<times> sms_error option" where
  "decodeGSM7WithHeader env septets header =
    (let locking = userDataHeaderLanguage header 0x25; shift = userDataHeaderLanguage header 0x24 in
     if locking = None \<and> shift = None then
       (case decodeGSM7 septets of (s, e) \<Rightarrow> (s, map_option GSM7Failed e))
     else (case nationalDecode env locking shift septets of
         (s, ok) \<Rightarrow> (s, if ok then None else Some NationalTableFailed)))"

text \<open>\<open>decodeUserData\<close> once the header octets are known.\<close>

definition decodeUserText :: "text_env \<Rightarrow> smsAlphabet \<Rightarrow> byte list \<Rightarrow> nat \<Rightarrow> nat \<Rightarrow> byte list \<Rightarrow> SMSMessage \<Rightarrow> decoded" where
  "decodeUserText env alphabet d headerBytes udl header message =
    (case alphabet of
       smsAlphabetGSM7 \<Rightarrow>
         (let message = message\<lparr>msgEncoding := SMSEncodingGSM7PDU\<rparr>;
              headerSeptets = (if headerBytes > 0 then (headerBytes * 8 + 6) div 7 else 0)
          in case unpackSeptets d (int udl - int headerSeptets) (int (headerSeptets * 7)) of
               None \<Rightarrow> (message, Some (Fail GSM7Truncated))
             | Some septets \<Rightarrow>
                 (case decodeGSM7WithHeader env septets header of
                    (s, e) \<Rightarrow> (message\<lparr>msgText := s\<rparr>, map_option Fail e)))
     | smsAlphabetUCS2 \<Rightarrow>
         (let message = message\<lparr>msgEncoding := SMSEncodingUCS2PDU\<rparr> in
          orReturn (slice d headerBytes (length d)) message (\<lambda>payload.
            case decodeUTF16Bytes env payload of
              (s, True) \<Rightarrow> (message\<lparr>msgText := s\<rparr>, None)
            | (s, False) \<Rightarrow>
                (case decodeTextBytes env payload header of
                   Some (s, encoding) \<Rightarrow> (message\<lparr>msgText := s, msgEncoding := encoding\<rparr>, None)
                 | None \<Rightarrow> (message, Some (Fail InvalidUTF16)))))
     | _ \<Rightarrow>
         orReturn (slice d headerBytes (length d)) message (\<lambda>payload.
           case decodeTextBytes env payload header of
             Some (s, encoding) \<Rightarrow> (message\<lparr>msgText := s, msgEncoding := encoding\<rparr>, None)
           | None \<Rightarrow> (message\<lparr>msgEncoding := SMSEncoding8BitPDU, msgText := hexUpper payload\<rparr>, None)))"

definition decodeUserData :: "text_env \<Rightarrow> byte list \<Rightarrow> byte \<Rightarrow> byte \<Rightarrow> nat \<Rightarrow> SMSMessage \<Rightarrow> decoded" where
  "decodeUserData env data0 firstOctet dcs udl message =
    (let alphabet = decodeSMSAlphabet dcs;
         expectedBytes = (if alphabet = smsAlphabetGSM7 then (udl * 7 + 7) div 8 else udl)
     in if expectedBytes > length data0 then (message, Some (Fail UserDataTruncated))
        else orReturn (slice data0 0 expectedBytes) message (\<lambda>d.
          let message = message\<lparr>msgRawUserData := hexUpper d\<rparr> in
          if firstOctet AND 0x40 \<noteq> 0 then
            if d = [] then (message, Some (Fail MissingUserDataHeader))
            else orReturn (idx d 0) message (\<lambda>udhl.
              let headerBytes = unat udhl + 1 in
              if headerBytes > length d then (message, Some (Fail UserDataHeaderTruncated))
              else orReturn (slice d 1 headerBytes) message (\<lambda>header.
                decodeUserText env alphabet d headerBytes udl header
                  (message\<lparr>msgConcat := parseConcatHeader header\<rparr>)))
          else decodeUserText env alphabet d 0 udl [] message))"

subsection \<open>Timestamps\<close>

definition timestampComponent :: "byte \<Rightarrow> (sms_error, nat) res" where
  "timestampComponent octet =
    (let low = unat (octet AND 0x0f); high = unat (drop_bit 4 octet) in
     if low > 9 \<or> high > 9 then err InvalidSemiOctet else Inr (low * 10 + high))"

fun timestampParts :: "byte list \<Rightarrow> (sms_error, nat list) res" where
  "timestampParts [] = Inr []"
| "timestampParts (octet # octets) =
    rbind (timestampComponent octet) (\<lambda>p. rbind (timestampParts octets) (\<lambda>ps. Inr (p # ps)))"

definition decodeSMSTimestamp :: "byte list \<Rightarrow> (sms_error, sms_time) res" where
  "decodeSMSTimestamp v =
    (if length v \<noteq> 7 then err TimestampLength
     else rbind (timestampParts (take 6 v)) (\<lambda>parts.
       let zoneByte = v ! 6;
           negative = (zoneByte AND 0x08 \<noteq> 0)
       in case timestampComponent (zoneByte AND NOT 0x08) of
            Inl _ \<Rightarrow> err InvalidTimezone
          | Inr quarters \<Rightarrow>
              if quarters > 56 then err InvalidTimezone
              else
                let off = int (quarters * 15 * 60);
                    off = (if negative then - off else off);
                    y = (if parts ! 0 \<ge> 90 then 1900 + parts ! 0 else 2000 + parts ! 0)
                in if parts ! 1 < 1 \<or> parts ! 1 > 12 \<or> parts ! 2 < 1 \<or> parts ! 2 > 31
                     \<or> parts ! 3 > 23 \<or> parts ! 4 > 59 \<or> parts ! 5 > 60
                   then err InvalidTimestampComponent
                   else Inr \<lparr>year = y, month = parts ! 1, day = parts ! 2, hour = parts ! 3,
                             minute = parts ! 4, second = parts ! 5, offset = off\<rparr>))"

text \<open>\<open>if parsed, err := decodeSMSTimestamp(v); err == nil { ... }\<close>: an error is ignored.\<close>

fun ifParsed :: "(sms_error, 'a) res \<Rightarrow> ('a \<Rightarrow> SMSMessage \<Rightarrow> SMSMessage) \<Rightarrow> SMSMessage \<Rightarrow> SMSMessage" where
  "ifParsed (Inr t) set_field message = set_field t message"
| "ifParsed (Inl _) set_field message = message"

subsection \<open>The TPDU decoders\<close>

definition decodeDeliverPDU :: "text_env \<Rightarrow> pduCursor \<Rightarrow> byte \<Rightarrow> SMSMessage \<Rightarrow> decoded" where
  "decodeDeliverPDU env cursor firstOctet message =
    orReturn (readTPAddress cursor) message (\<lambda>(address, cursor).
    let message = message\<lparr>msgFrom := address\<rparr> in
    orReturn (cursorByte cursor) message (\<lambda>(pid, cursor).
    orReturn (cursorByte cursor) message (\<lambda>(dcs, cursor).
    let message = message\<lparr>msgProtocolID := unat pid, msgDataCodingScheme := unat dcs,
                          msgSIMDataDownload := isSIMDataDownload pid dcs\<rparr> in
    orReturn (cursorBytes cursor 7) message (\<lambda>(timestamp, cursor).
    let message = ifParsed (decodeSMSTimestamp timestamp) (\<lambda>t m. m\<lparr>msgServiceCenterTimestamp := Some t\<rparr>) message in
    orReturn (cursorByte cursor) message (\<lambda>(udl, cursor).
    orReturn (slice (cdata cursor) (cindex cursor) (length (cdata cursor))) message (\<lambda>rest.
      decodeUserData env rest firstOctet dcs (unat udl) message))))))"

text \<open>The validity period, by the two VPF bits.\<close>

definition skipValidity :: "byte \<Rightarrow> pduCursor \<Rightarrow> (sms_error, pduCursor) res" where
  "skipValidity firstOctet cursor =
    (let vpf = drop_bit 3 firstOctet AND 0x03 in
     if vpf = 2 then rbind (cursorByte cursor) (\<lambda>(_, cursor). Inr cursor)
     else if vpf = 1 \<or> vpf = 3 then rbind (cursorBytes cursor 7) (\<lambda>(_, cursor). Inr cursor)
     else Inr cursor)"

definition decodeSubmitPDU :: "text_env \<Rightarrow> pduCursor \<Rightarrow> byte \<Rightarrow> SMSMessage \<Rightarrow> decoded" where
  "decodeSubmitPDU env cursor firstOctet message =
    orReturn (cursorByte cursor) message (\<lambda>(reference, cursor).
    let message = message\<lparr>msgMessageReference := Some (unat reference)\<rparr> in
    orReturn (readTPAddress cursor) message (\<lambda>(address, cursor).
    let message = message\<lparr>msgTo := address\<rparr> in
    orReturn (cursorByte cursor) message (\<lambda>(pid, cursor).
    orReturn (cursorByte cursor) message (\<lambda>(dcs, cursor).
    let message = message\<lparr>msgProtocolID := unat pid, msgDataCodingScheme := unat dcs\<rparr> in
    orReturn (skipValidity firstOctet cursor) message (\<lambda>cursor.
    orReturn (cursorByte cursor) message (\<lambda>(udl, cursor).
    orReturn (slice (cdata cursor) (cindex cursor) (length (cdata cursor))) message (\<lambda>rest.
      decodeUserData env rest firstOctet dcs (unat udl) message)))))))"

definition decodeStatusReportPDU :: "pduCursor \<Rightarrow> SMSMessage \<Rightarrow> decoded" where
  "decodeStatusReportPDU cursor message =
    orReturn (cursorByte cursor) message (\<lambda>(reference, cursor).
    let message = message\<lparr>msgMessageReference := Some (unat reference)\<rparr> in
    orReturn (readTPAddress cursor) message (\<lambda>(address, cursor).
    let message = message\<lparr>msgTo := address\<rparr> in
    orReturn (cursorBytes cursor 7) message (\<lambda>(scts, cursor).
    orReturn (cursorBytes cursor 7) message (\<lambda>(discharge, cursor).
    orReturn (cursorByte cursor) message (\<lambda>(status, cursor).
    let message = message\<lparr>msgStatusCode := Some (unat status), msgDeliveryStatus := runes (smsDeliveryStatus status)\<rparr>;
        message = ifParsed (decodeSMSTimestamp scts) (\<lambda>t m. m\<lparr>msgServiceCenterTimestamp := Some t\<rparr>) message;
        message = ifParsed (decodeSMSTimestamp discharge) (\<lambda>t m. m\<lparr>msgDischargeTimestamp := Some t\<rparr>) message
    in (message, None))))))"

definition decodeSMSPDU :: "text_env \<Rightarrow> gostring \<Rightarrow> decoded" where
  "decodeSMSPDU env raw0 =
    (let raw = ToUpper (upperTable env) (TrimSpace raw0);
         message = blankMessage SMSStatusUnknown SMSDirectionUnknown SMSEncodingUnknown raw
     in case hexDecode raw of
          None \<Rightarrow> (message, Some (Fail InvalidHex))
        | Some decoded \<Rightarrow>
            if length decoded < 2 then (message, Some (Fail PDUTooShort))
            else
              let cursor = \<lparr>cdata = decoded, cindex = 0\<rparr> in
              orReturn (cursorByte cursor) message (\<lambda>(smscLength, cursor).
              if unat smscLength > length decoded - 1 then (message, Some (Fail SMSCLengthExceeds))
              else orReturn (cursorBytes cursor (unat smscLength)) message (\<lambda>(smsc, cursor).
              let message = (if length smsc > 1
                    then message\<lparr>msgServiceCenter := decodeNumericAddress (drop 1 smsc) ((length smsc - 1) * 2) (smsc ! 0)\<rparr>
                    else message)
              in orReturn (cursorByte cursor) message (\<lambda>(firstOctet, cursor).
                if firstOctet AND 0x03 = 0 then
                  decodeDeliverPDU env cursor firstOctet (message\<lparr>msgDirection := SMSDirectionReceived\<rparr>)
                else if firstOctet AND 0x03 = 1 then
                  decodeSubmitPDU env cursor firstOctet (message\<lparr>msgDirection := SMSDirectionSubmitted\<rparr>)
                else if firstOctet AND 0x03 = 2 then
                  decodeStatusReportPDU cursor (message\<lparr>msgDirection := SMSDirectionStatusReport\<rparr>)
                else (message, Some (Fail UnsupportedMessageType))))))"

text \<open>With an empty TPDU the message is the zero value of the struct, which no caller reads: None.\<close>

definition DecodeSMSDeliverTPDU :: "text_env \<Rightarrow> byte list \<Rightarrow> SMSMessage option \<times> sms_error fault option" where
  "DecodeSMSDeliverTPDU env tpdu =
    (if tpdu = [] then (None, Some (Fail EmptyTPDU)) else apfst Some (decodeSMSPDU env (hexEncode (0 # tpdu))))"

end
