(* ===== verification/Sms_RoundTrip.thy ===== *)
theory Sms_RoundTrip
  imports Sms_Segments SmsDecode
begin

text \<open>
  What the decoder makes of the TPDUs the encoder writes: the cursor over a concatenation, the
  address, the user data header, and the two alphabets.
\<close>

subsection \<open>The cursor over a concatenation\<close>

definition cursorAt :: "byte list \<Rightarrow> byte list \<Rightarrow> pduCursor" where
  "cursorAt pre rest = \<lparr>cdata = pre @ rest, cindex = length pre\<rparr>"

lemma cursorByte_at [simp]: "cursorByte (cursorAt pre (b # rest)) = Inr (b, cursorAt (pre @ [b]) rest)"
  by (simp add: cursorByte_def cursorAt_def idx_def)

lemma cursorBytes_at:
  "length xs = n \<Longrightarrow> cursorBytes (cursorAt pre (xs @ rest)) n = Inr (xs, cursorAt (pre @ xs) rest)"
  by (auto simp: cursorBytes_def cursorAt_def slice_def)

lemma cursorBytes_0 [simp]: "cursorBytes (cursorAt pre rest) 0 = Inr ([], cursorAt pre rest)"
  by (simp add: cursorBytes_def cursorAt_def slice_def)

lemma rest_at [simp]:
  "(slice (cdata (cursorAt pre rest)) (cindex (cursorAt pre rest)) (length (cdata (cursorAt pre rest)))
     :: (sms_error, byte list) res) = Inr rest"
  by (simp add: cursorAt_def slice_def)

subsection \<open>Addresses\<close>

definition nibbles :: "byte list \<Rightarrow> byte list" where
  "nibbles v = concat (map (\<lambda>octet. [octet AND 0x0f, drop_bit 4 octet]) v)"

lemma octet_nibbles:
  assumes "h < 16" and "l < 16"
  shows "(push_bit 4 (word_of_nat h) OR word_of_nat l :: byte) AND 0x0f = word_of_nat l"
    and "drop_bit 4 (push_bit 4 (word_of_nat h) OR word_of_nat l :: byte) = word_of_nat h"
proof -
  have nib: "\<not> bit (word_of_nat n :: byte) k" if "n < 16" "4 \<le> k" for n k
  proof -
    have "n div 2 ^ k = 0" using that power_increasing[of 4 k "2 :: nat"] by (intro div_less) simp
    then have "\<not> bit n k" by (simp add: bit_iff_odd)
    then show ?thesis by (simp add: bit_of_nat_iff)
  qed
  have m: "(0x0f :: byte) = mask 4" by (simp add: mask_eq_exp_minus_1)
  have low: "bit (word_of_nat l :: byte) k \<Longrightarrow> k < 4" "bit (word_of_nat h :: byte) k \<Longrightarrow> k < 4" for k
    using nib[OF assms(1), of k] nib[OF assms(2), of k] by (auto simp: not_less[symmetric])
  show "(push_bit 4 (word_of_nat h) OR word_of_nat l :: byte) AND 0x0f = word_of_nat l"
    unfolding m by (rule bit_word_eqI) (auto simp: bit_and_iff bit_or_iff bit_mask_iff bit_push_bit_iff dest: low)
  show "drop_bit 4 (push_bit 4 (word_of_nat h) OR word_of_nat l :: byte) = word_of_nat h"
    by (rule bit_word_eqI) (auto simp: bit_or_iff bit_push_bit_iff bit_drop_bit_eq dest: low)
qed

lemma digit_octet:
  assumes "isDigit h" and "isDigit l"
  shows "unat ((push_bit 4 (word_of_nat (h - 48)) OR word_of_nat (l - 48) :: byte) AND 0x0f) = l - 48"
    and "unat (drop_bit 4 (push_bit 4 (word_of_nat (h - 48)) OR word_of_nat (l - 48) :: byte)) = h - 48"
  using assms octet_nibbles[of "h - 48" "l - 48"] by (auto simp: isDigit_def unat_of_nat8 simp del: of_nat_diff)

lemma last_octet:
  assumes "isDigit l"
  shows "unat ((push_bit 4 0x0f OR word_of_nat (l - 48) :: byte) AND 0x0f) = l - 48"
  using assms octet_nibbles(1)[of 15 "l - 48"] by (auto simp: isDigit_def unat_of_nat8 simp del: of_nat_diff)

lemma addressDigits_semiOctets:
  "semiOctets digits = Inr a \<Longrightarrow> length a = (length digits + 1) div 2 \<and>
     (\<forall>written. addressDigits (nibbles a) (written + length digits) written = digits)"
proof (induction digits arbitrary: a rule: semiOctets.induct)
  case 1
  then show ?case by (simp add: nibbles_def)
next
  case (2 low)
  then have "a = [push_bit 4 0x0f OR word_of_nat (low - 48)]" "isDigit low" by (auto split: if_splits)
  then show ?case using last_octet[of low] by (auto simp: nibbles_def isDigit_def)
next
  case (3 low high digits)
  then obtain r where r: "semiOctets digits = Inr r" "isDigit low" "isDigit high"
      "a = (push_bit 4 (word_of_nat (high - 48)) OR word_of_nat (low - 48)) # r"
    by (auto simp: rbind_Inr_iff split: if_splits)
  have IH: "length r = (length digits + 1) div 2" "\<And>w. addressDigits (nibbles r) (w + length digits) w = digits"
    using "3.IH"[of r] r by auto
  have "addressDigits (nibbles r) (Suc (Suc (w + length digits))) (Suc (Suc w)) = digits" for w
    using IH(2)[of "Suc (Suc w)"] by simp
  then show ?case using IH(1) r digit_octet[OF r(3,2)] by (auto simp: nibbles_def isDigit_def)
qed

definition validRecipient :: "gostring \<Rightarrow> bool" where
  "validRecipient r \<longleftrightarrow> 1 \<le> length (trimPlus r) \<and> length (trimPlus r) \<le> 20 \<and> (\<forall>c \<in> set (trimPlus r). isDigit c)"

lemma semiOctets_digits: "\<forall>c \<in> set digits. isDigit c \<Longrightarrow> \<exists>a. semiOctets digits = Inr a"
  by (induction digits rule: semiOctets.induct) (auto simp: rbind_Inr_iff)

lemma readTPAddress_numeric:
  assumes "validRecipient r" and "semiOctets (trimPlus r) = Inr a"
  shows "readTPAddress (cursorAt pre (word_of_nat (length (trimPlus r)) # (if hasPlus r then 0x91 else 0x81) # a @ rest))
    = Inr (r, cursorAt (pre @ [word_of_nat (length (trimPlus r)), if hasPlus r then 0x91 else 0x81] @ a) rest)"
proof -
  have l: "unat (word_of_nat (length (trimPlus r)) :: byte) = length (trimPlus r)"
    using assms(1) by (simp add: validRecipient_def unat_of_nat8)
  have a: "length a = (length (trimPlus r) + 1) div 2"
    "addressDigits (nibbles a) (length (trimPlus r)) 0 = trimPlus r"
    using addressDigits_semiOctets[OF assms(2)] by (auto dest: spec[of _ 0])
  have "(if hasPlus r then 43 # trimPlus r else trimPlus r) = r"
    by (cases r) (auto simp: hasPlus_def trimPlus_def)
  then have "decodeNumericAddress a (length (trimPlus r)) (if hasPlus r then 0x91 else 0x81) = r"
    using a(2) by (auto simp: decodeNumericAddress_def nibbles_def)
  then show ?thesis using l a(1) by (simp add: readTPAddress_def cursorBytes_at)
qed

subsection \<open>A submitted TPDU\<close>

definition submitOctets :: "gostring \<Rightarrow> byte \<Rightarrow> byte list \<Rightarrow> byte \<Rightarrow> byte \<Rightarrow> byte list \<Rightarrow> byte list" where
  "submitOctets r firstOctet a dcs udl ud =
    [firstOctet, 0x00, word_of_nat (length (trimPlus r)), if hasPlus r then 0x91 else 0x81] @ a @ [0x00, dcs, udl] @ ud"

definition submitMessage :: "text_env \<Rightarrow> gostring \<Rightarrow> byte \<Rightarrow> gostring \<Rightarrow> SMSMessage" where
  "submitMessage env raw dcs r =
    blankMessage SMSStatusUnknown SMSDirectionSubmitted SMSEncodingUnknown (ToUpper (upperTable env) raw)
      \<lparr>msgMessageReference := Some 0, msgTo := r, msgProtocolID := 0, msgDataCodingScheme := unat dcs\<rparr>"

lemma decodeSMSPDU_submitOctets:
  assumes "validRecipient r" and "semiOctets (trimPlus r) = Inr a" and "firstOctet = 0x21 \<or> firstOctet = 0x61"
  shows "decodeSMSPDU env (hexEncode (0 # submitOctets r firstOctet a dcs udl ud)) =
    decodeUserData env ud firstOctet dcs (unat udl)
      (submitMessage env (hexEncode (0 # submitOctets r firstOctet a dcs udl ud)) dcs r)"
proof -
  obtain tail where tail: "tail = word_of_nat (length (trimPlus r)) # (if hasPlus r then 0x91 else 0x81) # a @ ([0x00, dcs, udl] @ ud)"
    by simp
  obtain raw where raw: "raw = hexEncode (0 # submitOctets r firstOctet a dcs udl ud)" by simp
  have octets: "submitOctets r firstOctet a dcs udl ud = firstOctet # 0 # tail" by (simp add: submitOctets_def tail)
  have address: "\<exists>pre'. readTPAddress (cursorAt pre tail) = Inr (r, cursorAt pre' (0x00 # dcs # udl # ud))" for pre
    using readTPAddress_numeric[OF assms(1,2), of pre "[0x00, dcs, udl] @ ud"] unfolding tail by auto
  have c: "\<lparr>cdata = 0 # firstOctet # 0 # tail, cindex = 0\<rparr> = cursorAt [] (0 # firstOctet # 0 # tail)"
    by (simp add: cursorAt_def)
  have bits: "firstOctet AND 0x03 = 1" "drop_bit 3 firstOctet AND 0x03 = 0" using assms(3) by auto
  have sub: "decodeSubmitPDU env (cursorAt pre (0 # tail)) firstOctet m =
      decodeUserData env ud firstOctet dcs (unat udl)
        (m\<lparr>msgMessageReference := Some 0, msgTo := r, msgProtocolID := 0, msgDataCodingScheme := unat dcs\<rparr>)" for pre m
    using address[of "pre @ [0]"] by (auto simp: decodeSubmitPDU_def Let_def skipValidity_def bits)
  have dir: "(blankMessage SMSStatusUnknown SMSDirectionUnknown SMSEncodingUnknown s)\<lparr>msgDirection := SMSDirectionSubmitted\<rparr>
    = blankMessage SMSStatusUnknown SMSDirectionSubmitted SMSEncodingUnknown s" for s
    by (simp add: blankMessage_def)
  have hex: "hexDecode (ToUpper (upperTable env) (TrimSpace raw)) = Some (0 # firstOctet # 0 # tail)"
    unfolding raw octets by (simp only: TrimSpace_hexEncode hexDecode_ToUpper)
  have trim: "TrimSpace raw = raw" unfolding raw by (rule TrimSpace_hexEncode)
  show ?thesis
    unfolding raw[symmetric] decodeSMSPDU_def Let_def hex option.case c
    by (simp add: sub bits dir submitMessage_def trim)
qed

subsection \<open>User data\<close>

lemma concat_header:
  "parseConcatHeader [0, 3, reference, n, i] = Some \<lparr>Reference = unat reference, Total = unat n, Sequence = unat i\<rparr>"
  "userDataHeaderLanguage [0, 3, reference, n, i] 0x25 = None"
  "userDataHeaderLanguage [0, 3, reference, n, i] 0x24 = None"
  by simp_all

lemma encodeGSM7_septets: "encodeGSM7 t = Some s \<Longrightarrow> \<forall>x \<in> set s. unat x < 128"
proof (induction t arbitrary: s)
  case (Cons ch t)
  then obtain bs s' where bs: "map_of gsm7Encoder ch = Some bs" "encodeGSM7 t = Some s'" "s = bs @ s'"
    by (auto split: option.splits)
  have "unat code < 128" if "map_of gsm7ExtensionAlphabet code = Some ch" for code
    using that by (auto simp: gsm7ExtensionAlphabet_def split: if_splits)
  then have "\<forall>x \<in> set bs. unat x < 128" using bs(1) by (auto simp: gsm7Encoder_Some)
  then show ?case using bs Cons.IH[OF bs(2)] by auto
qed simp

lemma decodeUserData_GSM7_plain:
  assumes t: "encodeGSM7 t = Some septets" and n: "septets \<noteq> []" "length septets \<le> 160"
  shows "decodeUserData env (packSeptets septets 0) 0x21 0x00 (length septets) m
    = (m\<lparr>msgRawUserData := hexUpper (packSeptets septets 0), msgEncoding := SMSEncodingGSM7PDU, msgText := t\<rparr>, None)"
proof -
  have len: "length (packSeptets septets 0) = (length septets * 7 + 7) div 8"
    using n by (simp add: length_packSeptets)
  have small: "\<forall>x \<in> set septets. unat x < 128" using encodeGSM7_septets[OF t] .
  have "unpackSeptets (packSeptets septets 0) (int (length septets)) 0 = Some septets"
    using unpack_pack_septets[OF small n(1), of "packSeptets septets 0" 0] by simp
  moreover have "decodeSMSAlphabet 0x00 = smsAlphabetGSM7" by (simp add: decodeSMSAlphabet_def Let_def)
  ultimately show ?thesis
    using decodeGSM7_encodeGSM7[OF t]
    by (simp add: decodeUserData_def Let_def len slice_def decodeUserText_def decodeGSM7WithHeader_def)
qed

lemma bitAt_copyInto: "8 * length source \<le> k \<Longrightarrow> k < 8 * length d \<Longrightarrow> bitAt (copyInto d source) k = bitAt d k"
proof -
  assume k: "8 * length source \<le> k" "k < 8 * length d"
  then have "length source \<le> k div 8" "k div 8 < length d" by linarith+
  then show "bitAt (copyInto d source) k = bitAt d k"
    by (simp add: bitAt_def copyInto_def nth_append)
qed

lemma length_copyInto: "length source \<le> length d \<Longrightarrow> length (copyInto d source) = length d"
  by (simp add: copyInto_def)

lemma decodeUserData_GSM7_concat:
  assumes t: "encodeGSM7 t = Some septets" and n: "septets \<noteq> []" "length septets \<le> 153"
    and d_def: "d = copyInto (packSeptets septets 49) [0x05, 0x00, 0x03, reference, parts, i]"
  shows "decodeUserData env d 0x61 0x00 (7 + length septets) m
    = (m\<lparr>msgRawUserData := hexUpper d,
         msgConcat := Some \<lparr>Reference = unat reference, Total = unat parts, Sequence = unat i\<rparr>,
         msgEncoding := SMSEncodingGSM7PDU, msgText := t\<rparr>, None)"
proof -
  have small: "\<forall>x \<in> set septets. unat x < 128" using encodeGSM7_septets[OF t] .
  have lp: "length (packSeptets septets 49) = (49 + length septets * 7 + 7) div 8"
    using n by (simp add: length_packSeptets)
  have six: "6 \<le> length (packSeptets septets 49)" using lp by linarith
  then have len: "length d = ((7 + length septets) * 7 + 7) div 8"
    unfolding d_def by (subst length_copyInto) (auto simp: lp algebra_simps)
  have "\<forall>k. 49 \<le> k \<longrightarrow> k < 8 * length d \<longrightarrow> bitAt d k = bitAt (packSeptets septets 49) k"
    using six unfolding d_def by (auto simp: length_copyInto bitAt_copyInto)
  moreover have "length d = length (packSeptets septets 49)" unfolding d_def using six by (intro length_copyInto) simp
  ultimately have u: "unpackSeptets d (int (length septets)) 49 = Some septets"
    using unpack_pack_septets[OF small n(1), of d 49] by simp
  obtain rest where d: "d = 0x05 # 0x00 # 0x03 # reference # parts # i # rest"
    using six that by (simp add: d_def copyInto_def take_all)
  have alpha: "decodeSMSAlphabet 0x00 = smsAlphabetGSM7" by (simp add: decodeSMSAlphabet_def Let_def)
  have d0: "(idx d 0 :: (sms_error, byte) res) = Inr 0x05" and d6: "6 \<le> length d" "d \<noteq> []"
    and h: "(slice d 1 6 :: (sms_error, byte list) res) = Inr [0x00, 0x03, reference, parts, i]"
    unfolding d by (simp_all add: idx_def slice_def)
  have "(slice d 0 (((7 + length septets) * 7 + 7) div 8) :: (sms_error, byte list) res) = Inr d"
    unfolding len[symmetric] by (simp add: slice_def)
  moreover have "int (7 + length septets) - int ((6 * 8 + 6) div 7) = int (length septets)" by simp
  ultimately show ?thesis
    unfolding decodeUserData_def Let_def alpha
    using d0 d6 h len u decodeGSM7_encodeGSM7[OF t]
    by (simp add: decodeUserText_def Let_def decodeGSM7WithHeader_def)
qed

subsection \<open>UCS-2\<close>

definition plainText :: "text_env \<Rightarrow> gostring \<Rightarrow> bool" where
  "plainText env t \<longleftrightarrow> (\<forall>r \<in> set t. scalar r \<and> printable env r \<and> r \<noteq> replacementChar \<and> r \<noteq> 0xFEFF \<and> r \<noteq> 0xFFFE)"

lemma utf16Units_encode [simp]: "utf16Units False (encodeUCS2Units units) = units"
  by (induction units) (auto simp: encodeUCS2Units_def)

lemma length_encodeUCS2Units [simp]: "length (encodeUCS2Units units) = 2 * length units"
  by (induction units) (auto simp: encodeUCS2Units_def)

lemma readableText_plain: "plainText env t \<Longrightarrow> readableText env t"
  by (auto simp: readableText_def plainText_def filter_id_conv[THEN iffD2])

lemma first_unit_no_mark:
  assumes "carriesUnits (u # us) t" and "plainText env t"
  shows "u \<noteq> 0xFEFF" and "u \<noteq> 0xFFFE"
proof -
  obtain ch t' us' where t: "t = ch # t'" "scalar ch" "u # us = utf16Rune ch @ us'"
    using assms(1) by (cases t) (auto simp: carriesUnits_Cons)
  have "unat u \<noteq> 0xFEFF \<and> unat u \<noteq> 0xFFFE"
    using t(2)
  proof (cases rule: utf16Rune_cases)
    case (1 v)
    have "ch < 0x10000"
    proof (rule ccontr)
      assume "\<not> ch < 0x10000"
      then show False using 1(1) t(2) by (simp add: utf16Rune_def)
    qed
    then have "u = word_of_nat ch" using t 1 by (auto simp: utf16Rune_def)
    then show ?thesis using \<open>ch < 0x10000\<close> assms(2) t(1) by (auto simp: plainText_def unat_of_nat16)
  next
    case (2 h l)
    then show ?thesis using t(3) by (auto simp: isHigh_def)
  qed
  then show "u \<noteq> 0xFEFF" and "u \<noteq> 0xFFFE" by auto
qed

lemma decodeUTF16Bytes_encode:
  assumes "carriesUnits units t" and "plainText env t"
  shows "decodeUTF16Bytes env (encodeUCS2Units units) = (t, True)"
proof (cases units)
  case Nil
  then have "t = []" using assms(1) units.carries_Nil by simp
  then show ?thesis using Nil by (simp add: decodeUTF16Bytes_def encodeUCS2Units_def)
next
  case (Cons u us)
  have "utf16Decode units = t" using assms(1) by (auto simp: carriesUnits_def)
  moreover have "replacementChar \<notin> set t" using assms(2) by (auto simp: plainText_def)
  moreover have "\<not> (ucast (drop_bit 8 u) = (0xfe :: byte) \<and> ucast u = (0xff :: byte))"
    and "\<not> (ucast (drop_bit 8 u) = (0xff :: byte) \<and> ucast u = (0xfe :: byte))"
    using first_unit_no_mark[of u us t] assms Cons un16_put16[of u]
    by (auto simp del: un16_put16) (auto simp: un16_def)
  moreover obtain payload where p: "payload = encodeUCS2Units units" by simp
  have "payload ! 0 = ucast (drop_bit 8 u)" "payload ! 1 = ucast u" "payload \<noteq> []"
    unfolding p Cons by (simp_all add: encodeUCS2Units_def)
  moreover have "utf16Units False payload = units" "even (length payload)" unfolding p by simp_all
  ultimately show ?thesis
    using readableText_plain[OF assms(2)] unfolding p[symmetric]
    by (auto simp: decodeUTF16Bytes_def Let_def)
qed

lemma decodeUserData_UCS2_plain:
  assumes t: "carriesUnits units t" "plainText env t"
  shows "decodeUserData env (encodeUCS2Units units) 0x21 0x08 (2 * length units) m
    = (m\<lparr>msgRawUserData := hexUpper (encodeUCS2Units units), msgEncoding := SMSEncodingUCS2PDU, msgText := t\<rparr>, None)"
proof -
  obtain d where d: "d = encodeUCS2Units units" by simp
  have "length d = 2 * length units" "decodeUTF16Bytes env d = (t, True)"
    using decodeUTF16Bytes_encode[OF t] by (simp_all add: d)
  moreover have "decodeSMSAlphabet 0x08 = smsAlphabetUCS2" by (simp add: decodeSMSAlphabet_def Let_def)
  ultimately show ?thesis
    unfolding d[symmetric] by (simp add: decodeUserData_def Let_def slice_def decodeUserText_def)
qed

lemma decodeUserData_UCS2_concat:
  assumes t: "carriesUnits units t" "plainText env t"
    and d_def: "d = [0x05, 0x00, 0x03, reference, parts, i] @ encodeUCS2Units units"
  shows "decodeUserData env d 0x61 0x08 (6 + 2 * length units) m
    = (m\<lparr>msgRawUserData := hexUpper d,
         msgConcat := Some \<lparr>Reference = unat reference, Total = unat parts, Sequence = unat i\<rparr>,
         msgEncoding := SMSEncodingUCS2PDU, msgText := t\<rparr>, None)"
proof -
  obtain p where p: "p = encodeUCS2Units units" by simp
  have lp: "length p = 2 * length units" and dp: "decodeUTF16Bytes env p = (t, True)"
    using decodeUTF16Bytes_encode[OF t] by (simp_all add: p)
  have d: "d = 0x05 # 0x00 # 0x03 # reference # parts # i # p" by (simp add: d_def p)
  have alpha: "decodeSMSAlphabet 0x08 = smsAlphabetUCS2" by (simp add: decodeSMSAlphabet_def Let_def)
  have len: "length d = 6 + 2 * length units" by (simp add: d lp)
  have d0: "(idx d 0 :: (sms_error, byte) res) = Inr 0x05" and d6: "6 \<le> length d" "d \<noteq> []"
    and h: "(slice d 1 6 :: (sms_error, byte list) res) = Inr [0x00, 0x03, reference, parts, i]"
    and pl: "(slice d 6 (length d) :: (sms_error, byte list) res) = Inr p"
    unfolding d by (simp_all add: idx_def slice_def)
  have "(slice d 0 (6 + 2 * length units) :: (sms_error, byte list) res) = Inr d"
    unfolding len[symmetric] by (simp add: slice_def)
  then show ?thesis
    unfolding decodeUserData_def Let_def alpha
    using d0 d6 h pl len dp by (simp add: decodeUserText_def Let_def)
qed

end
