(* ===== verification/Sms_Submit.thy ===== *)
theory Sms_Submit
  imports Sms_RoundTrip
begin

text \<open>
  What \<open>PrepareSMSSubmitTPDUs\<close> returns on each branch: one TPDU, or the TPDUs of the segments of a
  concatenated message, as octets (\<open>prepare_outcome\<close>). The properties of outgoing messages are
  read off this characterisation.
\<close>

subsection \<open>Recipients\<close>

lemma isDigit_not_plus: "isDigit c \<Longrightarrow> c \<noteq> 43"
  by (simp add: isDigit_def)

lemma normalize_valid: "normalizeSMSRecipient v = Inr r \<Longrightarrow> validRecipient r"
  by (auto simp: normalizeSMSRecipient_def validRecipient_def rbind_Inr_iff Let_def Suc_le_eq split: if_splits)

lemma encodeSemiOctets_valid: "validRecipient r \<Longrightarrow> \<exists>a. encodeSemiOctets (trimPlus r) = Inr a \<and> semiOctets (trimPlus r) = Inr a"
  using semiOctets_digits[of "trimPlus r"] by (auto simp: validRecipient_def encodeSemiOctets_def)

subsection \<open>The encoder on each alphabet\<close>

lemma copyInto_Nil [simp]: "copyInto d [] = d"
  by (simp add: copyInto_def)

definition gsm7Octets :: "gostring \<Rightarrow> byte list \<Rightarrow> byte list \<Rightarrow> byte list" where
  "gsm7Octets r a s = submitOctets r 0x21 a 0x00 (word_of_nat (length s)) (packSeptets s 0)"

definition gsm7ConcatOctets :: "gostring \<Rightarrow> byte list \<Rightarrow> byte \<Rightarrow> nat \<Rightarrow> nat \<Rightarrow> byte list \<Rightarrow> byte list" where
  "gsm7ConcatOctets r a reference n i s =
    submitOctets r 0x61 a 0x00 (word_of_nat (7 + length s)) (copyInto (packSeptets s 49) (concatUDH reference n i))"

definition ucs2Octets :: "gostring \<Rightarrow> byte list \<Rightarrow> 16 word list \<Rightarrow> byte list" where
  "ucs2Octets r a units = submitOctets r 0x21 a 0x08 (word_of_nat (2 * length units)) (encodeUCS2Units units)"

definition ucs2ConcatOctets :: "gostring \<Rightarrow> byte list \<Rightarrow> byte \<Rightarrow> nat \<Rightarrow> nat \<Rightarrow> 16 word list \<Rightarrow> byte list" where
  "ucs2ConcatOctets r a reference n i units =
    submitOctets r 0x61 a 0x08 (word_of_nat (6 + 2 * length units)) (concatUDH reference n i @ encodeUCS2Units units)"

lemmas octets_defs = gsm7Octets_def gsm7ConcatOctets_def ucs2Octets_def ucs2ConcatOctets_def

lemma encodeSubmit_gsm7:
  assumes "encodeSemiOctets (trimPlus r) = Inr a" and "length s \<le> 160"
  shows "encodeSubmitPDU r (Some s) None = Inr (hexUpper (0 # gsm7Octets r a s), length (gsm7Octets r a s))"
  using assms by (simp add: encodeSubmitPDU_def encodeSubmitPDUWithHeader_def Let_def octets_defs submitOctets_def)

lemma encodeSubmit_gsm7_concat:
  assumes "encodeSemiOctets (trimPlus r) = Inr a" and "length s \<le> 153"
  shows "encodeSubmitPDUWithHeader r (Some s) None (concatUDH reference n i)
    = Inr (hexUpper (0 # gsm7ConcatOctets r a reference n i s), length (gsm7ConcatOctets r a reference n i s))"
  using assms by (simp add: encodeSubmitPDUWithHeader_def Let_def octets_defs submitOctets_def concatUDH_def)

lemma encodeSubmit_ucs2:
  assumes "encodeSemiOctets (trimPlus r) = Inr a" and "length units \<le> 70"
  shows "encodeSubmitPDU r None (Some (encodeUCS2Units units))
    = Inr (hexUpper (0 # ucs2Octets r a units), length (ucs2Octets r a units))"
  using assms by (simp add: encodeSubmitPDU_def encodeSubmitPDUWithHeader_def Let_def octets_defs submitOctets_def)

lemma encodeSubmit_ucs2_concat:
  assumes "encodeSemiOctets (trimPlus r) = Inr a" and "length units \<le> 67"
  shows "encodeSubmitPDUWithHeader r None (Some (encodeUCS2Units units)) (concatUDH reference n i)
    = Inr (hexUpper (0 # ucs2ConcatOctets r a reference n i units), length (ucs2ConcatOctets r a reference n i units))"
  using assms by (simp add: encodeSubmitPDUWithHeader_def Let_def octets_defs submitOctets_def concatUDH_def)

subsection \<open>From a prepared part to its TPDU\<close>

lemma utf8_hex [simp]: "utf8Decode (utf8Encode (hexUpper bs)) = hexUpper bs"
  by (rule utf8Decode_utf8Encode) (auto simp: scalar_def dest!: set_hexUpper)

lemma submitOctets_not_Nil [simp]: "submitOctets r f a dcs udl ud \<noteq> []"
  by (simp add: submitOctets_def)

lemma submitTPDU_pduPart:
  assumes "encoding \<noteq> SMSEncodingGSM7Text" and "octets \<noteq> []"
  shows "submitTPDU t (pduPart r encoding (hexUpper (0 # octets)) l i n reference)
    = Inr \<lparr>st_To = r, st_Encoding = encoding, st_TPDU = octets, st_Part = i, st_Total = n, st_ConcatReference = reference\<rparr>"
  using assms by (cases octets) (simp_all add: submitTPDU_def pduPart_def slice_def)

lemma submitTPDUs_map:
  "(\<And>x. x \<in> set xs \<Longrightarrow> submitTPDU t (f x) = Inr (g x)) \<Longrightarrow> submitTPDUs t (map f xs) = Inr (map g xs)"
  by (induction xs) auto

lemma eachSegment_map:
  "(\<And>i g. g \<in> set gs \<Longrightarrow> f i g = Inr (h i g)) \<Longrightarrow>
   eachSegment f k gs = Inr (map (\<lambda>(i, g). h i g) (enumerate k gs))"
  by (induction gs arbitrary: k) auto

definition single :: "gostring \<Rightarrow> SMSEncoding \<Rightarrow> byte list \<Rightarrow> SMSSubmitTPDU list" where
  "single r encoding octets =
    [\<lparr>st_To = r, st_Encoding = encoding, st_TPDU = octets, st_Part = 1, st_Total = 1, st_ConcatReference = None\<rparr>]"

definition concatenated :: "gostring \<Rightarrow> SMSEncoding \<Rightarrow> byte \<Rightarrow> (nat \<Rightarrow> 'a \<Rightarrow> byte list) \<Rightarrow> 'a list \<Rightarrow> SMSSubmitTPDU list" where
  "concatenated r encoding reference octets segments =
    map (\<lambda>(i, g). \<lparr>st_To = r, st_Encoding = encoding, st_TPDU = octets (i + 1) g, st_Part = i + 1,
                   st_Total = length segments, st_ConcatReference = Some (unat reference)\<rparr>) (enumerate 0 segments)"

definition concatParts :: "gostring \<Rightarrow> SMSEncoding \<Rightarrow> byte \<Rightarrow> (nat \<Rightarrow> 'a \<Rightarrow> byte list) \<Rightarrow> 'a list \<Rightarrow> preparedSMS list" where
  "concatParts r encoding reference octets segments =
    map (\<lambda>(i, g). pduPart r encoding (hexUpper (0 # octets (i + 1) g)) (length (octets (i + 1) g)) (i + 1)
                   (length segments) (Some (unat reference))) (enumerate 0 segments)"

lemma submitTPDUs_concatParts:
  assumes "encoding \<noteq> SMSEncodingGSM7Text" and "\<And>i g. octets i g \<noteq> []"
  shows "submitTPDUs t (concatParts r encoding reference octets segments)
    = Inr (concatenated r encoding reference octets segments)"
  unfolding concatParts_def concatenated_def
  by (rule submitTPDUs_map) (auto simp: submitTPDU_pduPart[OF assms(1) assms(2)] split: prod.splits)

subsection \<open>The branches of the preparation\<close>

text \<open>The recipient and the text pass the checks; \<open>a\<close> are the octets of the address.\<close>

definition accepted :: "gostring \<Rightarrow> gostring \<Rightarrow> gostring \<Rightarrow> byte list \<Rightarrow> bool" where
  "accepted recipient t r a \<longleftrightarrow> normalizeSMSRecipient recipient = Inr r
     \<and> encodeSemiOctets (trimPlus r) = Inr a \<and> t \<noteq> [] \<and> 0 \<notin> set t"

lemma acceptedD:
  assumes "accepted recipient t r a"
  shows "normalizeSMSRecipient recipient = Inr r" and "encodeSemiOctets (trimPlus r) = Inr a"
    and "t \<noteq> []" and "0 \<notin> set t"
  using assms by (auto simp: accepted_def)

lemma parts_gsm7_short:
  assumes acc: "accepted recipient t r a" and enc: "encodeGSM7 t = Some s" and len: "length s \<le> 160"
  shows "\<exists>parts. prepareSMSPartsWithReference recipient t reference = Inr parts \<and> length parts = 1
    \<and> submitTPDUs t parts = Inr (single r SMSEncodingGSM7PDU (gsm7Octets r a s))"
proof (cases "canSendDirectGSM7 t")
  case True
  then show ?thesis using acceptedD[OF acc] enc len encodeSubmit_gsm7[OF acceptedD(2)[OF acc] len]
    by (simp add: prepareSMSPartsWithReference_def submitTPDU_def single_def slice_def gsm7Octets_def submitOctets_def)
next
  case False
  then show ?thesis using acceptedD[OF acc] enc len encodeSubmit_gsm7[OF acceptedD(2)[OF acc] len]
    by (simp add: prepareSMSPartsWithReference_def submitTPDU_pduPart single_def gsm7Octets_def)
qed

lemma parts_gsm7_long:
  assumes acc: "accepted recipient t r a" and s: "encodeGSM7 t = Some s" "\<not> length s \<le> 160" and g: "splitGSM7 s 153 = Some segments"
  shows "prepareSMSPartsWithReference recipient t reference =
    (if length segments > 255 then err ErrSMSTooLong
     else Inr (concatParts r SMSEncodingGSM7PDU reference (gsm7ConcatOctets r a reference (length segments)) segments))"
proof -
  have "\<forall>x \<in> set segments. length x \<le> 153"
    using splitWith_parts[of 153 breaksEscape s segments] g by (simp add: splitGSM7_def)
  then show ?thesis using acceptedD[OF acc] s g
    by (simp add: prepareSMSPartsWithReference_def concatParts_def encodeSubmit_gsm7_concat[OF acceptedD(2)[OF acc]] eachSegment_map)
qed

lemma parts_ucs2_short:
  assumes acc: "accepted recipient t r a" and enc: "encodeGSM7 t = None" and len: "length (utf16Encode t) \<le> 70"
  shows "\<exists>parts. prepareSMSPartsWithReference recipient t reference = Inr parts \<and> length parts = 1
    \<and> submitTPDUs t parts = Inr (single r SMSEncodingUCS2PDU (ucs2Octets r a (utf16Encode t)))"
  using acceptedD[OF acc] enc len encodeSubmit_ucs2[OF acceptedD(2)[OF acc] len]
  by (simp add: prepareSMSPartsWithReference_def submitTPDU_pduPart single_def ucs2Octets_def)

lemma parts_ucs2_long:
  assumes acc: "accepted recipient t r a" and s: "encodeGSM7 t = None" "\<not> length (utf16Encode t) \<le> 70" and g: "splitUCS2 (utf16Encode t) 67 = Some segments"
  shows "prepareSMSPartsWithReference recipient t reference =
    (if length segments > 255 then err ErrSMSTooLong
     else Inr (concatParts r SMSEncodingUCS2PDU reference (ucs2ConcatOctets r a reference (length segments)) segments))"
proof -
  have "\<forall>x \<in> set segments. length x \<le> 67"
    using splitWith_parts[of 67 breaksPair "utf16Encode t" segments] g by (simp add: splitUCS2_def)
  then show ?thesis using acceptedD[OF acc] s g
    by (simp add: prepareSMSPartsWithReference_def concatParts_def encodeSubmit_ucs2_concat[OF acceptedD(2)[OF acc]] eachSegment_map)
qed

subsection \<open>The outcome\<close>

lemma split_septets: "\<exists>segments. splitGSM7 s 153 = Some segments"
  by (simp add: splitGSM7_def splitWith_returns)

lemma split_units: "\<exists>segments. splitUCS2 u 67 = Some segments"
  by (simp add: splitUCS2_def splitWith_returns)

lemma two_segments:
  assumes "2 \<le> m" and "splitWith br m xs = Some segments" and "m < length xs"
  shows "2 \<le> length segments"
proof (rule ccontr)
  assume "\<not> 2 \<le> length segments"
  then consider "segments = []" | g where "segments = [g]"
    by (cases segments; cases "tl segments") auto
  then show False
    using splitWith_parts[OF assms(1,2)] assms(3) by cases auto
qed

definition outcome :: "gostring \<Rightarrow> byte list \<Rightarrow> gostring \<Rightarrow> SMSSubmitTPDU list \<Rightarrow> bool" where
  "outcome r a t tpdus \<longleftrightarrow>
    (\<exists>s. encodeGSM7 t = Some s \<and> length s \<le> 160 \<and> tpdus = single r SMSEncodingGSM7PDU (gsm7Octets r a s))
  \<or> (\<exists>s segments reference. encodeGSM7 t = Some s \<and> splitGSM7 s 153 = Some segments
       \<and> 2 \<le> length segments \<and> length segments \<le> 255
       \<and> tpdus = concatenated r SMSEncodingGSM7PDU reference (gsm7ConcatOctets r a reference (length segments)) segments)
  \<or> (encodeGSM7 t = None \<and> length (utf16Encode t) \<le> 70
       \<and> tpdus = single r SMSEncodingUCS2PDU (ucs2Octets r a (utf16Encode t)))
  \<or> (\<exists>segments reference. encodeGSM7 t = None \<and> splitUCS2 (utf16Encode t) 67 = Some segments
       \<and> 2 \<le> length segments \<and> length segments \<le> 255
       \<and> tpdus = concatenated r SMSEncodingUCS2PDU reference (ucs2ConcatOctets r a reference (length segments)) segments)"

lemma length_concatParts [simp]: "length (concatParts r e ref octets segments) = length segments"
  by (simp add: concatParts_def)

lemma octets_not_Nil [simp]:
  "gsm7Octets r a s \<noteq> []" "gsm7ConcatOctets r a reference n i s \<noteq> []"
  "ucs2Octets r a u \<noteq> []" "ucs2ConcatOctets r a reference n i u \<noteq> []"
  by (simp_all add: octets_defs)

lemma Prepare_concatParts:
  assumes parts: "\<And>reference. prepareSMSPartsWithReference recipient t reference =
      (if length segments > 255 then err ErrSMSTooLong else Inr (concatParts r e reference (octets reference) segments))"
    and two: "2 \<le> length segments" and e: "e \<noteq> SMSEncodingGSM7Text" and o: "\<And>reference i g. octets reference i g \<noteq> []"
  shows "PrepareSMSSubmitTPDUs random recipient t =
    (if length segments > 255 then err ErrSMSTooLong
     else case random of None \<Rightarrow> err RandomFailed
       | Some reference \<Rightarrow> Inr (concatenated r e reference (octets reference) segments))"
  using two by (auto simp: PrepareSMSSubmitTPDUs_def prepareSMSParts_def parts submitTPDUs_concatParts[OF e o] split: option.splits)

lemma Prepare_single:
  assumes "\<And>reference. \<exists>parts. prepareSMSPartsWithReference recipient t reference = Inr parts \<and> length parts = 1
    \<and> submitTPDUs t parts = Inr tpdus"
  shows "PrepareSMSSubmitTPDUs random recipient t = Inr tpdus"
  using assms[of 0] by (auto simp: PrepareSMSSubmitTPDUs_def prepareSMSParts_def)

lemma Prepare_accepted:
  assumes acc: "accepted recipient t r a"
  shows "(\<exists>tpdus. PrepareSMSSubmitTPDUs random recipient t = Inr tpdus \<and> outcome r a t tpdus)
    \<or> PrepareSMSSubmitTPDUs random recipient t = err ErrSMSTooLong
    \<or> random = None \<and> PrepareSMSSubmitTPDUs random recipient t = err RandomFailed"
proof (cases "encodeGSM7 t")
  case (Some s)
  show ?thesis
  proof (cases "length s \<le> 160")
    case True
    then show ?thesis using Prepare_single[OF parts_gsm7_short[OF acc Some True]] Some by (auto simp: outcome_def)
  next
    case False
    obtain segments where g: "splitGSM7 s 153 = Some segments" using split_septets by blast
    have two: "2 \<le> length segments" using two_segments[of 153 breaksEscape s segments] g False by (simp add: splitGSM7_def)
    show ?thesis
      using Prepare_concatParts[OF parts_gsm7_long[OF acc Some False g] two] g two Some
      by (auto simp: outcome_def split: option.splits)
  qed
next
  case None
  show ?thesis
  proof (cases "length (utf16Encode t) \<le> 70")
    case True
    then show ?thesis using Prepare_single[OF parts_ucs2_short[OF acc None True]] None by (auto simp: outcome_def)
  next
    case False
    obtain segments where g: "splitUCS2 (utf16Encode t) 67 = Some segments" using split_units by blast
    have two: "2 \<le> length segments" using two_segments[of 67 breaksPair "utf16Encode t" segments] g False by (simp add: splitUCS2_def)
    show ?thesis
      using Prepare_concatParts[OF parts_ucs2_long[OF acc None False g] two] g two None
      by (auto simp: outcome_def split: option.splits)
  qed
qed

lemma Prepare_rejected:
  assumes "\<not> (\<exists>r a. accepted recipient t r a)"
  shows "\<exists>e. PrepareSMSSubmitTPDUs random recipient t = err e \<and> e \<in> {ErrSMSInvalidRecipient, ErrSMSEmpty, TextContainsNUL}"
proof (cases "normalizeSMSRecipient recipient")
  case (Inl f)
  have "recipientLoop v acc = Inl f \<Longrightarrow> f = Fail ErrSMSInvalidRecipient" for v acc f
    by (induction v acc rule: recipientLoop.induct) (auto split: if_splits)
  then have "f = Fail ErrSMSInvalidRecipient"
    using Inl by (auto simp: normalizeSMSRecipient_def rbind_Inl_iff Let_def split: if_splits)
  then show ?thesis
    using Inl by (simp add: PrepareSMSSubmitTPDUs_def prepareSMSParts_def prepareSMSPartsWithReference_def)
next
  case (Inr r)
  then have "t = [] \<or> 0 \<in> set t" using assms encodeSemiOctets_valid[OF normalize_valid[OF Inr]] by (auto simp: accepted_def)
  then show ?thesis
    using Inr by (auto simp: PrepareSMSSubmitTPDUs_def prepareSMSParts_def prepareSMSPartsWithReference_def)
qed

lemma Prepare_Inr:
  assumes "PrepareSMSSubmitTPDUs random recipient t = Inr tpdus"
  obtains r a where "accepted recipient t r a" and "outcome r a t tpdus"
proof (cases "\<exists>r a. accepted recipient t r a")
  case True
  then obtain r a where "accepted recipient t r a" by blast
  then show thesis using Prepare_accepted[of recipient t r a random] assms that by auto
next
  case False
  then show thesis using Prepare_rejected[OF False, of random] assms by auto
qed

end
