(* ===== verification/SmsDecode_Total.thy ===== *)
theory SmsDecode_Total
  imports SmsDecode
begin

text \<open>
  The decoder never reads out of range: a cursor stays within its data, every read behind a
  length check succeeds, and so no input makes \<open>decodeSMSPDU\<close> panic.
\<close>

definition validCursor :: "pduCursor \<Rightarrow> bool" where
  "validCursor cursor \<longleftrightarrow> cindex cursor \<le> length (cdata cursor)"

lemma orReturn_no_panic:
  "r \<noteq> Inl Panic \<Longrightarrow> (\<And>a. r = Inr a \<Longrightarrow> snd (k a) \<noteq> Some Panic) \<Longrightarrow> snd (orReturn r message k) \<noteq> Some Panic"
  by (cases r) auto

lemma orReturn_pair_no_panic:
  "r \<noteq> Inl Panic \<Longrightarrow> (\<And>a b. r = Inr (a, b) \<Longrightarrow> snd (k a b) \<noteq> Some Panic)
    \<Longrightarrow> snd (orReturn r message (\<lambda>(a, b). k a b)) \<noteq> Some Panic"
  by (cases r) auto

lemma rbind_pair_no_panic:
  "r \<noteq> Inl Panic \<Longrightarrow> (\<And>a b. r = Inr (a, b) \<Longrightarrow> k a b \<noteq> Inl Panic) \<Longrightarrow> rbind r (\<lambda>(a, b). k a b) \<noteq> Inl Panic"
  by (cases r) auto

lemma if_no_panic:
  "(b \<Longrightarrow> snd x \<noteq> Some Panic) \<Longrightarrow> (\<not> b \<Longrightarrow> snd y \<noteq> Some Panic) \<Longrightarrow> snd (if b then x else y) \<noteq> Some Panic"
  by simp

lemma cursorByte_total [simp]: "cursorByte cursor \<noteq> Inl Panic"
  by (auto simp: cursorByte_def read_Inl_iff)

lemma cursorBytes_total [simp]: "cursorBytes cursor n \<noteq> Inl Panic"
  by (auto simp: cursorBytes_def read_Inl_iff)

lemma cursorByte_valid: "cursorByte cursor = Inr (b, cursor') \<Longrightarrow> validCursor cursor'"
  by (auto simp: cursorByte_def validCursor_def rbind_Inr_iff split: if_splits)

lemma alphanumericLengths_total [simp]: "alphanumericLengths cursor l \<noteq> Inl Panic"
  by (auto simp: alphanumericLengths_def read_Inl_iff Let_def)

lemma readTPAddress_total [simp]: "readTPAddress cursor \<noteq> Inl Panic"
  unfolding readTPAddress_def
  by (intro rbind_pair_no_panic cursorByte_total cursorBytes_total)
    (auto split: option.splits prod.splits)

lemma skipValidity_total [simp]: "skipValidity firstOctet cursor \<noteq> Inl Panic"
  by (auto simp: skipValidity_def Let_def rbind_Inl_iff)

lemma rest_total: "validCursor cursor \<Longrightarrow> (slice (cdata cursor) (cindex cursor) (length (cdata cursor)) :: (sms_error, byte list) res) \<noteq> Inl Panic"
  by (simp add: validCursor_def read_Inl_iff)

lemma decodeUserText_total:
  "headerBytes \<le> length d \<Longrightarrow> snd (decodeUserText env alphabet d headerBytes udl header message) \<noteq> Some Panic"
  unfolding decodeUserText_def Let_def
  by (cases alphabet)
    (auto simp: slice_ok split: option.splits prod.splits bool.splits)

lemma decodeUserData_total [simp]: "snd (decodeUserData env data0 firstOctet dcs udl message) \<noteq> Some Panic"
  unfolding decodeUserData_def Let_def
  by (intro if_no_panic orReturn_no_panic decodeUserText_total) (auto simp: read_Inl_iff)

lemma decodeDeliverPDU_total: "snd (decodeDeliverPDU env cursor firstOctet message) \<noteq> Some Panic"
  unfolding decodeDeliverPDU_def Let_def
  by (intro orReturn_pair_no_panic orReturn_no_panic readTPAddress_total cursorByte_total cursorBytes_total
      skipValidity_total decodeUserData_total rest_total)
    (auto dest: cursorByte_valid)

lemma decodeSubmitPDU_total: "snd (decodeSubmitPDU env cursor firstOctet message) \<noteq> Some Panic"
  unfolding decodeSubmitPDU_def Let_def
  by (intro orReturn_pair_no_panic orReturn_no_panic readTPAddress_total cursorByte_total cursorBytes_total
      skipValidity_total decodeUserData_total rest_total)
    (auto dest: cursorByte_valid)

lemma decodeStatusReportPDU_total: "snd (decodeStatusReportPDU cursor message) \<noteq> Some Panic"
  unfolding decodeStatusReportPDU_def Let_def
  by (intro orReturn_pair_no_panic readTPAddress_total cursorByte_total cursorBytes_total) simp

lemma decodeSMSPDU_total: "snd (decodeSMSPDU env raw) \<noteq> Some Panic"
proof (cases "hexDecode (ToUpper (upperTable env) (TrimSpace raw))")
  case None
  then show ?thesis by (simp add: decodeSMSPDU_def Let_def)
next
  case (Some d)
  have kinds: "snd (if b0 then decodeDeliverPDU env cursor f m0 else if b1 then decodeSubmitPDU env cursor f m1
      else if b2 then decodeStatusReportPDU cursor m2 else (m, Some (Fail e))) \<noteq> Some Panic"
    for b0 b1 b2 cursor f m0 m1 m2 m e
    by (simp add: decodeDeliverPDU_total decodeSubmitPDU_total decodeStatusReportPDU_total)
  have short: "snd (if b then (m, Some (Fail e)) else r) \<noteq> Some Panic" if "snd r \<noteq> Some Panic" for b m e r
    using that by simp
  show ?thesis
    unfolding decodeSMSPDU_def Let_def Some option.case
    by (intro short orReturn_pair_no_panic kinds cursorByte_total cursorBytes_total)
qed

end
