(* ===== verification/Sms_Props.thy ===== *)
theory Sms_Props
  imports Sms_Submit SmsDecode_Total
begin

text \<open>
  Properties of the short message codec: what is submitted decodes to what was written, the
  sizes stay within TS 23.040, loops return, no input panics, and the tables are those of
  TS 23.038.
\<close>

subsection \<open>Decoding what was submitted\<close>

text \<open>The message that the receiver makes of one TPDU.\<close>

definition carriedBy :: "text_env \<Rightarrow> gostring \<Rightarrow> SMSConcatInfo option \<Rightarrow> byte list \<Rightarrow> gostring \<Rightarrow> bool" where
  "carriedBy env r concatInfo octets t \<longleftrightarrow>
    (\<exists>m. DecodeSMSDeliverTPDU env octets = (Some m, None) \<and> msgDirection m = SMSDirectionSubmitted
       \<and> msgTo m = r \<and> msgConcat m = concatInfo \<and> msgText m = t)"

lemma Decode_submitOctets:
  assumes "validRecipient r" and "semiOctets (trimPlus r) = Inr a" and "firstOctet = 0x21 \<or> firstOctet = 0x61"
    and data: "\<And>m. \<exists>m'. decodeUserData env ud firstOctet dcs (unat udl) m = (m', None) \<and> msgDirection m' = msgDirection m
      \<and> msgTo m' = msgTo m \<and> msgText m' = t \<and> (msgConcat m = None \<longrightarrow> msgConcat m' = c)"
  shows "carriedBy env r c (submitOctets r firstOctet a dcs udl ud) t"
  using decodeSMSPDU_submitOctets[OF assms(1-3), of env dcs udl ud]
    data[of "submitMessage env (hexEncode (0 # submitOctets r firstOctet a dcs udl ud)) dcs r"]
  by (auto simp: carriedBy_def DecodeSMSDeliverTPDU_def submitMessage_def blankMessage_def simp del: hexEncode.simps)

lemma carried_gsm7:
  assumes "validRecipient r" "semiOctets (trimPlus r) = Inr a" and "encodeGSM7 t = Some s" "s \<noteq> []" "length s \<le> 160"
  shows "carriedBy env r None (gsm7Octets r a s) t"
  unfolding gsm7Octets_def
  by (rule Decode_submitOctets[OF assms(1,2)])
    (use assms in \<open>simp_all add: unat_of_nat8 decodeUserData_GSM7_plain[OF assms(3,4)]\<close>)

lemma carried_gsm7_concat:
  assumes "validRecipient r" "semiOctets (trimPlus r) = Inr a" and "encodeGSM7 t = Some s" "s \<noteq> []" "length s \<le> 153"
    and "n < 256" "i < 256"
  shows "carriedBy env r (Some \<lparr>Reference = unat reference, Total = n, Sequence = i\<rparr>)
    (gsm7ConcatOctets r a reference n i s) t"
  unfolding gsm7ConcatOctets_def concatUDH_def
  by (rule Decode_submitOctets[OF assms(1,2)])
    (use assms in \<open>simp_all add: unat_of_nat8 decodeUserData_GSM7_concat[OF assms(3-5) refl] del: of_nat_add of_nat_Suc\<close>)

lemma carried_ucs2:
  assumes "validRecipient r" "semiOctets (trimPlus r) = Inr a" and "carriesUnits u t" "plainText env t" "length u \<le> 70"
  shows "carriedBy env r None (ucs2Octets r a u) t"
  unfolding ucs2Octets_def
  by (rule Decode_submitOctets[OF assms(1,2)])
    (use assms in \<open>simp_all add: unat_of_nat8 decodeUserData_UCS2_plain[OF assms(3,4)] del: of_nat_mult\<close>)

lemma carried_ucs2_concat:
  assumes "validRecipient r" "semiOctets (trimPlus r) = Inr a" and "carriesUnits u t" "plainText env t" "length u \<le> 67"
    and "n < 256" "i < 256"
  shows "carriedBy env r (Some \<lparr>Reference = unat reference, Total = n, Sequence = i\<rparr>)
    (ucs2ConcatOctets r a reference n i u) t"
  unfolding ucs2ConcatOctets_def concatUDH_def
  by (rule Decode_submitOctets[OF assms(1,2)])
    (use assms in \<open>simp_all add: unat_of_nat8 decodeUserData_UCS2_concat[OF assms(3,4) refl, simplified] del: of_nat_add of_nat_mult\<close>)

lemma acceptedE:
  assumes "accepted recipient t r a"
  shows "validRecipient r" and "semiOctets (trimPlus r) = Inr a"
  using normalize_valid[OF acceptedD(1)[OF assms]] encodeSemiOctets_valid[of r] acceptedD(2)[OF assms] by auto

text \<open>Texts carried by the segments of a split, each decoded on its own.\<close>

lemma concatenated_carried:
  assumes carry: "list_all2 carries segments ts" and n: "length segments \<le> 255"
    and each: "\<And>g t i. carries g t \<Longrightarrow> g \<in> set segments \<Longrightarrow> i < 256 \<Longrightarrow>
      carriedBy env r (Some \<lparr>Reference = unat reference, Total = length segments, Sequence = i\<rparr>) (octets i g) t"
  shows "list_all2 (\<lambda>s t. carriedBy env r (Some \<lparr>Reference = the (st_ConcatReference s), Total = length segments,
      Sequence = st_Part s\<rparr>) (st_TPDU s) t) (concatenated r e reference octets segments) ts"
proof (rule list_all2_all_nthI)
  show "length (concatenated r e reference octets segments) = length ts"
    using carry by (simp add: concatenated_def list_all2_lengthD)
  fix i assume "i < length (concatenated r e reference octets segments)"
  then have i: "i < length segments" by (simp add: concatenated_def)
  then have "carriedBy env r (Some \<lparr>Reference = unat reference, Total = length segments, Sequence = i + 1\<rparr>)
      (octets (i + 1) (segments ! i)) (ts ! i)"
    using n by (intro each list_all2_nthD[OF carry]) auto
  then show "carriedBy env r (Some \<lparr>Reference = the (st_ConcatReference (concatenated r e reference octets segments ! i)),
      Total = length segments, Sequence = st_Part (concatenated r e reference octets segments ! i)\<rparr>)
      (st_TPDU (concatenated r e reference octets segments ! i)) (ts ! i)"
    using i by (simp add: concatenated_def nth_enumerate_eq)
qed

lemma length_concatenated [simp]: "length (concatenated r e reference octets segments) = length segments"
  by (simp add: concatenated_def)

lemma parts_concatenated: "map st_Part (concatenated r e reference octets segments) = [1..<length segments + 1]"
  by (rule nth_equalityI) (auto simp: concatenated_def nth_enumerate_eq simp del: upt_Suc)

lemma plainText_piece:
  assumes "plainText env t" and "concat ts = t" and "t' \<in> set ts"
  shows "plainText env t'"
proof -
  have "set t' \<subseteq> set t" using assms(3) unfolding assms(2)[symmetric] set_concat by blast
  then show ?thesis using assms(1) unfolding plainText_def by blast
qed

text \<open>C11: Every message prepared for submission decodes back: the parts, read one by one by the
  receiver, name the normalised recipient, are numbered consecutively within the stated total, and
  their texts joined are the text. The GSM alphabet needs nothing of the text; a UCS-2 text must
  be printable and free of byte order marks.\<close>
theorem submit_roundtrip:
  assumes "PrepareSMSSubmitTPDUs random recipient t = Inr tpdus"
    and "encodeGSM7 t \<noteq> None \<or> plainText env t"
  shows "\<exists>r ts. normalizeSMSRecipient recipient = Inr r \<and> concat ts = t \<and>
    map st_Part tpdus = [1..<length tpdus + 1] \<and>
    list_all2 (\<lambda>s t. carriedBy env r
      (if length tpdus = 1 then None
       else Some \<lparr>Reference = the (st_ConcatReference s), Total = length tpdus, Sequence = st_Part s\<rparr>)
      (st_TPDU s) t) tpdus ts"
proof -
  obtain r a where acc: "accepted recipient t r a" and o: "outcome r a t tpdus"
    using Prepare_Inr[OF assms(1)] .
  note v = acceptedE[OF acc]
  have units: "carriesUnits (utf16Encode t) t" if "plainText env t"
    using that by (auto simp: carriesUnits_def plainText_def)
  have plain: "plainText env t'" if "plainText env t" "concat ts = t" "t' \<in> set ts" for t' ts
    using that by (rule plainText_piece)
  from o show ?thesis
    unfolding outcome_def
  proof (elim disjE exE conjE)
    fix s assume s: "encodeGSM7 t = Some s" "length s \<le> 160" and tp: "tpdus = single r SMSEncodingGSM7PDU (gsm7Octets r a s)"
    have "s \<noteq> []" using septets.carries_Nil[of t] s(1) acceptedD(3)[OF acc] by blast
    then have "carriedBy env r None (gsm7Octets r a s) t" by (rule carried_gsm7[OF v s(1) _ s(2)])
    then show ?thesis
      using acceptedD(1)[OF acc] by (intro exI[of _ r] exI[of _ "[t]"]) (simp add: single_def tp)
  next
    fix s segments reference
    assume s: "encodeGSM7 t = Some s" "splitGSM7 s 153 = Some segments" and n: "2 \<le> length segments" "length segments \<le> 255"
      and tp: "tpdus = concatenated r SMSEncodingGSM7PDU reference (gsm7ConcatOctets r a reference (length segments)) segments"
    have g: "\<forall>g \<in> set segments. g \<noteq> [] \<and> length g \<le> 153"
      using splitWith_parts[of 153 breaksEscape s segments] s(2) by (simp add: splitGSM7_def)
    obtain ts where ts: "concat ts = t" "list_all2 (\<lambda>s t. encodeGSM7 t = Some s) segments ts"
      using septets.segments_carry[of 153 t s segments] s by (auto simp: splitGSM7_def)
    have "n < 256 \<Longrightarrow> carriedBy env r (Some \<lparr>Reference = unat reference, Total = length segments, Sequence = n\<rparr>)
        (gsm7ConcatOctets r a reference (length segments) n g) t"
      if "encodeGSM7 t = Some g" "g \<in> set segments" for g t n
      using that n(2) g by (intro carried_gsm7_concat[OF v]) auto
    from concatenated_carried[OF ts(2) n(2) this] show ?thesis
      using n(1) ts(1) acceptedD(1)[OF acc]
      by (intro exI[of _ r] exI[of _ ts] conjI) (simp_all add: tp parts_concatenated del: upt_Suc)
  next
    assume s: "encodeGSM7 t = None" "length (utf16Encode t) \<le> 70"
      and tp: "tpdus = single r SMSEncodingUCS2PDU (ucs2Octets r a (utf16Encode t))"
    have p: "plainText env t" using assms(2) s(1) by simp
    have "carriedBy env r None (ucs2Octets r a (utf16Encode t)) t"
      by (rule carried_ucs2[OF v units[OF p] p s(2)])
    then show ?thesis
      using acceptedD(1)[OF acc] by (intro exI[of _ r] exI[of _ "[t]"]) (simp add: single_def tp)
  next
    fix segments reference
    assume s: "encodeGSM7 t = None" "splitUCS2 (utf16Encode t) 67 = Some segments" and n: "2 \<le> length segments" "length segments \<le> 255"
      and tp: "tpdus = concatenated r SMSEncodingUCS2PDU reference (ucs2ConcatOctets r a reference (length segments)) segments"
    have p: "plainText env t" using assms(2) s(1) by simp
    have g: "\<forall>g \<in> set segments. g \<noteq> [] \<and> length g \<le> 67"
      using splitWith_parts[of 67 breaksPair "utf16Encode t" segments] s(2) by (simp add: splitUCS2_def)
    obtain ts where ts: "concat ts = t" "list_all2 carriesUnits segments ts"
      using units.segments_carry[of 67 "utf16Encode t" t segments] s units[OF p] by (auto simp: splitUCS2_def)
    have ts': "list_all2 (\<lambda>g t. carriesUnits g t \<and> plainText env t) segments ts"
      using ts plain[OF p] by (auto simp: list_all2_conv_all_nth)
    have "n < 256 \<Longrightarrow> carriedBy env r (Some \<lparr>Reference = unat reference, Total = length segments, Sequence = n\<rparr>)
        (ucs2ConcatOctets r a reference (length segments) n g) t"
      if "carriesUnits g t \<and> plainText env t" "g \<in> set segments" for g t n
      using that n(2) g by (intro carried_ucs2_concat[OF v]) auto
    from concatenated_carried[OF ts' n(2) this] show ?thesis
      using n(1) ts(1) acceptedD(1)[OF acc]
      by (intro exI[of _ r] exI[of _ ts] conjI) (simp_all add: tp parts_concatenated del: upt_Suc)
  qed
qed

lemma encodeGSM7_replicate: "encodeGSM7 (replicate n 72) = Some (replicate n 0x48)"
  by (induction n) (use gsm7Encoder_default[of 72] in \<open>auto simp: gsm7DefaultAlphabet_def\<close>)

lemma demo_long:
  "\<exists>tpdus. PrepareSMSSubmitTPDUs (Some 7) (runes ''+86 10'') (replicate 161 72) = Inr tpdus \<and> length tpdus = 2"
proof -
  have r: "normalizeSMSRecipient (runes ''+86 10'') = Inr (runes ''+8610'')"
    by (simp add: normalizeSMSRecipient_def TrimSpace_def isSpace_def isDigit_def trimPlus_def)
  then obtain a where acc: "accepted (runes ''+86 10'') (replicate 161 72) (runes ''+8610'') a"
    using encodeSemiOctets_valid[OF normalize_valid[OF r]] by (auto simp: accepted_def)
  obtain segments where g: "splitGSM7 (replicate 161 0x48) 153 = Some segments" using split_septets by blast
  have "length segments * 152 < 161 + 153"
    using splitWith_parts[of 153 breaksEscape "replicate 161 0x48" segments] g by (simp add: splitGSM7_def)
  moreover have two: "2 \<le> length segments"
    using two_segments[of 153 breaksEscape "replicate 161 0x48" segments] g by (simp add: splitGSM7_def)
  ultimately have n: "length segments = 2" by linarith
  show ?thesis
    using Prepare_concatParts[OF parts_gsm7_long[OF acc encodeGSM7_replicate _ g] two, of "Some 7"] n by simp
qed

theorem submit_roundtrip_witness:
  fixes env :: text_env
  shows "\<forall>env. \<exists>tpdus r ts. PrepareSMSSubmitTPDUs (Some 7) (runes ''+86 10'') (replicate 161 72) = Inr tpdus \<and>
    length tpdus = 2 \<and> normalizeSMSRecipient (runes ''+86 10'') = Inr r \<and> concat ts = replicate 161 72 \<and>
    list_all2 (\<lambda>s t. carriedBy env r (Some \<lparr>Reference = the (st_ConcatReference s), Total = 2, Sequence = st_Part s\<rparr>)
      (st_TPDU s) t) tpdus ts"
proof
  fix env
  obtain tpdus where t: "PrepareSMSSubmitTPDUs (Some 7) (runes ''+86 10'') (replicate 161 72) = Inr tpdus" "length tpdus = 2"
    using demo_long by blast
  show "\<exists>tpdus r ts. PrepareSMSSubmitTPDUs (Some 7) (runes ''+86 10'') (replicate 161 72) = Inr tpdus \<and>
    length tpdus = 2 \<and> normalizeSMSRecipient (runes ''+86 10'') = Inr r \<and> concat ts = replicate 161 72 \<and>
    list_all2 (\<lambda>s t. carriedBy env r (Some \<lparr>Reference = the (st_ConcatReference s), Total = 2, Sequence = st_Part s\<rparr>)
      (st_TPDU s) t) tpdus ts"
    using submit_roundtrip[OF t(1), of env] t by (auto simp: encodeGSM7_replicate)
qed

lemma concatenated_bounds:
  assumes "\<And>g i. g \<in> set segments \<Longrightarrow> length (f i g) \<le> 157"
  shows "\<forall>s \<in> set (concatenated r e reference f segments). length (st_TPDU s) \<le> 157 \<and>
      st_Total s = length segments \<and> 1 \<le> st_Part s \<and> st_Part s \<le> length segments"
  using assms by (auto simp: concatenated_def in_set_enumerate_eq)

text \<open>C12: The bounds of TS 23.040: at most 255 parts, numbered within the total, and no TPDU longer
  than 4 octets before the address, 10 of address, 3 after it and 140 of user data.\<close>
theorem prepare_bounds:
  assumes "PrepareSMSSubmitTPDUs random recipient t = Inr tpdus"
  shows "1 \<le> length tpdus \<and> length tpdus \<le> 255 \<and>
    (\<forall>s \<in> set tpdus. length (st_TPDU s) \<le> 157 \<and> st_Total s = length tpdus \<and> 1 \<le> st_Part s \<and> st_Part s \<le> length tpdus)"
proof -
  obtain r a where acc: "accepted recipient t r a" and o: "outcome r a t tpdus"
    using Prepare_Inr[OF assms(1)] .
  have "length (trimPlus r) \<le> 20" "length a = (length (trimPlus r) + 1) div 2"
    using acceptedE[OF acc] addressDigits_semiOctets by (auto simp: validRecipient_def)
  then have a: "length a \<le> 10" by linarith
  have octets: "length (submitOctets r f a dcs udl ud) \<le> 157" if "length ud \<le> 140" for f dcs udl ud
    using a that by (simp add: submitOctets_def)
  have header: "length (concatUDH reference n i) = 6" for reference n i by (simp add: concatUDH_def)
  have gsm: "length (gsm7Octets r a s) \<le> 157" if "length s \<le> 160" for s
  proof -
    have "(length s * 7 + 7) div 8 \<le> 140" using that by linarith
    then show ?thesis unfolding gsm7Octets_def by (intro octets) (simp add: length_packSeptets)
  qed
  have gsmc: "length (gsm7ConcatOctets r a reference n i s) \<le> 157" if "length s \<le> 153" "s \<noteq> []" for reference n i s
  proof -
    have "6 \<le> (49 + length s * 7 + 7) div 8" "(49 + length s * 7 + 7) div 8 \<le> 140" using that by linarith+
    then show ?thesis unfolding gsm7ConcatOctets_def
      using that header by (intro octets) (simp add: length_packSeptets length_copyInto)
  qed
  have ucs: "length (ucs2Octets r a u) \<le> 157" if "length u \<le> 70" for u
    unfolding ucs2Octets_def using that by (intro octets) simp
  have ucsc: "length (ucs2ConcatOctets r a reference n i u) \<le> 157" if "length u \<le> 67" for reference n i u
    unfolding ucs2ConcatOctets_def using that by (intro octets) (simp add: header)
  from o show ?thesis unfolding outcome_def
  proof (elim disjE exE conjE)
    fix s assume "length s \<le> 160" "tpdus = single r SMSEncodingGSM7PDU (gsm7Octets r a s)"
    then show ?thesis using gsm by (simp add: single_def)
  next
    fix s segments reference
    assume g: "splitGSM7 s 153 = Some segments" "2 \<le> length segments" "length segments \<le> 255"
      and tp: "tpdus = concatenated r SMSEncodingGSM7PDU reference (gsm7ConcatOctets r a reference (length segments)) segments"
    have "g \<noteq> [] \<and> length g \<le> 153" if "g \<in> set segments" for g
      using splitWith_parts[of 153 breaksEscape s segments] g(1) that by (simp add: splitGSM7_def)
    then show ?thesis
      using g concatenated_bounds[of segments "gsm7ConcatOctets r a reference (length segments)"] gsmc unfolding tp by simp
  next
    assume "length (utf16Encode t) \<le> 70" "tpdus = single r SMSEncodingUCS2PDU (ucs2Octets r a (utf16Encode t))"
    then show ?thesis using ucs by (simp add: single_def)
  next
    fix segments reference
    assume g: "splitUCS2 (utf16Encode t) 67 = Some segments" "2 \<le> length segments" "length segments \<le> 255"
      and tp: "tpdus = concatenated r SMSEncodingUCS2PDU reference (ucs2ConcatOctets r a reference (length segments)) segments"
    have "length g \<le> 67" if "g \<in> set segments" for g
      using splitWith_parts[of 67 breaksPair "utf16Encode t" segments] g(1) that by (simp add: splitUCS2_def)
    then show ?thesis
      using g concatenated_bounds[of segments "ucs2ConcatOctets r a reference (length segments)"] ucsc unfolding tp by simp
  qed
qed

theorem prepare_bounds_witness:
  "\<exists>tpdus. PrepareSMSSubmitTPDUs (Some 7) (runes ''+86 10'') (replicate 161 72) = Inr tpdus \<and> length tpdus = 2 \<and>
    (\<forall>s \<in> set tpdus. length (st_TPDU s) \<le> 157 \<and> st_Total s = 2)"
proof -
  obtain tpdus where t: "PrepareSMSSubmitTPDUs (Some 7) (runes ''+86 10'') (replicate 161 72) = Inr tpdus" "length tpdus = 2"
    using demo_long by blast
  then show ?thesis using prepare_bounds[OF t(1)] by auto
qed

text \<open>Neither decoding nor preparing panics: no octet string, PDU text, recipient or text makes
  the code read or slice out of range.\<close>
theorem sms_no_panic:
  "snd (decodeSMSPDU env raw) \<noteq> Some Panic \<and> snd (DecodeSMSDeliverTPDU env tpdu) \<noteq> Some Panic
   \<and> PrepareSMSSubmitTPDUs random recipient t \<noteq> Inl Panic"
proof (intro conjI)
  show "snd (decodeSMSPDU env raw) \<noteq> Some Panic" by (rule decodeSMSPDU_total)
  show "snd (DecodeSMSDeliverTPDU env tpdu) \<noteq> Some Panic"
    using decodeSMSPDU_total[of env "hexEncode (0 # tpdu)"] by (simp add: DecodeSMSDeliverTPDU_def del: hexEncode.simps)
  show "PrepareSMSSubmitTPDUs random recipient t \<noteq> Inl Panic"
    using Prepare_accepted[of recipient t _ _ random] Prepare_rejected[of recipient t random]
    by (metis Inl_Inr_False Inl_inject fault.distinct(1))
qed

text \<open>A text is encoded to a septet string exactly when the septet string decodes to the text
  without an error: the two tables are inverse to each other, escapes included.\<close>
theorem gsm7_codec: "encodeGSM7 t = Some s \<longleftrightarrow> decodeGSM7 s = (t, None)"
  using decodeGSM7_encodeGSM7 encodeGSM7_decodeGSM7 by blast

text \<open>For every maximum of at least two the splitting loops return; the segments are not empty,
  respect the maximum and join to the input.\<close>
theorem splits_return:
  assumes "2 \<le> maximum"
  shows "(\<exists>gs. splitGSM7 septets maximum = Some gs \<and> concat gs = septets \<and> (\<forall>g \<in> set gs. g \<noteq> [] \<and> length g \<le> maximum))
    \<and> (\<exists>gs. splitUCS2 units maximum = Some gs \<and> concat gs = units \<and> (\<forall>g \<in> set gs. g \<noteq> [] \<and> length g \<le> maximum))"
  using splitWith_returns[OF assms] splitWith_parts[OF assms] unfolding splitGSM7_def splitUCS2_def by metis

theorem splits_return_witness:
  "(\<exists>gs. splitGSM7 [0x1b, 0x65, 0x1b, 0x65] 3 = Some gs \<and> concat gs = [0x1b, 0x65, 0x1b, 0x65] \<and> (\<forall>g \<in> set gs. g \<noteq> [] \<and> length g \<le> 3))
   \<and> (\<exists>gs. splitUCS2 [0xD83D, 0xDE00] 3 = Some gs \<and> concat gs = [0xD83D, 0xDE00] \<and> (\<forall>g \<in> set gs. g \<noteq> [] \<and> length g \<le> 3))"
  by (rule splits_return) simp

subsection \<open>The data coding scheme\<close>

text \<open>
  The table of TS 23.038, section 4, by coding group (bits 7 to 4) and, in the general groups, by
  bits 3 and 2. Compressed text and reserved groups have no alphabet here.
\<close>

definition codingGroup :: "nat \<Rightarrow> nat \<Rightarrow> smsAlphabet" where
  "codingGroup g cls =
    (let general = [smsAlphabetGSM7, smsAlphabet8Bit, smsAlphabetUCS2, smsAlphabetUnknown] ! cls in
     [general, general, smsAlphabetUnknown, smsAlphabetUnknown,
      general, general, smsAlphabetUnknown, smsAlphabetUnknown,
      smsAlphabetUnknown, smsAlphabetUnknown, smsAlphabetUnknown, smsAlphabetUnknown,
      smsAlphabetGSM7, smsAlphabetGSM7, smsAlphabetUCS2,
      if odd cls then smsAlphabet8Bit else smsAlphabetGSM7] ! g)"

lemma byte_eq_bits: "(a :: byte) = b \<longleftrightarrow> (\<forall>n \<in> {0, 1, 2, 3, 4, 5, 6, 7}. bit a n = bit b n)"
proof
  assume bits: "\<forall>n \<in> {0, 1, 2, 3, 4, 5, 6, 7}. bit a n = bit b n"
  show "a = b"
  proof (rule bit_word_eqI)
    fix n assume "n < LENGTH(8)"
    then have "n \<in> {0, 1, 2, 3, 4, 5, 6, 7}" by auto
    with bits show "bit a n = bit b n" by blast
  qed
qed simp

lemma dcs_masks:
  "dcs AND 0x80 = 0 \<longleftrightarrow> \<not> bit dcs 7" "dcs AND 0x20 = 0 \<longleftrightarrow> \<not> bit dcs 5"
  "dcs AND 0x04 = 0 \<longleftrightarrow> \<not> bit dcs 2"
  "dcs AND 0xe0 = 0xc0 \<longleftrightarrow> bit dcs 7 \<and> bit dcs 6 \<and> \<not> bit dcs 5"
  "dcs AND 0xf0 = 0xe0 \<longleftrightarrow> bit dcs 7 \<and> bit dcs 6 \<and> bit dcs 5 \<and> \<not> bit dcs 4"
  "dcs AND 0xf0 = 0xf0 \<longleftrightarrow> bit dcs 7 \<and> bit dcs 6 \<and> bit dcs 5 \<and> bit dcs 4"
  "drop_bit 2 dcs AND 0x03 = 0 \<longleftrightarrow> \<not> bit dcs 2 \<and> \<not> bit dcs 3"
  "drop_bit 2 dcs AND 0x03 = 1 \<longleftrightarrow> bit dcs 2 \<and> \<not> bit dcs 3"
  "drop_bit 2 dcs AND 0x03 = 2 \<longleftrightarrow> \<not> bit dcs 2 \<and> bit dcs 3"
  for dcs :: byte
  by (auto simp: byte_eq_bits bit_and_iff bit_drop_bit_eq numeral_2_eq_2 numeral_3_eq_3)

lemma dcs_bits:
  fixes dcs :: byte
  shows "bit dcs 7 \<longleftrightarrow> odd (unat dcs div 16 div 8)" "bit dcs 6 \<longleftrightarrow> odd (unat dcs div 16 div 4)"
   "bit dcs 5 \<longleftrightarrow> odd (unat dcs div 16 div 2)" "bit dcs 4 \<longleftrightarrow> odd (unat dcs div 16)"
   "bit dcs 3 \<longleftrightarrow> odd (unat dcs div 4 mod 4 div 2)" "bit dcs 2 \<longleftrightarrow> odd (unat dcs div 4 mod 4)"
proof -
  have b: "bit dcs n \<longleftrightarrow> odd (unat dcs div 2 ^ n)" for n by (simp add: bit_unsigned_iff flip: bit_iff_odd)
  have low: "odd (q mod 4 div 2) \<longleftrightarrow> odd (q div 2)" "odd (q mod 4) \<longleftrightarrow> odd q" for q :: nat
    by presburger+
  have high: "u div 16 div 8 = u div 128" "u div 16 div 4 = u div 64" "u div 16 div 2 = u div 32" "u div 4 div 2 = u div 8" for u :: nat
    by (simp_all only: div_mult2_eq[symmetric]) simp_all
  have p: "(2 :: nat) ^ 7 = 128" "(2 :: nat) ^ 6 = 64" "(2 :: nat) ^ 5 = 32" "(2 :: nat) ^ 4 = 16"
    "(2 :: nat) ^ 3 = 8" "(2 :: nat) ^ 2 = 4" by simp_all
  show "bit dcs 7 \<longleftrightarrow> odd (unat dcs div 16 div 8)" "bit dcs 6 \<longleftrightarrow> odd (unat dcs div 16 div 4)"
    "bit dcs 5 \<longleftrightarrow> odd (unat dcs div 16 div 2)" "bit dcs 4 \<longleftrightarrow> odd (unat dcs div 16)"
    unfolding high by (simp_all only: b p)
  show "bit dcs 3 \<longleftrightarrow> odd (unat dcs div 4 mod 4 div 2)" "bit dcs 2 \<longleftrightarrow> odd (unat dcs div 4 mod 4)"
    unfolding low high by (simp_all only: b p)
qed

text \<open>The bit tests of \<open>decodeSMSAlphabet\<close> compute the coding group table of TS 23.038 for every
  data coding scheme.\<close>
theorem decodeSMSAlphabet_table:
  "decodeSMSAlphabet dcs = codingGroup (unat dcs div 16) (unat dcs div 4 mod 4)"
proof -
  obtain g c where gc: "g = unat dcs div 16" "c = unat dcs div 4 mod 4" by simp
  have "g < 16" "c < 4" using unat_byte_less[of dcs] by (simp_all add: gc less_mult_imp_div_less)
  then have g: "g \<in> {0,1,2,3,4,5,6,7,8,9,10,11,12,13,14,15}" and c: "c \<in> {0,1,2,3}"
    by (auto simp: numeral_eq_Suc less_Suc_eq)
  show ?thesis
    unfolding decodeSMSAlphabet_def dcs_masks dcs_bits gc[symmetric] codingGroup_def Let_def
    using g c by (elim insertE emptyE) simp_all
qed

subsection \<open>Recipients\<close>

definition recipientChar :: "rune \<Rightarrow> bool" where
  "recipientChar c \<longleftrightarrow> isDigit c \<or> c \<in> {43, 32, 45, 40, 41}"

definition numberChars :: "gostring \<Rightarrow> gostring" where
  "numberChars v = filter (\<lambda>c. isDigit c \<or> c = 43) (TrimSpace v)"

definition wellFormedRecipient :: "gostring \<Rightarrow> bool" where
  "wellFormedRecipient v \<longleftrightarrow>
    (\<forall>c \<in> set (TrimSpace v). recipientChar c) \<and> (\<forall>c \<in> set (tl (numberChars v)). isDigit c) \<and>
    1 \<le> length (trimPlus (numberChars v)) \<and> length (trimPlus (numberChars v)) \<le> 20"

definition numberPart :: "gostring \<Rightarrow> gostring" where
  "numberPart s = filter (\<lambda>c. isDigit c \<or> c = 43) s"

lemma numberPart_simps [simp]:
  "numberPart [] = []"
  "numberPart (c # s) = (if isDigit c \<or> c = 43 then c # numberPart s else numberPart s)"
  by (simp_all add: numberPart_def)

definition admits :: "gostring \<Rightarrow> gostring \<Rightarrow> bool" where
  "admits s result \<longleftrightarrow> (\<forall>c \<in> set s. recipientChar c)
     \<and> (\<forall>c \<in> set (if result = [] then tl (numberPart s) else numberPart s). isDigit c)"

lemma admits_digit: "isDigit c \<Longrightarrow> admits (c # s) result \<longleftrightarrow> admits s (result @ [c])"
  by (simp add: admits_def recipientChar_def)

lemma admits_plus: "admits (43 # s) result \<longleftrightarrow> result = [] \<and> admits s [43]"
  by (simp add: admits_def recipientChar_def isDigit_def)

lemma admits_separator: "c \<in> {32, 45, 40, 41} \<Longrightarrow> admits (c # s) result \<longleftrightarrow> admits s result"
  by (auto simp: admits_def recipientChar_def isDigit_def)

lemma recipientLoop_filter:
  "recipientLoop s result = (if admits s result then Inr (result @ numberPart s) else err ErrSMSInvalidRecipient)"
proof (induction s arbitrary: result)
  case Nil
  then show ?case by (simp add: admits_def)
next
  case (Cons c s)
  consider "isDigit c" | "c = 43" | "c \<in> {32, 45, 40, 41}" | "\<not> recipientChar c" "\<not> isDigit c" "c \<notin> {43, 32, 45, 40, 41}"
    by (auto simp: recipientChar_def)
  then show ?case
  proof cases
    case 1
    then show ?thesis by (simp add: Cons.IH admits_digit)
  next
    case 2
    then show ?thesis by (simp add: Cons.IH admits_plus isDigit_def)
  next
    case 3
    then have "\<not> isDigit c" "c \<noteq> 43" by (auto simp: isDigit_def)
    with 3 show ?thesis by (simp add: Cons.IH admits_separator)
  next
    case 4
    then show ?thesis by (simp add: admits_def)
  qed
qed

text \<open>A recipient is accepted exactly when, spaces around it removed, it has only digits, blanks,
  dashes, parentheses and one plus sign before the first digit, with 1 to 20 digits; the result is
  its digits and plus sign, and every other recipient is the invalid recipient error.\<close>
theorem normalizeSMSRecipient_exact:
  "normalizeSMSRecipient v =
    (if wellFormedRecipient v then Inr (numberChars v) else err ErrSMSInvalidRecipient)"
proof -
  obtain f where f: "f = numberChars v" by simp
  have f43: "\<forall>c \<in> set f. isDigit c \<or> c = 43" by (auto simp: f numberChars_def)
  have "\<forall>c \<in> set (trimPlus f). isDigit c" if "\<forall>c \<in> set (tl f). isDigit c"
    using f43 that by (cases f) (auto simp: trimPlus_def)
  then have digits: "\<not> (\<exists>c \<in> set (trimPlus f). \<not> isDigit c)" if "\<forall>c \<in> set (tl f). isDigit c" using that by blast
  have norm: "normalizeSMSRecipient v =
      rbind (if (\<forall>c \<in> set (TrimSpace v). recipientChar c) \<and> (\<forall>c \<in> set (tl f). isDigit c) then Inr f else err ErrSMSInvalidRecipient)
        (\<lambda>normalized. let digits = trimPlus normalized in
           if length digits < 1 \<or> length digits > 20 then err ErrSMSInvalidRecipient
           else if \<exists>c \<in> set digits. \<not> isDigit c then err ErrSMSInvalidRecipient else Inr normalized)"
    unfolding normalizeSMSRecipient_def recipientLoop_filter admits_def numberPart_def f numberChars_def
    by (simp only: simp_thms append_Nil if_True)
  show ?thesis
  proof (cases "(\<forall>c \<in> set (TrimSpace v). recipientChar c) \<and> (\<forall>c \<in> set (tl f). isDigit c)")
    case True
    then have d: "\<not> (\<exists>c \<in> set (trimPlus f). \<not> isDigit c)" using digits by blast
    obtain n where n: "n = length (trimPlus f)" by simp
    have "wellFormedRecipient v \<longleftrightarrow> 1 \<le> n \<and> n \<le> 20"
      using True unfolding wellFormedRecipient_def f[symmetric] n by blast
    moreover have "normalizeSMSRecipient v = (if n < 1 \<or> n > 20 then err ErrSMSInvalidRecipient else Inr f)"
      unfolding norm if_P[OF True] rbind.simps Let_def n if_not_P[OF d] ..
    ultimately show ?thesis unfolding f[symmetric] by simp
  next
    case False
    then have "\<not> wellFormedRecipient v" unfolding wellFormedRecipient_def f[symmetric] by blast
    then show ?thesis unfolding norm if_not_P[OF False] by simp
  qed
qed

end
