(* ===== verification/Mms.thy ===== *)
theory Mms
  imports GoText
begin

text \<open>
  The MM1 wire format of \<open>mms/pdu.go\<close>. Strings are their bytes. A cursor is the bytes that are
  left of it, \<open>c.b[c.i:]\<close>: every access of the code is at the index and moves it forward. Readers
  return the value and the bytes left.
\<close>

definition MaxSize :: nat where
  "MaxSize = 2 * 1024 * 1024"

datatype mms_error = ErrPDU | MMSTooLarge

record part =
  part_Type :: "byte list"
  part_Data :: "byte list"

record pdu =
  pdu_Type :: byte
  pdu_Transaction :: "byte list"
  pdu_MessageID :: "byte list"
  pdu_From :: "byte list"
  pdu_To :: "byte list"
  pdu_Location :: "byte list"
  pdu_Status :: byte
  pdu_Parts :: "part list"

definition emptyPDU :: pdu where
  "emptyPDU = \<lparr>pdu_Type = 0, pdu_Transaction = [], pdu_MessageID = [], pdu_From = [], pdu_To = [],
     pdu_Location = [], pdu_Status = 0, pdu_Parts = []\<rparr>"

definition ascii :: "string \<Rightarrow> byte list" where
  "ascii s = map of_char s"

subsection \<open>Writing\<close>

function uvLoop :: "nat \<Rightarrow> byte list \<Rightarrow> byte list" where
  "uvLoop n b = (if n > 0 then uvLoop (n div 128) ((word_of_nat (n mod 128) OR 0x80) # b) else b)"
  by auto
termination by (relation "measure fst") auto

declare uvLoop.simps [simp del]

definition uv :: "nat \<Rightarrow> byte list" where
  "uv n = uvLoop (n div 128) [word_of_nat (n mod 128)]"

definition txtBytes :: "byte list \<Rightarrow> byte list" where
  "txtBytes s = s @ [0]"

definition valueLength :: "byte list \<Rightarrow> byte list" where
  "valueLength b = (if length b < 31 then word_of_nat (length b) # b else (31 # uv (length b)) @ b)"

definition imageType :: "byte list \<Rightarrow> bool" where
  "imageType s \<longleftrightarrow> s = ascii ''image/jpeg'' \<or> s = ascii ''image/png'' \<or> s = ascii ''image/gif''"

fun recipientDigits :: "nat \<Rightarrow> byte list \<Rightarrow> bool" where
  "recipientDigits i [] = True"
| "recipientDigits i (c # cs) =
    (if c = 0x2b \<and> i = 0 then recipientDigits (i + 1) cs
     else if unat c < 0x30 \<or> unat c > 0x39 then False
     else recipientDigits (i + 1) cs)"

definition partHeader :: "nat \<Rightarrow> part \<Rightarrow> byte list" where
  "partHeader i p =
    (let h = txtBytes (part_Type p);
         h = (if part_Type p = ascii ''text/plain'' then valueLength (h @ [0x81, 0xea]) else h)
     in h @ [0x8e] @ txtBytes (ascii (''part'' @ showNat i)))"

definition encodePart :: "nat \<times> part \<Rightarrow> byte list" where
  "encodePart = (\<lambda>(i, p). uv (length (partHeader i p)) @ uv (length (part_Data p)) @ partHeader i p @ part_Data p)"

definition SendRequest :: "byte list \<Rightarrow> byte list \<Rightarrow> byte list \<Rightarrow> part option \<Rightarrow> (mms_error, byte list) res" where
  "SendRequest ident recipient body picture =
    (if length ident < 8 \<or> length ident > 80 \<or> (\<exists>c \<in> set ident. c = 0 \<or> c = 13 \<or> c = 10)
        \<or> \<not> utf8Valid body \<or> 0 \<in> set body \<or> length body > 4096
        \<or> length recipient < 3 \<or> length recipient > 16 then err ErrPDU
     else if \<not> recipientDigits 0 recipient then err ErrPDU
     else
       let parts = (if body \<noteq> [] then [\<lparr>part_Type = ascii ''text/plain'', part_Data = body\<rparr>] else [])
       in rbind (case picture of
             None \<Rightarrow> Inr parts
           | Some p \<Rightarrow> if \<not> imageType (part_Type p) \<or> part_Data p = [] then err ErrPDU else Inr (parts @ [p])) (\<lambda>parts.
         if parts = [] then err ErrPDU
         else
           let b = [0x8c, 0x80, 0x98] @ txtBytes ident @ [0x8d, 0x92, 0x89, 1, 0x81, 0x97]
                 @ txtBytes (recipient @ ascii ''/TYPE=PLMN'') @ [0x8a, 0x80, 0x86, 0x80, 0x84, 0xa3]
                 @ uv (length parts) @ concat (map encodePart (enumerate 0 parts))
           in if length b > MaxSize then err MMSTooLarge else Inr b))"

definition NotifyResponse :: "byte list \<Rightarrow> byte \<Rightarrow> byte list" where
  "NotifyResponse ident status = [0x8c, 0x83, 0x98] @ txtBytes ident @ [0x8d, 0x92, 0x95, status]"

subsection \<open>Reading\<close>

type_synonym 'a reader = "byte list \<Rightarrow> (mms_error, 'a \<times> byte list) res"

definition readTake :: "nat \<Rightarrow> byte list reader" where
  "readTake n c = (if n > length c then err ErrPDU else Inr (take n c, drop n c))"

definition oct :: "byte reader" where
  "oct c = rbind (readTake 1 c) (\<lambda>(b, c). rbind (idx b 0) (\<lambda>v. Inr (v, c)))"

fun uintvarLoop :: "nat \<Rightarrow> nat \<Rightarrow> nat reader" where
  "uintvarLoop 0 n c = err ErrPDU"
| "uintvarLoop (Suc k) n c =
    rbind (oct c) (\<lambda>(v, c).
      let n = n * 128 + unat (v AND 127) in
      if n > MaxSize then err ErrPDU
      else if v AND 128 = 0 then Inr (n, c)
      else uintvarLoop k n c)"

definition uintvar :: "nat reader" where
  "uintvar c = uintvarLoop 5 0 c"

definition readLength :: "nat reader" where
  "readLength c = rbind (oct c) (\<lambda>(v, c).
    if unat v < 31 then Inr (unat v, c)
    else if v = 31 then uintvar c
    else err ErrPDU)"

text \<open>The loop of \<open>text\<close>: the bytes before the first zero.\<close>

fun untilZero :: "byte list \<Rightarrow> (byte list \<times> byte list) option" where
  "untilZero [] = None"
| "untilZero (v # c) = (if v = 0 then Some ([], c) else map_option (apfst ((#) v)) (untilZero c))"

definition readText :: "byte list reader" where
  "readText c =
    (case untilZero c of
       None \<Rightarrow> err ErrPDU
     | Some (b, c) \<Rightarrow>
         let b = (case b of x # xs \<Rightarrow> if x = 127 then xs else b | [] \<Rightarrow> b) in
         if length b > 4096 \<or> \<not> utf8Valid b then err ErrPDU else Inr (b, c))"

text \<open>The character set number is a 64-bit int that the shifts may overflow.\<close>

definition charsetNumber :: "byte list \<Rightarrow> 64 word" where
  "charsetNumber x = fold (\<lambda>a charset. push_bit 8 charset OR ucast a) x 0"

definition encodedValue :: "byte list \<Rightarrow> (mms_error, byte list) res" where
  "encodedValue b =
    rbind (oct b) (\<lambda>(v, d).
    rbind (if unat v < 128
           then rbind (readTake (unat v) d) (\<lambda>(x, d). Inr (charsetNumber x, d))
           else Inr (ucast (v AND 127), d)) (\<lambda>(charset, d).
      if charset \<noteq> 106 \<and> charset \<noteq> 3 then err ErrPDU
      else rbind (readText d) (\<lambda>(s, _). Inr s)))"

definition encoded :: "byte list reader" where
  "encoded c =
    (case c of
       [] \<Rightarrow> err ErrPDU
     | v # _ \<Rightarrow>
         if unat v > 31 then readText c
         else rbind (readLength c) (\<lambda>(n, c). rbind (readTake n c) (\<lambda>(b, c).
           rbind (encodedValue b) (\<lambda>s. Inr (s, c)))))"

definition skip :: "unit reader" where
  "skip c =
    (case c of
       [] \<Rightarrow> err ErrPDU
     | v # _ \<Rightarrow>
         if unat v \<le> 31 then rbind (readLength c) (\<lambda>(n, c). rbind (readTake n c) (\<lambda>(_, c). Inr ((), c)))
         else if unat v \<ge> 128 then rbind (oct c) (\<lambda>(_, c). Inr ((), c))
         else rbind (readText c) (\<lambda>(_, c). Inr ((), c)))"

definition wellKnownType :: "nat \<Rightarrow> string" where
  "wellKnownType n =
    (if n = 3 then ''text/plain''
     else if n = 0x1d then ''image/gif''
     else if n = 0x1e then ''image/jpeg''
     else if n = 0x20 then ''image/png''
     else if n = 0x23 then ''application/vnd.wap.multipart.mixed''
     else if n = 0x33 then ''application/vnd.wap.multipart.related''
     else if n = 0x3e then ''application/vnd.wap.mms-message''
     else ''application/octet-stream'')"

text \<open>
  \<open>contentType\<close> calls itself only on a value that does not start with a length, so the
  recursion is one level deep.
\<close>

definition contentTypeToken :: "byte list reader" where
  "contentTypeToken c =
    (case c of
       [] \<Rightarrow> err ErrPDU
     | v # _ \<Rightarrow>
         if unat v < 128 then readText c
         else rbind (oct c) (\<lambda>(v, c). Inr (ascii (wellKnownType (unat (v AND 127))), c)))"

definition contentType :: "byte list reader" where
  "contentType c =
    (case c of
       [] \<Rightarrow> err ErrPDU
     | v # _ \<Rightarrow>
         if unat v \<le> 31 then
           rbind (readLength c) (\<lambda>(n, c). rbind (readTake n c) (\<lambda>(b, c).
             case b of
               [] \<Rightarrow> err ErrPDU
             | x # _ \<Rightarrow>
                 if unat x \<le> 31 then err ErrPDU
                 else rbind (contentTypeToken b) (\<lambda>(kind, _). Inr (kind, c))))
         else contentTypeToken c)"

fun partsLoop :: "nat \<Rightarrow> part list reader" where
  "partsLoop 0 c = Inr ([], c)"
| "partsLoop (Suc n) c =
    rbind (uintvar c) (\<lambda>(hl, c).
    rbind (uintvar c) (\<lambda>(dl, c).
    rbind (readTake hl c) (\<lambda>(h, c).
    rbind (readTake dl c) (\<lambda>(d, c).
    rbind (contentType h) (\<lambda>(kind, _).
    rbind (partsLoop n c) (\<lambda>(parts, c).
      Inr (if imageType kind \<or> kind = ascii ''text/plain''
           then \<lparr>part_Type = kind, part_Data = d\<rparr> # parts else parts, c)))))))"

definition readParts :: "part list reader" where
  "readParts c =
    (case uintvar c of
       Inl f \<Rightarrow> err ErrPDU
     | Inr (n, c) \<Rightarrow> if n < 1 \<or> n > 32 then err ErrPDU else partsLoop n c)"

subsection \<open>Parsing a PDU\<close>

text \<open>
  One turn of the loop either goes on or returns, with the PDU filled in so far. An assignment
  \<open>p.F, e = c.read()\<close> stores the zero value when the read fails.
\<close>

datatype turn = Continue pdu "byte list" | Return pdu "mms_error fault option"

fun assign :: "(mms_error, 'a \<times> byte list) res \<Rightarrow> 'a \<Rightarrow> ('a \<Rightarrow> pdu) \<Rightarrow> turn" where
  "assign (Inr (v, c)) zero set_field = Continue (set_field v) c"
| "assign (Inl f) zero set_field = Return (set_field zero) (Some f)"

definition parseFrom :: "byte list \<Rightarrow> pdu \<Rightarrow> turn" where
  "parseFrom c p =
    (case rbind (readLength c) (\<lambda>(n, c). readTake n c) of
       Inl f \<Rightarrow> Return p (Some f)
     | Inr (b, c) \<Rightarrow>
         (case oct b of
            Inl _ \<Rightarrow> Return p (Some (Fail ErrPDU))
          | Inr (t, d) \<Rightarrow>
              if t = 0x80 then assign (rbind (encoded d) (\<lambda>(s, _). Inr (s, c))) [] (\<lambda>s. p\<lparr>pdu_From := s\<rparr>)
              else if t \<noteq> 0x81 then Return p (Some (Fail ErrPDU))
              else Continue p c))"

definition parseBody :: "byte list \<Rightarrow> bool \<Rightarrow> pdu \<Rightarrow> turn" where
  "parseBody c seenVersion p =
    (case contentType c of
       Inl f \<Rightarrow> Return p (Some f)
     | Inr (ct, c) \<Rightarrow>
         if ct \<noteq> ascii ''application/vnd.wap.multipart.mixed'' \<and> ct \<noteq> ascii ''application/vnd.wap.multipart.related''
         then Return p (Some (Fail ErrPDU))
         else (case readParts c of
             Inl _ \<Rightarrow> Return (p\<lparr>pdu_Parts := []\<rparr>) (Some (Fail ErrPDU))
           | Inr (parts, c) \<Rightarrow>
               let p = p\<lparr>pdu_Parts := parts\<rparr> in
               if c \<noteq> [] then Return p (Some (Fail ErrPDU))
               else if \<not> seenVersion then Return p (Some (Fail ErrPDU))
               else Return p None))"

definition parseHeader :: "byte \<Rightarrow> byte list \<Rightarrow> bool \<Rightarrow> pdu \<Rightarrow> turn" where
  "parseHeader h c seenVersion p =
    (if h = 0x8c then assign (oct c) 0 (\<lambda>v. p\<lparr>pdu_Type := v\<rparr>)
     else if h = 0x8d then
       (case oct c of
          Inl _ \<Rightarrow> Return p (Some (Fail ErrPDU))
        | Inr (v, c) \<Rightarrow> if unat v < 0x90 \<or> unat v > 0x93 then Return p (Some (Fail ErrPDU)) else Continue p c)
     else if h = 0x98 then assign (readText c) [] (\<lambda>s. p\<lparr>pdu_Transaction := s\<rparr>)
     else if h = 0x8b then assign (readText c) [] (\<lambda>s. p\<lparr>pdu_MessageID := s\<rparr>)
     else if h = 0x92 \<or> h = 0x95 \<or> h = 0x99 then assign (oct c) 0 (\<lambda>v. p\<lparr>pdu_Status := v\<rparr>)
     else if h = 0x83 then assign (readText c) [] (\<lambda>s. p\<lparr>pdu_Location := s\<rparr>)
     else if h = 0x89 then parseFrom c p
     else if h = 0x97 then assign (encoded c) [] (\<lambda>s. p\<lparr>pdu_To := s\<rparr>)
     else if h = 0x96 \<or> h = 0x93 then assign (encoded c) [] (\<lambda>_. p)
     else if h = 0x84 then parseBody c seenVersion p
     else if unat h < 128 then Return p (Some (Fail ErrPDU))
     else assign (skip c) () (\<lambda>_. p))"

text \<open>The readers move forward.\<close>

named_theorems forward "a reader returns a suffix that is no longer than its input"

lemma readTake_forward [forward]: "readTake n c = Inr (b, c') \<Longrightarrow> length c' \<le> length c \<and> length b = n \<and> n \<le> length c"
  by (auto simp: readTake_def split: if_splits)

lemma oct_forward [forward]: "oct c = Inr (v, c') \<Longrightarrow> length c' < length c"
  by (auto simp: oct_def readTake_def idx_def split: if_splits)

lemma uintvarLoop_forward: "uintvarLoop k n c = Inr (m, c') \<Longrightarrow> length c' \<le> length c \<and> m \<le> MaxSize"
  by (induction k arbitrary: n c) (fastforce simp: rbind_Inr_iff Let_def dest: oct_forward split: if_splits)+

lemma uintvar_forward [forward]: "uintvar c = Inr (m, c') \<Longrightarrow> length c' \<le> length c \<and> m \<le> MaxSize"
  unfolding uintvar_def by (rule uintvarLoop_forward)

lemma readLength_forward [forward]: "readLength c = Inr (n, c') \<Longrightarrow> length c' \<le> length c"
  by (fastforce simp: readLength_def rbind_Inr_iff dest: oct_forward uintvar_forward split: if_splits)

lemma untilZero_forward: "untilZero c = Some (b, c') \<Longrightarrow> length b + length c' < length c"
  by (induction c arbitrary: b) (auto split: if_splits)

lemma readText_forward [forward]: "readText c = Inr (s, c') \<Longrightarrow> length c' < length c \<and> utf8Valid s \<and> length s \<le> 4096"
  by (auto simp: readText_def Let_def dest!: untilZero_forward split: option.splits if_splits)

lemma encoded_forward [forward]: "encoded c = Inr (s, c') \<Longrightarrow> length c' \<le> length c"
  by (fastforce simp: encoded_def rbind_Inr_iff dest: readText_forward readLength_forward readTake_forward
      split: list.splits if_splits)

lemma skip_forward [forward]: "skip c = Inr (u, c') \<Longrightarrow> length c' \<le> length c"
  by (fastforce simp: skip_def rbind_Inr_iff dest: oct_forward readText_forward readLength_forward readTake_forward
      split: list.splits if_splits)

lemma assign_Continue: "assign r z f = Continue p c \<longleftrightarrow> (\<exists>v. r = Inr (v, c) \<and> p = f v)"
  by (cases "(r, z, f)" rule: assign.cases) auto

lemma parseFrom_forward: "parseFrom c p = Continue p' c' \<Longrightarrow> length c' \<le> length c"
  by (fastforce simp: parseFrom_def assign_Continue rbind_Inr_iff dest: readLength_forward readTake_forward
      split: sum.splits if_splits)

lemma parseBody_returns: "parseBody c seenVersion p \<noteq> Continue p' c'"
  by (auto simp: parseBody_def Let_def split: sum.splits)

lemma parseHeader_forward: "parseHeader h c seenVersion p = Continue p' c' \<Longrightarrow> length c' \<le> length c"
  by (auto simp: parseHeader_def assign_Continue parseBody_returns
      dest: oct_forward readText_forward encoded_forward skip_forward parseFrom_forward
      split: if_splits sum.splits)

function parseLoop :: "byte list \<Rightarrow> byte list \<Rightarrow> pdu \<Rightarrow> pdu \<times> mms_error fault option" where
  "parseLoop seen [] p = (if 0x8d \<notin> set seen then (p, Some (Fail ErrPDU)) else (p, None))"
| "parseLoop seen (h # c) p =
    (if h \<in> set seen \<and> h \<noteq> 0x97 then (p, Some (Fail ErrPDU))
     else case parseHeader h c (0x8d \<in> set (h # seen)) p of
         Continue p' c' \<Rightarrow> parseLoop (h # seen) c' p'
       | Return p' e \<Rightarrow> (p', e))"
  by pat_completeness auto
termination by (relation "measure (\<lambda>(seen, c, p). length c)") (auto dest: parseHeader_forward simp: less_Suc_eq_le)

definition Parse :: "byte list \<Rightarrow> pdu \<times> mms_error fault option" where
  "Parse b =
    (if length b < 2 \<or> length b > MaxSize \<or> b ! 0 \<noteq> 0x8c then (emptyPDU, Some (Fail ErrPDU))
     else parseLoop [] b emptyPDU)"

definition Push :: "byte list \<Rightarrow> pdu \<times> mms_error fault option" where
  "Push b =
    (if length b < 4 \<or> b ! 1 \<noteq> 6 \<and> b ! 1 \<noteq> 7 then (emptyPDU, Some (Fail ErrPDU))
     else case rbind (uintvar (drop 2 b)) (\<lambda>(n, c). readTake n c) of
         Inl f \<Rightarrow> (emptyPDU, Some f)
       | Inr (h, c) \<Rightarrow>
           (case contentType h of
              Inl _ \<Rightarrow> (emptyPDU, Some (Fail ErrPDU))
            | Inr (kind, _) \<Rightarrow>
                if kind \<noteq> ascii ''application/vnd.wap.mms-message'' then (emptyPDU, Some (Fail ErrPDU)) else Parse c))"

end
