(* ===== verification/Mms_Props.thy ===== *)
theory Mms_Props
  imports Mms
begin

text \<open>
  Properties of the MM1 format: the variable length integer as an instance of \<open>stream_codec\<close>, a
  sent request parses back to its parts, and what an accepted PDU satisfies.
\<close>

subsection \<open>Variable length integers\<close>

fun uvHigh :: "nat \<Rightarrow> byte list" where
  "uvHigh n = (if n = 0 then [] else uvHigh (n div 128) @ [word_of_nat (n mod 128) OR 0x80])"

declare uvHigh.simps [simp del]

lemma uvLoop_uvHigh: "uvLoop n b = uvHigh n @ b"
proof (induction n b rule: uvLoop.induct)
  case (1 n b)
  then show ?case by (subst uvLoop.simps, subst uvHigh.simps) auto
qed

lemma uv_uvHigh: "uv n = uvHigh (n div 128) @ [word_of_nat (n mod 128)]"
  by (simp add: uv_def uvLoop_uvHigh)

lemma low_bits: "n < 128 \<Longrightarrow> unat (word_of_nat n AND (127 :: byte)) = n"
proof -
  assume n: "n < 128"
  have m: "(127 :: byte) = mask 7" by (simp add: mask_eq_exp_minus_1)
  show ?thesis using n by (simp add: m flip: take_bit_eq_mask) (simp add: unsigned_take_bit_eq unat_of_nat8 take_bit_nat_eq_self)
qed

lemma high_bit: "n < 128 \<Longrightarrow> word_of_nat n AND (128 :: byte) = 0"
proof -
  assume n: "n < 128"
  have m: "(128 :: byte) = 2 ^ 7" by simp
  have "\<not> bit n 7" using n by (simp add: bit_iff_odd)
  then have nb: "\<not> bit (word_of_nat n :: byte) 7" by (simp add: bit_of_nat_iff)
  show ?thesis unfolding m and_exp_eq_0_iff_not_bit by (rule nb)
qed

lemma continued_bits:
  "n < 128 \<Longrightarrow> unat ((word_of_nat n OR (128 :: byte)) AND 127) = n"
  "(w OR (128 :: byte)) AND 128 \<noteq> 0"
proof -
  have "(w OR (128 :: byte)) AND 128 = 128" by (rule bit_word_eqI) (auto simp: bit_simps)
  then show "(w OR (128 :: byte)) AND 128 \<noteq> 0" by simp
  assume "n < 128"
  moreover have "(word_of_nat n OR (128 :: byte)) AND 127 = word_of_nat n AND 127"
    by (simp add: bit.conj_disj_distrib2)
  ultimately show "unat ((word_of_nat n OR (128 :: byte)) AND 127) = n" by (simp add: low_bits)
qed

lemma oct_Cons [simp]: "oct (v # c) = Inr (v, c)"
  by (simp add: oct_def readTake_def idx_def)

lemma uvHigh_read:
  "m \<le> MaxSize \<Longrightarrow> uintvarLoop (length (uvHigh m) + j) 0 (uvHigh m @ c) = uintvarLoop j m c"
proof (induction m arbitrary: j c rule: uvHigh.induct)
  case (1 m)
  show ?case
  proof (cases "m = 0")
    case True
    then show ?thesis by (simp add: uvHigh.simps)
  next
    case False
    let ?l = "word_of_nat (m mod 128) OR 0x80 :: byte"
    have "m div 128 \<le> MaxSize" using "1.prems" div_le_dividend le_trans by blast
    then have "uintvarLoop (length (uvHigh (m div 128)) + Suc j) 0 (uvHigh (m div 128) @ (?l # c)) = uintvarLoop (Suc j) (m div 128) (?l # c)"
      using 1 False by blast
    moreover have "uintvarLoop (Suc j) (m div 128) (?l # c) = uintvarLoop j m c"
      using "1.prems" by (simp add: continued_bits)
    ultimately show ?thesis using False by (simp add: uvHigh.simps[of m])
  qed
qed

lemma length_uvHigh: "m < 128 ^ k \<Longrightarrow> length (uvHigh m) \<le> k"
proof (induction k arbitrary: m)
  case 0
  then show ?case by (simp add: uvHigh.simps)
next
  case (Suc k)
  then have "m div 128 < 128 ^ k" by (simp add: less_mult_imp_div_less mult.commute)
  then show ?case using Suc.IH[of "m div 128"] by (simp add: uvHigh.simps[of m])
qed

interpretation uintvar: stream_codec "\<lambda>n. n \<le> MaxSize" uv uintvar
proof
  fix n rest assume n: "n \<le> MaxSize"
  let ?h = "uvHigh (n div 128)"
  have "n div 128 < 128 ^ 4" using n by (simp add: MaxSize_def)
  then have "length ?h \<le> 4" by (rule length_uvHigh)
  then have j: "length ?h + Suc (4 - length ?h) = 5" by simp
  have "n div 128 \<le> MaxSize" using n div_le_dividend le_trans by blast
  then have "uintvarLoop (length ?h + Suc (4 - length ?h)) 0 (?h @ (word_of_nat (n mod 128) # rest))
      = uintvarLoop (Suc (4 - length ?h)) (n div 128) (word_of_nat (n mod 128) # rest)"
    by (rule uvHigh_read)
  also have "\<dots> = Inr (n, rest)" using n by (simp add: low_bits high_bit)
  finally show "uintvar (uv n @ rest) = Inr (n, rest)" unfolding uintvar_def uv_uvHigh j by simp
qed

lemma uintvar_uv: "n \<le> MaxSize \<Longrightarrow> uintvar (uv n @ c) = Inr (n, c)"
  by (rule uintvar.get_put)

subsection \<open>Sent requests\<close>

lemma utf8Valid_ascii: "\<forall>c \<in> set s. unat c < 0x80 \<Longrightarrow> utf8Valid s"
proof (induction s)
  case (Cons b bs)
  then have "unat b < 128" by simp
  then have "utf8DecodeRune (b # bs) = Some (unat b, 1)" unfolding utf8DecodeRune.simps Let_def by (rule if_P)
  with Cons show ?case by (simp del: utf8DecodeRune.simps)
qed simp

lemma untilZero_append: "0 \<notin> set s \<Longrightarrow> untilZero (s @ 0 # c) = Some (s, c)"
  by (induction s) auto

lemma readText_txtBytes:
  assumes "0 \<notin> set s" "s \<noteq> [] \<longrightarrow> hd s \<noteq> 127" "length s \<le> 4096" "utf8Valid s"
  shows "readText (txtBytes s @ c) = Inr (s, c)" and "readText (s @ 0 # c) = Inr (s, c)"
proof -
  have "(case s of [] \<Rightarrow> s | x # xs \<Rightarrow> if x = 127 then xs else s) = s" using assms(2) by (cases s) auto
  then show "readText (s @ 0 # c) = Inr (s, c)"
    using assms by (simp add: readText_def untilZero_append Let_def del: utf8Valid.simps)
  then show "readText (txtBytes s @ c) = Inr (s, c)" by (simp add: txtBytes_def)
qed

definition allowedType :: "byte list \<Rightarrow> bool" where
  "allowedType kind \<longleftrightarrow> imageType kind \<or> kind = ascii ''text/plain''"

lemma readTake_length: "readTake n (xs @ c) = (if length xs = n then Inr (xs, c) else readTake n (xs @ c))"
  by (simp add: readTake_def)

lemma token_text:
  assumes "31 < unat v" "unat v < 127" "0 \<notin> set s" "length s < 4096" "\<forall>c \<in> set s. unat c < 0x80" "v \<noteq> 0"
  shows "contentTypeToken (v # s @ 0 # c) = Inr (v # s, c)"
proof -
  have "v \<noteq> 127" using assms(2) by auto
  then show ?thesis
    using readText_txtBytes(2)[of "v # s" c] assms utf8Valid_ascii[of "v # s"] by (simp add: contentTypeToken_def)
qed

lemma contentType_partHeader:
  assumes "allowedType (part_Type p)"
  shows "\<exists>c. contentType (partHeader i p) = Inr (part_Type p, c)"
proof -
  have image: "contentType (partHeader i p) = Inr (part_Type p, 0x8e # txtBytes (ascii (''part'' @ showNat i)))"
    if "part_Type p = 0x69 # s" "0 \<notin> set s" "length s < 4096" "\<forall>c \<in> set s. unat c < 0x80" for s
  proof -
    have "contentTypeToken (0x69 # s @ 0 # c) = Inr (0x69 # s, c)" for c
      using that by (intro token_text) simp_all
    then show ?thesis using that(1) by (simp add: partHeader_def Let_def contentType_def txtBytes_def ascii_def)
  qed
  show ?thesis
    using assms unfolding allowedType_def imageType_def
  proof (elim disjE)
    assume t: "part_Type p = ascii ''text/plain''"
    have tok: "contentTypeToken (0x74 # map of_char ''ext/plain'' @ 0 # [0x81, 0xea]) = Inr (ascii ''text/plain'', [0x81, 0xea])"
      by (subst token_text) (simp_all add: ascii_def)
    show ?thesis
      using tok t by (simp add: partHeader_def valueLength_def txtBytes_def ascii_def contentType_def readLength_def readTake_def)
  qed (use image in \<open>simp_all add: ascii_def\<close>)
qed

lemma partsLoop_encode:
  assumes "\<forall>p \<in> set ps. allowedType (part_Type p)"
    and "\<forall>(i, p) \<in> set (enumerate k ps). length (partHeader i p) \<le> MaxSize \<and> length (part_Data p) \<le> MaxSize"
  shows "partsLoop (length ps) (concat (map encodePart (enumerate k ps)) @ c) = Inr (ps, c)"
  using assms
proof (induction ps arbitrary: k)
  case Nil
  then show ?case by simp
next
  case (Cons p ps)
  let ?rest = "concat (map encodePart (enumerate (Suc k) ps)) @ c"
  have IH: "partsLoop (length ps) ?rest = Inr (ps, c)" using Cons by auto
  have b: "length (partHeader k p) \<le> MaxSize" "length (part_Data p) \<le> MaxSize" using Cons.prems(2) by auto
  obtain c' where ct: "contentType (partHeader k p) = Inr (part_Type p, c')"
    using contentType_partHeader[of p k] Cons.prems(1) by auto
  have kind: "imageType (part_Type p) \<or> part_Type p = ascii ''text/plain''"
    using Cons.prems(1) by (auto simp: allowedType_def)
  have "encodePart (k, p) @ ?rest = uv (length (partHeader k p)) @ uv (length (part_Data p)) @ partHeader k p @ part_Data p @ ?rest"
    by (simp add: encodePart_def)
  then have "partsLoop (Suc (length ps)) (encodePart (k, p) @ ?rest) = Inr (p # ps, c)"
    using b ct kind IH by (simp add: uintvar_uv readTake_def)
  then show ?case by simp
qed

lemma skip_short: "unat v \<ge> 128 \<Longrightarrow> skip (v # c) = Inr ((), c)"
  by (simp add: skip_def)

lemma length_encodePart: "length (encodePart (i, p)) \<ge> length (partHeader i p) + length (part_Data p)"
  by (simp add: encodePart_def)

lemma encodePart_bounded:
  assumes "length (concat (map encodePart (enumerate k ps))) \<le> n"
  shows "\<forall>(i, p) \<in> set (enumerate k ps). length (partHeader i p) \<le> n \<and> length (part_Data p) \<le> n"
  using assms
proof (induction ps arbitrary: k n)
  case (Cons p ps)
  then have n: "length (encodePart (k, p)) + length (concat (map encodePart (enumerate (Suc k) ps))) \<le> n" by simp
  have "\<forall>(i, q) \<in> set (enumerate (Suc k) ps). length (partHeader i q) \<le> n \<and> length (part_Data q) \<le> n"
    using n by (intro Cons.IH) linarith
  moreover have "length (partHeader k p) \<le> n" "length (part_Data p) \<le> n" using n length_encodePart[of k p] by linarith+
  ultimately show ?case by simp
qed simp

lemma readParts_encode:
  assumes "\<forall>p \<in> set ps. allowedType (part_Type p)" and "ps \<noteq> []" "length ps \<le> 32"
    and "length (concat (map encodePart (enumerate 0 ps))) \<le> MaxSize"
  shows "readParts (uv (length ps) @ concat (map encodePart (enumerate 0 ps))) = Inr (ps, [])"
proof -
  have "length ps \<le> MaxSize" using assms(3) by (simp add: MaxSize_def)
  then have "uintvar (uv (length ps) @ concat (map encodePart (enumerate 0 ps))) = Inr (length ps, concat (map encodePart (enumerate 0 ps)))"
    by (rule uintvar_uv)
  moreover have "partsLoop (length ps) (concat (map encodePart (enumerate 0 ps)) @ []) = Inr (ps, [])"
    using assms encodePart_bounded by (intro partsLoop_encode) auto
  ultimately show ?thesis using assms(2,3) by (auto simp: readParts_def Suc_le_eq)
qed

definition sentParts :: "byte list \<Rightarrow> part option \<Rightarrow> part list" where
  "sentParts body picture = (if body \<noteq> [] then [\<lparr>part_Type = ascii ''text/plain'', part_Data = body\<rparr>] else [])
     @ (case picture of None \<Rightarrow> [] | Some p \<Rightarrow> [p])"

lemma recipientDigits_bytes: "recipientDigits i s \<Longrightarrow> \<forall>c \<in> set s. c = 0x2b \<or> 0x30 \<le> unat c \<and> unat c \<le> 0x39"
  by (induction i s rule: recipientDigits.induct) (auto split: if_splits)

lemma SendRequest_Inr:
  assumes "SendRequest ident recipient body picture = Inr b"
  defines "ps \<equiv> sentParts body picture"
  defines "content \<equiv> uv (length ps) @ concat (map encodePart (enumerate 0 ps))"
  shows "b = [0x8c, 0x80, 0x98] @ txtBytes ident @ [0x8d, 0x92, 0x89, 1, 0x81, 0x97]
          @ txtBytes (recipient @ ascii ''/TYPE=PLMN'') @ [0x8a, 0x80, 0x86, 0x80, 0x84, 0xa3] @ content"
    and "length b \<le> MaxSize" and "ps \<noteq> []" and "length ps \<le> 2" and "\<forall>p \<in> set ps. allowedType (part_Type p)"
    and "0 \<notin> set ident" and "8 \<le> length ident" "length ident \<le> 80" and "recipientDigits 0 recipient"
    and "3 \<le> length recipient" "length recipient \<le> 16"
proof -
  obtain parts where parts: "(case picture of None \<Rightarrow> Inr (if body \<noteq> [] then [\<lparr>part_Type = ascii ''text/plain'', part_Data = body\<rparr>] else [])
      | Some p \<Rightarrow> if \<not> imageType (part_Type p) \<or> part_Data p = [] then err ErrPDU
                  else Inr ((if body \<noteq> [] then [\<lparr>part_Type = ascii ''text/plain'', part_Data = body\<rparr>] else []) @ [p])) = (Inr parts :: (mms_error, part list) res)"
    and ne: "parts \<noteq> []" and size: "length b \<le> MaxSize"
    and b: "b = [0x8c, 0x80, 0x98] @ txtBytes ident @ [0x8d, 0x92, 0x89, 1, 0x81, 0x97]
          @ txtBytes (recipient @ ascii ''/TYPE=PLMN'') @ [0x8a, 0x80, 0x86, 0x80, 0x84, 0xa3]
          @ uv (length parts) @ concat (map encodePart (enumerate 0 parts))"
    and pre: "0 \<notin> set ident" "8 \<le> length ident" "length ident \<le> 80" "recipientDigits 0 recipient" "3 \<le> length recipient" "length recipient \<le> 16"
    using assms(1) unfolding SendRequest_def
    by (simp only: rbind_Inr_iff Let_def split: if_splits) (auto simp: not_less)
  have "parts = ps" using parts by (auto simp: ps_def sentParts_def split: option.splits if_splits)
  moreover have "\<forall>p \<in> set parts. allowedType (part_Type p)" "length parts \<le> 2"
    using parts by (auto simp: allowedType_def split: option.splits if_splits)
  ultimately show "b = [0x8c, 0x80, 0x98] @ txtBytes ident @ [0x8d, 0x92, 0x89, 1, 0x81, 0x97]
          @ txtBytes (recipient @ ascii ''/TYPE=PLMN'') @ [0x8a, 0x80, 0x86, 0x80, 0x84, 0xa3] @ content"
    and "length b \<le> MaxSize" and "ps \<noteq> []" and "length ps \<le> 2" and "\<forall>p \<in> set ps. allowedType (part_Type p)"
    and "0 \<notin> set ident" and "8 \<le> length ident" "length ident \<le> 80" and "recipientDigits 0 recipient"
    and "3 \<le> length recipient" "length recipient \<le> 16"
    using b ne size pre by (auto simp: content_def)
qed

lemma parseLoop_step:
  assumes "h \<notin> set seen" and "parseHeader h c (0x8d \<in> set (h # seen)) p = t"
  shows "parseLoop seen (h # c) p = (case t of Continue p' c' \<Rightarrow> parseLoop (h # seen) c' p' | Return p' e \<Rightarrow> (p', e))"
  using assms by simp

lemma Parse_SendRequest:
  assumes "SendRequest ident recipient body picture = Inr b" and "utf8Valid ident" and "hd ident \<noteq> 127"
  shows "Parse b = (emptyPDU\<lparr>pdu_Type := 0x80, pdu_Transaction := ident,
    pdu_To := recipient @ ascii ''/TYPE=PLMN'', pdu_Parts := sentParts body picture\<rparr>, None)"
proof -
  let ?ps = "sentParts body picture"
  obtain content where content: "content = uv (length ?ps) @ concat (map encodePart (enumerate 0 ?ps))" by simp
  note S = SendRequest_Inr[OF assms(1), folded content]
  obtain to' where to': "to' = recipient @ ascii ''/TYPE=PLMN''" by simp
  obtain b4 where b4: "b4 = 0x84 # 0xa3 # content" by simp
  obtain b3 where b3: "b3 = 0x97 # txtBytes to' @ 0x8a # 0x80 # 0x86 # 0x80 # b4" by simp
  have b: "b = 0x8c # 0x80 # 0x98 # txtBytes ident @ 0x8d # 0x92 # 0x89 # 1 # 0x81 # b3"
    using S(1) by (simp add: b3 b4 to')
  have "length (concat (map encodePart (enumerate 0 ?ps))) \<le> MaxSize"
    using S(2) unfolding b b3 b4 content by simp
  then have parts: "readParts content = Inr (?ps, [])"
    unfolding content using S(3-5) by (intro readParts_encode) auto
  have digit: "\<forall>c \<in> set to'. c \<noteq> 0 \<and> c \<noteq> 127 \<and> unat c < 0x80"
    using recipientDigits_bytes[OF S(9)] by (auto simp: to' ascii_def)
  have to0: "to' \<noteq> []" "length to' \<le> 4096" "31 < unat (hd to')"
    using S(10,11) recipientDigits_bytes[OF S(9)] by (cases recipient; auto simp: to' ascii_def)+
  have read_to: "encoded (txtBytes to' @ c) = Inr (to', c)" for c
  proof -
    have "readText (txtBytes to' @ c) = Inr (to', c)"
      using digit to0 by (intro readText_txtBytes(1) utf8Valid_ascii) (auto simp: hd_in_set)
    moreover obtain v vs where "txtBytes to' = v # vs" "31 < unat v" using to0 by (cases to') (auto simp: txtBytes_def)
    ultimately show ?thesis by (simp add: encoded_def)
  qed
  have read_id: "readText (txtBytes ident @ c) = Inr (ident, c)" for c
    using S(6-8) assms(2,3) by (intro readText_txtBytes(1)) auto
  have version: "parseHeader 0x8d (0x92 # c) sv p = Continue p c" for c sv p
    by (simp add: parseHeader_def)
  have from_: "parseHeader 0x89 (1 # 0x81 # c) sv p = Continue p c" for c sv p
    by (simp add: parseHeader_def parseFrom_def readLength_def readTake_def)
  have skips: "parseHeader 0x8a (0x80 # c) sv p = Continue p c" "parseHeader 0x86 (0x80 # c) sv p = Continue p c" for c sv p
    by (simp_all add: parseHeader_def skip_short)
  have body: "parseHeader 0x84 (0xa3 # content) True p = Return (p\<lparr>pdu_Parts := ?ps\<rparr>) None" for p
    by (simp add: parseHeader_def parseBody_def contentType_def contentTypeToken_def wellKnownType_def parts)
  have type: "parseHeader 0x8c (0x80 # c) sv p = Continue (p\<lparr>pdu_Type := 0x80\<rparr>) c" for c sv p
    by (simp add: parseHeader_def)
  have transaction: "parseHeader 0x98 (txtBytes ident @ c) sv p = Continue (p\<lparr>pdu_Transaction := ident\<rparr>) c" for c sv p
    by (simp add: parseHeader_def read_id)
  have receiver: "parseHeader 0x97 (txtBytes to' @ c) sv p = Continue (p\<lparr>pdu_To := to'\<rparr>) c" for c sv p
    by (simp add: parseHeader_def read_to)
  have "parseLoop [] b emptyPDU = (emptyPDU\<lparr>pdu_Type := 0x80, pdu_Transaction := ident, pdu_To := to', pdu_Parts := ?ps\<rparr>, None)"
    unfolding b b3 b4
    by (simp add: version from_ skips body type transaction receiver)
  moreover have "Parse b = parseLoop [] b emptyPDU"
    using S(2) unfolding Parse_def b by simp
  ultimately show ?thesis by (simp add: to')
qed

text \<open>C13: A request that \<open>SendRequest\<close> composes parses back: \<open>Parse\<close> returns the transaction, the
  recipient with its address type and the parts, text first, unless the transaction starts with
  the quote octet that the reader strips.\<close>
theorem mms_send_roundtrip:
  assumes "SendRequest ident recipient body picture = Inr b" and "utf8Valid ident" and "hd ident \<noteq> 127"
  shows "Parse b = (emptyPDU\<lparr>pdu_Type := 0x80, pdu_Transaction := ident,
    pdu_To := recipient @ ascii ''/TYPE=PLMN'', pdu_Parts := sentParts body picture\<rparr>, None)"
  by (rule Parse_SendRequest [OF assms])

lemma mms_demo:
  "\<exists>b. SendRequest (ascii ''12345678'') (ascii ''+8610'') (ascii ''hi'') None = Inr b" "utf8Valid (ascii ''12345678'')"
proof -
  have valid: "utf8Valid (ascii ''hi'')" by (rule utf8Valid_ascii) (simp add: ascii_def)
  show "utf8Valid (ascii ''12345678'')" by (rule utf8Valid_ascii) (simp add: ascii_def)
  have "uv n = [word_of_nat n]" if "n < 128" for n
    using that by (simp add: uv_def uvLoop.simps)
  then show "\<exists>b. SendRequest (ascii ''12345678'') (ascii ''+8610'') (ascii ''hi'') None = Inr b"
    using valid by (simp add: SendRequest_def Let_def ascii_def txtBytes_def encodePart_def partHeader_def
        valueLength_def MaxSize_def showNat.simps[of 0] digitChar_def del: utf8Valid.simps)
qed

theorem mms_send_roundtrip_witness:
  "\<exists>b. SendRequest (ascii ''12345678'') (ascii ''+8610'') (ascii ''hi'') None = Inr b \<and>
     Parse b = (emptyPDU\<lparr>pdu_Type := 0x80, pdu_Transaction := ascii ''12345678'',
       pdu_To := ascii ''+8610'' @ ascii ''/TYPE=PLMN'', pdu_Parts := sentParts (ascii ''hi'') None\<rparr>, None)"
proof -
  obtain b where b: "SendRequest (ascii ''12345678'') (ascii ''+8610'') (ascii ''hi'') None = Inr b" using mms_demo(1) ..
  show ?thesis using b mms_send_roundtrip[OF b mms_demo(2)] by (auto simp: ascii_def)
qed

subsection \<open>Accepted PDUs\<close>

definition boundedText :: "byte list \<Rightarrow> bool" where
  "boundedText s \<longleftrightarrow> utf8Valid s \<and> length s \<le> 4096"

definition boundedFields :: "pdu \<Rightarrow> bool" where
  "boundedFields p \<longleftrightarrow> boundedText (pdu_Transaction p) \<and> boundedText (pdu_MessageID p) \<and> boundedText (pdu_From p)
     \<and> boundedText (pdu_To p) \<and> boundedText (pdu_Location p)"

definition dataLength :: "part list \<Rightarrow> nat" where
  "dataLength ps = sum_list (map (\<lambda>p. length (part_Data p)) ps)"

lemma readText_bounded: "readText c = Inr (s, c') \<Longrightarrow> boundedText s"
  using readText_forward[of c s c'] by (simp add: boundedText_def)

lemma encoded_bounded: "encoded c = Inr (s, c') \<Longrightarrow> boundedText s"
  by (auto simp: encoded_def encodedValue_def rbind_Inr_iff split: list.splits if_splits intro: readText_bounded)

lemma partsLoop_bounded:
  "partsLoop n c = Inr (ps, c') \<Longrightarrow> length ps \<le> n \<and> dataLength ps + length c' \<le> length c \<and> (\<forall>p \<in> set ps. allowedType (part_Type p))"
proof (induction n arbitrary: c ps)
  case 0
  then show ?case by (simp add: dataLength_def)
next
  case (Suc n)
  from Suc.prems obtain hl dl h d kind c1 c2 c3 c4 k ps' where
      r: "uintvar c = Inr (hl, c1)" "uintvar c1 = Inr (dl, c2)" "readTake hl c2 = Inr (h, c3)" "readTake dl c3 = Inr (d, c4)"
        "partsLoop n c4 = Inr (ps', c')" "contentType h = Inr (kind, k)"
      and ps: "ps = (if imageType kind \<or> kind = ascii ''text/plain'' then \<lparr>part_Type = kind, part_Data = d\<rparr> # ps' else ps')"
    by (simp only: partsLoop.simps rbind_Inr_iff split_paired_Ex case_prod_conv) blast
  have "length c1 \<le> length c" "length c2 \<le> length c1" "length c3 \<le> length c2" "length d + length c4 = length c3"
    using uintvar_forward[OF r(1)] uintvar_forward[OF r(2)] readTake_forward[OF r(3)] r(4)
    by (auto simp: readTake_def split: if_splits)
  moreover note Suc.IH[OF r(5)]
  ultimately show ?case unfolding ps by (auto simp: dataLength_def allowedType_def)
qed

definition boundedParts :: "nat \<Rightarrow> pdu \<Rightarrow> bool" where
  "boundedParts n p \<longleftrightarrow> length (pdu_Parts p) \<le> 32 \<and> dataLength (pdu_Parts p) \<le> n
     \<and> (\<forall>q \<in> set (pdu_Parts p). allowedType (part_Type q))"

lemma parseBody_bounded:
  assumes "parseBody c sv p = Return p' None" and "boundedFields p"
  shows "boundedFields p' \<and> boundedParts (length c) p' \<and> sv"
proof -
  obtain ct c1 ps where ct: "contentType c = Inr (ct, c1)" and ps: "readParts c1 = Inr (ps, [])" "p' = p\<lparr>pdu_Parts := ps\<rparr>" and sv
    using assms(1) by (auto simp: parseBody_def Let_def split: sum.splits if_splits)
  have "length c1 \<le> length c" using ct
    by (auto simp: contentType_def contentTypeToken_def rbind_Inr_iff split: list.splits if_splits
        dest!: readText_forward oct_forward readLength_forward readTake_forward)
  moreover obtain n c2 where "uintvar c1 = Inr (n, c2)" "n \<le> 32" "partsLoop n c2 = Inr (ps, [])"
    using ps(1) by (auto simp: readParts_def split: sum.splits if_splits)
  ultimately show ?thesis
    using partsLoop_bounded[of n c2 ps "[]"] uintvar_forward[of c1 n c2] assms(2) ps(2) \<open>sv\<close>
    by (auto simp: boundedParts_def boundedFields_def)
qed

lemma assign_Return: "assign r z f = Return p None \<longleftrightarrow> False"
  by (cases "(r, z, f)" rule: assign.cases) auto

lemma parseFrom_bounded:
  "parseFrom c p = Continue p' c' \<Longrightarrow> boundedFields p \<Longrightarrow> boundedFields p' \<and> pdu_Parts p' = pdu_Parts p"
  by (auto simp: parseFrom_def assign_Continue rbind_Inr_iff boundedFields_def split: sum.splits if_splits)
    (metis encoded_bounded)

lemma parseFrom_no_return: "parseFrom c p \<noteq> Return p' None"
  by (auto simp: parseFrom_def assign_Return split: sum.splits)

lemma parseHeader_bounded:
  "parseHeader h c sv p = Continue p' c' \<Longrightarrow> boundedFields p \<Longrightarrow> boundedFields p' \<and> pdu_Parts p' = pdu_Parts p"
  by (auto simp: parseHeader_def assign_Continue parseBody_returns boundedFields_def[of "_\<lparr>pdu_Type := _\<rparr>"]
      dest: parseFrom_bounded split: if_splits sum.splits)
    (auto simp: boundedFields_def dest: readText_bounded encoded_bounded)

lemma parseHeader_return:
  "parseHeader h c sv p = Return p' None \<Longrightarrow> parseBody c sv p = Return p' None"
  by (auto simp: parseHeader_def assign_Return parseFrom_no_return split: if_splits sum.splits)

lemma parseLoop_bounded:
  "parseLoop seen c p = (p', None) \<Longrightarrow> boundedFields p \<Longrightarrow> pdu_Parts p = [] \<Longrightarrow> boundedFields p' \<and> boundedParts (length c) p'"
proof (induction seen c p rule: parseLoop.induct)
  case (1 seen p)
  then show ?case by (auto simp: boundedParts_def dataLength_def split: if_splits)
next
  case (2 seen h c p)
  show ?case
  proof (cases "parseHeader h c (0x8d \<in> set (h # seen)) p")
    case (Continue q c')
    then have "boundedFields p' \<and> boundedParts (length c') p'"
      using 2 parseHeader_bounded[OF Continue] by (auto split: if_splits)
    then show ?thesis using parseHeader_forward[OF Continue] by (auto simp: boundedParts_def)
  next
    case (Return q e)
    then have "parseBody c (0x8d \<in> set (h # seen)) p = Return p' None"
      using 2 by (auto split: if_splits intro: parseHeader_return)
    then show ?thesis using parseBody_bounded 2 by (fastforce simp: boundedParts_def)
  qed
qed

text \<open>What \<open>Parse\<close> and \<open>Push\<close> accept is bounded: at most 32 parts, each an image or plain text,
  whose data together is no longer than the input, and header texts of at most 4096 octets of
  valid UTF-8.\<close>
theorem mms_accepted_bounds:
  assumes "Parse b = (p, None) \<or> Push b = (p, None)"
  shows "boundedFields p \<and> boundedParts (length b) p"
proof -
  have blank: "boundedFields emptyPDU" "pdu_Parts emptyPDU = []"
    by (simp_all add: boundedFields_def boundedText_def emptyPDU_def)
  have parse: "boundedFields p \<and> boundedParts (length c) p" if "Parse c = (p, None)" for c
    using that parseLoop_bounded[of "[]" c emptyPDU p] blank by (simp add: Parse_def split: if_splits)
  from assms show ?thesis
  proof
    assume "Push b = (p, None)"
    then obtain n c1 h c2 where "uintvar (drop 2 b) = Inr (n, c1)" "readTake n c1 = Inr (h, c2)" "Parse c2 = (p, None)"
      by (auto simp: Push_def rbind_Inr_iff split: sum.splits if_splits)
    then show ?thesis using parse[of c2] uintvar_forward[of "drop 2 b" n c1] readTake_forward[of n c1 h c2]
      by (auto simp: boundedParts_def)
  qed (rule parse)
qed

theorem mms_accepted_bounds_witness:
  "\<exists>b p. Parse b = (p, None) \<and> boundedParts (length b) p \<and> length (pdu_Parts p) = 1"
proof -
  obtain b where b: "SendRequest (ascii ''12345678'') (ascii ''+8610'') (ascii ''hi'') None = Inr b" using mms_demo(1) ..
  have "hd (ascii ''12345678'') \<noteq> 127" by (simp add: ascii_def)
  from mms_accepted_bounds[OF disjI1[OF Parse_SendRequest[OF b mms_demo(2) this]]]
    Parse_SendRequest[OF b mms_demo(2) this]
  show ?thesis by (intro exI conjI) (assumption | simp add: sentParts_def ascii_def)+
qed

end
