(* ===== verification/Amr.thy ===== *)
theory Amr
  imports Prelude
begin

text \<open>
  The RFC 4867 payload of \<open>backend/internal/vocat/vowifi/ims/amr_packet.go\<close>: packing speech frames
  into bits and parsing them back, in the bandwidth-efficient and the octet-aligned form. Bit
  positions are natural numbers, an out-of-range index is a panic, the array \<open>[61]byte\<close> is a list of
  that length.
\<close>

datatype amr_error = AMRPacketInvalid

text \<open>Speech bits of a frame type; negative types are reserved.\<close>

definition amrFrameBits :: "bool \<Rightarrow> nat \<Rightarrow> int" where
  "amrFrameBits wide kind =
    (if wide then [132, 177, 253, 285, 317, 365, 397, 461, 477, 40, -1, -1, -1, -1, 0, 0]
     else [95, 103, 118, 134, 148, 159, 204, 244, 39, -1, -1, -1, -1, -1, -1, 0]) ! kind"

abbreviation amrMaxFrames :: nat where "amrMaxFrames \<equiv> 10"

record amr_frame =
  af_data :: "byte list"
  af_size :: int

record amr_packet =
  ap_cmr :: int
  ap_frames :: "amr_frame list"

definition frameKind :: "amr_frame \<Rightarrow> nat" where
  "frameKind f = unat ((drop_bit 3 (af_data f ! 0)) AND 15)"

definition setIdx :: "'a list \<Rightarrow> nat \<Rightarrow> 'a \<Rightarrow> ('e, 'a list) res" where
  "setIdx xs i x = (if i < length xs then Inr (xs[i := x]) else Inl Panic)"

subsection \<open>Reading\<close>

fun readLoop :: "byte list \<Rightarrow> nat \<Rightarrow> nat \<Rightarrow> byte \<Rightarrow> (amr_error, byte \<times> nat) res" where
  "readLoop data pos 0 v = Inr (v, pos)"
| "readLoop data pos (Suc n) v =
    rbind (idx data (pos div 8)) (\<lambda>d.
      readLoop data (pos + 1) n (push_bit 1 v OR (drop_bit (7 - pos mod 8) d AND 1)))"

text \<open>A read that is refused (\<open>0, false\<close>) is the packet error, which every caller but the first two returns.\<close>

definition bitRead :: "byte list \<Rightarrow> nat \<Rightarrow> nat \<Rightarrow> (amr_error, byte \<times> nat) res" where
  "bitRead data n pos = (if n > 8 \<or> pos + n > length data * 8 then err AMRPacketInvalid else readLoop data pos n 0)"

definition bitReadAnyway :: "byte list \<Rightarrow> nat \<Rightarrow> nat \<Rightarrow> (amr_error, byte \<times> nat) res" where
  "bitReadAnyway data n pos = (case bitRead data n pos of Inl (Fail _) \<Rightarrow> Inr (0, pos) | r \<Rightarrow> r)"

function readTocs :: "bool \<Rightarrow> bool \<Rightarrow> byte list \<Rightarrow> nat \<Rightarrow> amr_frame list \<Rightarrow> (amr_error, amr_frame list \<times> nat) res" where
  "readTocs wide octet data pos frames =
    (if amrMaxFrames \<le> length frames then err AMRPacketInvalid
     else
       rbind (bitRead data 6 pos) (\<lambda>(toc, pos).
       rbind (if octet then rbind (bitRead data 2 pos) (\<lambda>(_, pos). Inr pos) else Inr pos) (\<lambda>pos.
       let bits = amrFrameBits wide (unat (drop_bit 1 toc AND 15)) in
       if bits < 0 then err AMRPacketInvalid
       else
         let f = \<lparr>af_data = push_bit 2 (toc AND 31) # replicate 60 0, af_size = 1 + (bits + 7) div 8\<rparr>;
             frames' = frames @ [f]
         in if toc AND 32 = 0 then Inr (frames', pos) else readTocs wide octet data pos frames')))"
  by auto
termination by (relation "measure (\<lambda>(wide, octet, data, pos, frames). 10 - length frames)") auto

declare readTocs.simps [simp del]

text \<open>The loop \<open>for pos := 0; pos < bits; pos += 8\<close> runs over the numbers \<open>k\<close> of its chunks.\<close>

fun readChunks :: "nat \<Rightarrow> byte list \<Rightarrow> nat list \<Rightarrow> nat \<Rightarrow> byte list \<Rightarrow> (amr_error, byte list \<times> nat) res" where
  "readChunks bits data [] pos out = Inr (out, pos)"
| "readChunks bits data (k # ks) pos out =
    (let n = min 8 (bits - 8 * k) in
     rbind (bitRead data n pos) (\<lambda>(v, pos).
     rbind (setIdx out (1 + k) (push_bit (8 - n) v)) (\<lambda>out.
       readChunks bits data ks pos out)))"

definition chunkNumbers :: "nat \<Rightarrow> nat list" where
  "chunkNumbers bits = [0..<(bits + 7) div 8]"

fun readSpeech :: "bool \<Rightarrow> bool \<Rightarrow> byte list \<Rightarrow> nat \<Rightarrow> amr_frame list \<Rightarrow> (amr_error, amr_frame list \<times> nat) res" where
  "readSpeech wide octet data pos [] = Inr ([], pos)"
| "readSpeech wide octet data pos (f # fs) =
    (let bits = nat (amrFrameBits wide (frameKind f)) in
     rbind (readChunks bits data (chunkNumbers bits) pos (af_data f)) (\<lambda>(out, pos).
     rbind (if octet \<and> bits mod 8 \<noteq> 0 then rbind (bitRead data (8 - bits mod 8) pos) (\<lambda>(_, pos). Inr pos) else Inr pos) (\<lambda>pos.
     rbind (readSpeech wide octet data pos fs) (\<lambda>(fs, pos).
       Inr (f\<lparr>af_data := out\<rparr> # fs, pos)))))"

definition amrParse :: "byte list \<Rightarrow> bool \<Rightarrow> bool \<Rightarrow> (amr_error, amr_packet) res" where
  "amrParse data wide octet =
    (if length data < 2 \<or> length data > 1 + amrMaxFrames * 61 then err AMRPacketInvalid
     else
       rbind (bitReadAnyway data 4 0) (\<lambda>(cmr, pos).
       rbind (if octet then rbind (bitReadAnyway data 4 pos) (\<lambda>(_, pos). Inr pos) else Inr pos) (\<lambda>pos.
       rbind (readTocs wide octet data pos []) (\<lambda>(frames, pos).
       rbind (readSpeech wide octet data pos frames) (\<lambda>(frames, pos).
         if int (length data * 8) - int pos \<ge> 8 then err AMRPacketInvalid
         else Inr \<lparr>ap_cmr = int (unat cmr), ap_frames = frames\<rparr>)))))"

subsection \<open>Packing\<close>

text \<open>The closure \<open>put\<close> on its variables \<open>out\<close> and \<open>pos\<close>.\<close>

fun putBits :: "byte \<Rightarrow> nat \<Rightarrow> byte list \<times> nat \<Rightarrow> (amr_error, byte list \<times> nat) res" where
  "putBits v 0 st = Inr st"
| "putBits v (Suc i) (out, pos) =
    rbind (idx out (pos div 8)) (\<lambda>b.
      putBits v i (out[pos div 8 := b OR push_bit (7 - pos mod 8) (drop_bit i v AND 1)], pos + 1))"

fun packBits :: "bool \<Rightarrow> bool \<Rightarrow> amr_frame list \<Rightarrow> (amr_error, nat) res" where
  "packBits wide octet [] = Inr 0"
| "packBits wide octet (f # fs) =
    (let n = amrFrameBits wide (frameKind f) in
     if n < 0 \<or> af_size f \<noteq> 1 + (n + 7) div 8 then err AMRPacketInvalid
     else rbind (packBits wide octet fs) (\<lambda>bits.
       Inr ((if octet then (nat n + 7) div 8 * 8 else nat n) + bits)))"

fun putTocs :: "bool \<Rightarrow> amr_frame list \<Rightarrow> byte list \<times> nat \<Rightarrow> (amr_error, byte list \<times> nat) res" where
  "putTocs octet [] st = Inr st"
| "putTocs octet (f # fs) st =
    (let toc = (drop_bit 2 (af_data f ! 0) AND 31) OR (if fs \<noteq> [] then 32 else 0) in
     rbind (putBits toc 6 st) (\<lambda>st.
     rbind (if octet then putBits 0 2 st else Inr st) (\<lambda>st.
       putTocs octet fs st)))"

fun putChunks :: "nat \<Rightarrow> byte list \<Rightarrow> nat list \<Rightarrow> byte list \<times> nat \<Rightarrow> (amr_error, byte list \<times> nat) res" where
  "putChunks n data [] st = Inr st"
| "putChunks n data (k # ks) st =
    (let count = min 8 (n - 8 * k) in
     rbind (idx data (1 + k)) (\<lambda>b.
     rbind (putBits (drop_bit (8 - count) b) count st) (\<lambda>st.
       putChunks n data ks st)))"

fun putSpeech :: "bool \<Rightarrow> bool \<Rightarrow> amr_frame list \<Rightarrow> byte list \<times> nat \<Rightarrow> (amr_error, byte list \<times> nat) res" where
  "putSpeech wide octet [] st = Inr st"
| "putSpeech wide octet (f # fs) st =
    (let n = nat (amrFrameBits wide (frameKind f)) in
     rbind (putChunks n (af_data f) (chunkNumbers n) st) (\<lambda>st.
     rbind (if octet \<and> n mod 8 \<noteq> 0 then putBits 0 (8 - n mod 8) st else Inr st) (\<lambda>st.
       putSpeech wide octet fs st)))"

definition amrPack :: "amr_frame list \<Rightarrow> int \<Rightarrow> bool \<Rightarrow> bool \<Rightarrow> (amr_error, byte list) res" where
  "amrPack frames cmr wide octet =
    (if frames = [] \<or> length frames > amrMaxFrames \<or> cmr < 0 \<or> cmr > 15 then err AMRPacketInvalid
     else
       rbind (packBits wide octet frames) (\<lambda>speech.
       let bits = (if octet then 8 + length frames * 8 else 4 + length frames * 6) + speech in
       rbind (putBits (word_of_int cmr) 4 (replicate ((bits + 7) div 8) 0, 0)) (\<lambda>st.
       rbind (if octet then putBits 0 4 st else Inr st) (\<lambda>st.
       rbind (putTocs octet frames st) (\<lambda>st.
       rbind (putSpeech wide octet frames st) (\<lambda>(out, _).
         Inr out))))))"

end
