(* ===== verification/Amr_Props.thy ===== *)
theory Amr_Props
  imports Amr
begin

text \<open>
  Packed speech frames parse back to the same frames and mode request. The bytes are seen as the
  sequence of bits written so far: \<open>put\<close> appends to it, \<open>read\<close> consumes it from the front.
\<close>

subsection \<open>Bits written and bits read\<close>

definition bitAt :: "byte list \<Rightarrow> nat \<Rightarrow> bool" where
  "bitAt data p = bit (data ! (p div 8)) (7 - p mod 8)"

text \<open>The low \<open>n\<close> bits of \<open>v\<close>, most significant first.\<close>

definition msb :: "nat \<Rightarrow> byte \<Rightarrow> bool list" where
  "msb n v = map (bit v) (rev [0..<n])"

definition holds :: "byte list \<Rightarrow> bool list \<Rightarrow> bool" where
  "holds out ws \<longleftrightarrow> length ws \<le> 8 * length out \<and> (\<forall>q < 8 * length out. bitAt out q = (q < length ws \<and> ws ! q))"

lemma length_msb [simp]: "length (msb n v) = n"
  by (simp add: msb_def)

lemma msb_Suc: "msb (Suc i) v = bit v i # msb i v"
  by (simp add: msb_def)

lemma holds_zeros: "holds (replicate n 0) []"
  by (simp add: holds_def bitAt_def)

lemma bit_one_shift: "bit (push_bit s (drop_bit i v AND 1) :: byte) j \<longleftrightarrow> j = s \<and> s < 8 \<and> bit v i"
  by (auto simp: bit_simps dest: bit_imp_le_length)

lemma same_octet:
  assumes "(q :: nat) div 8 = pos div 8"
  shows "7 - q mod 8 = 7 - pos mod 8 \<longleftrightarrow> q = pos"
proof -
  have "q = 8 * (q div 8) + q mod 8" "pos = 8 * (pos div 8) + pos mod 8" "q mod 8 < 8" "pos mod 8 < 8" by simp_all
  then show ?thesis using assms by linarith
qed

lemma putBits_holds:
  assumes "holds out ws" and "pos = length ws" and "length ws + n \<le> 8 * length out"
  shows "\<exists>out'. putBits v n (out, pos) = Inr (out', pos + n) \<and> holds out' (ws @ msb n v) \<and> length out' = length out"
  using assms
proof (induction n arbitrary: out pos ws)
  case 0
  then show ?case by (simp add: msb_def)
next
  case (Suc i)
  define b where "b = out ! (pos div 8)"
  define c where "c = b OR push_bit (7 - pos mod 8) (drop_bit i v AND 1)"
  have c: "bit c j \<longleftrightarrow> bit b j \<or> j = 7 - pos mod 8 \<and> bit v i" for j
    unfolding c_def bit_or_iff bit_one_shift by auto
  have inside: "pos div 8 < length out" using Suc.prems by linarith
  let ?out = "out[pos div 8 := c]"
  have bits: "bitAt ?out q = (if q = pos then bit v i else bitAt out q)" if "q < 8 * length out" for q
  proof (cases "q div 8 = pos div 8")
    case False
    then show ?thesis by (auto simp: bitAt_def)
  next
    case True
    then have "7 - q mod 8 = 7 - pos mod 8 \<longleftrightarrow> q = pos" by (rule same_octet)
    moreover have "\<not> bitAt out pos" using Suc.prems by (auto simp: holds_def)
    ultimately show ?thesis
      using inside True by (auto simp: bitAt_def c b_def)
  qed
  have "holds ?out (ws @ [bit v i])"
    using Suc.prems bits unfolding holds_def by (auto simp: nth_append less_Suc_eq)
  from Suc.IH[OF this, of "pos + 1"] Suc.prems obtain out' where
    "putBits v i (?out, pos + 1) = Inr (out', pos + Suc i)" "holds out' ((ws @ [bit v i]) @ msb i v)" "length out' = length out"
    by auto
  moreover have "idx out (pos div 8) = (Inr b :: (amr_error, byte) res)" using inside by (simp add: b_def idx_def)
  ultimately show ?case by (auto simp: msb_Suc c_def)
qed

lemma readLoop_bits:
  assumes "pos + n \<le> 8 * length data"
  shows "\<exists>w. readLoop data pos n v = Inr (w, pos + n) \<and>
    (\<forall>j < 8. bit w j = (if j < n then bitAt data (pos + n - 1 - j) else bit v (j - n)))"
  using assms
proof (induction n arbitrary: pos v)
  case 0
  then show ?case by simp
next
  case (Suc n)
  let ?v = "push_bit 1 v OR (drop_bit (7 - pos mod 8) (data ! (pos div 8)) AND 1)"
  have inside: "pos div 8 < length data" using Suc.prems by linarith
  have v: "bit ?v j = (if j = 0 then bitAt data pos else bit v (j - 1))" if "j < 8" for j
    using that by (auto simp: bit_or_iff bit_push_bit_iff bit_and_iff bit_1_iff bit_drop_bit_eq bitAt_def simp del: push_bit_of_Suc_0 push_bit_Suc)
  obtain w where w: "readLoop data (pos + 1) n ?v = Inr (w, pos + Suc n)"
      "\<forall>j < 8. bit w j = (if j < n then bitAt data (pos + Suc n - 1 - j) else bit ?v (j - n))"
    using Suc.IH[of "pos + 1" ?v] Suc.prems by auto
  have "bit w j = (if j < Suc n then bitAt data (pos + Suc n - 1 - j) else bit v (j - Suc n))" if j: "j < 8" for j
    using w(2) v[of "j - n"] j by (auto simp: less_Suc_eq)
  then show ?case using w(1) inside by (auto simp: idx_def)
qed

lemma bitRead_holds:
  assumes h: "holds data (ws @ msb n v @ rest)" and n: "n \<le> 8"
  shows "bitRead data n (length ws) = Inr (take_bit n v, length ws + n)"
proof -
  have le: "length ws + n \<le> 8 * length data" using h by (simp add: holds_def)
  then obtain w where w: "readLoop data (length ws) n 0 = Inr (w, length ws + n)"
      "\<forall>j < 8. bit w j = (if j < n then bitAt data (length ws + n - 1 - j) else bit (0 :: byte) (j - n))"
    using readLoop_bits by blast
  have "w = take_bit n v"
  proof (rule bit_word_eqI)
    fix j assume j: "j < LENGTH(8)"
    show "bit w j = bit (take_bit n v) j"
    proof (cases "j < n")
      case False
      then show ?thesis using w(2) j by (simp add: bit_take_bit_iff)
    next
      case True
      then have "bitAt data (length ws + n - 1 - j) = (ws @ msb n v @ rest) ! (length ws + n - 1 - j)"
        using h le True unfolding holds_def by auto
      also have "length ws + n - 1 - j = length ws + (n - 1 - j)" using True by linarith
      also have "(ws @ msb n v @ rest) ! (length ws + (n - 1 - j)) = msb n v ! (n - 1 - j)"
        unfolding nth_append_length_plus using True by (simp add: nth_append)
      also have "\<dots> = bit v j" using True by (simp add: msb_def rev_nth)
      finally show ?thesis using w(2) j True by (simp add: bit_take_bit_iff)
    qed
  qed
  then show ?thesis using w(1) le n by (simp add: bitRead_def)
qed

subsection \<open>The bits of a packet\<close>

definition tocBits :: "bool \<Rightarrow> bool \<Rightarrow> amr_frame \<Rightarrow> bool list" where
  "tocBits octet follows f = msb 6 ((drop_bit 2 (af_data f ! 0) AND 31) OR (if follows then 32 else 0)) @ (if octet then msb 2 0 else [])"

fun tocsBits :: "bool \<Rightarrow> amr_frame list \<Rightarrow> bool list" where
  "tocsBits octet [] = []"
| "tocsBits octet (f # fs) = tocBits octet (fs \<noteq> []) f @ tocsBits octet fs"

definition chunkBits :: "nat \<Rightarrow> byte list \<Rightarrow> nat \<Rightarrow> bool list" where
  "chunkBits n data k = (let count = min 8 (n - 8 * k) in msb count (drop_bit (8 - count) (data ! (1 + k))))"

definition frameBits :: "bool \<Rightarrow> bool \<Rightarrow> amr_frame \<Rightarrow> bool list" where
  "frameBits wide octet f = (let n = nat (amrFrameBits wide (frameKind f)) in
     concat (map (chunkBits n (af_data f)) (chunkNumbers n)) @ (if octet \<and> n mod 8 \<noteq> 0 then msb (8 - n mod 8) 0 else []))"

lemma length_chunks:
  "m \<le> (n + 7) div 8 \<Longrightarrow> length (concat (map (chunkBits n data) [0..<m])) = min n (8 * m)"
proof (induction m)
  case (Suc m)
  then show ?case by (auto simp: chunkBits_def Let_def)
qed simp

lemma length_frameBits:
  "length (frameBits wide octet f) =
    (let n = nat (amrFrameBits wide (frameKind f)) in if octet then (n + 7) div 8 * 8 else n)"
proof -
  define n where "n = nat (amrFrameBits wide (frameKind f))"
  have "length (concat (map (chunkBits n (af_data f)) (chunkNumbers n))) = n"
    using length_chunks[of "(n + 7) div 8" n "af_data f"] by (simp add: chunkNumbers_def min_def)
  moreover have "n + (if n mod 8 \<noteq> 0 then 8 - n mod 8 else 0) = (n + 7) div 8 * 8"
  proof -
    define q r where "q = n div 8" and "r = n mod 8"
    have "n = 8 * q + r" "r < 8" by (simp_all add: q_def r_def)
    then have "(n + 7) div 8 = (if r = 0 then q else q + 1)" by auto
    then show ?thesis using \<open>n = 8 * q + r\<close> \<open>r < 8\<close> by auto
  qed
  moreover have "n mod 8 < 8" by simp
  ultimately show ?thesis by (auto simp add: frameBits_def Let_def n_def[symmetric] split: if_splits)
qed

lemma length_tocBits [simp]: "length (tocBits octet follows f) = (if octet then 8 else 6)"
  by (simp add: tocBits_def)

lemma amrFrameBits_bound: "k < 16 \<Longrightarrow> amrFrameBits wide k \<le> 477"
  by (auto simp: amrFrameBits_def nth_Cons' less_Suc_eq numeral_eq_Suc)

lemma frameKind_less: "frameKind f < 16"
proof -
  have "drop_bit 3 (af_data f ! 0) AND 15 = take_bit 4 (drop_bit 3 (af_data f ! 0))" by (simp add: take_bit_eq_mask mask_numeral)
  moreover have "take_bit 4 x < 16" for x :: nat by (simp add: take_bit_eq_mod)
  ultimately show ?thesis by (simp add: frameKind_def unsigned_take_bit_eq)
qed

subsection \<open>Writers and readers\<close>

text \<open>A writer appends the bits \<open>bs\<close>; a reader of the bits \<open>bs\<close> returns \<open>x\<close> and moves behind them.\<close>

definition writes :: "(byte list \<times> nat \<Rightarrow> (amr_error, byte list \<times> nat) res) \<Rightarrow> bool list \<Rightarrow> bool" where
  "writes f bs \<longleftrightarrow> (\<forall>out ws. holds out ws \<and> length ws + length bs \<le> 8 * length out \<longrightarrow>
     (\<exists>out'. f (out, length ws) = Inr (out', length ws + length bs) \<and> holds out' (ws @ bs) \<and> length out' = length out))"

definition reads :: "(byte list \<Rightarrow> nat \<Rightarrow> (amr_error, 'a \<times> nat) res) \<Rightarrow> bool list \<Rightarrow> 'a \<Rightarrow> bool" where
  "reads f bs x \<longleftrightarrow> (\<forall>data ws rest. holds data (ws @ bs @ rest) \<longrightarrow> f data (length ws) = Inr (x, length ws + length bs))"

lemma readsD: "reads f bs x \<Longrightarrow> holds data (ws @ bs @ rest) \<Longrightarrow> f data (length ws) = Inr (x, length (ws @ bs))"
  unfolding reads_def length_append by blast

lemma writes_skip: "writes Inr []"
  by (simp add: writes_def)

lemma writes_put: "writes (putBits v n) (msb n v)"
  using putBits_holds by (simp add: writes_def)

lemma writes_seq:
  assumes "writes f as" and "writes g bs"
  shows "writes (\<lambda>st. rbind (f st) g) (as @ bs)"
  unfolding writes_def
proof (intro allI impI, elim conjE)
  fix out ws assume h: "holds out ws" and l: "length ws + length (as @ bs) \<le> 8 * length out"
  obtain out1 where o1: "f (out, length ws) = Inr (out1, length ws + length as)" "holds out1 (ws @ as)" "length out1 = length out"
    using assms(1) h l unfolding writes_def by fastforce
  then obtain out2 where "g (out1, length (ws @ as)) = Inr (out2, length (ws @ as) + length bs)" "holds out2 ((ws @ as) @ bs)" "length out2 = length out1"
    using assms(2) l unfolding writes_def by fastforce
  then show "\<exists>out'. rbind (f (out, length ws)) g = Inr (out', length ws + length (as @ bs)) \<and> holds out' (ws @ as @ bs) \<and> length out' = length out"
    using o1 by (simp add: add.assoc)
qed

lemma writes_cond: "(c \<Longrightarrow> writes f bs) \<Longrightarrow> writes (\<lambda>st. if c then f st else Inr st) (if c then bs else [])"
  by (simp add: writes_def)

lemma reads_bits: "n \<le> 8 \<Longrightarrow> reads (\<lambda>data. bitRead data n) (msb n v) (take_bit n v)"
  using bitRead_holds by (simp add: reads_def)

lemma reads_seq:
  assumes "reads f as x" and "reads (g x) bs y"
  shows "reads (\<lambda>data pos. rbind (f data pos) (\<lambda>(x, pos). g x data pos)) (as @ bs) y"
  unfolding reads_def
proof (intro allI impI)
  fix data ws rest assume h: "holds data (ws @ (as @ bs) @ rest)"
  have "f data (length ws) = Inr (x, length ws + length as)" using assms(1) h unfolding reads_def append.assoc by blast
  moreover have "g x data (length (ws @ as)) = Inr (y, length (ws @ as) + length bs)"
    using assms(2) h unfolding reads_def by (metis append.assoc)
  ultimately show "rbind (f data (length ws)) (\<lambda>(x, pos). g x data pos) = Inr (y, length ws + length (as @ bs))"
    by (simp add: add.assoc)
qed

lemma reads_pure: "reads (\<lambda>data pos. Inr (x, pos)) [] x"
  by (simp add: reads_def)

lemma reads_map:
  assumes "reads f bs x"
  shows "reads (\<lambda>data pos. rbind (f data pos) (\<lambda>(x, pos). Inr (h x, pos))) bs (h x)"
  using assms by (auto simp: reads_def)

text \<open>A skipped field, present only under \<open>c\<close>, as the code skips it.\<close>

lemma reads_skip:
  assumes "c \<Longrightarrow> n \<le> 8"
  shows "reads (\<lambda>data pos. rbind (if c then rbind (bitRead data n pos) (\<lambda>(_, pos). Inr pos) else Inr pos) (\<lambda>pos. Inr ((), pos)))
    (if c then msb n 0 else []) ()"
  using assms bitRead_holds[of _ _ n 0] by (auto simp: reads_def)

subsection \<open>Frames the format can carry\<close>

text \<open>
  The array has 61 bytes, its first byte only a type and a quality bit, and everything behind the
  speech bits of its type is zero.
\<close>

definition frame_ok :: "bool \<Rightarrow> amr_frame \<Rightarrow> bool" where
  "frame_ok wide f \<longleftrightarrow> length (af_data f) = 61 \<and> af_data f ! 0 AND 0x7C = af_data f ! 0 \<and>
     (let n = nat (amrFrameBits wide (frameKind f)) in
      \<forall>k \<in> set [0..<60]. take_bit (8 - min 8 (n - 8 * k)) (af_data f ! (1 + k)) = 0)"

lemma toc_kept: "push_bit 2 (drop_bit 2 b AND 31) = b AND (0x7C :: byte)"
proof (rule bit_word_eqI)
  fix j assume "j < LENGTH(8)"
  then have j: "j \<in> {0, 1, 2, 3, 4, 5, 6, 7}" by auto
  show "bit (push_bit 2 (drop_bit 2 b AND 31)) j = bit (b AND (0x7C :: byte)) j"
    using j unfolding bit_push_bit_iff bit_and_iff bit_drop_bit_eq by (auto simp: eval_nat_numeral)
qed

lemma high_bits_kept:
  assumes "c \<le> 8" and "take_bit (8 - c) (b :: byte) = 0"
  shows "push_bit (8 - c) (take_bit c (drop_bit (8 - c) b)) = b"
proof (rule bit_word_eqI)
  fix j assume j: "j < LENGTH(8)"
  show "bit (push_bit (8 - c) (take_bit c (drop_bit (8 - c) b))) j = bit b j"
  proof (cases "j < 8 - c")
    case True
    then have "\<not> bit b j" using arg_cong[OF assms(2), of "\<lambda>w. bit w j"] by (simp add: bit_take_bit_iff)
    then show ?thesis using True by (simp add: bit_push_bit_iff)
  next
    case False
    then have "8 - c + (j - (8 - c)) = j" "j - (8 - c) < c" using assms(1) j by auto
    then show ?thesis using False j by (simp add: bit_push_bit_iff bit_take_bit_iff bit_drop_bit_eq not_less)
  qed
qed

lemma readChunks_reads:
  assumes D: "length D = 61" and z: "\<forall>k \<in> set [0..<60]. take_bit (8 - min 8 (n - 8 * k)) (D ! (1 + k)) = 0" and N: "N \<le> 60"
  shows "m \<le> N \<Longrightarrow> reads (\<lambda>data pos. readChunks n data [m..<N] pos (take (1 + m) D @ replicate (60 - m) 0))
    (concat (map (chunkBits n D) [m..<N])) (take (1 + N) D @ replicate (60 - N) 0)"
proof (induction "N - m" arbitrary: m)
  case 0
  then show ?case by (simp add: reads_pure)
next
  case (Suc d)
  then have m: "m < N" "m < 60" using N by auto
  then have "60 - m = Suc (59 - m)" by simp
  let ?c = "min 8 (n - 8 * m)"
  let ?out = "take (1 + m) D @ replicate (60 - m) 0"
  let ?b = "D ! (1 + m)"
  have "push_bit (8 - ?c) (take_bit ?c (drop_bit (8 - ?c) ?b)) = ?b"
    using z m by (intro high_bits_kept) auto
  moreover have "?out[1 + m := ?b] = take (1 + Suc m) D @ replicate (60 - Suc m) 0"
    using D m by (simp add: list_update_append take_Suc_conv_app_nth \<open>60 - m = Suc (59 - m)\<close>)
  ultimately have upd: "(setIdx ?out (1 + m) (push_bit (8 - ?c) (take_bit ?c (drop_bit (8 - ?c) ?b))) :: (amr_error, byte list) res)
      = Inr (take (1 + Suc m) D @ replicate (60 - Suc m) 0)"
    using D m by (simp add: setIdx_def)
  have "reads (\<lambda>data pos. rbind (bitRead data ?c pos) (\<lambda>(v, pos).
      rbind (setIdx ?out (1 + m) (push_bit (8 - ?c) v)) (\<lambda>out. readChunks n data [Suc m..<N] pos out)))
     (msb ?c (drop_bit (8 - ?c) ?b) @ concat (map (chunkBits n D) [Suc m..<N])) (take (1 + N) D @ replicate (60 - N) 0)"
  proof (rule reads_seq[OF reads_bits])
    show "reads (\<lambda>data pos. rbind (setIdx ?out (1 + m) (push_bit (8 - ?c) (take_bit ?c (drop_bit (8 - ?c) ?b))))
        (\<lambda>out. readChunks n data [Suc m..<N] pos out)) (concat (map (chunkBits n D) [Suc m..<N])) (take (1 + N) D @ replicate (60 - N) 0)"
      unfolding upd rbind.simps using Suc.hyps(2) m(1) by (intro Suc.hyps(1)) auto
  qed simp
  then show ?case using m(1) by (simp add: upt_rec[of m N] Let_def chunkBits_def)
qed

subsection \<open>The table of contents\<close>

definition tocOf :: "bool \<Rightarrow> byte \<Rightarrow> byte" where
  "tocOf follows d = (drop_bit 2 d AND 31) OR (if follows then 32 else 0)"

lemma toc_fields:
  "take_bit 6 (tocOf follows d) = tocOf follows d"
  "tocOf follows d AND 31 = drop_bit 2 d AND 31"
  "tocOf follows d AND 32 = 0 \<longleftrightarrow> \<not> follows"
  "drop_bit 1 (tocOf follows d) AND 15 = drop_bit 3 d AND 15"
proof -
  have octet: "j \<in> {0, 1, 2, 3, 4, 5, 6, 7}" if "j < LENGTH(8)" for j using that by auto
  show "take_bit 6 (tocOf follows d) = tocOf follows d"
    by (rule bit_word_eqI, drule octet)
       (auto simp: tocOf_def bit_take_bit_iff bit_or_iff bit_and_iff bit_drop_bit_eq)
  show "tocOf follows d AND 31 = drop_bit 2 d AND 31"
    by (rule bit_word_eqI, drule octet)
       (auto simp: tocOf_def bit_or_iff bit_and_iff bit_drop_bit_eq)
  show "tocOf follows d AND 32 = 0 \<longleftrightarrow> \<not> follows"
  proof (cases follows)
    case True
    have "bit (tocOf follows d AND 32) 5" using True by (simp add: tocOf_def bit_or_iff bit_and_iff)
    then show ?thesis using True by (metis bit_0_eq bot_apply bot_bool_def)
  next
    case False
    have "tocOf follows d AND 32 = 0"
      by (rule bit_word_eqI, drule octet) (use False in \<open>auto simp: tocOf_def bit_and_iff\<close>)
    then show ?thesis using False by simp
  qed
  show "drop_bit 1 (tocOf follows d) AND 15 = drop_bit 3 d AND 15"
  proof (rule bit_word_eqI)
    fix j assume "j < LENGTH(8)"
    then have j: "j \<in> {0, 1, 2, 3, 4, 5, 6, 7}" by (rule octet)
    have three: "Suc (Suc (Suc 0)) = 3" and four: "Suc 3 = 4" by simp_all
    show "bit (drop_bit 1 (tocOf follows d) AND 15) j = bit (drop_bit 3 d AND 15) j"
      unfolding tocOf_def bit_or_iff bit_and_iff bit_drop_bit_eq o_apply using j by (auto simp: bit_0 three four)
  qed
qed

definition blank :: "amr_frame \<Rightarrow> amr_frame" where
  "blank f = f\<lparr>af_data := af_data f ! 0 # replicate 60 0\<rparr>"

text \<open>What \<open>amrPack\<close> checks of a frame.\<close>

definition frame_sized :: "bool \<Rightarrow> amr_frame \<Rightarrow> bool" where
  "frame_sized wide f \<longleftrightarrow> 0 \<le> amrFrameBits wide (frameKind f) \<and> af_size f = 1 + (amrFrameBits wide (frameKind f) + 7) div 8"

lemma readTocs_reads:
  assumes "fs \<noteq> []" and "length acc + length fs \<le> 10" and "\<forall>f \<in> set fs. frame_ok wide f \<and> frame_sized wide f"
  shows "reads (\<lambda>data pos. readTocs wide octet data pos acc) (tocsBits octet fs) (acc @ map blank fs)"
  using assms
proof (induction fs arbitrary: acc)
  case (Cons f fs)
  let ?d = "af_data f ! 0"
  let ?toc = "tocOf (fs \<noteq> []) ?d"
  have f: "frame_ok wide f" "frame_sized wide f" using Cons.prems by auto
  have bits: "amrFrameBits wide (unat (drop_bit 1 ?toc AND 15)) = amrFrameBits wide (frameKind f)"
    unfolding toc_fields frameKind_def by simp
  have "push_bit 2 (?toc AND 31) = ?d" using f(1) unfolding toc_fields toc_kept frame_ok_def by simp
  then have blank: "\<lparr>af_data = push_bit 2 (?toc AND 31) # replicate 60 0, af_size = 1 + (amrFrameBits wide (frameKind f) + 7) div 8\<rparr> = blank f"
    using f(2) by (simp add: blank_def frame_sized_def)
  have room: "\<not> amrMaxFrames \<le> length acc" using Cons.prems(2) by simp
  have nonneg: "\<not> amrFrameBits wide (frameKind f) < 0" using f(2) by (simp add: frame_sized_def)
  let ?rest = "if fs \<noteq> [] then tocsBits octet fs else []"
  have cont: "reads (\<lambda>data pos. if ?toc AND 32 = 0 then Inr (acc @ [blank f], pos) else readTocs wide octet data pos (acc @ [blank f])) ?rest
      (acc @ map blank (f # fs))"
    using Cons.IH[of "acc @ [blank f]"] Cons.prems by (auto simp: toc_fields reads_pure)
  show ?case
    unfolding reads_def
  proof (intro allI impI)
    fix data ws rest
    assume "holds data (ws @ tocsBits octet (f # fs) @ rest)"
    then have h: "holds data (ws @ msb 6 ?toc @ (if octet then msb 2 0 else []) @ ?rest @ rest)"
      by (auto simp: tocBits_def tocOf_def)
    have r1: "bitRead data 6 (length ws) = Inr (?toc, length ws + 6)"
      using bitRead_holds[OF h] by (simp add: toc_fields)
    have "reads (\<lambda>data pos. rbind (if octet then rbind (bitRead data 2 pos) (\<lambda>(_, pos). Inr pos) else Inr pos) (\<lambda>pos. Inr ((), pos)))
      (if octet then msb 2 0 else []) ()" by (rule reads_skip) simp
    then have r2: "(if octet then rbind (bitRead data 2 (length ws + 6)) (\<lambda>(_, pos). Inr pos) else Inr (length ws + 6))
        = Inr (length (ws @ msb 6 ?toc @ (if octet then msb 2 0 else [])))"
      using h bitRead_holds[of data "ws @ msb 6 ?toc" 2 0 "?rest @ rest"] by auto
    have r3: "(if ?toc AND 32 = 0 then Inr (acc @ [blank f], length (ws @ msb 6 ?toc @ (if octet then msb 2 0 else [])))
        else readTocs wide octet data (length (ws @ msb 6 ?toc @ (if octet then msb 2 0 else []))) (acc @ [blank f]))
        = Inr (acc @ map blank (f # fs), length (ws @ msb 6 ?toc @ (if octet then msb 2 0 else [])) + length ?rest)"
      using cont h unfolding reads_def by (metis append.assoc)
    show "readTocs wide octet data (length ws) acc = Inr (acc @ map blank (f # fs), length ws + length (tocsBits octet (f # fs)))"
      by (subst readTocs.simps)
         (simp only: room if_False r1 rbind.simps case_prod_conv r2 bits nonneg Let_def blank r3, simp)
  qed
qed simp

lemma frameKind_blank [simp]: "frameKind (blank f) = frameKind f"
  by (simp add: frameKind_def blank_def)

lemma readSpeech_reads:
  assumes "\<forall>f \<in> set fs. frame_ok wide f"
  shows "reads (\<lambda>data pos. readSpeech wide octet data pos (map blank fs)) (concat (map (frameBits wide octet) fs)) fs"
  using assms
proof (induction fs)
  case Nil
  then show ?case by (simp add: reads_pure)
next
  case (Cons f fs)
  define n where "n = nat (amrFrameBits wide (frameKind f))"
  have n: "(n + 7) div 8 \<le> 60" using amrFrameBits_bound[OF frameKind_less, of wide f] by (simp add: n_def)
  have D: "length (af_data f) = 61" "\<forall>k \<in> set [0..<60]. take_bit (8 - min 8 (n - 8 * k)) (af_data f ! (1 + k)) = 0"
    using Cons.prems by (auto simp: frame_ok_def n_def)
  have tail: "take (1 + (n + 7) div 8) (af_data f) @ replicate (60 - (n + 7) div 8) 0 = af_data f"
  proof (rule nth_equalityI)
    show "length (take (1 + (n + 7) div 8) (af_data f) @ replicate (60 - (n + 7) div 8) 0) = length (af_data f)" using D n by simp
    fix i assume i: "i < length (take (1 + (n + 7) div 8) (af_data f) @ replicate (60 - (n + 7) div 8) 0)"
    show "(take (1 + (n + 7) div 8) (af_data f) @ replicate (60 - (n + 7) div 8) 0) ! i = af_data f ! i"
    proof (cases "i < 1 + (n + 7) div 8")
      case True
      then show ?thesis using D n by (simp add: nth_append)
    next
      case False
      then obtain k where k: "i = 1 + k" "k < 60" "(n + 7) div 8 \<le> k" using i D n by (cases i) auto
      then have "n - 8 * k = 0" by linarith
      moreover have "take_bit 8 (af_data f ! (1 + k)) = af_data f ! (1 + k)" by (rule bit_word_eqI) (simp add: bit_take_bit_iff)
      ultimately have "af_data f ! (1 + k) = 0" using D(2) k(2) by force
      then show ?thesis using False D n i k(1) by (simp add: nth_append)
    qed
  qed
  have "take (1 + 0) (af_data f) @ replicate (60 - 0) 0 = af_data (blank f)" using D(1) by (cases "af_data f") (simp_all add: blank_def)
  then have chunks: "reads (\<lambda>data pos. readChunks n data (chunkNumbers n) pos (af_data (blank f)))
      (concat (map (chunkBits n (af_data f)) (chunkNumbers n))) (af_data f)"
    using readChunks_reads[OF D n, of 0] tail by (simp add: chunkNumbers_def)
  let ?pad = "if octet \<and> n mod 8 \<noteq> 0 then msb (8 - n mod 8) 0 else []"
  show ?case
    unfolding reads_def
  proof (intro allI impI)
    fix data ws rest
    let ?cs = "concat (map (chunkBits n (af_data f)) (chunkNumbers n))"
    let ?fs = "concat (map (frameBits wide octet) fs)"
    have fb: "frameBits wide octet f = ?cs @ ?pad" by (simp only: frameBits_def Let_def n_def)
    assume "holds data (ws @ concat (map (frameBits wide octet) (f # fs)) @ rest)"
    then have h: "holds data (ws @ ?cs @ ?pad @ ?fs @ rest)" by (simp only: list.map concat.simps fb append.assoc)
    have r1: "readChunks n data (chunkNumbers n) (length ws) (af_data (blank f)) = Inr (af_data f, length ws + length ?cs)"
      using chunks h unfolding reads_def by blast
    have r2: "(if octet \<and> n mod 8 \<noteq> 0 then rbind (bitRead data (8 - n mod 8) (length ws + length ?cs)) (\<lambda>(_, pos). Inr pos) else Inr (length ws + length ?cs))
        = Inr (length (ws @ ?cs @ ?pad))"
      using h bitRead_holds[of data "ws @ ?cs" "8 - n mod 8" 0 "?fs @ rest"] by auto
    have r3: "readSpeech wide octet data (length (ws @ ?cs @ ?pad)) (map blank fs) = Inr (fs, length (ws @ ?cs @ ?pad) + length ?fs)"
      using Cons.IH Cons.prems h unfolding reads_def by (metis append.assoc list.set_intros(2))
    show "readSpeech wide octet data (length ws) (map blank (f # fs)) = Inr (f # fs, length ws + length (concat (map (frameBits wide octet) (f # fs))))"
      unfolding list.map readSpeech.simps frameKind_blank n_def[symmetric] Let_def r1 rbind.simps case_prod_conv r2 r3
      by (simp add: blank_def fb)
  qed
qed

subsection \<open>Packing writes the packet's bits\<close>

lemma putTocs_writes: "writes (putTocs octet fs) (tocsBits octet fs)"
proof (induction fs)
  case (Cons f fs)
  let ?toc = "tocOf (fs \<noteq> []) (af_data f ! 0)"
  have "writes (\<lambda>st. rbind (putBits ?toc 6 st) (\<lambda>st. rbind (if octet then putBits 0 2 st else Inr st) (putTocs octet fs)))
    (msb 6 ?toc @ (if octet then msb 2 0 else []) @ tocsBits octet fs)"
    by (intro writes_seq writes_cond writes_put Cons.IH)
  then show ?case by (simp add: tocBits_def tocOf_def Let_def)
qed (simp add: writes_skip[unfolded writes_def] writes_def)

lemma putChunks_writes:
  assumes "\<forall>k \<in> set ks. 1 + k < length D"
  shows "writes (putChunks n D ks) (concat (map (chunkBits n D) ks))"
  using assms
proof (induction ks)
  case (Cons k ks)
  let ?c = "min 8 (n - 8 * k)"
  have "writes (\<lambda>st. rbind (putBits (drop_bit (8 - ?c) (D ! (1 + k))) ?c st) (putChunks n D ks))
    (msb ?c (drop_bit (8 - ?c) (D ! (1 + k))) @ concat (map (chunkBits n D) ks))"
    using Cons by (intro writes_seq writes_put Cons.IH) simp
  moreover have "putChunks n D (k # ks) = (\<lambda>st. rbind (putBits (drop_bit (8 - ?c) (D ! (1 + k))) ?c st) (putChunks n D ks))"
    using Cons.prems by (intro ext) (simp add: Let_def idx_def)
  moreover have "chunkBits n D k = msb ?c (drop_bit (8 - ?c) (D ! (1 + k)))" by (simp only: chunkBits_def Let_def)
  ultimately show ?case by (simp only: list.map concat.simps)
qed (simp add: writes_def)

lemma putSpeech_writes:
  assumes "\<forall>f \<in> set fs. length (af_data f) = 61"
  shows "writes (putSpeech wide octet fs) (concat (map (frameBits wide octet) fs))"
  using assms
proof (induction fs)
  case (Cons f fs)
  define n where "n = nat (amrFrameBits wide (frameKind f))"
  have n: "(n + 7) div 8 \<le> 60" using amrFrameBits_bound[OF frameKind_less, of wide f] by (simp add: n_def)
  have fb: "frameBits wide octet f = concat (map (chunkBits n (af_data f)) (chunkNumbers n)) @
      (if octet \<and> n mod 8 \<noteq> 0 then msb (8 - n mod 8) 0 else [])" by (simp only: frameBits_def Let_def n_def)
  have "\<forall>k \<in> set (chunkNumbers n). 1 + k < length (af_data f)" using n Cons.prems by (auto simp: chunkNumbers_def)
  then have "writes (\<lambda>st. rbind (putChunks n (af_data f) (chunkNumbers n) st)
      (\<lambda>st. rbind (if octet \<and> n mod 8 \<noteq> 0 then putBits 0 (8 - n mod 8) st else Inr st) (putSpeech wide octet fs)))
    (concat (map (chunkBits n (af_data f)) (chunkNumbers n)) @ (if octet \<and> n mod 8 \<noteq> 0 then msb (8 - n mod 8) 0 else []) @
      concat (map (frameBits wide octet) fs))"
    using Cons by (intro writes_seq writes_cond writes_put putChunks_writes Cons.IH) auto
  moreover have "putSpeech wide octet (f # fs) = (\<lambda>st. rbind (putChunks n (af_data f) (chunkNumbers n) st)
      (\<lambda>st. rbind (if octet \<and> n mod 8 \<noteq> 0 then putBits 0 (8 - n mod 8) st else Inr st) (putSpeech wide octet fs)))"
    unfolding n_def fun_eq_iff putSpeech.simps Let_def by (rule allI) (rule refl)
  ultimately show ?case by (simp only: list.map concat.simps fb append.assoc)
qed (simp add: writes_def)

lemma packBits_Inr:
  "packBits wide octet fs = Inr m \<Longrightarrow> m = length (concat (map (frameBits wide octet) fs)) \<and> (\<forall>f \<in> set fs. frame_sized wide f)"
  by (induction fs arbitrary: m) (auto simp: Let_def frame_sized_def length_frameBits rbind_Inr_iff split: if_splits)

lemma length_tocsBits: "length (tocsBits octet fs) = length fs * (if octet then 8 else 6)"
  by (induction fs) auto

lemma take_bit4_word: "0 \<le> c \<Longrightarrow> c \<le> 15 \<Longrightarrow> int (unat (take_bit 4 (word_of_int c :: byte))) = c"
  by (simp add: unsigned_take_bit_eq take_bit_int_eq_self unsigned_of_int take_bit_nat_eq_self)

lemma length_frameBits_le: "length (frameBits wide octet f) \<le> 480"
  using amrFrameBits_bound[OF frameKind_less, of wide f] by (auto simp: length_frameBits Let_def)

text \<open>C16: Speech survives the payload format: frames that \<open>amrPack\<close> accepts, narrow or wide band, packed bit by
  bit or octet aligned, parse back to the same frames in the same order under the same mode request. A
  frame is 61 bytes that are zero behind its speech bits.\<close>
theorem amr_roundtrip:
  assumes "amrPack frames cmr wide octet = Inr data" and "\<forall>f \<in> set frames. frame_ok wide f"
  shows "amrParse data wide octet = Inr \<lparr>ap_cmr = cmr, ap_frames = frames\<rparr>"
proof -
  let ?speech = "concat (map (frameBits wide octet) frames)"
  let ?pad = "if octet then msb 4 0 else []"
  let ?bits = "msb 4 (word_of_int cmr) @ ?pad @ tocsBits octet frames @ ?speech"
  have pre: "frames \<noteq> []" "length frames \<le> 10" "0 \<le> cmr" "cmr \<le> 15" using assms(1) by (auto simp: amrPack_def split: if_splits)
  then have guard: "\<not> (frames = [] \<or> length frames > amrMaxFrames \<or> cmr < 0 \<or> cmr > 15)" by auto
  obtain m where m: "packBits wide octet frames = Inr m" using assms(1) guard by (auto simp: amrPack_def rbind_Inr_iff split: if_splits)
  have sized: "m = length ?speech" "\<forall>f \<in> set frames. frame_sized wide f" using packBits_Inr[OF m] by auto
  define len where "len = ((if octet then 8 + length frames * 8 else 4 + length frames * 6) + m + 7) div 8"
  have lb: "length ?bits = (if octet then 8 + length frames * 8 else 4 + length frames * 6) + m"
    by (simp add: length_tocsBits sized(1))
  have "length ?bits \<le> 8 * len" "8 * len < length ?bits + 8" unfolding lb len_def by linarith+
  moreover have ok61: "\<forall>f \<in> set frames. length (af_data f) = 61" using assms(2) by (simp add: frame_ok_def)
  have "writes (\<lambda>st. rbind (putBits (word_of_int cmr) 4 st) (\<lambda>st. rbind (if octet then putBits 0 4 st else Inr st)
      (\<lambda>st. rbind (putTocs octet frames st) (putSpeech wide octet frames)))) ?bits"
    by (intro writes_seq writes_cond writes_put putTocs_writes putSpeech_writes ok61)
  note w = this[unfolded writes_def, rule_format, of "replicate len 0" "[]"]
  obtain out where out: "rbind (putBits (word_of_int cmr) 4 (replicate len 0, 0)) (\<lambda>st. rbind (if octet then putBits 0 4 st else Inr st)
      (\<lambda>st. rbind (putTocs octet frames st) (putSpeech wide octet frames))) = Inr (out, length ?bits)" "holds out ?bits" "length out = len"
    using w holds_zeros[of len] calculation(1) by (auto simp only: list.size append_Nil add_0 length_replicate)
  have "amrPack frames cmr wide octet = rbind (rbind (putBits (word_of_int cmr) 4 (replicate len 0, 0)) (\<lambda>st. rbind (if octet then putBits 0 4 st else Inr st)
      (\<lambda>st. rbind (putTocs octet frames st) (putSpeech wide octet frames)))) (\<lambda>(out, _). Inr out)"
    unfolding amrPack_def if_not_P[OF guard] m rbind.simps Let_def len_def by (simp only: rbind_assoc)
  then have data: "data = out" using assms(1) out(1) by simp
  have size_: "2 \<le> len" "len \<le> 611"
  proof -
    have "1 \<le> length frames" using pre(1) by (cases frames) auto
    then have "10 \<le> length ?bits" unfolding lb by auto
    then show "2 \<le> len" using calculation(1) by linarith
    have "length ?speech \<le> 480 * length frames"
      using length_frameBits_le by (induction frames) (auto intro: add_mono)
    then have "length ?bits \<le> 8 + 80 + 4800" unfolding lb sized(1) using pre(2) by auto
    then show "len \<le> 611" using calculation(2) by linarith
  qed
  have h: "holds data ([] @ ?bits @ [])" using out(2) data by simp
  have r1: "bitReadAnyway data 4 0 = Inr (take_bit 4 (word_of_int cmr), 4)"
    using bitRead_holds[of data "[]" 4 "word_of_int cmr"] h by (simp add: bitReadAnyway_def)
  have r2: "(if octet then rbind (bitReadAnyway data 4 4) (\<lambda>(_, pos). Inr pos) else Inr 4) = Inr (length (msb 4 (word_of_int cmr) @ ?pad))"
    using bitRead_holds[of data "msb 4 (word_of_int cmr)" 4 0] h by (auto simp: bitReadAnyway_def)
  have r3: "readTocs wide octet data (length (msb 4 (word_of_int cmr) @ ?pad)) [] = Inr (map blank frames, length (msb 4 (word_of_int cmr) @ ?pad @ tocsBits octet frames))"
  proof -
    have "reads (\<lambda>data pos. readTocs wide octet data pos []) (tocsBits octet frames) ([] @ map blank frames)"
      by (rule readTocs_reads) (use pre assms(2) sized(2) in simp_all)
    from readsD[OF this, of data "msb 4 (word_of_int cmr) @ ?pad" ?speech] show ?thesis
      using h by (simp only: append.assoc append_Nil append_Nil2)
  qed
  have r4: "readSpeech wide octet data (length (msb 4 (word_of_int cmr) @ ?pad @ tocsBits octet frames)) (map blank frames) = Inr (frames, length ?bits)"
    using readsD[OF readSpeech_reads[OF assms(2), of octet], of data "msb 4 (word_of_int cmr) @ ?pad @ tocsBits octet frames" "[]"] h
    by (simp only: append.assoc append_Nil append_Nil2)
  have sizes: "\<not> (length data < 2 \<or> length data > 1 + amrMaxFrames * 61)" using size_ data out(3) by simp
  have rest: "\<not> int (length data * 8) - int (length ?bits) \<ge> 8" using calculation(2) unfolding data out(3) by linarith
  show ?thesis
    unfolding amrParse_def if_not_P[OF sizes] r1 rbind.simps case_prod_conv r2 r3 r4 if_not_P[OF rest] take_bit4_word[OF pre(3,4)] by (rule refl)
qed

subsection \<open>A concrete packet\<close>

definition demo_frames :: "amr_frame list" where
  "demo_frames = [\<lparr>af_data = 0x7c # replicate 60 0, af_size = 1\<rparr>,
     \<lparr>af_data = 0x44 # replicate 4 0xa5 @ [0xfe] @ replicate 55 0, af_size = 6\<rparr>]"

theorem amr_roundtrip_witness:
  "\<exists>data. amrPack demo_frames 15 False False = Inr data \<and> amrParse data False False = Inr \<lparr>ap_cmr = 15, ap_frames = demo_frames\<rparr>"
proof -
  have "\<not> isl (amrPack demo_frames 15 False False)" by code_simp
  then obtain data where d: "amrPack demo_frames 15 False False = Inr data" by (cases "amrPack demo_frames 15 False False") auto
  have "\<forall>f \<in> set demo_frames. frame_ok False f" by code_simp
  from amr_roundtrip[OF d this] d show ?thesis by blast
qed

end
