(* ===== verification/Pcm.thy ===== *)
theory Pcm
  imports Prelude "HOL-Library.Signed_Division"
begin

text \<open>
  G.711 loss concealment of \<open>backend/internal/vocat/vowifi/ims/rtp_pcm.go\<close>. Samples are integers in the
  range of \<open>int16\<close>; a conversion wraps as Go's does and division truncates. The comparison of pitch
  scores is in \<open>float64\<close>: a score and its order are the record argument \<open>pitch_score\<close>, which only
  decides which pitch is repeated.
\<close>

subsection \<open>Machine integers\<close>

definition int16 :: "int \<Rightarrow> int" where
  "int16 x = signed_take_bit 15 x"

definition int32 :: "int \<Rightarrow> int" where
  "int32 x = signed_take_bit 31 x"

definition sample_ok :: "int \<Rightarrow> bool" where
  "sample_ok v \<longleftrightarrow> - 32768 \<le> v \<and> v \<le> 32767"

record 'f pitch_score =
  ps_score :: "int \<Rightarrow> int \<Rightarrow> int \<Rightarrow> 'f"
  ps_limit :: 'f
  ps_greater :: "'f \<Rightarrow> 'f \<Rightarrow> bool"

subsection \<open>The concealer\<close>

record concealer =
  cn_history :: "int list"
  cn_cycle :: "int list"
  cn_pos :: nat
  cn_n :: nat
  cn_lag :: nat
  cn_lost :: nat
  cn_blend :: nat
  cn_anchor :: int
  cn_last :: int

abbreviation pcmHistory :: nat where "pcmHistory \<equiv> 320"
abbreviation pcmFade :: nat where "pcmFade \<equiv> 480"
abbreviation pcmBlend :: nat where "pcmBlend \<equiv> 40"

definition newConcealer :: concealer where
  "newConcealer = \<lparr>cn_history = replicate 320 0, cn_cycle = replicate 120 0, cn_pos = 0, cn_n = 0, cn_lag = 0,
     cn_lost = 0, cn_blend = 0, cn_anchor = 0, cn_last = 0\<rparr>"

text \<open>\<open>back\<close> is at most 200 wherever it is used, so the index is not negative.\<close>

definition past :: "concealer \<Rightarrow> nat \<Rightarrow> int" where
  "past p back = cn_history p ! ((cn_pos p + pcmHistory - back) mod pcmHistory)"

text \<open>The sums of one lag; 80 products of 16-bit samples fit in an \<open>int64\<close>.\<close>

definition correlate :: "concealer \<Rightarrow> nat \<Rightarrow> int \<times> int \<times> int" where
  "correlate p lag =
    fold (\<lambda>i (dot, a, b). let x = past p i; y = past p (i + lag) in (dot + x * y, a + x * x, b + y * y)) [1..<81] (0, 0, 0)"

definition bestLag :: "'f pitch_score \<Rightarrow> concealer \<Rightarrow> nat" where
  "bestLag ps p = snd (
    fold (\<lambda>lag (best, found).
      let (dot, a, b) = correlate p lag in
      if dot \<le> 0 \<or> a = 0 \<or> b = 0 then (best, found)
      else let score = ps_score ps dot a b in
        if ps_greater ps score best then (score, lag) else (best, found))
     [20..<min 120 (cn_n p - 80) + 1] (ps_limit ps, 0))"

definition startLoss :: "'f pitch_score \<Rightarrow> concealer \<Rightarrow> concealer" where
  "startLoss ps p =
    (let lag = bestLag ps p in
     p\<lparr>cn_anchor := cn_last p, cn_lag := lag,
       cn_cycle := fold (\<lambda>i cycle. cycle[i := past p (lag - i)]) [0..<lag] (cn_cycle p)\<rparr>)"

definition predict :: "concealer \<Rightarrow> int" where
  "predict p =
    (if cn_lost p \<ge> pcmFade then 0
     else if cn_lag p = 0
     then int16 (int32 (cn_anchor p * max 0 (int pcmBlend - int (cn_lost p) - 1)) sdiv int pcmBlend)
     else
       let v = cn_cycle p ! (cn_lost p mod cn_lag p);
           v = (if cn_lost p < pcmBlend
                then int32 (int32 (cn_anchor p * (int pcmBlend - int (cn_lost p) - 1)) + int32 (v * (int (cn_lost p) + 1))) sdiv int pcmBlend
                else v)
       in int16 (int32 (v * (int pcmFade - int (cn_lost p) - 1)) sdiv int pcmFade))"

definition concealSample :: "'f pitch_score \<Rightarrow> int \<Rightarrow> bool \<Rightarrow> concealer \<Rightarrow> concealer \<times> int" where
  "concealSample ps v present p =
    (if \<not> present then
       let p = (if cn_lost p = 0 then startLoss ps p else p);
           last = predict p
       in (p\<lparr>cn_last := last, cn_lost := min (cn_lost p + 1) pcmFade, cn_blend := 0\<rparr>, last)
     else
       let p = p\<lparr>cn_history := (cn_history p)[cn_pos p := v], cn_pos := (cn_pos p + 1) mod pcmHistory, cn_n := min (cn_n p + 1) pcmHistory\<rparr> in
       if cn_lost p > 0 then
         let p = p\<lparr>cn_blend := cn_blend p + 1\<rparr>;
             out = int16 (int32 (int32 (predict p * (int pcmBlend - int (cn_blend p))) + int32 (v * int (cn_blend p))) sdiv int pcmBlend);
             p = p\<lparr>cn_lost := min (cn_lost p + 1) pcmFade\<rparr>;
             p = (if cn_blend p = pcmBlend then p\<lparr>cn_lost := 0, cn_blend := 0\<rparr> else p)
         in (p\<lparr>cn_last := out\<rparr>, out)
       else (p\<lparr>cn_last := v\<rparr>, v))"

text \<open>The loop over the samples of a frame.\<close>

fun concealAll :: "'f pitch_score \<Rightarrow> (int \<times> bool) list \<Rightarrow> concealer \<Rightarrow> concealer \<times> int list" where
  "concealAll ps [] p = (p, [])"
| "concealAll ps ((v, present) # xs) p =
    (let (p, out) = concealSample ps v present p; (p, outs) = concealAll ps xs p in (p, out # outs))"

subsection \<open>Concealment is transparent and fades\<close>

lemma int16_id [simp]: "sample_ok v \<Longrightarrow> int16 v = v"
  by (simp add: int16_def sample_ok_def signed_take_bit_int_eq_self)

lemma int16_ok [simp]: "sample_ok (int16 v)"
  using signed_take_bit_int_greater_eq_minus_exp[of 15 v] signed_take_bit_int_less_exp[of 15 v]
  by (simp add: int16_def sample_ok_def)

lemma int32_id: "- 2147483648 \<le> v \<Longrightarrow> v \<le> 2147483647 \<Longrightarrow> int32 v = v"
  by (simp add: int32_def signed_take_bit_int_eq_self)

text \<open>The state between samples: the counters agree, and the prediction stays in range.\<close>

definition concealer_ok :: "concealer \<Rightarrow> bool" where
  "concealer_ok p \<longleftrightarrow> length (cn_history p) = 320 \<and> length (cn_cycle p) = 120 \<and> cn_pos p < 320 \<and> cn_n p \<le> 320 \<and>
     cn_lag p \<le> 120 \<and> cn_lost p \<le> 480 \<and> cn_blend p < 40 \<and> (cn_lost p = 0 \<longrightarrow> cn_blend p = 0) \<and>
     list_all sample_ok (cn_history p) \<and> list_all sample_ok (cn_cycle p) \<and> sample_ok (cn_anchor p) \<and> sample_ok (cn_last p)"

lemma past_ok: "concealer_ok p \<Longrightarrow> sample_ok (past p back)"
  by (simp add: concealer_ok_def past_def list_all_length)

lemma bestLag_bound: "bestLag ps p \<le> 120"
proof -
  let ?f = "\<lambda>lag (best, found).
      let (dot, a, b) = correlate p lag in
      if dot \<le> 0 \<or> a = 0 \<or> b = 0 then (best, found)
      else let score = ps_score ps dot a b in if ps_greater ps score best then (score, lag) else (best, found)"
  have step: "snd (fold ?f lags st) \<le> 120" if "\<forall>l \<in> set lags. l \<le> 120" "snd st \<le> 120" for lags st
    using that by (induction lags arbitrary: st) (auto simp: Let_def split: prod.splits)
  show ?thesis unfolding bestLag_def by (rule step) (simp_all only: set_upt ball_simps snd_conv, auto)
qed

lemma cycle_fold:
  "length cycle = 120 \<Longrightarrow> list_all sample_ok cycle \<Longrightarrow> \<forall>i \<in> set is. sample_ok (f i) \<Longrightarrow>
    length (fold (\<lambda>i cycle. cycle[i := f i]) is cycle) = 120 \<and> list_all sample_ok (fold (\<lambda>i cycle. cycle[i := f i]) is cycle)"
proof (induction "is" arbitrary: cycle)
  case (Cons i "is")
  have "list_all sample_ok (cycle[i := f i])"
    using Cons.prems set_update_subset_insert[of cycle i "f i"] by (auto simp: list_all_iff)
  then show ?case using Cons by simp
qed simp

lemma startLoss_ok: "concealer_ok p \<Longrightarrow> concealer_ok (startLoss ps p)"
  using cycle_fold[of "cn_cycle p" "[0..<bestLag ps p]" "\<lambda>i. past p (bestLag ps p - i)"] past_ok bestLag_bound[of ps p]
  by (auto simp: concealer_ok_def startLoss_def Let_def)

lemma predict_ok: "sample_ok (predict p)"
  unfolding predict_def Let_def by (simp add: sample_ok_def[of 0])

lemma concealSample_ok:
  assumes p: "concealer_ok p" and v: "sample_ok v"
  shows "concealer_ok (fst (concealSample ps v present p)) \<and> sample_ok (snd (concealSample ps v present p))"
proof (cases present)
  case False
  define q where "q = (if cn_lost p = 0 then startLoss ps p else p)"
  have "concealer_ok q" using p by (simp add: q_def startLoss_ok)
  then show ?thesis using False predict_ok[of q] by (simp add: concealSample_def Let_def concealer_ok_def q_def[symmetric])
next
  case True
  have h: "list_all sample_ok ((cn_history p)[cn_pos p := v])"
    using p v set_update_subset_insert[of "cn_history p" "cn_pos p" v] by (auto simp: concealer_ok_def list_all_iff)
  show ?thesis using True p v h by (auto simp: concealSample_def Let_def concealer_ok_def)
qed

lemma concealAll_append:
  "concealAll ps (xs @ ys) p = (let (p1, o1) = concealAll ps xs p; (p2, o2) = concealAll ps ys p1 in (p2, o1 @ o2))"
  by (induction xs arbitrary: p) (auto simp: Let_def split: prod.splits)

lemma concealAll_ok:
  "concealer_ok p \<Longrightarrow> \<forall>(v, b) \<in> set xs. sample_ok v \<Longrightarrow>
    concealer_ok (fst (concealAll ps xs p)) \<and> list_all sample_ok (snd (concealAll ps xs p)) \<and> length (snd (concealAll ps xs p)) = length xs"
proof (induction xs arbitrary: p)
  case (Cons x xs)
  obtain v b where x: "x = (v, b)" by (cases x)
  obtain q out where q: "concealSample ps v b p = (q, out)" by (cases "concealSample ps v b p")
  then have "concealer_ok q" "sample_ok out" using concealSample_ok[of p v ps b] Cons.prems x by auto
  then show ?case using Cons.IH[of q] Cons.prems by (simp add: x q split_beta)
qed simp

lemma fst_concealAll_append: "fst (concealAll ps (xs @ ys) p) = fst (concealAll ps ys (fst (concealAll ps xs p)))"
  by (simp add: concealAll_append split_beta)

text \<open>A run of received samples either has ended the loss or counts up the blend.\<close>

lemma received_run:
  "concealer_ok p \<Longrightarrow> \<forall>(v, b) \<in> set xs. sample_ok v \<and> b \<Longrightarrow>
    cn_lost (fst (concealAll ps xs p)) = 0 \<or> cn_blend (fst (concealAll ps xs p)) = cn_blend p + length xs"
proof (induction xs arbitrary: p)
  case (Cons x xs)
  obtain v where x: "x = (v, True)" using Cons.prems by (cases x) auto
  obtain q out where q: "concealSample ps v True p = (q, out)" by (cases "concealSample ps v True p")
  then have ok: "concealer_ok q" using concealSample_ok[of p v ps True] Cons.prems x by auto
  have "cn_lost q = 0 \<or> cn_blend q = cn_blend p + 1"
    using q by (auto simp: concealSample_def Let_def split: if_splits)
  moreover have "cn_lost (fst (concealAll ps xs q)) = 0" if "cn_lost q = 0"
    using that Cons.prems(2)
  proof (induction xs arbitrary: q)
    case (Cons y ys)
    then show ?case by (cases y) (auto simp: concealSample_def Let_def split_beta)
  qed simp
  ultimately show ?case using Cons.IH[OF ok] Cons.prems by (auto simp: x q split_beta)
qed simp

lemma missing_run:
  "\<forall>(v, b) \<in> set xs. \<not> b \<Longrightarrow> cn_lost p \<le> 480 \<Longrightarrow> cn_lost (fst (concealAll ps xs p)) = min 480 (cn_lost p + length xs)"
proof (induction xs arbitrary: p)
  case (Cons x xs)
  obtain v where x: "x = (v, False)" using Cons.prems by (cases x) auto
  have "cn_lost (fst (concealSample ps v False p)) = min (cn_lost p + 1) 480"
    by (simp add: concealSample_def Let_def startLoss_def)
  then show ?case using Cons.IH[of "fst (concealSample ps v False p)"] Cons.prems by (simp add: x split_beta)
qed simp

lemma length_concealAll: "length (snd (concealAll ps xs p)) = length xs"
  by (induction xs arbitrary: p) (auto simp: split_beta)

lemma nth_concealAll:
  assumes "i < length xs"
  shows "snd (concealAll ps xs p) ! i = snd (concealSample ps (fst (xs ! i)) (snd (xs ! i)) (fst (concealAll ps (take i xs) p)))"
proof -
  have "snd (concealAll ps (take i xs @ xs ! i # drop (Suc i) xs) p) ! i =
      snd (concealAll ps (xs ! i # drop (Suc i) xs) (fst (concealAll ps (take i xs) p))) ! 0"
    using assms by (simp add: concealAll_append split_beta nth_append length_concealAll)
  also have "\<dots> = snd (concealSample ps (fst (xs ! i)) (snd (xs ! i)) (fst (concealAll ps (take i xs) p)))"
    by (cases "xs ! i") (simp add: split_beta)
  finally show ?thesis unfolding id_take_nth_drop[OF assms, symmetric] .
qed

text \<open>Concealment is bounded in time and value. Every output is a 16-bit sample; after 40 received samples
  in a row the output is the input again, bit for bit; after 480 missing samples (60 ms) in a row it is
  silence; whatever was lost before, and whichever pitch was chosen.\<close>
theorem concealment_transparent:
  assumes "concealer_ok p" and "\<forall>(v, b) \<in> set xs. sample_ok v" and "concealAll ps xs p = (p', outs)"
  shows "concealer_ok p' \<and> length outs = length xs \<and> list_all sample_ok outs \<and>
    (\<forall>i < length xs. (40 \<le> i \<and> (\<forall>j. i - 40 \<le> j \<and> j \<le> i \<longrightarrow> snd (xs ! j)) \<longrightarrow> outs ! i = fst (xs ! i)) \<and>
       (480 \<le> i \<and> (\<forall>j. i - 480 \<le> j \<and> j \<le> i \<longrightarrow> \<not> snd (xs ! j)) \<longrightarrow> outs ! i = 0))"
proof (intro conjI allI impI)
  have ok: "concealer_ok (fst (concealAll ps ys p))" if "set ys \<subseteq> set xs" for ys
    using concealAll_ok[OF assms(1), of ys ps] assms(2) that by blast
  show "concealer_ok p'" "length outs = length xs" "list_all sample_ok outs" using concealAll_ok[OF assms(1,2), of ps] assms(3) by auto
  fix i assume i: "i < length xs"
  define state where "state n = fst (concealAll ps (take n xs) p)" for n
  have split: "state i = fst (concealAll ps (drop (i - n) (take i xs)) (state (i - n)))" if "n \<le> i" for n
  proof -
    have t: "take (i - n) xs @ drop (i - n) (take i xs) = take i xs"
      using append_take_drop_id[of "i - n" "take i xs"] by (simp add: min_def)
    show ?thesis unfolding state_def fst_concealAll_append[symmetric] t by (rule refl)
  qed
  have mem: "x \<in> set xs \<and> (\<exists>j. i - n \<le> j \<and> j \<le> i \<and> xs ! j = x)" if m: "x \<in> set (drop (i - n) (take i xs))" for x n
  proof -
    obtain k where k: "k < length (drop (i - n) (take i xs))" "x = drop (i - n) (take i xs) ! k" using m unfolding in_set_conv_nth by blast
    have kl: "i - n + k < i" using k(1) i by (simp only: length_drop length_take)
    have x: "x = xs ! (i - n + k)" unfolding k(2) using kl i by simp
    have "x \<in> set xs" unfolding x using kl i by simp
    moreover have "i - n \<le> i - n + k \<and> i - n + k \<le> i \<and> xs ! (i - n + k) = x" using x kl by simp
    ultimately show ?thesis by blast
  qed
  have st: "concealer_ok (state n)" for n unfolding state_def by (rule ok) (rule set_take_subset)
  have out: "outs ! i = snd (concealSample ps (fst (xs ! i)) (snd (xs ! i)) (state i))"
    using nth_concealAll[OF i, of ps p] assms(3) by (simp add: state_def)
  show "outs ! i = fst (xs ! i)" if c: "40 \<le> i \<and> (\<forall>j. i - 40 \<le> j \<and> j \<le> i \<longrightarrow> snd (xs ! j))"
  proof -
    have all: "\<forall>x \<in> set (drop (i - 40) (take i xs)). case x of (v, b) \<Rightarrow> sample_ok v \<and> b"
    proof
      fix x assume "x \<in> set (drop (i - 40) (take i xs))"
      then obtain j where "i - 40 \<le> j" "j \<le> i" "xs ! j = x" "x \<in> set xs" using mem[of x 40] by blast
      then have "snd x" "case x of (v, b) \<Rightarrow> sample_ok v" using c assms(2) by blast+
      then show "case x of (v, b) \<Rightarrow> sample_ok v \<and> b" by (cases x) simp
    qed
    have len: "length (drop (i - 40) (take i xs)) = 40" using c i by simp
    have "cn_lost (state i) = 0 \<or> cn_blend (state i) = cn_blend (state (i - 40)) + 40"
      using received_run[OF st[of "i - 40"] all, of ps] unfolding split[OF conjunct1[OF c], symmetric] len .
    moreover have "cn_blend (state i) < 40" using st[of i] by (simp add: concealer_ok_def)
    ultimately have "cn_lost (state i) = 0" by linarith
    then show ?thesis using c unfolding out by (simp add: concealSample_def Let_def)
  qed
  show "outs ! i = 0" if c: "480 \<le> i \<and> (\<forall>j. i - 480 \<le> j \<and> j \<le> i \<longrightarrow> \<not> snd (xs ! j))"
  proof -
    have all: "\<forall>x \<in> set (drop (i - 480) (take i xs)). case x of (v, b) \<Rightarrow> \<not> b"
    proof
      fix x assume "x \<in> set (drop (i - 480) (take i xs))"
      then obtain j where "i - 480 \<le> j" "j \<le> i" "xs ! j = x" "x \<in> set xs" using mem[of x 480] by blast
      then have "\<not> snd x" "case x of (v, b) \<Rightarrow> sample_ok v" using c assms(2) by blast+
      then show "case x of (v, b) \<Rightarrow> \<not> b" by (cases x) simp
    qed
    have len: "length (drop (i - 480) (take i xs)) = 480" using c i by simp
    have "cn_lost (state (i - 480)) \<le> 480" using st[of "i - 480"] by (simp add: concealer_ok_def)
    from missing_run[OF all this, of ps] have "cn_lost (state i) = 480"
      unfolding split[OF conjunct1[OF c], symmetric] len by simp
    then show ?thesis using c unfolding out by (simp add: concealSample_def Let_def predict_def)
  qed
qed

text \<open>With a score that never beats the limit, 41 received samples come out unchanged.\<close>

theorem concealment_transparent_witness:
  "\<exists>p' outs. concealAll \<lparr>ps_score = (\<lambda>d a b. d), ps_limit = 0, ps_greater = (\<lambda>x y. False)\<rparr> (replicate 41 (7, True)) newConcealer = (p', outs) \<and> outs ! 40 = 7"
proof -
  obtain p' outs where c: "concealAll \<lparr>ps_score = (\<lambda>d a b. d), ps_limit = 0, ps_greater = (\<lambda>x y. False)\<rparr> (replicate 41 (7, True)) newConcealer = (p', outs)"
    by fastforce
  have "concealer_ok newConcealer" by (simp add: concealer_ok_def newConcealer_def sample_ok_def list_all_length)
  moreover have "\<forall>(v, b) \<in> set (replicate 41 (7, True)). sample_ok v" by (simp add: sample_ok_def)
  ultimately have "outs ! 40 = fst (replicate 41 (7 :: int, True) ! 40)" using concealment_transparent[OF _ _ c] by simp
  then show ?thesis using c by simp
qed

end
