(* ===== verification/Jitter.thy ===== *)
theory Jitter
  imports Pcm Amr
begin

text \<open>
  The playout buffer of \<open>backend/internal/vocat/vowifi/ims/rtp_jitter.go\<close> with the compressed playout of
  rtp_compressed.go. Instants and durations are integers in nanoseconds, \<open>Sub\<close> saturates as Go's does.
  The arrays of 4096 slots are functions of the index, which is always a masked stamp; a
  \<open>*compressedPacket\<close> is an address in \<open>jt_heap\<close>, since many slots share one packet. Sequence numbers,
  stamps and counters are words and wrap. The decoder is the argument \<open>decode\<close> on a state of its own;
  it says whether it failed and returns the samples.
\<close>

subsection \<open>Time\<close>

type_synonym time = int

text \<open>The zero \<open>time.Time\<close>, year 1, against the Unix epoch.\<close>

definition zeroTime :: time where
  "zeroTime = - 62135596800 * 1000000000"

definition timeSub :: "time \<Rightarrow> time \<Rightarrow> int" where
  "timeSub a b = max (- 9223372036854775808) (min 9223372036854775807 (a - b))"

abbreviation millis :: "int \<Rightarrow> int" where "millis n \<equiv> n * 1000000"

abbreviation rtpPlayoutDelay :: int where "rtpPlayoutDelay \<equiv> 60000000"
abbreviation rtpMaxDelay :: int where "rtpMaxDelay \<equiv> 180000000"
abbreviation rtpFrameTime :: int where "rtpFrameTime \<equiv> 20000000"
abbreviation rtpMaxLate :: int where "rtpMaxLate \<equiv> 120000000"
abbreviation rtpSampleWindow :: int where "rtpSampleWindow \<equiv> 4096"
abbreviation rtpPacketSamples :: nat where "rtpPacketSamples \<equiv> 160"

subsection \<open>State\<close>

record receive_stats =
  rs_decodeErrors :: "64 word"
  rs_packets :: "64 word"
  rs_reordered :: "64 word"
  rs_duplicates :: "64 word"
  rs_late :: "64 word"
  rs_outside :: "64 word"
  rs_foreign :: "64 word"
  rs_resets :: "64 word"
  rs_missing :: "64 word"
  rs_skipped :: "64 word"
  rs_adjustments :: "64 word"
  rs_rebuffer :: "64 word"
  rs_reductions :: "64 word"
  rs_timestamps :: "64 word"
  rs_delayMillis :: "32 word"

record rtp_jump =
  rj_sequence :: "16 word"
  rj_end :: "32 word"
  rj_at :: time
  rj_count :: int

record compressed_packet =
  cp_start :: "32 word"
  cp_rtp :: "32 word"
  cp_size :: int
  cp_data :: "byte list option"
  cp_pcm :: "int list"
  cp_decoded :: bool
  cp_amr :: bool

record 'c compressed_playout =
  po_packets :: "nat \<Rightarrow> nat option"
  po_rtpAnchor :: "32 word"
  po_pcmAnchor :: "32 word"
  po_codec :: 'c
  po_scale :: "32 word"
  po_quantum :: int

record 'c jitter =
  jt_samples :: "nat \<Rightarrow> int"
  jt_stamps :: "nat \<Rightarrow> 32 word"
  jt_present :: "nat \<Rightarrow> bool"
  jt_initialized :: bool
  jt_playing :: bool
  jt_ssrc :: "32 word"
  jt_cursor :: "32 word"
  jt_sequence :: "16 word"
  jt_seen :: "64 word"
  jt_nextAt :: time
  jt_lastAt :: time
  jt_delay :: int
  jt_lateSince :: time
  jt_lateCount :: int
  jt_holdFrames :: int
  jt_pcm :: concealer
  jt_quietFrames :: int
  jt_stableAt :: time
  jt_reducedAt :: time
  jt_stats :: receive_stats
  jt_jump :: rtp_jump
  jt_compressed :: "'c compressed_playout option"
  jt_heap :: "nat \<Rightarrow> compressed_packet"
  jt_nextPacket :: nat

definition noJump :: rtp_jump where
  "noJump = \<lparr>rj_sequence = 0, rj_end = 0, rj_at = zeroTime, rj_count = 0\<rparr>"

definition noStats :: receive_stats where
  "noStats = \<lparr>rs_decodeErrors = 0, rs_packets = 0, rs_reordered = 0, rs_duplicates = 0, rs_late = 0, rs_outside = 0,
     rs_foreign = 0, rs_resets = 0, rs_missing = 0, rs_skipped = 0, rs_adjustments = 0, rs_rebuffer = 0, rs_reductions = 0,
     rs_timestamps = 0, rs_delayMillis = 0\<rparr>"

definition noPacket :: compressed_packet where
  "noPacket = \<lparr>cp_start = 0, cp_rtp = 0, cp_size = 0, cp_data = None, cp_pcm = [], cp_decoded = False, cp_amr = False\<rparr>"

text \<open>The zero \<open>rtpJitter\<close>; \<open>configureRemote\<close> gives it a compressed playout for Opus and AMR.\<close>

definition newJitter :: "'c compressed_playout option \<Rightarrow> 'c jitter" where
  "newJitter compressed = \<lparr>jt_samples = (\<lambda>_. 0), jt_stamps = (\<lambda>_. 0), jt_present = (\<lambda>_. False), jt_initialized = False,
     jt_playing = False, jt_ssrc = 0, jt_cursor = 0, jt_sequence = 0, jt_seen = 0, jt_nextAt = zeroTime, jt_lastAt = zeroTime,
     jt_delay = 0, jt_lateSince = zeroTime, jt_lateCount = 0, jt_holdFrames = 0, jt_pcm = newConcealer, jt_quietFrames = 0,
     jt_stableAt = zeroTime, jt_reducedAt = zeroTime, jt_stats = noStats, jt_jump = noJump, jt_compressed = compressed,
     jt_heap = (\<lambda>_. noPacket), jt_nextPacket = 0\<rparr>"

abbreviation stats :: "(receive_stats \<Rightarrow> receive_stats) \<Rightarrow> 'c jitter \<Rightarrow> 'c jitter" where
  "stats f j \<equiv> j\<lparr>jt_stats := f (jt_stats j)\<rparr>"

text \<open>The slot of a stamp, and whether it holds exactly that stamp.\<close>

definition slot :: "32 word \<Rightarrow> nat" where
  "slot stamp = unat (stamp AND 4095)"

definition held :: "'c jitter \<Rightarrow> 32 word \<Rightarrow> bool" where
  "held j stamp \<longleftrightarrow> jt_present j (slot stamp) \<and> jt_stamps j (slot stamp) = stamp"

subsection \<open>Helpers of push and pop\<close>

definition forwardJump :: "16 word \<Rightarrow> 32 word \<Rightarrow> int \<Rightarrow> time \<Rightarrow> 'c jitter \<Rightarrow> 'c jitter \<times> bool" where
  "forwardJump sequence timestamp size' now j =
    (let previous = jt_jump j;
         count = (if sequence = rj_sequence previous + 1 \<and> timestamp = rj_end previous \<and> \<not> now < rj_at previous \<and>
                    timeSub now (rj_at previous) \<le> millis 200
                  then rj_count previous + 1 else 1)
     in (j\<lparr>jt_jump := \<lparr>rj_sequence = sequence, rj_end = timestamp + word_of_int size', rj_at = now, rj_count = count\<rparr>\<rparr>, count \<ge> 3))"

definition jitterReset :: "16 word \<Rightarrow> 32 word \<Rightarrow> 32 word \<Rightarrow> time \<Rightarrow> 'c jitter \<Rightarrow> 'c jitter" where
  "jitterReset sequence timestamp ssrc now j =
    stats (\<lambda>s. s\<lparr>rs_delayMillis := word_of_int (rtpPlayoutDelay div millis 1)\<rparr>)
     (j\<lparr>jt_present := (\<lambda>_. False),
        jt_compressed := map_option (\<lambda>c. c\<lparr>po_packets := (\<lambda>_. None)\<rparr>) (jt_compressed j),
        jt_jump := noJump, jt_initialized := True, jt_playing := False,
        jt_sequence := sequence, jt_seen := 0, jt_ssrc := ssrc,
        jt_cursor := timestamp, jt_nextAt := now + rtpPlayoutDelay, jt_lastAt := now,
        jt_delay := rtpPlayoutDelay, jt_lateCount := 0, jt_holdFrames := 0,
        jt_pcm := newConcealer, jt_quietFrames := 0, jt_stableAt := now, jt_reducedAt := now\<rparr>)"

definition noteLate :: "time \<Rightarrow> 'c jitter \<Rightarrow> 'c jitter" where
  "noteLate now j0 =
    (let j = j0\<lparr>jt_stableAt := now\<rparr> in
     if \<not> jt_playing j \<or> jt_delay j \<ge> rtpMaxDelay then j
     else if jt_lateCount j = 0 \<or> timeSub now (jt_lateSince j) > millis 500 then j\<lparr>jt_lateSince := now, jt_lateCount := 1\<rparr>
     else
       let j = j\<lparr>jt_lateCount := jt_lateCount j + 1\<rparr> in
       if jt_lateCount j = 3 then
         let j = j\<lparr>jt_holdFrames := jt_holdFrames j + 1, jt_delay := jt_delay j + rtpFrameTime, jt_lateCount := 0\<rparr>
         in stats (\<lambda>s. s\<lparr>rs_adjustments := rs_adjustments s + 1, rs_delayMillis := word_of_int (jt_delay j div millis 1)\<rparr>) j
       else j)"

definition remember :: "16 word \<Rightarrow> int \<Rightarrow> 'c jitter \<Rightarrow> 'c jitter" where
  "remember sequence delta j =
    (if delta > 0 then j\<lparr>jt_seen := push_bit (nat delta) (jt_seen j) OR 1, jt_sequence := sequence\<rparr>
     else j\<lparr>jt_seen := jt_seen j OR push_bit (nat (- delta)) 1\<rparr>)"

definition skipStale :: "time \<Rightarrow> 'c jitter \<Rightarrow> 'c jitter" where
  "skipStale now j =
    (let lag = timeSub now (jt_nextAt j) in
     if lag > rtpMaxLate then
       let frames = (lag - rtpMaxLate) div rtpFrameTime in
       stats (\<lambda>s. s\<lparr>rs_skipped := rs_skipped s + word_of_int (frames * 160)\<rparr>)
         (j\<lparr>jt_cursor := jt_cursor j + word_of_int (frames * 160), jt_nextAt := jt_nextAt j + frames * rtpFrameTime,
            jt_pcm := newConcealer, jt_quietFrames := 0, jt_stableAt := now\<rparr>)
     else j)"

subsection \<open>Push\<close>

text \<open>
  The mapping of a compressed packet's RTP timestamp to the 8 kHz clock: None when the packet is
  rejected, otherwise the mapped timestamp and whether it was adjusted. A zero divisor is a panic.
\<close>

definition mapTimestamp :: "'c jitter \<Rightarrow> compressed_packet \<Rightarrow> 32 word \<Rightarrow> (unit, (32 word \<times> bool) option) res" where
  "mapTimestamp j packet timestamp =
    (case jt_compressed j of
       None \<Rightarrow> Inr None
     | Some c \<Rightarrow>
         if po_scale c = 0 \<or> po_quantum c \<le> 0 then Inr None
         else
           let scale = po_scale c; quantum = po_quantum c;
               delta = sint (timestamp - po_rtpAnchor c);
               grid32 = sint (scale * word_of_int quantum) in
           if jt_initialized j \<and> grid32 = 0 then Inl Panic
           else if jt_initialized j \<and> delta smod grid32 \<noteq> 0 \<and> \<not> cp_amr packet then Inr None
           else
             let grid = signed_take_bit 63 (uint scale * quantum);
                 remainder = delta smod grid;
                 frames = delta sdiv grid + (if remainder \<ge> grid sdiv 2 then 1 else if remainder \<le> (- grid) sdiv 2 then - 1 else 0);
                 adjusted = jt_initialized j \<and> delta smod grid32 \<noteq> 0 in
             if adjusted \<and> grid = 0 then Inl Panic
             else
               let delta = (if adjusted then int32 (frames * grid) else delta);
                   mapped = po_pcmAnchor c + word_of_int (delta sdiv sint scale)
               in Inr (Some (if jt_initialized j then mapped else 0, adjusted)))"

text \<open>The stamps \<open>timestamp + i\<close> for \<open>i\<close> from \<open>lo\<close> up to the size.\<close>

definition stampsFrom :: "32 word \<Rightarrow> int \<Rightarrow> int \<Rightarrow> (int \<times> 32 word) list" where
  "stampsFrom timestamp lo size' = map (\<lambda>i. (i, timestamp + word_of_int i)) [lo..size' - 1]"

definition storeSample :: "int list \<Rightarrow> nat option \<Rightarrow> int \<times> 32 word \<Rightarrow> 'c jitter \<Rightarrow> 'c jitter" where
  "storeSample samples address = (\<lambda>(i, stamp) j.
    if held j stamp then j
    else
      let j = j\<lparr>jt_stamps := (jt_stamps j)(slot stamp := stamp), jt_present := (jt_present j)(slot stamp := True)\<rparr> in
      case address of
        Some a \<Rightarrow> j\<lparr>jt_compressed := map_option (\<lambda>c. c\<lparr>po_packets := (po_packets c)(slot stamp := Some a)\<rparr>) (jt_compressed j)\<rparr>
      | None \<Rightarrow> j\<lparr>jt_samples := (jt_samples j)(slot stamp := samples ! nat i)\<rparr>)"

text \<open>The window check: go on with the new difference and offset, or reject.\<close>

definition checkWindow ::
  "16 word \<Rightarrow> 32 word \<Rightarrow> 32 word \<Rightarrow> int \<Rightarrow> bool \<Rightarrow> time \<Rightarrow> int \<Rightarrow> int \<Rightarrow> 'c jitter \<Rightarrow> 'c jitter \<times> (int \<times> int) option" where
  "checkWindow sequence timestamp ssrc size' compressed now delta offset j =
    (if offset + size' \<le> 0 \<or> offset + size' > rtpSampleWindow \<or> (compressed \<and> offset < 0) then
       let long = timeSub now (jt_lastAt j) \<ge> millis 1000;
           (j, jumped) = (if delta > 0 \<and> \<not> long \<and> offset > rtpSampleWindow then forwardJump sequence timestamp size' now j else (j, False)) in
       if delta > 0 \<and> (long \<or> jumped) then
         (stats (\<lambda>s. s\<lparr>rs_resets := rs_resets s + 1\<rparr>) (jitterReset sequence timestamp ssrc now j), Some (0, 0))
       else if offset < 0 then
         (noteLate now (remember sequence delta (stats (\<lambda>s. s\<lparr>rs_late := rs_late s + 1\<rparr>) j)), None)
       else ((stats (\<lambda>s. s\<lparr>rs_outside := rs_outside s + 1\<rparr>) j)\<lparr>jt_stableAt := now\<rparr>, None)
     else (j, Some (delta, offset)))"

definition acceptAudio ::
  "16 word \<Rightarrow> 32 word \<Rightarrow> int \<Rightarrow> int list \<Rightarrow> compressed_packet option \<Rightarrow> bool \<Rightarrow> time \<Rightarrow> int \<Rightarrow> int \<Rightarrow> 'c jitter \<Rightarrow> 'c jitter \<times> bool" where
  "acceptAudio sequence timestamp size' samples packet adjusted now delta offset j =
    (if packet \<noteq> None \<and> (\<exists>(i, stamp) \<in> set (stampsFrom timestamp 0 size'). held j stamp) then (j, False)
     else
       let address = map_option (\<lambda>_. jt_nextPacket j) packet;
           j = (case packet of
                  None \<Rightarrow> j
                | Some p \<Rightarrow>
                    let j = j\<lparr>jt_heap := (jt_heap j)(jt_nextPacket j := p), jt_nextPacket := jt_nextPacket j + 1,
                              jt_compressed := map_option (\<lambda>c. c\<lparr>po_rtpAnchor := cp_rtp p, po_pcmAnchor := timestamp\<rparr>) (jt_compressed j)\<rparr>
                    in if adjusted then stats (\<lambda>s. s\<lparr>rs_timestamps := rs_timestamps s + 1\<rparr>) j else j);
           j = remember sequence delta j;
           j = (if delta < 0 then stats (\<lambda>s. s\<lparr>rs_reordered := rs_reordered s + 1\<rparr>) j else j);
           j = (if offset < 0 then noteLate now (stats (\<lambda>s. s\<lparr>rs_late := rs_late s + 1\<rparr>) j) else j);
           j = fold (storeSample samples address) (stampsFrom timestamp (max 0 (- offset)) size') j
       in (j\<lparr>jt_lastAt := now, jt_jump := noJump\<rparr>, True))"

definition orderAudio ::
  "16 word \<Rightarrow> 32 word \<Rightarrow> 32 word \<Rightarrow> int \<Rightarrow> int list \<Rightarrow> compressed_packet option \<Rightarrow> bool \<Rightarrow> time \<Rightarrow> 'c jitter \<Rightarrow> 'c jitter \<times> bool" where
  "orderAudio sequence timestamp ssrc size' samples packet adjusted now j0 =
    (if jt_initialized j0 \<and> ssrc \<noteq> jt_ssrc j0 then (stats (\<lambda>s. s\<lparr>rs_foreign := rs_foreign s + 1\<rparr>) j0, False)
     else
       let j = skipStale now (if jt_initialized j0 then j0 else jitterReset sequence timestamp ssrc now j0);
           delta = sint (sequence - jt_sequence j) in
       if delta \<le> - 64 then (stats (\<lambda>s. s\<lparr>rs_late := rs_late s + 1\<rparr>) j, False)
       else if delta \<le> 0 \<and> bit (jt_seen j) (nat (- delta)) then (stats (\<lambda>s. s\<lparr>rs_duplicates := rs_duplicates s + 1\<rparr>) j, False)
       else
         let offset = sint (timestamp - jt_cursor j);
             early = offset < 0 \<and> offset \<ge> - 480 \<and> delta < 0 \<and> \<not> jt_playing j \<and> now < jt_nextAt j;
             j = (if early then j\<lparr>jt_cursor := timestamp\<rparr> else j);
             offset = (if early then 0 else offset) in
         case checkWindow sequence timestamp ssrc size' (packet \<noteq> None) now delta offset j of
           (j, None) \<Rightarrow> (j, False)
         | (j, Some (delta, offset)) \<Rightarrow> acceptAudio sequence timestamp size' samples packet adjusted now delta offset j)"

definition pushAudio ::
  "16 word \<Rightarrow> 32 word \<Rightarrow> 32 word \<Rightarrow> int list \<Rightarrow> compressed_packet option \<Rightarrow> time \<Rightarrow> 'c jitter \<Rightarrow> (unit, 'c jitter \<times> bool) res" where
  "pushAudio sequence timestamp ssrc samples packet now j =
    (let size' = (case packet of None \<Rightarrow> int (length samples) | Some p \<Rightarrow> cp_size p) in
     if size' = 0 \<or> size' > 1600 then Inr (j, False)
     else
       let j = stats (\<lambda>s. s\<lparr>rs_packets := rs_packets s + 1\<rparr>) j in
       case packet of
         None \<Rightarrow> Inr (orderAudio sequence timestamp ssrc size' samples None False now j)
       | Some p \<Rightarrow>
           rbind (mapTimestamp j p timestamp) (\<lambda>mapped.
             case mapped of
               None \<Rightarrow> Inr (j, False)
             | Some (timestamp', adjusted) \<Rightarrow>
                 Inr (orderAudio sequence timestamp' ssrc size' samples
                        (Some (p\<lparr>cp_rtp := timestamp, cp_start := timestamp'\<rparr>)) adjusted now j)))"

definition jitterPush :: "16 word \<Rightarrow> 32 word \<Rightarrow> 32 word \<Rightarrow> int list \<Rightarrow> time \<Rightarrow> 'c jitter \<Rightarrow> (unit, 'c jitter \<times> bool) res" where
  "jitterPush sequence timestamp ssrc samples now j = pushAudio sequence timestamp ssrc samples None now j"

subsection \<open>Pop\<close>

text \<open>A \<open>decode\<close> function of rtp_compressed.go: its state, the data or nil, the samples wanted; it says whether it failed.\<close>

type_synonym 'c decoder = "'c \<Rightarrow> byte list option \<Rightarrow> int \<Rightarrow> 'c \<times> bool \<times> int list"

definition addMissing :: "int \<Rightarrow> 'c jitter \<Rightarrow> 'c jitter" where
  "addMissing count = stats (\<lambda>s. s\<lparr>rs_missing := rs_missing s + word_of_int count\<rparr>)"

text \<open>One call of the decoder, with its failure counted.\<close>

definition callDecoder :: "'c decoder \<Rightarrow> byte list option \<Rightarrow> int \<Rightarrow> 'c jitter \<Rightarrow> 'c jitter \<times> bool \<times> int list" where
  "callDecoder decode data count j =
    (case jt_compressed j of
       None \<Rightarrow> (j, True, [])
     | Some c \<Rightarrow> (case decode (po_codec c) data count of (codec, failed, pcm) \<Rightarrow> (j\<lparr>jt_compressed := Some (c\<lparr>po_codec := codec\<rparr>)\<rparr>, failed, pcm)))"

abbreviation countDecodeError :: "'c jitter \<Rightarrow> 'c jitter" where
  "countDecodeError j \<equiv> stats (\<lambda>s. s\<lparr>rs_decodeErrors := rs_decodeErrors s + 1\<rparr>) j"

text \<open>The length of a gap: chunks are added until one is held or the frame ends.\<close>

partial_function (option) gapLength :: "'c jitter \<Rightarrow> 32 word \<Rightarrow> int \<Rightarrow> int \<Rightarrow> int \<Rightarrow> int option" where
  "gapLength j stamp quantum pos count =
    (if pos + count < 160 \<and> \<not> held j (stamp + word_of_int count)
     then gapLength j stamp quantum pos (count + quantum) else Some count)"

text \<open>\<open>copy(out[pos:pos+count], pcm)\<close>.\<close>

definition copySamples :: "int list \<Rightarrow> int \<Rightarrow> int \<Rightarrow> int list \<Rightarrow> (unit, int list) res" where
  "copySamples out pos count pcm =
    (if pos < 0 \<or> count < 0 \<or> pos + count > int (length out) then Inl Panic
     else let new = take (nat count) pcm in Inr (take (nat pos) out @ new @ drop (nat pos + length new) out))"

definition clearChunk :: "int \<Rightarrow> int \<Rightarrow> 'c jitter \<Rightarrow> 'c jitter" where
  "clearChunk pos count j =
    fold (\<lambda>i j. let k = slot (jt_cursor j + word_of_int i) in
      j\<lparr>jt_present := (jt_present j)(k := False),
        jt_compressed := map_option (\<lambda>c. c\<lparr>po_packets := (po_packets c)(k := None)\<rparr>) (jt_compressed j)\<rparr>)
     [pos..pos + count - 1] j"

text \<open>A packet is decoded when the playout first reaches it; a failure is concealed.\<close>

definition decodePacket :: "'c decoder \<Rightarrow> nat \<Rightarrow> 'c jitter \<Rightarrow> 'c jitter \<times> compressed_packet" where
  "decodePacket decode a j =
    (let p = jt_heap j a in
     if cp_decoded p then (j, p)
     else
       let (j, failed, pcm) = callDecoder decode (cp_data p) (cp_size p) j;
           (j, pcm) = (if failed then case callDecoder decode None (cp_size p) (countDecodeError j) of (j, _, pcm) \<Rightarrow> (j, pcm) else (j, pcm));
           p = p\<lparr>cp_decoded := True, cp_pcm := pcm, cp_data := None\<rparr>
       in (j\<lparr>jt_heap := (jt_heap j)(a := p)\<rparr>, p))"

text \<open>One turn of the loop: the chunk at \<open>pos\<close>, with the samples it took.\<close>

definition popChunk :: "'c decoder \<Rightarrow> int \<Rightarrow> int list \<Rightarrow> 'c jitter \<Rightarrow> (unit, 'c jitter \<times> int list \<times> int) res option" where
  "popChunk decode pos out j =
    (case jt_compressed j of
       None \<Rightarrow> Some (Inl Panic)
     | Some c \<Rightarrow>
         let quantum = po_quantum c;
             stamp = jt_cursor j + word_of_int pos in
         case (if held j stamp then po_packets c (slot stamp) else None) of
           None \<Rightarrow>
             (case gapLength j stamp quantum pos quantum of
                None \<Rightarrow> None
              | Some count \<Rightarrow>
                  let (j, failed, pcm) = callDecoder decode None count j;
                      j = (if failed then countDecodeError j else j) in
                  Some (rbind (copySamples out pos count pcm) (\<lambda>out. Inr (clearChunk pos count (addMissing count j), out, count))))
         | Some a \<Rightarrow>
             let (j, p) = decodePacket decode a j;
                 offset = uint (stamp - cp_start p);
                 count = min (160 - pos) (cp_size p - offset);
                 count = (if count \<le> 0 then quantum else count) in
             if offset + count \<le> int (length (cp_pcm p)) then
               Some (rbind (copySamples out pos count (take (nat count) (drop (nat offset) (cp_pcm p)))) (\<lambda>out.
                 Inr (clearChunk pos count j, out, count)))
             else Some (Inr (clearChunk pos count (addMissing count j), out, count)))"

partial_function (option) popCompressed :: "'c decoder \<Rightarrow> int \<Rightarrow> int list \<Rightarrow> 'c jitter \<Rightarrow> (unit, 'c jitter \<times> int list) res option" where
  "popCompressed decode pos out j =
    (if pos < 160 then
       Option.bind (popChunk decode pos out j) (\<lambda>r.
         case r of Inl f \<Rightarrow> Some (Inl f) | Inr (j, out, count) \<Rightarrow> popCompressed decode (pos + count) out j)
     else Some (Inr (j, out)))"

text \<open>The sample of an uncompressed frame at \<open>i\<close>, with the frame still quiet or not.\<close>

definition quietSample :: "int \<Rightarrow> bool" where
  "quietSample v \<longleftrightarrow> - 32 \<le> v \<and> v \<le> 32"

fun popSamples :: "'f pitch_score \<Rightarrow> nat list \<Rightarrow> bool \<Rightarrow> 'c jitter \<Rightarrow> 'c jitter \<times> bool \<times> int list" where
  "popSamples ps [] quiet j = (j, quiet, [])"
| "popSamples ps (i # is) quiet j =
    (let stamp = jt_cursor j + word_of_nat i;
         v = jt_samples j (slot stamp);
         (j, quiet, out) =
           (if held j stamp then
              let (pcm, out) = concealSample ps v True (jt_pcm j)
              in (j\<lparr>jt_pcm := pcm, jt_present := (jt_present j)(slot stamp := False)\<rparr>, quiet \<and> quietSample v, out)
            else
              let (pcm, out) = concealSample ps 0 False (jt_pcm j)
              in (addMissing 1 (j\<lparr>jt_pcm := pcm\<rparr>), False, out));
         (j, quiet, outs) = popSamples ps is quiet j
     in (j, quiet, out # outs))"

definition reduceQuietReserve :: "time \<Rightarrow> 'c jitter \<Rightarrow> 'c jitter" where
  "reduceQuietReserve now j =
    (if jt_delay j \<le> rtpPlayoutDelay \<or> jt_quietFrames j < 10 \<or> timeSub now (jt_stableAt j) < millis 5000 \<or>
        timeSub now (jt_reducedAt j) < millis 1000 then j
     else if \<exists>i \<in> set [0..<160]. let stamp = jt_cursor j + word_of_nat i in \<not> held j stamp \<or> \<not> quietSample (jt_samples j (slot stamp)) then j
     else
       let j = fold (\<lambda>i j. j\<lparr>jt_present := (jt_present j)(slot (jt_cursor j + word_of_nat i) := False)\<rparr>) [0..<160] j;
           j = j\<lparr>jt_cursor := jt_cursor j + 160, jt_delay := jt_delay j - rtpFrameTime, jt_reducedAt := now\<rparr>
       in stats (\<lambda>s. s\<lparr>rs_reductions := rs_reductions s + 1, rs_delayMillis := word_of_int (jt_delay j div millis 1)\<rparr>) j)"

text \<open>The end of a frame that was played.\<close>

definition framePlayed :: "time \<Rightarrow> bool \<Rightarrow> 'c jitter \<Rightarrow> 'c jitter" where
  "framePlayed now quiet j =
    reduceQuietReserve now
     (j\<lparr>jt_playing := True, jt_cursor := jt_cursor j + 160, jt_nextAt := jt_nextAt j + rtpFrameTime,
        jt_quietFrames := (if quiet then jt_quietFrames j + 1 else 0)\<rparr>)"

definition popHold :: "'f pitch_score \<Rightarrow> 'c jitter \<Rightarrow> 'c jitter \<times> int list" where
  "popHold ps j0 =
    (let j = stats (\<lambda>s. s\<lparr>rs_rebuffer := rs_rebuffer s + 160\<rparr>)
               (j0\<lparr>jt_quietFrames := 0, jt_holdFrames := jt_holdFrames j0 - 1, jt_nextAt := jt_nextAt j0 + rtpFrameTime\<rparr>) in
     if jt_compressed j = None
     then let (pcm, out) = concealAll ps (replicate rtpPacketSamples (0, False)) (jt_pcm j) in (j\<lparr>jt_pcm := pcm\<rparr>, out)
     else (j, replicate rtpPacketSamples 0))"

text \<open>\<open>pop\<close>: nil with the time to wait, or a frame.\<close>

definition pop :: "'f pitch_score \<Rightarrow> 'c decoder \<Rightarrow> time \<Rightarrow> 'c jitter \<Rightarrow> (unit, 'c jitter \<times> int list option \<times> int) res option" where
  "pop ps decode now j0 =
    (if \<not> jt_initialized j0 then Some (Inr (j0, None, 0))
     else
       let j = skipStale now j0;
           wait = timeSub (jt_nextAt j) now in
       if wait > 0 then Some (Inr (j, None, wait))
       else if jt_holdFrames j > 0 then (case popHold ps j of (j, out) \<Rightarrow> Some (Inr (j, Some out, 0)))
       else if jt_compressed j \<noteq> None then
         (case popCompressed decode 0 (replicate rtpPacketSamples 0) j of
            None \<Rightarrow> None
          | Some r \<Rightarrow> Some (rbind r (\<lambda>(j, out). Inr (framePlayed now False j, Some out, 0))))
       else (case popSamples ps [0..<160] True j of (j, quiet, out) \<Rightarrow> Some (Inr (framePlayed now quiet j, Some out, 0))))"

definition snapshot :: "'c jitter \<Rightarrow> receive_stats" where
  "snapshot j = jt_stats j"

subsection \<open>Compressed packets\<close>

text \<open>\<open>opusSamples\<close>: the library's count, None when it is not loaded.\<close>

definition opusSamples :: "(byte list \<Rightarrow> int) option \<Rightarrow> byte list \<Rightarrow> int" where
  "opusSamples packetSamples data =
    (case packetSamples of
       None \<Rightarrow> 0
     | Some count \<Rightarrow>
         if data = [] \<or> length data > 1275 then 0
         else let n = count data in if n < 20 \<or> n > 960 \<or> n mod 20 \<noteq> 0 then 0 else n)"

text \<open>\<open>append([]byte(nil), data...)\<close> is nil when the data is empty.\<close>

definition packetData :: "byte list \<Rightarrow> byte list option" where
  "packetData data = (if data = [] then None else Some data)"

definition pushOpus ::
  "(byte list \<Rightarrow> int) option \<Rightarrow> 16 word \<Rightarrow> 32 word \<Rightarrow> 32 word \<Rightarrow> byte list \<Rightarrow> time \<Rightarrow> 'c jitter \<Rightarrow> (unit, 'c jitter \<times> bool) res" where
  "pushOpus packetSamples sequence timestamp ssrc data now j =
    (let n = opusSamples packetSamples data in
     if n = 0 then Inr (j, False)
     else pushAudio sequence timestamp ssrc [] (Some (noPacket\<lparr>cp_size := n, cp_data := packetData data\<rparr>)) now j)"

text \<open>
  The options of an AMR codec the jitter reads. The mode request that follows an accepted packet goes to
  the codec: it is the second result, None when there is none.
\<close>

record amr_options =
  ao_wide :: bool
  ao_octet :: bool
  ao_modes :: "16 word"

definition allowedModes :: "amr_options \<Rightarrow> amr_frame list \<Rightarrow> bool" where
  "allowedModes options frames \<longleftrightarrow>
    (\<forall>f \<in> set frames. frameKind f \<le> (if ao_wide options then 8 else 7) \<longrightarrow> ao_modes options AND push_bit (frameKind f) 1 \<noteq> 0)"

definition pushAMR ::
  "16 word \<Rightarrow> 32 word \<Rightarrow> 32 word \<Rightarrow> byte list \<Rightarrow> amr_options \<Rightarrow> time \<Rightarrow> 'c jitter \<Rightarrow> (unit, ('c jitter \<times> bool) \<times> int option) res" where
  "pushAMR sequence timestamp ssrc data options now j =
    (case amrParse data (ao_wide options) (ao_octet options) of
       Inl Panic \<Rightarrow> Inl Panic
     | Inl (Fail _) \<Rightarrow> Inr ((j, False), None)
     | Inr p \<Rightarrow>
         if \<not> allowedModes options (ap_frames p) then Inr ((j, False), None)
         else
           rbind (pushAudio sequence timestamp ssrc []
             (Some (noPacket\<lparr>cp_size := int (length (ap_frames p)) * 160, cp_data := packetData data, cp_amr := True\<rparr>)) now j) (\<lambda>(j, accepted).
             Inr ((j, accepted), if accepted \<and> jt_sequence j = sequence then Some (ap_cmr p) else None)))"

end
