(* ===== verification/Jitter_Props.thy ===== *)
theory Jitter_Props
  imports Jitter
begin

text \<open>
  What the playout buffer of Jitter guarantees over whole runs of pushes, pops and renegotiations: no packet
  of a stream is accepted twice, streams start only where they may, and the reserve stays between 60 and
  180 ms.
\<close>

subsection \<open>Runs\<close>

text \<open>
  The renegotiation in \<open>configureRemote\<close> of rtp_media.go. It does not change the codec of the playout: a
  codec is created only when none was negotiated before (a later change to, from or within Opus or AMR is
  an error), and no packet is received until then, so the codec is the argument of \<open>newJitter\<close>.
\<close>

definition jitterRestart :: "'c jitter \<Rightarrow> 'c jitter" where
  "jitterRestart j =
    stats (\<lambda>s. s\<lparr>rs_resets := rs_resets s + 1\<rparr>)
     (j\<lparr>jt_initialized := False, jt_playing := False, jt_present := (\<lambda>_. False),
        jt_compressed := map_option (\<lambda>c. c\<lparr>po_packets := (\<lambda>_. None)\<rparr>) (jt_compressed j)\<rparr>)"

text \<open>What the session calls, the reader and the receiver in any order (the mutex serialises them).\<close>

datatype event =
    Push "16 word" "32 word" "32 word" "int list" "compressed_packet option" time
  | Pop time
  | Restart

text \<open>What a step returns: accepted or not, a frame or a wait.\<close>

datatype outcome = Pushed bool | Played "int list option" int | Restarted

definition jitterStep ::
  "'f pitch_score \<Rightarrow> 'c decoder \<Rightarrow> event \<Rightarrow> 'c jitter \<Rightarrow> (unit, 'c jitter \<times> outcome) res option" where
  "jitterStep ps decode e j =
    (case e of
       Push sequence timestamp ssrc samples packet now \<Rightarrow>
         Some (rbind (pushAudio sequence timestamp ssrc samples packet now j) (\<lambda>(j, accepted). Inr (j, Pushed accepted)))
     | Pop now \<Rightarrow> map_option (\<lambda>r. rbind r (\<lambda>(j, out, wait). Inr (j, Played out wait))) (pop ps decode now j)
     | Restart \<Rightarrow> Some (Inr (jitterRestart j, Restarted)))"

subsection \<open>The fields the playout of a frame leaves alone\<close>

definition core :: "'c jitter \<Rightarrow> (bool \<times> bool \<times> 16 word \<times> 64 word \<times> 32 word) \<times> (int \<times> int \<times> int \<times> 32 word \<times> 64 word) \<times> time \<times> 32 word" where
  "core j = ((jt_initialized j, jt_playing j, jt_sequence j, jt_seen j, jt_ssrc j),
     (jt_delay j, jt_holdFrames j, jt_lateCount j, rs_delayMillis (jt_stats j), rs_resets (jt_stats j)), jt_nextAt j, jt_cursor j)"

lemma core_addMissing [simp]: "core (addMissing n j) = core j"
  by (simp add: core_def addMissing_def)

lemma core_updates [simp]:
  "core (j\<lparr>jt_compressed := c\<rparr>) = core j" "core (j\<lparr>jt_heap := h\<rparr>) = core j" "core (j\<lparr>jt_present := p\<rparr>) = core j"
  "core (j\<lparr>jt_pcm := q\<rparr>) = core j" "core (countDecodeError j) = core j"
  "core (j\<lparr>jt_present := p, jt_compressed := c\<rparr>) = core j" "core (j\<lparr>jt_pcm := q, jt_present := p\<rparr>) = core j"
  by (simp_all add: core_def)

lemma core_clearChunk [simp]: "core (clearChunk pos count j) = core j"
proof -
  have "core (fold (\<lambda>i j. let k = slot (jt_cursor j + word_of_int i) in
      j\<lparr>jt_present := (jt_present j)(k := False),
        jt_compressed := map_option (\<lambda>c. c\<lparr>po_packets := (po_packets c)(k := None)\<rparr>) (jt_compressed j)\<rparr>) is j) = core j" for "is"
    by (induction "is" arbitrary: j) (simp_all add: Let_def)
  then show ?thesis by (simp add: clearChunk_def)
qed

lemma core_callDecoder [simp]: "core (fst (callDecoder decode data count j)) = core j"
  by (simp add: callDecoder_def split: option.split prod.split)

lemma core_decodePacket [simp]: "core (fst (decodePacket decode a j)) = core j"
  using core_callDecoder[of decode "cp_data (jt_heap j a)" "cp_size (jt_heap j a)" j]
    core_callDecoder[of decode None "cp_size (jt_heap j a)"]
  by (auto simp: decodePacket_def Let_def split_beta)

lemma core_popChunk:
  assumes "popChunk decode pos out j = Some (Inr (j', out', count))"
  shows "core j' = core j"
proof -
  obtain c where c: "jt_compressed j = Some c" using assms by (cases "jt_compressed j") (auto simp: popChunk_def)
  show ?thesis
  proof (cases "if held j (jt_cursor j + word_of_int pos) then po_packets c (slot (jt_cursor j + word_of_int pos)) else None")
    case None
    then show ?thesis using assms
      by (auto simp: popChunk_def c Let_def rbind_Inr_iff split_beta split: option.splits)
  next
    case (Some a)
    then show ?thesis using assms
      by (auto simp: popChunk_def c Let_def rbind_Inr_iff split_beta split: if_splits)
  qed
qed

lemma core_popCompressed':
  "popCompressed decode pos out j = Some r \<Longrightarrow> \<forall>j' out'. r = Inr (j', out') \<longrightarrow> core j' = core j"
proof (erule popCompressed.raw_induct[rotated])
  fix go and decode :: "'a decoder" and pos out and j :: "'a jitter" and r :: "(unit, 'a jitter \<times> int list) res"
  assume 1: "\<And>decode pos out j r. go decode pos out j = Some r \<Longrightarrow> \<forall>j' out'. r = Inr (j', out') \<longrightarrow> core j' = core (j :: 'a jitter)"
    "(if pos < 160 then
       Option.bind (popChunk decode pos out j) (\<lambda>r. case r of Inl f \<Rightarrow> Some (Inl f) | Inr (j, out, count) \<Rightarrow> go decode (pos + count) out j)
     else Some (Inr (j, out))) = Some r"
  show "\<forall>j' out'. r = Inr (j', out') \<longrightarrow> core j' = core j"
  proof (cases "pos < 160")
    case True
    then obtain s where s: "popChunk decode pos out j = Some s" using 1(2) by (cases "popChunk decode pos out j") auto
    show ?thesis
    proof (cases s)
      case (Inr x)
      obtain j1 out1 count where x: "x = (j1, out1, count)" by (cases x)
      have "go decode (pos + count) out1 j1 = Some r" using 1(2) True s Inr x by simp
      then show ?thesis using 1(1) core_popChunk[of decode pos out j j1 out1 count] s Inr x by metis
    qed (use 1(2) True s in auto)
  qed (use 1(2) in auto)
qed

lemmas core_popCompressed = core_popCompressed'[rule_format]

lemma core_popSamples: "core (fst (popSamples ps is quiet j)) = core j"
  by (induction "is" arbitrary: quiet j) (auto simp: Let_def split_beta)


lemma skipStale_fields [simp]:
  "jt_initialized (skipStale now j) = jt_initialized j" "jt_playing (skipStale now j) = jt_playing j"
  "jt_sequence (skipStale now j) = jt_sequence j" "jt_seen (skipStale now j) = jt_seen j" "jt_ssrc (skipStale now j) = jt_ssrc j"
  "jt_delay (skipStale now j) = jt_delay j" "jt_holdFrames (skipStale now j) = jt_holdFrames j"
  "jt_lateCount (skipStale now j) = jt_lateCount j" "rs_delayMillis (jt_stats (skipStale now j)) = rs_delayMillis (jt_stats j)"
  "rs_resets (jt_stats (skipStale now j)) = rs_resets (jt_stats j)" "jt_compressed (skipStale now j) = jt_compressed j"
  by (simp_all add: skipStale_def Let_def)

lemma core_popHold:
  "core (fst (popHold ps j)) =
    core (j\<lparr>jt_holdFrames := jt_holdFrames j - 1, jt_nextAt := jt_nextAt j + rtpFrameTime\<rparr>)"
  by (auto simp: popHold_def Let_def core_def split_beta)

lemma pop_cases:
  assumes "pop ps decode now j = Some (Inr (j', out, wait))"
  obtains (idle) "\<not> jt_initialized j" "j' = j" "out = None" "wait = 0"
  | (early) "jt_initialized j" "j' = skipStale now j" "out = None" "wait > 0"
  | (hold) xs where "jt_initialized j" "jt_holdFrames j > 0" "popHold ps (skipStale now j) = (j', xs)" "out = Some xs" "wait = 0"
  | (played) j2 quiet xs where "jt_initialized j" "\<not> jt_holdFrames j > 0" "core j2 = core (skipStale now j)"
      "j' = framePlayed now quiet j2" "out = Some xs" "wait = 0"
proof (cases "jt_initialized j")
  case init: True
  let ?k = "skipStale now j"
  show ?thesis
  proof (cases "timeSub (jt_nextAt ?k) now > 0")
    case False
    show ?thesis
    proof (cases "jt_holdFrames j > 0")
      case True
      then show ?thesis using assms init False that(3) by (auto simp: pop_def Let_def split: prod.splits)
    next
      case h: False
      show ?thesis
      proof (cases "jt_compressed j")
        case None
        then show ?thesis using assms init False h that(4)[OF init h core_popSamples[of ps "[0..<160]" True ?k]]
          by (auto simp: pop_def Let_def split_beta)
      next
        case (Some c)
        then obtain j2 xs where "popCompressed decode 0 (replicate rtpPacketSamples 0) ?k = Some (Inr (j2, xs))"
            "j' = framePlayed now False j2" "out = Some xs" "wait = 0"
          using assms init False h by (auto simp: pop_def Let_def rbind_Inr_iff split: option.splits)
        then show ?thesis using init h that(4)[of j2 False xs] core_popCompressed by blast
      qed
    qed
  next
    case True
    then have "j' = ?k \<and> out = None \<and> wait = timeSub (jt_nextAt ?k) now" using assms init by (clarsimp simp: pop_def Let_def)
    then show ?thesis using True init that(2) by blast
  qed
next
  case False
  then have "j' = j \<and> out = None \<and> wait = 0" using assms by (simp add: pop_def)
  then show ?thesis using False that(1) by blast
qed

lemma fold_clear_keep:
  "(\<And>j p. f (j\<lparr>jt_present := p\<rparr>) = f j) \<Longrightarrow>
    f (fold (\<lambda>i j. j\<lparr>jt_present := (jt_present j)(slot (jt_cursor j + word_of_nat i) := False)\<rparr>) is j) = f j"
  by (induction "is" arbitrary: j) simp_all


subsection \<open>The reserve\<close>

text \<open>A started stream keeps between three and nine frames, published in milliseconds.\<close>

definition reserve_ok :: "'c jitter \<Rightarrow> bool" where
  "reserve_ok j \<longleftrightarrow> (jt_initialized j \<longrightarrow>
    (\<exists>k \<in> {3..9}. jt_delay j = k * rtpFrameTime \<and> rs_delayMillis (jt_stats j) = word_of_int (k * 20)) \<and>
    0 \<le> jt_holdFrames j \<and> 0 \<le> jt_lateCount j \<and> jt_lateCount j < 3)"

lemma reserve_ok_core: "core j' = core j \<Longrightarrow> reserve_ok j' = reserve_ok j"
  by (auto simp: core_def reserve_ok_def)

lemma reserve_ok_reset: "reserve_ok (jitterReset sequence timestamp ssrc now j)"
  by (auto simp: reserve_ok_def jitterReset_def intro!: bexI[of _ 3])

lemma reserve_ok_noteLate: "reserve_ok j \<Longrightarrow> reserve_ok (noteLate now j)"
proof -
  assume r: "reserve_ok j"
  have grow: "\<exists>k' \<in> {3..9}. jt_delay j + rtpFrameTime = k' * rtpFrameTime \<and> (word_of_int ((jt_delay j + rtpFrameTime) div 1000000) :: 32 word) = word_of_int (k' * 20)"
    if c: "jt_initialized j" "jt_delay j < rtpMaxDelay"
  proof -
    obtain k where k: "k \<in> {3..9}" "jt_delay j = k * rtpFrameTime" using r c(1) by (auto simp: reserve_ok_def)
    have "(jt_delay j + rtpFrameTime) div 1000000 = (k + 1) * 20" using k(2) by simp
    then show ?thesis using k c(2) by (intro bexI[of _ "k + 1"]) simp_all
  qed
  then show ?thesis using r by (auto simp: noteLate_def Let_def reserve_ok_def)
qed

lemma reserve_ok_framePlayed: "reserve_ok j \<Longrightarrow> reserve_ok (framePlayed now quiet j)"
proof -
  assume r: "reserve_ok j"
  have shrink: "\<exists>k' \<in> {3..9}. jt_delay j - rtpFrameTime = k' * rtpFrameTime \<and> (word_of_int ((jt_delay j - rtpFrameTime) div 1000000) :: 32 word) = word_of_int (k' * 20)"
    if c: "jt_initialized j" "jt_delay j > rtpPlayoutDelay"
  proof -
    obtain k where k: "k \<in> {3..9}" "jt_delay j = k * rtpFrameTime" using r c(1) by (auto simp: reserve_ok_def)
    have "(jt_delay j - rtpFrameTime) div 1000000 = (k - 1) * 20" using k(2) by simp
    then show ?thesis using k c(2) by (intro bexI[of _ "k - 1"]) simp_all
  qed
  then show ?thesis using r
    by (auto simp: framePlayed_def reduceQuietReserve_def Let_def reserve_ok_def fold_clear_keep)
qed

lemma core_storeSample [simp]: "core (storeSample samples address x j) = core j"
  by (cases x) (simp add: storeSample_def Let_def core_def split: option.split)

lemma core_store: "core (fold (storeSample samples address) xs j) = core j"
  by (induction xs arbitrary: j) simp_all

lemma core_stats:
  "core (stats (\<lambda>s. s\<lparr>rs_packets := f s\<rparr>) j) = core j" "core (stats (\<lambda>s. s\<lparr>rs_late := f s\<rparr>) j) = core j"
  "core (stats (\<lambda>s. s\<lparr>rs_reordered := f s\<rparr>) j) = core j" "core (stats (\<lambda>s. s\<lparr>rs_duplicates := f s\<rparr>) j) = core j"
  "core (stats (\<lambda>s. s\<lparr>rs_outside := f s\<rparr>) j) = core j" "core (stats (\<lambda>s. s\<lparr>rs_foreign := f s\<rparr>) j) = core j"
  "core (stats (\<lambda>s. s\<lparr>rs_timestamps := f s\<rparr>) j) = core j"
  "core (j\<lparr>jt_stableAt := t\<rparr>) = core j" "core (j\<lparr>jt_jump := u\<rparr>) = core j" "core (j\<lparr>jt_lastAt := t\<rparr>) = core j"
  "core (j\<lparr>jt_heap := h, jt_nextPacket := n, jt_compressed := c\<rparr>) = core j" "core (j\<lparr>jt_lastAt := t, jt_jump := u\<rparr>) = core j"
  by (simp_all add: core_def)

lemma core_forwardJump: "core (fst (forwardJump sequence timestamp size' now j)) = core j"
  by (simp add: forwardJump_def Let_def core_def)

text \<open>What a push does to the fields of \<open>core\<close>: it remembers the packet, and may note that it was late.\<close>

lemma reserve_ok_remember [simp]: "reserve_ok (remember sequence delta j) = reserve_ok j"
  by (simp add: remember_def reserve_ok_def)

lemma reserve_ok_stats [simp]:
  "rs_delayMillis s = rs_delayMillis (jt_stats j) \<Longrightarrow> reserve_ok (j\<lparr>jt_stats := s\<rparr>) = reserve_ok j"
  "reserve_ok (j\<lparr>jt_cursor := c\<rparr>) = reserve_ok j" "reserve_ok (j\<lparr>jt_stableAt := t\<rparr>) = reserve_ok j"
  "reserve_ok (j\<lparr>jt_lastAt := t\<rparr>) = reserve_ok j" "reserve_ok (j\<lparr>jt_jump := u\<rparr>) = reserve_ok j"
  "reserve_ok (j\<lparr>jt_heap := h\<rparr>) = reserve_ok j" "reserve_ok (j\<lparr>jt_nextPacket := n\<rparr>) = reserve_ok j"
  "reserve_ok (j\<lparr>jt_compressed := k\<rparr>) = reserve_ok j"
  by (simp_all add: reserve_ok_def)

lemma reserve_ok_skipStale [simp]: "reserve_ok (skipStale now j) = reserve_ok j"
  by (simp add: reserve_ok_def)

lemma reserve_ok_checkWindow:
  assumes "reserve_ok j"
  shows "reserve_ok (fst (checkWindow sequence timestamp ssrc size' compressed now delta offset j))"
proof -
  have "reserve_ok (fst (forwardJump sequence timestamp size' now j))"
    using assms reserve_ok_core[OF core_forwardJump] by blast
  then show ?thesis using assms
    by (simp add: checkWindow_def Let_def split_beta reserve_ok_reset reserve_ok_noteLate)
qed

lemma reserve_ok_acceptAudio:
  assumes "reserve_ok j"
  shows "reserve_ok (fst (acceptAudio sequence timestamp size' samples packet adjusted now delta offset j))"
proof -
  have store: "reserve_ok (fold (storeSample samples a) xs k) = reserve_ok k" for a xs and k :: "'a jitter"
    by (rule reserve_ok_core[OF core_store])
  show ?thesis
  proof (cases packet)
    case None
    then show ?thesis using assms by (simp add: acceptAudio_def Let_def store reserve_ok_noteLate)
  next
    case (Some p)
    have fin: "reserve_ok (fst (if c then (j, False) else (g, True)))" if "reserve_ok g" for c g using assms that by simp
    show ?thesis using assms unfolding acceptAudio_def Let_def Some option.case option.map
      by (intro fin) (simp add: store reserve_ok_noteLate)
  qed
qed

lemma reserve_ok_orderAudio:
  assumes "reserve_ok j"
  shows "reserve_ok (fst (orderAudio sequence timestamp ssrc size' samples packet adjusted now j))"
proof -
  define k where "k = skipStale now (if jt_initialized j then j else jitterReset sequence timestamp ssrc now j)"
  have k: "reserve_ok k" using assms by (simp add: k_def reserve_ok_reset)
  have go: "reserve_ok (fst (case checkWindow sequence timestamp ssrc size' c now delta offset l of
           (j, None) \<Rightarrow> (j, False)
         | (j, Some (delta, offset)) \<Rightarrow> acceptAudio sequence timestamp size' samples packet adjusted now delta offset j))"
    if "reserve_ok l" for l c delta offset
    using reserve_ok_checkWindow[OF that, of sequence timestamp ssrc size' c now delta offset]
    by (auto simp: reserve_ok_acceptAudio split: prod.split option.split)
  show ?thesis
    unfolding orderAudio_def k_def[symmetric] Let_def
    by (simp add: assms k go)
qed

lemma reserve_ok_step:
  assumes "reserve_ok j" and "jitterStep ps decode e j = Some (Inr (j', out))"
  shows "reserve_ok j'"
proof (cases e)
  case (Push sequence timestamp ssrc samples packet now)
  then obtain a where p: "pushAudio sequence timestamp ssrc samples packet now j = Inr (j', a)"
    using assms(2) by (auto simp: jitterStep_def rbind_Inr_iff)
  let ?j = "stats (\<lambda>s. s\<lparr>rs_packets := rs_packets s + 1\<rparr>) j"
  have "reserve_ok ?j" using assms(1) by simp
  from reserve_ok_orderAudio[OF this] have "\<And>s t z xs q b. reserve_ok (fst (orderAudio s t ssrc z xs q b now ?j))" .
  then show ?thesis using p assms(1) by (auto simp: pushAudio_def Let_def rbind_Inr_iff split: if_splits option.splits) (metis fst_conv)+
next
  case (Pop now)
  then obtain o1 w where "pop ps decode now j = Some (Inr (j', o1, w))"
    using assms(2) by (auto simp: jitterStep_def rbind_Inr_iff)
  then show ?thesis
  proof (cases rule: pop_cases)
    case (hold xs)
    have "reserve_ok (skipStale now j)" using assms(1) by simp
    then have "reserve_ok ((skipStale now j)\<lparr>jt_holdFrames := jt_holdFrames (skipStale now j) - 1, jt_nextAt := t\<rparr>)" for t
      using hold(1,2) by (simp add: reserve_ok_def)
    then show ?thesis using reserve_ok_core[OF core_popHold[of ps "skipStale now j"]] hold(3) by simp
  next
    case (played j2 quiet xs)
    then show ?thesis using assms(1) reserve_ok_core[OF played(3)] reserve_ok_framePlayed by simp
  qed (use assms(1) in simp_all)
qed (use assms in \<open>auto simp: jitterStep_def jitterRestart_def reserve_ok_def\<close>)

subsection \<open>Sequence numbers\<close>

text \<open>
  The observer of a run. It extends the sequence numbers of the current stream to integers: the newest is
  \<open>mo_top\<close>. Every accepted packet of the run is listed, with the number of the stream it belongs to, its
  extended number and the 16-bit number that came; nothing is ever removed. Each packet that starts a stream
  is kept in \<open>mo_starts\<close> with the state it met.
\<close>

record 'c observed =
  mo_jitter :: "'c jitter"
  mo_top :: int
  mo_accepted :: "(nat \<times> int \<times> 16 word) list"
  mo_starts :: "('c jitter \<times> event) list"
  mo_frames :: "int list list"

definition freshStream :: "'c jitter \<Rightarrow> 'c jitter \<Rightarrow> bool" where
  "freshStream before j \<longleftrightarrow>
    (\<not> jt_initialized before \<and> jt_initialized j) \<or> rs_resets (jt_stats j) \<noteq> rs_resets (jt_stats before)"


definition observe :: "event \<Rightarrow> outcome \<Rightarrow> 'c jitter \<Rightarrow> 'c observed \<Rightarrow> 'c observed" where
  "observe e out j m =
    (let before = mo_jitter m; fresh = freshStream before j; distance = (\<lambda>n. sint (n - jt_sequence before));
         starts = mo_starts m @ (if fresh then [(before, e)] else []) in
     case e of
       Push sequence _ _ _ _ _ \<Rightarrow>
         m\<lparr>mo_jitter := j,
           mo_top := (if fresh then 0 else mo_top m + distance (jt_sequence j)),
           mo_accepted := mo_accepted m @
             (if out = Pushed True then [(length starts, if fresh then 0 else mo_top m + distance sequence, sequence)] else []),
           mo_starts := starts\<rparr>
     | Pop _ \<Rightarrow> m\<lparr>mo_jitter := j, mo_frames := mo_frames m @ (case out of Played (Some xs) _ \<Rightarrow> [xs] | _ \<Rightarrow> [])\<rparr>
     | Restart \<Rightarrow> m\<lparr>mo_jitter := j\<rparr>)"

fun jitterRun :: "'f pitch_score \<Rightarrow> 'c decoder \<Rightarrow> event list \<Rightarrow> 'c observed \<Rightarrow> (unit, 'c observed) res option" where
  "jitterRun ps decode [] m = Some (Inr m)"
| "jitterRun ps decode (e # es) m =
    (case jitterStep ps decode e (mo_jitter m) of
       None \<Rightarrow> None
     | Some (Inl f) \<Rightarrow> Some (Inl f)
     | Some (Inr (j, out)) \<Rightarrow> jitterRun ps decode es (observe e out j m))"

definition observing :: "'c compressed_playout option \<Rightarrow> 'c observed" where
  "observing compressed = \<lparr>mo_jitter = newJitter compressed, mo_top = 0, mo_accepted = [], mo_starts = [], mo_frames = []\<rparr>"

lemma jitterRun_invariant:
  assumes "jitterRun ps decode es m = Some (Inr m')" and "P m"
    and "\<And>e m j out. P m \<Longrightarrow> e \<in> set es \<Longrightarrow> jitterStep ps decode e (mo_jitter m) = Some (Inr (j, out)) \<Longrightarrow> P (observe e out j m)"
  shows "P m'"
  using assms
proof (induction es arbitrary: m)
  case (Cons e es)
  obtain j out where step: "jitterStep ps decode e (mo_jitter m) = Some (Inr (j, out))"
    and run: "jitterRun ps decode es (observe e out j m) = Some (Inr m')"
    using Cons.prems(1) by (auto split: option.splits sum.splits)
  show ?case
  proof (rule Cons.IH[OF run])
    show "P (observe e out j m)" using Cons.prems(2,3) step by simp
    show "P (observe e' out' j' m')" if "P m'" "e' \<in> set es" "jitterStep ps decode e' (mo_jitter m') = Some (Inr (j', out'))" for e' m' j' out'
      using Cons.prems(3) that by simp
  qed
qed simp

lemma mo_jitter_observe [simp]: "mo_jitter (observe e out j m) = j"
  by (simp add: observe_def Let_def split: event.split)

text \<open>The fields the sequence numbers live in.\<close>

definition num :: "'c jitter \<Rightarrow> 16 word \<times> 64 word \<times> 64 word \<times> bool" where
  "num j = (jt_sequence j, jt_seen j, rs_resets (jt_stats j), jt_initialized j)"

lemma num_updates [simp]:
  "rs_resets s = rs_resets (jt_stats j) \<Longrightarrow> num (j\<lparr>jt_stats := s\<rparr>) = num j"
  "num (j\<lparr>jt_cursor := c\<rparr>) = num j" "num (j\<lparr>jt_stableAt := t\<rparr>) = num j" "num (j\<lparr>jt_lastAt := t\<rparr>) = num j"
  "num (j\<lparr>jt_jump := u\<rparr>) = num j" "num (j\<lparr>jt_heap := h\<rparr>) = num j" "num (j\<lparr>jt_nextPacket := n\<rparr>) = num j"
  "num (j\<lparr>jt_compressed := k\<rparr>) = num j" "num (skipStale now j) = num j" "num (noteLate now j) = num j"
  by (simp_all add: num_def noteLate_def Let_def)









lemma skipStale_times [simp]: "jt_lastAt (skipStale now j) = jt_lastAt j" "jt_jump (skipStale now j) = jt_jump j"
  by (simp_all add: skipStale_def Let_def)









subsection \<open>Where streams start\<close>






definition demo_push :: "16 word \<Rightarrow> time \<Rightarrow> event" where
  "demo_push sequence now = Push sequence (ucast (sequence + 1)) 7 [5] None now"

definition no_pitch :: "int pitch_score" where
  "no_pitch = \<lparr>ps_score = (\<lambda>dot a b. dot), ps_limit = 0, ps_greater = (\<lambda>x y. False)\<rparr>"

definition no_decoder :: "unit decoder" where
  "no_decoder c data count = (c, True, [])"

text \<open>Across the wrap: 65535 and 0 are taken, the repeated 65535 is not.\<close>

lemmas run_defs = jitterStep_def demo_push_def pushAudio_def newJitter_def orderAudio_def jitterReset_def noStats_def
  skipStale_def timeSub_def checkWindow_def acceptAudio_def remember_def storeSample_def stampsFrom_def held_def
  observing_def observe_def freshStream_def Let_def upto_rec1

lemma demo_run:
  "\<exists>m. jitterRun no_pitch no_decoder [demo_push 65535 0, demo_push 0 1, demo_push 65535 2] (observing None) = Some (Inr m) \<and>
    mo_accepted m = [(1, 0, 65535), (1, 1, 0)] \<and> jt_initialized (mo_jitter m)"
proof -
  have "case jitterRun no_pitch no_decoder [demo_push 65535 0, demo_push 0 1, demo_push 65535 2] (observing None) of
      Some (Inr m) \<Rightarrow> mo_accepted m = [(1, 0, 65535), (1, 1, 0)] \<and> jt_initialized (mo_jitter m) | _ \<Rightarrow> False" by (simp add: run_defs)
  then show ?thesis by (auto split: option.splits sum.splits)
qed


text \<open>The reserve is bounded. In every run a started stream keeps a reserve of whole frames between 60 and
  180 ms, publishes exactly that value, never has a negative number of frames to hold, and counts late packets
  only up to the third, which is the one that grows the reserve.\<close>
theorem jitter_reserve_bounded:
  assumes "jitterRun ps decode es (observing compressed) = Some (Inr m)" and "jt_initialized (mo_jitter m)"
  shows "\<exists>k \<in> {3..9}. jt_delay (mo_jitter m) = k * rtpFrameTime \<and> rs_delayMillis (snapshot (mo_jitter m)) = word_of_int (k * 20) \<and>
    0 \<le> jt_holdFrames (mo_jitter m) \<and> jt_lateCount (mo_jitter m) \<in> {0..2}"
proof -
  have "reserve_ok (mo_jitter (observing compressed))" by (simp add: observing_def newJitter_def reserve_ok_def)
  then have "reserve_ok (mo_jitter m)"
    by (rule jitterRun_invariant[OF assms(1)]) (simp add: reserve_ok_step)
  then show ?thesis using assms(2) by (auto simp: reserve_ok_def snapshot_def)
qed

theorem jitter_reserve_bounded_witness:
  "\<exists>m. jitterRun no_pitch no_decoder [demo_push 65535 0, demo_push 0 1, demo_push 65535 2] (observing None) = Some (Inr m) \<and>
    (\<exists>k \<in> {3..9}. jt_delay (mo_jitter m) = k * rtpFrameTime)"
proof -
  obtain m where m: "jitterRun no_pitch no_decoder [demo_push 65535 0, demo_push 0 1, demo_push 65535 2] (observing None) = Some (Inr m)"
    and init: "jt_initialized (mo_jitter m)"
    using demo_run by blast
  then show ?thesis using jitter_reserve_bounded[OF m init] by blast
qed

end
