(* ===== verification/Jitter_Frames.thy ===== *)
theory Jitter_Frames
  imports Jitter_Props
begin

text \<open>
  The playout buffer always answers: every call of a run returns, and without a compressed codec none
  panics. The runs are those of Jitter_Props.
\<close>

subsection \<open>Every call returns\<close>

definition chunked :: "'c jitter \<Rightarrow> bool" where
  "chunked j \<longleftrightarrow> (case jt_compressed j of None \<Rightarrow> True | Some c \<Rightarrow> 0 < po_quantum c)"

lemma gapLength_returns:
  assumes "0 < quantum" and "0 < count"
  shows "\<exists>n > 0. gapLength j stamp quantum pos count = Some n"
  using assms(2)
proof (induction "nat (160 - pos - count)" arbitrary: count rule: less_induct)
  case less
  then show ?case using assms(1) by (subst gapLength.simps) auto
qed

text \<open>The chunk size of the playout, which no step changes.\<close>

definition quantum :: "'c jitter \<Rightarrow> int option" where
  "quantum j = map_option po_quantum (jt_compressed j)"

lemma quantum_updates [simp]:
  "quantum (j\<lparr>jt_heap := h\<rparr>) = quantum j" "quantum (j\<lparr>jt_present := p\<rparr>) = quantum j" "quantum (j\<lparr>jt_stats := s\<rparr>) = quantum j"
  "quantum (j\<lparr>jt_pcm := q\<rparr>) = quantum j" "quantum (addMissing n j) = quantum j"
  by (simp_all add: quantum_def addMissing_def)

lemma quantum_callDecoder [simp]: "quantum (fst (callDecoder decode data count j)) = quantum j"
  by (simp add: quantum_def callDecoder_def split: option.split prod.split)

lemma quantum_decodePacket [simp]: "quantum (fst (decodePacket decode a j)) = quantum j"
  using quantum_callDecoder[of decode "cp_data (jt_heap j a)" "cp_size (jt_heap j a)" j]
    quantum_callDecoder[of decode None "cp_size (jt_heap j a)"]
  by (auto simp: decodePacket_def Let_def split_beta)

lemma quantum_clearChunk [simp]: "quantum (clearChunk pos count j) = quantum j"
proof -
  have "quantum (fold (\<lambda>i j. let k = slot (jt_cursor j + word_of_int i) in
      j\<lparr>jt_present := (jt_present j)(k := False),
        jt_compressed := map_option (\<lambda>c. c\<lparr>po_packets := (po_packets c)(k := None)\<rparr>) (jt_compressed j)\<rparr>) is j) = quantum j" for "is"
    by (induction "is" arbitrary: j) (simp_all add: quantum_def Let_def option.map_comp comp_def)
  then show ?thesis by (simp add: clearChunk_def)
qed

lemma copySamples_length: "copySamples out pos count pcm = Inr out' \<Longrightarrow> length out' = length out"
  by (auto simp: copySamples_def Let_def split: if_splits)

lemma popChunk_returns:
  assumes q: "quantum j = Some q" "0 < q"
  shows "\<exists>r. popChunk decode pos out j = Some r \<and>
    (\<forall>j' out' count. r = Inr (j', out', count) \<longrightarrow> 0 < count \<and> quantum j' = Some q \<and> length out' = length out)"
proof -
  obtain c where c: "jt_compressed j = Some c" "po_quantum c = q" using q(1) by (auto simp: quantum_def)
  let ?stamp = "jt_cursor j + word_of_int pos"
  show ?thesis
  proof (cases "if held j ?stamp then po_packets c (slot ?stamp) else None")
    case None
    obtain n where n: "n > 0" "gapLength j ?stamp q pos q = Some n" using gapLength_returns[OF q(2) q(2)] by blast
    then show ?thesis using q(1) None
      by (auto simp: popChunk_def c Let_def rbind_Inr_iff split_beta dest: copySamples_length)
  next
    case (Some a)
    have d: "quantum (fst (decodePacket decode a j)) = Some q" using q(1) by simp
    show ?thesis using Some d q(2)
      by (auto simp: popChunk_def c Let_def rbind_Inr_iff split_beta dest: copySamples_length)
  qed
qed

lemma popCompressed_returns:
  "quantum j = Some q \<Longrightarrow> 0 < q \<Longrightarrow>
    \<exists>r. popCompressed decode pos out j = Some r \<and> (\<forall>j' out'. r = Inr (j', out') \<longrightarrow> quantum j' = Some q \<and> length out' = length out)"
proof (induction "nat (160 - pos)" arbitrary: pos out j rule: less_induct)
  case less
  show ?case
  proof (cases "pos < 160")
    case True
    from popChunk_returns[OF less.prems, of decode pos out] obtain s where s: "popChunk decode pos out j = Some s"
      and i: "\<And>j' out' count. s = Inr (j', out', count) \<Longrightarrow> 0 < count \<and> quantum j' = Some q \<and> length out' = length out" by blast
    show ?thesis
    proof (cases s)
      case (Inl f)
      then show ?thesis using True s by (subst popCompressed.simps) simp
    next
      case (Inr x)
      obtain j1 out1 count where x: "x = (j1, out1, count)" by (cases x)
      have n: "0 < count" "quantum j1 = Some q" "length out1 = length out" using i[of j1 out1 count] Inr x by auto
      then have "nat (160 - (pos + count)) < nat (160 - pos)" using True by simp
      from less.hyps[OF this n(2) less.prems(2), of out1] show ?thesis
        using True s Inr x n by (subst popCompressed.simps) simp
    qed
  next
    case False
    then show ?thesis using less.prems by (subst popCompressed.simps) simp
  qed
qed

lemma length_popSamples: "length (snd (snd (popSamples ps is quiet j))) = length is"
  by (induction "is" arbitrary: quiet j) (auto simp: Let_def split_beta)

lemma quantum_popSamples [simp]: "quantum (fst (popSamples ps is quiet j)) = quantum j"
  by (induction "is" arbitrary: quiet j) (auto simp: Let_def split_beta)

lemma quantum_framePlayed [simp]: "quantum (framePlayed now quiet j) = quantum j"
  by (simp add: framePlayed_def reduceQuietReserve_def Let_def quantum_def fold_clear_keep)

lemma quantum_popHold [simp]: "quantum (fst (popHold ps j)) = quantum j"
  by (simp add: popHold_def Let_def split_beta quantum_def)

lemma quantum_skipStale [simp]: "quantum (skipStale now j) = quantum j"
  by (simp add: quantum_def)

lemma pop_returns:
  assumes "\<forall>q. quantum j = Some q \<longrightarrow> 0 < q"
  shows "\<exists>r. pop ps decode now j = Some r \<and> (quantum j = None \<longrightarrow> (\<exists>x. r = Inr x)) \<and>
    (\<forall>j' out wait. r = Inr (j', out, wait) \<longrightarrow> quantum j' = quantum j \<and> (\<forall>xs. out = Some xs \<longrightarrow> length xs = 160))"
proof (cases "jt_initialized j \<and> \<not> timeSub (jt_nextAt (skipStale now j)) now > 0")
  case False
  then show ?thesis by (auto simp: pop_def Let_def)
next
  case on: True
  let ?k = "skipStale now j"
  show ?thesis
  proof (cases "jt_holdFrames j > 0")
    case True
    have "length (snd (popHold ps ?k)) = 160"
      by (simp add: popHold_def Let_def split_beta length_concealAll)
    then show ?thesis using on True quantum_popHold[of ps ?k] by (auto simp: pop_def Let_def split_beta)
  next
    case h: False
    show ?thesis
    proof (cases "quantum j")
      case None
      then have "jt_compressed j = None" by (simp add: quantum_def)
      then show ?thesis using on h length_popSamples[of ps "[0..<160]" True ?k]
        by (auto simp: pop_def Let_def split_beta)
    next
      case (Some q)
      then have c: "\<exists>c. jt_compressed j = Some c" and k: "quantum ?k = Some q" by (auto simp: quantum_def)
      have "0 < q" using Some assms by simp
      from popCompressed_returns[OF k this, of decode 0 "replicate rtpPacketSamples 0"] obtain r where
        "popCompressed decode 0 (replicate rtpPacketSamples 0) ?k = Some r"
        "\<And>j' out'. r = Inr (j', out') \<Longrightarrow> quantum j' = Some q \<and> length out' = 160" by auto
      then show ?thesis using on h Some c
        by (auto simp: pop_def Let_def rbind_Inr_iff)
    qed
  qed
qed

lemma quantum_reset [simp]: "quantum (jitterReset sequence timestamp ssrc now j) = quantum j"
  by (simp add: jitterReset_def quantum_def option.map_comp comp_def)

lemma quantum_noteLate [simp]: "quantum (noteLate now j) = quantum j"
  by (simp add: noteLate_def Let_def quantum_def)

lemma quantum_fields [simp]:
  "quantum (j\<lparr>jt_cursor := c\<rparr>) = quantum j" "quantum (j\<lparr>jt_stableAt := t\<rparr>) = quantum j" "quantum (j\<lparr>jt_lastAt := t\<rparr>) = quantum j"
  "quantum (j\<lparr>jt_jump := u\<rparr>) = quantum j" "quantum (j\<lparr>jt_nextPacket := n\<rparr>) = quantum j"
  "quantum (remember sequence delta j) = quantum j" "quantum (fst (forwardJump sequence timestamp size' now j)) = quantum j"
  "quantum (j\<lparr>jt_compressed := map_option (\<lambda>c. c\<lparr>po_rtpAnchor := a, po_pcmAnchor := b\<rparr>) (jt_compressed j)\<rparr>) = quantum j"
  by (simp_all add: quantum_def remember_def forwardJump_def Let_def option.map_comp comp_def)

lemma quantum_store [simp]: "quantum (fold (storeSample samples address) xs j) = quantum j"
proof (induction xs arbitrary: j)
  case (Cons x xs)
  have "quantum (storeSample samples address x j) = quantum j"
    by (cases x) (simp add: storeSample_def Let_def quantum_def option.map_comp comp_def split: option.split)
  then show ?case using Cons by simp
qed simp

lemma quantum_checkWindow [simp]:
  "quantum (fst (checkWindow sequence timestamp ssrc size' compressed now delta offset j)) = quantum j"
proof -
  have f: "quantum (fst (forwardJump sequence timestamp size' now j)) = quantum j" by simp
  show ?thesis by (simp add: checkWindow_def Let_def split_beta)
qed

lemma quantum_acceptAudio [simp]:
  "quantum (fst (acceptAudio sequence timestamp size' samples packet adjusted now delta offset j)) = quantum j"
proof -
  have fin: "quantum (fst (if c then (j, False) else (g, True))) = quantum j" if "quantum g = quantum j" for c g using that by simp
  have heap: "quantum (j\<lparr>jt_heap := h, jt_nextPacket := n, jt_compressed := map_option (\<lambda>c. c\<lparr>po_rtpAnchor := a, po_pcmAnchor := b\<rparr>) (jt_compressed j)\<rparr>) = quantum j" for h n a b
    by (simp add: quantum_def option.map_comp comp_def)
  show ?thesis
  proof (cases packet)
    case None
    then show ?thesis by (simp add: acceptAudio_def Let_def)
  next
    case (Some p)
    show ?thesis unfolding acceptAudio_def Let_def Some option.case option.map
      by (intro fin) (simp add: heap)
  qed
qed

lemma quantum_orderAudio:
  "quantum (fst (orderAudio sequence timestamp ssrc size' samples packet adjusted now j)) = quantum j"
proof -
  have go: "quantum (fst (case checkWindow sequence timestamp ssrc size' c now delta offset l of
           (j, None) \<Rightarrow> (j, False)
         | (j, Some (delta, offset)) \<Rightarrow> acceptAudio sequence timestamp size' samples packet adjusted now delta offset j)) = quantum l" for l c delta offset ssrc
    using quantum_checkWindow[of sequence timestamp ssrc size' c now delta offset l]
    by (auto simp del: quantum_checkWindow split: prod.split option.split)
  show ?thesis unfolding orderAudio_def Let_def by (simp add: go)
qed

lemma quantum_pushAudio:
  assumes "pushAudio sequence timestamp ssrc samples packet now j = Inr (j', a)"
  shows "quantum j' = quantum j"
proof -
  let ?j = "stats (\<lambda>s. s\<lparr>rs_packets := rs_packets s + 1\<rparr>) j"
  have "j' = j \<or> j' = ?j \<or> (\<exists>timestamp size' packet adjusted. orderAudio sequence timestamp ssrc size' samples packet adjusted now ?j = (j', a))"
    using assms by (auto simp: pushAudio_def Let_def rbind_Inr_iff split: if_splits option.splits)
  then show ?thesis using quantum_orderAudio[of sequence _ ssrc _ samples _ _ now ?j] by (metis fst_conv quantum_updates(3))
qed

lemma pushAudio_returns: "quantum j = None \<Longrightarrow> \<exists>x. pushAudio sequence timestamp ssrc samples packet now j = Inr x"
  by (auto simp: pushAudio_def Let_def mapTimestamp_def quantum_def split: option.split)

lemma step_returns:
  assumes "\<forall>q. quantum j = Some q \<longrightarrow> 0 < q"
  shows "\<exists>r. jitterStep ps decode e j = Some r \<and> (quantum j = None \<longrightarrow> (\<exists>x. r = Inr x)) \<and>
    (\<forall>j' out. r = Inr (j', out) \<longrightarrow> quantum j' = quantum j \<and> (\<forall>xs w. out = Played (Some xs) w \<longrightarrow> length xs = 160))"
proof (cases e)
  case (Push sequence timestamp ssrc samples packet now)
  have "\<exists>x. pushAudio sequence timestamp ssrc samples packet now j = Inr x" if "quantum j = None"
    using pushAudio_returns[OF that] .
  then show ?thesis using quantum_pushAudio[of sequence timestamp ssrc samples packet now j]
    by (cases "pushAudio sequence timestamp ssrc samples packet now j") (auto simp: jitterStep_def Push)
next
  case (Pop now)
  from pop_returns[OF assms, of ps decode now] obtain r where r: "pop ps decode now j = Some r"
    "quantum j = None \<longrightarrow> (\<exists>x. r = Inr x)"
    "\<forall>j' out wait. r = Inr (j', out, wait) \<longrightarrow> quantum j' = quantum j \<and> (\<forall>xs. out = Some xs \<longrightarrow> length xs = 160)" by auto
  then show ?thesis by (cases r) (auto simp: jitterStep_def Pop)
next
  case Restart
  then show ?thesis by (auto simp: jitterStep_def jitterRestart_def quantum_def option.map_comp comp_def)
qed

lemma run_returns:
  "\<forall>q. quantum (mo_jitter m) = Some q \<longrightarrow> 0 < q \<Longrightarrow>
    \<exists>r. jitterRun ps decode es m = Some r \<and> (quantum (mo_jitter m) = None \<longrightarrow> (\<exists>x. r = Inr x))"
proof (induction es arbitrary: m)
  case (Cons e es)
  from step_returns[OF Cons.prems, of ps decode e] obtain r where step: "jitterStep ps decode e (mo_jitter m) = Some r \<and>
      (quantum (mo_jitter m) = None \<longrightarrow> (\<exists>x. r = Inr x)) \<and> (\<forall>j' out. r = Inr (j', out) \<longrightarrow> quantum j' = quantum (mo_jitter m) \<and>
        (\<forall>xs w. out = Played (Some xs) w \<longrightarrow> length xs = 160))" by (rule exE)
  note r = step[THEN conjunct1] step[THEN conjunct2, THEN conjunct1] step[THEN conjunct2, THEN conjunct2, rule_format, THEN conjunct1]
  show ?case
  proof (cases r)
    case (Inr x)
    obtain j out where x: "x = (j, out)" by (cases x)
    have "quantum j = quantum (mo_jitter m)" using r(3) Inr x by simp
    then show ?thesis using Cons.IH[of "observe e out j m"] Cons.prems r(1) Inr x by simp
  qed (use r in auto)
qed simp

lemma quantum_observing [simp]: "quantum (mo_jitter (observing compressed)) = map_option po_quantum compressed"
  by (simp add: observing_def newJitter_def quantum_def)

text \<open>C22: Every call returns. Whatever is pushed, popped or renegotiated, in any order and at any time, and whatever
  the decoder answers, the loops of the playout end as long as the chunk size is positive; without a compressed
  codec no call panics either, so the run has a final state.\<close>
theorem jitter_returns:
  assumes "case compressed of None \<Rightarrow> True | Some c \<Rightarrow> 0 < po_quantum c"
  shows "jitterRun ps decode es (observing compressed) \<noteq> None \<and>
    (compressed = None \<longrightarrow> (\<exists>m. jitterRun ps decode es (observing compressed) = Some (Inr m)))"
  using run_returns[of "observing compressed" ps decode es] assms by (cases compressed) auto

theorem jitter_returns_witness: "\<exists>m. jitterRun no_pitch no_decoder [demo_push 5 0, Pop (millis 60), Pop (millis 300)] (observing None) = Some (Inr m)"
  using jitter_returns[of None no_pitch no_decoder "[demo_push 5 0, Pop (millis 60), Pop (millis 300)]"] by simp

end
