(* ===== verification/Jitter_Playout.thy ===== *)
theory Jitter_Playout
  imports Jitter_Frames
begin

text \<open>
  The playout of a punctual G.711 stream: packets of 160 samples that come in order, while the reader takes a
  frame every 20 ms. The reader gets exactly what was sent, 60 ms later.
\<close>

subsection \<open>Slots\<close>

lemma slot_mod: "slot s = unat s mod 4096"
proof -
  have "s AND 4095 = take_bit 12 s" by (simp add: take_bit_eq_mask mask_eq_exp_minus_1)
  then have "slot s = take_bit 12 (unat s)" unfolding slot_def by (simp only: unsigned_take_bit_eq)
  then show ?thesis by (simp add: take_bit_eq_mod)
qed

lemma slot_add: "slot (c + word_of_nat a) = (unat c + a) mod 4096"
proof -
  have "unat (c + word_of_nat a) = (unat c + a) mod 4294967296"
    by (simp add: unat_word_ariths unat_of_nat mod_simps)
  then show ?thesis by (simp add: slot_mod mod_mod_cancel)
qed

lemma mod_inj: "(x + a) mod 4096 = (x + b) mod 4096 \<Longrightarrow> a < 4096 \<Longrightarrow> b < 4096 \<Longrightarrow> a = b" for a b x :: nat
proof (induction a b rule: linorder_wlog)
  case (le a b)
  then have "4096 dvd (x + b) - (x + a)" using mod_eq_dvd_iff_nat[of "x + a" "x + b" 4096] by simp
  then show ?case using le by (auto dest: dvd_imp_le)
qed simp

lemma slot_inj: "slot (c + word_of_nat a) = slot (c + word_of_nat b) \<Longrightarrow> a < 4096 \<Longrightarrow> b < 4096 \<Longrightarrow> a = b"
  unfolding slot_add by (rule mod_inj)

lemma slot_wrap: "slot (c + word_of_nat (4096 + a)) = slot (c + word_of_nat a)"
  unfolding slot_add by (metis add.left_commute mod_add_self1)

lemma slot_eq_iff: "a < 4096 \<Longrightarrow> b < 4096 \<Longrightarrow> slot (c + word_of_nat a) = slot (c + word_of_nat b) \<longleftrightarrow> a = b"
  using slot_inj by blast

subsection \<open>The window as a list of samples\<close>

text \<open>The samples from the cursor on are \<open>xs\<close>, and nothing else of the window is held.\<close>

definition window :: "'c jitter \<Rightarrow> int list \<Rightarrow> bool" where
  "window j xs \<longleftrightarrow> length xs \<le> 4096 \<and>
    (\<forall>d < 4096. held j (jt_cursor j + word_of_nat d) \<longleftrightarrow> d < length xs) \<and>
    (\<forall>d < length xs. jt_samples j (slot (jt_cursor j + word_of_nat d)) = xs ! d)"

lemma window_store:
  assumes w: "window j xs" and c: "jt_compressed j = None" and fits: "length xs + length ys \<le> 4096"
    and ts: "timestamp = jt_cursor j + word_of_nat (length xs)" and n: "n \<le> length ys"
  shows "let j' = fold (storeSample ys None) (map (\<lambda>i. (int i, timestamp + word_of_nat i)) [0..<n]) j in
    window j' (xs @ take n ys) \<and> jt_compressed j' = None \<and> jt_pcm j' = jt_pcm j \<and> jt_cursor j' = jt_cursor j"
  using n
proof (induction n)
  case 0
  then show ?case using w c by simp
next
  case (Suc n)
  define j1 where "j1 = fold (storeSample ys None) (map (\<lambda>i. (int i, timestamp + word_of_nat i)) [0..<n]) j"
  let ?zs = "xs @ take n ys"
  have ih: "window j1 ?zs" "jt_compressed j1 = None" "jt_pcm j1 = jt_pcm j" "jt_cursor j1 = jt_cursor j"
    using Suc by (simp_all add: j1_def Let_def)
  define st where "st = timestamp + word_of_nat n"
  have len: "length ?zs = length xs + n" using Suc.prems by simp
  have st: "st = jt_cursor j1 + word_of_nat (length ?zs)" by (simp only: st_def ts ih(4) len of_nat_add add.assoc)
  have "held j1 (jt_cursor j1 + word_of_nat (length ?zs)) \<longleftrightarrow> length ?zs < length ?zs"
  proof -
    have "length ?zs < 4096" using fits Suc.prems len by linarith
    moreover have "\<forall>d < 4096. held j1 (jt_cursor j1 + word_of_nat d) \<longleftrightarrow> d < length ?zs" using ih(1) unfolding window_def by blast
    ultimately show ?thesis by blast
  qed
  then have free: "\<not> held j1 st" unfolding st by blast
  define j2 where "j2 = storeSample ys None (int n, st) j1"
  have j2: "j2 = j1\<lparr>jt_stamps := (jt_stamps j1)(slot st := st), jt_present := (jt_present j1)(slot st := True),
      jt_samples := (jt_samples j1)(slot st := ys ! n)\<rparr>"
    using free by (simp add: j2_def storeSample_def Let_def)
  have other: "slot (jt_cursor j1 + word_of_nat d) = slot st \<longleftrightarrow> d = length ?zs" if "d < 4096" for d
    unfolding st by (rule slot_eq_iff[OF that]) (use fits Suc.prems len in linarith)
  have "window j2 (?zs @ [ys ! n])"
    unfolding window_def
  proof (intro conjI allI impI)
    show "length (?zs @ [ys ! n]) \<le> 4096" using fits Suc.prems len by simp
    fix d assume d: "d < (4096 :: nat)"
    show "held j2 (jt_cursor j2 + word_of_nat d) \<longleftrightarrow> d < length (?zs @ [ys ! n])"
    proof (cases "d = length ?zs")
      case True
      then have "held j2 (jt_cursor j2 + word_of_nat d)" by (simp add: j2 held_def st[symmetric] del: length_append)
      then show ?thesis using True by simp
    next
      case False
      then have "held j2 (jt_cursor j2 + word_of_nat d) = held j1 (jt_cursor j1 + word_of_nat d)"
        using other[OF d] by (simp add: j2 held_def)
      then show ?thesis using ih(1) d False unfolding window_def by (simp add: less_Suc_eq)
    qed
  next
    fix d assume d: "d < length (?zs @ [ys ! n])"
    then have lt: "d < 4096" using fits Suc.prems len by simp
    show "jt_samples j2 (slot (jt_cursor j2 + word_of_nat d)) = (?zs @ [ys ! n]) ! d"
    proof (cases "d = length ?zs")
      case True
      then have "jt_samples j2 (slot (jt_cursor j2 + word_of_nat d)) = ys ! n" by (simp add: j2 st[symmetric] del: length_append)
      then show ?thesis unfolding True by (simp only: nth_append_length)
    next
      case False
      then have lt': "d < length ?zs" using d by simp
      have "jt_samples j2 (slot (jt_cursor j2 + word_of_nat d)) = jt_samples j1 (slot (jt_cursor j1 + word_of_nat d))"
        using other[OF lt] False by (simp add: j2)
      also have "\<dots> = ?zs ! d" using ih(1) lt' unfolding window_def by blast
      finally show ?thesis using nth_append_left[OF lt', of "[ys ! n]"] by simp
    qed
  qed
  moreover have "?zs @ [ys ! n] = xs @ take (Suc n) ys" using Suc.prems by (simp add: take_Suc_conv_app_nth)
  ultimately show ?case using ih by (simp add: Let_def j1_def[symmetric] j2_def[symmetric] st_def[symmetric] j2)
qed

lemma popSamples_window:
  assumes "distinct is" and "\<forall>i \<in> set is. i < 4096 \<and> held j (jt_cursor j + word_of_nat i)" and "cn_lost (jt_pcm j) = 0"
  shows "\<exists>j' quiet'. popSamples ps is quiet j = (j', quiet', map (\<lambda>i. jt_samples j (slot (jt_cursor j + word_of_nat i))) is) \<and>
    jt_samples j' = jt_samples j \<and> jt_stamps j' = jt_stamps j \<and> jt_cursor j' = jt_cursor j \<and> jt_compressed j' = jt_compressed j \<and>
    cn_lost (jt_pcm j') = 0 \<and>
    jt_present j' = (\<lambda>k. jt_present j k \<and> k \<notin> (\<lambda>i. slot (jt_cursor j + word_of_nat i)) ` set is)"
  using assms
proof (induction "is" arbitrary: j quiet)
  case (Cons i "is")
  let ?st = "jt_cursor j + word_of_nat i"
  let ?v = "jt_samples j (slot ?st)"
  obtain p out where p: "concealSample ps ?v True (jt_pcm j) = (p, out)" by fastforce
  have out: "out = ?v" "cn_lost p = 0" using p Cons.prems(3) by (auto simp: concealSample_def Let_def)
  define j1 where "j1 = j\<lparr>jt_pcm := p, jt_present := (jt_present j)(slot ?st := False)\<rparr>"
  have keep: "held j1 (jt_cursor j1 + word_of_nat k)" if "k \<in> set is" for k
  proof -
    have "slot (jt_cursor j + word_of_nat k) \<noteq> slot ?st" using that Cons.prems(1,2) slot_inj[of "jt_cursor j" k i] by auto
    then show ?thesis using that Cons.prems(2) by (simp add: j1_def held_def)
  qed
  from Cons.IH[of j1 "quiet \<and> quietSample ?v"] keep Cons.prems out(2)
  obtain j' quiet' where j': "popSamples ps is (quiet \<and> quietSample ?v) j1 = (j', quiet', map (\<lambda>i. jt_samples j1 (slot (jt_cursor j1 + word_of_nat i))) is)"
    "jt_samples j' = jt_samples j1" "jt_stamps j' = jt_stamps j1" "jt_cursor j' = jt_cursor j1" "jt_compressed j' = jt_compressed j1"
    "cn_lost (jt_pcm j') = 0" "jt_present j' = (\<lambda>k. jt_present j1 k \<and> k \<notin> (\<lambda>i. slot (jt_cursor j1 + word_of_nat i)) ` set is)"
    by (auto simp: j1_def)
  have "held j ?st" using Cons.prems(2) by simp
  then have "popSamples ps (i # is) quiet j = (j', quiet', ?v # map (\<lambda>i. jt_samples j (slot (jt_cursor j + word_of_nat i))) is)"
    using j'(1) by (simp add: p out j1_def Let_def)
  then show ?case using j' by (auto simp: j1_def)
qed auto

lemma window_pop:
  assumes w: "window j xs" and c: "jt_compressed j = None" "cn_lost (jt_pcm j) = 0" and n: "160 \<le> length xs"
  shows "\<exists>j' quiet'. popSamples ps [0..<160] quiet j = (j', quiet', take 160 xs) \<and>
    window (j'\<lparr>jt_cursor := jt_cursor j' + 160\<rparr>) (drop 160 xs) \<and> jt_cursor j' = jt_cursor j \<and> jt_compressed j' = None \<and> cn_lost (jt_pcm j') = 0"
proof -
  have "\<forall>i \<in> set [0..<160]. i < 4096 \<and> held j (jt_cursor j + word_of_nat i)" using w n by (auto simp: window_def)
  from popSamples_window[OF distinct_upt this c(2), of ps quiet] obtain j' quiet' where
    p: "popSamples ps [0..<160] quiet j = (j', quiet', map (\<lambda>i. jt_samples j (slot (jt_cursor j + word_of_nat i))) [0..<160])"
    and f: "jt_samples j' = jt_samples j" "jt_stamps j' = jt_stamps j" "jt_cursor j' = jt_cursor j" "jt_compressed j' = jt_compressed j" "cn_lost (jt_pcm j') = 0"
    and pr: "jt_present j' = (\<lambda>k. jt_present j k \<and> k \<notin> (\<lambda>i. slot (jt_cursor j + word_of_nat i)) ` set [0..<160])" by blast
  have out: "map (\<lambda>i. jt_samples j (slot (jt_cursor j + word_of_nat i))) [0..<160] = take 160 xs"
    using w n by (intro nth_equalityI) (auto simp: window_def)
  have cur: "jt_cursor j + 160 + word_of_nat d = jt_cursor j + word_of_nat (160 + d)" for d by simp
  have len: "length xs \<le> 4096" using w by (simp add: window_def)
  have "window (j'\<lparr>jt_cursor := jt_cursor j' + 160\<rparr>) (drop 160 xs)"
    unfolding window_def
  proof (intro conjI allI impI)
    fix d assume d: "d < (4096 :: nat)"
    show "held (j'\<lparr>jt_cursor := jt_cursor j' + 160\<rparr>) (jt_cursor (j'\<lparr>jt_cursor := jt_cursor j' + 160\<rparr>) + word_of_nat d) \<longleftrightarrow> d < length (drop 160 xs)"
    proof (cases "160 + d < 4096")
      case True
      then have "slot (jt_cursor j + word_of_nat (160 + d)) \<notin> (\<lambda>i. slot (jt_cursor j + word_of_nat i)) ` set [0..<160]"
        using slot_inj[of "jt_cursor j" "160 + d"] by fastforce
      then have "held (j'\<lparr>jt_cursor := jt_cursor j' + 160\<rparr>) (jt_cursor j + word_of_nat (160 + d)) = held j (jt_cursor j + word_of_nat (160 + d))"
        by (simp add: held_def f pr)
      then show ?thesis using w True by (simp add: f cur window_def del: of_nat_add) linarith
    next
      case False
      define e where "e = 160 + d - 4096"
      have e: "160 + d = 4096 + e" "e < 160" using False d by (auto simp: e_def)
      have "slot (jt_cursor j + word_of_nat (160 + d)) \<in> (\<lambda>i. slot (jt_cursor j + word_of_nat i)) ` set [0..<160]"
        unfolding e(1) slot_wrap using e(2) by auto
      then show ?thesis using False len by (simp add: f cur held_def pr del: of_nat_add)
    qed
  next
    fix d assume d: "d < length (drop 160 xs)"
    then have "160 + d < length xs" by simp
    then show "jt_samples (j'\<lparr>jt_cursor := jt_cursor j' + 160\<rparr>) (slot (jt_cursor (j'\<lparr>jt_cursor := jt_cursor j' + 160\<rparr>) + word_of_nat d)) = drop 160 xs ! d"
      using w by (simp add: f cur window_def del: of_nat_add)
  qed (use len in simp)
  then show ?thesis using p f c(1) unfolding out by (intro exI[of _ j'] exI[of _ quiet']) simp
qed

subsection \<open>A punctual stream\<close>

text \<open>A G.711 stream: its first numbers, the instant its first packet comes, and its frames of 160 samples.\<close>

record stream =
  sr_sequence :: "16 word"
  sr_timestamp :: "32 word"
  sr_ssrc :: "32 word"
  sr_start :: time
  sr_frames :: "int list list"

definition due :: "stream \<Rightarrow> nat \<Rightarrow> time" where
  "due sr k = sr_start sr + rtpPlayoutDelay + int k * rtpFrameTime"

text \<open>
  A schedule after \<open>m\<close> packets and \<open>k\<close> frames: packets come in order, at most 24 ahead of the reader and at most
  120 ms after the frame to play is due; the reader may come early, and otherwise finds its frame and is not
  more than 120 ms behind.
\<close>

fun punctual :: "stream \<Rightarrow> nat \<Rightarrow> nat \<Rightarrow> event list \<Rightarrow> bool" where
  "punctual sr m k [] \<longleftrightarrow> True"
| "punctual sr m k (Push sequence timestamp ssrc samples packet now # es) \<longleftrightarrow>
    sequence = sr_sequence sr + word_of_nat m \<and> timestamp = sr_timestamp sr + word_of_nat (160 * m) \<and> ssrc = sr_ssrc sr \<and>
    m < length (sr_frames sr) \<and> samples = sr_frames sr ! m \<and> packet = None \<and> m < k + 25 \<and>
    now \<le> due sr k + rtpMaxLate \<and> (m = 0 \<longrightarrow> now = sr_start sr) \<and> punctual sr (m + 1) k es"
| "punctual sr m k (Pop now # es) \<longleftrightarrow>
    (if m = 0 \<or> now < due sr k then punctual sr m k es else k < m \<and> now \<le> due sr k + rtpMaxLate \<and> punctual sr m (k + 1) es)"
| "punctual sr m k (Restart # es) \<longleftrightarrow> False"

text \<open>The frames that came due by the end.\<close>

fun dueFrames :: "stream \<Rightarrow> nat \<Rightarrow> nat \<Rightarrow> event list \<Rightarrow> nat" where
  "dueFrames sr m k [] = k"
| "dueFrames sr m k (Push _ _ _ _ _ _ # es) = dueFrames sr (m + 1) k es"
| "dueFrames sr m k (Pop now # es) = dueFrames sr m (if m = 0 \<or> now < due sr k then k else k + 1) es"
| "dueFrames sr m k (Restart # es) = dueFrames sr m k es"

definition sent :: "stream \<Rightarrow> nat \<Rightarrow> nat \<Rightarrow> int list" where
  "sent sr m k = concat (drop k (take m (sr_frames sr)))"

text \<open>The state after \<open>m\<close> packets and \<open>k\<close> frames of the stream.\<close>

definition synced :: "stream \<Rightarrow> nat \<Rightarrow> nat \<Rightarrow> 'c jitter \<Rightarrow> bool" where
  "synced sr m k j \<longleftrightarrow> (if m = 0 then k = 0 \<and> \<not> jt_initialized j \<and> jt_compressed j = None
    else k \<le> m \<and> jt_initialized j \<and> jt_ssrc j = sr_ssrc sr \<and> jt_sequence j = sr_sequence sr + word_of_nat (m - 1) \<and>
      jt_cursor j = sr_timestamp sr + word_of_nat (160 * k) \<and> jt_nextAt j = due sr k \<and> jt_holdFrames j = 0 \<and>
      jt_delay j = rtpPlayoutDelay \<and> jt_compressed j = None \<and> cn_lost (jt_pcm j) = 0 \<and> window j (sent sr m k))"

lemma length_sent:
  assumes "\<forall>xs \<in> set (sr_frames sr). length xs = 160" and "m \<le> length (sr_frames sr)"
  shows "length (sent sr m k) = 160 * (m - k)"
proof -
  have c: "length (concat xss) = 160 * length xss" if "\<forall>xs \<in> set xss. length xs = (160 :: nat)" for xss :: "int list list"
    using that by (induction xss) auto
  have "set (drop k (take m (sr_frames sr))) \<subseteq> set (sr_frames sr)" by (meson set_drop_subset set_take_subset subset_trans)
  then show ?thesis using assms unfolding sent_def by (subst c) auto
qed

lemma sent_push: "k \<le> m \<Longrightarrow> m < length (sr_frames sr) \<Longrightarrow> sent sr (m + 1) k = sent sr m k @ sr_frames sr ! m"
  by (simp add: sent_def take_Suc_conv_app_nth)

lemma sent_pop:
  assumes "k < m" "m \<le> length (sr_frames sr)"
  shows "sent sr m k = sr_frames sr ! k @ sent sr m (k + 1)"
proof -
  have "drop k (take m (sr_frames sr)) = sr_frames sr ! k # drop (Suc k) (take m (sr_frames sr))"
    using assms Cons_nth_drop_Suc[of k "take m (sr_frames sr)"] by simp
  then show ?thesis by (simp add: sent_def)
qed

lemma orderAudio_fresh:
  "\<not> jt_initialized j \<Longrightarrow> orderAudio sequence timestamp ssrc size' samples packet adjusted now j =
    orderAudio sequence timestamp ssrc size' samples packet adjusted now (jitterReset sequence timestamp ssrc now j)"
  by (simp add: orderAudio_def jitterReset_def)

lemma stampsFrom_nat: "stampsFrom timestamp 0 (int n) = map (\<lambda>i. (int i, timestamp + word_of_nat i)) [0..<n]"
proof -
  have "[0..int n - 1] = map int [0..<n]" by (induction n) (simp_all add: upto_rec2)
  then show ?thesis by (simp add: stampsFrom_def)
qed

text \<open>A packet that follows the newest one, or starts the stream, goes to the end of the window.\<close>

lemma push_in_order:
  assumes j: "jt_initialized j" "jt_ssrc j = ssrc" "jt_compressed j = None" "now \<le> jt_nextAt j + rtpMaxLate"
    and delta: "sint (sequence - jt_sequence j) = 1 \<or> (sint (sequence - jt_sequence j) = 0 \<and> jt_seen j = 0)"
    and w: "window j xs" and ts: "timestamp = jt_cursor j + word_of_nat (length xs)"
    and len: "length samples = 160" "length xs + 160 \<le> 4096"
  shows "\<exists>j'. orderAudio sequence timestamp ssrc 160 samples None False now j = (j', True) \<and> window j' (xs @ samples) \<and>
    jt_initialized j' \<and> jt_ssrc j' = ssrc \<and> jt_sequence j' = sequence \<and> jt_cursor j' = jt_cursor j \<and> jt_nextAt j' = jt_nextAt j \<and>
    jt_holdFrames j' = jt_holdFrames j \<and> jt_delay j' = jt_delay j \<and> jt_compressed j' = None \<and> jt_pcm j' = jt_pcm j \<and>
    rs_resets (jt_stats j') = rs_resets (jt_stats j)"
proof -
  let ?delta = "sint (sequence - jt_sequence j)"
  define j1 where "j1 = remember sequence ?delta j"
  define j2 where "j2 = fold (storeSample samples None) (stampsFrom timestamp 0 160) j1"
  have stale: "skipStale now j = j" using j(4) by (simp add: skipStale_def timeSub_def Let_def)
  have offset: "sint (timestamp - jt_cursor j) = int (length xs)"
    using len(2) by (simp add: ts signed_of_nat signed_take_bit_int_eq_self)
  have r: "window j1 xs" "jt_compressed j1 = None" "jt_pcm j1 = jt_pcm j" "jt_cursor j1 = jt_cursor j"
    using w j(3) by (simp_all add: j1_def remember_def window_def held_def)
  have st: "window j2 (xs @ samples)" "jt_compressed j2 = None" "jt_pcm j2 = jt_pcm j1" "jt_cursor j2 = jt_cursor j1"
    using window_store[OF r(1,2), of samples timestamp 160] len ts r(4) stampsFrom_nat[of timestamp 160] by (simp_all add: j2_def Let_def)
  have c: "core j2 = core j1" unfolding j2_def by (rule core_store)
  have order: "orderAudio sequence timestamp ssrc 160 samples None False now j = (j2\<lparr>jt_lastAt := now, jt_jump := noJump\<rparr>, True)"
    using j(1,2) delta len(2)
    by (auto simp: orderAudio_def stale offset checkWindow_def acceptAudio_def Let_def j1_def j2_def)
  have same: "jt_sequence j = sequence" if z: "?delta = 0"
  proof -
    have "sequence = jt_sequence j + word_of_int ?delta" by simp
    then show ?thesis unfolding z by simp
  qed
  have "jt_sequence j1 = sequence" using delta same by (auto simp: j1_def remember_def)
  moreover have "window (j2\<lparr>jt_lastAt := now, jt_jump := noJump\<rparr>) (xs @ samples)" using st(1) by (simp add: window_def held_def)
  ultimately show ?thesis unfolding order using st c r j(1,2) by (auto simp: core_def j1_def remember_def)
qed

lemma synced_push:
  assumes frames: "\<forall>xs \<in> set (sr_frames sr). length xs = 160"
    and s: "synced sr m k j" and m: "m < length (sr_frames sr)" "m < k + 25" "now \<le> due sr k + rtpMaxLate" "m = 0 \<Longrightarrow> now = sr_start sr"
  shows "\<exists>j'. pushAudio (sr_sequence sr + word_of_nat m) (sr_timestamp sr + word_of_nat (160 * m)) (sr_ssrc sr) (sr_frames sr ! m) None now j = Inr (j', True) \<and>
    synced sr (m + 1) k j' \<and> (0 < m \<longrightarrow> \<not> freshStream j j')"
proof -
  let ?s = "sr_sequence sr + word_of_nat m" and ?t = "sr_timestamp sr + word_of_nat (160 * m)" and ?x = "sr_frames sr ! m"
  have x: "length ?x = 160" using frames m(1) by simp
  let ?j = "stats (\<lambda>s. s\<lparr>rs_packets := rs_packets s + 1\<rparr>) j"
  have push: "pushAudio ?s ?t (sr_ssrc sr) ?x None now j = Inr (orderAudio ?s ?t (sr_ssrc sr) 160 ?x None False now ?j)"
    using x by (simp add: pushAudio_def Let_def)
  show ?thesis
  proof (cases "m = 0")
    case True
    let ?r = "jitterReset ?s ?t (sr_ssrc sr) now ?j"
    have u: "\<not> jt_initialized ?j" "k = 0" "jt_compressed j = None" using s True by (simp_all add: synced_def)
    have "window ?r []" by (simp add: window_def jitterReset_def held_def)
    then obtain j' where "orderAudio ?s ?t (sr_ssrc sr) 160 ?x None False now ?r = (j', True)" "window j' ?x"
      "jt_initialized j'" "jt_ssrc j' = sr_ssrc sr" "jt_sequence j' = ?s" "jt_cursor j' = jt_cursor ?r" "jt_nextAt j' = jt_nextAt ?r"
      "jt_holdFrames j' = jt_holdFrames ?r" "jt_delay j' = jt_delay ?r" "jt_compressed j' = None" "jt_pcm j' = jt_pcm ?r"
      using push_in_order[of ?r "sr_ssrc sr" now ?s "[]" ?t ?x] u x by (auto simp: jitterReset_def)
    moreover have "sent sr 1 0 = ?x" using m(1) True by (simp add: sent_def take_Suc_conv_app_nth)
    ultimately show ?thesis using True u m(4) unfolding push orderAudio_fresh[OF u(1)]
      by (auto simp: synced_def jitterReset_def due_def newConcealer_def)
  next
    case False
    have y: "k \<le> m" "jt_initialized j" "jt_ssrc j = sr_ssrc sr" "jt_sequence j = sr_sequence sr + word_of_nat (m - 1)"
      "jt_cursor j = sr_timestamp sr + word_of_nat (160 * k)" "jt_nextAt j = due sr k" "jt_holdFrames j = 0"
      "jt_delay j = rtpPlayoutDelay" "jt_compressed j = None" "cn_lost (jt_pcm j) = 0" "window j (sent sr m k)"
      using s False by (simp_all add: synced_def)
    have len: "length (sent sr m k) = 160 * (m - k)" using length_sent[OF frames] m(1) by simp
    have "?s - jt_sequence ?j = 1" using False y(4) by (cases m) simp_all
    then have delta: "sint (?s - jt_sequence ?j) = 1" by simp
    have ts: "?t = jt_cursor ?j + word_of_nat (length (sent sr m k))"
      using y(1,5) by (simp add: len of_nat_diff algebra_simps del: of_nat_mult)
    have w: "window ?j (sent sr m k)" using y(11) by (simp add: window_def held_def)
    have pre: "jt_initialized ?j" "jt_ssrc ?j = sr_ssrc sr" "jt_compressed ?j = None" "now \<le> jt_nextAt ?j + rtpMaxLate"
      "length (sent sr m k) + 160 \<le> 4096" using y m len by simp_all
    obtain j' where "orderAudio ?s ?t (sr_ssrc sr) 160 ?x None False now ?j = (j', True)" "window j' (sent sr m k @ ?x)"
      "jt_initialized j'" "jt_ssrc j' = sr_ssrc sr" "jt_sequence j' = ?s" "jt_cursor j' = jt_cursor ?j" "jt_nextAt j' = jt_nextAt ?j"
      "jt_holdFrames j' = jt_holdFrames ?j" "jt_delay j' = jt_delay ?j" "jt_compressed j' = None" "jt_pcm j' = jt_pcm ?j"
      "rs_resets (jt_stats j') = rs_resets (jt_stats ?j)"
      using push_in_order[OF pre(1-4) disjI1[OF delta] w ts x pre(5)] by blast
    then show ?thesis using y m unfolding push sent_push[OF y(1) m(1), symmetric]
      by (simp add: synced_def freshStream_def)
  qed
qed

lemma synced_pop:
  assumes frames: "\<forall>xs \<in> set (sr_frames sr). length xs = 160" and m: "m \<le> length (sr_frames sr)"
    and s: "synced sr m k j" and late: "m \<noteq> 0 \<Longrightarrow> now \<le> due sr k + rtpMaxLate"
  shows "if m = 0 \<or> now < due sr k then \<exists>wait. pop ps decode now j = Some (Inr (j, None, wait))
    else k < m \<longrightarrow> (\<exists>j'. pop ps decode now j = Some (Inr (j', Some (sr_frames sr ! k), 0)) \<and> synced sr m (k + 1) j')"
proof (cases "m = 0")
  case True
  then show ?thesis using s by (simp add: synced_def pop_def)
next
  case False
  have y: "k \<le> m" "jt_initialized j" "jt_ssrc j = sr_ssrc sr" "jt_sequence j = sr_sequence sr + word_of_nat (m - 1)"
    "jt_cursor j = sr_timestamp sr + word_of_nat (160 * k)" "jt_nextAt j = due sr k" "jt_holdFrames j = 0"
    "jt_delay j = rtpPlayoutDelay" "jt_compressed j = None" "cn_lost (jt_pcm j) = 0" "window j (sent sr m k)"
    using s False by (simp_all add: synced_def)
  have stale: "skipStale now j = j" using late[OF False] y(6) by (simp add: skipStale_def timeSub_def Let_def)
  show ?thesis
  proof (cases "now < due sr k")
    case True
    then show ?thesis using y(2,6) by (simp add: pop_def stale timeSub_def Let_def)
  next
    case dued: False
    show ?thesis
    proof (cases "k < m")
      case True
      have len: "length (sent sr m k) = 160 * (m - k)" by (rule length_sent[OF frames m])
      then have "160 \<le> length (sent sr m k)" using True by simp
      from window_pop[OF y(11,9,10) this, of ps True] obtain j' quiet' where p:
        "popSamples ps [0..<160] True j = (j', quiet', take 160 (sent sr m k))"
        "window (j'\<lparr>jt_cursor := jt_cursor j' + 160\<rparr>) (drop 160 (sent sr m k))" "jt_cursor j' = jt_cursor j"
        "jt_compressed j' = None" "cn_lost (jt_pcm j') = 0" by blast
      have c: "core j' = core j" using core_popSamples[of ps "[0..<160]" True j] p(1) by simp
      have x: "length (sr_frames sr ! k) = 160" using frames True m by simp
      have f: "take 160 (sent sr m k) = sr_frames sr ! k" "drop 160 (sent sr m k) = sent sr m (k + 1)"
        using sent_pop[OF True m] x by simp_all
      define j2 where "j2 = framePlayed now quiet' j'"
      have j2: "j2 = j'\<lparr>jt_playing := True, jt_cursor := jt_cursor j' + 160, jt_nextAt := jt_nextAt j' + rtpFrameTime,
          jt_quietFrames := (if quiet' then jt_quietFrames j' + 1 else 0)\<rparr>"
        using c y(8) by (simp add: j2_def framePlayed_def reduceQuietReserve_def core_def)
      have pop: "pop ps decode now j = Some (Inr (j2, Some (sr_frames sr ! k), 0))"
        using y(2,6,7,9) dued p(1) f(1) by (simp add: pop_def stale timeSub_def Let_def j2_def)
      have "window j2 (sent sr m (k + 1))" using p(2) f(2) by (simp add: j2 window_def held_def)
      then have "synced sr m (k + 1) j2"
        using False True y c p(3,4,5) by (auto simp: synced_def j2 core_def due_def algebra_simps)
      then show ?thesis using pop False dued True by simp
    qed (use False dued in simp)
  qed
qed

lemma punctual_run:
  assumes frames: "\<forall>xs \<in> set (sr_frames sr). length xs = 160"
  shows "punctual sr m k es \<Longrightarrow> synced sr m k (mo_jitter o1) \<Longrightarrow> m \<le> length (sr_frames sr) \<Longrightarrow>
    mo_frames o1 = take k (sr_frames sr) \<Longrightarrow> length (mo_accepted o1) = m \<Longrightarrow>
    \<exists>o2. jitterRun ps decode es o1 = Some (Inr o2) \<and> mo_frames o2 = take (dueFrames sr m k es) (sr_frames sr) \<and>
      length (mo_accepted o2) = m + length (filter (\<lambda>e. \<not> (\<exists>now. e = Pop now)) es)"
proof (induction es arbitrary: m k o1)
  case (Cons e es)
  show ?case
  proof (cases e)
    case (Push sequence timestamp ssrc samples packet now)
    have p: "m < length (sr_frames sr)" "m < k + 25" "now \<le> due sr k + rtpMaxLate" "m = 0 \<Longrightarrow> now = sr_start sr" "punctual sr (m + 1) k es"
      and e: "e = Push (sr_sequence sr + word_of_nat m) (sr_timestamp sr + word_of_nat (160 * m)) (sr_ssrc sr) (sr_frames sr ! m) None now"
      using Cons.prems(1) Push by auto
    obtain j' where j': "pushAudio (sr_sequence sr + word_of_nat m) (sr_timestamp sr + word_of_nat (160 * m)) (sr_ssrc sr) (sr_frames sr ! m) None now (mo_jitter o1) = Inr (j', True)"
      "synced sr (m + 1) k j'" "0 < m \<longrightarrow> \<not> freshStream (mo_jitter o1) j'"
      using synced_push[OF frames Cons.prems(2) p(1-4)] by blast
    define o' where "o' = observe e (Pushed True) j' o1"
    have o': "mo_jitter o' = j'" "mo_frames o' = take k (sr_frames sr)" "length (mo_accepted o') = m + 1"
      using j'(3) Cons.prems(4,5) by (auto simp: o'_def observe_def Push Let_def)
    have step: "jitterStep ps decode e (mo_jitter o1) = Some (Inr (j', Pushed True))"
      unfolding e using j'(1) by (simp add: jitterStep_def)
    have "\<exists>o2. jitterRun ps decode es o' = Some (Inr o2) \<and> mo_frames o2 = take (dueFrames sr (m + 1) k es) (sr_frames sr) \<and>
      length (mo_accepted o2) = m + 1 + length (filter (\<lambda>e. \<not> (\<exists>now. e = Pop now)) es)"
      using Cons.IH[OF p(5), of o'] j'(2) o' p(1) by simp
    then show ?thesis using step Push by (simp add: o'_def)
  next
    case (Pop now)
    have late: "now \<le> due sr k + rtpMaxLate" if "m \<noteq> 0" using Cons.prems(1) Pop that by (auto split: if_splits)
    note pop = synced_pop[OF frames Cons.prems(3,2) late, of ps decode]
    show ?thesis
    proof (cases "m = 0 \<or> now < due sr k")
      case True
      then obtain wait where "pop ps decode now (mo_jitter o1) = Some (Inr (mo_jitter o1, None, wait))" using pop by auto
      moreover have "punctual sr m k es" using Cons.prems(1) Pop True by simp
      moreover have "observe e (Played None wait) (mo_jitter o1) o1 = o1" by (cases o1) (simp add: observe_def Pop)
      ultimately show ?thesis using Cons.IH[of m k o1] Cons.prems(2-) True Pop
        by (simp add: jitterStep_def)
    next
      case False
      then have c: "k < m" "punctual sr m (k + 1) es" using Cons.prems(1) Pop by auto
      then obtain j' where j': "pop ps decode now (mo_jitter o1) = Some (Inr (j', Some (sr_frames sr ! k), 0))" "synced sr m (k + 1) j'"
        using pop False by auto
      define o' where "o' = observe e (Played (Some (sr_frames sr ! k)) 0) j' o1"
      have o': "mo_jitter o' = j'" "mo_frames o' = take (k + 1) (sr_frames sr)" "length (mo_accepted o') = m"
        using Cons.prems(3,4,5) c(1) by (simp_all add: o'_def observe_def Pop Let_def take_Suc_conv_app_nth)
      have "\<exists>o2. jitterRun ps decode es o' = Some (Inr o2) \<and> mo_frames o2 = take (dueFrames sr m (k + 1) es) (sr_frames sr) \<and>
        length (mo_accepted o2) = m + length (filter (\<lambda>e. \<not> (\<exists>now. e = Pop now)) es)"
        using Cons.IH[OF c(2), of o'] j'(2) o' Cons.prems(3) by simp
      then show ?thesis using j'(1) False Pop by (simp add: jitterStep_def o'_def)
    qed
  qed (use Cons.prems in simp)
qed simp

text \<open>C20: A punctual G.711 stream is played as it was sent. When the packets of a stream come in order, no more than 24
  frames ahead of the reader, and the reader asks at any times but is never more than 120 ms behind, then every
  packet is accepted, a reader that comes early is told to wait, and the frames played are exactly the frames
  sent, in order and sample for sample, one for each 20 ms from 60 ms after the first packet on.\<close>
theorem punctual_audio_unchanged:
  assumes "\<forall>xs \<in> set (sr_frames sr). length xs = 160" and "punctual sr 0 0 es"
  shows "\<exists>m. jitterRun ps decode es (observing None) = Some (Inr m) \<and>
    mo_frames m = take (dueFrames sr 0 0 es) (sr_frames sr) \<and>
    length (mo_accepted m) = length (filter (\<lambda>e. \<not> (\<exists>now. e = Pop now)) es)"
proof -
  have "synced sr 0 0 (mo_jitter (observing None :: 'a observed))" by (simp add: synced_def observing_def newJitter_def)
  then show ?thesis using punctual_run[OF assms, of "observing None" ps decode] by (simp add: observing_def)
qed

definition demo_stream :: stream where
  "demo_stream = \<lparr>sr_sequence = 65535, sr_timestamp = 4294967200, sr_ssrc = 7, sr_start = 0, sr_frames = [replicate 160 3, replicate 160 4]\<rparr>"

text \<open>Two packets across the wrap of both counters, three reads: the first is early.\<close>

theorem punctual_audio_unchanged_witness:
  "\<exists>m. jitterRun no_pitch no_decoder
      [Push 65535 4294967200 7 (replicate 160 3) None 0, Pop (millis 10), Push 0 64 7 (replicate 160 4) None (millis 21),
       Pop (millis 60), Pop (millis 81)] (observing None) = Some (Inr m) \<and> mo_frames m = [replicate 160 3, replicate 160 4]"
proof -
  let ?es = "[Push 65535 4294967200 7 (replicate 160 3) None 0, Pop (millis 10), Push 0 64 7 (replicate 160 4) None (millis 21),
       Pop (millis 60), Pop (millis 81)]"
  have "\<forall>xs \<in> set (sr_frames demo_stream). length xs = 160" by (simp add: demo_stream_def)
  moreover have "punctual demo_stream 0 0 ?es" by (simp add: demo_stream_def due_def)
  moreover have "dueFrames demo_stream 0 0 ?es = 2" by (simp add: demo_stream_def due_def)
  ultimately show ?thesis using punctual_audio_unchanged[of demo_stream ?es no_pitch no_decoder] by (auto simp: demo_stream_def)
qed

end
