(* ===== verification/Rtp.thy ===== *)
theory Rtp
  imports Jitter
begin

text \<open>
  RTP media of \<open>backend/internal/vocat/vowifi/ims/rtp_media.go\<close>: G.711, the packets \<open>WritePCM\<close> sends and the
  loop of \<open>receive\<close> that feeds the playout buffer of Jitter. The sockets are parameters: \<open>send\<close> says whether a
  datagram could be written. The compressed encoders are functions of their own state.
\<close>

subsection \<open>G.711\<close>

text \<open>\<open>for mask := 0x4000; exponent > 0 && value&mask == 0; mask >>= 1\<close>, the mask given by its exponent.\<close>

fun muExponent :: "int \<Rightarrow> nat \<Rightarrow> nat" where
  "muExponent value 0 = 0"
| "muExponent value (Suc e) = (if \<not> bit value (Suc e + 7) then muExponent value e else Suc e)"

definition linearToMuLaw :: "int \<Rightarrow> byte" where
  "linearToMuLaw sample =
    (let (sign, value) = (if sample < 0 then (0x80, min 32767 (- sample)) else (0, sample));
         value = min 32635 (value + 132);
         exponent = muExponent value 7;
         mantissa = drop_bit (exponent + 3) value AND 0x0F
     in NOT (sign OR word_of_nat (exponent * 16) OR word_of_int mantissa))"

definition muLawToLinear :: "byte \<Rightarrow> int" where
  "muLawToLinear value0 =
    (let value = NOT value0;
         magnitude = push_bit (unat (drop_bit 4 (value AND 0x70))) (push_bit 3 (uint value AND 0x0F) + 132) - 132
     in if value AND 0x80 \<noteq> 0 then int16 (- magnitude) else int16 magnitude)"

text \<open>\<open>for threshold := 512; exponent < 7 && value >= threshold; threshold <<= 1\<close>.\<close>

fun aExponent :: "nat \<Rightarrow> int \<Rightarrow> nat" where
  "aExponent 0 value = 7"
| "aExponent (Suc n) value = (if value \<ge> 2 ^ (14 - n) then aExponent n value else 6 - n)"

definition linearToALaw :: "int \<Rightarrow> byte" where
  "linearToALaw sample =
    (let (mask, value) = (if sample < 0 then (0x55, - sample - 1) else (0xD5, sample));
         value = min 32767 value;
         encoded = (if value < 256 then word_of_int (drop_bit 4 value)
           else let exponent = aExponent 6 value in word_of_nat (exponent * 16) OR word_of_int (drop_bit (exponent + 3) value AND 0x0F))
     in encoded XOR mask)"

definition aLawToLinear :: "byte \<Rightarrow> int" where
  "aLawToLinear value0 =
    (let value = value0 XOR 0x55;
         magnitude = push_bit 4 (uint value AND 0x0F) + 8;
         exponent = unat (drop_bit 4 (value AND 0x70));
         magnitude = (if exponent \<noteq> 0 then push_bit (exponent - 1) (magnitude + 0x100) else magnitude)
     in if value AND 0x80 = 0 then int16 (- magnitude) else int16 magnitude)"

subsection \<open>State\<close>

text \<open>
  A remote address is an IP and a port. The codec is the empty string until one is negotiated; \<open>rm_amr\<close> is the
  negotiated AMR codec, and \<open>rm_encoder\<close> the state of the compressed encoder.
\<close>

record ('c, 'e) rtp_media =
  rm_closed :: bool
  rm_remote :: "(string \<times> int) option"
  rm_codec :: string
  rm_payloadType :: byte
  rm_amr :: "amr_options option"
  rm_encoder :: 'e
  rm_pending :: "int list"
  rm_sequence :: "16 word"
  rm_timestamp :: "32 word"
  rm_ssrc :: "32 word"
  rm_jitter :: "'c jitter"
  rm_wake :: bool

datatype rtp_error = RTPClosed | RTPNotNegotiated | RTPEncode | RTPSend

text \<open>The compressed encoders: from their state and 160 samples to a payload, or an error.\<close>

type_synonym 'e encoder = "'e \<Rightarrow> int list \<Rightarrow> 'e \<times> byte list option"

definition clockScale :: "amr_options \<Rightarrow> 32 word" where
  "clockScale options = (if ao_wide options then 2 else 1)"

subsection \<open>Sending\<close>

definition rtpHeader :: "byte \<Rightarrow> 16 word \<Rightarrow> 32 word \<Rightarrow> 32 word \<Rightarrow> byte list" where
  "rtpHeader payload sequence timestamp ssrc = [0x80, payload] @ put16 sequence @ put32 timestamp @ put32 ssrc"

text \<open>The payload of 160 samples with the step of the clock; None when the encoder fails.\<close>

definition encodeFrame ::
  "'e encoder \<Rightarrow> 'e encoder \<Rightarrow> int list \<Rightarrow> ('c, 'e) rtp_media \<Rightarrow> ('c, 'e) rtp_media \<times> (byte list \<times> 32 word) option" where
  "encodeFrame opus amr frame m =
    (if rm_codec m = ''OPUS'' then
       case opus (rm_encoder m) frame of (e, data) \<Rightarrow> (m\<lparr>rm_encoder := e\<rparr>, map_option (\<lambda>d. (d, 160 * 6)) data)
     else case rm_amr m of
       Some options \<Rightarrow> (case amr (rm_encoder m) frame of (e, data) \<Rightarrow> (m\<lparr>rm_encoder := e\<rparr>, map_option (\<lambda>d. (d, 160 * clockScale options)) data))
     | None \<Rightarrow> (m, Some (map (if rm_codec m = ''PCMA'' then linearToALaw else linearToMuLaw) frame, 160)))"

lemma rm_pending_encodeFrame: "encodeFrame opus amr frame m = (m', r) \<Longrightarrow> rm_pending m' = rm_pending m"
  by (auto simp: encodeFrame_def split: if_splits prod.splits option.splits)

text \<open>The loop of \<open>WritePCM\<close>: the datagrams that went out, and how it ended.\<close>

function writeLoop ::
  "'e encoder \<Rightarrow> 'e encoder \<Rightarrow> (byte list \<Rightarrow> bool) \<Rightarrow> ('c, 'e) rtp_media \<Rightarrow> ('c, 'e) rtp_media \<times> byte list list \<times> rtp_error option" where
  "writeLoop opus amr send m =
    (if length (rm_pending m) < rtpPacketSamples then (m, [], None)
     else case encodeFrame opus amr (take rtpPacketSamples (rm_pending m)) m of
       (m', None) \<Rightarrow> (m', [], Some RTPEncode)
     | (m', Some (data, step)) \<Rightarrow>
         let packet = rtpHeader (rm_payloadType m') (rm_sequence m') (rm_timestamp m') (rm_ssrc m') @ data in
         if \<not> send packet then (m', [], Some RTPSend)
         else
           let (m'', packets, e) = writeLoop opus amr send
             (m'\<lparr>rm_pending := drop rtpPacketSamples (rm_pending m'), rm_sequence := rm_sequence m' + 1, rm_timestamp := rm_timestamp m' + step\<rparr>)
           in (m'', packet # packets, e))"
  by pat_completeness auto

termination
  by (relation "measure (\<lambda>(_, _, _, m). length (rm_pending m))") (auto dest: sym[THEN rm_pending_encodeFrame])

definition WritePCM ::
  "'e encoder \<Rightarrow> 'e encoder \<Rightarrow> (byte list \<Rightarrow> bool) \<Rightarrow> int list \<Rightarrow> ('c, 'e) rtp_media \<Rightarrow> ('c, 'e) rtp_media \<times> byte list list \<times> rtp_error option" where
  "WritePCM opus amr send samples m =
    (if rm_closed m then (m, [], Some RTPClosed)
     else if rm_remote m = None \<or> (rm_codec m \<noteq> ''PCMA'' \<and> rm_codec m \<noteq> ''PCMU'' \<and> rm_codec m \<noteq> ''OPUS'' \<and> rm_amr m = None)
     then (m, [], Some RTPNotNegotiated)
     else writeLoop opus amr send (m\<lparr>rm_pending := rm_pending m @ samples\<rparr>))"

subsection \<open>Receiving\<close>

record rtp_packet =
  rp_payloadType :: byte
  rp_sequence :: "16 word"
  rp_timestamp :: "32 word"
  rp_ssrc :: "32 word"
  rp_data :: "byte list"

text \<open>The checks of \<open>receive\<close> on a datagram, from the end back: None is \<open>continue\<close>, and reads out of range are panics.\<close>

definition rtpFields :: "byte list \<Rightarrow> nat \<Rightarrow> nat \<Rightarrow> (unit, rtp_packet option) res" where
  "rtpFields packet header count =
    (if count - header > 1600 then Inr None
     else
       rbind (idx packet 1) (\<lambda>b1.
       rbind (get16 packet 2) (\<lambda>sequence.
       rbind (get32 packet 4) (\<lambda>timestamp.
       rbind (get32 packet 8) (\<lambda>ssrc.
       rbind (slice packet header count) (\<lambda>data.
         Inr (Some \<lparr>rp_payloadType = b1, rp_sequence = sequence, rp_timestamp = timestamp, rp_ssrc = ssrc, rp_data = data\<rparr>)))))))"

definition rtpPayload :: "byte list \<Rightarrow> byte \<Rightarrow> nat \<Rightarrow> (unit, rtp_packet option) res" where
  "rtpPayload packet b0 header =
    (if header \<ge> length packet then Inr None
     else if b0 AND 0x20 \<noteq> 0 then
       rbind (idx packet (length packet - 1)) (\<lambda>padding.
         if padding = 0 \<or> unat padding \<ge> length packet - header then Inr None
         else rtpFields packet header (length packet - unat padding))
     else rtpFields packet header (length packet))"

definition parseRTP :: "byte list \<Rightarrow> (unit, rtp_packet option) res" where
  "parseRTP packet =
    (if length packet < 12 then Inr None
     else
       rbind (idx packet 0) (\<lambda>b0.
       if drop_bit 6 b0 \<noteq> 2 then Inr None
       else
         let header = 12 + unat (b0 AND 0x0F) * 4 in
         if b0 AND 0x10 \<noteq> 0 then
           (if length packet < header + 4 then Inr None
            else rbind (get16 packet (header + 2)) (\<lambda>n. rtpPayload packet b0 (header + 4 + unat n * 4)))
         else rtpPayload packet b0 header))"

text \<open>What \<open>receive\<close> does with a datagram from \<open>source\<close>, and the mode it asks of the AMR encoder.\<close>

definition receivePacket ::
  "(byte list \<Rightarrow> int) option \<Rightarrow> time \<Rightarrow> string \<times> int \<Rightarrow> byte list \<Rightarrow> ('c, 'e) rtp_media \<Rightarrow> (unit, ('c, 'e) rtp_media \<times> int option) res" where
  "receivePacket packetSamples now source packet m =
    rbind (parseRTP packet) (\<lambda>parsed.
    case parsed of
      None \<Rightarrow> Inr (m, None)
    | Some p \<Rightarrow>
        (case rm_remote m of
           None \<Rightarrow> Inr (m, None)
         | Some (ip, port) \<Rightarrow>
             if ip \<noteq> fst source \<or> rp_payloadType p AND 0x7F \<noteq> rm_payloadType m then Inr (m, None)
             else
               rbind (if rm_codec m = ''OPUS'' then
                   rbind (pushOpus packetSamples (rp_sequence p) (rp_timestamp p) (rp_ssrc p) (rp_data p) now (rm_jitter m)) (\<lambda>r. Inr (r, None))
                 else case rm_amr m of
                   Some options \<Rightarrow> pushAMR (rp_sequence p) (rp_timestamp p) (rp_ssrc p) (rp_data p) options now (rm_jitter m)
                 | None \<Rightarrow>
                     rbind (jitterPush (rp_sequence p) (rp_timestamp p) (rp_ssrc p)
                       (map (if rm_codec m = ''PCMA'' then aLawToLinear else muLawToLinear) (rp_data p)) now (rm_jitter m)) (\<lambda>r. Inr (r, None)))
                (\<lambda>((j, accepted), mode).
                  Inr (if accepted then m\<lparr>rm_jitter := j, rm_remote := Some (ip, snd source), rm_wake := True\<rparr> else m\<lparr>rm_jitter := j\<rparr>, mode))))"

end
