(* ===== verification/Rtp_Props.thy ===== *)
theory Rtp_Props
  imports Rtp
begin

text \<open>
  Properties of Rtp: G.711 is accurate to one part in 32, the packets of \<open>WritePCM\<close> are read back by \<open>receive\<close> and lose
  no sample when a write fails, and no datagram makes \<open>receive\<close> read out of range.
\<close>

subsection \<open>G.711\<close>

text \<open>The fields of an encoded octet, for every exponent and mantissa.\<close>

definition lawByte :: "nat \<Rightarrow> int \<Rightarrow> byte" where
  "lawByte e q = word_of_nat (e * 16) OR word_of_int q"

definition lawFields :: "nat \<Rightarrow> nat \<Rightarrow> bool" where
  "lawFields e q \<longleftrightarrow> (let b = lawByte e (int q) in
     uint b AND 0x0F = int q \<and> unat (drop_bit 4 (b AND 0x70)) = e \<and> b AND 0x80 = 0 \<and>
     uint (b OR 0x80) AND 0x0F = int q \<and> unat (drop_bit 4 ((b OR 0x80) AND 0x70)) = e \<and> (b OR 0x80) AND 0x80 \<noteq> 0 \<and> b XOR 0x80 = b OR 0x80)"

lemma lawFields_all: "list_all (\<lambda>e. list_all (lawFields e) [0..<16]) [0..<8]"
  by code_simp

lemma lawFields:
  assumes "e < 8" "q < 16"
  shows "lawFields e q"
  using lawFields_all assms by (auto simp: list_all_iff)

lemma div_bounds:
  fixes v p :: int
  assumes "0 < p" "16 * p \<le> v" "v < 32 * p"
  shows "16 \<le> v div p \<and> v div p < 32"
proof
  show "16 \<le> v div p" using zdiv_mono1[OF assms(2,1)] assms(1) by simp
  show "v div p < 32"
  proof (rule ccontr)
    assume "\<not> v div p < 32"
    then have "p * 32 \<le> p * (v div p)" using assms(1) by simp
    also have "\<dots> \<le> v" using assms(1) mult_div_mod_eq[of p v] pos_mod_sign[of p v] by linarith
    finally show False using assms(3) by simp
  qed
qed

text \<open>The mantissa of a value in the segment of exponent \<open>e\<close>.\<close>

lemma mantissa:
  fixes v :: int
  assumes "2 ^ (e + 7) \<le> v" and "v < 2 ^ (e + 8)"
  shows "drop_bit (e + 3) v AND 0x0F = v div 2 ^ (e + 3) - 16 \<and> 0 \<le> v div 2 ^ (e + 3) - 16 \<and> v div 2 ^ (e + 3) - 16 < 16"
proof -
  define w where "w = v div 2 ^ (e + 3)"
  have "2 ^ (e + 7) = 16 * (2 ^ (e + 3) :: int)" "2 ^ (e + 8) = 32 * (2 ^ (e + 3) :: int)" by (simp_all add: power_add)
  then have "16 \<le> w" "w < 32" using assms div_bounds[of "2 ^ (e + 3)" v] by (simp_all add: w_def)
  moreover have "drop_bit (e + 3) v AND 15 = w mod 16"
    using take_bit_eq_mask[of 4 "drop_bit (e + 3) v"] by (simp add: w_def drop_bit_eq_div take_bit_eq_mod mask_eq_exp_minus_1)
  ultimately show ?thesis by (simp add: w_def[symmetric]) presburger
qed

text \<open>What is encoded and decoded again is the middle of the interval of its step.\<close>

lemma quantised:
  fixes v :: int
  assumes "2 ^ (e + 7) \<le> v" and "v < 2 ^ (e + 8)"
  shows "\<bar>(v div 2 ^ (e + 3)) * 2 ^ (e + 3) + 2 ^ (e + 2) - v\<bar> \<le> 2 ^ (e + 2)" and "32 * 2 ^ (e + 2) \<le> v"
    and "\<bar>(v div 2 ^ (e + 3)) * 2 ^ (e + 3) + 2 ^ (e + 2) - (v + 1)\<bar> \<le> 2 ^ (e + 2)"
proof -
  have p: "(2 :: int) ^ (e + 3) = 2 * 2 ^ (e + 2)" "(2 :: int) ^ (e + 7) = 32 * 2 ^ (e + 2)" by (simp_all add: power_add)
  have m: "(v div 2 ^ (e + 3)) * 2 ^ (e + 3) + v mod 2 ^ (e + 3) = v" "0 \<le> v mod 2 ^ (e + 3)" "v mod 2 ^ (e + 3) < 2 ^ (e + 3)"
    by (simp_all only: div_mult_mod_eq pos_mod_sign pos_mod_bound zero_less_power zero_less_numeral)
  show "\<bar>(v div 2 ^ (e + 3)) * 2 ^ (e + 3) + 2 ^ (e + 2) - v\<bar> \<le> 2 ^ (e + 2)"
    "\<bar>(v div 2 ^ (e + 3)) * 2 ^ (e + 3) + 2 ^ (e + 2) - (v + 1)\<bar> \<le> 2 ^ (e + 2)" "32 * 2 ^ (e + 2) \<le> v"
    using m p assms(1) by linarith+
qed

text \<open>The segment a value falls in.\<close>

lemma bit_top:
  fixes v :: int
  assumes "0 \<le> v" and "v < 2 ^ Suc n"
  shows "bit v n \<longleftrightarrow> 2 ^ n \<le> v"
proof (cases "2 ^ n \<le> v")
  case True
  have "(v - 2 ^ n) div 2 ^ n = 0" using assms True by (intro div_pos_pos_trivial) simp_all
  then have "v div 2 ^ n = 1" using div_add_self2[of "2 ^ n" "v - 2 ^ n"] by simp
  then show ?thesis using True by (simp add: bit_iff_odd)
next
  case False
  then show ?thesis using assms(1) by (simp add: bit_iff_odd div_pos_pos_trivial)
qed

lemma muExponent_segment:
  fixes v :: int
  shows "0 \<le> v \<Longrightarrow> v < 2 ^ (n + 8) \<Longrightarrow> muExponent v n \<le> n \<and> v < 2 ^ (muExponent v n + 8) \<and> (muExponent v n = 0 \<or> 2 ^ (muExponent v n + 7) \<le> v)"
proof (induction n)
  case (Suc n)
  have b: "bit v (Suc n + 7) \<longleftrightarrow> 2 ^ (n + 8) \<le> v" using bit_top[of v "Suc n + 7"] Suc.prems by (simp add: add.commute)
  show ?case
  proof (cases "v < 2 ^ (n + 8)")
    case True
    then show ?thesis using Suc b by auto
  next
    case False
    then show ?thesis using Suc.prems b by (simp add: not_less add.commute)
  qed
qed simp

lemma aExponent_segment:
  fixes v :: int
  shows "n \<le> 6 \<Longrightarrow> 2 ^ (14 - n) \<le> v \<Longrightarrow> v < 32768 \<Longrightarrow>
    1 \<le> aExponent n v \<and> aExponent n v < 8 \<and> 2 ^ (aExponent n v + 7) \<le> v \<and> v < 2 ^ (aExponent n v + 8)"
proof (induction n)
  case (Suc n)
  show ?case
  proof (cases "2 ^ (14 - n) \<le> v")
    case True
    then show ?thesis using Suc by simp
  next
    case False
    have "6 - n + 7 = 14 - Suc n" "6 - n + 8 = 14 - n" using Suc.prems(1) by simp_all
    then show ?thesis using False Suc.prems by auto
  qed
qed simp

lemma aLaw_fields:
  assumes "e < 8" "q < 16"
  shows "aLawToLinear (lawByte e (int q) XOR 0x55) = int16 (- (if e = 0 then int q * 16 + 8 else (int q * 16 + 264) * 2 ^ (e - 1)))"
    and "aLawToLinear (lawByte e (int q) XOR 0xD5) = int16 (if e = 0 then int q * 16 + 8 else (int q * 16 + 264) * 2 ^ (e - 1))"
proof -
  let ?b = "lawByte e (int q)"
  have f: "uint ?b AND 0x0F = int q" "unat (drop_bit 4 (?b AND 0x70)) = e" "?b AND 0x80 = 0"
    "uint (?b OR 0x80) AND 0x0F = int q" "unat (drop_bit 4 ((?b OR 0x80) AND 0x70)) = e" "(?b OR 0x80) AND 0x80 \<noteq> 0" "?b XOR 0x80 = ?b OR 0x80"
    using lawFields[OF assms] unfolding lawFields_def Let_def by blast+
  have x: "(?b XOR 0x55) XOR 0x55 = ?b" "(?b XOR 0xD5) XOR 0x55 = ?b OR 0x80" unfolding xor.assoc using f(7) by simp_all
  show "aLawToLinear (?b XOR 0x55) = int16 (- (if e = 0 then int q * 16 + 8 else (int q * 16 + 264) * 2 ^ (e - 1)))"
    unfolding aLawToLinear_def Let_def x f(1,2,3) by (simp add: push_bit_eq_mult add.commute)
  show "aLawToLinear (?b XOR 0xD5) = int16 (if e = 0 then int q * 16 + 8 else (int q * 16 + 264) * 2 ^ (e - 1))"
    unfolding aLawToLinear_def Let_def x f(4,5) using f(6) by (simp add: push_bit_eq_mult add.commute)
qed

lemma muLaw_fields:
  assumes "e < 8" "q < 16"
  shows "muLawToLinear (NOT (lawByte e (int q))) = int16 ((int q * 8 + 132) * 2 ^ e - 132)"
    and "muLawToLinear (NOT (0x80 OR lawByte e (int q))) = int16 (- ((int q * 8 + 132) * 2 ^ e - 132))"
proof -
  let ?b = "lawByte e (int q)"
  have f: "uint ?b AND 0x0F = int q" "unat (drop_bit 4 (?b AND 0x70)) = e" "?b AND 0x80 = 0"
    "uint (?b OR 0x80) AND 0x0F = int q" "unat (drop_bit 4 ((?b OR 0x80) AND 0x70)) = e" "(?b OR 0x80) AND 0x80 \<noteq> 0"
    using lawFields[OF assms] unfolding lawFields_def Let_def by blast+
  have m: "push_bit 3 (uint c AND 0x0F) = push_bit 3 (int q)" if "uint c AND 0x0F = int q" for c :: byte using that by simp
  show "muLawToLinear (NOT ?b) = int16 ((int q * 8 + 132) * 2 ^ e - 132)"
    unfolding muLawToLinear_def Let_def bit.double_compl f(1,2,3) by (simp add: push_bit_eq_mult add.commute)
  show "muLawToLinear (NOT (0x80 OR ?b)) = int16 (- ((int q * 8 + 132) * 2 ^ e - 132))"
    unfolding muLawToLinear_def Let_def bit.double_compl or.commute[of "0x80" ?b] f(4,5) using f(6) by (simp add: push_bit_eq_mult add.commute)
qed

text \<open>The octet of a magnitude, before the sign goes in.\<close>

definition aCode :: "int \<Rightarrow> byte" where
  "aCode v = (if v < 256 then word_of_int (drop_bit 4 v)
     else let exponent = aExponent 6 v in word_of_nat (exponent * 16) OR word_of_int (drop_bit (exponent + 3) v AND 0x0F))"

definition muCode :: "int \<Rightarrow> byte" where
  "muCode v = word_of_nat (muExponent v 7 * 16) OR word_of_int (drop_bit (muExponent v 7 + 3) v AND 0x0F)"

lemma linearToALaw_code:
  "linearToALaw s = (if s < 0 then aCode (min 32767 (- s - 1)) XOR 0x55 else aCode (min 32767 s) XOR 0xD5)"
  unfolding linearToALaw_def aCode_def Let_def by simp

lemma linearToMuLaw_code:
  "linearToMuLaw s = (if s < 0 then NOT (0x80 OR muCode (min 32635 (min 32767 (- s) + 132))) else NOT (muCode (min 32635 (s + 132))))"
  by (simp add: linearToMuLaw_def muCode_def Let_def or.assoc)

lemma aCode_magnitude:
  fixes v :: int
  assumes "0 \<le> v" and "v < 32768"
  shows "\<exists>r. aLawToLinear (aCode v XOR 0xD5) = r \<and> aLawToLinear (aCode v XOR 0x55) = - r \<and>
         \<bar>r - v\<bar> \<le> max 8 (v div 32) \<and> \<bar>r - (v + 1)\<bar> \<le> max 8 (v div 32) \<and> 0 \<le> r \<and> r \<le> 32256"
proof (cases "v < 256")
  case True
  define k where "k = nat (v div 16)"
  have k: "k < 16" "int k * 16 \<le> v" "v < int k * 16 + 16" using True assms by (auto simp: k_def)
  have "aCode v = lawByte 0 (int k)" using True assms(1) by (simp add: aCode_def lawByte_def drop_bit_eq_div k_def)
  moreover have "sample_ok (int k * 16 + 8)" "sample_ok (- (int k * 16 + 8))" using k(1) by (simp_all add: sample_ok_def)
  ultimately have r: "aLawToLinear (aCode v XOR 0xD5) = int k * 16 + 8" "aLawToLinear (aCode v XOR 0x55) = - (int k * 16 + 8)"
    using aLaw_fields[of 0 k] k(1) by simp_all
  have "\<bar>int k * 16 + 8 - v\<bar> \<le> 8" "\<bar>int k * 16 + 8 - (v + 1)\<bar> \<le> 8" using k(2,3) by linarith+
  then show ?thesis unfolding r using k(1) by (intro exI[of _ "int k * 16 + 8"]) simp
next
  case False
  define e where "e = aExponent 6 v"
  have e: "1 \<le> e" "e < 8" "2 ^ (e + 7) \<le> v" "v < 2 ^ (e + 8)"
    using aExponent_segment[of 6 v] False assms by (simp_all add: e_def)
  define k where "k = nat (v div 2 ^ (e + 3) - 16)"
  have q: "drop_bit (e + 3) v AND 0x0F = int k" "int k = v div 2 ^ (e + 3) - 16" "k < 16" using mantissa[OF e(3,4)] by (auto simp: k_def)
  have b: "aCode v = lawByte e (int k)"
    unfolding aCode_def if_not_P[OF False] Let_def e_def[symmetric] q(1) lawByte_def ..
  define r where "r = (int k * 16 + 264) * 2 ^ (e - 1)"
  have two: "(2 :: int) ^ (e + 3) = 16 * 2 ^ (e - 1)" "(2 :: int) ^ (e + 2) = 8 * 2 ^ (e - 1)"
  proof -
    obtain f where "e = Suc f" using e(1) by (cases e) auto
    then show "(2 :: int) ^ (e + 3) = 16 * 2 ^ (e - 1)" "(2 :: int) ^ (e + 2) = 8 * 2 ^ (e - 1)" by (simp_all add: power_add)
  qed
  have r: "r = (v div 2 ^ (e + 3)) * 2 ^ (e + 3) + 2 ^ (e + 2)"
    unfolding r_def q(2) two by (simp add: algebra_simps)
  have "2 ^ (e + 2) \<le> v div 32" using quantised(2)[OF e(3,4)] by linarith
  then have near: "\<bar>r - v\<bar> \<le> max 8 (v div 32)" "\<bar>r - (v + 1)\<bar> \<le> max 8 (v div 32)"
    using quantised(1,3)[OF e(3,4)] unfolding r by linarith+
  have "e - 1 \<le> 6" using e(2) by simp
  then have "(2 :: int) ^ (e - 1) \<le> 2 ^ 6" by (rule power_increasing) simp
  then have "r \<le> (int k * 16 + 264) * 2 ^ 6" unfolding r_def by (rule mult_left_mono) simp
  then have bounds: "r \<le> 32256" "0 \<le> r" using q(3) by (simp_all add: r_def)
  then have "sample_ok r" "sample_ok (- r)" by (simp_all add: sample_ok_def)
  then have "aLawToLinear (aCode v XOR 0xD5) = r" "aLawToLinear (aCode v XOR 0x55) = - r"
    using aLaw_fields[OF e(2) q(3)] e(1) unfolding b r_def by simp_all
  then show ?thesis using near bounds by blast
qed

lemma muCode_magnitude:
  fixes v :: int
  assumes "132 \<le> v" and "v \<le> 32635"
  shows "\<exists>r. muLawToLinear (NOT (muCode v)) = r \<and> muLawToLinear (NOT (0x80 OR muCode v)) = - r \<and>
         \<bar>r - (v - 132)\<bar> \<le> v div 32 \<and> 0 \<le> r \<and> r \<le> 32124"
proof -
  define e where "e = muExponent v 7"
  have e: "e < 8" "2 ^ (e + 7) \<le> v" "v < 2 ^ (e + 8)"
    using muExponent_segment[of v 7] assms by (auto simp: e_def)
  define k where "k = nat (v div 2 ^ (e + 3) - 16)"
  have q: "drop_bit (e + 3) v AND 0x0F = int k" "int k = v div 2 ^ (e + 3) - 16" "k < 16" using mantissa[OF e(2,3)] by (auto simp: k_def)
  have b: "muCode v = lawByte e (int k)" unfolding muCode_def e_def[symmetric] q(1) lawByte_def ..
  define r where "r = (int k * 8 + 132) * 2 ^ e - 132"
  have two: "(2 :: int) ^ (e + 3) = 8 * 2 ^ e" "(2 :: int) ^ (e + 2) = 4 * 2 ^ e" by (simp_all add: power_add)
  have r: "r = (v div 2 ^ (e + 3)) * 2 ^ (e + 3) + 2 ^ (e + 2) - 132"
    unfolding r_def q(2) two by (simp add: algebra_simps)
  have "2 ^ (e + 2) \<le> v div 32" using quantised(2)[OF e(2,3)] by linarith
  then have near: "\<bar>r - (v - 132)\<bar> \<le> v div 32" using quantised(1)[OF e(2,3)] unfolding r by linarith
  have two_e: "(2 :: int) ^ e \<le> 2 ^ 7" "(1 :: int) \<le> 2 ^ e" using e(1) power_increasing[of e 7 "2 :: int"] by simp_all
  have "(int k * 8 + 132) * 2 ^ e \<le> (int k * 8 + 132) * 2 ^ 7" by (rule mult_left_mono[OF two_e(1)]) simp
  moreover have "132 * 1 \<le> (int k * 8 + 132) * 2 ^ e" by (rule mult_mono[OF _ two_e(2)]) simp_all
  ultimately have bounds: "0 \<le> r" "r \<le> 32124" using q(3) by (simp_all add: r_def)
  then have "sample_ok r" "sample_ok (- r)" by (simp_all add: sample_ok_def)
  then have "muLawToLinear (NOT (muCode v)) = r" "muLawToLinear (NOT (0x80 OR muCode v)) = - r"
    using muLaw_fields[OF e(1) q(3)] by (simp_all add: b r_def[symmetric])
  then show ?thesis using near bounds by blast
qed

text \<open>The sizes mu-law clips all become the largest.\<close>

lemma muCode_clipped: "muLawToLinear (NOT (muCode 32635)) = 32124 \<and> muLawToLinear (NOT (0x80 OR muCode 32635)) = - 32124"
  by code_simp

lemma mu_accurate:
  fixes n :: int
  assumes "0 \<le> n" and "n \<le> 32768"
  shows "\<exists>q. muLawToLinear (NOT (muCode (min 32635 (min 32767 n + 132)))) = q \<and>
    muLawToLinear (NOT (0x80 OR muCode (min 32635 (min 32767 n + 132)))) = - q \<and> \<bar>q - n\<bar> \<le> (n + 132) div 32 \<and> 0 \<le> q \<and> q \<le> 32124"
proof (cases "n \<le> 32503")
  case True
  then have w: "min 32635 (min 32767 n + 132) = n + 132" by simp
  obtain q where "muLawToLinear (NOT (muCode (n + 132))) = q" "muLawToLinear (NOT (0x80 OR muCode (n + 132))) = - q"
    "\<bar>q - (n + 132 - 132)\<bar> \<le> (n + 132) div 32" "0 \<le> q" "q \<le> 32124"
    using muCode_magnitude[of "n + 132"] assms True by auto
  then show ?thesis unfolding w by simp
next
  case False
  then have w: "min 32635 (min 32767 n + 132) = 32635" by simp
  have "1019 \<le> (n + 132) div 32" using False by simp
  then have "\<bar>32124 - n\<bar> \<le> (n + 132) div 32" using False assms(2) by linarith
  then show ?thesis unfolding w using muCode_clipped by simp
qed

lemma a_accurate:
  assumes "sample_ok s"
  shows "\<bar>aLawToLinear (linearToALaw s) - s\<bar> \<le> max 8 (\<bar>s\<bar> div 32) \<and> sample_ok (aLawToLinear (linearToALaw s))"
proof (cases "s < 0")
  case True
  have v: "0 \<le> - s - 1" "- s - 1 < 32768" "min 32767 (- s - 1) = - s - 1" using True assms by (auto simp: sample_ok_def)
  obtain r where r: "aLawToLinear (aCode (- s - 1) XOR 0x55) = - r" "\<bar>r - (- s - 1 + 1)\<bar> \<le> max 8 ((- s - 1) div 32)" "0 \<le> r" "r \<le> 32256"
    using aCode_magnitude[OF v(1,2)] by blast
  have e: "aLawToLinear (linearToALaw s) = - r" using True r(1) v(3) by (simp add: linearToALaw_code)
  have "(- s - 1) div 32 \<le> - s div 32" by (rule zdiv_mono1) simp_all
  then have "\<bar>- r - s\<bar> \<le> max 8 (\<bar>s\<bar> div 32)" using r(2) True by simp
  then show ?thesis unfolding e using r(3,4) by (simp add: sample_ok_def)
next
  case False
  have v: "0 \<le> s" "s < 32768" "min 32767 s = s" using False assms by (auto simp: sample_ok_def)
  obtain r where r: "aLawToLinear (aCode s XOR 0xD5) = r" "\<bar>r - s\<bar> \<le> max 8 (s div 32)" "0 \<le> r" "r \<le> 32256"
    using aCode_magnitude[OF v(1,2)] by blast
  have e: "aLawToLinear (linearToALaw s) = r" using False r(1) v(3) by (simp add: linearToALaw_code)
  show ?thesis unfolding e using r(2-4) v(1) by (simp add: sample_ok_def)
qed

text \<open>G.711 is accurate. A sample that was encoded and decoded again is a 16-bit sample, off by at most a 32nd of its
  size (8 at the least) with A-law, and by at most a 32nd of its size plus 132 with mu-law, over the whole range,
  the extremes that are clipped included.\<close>
theorem g711_accurate:
  assumes "sample_ok s"
  shows "\<bar>aLawToLinear (linearToALaw s) - s\<bar> \<le> max 8 (\<bar>s\<bar> div 32) \<and> sample_ok (aLawToLinear (linearToALaw s)) \<and>
    \<bar>muLawToLinear (linearToMuLaw s) - s\<bar> \<le> (\<bar>s\<bar> + 132) div 32 \<and> sample_ok (muLawToLinear (linearToMuLaw s))"
proof -
  have n: "0 \<le> \<bar>s\<bar>" "\<bar>s\<bar> \<le> 32768" using assms by (auto simp: sample_ok_def)
  obtain q where q: "muLawToLinear (NOT (muCode (min 32635 (min 32767 \<bar>s\<bar> + 132)))) = q"
    "muLawToLinear (NOT (0x80 OR muCode (min 32635 (min 32767 \<bar>s\<bar> + 132)))) = - q" "\<bar>q - \<bar>s\<bar>\<bar> \<le> (\<bar>s\<bar> + 132) div 32" "0 \<le> q" "q \<le> 32124"
    using mu_accurate[OF n] by blast
  have "muLawToLinear (linearToMuLaw s) = (if s < 0 then - q else q)"
  proof (cases "s < 0")
    case True
    then show ?thesis using q(2) by (simp add: linearToMuLaw_code)
  next
    case False
    then have "min 32767 \<bar>s\<bar> = s" using assms by (simp add: sample_ok_def)
    then show ?thesis using q(1) False by (simp add: linearToMuLaw_code)
  qed
  then have "\<bar>muLawToLinear (linearToMuLaw s) - s\<bar> \<le> (\<bar>s\<bar> + 132) div 32 \<and> sample_ok (muLawToLinear (linearToMuLaw s))"
    using q(3-5) by (auto simp: sample_ok_def)
  then show ?thesis using a_accurate[OF assms] by blast
qed

theorem g711_accurate_witness:
  "\<bar>aLawToLinear (linearToALaw 1000) - 1000\<bar> \<le> 31 \<and> \<bar>muLawToLinear (linearToMuLaw 1000) - 1000\<bar> \<le> 35"
  using g711_accurate[of 1000] by (simp add: sample_ok_def)

subsection \<open>Packets\<close>

lemma parse_rtp:
  assumes "payload < 0x80" and "0 < length data" and "length data \<le> 1600"
  shows "parseRTP (rtpHeader payload sequence timestamp ssrc @ data) =
    Inr (Some \<lparr>rp_payloadType = payload, rp_sequence = sequence, rp_timestamp = timestamp, rp_ssrc = ssrc, rp_data = data\<rparr>)"
proof -
  let ?p = "rtpHeader payload sequence timestamp ssrc @ data"
  have len: "length ?p = 12 + length data" by (simp add: rtpHeader_def)
  have b0: "idx ?p 0 = Inr 0x80" "idx ?p 1 = Inr payload" by (simp_all add: idx_def rtpHeader_def)
  have q: "get16 ?p 2 = Inr sequence" using get16_append2[of "[0x80, payload]" "put16 sequence @ put32 timestamp @ put32 ssrc @ data" 0]
    by (simp add: rtpHeader_def get16_def idx_def put16_def)
  have t: "get32 ?p 4 = Inr timestamp" "get32 ?p 8 = Inr ssrc"
    by (simp_all add: rtpHeader_def get32_def idx_def put16_def put32_def)
  have d: "slice ?p 12 (12 + length data) = Inr data" by (simp add: slice_def rtpHeader_def)
  show ?thesis unfolding parseRTP_def rtpPayload_def rtpFields_def len b0 using assms(2,3) by (simp add: q t d)
qed

definition lawEncode :: "string \<Rightarrow> int \<Rightarrow> byte" where
  "lawEncode codec = (if codec = ''PCMA'' then linearToALaw else linearToMuLaw)"

text \<open>The frame a packet carries, and the packet with its number.\<close>

definition frameOf :: "int list \<Rightarrow> nat \<Rightarrow> int list" where
  "frameOf samples i = take 160 (drop (160 * i) samples)"

definition packetOf :: "('c, 'e) rtp_media \<Rightarrow> nat \<Rightarrow> byte list" where
  "packetOf m i = rtpHeader (rm_payloadType m) (rm_sequence m + word_of_nat i) (rm_timestamp m + word_of_nat (160 * i)) (rm_ssrc m) @
     map (lawEncode (rm_codec m)) (frameOf (rm_pending m) i)"

lemma length_frameOf: "160 * (i + 1) \<le> length samples \<Longrightarrow> length (frameOf samples i) = 160"
  by (simp add: frameOf_def)

lemma frameOf_drop: "frameOf (drop 160 samples) i = frameOf samples (Suc i)"
  by (simp add: frameOf_def add.commute)

text \<open>However the writes end, what went out is a prefix of the frames and the rest is kept, with the numbers in step.\<close>

lemma writeLoop_prefix:
  "rm_codec m \<noteq> ''OPUS'' \<Longrightarrow> rm_amr m = None \<Longrightarrow> writeLoop opus amr send m = (m', packets, e) \<Longrightarrow>
    160 * length packets \<le> length (rm_pending m) \<and>
    m' = m\<lparr>rm_pending := drop (160 * length packets) (rm_pending m), rm_sequence := rm_sequence m + word_of_nat (length packets),
           rm_timestamp := rm_timestamp m + word_of_nat (160 * length packets)\<rparr> \<and>
    packets = map (packetOf m) [0..<length packets] \<and>
    (e = None \<longleftrightarrow> length (rm_pending m) < 160 * (length packets + 1)) \<and>
    (e \<noteq> None \<longrightarrow> e = Some RTPSend \<and> \<not> send (packetOf m (length packets)))"
proof (induction opus amr send m arbitrary: m' packets e rule: writeLoop.induct)
  case (1 opus amr send m)
  let ?frame = "take rtpPacketSamples (rm_pending m)"
  have enc: "encodeFrame opus amr ?frame m = (m, Some (map (lawEncode (rm_codec m)) ?frame, 160))"
    using "1.prems"(1,2) by (simp add: encodeFrame_def lawEncode_def)
  have first: "rtpHeader (rm_payloadType m) (rm_sequence m) (rm_timestamp m) (rm_ssrc m) @ map (lawEncode (rm_codec m)) ?frame = packetOf m 0"
    by (simp add: packetOf_def frameOf_def)
  show ?case
  proof (cases "length (rm_pending m) < rtpPacketSamples")
    case True
    then show ?thesis using "1.prems"(3) by (simp add: writeLoop.simps)
  next
    case long: False
    show ?thesis
    proof (cases "send (packetOf m 0)")
      case False
      then show ?thesis using "1.prems"(3) long enc first by (auto simp: writeLoop.simps)
    next
      case True
      let ?m1 = "m\<lparr>rm_pending := drop rtpPacketSamples (rm_pending m), rm_sequence := rm_sequence m + 1, rm_timestamp := rm_timestamp m + 160\<rparr>"
      obtain m2 ps e2 where w: "writeLoop opus amr send ?m1 = (m2, ps, e2)" by (rule prod_cases3)
      have eq: "m' = m2" "packets = packetOf m 0 # ps" "e = e2" using "1.prems"(3) long enc first True w by (simp_all add: writeLoop.simps[of _ _ _ m])
      have ih: "160 * length ps \<le> length (rm_pending ?m1) \<and>
        m2 = ?m1\<lparr>rm_pending := drop (160 * length ps) (rm_pending ?m1), rm_sequence := rm_sequence ?m1 + word_of_nat (length ps),
           rm_timestamp := rm_timestamp ?m1 + word_of_nat (160 * length ps)\<rparr> \<and>
        ps = map (packetOf ?m1) [0..<length ps] \<and>
        (e2 = None \<longleftrightarrow> length (rm_pending ?m1) < 160 * (length ps + 1)) \<and> (e2 \<noteq> None \<longrightarrow> e2 = Some RTPSend \<and> \<not> send (packetOf ?m1 (length ps)))"
        using "1.IH"[OF long enc[symmetric] refl refl refl _ _ _ w] True first "1.prems"(1,2) by auto
      have shift: "packetOf ?m1 i = packetOf m (Suc i)" for i
        by (simp add: packetOf_def frameOf_drop algebra_simps)
      have "ps = map (packetOf ?m1) [0..<length ps]" using ih by blast
      also have "\<dots> = map (\<lambda>i. packetOf m (Suc i)) [0..<length ps]" by (rule map_cong[OF refl]) (rule shift)
      finally have ps: "packetOf m 0 # map (\<lambda>i. packetOf m (Suc i)) [0..<length ps] = packets" by (simp only: eq(2))
      have "packets = map (packetOf m) [0..<length packets]"
        unfolding ps[symmetric] by (simp add: map_upt_Suc del: upt_Suc)
      moreover have "160 * length ps \<le> length (rm_pending ?m1) \<longleftrightarrow> 160 * length packets \<le> length (rm_pending m)"
        "length (rm_pending ?m1) < 160 * (length ps + 1) \<longleftrightarrow> length (rm_pending m) < 160 * (length packets + 1)"
        using long by (auto simp: eq(2))
      moreover have "?m1\<lparr>rm_pending := drop (160 * length ps) (rm_pending ?m1), rm_sequence := rm_sequence ?m1 + word_of_nat (length ps),
           rm_timestamp := rm_timestamp ?m1 + word_of_nat (160 * length ps)\<rparr> =
          m\<lparr>rm_pending := drop (160 * length packets) (rm_pending m), rm_sequence := rm_sequence m + word_of_nat (length packets),
           rm_timestamp := rm_timestamp m + word_of_nat (160 * length packets)\<rparr>"
        by (simp add: eq(2) algebra_simps)
      moreover have "packetOf ?m1 (length ps) = packetOf m (length packets)" by (simp add: shift eq(2))
      ultimately show ?thesis using ih unfolding eq(1,3) by metis
    qed
  qed
qed

text \<open>C23: A G.711 session loses no sample and no number. Whatever was pending and whichever datagrams can be written,
  the packets that go out of \<open>WritePCM\<close> carry the first whole frames in order, read back by the checks of \<open>receive\<close>
  with consecutive sequence numbers, timestamps 160 apart and the encoded samples; the samples of the packets that
  did not go out stay pending under the next number, and without an error less than a frame stays.\<close>
theorem rtp_write_read:
  assumes "\<not> rm_closed m" and "rm_remote m \<noteq> None" and "rm_codec m \<in> {''PCMA'', ''PCMU''}" and "rm_amr m = None"
    and "rm_payloadType m < 0x80" and "WritePCM opus amr send samples m = (m', packets, e)"
  shows "let all = rm_pending m @ samples; n = length packets in
    rm_pending m' = drop (160 * n) all \<and> rm_sequence m' = rm_sequence m + word_of_nat n \<and>
    rm_timestamp m' = rm_timestamp m + word_of_nat (160 * n) \<and> (e = None \<longleftrightarrow> length (rm_pending m') < 160) \<and>
    (\<forall>i < n. parseRTP (packets ! i) = Inr (Some \<lparr>rp_payloadType = rm_payloadType m, rp_sequence = rm_sequence m + word_of_nat i,
       rp_timestamp = rm_timestamp m + word_of_nat (160 * i), rp_ssrc = rm_ssrc m,
       rp_data = map (lawEncode (rm_codec m)) (frameOf all i)\<rparr>))"
proof -
  let ?m = "m\<lparr>rm_pending := rm_pending m @ samples\<rparr>"
  have "writeLoop opus amr send ?m = (m', packets, e)" using assms(1-4,6) by (auto simp: WritePCM_def)
  moreover have "rm_codec ?m \<noteq> ''OPUS''" "rm_amr ?m = None" using assms(3,4) by auto
  ultimately have w: "160 * length packets \<le> length (rm_pending ?m)"
    "m' = ?m\<lparr>rm_pending := drop (160 * length packets) (rm_pending ?m), rm_sequence := rm_sequence ?m + word_of_nat (length packets),
           rm_timestamp := rm_timestamp ?m + word_of_nat (160 * length packets)\<rparr>"
    "packets = map (packetOf ?m) [0..<length packets]" "e = None \<longleftrightarrow> length (rm_pending ?m) < 160 * (length packets + 1)"
    using writeLoop_prefix[of ?m opus amr send m' packets e] by blast+
  have short: "length (rm_pending m') < 160 \<longleftrightarrow> length (rm_pending ?m) < 160 * (length packets + 1)" using w(1) by (subst w(2)) auto
  have "parseRTP (packets ! i) = Inr (Some \<lparr>rp_payloadType = rm_payloadType m, rp_sequence = rm_sequence m + word_of_nat i,
       rp_timestamp = rm_timestamp m + word_of_nat (160 * i), rp_ssrc = rm_ssrc m,
       rp_data = map (lawEncode (rm_codec m)) (frameOf (rm_pending m @ samples) i)\<rparr>)" if i: "i < length packets" for i
  proof -
    have "packets ! i = packetOf ?m i" using i arg_cong[OF w(3), of "\<lambda>ps. ps ! i"] by simp
    moreover have "length (frameOf (rm_pending m @ samples) i) = 160" using i w(1) by (intro length_frameOf) simp
    ultimately show ?thesis
      using parse_rtp[OF assms(5), of "map (lawEncode (rm_codec m)) (frameOf (rm_pending m @ samples) i)"] by (simp add: packetOf_def)
  qed
  moreover have "e = None \<longleftrightarrow> length (rm_pending m') < 160" using w(4) short by blast
  moreover have "rm_pending m' = drop (160 * length packets) (rm_pending m @ samples)" "rm_sequence m' = rm_sequence m + word_of_nat (length packets)"
    "rm_timestamp m' = rm_timestamp m + word_of_nat (160 * length packets)" by (subst w(2), simp)+
  ultimately show ?thesis unfolding Let_def by blast
qed

definition demo_media :: "(unit, unit) rtp_media" where
  "demo_media = \<lparr>rm_closed = False, rm_remote = Some (''10.0.0.1'', 4000), rm_codec = ''PCMA'', rm_payloadType = 8, rm_amr = None,
     rm_encoder = (), rm_pending = replicate 100 0, rm_sequence = 65535, rm_timestamp = 0, rm_ssrc = 7, rm_jitter = newJitter None, rm_wake = False\<rparr>"

text \<open>100 samples are pending; 100 more make one packet, with 40 left.\<close>

theorem rtp_write_read_witness:
  "\<exists>m' packets e. WritePCM (\<lambda>e f. (e, None)) (\<lambda>e f. (e, None)) (\<lambda>_. True) (replicate 100 1) demo_media = (m', packets, e) \<and>
    rm_pending m' = drop (160 * length packets) (replicate 100 0 @ replicate 100 1)"
proof -
  obtain m' packets e where w: "WritePCM (\<lambda>e f. (e, None)) (\<lambda>e f. (e, None)) (\<lambda>_. True) (replicate 100 1) demo_media = (m', packets, e)"
    by (rule prod_cases3)
  have "rm_pending m' = drop (160 * length packets) (rm_pending demo_media @ replicate 100 1)"
    using rtp_write_read[OF _ _ _ _ _ w] unfolding Let_def by (simp add: demo_media_def)
  then show ?thesis using w by (simp add: demo_media_def)
qed

text \<open>The answer of the checks is no panic, and what they let through is a slice.\<close>

definition fine :: "byte list \<Rightarrow> (unit, rtp_packet option) res \<Rightarrow> bool" where
  "fine packet r \<longleftrightarrow> (\<exists>x. r = Inr x \<and> (\<forall>p. x = Some p \<longrightarrow> (\<exists>header count. rp_data p = take (count - header) (drop header packet) \<and>
     12 \<le> header \<and> header < count \<and> count \<le> length packet \<and> count - header \<le> 1600)))"

lemma fine_none: "fine packet (Inr None)"
  by (simp add: fine_def)

lemma fine_fields:
  assumes "12 \<le> header" "header < count" "count \<le> length packet"
  shows "fine packet (rtpFields packet header count)"
proof -
  have l: "12 < length packet" using assms by linarith
  have i: "idx packet 1 = Inr (packet ! 1)" by (rule idx_ok) (use l in simp)
  have g: "get16 packet 2 = Inr (un16 (packet ! 2) (packet ! (2 + 1)))" by (rule get16_ok) (use l in simp)
  have t: "get32 packet n = Inr (un32 (packet ! n) (packet ! (n + 1)) (packet ! (n + 2)) (packet ! (n + 3)))" if "n \<le> 8" for n
    by (rule get32_ok) (use l that in simp)
  show ?thesis unfolding rtpFields_def fine_def i g t[of 4, simplified] t[of 8, simplified] using assms
    by (auto simp: slice_def intro!: exI[of _ header, OF exI[of _ count]])
qed

lemma fine_payload:
  assumes "12 \<le> header"
  shows "fine packet (rtpPayload packet b0 header)"
proof (cases "header < length packet")
  case True
  define padding where "padding = packet ! (length packet - 1)"
  have pad: "idx packet (length packet - 1) = Inr padding" unfolding padding_def by (rule idx_ok) (use True in simp)
  have fit: "header < length packet - unat padding" if "\<not> unat padding \<ge> length packet - header" using that by linarith
  show ?thesis using True fine_none fine_fields[OF assms True] fine_fields[OF assms fit]
    unfolding rtpPayload_def pad by auto
qed (simp add: rtpPayload_def fine_none)

lemma parse_rtp_slice: "fine packet (parseRTP packet)"
proof (cases "length packet < 12")
  case True
  then show ?thesis by (simp add: parseRTP_def fine_none)
next
  case False
  let ?h = "12 + unat (packet ! 0 AND 0x0F) * 4"
  have i: "idx packet 0 = Inr (packet ! 0)" by (rule idx_ok) (use False in auto)
  have g: "get16 packet (?h + 2) = Inr (un16 (packet ! (?h + 2)) (packet ! (?h + 2 + 1)))" if "\<not> length packet < ?h + 4"
    by (rule get16_ok) (use that in simp)
  have "fine packet (rbind (get16 packet (?h + 2)) (\<lambda>n. rtpPayload packet (packet ! 0) (?h + 4 + unat n * 4)))" if "\<not> length packet < ?h + 4"
    unfolding g[OF that] rbind.simps by (rule fine_payload) simp
  then show ?thesis using False fine_none fine_payload[of ?h] unfolding parseRTP_def i Let_def by simp
qed

text \<open>No datagram can crash the receiver, and only the peer reaches the buffer. The checks of \<open>receive\<close> never read
  out of range, and what they let through is a slice of the datagram of 1 to 1600 octets behind its header. A
  G.711 session answers every datagram; if its state changes, the datagram came from the address of its peer under
  its payload type, and nothing but the playout buffer, the learnt port and the wake-up changed.\<close>
theorem rtp_receive_safe:
  assumes "rm_codec m \<noteq> ''OPUS''" and "rm_amr m = None" and "jt_compressed (rm_jitter m) = None"
  shows "\<exists>m'. receivePacket packetSamples now source packet m = Inr (m', None) \<and>
    (m' \<noteq> m \<longrightarrow> (\<exists>p port header count. parseRTP packet = Inr (Some p) \<and> rm_remote m = Some (fst source, port) \<and>
        rp_payloadType p AND 0x7F = rm_payloadType m \<and> rp_data p = take (count - header) (drop header packet) \<and>
        12 \<le> header \<and> header < count \<and> count \<le> length packet \<and> count - header \<le> 1600 \<and>
        (\<exists>j port' wake. m' = m\<lparr>rm_jitter := j, rm_remote := Some (fst source, port'), rm_wake := wake\<rparr>)))"
proof -
  obtain r where r: "parseRTP packet = Inr r" and slice: "\<And>p. r = Some p \<Longrightarrow> \<exists>header count. rp_data p = take (count - header) (drop header packet) \<and>
     12 \<le> header \<and> header < count \<and> count \<le> length packet \<and> count - header \<le> 1600"
    using parse_rtp_slice[of packet] unfolding fine_def by blast
  show ?thesis
  proof (cases "\<exists>p port. r = Some p \<and> rm_remote m = Some (fst source, port) \<and> rp_payloadType p AND 0x7F = rm_payloadType m")
    case False
    then have "receivePacket packetSamples now source packet m = Inr (m, None)"
      unfolding receivePacket_def r rbind.simps by (cases r; cases "rm_remote m") auto
    then show ?thesis by simp
  next
    case True
    then obtain p port where p: "r = Some p" "rm_remote m = Some (fst source, port)" "rp_payloadType p AND 0x7F = rm_payloadType m" by blast
    have "\<exists>x. jitterPush (rp_sequence p) (rp_timestamp p) (rp_ssrc p)
        (map (if rm_codec m = ''PCMA'' then aLawToLinear else muLawToLinear) (rp_data p)) now (rm_jitter m) = Inr x"
      unfolding jitterPush_def pushAudio_def Let_def by auto
    then obtain j a where push: "jitterPush (rp_sequence p) (rp_timestamp p) (rp_ssrc p)
        (map (if rm_codec m = ''PCMA'' then aLawToLinear else muLawToLinear) (rp_data p)) now (rm_jitter m) = Inr (j, a)"
      by (metis surj_pair)
    define m' where "m' = (if a then m\<lparr>rm_jitter := j, rm_remote := Some (fst source, snd source), rm_wake := True\<rparr> else m\<lparr>rm_jitter := j\<rparr>)"
    have rec: "receivePacket packetSamples now source packet m = Inr (m', None)"
      unfolding receivePacket_def r rbind.simps p(1) option.case p(2) prod.case using assms(1,2) p(3) push by (simp add: m'_def)
    have shape: "\<exists>j port' wake. m' = m\<lparr>rm_jitter := j, rm_remote := Some (fst source, port'), rm_wake := wake\<rparr>"
    proof (cases a)
      case True
      then show ?thesis unfolding m'_def if_P[OF True] by blast
    next
      case False
      have "m\<lparr>rm_jitter := j\<rparr> = m\<lparr>rm_jitter := j, rm_remote := Some (fst source, port), rm_wake := rm_wake m\<rparr>" using p(2) by simp
      then show ?thesis unfolding m'_def if_not_P[OF False] by blast
    qed
    obtain header count where "rp_data p = take (count - header) (drop header packet)" "12 \<le> header" "header < count" "count \<le> length packet"
      "count - header \<le> 1600" using slice[OF p(1)] by blast
    then show ?thesis using rec shape r p by blast
  qed
qed

text \<open>An empty datagram and one of a stranger leave the session alone.\<close>

theorem rtp_receive_safe_witness:
  "\<exists>m'. receivePacket None 0 (''10.0.0.2'', 4000) (rtpHeader 8 1 2 3 @ [0]) demo_media = Inr (m', None) \<and> m' = demo_media"
proof -
  have c: "rm_codec demo_media \<noteq> ''OPUS''" "rm_amr demo_media = None" "jt_compressed (rm_jitter demo_media) = None"
    by (simp_all add: demo_media_def newJitter_def)
  obtain m' where m': "receivePacket None 0 (''10.0.0.2'', 4000) (rtpHeader 8 1 2 3 @ [0]) demo_media = Inr (m', None)"
    "m' \<noteq> demo_media \<longrightarrow> (\<exists>port. rm_remote demo_media = Some (''10.0.0.2'', port))"
    using rtp_receive_safe[OF c, of None 0 "(''10.0.0.2'', 4000)" "rtpHeader 8 1 2 3 @ [0]"] by auto
  then show ?thesis by (auto simp: demo_media_def)
qed

end
