(* ===== verification/Dispatch.thy ===== *)
theory Dispatch
  imports Prelude
begin

text \<open>
  The two concurrency helpers of \<open>backend/internal/dispatch\<close>: \<open>Group\<close> (group.go), which bounds the
  work in flight with one worker per key, and \<open>Locks\<close> (locks.go), one lock per key whose entry is
  dropped by its last user. Every critical section, channel operation and deferred call is one step
  of the thread that runs it, so a reachable state is the result of any interleaving. A context
  matters only through whether it is done.
\<close>

subsection \<open>Group\<close>

text \<open>
  A goroutine started by \<open>Start\<close>: its function runs, then the deferred call deletes the key, signals
  \<open>changed\<close> and leaves the wait group.
\<close>

datatype worker_phase = Running | Deleted | Signalled

record 'k worker =
  wk_key :: 'k
  wk_phase :: worker_phase

record 'k group_state =
  gr_active :: "'k list"
  gr_limit :: int
  gr_closed :: bool
  gr_done :: bool
  gr_changed :: bool
  gr_workers :: "(nat \<times> 'k worker) list"
  gr_next :: nat

definition newGroup :: "bool \<Rightarrow> int \<Rightarrow> (unit, 'k group_state) res" where
  "newGroup parentDone limit =
    (if limit < 1 then Inl Panic
     else Inr \<lparr>gr_active = [], gr_limit = limit, gr_closed = False, gr_done = parentDone, gr_changed = False,
               gr_workers = [], gr_next = 0\<rparr>)"

definition groupStart :: "'k \<Rightarrow> 'k group_state \<Rightarrow> 'k group_state \<times> bool" where
  "groupStart key g =
    (if gr_closed g \<or> gr_done g \<or> int (length (gr_active g)) \<ge> gr_limit g then (g, False)
     else if key \<in> set (gr_active g) then (g, False)
     else (g\<lparr>gr_active := key # gr_active g,
             gr_workers := (gr_next g, \<lparr>wk_key = key, wk_phase = Running\<rparr>) # gr_workers g,
             gr_next := gr_next g + 1\<rparr>, True))"

text \<open>The deferred call of worker \<open>i\<close>, in its three parts.\<close>

definition workerDelete :: "nat \<Rightarrow> 'k group_state \<Rightarrow> 'k group_state" where
  "workerDelete i g =
    (case map_of (gr_workers g) i of
       Some w \<Rightarrow> if wk_phase w = Running
         then g\<lparr>gr_active := removeAll (wk_key w) (gr_active g),
                gr_workers := AList.update i (w\<lparr>wk_phase := Deleted\<rparr>) (gr_workers g)\<rparr> else g
     | None \<Rightarrow> g)"

definition workerSignal :: "nat \<Rightarrow> 'k group_state \<Rightarrow> 'k group_state" where
  "workerSignal i g =
    (case map_of (gr_workers g) i of
       Some w \<Rightarrow> if wk_phase w = Deleted
         then g\<lparr>gr_changed := True, gr_workers := AList.update i (w\<lparr>wk_phase := Signalled\<rparr>) (gr_workers g)\<rparr> else g
     | None \<Rightarrow> g)"

definition workerDone :: "nat \<Rightarrow> 'k group_state \<Rightarrow> 'k group_state" where
  "workerDone i g =
    (case map_of (gr_workers g) i of
       Some w \<Rightarrow> if wk_phase w = Signalled then g\<lparr>gr_workers := AList.delete i (gr_workers g)\<rparr> else g
     | None \<Rightarrow> g)"

text \<open>\<open>Changed\<close> hands out the channel, \<open>groupReceive\<close> takes its token; \<open>Close\<close> marks, cancels and then
  waits until no worker is left in the wait group.\<close>

definition groupReceive :: "'k group_state \<Rightarrow> 'k group_state" where
  "groupReceive g = g\<lparr>gr_changed := False\<rparr>"

definition groupActive :: "'k group_state \<Rightarrow> nat" where
  "groupActive g = length (gr_active g)"

definition groupClose :: "'k group_state \<Rightarrow> 'k group_state" where
  "groupClose g = g\<lparr>gr_closed := True, gr_done := True\<rparr>"

definition groupJoined :: "'k group_state \<Rightarrow> bool" where
  "groupJoined g \<longleftrightarrow> gr_closed g \<and> gr_workers g = []"

inductive group_step :: "'k group_state \<Rightarrow> 'k group_state \<Rightarrow> bool" where
  start: "group_step g (fst (groupStart key g))"
| remove: "group_step g (workerDelete i g)"
| signal: "group_step g (workerSignal i g)"
| leave: "group_step g (workerDone i g)"
| receive: "group_step g (groupReceive g)"
| close: "group_step g (groupClose g)"
| cancel: "group_step g (g\<lparr>gr_done := True\<rparr>)"

inductive_cases group_stepE: "group_step g g'"

definition group_init :: "'k group_state \<Rightarrow> bool" where
  "group_init g \<longleftrightarrow> (\<exists>d limit. newGroup d limit = Inr g)"

text \<open>Worker \<open>i\<close> runs the function of \<open>key\<close>.\<close>

definition runs :: "'k group_state \<Rightarrow> nat \<Rightarrow> 'k \<Rightarrow> bool" where
  "runs g i key \<longleftrightarrow> (case map_of (gr_workers g) i of Some w \<Rightarrow> wk_key w = key \<and> wk_phase w = Running | None \<Rightarrow> False)"

definition group_inv :: "'k group_state \<Rightarrow> bool" where
  "group_inv g \<longleftrightarrow> distinct (gr_active g) \<and> int (length (gr_active g)) \<le> gr_limit g \<and>
     (\<forall>i key. runs g i key \<longrightarrow> key \<in> set (gr_active g)) \<and> (\<forall>key \<in> set (gr_active g). \<exists>i. runs g i key) \<and>
     (\<forall>i j key. runs g i key \<longrightarrow> runs g j key \<longrightarrow> i = j) \<and> (\<forall>i \<in> dom (map_of (gr_workers g)). i < gr_next g)"

subsection \<open>Locks\<close>

text \<open>
  An entry lives in the store under its address. A thread in \<open>Lock\<close> waits in the select, then holds the
  lock, or gives up when its context ends; \<open>Leaving\<close> is the call of \<open>release\<close> that remains in both cases.
\<close>

datatype lock_phase = Waiting | Holding | Leaving

record key_lock =
  kl_full :: bool
  kl_users :: int

record 'k lock_thread =
  lt_key :: 'k
  lt_entry :: nat
  lt_phase :: lock_phase

record 'k lock_state =
  lk_keys :: "('k \<times> nat) list"
  lk_store :: "(nat \<times> key_lock) list"
  lk_threads :: "(nat \<times> 'k lock_thread) list"
  lk_next :: nat

definition noLocks :: "'k lock_state" where
  "noLocks = \<lparr>lk_keys = [], lk_store = [], lk_threads = [], lk_next = 0\<rparr>"

text \<open>The critical section of \<open>Lock\<close>: find or make the entry and count the user.\<close>

definition lockEnter :: "nat \<Rightarrow> 'k \<Rightarrow> 'k lock_state \<Rightarrow> 'k lock_state" where
  "lockEnter t key l =
    (case map_of (lk_threads l) t of
       Some _ \<Rightarrow> l
     | None \<Rightarrow>
         let l = (case map_of (lk_keys l) key of
                    Some e \<Rightarrow> l
                  | None \<Rightarrow> l\<lparr>lk_keys := AList.update key (lk_next l) (lk_keys l),
                               lk_store := AList.update (lk_next l) \<lparr>kl_full = False, kl_users = 0\<rparr> (lk_store l),
                               lk_next := lk_next l + 1\<rparr>) in
         (case map_of (lk_keys l) key of
            None \<Rightarrow> l
          | Some e \<Rightarrow>
              (case map_of (lk_store l) e of
                 None \<Rightarrow> l
               | Some entry \<Rightarrow>
                   l\<lparr>lk_store := AList.update e (entry\<lparr>kl_users := kl_users entry + 1\<rparr>) (lk_store l),
                     lk_threads := AList.update t \<lparr>lt_key = key, lt_entry = e, lt_phase = Waiting\<rparr> (lk_threads l)\<rparr>)))"

text \<open>A change of the phase of thread \<open>t\<close> together with its entry, when \<open>ok\<close> allows it.\<close>

definition lockMove ::
  "nat \<Rightarrow> lock_phase \<Rightarrow> lock_phase \<Rightarrow> (key_lock \<Rightarrow> bool) \<Rightarrow> (key_lock \<Rightarrow> key_lock) \<Rightarrow> 'k lock_state \<Rightarrow> 'k lock_state" where
  "lockMove t p p' ok change l =
    (case map_of (lk_threads l) t of
       None \<Rightarrow> l
     | Some th \<Rightarrow>
         (case map_of (lk_store l) (lt_entry th) of
            None \<Rightarrow> l
          | Some entry \<Rightarrow>
              if lt_phase th = p \<and> ok entry
              then l\<lparr>lk_store := AList.update (lt_entry th) (change entry) (lk_store l),
                     lk_threads := AList.update t (th\<lparr>lt_phase := p'\<rparr>) (lk_threads l)\<rparr>
              else l))"

text \<open>\<open>entry.gate <- struct{}{}\<close>, \<open><-ctx.Done()\<close> and \<open><-entry.gate\<close> of the returned function.\<close>

definition lockAcquire :: "nat \<Rightarrow> 'k lock_state \<Rightarrow> 'k lock_state" where
  "lockAcquire t = lockMove t Waiting Holding (\<lambda>e. \<not> kl_full e) (\<lambda>e. e\<lparr>kl_full := True\<rparr>)"

definition lockGiveUp :: "nat \<Rightarrow> 'k lock_state \<Rightarrow> 'k lock_state" where
  "lockGiveUp t = lockMove t Waiting Leaving (\<lambda>e. True) (\<lambda>e. e)"

definition lockDrain :: "nat \<Rightarrow> 'k lock_state \<Rightarrow> 'k lock_state" where
  "lockDrain t = lockMove t Holding Leaving kl_full (\<lambda>e. e\<lparr>kl_full := False\<rparr>)"

definition lockRelease :: "nat \<Rightarrow> 'k lock_state \<Rightarrow> 'k lock_state" where
  "lockRelease t l =
    (case map_of (lk_threads l) t of
       None \<Rightarrow> l
     | Some th \<Rightarrow>
         (case map_of (lk_store l) (lt_entry th) of
            None \<Rightarrow> l
          | Some entry \<Rightarrow>
              if lt_phase th = Leaving
              then let entry = entry\<lparr>kl_users := kl_users entry - 1\<rparr> in
                l\<lparr>lk_store := AList.update (lt_entry th) entry (lk_store l),
                  lk_keys := (if kl_users entry = 0 then AList.delete (lt_key th) (lk_keys l) else lk_keys l),
                  lk_threads := AList.delete t (lk_threads l)\<rparr>
              else l))"

inductive lock_step :: "'k lock_state \<Rightarrow> 'k lock_state \<Rightarrow> bool" where
  enter: "lock_step l (lockEnter t key l)"
| acquire: "lock_step l (lockAcquire t l)"
| give_up: "lock_step l (lockGiveUp t l)"
| drain: "lock_step l (lockDrain t l)"
| release: "lock_step l (lockRelease t l)"

inductive_cases lock_stepE: "lock_step l l'"

end
