(* ===== verification/Dispatch_Props.thy ===== *)
theory Dispatch_Props
  imports Dispatch
begin

text \<open>
  The invariants of \<open>Group\<close> and \<open>Locks\<close> over all interleavings: bounded work with one worker per key
  and a close that joins, and mutual exclusion per key without leaked entries.
\<close>

subsection \<open>Group\<close>

lemma runs_Some: "map_of (gr_workers g) i = Some w \<Longrightarrow> wk_phase w = Running \<Longrightarrow> runs g i (wk_key w)"
  by (simp add: runs_def)

lemma runs_one_key: "runs g i k \<Longrightarrow> runs g i k' \<Longrightarrow> k = k'"
  by (auto simp: runs_def split: option.splits)

lemma runs_dom: "runs g i k \<Longrightarrow> i \<in> dom (map_of (gr_workers g))"
  by (auto simp: runs_def split: option.splits)

lemma group_inv_start:
  assumes inv: "group_inv g"
  shows "group_inv (fst (groupStart key g))"
proof (cases "snd (groupStart key g)")
  case False
  then show ?thesis using inv by (auto simp: groupStart_def split: if_splits)
next
  case True
  let ?g = "fst (groupStart key g)"
  have new: "key \<notin> set (gr_active g)" "int (length (gr_active g)) < gr_limit g" "gr_active ?g = key # gr_active g"
    "gr_limit ?g = gr_limit g" "gr_next ?g = gr_next g + 1"
    "gr_workers ?g = (gr_next g, \<lparr>wk_key = key, wk_phase = Running\<rparr>) # gr_workers g"
    using True by (auto simp: groupStart_def split: if_splits)
  have old: "i < gr_next g" if "runs g i k" for i k using inv runs_dom[OF that] unfolding group_inv_def by blast
  have fresh: "\<not> runs g (gr_next g) k" for k using old by blast
  have runs: "runs ?g i k \<longleftrightarrow> (if i = gr_next g then k = key else runs g i k)" for i k
    using new(6) by (auto simp: runs_def)
  have dom: "\<forall>i \<in> dom (map_of (gr_workers ?g)). i < gr_next ?g"
  proof
    fix i assume "i \<in> dom (map_of (gr_workers ?g))"
    then have "i = gr_next g \<or> i \<in> dom (map_of (gr_workers g))" unfolding new(6) by (auto split: if_splits)
    moreover have "i \<in> dom (map_of (gr_workers g)) \<Longrightarrow> i < gr_next g" using inv unfolding group_inv_def by blast
    ultimately show "i < gr_next ?g" unfolding new(5) by linarith
  qed
  have active: "runs g i k \<Longrightarrow> k \<in> set (gr_active g)" for i k using inv unfolding group_inv_def by blast
  have one: "runs g i k \<Longrightarrow> runs g j k \<Longrightarrow> i = j" for i j k using inv unfolding group_inv_def by blast
  have "\<exists>i. runs ?g i k" if k: "k \<in> set (gr_active ?g)" for k
  proof (cases "k = key")
    case True
    then have "runs ?g (gr_next g) k" by (simp add: runs)
    then show ?thesis ..
  next
    case False
    then have "k \<in> set (gr_active g)" using k new(3) by simp
    then obtain i where i: "runs g i k" using inv unfolding group_inv_def by blast
    then have "i \<noteq> gr_next g" using old by blast
    then have "runs ?g i k" using i by (simp add: runs)
    then show ?thesis ..
  qed
  moreover have "i = j" if "runs ?g i k" "runs ?g j k" for i j k
  proof (cases "k = key")
    case True
    then have "\<not> runs g i k" "\<not> runs g j k" using active new(1) by blast+
    then have "i = gr_next g" "j = gr_next g" using that unfolding runs by (auto split: if_splits)
    then show ?thesis by simp
  next
    case False
    then have "runs g i k" "runs g j k" using that unfolding runs by (auto split: if_splits)
    then show ?thesis by (rule one)
  qed
  moreover have "k \<in> set (gr_active ?g)" if "runs ?g i k" for i k
    using that active[of i k] runs[of i k] new(3) by (cases "i = gr_next g") simp_all
  moreover have "distinct (gr_active ?g)" "int (length (gr_active ?g)) \<le> gr_limit ?g"
    using inv new(1-4) unfolding group_inv_def by simp_all
  ultimately show ?thesis using dom unfolding group_inv_def by blast
qed

lemma runs_delete:
  assumes "map_of (gr_workers g) i = Some w" and "wk_phase w = Running"
  shows "runs (workerDelete i g) j key \<longleftrightarrow> j \<noteq> i \<and> runs g j key"
  using assms by (simp add: workerDelete_def runs_def)

lemma group_inv_delete:
  assumes inv: "group_inv g"
  shows "group_inv (workerDelete i g)"
proof (cases "\<exists>w. map_of (gr_workers g) i = Some w \<and> wk_phase w = Running")
  case False
  then show ?thesis using inv by (auto simp: workerDelete_def split: option.splits)
next
  case True
  then obtain w where w: "map_of (gr_workers g) i = Some w" "wk_phase w = Running" by blast
  have r: "runs g i (wk_key w)" using w by (rule runs_Some)
  have act: "gr_active (workerDelete i g) = removeAll (wk_key w) (gr_active g)"
    "gr_limit (workerDelete i g) = gr_limit g" "gr_next (workerDelete i g) = gr_next g"
    "dom (map_of (gr_workers (workerDelete i g))) = dom (map_of (gr_workers g))"
    using w by (auto simp: workerDelete_def)
  have other: "runs g j k \<Longrightarrow> j \<noteq> i \<longleftrightarrow> k \<noteq> wk_key w" for j k
    using inv r runs_one_key[of g i] unfolding group_inv_def by blast
  have "int (length (removeAll (wk_key w) (gr_active g))) \<le> gr_limit g"
    using inv length_removeAll_less_eq[of "wk_key w" "gr_active g"] unfolding group_inv_def by linarith
  then show ?thesis
    using inv other unfolding group_inv_def act runs_delete[OF w] by (auto simp: distinct_removeAll) blast+
qed

lemma group_inv_others:
  fixes g :: "'k group_state"
  shows "group_inv g \<Longrightarrow> group_inv (workerSignal i g)" "group_inv g \<Longrightarrow> group_inv (workerDone i g)"
  "group_inv g \<Longrightarrow> group_inv (groupReceive g)" "group_inv g \<Longrightarrow> group_inv (groupClose g)"
  "group_inv g \<Longrightarrow> group_inv (g\<lparr>gr_done := True\<rparr>)"
proof -
  have same: "group_inv g'" if inv: "group_inv g" and "gr_active g' = gr_active g" "gr_limit g' = gr_limit g" "gr_next g' = gr_next g"
      "\<And>i k. runs g' i k = runs g i k" "dom (map_of (gr_workers g')) \<subseteq> dom (map_of (gr_workers g))" for g' :: "'k group_state"
    using inv that(2-5) subsetD[OF that(6)] unfolding group_inv_def that(2-5) by blast
  assume inv: "group_inv g"
  show "group_inv (workerSignal i g)"
    by (rule same[OF inv]) (auto simp: workerSignal_def runs_def split: option.splits)
  show "group_inv (workerDone i g)"
    by (rule same[OF inv]) (auto simp: workerDone_def runs_def split: option.splits if_splits)
  show "group_inv (groupReceive g)" "group_inv (groupClose g)" "group_inv (g\<lparr>gr_done := True\<rparr>)"
    by (rule same[OF inv]; simp add: groupReceive_def groupClose_def runs_def)+
qed

interpretation pool: guarded_system group_init group_step group_inv
proof
  show "group_init g \<Longrightarrow> group_inv g" for g :: "'k group_state"
    by (auto simp: group_init_def newGroup_def group_inv_def runs_def split: if_splits)
  show "group_inv g \<Longrightarrow> group_step g g' \<Longrightarrow> group_inv g'" for g g' :: "'k group_state"
    by (auto elim!: group_stepE intro: group_inv_start group_inv_delete group_inv_others)
qed

text \<open>A closed group starts nothing: its workers only finish.\<close>

lemma closed_step:
  assumes "group_step g g'" and "gr_closed g"
  shows "gr_closed g' \<and> dom (map_of (gr_workers g')) \<subseteq> dom (map_of (gr_workers g))"
  using assms
  by (auto elim!: group_stepE simp: groupStart_def workerDelete_def workerSignal_def workerDone_def groupReceive_def groupClose_def
      split: option.splits if_splits)

lemma closed_steps:
  assumes "group_step\<^sup>*\<^sup>* g g'" and "gr_closed g"
  shows "gr_closed g' \<and> dom (map_of (gr_workers g')) \<subseteq> dom (map_of (gr_workers g))"
  using assms
proof (induction rule: rtranclp_induct)
  case (step y z)
  then show ?case using closed_step[of y z] by blast
qed simp

text \<open>C17: \<open>Group\<close> bounds the work. Whatever the interleaving of starts, deferred calls, cancellation and close,
  the running functions have different keys, there are never more of them than the limit, and once
  \<open>Close\<close> has joined no function runs or is started ever again.\<close>
theorem group_bounded:
  assumes r: "reachable group_init group_step g"
  shows "card {i. \<exists>key. runs g i key} \<le> nat (gr_limit g) \<and> (\<forall>i j key. runs g i key \<and> runs g j key \<longrightarrow> i = j) \<and>
    (groupJoined g \<longrightarrow> (\<forall>g'. group_step\<^sup>*\<^sup>* g g' \<longrightarrow> gr_workers g' = [] \<and> gr_active g' = []))"
proof (intro conjI allI impI)
  have inv: "group_inv g" by (rule pool.reachable_inv[OF r])
  let ?R = "{i. \<exists>key. runs g i key}"
  define key where "key i = (SOME k. runs g i k)" for i
  have key: "runs g i (key i)" if "i \<in> ?R" for i unfolding key_def using that by (auto intro: someI)
  have "inj_on key ?R" using inv key unfolding group_inv_def inj_on_def by metis
  moreover have "key ` ?R \<subseteq> set (gr_active g)" using inv key unfolding group_inv_def by blast
  ultimately have "card ?R \<le> card (set (gr_active g))" by (intro card_inj_on_le) auto
  also have "\<dots> = length (gr_active g)" using inv by (intro distinct_card) (simp add: group_inv_def)
  also have "\<dots> \<le> nat (gr_limit g)" using inv unfolding group_inv_def by linarith
  finally show "card ?R \<le> nat (gr_limit g)" .
  show "i = j" if "runs g i k \<and> runs g j k" for i j k using inv that unfolding group_inv_def by blast
  fix g' assume j: "groupJoined g" and s: "group_step\<^sup>*\<^sup>* g g'"
  then have "dom (map_of (gr_workers g')) \<subseteq> {}" using closed_steps[OF s] by (simp add: groupJoined_def)
  then have none: "map_of (gr_workers g') = Map.empty" by simp
  then show "gr_workers g' = []" by (metis map_of_eq_empty_iff)
  have "group_inv g'" using pool.steps_inv[OF s inv] .
  then have "\<forall>k \<in> set (gr_active g'). \<exists>i. runs g' i k" unfolding group_inv_def by blast
  moreover have "\<not> runs g' i k" for i k using none runs_dom[of g' i k] by auto
  ultimately show "gr_active g' = []" by (metis last_in_set)
qed

theorem group_bounded_witness:
  "let g0 = \<lparr>gr_active = [], gr_limit = 1, gr_closed = False, gr_done = False, gr_changed = False, gr_workers = [], gr_next = 0\<rparr>;
       g = fst (groupStart (7 :: nat) g0)
   in runs g 0 7 \<and> groupStart 8 g = (g, False) \<and> card {i. \<exists>key. runs g i key} \<le> 1"
proof -
  define g0 :: "nat group_state" where
    "g0 = \<lparr>gr_active = [], gr_limit = 1, gr_closed = False, gr_done = False, gr_changed = False, gr_workers = [], gr_next = 0\<rparr>"
  have "newGroup False 1 = Inr g0" by (simp add: newGroup_def g0_def)
  then have "group_init g0" unfolding group_init_def by blast
  then have "reachable group_init group_step g0" by (rule reachable.start)
  moreover have "group_step g0 (fst (groupStart 7 g0))" by (rule group_step.start)
  ultimately have "reachable group_init group_step (fst (groupStart 7 g0))" by (rule reachable.next_step)
  from group_bounded[OF this] have "card {i. \<exists>key. runs (fst (groupStart 7 g0)) i key} \<le> nat (gr_limit (fst (groupStart 7 g0)))" by blast
  moreover have "gr_limit (fst (groupStart 7 g0)) = 1" "runs (fst (groupStart 7 g0)) 0 7"
    "groupStart 8 (fst (groupStart 7 g0)) = (fst (groupStart 7 g0), False)"
    by (simp_all add: g0_def groupStart_def runs_def)
  ultimately show ?thesis unfolding Let_def g0_def by simp
qed

subsection \<open>Locks\<close>

definition users :: "'k lock_state \<Rightarrow> 'k \<Rightarrow> nat set" where
  "users l k = {t. \<exists>th. map_of (lk_threads l) t = Some th \<and> lt_key th = k}"

definition holdsLock :: "'k lock_state \<Rightarrow> nat \<Rightarrow> 'k \<Rightarrow> bool" where
  "holdsLock l t k \<longleftrightarrow> (\<exists>th. map_of (lk_threads l) t = Some th \<and> lt_key th = k \<and> lt_phase th = Holding)"

text \<open>An entry in the map is alive: its count is the number of its threads, its gate is full while one holds it.\<close>

definition entry_ok :: "'k lock_state \<Rightarrow> 'k \<Rightarrow> nat \<Rightarrow> bool" where
  "entry_ok l k e \<longleftrightarrow> e < lk_next l \<and> (\<exists>entry. map_of (lk_store l) e = Some entry \<and>
     kl_users entry = int (card (users l k)) \<and> users l k \<noteq> {} \<and> (kl_full entry \<longleftrightarrow> (\<exists>t. holdsLock l t k)))"

definition lock_inv :: "'k lock_state \<Rightarrow> bool" where
  "lock_inv l \<longleftrightarrow>
     (\<forall>t th. map_of (lk_threads l) t = Some th \<longrightarrow> map_of (lk_keys l) (lt_key th) = Some (lt_entry th)) \<and>
     (\<forall>k e. map_of (lk_keys l) k = Some e \<longrightarrow> entry_ok l k e) \<and>
     (\<forall>k k' e. map_of (lk_keys l) k = Some e \<longrightarrow> map_of (lk_keys l) k' = Some e \<longrightarrow> k = k') \<and>
     (\<forall>t t' k. holdsLock l t k \<longrightarrow> holdsLock l t' k \<longrightarrow> t = t')"

lemma finite_users [simp]: "finite (users l k)"
proof (rule finite_subset)
  show "users l k \<subseteq> dom (map_of (lk_threads l))" by (auto simp: users_def)
  show "finite (dom (map_of (lk_threads l)))" by (rule finite_dom_map_of)
qed

lemma lock_inv_facts:
  assumes "lock_inv l" and "map_of (lk_threads l) t = Some th"
  obtains entry where "map_of (lk_keys l) (lt_key th) = Some (lt_entry th)" and "map_of (lk_store l) (lt_entry th) = Some entry"
    and "kl_users entry = int (card (users l (lt_key th)))" and "kl_full entry \<longleftrightarrow> (\<exists>t. holdsLock l t (lt_key th))"
    and "lt_entry th < lk_next l"
  using assms unfolding lock_inv_def entry_ok_def by blast

text \<open>A step of one thread on its entry: what has to hold for the invariant to survive.\<close>

lemma lock_inv_move:
  assumes inv: "lock_inv l" and t: "map_of (lk_threads l) t = Some th" and e: "map_of (lk_store l) (lt_entry th) = Some entry"
    and keeps: "kl_users (change entry) = kl_users entry"
    and hold: "if p' = Holding then \<not> kl_full entry \<and> kl_full (change entry)
      else if lt_phase th = Holding then \<not> kl_full (change entry) else kl_full (change entry) = kl_full entry"
  shows "lock_inv (l\<lparr>lk_store := AList.update (lt_entry th) (change entry) (lk_store l),
    lk_threads := AList.update t (th\<lparr>lt_phase := p'\<rparr>) (lk_threads l)\<rparr>)"
    (is "lock_inv ?l")
proof -
  obtain entry' where k: "map_of (lk_keys l) (lt_key th) = Some (lt_entry th)" and "map_of (lk_store l) (lt_entry th) = Some entry'"
    and us: "kl_users entry' = int (card (users l (lt_key th)))" and full: "kl_full entry' \<longleftrightarrow> (\<exists>t. holdsLock l t (lt_key th))"
    and fresh: "lt_entry th < lk_next l"
    using lock_inv_facts[OF inv t] .
  then have [simp]: "entry' = entry" using e by simp
  have users [simp]: "users ?l k' = users l k'" for k' using t by (auto simp: users_def)
  have holds: "holdsLock ?l t' k' \<longleftrightarrow> (if t' = t then p' = Holding \<and> k' = lt_key th else holdsLock l t' k')" for t' k'
    by (auto simp: holdsLock_def)
  have mine: "holdsLock l t k' \<longleftrightarrow> lt_phase th = Holding \<and> k' = lt_key th" for k' using t by (auto simp: holdsLock_def)
  have one: "t1 = t2" if "holdsLock l t1 k'" "holdsLock l t2 k'" for t1 t2 k' using inv that unfolding lock_inv_def by blast
  have gate: "kl_full (change entry) \<longleftrightarrow> (\<exists>t'. holdsLock ?l t' (lt_key th))"
  proof (cases "p' = Holding")
    case True
    then show ?thesis using hold holds[of t "lt_key th"] by auto
  next
    case no: False
    then have others: "(\<exists>t'. holdsLock ?l t' (lt_key th)) \<longleftrightarrow> (\<exists>t'. t' \<noteq> t \<and> holdsLock l t' (lt_key th))" using holds by auto
    show ?thesis
    proof (cases "lt_phase th = Holding")
      case True
      then have "\<not> (\<exists>t'. t' \<noteq> t \<and> holdsLock l t' (lt_key th))" using one mine by blast
      then show ?thesis using hold no True unfolding others by simp
    next
      case False
      then have "kl_full (change entry) = kl_full entry" using hold no by simp
      moreover have "\<not> holdsLock l t (lt_key th)" using mine False by simp
      then have "(\<exists>t'. t' \<noteq> t \<and> holdsLock l t' (lt_key th)) \<longleftrightarrow> (\<exists>t'. holdsLock l t' (lt_key th))" by metis
      ultimately show ?thesis using full unfolding others by simp
    qed
  qed
  have inj: "k1 = k2" if "map_of (lk_keys l) k1 = Some x" "map_of (lk_keys l) k2 = Some x" for k1 k2 x
    using inv that unfolding lock_inv_def by blast
  show ?thesis
    unfolding lock_inv_def
  proof (intro conjI allI impI)
    fix t' th' assume "map_of (lk_threads ?l) t' = Some th'"
    then show "map_of (lk_keys ?l) (lt_key th') = Some (lt_entry th')"
      using inv k unfolding lock_inv_def by (auto split: if_splits)
  next
    fix k' e' assume ke: "map_of (lk_keys ?l) k' = Some e'"
    then have old: "entry_ok l k' e'" using inv unfolding lock_inv_def by simp
    show "entry_ok ?l k' e'"
    proof (cases "k' = lt_key th")
      case True
      then have "e' = lt_entry th" using ke k by simp
      then show ?thesis using old True keeps us gate fresh unfolding entry_ok_def by auto
    next
      case False
      then have "e' \<noteq> lt_entry th" using ke k inj by auto
      moreover have "(\<exists>t'. holdsLock ?l t' k') \<longleftrightarrow> (\<exists>t'. holdsLock l t' k')" using False mine[of k'] unfolding holds by auto
      ultimately show ?thesis using old unfolding entry_ok_def by auto
    qed
  next
    fix k1 k2 x assume "map_of (lk_keys ?l) k1 = Some x" "map_of (lk_keys ?l) k2 = Some x"
    then show "k1 = k2" using inj by simp
  next
    fix t1 t2 k' assume "holdsLock ?l t1 k'" "holdsLock ?l t2 k'"
    then show "t1 = t2" using one[of t1 k' t2] hold full holds[of t1 k'] holds[of t2 k'] by (cases "t1 = t"; cases "t2 = t") auto
  qed
qed

lemma lock_inv_lockMove:
  assumes inv: "lock_inv l" and keeps: "\<And>e. kl_users (change e) = kl_users e"
    and hold: "\<And>e. ok e \<Longrightarrow> if p' = Holding then \<not> kl_full e \<and> kl_full (change e)
      else if p = Holding then \<not> kl_full (change e) else kl_full (change e) = kl_full e"
  shows "lock_inv (lockMove t p p' ok change l)"
  using lock_inv_move[OF inv, of t _ _ change p'] keeps hold inv
  by (auto simp: lockMove_def split: option.splits)

lemma lock_inv_moves:
  assumes "lock_inv l"
  shows "lock_inv (lockAcquire t l)" "lock_inv (lockGiveUp t l)" "lock_inv (lockDrain t l)"
  unfolding lockAcquire_def lockGiveUp_def lockDrain_def by (rule lock_inv_lockMove[OF assms]; simp)+

lemma lock_inv_enter:
  assumes inv: "lock_inv l"
  shows "lock_inv (lockEnter t k l)"
proof (cases "map_of (lk_threads l) t")
  case (Some th)
  then show ?thesis using inv by (simp add: lockEnter_def)
next
  case fresh: None
  have threads: "map_of (lk_keys l) (lt_key th) = Some (lt_entry th)" if "map_of (lk_threads l) t' = Some th" for t' th
    using inv that unfolding lock_inv_def by blast
  have entries: "entry_ok l k' e" if "map_of (lk_keys l) k' = Some e" for k' e using inv that unfolding lock_inv_def by blast
  have inj: "k1 = k2" if "map_of (lk_keys l) k1 = Some x" "map_of (lk_keys l) k2 = Some x" for k1 k2 x
    using inv that unfolding lock_inv_def by blast
  have one: "t1 = t2" if "holdsLock l t1 k'" "holdsLock l t2 k'" for t1 t2 k' using inv that unfolding lock_inv_def by blast
  define e where "e = (case map_of (lk_keys l) k of Some e \<Rightarrow> e | None \<Rightarrow> lk_next l)"
  define entry where "entry = (case map_of (lk_keys l) k of Some e \<Rightarrow> the (map_of (lk_store l) e) | None \<Rightarrow> \<lparr>kl_full = False, kl_users = 0\<rparr>)"
  let ?l = "lockEnter t k l"
  have us0: "kl_users entry = int (card (users l k)) \<and> (kl_full entry \<longleftrightarrow> (\<exists>t. holdsLock l t k))"
  proof (cases "map_of (lk_keys l) k")
    case None
    then have "users l k = {}" "\<not> holdsLock l t' k" for t' using threads by (auto simp: users_def holdsLock_def)
    then show ?thesis using None by (simp add: entry_def)
  next
    case (Some x)
    then show ?thesis using entries[OF Some] by (auto simp: entry_def entry_ok_def)
  qed
  have l': "map_of (lk_keys ?l) = (map_of (lk_keys l))(k \<mapsto> e)"
    "map_of (lk_store ?l) = (map_of (lk_store l))(e \<mapsto> entry\<lparr>kl_users := kl_users entry + 1\<rparr>)"
    "map_of (lk_threads ?l) = (map_of (lk_threads l))(t \<mapsto> \<lparr>lt_key = k, lt_entry = e, lt_phase = Waiting\<rparr>)"
    "lk_next l \<le> lk_next ?l" "e < lk_next ?l"
    using fresh entries[of k] by (auto simp: lockEnter_def e_def entry_def entry_ok_def Let_def fun_eq_iff split: option.splits)
  have users: "users ?l k' = (if k' = k then insert t (users l k) else users l k')" "t \<notin> users l k" for k'
    using fresh by (auto simp: users_def l'(3))
  have holds: "holdsLock ?l t' k' \<longleftrightarrow> holdsLock l t' k'" for t' k' using fresh by (auto simp: holdsLock_def l'(3))
  have apart: "e' \<noteq> e" if "map_of (lk_keys l) k' = Some e'" "k' \<noteq> k" for k' e'
    using that inj[of k' e' k] entries[OF that(1)] by (auto simp: e_def entry_ok_def split: option.splits)
  show ?thesis
    unfolding lock_inv_def
  proof (intro conjI allI impI)
    fix t' th assume "map_of (lk_threads ?l) t' = Some th"
    then show "map_of (lk_keys ?l) (lt_key th) = Some (lt_entry th)"
      using threads[of t' th] by (auto simp: l' e_def split: if_splits)
  next
    fix k' e' assume ke: "map_of (lk_keys ?l) k' = Some e'"
    show "entry_ok ?l k' e'"
    proof (cases "k' = k")
      case True
      then show ?thesis using ke us0 l'(5) users by (auto simp: entry_ok_def l' holds)
    next
      case False
      then have old: "map_of (lk_keys l) k' = Some e'" using ke by (simp add: l')
      then show ?thesis using entries[OF old] apart[OF old False] False l'(4) by (auto simp: entry_ok_def l'(2) holds users(1))
    qed
  next
    fix k1 k2 x assume "map_of (lk_keys ?l) k1 = Some x" "map_of (lk_keys ?l) k2 = Some x"
    then show "k1 = k2" using inj[of k1 x k2] apart by (auto simp: l' split: if_splits)
  next
    fix t1 t2 k' assume "holdsLock ?l t1 k'" "holdsLock ?l t2 k'"
    then show "t1 = t2" using one unfolding holds by blast
  qed
qed

lemma lock_inv_release:
  assumes inv: "lock_inv l"
  shows "lock_inv (lockRelease t l)"
proof (cases "\<exists>th. map_of (lk_threads l) t = Some th \<and> lt_phase th = Leaving")
  case False
  then show ?thesis using inv by (auto simp: lockRelease_def split: option.splits)
next
  case True
  then obtain th where t: "map_of (lk_threads l) t = Some th" and ph: "lt_phase th = Leaving" by blast
  obtain entry where k: "map_of (lk_keys l) (lt_key th) = Some (lt_entry th)" and e: "map_of (lk_store l) (lt_entry th) = Some entry"
    and us: "kl_users entry = int (card (users l (lt_key th)))" and full: "kl_full entry \<longleftrightarrow> (\<exists>t. holdsLock l t (lt_key th))"
    and fresh: "lt_entry th < lk_next l"
    using lock_inv_facts[OF inv t] .
  have threads: "map_of (lk_keys l) (lt_key th') = Some (lt_entry th')" if "map_of (lk_threads l) t' = Some th'" for t' th'
    using inv that unfolding lock_inv_def by blast
  have entries: "entry_ok l k' e" if "map_of (lk_keys l) k' = Some e" for k' e using inv that unfolding lock_inv_def by blast
  have inj: "k1 = k2" if "map_of (lk_keys l) k1 = Some x" "map_of (lk_keys l) k2 = Some x" for k1 k2 x
    using inv that unfolding lock_inv_def by blast
  have one: "t1 = t2" if "holdsLock l t1 k'" "holdsLock l t2 k'" for t1 t2 k' using inv that unfolding lock_inv_def by blast
  let ?l = "lockRelease t l"
  let ?last = "kl_users entry = 1"
  have l': "map_of (lk_keys ?l) = (if ?last then (map_of (lk_keys l))(lt_key th := None) else map_of (lk_keys l))"
    "map_of (lk_store ?l) = (map_of (lk_store l))(lt_entry th \<mapsto> entry\<lparr>kl_users := kl_users entry - 1\<rparr>)"
    "map_of (lk_threads ?l) = (map_of (lk_threads l))(t := None)" "lk_next ?l = lk_next l"
    using t e ph by (auto simp: lockRelease_def Let_def)
  have mem: "t \<in> users l (lt_key th)" using t by (auto simp: users_def)
  have users: "users ?l k' = (if k' = lt_key th then users l (lt_key th) - {t} else users l k')" for k'
    using t by (auto simp: users_def l'(3))
  have holds: "holdsLock ?l t' k' \<longleftrightarrow> holdsLock l t' k'" for t' k' using t ph by (auto simp: holdsLock_def l'(3))
  have card: "int (card (users l (lt_key th) - {t})) = kl_users entry - 1"
  proof -
    have "0 < card (users l (lt_key th))" using mem by (auto simp: card_gt_0_iff)
    then show ?thesis using us mem by (simp add: card_Diff_singleton of_nat_diff)
  qed
  have last: "?last \<longleftrightarrow> users l (lt_key th) - {t} = {}"
    using card by (metis card_eq_0_iff diff_eq_eq finite_Diff finite_users of_nat_0 of_nat_eq_0_iff add_0)
  show ?thesis
    unfolding lock_inv_def
  proof (intro conjI allI impI)
    fix t' th' assume th': "map_of (lk_threads ?l) t' = Some th'"
    then have old: "map_of (lk_threads l) t' = Some th'" "t' \<noteq> t" by (auto simp: l' split: if_splits)
    have "lt_key th' = lt_key th \<Longrightarrow> t' \<in> users l (lt_key th) - {t}" using old by (auto simp: users_def)
    then show "map_of (lk_keys ?l) (lt_key th') = Some (lt_entry th')"
      using threads[OF old(1)] last by (auto simp: l'(1))
  next
    fix k' e' assume "map_of (lk_keys ?l) k' = Some e'"
    then have ke: "map_of (lk_keys l) k' = Some e'" "k' = lt_key th \<Longrightarrow> \<not> ?last" by (auto simp: l' split: if_splits)
    show "entry_ok ?l k' e'"
    proof (cases "k' = lt_key th")
      case True
      then have "e' = lt_entry th" using ke k by simp
      then show ?thesis
        using True ke(2) last card full fresh by (auto simp: entry_ok_def l'(2,4) users holds)
    next
      case False
      then have "e' \<noteq> lt_entry th" using ke(1) k inj by auto
      then show ?thesis using entries[OF ke(1)] False by (auto simp: entry_ok_def l'(2,4) users holds)
    qed
  next
    fix k1 k2 x assume "map_of (lk_keys ?l) k1 = Some x" "map_of (lk_keys ?l) k2 = Some x"
    then show "k1 = k2" using inj[of k1 x k2] by (auto simp: l' split: if_splits)
  next
    fix t1 t2 k' assume "holdsLock ?l t1 k'" "holdsLock ?l t2 k'"
    then show "t1 = t2" using one unfolding holds by blast
  qed
qed

interpretation locks: guarded_system "\<lambda>l. l = noLocks" lock_step lock_inv
proof
  show "l = noLocks \<Longrightarrow> lock_inv l" for l :: "'k lock_state"
    by (simp add: noLocks_def lock_inv_def holdsLock_def)
  show "lock_inv l \<Longrightarrow> lock_step l l' \<Longrightarrow> lock_inv l'" for l l' :: "'k lock_state"
    by (auto elim!: lock_stepE intro: lock_inv_enter lock_inv_moves lock_inv_release)
qed

text \<open>C18: \<open>Locks\<close> excludes and does not leak. After any interleaving of callers that wait, give up, hold and
  release, at most one of them holds the lock of a key, although the entry of a key is created and
  deleted again while others come and go; and the map holds exactly the keys with a caller, so that
  nothing is left when all have gone.\<close>
theorem locks_exclusive:
  assumes r: "reachable (\<lambda>l. l = noLocks) lock_step l"
  shows "(\<forall>t t' k. holdsLock l t k \<and> holdsLock l t' k \<longrightarrow> t = t') \<and>
    (\<forall>k. map_of (lk_keys l) k \<noteq> None \<longleftrightarrow> users l k \<noteq> {})"
proof -
  have inv: "lock_inv l" by (rule locks.reachable_inv[OF r])
  have "map_of (lk_keys l) k \<noteq> None \<longleftrightarrow> users l k \<noteq> {}" for k
  proof
    assume "map_of (lk_keys l) k \<noteq> None"
    then show "users l k \<noteq> {}" using inv unfolding lock_inv_def entry_ok_def by blast
  next
    assume "users l k \<noteq> {}"
    then show "map_of (lk_keys l) k \<noteq> None" using inv unfolding lock_inv_def users_def by fastforce
  qed
  then show ?thesis using inv unfolding lock_inv_def by blast
qed

theorem locks_exclusive_witness:
  "let l = lockAcquire 1 (lockAcquire 0 (lockEnter 1 (7 :: nat) (lockEnter 0 7 noLocks)))
   in holdsLock l 0 7 \<and> (\<forall>t. holdsLock l t 7 \<longrightarrow> t = 0)"
proof -
  define l where "l = lockAcquire 1 (lockAcquire 0 (lockEnter 1 (7 :: nat) (lockEnter 0 7 noLocks)))"
  have start: "reachable (\<lambda>l. l = noLocks) lock_step (noLocks :: nat lock_state)" by (rule reachable.start) simp
  have "reachable (\<lambda>l. l = noLocks) lock_step (lockEnter 1 (7 :: nat) (lockEnter 0 7 noLocks))"
    by (rule reachable.next_step[OF reachable.next_step[OF start lock_step.enter[of noLocks 0 7]] lock_step.enter[of "lockEnter 0 7 noLocks" 1 7]])
  from reachable.next_step[OF reachable.next_step[OF this lock_step.acquire[of _ 0]] lock_step.acquire[of _ 1]]
  have "reachable (\<lambda>l. l = noLocks) lock_step l" unfolding l_def .
  note ex = locks_exclusive[OF this]
  have "holdsLock l 0 7"
    by (simp add: l_def lockAcquire_def lockMove_def lockEnter_def noLocks_def holdsLock_def Let_def)
  then show ?thesis using ex unfolding Let_def l_def by blast
qed

end
