(* ===== verification/Sip.thy ===== *)
theory Sip
  imports GoStrings
begin

text \<open>
  SIP messages (\<open>ims/message.go\<close>): the header block, the parser of a whole packet (datagrams), the
  reader of a byte stream (TCP) with its line limit and keepalive, and the header helpers. A packet
  is a byte list; a stream is the bytes still to come, its end an end of file. The \<open>unicode\<close> tables
  for runes above 127 are the parameters \<open>lo\<close> and \<open>up\<close>. The pong callback answers its n-th call.
\<close>

subsection \<open>Messages\<close>

datatype sip_error = IncompleteHeaders | HeadersExceedLimit | IncompleteBody | NotResponse | InvalidStartLine
  | MalformedHeader | EmptyHeaderName | InvalidContentLength | InvalidStatusCode | InvalidRequestLine
  | ReadHeaders | ReadBody | SendKeepalive | MalformedCSeq | MalformedCSeqNumber

type_synonym headers = "gostring \<rightharpoonup> gostring list"

record sipResponse =
  StatusCode :: int
  Reason :: gostring
  Headers :: headers
  Body :: "byte list"

record sipRequest =
  Method :: gostring
  URI :: gostring
  reqHeaders :: headers
  reqBody :: "byte list"

datatype sipPacket = Response sipResponse | Request sipRequest

definition maxSIPHeaderBytes :: nat where
  "maxSIPHeaderBytes = 65536"

abbreviation crlf :: "byte list" where
  "crlf \<equiv> [13, 10]"

definition headerValues :: "(rune \<Rightarrow> rune) \<Rightarrow> headers \<Rightarrow> gostring \<Rightarrow> gostring list" where
  "headerValues lo h name = (case h (ToLower lo (TrimSpace name)) of Some vs \<Rightarrow> vs | None \<Rightarrow> [])"

definition headerValue :: "(rune \<Rightarrow> rune) \<Rightarrow> headers \<Rightarrow> gostring \<Rightarrow> gostring" where
  "headerValue lo h name = (case headerValues lo h name of [] \<Rightarrow> [] | v # _ \<Rightarrow> v)"

subsection \<open>The header block\<close>

text \<open>Empty lines are skipped and a line that begins with white space continues the one before it.\<close>

fun unfoldLines :: "gostring list \<Rightarrow> gostring list \<Rightarrow> gostring list" where
  "unfoldLines acc [] = acc"
| "unfoldLines acc (raw # raws) =
    (if raw = [] then unfoldLines acc raws
     else if (hd raw = 32 \<or> hd raw = 9) \<and> acc \<noteq> []
       then unfoldLines (butlast acc @ [last acc @ [32] @ TrimSpace raw]) raws
     else unfoldLines (acc @ [raw]) raws)"

definition canonicalName :: "gostring \<Rightarrow> gostring" where
  "canonicalName name =
    (if name = runes ''v'' then runes ''via'' else if name = runes ''f'' then runes ''from''
     else if name = runes ''t'' then runes ''to'' else if name = runes ''i'' then runes ''call-id''
     else if name = runes ''l'' then runes ''content-length''
     else if name = runes ''c'' then runes ''content-type'' else name)"

definition addHeader :: "headers \<Rightarrow> gostring \<Rightarrow> gostring \<Rightarrow> headers" where
  "addHeader h name v = h(name \<mapsto> (case h name of Some vs \<Rightarrow> vs | None \<Rightarrow> []) @ [v])"

fun parseHeaderLines :: "(rune \<Rightarrow> rune) \<Rightarrow> headers \<Rightarrow> gostring list \<Rightarrow> (sip_error, headers) res" where
  "parseHeaderLines lo h [] = Inr h"
| "parseHeaderLines lo h (line # rest) =
    (case Cut 58 line of
       None \<Rightarrow> err MalformedHeader
     | Some (before, after) \<Rightarrow>
         if before = [] then err MalformedHeader
         else let name = ToLower lo (TrimSpace before) in
           if name = [] then err EmptyHeaderName
           else parseHeaderLines lo (addHeader h (canonicalName name) (TrimSpace after)) rest)"

definition contentLengthOf :: "headers \<Rightarrow> (sip_error, nat) res" where
  "contentLengthOf h =
    (case h (runes ''content-length'') of
       Some (v # vs) \<Rightarrow>
         (case Atoi (TrimSpace (last (v # vs))) of
            Some n \<Rightarrow> if n < 0 \<or> n > 2 ^ 20 then err InvalidContentLength else Inr (nat n)
          | None \<Rightarrow> err InvalidContentLength)
     | _ \<Rightarrow> Inr 0)"

definition startLine :: "(rune \<Rightarrow> rune) \<Rightarrow> gostring list \<Rightarrow> headers \<Rightarrow> (sip_error, sipPacket) res" where
  "startLine up tokens h =
    (if EqualFold (hd tokens) (runes ''SIP/2.0'') then
       (case Atoi (tokens ! 1) of
          Some code \<Rightarrow>
            if code < 100 \<or> code > 699 then err InvalidStatusCode
            else Inr (Response \<lparr>StatusCode = code, Reason = joinWith [32] (drop 2 tokens), Headers = h, Body = []\<rparr>)
        | None \<Rightarrow> err InvalidStatusCode)
     else if length tokens \<noteq> 3 \<or> \<not> EqualFold (tokens ! 2) (runes ''SIP/2.0'') \<or> hd tokens = [] \<or> tokens ! 1 = []
       then err InvalidRequestLine
     else Inr (Request \<lparr>Method = ToUpper up (hd tokens), URI = tokens ! 1, reqHeaders = h, reqBody = []\<rparr>))"

definition parseSIPHeaderBlockAny ::
    "(rune \<Rightarrow> rune) \<Rightarrow> (rune \<Rightarrow> rune) \<Rightarrow> byte list \<Rightarrow> (sip_error, sipPacket \<times> nat) res" where
  "parseSIPHeaderBlockAny lo up block =
    (let rawLines = splitOn 10 (unixLines (textOf block));
         startFields = Fields (TrimSpace (hd rawLines)) in
     if length startFields < 2 then err InvalidStartLine
     else rbind (parseHeaderLines lo Map.empty (unfoldLines [] (tl rawLines))) (\<lambda>h.
          rbind (contentLengthOf h) (\<lambda>n.
          rbind (startLine up startFields h) (\<lambda>p. Inr (p, n)))))"

definition findHeaderEnd :: "byte list \<Rightarrow> (nat \<times> nat) option" where
  "findHeaderEnd packet =
    (case indexOf (crlf @ crlf) packet of
       Some i \<Rightarrow> Some (i, 4)
     | None \<Rightarrow> (case indexOf [10, 10] packet of Some i \<Rightarrow> Some (i, 2) | None \<Rightarrow> None))"

fun setBody :: "sipPacket \<Rightarrow> byte list \<Rightarrow> sipPacket" where
  "setBody (Response r) b = Response (r\<lparr>Body := b\<rparr>)"
| "setBody (Request r) b = Request (r\<lparr>reqBody := b\<rparr>)"

subsection \<open>Whole packets\<close>

definition parseSIPPacket ::
    "(rune \<Rightarrow> rune) \<Rightarrow> (rune \<Rightarrow> rune) \<Rightarrow> byte list \<Rightarrow> (sip_error, sipPacket) res" where
  "parseSIPPacket lo up packet =
    (case findHeaderEnd packet of
       None \<Rightarrow> err IncompleteHeaders
     | Some (headerEnd, delimiterSize) \<Rightarrow>
         if headerEnd > maxSIPHeaderBytes then err HeadersExceedLimit
         else rbind (parseSIPHeaderBlockAny lo up (take headerEnd packet)) (\<lambda>(parsed, contentLength).
           let body = drop (headerEnd + delimiterSize) packet in
           if contentLength > length body then err IncompleteBody
           else Inr (setBody parsed (take contentLength body))))"

fun asResponse :: "sipPacket \<Rightarrow> (sip_error, sipResponse) res" where
  "asResponse (Response r) = Inr r"
| "asResponse (Request r) = err NotResponse"

definition parseSIPResponse where
  "parseSIPResponse lo up packet = rbind (parseSIPPacket lo up packet) asResponse"

definition parseSIPHeaderBlock where
  "parseSIPHeaderBlock lo up block =
    rbind (parseSIPHeaderBlockAny lo up block) (\<lambda>(p, n). rbind (asResponse p) (\<lambda>r. Inr (r, n)))"

subsection \<open>Streams\<close>

text \<open>
  \<open>bufio.Reader.ReadSlice('\n')\<close> with a buffer of \<open>bufsize\<close> bytes: a part that ends in the delimiter,
  or a full buffer, or what is left before the end of the file.
\<close>

datatype slice_end = Delimiter | BufferFull | EndOfFile

definition readSlice :: "nat \<Rightarrow> byte list \<Rightarrow> byte list \<times> slice_end" where
  "readSlice bufsize s =
    (case indexOf [10] (take bufsize s) of
       Some i \<Rightarrow> (take (i + 1) s, Delimiter)
     | None \<Rightarrow> if bufsize \<le> length s then (take bufsize s, BufferFull) else (s, EndOfFile))"

lemma readSlice_full: "readSlice bufsize s = (part, BufferFull) \<Longrightarrow> part = take bufsize s \<and> bufsize \<le> length s"
  by (auto simp: readSlice_def split: option.splits if_splits)

text \<open>The reader of \<open>bufio.NewReaderSize\<close> has at least 16 bytes.\<close>

function readSIPLine :: "nat \<Rightarrow> nat \<Rightarrow> byte list \<Rightarrow> byte list \<Rightarrow> (sip_error, byte list \<times> byte list) res" where
  "readSIPLine bufsize limit line s =
    (case readSlice (max 16 bufsize) s of
       (part, e) \<Rightarrow>
         if limit < length line + length part then err HeadersExceedLimit
         else (case e of
                 BufferFull \<Rightarrow> readSIPLine bufsize limit (line @ part) (drop (length part) s)
               | EndOfFile \<Rightarrow> err ReadHeaders
               | Delimiter \<Rightarrow> Inr (line @ part, drop (length part) s)))"
  by pat_completeness auto
termination
  by (relation "measure (\<lambda>(bufsize, limit, line, s). length s)") (auto dest!: readSlice_full[OF sym])

declare readSIPLine.simps [simp del]

text \<open>\<open>io.ReadFull\<close>.\<close>

definition readBody :: "nat \<Rightarrow> byte list \<Rightarrow> (sip_error, byte list \<times> byte list) res" where
  "readBody n s = (if length s < n then err ReadBody else Inr (take n s, drop n s))"

text \<open>
  A message of a stream, with the bytes after it; the number of pongs sent is the second part of the
  result. \<open>pong\<close> is \<open>None\<close> where the caller passes no callback.
\<close>

definition finishHeaders ::
    "(rune \<Rightarrow> rune) \<Rightarrow> (rune \<Rightarrow> rune) \<Rightarrow> byte list \<Rightarrow> byte list \<Rightarrow> (sip_error, sipPacket \<times> byte list) res" where
  "finishHeaders lo up header s =
    (case findHeaderEnd header of
       None \<Rightarrow> err IncompleteHeaders
     | Some (headerEnd, _) \<Rightarrow>
         rbind (parseSIPHeaderBlockAny lo up (take headerEnd header)) (\<lambda>(packet, contentLength).
           if contentLength > 0
           then rbind (readBody contentLength s) (\<lambda>(body, rest). Inr (setBody packet body, rest))
           else Inr (packet, s)))"

lemma indexOf_single: "indexOf [c] xs = Some i \<Longrightarrow> i < length xs"
  by (drule indexOf_Some) auto

lemma readSIPLine_shorter:
  "readSIPLine bufsize limit line s = Inr (l, rest) \<Longrightarrow> length rest < length s"
proof (induction bufsize limit line s rule: readSIPLine.induct)
  case (1 bufsize limit line s)
  obtain part e where re: "readSlice (max 16 bufsize) s = (part, e)" by fastforce
  have "e = Delimiter \<Longrightarrow> 0 < length part \<and> length part \<le> length s"
    using re by (auto simp: readSlice_def split: option.splits if_splits dest!: indexOf_single)
  then have delim: "e = Delimiter \<Longrightarrow> length s - length part < length s" by linarith
  have full: "e = BufferFull \<Longrightarrow> part = take (max 16 bufsize) s \<and> max 16 bufsize \<le> length s"
    using readSlice_full[of "max 16 bufsize" s part] re by simp
  show ?case
  proof (cases e)
    case BufferFull
    then have "length rest < length (drop (length part) s)"
      using 1 re by (auto simp: readSIPLine.simps[of bufsize limit line s] split: if_splits)
    then show ?thesis by auto
  qed (use 1(2) re delim in \<open>auto simp: readSIPLine.simps[of bufsize limit line s] split: if_splits\<close>)
qed

function packetLoop ::
    "(rune \<Rightarrow> rune) \<Rightarrow> (rune \<Rightarrow> rune) \<Rightarrow> nat \<Rightarrow> (nat \<Rightarrow> bool) option \<Rightarrow> byte list \<Rightarrow> bool \<Rightarrow> nat \<Rightarrow> byte list \<Rightarrow>
     (sip_error, sipPacket \<times> byte list) res \<times> nat" where
  "packetLoop lo up bufsize pong header leadingCRLF sent s =
    (if length header \<le> maxSIPHeaderBytes then
       (case readSIPLine bufsize (maxSIPHeaderBytes - length header) [] s of
          Inl f \<Rightarrow> (Inl f, sent)
        | Inr (line, rest) \<Rightarrow>
            if header = [] \<and> line = crlf then
              (case (if leadingCRLF then pong else None) of
                 Some send \<Rightarrow>
                   if send sent then packetLoop lo up bufsize pong header (\<not> leadingCRLF) (sent + 1) rest
                   else (err SendKeepalive, sent + 1)
               | None \<Rightarrow> packetLoop lo up bufsize pong header (\<not> leadingCRLF) sent rest)
            else if line = crlf \<or> line = [10] then (finishHeaders lo up (header @ line) rest, sent)
            else packetLoop lo up bufsize pong (header @ line) leadingCRLF sent rest)
     else (err HeadersExceedLimit, sent))"
  by pat_completeness auto
termination
  by (relation "measure (\<lambda>(lo, up, bufsize, pong, header, l, sent, s). length s)")
    (auto dest!: readSIPLine_shorter)

declare packetLoop.simps [simp del]

definition readSIPPacket ::
    "(rune \<Rightarrow> rune) \<Rightarrow> (rune \<Rightarrow> rune) \<Rightarrow> nat \<Rightarrow> (nat \<Rightarrow> bool) option \<Rightarrow> byte list \<Rightarrow>
     (sip_error, sipPacket \<times> byte list) res \<times> nat" where
  "readSIPPacket lo up bufsize pong s = packetLoop lo up bufsize pong [] False 0 s"

definition readSIPResponse ::
    "(rune \<Rightarrow> rune) \<Rightarrow> (rune \<Rightarrow> rune) \<Rightarrow> nat \<Rightarrow> (nat \<Rightarrow> bool) option \<Rightarrow> byte list \<Rightarrow>
     (sip_error, sipResponse \<times> byte list) res \<times> nat" where
  "readSIPResponse lo up bufsize pong s =
    (case readSIPPacket lo up bufsize pong s of
       (r, n) \<Rightarrow> (rbind r (\<lambda>(p, rest). rbind (asResponse p) (\<lambda>resp. Inr (resp, rest))), n))"

subsection \<open>Header helpers\<close>

text \<open>
  \<open>splitHeaderValues\<close>: the commas outside quotes and angle brackets separate. The loop carries the
  characters since the last separator.
\<close>

definition keepItem :: "gostring \<Rightarrow> gostring list" where
  "keepItem s = (if TrimSpace s = [] then [] else [TrimSpace s])"

fun splitLoop :: "bool \<Rightarrow> bool \<Rightarrow> nat \<Rightarrow> gostring \<Rightarrow> gostring \<Rightarrow> gostring list" where
  "splitLoop quoted escaped angleDepth item [] = keepItem item"
| "splitLoop quoted escaped angleDepth item (c # s) =
    (if escaped then splitLoop quoted False angleDepth (item @ [c]) s
     else if quoted \<and> c = 92 then splitLoop quoted True angleDepth (item @ [c]) s
     else if c = 34 then splitLoop (\<not> quoted) False angleDepth (item @ [c]) s
     else if \<not> quoted \<and> c = 60 then splitLoop quoted False (angleDepth + 1) (item @ [c]) s
     else if \<not> quoted \<and> c = 62 \<and> angleDepth > 0 then splitLoop quoted False (angleDepth - 1) (item @ [c]) s
     else if \<not> quoted \<and> angleDepth = 0 \<and> c = 44 then keepItem item @ splitLoop quoted False angleDepth [] s
     else splitLoop quoted False angleDepth (item @ [c]) s)"

definition splitHeaderValues :: "gostring list \<Rightarrow> gostring list" where
  "splitHeaderValues vs = concat (map (splitLoop False False 0 []) vs)"

definition cseqNumber :: "(rune \<Rightarrow> rune) \<Rightarrow> gostring \<Rightarrow> (sip_error, nat \<times> gostring) res" where
  "cseqNumber up v =
    (case Fields v of
       [number, method] \<Rightarrow>
         (case ParseUint number 32 of
            Some n \<Rightarrow> Inr (n, ToUpper up method)
          | None \<Rightarrow> err MalformedCSeqNumber)
     | _ \<Rightarrow> err MalformedCSeq)"

end
