(* ===== verification/SipBuild.thy ===== *)
theory SipBuild
  imports Sip
begin

text \<open>
  The SIP responses the client builds (\<open>ims/sms_runtime.go\<close>, \<open>ims/call_runtime.go\<close>), the header
  parameters they read, and session timers (\<open>ims/call_session.go\<close>). Positions in a header are byte
  offsets, because \<open>strings.ToLower\<close> can change the number of bytes of a value.
\<close>

datatype build_error = UnsupportedStatus | OmittedHeader

abbreviation needleOf :: "(rune \<Rightarrow> rune) \<Rightarrow> gostring \<Rightarrow> gostring" where
  "needleOf lo name \<equiv> 59 # ToLower lo name @ [61]"

definition trimQuotes :: "gostring \<Rightarrow> gostring" where
  "trimQuotes s = rev (dropWhile (\<lambda>r. r = 34) (rev (dropWhile (\<lambda>r. r = 34) s)))"

definition parameterEnd :: "rune \<Rightarrow> bool" where
  "parameterEnd r \<longleftrightarrow> r = 59 \<or> r = 44 \<or> r = 62 \<or> r = 32 \<or> r = 9"

text \<open>
  \<open>headerParameter\<close> finds the parameter in the lower-cased value and slices the value itself at that
  byte offset.
\<close>

definition headerParameter :: "(rune \<Rightarrow> rune) \<Rightarrow> gostring \<Rightarrow> gostring \<Rightarrow> ('e, gostring) res" where
  "headerParameter lo v name =
    (let needle = needleOf lo name; lower = ToLower lo v in
     case indexOf (bytesOf needle) (bytesOf lower) of
       None \<Rightarrow> Inr []
     | Some i \<Rightarrow>
         rbind (slice (bytesOf v) (i + length (bytesOf needle)) (length (bytesOf v))) (\<lambda>tail.
           Inr (trimQuotes (takeWhile (\<lambda>r. \<not> parameterEnd r) (textOf tail)))))"

definition hasTag :: "(rune \<Rightarrow> rune) \<Rightarrow> gostring \<Rightarrow> bool" where
  "hasTag lo to \<longleftrightarrow> indexOf (runes '';tag='') (ToLower lo to) \<noteq> None"

definition toWithTag :: "(rune \<Rightarrow> rune) \<Rightarrow> gostring \<Rightarrow> gostring \<Rightarrow> gostring" where
  "toWithTag lo to tag = (if hasTag lo to then to else to @ runes '';tag='' @ tag)"

definition headerHasToken :: "gostring list \<Rightarrow> gostring \<Rightarrow> bool" where
  "headerHasToken vs token \<longleftrightarrow> (\<exists>v \<in> set vs. \<exists>part \<in> set (splitOn 44 v). EqualFold (TrimSpace part) token)"

definition reqValues :: "(rune \<Rightarrow> rune) \<Rightarrow> sipRequest \<Rightarrow> string \<Rightarrow> gostring list" where
  "reqValues lo req name = headerValues lo (reqHeaders req) (runes name)"

definition reqValue :: "(rune \<Rightarrow> rune) \<Rightarrow> sipRequest \<Rightarrow> string \<Rightarrow> gostring" where
  "reqValue lo req name = headerValue lo (reqHeaders req) (runes name)"

text \<open>The line \<open>"Name: " + value\<close> of a header.\<close>

definition fieldLine :: "string \<Rightarrow> gostring \<Rightarrow> gostring" where
  "fieldLine name v = runes name @ [58, 32] @ v"

subsection \<open>Session timers\<close>

definition sessionTimerAnswer :: "(rune \<Rightarrow> rune) \<Rightarrow> sipRequest \<Rightarrow> ('e, gostring) res" where
  "sessionTimerAnswer lo req =
    (let v = TrimSpace (reqValue lo req ''Session-Expires'') in
     if v = [] then Inr []
     else rbind (headerParameter lo v (runes ''refresher'')) (\<lambda>r.
       Inr (if r = [] then v @ runes '';refresher=uas'' else v)))"

text \<open>The interval, whether this side refreshes, and the delay in nanoseconds.\<close>

definition sessionTimerSchedule :: "(rune \<Rightarrow> rune) \<Rightarrow> gostring \<Rightarrow> bool \<Rightarrow> ('e, int \<times> bool \<times> int) res" where
  "sessionTimerSchedule lo header localUAC =
    (case Atoi (TrimSpace (hd (splitOn 59 header))) of
       None \<Rightarrow> Inr (0, False, 0)
     | Some seconds \<Rightarrow>
         if seconds < 90 \<or> seconds > 86400 then Inr (0, False, 0)
         else rbind (headerParameter lo header (runes ''refresher'')) (\<lambda>p.
           let role = (if ToLower lo p = [] then runes ''uac'' else ToLower lo p) in
           if role \<noteq> runes ''uac'' \<and> role \<noteq> runes ''uas'' then Inr (0, False, 0)
           else let refresh = ((role = runes ''uac'') = localUAC); interval = seconds * 10 ^ 9 in
             if refresh then Inr (seconds, True, interval div 2)
             else Inr (seconds, False, interval - min (32 * 10 ^ 9) (interval div 3))))"

subsection \<open>Responses\<close>

definition statusReason :: "nat \<Rightarrow> gostring" where
  "statusReason status =
    (case map_of [(200, ''OK''), (405, ''Method Not Allowed''), (415, ''Unsupported Media Type''),
                  (488, ''Not Acceptable Here'')] status of
       Some s \<Rightarrow> runes s | None \<Rightarrow> [])"

definition callReason :: "nat \<Rightarrow> gostring" where
  "callReason status =
    (case map_of [(180, ''Ringing''), (200, ''OK''), (481, ''Call/Transaction Does Not Exist''),
                  (486, ''Busy Here''), (487, ''Request Terminated''), (488, ''Not Acceptable Here'')] status of
       Some s \<Rightarrow> runes s | None \<Rightarrow> [])"

definition smsContentType :: string where
  "smsContentType = ''application/vnd.3gpp.sms''"

definition ussiContentType :: string where
  "ussiContentType = ''application/vnd.3gpp.ussd''"

definition responseLine :: "nat \<Rightarrow> gostring \<Rightarrow> gostring" where
  "responseLine status reason = runes ''SIP/2.0 '' @ Itoa status @ [32] @ reason"

definition buildSIPResponse ::
    "(rune \<Rightarrow> rune) \<Rightarrow> sipRequest \<Rightarrow> nat \<Rightarrow> gostring \<Rightarrow> (build_error, byte list) res" where
  "buildSIPResponse lo req status tag =
    (let reason = statusReason status; via = reqValues lo req ''Via''; from = reqValue lo req ''From'';
         to = reqValue lo req ''To''; callID = reqValue lo req ''Call-ID''; cseq = reqValue lo req ''CSeq'' in
     if reason = [] then err UnsupportedStatus
     else if via = [] \<or> from = [] \<or> to = [] \<or> callID = [] \<or> cseq = [] then err OmittedHeader
     else Inr (bytesOf (joinWith [13, 10]
       ([responseLine status reason]
        @ map (fieldLine ''Via'') via
        @ [fieldLine ''From'' from, fieldLine ''To'' (toWithTag lo to tag),
           fieldLine ''Call-ID'' callID, fieldLine ''CSeq'' cseq]
        @ (if status = 405 then [fieldLine ''Allow'' (runes ''REGISTER, MESSAGE, OPTIONS'')] else [])
        @ (if status = 415 then [fieldLine ''Accept'' (runes (smsContentType @ '', '' @ ussiContentType))] else [])
        @ [fieldLine ''Content-Length'' (runes ''0''), [], []]))))"

definition requireTimer :: "(rune \<Rightarrow> rune) \<Rightarrow> sipRequest \<Rightarrow> gostring \<Rightarrow> ('e, bool) res" where
  "requireTimer lo req v =
    (if headerHasToken (reqValues lo req ''Supported'') (runes ''timer'') then Inr True
     else rbind (headerParameter lo v (runes ''refresher'')) (\<lambda>r. Inr (r = runes ''uac'')))"

definition timerHeaders :: "(rune \<Rightarrow> rune) \<Rightarrow> sipRequest \<Rightarrow> nat \<Rightarrow> (build_error, gostring list) res" where
  "timerHeaders lo req status =
    rbind (sessionTimerAnswer lo req) (\<lambda>v.
      if v \<noteq> [] \<and> status \<ge> 200 \<and> status < 300 \<and> (Method req = runes ''INVITE'' \<or> Method req = runes ''UPDATE'')
      then rbind (requireTimer lo req v) (\<lambda>need.
        Inr ([fieldLine ''Supported'' (runes ''timer''), fieldLine ''Session-Expires'' v]
             @ (if need then [fieldLine ''Require'' (runes ''timer'')] else [])))
      else Inr [])"

definition buildSIPResponseWithBody ::
    "(rune \<Rightarrow> rune) \<Rightarrow> sipRequest \<Rightarrow> nat \<Rightarrow> gostring \<Rightarrow> byte list \<Rightarrow> gostring list \<Rightarrow> (build_error, byte list) res" where
  "buildSIPResponseWithBody lo req status tag body extraHeaders =
    (let reason = callReason status; via = reqValues lo req ''Via''; from = reqValue lo req ''From'';
         to = reqValue lo req ''To''; callID = reqValue lo req ''Call-ID''; cseq = reqValue lo req ''CSeq'' in
     if reason = [] then err UnsupportedStatus
     else if via = [] \<or> from = [] \<or> to = [] \<or> callID = [] \<or> cseq = [] then err OmittedHeader
     else rbind (timerHeaders lo req status) (\<lambda>timer.
       Inr (bytesOf (joinWith [13, 10]
         ([responseLine status reason]
          @ map (fieldLine ''Via'') via
          @ [fieldLine ''From'' from, fieldLine ''To'' (toWithTag lo to tag),
             fieldLine ''Call-ID'' callID, fieldLine ''CSeq'' cseq]
          @ (if Method req = runes ''INVITE'' \<and> status > 100 \<and> status < 300
             then map (fieldLine ''Record-Route'') (reqValues lo req ''Record-Route'') else [])
          @ filter (\<lambda>h. TrimSpace h \<noteq> []) extraHeaders
          @ timer
          @ (if body \<noteq> [] then [fieldLine ''Content-Type'' (runes ''application/sdp'')] else [])
          @ [fieldLine ''Content-Length'' (Itoa (length body)), [], []])) @ body)))"

text \<open>The headers every request repeats after a security agreement.\<close>

definition runtimeSecurityHeaders :: "bool \<Rightarrow> gostring \<Rightarrow> gostring list" where
  "runtimeSecurityHeaders active verifyValue =
    (if \<not> active \<or> TrimSpace verifyValue = [] then []
     else [fieldLine ''Security-Verify'' (TrimSpace verifyValue), fieldLine ''Require'' (runes ''sec-agree''),
           fieldLine ''Proxy-Require'' (runes ''sec-agree'')])"

text \<open>\<open>headerURI\<close> and \<open>firstURI\<close>: the address of a name-addr, or of a bare value without parameters.\<close>

definition angleURI :: "gostring \<Rightarrow> gostring option" where
  "angleURI v = (case Cut 60 v of Some (_, rest) \<Rightarrow> map_option (\<lambda>(uri, _). TrimSpace uri) (Cut 62 rest) | None \<Rightarrow> None)"

definition beforeSemicolon :: "gostring \<Rightarrow> gostring" where
  "beforeSemicolon v = takeWhile (\<lambda>r. r \<noteq> 59) v"

definition headerURI :: "(rune \<Rightarrow> rune) \<Rightarrow> gostring \<Rightarrow> gostring" where
  "headerURI lo value =
    (let v = TrimSpace value in
     case angleURI v of
       Some uri \<Rightarrow> uri
     | None \<Rightarrow> let w = beforeSemicolon v in
         if HasPrefix (ToLower lo w) (runes ''sip:'') \<or> HasPrefix (ToLower lo w) (runes ''tel:'')
         then TrimSpace w else [])"

definition firstURI :: "gostring \<Rightarrow> gostring" where
  "firstURI value =
    (let v = TrimSpace (hd (splitOn 44 value)) in
     case angleURI v of Some uri \<Rightarrow> uri | None \<Rightarrow> TrimSpace (beforeSemicolon v))"

end
