(* ===== verification/Security.thy ===== *)
theory Security
  imports SipBuild IkeChild
begin

text \<open>
  The security agreement of the IMS registration (\<open>ims/security.go\<close>, \<open>ims/security_linux.go\<close>): the offer in
  Security-Client, the choice among the mechanisms of Security-Server, the keys, and the plans of
  \<open>ip xfrm\<close> commands that install and remove the security associations. The random source is the list
  of bytes it will still deliver, \<open>ipText\<close> is \<open>net.IP.String\<close>, an operation of the kernel is a command line
  that a parameter runs. Ports are integers, SPIs 32-bit words.
\<close>

datatype security_error = AgreementRequired | MalformedParameter | EmptyParameter | DuplicateParameter
  | IncompleteOffer | PartialSA | InvalidSPI | InvalidPort | InvalidPreference | RandomSource | NoSPI | NoPort
  | ProtectedPorts | BadMaterial | UnsupportedEncryption | UnsupportedIntegrity | BadEndpoints | ZeroSPI
  | DuplicateSPI | BadProtectedPort | SamePorts | BadKeyLength

record securityProposal =
  pr_spiClient :: "32 word"
  pr_spiServer :: "32 word"
  pr_portClient :: int
  pr_portServer :: int
  pr_encryption :: gostring
  pr_fallbackEncryption :: gostring
  pr_integrityAlgorithms :: "gostring list"
  pr_encryptionAlgorithmsList :: "gostring list"

definition emptyProposal :: securityProposal where
  "emptyProposal = \<lparr>pr_spiClient = 0, pr_spiServer = 0, pr_portClient = 0, pr_portServer = 0, pr_encryption = [],
     pr_fallbackEncryption = [], pr_integrityAlgorithms = [], pr_encryptionAlgorithmsList = []\<rparr>"

definition hmacMD5 :: gostring where "hmacMD5 = runes ''hmac-md5-96''"
definition hmacSHA1 :: gostring where "hmacSHA1 = runes ''hmac-sha-1-96''"
definition encNull :: gostring where "encNull = runes ''null''"
definition encAES :: gostring where "encAES = runes ''aes-cbc''"
definition encDES3 :: gostring where "encDES3 = runes ''des-ede3-cbc''"

subsection \<open>The offer\<close>

definition validProtectedPort :: "int \<Rightarrow> bool" where
  "validProtectedPort p \<longleftrightarrow> p > 1024 \<and> p \<le> 65535 \<and> p \<noteq> 5060 \<and> p \<noteq> 5061"

fun spiLoop :: "nat \<Rightarrow> 32 word \<Rightarrow> byte list \<Rightarrow> (security_error, 32 word \<times> byte list) res" where
  "spiLoop 0 exclude rand = err NoSPI"
| "spiLoop (Suc n) exclude rand =
    (case rand of
       a # b # c # d # rand \<Rightarrow>
         (let spi = un32 a b c d in if spi \<ge> 256 \<and> spi \<noteq> exclude then Inr (spi, rand) else spiLoop n exclude rand)
     | _ \<Rightarrow> err RandomSource)"

definition randomSPI :: "32 word \<Rightarrow> byte list \<Rightarrow> (security_error, 32 word \<times> byte list) res" where
  "randomSPI exclude rand = spiLoop 16 exclude rand"

text \<open>\<open>free n p\<close>: whether the n-th attempt could listen on the port, over TCP and then over UDP.\<close>

fun portLoop :: "(nat \<Rightarrow> int \<Rightarrow> bool) \<Rightarrow> nat \<Rightarrow> int \<Rightarrow> byte list \<Rightarrow> (security_error, int \<times> byte list) res" where
  "portLoop free 0 exclude rand = err NoPort"
| "portLoop free (Suc n) exclude rand =
    (case rand of
       a # b # rand \<Rightarrow>
         (let port = 20000 + uint (un16 a b) mod 44000 in
          if port = exclude \<or> \<not> validProtectedPort port \<or> \<not> free n port then portLoop free n exclude rand
          else Inr (port, rand))
     | _ \<Rightarrow> err RandomSource)"

definition availableProtectedPort :: "(nat \<Rightarrow> int \<Rightarrow> bool) \<Rightarrow> int \<Rightarrow> byte list \<Rightarrow> (security_error, int \<times> byte list) res" where
  "availableProtectedPort free exclude rand = portLoop free 32 exclude rand"

definition portOr :: "(nat \<Rightarrow> int \<Rightarrow> bool) \<Rightarrow> int \<Rightarrow> int \<Rightarrow> byte list \<Rightarrow> (security_error, int \<times> byte list) res" where
  "portOr free configured exclude rand = (if configured = 0 then availableProtectedPort free exclude rand else Inr (configured, rand))"

definition newSecurityProposal :: "(nat \<Rightarrow> int \<Rightarrow> bool) \<Rightarrow> int \<Rightarrow> int \<Rightarrow> byte list \<Rightarrow> (security_error, securityProposal) res" where
  "newSecurityProposal free clientPort serverPort rand =
    rbind (randomSPI 0 rand) (\<lambda>(spiC, rand).
    rbind (randomSPI spiC rand) (\<lambda>(spiS, rand).
    rbind (portOr free clientPort 0 rand) (\<lambda>(portC, rand).
    rbind (portOr free serverPort portC rand) (\<lambda>(portS, rand).
      if \<not> validProtectedPort portC \<or> \<not> validProtectedPort portS \<or> portC = portS then err ProtectedPorts
      else Inr (emptyProposal\<lparr>pr_spiClient := spiC, pr_spiServer := spiS, pr_portClient := portC, pr_portServer := portS,
        pr_integrityAlgorithms := [hmacMD5, hmacSHA1],
        pr_encryptionAlgorithmsList := [encNull, encDES3, encAES]\<rparr>)))))"

definition encryptionAlgorithm :: "securityProposal \<Rightarrow> gostring" where
  "encryptionAlgorithm p = (if EqualFold (TrimSpace (pr_encryption p)) encNull then encNull else encAES)"

definition encryptionAlgorithms :: "(rune \<Rightarrow> rune) \<Rightarrow> securityProposal \<Rightarrow> gostring list" where
  "encryptionAlgorithms lo p =
    (if pr_encryptionAlgorithmsList p \<noteq> [] then pr_encryptionAlgorithmsList p
     else let a = encryptionAlgorithm p; fallback = ToLower lo (TrimSpace (pr_fallbackEncryption p)) in
       if (fallback = encAES \<or> fallback = encNull) \<and> fallback \<noteq> a then [a, fallback] else [a])"

definition integrities :: "securityProposal \<Rightarrow> gostring list" where
  "integrities p = (if pr_integrityAlgorithms p \<noteq> [] then pr_integrityAlgorithms p else [hmacSHA1])"

definition supportsIntegrity :: "securityProposal \<Rightarrow> gostring \<Rightarrow> bool" where
  "supportsIntegrity p a \<longleftrightarrow> list_ex (EqualFold a) (integrities p)"

definition supportsEncryption :: "(rune \<Rightarrow> rune) \<Rightarrow> securityProposal \<Rightarrow> gostring \<Rightarrow> bool" where
  "supportsEncryption lo p a \<longleftrightarrow> list_ex (EqualFold a) (encryptionAlgorithms lo p)"

text \<open>\<open>%0nd\<close> of \<open>fmt\<close>, for a number that is not negative.\<close>

definition zeroPad :: "nat \<Rightarrow> nat \<Rightarrow> gostring" where
  "zeroPad n v = replicate (n - length (Itoa v)) 48 @ Itoa v"

definition showPort :: "int \<Rightarrow> gostring" where
  "showPort p = (if p < 0 then 45 # Itoa (nat (- p)) else Itoa (nat p))"

text \<open>The parameters of the security associations, with the spacing of the two forms of the header.\<close>

definition mechanismText :: "securityProposal \<Rightarrow> gostring \<times> gostring \<Rightarrow> nat \<Rightarrow> gostring" where
  "mechanismText p = (\<lambda>(integrity, encryption) index.
    runes ''ipsec-3gpp;q='' @ (if index = 0 then runes ''1.000'' else runes ''0.'' @ zeroPad 3 (999 - index)) @
    runes '';alg='' @ integrity @ runes '';prot=esp;mod=trans;ealg='' @ encryption @
    runes '';spi-c='' @ zeroPad 10 (unat (pr_spiClient p)) @ runes '';spi-s='' @ zeroPad 10 (unat (pr_spiServer p)) @
    runes '';port-c='' @ showPort (pr_portClient p) @ runes '';port-s='' @ showPort (pr_portServer p))"

definition securityHeaderValue :: "(rune \<Rightarrow> rune) \<Rightarrow> securityProposal \<Rightarrow> gostring" where
  "securityHeaderValue lo p =
    (let pairs = List.product (integrities p) (encryptionAlgorithms lo p) in
     joinWith (runes '', '') (map2 (mechanismText p) pairs [0..<length pairs]))"

definition securityClientValue :: "(rune \<Rightarrow> rune) \<Rightarrow> bool \<Rightarrow> securityProposal \<Rightarrow> gostring" where
  "securityClientValue lo att p =
    (if att then runes ''ipsec-3gpp; alg=hmac-sha-1-96; ealg=aes-cbc; prot=esp; mod=trans; spi-c='' @
       Itoa (unat (pr_spiClient p)) @ runes ''; spi-s='' @ Itoa (unat (pr_spiServer p)) @
       runes ''; port-c='' @ showPort (pr_portClient p) @ runes ''; port-s='' @ showPort (pr_portServer p)
     else securityHeaderValue lo p)"

subsection \<open>The mechanisms of the server\<close>

record securityMechanism =
  sm_raw :: gostring
  sm_name :: gostring
  sm_algorithm :: gostring
  sm_protocol :: gostring
  sm_mode :: gostring
  sm_encryption :: gostring
  sm_spiClient :: "32 word"
  sm_spiServer :: "32 word"
  sm_portClient :: int
  sm_portServer :: int
  sm_preference :: int

record securityAgreement =
  selected :: securityMechanism
  verifyValue :: gostring

definition decimalUint32 :: "gostring \<Rightarrow> (security_error, 32 word) res" where
  "decimalUint32 v =
    (if v = [] \<or> length (bytesOf v) > 10 then err InvalidSPI
     else case ParseUint v 32 of None \<Rightarrow> err InvalidSPI | Some n \<Rightarrow> Inr (word_of_nat n))"

definition decimalPort :: "gostring \<Rightarrow> (security_error, int) res" where
  "decimalPort v =
    (case Atoi v of None \<Rightarrow> err InvalidPort | Some n \<Rightarrow> if n < 1 \<or> n > 65535 then err InvalidPort else Inr n)"

definition preferenceValue :: "gostring \<Rightarrow> (security_error, int) res" where
  "preferenceValue v =
    (if v = [] then Inr 0
     else let (whole, fraction) = (case Cut 46 v of Some (w, f) \<Rightarrow> (w, Some f) | None \<Rightarrow> (v, None)) in
       if whole \<noteq> [48] \<and> whole \<noteq> [49] then err InvalidPreference
       else case fraction of
         None \<Rightarrow> Inr (if whole = [49] then 1000 else 0)
       | Some f \<Rightarrow>
           if length (bytesOf f) > 3 then err InvalidPreference
           else case Atoi (f @ replicate (3 - length (bytesOf f)) 48) of
             None \<Rightarrow> err InvalidPreference
           | Some n \<Rightarrow>
               if whole = [49] \<and> n \<noteq> 0 then err InvalidPreference
               else Inr (if whole = [49] then 1000 else n))"

fun mechanismParameters :: "(rune \<Rightarrow> rune) \<Rightarrow> (gostring \<times> gostring) list \<Rightarrow> gostring list \<Rightarrow>
    (security_error, (gostring \<times> gostring) list) res" where
  "mechanismParameters lo ps [] = Inr ps"
| "mechanismParameters lo ps (raw # rest) =
    (case Cut 61 (TrimSpace raw) of
       None \<Rightarrow> err MalformedParameter
     | Some (k, v) \<Rightarrow>
         let key = ToLower lo (TrimSpace k); v = trimQuotes (TrimSpace v) in
         if key = [] \<or> v = [] then err EmptyParameter
         else if key \<in> fst ` set ps then err DuplicateParameter
         else mechanismParameters lo (ps @ [(key, v)]) rest)"

definition param :: "(gostring \<times> gostring) list \<Rightarrow> string \<Rightarrow> gostring" where
  "param ps k = (case map_of ps (runes k) of Some v \<Rightarrow> v | None \<Rightarrow> [])"

definition orDefault :: "gostring \<Rightarrow> gostring \<Rightarrow> gostring" where
  "orDefault v d = (if v = [] then d else v)"

definition parseSecurityMechanism :: "(rune \<Rightarrow> rune) \<Rightarrow> gostring \<Rightarrow> (security_error, securityMechanism) res" where
  "parseSecurityMechanism lo item =
    (let parts = splitOn 59 item in
     rbind (mechanismParameters lo [] (tl parts)) (\<lambda>ps.
       let present = length (filter (\<lambda>k. param ps k \<noteq> []) [''spi-c'', ''spi-s'', ''port-c'', ''port-s'']) in
       if present = 0 then err IncompleteOffer
       else if present \<noteq> 4 then err PartialSA
       else rbind (decimalUint32 (param ps ''spi-c'')) (\<lambda>spiC.
         rbind (decimalUint32 (param ps ''spi-s'')) (\<lambda>spiS.
         rbind (decimalPort (param ps ''port-c'')) (\<lambda>portC.
         rbind (decimalPort (param ps ''port-s'')) (\<lambda>portS.
         rbind (preferenceValue (param ps ''q'')) (\<lambda>q.
           Inr \<lparr>sm_raw = TrimSpace item, sm_name = ToLower lo (TrimSpace (hd parts)),
             sm_algorithm = ToLower lo (param ps ''alg''),
             sm_protocol = ToLower lo (orDefault (param ps ''prot'') (runes ''esp'')),
             sm_mode = ToLower lo (orDefault (param ps ''mod'') (runes ''trans'')),
             sm_encryption = ToLower lo (orDefault (param ps ''ealg'') encNull),
             sm_spiClient = spiC, sm_spiServer = spiS, sm_portClient = portC, sm_portServer = portS,
             sm_preference = q\<rparr>)))))))"

definition mechanismName :: gostring where
  "mechanismName = runes ''ipsec-3gpp''"

text \<open>The two filters of the loop over the items.\<close>

definition offered :: "(rune \<Rightarrow> rune) \<Rightarrow> securityProposal \<Rightarrow> securityMechanism \<Rightarrow> bool" where
  "offered lo p m \<longleftrightarrow> EqualFold (sm_name m) mechanismName \<and> supportsIntegrity p (sm_algorithm m) \<and>
    EqualFold (sm_protocol m) (runes ''esp'') \<and> EqualFold (sm_mode m) (runes ''trans'') \<and>
    supportsEncryption lo p (sm_encryption m)"

definition usable :: "securityProposal \<Rightarrow> securityMechanism \<Rightarrow> bool" where
  "usable p m \<longleftrightarrow> \<not> (sm_spiClient m = 0 \<or> sm_spiServer m = 0 \<or> sm_spiClient m = sm_spiServer m \<or>
    sm_spiClient m = pr_spiClient p \<or> sm_spiClient m = pr_spiServer p \<or>
    sm_spiServer m = pr_spiClient p \<or> sm_spiServer m = pr_spiServer p \<or>
    \<not> validProtectedPort (sm_portClient m) \<or> \<not> validProtectedPort (sm_portServer m) \<or>
    sm_portClient m = sm_portServer m)"

fun candidateLoop :: "(rune \<Rightarrow> rune) \<Rightarrow> securityProposal \<Rightarrow> gostring list \<Rightarrow> (security_error, securityMechanism list) res" where
  "candidateLoop lo p [] = Inr []"
| "candidateLoop lo p (item # items) =
    (case parseSecurityMechanism lo item of
       Inl f \<Rightarrow>
         if ToLower lo (TrimSpace (hd (splitOn 59 item))) = mechanismName \<and> f \<noteq> Fail IncompleteOffer then Inl f
         else candidateLoop lo p items
     | Inr m \<Rightarrow>
         if offered lo p m \<and> usable p m then rbind (candidateLoop lo p items) (\<lambda>ms. Inr (m # ms))
         else candidateLoop lo p items)"

text \<open>\<open>sort.SliceStable\<close> by descending preference is \<open>sort_key\<close>, which is stable.\<close>

definition parseSecurityAgreement :: "(rune \<Rightarrow> rune) \<Rightarrow> gostring list \<Rightarrow> securityProposal \<Rightarrow> (security_error, securityAgreement) res" where
  "parseSecurityAgreement lo values p =
    (let items = splitHeaderValues values in
     if items = [] then err AgreementRequired
     else rbind (candidateLoop lo p items) (\<lambda>ms.
       case sort_key (\<lambda>m. - sm_preference m) ms of
         [] \<Rightarrow> err AgreementRequired
       | m # _ \<Rightarrow> Inr \<lparr>selected = m, verifyValue = joinWith (runes '', '') items\<rparr>))"

subsection \<open>Keys\<close>

text \<open>The loop counts the ones of the seven upper bits; the lowest bit makes their number odd.\<close>

function onesIn :: "byte \<Rightarrow> nat" where
  "onesIn b = (if b = 0 then 0 else unat (b AND 1) + onesIn (drop_bit 1 b))"
  by pat_completeness auto
termination
  by (relation "measure unat") (auto simp: drop_bit_eq_div unat_div word_neq_0_conv word_less_nat_alt)

declare onesIn.simps [simp del]

definition withOddDESParity :: "byte \<Rightarrow> byte" where
  "withOddDESParity b =
    (let v = b AND NOT 1 in if onesIn v mod 2 = 0 then v OR 1 else v)"

definition expandIPSecKeys :: "(rune \<Rightarrow> rune) \<Rightarrow> byte list \<Rightarrow> byte list \<Rightarrow> gostring \<Rightarrow> gostring \<Rightarrow>
    (security_error, byte list \<times> byte list) res" where
  "expandIPSecKeys lo ck ik ealg alg =
    (let ealg = ToLower lo (TrimSpace ealg); alg = ToLower lo (TrimSpace alg) in
     if length ck \<noteq> 16 \<or> length ik \<noteq> 16 then err BadMaterial
     else rbind (if ealg = encNull then Inr []
                 else if ealg = encAES \<or> ealg = [] then Inr ck
                 else if ealg = encDES3 then Inr (map withOddDESParity (ck @ take 8 ck))
                 else err UnsupportedEncryption) (\<lambda>encryption.
       rbind (if alg = hmacMD5 then Inr ik
              else if alg = hmacSHA1 \<or> alg = [] then Inr (ik @ replicate 4 0)
              else err UnsupportedIntegrity) (\<lambda>integrity.
         Inr (encryption, integrity))))"

subsection \<open>The plans of ip xfrm\<close>

record ipsecConfig =
  cf_LocalIP :: "byte list"
  cf_RemoteIP :: "byte list"
  cf_IntegrityAlgorithm :: gostring
  cf_EncryptionAlgorithm :: gostring
  cf_UEClientSPI :: "32 word"
  cf_UEServerSPI :: "32 word"
  cf_PCSCFClientSPI :: "32 word"
  cf_PCSCFServerSPI :: "32 word"
  cf_UEClientPort :: int
  cf_UEServerPort :: int
  cf_PCSCFClientPort :: int
  cf_PCSCFServerPort :: int
  cf_EncryptionKey :: "byte list"
  cf_IntegrityKey :: "byte list"

definition ipsecIntegrityAlgorithm :: "(rune \<Rightarrow> rune) \<Rightarrow> ipsecConfig \<Rightarrow> gostring" where
  "ipsecIntegrityAlgorithm lo c = orDefault (ToLower lo (TrimSpace (cf_IntegrityAlgorithm c))) hmacSHA1"

definition ipsecEncryptionAlgorithm :: "(rune \<Rightarrow> rune) \<Rightarrow> ipsecConfig \<Rightarrow> gostring" where
  "ipsecEncryptionAlgorithm lo c = orDefault (ToLower lo (TrimSpace (cf_EncryptionAlgorithm c))) encAES"

definition xfrmIntegrityAlgorithm :: "(rune \<Rightarrow> rune) \<Rightarrow> ipsecConfig \<Rightarrow> gostring" where
  "xfrmIntegrityAlgorithm lo c = (if ipsecIntegrityAlgorithm lo c = hmacMD5 then runes ''hmac(md5)'' else runes ''hmac(sha1)'')"

definition clientPairReqID :: "ipsecConfig \<Rightarrow> 32 word" where
  "clientPairReqID c =
    (let r = (cf_UEClientSPI c XOR cf_PCSCFServerSPI c) AND 0x7fffffff in if r = 0 then 1 else r)"

definition serverPairReqID :: "ipsecConfig \<Rightarrow> 32 word" where
  "serverPairReqID c =
    (let r = (cf_UEServerSPI c XOR cf_PCSCFClientSPI c) AND 0x7fffffff; r = (if r = 0 then 2 else r) in
     if r = clientPairReqID c then (let r = r XOR 0x40000000 in if r = 0 then 2 else r) else r)"

definition IsUnspecified :: "byte list \<Rightarrow> bool" where
  "IsUnspecified ip \<longleftrightarrow> To4 ip = Some [0, 0, 0, 0] \<or> ip = replicate 16 0"

fun checkSPIs :: "32 word list \<Rightarrow> 32 word list \<Rightarrow> (security_error, unit) res" where
  "checkSPIs seen [] = Inr ()"
| "checkSPIs seen (s # spis) =
    (if s = 0 then err ZeroSPI else if s \<in> set seen then err DuplicateSPI else checkSPIs (s # seen) spis)"

definition wantEncryptionKey :: "gostring \<Rightarrow> nat" where
  "wantEncryptionKey a = (if a = encAES then 16 else if a = encDES3 then 24 else 0)"

definition wantIntegrityKey :: "gostring \<Rightarrow> nat" where
  "wantIntegrityKey a = (if a = hmacMD5 then 16 else if a = hmacSHA1 then 20 else 0)"

definition validateIPSecSAConfig :: "(rune \<Rightarrow> rune) \<Rightarrow> ipsecConfig \<Rightarrow> (security_error, unit) res" where
  "validateIPSecSAConfig lo c =
    (let l = cf_LocalIP c; r = cf_RemoteIP c; enc = ipsecEncryptionAlgorithm lo c; int = ipsecIntegrityAlgorithm lo c in
     if l = [] \<or> r = [] \<or> IsUnspecified l \<or> IsUnspecified r \<or> (To4 l = None) \<noteq> (To4 r = None) then err BadEndpoints
     else rbind (checkSPIs [] [cf_UEClientSPI c, cf_UEServerSPI c, cf_PCSCFClientSPI c, cf_PCSCFServerSPI c]) (\<lambda>_.
       if \<not> list_all validProtectedPort [cf_UEClientPort c, cf_UEServerPort c, cf_PCSCFClientPort c, cf_PCSCFServerPort c]
       then err BadProtectedPort
       else if cf_UEClientPort c = cf_UEServerPort c \<or> cf_PCSCFClientPort c = cf_PCSCFServerPort c then err SamePorts
       else if enc \<noteq> encNull \<and> enc \<noteq> encAES \<and> enc \<noteq> encDES3 then err UnsupportedEncryption
       else if int \<noteq> hmacMD5 \<and> int \<noteq> hmacSHA1 then err UnsupportedIntegrity
       else if length (cf_EncryptionKey c) \<noteq> wantEncryptionKey enc \<or> length (cf_IntegrityKey c) \<noteq> wantIntegrityKey int
       then err BadKeyLength else Inr ()))"

record xfrmFlow =
  fl_family :: gostring
  fl_sourcePrefix :: gostring
  fl_destinationPrefix :: gostring
  fl_sourcePort :: int
  fl_destinationPort :: int
  fl_direction :: gostring
  fl_templateSource :: "byte list"
  fl_templateDestination :: "byte list"
  fl_spi :: "32 word"
  fl_reqid :: "32 word"
  fl_protocols :: "gostring list"

definition hexSPI :: "32 word \<Rightarrow> gostring" where
  "hexSPI s = runes ''0x'' @ hexEncode (put32 s)"

definition xfrmFlows :: "(byte list \<Rightarrow> gostring) \<Rightarrow> ipsecConfig \<Rightarrow> xfrmFlow list" where
  "xfrmFlows ipText c =
    (let v6 = (To4 (cf_LocalIP c) = None);
         family = (if v6 then runes ''-6'' else runes ''-4'');
         prefix = (if v6 then runes ''/128'' else runes ''/32'');
         l = cf_LocalIP c; r = cf_RemoteIP c; lp = ipText l @ prefix; rp = ipText r @ prefix;
         both = [runes ''tcp'', runes ''udp''];
         outward = \<lparr>fl_family = family, fl_sourcePrefix = lp, fl_destinationPrefix = rp, fl_sourcePort = 0,
           fl_destinationPort = 0, fl_direction = runes ''out'', fl_templateSource = l, fl_templateDestination = r,
           fl_spi = 0, fl_reqid = 0, fl_protocols = both\<rparr>;
         inward = outward\<lparr>fl_sourcePrefix := rp, fl_destinationPrefix := lp, fl_direction := runes ''in'',
           fl_templateSource := r, fl_templateDestination := l\<rparr> in
     [outward\<lparr>fl_sourcePort := cf_UEClientPort c, fl_destinationPort := cf_PCSCFServerPort c,
        fl_spi := cf_PCSCFServerSPI c, fl_reqid := clientPairReqID c\<rparr>,
      inward\<lparr>fl_sourcePort := cf_PCSCFServerPort c, fl_destinationPort := cf_UEClientPort c,
        fl_spi := cf_UEClientSPI c, fl_reqid := clientPairReqID c, fl_protocols := [runes ''tcp'']\<rparr>,
      inward\<lparr>fl_sourcePort := 0, fl_destinationPort := cf_UEServerPort c,
        fl_spi := cf_UEServerSPI c, fl_reqid := serverPairReqID c\<rparr>,
      outward\<lparr>fl_sourcePort := cf_UEServerPort c, fl_destinationPort := cf_PCSCFClientPort c,
        fl_spi := cf_PCSCFClientSPI c, fl_reqid := serverPairReqID c, fl_protocols := [runes ''tcp'']\<rparr>])"

text \<open>The selector of a policy, and what follows it when the policy is added.\<close>

definition policySelector :: "xfrmFlow \<Rightarrow> gostring \<Rightarrow> gostring list" where
  "policySelector f protocol =
    [runes ''src'', fl_sourcePrefix f, runes ''dst'', fl_destinationPrefix f, runes ''proto'', protocol] @
    (if fl_sourcePort f > 0 then [runes ''sport'', showPort (fl_sourcePort f)] else []) @
    (if fl_destinationPort f > 0 then [runes ''dport'', showPort (fl_destinationPort f)] else []) @
    [runes ''dir'', fl_direction f]"

definition policyTemplate :: "(byte list \<Rightarrow> gostring) \<Rightarrow> xfrmFlow \<Rightarrow> gostring list" where
  "policyTemplate ipText f =
    [runes ''priority'', runes ''100'', runes ''tmpl'', runes ''src'', ipText (fl_templateSource f),
     runes ''dst'', ipText (fl_templateDestination f), runes ''proto'', runes ''esp'', runes ''spi'', hexSPI (fl_spi f),
     runes ''reqid'', Itoa (unat (fl_reqid f)), runes ''mode'', runes ''transport'', runes ''level'', runes ''required'']"

definition xfrmPolicyArgs :: "(byte list \<Rightarrow> gostring) \<Rightarrow> xfrmFlow \<Rightarrow> gostring \<Rightarrow> bool \<Rightarrow> gostring list" where
  "xfrmPolicyArgs ipText f protocol delete =
    [fl_family f, runes ''xfrm'', runes ''policy'', if delete then runes ''delete'' else runes ''add''] @
    policySelector f protocol @ (if delete then [] else policyTemplate ipText f)"

definition stateSelector :: "(byte list \<Rightarrow> gostring) \<Rightarrow> byte list \<times> byte list \<times> 32 word \<Rightarrow> gostring list" where
  "stateSelector ipText = (\<lambda>(source, destination, spi).
    [runes ''src'', ipText source, runes ''dst'', ipText destination, runes ''proto'', runes ''esp'', runes ''spi'', hexSPI spi])"

definition stateSettings :: "(rune \<Rightarrow> rune) \<Rightarrow> ipsecConfig \<Rightarrow> 32 word \<Rightarrow> gostring list" where
  "stateSettings lo c reqid =
    [runes ''reqid'', Itoa (unat reqid), runes ''mode'', runes ''transport'', runes ''replay-window'', runes ''32'',
     runes ''auth-trunc'', xfrmIntegrityAlgorithm lo c, runes ''0x'' @ hexEncode (cf_IntegrityKey c), runes ''96''] @
    (let a = ipsecEncryptionAlgorithm lo c; k = runes ''0x'' @ hexEncode (cf_EncryptionKey c) in
     if a = encAES then [runes ''enc'', runes ''cbc(aes)'', k]
     else if a = encDES3 then [runes ''enc'', runes ''cbc(des3_ede)'', k]
     else [runes ''enc'', runes ''cipher_null'', []])"

definition stateAdd :: "(rune \<Rightarrow> rune) \<Rightarrow> (byte list \<Rightarrow> gostring) \<Rightarrow> ipsecConfig \<Rightarrow>
    (byte list \<times> byte list \<times> 32 word) \<times> 32 word \<Rightarrow> gostring list" where
  "stateAdd lo ipText c = (\<lambda>(state, reqid).
    [runes ''xfrm'', runes ''state'', runes ''add''] @ stateSelector ipText state @ stateSettings lo c reqid)"

definition stateDelete :: "(byte list \<Rightarrow> gostring) \<Rightarrow> byte list \<times> byte list \<times> 32 word \<Rightarrow> gostring list" where
  "stateDelete ipText state = [runes ''xfrm'', runes ''state'', runes ''delete''] @ stateSelector ipText state"

text \<open>The plans, as the arguments of each command; the descriptions of the code only enter error texts.\<close>

definition buildXFRMInstallPlan :: "(rune \<Rightarrow> rune) \<Rightarrow> (byte list \<Rightarrow> gostring) \<Rightarrow> ipsecConfig \<Rightarrow> (security_error, gostring list list) res" where
  "buildXFRMInstallPlan lo ipText c =
    rbind (validateIPSecSAConfig lo c) (\<lambda>_.
      let l = cf_LocalIP c; r = cf_RemoteIP c in
      Inr (map (stateAdd lo ipText c)
             [((l, r, cf_PCSCFServerSPI c), clientPairReqID c), ((r, l, cf_UEClientSPI c), clientPairReqID c),
              ((r, l, cf_UEServerSPI c), serverPairReqID c), ((l, r, cf_PCSCFClientSPI c), serverPairReqID c)] @
           concat (map (\<lambda>f. map (\<lambda>protocol. xfrmPolicyArgs ipText f protocol False) (fl_protocols f)) (xfrmFlows ipText c))))"

definition buildXFRMCleanupPlan :: "(byte list \<Rightarrow> gostring) \<Rightarrow> ipsecConfig \<Rightarrow> gostring list list" where
  "buildXFRMCleanupPlan ipText c =
    (let l = cf_LocalIP c; r = cf_RemoteIP c in
     concat (map (\<lambda>f. map (\<lambda>protocol. xfrmPolicyArgs ipText f protocol True) (rev (fl_protocols f))) (rev (xfrmFlows ipText c))) @
     map (stateDelete ipText)
       [(l, r, cf_PCSCFClientSPI c), (r, l, cf_UEServerSPI c), (r, l, cf_UEClientSPI c), (l, r, cf_PCSCFServerSPI c)])"

subsection \<open>The installer on Linux\<close>

text \<open>
  \<open>run\<close> is \<open>runIPCommand\<close>: it changes the kernel and says whether the command succeeded. A handle keeps the
  configuration with its keys overwritten.
\<close>

type_synonym 'k ip_command = "gostring list \<Rightarrow> 'k \<Rightarrow> bool \<times> 'k"

datatype install_error = NoCommand | BadPlan "security_error fault" | CommandFailed

record linuxIPSecHandle =
  hd_config :: ipsecConfig
  hd_closed :: bool

definition zeroBytes :: "byte list \<Rightarrow> byte list" where
  "zeroBytes bs = replicate (length bs) 0"

definition zeroKeys :: "ipsecConfig \<Rightarrow> ipsecConfig" where
  "zeroKeys c = c\<lparr>cf_EncryptionKey := zeroBytes (cf_EncryptionKey c), cf_IntegrityKey := zeroBytes (cf_IntegrityKey c)\<rparr>"

fun runPlan :: "'k ip_command \<Rightarrow> gostring list list \<Rightarrow> 'k \<Rightarrow> bool \<times> 'k" where
  "runPlan run [] k = (True, k)"
| "runPlan run (op # ops) k = (case run op k of (True, k) \<Rightarrow> runPlan run ops k | (False, k) \<Rightarrow> (False, k))"

fun runAll :: "'k ip_command \<Rightarrow> gostring list list \<Rightarrow> 'k \<Rightarrow> bool \<times> 'k" where
  "runAll run [] k = (True, k)"
| "runAll run (op # ops) k = (let (ok, k) = run op k; (oks, k) = runAll run ops k in (ok \<and> oks, k))"

definition xfrmCleanup :: "'k ip_command \<Rightarrow> (byte list \<Rightarrow> gostring) \<Rightarrow> ipsecConfig \<Rightarrow> 'k \<Rightarrow> bool \<times> 'k" where
  "xfrmCleanup run ipText c k = runAll run (buildXFRMCleanupPlan ipText c) k"

definition linuxInstall :: "(rune \<Rightarrow> rune) \<Rightarrow> (byte list \<Rightarrow> gostring) \<Rightarrow> bool \<Rightarrow> 'k ip_command \<Rightarrow> ipsecConfig \<Rightarrow> 'k \<Rightarrow>
    (install_error + linuxIPSecHandle) \<times> 'k" where
  "linuxInstall lo ipText found run c k =
    (if \<not> found then (Inl NoCommand, k)
     else case buildXFRMInstallPlan lo ipText c of
       Inl f \<Rightarrow> (Inl (BadPlan f), k)
     | Inr plan \<Rightarrow>
         (case runPlan run plan k of
            (True, k) \<Rightarrow> (Inr \<lparr>hd_config = zeroKeys c, hd_closed = False\<rparr>, k)
          | (False, k) \<Rightarrow> (Inl CommandFailed, snd (xfrmCleanup run ipText c k))))"

definition linuxClose :: "'k ip_command \<Rightarrow> (byte list \<Rightarrow> gostring) \<Rightarrow> linuxIPSecHandle \<times> 'k \<Rightarrow> bool \<times> linuxIPSecHandle \<times> 'k" where
  "linuxClose run ipText = (\<lambda>(h, k).
    if hd_closed h then (True, h, k)
    else let (ok, k) = xfrmCleanup run ipText (hd_config h) k in (ok, h\<lparr>hd_closed := True\<rparr>, k))"

subsection \<open>Of a session\<close>

text \<open>
  The offer of a session (\<open>Provider.newSession\<close>): the ports default by the carrier's encryption, and one
  operator is offered a single pair of algorithms. Then the configuration \<open>activateIPSec\<close> installs.
\<close>

definition sessionProposal :: "(nat \<Rightarrow> int \<Rightarrow> bool) \<Rightarrow> bool \<Rightarrow> gostring \<Rightarrow> int \<Rightarrow> int \<Rightarrow> byte list \<Rightarrow> (security_error, securityProposal) res" where
  "sessionProposal free att encryption clientPort serverPort rand =
    (let serverPort = (if att \<and> serverPort = 0 then 6000 else serverPort);
         clientPort = (if encryption = encNull \<and> clientPort = 0 then 5062 else clientPort);
         serverPort = (if encryption = encNull \<and> serverPort = 0 then 5063 else serverPort) in
     rbind (newSecurityProposal free clientPort serverPort rand) (\<lambda>p.
       let p = p\<lparr>pr_encryption := encryption\<rparr> in
       Inr (if att then p\<lparr>pr_integrityAlgorithms := [hmacSHA1], pr_encryptionAlgorithmsList := [encAES]\<rparr> else p)))"

definition agreedConfig :: "byte list \<Rightarrow> byte list \<Rightarrow> securityProposal \<Rightarrow> securityMechanism \<Rightarrow> byte list \<times> byte list \<Rightarrow> ipsecConfig" where
  "agreedConfig l r p m = (\<lambda>(encryptionKey, integrityKey).
    \<lparr>cf_LocalIP = l, cf_RemoteIP = r, cf_IntegrityAlgorithm = sm_algorithm m, cf_EncryptionAlgorithm = sm_encryption m,
     cf_UEClientSPI = pr_spiClient p, cf_UEServerSPI = pr_spiServer p,
     cf_PCSCFClientSPI = sm_spiClient m, cf_PCSCFServerSPI = sm_spiServer m,
     cf_UEClientPort = pr_portClient p, cf_UEServerPort = pr_portServer p,
     cf_PCSCFClientPort = sm_portClient m, cf_PCSCFServerPort = sm_portServer m,
     cf_EncryptionKey = encryptionKey, cf_IntegrityKey = integrityKey\<rparr>)"

end
