(* ===== verification/Security_Props.thy ===== *)
theory Security_Props
  imports Security
begin

text \<open>
  What the security agreement guarantees: only a mechanism the client offered is selected, the best of
  those that can be used; the configuration built from it passes every check of the installer; and
  whatever was installed is removed again.
\<close>

subsection \<open>Selection\<close>

lemma candidateLoop_set:
  "candidateLoop lo p items = Inr ms \<Longrightarrow>
    set ms = {m. \<exists>item \<in> set items. parseSecurityMechanism lo item = Inr m \<and> offered lo p m \<and> usable p m}"
proof (induction items arbitrary: ms)
  case Nil
  then show ?case by simp
next
  case (Cons item items)
  show ?case
  proof (cases "parseSecurityMechanism lo item")
    case (Inl f)
    then show ?thesis using Cons by (auto split: if_splits)
  next
    case (Inr m)
    show ?thesis
    proof (cases "offered lo p m \<and> usable p m")
      case True
      then obtain ms' where "candidateLoop lo p items = Inr ms'" "ms = m # ms'"
        using Cons.prems Inr by (auto simp: rbind_Inr_iff)
      then show ?thesis using Cons.IH[of ms'] Inr True by auto
    next
      case False
      then show ?thesis using Cons Inr by auto
    qed
  qed
qed

lemma sort_key_hd:
  assumes "sort_key f xs = x # ys"
  shows "x \<in> set xs \<and> (\<forall>y \<in> set xs. f x \<le> f y)"
proof -
  have s: "sorted (map f (x # ys))" using sorted_sort_key[of f xs] by (simp add: assms)
  have "set xs = set (x # ys)" using set_sort[of f xs] by (simp add: assms)
  then show ?thesis using s by auto
qed

lemma agreement_selected:
  assumes "parseSecurityAgreement lo values p = Inr a"
  shows "\<exists>item \<in> set (splitHeaderValues values). parseSecurityMechanism lo item = Inr (selected a)"
    and "offered lo p (selected a)" and "usable p (selected a)"
    and "\<forall>item \<in> set (splitHeaderValues values). \<forall>m. parseSecurityMechanism lo item = Inr m \<and> offered lo p m \<and> usable p m \<longrightarrow>
      sm_preference m \<le> sm_preference (selected a)"
    and "verifyValue a = joinWith (runes '', '') (splitHeaderValues values)"
proof -
  have ne: "splitHeaderValues values \<noteq> []" using assms by (auto simp: parseSecurityAgreement_def)
  then obtain ms where ms: "candidateLoop lo p (splitHeaderValues values) = Inr ms"
    using assms by (cases "candidateLoop lo p (splitHeaderValues values)") (simp_all add: parseSecurityAgreement_def Let_def)
  then have rest: "(case sort_key (\<lambda>m. - sm_preference m) ms of [] \<Rightarrow> err AgreementRequired
       | m # _ \<Rightarrow> Inr \<lparr>selected = m, verifyValue = joinWith (runes '', '') (splitHeaderValues values)\<rparr>) = Inr a"
    using assms ne by (simp add: parseSecurityAgreement_def Let_def)
  obtain m ys where sort: "sort_key (\<lambda>m. - sm_preference m) ms = m # ys"
    using rest by (cases "sort_key (\<lambda>m. - sm_preference m) ms") simp_all
  then have a: "a = \<lparr>selected = m, verifyValue = joinWith (runes '', '') (splitHeaderValues values)\<rparr>" using rest by simp
  note s = candidateLoop_set[OF ms] and h = sort_key_hd[OF sort]
  show "\<exists>item \<in> set (splitHeaderValues values). parseSecurityMechanism lo item = Inr (selected a)"
    and "offered lo p (selected a)" and "usable p (selected a)" using s h a by auto
  show "\<forall>item \<in> set (splitHeaderValues values). \<forall>m. parseSecurityMechanism lo item = Inr m \<and> offered lo p m \<and> usable p m \<longrightarrow>
      sm_preference m \<le> sm_preference (selected a)"
  proof (intro ballI allI impI)
    fix item m' assume "item \<in> set (splitHeaderValues values)" "parseSecurityMechanism lo item = Inr m' \<and> offered lo p m' \<and> usable p m'"
    then have "m' \<in> set ms" using s by blast
    then show "sm_preference m' \<le> sm_preference (selected a)" using h by (simp add: a)
  qed
  show "verifyValue a = joinWith (runes '', '') (splitHeaderValues values)" by (simp add: a)
qed

subsection \<open>The offer\<close>

lemma spiLoop_ok:
  "spiLoop n exclude rand = Inr (spi, rest) \<Longrightarrow> spi \<ge> 256 \<and> spi \<noteq> exclude"
proof (induction n arbitrary: rand)
  case (Suc n)
  show ?case
  proof (cases "length rand < 4")
    case True
    then show ?thesis using Suc.prems by (auto split: list.split_asm)
  next
    case False
    then obtain a b c d rand' where r: "rand = a # b # c # d # rand'"
      by (auto simp: not_less numeral_eq_Suc Suc_le_length_iff)
    then show ?thesis using Suc.prems Suc.IH[of rand'] by (cases "un32 a b c d \<ge> 256 \<and> un32 a b c d \<noteq> exclude") (simp_all add: Let_def)
  qed
qed simp

definition proposal_ok :: "securityProposal \<Rightarrow> bool" where
  "proposal_ok p \<longleftrightarrow> pr_spiClient p \<noteq> 0 \<and> pr_spiServer p \<noteq> 0 \<and> pr_spiClient p \<noteq> pr_spiServer p \<and>
    validProtectedPort (pr_portClient p) \<and> validProtectedPort (pr_portServer p) \<and> pr_portClient p \<noteq> pr_portServer p \<and>
    pr_integrityAlgorithms p \<noteq> [] \<and> set (pr_integrityAlgorithms p) \<subseteq> {hmacMD5, hmacSHA1} \<and>
    pr_encryptionAlgorithmsList p \<noteq> [] \<and> set (pr_encryptionAlgorithmsList p) \<subseteq> {encNull, encDES3, encAES}"

lemma newSecurityProposal_ok: "newSecurityProposal free cp sp rand = Inr p \<Longrightarrow> proposal_ok p"
  by (auto simp: newSecurityProposal_def randomSPI_def proposal_ok_def emptyProposal_def rbind_Inr_iff split: if_splits prod.splits
      dest!: spiLoop_ok)

lemma sessionProposal_ok: "sessionProposal free att enc cp sp rand = Inr p \<Longrightarrow> proposal_ok p"
  by (auto simp: sessionProposal_def Let_def rbind_Inr_iff dest!: newSecurityProposal_ok split: if_splits)
    (auto simp: proposal_ok_def)

subsection \<open>Names of algorithms\<close>

definition plainName :: "gostring \<Rightarrow> bool" where
  "plainName t \<longleftrightarrow> t \<noteq> [] \<and> (\<forall>r \<in> set t. r = 45 \<or> 48 \<le> r \<and> r \<le> 57 \<or> 97 \<le> r \<and> r \<le> 122 \<and> r \<noteq> 107)"

lemma plain_names: "plainName hmacMD5" "plainName hmacSHA1" "plainName encNull" "plainName encAES" "plainName encDES3"
  by (simp_all add: plainName_def hmacMD5_def hmacSHA1_def encNull_def encAES_def encDES3_def)

lemma foldRune_plain:
  assumes "foldRune r = foldRune c" "c = 45 \<or> 48 \<le> c \<and> c \<le> 57 \<or> 97 \<le> c \<and> c \<le> 122 \<and> c \<noteq> 107" "r \<noteq> 0x17F"
  shows "lowerRune lo r = c \<and> \<not> isSpace r"
  using assms by (auto simp: foldRune_def lowerRune_def isSpace_def split: if_splits)

lemma EqualFold_plain:
  assumes "EqualFold s t" "plainName t" "0x17F \<notin> set s"
  shows "ToLower lo (TrimSpace s) = t"
proof -
  have len: "length s = length t" using assms(1) by (metis EqualFold_def length_map)
  have each: "lowerRune lo (s ! i) = t ! i \<and> \<not> isSpace (s ! i)" if "i < length s" for i
  proof (rule foldRune_plain)
    have "map foldRune s ! i = map foldRune t ! i" using assms(1) by (simp add: EqualFold_def)
    then show "foldRune (s ! i) = foldRune (t ! i)" using that len by simp
    show "t ! i = 45 \<or> 48 \<le> t ! i \<and> t ! i \<le> 57 \<or> 97 \<le> t ! i \<and> t ! i \<le> 122 \<and> t ! i \<noteq> 107"
      using assms(2) that len by (simp add: plainName_def)
    show "s ! i \<noteq> 0x17F" using assms(3) that by (metis nth_mem)
  qed
  have ne: "s \<noteq> []" using len assms(2) by (auto simp: plainName_def)
  then have "TrimSpace s = s" using each[of 0] each[of "length s - 1"]
    by (intro TrimSpace_ends) (simp_all add: hd_conv_nth last_conv_nth)
  moreover have "ToLower lo s = t" unfolding ToLower_def using len each by (intro nth_equalityI) simp_all
  ultimately show ?thesis by simp
qed

lemma supported_integrity:
  assumes "proposal_ok p" "supportsIntegrity p a" "0x17F \<notin> set a"
  shows "ToLower lo (TrimSpace a) = hmacMD5 \<or> ToLower lo (TrimSpace a) = hmacSHA1"
proof -
  obtain t where "EqualFold a t" "t \<in> {hmacMD5, hmacSHA1}"
    using assms(1,2) by (auto simp: supportsIntegrity_def integrities_def proposal_ok_def list_ex_iff)
  then show ?thesis using EqualFold_plain[OF _ _ assms(3)] plain_names by auto
qed

lemma supported_encryption:
  assumes "proposal_ok p" "supportsEncryption lo p a" "0x17F \<notin> set a"
  shows "ToLower lo (TrimSpace a) \<in> {encNull, encDES3, encAES}"
proof -
  obtain t where "EqualFold a t" "t \<in> {encNull, encDES3, encAES}"
    using assms(1,2) by (auto simp: supportsEncryption_def encryptionAlgorithms_def proposal_ok_def list_ex_iff)
  then show ?thesis using EqualFold_plain[OF _ _ assms(3)] plain_names by auto
qed

subsection \<open>Keys\<close>

lemma onesIn_zero [simp]: "onesIn 0 = 0"
  by (simp add: onesIn.simps)

lemma onesIn_step: "onesIn b = unat (b AND 1) + onesIn (drop_bit 1 b)"
  by (cases "b = 0") (simp_all add: onesIn.simps[of b])

lemma withOddDESParity_odd: "odd (onesIn (withOddDESParity b))" and withOddDESParity_bits: "withOddDESParity b AND NOT 1 = b AND NOT 1"
proof -
  define v where "v = b AND NOT 1"
  have v: "v AND 1 = 0" unfolding v_def by (rule bit_word_eqI) (auto simp: bit_simps)
  have o: "(v OR 1) AND 1 = 1" by (rule bit_word_eqI) (auto simp: bit_simps)
  have d: "drop_bit 1 (v OR 1) = drop_bit 1 v" by (rule bit_word_eqI) (auto simp: bit_simps)
  have step: "onesIn (v OR 1) = Suc (onesIn v)" using onesIn_step[of v] onesIn_step[of "v OR 1"] by (simp add: v o d)
  have e: "onesIn v mod 2 = 0 \<longleftrightarrow> even (onesIn v)" by presburger
  have "odd (onesIn (if onesIn v mod 2 = 0 then v OR 1 else v))" unfolding e
    by (cases "even (onesIn v)") (simp_all only: step even_Suc if_True if_False simp_thms)
  moreover have w: "withOddDESParity b = (if onesIn v mod 2 = 0 then v OR 1 else v)"
    by (simp only: withOddDESParity_def v_def Let_def)
  ultimately show "odd (onesIn (withOddDESParity b))" by simp
  have "(v OR 1) AND NOT 1 = v" unfolding v_def by (rule bit_word_eqI) (auto simp: bit_simps)
  moreover have "v AND NOT 1 = v" unfolding v_def by (rule bit_word_eqI) (auto simp: bit_simps)
  ultimately show "withOddDESParity b AND NOT 1 = b AND NOT 1"
    unfolding w v_def[symmetric] by (simp split: if_split del: odd_iff_mod_2_eq_one)
qed

subsection \<open>The agreed configuration\<close>

lemma reqids_differ: "clientPairReqID c \<noteq> serverPairReqID c \<and> clientPairReqID c \<noteq> 0 \<and> serverPairReqID c \<noteq> 0"
proof -
  let ?q = "clientPairReqID c"
  have q: "?q \<noteq> 0" by (simp add: clientPairReqID_def Let_def)
  have flip: "?q XOR 0x40000000 \<noteq> ?q"
  proof
    assume "?q XOR 0x40000000 = ?q"
    then have "(?q XOR 0x40000000) XOR ?q = 0" by simp
    then show False by (simp add: xor.commute xor.assoc[symmetric])
  qed
  define r where "r = (let r = (cf_UEServerSPI c XOR cf_PCSCFClientSPI c) AND 0x7fffffff in if r = 0 then 2 else r)"
  have r: "r \<noteq> 0" by (simp add: r_def Let_def)
  have s: "serverPairReqID c = (if r = ?q then (if r XOR 0x40000000 = 0 then 2 else r XOR 0x40000000) else r)"
    by (simp add: serverPairReqID_def r_def Let_def)
  have "?q = 0x40000000" if "?q XOR 0x40000000 = 0" 
  proof -
    have "(?q XOR 0x40000000) XOR 0x40000000 = 0x40000000" using that by simp
    then show ?thesis by (simp add: xor.assoc)
  qed
  then show ?thesis using q r flip unfolding s by auto
qed

lemma checkSPIs_ok: "checkSPIs seen spis = Inr () \<longleftrightarrow> 0 \<notin> set spis \<and> distinct spis \<and> set seen \<inter> set spis = {}"
  by (induction spis arbitrary: seen) auto

lemma wantKeys:
  "wantEncryptionKey encNull = 0" "wantEncryptionKey encAES = 16" "wantEncryptionKey encDES3 = 24"
  "wantIntegrityKey hmacMD5 = 16" "wantIntegrityKey hmacSHA1 = 20"
  by (simp_all add: wantEncryptionKey_def wantIntegrityKey_def encNull_def encAES_def encDES3_def hmacMD5_def hmacSHA1_def)

definition endpoints_ok :: "byte list \<Rightarrow> byte list \<Rightarrow> bool" where
  "endpoints_ok l r \<longleftrightarrow> l \<noteq> [] \<and> r \<noteq> [] \<and> \<not> IsUnspecified l \<and> \<not> IsUnspecified r \<and> (To4 l = None) = (To4 r = None)"

text \<open>
  C39: What the session offers and the server answers becomes a configuration that the installer accepts: if
  the agreement selects a mechanism and the SIM gave 16 octets each of CK and IK, the keys expand to the
  lengths of the algorithms, every check of the endpoints, SPIs, ports and keys passes, a triple-DES key has
  odd parity in every octet, and the two pairs of associations have different request ids. The exception
  are names spelt with the long s, U+017F, which \<open>strings.EqualFold\<close> takes for an s and the expansion of
  the keys does not.
\<close>
theorem agreed_config_installs:
  assumes p: "sessionProposal free att enc cp sp rand = Inr p"
    and a: "parseSecurityAgreement lo values p = Inr a"
    and long: "0x17F \<notin> set (sm_algorithm (selected a))" "0x17F \<notin> set (sm_encryption (selected a))"
    and keys: "length ck = 16" "length ik = 16" and ends: "endpoints_ok l r"
  shows "\<exists>e i. expandIPSecKeys lo ck ik (sm_encryption (selected a)) (sm_algorithm (selected a)) = Inr (e, i) \<and>
    (let c = agreedConfig l r p (selected a) (e, i) in
      validateIPSecSAConfig lo c = Inr () \<and> (\<exists>plan. buildXFRMInstallPlan lo ipText c = Inr plan \<and> length plan = 10) \<and>
      (ipsecEncryptionAlgorithm lo c = encDES3 \<longrightarrow> (\<forall>b \<in> set e. odd (onesIn b))) \<and>
      clientPairReqID c \<noteq> serverPairReqID c)"
proof -
  let ?m = "selected a"
  have ok: "proposal_ok p" by (rule sessionProposal_ok[OF p])
  have off: "offered lo p ?m" and use: "usable p ?m" using agreement_selected[OF a] by simp_all
  define al where "al = ToLower lo (TrimSpace (sm_algorithm ?m))"
  define el where "el = ToLower lo (TrimSpace (sm_encryption ?m))"
  have al: "al = hmacMD5 \<or> al = hmacSHA1" unfolding al_def
    using off long(1) by (intro supported_integrity[OF ok]) (simp_all add: offered_def)
  have el: "el \<in> {encNull, encDES3, encAES}" unfolding el_def
    using off long(2) by (intro supported_encryption[OF ok]) (simp_all add: offered_def)
  have ne: "al \<noteq> []" "el \<noteq> []" using al el plain_names by (auto simp: plainName_def)
  have diff: "hmacSHA1 \<noteq> hmacMD5" "encAES \<noteq> encNull" "encDES3 \<noteq> encNull" "encDES3 \<noteq> encAES"
    by (simp_all add: hmacMD5_def hmacSHA1_def encNull_def encAES_def encDES3_def)
  define e where "e = (if el = encNull then [] else if el = encAES then ck else map withOddDESParity (ck @ take 8 ck))"
  define i where "i = (if al = hmacMD5 then ik else ik @ replicate 4 0)"
  have exp: "expandIPSecKeys lo ck ik (sm_encryption ?m) (sm_algorithm ?m) = Inr (e, i)"
    using al el keys ne diff by (auto simp: expandIPSecKeys_def al_def[symmetric] el_def[symmetric] e_def i_def)
  have len: "length e = wantEncryptionKey el" "length i = wantIntegrityKey al"
    using al el keys diff wantKeys by (auto simp: e_def i_def)
  define c where "c = agreedConfig l r p ?m (e, i)"
  have names: "ipsecIntegrityAlgorithm lo c = al" "ipsecEncryptionAlgorithm lo c = el"
    using ne by (simp_all add: c_def agreedConfig_def ipsecIntegrityAlgorithm_def ipsecEncryptionAlgorithm_def orDefault_def al_def el_def)
  have spis: "checkSPIs [] [cf_UEClientSPI c, cf_UEServerSPI c, cf_PCSCFClientSPI c, cf_PCSCFServerSPI c] = Inr ()"
    using ok use by (auto simp: checkSPIs_ok c_def agreedConfig_def proposal_ok_def usable_def)
  have ports: "list_all validProtectedPort [cf_UEClientPort c, cf_UEServerPort c, cf_PCSCFClientPort c, cf_PCSCFServerPort c]"
    "cf_UEClientPort c \<noteq> cf_UEServerPort c" "cf_PCSCFClientPort c \<noteq> cf_PCSCFServerPort c"
    using ok use by (simp_all add: c_def agreedConfig_def proposal_ok_def usable_def)
  have fields: "cf_LocalIP c = l" "cf_RemoteIP c = r" "cf_EncryptionKey c = e" "cf_IntegrityKey c = i"
    by (simp_all add: c_def agreedConfig_def)
  have valid: "validateIPSecSAConfig lo c = Inr ()"
    using ends spis ports al el len by (simp add: validateIPSecSAConfig_def Let_def fields names endpoints_ok_def) auto
  then have plan: "\<exists>plan. buildXFRMInstallPlan lo ipText c = Inr plan \<and> length plan = 10"
    by (simp add: buildXFRMInstallPlan_def Let_def xfrmFlows_def)
  have "\<forall>b \<in> set e. odd (onesIn b)" if "el = encDES3" using that diff withOddDESParity_odd by (auto simp: e_def)
  then show ?thesis using exp valid plan reqids_differ[of c] names unfolding c_def Let_def by blast
qed

subsection \<open>Installing and removing\<close>

text \<open>
  What a command is about: whether it adds, and the object it names. A state is named by its addresses,
  protocol and SPI, a policy by its family and selector.
\<close>

definition commandOf :: "gostring list \<Rightarrow> bool \<times> gostring list" where
  "commandOf args =
    (if take 2 args = [runes ''xfrm'', runes ''state'']
     then (args ! 2 = runes ''add'', take 2 args @ take 8 (drop 3 args))
     else (args ! 3 = runes ''add'', take 3 args @ takeWhile (\<lambda>w. w \<noteq> runes ''priority'') (drop 4 args)))"

text \<open>
  What is assumed of \<open>ip\<close>: a command that succeeds adds or deletes the object it names, one that fails
  changes nothing, and an object that is there can be deleted.
\<close>

definition ip_ok :: "('k \<Rightarrow> gostring list set) \<Rightarrow> 'k ip_command \<Rightarrow> bool" where
  "ip_ok objects run \<longleftrightarrow> (\<forall>args k. let (add, obj) = commandOf args; (ok, k') = run args k in
    objects k' = (if ok then if add then insert obj (objects k) else objects k - {obj} else objects k) \<and>
    (\<not> add \<and> obj \<in> objects k \<longrightarrow> ok))"

lemma ip_ok_run:
  assumes "ip_ok objects run" "commandOf args = (add, obj)" "run args k = (ok, k')"
  shows "objects k' = (if ok then if add then insert obj (objects k) else objects k - {obj} else objects k)"
    and "\<not> add \<Longrightarrow> obj \<in> objects k \<Longrightarrow> ok"
  using assms(1)[unfolded ip_ok_def, rule_format, of args k] by (simp_all add: assms(2,3))

lemma ip_ok_add:
  assumes "ip_ok objects run" "fst (commandOf args)" "run args k = (ok, k')"
  shows "objects k' = (if ok then insert (snd (commandOf args)) (objects k) else objects k)"
  using ip_ok_run(1)[OF assms(1) prod.collapse[symmetric] assms(3)] assms(2) by simp

lemma ip_ok_delete:
  assumes "ip_ok objects run" "\<not> fst (commandOf args)" "run args k = (ok, k')"
  shows "objects k' = objects k - {snd (commandOf args)}"
  using ip_ok_run[OF assms(1) prod.collapse[symmetric] assms(3)] assms(2) by (cases ok) auto

abbreviation objectsOf :: "gostring list list \<Rightarrow> gostring list set" where
  "objectsOf plan \<equiv> (snd \<circ> commandOf) ` set plan"

lemma runAll_deletes:
  assumes "ip_ok objects run" "\<forall>op \<in> set plan. \<not> fst (commandOf op)"
  shows "objects (snd (runAll run plan k)) = objects k - objectsOf plan"
  using assms(2)
proof (induction plan arbitrary: k)
  case (Cons op plan)
  obtain ok k1 where r: "run op k = (ok, k1)" by (cases "run op k")
  have "objects k1 = objects k - {snd (commandOf op)}" using ip_ok_delete[OF assms(1) _ r] Cons.prems by simp
  moreover have "objects (snd (runAll run plan k1)) = objects k1 - objectsOf plan" using Cons by simp
  moreover have "snd (runAll run (op # plan) k) = snd (runAll run plan k1)" using r by (simp add: Let_def split: prod.split)
  ultimately show ?case by auto
qed simp

lemma runPlan_adds:
  assumes "ip_ok objects run" "\<forall>op \<in> set plan. fst (commandOf op)"
  shows "objects k \<subseteq> objects (snd (runPlan run plan k)) \<and> objects (snd (runPlan run plan k)) \<subseteq> objects k \<union> objectsOf plan \<and>
    (fst (runPlan run plan k) \<longrightarrow> objects (snd (runPlan run plan k)) = objects k \<union> objectsOf plan)"
  using assms(2)
proof (induction plan arbitrary: k)
  case (Cons op plan)
  obtain ok k1 where r: "run op k = (ok, k1)" by (cases "run op k")
  have o: "objects k1 = (if ok then insert (snd (commandOf op)) (objects k) else objects k)"
    using ip_ok_add[OF assms(1) _ r] Cons.prems by simp
  show ?case
  proof (cases ok)
    case True
    then show ?thesis using Cons.IH[of k1] Cons.prems r o by auto
  next
    case False
    then show ?thesis using r o by auto
  qed
qed simp

lemma word_not_priority:
  "s @ runes ''/32'' \<noteq> runes ''priority''" "s @ runes ''/128'' \<noteq> runes ''priority''" "showPort p \<noteq> runes ''priority''"
proof -
  show "s @ runes ''/32'' \<noteq> runes ''priority''" by (auto dest!: arg_cong[of _ _ last])
  show "s @ runes ''/128'' \<noteq> runes ''priority''" by (auto dest!: arg_cong[of _ _ last])
  have "112 \<notin> set (showPort p)" using Itoa_range[of 112] by (auto simp: showPort_def)
  then show "showPort p \<noteq> runes ''priority''" by auto
qed

lemma command_state:
  "commandOf (stateAdd lo ipText c (s, q)) = (True, [runes ''xfrm'', runes ''state''] @ stateSelector ipText s)"
  "commandOf (stateDelete ipText s) = (False, [runes ''xfrm'', runes ''state''] @ stateSelector ipText s)"
  by (cases s; simp add: commandOf_def stateAdd_def stateDelete_def stateSelector_def stateSettings_def)+

lemma command_policy:
  assumes "\<forall>w \<in> set (policySelector f protocol). w \<noteq> runes ''priority''" "fl_family f \<noteq> runes ''xfrm''"
  shows "commandOf (xfrmPolicyArgs ipText f protocol d) = (\<not> d, [fl_family f, runes ''xfrm'', runes ''policy''] @ policySelector f protocol)"
proof -
  have "takeWhile (\<lambda>w. w \<noteq> runes ''priority'') (policySelector f protocol @ rest) = policySelector f protocol"
    if "rest = [] \<or> (\<exists>ws. rest = runes ''priority'' # ws)" for rest
    using assms(1) that by (auto simp: takeWhile_append2 takeWhile_eq_all_conv)
  from this[of "if d then [] else policyTemplate ipText f"]
  have "takeWhile (\<lambda>w. w \<noteq> runes ''priority'') (policySelector f protocol @ (if d then [] else policyTemplate ipText f)) = policySelector f protocol"
    by (simp add: policyTemplate_def)
  then show ?thesis using assms(2) by (simp add: commandOf_def xfrmPolicyArgs_def)
qed

lemma flow_fields:
  "\<forall>f \<in> set (xfrmFlows ipText c). let suffix = (if To4 (cf_LocalIP c) = None then runes ''/128'' else runes ''/32'');
      ends = {ipText (cf_LocalIP c) @ suffix, ipText (cf_RemoteIP c) @ suffix} in
    fl_sourcePrefix f \<in> ends \<and> fl_destinationPrefix f \<in> ends \<and>
    fl_direction f \<in> {runes ''in'', runes ''out''} \<and> set (fl_protocols f) \<subseteq> {runes ''tcp'', runes ''udp''} \<and>
    fl_family f \<in> {runes ''-4'', runes ''-6''}"
  by (simp add: xfrmFlows_def Let_def)

lemma flow_words:
  assumes "f \<in> set (xfrmFlows ipText c)" "protocol \<in> set (fl_protocols f)"
  shows "\<forall>w \<in> set (policySelector f protocol). w \<noteq> runes ''priority''" and "fl_family f \<noteq> runes ''xfrm''"
proof -
  define suffix where "suffix = (if To4 (cf_LocalIP c) = None then runes ''/128'' else runes ''/32'')"
  have ff: "fl_sourcePrefix f \<in> {ipText (cf_LocalIP c) @ suffix, ipText (cf_RemoteIP c) @ suffix}"
    "fl_destinationPrefix f \<in> {ipText (cf_LocalIP c) @ suffix, ipText (cf_RemoteIP c) @ suffix}"
    "fl_direction f \<in> {runes ''in'', runes ''out''}" "set (fl_protocols f) \<subseteq> {runes ''tcp'', runes ''udp''}"
    "fl_family f \<in> {runes ''-4'', runes ''-6''}"
    using bspec[OF flow_fields[of ipText c] assms(1)] unfolding Let_def suffix_def[symmetric] by simp_all
  have suf: "s @ suffix \<noteq> runes ''priority''" for s using word_not_priority(1,2)[of s] unfolding suffix_def by simp
  have "fl_sourcePrefix f \<noteq> runes ''priority''" "fl_destinationPrefix f \<noteq> runes ''priority''"
    using ff(1,2) suf[of "ipText (cf_LocalIP c)"] suf[of "ipText (cf_RemoteIP c)"] by auto
  moreover have "protocol \<noteq> runes ''priority''" "fl_direction f \<noteq> runes ''priority''" using ff(3,4) assms(2) by auto
  ultimately show "\<forall>w \<in> set (policySelector f protocol). w \<noteq> runes ''priority''"
    using word_not_priority(3)[of "fl_sourcePort f"] word_not_priority(3)[of "fl_destinationPort f"]
    by (cases "fl_sourcePort f > 0"; cases "fl_destinationPort f > 0") (simp_all add: policySelector_def)
  show "fl_family f \<noteq> runes ''xfrm''" using ff(5) by auto
qed

abbreviation policyObject :: "xfrmFlow \<Rightarrow> gostring \<Rightarrow> gostring list" where
  "policyObject f protocol \<equiv> [fl_family f, runes ''xfrm'', runes ''policy''] @ policySelector f protocol"

lemma policy_commands:
  "map commandOf (concat (map (\<lambda>f. map (\<lambda>protocol. xfrmPolicyArgs ipText f protocol d) (fl_protocols f)) (xfrmFlows ipText c))) =
    concat (map (\<lambda>f. map (\<lambda>protocol. (\<not> d, policyObject f protocol)) (fl_protocols f)) (xfrmFlows ipText c))"
  "map commandOf (concat (map (\<lambda>f. map (\<lambda>protocol. xfrmPolicyArgs ipText f protocol d) (rev (fl_protocols f))) (rev (xfrmFlows ipText c)))) =
    concat (map (\<lambda>f. map (\<lambda>protocol. (\<not> d, policyObject f protocol)) (rev (fl_protocols f))) (rev (xfrmFlows ipText c)))"
  unfolding map_concat map_map comp_def
  by (intro arg_cong[of _ _ concat] map_cong refl command_policy flow_words; simp)+

lemma plan_commands:
  assumes "buildXFRMInstallPlan lo ipText c = Inr plan"
  shows "\<forall>op \<in> set plan. fst (commandOf op)" and "\<forall>op \<in> set (buildXFRMCleanupPlan ipText c). \<not> fst (commandOf op)"
    and "objectsOf (buildXFRMCleanupPlan ipText c) = objectsOf plan"
proof -
  define so where "so = (\<lambda>s. [runes ''xfrm'', runes ''state''] @ stateSelector ipText s)"
  define ss where "ss = [(cf_LocalIP c, cf_RemoteIP c, cf_PCSCFServerSPI c), (cf_RemoteIP c, cf_LocalIP c, cf_UEClientSPI c),
    (cf_RemoteIP c, cf_LocalIP c, cf_UEServerSPI c), (cf_LocalIP c, cf_RemoteIP c, cf_PCSCFClientSPI c)]"
  have "plan = map (stateAdd lo ipText c) (zip ss [clientPairReqID c, clientPairReqID c, serverPairReqID c, serverPairReqID c]) @
    concat (map (\<lambda>f. map (\<lambda>protocol. xfrmPolicyArgs ipText f protocol False) (fl_protocols f)) (xfrmFlows ipText c))"
    using assms by (cases "validateIPSecSAConfig lo c") (simp_all add: buildXFRMInstallPlan_def Let_def ss_def)
  then have inst: "map commandOf plan = map (\<lambda>s. (True, so s)) ss @
    concat (map (\<lambda>f. map (\<lambda>protocol. (\<not> False, policyObject f protocol)) (fl_protocols f)) (xfrmFlows ipText c))"
    by (simp only: map_append policy_commands) (simp add: ss_def so_def command_state)
  have clean: "map commandOf (buildXFRMCleanupPlan ipText c) =
    concat (map (\<lambda>f. map (\<lambda>protocol. (\<not> True, policyObject f protocol)) (rev (fl_protocols f))) (rev (xfrmFlows ipText c))) @
    map (\<lambda>s. (False, so s)) (rev ss)"
    by (simp only: buildXFRMCleanupPlan_def Let_def map_append policy_commands) (simp add: ss_def so_def command_state)
  have si: "commandOf ` set plan = (\<lambda>s. (True, so s)) ` set ss \<union> (\<Union>f \<in> set (xfrmFlows ipText c). (\<lambda>protocol. (True, policyObject f protocol)) ` set (fl_protocols f))"
    using arg_cong[OF inst, of set] by simp
  have sc: "commandOf ` set (buildXFRMCleanupPlan ipText c) = (\<lambda>s. (False, so s)) ` set ss \<union>
      (\<Union>f \<in> set (xfrmFlows ipText c). (\<lambda>protocol. (False, policyObject f protocol)) ` set (fl_protocols f))"
    using arg_cong[OF clean, of set] by (simp add: Un_commute)
  show "\<forall>op \<in> set plan. fst (commandOf op)"
  proof
    fix op assume "op \<in> set plan"
    then have "commandOf op \<in> commandOf ` set plan" by simp
    then show "fst (commandOf op)" unfolding si by auto
  qed
  show "\<forall>op \<in> set (buildXFRMCleanupPlan ipText c). \<not> fst (commandOf op)"
  proof
    fix op assume "op \<in> set (buildXFRMCleanupPlan ipText c)"
    then have "commandOf op \<in> commandOf ` set (buildXFRMCleanupPlan ipText c)" by simp
    then show "\<not> fst (commandOf op)" unfolding sc by auto
  qed
  show "objectsOf (buildXFRMCleanupPlan ipText c) = objectsOf plan"
    unfolding image_comp[symmetric] si sc by (simp only: image_Un image_UN image_image snd_conv)
qed

lemma xfrmFlows_zeroKeys [simp]: "xfrmFlows ipText (zeroKeys c) = xfrmFlows ipText c"
  by (simp add: xfrmFlows_def zeroKeys_def Let_def clientPairReqID_def serverPairReqID_def)

lemma cleanup_zeroKeys [simp]: "buildXFRMCleanupPlan ipText (zeroKeys c) = buildXFRMCleanupPlan ipText c"
  by (simp add: buildXFRMCleanupPlan_def) (simp add: zeroKeys_def)

text \<open>
  C40: Nothing is left in the kernel. If none of the objects of the configuration is there, an installation that
  fails, at whatever command, leaves the kernel with the objects it had; one that succeeds adds exactly those
  of the plan, and closing its handle removes exactly them, without the keys, which the handle no longer
  holds; closing it again does nothing.
\<close>
theorem xfrm_no_leak:
  assumes ip: "ip_ok objects run" and fresh: "objectsOf (buildXFRMCleanupPlan ipText c) \<inter> objects k = {}"
  shows "case linuxInstall lo ipText found run c k of
      (Inl e, k') \<Rightarrow> objects k' = objects k
    | (Inr h, k') \<Rightarrow> objects k' = objects k \<union> objectsOf (buildXFRMCleanupPlan ipText c) \<and>
        set (cf_EncryptionKey (hd_config h)) \<union> set (cf_IntegrityKey (hd_config h)) \<subseteq> {0} \<and>
        (\<forall>ok h' k''. linuxClose run ipText (h, k') = (ok, h', k'') \<longrightarrow>
           objects k'' = objects k \<and> linuxClose run ipText (h', k'') = (True, h', k''))"
proof (cases "found \<and> (\<exists>plan. buildXFRMInstallPlan lo ipText c = Inr plan)")
  case False
  then show ?thesis by (cases "buildXFRMInstallPlan lo ipText c") (auto simp: linuxInstall_def)
next
  case True
  then obtain plan where found: found and plan: "buildXFRMInstallPlan lo ipText c = Inr plan" by blast
  note pc = plan_commands[OF plan]
  obtain ok k1 where r: "runPlan run plan k = (ok, k1)" by (cases "runPlan run plan k")
  have adds: "objects k \<subseteq> objects k1" "objects k1 \<subseteq> objects k \<union> objectsOf plan" "ok \<Longrightarrow> objects k1 = objects k \<union> objectsOf plan"
    using runPlan_adds[OF ip pc(1), of k] r by simp_all
  have clean: "objects (snd (xfrmCleanup run ipText c' k1)) = objects k" if "buildXFRMCleanupPlan ipText c' = buildXFRMCleanupPlan ipText c" for c'
  proof -
    have "objects (snd (xfrmCleanup run ipText c' k1)) = objects k1 - objectsOf plan"
      using runAll_deletes[OF ip pc(2), of k1] pc(3) by (simp add: xfrmCleanup_def that)
    then show ?thesis using adds(1,2) fresh pc(3) by auto
  qed
  show ?thesis
  proof (cases ok)
    case False
    then show ?thesis using found plan r clean[of c] by (simp add: linuxInstall_def)
  next
    case True
    have close: "objects k'' = objects k \<and> linuxClose run ipText (h', k'') = (True, h', k'')"
      if "linuxClose run ipText (\<lparr>hd_config = zeroKeys c, hd_closed = False\<rparr>, k1) = (ok', h', k'')" for ok' h' k''
      using that clean[of "zeroKeys c"] by (auto simp: linuxClose_def split: prod.splits)
    show ?thesis using True found plan r adds(3) close pc(3)
      by (auto simp: linuxInstall_def zeroKeys_def zeroBytes_def)
  qed
qed

definition ip_demo :: "nat \<Rightarrow> (gostring list set \<times> nat) ip_command" where
  "ip_demo stop = (\<lambda>args (objs, n). let (add, obj) = commandOf args in
     if add then (if n = stop then (False, objs, n) else (True, insert obj objs, n + 1))
     else (obj \<in> objs, objs - {obj}, n))"

definition config_demo :: ipsecConfig where
  "config_demo = \<lparr>cf_LocalIP = [10, 0, 0, 1], cf_RemoteIP = [10, 0, 0, 2], cf_IntegrityAlgorithm = hmacSHA1,
     cf_EncryptionAlgorithm = encAES, cf_UEClientSPI = 1001, cf_UEServerSPI = 1002, cf_PCSCFClientSPI = 1003,
     cf_PCSCFServerSPI = 1004, cf_UEClientPort = 6100, cf_UEServerPort = 6101, cf_PCSCFClientPort = 6200,
     cf_PCSCFServerPort = 6201, cf_EncryptionKey = replicate 16 7, cf_IntegrityKey = replicate 20 9\<rparr>"

lemma ip_demo_ok: "ip_ok fst (ip_demo stop)"
  by (auto simp: ip_ok_def ip_demo_def Let_def split: prod.splits)

text \<open>The third command fails.\<close>

lemma xfrm_no_leak_witness:
  "case linuxInstall id (\<lambda>_. []) True (ip_demo 2) config_demo ({}, 0) of
     (Inl e, k') \<Rightarrow> fst k' = {} | (Inr h, k') \<Rightarrow> fst k' = objectsOf (buildXFRMCleanupPlan (\<lambda>_. []) config_demo)"
  using xfrm_no_leak[OF ip_demo_ok[of 2], of "\<lambda>_. []" config_demo "({}, 0)" id True]
  by (auto split: prod.splits sum.splits)

definition proposal_demo :: securityProposal where
  "proposal_demo = \<lparr>pr_spiClient = 1025, pr_spiServer = 1026, pr_portClient = 6100, pr_portServer = 6000, pr_encryption = encAES,
      pr_fallbackEncryption = [], pr_integrityAlgorithms = [hmacSHA1], pr_encryptionAlgorithmsList = [encAES]\<rparr>"

definition agreement_demo :: securityAgreement where
  "agreement_demo = \<lparr>selected = \<lparr>sm_raw = runes ''ipsec-3gpp;q=0.5;alg=hmac-sha-1-96;ealg=aes-cbc;spi-c=2001;spi-s=2002;port-c=6200;port-s=6201'',
       sm_name = mechanismName, sm_algorithm = hmacSHA1, sm_protocol = runes ''esp'', sm_mode = runes ''trans'', sm_encryption = encAES,
       sm_spiClient = 2001, sm_spiServer = 2002, sm_portClient = 6200, sm_portServer = 6201, sm_preference = 500\<rparr>,
     verifyValue = runes ''ipsec-3gpp;q=0.5;alg=hmac-sha-1-96;ealg=aes-cbc;spi-c=2001;spi-s=2002;port-c=6200;port-s=6201, tls''\<rparr>"

lemma demo_offer: "sessionProposal (\<lambda>_ _. True) True encAES 6100 0 [0, 0, 4, 1, 0, 0, 4, 2] = Inr proposal_demo"
  by code_simp

lemmas parse_eval = splitHeaderValues_def keepItem_def TrimSpace_def isSpace_def parseSecurityMechanism_def Cut_def ToLower_def
  lowerRune_def trimQuotes_def param_def orDefault_def decimalUint32_def decimalPort_def preferenceValue_def Atoi_def ParseUint_def
  decimal_def decimalValue_def runeBytes_ascii Let_def

definition demo_mechanism :: gostring where
  "demo_mechanism = runes ''ipsec-3gpp;q=0.5;alg=hmac-sha-1-96;ealg=aes-cbc;spi-c=2001;spi-s=2002;port-c=6200;port-s=6201''"

definition demo_other :: gostring where
  "demo_other = runes ''tls''"

lemma demo_items: "splitHeaderValues [demo_mechanism @ runes '', tls''] = [demo_mechanism, demo_other]"
  by (simp add: parse_eval demo_mechanism_def demo_other_def)

lemma demo_parsed:
  "parseSecurityMechanism id demo_mechanism = Inr (selected agreement_demo)"
  "parseSecurityMechanism id demo_other = err IncompleteOffer"
proof -
  have two: "replicate 2 x = [x, x]" for x :: rune by (simp add: numeral_2_eq_2)
  show "parseSecurityMechanism id demo_mechanism = Inr (selected agreement_demo)"
    by (simp add: parse_eval two demo_mechanism_def agreement_demo_def mechanismName_def hmacSHA1_def encAES_def)
  show "parseSecurityMechanism id demo_other = err IncompleteOffer" by (simp add: parse_eval demo_other_def)
qed

lemma demo_usable: "offered id proposal_demo (selected agreement_demo) \<and> usable proposal_demo (selected agreement_demo)"
  by (simp add: offered_def usable_def supportsIntegrity_def supportsEncryption_def integrities_def encryptionAlgorithms_def
      proposal_demo_def agreement_demo_def validProtectedPort_def)

lemma demo_agreement: "parseSecurityAgreement id [demo_mechanism @ runes '', tls''] proposal_demo = Inr agreement_demo"
proof -
  have "candidateLoop id proposal_demo [demo_mechanism, demo_other] = Inr [selected agreement_demo]"
    using demo_usable by (simp add: demo_parsed)
  then show ?thesis unfolding parseSecurityAgreement_def demo_items 
    by (simp add: Let_def) (simp add: agreement_demo_def demo_mechanism_def demo_other_def)
qed

lemma agreed_config_installs_witness:
  "\<exists>e i. expandIPSecKeys id (replicate 16 1) (replicate 16 2) encAES hmacSHA1 = Inr (e, i) \<and>
    validateIPSecSAConfig id (agreedConfig [10, 0, 0, 1] [10, 0, 0, 2] proposal_demo (selected agreement_demo) (e, i)) = Inr ()"
proof -
  have ends: "endpoints_ok [10, 0, 0, 1] [10, 0, 0, 2]" by (simp add: endpoints_ok_def IsUnspecified_def To4_def numeral_eq_Suc)
  have sel: "sm_encryption (selected agreement_demo) = encAES" "sm_algorithm (selected agreement_demo) = hmacSHA1"
    by (simp_all add: agreement_demo_def)
  have long: "0x17F \<notin> set (sm_algorithm (selected agreement_demo))" "0x17F \<notin> set (sm_encryption (selected agreement_demo))"
    unfolding sel by (simp_all add: encAES_def hmacSHA1_def)
  have keys: "length (replicate 16 (1 :: byte)) = 16" "length (replicate 16 (2 :: byte)) = 16" by simp_all
  show ?thesis
    using agreed_config_installs[OF demo_offer demo_agreement long keys ends, of "\<lambda>_. []"] unfolding sel Let_def by blast
qed

text \<open>
  Two oddities. A preference may carry a sign after the point, because the fraction is read with \<open>Atoi\<close>; and
  a mechanism whose algorithm is spelt with the long s is selected although its keys cannot be expanded.
\<close>

lemma preference_sign: "preferenceValue (runes ''0.-5'') = Inr (-50)"
proof -
  have "replicate (Suc 0) x = [x]" for x :: rune by simp
  then show ?thesis by (simp add: preferenceValue_def Cut_def Atoi_def decimal_def decimalValue_def runeBytes_ascii)
qed

lemma long_s_selected:
  "supportsIntegrity proposal_demo (map (\<lambda>r. if r = 115 then 0x17F else r) hmacSHA1)"
  "expandIPSecKeys id ck ik encAES (map (\<lambda>r. if r = 115 then 0x17F else r) hmacSHA1) \<noteq> Inr k"
  by (simp_all add: supportsIntegrity_def integrities_def proposal_demo_def hmacSHA1_def hmacMD5_def encAES_def encNull_def EqualFold_def
      foldRune_def expandIPSecKeys_def ToLower_def lowerRune_def TrimSpace_def isSpace_def Let_def)

end
