(* ===== verification/Journal.thy ===== *)
theory Journal
  imports GoStrings "HOL-Library.List_Lexorder" "HOL-Library.AList"
begin

text \<open>
  The journal of completed work (\<open>durable/journal.go\<close>): an outcome that the database does not take is
  kept in memory and in a file, and handed to the database again until it takes it. A directory is two
  lists of named entries, what a reader sees and what is known to survive a crash; \<open>Sync\<close> of a
  directory makes them equal, \<open>Sync\<close> of a file makes its content durable. Every call of the operating
  system may fail: \<open>fails\<close> says which does. Errors are the list of causes joined, so that \<open>errors.Is\<close> is
  membership and \<open>nil\<close> the empty list. JSON and SHA-256 are parameters. A temporary file is not an entry of
  the model: nothing reads one. Each method holds the lock of its key, so it is one step for that key.
\<close>

type_synonym name = "byte list"
type_synonym key = "byte list"

datatype direntry = Directory | File (content: "byte list") (synced: bool)

record journal_record =
  Key :: key
  Data :: "byte list"

record journal_env =
  Windows :: bool
  sha256 :: "byte list \<Rightarrow> byte list"
  jsonValid :: "byte list \<Rightarrow> bool"
  jsonEncode :: "journal_record \<Rightarrow> byte list"
  jsonDecode :: "byte list \<Rightarrow> journal_record option"

datatype fsop = MkdirAll | SyncParent | CreateTemp | WriteFile | SyncFile | CloseFile | RenameFile | RemoveFile
  | SyncDir | OpenFile | ReadFile | ReadDir | Stat | LockKey

datatype 'e cause = InvalidOutcome | ErrCorrupt | ErrPending | NotExist | System fsop | Cancelled | Applied 'e

type_synonym 'e error = "'e cause list"

record disk =
  live :: "(name \<times> direntry) list"
  stable :: "(name \<times> direntry) list"

record journal =
  HasDir :: bool
  disk :: disk
  pending :: "(key \<times> journal_record) list"
  replayAfter :: name
  damaged :: "name list"

definition maxRecord :: nat where
  "maxRecord = 2 * 1024 * 1024"

definition filename :: "journal_env \<Rightarrow> key \<Rightarrow> name" where
  "filename env k = bytesOf (hexEncode (sha256 env k)) @ bytesOf (runes ''.json'')"

text \<open>A call of the operating system that may fail.\<close>

definition attempt :: "(fsop \<Rightarrow> bool) \<Rightarrow> fsop \<Rightarrow> 'e error" where
  "attempt fails op = (if fails op then [System op] else [])"

definition syncDir :: "journal_env \<Rightarrow> (fsop \<Rightarrow> bool) \<Rightarrow> disk \<Rightarrow> 'e error \<times> disk" where
  "syncDir env fails d =
    (if Windows env then ([], d)
     else if fails SyncDir then ([System SyncDir], d)
     else ([], d\<lparr>stable := live d\<rparr>))"

definition Prepare :: "journal_env \<Rightarrow> (fsop \<Rightarrow> bool) \<Rightarrow> journal \<Rightarrow> 'e error \<times> journal" where
  "Prepare env fails j =
    (if \<not> HasDir j then ([], j)
     else if fails MkdirAll then ([System MkdirAll], j)
     else if \<not> Windows env \<and> fails SyncParent then ([System SyncParent], j)
     else if fails CreateTemp then ([System CreateTemp], j)
     else let (e, d) = syncDir env fails (disk j) in
       (attempt fails SyncFile @ attempt fails CloseFile @ attempt fails RemoveFile @ e, j\<lparr>disk := d\<rparr>))"

text \<open>
  \<open>save\<close> writes a temporary file, syncs it, gives it the name of the key and syncs the directory. The
  content is durable when the file was synced.
\<close>

definition tempFile :: "(fsop \<Rightarrow> bool) \<Rightarrow> byte list \<Rightarrow> 'e error \<times> direntry" where
  "tempFile fails b =
    (let e = (if fails WriteFile then [System WriteFile] else attempt fails SyncFile);
         e' = (if e = [] then attempt fails CloseFile else e) in
     (e', File b (e = [])))"

definition rename :: "(fsop \<Rightarrow> bool) \<Rightarrow> direntry \<Rightarrow> name \<Rightarrow> disk \<Rightarrow> 'e error \<times> disk" where
  "rename fails f n d =
    (if fails RenameFile \<or> map_of (live d) n = Some Directory then ([System RenameFile], d)
     else ([], d\<lparr>live := AList.update n f (live d)\<rparr>))"

definition save :: "journal_env \<Rightarrow> (fsop \<Rightarrow> bool) \<Rightarrow> journal_record \<Rightarrow> journal \<Rightarrow> 'e error \<times> journal" where
  "save env fails r j =
    (if \<not> HasDir j then ([], j)
     else if fails CreateTemp then ([System CreateTemp], j)
     else let (e, f) = tempFile fails (jsonEncode env r) in
       if e \<noteq> [] then (e, j)
       else let (e, d) = rename fails f (filename env (Key r)) (disk j) in
         if e \<noteq> [] then (e, j\<lparr>disk := d\<rparr>)
         else let (e, d) = syncDir env fails d in (e, j\<lparr>disk := d\<rparr>))"

text \<open>\<open>os.Remove\<close>; a name that is not there is \<open>ErrNotExist\<close>.\<close>

definition osRemove :: "(fsop \<Rightarrow> bool) \<Rightarrow> name \<Rightarrow> disk \<Rightarrow> 'e error \<times> disk" where
  "osRemove fails n d =
    (if fails RemoveFile then ([System RemoveFile], d)
     else if map_of (live d) n = None then ([NotExist], d)
     else ([], d\<lparr>live := AList.delete n (live d)\<rparr>))"

definition forget :: "key \<Rightarrow> journal \<Rightarrow> journal" where
  "forget k j = j\<lparr>pending := AList.delete k (pending j)\<rparr>"

definition remove :: "journal_env \<Rightarrow> (fsop \<Rightarrow> bool) \<Rightarrow> key \<Rightarrow> journal \<Rightarrow> 'e error \<times> journal" where
  "remove env fails k j =
    (if \<not> HasDir j then ([], forget k j)
     else let (e, d) = osRemove fails (filename env k) (disk j) in
       if e \<noteq> [] \<and> NotExist \<notin> set e then (e, j\<lparr>disk := d\<rparr>)
       else let (e, d) = syncDir env fails d in
         if e \<noteq> [] then (e, j\<lparr>disk := d\<rparr>) else ([], forget k (j\<lparr>disk := d\<rparr>)))"

text \<open>
  \<open>apply\<close> is the callback that writes an outcome to the database, here a state of type \<open>'w\<close>. The lock of
  the key is taken with a context of its own, so cancelling the request does not lose the outcome.
\<close>

type_synonym ('e, 'w) callback = "'w \<Rightarrow> byte list \<Rightarrow> 'e error \<times> 'w"

definition Apply :: "journal_env \<Rightarrow> (fsop \<Rightarrow> bool) \<Rightarrow> ('e, 'w) callback \<Rightarrow> key \<Rightarrow> byte list \<Rightarrow>
    journal \<times> 'w \<Rightarrow> 'e error \<times> journal \<times> 'w" where
  "Apply env fails apply k b = (\<lambda>(j, w).
    if k = [] \<or> length k > 128 \<or> length b > maxRecord \<or> \<not> jsonValid env b then ([InvalidOutcome], j, w)
    else if fails LockKey then ([System LockKey], j, w)
    else let r = \<lparr>Key = k, Data = b\<rparr>;
             (saveErr, j) = save env fails r (j\<lparr>pending := AList.update k r (pending j)\<rparr>);
             (e, w) = apply w b in
      if e \<noteq> [] then (e @ saveErr, j, w)
      else let (e, j) = remove env fails k j in (e, j, w))"

text \<open>\<open>io.ReadAll\<close> of a reader limited to one byte more than the largest record.\<close>

definition readRecord :: "journal_env \<Rightarrow> (fsop \<Rightarrow> bool) \<Rightarrow> name \<Rightarrow> disk \<Rightarrow> 'e error + journal_record" where
  "readRecord env fails n d =
    (if fails OpenFile then Inl [System OpenFile]
     else case map_of (live d) n of
       None \<Rightarrow> Inl [NotExist]
     | Some Directory \<Rightarrow> Inl [System ReadFile]
     | Some (File c _) \<Rightarrow>
         if fails ReadFile then Inl [System ReadFile]
         else let b = take (maxRecord + 1025) c in
           if length b > maxRecord + 1024 then Inl [ErrCorrupt]
           else case jsonDecode env b of
             None \<Rightarrow> Inl [ErrCorrupt]
           | Some r \<Rightarrow>
               if Key r = [] \<or> length (Key r) > 128 \<or> \<not> jsonValid env (Data r) \<or> filename env (Key r) \<noteq> n
               then Inl [ErrCorrupt] else Inr r)"

definition replayOne :: "journal_env \<Rightarrow> (fsop \<Rightarrow> bool) \<Rightarrow> ('e, 'w) callback \<Rightarrow> key \<Rightarrow>
    journal \<times> 'w \<Rightarrow> 'e error \<times> journal \<times> 'w" where
  "replayOne env fails apply k = (\<lambda>(j, w).
    let finish = (\<lambda>r. let (e, w) = apply w (Data r) in
          if e \<noteq> [] then (e, j, w) else let (e, j) = remove env fails k j in (e, j, w)) in
    if fails LockKey then ([System LockKey], j, w)
    else case map_of (pending j) k of
      Some r \<Rightarrow> finish r
    | None \<Rightarrow>
        if \<not> HasDir j then ([], j, w)
        else case readRecord env fails (filename env k) (disk j) of
          Inr r \<Rightarrow> finish r
        | Inl e \<Rightarrow> if NotExist \<in> set e then ([], j, w) else (e, j, w))"

text \<open>Whether an outcome of the key is still to be written, so that its work must not be repeated.\<close>

definition Pending :: "journal_env \<Rightarrow> (fsop \<Rightarrow> bool) \<Rightarrow> key \<Rightarrow> journal \<Rightarrow> bool" where
  "Pending env fails k j \<longleftrightarrow>
    (if map_of (pending j) k \<noteq> None \<or> \<not> HasDir j then map_of (pending j) k \<noteq> None
     else fails Stat \<or> map_of (live (disk j)) (filename env k) \<noteq> None)"

subsection \<open>Replay\<close>

text \<open>
  The names of a pass: those of the keys in memory, and the files of the directory, whose key is
  known only from their content.
\<close>

definition suffixJSON :: "name \<Rightarrow> bool" where
  "suffixJSON n \<longleftrightarrow> drop (length n - 5) n = bytesOf (runes ''.json'')"

definition replayNames :: "journal_env \<Rightarrow> journal \<Rightarrow> (name \<times> key option) list" where
  "replayNames env j =
    (let known = map (\<lambda>(k, _). (filename env k, Some k)) (pending j);
         files = (if HasDir j then map fst (filter (\<lambda>(n, f). f \<noteq> Directory \<and> suffixJSON n) (live (disk j))) else []) in
     known @ map (\<lambda>n. (n, None)) (filter (\<lambda>n. n \<notin> fst ` set known) files))"

text \<open>\<open>sort.Strings\<close> of the keys of the map, and the index \<open>sort.Search\<close> finds.\<close>

definition orderedNames :: "(name \<times> key option) list \<Rightarrow> name list" where
  "orderedNames names = sort (remdups (map fst names))"

definition searchStart :: "name list \<Rightarrow> name \<Rightarrow> nat" where
  "searchStart ordered after = length (takeWhile (\<lambda>n. \<not> n > after) ordered)"

definition mark :: "name \<Rightarrow> journal \<Rightarrow> journal" where
  "mark n j = (if n \<in> set (damaged j) then j else j\<lparr>damaged := n # damaged j\<rparr>)"

definition unmark :: "name \<Rightarrow> journal \<Rightarrow> journal" where
  "unmark n j = j\<lparr>damaged := removeAll n (damaged j)\<rparr>"

text \<open>
  One iteration of the loop: a result says whether the loop goes on (None) or the method returns an error.
  The context, the faults of the system and the callback are those of the iteration.
\<close>

definition replayKey :: "journal_env \<Rightarrow> (fsop \<Rightarrow> bool) \<Rightarrow> ('e, 'w) callback \<Rightarrow> name \<Rightarrow> key \<Rightarrow>
    journal \<times> 'w \<Rightarrow> 'e error option \<times> journal \<times> 'w" where
  "replayKey env fails apply n k s =
    (let (e, j, w) = replayOne env fails apply k s in
     if ErrCorrupt \<in> set e then (None, mark n j, w)
     else if e \<noteq> [] then (Some e, j, w)
     else (None, unmark n j, w))"

definition replayIteration :: "journal_env \<Rightarrow> (fsop \<Rightarrow> bool) \<Rightarrow> (fsop \<Rightarrow> bool) \<Rightarrow> ('e, 'w) callback \<Rightarrow>
    name \<times> key option \<Rightarrow> journal \<times> 'w \<Rightarrow> 'e error option \<times> journal \<times> 'w" where
  "replayIteration env probe fails apply = (\<lambda>(n, known) (j, w).
    let j = j\<lparr>replayAfter := n\<rparr> in
    case known of
      Some k \<Rightarrow> replayKey env fails apply n k (j, w)
    | None \<Rightarrow>
        (case readRecord env probe n (disk j) of
           Inr r \<Rightarrow> replayKey env fails apply n (Key r) (j, w)
         | Inl e \<Rightarrow>
             if NotExist \<in> set e then (None, unmark n j, w)
             else if ErrCorrupt \<in> set e then (None, mark n j, w)
             else (Some e, j, w)))"

text \<open>
  What the environment does in the \<open>i\<close>-th iteration: the context is done, the faults of the first read, the
  faults of the replay.
\<close>

record weather =
  ctxDone :: "nat \<Rightarrow> bool"
  probing :: "nat \<Rightarrow> fsop \<Rightarrow> bool"
  replaying :: "nat \<Rightarrow> fsop \<Rightarrow> bool"

fun replayLoop :: "journal_env \<Rightarrow> weather \<Rightarrow> ('e, 'w) callback \<Rightarrow> nat \<Rightarrow> (name \<times> key option) list \<Rightarrow>
    name list \<times> journal \<times> 'w \<Rightarrow> 'e error option \<times> name list \<times> journal \<times> 'w" where
  "replayLoop env wx apply i [] s = (None, s)"
| "replayLoop env wx apply i (nk # todo) (seen, s) =
    (if ctxDone wx i then (Some [Cancelled], seen, s)
     else case replayIteration env (probing wx i) (replaying wx i) apply nk s of
       (Some e, s) \<Rightarrow> (Some e, fst nk # seen, s)
     | (None, s) \<Rightarrow> replayLoop env wx apply (i + 1) todo (fst nk # seen, s))"

text \<open>\<open>ordered[(start+i) % len(ordered)]\<close> for the iterations of a pass, with the key of each name.\<close>

definition passNames :: "(name \<times> key option) list \<Rightarrow> name \<Rightarrow> (name \<times> key option) list" where
  "passNames names after =
    (let ordered = orderedNames names; start = searchStart ordered after in
     map (\<lambda>i. let n = ordered ! ((start + i) mod length ordered) in (n, Option.bind (map_of names n) id))
       [0..<min 128 (length ordered)])"

definition Replay :: "journal_env \<Rightarrow> (fsop \<Rightarrow> bool) \<Rightarrow> weather \<Rightarrow> ('e, 'w) callback \<Rightarrow>
    journal \<times> 'w \<Rightarrow> 'e error \<times> journal \<times> 'w" where
  "Replay env fails wx apply = (\<lambda>(j, w).
    if HasDir j \<and> fails ReadDir then ([System ReadDir], j, w)
    else let names = replayNames env j;
             j = j\<lparr>damaged := filter (\<lambda>n. n \<in> fst ` set names) (damaged j)\<rparr> in
      if names = [] then ([], j\<lparr>replayAfter := []\<rparr>, w)
      else case replayLoop env wx apply 0 (passNames names (replayAfter j)) ([], j, w) of
        (Some e, _, s) \<Rightarrow> (e, s)
      | (None, seen, j, w) \<Rightarrow>
          let waiting = (\<exists>n \<in> fst ` set names. n \<notin> set seen \<and> n \<notin> set (damaged j)) in
          ((if waiting then [ErrPending] else []) @ (if damaged j \<noteq> [] then [ErrCorrupt] else []), j, w))"

end
