(* ===== verification/Journal_Props.thy ===== *)
theory Journal_Props
  imports Journal
begin

text \<open>
  The journal keeps what it was given: an outcome the database did not take is handed to it again, after
  a crash as well when it could be saved; and a pass of the replay goes on where the last one ended, so no
  record can keep another from being tried.
\<close>

subsection \<open>Crashes\<close>

fun survives :: "direntry option \<Rightarrow> direntry option \<Rightarrow> bool" where
  "survives None e = (e = None)"
| "survives (Some Directory) e = (e = Some Directory)"
| "survives (Some (File c True)) e = (e = Some (File c True))"
| "survives (Some (File c False)) e = (\<exists>c'. e = Some (File c' True))"

text \<open>
  After a crash an entry is the one last seen or the one last synced, and a file that was not synced can
  hold anything. The memory of the process is gone.
\<close>

definition crashed :: "disk \<Rightarrow> (name \<times> direntry) list \<Rightarrow> bool" where
  "crashed d l \<longleftrightarrow> (\<forall>n. survives (map_of (live d) n) (map_of l n) \<or> survives (map_of (stable d) n) (map_of l n))"

definition restarted :: "(name \<times> direntry) list \<Rightarrow> journal" where
  "restarted l = \<lparr>HasDir = True, disk = \<lparr>live = l, stable = l\<rparr>, pending = [], replayAfter = [], damaged = []\<rparr>"

text \<open>
  What the run owes to the database, kept beside it: for every key the outcomes given since the last one
  that the database took, whether one of them was saved, and whether the process is still the one that
  was given the last.
\<close>

record ledger =
  given :: "key \<Rightarrow> byte list set"
  saved :: "key \<Rightarrow> bool"
  remembered :: "key \<Rightarrow> bool"

definition settle :: "key \<Rightarrow> ledger \<Rightarrow> ledger" where
  "settle k g = \<lparr>given = (given g)(k := {}), saved = (saved g)(k := False), remembered = (remembered g)(k := False)\<rparr>"

definition accepted :: "journal_env \<Rightarrow> (fsop \<Rightarrow> bool) \<Rightarrow> key \<Rightarrow> byte list \<Rightarrow> bool" where
  "accepted env fails k b \<longleftrightarrow> k \<noteq> [] \<and> length k \<le> 128 \<and> length b \<le> maxRecord \<and> jsonValid env b \<and> \<not> fails LockKey"

definition afterApply :: "journal_env \<Rightarrow> (fsop \<Rightarrow> bool) \<Rightarrow> ('e, 'w) callback \<Rightarrow> key \<Rightarrow> byte list \<Rightarrow>
    journal \<times> 'w \<Rightarrow> ledger \<Rightarrow> ledger" where
  "afterApply env fails apply k b = (\<lambda>(j, w) g.
    if \<not> accepted env fails k b then g
    else if fst (apply w b) = [] then settle k g
    else \<lparr>given = (given g)(k := insert b (given g k)),
          saved = (saved g)(k := saved g k \<or> HasDir j \<and> fst (save env fails \<lparr>Key = k, Data = b\<rparr> j :: 'e error \<times> journal) = []),
          remembered = (remembered g)(k := True)\<rparr>)"

text \<open>The outcome a replay of the key hands to the database, if any.\<close>

definition replayed :: "journal_env \<Rightarrow> (fsop \<Rightarrow> bool) \<Rightarrow> key \<Rightarrow> journal \<Rightarrow> journal_record option" where
  "replayed env fails k j =
    (if fails LockKey then None
     else case map_of (pending j) k of
       Some r \<Rightarrow> Some r
     | None \<Rightarrow> if HasDir j then
           (case readRecord env fails (filename env k) (disk j) :: unit error + journal_record of Inr r \<Rightarrow> Some r | Inl _ \<Rightarrow> None)
         else None)"

definition afterReplay :: "journal_env \<Rightarrow> (fsop \<Rightarrow> bool) \<Rightarrow> ('e, 'w) callback \<Rightarrow> key \<Rightarrow> journal \<times> 'w \<Rightarrow> ledger \<Rightarrow> ledger" where
  "afterReplay env fails apply k = (\<lambda>(j, w) g.
    case replayed env fails k j of
      Some r \<Rightarrow> if fst (apply w (Data r)) = [] then settle k g else g
    | None \<Rightarrow> g)"

text \<open>
  A step of the journal: an outcome of \<open>outs\<close> is applied, a key is replayed, or the process is restarted
  after a crash. The faults and the callback are those of the step, so the database may come and go;
  its errors are texts.
\<close>

inductive journal_step :: "journal_env \<Rightarrow> (key \<times> byte list) set \<Rightarrow> (journal \<times> 'w) \<times> ledger \<Rightarrow> (journal \<times> 'w) \<times> ledger \<Rightarrow> bool"
  for env outs where
  apply_step: "(k, b) \<in> outs \<Longrightarrow> Apply env fails (cb :: (gostring, 'w) callback) k b s = (e, s') \<Longrightarrow>
     journal_step env outs (s, g) (s', afterApply env fails cb k b s g)"
| replay_step: "k \<in> fst ` outs \<Longrightarrow> replayOne env fails (cb :: (gostring, 'w) callback) k s = (e, s') \<Longrightarrow>
     journal_step env outs (s, g) (s', afterReplay env fails cb k s g)"
| crash_step: "crashed (disk j) l \<Longrightarrow>
     journal_step env outs ((j, w), g) ((restarted l, w), g\<lparr>remembered := \<lambda>_. False\<rparr>)"

definition journal_start :: "(journal \<times> 'w) \<times> ledger \<Rightarrow> bool" where
  "journal_start = (\<lambda>((j, w), g). HasDir j \<and> pending j = [] \<and> g = \<lparr>given = \<lambda>_. {}, saved = \<lambda>_. False, remembered = \<lambda>_. False\<rparr>)"

text \<open>
  What is assumed of the outcomes: different keys have different file names, and a record that is written
  reads back as it was, as JSON that \<open>json.Marshal\<close> has already escaped does.
\<close>

definition outcomes_ok :: "journal_env \<Rightarrow> (key \<times> byte list) set \<Rightarrow> bool" where
  "outcomes_ok env outs \<longleftrightarrow> \<not> Windows env \<and> inj_on (filename env) (fst ` outs) \<and>
    (\<forall>(k, b) \<in> outs. length (jsonEncode env \<lparr>Key = k, Data = b\<rparr>) \<le> maxRecord + 1024 \<and>
       jsonDecode env (jsonEncode env \<lparr>Key = k, Data = b\<rparr>) = Some \<lparr>Key = k, Data = b\<rparr>)"

subsection \<open>Files and names\<close>

definition recorded :: "journal_env \<Rightarrow> byte list set \<Rightarrow> key \<Rightarrow> (name \<times> direntry) list \<Rightarrow> bool" where
  "recorded env bs k l \<longleftrightarrow> (\<exists>b \<in> bs. map_of l (filename env k) = Some (File (jsonEncode env \<lparr>Key = k, Data = b\<rparr>) True))"

lemma recorded_mono: "recorded env bs k l \<Longrightarrow> bs \<subseteq> bs' \<Longrightarrow> recorded env bs' k l"
  by (auto simp: recorded_def)

lemma recorded_same: "map_of l (filename env k) = map_of l' (filename env k) \<Longrightarrow> recorded env bs k l = recorded env bs k l'"
  by (simp add: recorded_def)

text \<open>How a method that touches the file of \<open>k\<close> may change the directory.\<close>

definition touched :: "journal_env \<Rightarrow> key \<Rightarrow> direntry option set \<Rightarrow> disk \<Rightarrow> disk \<Rightarrow> bool" where
  "touched env k es d d' \<longleftrightarrow>
    (\<forall>n. n \<noteq> filename env k \<longrightarrow> map_of (live d') n = map_of (live d) n) \<and>
    (\<forall>n. n \<noteq> filename env k \<longrightarrow> map_of (stable d') n \<in> {map_of (live d) n, map_of (stable d) n}) \<and>
    map_of (live d') (filename env k) \<in> insert (map_of (live d) (filename env k)) es \<and>
    map_of (stable d') (filename env k) \<in> {map_of (live d) (filename env k), map_of (stable d) (filename env k)} \<union> es"

lemma touched_refl [simp]: "touched env k es d d"
  by (simp add: touched_def Let_def)

lemma save_touched:
  assumes "save env fails r j = (e, j')"
  shows "j' = j\<lparr>disk := disk j'\<rparr> \<and> touched env (Key r) {Some (File (jsonEncode env r) True)} (disk j) (disk j') \<and>
    (e = [] \<and> HasDir j \<and> \<not> Windows env \<longrightarrow> map_of (live (disk j')) (filename env (Key r)) = Some (File (jsonEncode env r) True) \<and> stable (disk j') = live (disk j'))"
  using assms
  by (auto simp: save_def tempFile_def rename_def syncDir_def attempt_def touched_def Let_def split: if_splits prod.splits)

lemma remove_touched:
  assumes "remove env fails k j = (e, j')"
  shows "HasDir j' = HasDir j \<and> touched env k {None} (disk j) (disk j') \<and>
    (pending j' = pending j \<or> pending j' = AList.delete k (pending j))"
  using assms
  by (auto simp: remove_def osRemove_def syncDir_def forget_def touched_def Let_def split: if_splits prod.splits)

lemma touched_other:
  assumes "touched env k es d d'" "filename env k' \<noteq> filename env k"
    "recorded env bs k' (live d)" "recorded env bs k' (stable d)"
  shows "recorded env bs k' (live d') \<and> recorded env bs k' (stable d')"
proof -
  have "map_of (live d') (filename env k') = map_of (live d) (filename env k')"
    "map_of (stable d') (filename env k') \<in> {map_of (live d) (filename env k'), map_of (stable d) (filename env k')}"
    using assms(1,2) by (auto simp: touched_def)
  then show ?thesis using assms(3,4) by (auto simp: recorded_def)
qed

lemma touched_same:
  assumes "touched env k {Some (File (jsonEncode env \<lparr>Key = k, Data = b\<rparr>) True)} d d'"
    "recorded env bs k (live d)" "recorded env bs k (stable d)"
  shows "recorded env (insert b bs) k (live d') \<and> recorded env (insert b bs) k (stable d')"
  using assms by (auto simp: touched_def recorded_def Let_def)

definition acceptable :: "journal_env \<Rightarrow> (key \<times> byte list) set \<Rightarrow> key \<Rightarrow> byte list \<Rightarrow> bool" where
  "acceptable env outs k b \<longleftrightarrow> (k, b) \<in> outs \<and> k \<noteq> [] \<and> length k \<le> 128 \<and> jsonValid env b"

lemma readRecord_recorded:
  assumes "recorded env bs k l" "outcomes_ok env outs" "\<forall>b \<in> bs. acceptable env outs k b"
    "\<not> fails OpenFile" "\<not> fails ReadFile"
  shows "\<exists>b \<in> bs. readRecord env fails (filename env k) \<lparr>live = l, stable = l'\<rparr> = Inr \<lparr>Key = k, Data = b\<rparr>"
proof -
  obtain b where b: "b \<in> bs" "map_of l (filename env k) = Some (File (jsonEncode env \<lparr>Key = k, Data = b\<rparr>) True)"
    using assms(1) by (auto simp: recorded_def)
  let ?r = "jsonEncode env \<lparr>Key = k, Data = b\<rparr>"
  have r: "length ?r \<le> maxRecord + 1024" "jsonDecode env ?r = Some \<lparr>Key = k, Data = b\<rparr>"
    using assms(2,3) b(1) by (auto simp: outcomes_ok_def acceptable_def)
  then have "take (maxRecord + 1025) ?r = ?r" by simp
  then show ?thesis using assms(3-5) b r by (auto simp: readRecord_def Let_def acceptable_def intro!: bexI[of _ b])
qed

subsection \<open>The ledger\<close>

definition key_ok :: "journal_env \<Rightarrow> (key \<times> byte list) set \<Rightarrow> journal \<Rightarrow> ledger \<Rightarrow> key \<Rightarrow> bool" where
  "key_ok env outs j g k \<longleftrightarrow>
    (\<forall>b \<in> given g k. acceptable env outs k b) \<and>
    (\<forall>r. map_of (pending j) k = Some r \<longrightarrow> Key r = k \<and> (given g k \<noteq> {} \<longrightarrow> Data r \<in> given g k)) \<and>
    (remembered g k \<longrightarrow> given g k \<noteq> {} \<and> map_of (pending j) k \<noteq> None) \<and>
    (saved g k \<longrightarrow> recorded env (given g k) k (live (disk j)) \<and> recorded env (given g k) k (stable (disk j)))"

definition journal_inv :: "journal_env \<Rightarrow> (key \<times> byte list) set \<Rightarrow> (journal \<times> 'w) \<times> ledger \<Rightarrow> bool" where
  "journal_inv env outs = (\<lambda>((j, w), g). HasDir j \<and> (\<forall>k \<in> fst ` outs. key_ok env outs j g k))"

lemma key_ok_other:
  assumes "key_ok env outs j g k'" "touched env k es (disk j) (disk j')" "filename env k' \<noteq> filename env k"
    "map_of (pending j') k' = map_of (pending j) k'"
    "given g' k' = given g k'" "saved g' k' = saved g k'" "remembered g' k' = remembered g k'"
  shows "key_ok env outs j' g' k'"
  using assms touched_other[OF assms(2,3)] by (auto simp: key_ok_def)

lemma key_ok_settled: "\<forall>r. map_of (pending j) k = Some r \<longrightarrow> Key r = k \<Longrightarrow> key_ok env outs j (settle k g) k"
  by (simp add: key_ok_def settle_def)

lemma settle_other [simp]:
  "k' \<noteq> k \<Longrightarrow> given (settle k g) k' = given g k'"
  "k' \<noteq> k \<Longrightarrow> saved (settle k g) k' = saved g k'"
  "k' \<noteq> k \<Longrightarrow> remembered (settle k g) k' = remembered g k'"
  by (simp_all add: settle_def)

lemma touched_here:
  assumes "touched env k es d d'"
  shows "map_of (live d') (filename env k) \<in> insert (map_of (live d) (filename env k)) es"
    and "map_of (stable d') (filename env k) \<in> {map_of (live d) (filename env k), map_of (stable d) (filename env k)} \<union> es"
  using assms by (simp_all only: touched_def)

lemma touched_trans_remove:
  assumes "touched env k es d d'" "touched env k {None} d' d''"
  shows "touched env k (insert None es) d d''"
proof -
  let ?n = "filename env k"
  have "map_of (live d'') n = map_of (live d) n" if "n \<noteq> ?n" for n
    using assms that unfolding touched_def by metis
  moreover have "map_of (stable d'') n \<in> {map_of (live d) n, map_of (stable d) n}" if "n \<noteq> ?n" for n
  proof -
    have "map_of (stable d'') n \<in> {map_of (live d') n, map_of (stable d') n}" "map_of (live d') n = map_of (live d) n"
      "map_of (stable d') n \<in> {map_of (live d) n, map_of (stable d) n}"
      using assms that unfolding touched_def by blast+
    then show ?thesis by auto
  qed
  moreover have "map_of (live d'') ?n \<in> insert (map_of (live d) ?n) (insert None es)"
    "map_of (stable d'') ?n \<in> {map_of (live d) ?n, map_of (stable d) ?n} \<union> insert None es"
    using touched_here[OF assms(1)] touched_here[OF assms(2)] by auto
  ultimately show ?thesis unfolding touched_def by blast
qed

text \<open>A successful application settles the key, whatever becomes of the file.\<close>

lemma settled_inv:
  assumes inv: "journal_inv env outs ((j, w), g)" and oks: "outcomes_ok env outs" and k: "k \<in> fst ` outs"
    and t: "touched env k es (disk j) (disk j')" and d: "HasDir j'"
    and p: "\<And>k'. k' \<noteq> k \<Longrightarrow> map_of (pending j') k' = map_of (pending j) k'"
    and pk: "\<forall>r. map_of (pending j') k = Some r \<longrightarrow> Key r = k"
  shows "journal_inv env outs ((j', w'), settle k g)"
proof -
  have "key_ok env outs j' (settle k g) k'" if k': "k' \<in> fst ` outs" for k'
  proof (cases "k' = k")
    case True
    then show ?thesis using key_ok_settled[OF pk] by simp
  next
    case False
    then have "filename env k' \<noteq> filename env k"
      using oks k k' by (auto simp: outcomes_ok_def inj_on_def)
    moreover have "key_ok env outs j g k'" using inv k' unfolding journal_inv_def by blast
    ultimately show ?thesis using p[OF False] False by (intro key_ok_other[OF _ t]) simp_all
  qed
  then show ?thesis using d by (simp add: journal_inv_def)
qed

lemma remove_pending:
  assumes "remove env fails k j = (e, j')"
  shows "k' \<noteq> k \<Longrightarrow> map_of (pending j') k' = map_of (pending j) k'"
    and "\<forall>r. map_of (pending j) k = Some r \<longrightarrow> Key r = k \<Longrightarrow> \<forall>r. map_of (pending j') k = Some r \<longrightarrow> Key r = k"
  using remove_touched[OF assms] by auto

lemma save_parts:
  "fst (save env fails r (j\<lparr>pending := p\<rparr>)) = fst (save env fails r j)"
  by (auto simp: save_def tempFile_def rename_def syncDir_def attempt_def Let_def split: if_splits prod.splits)

lemma Apply_accepted:
  "accepted env fails k b \<Longrightarrow> Apply env fails cb k b (j, w) =
    (let r = \<lparr>Key = k, Data = b\<rparr>; (saveErr, j) = save env fails r (j\<lparr>pending := AList.update k r (pending j)\<rparr>); (e, w) = cb w b in
     if e \<noteq> [] then (e @ saveErr, j, w) else let (e, j) = remove env fails k j in (e, j, w))"
  unfolding accepted_def Apply_def by (simp add: not_less)

lemma Apply_inv:
  fixes cb :: "('e, 'w) callback"
  assumes inv: "journal_inv env outs ((j, w), g)" and oks: "outcomes_ok env outs" and kb: "(k, b) \<in> outs"
    and step: "Apply env fails cb k b (j, w) = (e, j', w')"
  shows "journal_inv env outs ((j', w'), afterApply env fails cb k b (j, w) g)"
proof (cases "accepted env fails k b")
  case False
  then have "j' = j" using step by (auto simp: Apply_def accepted_def split: if_splits)
  then show ?thesis using False inv by (simp add: afterApply_def journal_inv_def)
next
  case True
  define r where "r = \<lparr>Key = k, Data = b\<rparr>"
  define j0 where "j0 = j\<lparr>pending := AList.update k r (pending j)\<rparr>"
  obtain se j1 where s: "save env fails r j0 = (se :: 'e error, j1)" by (cases "save env fails r j0 :: 'e error \<times> journal")
  have j1: "j1 = j0\<lparr>disk := disk j1\<rparr>"
    and t: "touched env k {Some (File (jsonEncode env r) True)} (disk j) (disk j1)"
    and ok: "se = [] \<Longrightarrow> map_of (live (disk j1)) (filename env k) = Some (File (jsonEncode env r) True) \<and> stable (disk j1) = live (disk j1)"
    using save_touched[OF s] inv oks by (auto simp: r_def j0_def journal_inv_def outcomes_ok_def)
  have dir: "HasDir j1" and pend: "pending j1 = AList.update k r (pending j)"
    using inv by (subst j1, simp add: j0_def journal_inv_def)+
  have old: "key_ok env outs j g k" using inv kb by (force simp: journal_inv_def)
  have k: "k \<in> fst ` outs" using kb by force
  obtain ce w1 where cb: "cb w b = (ce, w1)" by (cases "cb w b")
  have run: "(let (e, w) = (ce, w1) in if e \<noteq> [] then (e @ se, j1, w) else let (e, j) = remove env fails k j1 in (e, j, w)) = (e, j', w')"
    using step unfolding Apply_accepted[OF True] r_def[symmetric] j0_def[symmetric] Let_def s cb by simp
  show ?thesis
  proof (cases "fst (cb w b) = []")
    case True
    obtain e2 j2 where rm: "remove env fails k j1 = (e2 :: 'e error, j2)" by (cases "remove env fails k j1 :: 'e error \<times> journal")
    have res: "j' = j2" using run True rm cb by simp
    have led: "afterApply env fails cb k b (j, w) g = settle k g"
      using \<open>accepted env fails k b\<close> True by (simp add: afterApply_def)
    have "touched env k (insert None {Some (File (jsonEncode env r) True)}) (disk j) (disk j2)"
      using t remove_touched[OF rm] by (blast intro: touched_trans_remove)
    moreover have "HasDir j2" using remove_touched[OF rm] dir by simp
    moreover have "map_of (pending j2) k' = map_of (pending j) k'" if "k' \<noteq> k" for k'
      using remove_pending(1)[OF rm that] that by (simp add: pend)
    moreover have "\<forall>r. map_of (pending j2) k = Some r \<longrightarrow> Key r = k"
      using remove_pending(2)[OF rm] by (simp add: pend r_def)
    ultimately show ?thesis unfolding res led by (rule settled_inv[OF inv oks k])
  next
    case False
    have res: "j' = j1" using run False cb by simp
    have first: "fst (save env fails r j :: 'e error \<times> journal) = se"
      using s save_parts[where j = j and p = "AList.update k r (pending j)"] by (metis j0_def fst_conv)
    have here: "HasDir j" using inv by (simp add: journal_inv_def)
    define g' where "g' = afterApply env fails cb k b (j, w) g"
    have g': "given g' = (given g)(k := insert b (given g k))" "saved g' = (saved g)(k := saved g k \<or> se = [])"
      "remembered g' = (remembered g)(k := True)"
      using \<open>accepted env fails k b\<close> False here first by (simp_all add: g'_def afterApply_def r_def[symmetric])
    have "key_ok env outs j1 g' k'" if k': "k' \<in> fst ` outs" for k'
    proof (cases "k' = k")
      case True
      have "acceptable env outs k b" using \<open>accepted env fails k b\<close> kb by (simp add: acceptable_def accepted_def)
      moreover have "recorded env (insert b (given g k)) k (live (disk j1)) \<and> recorded env (insert b (given g k)) k (stable (disk j1))"
        if "saved g k \<or> se = []" using that
      proof
        assume "saved g k"
        then show ?thesis using old t by (intro touched_same[where b = b]) (auto simp: key_ok_def r_def)
      next
        assume "se = []"
        then show ?thesis using ok by (auto simp: recorded_def r_def)
      qed
      ultimately show ?thesis using True old pend by (auto simp: key_ok_def g' r_def)
    next
      case False
      then have "filename env k' \<noteq> filename env k" using oks k k' by (auto simp: outcomes_ok_def inj_on_def)
      moreover have "key_ok env outs j g k'" using inv k' unfolding journal_inv_def by blast
      ultimately show ?thesis using pend False by (intro key_ok_other[OF _ t]) (simp_all add: g')
    qed
    then show ?thesis using dir by (simp add: journal_inv_def res g'_def)
  qed
qed

lemma replayOne_replayed:
  "replayOne env fails cb k (j, w) =
    (case replayed env fails k j of
       Some r \<Rightarrow> let (e, w) = cb w (Data r) in if e \<noteq> [] then (e, j, w) else let (e, j) = remove env fails k j in (e, j, w)
     | None \<Rightarrow> (fst (replayOne env fails cb k (j, w)), j, w))"
  by (auto simp: replayOne_def replayed_def readRecord_def Let_def split: option.splits sum.splits prod.splits if_splits direntry.splits)

lemma replayOne_inv:
  fixes cb :: "('e, 'w) callback"
  assumes inv: "journal_inv env outs ((j, w), g)" and oks: "outcomes_ok env outs" and k: "k \<in> fst ` outs"
    and step: "replayOne env fails cb k (j, w) = (e, j', w')"
  shows "journal_inv env outs ((j', w'), afterReplay env fails cb k (j, w) g)"
proof (cases "replayed env fails k j")
  case None
  then have "j' = j" using step replayOne_replayed[of env fails cb k j w] by simp
  then show ?thesis using None inv by (simp add: afterReplay_def journal_inv_def)
next
  case (Some r)
  obtain ce w1 where cb: "cb w (Data r) = (ce, w1)" by (cases "cb w (Data r)")
  show ?thesis
  proof (cases "ce = []")
    case False
    then have "j' = j" using step replayOne_replayed[of env fails cb k j w] Some cb by simp
    then show ?thesis using Some cb False inv by (simp add: afterReplay_def journal_inv_def)
  next
    case True
    obtain e2 j2 where rm: "remove env fails k j = (e2 :: 'e error, j2)" by (cases "remove env fails k j :: 'e error \<times> journal")
    then have res: "j' = j2" using step replayOne_replayed[of env fails cb k j w] Some cb True by simp
    have led: "afterReplay env fails cb k (j, w) g = settle k g" using Some cb True by (simp add: afterReplay_def)
    have old: "\<forall>r. map_of (pending j) k = Some r \<longrightarrow> Key r = k"
      using inv k unfolding journal_inv_def key_ok_def by blast
    show ?thesis unfolding res led
      using remove_touched[OF rm] remove_pending[OF rm] old inv
      by (intro settled_inv[OF inv oks k, where es = "{None}"]) (simp_all add: journal_inv_def)
  qed
qed

lemma crash_recorded:
  assumes "crashed d l" "recorded env bs k (live d)" "recorded env bs k (stable d)"
  shows "recorded env bs k l"
  using assms unfolding crashed_def recorded_def by (metis survives.simps(3))

lemma crash_inv:
  assumes inv: "journal_inv env outs ((j, w), g)" and c: "crashed (disk j) l"
  shows "journal_inv env outs ((restarted l, w), g\<lparr>remembered := \<lambda>_. False\<rparr>)"
proof -
  have "key_ok env outs (restarted l) (g\<lparr>remembered := \<lambda>_. False\<rparr>) k" if "k \<in> fst ` outs" for k
  proof -
    have "key_ok env outs j g k" using inv that unfolding journal_inv_def by blast
    then show ?thesis using crash_recorded[OF c] by (simp add: key_ok_def restarted_def)
  qed
  then show ?thesis by (simp add: journal_inv_def restarted_def)
qed

lemma journal_step_inv:
  assumes "outcomes_ok env outs" "journal_inv env outs s" "journal_step env outs s s'"
  shows "journal_inv env outs s'"
  using assms(3,1,2)
proof (cases rule: journal_step.cases)
  case (apply_step k b fails cb s0 e s1 g)
  then show ?thesis using Apply_inv[of env outs _ _ g k b fails cb e] assms(1,2) by (cases s0; cases s1) auto
next
  case (replay_step k fails cb s0 e s1 g)
  then show ?thesis using replayOne_inv[of env outs _ _ g k fails cb e] assms(1,2) by (cases s0; cases s1) auto
next
  case (crash_step j l w g)
  then show ?thesis using crash_inv[of env outs j w g l] assms(2) by simp
qed

lemma journal_start_inv: "journal_start s \<Longrightarrow> journal_inv env outs s"
  by (auto simp: journal_start_def journal_inv_def key_ok_def split: prod.splits)

text \<open>The journal is a guarded system for any outcomes; that they are sound is part of the invariant.\<close>

interpretation keeper: guarded_system journal_start "journal_step env outs" "\<lambda>s. outcomes_ok env outs \<longrightarrow> journal_inv env outs s" for env outs
  by unfold_locales (auto intro: journal_start_inv journal_step_inv)

lemma remembered_handed:
  assumes "key_ok env outs j g k" "remembered g k"
  shows "Pending env fails k j"
    and "\<not> fails LockKey \<Longrightarrow> \<exists>b \<in> given g k. \<forall>cb w. snd (snd (replayOne env fails cb k (j, w))) = snd (cb w b)"
proof -
  obtain r where r: "map_of (pending j) k = Some r" "Data r \<in> given g k" using assms by (auto simp: key_ok_def)
  show "Pending env fails k j" using r by (simp add: Pending_def)
  assume "\<not> fails LockKey"
  then have "snd (snd (replayOne env fails cb k (j, w))) = snd (cb w (Data r))" for cb :: "('e, 'w) callback" and w
    using r by (auto simp: replayOne_def Let_def split: prod.splits)
  then show "\<exists>b \<in> given g k. \<forall>(cb :: ('e, 'w) callback) w. snd (snd (replayOne env fails cb k (j, w))) = snd (cb w b)"
    using r(2) by blast
qed

lemma recorded_handed:
  assumes "recorded env bs k l" "outcomes_ok env outs" "\<forall>b \<in> bs. acceptable env outs k b"
  shows "Pending env fails k (restarted l)"
    and "\<not> fails LockKey \<Longrightarrow> \<not> fails OpenFile \<Longrightarrow> \<not> fails ReadFile \<Longrightarrow>
      \<exists>b \<in> bs. \<forall>cb w. snd (snd (replayOne env fails cb k (restarted l, w))) = snd (cb w b)"
proof -
  show "Pending env fails k (restarted l)" using assms(1) by (auto simp: Pending_def restarted_def recorded_def)
  assume f: "\<not> fails LockKey" "\<not> fails OpenFile" "\<not> fails ReadFile"
  obtain b where b: "b \<in> bs" "readRecord env fails (filename env k) \<lparr>live = l, stable = l\<rparr> = (Inr \<lparr>Key = k, Data = b\<rparr> :: 'e error + journal_record)"
    using readRecord_recorded[OF assms f(2,3)] by blast
  have "snd (snd (replayOne env fails cb k (restarted l, w))) = snd (cb w b)" for cb :: "('e, 'w) callback" and w
    using f b(2) by (auto simp: replayOne_def restarted_def Let_def split: prod.splits)
  then show "\<exists>b \<in> bs. \<forall>(cb :: ('e, 'w) callback) w. snd (snd (replayOne env fails cb k (restarted l, w))) = snd (cb w b)"
    using b(1) by blast
qed

text \<open>
  C37: An outcome the database did not take is not lost: until it takes one for the key, and in the same
  process, the key is pending and a replay hands it an outcome it was given; once one was saved, both hold
  after any crash too. This holds in every run of applications, replays and crashes, with any failures of
  the system and of the database.
\<close>
theorem outcome_kept:
  assumes ok: "outcomes_ok env outs"
    and run: "reachable journal_start (journal_step env outs) ((j, w), g)"
    and k: "k \<in> fst ` outs" and crash: "crashed (disk j) l"
    and calm: "\<not> fails LockKey" "\<not> fails OpenFile" "\<not> fails ReadFile"
  shows "(remembered g k \<longrightarrow> Pending env fails k j \<and>
      (\<exists>b \<in> given g k. \<forall>cb. snd (snd (replayOne env fails cb k (j, w))) = snd (cb w b :: gostring error \<times> 'w))) \<and>
    (saved g k \<longrightarrow> Pending env fails k (restarted l) \<and>
      (\<exists>b \<in> given g k. \<forall>cb. snd (snd (replayOne env fails cb k (restarted l, w))) = snd (cb w b :: gostring error \<times> 'w)))"
proof -
  have kk: "key_ok env outs j g k" using keeper.reachable_inv[OF run] ok k unfolding journal_inv_def by blast
  have "Pending env fails k j \<and>
      (\<exists>b \<in> given g k. \<forall>cb. snd (snd (replayOne env fails cb k (j, w))) = snd (cb w b :: gostring error \<times> 'w))"
    if r: "remembered g k"
  proof -
    obtain b where "b \<in> given g k" "\<forall>cb w. snd (snd (replayOne env fails cb k (j, w))) = snd (cb w b :: gostring error \<times> 'w)"
      using remembered_handed(2)[OF kk r, of fails, OF calm(1)] by blast
    then have "\<exists>b \<in> given g k. \<forall>cb. snd (snd (replayOne env fails cb k (j, w))) = snd (cb w b :: gostring error \<times> 'w)" by blast
    then show ?thesis using remembered_handed(1)[OF kk r] by simp
  qed
  moreover have "Pending env fails k (restarted l) \<and>
      (\<exists>b \<in> given g k. \<forall>cb. snd (snd (replayOne env fails cb k (restarted l, w))) = snd (cb w b :: gostring error \<times> 'w))"
    if s: "saved g k"
  proof -
    have r: "recorded env (given g k) k l" and a: "\<forall>b \<in> given g k. acceptable env outs k b"
      using kk s crash_recorded[OF crash] unfolding key_ok_def by blast+
    obtain b where "b \<in> given g k" "\<forall>cb w. snd (snd (replayOne env fails cb k (restarted l, w))) = snd (cb w b :: gostring error \<times> 'w)"
      using recorded_handed(2)[OF r ok a calm] by blast
    then have "\<exists>b \<in> given g k. \<forall>cb. snd (snd (replayOne env fails cb k (restarted l, w))) = snd (cb w b :: gostring error \<times> 'w)" by blast
    then show ?thesis using recorded_handed(1)[OF r ok a] by simp
  qed
  ultimately show ?thesis by blast
qed

definition demo_env :: journal_env where
  "demo_env = \<lparr>Windows = False, sha256 = id, jsonValid = (\<lambda>_. True), jsonEncode = Data,
     jsonDecode = (\<lambda>b. Some \<lparr>Key = [1], Data = b\<rparr>)\<rparr>"

definition demo_fail :: "(gostring, nat) callback" where
  "demo_fail = (\<lambda>w b. ([Applied (runes ''offline'')], w))"

lemma demo_filename: "filename demo_env [1] = [48, 49, 46, 106, 115, 111, 110]"
  by (simp add: filename_def demo_env_def runeBytes_ascii hexDigit_def)

lemma demo_apply:
  "Apply demo_env (\<lambda>_. False) demo_fail [1] [123, 125] (restarted [], 0) =
    ([Applied (runes ''offline'')],
     (restarted [(filename demo_env [1], File [123, 125] True)])\<lparr>pending := [([1], \<lparr>Key = [1], Data = [123, 125]\<rparr>)]\<rparr>, 0)"
  by (simp add: Apply_def demo_fail_def maxRecord_def save_def tempFile_def rename_def syncDir_def attempt_def
      restarted_def Let_def demo_filename) (simp add: demo_env_def)

lemma outcome_kept_witness:
  "\<exists>j g. reachable journal_start (journal_step demo_env {([1], [123, 125])}) ((j, 0 :: nat), g) \<and> remembered g [1] \<and>
     saved g [1] \<and> Pending demo_env (\<lambda>_. False) [1] j \<and> Pending demo_env (\<lambda>_. False) [1] (restarted (live (disk j)))"
proof -
  let ?none = "\<lparr>given = \<lambda>_. {}, saved = \<lambda>_. False, remembered = \<lambda>_. False\<rparr> :: ledger"
  let ?l = "[(filename demo_env [1], File [123, 125] True)]"
  let ?j = "(restarted ?l)\<lparr>pending := [([1], \<lparr>Key = [1], Data = [123, 125]\<rparr>)]\<rparr>"
  let ?g = "afterApply demo_env (\<lambda>_. False) demo_fail [1] [123, 125] (restarted [], 0) ?none"
  let ?outs = "{([1], [123, 125])} :: (key \<times> byte list) set"
  have run: "reachable journal_start (journal_step demo_env ?outs) ((?j, 0 :: nat), ?g)"
  proof -
    have s: "reachable journal_start (journal_step demo_env ?outs) ((restarted [], 0 :: nat), ?none)"
      by (rule reachable.start) (simp add: journal_start_def restarted_def)
    have "journal_step demo_env ?outs ((restarted [], 0 :: nat), ?none) ((?j, 0), ?g)"
      by (rule journal_step.apply_step[where fails = "\<lambda>_. False" and cb = demo_fail and b = "[123, 125]"]) (simp, rule demo_apply)
    then show ?thesis by (rule reachable.next_step[OF s])
  qed
  have g: "remembered ?g [1]" "saved ?g [1]"
    by (simp_all add: afterApply_def accepted_def demo_fail_def save_def tempFile_def rename_def syncDir_def attempt_def
        restarted_def Let_def) (simp_all add: demo_env_def maxRecord_def)
  have ok: "outcomes_ok demo_env ?outs" by (simp add: outcomes_ok_def demo_env_def maxRecord_def)
  have crash: "crashed (disk ?j) (live (disk ?j))" by (simp add: crashed_def restarted_def)
  have "Pending demo_env (\<lambda>_. False) [1] ?j \<and> Pending demo_env (\<lambda>_. False) [1] (restarted (live (disk ?j)))"
    using outcome_kept[OF ok run _ crash, of "[1]" "\<lambda>_. False"] g by simp
  then show ?thesis using run g by blast
qed

end
