(* ===== verification/Journal_Fair.thy ===== *)
theory Journal_Fair
  imports Journal
begin

text \<open>
  No record keeps another from being tried. A pass of the replay takes the names in cyclic order from
  where the last pass ended, so the names between that place and a given one get fewer with every pass,
  whatever fails in it.
\<close>

subsection \<open>Names in cyclic order\<close>

text \<open>The names met after \<open>a\<close> and before \<open>x\<close>.\<close>

definition onTheWay :: "'a :: linorder \<Rightarrow> 'a \<Rightarrow> 'a set" where
  "onTheWay a x = {m. if a < x then a < m \<and> m < x else a < m \<or> m < x}"

lemma onTheWay_closer: "m \<in> onTheWay a x \<Longrightarrow> m \<noteq> x \<Longrightarrow> onTheWay m x \<subseteq> onTheWay a x - {m}"
  by (auto simp: onTheWay_def split: if_splits)

lemma searchStart_split:
  assumes "sorted xs"
  shows "\<forall>m \<in> set (drop (searchStart xs a) xs). a < m" and "\<forall>m \<in> set (take (searchStart xs a) xs). m \<le> a"
proof -
  let ?p = "\<lambda>n. \<not> a < n"
  have d: "drop (searchStart xs a) xs = dropWhile ?p xs" and t: "take (searchStart xs a) xs = takeWhile ?p xs"
    unfolding searchStart_def by (rule dropWhile_eq_drop[symmetric], rule takeWhile_eq_take[symmetric])
  show "\<forall>m \<in> set (take (searchStart xs a) xs). m \<le> a" unfolding t by (auto dest: set_takeWhileD)
  have "a < m" if "m \<in> set (dropWhile ?p xs)" for m
  proof -
    have ne: "dropWhile ?p xs \<noteq> []" using that by (metis list.set(1) empty_iff)
    then have "a < hd (dropWhile ?p xs)" using hd_dropWhile[of ?p xs] by simp
    moreover have "sorted (dropWhile ?p xs)" using assms by (simp add: dropWhile_eq_drop sorted_wrt_drop)
    then have "hd (dropWhile ?p xs) \<le> m" using that ne by (cases "dropWhile ?p xs") auto
    ultimately show ?thesis by simp
  qed
  then show "\<forall>m \<in> set (drop (searchStart xs a) xs). a < m" unfolding d by blast
qed

text \<open>The rotation a pass walks along, and what comes before a name on it.\<close>

definition rotation :: "'a list \<Rightarrow> nat \<Rightarrow> 'a list" where
  "rotation xs s = drop s xs @ take s xs"

lemma rotation_nth:
  assumes "s \<le> length xs" "i < length xs"
  shows "xs ! ((s + i) mod length xs) = rotation xs s ! i"
proof (cases "s + i < length xs")
  case True
  then have "i < length xs - s" by linarith
  then show ?thesis using True by (simp add: rotation_def nth_append)
next
  case False
  then have "(s + i) mod length xs = s + i - length xs" using assms by (simp add: mod_if)
  moreover have "\<not> i < length xs - s" "i - (length xs - s) = s + i - length xs" "s + i - length xs < s" using assms False by linarith+
  ultimately show ?thesis by (simp add: rotation_def nth_append)
qed

lemma searchStart_le: "searchStart xs a \<le> length xs"
  by (simp add: searchStart_def length_takeWhile_le)

lemma passNames_prefix:
  "map fst (passNames names after) =
    take 128 (rotation (orderedNames names) (searchStart (orderedNames names) after))"
proof (rule nth_equalityI)
  let ?o = "orderedNames names" let ?s = "searchStart ?o after"
  have len: "length (rotation ?o ?s) = length ?o" using searchStart_le[of ?o after] by (simp add: rotation_def)
  then show "length (map fst (passNames names after)) = length (take 128 (rotation ?o ?s))"
    by (simp add: passNames_def Let_def)
  fix i assume "i < length (map fst (passNames names after))"
  then have i: "i < length ?o" "i < 128" by (simp_all add: passNames_def Let_def)
  then show "map fst (passNames names after) ! i = take 128 (rotation ?o ?s) ! i"
    using rotation_nth[OF searchStart_le i(1)] by (simp add: passNames_def Let_def)
qed

lemma rotation_before:
  assumes xs: "sorted xs" "distinct xs" and cut: "rotation xs (searchStart xs a) = us @ vs" and x: "x \<in> set vs" and m: "m \<in> set us"
  shows "m \<in> onTheWay a x"
proof -
  let ?s = "searchStart xs a"
  have up: "\<forall>m \<in> set (drop ?s xs). a < m" and down: "\<forall>m \<in> set (take ?s xs). m \<le> a"
    using searchStart_split[OF xs(1)] by simp_all
  have sd: "sorted (drop ?s xs)" "sorted (take ?s xs)" using xs(1) by (simp_all add: sorted_wrt_drop sorted_wrt_take)
  have dist: "distinct (us @ vs)" 
    using xs(2) set_take_disj_set_drop_if_distinct[OF xs(2) order_refl, of ?s] by (simp add: cut[symmetric] rotation_def Int_commute)
  then have ne: "m \<noteq> x" using x m by auto
  show ?thesis
  proof (cases "length us \<le> length (drop ?s xs)")
    case True
    then obtain ws where ws: "drop ?s xs = us @ ws" "vs = ws @ take ?s xs"
      using cut by (auto simp: rotation_def append_eq_append_conv2 dest: arg_cong[of _ _ length])
    then have am: "a < m" using m up by auto
    show ?thesis
    proof (cases "x \<in> set ws")
      case True
      then have "m \<le> x" using ws(1) sd(1) m by (auto simp: sorted_append)
      then show ?thesis using am ne by (auto simp: onTheWay_def)
    next
      case False
      then have "x \<le> a" using x ws(2) down by auto
      then show ?thesis using am by (auto simp: onTheWay_def)
    qed
  next
    case False
    then obtain ws where ws: "us = drop ?s xs @ ws" "take ?s xs = ws @ vs"
      using cut by (auto simp: rotation_def append_eq_append_conv2 dest: arg_cong[of _ _ length])
    then have xa: "x \<le> a" using x down by auto
    show ?thesis
    proof (cases "m \<in> set ws")
      case True
      then have "m \<le> x" using ws(2) sd(2) x by (auto simp: sorted_append)
      then show ?thesis using xa ne by (auto simp: onTheWay_def)
    next
      case False
      then have "a < m" using m ws(1) up by auto
      then show ?thesis using xa by (auto simp: onTheWay_def)
    qed
  qed
qed

subsection \<open>Passes\<close>

text \<open>What a method may have left of the memory and of the directory.\<close>

definition shrinks :: "journal \<Rightarrow> journal \<Rightarrow> bool" where
  "shrinks j j' \<longleftrightarrow> HasDir j' = HasDir j \<and> set (pending j') \<subseteq> set (pending j) \<and> set (live (disk j')) \<subseteq> set (live (disk j))"

lemma shrinks_refl [simp]: "shrinks j j"
  by (simp add: shrinks_def)

lemma shrinks_trans: "shrinks j j' \<Longrightarrow> shrinks j' j'' \<Longrightarrow> shrinks j j''"
  by (auto simp: shrinks_def)

lemma shrinks_bookkeeping [simp]:
  "shrinks j (mark n j') = shrinks j j'" "shrinks j (unmark n j') = shrinks j j'"
  "shrinks j (j'\<lparr>replayAfter := a\<rparr>) = shrinks j j'" "shrinks (j\<lparr>replayAfter := a\<rparr>) j' = shrinks j j'"
  "shrinks (j\<lparr>damaged := ds\<rparr>) j' = shrinks j j'" "shrinks j (j'\<lparr>damaged := ds\<rparr>) = shrinks j j'"
  by (auto simp: shrinks_def mark_def unmark_def)

lemma remove_shrinks:
  assumes "remove env fails k j = (e, j')"
  shows "shrinks j j' \<and> replayAfter j' = replayAfter j"
  using assms by (auto simp: remove_def osRemove_def syncDir_def forget_def shrinks_def AList.delete_eq Let_def split: if_splits prod.splits)

lemma replayOne_shrinks:
  assumes "replayOne env fails cb k (j, w) = (e, j', w')"
  shows "shrinks j j' \<and> replayAfter j' = replayAfter j"
  using assms by (auto simp: replayOne_def Let_def dest: remove_shrinks split: if_splits option.splits sum.splits prod.splits)

lemma replayIteration_shrinks:
  assumes "replayIteration env probe fails cb nk (j, w) = (r, j', w')"
  shows "shrinks j j' \<and> replayAfter j' = fst nk"
  using assms
  by (cases nk) (auto simp: replayIteration_def replayKey_def Let_def mark_def unmark_def
      dest!: replayOne_shrinks split: if_splits option.splits sum.splits prod.splits)

lemma replayLoop_seen:
  assumes "replayLoop env wx cb i todo (seen, j, w) = (r, seen', j', w')"
  shows "\<exists>n. n \<le> length todo \<and> seen' = rev (map fst (take n todo)) @ seen \<and> shrinks j j' \<and>
    replayAfter j' = (if n = 0 then replayAfter j else fst (todo ! (n - 1))) \<and>
    (todo \<noteq> [] \<and> \<not> ctxDone wx i \<longrightarrow> 0 < n)"
  using assms
proof (induction todo arbitrary: i seen j w)
  case Nil
  then show ?case by simp
next
  case (Cons nk todo)
  show ?case
  proof (cases "ctxDone wx i")
    case True
    then show ?thesis using Cons.prems by (intro exI[of _ 0]) auto
  next
    case False
    obtain q j1 w1 where it: "replayIteration env (probing wx i) (replaying wx i) cb nk (j, w) = (q, j1, w1)"
      by (metis prod_cases3)
    have s: "shrinks j j1" "replayAfter j1 = fst nk" using replayIteration_shrinks[OF it] by simp_all
    show ?thesis
    proof (cases q)
      case (Some e)
      then show ?thesis using Cons.prems False it s by (intro exI[of _ 1]) auto
    next
      case None
      then have "replayLoop env wx cb (i + 1) todo (fst nk # seen, j1, w1) = (r, seen', j', w')"
        using Cons.prems False it by simp
      from Cons.IH[OF this] obtain n where n: "n \<le> length todo" "seen' = rev (map fst (take n todo)) @ fst nk # seen"
        "shrinks j1 j'" "replayAfter j' = (if n = 0 then replayAfter j1 else fst (todo ! (n - 1)))" by blast
      show ?thesis using n s shrinks_trans by (intro exI[of _ "Suc n"]) (auto simp: nth_Cons')
    qed
  qed
qed

definition names :: "journal_env \<Rightarrow> journal \<Rightarrow> name set" where
  "names env j = fst ` set (replayNames env j)"

lemma names_merge: "fst ` set (known @ map (\<lambda>n. (n, None)) (filter (\<lambda>n. n \<notin> fst ` set known) files)) = fst ` set known \<union> set files"
  by (auto simp: image_image image_Un)

lemma names_iff:
  "n \<in> names env j \<longleftrightarrow> (\<exists>(k, r) \<in> set (pending j). n = filename env k) \<or>
    HasDir j \<and> (\<exists>f. (n, f) \<in> set (live (disk j)) \<and> f \<noteq> Directory \<and> suffixJSON n)"
  unfolding names_def replayNames_def Let_def names_merge
  by (auto simp: image_iff split: prod.splits if_splits intro: rev_bexI)

lemma names_shrink: "shrinks j j' \<Longrightarrow> names env j' \<subseteq> names env j"
  by (force simp: shrinks_def names_iff)

lemma finite_names [simp]: "finite (names env j)"
  by (simp add: names_def)

text \<open>The names a pass tried.\<close>

definition tried :: "journal_env \<Rightarrow> (fsop \<Rightarrow> bool) \<Rightarrow> weather \<Rightarrow> ('e, 'w) callback \<Rightarrow> journal \<times> 'w \<Rightarrow> name list" where
  "tried env fails wx cb = (\<lambda>(j, w).
    if HasDir j \<and> fails ReadDir \<or> replayNames env j = [] then []
    else let ns = replayNames env j; j = j\<lparr>damaged := filter (\<lambda>n. n \<in> fst ` set ns) (damaged j)\<rparr> in
      fst (snd (replayLoop env wx cb 0 (passNames ns (replayAfter j)) ([], j, w))))"

lemma orderedNames_facts: "sorted (orderedNames ns)" "distinct (orderedNames ns)" "set (orderedNames ns) = fst ` set ns"
  by (simp_all add: orderedNames_def)

lemma Replay_pass:
  fixes cb :: "('e, 'w) callback"
  assumes run: "Replay env fails wx cb (j, w) = (e, j', w')" and x: "x \<in> names env j"
    and dir: "\<not> fails ReadDir" and ctx: "\<not> ctxDone wx 0" and no: "x \<notin> set (tried env fails wx cb (j, w))"
  shows "names env j' \<subseteq> names env j \<and> replayAfter j' \<in> names env j \<and> replayAfter j' \<noteq> x \<and>
    replayAfter j' \<in> onTheWay (replayAfter j) x"
proof -
  define ns where "ns = replayNames env j"
  define j0 where "j0 = j\<lparr>damaged := filter (\<lambda>n. n \<in> fst ` set ns) (damaged j)\<rparr>"
  have ne: "ns \<noteq> []" using x by (auto simp: names_def ns_def)
  obtain r seen j1 w1 where loop: "replayLoop env wx cb 0 (passNames ns (replayAfter j)) ([], j0, w) = (r, seen, j1, w1)"
    by (metis prod_cases4)
  have res: "j' = j1" and tr: "tried env fails wx cb (j, w) = seen"
    using run dir ne loop by (auto simp: Replay_def tried_def ns_def[symmetric] j0_def Let_def split: option.splits)
  let ?p = "passNames ns (replayAfter j)"
  let ?rot = "rotation (orderedNames ns) (searchStart (orderedNames ns) (replayAfter j))"
  have pass: "map fst ?p = take 128 ?rot" by (rule passNames_prefix)
  have setrot: "set ?rot = names env j"
    by (metis Un_commute append_take_drop_id names_def ns_def orderedNames_facts(3) rotation_def set_append)
  then have "?rot \<noteq> []" using x by auto
  then have "?p \<noteq> []" using pass by auto
  obtain n where n: "n \<le> length ?p" "seen = rev (map fst (take n ?p))" "shrinks j0 j1"
    "replayAfter j1 = (if n = 0 then replayAfter j0 else fst (?p ! (n - 1)))" "0 < n"
    using replayLoop_seen[OF loop] \<open>?p \<noteq> []\<close> ctx by auto
  define us where "us = take n (take 128 ?rot)"
  have us: "us = map fst (take n ?p)" by (simp add: us_def pass[symmetric] take_map)
  have last: "replayAfter j' \<in> set us"
  proof -
    have "n - 1 < length (take n ?p)" using n(1,5) by simp
    then have "take n ?p ! (n - 1) \<in> set (take n ?p)" by (rule nth_mem)
    moreover have "take n ?p ! (n - 1) = ?p ! (n - 1)" using n(5) by simp
    ultimately show ?thesis using n(4,5) by (simp add: res us del: nth_take)
  qed
  have nox: "x \<notin> set us" using no by (simp add: tr n(2) us)
  have split: "?rot = us @ drop (min n 128) ?rot" by (simp add: us_def min_def)
  then have xin: "x \<in> set (drop (min n 128) ?rot)" using x setrot nox by (metis Un_iff set_append)
  have "replayAfter j' \<in> onTheWay (replayAfter j) x"
    by (rule rotation_before[OF orderedNames_facts(1,2) split xin last])
  moreover have "names env j' \<subseteq> names env j" using names_shrink[of j0 j1 env] n(3) by (simp add: res j0_def names_def replayNames_def Let_def)
  moreover have "replayAfter j' \<in> names env j" using last split setrot by (metis Un_iff set_append)
  ultimately show ?thesis using last nox by auto
qed

text \<open>
  Passes one after another, each with the names it tried. The faults, the contexts and the callback of each
  pass are its own.
\<close>

fun passes :: "journal_env \<Rightarrow> ((fsop \<Rightarrow> bool) \<times> weather \<times> ('e, 'w) callback) list \<Rightarrow> journal \<times> 'w \<Rightarrow>
    (journal \<times> name list) list" where
  "passes env [] s = []"
| "passes env ((fails, wx, cb) # ps) s =
    (fst s, tried env fails wx cb s) # passes env ps (snd (Replay env fails wx cb s))"

lemma passes_reach:
  assumes "x \<in> names env j" "card (names env j \<inter> onTheWay (replayAfter j) x) < length ps"
    "\<forall>(fails, wx, cb) \<in> set ps. \<not> fails ReadDir \<and> \<not> ctxDone wx 0"
  shows "\<exists>(j', t) \<in> set (passes env ps (j, w)). x \<in> set t \<or> x \<notin> names env j'"
  using assms
proof (induction ps arbitrary: j w)
  case Nil
  then show ?case by simp
next
  case (Cons p ps)
  obtain fails wx cb where p: "p = (fails, wx, cb)" by (cases p)
  obtain e j1 w1 where run: "Replay env fails wx cb (j, w) = (e, j1, w1)" by (metis prod_cases3)
  show ?case
  proof (cases "x \<in> set (tried env fails wx cb (j, w))")
    case True
    then show ?thesis by (auto simp: p)
  next
    case no: False
    have calm: "\<not> fails ReadDir" "\<not> ctxDone wx 0" using Cons.prems(3) by (auto simp: p)
    have pass: "names env j1 \<subseteq> names env j" "replayAfter j1 \<in> names env j" "replayAfter j1 \<noteq> x"
      "replayAfter j1 \<in> onTheWay (replayAfter j) x"
      using Replay_pass[OF run Cons.prems(1) calm no] by simp_all
    have "names env j1 \<inter> onTheWay (replayAfter j1) x \<subset> names env j \<inter> onTheWay (replayAfter j) x"
      using pass onTheWay_closer[OF pass(4,3)] by blast
    then have "card (names env j1 \<inter> onTheWay (replayAfter j1) x) < card (names env j \<inter> onTheWay (replayAfter j) x)"
      by (intro psubset_card_mono) simp_all
    then have less: "card (names env j1 \<inter> onTheWay (replayAfter j1) x) < length ps" using Cons.prems(2) by simp
    have "\<exists>(j', t) \<in> set (passes env ps (j1, w1)). x \<in> set t \<or> x \<notin> names env j'" if "x \<in> names env j1"
      using Cons.prems(3) by (intro Cons.IH[OF that less]) simp
    moreover have "ps \<noteq> []" using less by auto
    moreover have "\<exists>(j', t) \<in> set (passes env ps (j1, w1)). x \<notin> names env j'" if "x \<notin> names env j1" "ps \<noteq> []"
      using that by (cases ps) auto
    ultimately show ?thesis using run by (cases "x \<in> names env j1") (auto simp: p)
  qed
qed

lemma tried_bounded: "length (tried env fails wx cb s) \<le> 128"
proof -
  obtain j w where s: "s = (j, w)" by (cases s)
  define ns where "ns = replayNames env j"
  define j0 where "j0 = j\<lparr>damaged := filter (\<lambda>n. n \<in> fst ` set ns) (damaged j)\<rparr>"
  obtain r seen j1 w1 where loop: "replayLoop env wx cb 0 (passNames ns (replayAfter j)) ([], j0, w) = (r, seen, j1, w1)"
    by (metis prod_cases4)
  have "length (passNames ns (replayAfter j)) \<le> 128" by (simp add: passNames_def Let_def)
  moreover have "length seen \<le> length (passNames ns (replayAfter j))" using replayLoop_seen[OF loop] by auto
  ultimately show ?thesis using loop by (simp add: s tried_def ns_def[symmetric] j0_def Let_def)
qed

lemma passes_bounded: "\<forall>(j, t) \<in> set (passes env ps s). length t \<le> 128"
  by (induction env ps s rule: passes.induct) (auto simp: tried_bounded)

text \<open>
  C38: Within as many passes of the replay as there are records, each of at most 128, every record is tried or
  gone, whatever the database answers for the others and whichever calls of the system fail, as long as
  the directory can be listed and no pass starts with a context that is done.
\<close>
theorem replay_starves_none:
  assumes "x \<in> names env j" "card (names env j) \<le> length ps"
    "\<forall>(fails, wx, cb) \<in> set ps. \<not> fails ReadDir \<and> \<not> ctxDone wx 0"
  shows "(\<exists>(j', t) \<in> set (passes env ps (j, w)). x \<in> set t \<or> x \<notin> names env j') \<and>
    (\<forall>(j', t) \<in> set (passes env ps (j, w)). length t \<le> 128)"
proof
  have "names env j \<inter> onTheWay (replayAfter j) x \<subset> names env j" using assms(1) by (auto simp: onTheWay_def)
  then have "card (names env j \<inter> onTheWay (replayAfter j) x) < length ps"
    using psubset_card_mono[OF finite_names, of _ env j] assms(2) by (meson less_le_trans)
  then show "\<exists>(j', t) \<in> set (passes env ps (j, w)). x \<in> set t \<or> x \<notin> names env j'"
    by (intro passes_reach assms(1,3))
qed (rule passes_bounded)

definition busy_env :: journal_env where
  "busy_env = \<lparr>Windows = False, sha256 = id, jsonValid = (\<lambda>_. True), jsonEncode = Data,
     jsonDecode = (\<lambda>b. if b = [] then None else Some \<lparr>Key = b, Data = b\<rparr>)\<rparr>"

definition busy_name :: "byte \<Rightarrow> name" where
  "busy_name b = filename busy_env [b]"

text \<open>Two records whose outcomes the database refuses, and a replay that was at the first.\<close>

definition busy_journal :: journal where
  "busy_journal = (let l = [(busy_name 1, File [1] True), (busy_name 2, File [2] True)] in
     \<lparr>HasDir = True, disk = \<lparr>live = l, stable = l\<rparr>, pending = [], replayAfter = busy_name 1, damaged = []\<rparr>)"

definition busy_pass :: "(fsop \<Rightarrow> bool) \<times> weather \<times> (gostring, nat) callback" where
  "busy_pass = (\<lambda>_. False, \<lparr>ctxDone = \<lambda>_. False, probing = \<lambda>_ _. False, replaying = \<lambda>_ _. False\<rparr>, \<lambda>w b. ([Applied (runes ''offline'')], w + 1))"

lemma busy_names: "busy_name 1 = [48, 49, 46, 106, 115, 111, 110]" "busy_name 2 = [48, 50, 46, 106, 115, 111, 110]"
  by (simp_all add: busy_name_def filename_def busy_env_def runeBytes_ascii hexDigit_def)

lemma replay_starves_none_witness:
  "\<exists>(j, t) \<in> set (passes busy_env [busy_pass, busy_pass] (busy_journal, 0)). busy_name 1 \<in> set t \<or> busy_name 1 \<notin> names busy_env j"
proof -
  have n: "names busy_env busy_journal = {busy_name 1, busy_name 2}"
    by (auto simp: names_def replayNames_def busy_journal_def suffixJSON_def busy_names runeBytes_ascii Let_def)
  then have x: "busy_name 1 \<in> names busy_env busy_journal" by simp
  have c: "card (names busy_env busy_journal) \<le> length [busy_pass, busy_pass]" by (simp add: n card_insert_if)
  show ?thesis using replay_starves_none[OF x c, of 0] by (simp add: busy_pass_def)
qed

end
