(* ===== verification/Sip_Props.thy ===== *)
theory Sip_Props
  imports Sip
begin

text \<open>
  The two readers of SIP messages agree: what the stream reader delivers is what the datagram
  parser makes of the same bytes, and a message of well-formed lines is read back by both. The
  header limit, the keepalive pings and the buffer of the reader are accounted for.
\<close>

subsection \<open>Lines of a stream\<close>

lemma indexOf_single_None: "indexOf [c] xs = None \<longleftrightarrow> c \<notin> set xs"
  by (induction xs) auto

lemma indexOf_single_append: "c \<notin> set xs \<Longrightarrow> indexOf [c] (xs @ c # ys) = Some (length xs)"
  by (induction xs) auto

lemma indexOf_single_Some:
  assumes "indexOf [c] xs = Some i"
  shows "c \<notin> set (take i xs)" and "i < length xs" and "xs ! i = c"
  using assms
proof (induction xs arbitrary: i)
  case (Cons x xs)
  { case 1 then show ?case using Cons by (auto split: if_splits) }
  { case 2 then show ?case using Cons by (auto split: if_splits) }
  { case 3 then show ?case using Cons by (auto split: if_splits) }
qed auto

text \<open>A line is read whole whatever the size of the buffer, and only within the limit.\<close>

lemma readSIPLine_Inr:
  "readSIPLine bufsize limit line s = Inr (l, rest) \<Longrightarrow>
   \<exists>t. s = t @ 10 # rest \<and> 10 \<notin> set t \<and> l = line @ t @ [10] \<and> length l \<le> limit"
proof (induction bufsize limit line s rule: readSIPLine.induct)
  case (1 bufsize limit line s)
  obtain part e where re: "readSlice (max 16 bufsize) s = (part, e)" by fastforce
  show ?case
  proof (cases e)
    case Delimiter
    then obtain i where i: "indexOf [10] (take (max 16 bufsize) s) = Some i" and part: "part = take (i + 1) s"
      using re by (auto simp: readSlice_def split: option.splits if_splits)
    note at = indexOf_single_Some[OF i]
    have "i < length s" "s ! i = 10" "10 \<notin> set (take i s)" "i < max 16 bufsize"
      using at by (auto simp: min_def take_take split: if_splits)
    then have s: "s = take i s @ 10 # drop (i + 1) s" "part = take i s @ [10]"
      using part by (metis Suc_eq_plus1 id_take_nth_drop, simp add: take_Suc_conv_app_nth)
    have "rest = drop (length part) s" "l = line @ part" "length l \<le> limit"
      using 1(2) re Delimiter by (auto simp: readSIPLine.simps[of bufsize limit line s] split: if_splits)
    moreover have "length part = i + 1" using part \<open>i < length s\<close> by simp
    ultimately show ?thesis using s \<open>10 \<notin> set (take i s)\<close> by auto
  next
    case BufferFull
    then have part: "part = take (max 16 bufsize) s" "10 \<notin> set part"
      using re by (auto simp: readSlice_def indexOf_single_None split: option.splits if_splits)
    have "\<exists>t. drop (length part) s = t @ 10 # rest \<and> 10 \<notin> set t \<and> l = (line @ part) @ t @ [10] \<and> length l \<le> limit"
    proof -
      have "\<not> limit < length line + length part"
        and rec: "readSIPLine bufsize limit (line @ part) (drop (length part) s) = Inr (l, rest)"
        using 1(2) re BufferFull by (auto simp: readSIPLine.simps[of bufsize limit line s] split: if_splits)
      then show ?thesis using 1(1)[OF re[symmetric] _ BufferFull rec] by blast
    qed
    then obtain t where t: "drop (length part) s = t @ 10 # rest" "10 \<notin> set t"
      "l = line @ (part @ t) @ [10]" "length l \<le> limit" by auto
    have "s = part @ drop (max 16 bufsize) s" using part by simp
    then have "s = part @ drop (length part) s" by (metis append_eq_conv_conj)
    then show ?thesis using t part by (intro exI[of _ "part @ t"]) auto
  next
    case EndOfFile
    then show ?thesis using 1(2) re by (simp add: readSIPLine.simps[of bufsize limit line s] split: if_splits)
  qed
qed

lemma readSIPLine_line:
  "10 \<notin> set t \<Longrightarrow> length line + length t + 1 \<le> limit \<Longrightarrow>
   readSIPLine bufsize limit line (t @ 10 # rest) = Inr (line @ t @ [10], rest)"
proof (induction "length t" arbitrary: t line rule: less_induct)
  case less
  define k where "k = max 16 bufsize"
  show ?case
  proof (cases "length t < k")
    case True
    then have "indexOf [10] (take k (t @ 10 # rest)) = Some (length t)"
      using less.prems indexOf_single_append[of 10 t "take (k - length t - 1) rest"]
      by (cases "k - length t") auto
    then have "readSlice k (t @ 10 # rest) = (t @ [10], Delimiter)" by (simp add: readSlice_def)
    then show ?thesis using less.prems by (simp add: readSIPLine.simps[of bufsize] flip: k_def)
  next
    case False
    have "indexOf [10] (take k t) = None"
      using less.prems by (auto simp: indexOf_single_None dest: in_set_takeD)
    then have "readSlice k (t @ 10 # rest) = (take k t, BufferFull)"
      using False by (simp add: readSlice_def)
    moreover have "readSIPLine bufsize limit (line @ take k t) (drop k t @ 10 # rest)
        = Inr ((line @ take k t) @ drop k t @ [10], rest)"
      using False less.prems by (intro less.hyps) (auto simp: k_def dest: in_set_dropD)
    moreover have "take k t @ drop k t @ z = t @ z" for z by (simp flip: append_assoc)
    moreover have "min (length t) k = k" using False by simp
    ultimately show ?thesis using False less.prems
      by (simp add: readSIPLine.simps[of bufsize limit line] flip: k_def)
  qed
qed

subsection \<open>Where the header ends\<close>

abbreviation endMark :: "byte list" where
  "endMark \<equiv> [13, 10, 13, 10]"

lemma indexOf_endMark_Cons:
  "xs \<noteq> [] \<Longrightarrow> hd xs \<noteq> 10 \<Longrightarrow> indexOf endMark (c # xs) = map_option Suc (indexOf endMark xs)"
  by (cases xs) auto

lemma hd_line: "10 \<notin> set l \<Longrightarrow> hd (l @ 13 # X) \<noteq> (10 :: byte)"
  by (cases l) auto

lemma indexOf_endMark_line:
  "10 \<notin> set l \<Longrightarrow> take 2 X \<noteq> crlf \<Longrightarrow>
   indexOf endMark (l @ crlf @ X) = map_option (\<lambda>i. i + length l + 2) (indexOf endMark X)"
proof (induction l)
  case Nil
  have "indexOf endMark (13 # 10 # X) = map_option Suc (indexOf endMark (10 # X))"
    using Nil by (cases X; cases "tl X") (auto simp: numeral_eq_Suc)
  then show ?case by (auto simp: option.map_comp comp_def)
next
  case (Cons c l)
  then show ?case using hd_line[of l "10 # X"]
    by (simp add: indexOf_endMark_Cons option.map_comp comp_def del: indexOf.simps)
qed

lemma indexOf_endMark_end: "10 \<notin> set l \<Longrightarrow> indexOf endMark (l @ endMark @ Y) = Some (length l)"
proof (induction l)
  case (Cons c l)
  then show ?case using hd_line[of l "10 # 13 # 10 # Y"]
    by (simp add: indexOf_endMark_Cons del: indexOf.simps)
qed simp

text \<open>A block of lines in which no line is blank.\<close>

definition plainLine :: "byte list \<Rightarrow> bool" where
  "plainLine l \<longleftrightarrow> 10 \<notin> set l \<and> l \<noteq> [] \<and> l \<noteq> [13]"

definition wireLines :: "byte list list \<Rightarrow> byte list" where
  "wireLines ls = concat (map (\<lambda>l. l @ crlf) ls)"

lemma wireLines_simps [simp]:
  "wireLines [] = []" "wireLines (l # ls) = l @ crlf @ wireLines ls"
  by (simp_all add: wireLines_def)

lemma indexOf_endMark_lines:
  "ls \<noteq> [] \<Longrightarrow> \<forall>l \<in> set ls. plainLine l \<Longrightarrow>
   indexOf endMark (wireLines ls @ crlf @ Y) = Some (length (wireLines ls) - 2)"
proof (induction ls)
  case (Cons l ls)
  show ?case
  proof (cases ls)
    case Nil
    then show ?thesis using Cons.prems indexOf_endMark_end[of l Y] by (simp add: plainLine_def)
  next
    case (Cons m ms)
    then have "take 2 (wireLines ls @ crlf @ Y) \<noteq> crlf"
      using Cons.prems(2) by (cases m; cases "tl m") (auto simp: plainLine_def)
    then have "indexOf endMark (l @ crlf @ wireLines ls @ crlf @ Y)
        = map_option (\<lambda>i. i + length l + 2) (indexOf endMark (wireLines ls @ crlf @ Y))"
      using Cons.prems(2) by (intro indexOf_endMark_line) (auto simp: plainLine_def)
    moreover have "indexOf endMark (wireLines ls @ crlf @ Y) = Some (length (wireLines ls) - 2)"
      using Cons.IH Cons.prems Cons by simp
    moreover have "2 \<le> length (wireLines ls)" using Cons by simp
    ultimately show ?thesis by simp
  qed
qed simp

lemma findHeaderEnd_lines:
  assumes "ls \<noteq> []" "\<forall>l \<in> set ls. plainLine l"
  shows "findHeaderEnd (wireLines ls @ crlf @ Y) = Some (length (wireLines ls) - 2, 4)"
  using indexOf_endMark_lines[OF assms] by (simp add: findHeaderEnd_def)

subsection \<open>The stream reader on a message of lines\<close>

lemma packetLoop_line:
  assumes "plainLine l" "length header + length l + 2 \<le> maxSIPHeaderBytes"
  shows "packetLoop lo up bufsize pong header leading sent (l @ crlf @ s)
    = packetLoop lo up bufsize pong (header @ l @ crlf) leading sent s"
proof -
  have "readSIPLine bufsize (maxSIPHeaderBytes - length header) [] ((l @ [13]) @ 10 # s)
      = Inr ([] @ (l @ [13]) @ [10], s)"
    using assms by (intro readSIPLine_line) (auto simp: plainLine_def)
  moreover have "l @ crlf \<noteq> crlf" "l @ crlf \<noteq> [10]" using assms by (auto simp: plainLine_def)
  ultimately show ?thesis using assms(2) by (subst packetLoop.simps) simp
qed

lemma packetLoop_lines:
  assumes "\<forall>l \<in> set ls. plainLine l" "header \<noteq> [] \<or> ls \<noteq> []"
    "length header + length (wireLines ls) + 2 \<le> maxSIPHeaderBytes"
  shows "packetLoop lo up bufsize pong header leading sent (wireLines ls @ crlf @ s)
    = (finishHeaders lo up (header @ wireLines ls @ crlf) s, sent)"
  using assms
proof (induction ls arbitrary: header)
  case Nil
  have "readSIPLine bufsize (maxSIPHeaderBytes - length header) [] ([13] @ 10 # s) = Inr ([] @ [13] @ [10], s)"
    using Nil by (intro readSIPLine_line) auto
  then show ?case using Nil by (subst packetLoop.simps) simp
next
  case (Cons l ls)
  then show ?case using packetLoop_line[of l header lo up bufsize pong leading sent "wireLines ls @ crlf @ s"] by simp
qed

lemma readSIPPacket_lines:
  assumes "\<forall>l \<in> set ls. plainLine l" "ls \<noteq> []" "length (wireLines ls) + 2 \<le> maxSIPHeaderBytes"
  shows "readSIPPacket lo up bufsize pong (wireLines ls @ crlf @ s)
    = (finishHeaders lo up (wireLines ls @ crlf) s, 0)"
  using packetLoop_lines[of ls "[]"] assms by (simp add: readSIPPacket_def)

subsection \<open>What the stream reader delivers\<close>

text \<open>Lines that end in a line feed, with or without a carriage return before it.\<close>

definition feedLines :: "byte list list \<Rightarrow> byte list" where
  "feedLines ts = concat (map (\<lambda>t. t @ [10]) ts)"

lemma feedLines_simps [simp]:
  "feedLines [] = []" "feedLines (t # ts) = t @ 10 # feedLines ts"
  "feedLines (ts @ us) = feedLines ts @ feedLines us"
  by (simp_all add: feedLines_def)

lemma hd_feed: "10 \<notin> set t \<Longrightarrow> t \<noteq> [] \<Longrightarrow> hd (t @ X) \<noteq> (10 :: byte)"
  by (cases t) auto

lemma indexOf_endMark_feed:
  "10 \<notin> set t \<Longrightarrow> \<not> (t \<noteq> [] \<and> last t = 13 \<and> take 2 X = crlf) \<Longrightarrow>
   indexOf endMark (t @ 10 # X) = map_option (\<lambda>i. i + length t + 1) (indexOf endMark X)"
proof (induction t)
  case Nil
  then show ?case by simp
next
  case (Cons c t)
  show ?case
  proof (cases "t = []")
    case True
    have "take (length endMark) (c # 10 # X) \<noteq> endMark" using Cons.prems True by (auto simp: numeral_2_eq_2)
    then have "indexOf endMark (c # 10 # X) = map_option Suc (indexOf endMark (10 # X))"
      by (simp only: indexOf.simps if_False)
    moreover have "indexOf endMark (10 # X) = map_option Suc (indexOf endMark X)" by simp
    ultimately show ?thesis using True
      by (simp only: append_Cons append_Nil) (simp add: option.map_comp comp_def del: indexOf.simps)
  next
    case False
    then show ?thesis using Cons hd_feed[of t "10 # X"]
      by (simp add: indexOf_endMark_Cons option.map_comp comp_def del: indexOf.simps)
  qed
qed

lemma indexOf_endMark_feedLines:
  "ts \<noteq> [] \<Longrightarrow> \<forall>t \<in> set ts. plainLine t \<Longrightarrow> last (last ts) = 13 \<Longrightarrow>
   indexOf endMark (feedLines ts @ crlf @ Y) = Some (length (feedLines ts) - 2)"
proof (induction ts)
  case (Cons t ts)
  show ?case
  proof (cases ts)
    case Nil
    then obtain l where "t = l @ [13]" using Cons.prems by (cases t rule: rev_cases) (auto simp: plainLine_def)
    then show ?thesis using Nil Cons.prems indexOf_endMark_end[of l Y] by (simp add: plainLine_def)
  next
    case (Cons u us)
    then have "take 2 (feedLines ts @ crlf @ Y) \<noteq> crlf"
      using Cons.prems(2) by (cases u; cases "tl u") (auto simp: plainLine_def)
    then have "indexOf endMark (t @ 10 # feedLines ts @ crlf @ Y)
        = map_option (\<lambda>i. i + length t + 1) (indexOf endMark (feedLines ts @ crlf @ Y))"
      using Cons.prems(2) by (intro indexOf_endMark_feed) (auto simp: plainLine_def)
    moreover have "indexOf endMark (feedLines ts @ crlf @ Y) = Some (length (feedLines ts) - 2)"
      using Cons.IH Cons.prems Cons by simp
    moreover have "2 \<le> length (feedLines ts)" using Cons Cons.prems(2) by (cases u) (auto simp: plainLine_def)
    ultimately show ?thesis by simp
  qed
qed simp

text \<open>
  A successful read: keepalives, lines of which none is blank, the blank line, and then the headers
  are finished on the rest.
\<close>

definition pongsSent :: "(nat \<Rightarrow> bool) option \<Rightarrow> nat \<Rightarrow> nat \<Rightarrow> bool" where
  "pongsSent pong lo hi \<longleftrightarrow> (\<forall>send. pong = Some send \<longrightarrow> (\<forall>i. lo \<le> i \<and> i < hi \<longrightarrow> send i))"

definition delivered where
  "delivered lo up pong leading header s p rest sent n \<longleftrightarrow>
    (\<exists>k ts blank s'. s = concat (replicate k crlf) @ feedLines ts @ blank @ s'
      \<and> (\<forall>t \<in> set ts. plainLine t) \<and> (blank = crlf \<or> blank = [10])
      \<and> (header \<noteq> [] \<longrightarrow> k = 0)
      \<and> length (header @ feedLines ts @ blank) \<le> maxSIPHeaderBytes
      \<and> finishHeaders lo up (header @ feedLines ts @ blank) s' = Inr (p, rest)
      \<and> n = sent + (if pong = None then 0 else (k + of_bool leading) div 2)
      \<and> pongsSent pong sent n)"

lemma packetLoop_delivers:
  "packetLoop lo up bufsize pong header leading sent s = (Inr (p, rest), n) \<Longrightarrow>
   delivered lo up pong leading header s p rest sent n"
proof (induction lo up bufsize pong header leading sent s rule: packetLoop.induct)
  case (1 lo up bufsize pong header leading sent s)
  note unfold = packetLoop.simps[of lo up bufsize pong header leading sent s]
  have room: "length header \<le> maxSIPHeaderBytes" using 1(4) unfold by (simp split: if_splits)
  then obtain line rest' where
    line: "readSIPLine bufsize (maxSIPHeaderBytes - length header) [] s = Inr (line, rest')"
    using 1(4) unfold by (auto split: sum.splits)
  obtain t where t: "s = t @ 10 # rest'" "10 \<notin> set t" "line = t @ [10]"
    and fits: "length header + length line \<le> maxSIPHeaderBytes"
    using readSIPLine_Inr[OF line] room by auto
  show ?case
  proof (cases "header = [] \<and> line = crlf")
    case True
    define skip where "skip = (if leading \<and> pong \<noteq> None then 1 else 0 :: nat)"
    have sends: "\<forall>send. pong = Some send \<longrightarrow> leading \<longrightarrow> send sent"
      using 1(4) unfold room line True by (auto split: if_splits)
    have "delivered lo up pong (\<not> leading) header rest' p rest (sent + skip) n"
    proof (cases "if leading then pong else None")
      case None
      then show ?thesis using 1(1)[OF room line refl True None] 1(4) unfold room line True
        by (auto simp: skip_def split: if_splits)
    next
      case (Some send)
      then have "send sent" using 1(4) unfold room line True by (auto split: if_splits)
      then show ?thesis using 1(2)[OF room line refl True Some] 1(4) unfold room line True Some
        by (auto simp: skip_def split: if_splits)
    qed
    then obtain k ts blank s' where *: "rest' = concat (replicate k crlf) @ feedLines ts @ blank @ s'"
      "\<forall>t \<in> set ts. plainLine t" "blank = crlf \<or> blank = [10]"
      "length (header @ feedLines ts @ blank) \<le> maxSIPHeaderBytes"
      "finishHeaders lo up (header @ feedLines ts @ blank) s' = Inr (p, rest)"
      "n = sent + skip + (if pong = None then 0 else (k + of_bool (\<not> leading)) div 2)"
      "pongsSent pong (sent + skip) n"
      unfolding delivered_def by blast
    have "n = sent + (if pong = None then 0 else (Suc k + of_bool leading) div 2)"
      using *(6) by (cases leading; cases pong) (auto simp: skip_def)
    moreover have "pongsSent pong sent n"
      unfolding pongsSent_def
    proof (intro allI impI, elim conjE)
      fix send i assume i: "pong = Some send" "sent \<le> i" "i < n"
      show "send i"
      proof (cases "sent + skip \<le> i")
        case True
        then show ?thesis using *(7) i by (simp add: pongsSent_def)
      next
        case False
        then have "i = sent" "leading" using i by (auto simp: skip_def split: if_splits)
        then show ?thesis using sends i by simp
      qed
    qed
    ultimately show ?thesis using *(1-5) t True unfolding delivered_def by (intro exI[of _ "Suc k"] exI[of _ ts] exI[of _ blank] exI[of _ s']) auto
  next
    case False
    show ?thesis
    proof (cases "line = crlf \<or> line = [10]")
      case True
      have "finishHeaders lo up (header @ line) rest' = Inr (p, rest)" "n = sent"
        using 1(4) unfold room line True False by auto
      then show ?thesis using t fits True unfolding delivered_def
        by (intro exI[of _ 0] exI[of _ "[]"] exI[of _ line] exI[of _ rest']) (auto simp: pongsSent_def)
    next
      case False2: False
      have "delivered lo up pong leading (header @ line) rest' p rest sent n"
        using 1(3)[OF room line refl False False2] 1(4) unfold room line False False2 by simp
      then obtain ts blank s' where *: "rest' = feedLines ts @ blank @ s'"
        "\<forall>t \<in> set ts. plainLine t" "blank = crlf \<or> blank = [10]"
        "length ((header @ line) @ feedLines ts @ blank) \<le> maxSIPHeaderBytes"
        "finishHeaders lo up ((header @ line) @ feedLines ts @ blank) s' = Inr (p, rest)"
        "n = sent + (if pong = None then 0 else (0 + of_bool leading) div 2)"
        "pongsSent pong sent n"
        using t by (auto simp: delivered_def)
      moreover have "plainLine t" using t False2 by (auto simp: plainLine_def)
      ultimately show ?thesis using t unfolding delivered_def
        by (intro exI[of _ 0] exI[of _ "t # ts"] exI[of _ blank] exI[of _ s']) auto
    qed
  qed
qed

lemma parseSIPHeaderBlockAny_length:
  "parseSIPHeaderBlockAny lo up block = Inr (p, n) \<Longrightarrow> n \<le> 2 ^ 20"
proof -
  assume "parseSIPHeaderBlockAny lo up block = Inr (p, n)"
  then obtain h where "contentLengthOf h = Inr n"
    by (auto simp: parseSIPHeaderBlockAny_def Let_def rbind_Inr_iff split: if_splits)
  then show ?thesis
    by (auto simp: contentLengthOf_def not_less split: option.splits list.splits if_splits)
qed

lemma setBody_Nil:
  "parseSIPHeaderBlockAny lo up block = Inr (p, n) \<Longrightarrow> setBody p [] = p"
  by (auto simp: parseSIPHeaderBlockAny_def Let_def rbind_Inr_iff startLine_def
      split: if_splits option.splits)

subsection \<open>Where the header ends\<close>

lemma hd_feedLines: "plainLine u \<Longrightarrow> \<exists>c X'. feedLines (u # us) @ X = c # X' \<and> c \<noteq> 10"
  by (cases u) (auto simp: plainLine_def)

lemma not_endMark_feedLines:
  assumes "\<forall>t \<in> set ts. plainLine t" "ts \<noteq> []" "\<not> (last (last ts) = 13 \<and> take 2 X = crlf)"
  shows "indexOf endMark (feedLines ts @ X) = map_option (\<lambda>i. i + length (feedLines ts)) (indexOf endMark X)"
  using assms
proof (induction ts)
  case (Cons t ts)
  show ?case
  proof (cases ts)
    case Nil
    then show ?thesis using Cons.prems indexOf_endMark_feed[of t X] by (simp add: plainLine_def)
  next
    case (Cons u us)
    have "take 2 (feedLines ts @ X) \<noteq> crlf"
      using Cons.prems(1) Cons by (cases u; cases "tl u") (auto simp: plainLine_def)
    then have "indexOf endMark (t @ 10 # feedLines ts @ X) = map_option (\<lambda>i. i + length t + 1) (indexOf endMark (feedLines ts @ X))"
      using Cons.prems(1) by (intro indexOf_endMark_feed) (auto simp: plainLine_def)
    then show ?thesis using Cons.IH Cons.prems Cons
      by (simp add: option.map_comp comp_def add_ac)
  qed
qed simp

lemma indexOf_lf_line:
  "10 \<notin> set t \<Longrightarrow> t \<noteq> [] \<Longrightarrow>
    indexOf [10, 10] (t @ 10 # X) = (if X \<noteq> [] \<and> hd X = 10 then Some (length t) else map_option (\<lambda>i. i + length t + 1) (indexOf [10, 10] X))"
proof (induction t)
  case (Cons c t)
  have base: "indexOf [10, 10] (10 # X) = (if X \<noteq> [] \<and> hd X = 10 then Some 0 else map_option Suc (indexOf [10, 10] X))"
    by (cases X) auto
  have c: "c \<noteq> 10" using Cons.prems by auto
  show ?case
  proof (cases "t = []")
    case True
    then show ?thesis using c base by (auto simp: option.map_comp comp_def)
  next
    case False
    then show ?thesis using Cons c by (auto simp: option.map_comp comp_def)
  qed
qed simp

lemma indexOf_lf_feedLines:
  "\<forall>t \<in> set ts. plainLine t \<Longrightarrow> ts \<noteq> [] \<Longrightarrow>
    indexOf [10, 10] (feedLines ts @ X) =
      (if X \<noteq> [] \<and> hd X = 10 then Some (length (feedLines ts) - 1)
       else map_option (\<lambda>i. i + length (feedLines ts)) (indexOf [10, 10] X))"
proof (induction ts)
  case (Cons t ts)
  show ?case
  proof (cases ts)
    case Nil
    then show ?thesis using Cons.prems indexOf_lf_line[of t X] by (simp add: plainLine_def)
  next
    case (Cons u us)
    obtain c X' where c: "feedLines ts @ X = c # X'" "c \<noteq> 10" using hd_feedLines[of u us X] Cons.prems(1) Cons by auto
    then have "indexOf [10, 10] (t @ 10 # feedLines ts @ X) = map_option (\<lambda>i. i + length t + 1) (indexOf [10, 10] (feedLines ts @ X))"
      using Cons.prems(1) by (subst indexOf_lf_line) (auto simp: plainLine_def)
    moreover have "0 < length (feedLines ts)" using Cons by simp
    ultimately show ?thesis using Cons.IH Cons.prems(1) Cons
      by (simp add: option.map_comp comp_def add_ac)
  qed
qed simp

text \<open>The header proper: the lines, the last one without its line end.\<close>

definition headerText :: "byte list list \<Rightarrow> byte list \<Rightarrow> byte list" where
  "headerText ts blank = feedLines (butlast ts) @ (if blank = crlf then butlast (last ts) else last ts)"

text \<open>A blank line fits the line before it when both end in CRLF, or when it is a line feed alone.\<close>

definition closes :: "byte list list \<Rightarrow> byte list \<Rightarrow> bool" where
  "closes ts blank \<longleftrightarrow> ts \<noteq> [] \<and> (blank = crlf \<and> last (last ts) = 13 \<or> blank = [10])"

lemma headerText_take:
  assumes "\<forall>t \<in> set ts. plainLine t" "closes ts blank"
  shows "headerText ts blank = take (length (feedLines ts) - length blank) (feedLines ts)"
    and "length blank \<le> length (feedLines ts)"
proof -
  obtain us u where ts: "ts = us @ [u]" using assms(2) by (cases ts rule: rev_cases) (auto simp: closes_def)
  obtain v x where u: "u = v @ [x]" using assms(1) ts by (cases u rule: rev_cases) (auto simp: plainLine_def)
  show "headerText ts blank = take (length (feedLines ts) - length blank) (feedLines ts)" "length blank \<le> length (feedLines ts)"
    using assms(2) ts u by (auto simp: headerText_def closes_def)
qed

lemma findHeaderEnd_feedLines:
  assumes ts: "\<forall>t \<in> set ts. plainLine t" and c: "closes ts blank"
    and Y: "blank = crlf \<or> indexOf endMark (feedLines ts @ blank @ Y) = None"
  shows "findHeaderEnd (feedLines ts @ blank @ Y) = Some (length (feedLines ts) - length blank, 2 * length blank)"
proof (cases "blank = crlf")
  case True
  then show ?thesis using indexOf_endMark_feedLines[of ts Y] ts c by (simp add: closes_def findHeaderEnd_def)
next
  case False
  then have "blank = [10]" using c by (simp add: closes_def)
  then show ?thesis using indexOf_lf_feedLines[OF ts, of "10 # Y"] c Y False by (simp add: closes_def findHeaderEnd_def)
qed

lemma findHeaderEnd_None:
  assumes ts: "\<forall>t \<in> set ts. plainLine t" and blank: "blank = crlf \<or> blank = [10]" and c: "\<not> closes ts blank"
  shows "findHeaderEnd (feedLines ts @ blank) = None"
proof (cases "ts = []")
  case True
  then show ?thesis using blank by (auto simp: findHeaderEnd_def)
next
  case False
  then have b: "blank = crlf" "last (last ts) \<noteq> 13" using blank c by (auto simp: closes_def)
  then have "indexOf endMark (feedLines ts @ crlf) = None" using not_endMark_feedLines[OF ts False, of crlf] by simp
  moreover have "indexOf [10, 10] (feedLines ts @ crlf) = None" using indexOf_lf_feedLines[OF ts False, of crlf] by simp
  ultimately show ?thesis by (simp add: findHeaderEnd_def b)
qed

lemma indexOf_blank: "closes ts blank \<Longrightarrow> \<forall>t \<in> set ts. plainLine t \<Longrightarrow> blank = crlf \<or> indexOf endMark (feedLines ts @ blank) = None"
  using not_endMark_feedLines[of ts "[10]"] by (auto simp: closes_def)

text \<open>
  A framed message: lines of which none is blank, the blank line that closes them within the limit, and as
  many bytes of body as the Content-Length of the header says.
\<close>

definition framed ::
    "(rune \<Rightarrow> rune) \<Rightarrow> (rune \<Rightarrow> rune) \<Rightarrow> byte list list \<Rightarrow> byte list \<Rightarrow> byte list \<Rightarrow> sipPacket \<Rightarrow> bool" where
  "framed lo up ts blank body p \<longleftrightarrow>
    (\<forall>t \<in> set ts. plainLine t) \<and> closes ts blank \<and> length (feedLines ts @ blank) \<le> maxSIPHeaderBytes \<and>
    length body \<le> 2 ^ 20 \<and>
    (\<exists>q. parseSIPHeaderBlockAny lo up (headerText ts blank) = Inr (q, length body) \<and> p = setBody q body)"

lemma finishHeaders_iff:
  assumes ts: "\<forall>t \<in> set ts. plainLine t" and blank: "blank = crlf \<or> blank = [10]"
    and len: "length (feedLines ts @ blank) \<le> maxSIPHeaderBytes"
  shows "finishHeaders lo up (feedLines ts @ blank) s = Inr (p, rest) \<longleftrightarrow>
    (\<exists>body. s = body @ rest \<and> framed lo up ts blank body p)"
proof (cases "closes ts blank")
  case False
  then show ?thesis using findHeaderEnd_None[OF ts blank] by (simp add: finishHeaders_def framed_def)
next
  case True
  have "findHeaderEnd (feedLines ts @ blank) = Some (length (feedLines ts) - length blank, 2 * length blank)"
    using findHeaderEnd_feedLines[OF ts True, of "[]"] indexOf_blank[OF True ts] by auto
  moreover have "take (length (feedLines ts) - length blank) (feedLines ts @ blank) = headerText ts blank"
    using headerText_take[OF ts True] by simp
  ultimately have fin: "finishHeaders lo up (feedLines ts @ blank) s =
      rbind (parseSIPHeaderBlockAny lo up (headerText ts blank)) (\<lambda>(q, n).
        if n > 0 then rbind (readBody n s) (\<lambda>(body, rest). Inr (setBody q body, rest)) else Inr (q, s))"
    by (simp add: finishHeaders_def)
  show ?thesis
  proof
    assume "finishHeaders lo up (feedLines ts @ blank) s = Inr (p, rest)"
    then obtain q n where q: "parseSIPHeaderBlockAny lo up (headerText ts blank) = Inr (q, n)"
      and k: "(if n > 0 then rbind (readBody n s) (\<lambda>(body, rest). Inr (setBody q body, rest)) else Inr (q, s)) = Inr (p, rest)"
      by (auto simp: fin rbind_Inr_iff)
    then have "n \<le> length s" "p = setBody q (take n s)" "rest = drop n s"
      using setBody_Nil[OF q] by (auto simp: readBody_def rbind_Inr_iff not_less split: if_splits)
    then show "\<exists>body. s = body @ rest \<and> framed lo up ts blank body p"
      using q ts True len parseSIPHeaderBlockAny_length[OF q] by (intro exI[of _ "take n s"]) (auto simp: framed_def)
  next
    assume "\<exists>body. s = body @ rest \<and> framed lo up ts blank body p"
    then obtain body q where s: "s = body @ rest" and q: "parseSIPHeaderBlockAny lo up (headerText ts blank) = Inr (q, length body)"
      and p: "p = setBody q body" by (auto simp: framed_def)
    show "finishHeaders lo up (feedLines ts @ blank) s = Inr (p, rest)"
      unfolding fin unfolding q s p rbind.simps prod.case using setBody_Nil[OF q] by (cases body) (simp_all add: readBody_def)
  qed
qed

subsection \<open>A framed message is read\<close>

lemma packetLoop_feed:
  assumes "\<forall>t \<in> set ts. plainLine t" "blank = crlf \<or> blank = [10]" "header \<noteq> [] \<or> ts \<noteq> []"
    "length header + length (feedLines ts @ blank) \<le> maxSIPHeaderBytes"
  shows "packetLoop lo up bufsize pong header leading sent (feedLines ts @ blank @ s)
    = (finishHeaders lo up (header @ feedLines ts @ blank) s, sent)"
  using assms
proof (induction ts arbitrary: header)
  case Nil
  obtain v where v: "blank = v @ [10]" "v = [] \<or> v = [13]" using Nil(2) by fastforce
  have "readSIPLine bufsize (maxSIPHeaderBytes - length header) [] (v @ 10 # s) = Inr ([] @ v @ [10], s)"
    using Nil v by (intro readSIPLine_line) auto
  then show ?case using Nil v by (subst packetLoop.simps) auto
next
  case (Cons t ts)
  have t: "10 \<notin> set t" "t @ [10] \<noteq> crlf" "t @ [10] \<noteq> [10]" using Cons.prems(1) by (auto simp: plainLine_def)
  have "readSIPLine bufsize (maxSIPHeaderBytes - length header) [] (t @ 10 # feedLines ts @ blank @ s)
      = Inr ([] @ t @ [10], feedLines ts @ blank @ s)"
    using Cons.prems t by (intro readSIPLine_line) auto
  then have "packetLoop lo up bufsize pong header leading sent (feedLines (t # ts) @ blank @ s)
      = packetLoop lo up bufsize pong (header @ t @ [10]) leading sent (feedLines ts @ blank @ s)"
    using Cons.prems(4) t by (subst packetLoop.simps) simp
  then show ?case using Cons.IH[of "header @ t @ [10]"] Cons.prems by simp
qed

lemma packetLoop_keepalives:
  assumes "pongsSent pong sent (sent + (k + of_bool leading) div 2)"
  shows "packetLoop lo up bufsize pong [] leading sent (concat (replicate k crlf) @ s)
    = packetLoop lo up bufsize pong [] (leading \<noteq> odd k)
        (sent + (if pong = None then 0 else (k + of_bool leading) div 2)) s"
  using assms
proof (induction k arbitrary: leading sent)
  case (Suc k)
  let ?s = "concat (replicate k crlf) @ s"
  have "readSIPLine bufsize maxSIPHeaderBytes [] ([13] @ 10 # ?s) = Inr ([] @ [13] @ [10], ?s)"
    by (intro readSIPLine_line) (auto simp: maxSIPHeaderBytes_def)
  then have line: "readSIPLine bufsize maxSIPHeaderBytes [] (concat (replicate (Suc k) crlf) @ s) = Inr (crlf, ?s)" by simp
  show ?case
  proof (cases "if leading then pong else None")
    case None
    then have "packetLoop lo up bufsize pong [] leading sent (concat (replicate (Suc k) crlf) @ s)
        = packetLoop lo up bufsize pong [] (\<not> leading) sent ?s"
      using line by (subst packetLoop.simps) simp
    moreover have "pongsSent pong sent (sent + (k + of_bool (\<not> leading)) div 2)"
      using Suc.prems None by (auto simp: pongsSent_def split: if_splits)
    ultimately show ?thesis using Suc.IH[of sent "\<not> leading"] None by (auto split: if_splits)
  next
    case (Some send)
    then have l: "leading" "pong = Some send" by (auto split: if_splits)
    then have "send sent" using Suc.prems by (simp add: pongsSent_def)
    then have "packetLoop lo up bufsize pong [] leading sent (concat (replicate (Suc k) crlf) @ s)
        = packetLoop lo up bufsize pong [] (\<not> leading) (sent + 1) ?s"
      using line Some by (subst packetLoop.simps) simp
    moreover have "pongsSent pong (sent + 1) (sent + 1 + (k + of_bool (\<not> leading)) div 2)"
      using Suc.prems l by (auto simp: pongsSent_def)
    ultimately show ?thesis using Suc.IH[of "sent + 1" "\<not> leading"] l by simp
  qed
qed simp

text \<open>
  C24: The TCP reader delivers a message exactly when the stream is framed that way. It returns p with rest
  left over if and only if the stream is some keepalives, then lines of which none is blank, the blank line
  that closes them (CRLF after a line that ends in CRLF, or LF alone) within the header limit, and then rest
  after as many bytes of body as the Content-Length of that header says, at most 1 MiB; p is what the
  header parses to, with that body; and every second keepalive was answered by one pong that was sent. The
  datagram parser reads the same message from the same bytes, unless the header ends in LF LF while its body
  contains CRLF CRLF.
\<close>

theorem sip_stream_framing:
  shows "(readSIPPacket lo up bufsize pong s = (Inr (p, rest), pongs) \<longleftrightarrow>
      (\<exists>k ts blank body. s = concat (replicate k crlf) @ feedLines ts @ blank @ body @ rest
        \<and> framed lo up ts blank body p
        \<and> pongs = (if pong = None then 0 else k div 2)
        \<and> pongsSent pong 0 pongs))
    \<and> (framed lo up ts blank body p \<longrightarrow> blank = crlf \<or> indexOf (crlf @ crlf) (feedLines ts @ blank @ body) = None \<longrightarrow>
        parseSIPPacket lo up (feedLines ts @ blank @ body) = Inr p)"
proof (intro conjI iffI impI)
  assume "readSIPPacket lo up bufsize pong s = (Inr (p, rest), pongs)"
  then have "delivered lo up pong False [] s p rest 0 pongs"
    by (intro packetLoop_delivers) (simp add: readSIPPacket_def)
  then obtain k ts blank s' where s: "s = concat (replicate k crlf) @ feedLines ts @ blank @ s'"
    and ts: "\<forall>t \<in> set ts. plainLine t" and blank: "blank = crlf \<or> blank = [10]"
    and len: "length (feedLines ts @ blank) \<le> maxSIPHeaderBytes"
    and fin: "finishHeaders lo up (feedLines ts @ blank) s' = Inr (p, rest)"
    and n: "pongs = 0 + (if pong = None then 0 else (k + of_bool False) div 2)"
    and sends: "pongsSent pong 0 pongs"
    unfolding delivered_def append_Nil by blast
  obtain body where "s' = body @ rest" "framed lo up ts blank body p"
    using fin finishHeaders_iff[OF ts blank len] by blast
  then show "\<exists>k ts blank body. s = concat (replicate k crlf) @ feedLines ts @ blank @ body @ rest
        \<and> framed lo up ts blank body p
        \<and> pongs = (if pong = None then 0 else k div 2)
        \<and> pongsSent pong 0 pongs"
    using s n sends by (intro exI[of _ k] exI[of _ ts] exI[of _ blank] exI[of _ body]) auto
next
  assume "\<exists>k ts blank body. s = concat (replicate k crlf) @ feedLines ts @ blank @ body @ rest
        \<and> framed lo up ts blank body p
        \<and> pongs = (if pong = None then 0 else k div 2)
        \<and> pongsSent pong 0 pongs"
  then obtain k ts blank body where s: "s = concat (replicate k crlf) @ feedLines ts @ blank @ body @ rest"
    and f: "framed lo up ts blank body p" and n: "pongs = (if pong = None then 0 else k div 2)"
    and sends: "pongsSent pong 0 pongs" by blast
  have ts: "\<forall>t \<in> set ts. plainLine t" "ts \<noteq> []" and blank: "blank = crlf \<or> blank = [10]"
    and len: "length (feedLines ts @ blank) \<le> maxSIPHeaderBytes"
    using f by (auto simp: framed_def closes_def)
  have "packetLoop lo up bufsize pong [] False 0 s =
      packetLoop lo up bufsize pong [] (False \<noteq> odd k) pongs (feedLines ts @ blank @ body @ rest)"
    unfolding s using sends n packetLoop_keepalives[of pong 0 k False]
    by (cases "pong = None") (auto simp: pongsSent_def)
  also have "\<dots> = (finishHeaders lo up (feedLines ts @ blank) (body @ rest), pongs)"
    using packetLoop_feed[OF ts(1) blank, of "[]"] ts(2) len by simp
  also have "finishHeaders lo up (feedLines ts @ blank) (body @ rest) = Inr (p, rest)"
    using finishHeaders_iff[OF ts(1) blank len] f by blast
  finally show "readSIPPacket lo up bufsize pong s = (Inr (p, rest), pongs)" by (simp add: readSIPPacket_def)
next
  assume f: "framed lo up ts blank body p" and b: "blank = crlf \<or> indexOf (crlf @ crlf) (feedLines ts @ blank @ body) = None"
  obtain q where ts: "\<forall>t \<in> set ts. plainLine t" "closes ts blank" and len: "length (feedLines ts @ blank) \<le> maxSIPHeaderBytes"
    and q: "parseSIPHeaderBlockAny lo up (headerText ts blank) = Inr (q, length body)" "p = setBody q body"
    using f by (auto simp: framed_def)
  have "findHeaderEnd (feedLines ts @ blank @ body) = Some (length (feedLines ts) - length blank, 2 * length blank)"
    using findHeaderEnd_feedLines[OF ts] b by simp
  then show "parseSIPPacket lo up (feedLines ts @ blank @ body) = Inr p"
    using headerText_take[OF ts] len q by (simp add: parseSIPPacket_def Let_def)
qed

subsection \<open>A message of header lines\<close>

definition lineText :: "gostring \<Rightarrow> bool" where
  "lineText t \<longleftrightarrow> (\<forall>r \<in> set t. scalar r \<and> r \<noteq> 10 \<and> r \<noteq> 13)"

definition headerOk :: "gostring \<times> gostring \<Rightarrow> bool" where
  "headerOk nv \<longleftrightarrow> (case nv of (n, v) \<Rightarrow>
     lineText n \<and> lineText v \<and> n \<noteq> [] \<and> 58 \<notin> set n \<and> TrimSpace n = n \<and> TrimSpace v = v)"

definition headerLine :: "gostring \<times> gostring \<Rightarrow> gostring" where
  "headerLine nv = (case nv of (n, v) \<Rightarrow> n @ [58, 32] @ v)"

definition messageBytes :: "gostring \<Rightarrow> (gostring \<times> gostring) list \<Rightarrow> byte list \<Rightarrow> byte list" where
  "messageBytes start hs body = wireLines (map bytesOf (start # map headerLine hs)) @ crlf @ body"

definition headersOf :: "(rune \<Rightarrow> rune) \<Rightarrow> headers \<Rightarrow> (gostring \<times> gostring) list \<Rightarrow> headers" where
  "headersOf lo h hs = foldl (\<lambda>h (n, v). addHeader h (canonicalName (ToLower lo n)) v) h hs"

lemma lineText_append [simp]: "lineText (s @ t) \<longleftrightarrow> lineText s \<and> lineText t"
  by (auto simp: lineText_def)

lemma lineText_headerLine: "headerOk nv \<Longrightarrow> lineText (headerLine nv)"
  by (auto simp: headerOk_def headerLine_def lineText_def scalar_def split: prod.splits)

lemma bytesOf_plain: "lineText t \<Longrightarrow> 10 \<notin> set (bytesOf t)"
  using runeBytes_plain by (induction t) (auto simp: lineText_def)

lemma bytesOf_ascii: "\<forall>r \<in> set t. r < 128 \<Longrightarrow> bytesOf t = map word_of_nat t"
  by (induction t) (auto simp: runeBytes_ascii)

lemma runeBytes_not_Nil [simp]: "runeBytes r \<noteq> []"
  by (simp add: runeBytes_def)

lemma bytesOf_not_cr: "lineText t \<Longrightarrow> bytesOf t \<noteq> [13]"
proof
  assume t: "lineText t" and eq: "bytesOf t = [13]"
  have "textOf (bytesOf t) = t" using t by (intro textOf_bytesOf) (auto simp: lineText_def)
  then have "t = [13]" by (simp add: eq)
  then show False using t by (simp add: lineText_def)
qed

lemma plainLine_bytesOf: "lineText t \<Longrightarrow> t \<noteq> [] \<Longrightarrow> plainLine (bytesOf t)"
  using bytesOf_plain[of t] bytesOf_not_cr[of t] by (cases t) (auto simp: plainLine_def)

text \<open>The text of the block: the lines come back.\<close>

lemma unixLines_line: "13 \<notin> set t \<Longrightarrow> unixLines (t @ 13 # 10 # s) = t @ 10 # unixLines s"
proof (induction t)
  case (Cons c t)
  then show ?case by (cases t) auto
qed simp

lemma unixLines_plain: "13 \<notin> set t \<Longrightarrow> unixLines t = t"
  by (induction t rule: unixLines.induct) auto

lemma splitOn_unixLines:
  "ls \<noteq> [] \<Longrightarrow> \<forall>t \<in> set ls. lineText t \<Longrightarrow> splitOn 10 (unixLines (joinWith [13, 10] ls)) = ls"
proof (induction ls rule: induct_list012)
  case (2 t)
  then have "13 \<notin> set t" "10 \<notin> set t" by (auto simp: lineText_def)
  then show ?case by (simp add: splitOn_plain unixLines_plain)
next
  case (3 t u ts)
  then have "13 \<notin> set t" "10 \<notin> set t" by (auto simp: lineText_def)
  then show ?case using 3 by (simp add: unixLines_line splitOn_append)
qed simp

lemma wireLines_bytesOf:
  "ls \<noteq> [] \<Longrightarrow> wireLines (map bytesOf ls) = bytesOf (joinWith [13, 10] ls) @ crlf"
proof (induction ls rule: induct_list012)
  case (3 t u ts)
  then show ?case by (simp add: runeBytes_ascii)
qed simp_all

lemma lineText_join: "\<forall>t \<in> set ls. lineText t \<Longrightarrow> \<forall>r \<in> set (joinWith [13, 10] ls). scalar r"
proof (induction ls rule: induct_list012)
  case (3 t u ts)
  then have "\<forall>r \<in> set (joinWith [13, 10] (u # ts)). scalar r" by simp
  moreover have "scalar 13" "scalar 10" by (simp_all add: scalar_def)
  ultimately show ?case using 3(3) by (auto simp: lineText_def)
qed (simp_all add: lineText_def)

lemma unfoldLines_plain:
  "\<forall>t \<in> set ls. t \<noteq> [] \<and> \<not> isSpace (hd t) \<Longrightarrow> unfoldLines acc ls = acc @ ls"
  by (induction ls arbitrary: acc) (auto simp: isSpace_def)

lemma TrimSpace_hd: "TrimSpace n = n \<Longrightarrow> n \<noteq> [] \<Longrightarrow> \<not> isSpace (hd n)"
proof -
  assume eq: "TrimSpace n = n" and ne: "n \<noteq> []"
  define t where "t = dropWhile isSpace n"
  have "length (TrimSpace n) \<le> length t"
    by (simp add: TrimSpace_def t_def) (metis length_dropWhile_le length_rev)
  moreover have "length n = length (takeWhile isSpace n) + length t"
    by (simp add: t_def flip: length_append)
  ultimately have "takeWhile isSpace n = []" using eq by simp
  then show "\<not> isSpace (hd n)" using ne by (cases n) (auto split: if_splits)
qed

lemma headerLine_ok:
  assumes "headerOk nv"
  shows "headerLine nv \<noteq> [] \<and> \<not> isSpace (hd (headerLine nv))"
  using assms TrimSpace_hd by (auto simp: headerOk_def headerLine_def split: prod.splits)

lemma ToLower_not_Nil [simp]: "ToLower lo s = [] \<longleftrightarrow> s = []"
  by (simp add: ToLower_def)

lemma parseHeaderLines_ok:
  "\<forall>nv \<in> set hs. headerOk nv \<Longrightarrow> parseHeaderLines lo h (map headerLine hs) = Inr (headersOf lo h hs)"
proof (induction hs arbitrary: h)
  case (Cons nv hs)
  obtain n v where nv: "nv = (n, v)" by fastforce
  have "Cut 58 (n @ 58 # 32 # v) = Some (n, 32 # v)" "TrimSpace (32 # v) = v"
    using Cons.prems nv by (auto simp: headerOk_def Cut_append TrimSpace_lead isSpace_def)
  then show ?case using Cons nv by (simp add: headerLine_def headerOk_def headersOf_def Let_def)
qed (simp add: headersOf_def)

lemma parse_message:
  assumes start: "lineText start" "start \<noteq> []" "Fields (TrimSpace start) = toks" "2 \<le> length toks"
    and hs: "\<forall>nv \<in> set hs. headerOk nv"
  shows "parseSIPHeaderBlockAny lo up (bytesOf (joinWith [13, 10] (start # map headerLine hs)))
    = (let h = headersOf lo Map.empty hs in
       rbind (contentLengthOf h) (\<lambda>n. rbind (startLine up toks h) (\<lambda>p. Inr (p, n))))"
proof -
  define ls where "ls = start # map headerLine hs"
  have ok: "\<forall>t \<in> set ls. lineText t" using start hs lineText_headerLine by (auto simp: ls_def)
  have "textOf (bytesOf (joinWith [13, 10] ls)) = joinWith [13, 10] ls"
    by (rule textOf_bytesOf[OF lineText_join[OF ok]])
  then have split: "splitOn 10 (unixLines (textOf (bytesOf (joinWith [13, 10] ls)))) = ls"
    using splitOn_unixLines[OF _ ok] by (simp add: ls_def)
  have "unfoldLines [] (map headerLine hs) = map headerLine hs"
    using headerLine_ok hs by (subst unfoldLines_plain) auto
  then show ?thesis using split start parseHeaderLines_ok[OF hs, of lo Map.empty]
    by (simp add: parseSIPHeaderBlockAny_def Let_def ls_def[symmetric]) (simp add: ls_def)
qed

text \<open>Both readers on a message of header lines with its body.\<close>

lemma message_read:
  assumes start: "lineText start" "start \<noteq> []" "Fields (TrimSpace start) = toks" "2 \<le> length toks"
    and hs: "\<forall>nv \<in> set hs. headerOk nv"
    and len: "length (messageBytes start hs []) \<le> maxSIPHeaderBytes"
    and clen: "contentLengthOf (headersOf lo Map.empty hs) = Inr (length body)"
    and p: "startLine up toks (headersOf lo Map.empty hs) = Inr p"
  shows "parseSIPPacket lo up (messageBytes start hs body) = Inr (setBody p body)"
    and "readSIPPacket lo up bufsize pong (messageBytes start hs body @ rest) = (Inr (setBody p body, rest), 0)"
proof -
  define ts where "ts = start # map headerLine hs"
  have ok: "\<forall>t \<in> set ts. lineText t \<and> t \<noteq> []"
    using start hs lineText_headerLine headerLine_ok by (auto simp: ts_def)
  then have ls: "map bytesOf ts \<noteq> []" "\<forall>l \<in> set (map bytesOf ts). plainLine l"
    using plainLine_bytesOf by (auto simp: ts_def)
  have wire: "wireLines (map bytesOf ts) = bytesOf (joinWith [13, 10] ts) @ crlf"
    by (rule wireLines_bytesOf) (simp add: ts_def)
  note header = findHeaderEnd_lines[OF ls]
  have block: "parseSIPHeaderBlockAny lo up (bytesOf (joinWith [13, 10] ts)) = Inr (p, length body)"
    using parse_message[OF start hs, of lo up] clen p by (simp add: ts_def Let_def)
  have size: "length (wireLines (map bytesOf ts)) + 2 \<le> maxSIPHeaderBytes"
    using len by (simp add: messageBytes_def ts_def)
  have wide: "2 \<le> length (wireLines (map bytesOf ts))" by (simp add: wire)
  have nil: "setBody p [] = p" using p by (auto simp: startLine_def split: if_splits option.splits)
  have msg: "messageBytes start hs body = wireLines (map bytesOf ts) @ crlf @ body"
    by (simp add: messageBytes_def ts_def)
  show "parseSIPPacket lo up (messageBytes start hs body) = Inr (setBody p body)"
    using header[of body] wire block size by (simp add: msg parseSIPPacket_def Let_def)
  have "finishHeaders lo up (wireLines (map bytesOf ts) @ crlf) (body @ rest) = Inr (setBody p body, rest)"
    using header[of "[]"] wire block nil
    by (cases body) (simp_all add: finishHeaders_def readBody_def)
  then show "readSIPPacket lo up bufsize pong (messageBytes start hs body @ rest) = (Inr (setBody p body, rest), 0)"
    using readSIPPacket_lines[OF ls(2,1) size, of lo up bufsize pong "body @ rest"] by (simp add: msg)
qed

subsection \<open>A sample stream\<close>

lemma sample_stream_read:
  "readSIPPacket (\<lambda>r. r) (\<lambda>r. r) 4096 None (messageBytes (runes ''A b SIP/2.0'') [] [] @ [88])
    = (Inr (Request \<lparr>Method = runes ''A'', URI = runes ''b'', reqHeaders = Map.empty, reqBody = []\<rparr>, [88]), 0)"
proof -
  define start where "start = runes ''A b SIP/2.0''"
  define toks where "toks = [runes ''A'', runes ''b'', runes ''SIP/2.0'']"
  have "TrimSpace start = start" by (rule TrimSpace_ends) (simp_all add: start_def isSpace_def)
  then have toks: "Fields (TrimSpace start) = toks"
    by (simp add: start_def toks_def Fields.simps isSpace_def)
  have "lineText start" "start \<noteq> []" by (simp_all add: start_def lineText_def scalar_def)
  note read = message_read(2)[OF this toks, where hs = "[]" and body = "[]" and lo = "\<lambda>r. r" and up = "\<lambda>r. r"]
  have "length (messageBytes start [] []) \<le> maxSIPHeaderBytes"
    by (simp add: messageBytes_def start_def maxSIPHeaderBytes_def runeBytes_ascii)
  moreover have "contentLengthOf (headersOf (\<lambda>r. r) Map.empty []) = Inr (length ([] :: byte list))"
    by (simp add: headersOf_def contentLengthOf_def)
  moreover have "startLine (\<lambda>r. r) toks (headersOf (\<lambda>r. r) Map.empty [])
      = Inr (Request \<lparr>Method = runes ''A'', URI = runes ''b'', reqHeaders = Map.empty, reqBody = []\<rparr>)"
    by (simp add: startLine_def toks_def headersOf_def EqualFold_def foldRune_def ToUpper_def upperRune_def)
  ultimately show ?thesis using read[of _ 4096 None "[88]"] unfolding start_def[symmetric] by (simp add: toks_def)
qed

theorem sip_stream_framing_witness:
  "\<exists>k ts blank body p. messageBytes (runes ''A b SIP/2.0'') [] [] @ [88] = concat (replicate k crlf) @ feedLines ts @ blank @ body @ [88]
    \<and> framed (\<lambda>r. r) (\<lambda>r. r) ts blank body p
    \<and> (blank = crlf \<longrightarrow> parseSIPPacket (\<lambda>r. r) (\<lambda>r. r) (feedLines ts @ blank @ body) = Inr p)"
proof -
  obtain k ts blank body where f: "messageBytes (runes ''A b SIP/2.0'') [] [] @ [88] = concat (replicate k crlf) @ feedLines ts @ blank @ body @ [88]"
    "framed (\<lambda>r. r) (\<lambda>r. r) ts blank body
      (Request \<lparr>Method = runes ''A'', URI = runes ''b'', reqHeaders = Map.empty, reqBody = []\<rparr>)"
    using sip_stream_framing[THEN conjunct1, THEN iffD1, OF sample_stream_read] by blast
  moreover from f(2) have "blank = crlf \<Longrightarrow> parseSIPPacket (\<lambda>r. r) (\<lambda>r. r) (feedLines ts @ blank @ body) =
      Inr (Request \<lparr>Method = runes ''A'', URI = runes ''b'', reqHeaders = Map.empty, reqBody = []\<rparr>)"
    by (intro sip_stream_framing[THEN conjunct2, rule_format]) simp_all
  ultimately show ?thesis by blast
qed

end
