(* ===== verification/SipBuild_Props.thy ===== *)
theory SipBuild_Props
  imports SipBuild Sip_Props
begin

text \<open>
  A response the client builds is read back, by both readers, as the message it was built from: no
  header value can end its line, and the length of the body is the one announced.
\<close>

subsection \<open>Looking up a header\<close>

definition valuesOf :: "(rune \<Rightarrow> rune) \<Rightarrow> (gostring \<times> gostring) list \<Rightarrow> gostring \<Rightarrow> gostring list" where
  "valuesOf lo hs k = map snd (filter (\<lambda>(n, v). canonicalName (ToLower lo n) = k) hs)"

lemma valuesOf_simps [simp]:
  "valuesOf lo [] k = []"
  "valuesOf lo ((n, v) # hs) k = (if canonicalName (ToLower lo n) = k then v # valuesOf lo hs k else valuesOf lo hs k)"
  "valuesOf lo (gs @ hs) k = valuesOf lo gs k @ valuesOf lo hs k"
  by (simp_all add: valuesOf_def)

lemma headersOf_lookup:
  "headersOf lo h hs k = (if valuesOf lo hs k = [] then h k
     else Some ((case h k of Some vs \<Rightarrow> vs | None \<Rightarrow> []) @ valuesOf lo hs k))"
proof (induction hs arbitrary: h)
  case (Cons nv hs)
  obtain n v where nv: "nv = (n, v)" by fastforce
  define c where "c = canonicalName (ToLower lo n)"
  define g where "g = addHeader h c v"
  have "headersOf lo h (nv # hs) k = headersOf lo g hs k"
    by (simp add: headersOf_def nv g_def c_def)
  also have "\<dots> = (if valuesOf lo hs k = [] then g k
      else Some ((case g k of Some vs \<Rightarrow> vs | None \<Rightarrow> []) @ valuesOf lo hs k))"
    by (rule Cons)
  finally show ?case by (simp add: nv g_def addHeader_def flip: c_def)
qed (simp add: headersOf_def)

lemma headerValues_headersOf:
  "headerValues lo (headersOf lo Map.empty hs) name = valuesOf lo hs (ToLower lo (TrimSpace name))"
  by (simp add: headerValues_def headersOf_lookup)

lemma valuesOf_same: "valuesOf lo (map (Pair n) vs) k = (if canonicalName (ToLower lo n) = k then vs else [])"
  by (induction vs) auto

lemma valuesOf_other: "\<forall>(n, v) \<in> set hs. canonicalName (ToLower lo n) \<noteq> k \<Longrightarrow> valuesOf lo hs k = []"
  by (auto simp: valuesOf_def filter_empty_conv)

subsection \<open>Header lines\<close>

definition cleanValue :: "gostring \<Rightarrow> bool" where
  "cleanValue v \<longleftrightarrow> lineText v \<and> TrimSpace v = v"

lemma joinWith_lines:
  "ls \<noteq> [] \<Longrightarrow> bytesOf (joinWith [13, 10] (ls @ [[], []])) = wireLines (map bytesOf ls) @ crlf"
proof (induction ls rule: induct_list012)
  case (3 t u ts)
  then show ?case by (simp add: runeBytes_ascii)
qed (simp_all add: runeBytes_ascii)

text \<open>A header name as an atom: two names are compared as strings.\<close>

definition hdr :: "string \<Rightarrow> gostring" where
  "hdr n = runes n"

lemma hdr_eq_iff [simp]: "hdr a = hdr b \<longleftrightarrow> a = b"
  by (auto simp: hdr_def inj_map_eq_map inj_on_def)

abbreviation named :: "string \<Rightarrow> gostring \<Rightarrow> gostring \<times> gostring" where
  "named n v \<equiv> (hdr n, v)"

definition asciiName :: "string \<Rightarrow> bool" where
  "asciiName n \<longleftrightarrow> n \<noteq> [] \<and> (\<forall>c \<in> set n. 33 \<le> (of_char c :: nat) \<and> (of_char c :: nat) < 127 \<and> of_char c \<noteq> (58 :: nat))"

lemma fieldLine_named: "fieldLine n v = headerLine (named n v)"
  by (simp add: fieldLine_def headerLine_def hdr_def)

lemma printable_not_space: "33 \<le> r \<and> r < 127 \<and> r \<noteq> 58 \<Longrightarrow> \<not> isSpace r"
  by (auto simp: isSpace_def)

lemma headerOk_named: "asciiName n \<Longrightarrow> cleanValue v \<Longrightarrow> headerOk (named n v)"
proof -
  assume n: "asciiName n" and v: "cleanValue v"
  have r: "33 \<le> r \<and> r < 127 \<and> r \<noteq> 58" if "r \<in> set (hdr n)" for r
    using n that by (auto simp: asciiName_def hdr_def)
  have "TrimSpace (hdr n) = hdr n"
    using r by (intro TrimSpace_no_space ballI) (meson printable_not_space)
  moreover have "lineText (hdr n)" "58 \<notin> set (hdr n)"
    using r unfolding lineText_def scalar_def by fastforce+
  ultimately show ?thesis using n v by (simp add: headerOk_def asciiName_def cleanValue_def hdr_def)
qed

lemma last_responseLine: "reason \<noteq> [] \<Longrightarrow> last (responseLine status reason) = last reason"
  by (simp add: responseLine_def)

lemma responseLine_fields:
  "callReason status \<noteq> [] \<Longrightarrow>
   Fields (TrimSpace (responseLine status (callReason status))) =
     runes ''SIP/2.0'' # Itoa status # Fields (callReason status)
   \<and> joinWith [32] (Fields (callReason status)) = callReason status
   \<and> lineText (responseLine status (callReason status)) \<and> 100 \<le> status \<and> status \<le> 699"
proof -
  assume "callReason status \<noteq> []"
  then have st: "status \<in> {180, 200, 481, 486, 487, 488}"
    by (auto simp: callReason_def split: if_splits option.splits)
  have reason: "\<not> isSpace (last (callReason status)) \<and> lineText (callReason status)
      \<and> joinWith [32] (Fields (callReason status)) = callReason status"
    using st by (elim insertE emptyE; hypsubst;
      simp add: callReason_def isSpace_def lineText_def scalar_def Fields.simps)
  have digits: "\<forall>r \<in> set (Itoa status). \<not> isSpace r" "lineText (Itoa status)"
    by (auto simp: isSpace_def lineText_def scalar_def dest!: Itoa_range)
  have "TrimSpace (responseLine status (callReason status)) = responseLine status (callReason status)"
    using \<open>callReason status \<noteq> []\<close> reason
    by (intro TrimSpace_ends) (simp_all add: last_responseLine, simp_all add: responseLine_def isSpace_def)
  moreover have "responseLine status (callReason status)
      = runes ''SIP/2.0'' @ 32 # Itoa status @ 32 # callReason status"
    by (simp add: responseLine_def)
  moreover have "Fields (runes ''SIP/2.0'' @ 32 # Itoa status @ 32 # callReason status)
      = runes ''SIP/2.0'' # Fields (Itoa status @ 32 # callReason status)"
    by (rule Fields_Cons) (simp_all add: isSpace_def)
  moreover have "Fields (Itoa status @ 32 # callReason status) = Itoa status # Fields (callReason status)"
    using digits by (intro Fields_Cons) (simp_all add: isSpace_def)
  moreover have "lineText (runes ''SIP/2.0'' @ 32 # Itoa status @ 32 # callReason status)"
    using digits reason by (auto simp: lineText_def scalar_def)
  ultimately show ?thesis using reason st by auto
qed

subsection \<open>The response comes back\<close>

definition mandatory :: "gostring list" where
  "mandatory = [hdr ''via'', hdr ''from'', hdr ''to'', hdr ''call-id'', hdr ''cseq'', hdr ''content-length'']"

definition otherHeader :: "(rune \<Rightarrow> rune) \<Rightarrow> gostring \<times> gostring \<Rightarrow> bool" where
  "otherHeader lo nv \<longleftrightarrow> headerOk nv \<and> canonicalName (ToLower lo (fst nv)) \<notin> set mandatory"

definition responseHeaders ::
    "gostring list \<Rightarrow> gostring \<Rightarrow> gostring \<Rightarrow> gostring \<Rightarrow> gostring \<Rightarrow> (gostring \<times> gostring) list \<Rightarrow> nat \<Rightarrow>
     (gostring \<times> gostring) list" where
  "responseHeaders via from to callID cseq others n =
    map (Pair (hdr ''Via'')) via
    @ [named ''From'' from, named ''To'' to, named ''Call-ID'' callID, named ''CSeq'' cseq]
    @ others @ [named ''Content-Length'' (Itoa n)]"

lemma canonical_names:
  "canonicalName (ToLower lo (hdr ''Via'')) = hdr ''via''"
  "canonicalName (ToLower lo (hdr ''From'')) = hdr ''from''"
  "canonicalName (ToLower lo (hdr ''To'')) = hdr ''to''"
  "canonicalName (ToLower lo (hdr ''Call-ID'')) = hdr ''call-id''"
  "canonicalName (ToLower lo (hdr ''CSeq'')) = hdr ''cseq''"
  "canonicalName (ToLower lo (hdr ''Content-Length'')) = hdr ''content-length''"
  by (simp_all add: hdr_def ToLower_def lowerRune_def canonicalName_def)

lemma canonical_others:
  "canonicalName (ToLower lo (hdr ''Supported'')) = hdr ''supported''"
  "canonicalName (ToLower lo (hdr ''Session-Expires'')) = hdr ''session-expires''"
  "canonicalName (ToLower lo (hdr ''Require'')) = hdr ''require''"
  "canonicalName (ToLower lo (hdr ''Record-Route'')) = hdr ''record-route''"
  "canonicalName (ToLower lo (hdr ''Content-Type'')) = hdr ''content-type''"
  by (simp_all add: hdr_def ToLower_def lowerRune_def canonicalName_def)

lemma valuesOf_response:
  assumes "\<forall>nv \<in> set others. otherHeader lo nv"
    and hs: "hs = responseHeaders via from to callID cseq others n"
  shows "valuesOf lo hs (hdr ''via'') = via" "valuesOf lo hs (hdr ''from'') = [from]"
    "valuesOf lo hs (hdr ''to'') = [to]" "valuesOf lo hs (hdr ''call-id'') = [callID]"
    "valuesOf lo hs (hdr ''cseq'') = [cseq]" "valuesOf lo hs (hdr ''content-length'') = [Itoa n]"
proof -
  have "valuesOf lo others k = []" if "k \<in> set mandatory" for k
    using assms that by (intro valuesOf_other) (auto simp: otherHeader_def)
  note none = this[of "hdr ''via''"] this[of "hdr ''from''"] this[of "hdr ''to''"] this[of "hdr ''call-id''"]
    this[of "hdr ''cseq''"] this[of "hdr ''content-length''"]
  show "valuesOf lo hs (hdr ''via'') = via" "valuesOf lo hs (hdr ''from'') = [from]"
    "valuesOf lo hs (hdr ''to'') = [to]" "valuesOf lo hs (hdr ''call-id'') = [callID]"
    "valuesOf lo hs (hdr ''cseq'') = [cseq]" "valuesOf lo hs (hdr ''content-length'') = [Itoa n]"
    by (simp_all add: hs responseHeaders_def valuesOf_same canonical_names none mandatory_def)
qed

lemma cleanValue_Itoa: "cleanValue (Itoa n)"
  by (auto simp: cleanValue_def lineText_def scalar_def isSpace_def dest!: Itoa_range intro!: TrimSpace_no_space)

lemma contentLength_response:
  assumes "\<forall>nv \<in> set others. otherHeader lo nv" "n \<le> 2 ^ 20"
  shows "contentLengthOf (headersOf lo Map.empty (responseHeaders via from to callID cseq others n)) = Inr n"
proof -
  have "Atoi (Itoa n) = Some (int n)" using assms(2) by (intro Atoi_Itoa) simp
  moreover have "TrimSpace (Itoa n) = Itoa n" using cleanValue_Itoa by (simp add: cleanValue_def)
  moreover have "\<not> int n > 2 ^ 20" using assms(2) by simp
  ultimately show ?thesis
    using valuesOf_response(6)[OF assms(1) refl, of via "from" to callID cseq n] by (simp add: contentLengthOf_def[folded hdr_def] headersOf_lookup)
qed

lemma headerOk_mandatory:
  "cleanValue v \<Longrightarrow> headerOk (named ''Via'' v)" "cleanValue v \<Longrightarrow> headerOk (named ''From'' v)"
  "cleanValue v \<Longrightarrow> headerOk (named ''To'' v)" "cleanValue v \<Longrightarrow> headerOk (named ''Call-ID'' v)"
  "cleanValue v \<Longrightarrow> headerOk (named ''CSeq'' v)" "cleanValue v \<Longrightarrow> headerOk (named ''Content-Length'' v)"
  by (simp_all add: headerOk_named asciiName_def)

lemma headerOk_response:
  assumes "\<forall>v \<in> set via. cleanValue v" "cleanValue from" "cleanValue to" "cleanValue callID" "cleanValue cseq"
    and "\<forall>nv \<in> set others. otherHeader lo nv"
  shows "\<forall>nv \<in> set (responseHeaders via from to callID cseq others n). headerOk nv"
proof -
  have "\<forall>nv \<in> set others. headerOk nv" using assms(6) by (simp add: otherHeader_def)
  then show ?thesis using assms cleanValue_Itoa
    by (auto simp: responseHeaders_def headerOk_mandatory)
qed

definition cleanRequest :: "(rune \<Rightarrow> rune) \<Rightarrow> sipRequest \<Rightarrow> bool" where
  "cleanRequest lo req \<longleftrightarrow>
    (\<forall>name \<in> {''Via'', ''From'', ''To'', ''Call-ID'', ''CSeq'', ''Record-Route'', ''Session-Expires''}.
       \<forall>v \<in> set (reqValues lo req name). cleanValue v)"

lemma cleanValue_Nil [simp]: "cleanValue []"
  by (simp add: cleanValue_def lineText_def)

lemma reqValue_clean: "\<forall>v \<in> set (reqValues lo req name). cleanValue v \<Longrightarrow> cleanValue (reqValue lo req name)"
  by (auto simp: reqValues_def reqValue_def headerValue_def split: list.splits)

lemma toWithTag_clean:
  assumes "cleanValue to" "to \<noteq> []" "cleanValue tag" "tag \<noteq> []"
  shows "cleanValue (toWithTag lo to tag)"
proof -
  have "TrimSpace (to @ runes '';tag='' @ tag) = to @ runes '';tag='' @ tag"
    using assms TrimSpace_edges[of to] TrimSpace_edges[of tag] by (intro TrimSpace_ends) (auto simp: cleanValue_def)
  then show ?thesis using assms by (auto simp: toWithTag_def cleanValue_def lineText_def scalar_def)
qed

lemma other_named:
  "asciiName n \<Longrightarrow> cleanValue v \<Longrightarrow> canonicalName (ToLower lo (hdr n)) \<notin> set mandatory \<Longrightarrow> otherHeader lo (named n v)"
  by (simp add: otherHeader_def headerOk_named)

lemma timerHeaders_lines:
  assumes "timerHeaders lo req status = Inr timer" and "cleanRequest lo req"
  shows "\<exists>hs. timer = map headerLine hs \<and> (\<forall>nv \<in> set hs. otherHeader lo nv)"
proof (cases "timer = []")
  case True
  then show ?thesis by (intro exI[of _ "[]"]) simp
next
  case False
  define e where "e = reqValue lo req ''Session-Expires''"
  have e: "cleanValue e" using assms(2) reqValue_clean by (auto simp: cleanRequest_def e_def)
  have "\<exists>v need. (sessionTimerAnswer lo req :: (build_error, gostring) res) = Inr v \<and> v \<noteq> [] \<and> timer = [fieldLine ''Supported'' (runes ''timer''), fieldLine ''Session-Expires'' v]
      @ (if need then [fieldLine ''Require'' (runes ''timer'')] else [])"
  proof (cases "sessionTimerAnswer lo req :: (build_error, gostring) res")
    case (Inr v)
    then show ?thesis
      using assms(1) False unfolding timerHeaders_def
      by (cases "requireTimer lo req v :: (build_error, bool) res") (auto simp: ex_bool_eq split: if_split_asm)
  qed (use assms(1) in \<open>simp add: timerHeaders_def\<close>)
  then obtain v need where v: "(sessionTimerAnswer lo req :: (build_error, gostring) res) = Inr v" "v \<noteq> []"
    and timer: "timer = [fieldLine ''Supported'' (runes ''timer''), fieldLine ''Session-Expires'' v]
      @ (if need then [fieldLine ''Require'' (runes ''timer'')] else [])" by blast
  have "cleanValue v"
  proof (cases "v = e")
    case False
    then have w: "v = e @ runes '';refresher=uas''" "e \<noteq> []"
      using v e by (auto simp: sessionTimerAnswer_def Let_def rbind_Inr_iff cleanValue_def e_def split: if_splits)
    have "TrimSpace v = v"
      unfolding w using w(2) e TrimSpace_edges[of e] by (intro TrimSpace_ends) (auto simp: cleanValue_def isSpace_def)
    then show ?thesis using e w by (simp add: cleanValue_def lineText_def scalar_def)
  qed (use e in simp)
  moreover have tm: "cleanValue (runes ''timer'')"
    by (simp add: cleanValue_def lineText_def scalar_def TrimSpace_def isSpace_def)
  ultimately have oks: "otherHeader lo (named ''Session-Expires'' v)"
    by (intro other_named) (simp_all add: asciiName_def canonical_others mandatory_def)
  have "otherHeader lo (named n (runes ''timer''))" if "n \<in> {''Supported'', ''Require''}" for n
    using that tm by (intro other_named) (auto simp: asciiName_def canonical_others mandatory_def)
  then have oks2: "otherHeader lo (named ''Supported'' (runes ''timer''))" "otherHeader lo (named ''Require'' (runes ''timer''))"
    by blast+
  show ?thesis unfolding timer fieldLine_named using oks oks2
    by (intro exI[of _ "[named ''Supported'' (runes ''timer''), named ''Session-Expires'' v]
      @ (if need then [named ''Require'' (runes ''timer'')] else [])"]) simp
qed

lemma TrimSpace_headerLine: "headerOk nv \<Longrightarrow> TrimSpace (headerLine nv) \<noteq> []"
proof
  assume nv: "headerOk nv" and nil: "TrimSpace (headerLine nv) = []"
  have "dropWhile isSpace (headerLine nv) = headerLine nv"
    using headerLine_ok[OF nv] by (cases "headerLine nv") auto
  then have "\<forall>r \<in> set (headerLine nv). isSpace r" using nil by (simp add: TrimSpace_def)
  then show False using headerLine_ok[OF nv] by (cases "headerLine nv") auto
qed

lemma route_lines:
  assumes "cleanRequest lo req"
  shows "\<exists>hs. (if c then map (fieldLine ''Record-Route'') (reqValues lo req ''Record-Route'') else [])
      = map headerLine hs \<and> (\<forall>nv \<in> set hs. otherHeader lo nv)"
proof (cases c)
  case True
  have "otherHeader lo (named ''Record-Route'' r)" if "cleanValue r" for r
    using that by (intro other_named) (simp_all add: asciiName_def canonical_others mandatory_def)
  then show ?thesis using True assms unfolding fieldLine_named[abs_def]
    by (intro exI[of _ "map (Pair (hdr ''Record-Route'')) (reqValues lo req ''Record-Route'')"])
      (auto simp: cleanRequest_def)
qed auto

lemma type_line:
  "\<exists>hs. (if d then [fieldLine ''Content-Type'' (runes ''application/sdp'')] else []) = map headerLine hs
    \<and> (\<forall>nv \<in> set hs. otherHeader lo nv)"
proof (cases d)
  case True
  define sdp where "sdp = runes ''application/sdp''"
  have sdp: "cleanValue sdp"
    by (simp add: sdp_def cleanValue_def lineText_def scalar_def TrimSpace_def isSpace_def)
  have "fieldLine ''Content-Type'' (runes ''application/sdp'') = headerLine (named ''Content-Type'' sdp)"
    by (simp add: fieldLine_named sdp_def)
  moreover have "otherHeader lo (named ''Content-Type'' sdp)"
    using sdp by (intro other_named) (simp_all add: asciiName_def canonical_others mandatory_def)
  ultimately show ?thesis using True by (intro exI[of _ "[named ''Content-Type'' sdp]"]) simp
qed auto

lemma header_names:
  "headerValues lo (headersOf lo Map.empty hs) (runes ''Via'') = valuesOf lo hs (hdr ''via'')"
  "headerValues lo (headersOf lo Map.empty hs) (runes ''From'') = valuesOf lo hs (hdr ''from'')"
  "headerValues lo (headersOf lo Map.empty hs) (runes ''To'') = valuesOf lo hs (hdr ''to'')"
  "headerValues lo (headersOf lo Map.empty hs) (runes ''Call-ID'') = valuesOf lo hs (hdr ''call-id'')"
  "headerValues lo (headersOf lo Map.empty hs) (runes ''CSeq'') = valuesOf lo hs (hdr ''cseq'')"
  by (simp_all add: headerValues_headersOf hdr_def ToLower_def lowerRune_def TrimSpace_def isSpace_def)

text \<open>
  C25: A call response built from a well-formed request is one message to both readers: the datagram
  parser and the stream reader yield the status, reason and body that were given and the Via, From,
  To, Call-ID and CSeq of the request, so the peer can match it, and the bytes that follow are
  untouched. No header value can start a header of its own or move the end of the message.
\<close>

theorem sip_response_roundtrip:
  assumes built: "buildSIPResponseWithBody lo req status tag body extraHeaders = Inr out"
    and req: "cleanRequest lo req" and tag: "cleanValue tag" "tag \<noteq> []"
    and extra: "extraHeaders = map headerLine ex" "\<forall>nv \<in> set ex. otherHeader lo nv"
    and sizes: "length body \<le> 2 ^ 20" "length out \<le> maxSIPHeaderBytes + length body"
  shows "\<exists>h. let p = Response \<lparr>StatusCode = int status, Reason = callReason status, Headers = h, Body = body\<rparr> in
      parseSIPPacket lo up out = Inr p \<and> readSIPPacket lo up bufsize pong (out @ rest) = (Inr (p, rest), 0)
      \<and> headerValues lo h (runes ''Via'') = reqValues lo req ''Via''
      \<and> headerValue lo h (runes ''From'') = reqValue lo req ''From''
      \<and> headerValue lo h (runes ''To'') = toWithTag lo (reqValue lo req ''To'') tag
      \<and> headerValue lo h (runes ''Call-ID'') = reqValue lo req ''Call-ID''
      \<and> headerValue lo h (runes ''CSeq'') = reqValue lo req ''CSeq''"
proof -
  define via where "via = reqValues lo req ''Via''"
  define origin where "origin = reqValue lo req ''From''"
  define to where "to = reqValue lo req ''To''"
  define callID where "callID = reqValue lo req ''Call-ID''"
  define cseq where "cseq = reqValue lo req ''CSeq''"
  define start where "start = responseLine status (callReason status)"
  define routes where "routes = (if Method req = runes ''INVITE'' \<and> status > 100 \<and> status < 300
             then map (fieldLine ''Record-Route'') (reqValues lo req ''Record-Route'') else [])"
  define ctype where "ctype = (if body \<noteq> [] then [fieldLine ''Content-Type'' (runes ''application/sdp'')] else [])"
  note defs = via_def origin_def to_def callID_def cseq_def start_def routes_def ctype_def
  obtain rs where rs: "routes = map headerLine rs" "\<forall>nv \<in> set rs. otherHeader lo nv"
    using route_lines[OF req] unfolding routes_def by blast
  obtain cs where cs: "ctype = map headerLine cs" "\<forall>nv \<in> set cs. otherHeader lo nv"
    using type_line unfolding ctype_def by blast
  obtain timer where timer: "timerHeaders lo req status = Inr timer"
    using built by (cases "timerHeaders lo req status") (auto simp: buildSIPResponseWithBody_def Let_def split: if_split_asm)
  have reason: "callReason status \<noteq> []" and some: "to \<noteq> []"
    and out: "out = bytesOf (joinWith [13, 10] ([start] @ map (fieldLine ''Via'') via
          @ [fieldLine ''From'' origin, fieldLine ''To'' (toWithTag lo to tag),
             fieldLine ''Call-ID'' callID, fieldLine ''CSeq'' cseq]
          @ routes @ filter (\<lambda>h. TrimSpace h \<noteq> []) extraHeaders @ timer @ ctype
          @ [fieldLine ''Content-Length'' (Itoa (length body)), [], []])) @ body"
    using built timer unfolding buildSIPResponseWithBody_def Let_def via_def[symmetric] origin_def[symmetric] to_def[symmetric]
      callID_def[symmetric] cseq_def[symmetric] start_def[symmetric] routes_def[symmetric] ctype_def[symmetric]
    by (auto split: if_split_asm)
  obtain ts where ts: "timer = map headerLine ts" "\<forall>nv \<in> set ts. otherHeader lo nv"
    using timerHeaders_lines[OF timer req] by blast
  have ex: "filter (\<lambda>h. TrimSpace h \<noteq> []) extraHeaders = map headerLine ex"
    using extra TrimSpace_headerLine by (auto simp: otherHeader_def intro!: filter_True)
  define others where "others = rs @ ex @ ts @ cs"
  have others: "\<forall>nv \<in> set others. otherHeader lo nv" using rs cs ts extra by (auto simp: others_def)
  define hs where "hs = responseHeaders via origin (toWithTag lo to tag) callID cseq others (length body)"
  have clean: "\<forall>v \<in> set via. cleanValue v" "cleanValue origin" "cleanValue to" "cleanValue callID" "cleanValue cseq"
    using req reqValue_clean unfolding via_def origin_def to_def callID_def cseq_def cleanRequest_def by blast+
  have hsok: "\<forall>nv \<in> set hs. headerOk nv"
    unfolding hs_def using clean toWithTag_clean[OF clean(3) some tag] others by (intro headerOk_response)
  have lines: "[start] @ map (fieldLine ''Via'') via
          @ [fieldLine ''From'' origin, fieldLine ''To'' (toWithTag lo to tag),
             fieldLine ''Call-ID'' callID, fieldLine ''CSeq'' cseq]
          @ routes @ filter (\<lambda>h. TrimSpace h \<noteq> []) extraHeaders @ timer @ ctype
          @ [fieldLine ''Content-Length'' (Itoa (length body)), [], []] = (start # map headerLine hs) @ [[], []]"
    unfolding rs cs ts ex hs_def responseHeaders_def others_def by (simp add: fieldLine_named)
  have out: "out = messageBytes start hs body"
    using out[unfolded lines] joinWith_lines[of "start # map headerLine hs"] by (simp add: messageBytes_def)
  note fields = responseLine_fields[OF reason]
  define toks where "toks = runes ''SIP/2.0'' # Itoa status # Fields (callReason status)"
  have start: "lineText start" "start \<noteq> []" "Fields (TrimSpace start) = toks" "2 \<le> length toks"
    using fields by (simp_all add: start_def toks_def responseLine_def)
  have "startLine up toks (headersOf lo Map.empty hs)
      = Inr (Response \<lparr>StatusCode = int status, Reason = callReason status, Headers = headersOf lo Map.empty hs, Body = []\<rparr>)"
    using fields by (simp add: startLine_def toks_def Atoi_Itoa)
  note read = message_read(1)[OF start hsok _ _ this, where body = body]
    message_read(2)[OF start hsok _ _ this, where body = body and bufsize = bufsize and pong = pong and rest = rest]
  have len: "length (messageBytes start hs []) \<le> maxSIPHeaderBytes"
    using sizes(2) by (simp add: out messageBytes_def)
  have clen: "contentLengthOf (headersOf lo Map.empty hs) = Inr (length body)"
    unfolding hs_def by (rule contentLength_response[OF others sizes(1)])
  show ?thesis
    using read(1)[OF len clen] read(2)[OF len clen] valuesOf_response[OF others hs_def]
    unfolding via_def[symmetric] origin_def[symmetric] to_def[symmetric] callID_def[symmetric] cseq_def[symmetric] out[symmetric]
    by (intro exI[of _ "headersOf lo Map.empty hs"], unfold Let_def headerValue_def header_names) simp
qed

subsection \<open>A sample request\<close>

definition sampleInvite :: sipRequest where
  "sampleInvite = \<lparr>Method = runes ''INVITE'', URI = runes ''sip:b'', reqHeaders =
     [hdr ''via'' \<mapsto> [runes ''SIP/2.0/TCP a''], hdr ''from'' \<mapsto> [runes ''<sip:a>;tag=1''],
      hdr ''to'' \<mapsto> [runes ''<sip:b>''], hdr ''call-id'' \<mapsto> [runes ''c1''], hdr ''cseq'' \<mapsto> [runes ''7 INVITE'']],
     reqBody = []\<rparr>"

lemma lower_names:
  "ToLower lo (TrimSpace (runes ''Via'')) = hdr ''via''"
  "ToLower lo (TrimSpace (runes ''From'')) = hdr ''from''"
  "ToLower lo (TrimSpace (runes ''To'')) = hdr ''to''"
  "ToLower lo (TrimSpace (runes ''Call-ID'')) = hdr ''call-id''"
  "ToLower lo (TrimSpace (runes ''CSeq'')) = hdr ''cseq''"
  "ToLower lo (TrimSpace (runes ''Record-Route'')) = hdr ''record-route''"
  "ToLower lo (TrimSpace (runes ''Session-Expires'')) = hdr ''session-expires''"
  by (simp_all add: hdr_def ToLower_def lowerRune_def TrimSpace_def isSpace_def)

lemma sampleInvite_values:
  "reqValues lo sampleInvite ''Via'' = [runes ''SIP/2.0/TCP a'']"
  "reqValues lo sampleInvite ''From'' = [runes ''<sip:a>;tag=1'']"
  "reqValues lo sampleInvite ''To'' = [runes ''<sip:b>'']"
  "reqValues lo sampleInvite ''Call-ID'' = [runes ''c1'']"
  "reqValues lo sampleInvite ''CSeq'' = [runes ''7 INVITE'']"
  "reqValues lo sampleInvite ''Record-Route'' = []"
  "reqValues lo sampleInvite ''Session-Expires'' = []"
  unfolding reqValues_def headerValues_def lower_names by (simp_all add: sampleInvite_def)

lemma reqValue_values:
  "reqValue lo req name = (case reqValues lo req name of [] \<Rightarrow> [] | v # _ \<Rightarrow> v)"
  by (simp add: reqValue_def reqValues_def headerValue_def)

lemma cleanValue_ascii:
  "v \<noteq> [] \<Longrightarrow> \<forall>r \<in> set v. 32 \<le> r \<and> r < 127 \<Longrightarrow> hd v \<noteq> 32 \<Longrightarrow> last v \<noteq> 32 \<Longrightarrow> cleanValue v"
proof -
  assume v: "v \<noteq> []" "\<forall>r \<in> set v. 32 \<le> r \<and> r < 127" "hd v \<noteq> 32" "last v \<noteq> 32"
  have "\<not> isSpace r" if "32 < r" "r < 127" for r using that by (auto simp: isSpace_def)
  moreover have "32 < hd v" "hd v < 127" "32 < last v" "last v < 127" 
    using v by (metis hd_in_set last_in_set le_neq_implies_less)+
  ultimately have "TrimSpace v = v" using v(1) by (intro TrimSpace_ends) auto
  then show ?thesis using v(2) by (auto simp: cleanValue_def lineText_def scalar_def)
qed

lemma sampleInvite_clean: "cleanRequest lo sampleInvite"
  unfolding cleanRequest_def by (auto simp: sampleInvite_values intro!: cleanValue_ascii)

lemma sampleInvite_timer: "timerHeaders lo sampleInvite 200 = Inr []"
  by (simp add: timerHeaders_def sessionTimerAnswer_def reqValue_values sampleInvite_values)

lemma sampleInvite_built:
  "\<exists>out. buildSIPResponseWithBody lo sampleInvite 200 (runes ''t'') [65] [] = Inr out
     \<and> length out \<le> maxSIPHeaderBytes + length [65 :: byte]"
  unfolding buildSIPResponseWithBody_def Let_def reqValue_values sampleInvite_values sampleInvite_timer
  by (auto simp: callReason_def maxSIPHeaderBytes_def fieldLine_def responseLine_def toWithTag_def hasTag_def
      Itoa.simps runeBytes_ascii)

theorem sip_response_roundtrip_witness:
  "\<exists>out h. buildSIPResponseWithBody (\<lambda>r. r) sampleInvite 200 (runes ''t'') [65] [] = Inr out
     \<and> parseSIPPacket (\<lambda>r. r) (\<lambda>r. r) out
       = Inr (Response \<lparr>StatusCode = 200, Reason = callReason 200, Headers = h, Body = [65]\<rparr>)
     \<and> headerValue (\<lambda>r. r) h (runes ''Call-ID'') = runes ''c1''"
proof -
  obtain out where out: "buildSIPResponseWithBody (\<lambda>r. r) sampleInvite 200 (runes ''t'') [65] [] = Inr out"
    and len: "length out \<le> maxSIPHeaderBytes + length [65 :: byte]"
    using sampleInvite_built by blast
  have "cleanValue (runes ''t'')" by (rule cleanValue_ascii) auto
  moreover have "length [65 :: byte] \<le> 2 ^ 20" by simp
  ultimately show ?thesis
    using sip_response_roundtrip[OF out sampleInvite_clean, where ex = "[]" and up = "\<lambda>r. r" and bufsize = 4096 and pong = None and rest = "[]"] out len
    by (auto simp: Let_def reqValue_values sampleInvite_values)
qed

subsection \<open>Parameters of non-ASCII headers\<close>

text \<open>On ASCII the byte offset found in the lower-cased value is one of the value itself.\<close>

theorem headerParameter_ascii:
  assumes "\<forall>r \<in> set v. r < 128"
  shows "headerParameter lo v name \<noteq> Inl Panic"
proof -
  have low: "\<forall>r \<in> set (ToLower lo v). r < 128" using assms by (auto simp: ToLower_def lowerRune_def)
  have len: "length (bytesOf (ToLower lo v)) = length (bytesOf v)"
    using bytesOf_ascii[OF low] bytesOf_ascii[OF assms] by (simp add: ToLower_def)
  show ?thesis
  proof (cases "indexOf (bytesOf (needleOf lo name)) (bytesOf (ToLower lo v))")
    case None
    then show ?thesis by (simp add: headerParameter_def)
  next
    case (Some i)
    then show ?thesis using indexOf_Some[OF Some] len by (simp add: headerParameter_def slice_def Let_def)
  qed
qed

text \<open>
  Four capital A with stroke (U+023A, two bytes) become four U+2C65 (three bytes): the offset found
  in the lower-cased value then lies beyond the end of the value, and the slice expression panics.
\<close>

definition growing :: "rune \<Rightarrow> rune" where
  "growing r = (if r = 0x23A then 0x2C65 else r)"

definition strokes :: gostring where
  "strokes = runes ''90;x='' @ [0x23A, 0x23A, 0x23A, 0x23A] @ runes '';refresher=uac''"

lemma stroke_bytes:
  "runeBytes 0x23A = [0xC8, 0xBA]" "runeBytes 0x2C65 = [0xE2, 0xB1, 0xA5]"
  by (simp_all add: runeBytes_def utf8Rune_def)

lemma headerParameter_panics: "headerParameter growing strokes (runes ''refresher'') = Inl Panic"
proof -
  have low: "ToLower growing strokes = runes ''90;x='' @ [0x2C65, 0x2C65, 0x2C65, 0x2C65] @ runes '';refresher=uac''"
    by (simp add: strokes_def growing_def ToLower_def lowerRune_def)
  have needle: "needleOf growing (runes ''refresher'') = runes '';refresher=''"
    by (simp add: ToLower_def lowerRune_def)
  have "indexOf (bytesOf (runes '';refresher='')) (bytesOf (ToLower growing strokes)) = Some 17"
    unfolding low by (simp add: runeBytes_ascii stroke_bytes)
  moreover have "length (bytesOf (runes '';refresher='')) = 11" by (simp add: runeBytes_ascii)
  moreover have "length (bytesOf strokes) = 27" by (simp add: strokes_def runeBytes_ascii stroke_bytes)
  ultimately show ?thesis unfolding headerParameter_def Let_def needle by (simp add: slice_def)
qed

definition strokesInvite :: sipRequest where
  "strokesInvite = sampleInvite\<lparr>reqHeaders := (reqHeaders sampleInvite)(hdr ''session-expires'' \<mapsto> [strokes])\<rparr>"

lemma strokesInvite_values:
  "reqValues lo strokesInvite ''Via'' = [runes ''SIP/2.0/TCP a'']"
  "reqValues lo strokesInvite ''From'' = [runes ''<sip:a>;tag=1'']"
  "reqValues lo strokesInvite ''To'' = [runes ''<sip:b>'']"
  "reqValues lo strokesInvite ''Call-ID'' = [runes ''c1'']"
  "reqValues lo strokesInvite ''CSeq'' = [runes ''7 INVITE'']"
  "reqValues lo strokesInvite ''Session-Expires'' = [strokes]"
  unfolding reqValues_def headerValues_def lower_names by (simp_all add: strokesInvite_def sampleInvite_def)

text \<open>
  C26: A legal INVITE whose Session-Expires header holds four such letters before its refresher makes the
  builder of its first response panic. The Unicode table here differs from the identity where Go's does: the lower case of
  U+023A is U+2C65.
\<close>

theorem call_response_panics:
  "buildSIPResponseWithBody growing strokesInvite 180 (runes ''t'') [] [] = Inl Panic"
proof -
  have "TrimSpace strokes = strokes" by (rule TrimSpace_ends) (simp_all add: strokes_def isSpace_def)
  moreover have "strokes \<noteq> []" by (simp add: strokes_def)
  ultimately have timer: "timerHeaders growing strokesInvite 180 = Inl Panic"
    unfolding timerHeaders_def sessionTimerAnswer_def reqValue_values strokesInvite_values Let_def
    by (simp add: headerParameter_panics[simplified])
  show ?thesis
    unfolding buildSIPResponseWithBody_def Let_def reqValue_values strokesInvite_values timer
    by (simp add: callReason_def)
qed

end
