(* ===== verification/SipDigest.thy ===== *)
theory SipDigest
  imports GoStrings Aka
begin

text \<open>
  HTTP digest with AKA credentials (\<open>ims/digest.go\<close>): parsing a challenge, decoding its nonce,
  checking the SIM's answer and building the Authorization header. MD5 and the base64 decoders of
  the standard library are parameters: \<open>md5\<close> maps bytes to the digest, \<open>b64\<close> lists the four
  decoders in the order they are tried.
\<close>

datatype digest_error = UnsupportedScheme | MalformedDirective | MalformedQuoted | Unterminated | EmptyDirectiveName
  | MalformedSeparator | IncompleteChallenge | OmittedAlgorithm | UnsupportedAlgorithm | NoQopAuth
  | InvalidNonce | AkaFailed bool | MalformedSync | EmptyResult | InvalidRES | MissingChallenge | RandomFailed

record digestChallenge =
  Realm :: gostring
  Nonce :: gostring
  Opaque :: gostring
  Algorithm :: gostring
  QOP :: gostring
  Stale :: bool
  Proxy :: bool

record digestCredentials =
  Username :: gostring
  AKAResponse :: "byte list"
  AUTS :: gostring
  credURI :: gostring
  credMethod :: gostring
  CNonce :: gostring
  NC :: "32 word"

subsection \<open>Directives\<close>

definition blankRune :: "rune \<Rightarrow> bool" where
  "blankRune r \<longleftrightarrow> r = 32 \<or> r = 9"

text \<open>The body of a quoted string after its opening quote: the value and what follows the closing quote.\<close>

fun quotedLoop :: "gostring \<Rightarrow> gostring \<Rightarrow> (digest_error, gostring \<times> gostring) res" where
  "quotedLoop acc [] = err Unterminated"
| "quotedLoop acc (c # s) =
    (if c = 92 then (case s of [] \<Rightarrow> err MalformedQuoted | d # t \<Rightarrow> quotedLoop (acc @ [d]) t)
     else if c = 34 then Inr (acc, s)
     else quotedLoop (acc @ [c]) s)"

definition directiveValue :: "gostring \<Rightarrow> (digest_error, gostring \<times> gostring) res" where
  "directiveValue s =
    (let t = dropWhile blankRune s in
     case t of
       [] \<Rightarrow> Inr ([], [])
     | c # u \<Rightarrow>
         if c = 34 then quotedLoop [] u
         else Inr (TrimSpace (takeWhile (\<lambda>r. r \<noteq> 44) t), dropWhile (\<lambda>r. r \<noteq> 44) t))"

text \<open>After a value only blanks may come before the next comma.\<close>

definition separator :: "gostring \<Rightarrow> (digest_error, gostring) res" where
  "separator s = (if list_all blankRune (takeWhile (\<lambda>r. r \<noteq> 44) s) then Inr (dropWhile (\<lambda>r. r \<noteq> 44) s)
     else err MalformedSeparator)"

lemma quotedLoop_shorter: "quotedLoop acc s = Inr (v, t) \<Longrightarrow> length t < length s"
  by (induction acc s rule: quotedLoop.induct) (auto split: if_splits list.splits)

lemma directiveValue_shorter: "directiveValue s = Inr (v, t) \<Longrightarrow> length t \<le> length s"
proof -
  assume d: "directiveValue s = Inr (v, t)"
  have le: "length (dropWhile blankRune s) \<le> length s" by (rule length_dropWhile_le)
  show ?thesis
  proof (cases "dropWhile blankRune s")
    case Nil
    then show ?thesis using d unfolding directiveValue_def Let_def Nil by simp
  next
    case (Cons c u)
    then show ?thesis using d le quotedLoop_shorter[of "[]" u v t] length_dropWhile_le[of "\<lambda>r. r \<noteq> 44" "c # u"]
      by (auto simp: directiveValue_def Let_def split: if_splits)
  qed
qed

lemma separator_shorter: "separator s = Inr t \<Longrightarrow> length t \<le> length s"
  by (auto simp: separator_def length_dropWhile_le split: if_splits)

function directivesLoop ::
    "(rune \<Rightarrow> rune) \<Rightarrow> (gostring \<rightharpoonup> gostring) \<Rightarrow> gostring \<Rightarrow> (digest_error, gostring \<rightharpoonup> gostring) res" where
  "directivesLoop lo m s =
    (let t = dropWhile (\<lambda>r. blankRune r \<or> r = 44) s in
     if t = [] then Inr m
     else case dropWhile (\<lambda>r. r \<noteq> 61 \<and> r \<noteq> 44) t of
       [] \<Rightarrow> err MalformedDirective
     | c # u \<Rightarrow>
         if c \<noteq> 61 then err MalformedDirective
         else let key = ToLower lo (TrimSpace (takeWhile (\<lambda>r. r \<noteq> 61 \<and> r \<noteq> 44) t)) in
           rbind (directiveValue u) (\<lambda>(v, w).
             if key = [] then err EmptyDirectiveName
             else rbind (separator w) (\<lambda>x. directivesLoop lo (m(key \<mapsto> v)) x)))"
  by pat_completeness auto
termination
proof (relation "measure (\<lambda>(lo, m, s). length s)", simp, clarsimp)
  fix s :: gostring and c u v w x
  assume drop: "dropWhile (\<lambda>r. r \<noteq> 61 \<and> r \<noteq> 44) (dropWhile (\<lambda>r. blankRune r \<or> r = 44) s) = 61 # u"
    and v: "directiveValue u = Inr (v, w)" and x: "separator w = Inr x"
  have "Suc (length u) \<le> length (dropWhile (\<lambda>r. blankRune r \<or> r = 44) s)"
    using drop length_dropWhile_le[of "\<lambda>r. r \<noteq> 61 \<and> r \<noteq> 44" "dropWhile (\<lambda>r. blankRune r \<or> r = 44) s"] by simp
  also have "\<dots> \<le> length s" by (rule length_dropWhile_le)
  finally show "length x < length s"
    using directiveValue_shorter[OF v] separator_shorter[OF x] by simp
qed

declare directivesLoop.simps [simp del]

definition parseAuthDirectives where
  "parseAuthDirectives lo s = directivesLoop lo Map.empty s"

definition directive :: "(gostring \<rightharpoonup> gostring) \<Rightarrow> string \<Rightarrow> gostring" where
  "directive m name = (case m (runes name) of Some v \<Rightarrow> v | None \<Rightarrow> [])"

subsection \<open>Challenges\<close>

definition parseDigestChallenge :: "(rune \<Rightarrow> rune) \<Rightarrow> gostring \<Rightarrow> bool \<Rightarrow> (digest_error, digestChallenge) res" where
  "parseDigestChallenge lo v proxy =
    (case Cut 32 (TrimSpace v) of
       None \<Rightarrow> err UnsupportedScheme
     | Some (scheme, parameters) \<Rightarrow>
         if \<not> EqualFold scheme (runes ''Digest'') then err UnsupportedScheme
         else rbind (parseAuthDirectives lo parameters) (\<lambda>m.
           let c = \<lparr>Realm = directive m ''realm'', Nonce = directive m ''nonce'', Opaque = directive m ''opaque'',
                    Algorithm = directive m ''algorithm'', QOP = [],
                    Stale = EqualFold (directive m ''stale'') (runes ''true''), Proxy = proxy\<rparr> in
           if Realm c = [] \<or> Nonce c = [] then err IncompleteChallenge
           else if Algorithm c = [] then err OmittedAlgorithm
           else if \<not> EqualFold (Algorithm c) (runes ''AKAv1-MD5'') then err UnsupportedAlgorithm
           else if directive m ''qop'' \<noteq> [] then
             (if \<exists>candidate \<in> set (splitOn 44 (directive m ''qop'')). EqualFold (TrimSpace candidate) (runes ''auth'')
              then Inr (c\<lparr>QOP := runes ''auth''\<rparr>) else err NoQopAuth)
           else Inr c))"

text \<open>The first parsable challenge of the header that the status names; otherwise the last error.\<close>

fun firstChallenge ::
    "(rune \<Rightarrow> rune) \<Rightarrow> bool \<Rightarrow> digest_error fault \<Rightarrow> gostring list \<Rightarrow> (digest_error, digestChallenge) res" where
  "firstChallenge lo proxy lastError [] = Inl lastError"
| "firstChallenge lo proxy lastError (v # vs) =
    (case parseDigestChallenge lo v proxy of
       Inr c \<Rightarrow> Inr c
     | Inl e \<Rightarrow> firstChallenge lo proxy e vs)"

subsection \<open>AKA\<close>

definition decodeAKANonce :: "(gostring \<Rightarrow> byte list option) list \<Rightarrow> gostring \<Rightarrow> (digest_error, byte list) res" where
  "decodeAKANonce b64 v =
    (case List.find (\<lambda>d. d (TrimSpace v) \<noteq> None) b64 of
       Some d \<Rightarrow> (case d (TrimSpace v) of
                     Some bs \<Rightarrow> if length bs < 32 then err InvalidNonce else Inr bs
                   | None \<Rightarrow> err InvalidNonce)
     | None \<Rightarrow> err InvalidNonce)"

record akaMaterial =
  aka_response :: "byte list"
  aka_auts :: "byte list"
  aka_ck :: "byte list"
  aka_ik :: "byte list"

definition clearAKAMaterial :: "akaMaterial \<Rightarrow> akaMaterial" where
  "clearAKAMaterial m = \<lparr>aka_response = [], aka_auts = [], aka_ck = [], aka_ik = []\<rparr>"

definition extractRES :: "akaResult \<Rightarrow> (digest_error, byte list) res" where
  "extractRES r =
    (if RES r = [] then err EmptyResult
     else if length (RES r) < 4 \<or> length (RES r) > 16 then err InvalidRES
     else Inr (RES r))"

text \<open>
  \<open>sim\<close> is the AKA provider: it is given RAND, AUTN and, where it supports one, the preferred
  application, and answers with a result or fails.
\<close>

definition authenticateAKA ::
    "(gostring \<Rightarrow> byte list option) list \<Rightarrow> (byte list \<Rightarrow> byte list \<Rightarrow> gostring option \<Rightarrow> akaResult option) \<Rightarrow>
     bool \<Rightarrow> digestChallenge \<Rightarrow> gostring \<Rightarrow> (digest_error, akaMaterial) res" where
  "authenticateAKA b64 sim preferring challenge preference =
    rbind (decodeAKANonce b64 (Nonce challenge)) (\<lambda>nonce.
      case sim (take 16 nonce) (take 16 (drop 16 nonce))
             (if preferring \<and> TrimSpace preference \<noteq> [] then Some preference else None) of
        None \<Rightarrow> err (AkaFailed (EqualFold (TrimSpace preference) (runes ''isim_strict'')))
      | Some r \<Rightarrow>
          if SynchronizationFailure r \<or> resultAUTS r \<noteq> [] then
            (if \<not> SynchronizationFailure r \<or> length (resultAUTS r) \<noteq> 14 then err MalformedSync
             else Inr \<lparr>aka_response = [], aka_auts = resultAUTS r, aka_ck = [], aka_ik = []\<rparr>)
          else rbind (extractRES r) (\<lambda>res.
            Inr \<lparr>aka_response = res, aka_auts = [], aka_ck = CK r, aka_ik = IK r\<rparr>))"

subsection \<open>Credentials\<close>

text \<open>\<open>random\<close> is what \<open>crypto/rand\<close> yields for the 16 bytes of the client nonce.\<close>

definition newDigestCredentials ::
    "byte list option \<Rightarrow> gostring \<Rightarrow> byte list \<Rightarrow> gostring \<Rightarrow> gostring \<Rightarrow> 32 word \<Rightarrow> (digest_error, digestCredentials) res" where
  "newDigestCredentials random username akaResponse uri method nc =
    (case random of
       None \<Rightarrow> err RandomFailed
     | Some cnonce \<Rightarrow> Inr \<lparr>Username = username, AKAResponse = akaResponse, AUTS = [], credURI = uri,
         credMethod = method, CNonce = hexEncode cnonce, NC = nc\<rparr>)"

text \<open>\<open>strings.ReplaceAll(s, c, by)\<close> for a single rune.\<close>

definition replaceRune :: "rune \<Rightarrow> gostring \<Rightarrow> gostring \<Rightarrow> gostring" where
  "replaceRune c t s = concat (map (\<lambda>r. if r = c then t else [r]) s)"

definition quoteDigest :: "gostring \<Rightarrow> gostring" where
  "quoteDigest s = replaceRune 34 [92, 34] (replaceRune 92 [92, 92] s)"

text \<open>\<open>fmt.Sprintf("%08x", nc)\<close>.\<close>

definition hex32 :: "32 word \<Rightarrow> gostring" where
  "hex32 n = hexEncode (put32 n)"

definition md5Hex :: "(byte list \<Rightarrow> byte list) \<Rightarrow> byte list \<Rightarrow> gostring" where
  "md5Hex md5 bs = hexEncode (md5 bs)"

definition digestResponse ::
    "(byte list \<Rightarrow> byte list) \<Rightarrow> gostring \<Rightarrow> gostring \<Rightarrow> byte list \<Rightarrow> gostring \<Rightarrow> gostring \<Rightarrow> gostring \<Rightarrow> gostring \<Rightarrow>
     gostring \<Rightarrow> gostring \<Rightarrow> gostring" where
  "digestResponse md5 username realm akaResponse method uri nonce nc cnonce qop =
    (let ha1 = md5Hex md5 (bytesOf (username @ [58] @ realm @ [58]) @ akaResponse);
         ha2 = md5Hex md5 (bytesOf (method @ [58] @ uri)) in
     if qop = [] then md5Hex md5 (bytesOf (ha1 @ [58] @ nonce @ [58] @ ha2))
     else md5Hex md5 (bytesOf (ha1 @ [58] @ nonce @ [58] @ nc @ [58] @ cnonce @ [58] @ qop @ [58] @ ha2)))"

definition quotedPart :: "string \<Rightarrow> gostring \<Rightarrow> gostring" where
  "quotedPart name v = runes name @ [61, 34] @ v @ [34]"

definition plainPart :: "string \<Rightarrow> gostring \<Rightarrow> gostring" where
  "plainPart name v = runes name @ [61] @ v"

definition authorizationParts ::
    "(byte list \<Rightarrow> byte list) \<Rightarrow> digestChallenge \<Rightarrow> digestCredentials \<Rightarrow> gostring list" where
  "authorizationParts md5 ch cr =
    (let nc = hex32 (NC cr);
         response = digestResponse md5 (Username cr) (Realm ch) (AKAResponse cr) (credMethod cr) (credURI cr)
           (Nonce ch) nc (CNonce cr) (QOP ch) in
     [quotedPart ''username'' (quoteDigest (Username cr)), quotedPart ''realm'' (quoteDigest (Realm ch)),
      quotedPart ''nonce'' (quoteDigest (Nonce ch)), quotedPart ''uri'' (quoteDigest (credURI cr)),
      quotedPart ''response'' response, plainPart ''algorithm'' (runes ''AKAv1-MD5'')]
     @ (if Opaque ch \<noteq> [] then [quotedPart ''opaque'' (quoteDigest (Opaque ch))] else [])
     @ (if QOP ch \<noteq> [] then [plainPart ''qop'' (QOP ch), plainPart ''nc'' nc,
          quotedPart ''cnonce'' (quoteDigest (CNonce cr))] else [])
     @ (if AUTS cr \<noteq> [] then [quotedPart ''auts'' (quoteDigest (AUTS cr))] else []))"

definition buildDigestAuthorization ::
    "(byte list \<Rightarrow> byte list) \<Rightarrow> digestChallenge \<Rightarrow> digestCredentials \<Rightarrow> gostring" where
  "buildDigestAuthorization md5 ch cr = runes ''Digest '' @ joinWith [44, 32] (authorizationParts md5 ch cr)"

end
