(* ===== verification/SipDigest_Props.thy ===== *)
theory SipDigest_Props
  imports SipDigest
begin

text \<open>
  The credentials in an Authorization header are exactly those that were put in: quoting escapes
  what could end a value, so neither the network's challenge nor a subscriber name can add or
  replace a directive.
\<close>

subsection \<open>Quoting\<close>

lemma quoteDigest_Nil [simp]: "quoteDigest [] = []"
  by (simp add: quoteDigest_def replaceRune_def)

lemma quoteDigest_Cons:
  "quoteDigest (r # s) = (if r = 92 then [92, 92] else if r = 34 then [92, 34] else [r]) @ quoteDigest s"
  by (simp add: quoteDigest_def replaceRune_def)

lemma quotedLoop_quoteDigest: "quotedLoop acc (quoteDigest v @ 34 # s) = Inr (acc @ v, s)"
  by (induction v arbitrary: acc) (auto simp: quoteDigest_Cons)

lemma quoteDigest_plain: "34 \<notin> set v \<Longrightarrow> 92 \<notin> set v \<Longrightarrow> quoteDigest v = v"
  by (induction v) (auto simp: quoteDigest_Cons)

subsection \<open>One directive, and a list of them\<close>

definition directiveName :: "gostring \<Rightarrow> bool" where
  "directiveName k \<longleftrightarrow> k \<noteq> [] \<and> (\<forall>r \<in> set k. 97 \<le> r \<and> r \<le> 122)"

definition readsAs :: "(rune \<Rightarrow> rune) \<Rightarrow> gostring \<Rightarrow> gostring \<times> gostring \<Rightarrow> bool" where
  "readsAs lo part kv \<longleftrightarrow> part \<noteq> [] \<and> \<not> (blankRune (hd part) \<or> hd part = 44) \<and>
     (\<forall>m rest. rest = [] \<or> hd rest = 44 \<longrightarrow>
        directivesLoop lo m (part @ rest) = directivesLoop lo (m(fst kv \<mapsto> snd kv)) rest)"

lemma separator_comma: "rest = [] \<or> hd rest = 44 \<Longrightarrow> separator rest = Inr rest"
  by (cases rest) (auto simp: separator_def)

lemma directiveName_facts:
  assumes "directiveName k"
  shows "TrimSpace k = k" "ToLower lo k = k" "61 \<notin> set k" "44 \<notin> set k" "k \<noteq> []" "\<not> blankRune (hd k)"
proof -
  have k: "97 \<le> r \<and> r \<le> 122" if "r \<in> set k" for r using assms that by (auto simp: directiveName_def)
  show "k \<noteq> []" using assms by (simp add: directiveName_def)
  then show "\<not> blankRune (hd k)" using k[of "hd k"] by (auto simp: blankRune_def)
  show "TrimSpace k = k" by (rule TrimSpace_no_space) (auto simp: isSpace_def dest!: k)
  show "ToLower lo k = k" by (rule ToLower_id) (auto dest!: k)
  show "61 \<notin> set k" "44 \<notin> set k" by (auto dest!: k)
qed

lemma directivesLoop_part:
  assumes k: "directiveName k" and v: "directiveValue (u @ rest) = Inr (v, rest)" and rest: "rest = [] \<or> hd rest = 44"
  shows "directivesLoop lo m (k @ 61 # u @ rest) = directivesLoop lo (m(k \<mapsto> v)) rest"
proof -
  note f = directiveName_facts[OF k]
  have "dropWhile (\<lambda>r. blankRune r \<or> r = 44) (k @ 61 # u @ rest) = k @ 61 # u @ rest"
    using f by (cases k) auto
  moreover have "takeWhile (\<lambda>r. r \<noteq> 61 \<and> r \<noteq> 44) (k @ 61 # u @ rest) = k"
    and "dropWhile (\<lambda>r. r \<noteq> 61 \<and> r \<noteq> 44) (k @ 61 # u @ rest) = 61 # u @ rest"
    using f by (subst takeWhile_append2 dropWhile_append2; auto)+
  ultimately show ?thesis using f v separator_comma[OF rest]
    by (subst directivesLoop.simps) (simp add: Let_def)
qed

lemma quotedPart_reads:
  assumes "directiveName (runes name)"
  shows "readsAs lo (quotedPart name (quoteDigest v)) (runes name, v)"
proof -
  note f = directiveName_facts[OF assms]
  have "directiveValue ((34 # quoteDigest v @ [34]) @ rest) = Inr (v, rest)" for rest
    by (simp add: directiveValue_def blankRune_def quotedLoop_quoteDigest)
  note * = directivesLoop_part[OF assms this]
  show ?thesis using * f unfolding readsAs_def quotedPart_def
    by (cases name) (auto simp: hd_append)
qed

lemma plainPart_reads:
  assumes "directiveName (runes name)" and v: "v \<noteq> []" "\<forall>r \<in> set v. \<not> isSpace r \<and> r \<noteq> 44 \<and> r \<noteq> 34"
  shows "readsAs lo (plainPart name v) (runes name, v)"
proof -
  note f = directiveName_facts[OF assms(1)]
  obtain c w where c: "v = c # w" using v by (cases v) auto
  have ns: "\<not> blankRune c" using v c by (auto simp: blankRune_def isSpace_def)
  have "directiveValue (v @ rest) = Inr (v, rest)" if "rest = [] \<or> hd rest = 44" for rest
  proof -
    have "takeWhile (\<lambda>r. r \<noteq> 44) (v @ rest) = v" "dropWhile (\<lambda>r. r \<noteq> 44) (v @ rest) = rest"
      using v that by (cases rest; auto simp: takeWhile_append2 dropWhile_append2)+
    moreover have "TrimSpace v = v" using v by (intro TrimSpace_no_space) auto
    ultimately show ?thesis using ns c v by (simp add: directiveValue_def Let_def)
  qed
  then show ?thesis using directivesLoop_part[OF assms(1)] f unfolding readsAs_def plainPart_def
    by (cases name) (auto simp: hd_append)
qed

lemma directivesLoop_join:
  "list_all2 (readsAs lo) parts kvs \<Longrightarrow>
   directivesLoop lo m (joinWith [44, 32] parts) = Inr (foldl (\<lambda>m kv. m(fst kv \<mapsto> snd kv)) m kvs)"
proof (induction parts arbitrary: m kvs rule: induct_list012)
  case 1
  then show ?case by (simp add: directivesLoop.simps)
next
  case (2 p)
  then obtain kv where kv: "kvs = [kv]" "readsAs lo p kv" by (auto simp: list_all2_Cons1)
  then have "directivesLoop lo m (p @ []) = directivesLoop lo (m(fst kv \<mapsto> snd kv)) []"
    unfolding readsAs_def by blast
  then show ?case using kv by (simp add: directivesLoop.simps[of _ _ "[]"] fun_upd_def)
next
  case (3 p q ps)
  then obtain kv kvs' where kvs: "kvs = kv # kvs'" "readsAs lo p kv" "list_all2 (readsAs lo) (q # ps) kvs'"
    by (auto simp: list_all2_Cons1)
  define s where "s = joinWith [44, 32] (q # ps)"
  have "q \<noteq> []" "\<not> (blankRune (hd q) \<or> hd q = 44)"
    using kvs(3) by (auto simp: list_all2_Cons1 readsAs_def)
  then have "dropWhile (\<lambda>r. blankRune r \<or> r = 44) s = s" by (cases q; cases ps) (auto simp: s_def)
  then have skip: "directivesLoop lo m (44 # 32 # s) = directivesLoop lo m s" for m
    by (simp add: directivesLoop.simps[of lo m "44 # 32 # s"] directivesLoop.simps[of lo m s] blankRune_def)
  have "directivesLoop lo m (p @ 44 # 32 # s) = directivesLoop lo (m(fst kv \<mapsto> snd kv)) (44 # 32 # s)"
    using kvs(2) by (simp add: readsAs_def)
  then show ?case using 3 kvs skip by (simp add: s_def)
qed

subsection \<open>The header\<close>

text \<open>What the header is meant to say.\<close>

definition authorizationDirectives ::
    "(byte list \<Rightarrow> byte list) \<Rightarrow> digestChallenge \<Rightarrow> digestCredentials \<Rightarrow> (gostring \<times> gostring) list" where
  "authorizationDirectives md5 ch cr =
    [(runes ''username'', Username cr), (runes ''realm'', Realm ch), (runes ''nonce'', Nonce ch),
     (runes ''uri'', credURI cr),
     (runes ''response'', digestResponse md5 (Username cr) (Realm ch) (AKAResponse cr) (credMethod cr) (credURI cr)
        (Nonce ch) (hex32 (NC cr)) (CNonce cr) (QOP ch)),
     (runes ''algorithm'', runes ''AKAv1-MD5'')]
    @ (if Opaque ch \<noteq> [] then [(runes ''opaque'', Opaque ch)] else [])
    @ (if QOP ch \<noteq> [] then [(runes ''qop'', QOP ch), (runes ''nc'', hex32 (NC cr)), (runes ''cnonce'', CNonce cr)] else [])
    @ (if AUTS cr \<noteq> [] then [(runes ''auts'', AUTS cr)] else [])"

lemma hexEncode_plain: "r \<in> set (hexEncode bs) \<Longrightarrow> \<not> isSpace r \<and> r \<noteq> 44 \<and> r \<noteq> 34 \<and> r \<noteq> 92"
  by (auto simp: isSpace_def dest!: set_hexEncode)

lemma digestResponse_quoted:
  "quoteDigest (digestResponse md5 u r a m uri n nc cn q) = digestResponse md5 u r a m uri n nc cn q"
  by (rule quoteDigest_plain) (auto simp: digestResponse_def md5Hex_def Let_def dest!: hexEncode_plain split: if_splits)

lemma hex32_not_Nil: "hex32 n \<noteq> []"
  by (simp add: hex32_def put32_def)

lemma authorization_reads:
  assumes "QOP ch = [] \<or> QOP ch = runes ''auth''"
  shows "list_all2 (readsAs lo) (authorizationParts md5 ch cr) (authorizationDirectives md5 ch cr)"
proof -
  define response where "response = digestResponse md5 (Username cr) (Realm ch) (AKAResponse cr) (credMethod cr)
    (credURI cr) (Nonce ch) (hex32 (NC cr)) (CNonce cr) (QOP ch)"
  have quoted: "readsAs lo (quotedPart n (quoteDigest v)) (runes n, v)"
    if "n \<in> {''username'', ''realm'', ''nonce'', ''uri'', ''response'', ''opaque'', ''cnonce'', ''auts''}" for n v
    using that by (intro quotedPart_reads) (auto simp: directiveName_def)
  have "readsAs lo (quotedPart ''response'' response) (runes ''response'', response)"
    using quoted[of "''response''" response] by (simp add: response_def digestResponse_quoted)
  moreover have "readsAs lo (plainPart ''algorithm'' (runes ''AKAv1-MD5'')) (runes ''algorithm'', runes ''AKAv1-MD5'')"
    by (rule plainPart_reads) (auto simp: directiveName_def isSpace_def)
  moreover have "readsAs lo (plainPart ''qop'' (QOP ch)) (runes ''qop'', QOP ch)" if "QOP ch \<noteq> []"
    using assms that by (intro plainPart_reads) (auto simp: directiveName_def isSpace_def)
  moreover have "readsAs lo (plainPart ''nc'' (hex32 (NC cr))) (runes ''nc'', hex32 (NC cr))"
    using hex32_not_Nil by (intro plainPart_reads) (auto simp: directiveName_def hex32_def dest!: hexEncode_plain)
  ultimately show ?thesis
    unfolding authorizationParts_def authorizationDirectives_def Let_def response_def[symmetric]
    by (intro list_all2_appendI list.rel_intros) (auto intro!: quoted simp del: list.map)
qed

lemma foldl_update_map_of:
  "distinct (map fst kvs) \<Longrightarrow> foldl (\<lambda>m kv. m(fst kv \<mapsto> snd kv)) m kvs = m ++ map_of kvs"
proof (induction kvs arbitrary: m)
  case (Cons kv kvs)
  then show ?case by (cases kv) (auto simp: map_add_def fun_eq_iff dest: map_of_SomeD split: option.splits intro: rev_image_eqI)
qed simp

lemma distinct_directives: "distinct (map fst (authorizationDirectives md5 ch cr))"
  by (cases "Opaque ch = []"; cases "QOP ch = []"; cases "AUTS cr = []") (simp_all add: authorizationDirectives_def)

lemma parseDigestChallenge_Inr:
  assumes "parseDigestChallenge lo v proxy = Inr ch"
  shows "Realm ch \<noteq> []" "Nonce ch \<noteq> []" "EqualFold (Algorithm ch) (runes ''AKAv1-MD5'')"
    "QOP ch = [] \<or> QOP ch = runes ''auth''" "Proxy ch = proxy"
  using assms
  by (auto simp: parseDigestChallenge_def Let_def rbind_Inr_iff simp del: list.map split: option.splits if_splits)

text \<open>
  C27: Answering a challenge that was accepted, with any user name, URI, nonce and realm whatever their
  characters, the header parses as a digest whose directives are exactly the intended ones: quotes,
  backslashes and commas in them neither end a value nor add or replace a directive.
\<close>

theorem digest_no_injection:
  assumes "parseDigestChallenge lo v proxy = Inr ch"
  shows "\<exists>parameters. Cut 32 (buildDigestAuthorization md5 ch cr) = Some (runes ''Digest'', parameters)
    \<and> parseAuthDirectives lo parameters = Inr (map_of (authorizationDirectives md5 ch cr))"
proof -
  define ps where "ps = joinWith [44, 32] (authorizationParts md5 ch cr)"
  have "Cut 32 (runes ''Digest'' @ 32 # ps) = Some (runes ''Digest'', ps)"
    by (rule Cut_append) simp
  moreover have "parseAuthDirectives lo ps = Inr (map_of (authorizationDirectives md5 ch cr))"
    using directivesLoop_join[OF authorization_reads[OF parseDigestChallenge_Inr(4)[OF assms]], of lo Map.empty md5 cr]
      foldl_update_map_of[OF distinct_directives, of Map.empty md5 ch cr]
    by (simp add: parseAuthDirectives_def ps_def)
  ultimately show ?thesis by (simp add: buildDigestAuthorization_def ps_def)
qed

text \<open>
  The SIM is asked for the first 32 octets of the nonce, as RAND and AUTN, and only those: when
  it reports a synchronization failure the material is its 14-octet AUTS and no key, and otherwise its
  RES of 4 to 16 octets with its keys; in every other case there is no material at all.
\<close>

theorem aka_material_sound:
  assumes "authenticateAKA b64 sim preferring ch preference = Inr m"
  shows "\<exists>rand autn more r application. decodeAKANonce b64 (Nonce ch) = Inr (rand @ autn @ more)
    \<and> length rand = 16 \<and> length autn = 16 \<and> sim rand autn application = Some r
    \<and> (if SynchronizationFailure r
       then length (aka_auts m) = 14 \<and> aka_auts m = resultAUTS r \<and> aka_response m = [] \<and> aka_ck m = [] \<and> aka_ik m = []
       else aka_auts m = [] \<and> resultAUTS r = [] \<and> aka_response m = RES r
         \<and> 4 \<le> length (RES r) \<and> length (RES r) \<le> 16 \<and> aka_ck m = CK r \<and> aka_ik m = IK r)"
proof -
  define app where "app = (if preferring \<and> TrimSpace preference \<noteq> [] then Some preference else None)"
  obtain nonce r where nonce: "decodeAKANonce b64 (Nonce ch) = Inr nonce"
    and r: "sim (take 16 nonce) (take 16 (drop 16 nonce)) app = Some r"
    and m: "(if SynchronizationFailure r \<or> resultAUTS r \<noteq> [] then
            (if \<not> SynchronizationFailure r \<or> length (resultAUTS r) \<noteq> 14 then err MalformedSync
             else Inr \<lparr>aka_response = [], aka_auts = resultAUTS r, aka_ck = [], aka_ik = []\<rparr>)
          else rbind (extractRES r) (\<lambda>res.
            Inr \<lparr>aka_response = res, aka_auts = [], aka_ck = CK r, aka_ik = IK r\<rparr>)) = Inr m"
    using assms by (auto simp: authenticateAKA_def app_def[symmetric] rbind_Inr_iff simp del: if_split split: option.splits)
  have long: "32 \<le> length nonce"
    using nonce by (auto simp: decodeAKANonce_def split: option.splits if_splits)
  have "nonce = take 16 nonce @ take 16 (drop 16 nonce) @ drop 32 nonce"
    by (metis append_take_drop_id drop_drop numeral_Bit0)
  then show ?thesis using nonce r m long
    by (intro exI[of _ "take 16 nonce"] exI[of _ "take 16 (drop 16 nonce)"] exI[of _ "drop 32 nonce"] exI[of _ r] exI[of _ app])
      (auto simp: extractRES_def rbind_Inr_iff split: if_splits)
qed

subsection \<open>A sample challenge\<close>

definition sampleChallenge :: digestChallenge where
  "sampleChallenge = \<lparr>Realm = runes ''a,b'', Nonce = runes ''n'', Opaque = [], Algorithm = runes ''AKAv1-MD5'',
     QOP = runes ''auth'', Stale = False, Proxy = True\<rparr>"

lemma parse_sampleChallenge:
  "parseDigestChallenge lo (runes ''Digest realm=\"a,b\", nonce=n, algorithm=AKAv1-MD5, qop=auth'') True
    = Inr sampleChallenge"
proof -
  define parts where "parts = [quotedPart ''realm'' (quoteDigest (runes ''a,b'')), plainPart ''nonce'' (runes ''n''),
    plainPart ''algorithm'' (runes ''AKAv1-MD5''), plainPart ''qop'' (runes ''auth'')]"
  define kvs where "kvs = [(runes ''realm'', runes ''a,b''), (runes ''nonce'', runes ''n''),
    (runes ''algorithm'', runes ''AKAv1-MD5''), (runes ''qop'', runes ''auth'')]"
  have distinct: "distinct (map fst kvs)" by (simp add: kvs_def)
  have "list_all2 (readsAs lo) parts kvs"
    unfolding parts_def kvs_def
    by (intro list.rel_intros quotedPart_reads plainPart_reads) (auto simp: directiveName_def isSpace_def)
  from directivesLoop_join[OF this, of Map.empty]
  have "parseAuthDirectives lo (joinWith [44, 32] parts) = Inr (map_of kvs)"
    using foldl_update_map_of[of kvs Map.empty] by (simp add: parseAuthDirectives_def distinct)
  moreover have v: "runes ''Digest realm=\"a,b\", nonce=n, algorithm=AKAv1-MD5, qop=auth''
      = runes ''Digest'' @ 32 # joinWith [44, 32] parts"
    by (simp add: parts_def quotedPart_def plainPart_def quoteDigest_def replaceRune_def)
  moreover have "TrimSpace (runes ''Digest'' @ 32 # joinWith [44, 32] parts) = runes ''Digest'' @ 32 # joinWith [44, 32] parts"
    unfolding v[symmetric] by (rule TrimSpace_ends) (simp_all add: isSpace_def)
  moreover have "Cut 32 (runes ''Digest'' @ 32 # joinWith [44, 32] parts) = Some (runes ''Digest'', joinWith [44, 32] parts)"
    by (rule Cut_append) simp
  ultimately show ?thesis
    unfolding parseDigestChallenge_def v
    by (simp add: kvs_def directive_def sampleChallenge_def Let_def EqualFold_def foldRune_def TrimSpace_def isSpace_def)
qed

theorem digest_no_injection_witness:
  "\<exists>parameters. parseAuthDirectives (\<lambda>r. r) parameters = Inr (map_of (authorizationDirectives (\<lambda>bs. bs) sampleChallenge
     \<lparr>Username = runes ''a\", uri=\"x'', AKAResponse = [1, 2], AUTS = [], credURI = runes ''sip:b'',
       credMethod = runes ''REGISTER'', CNonce = runes ''c'', NC = 1\<rparr>))"
  using digest_no_injection[OF parse_sampleChallenge] by blast

theorem aka_material_sound_witness:
  "\<exists>m. authenticateAKA [\<lambda>_. Some (replicate 40 7)] (\<lambda>rand autn app. Some \<lparr>RES = [1, 2, 3, 4], CK = [5], IK = [6],
       resultAUTS = [], SynchronizationFailure = False\<rparr>) False sampleChallenge [] = Inr m
     \<and> (\<exists>rand autn more. decodeAKANonce [\<lambda>_. Some (replicate 40 7)] (Nonce sampleChallenge) = Inr (rand @ autn @ more)
        \<and> length rand = 16 \<and> length autn = 16 \<and> aka_response m = [1, 2, 3, 4])"
proof -
  define sim where "sim = (\<lambda>(rand :: byte list) (autn :: byte list) (app :: gostring option).
    Some \<lparr>RES = [1, 2, 3, 4], CK = [5], IK = [6], resultAUTS = [], SynchronizationFailure = False\<rparr>)"
  have "authenticateAKA [\<lambda>_. Some (replicate 40 7)] sim False sampleChallenge []
      = Inr \<lparr>aka_response = [1, 2, 3, 4], aka_auts = [], aka_ck = [5], aka_ik = [6]\<rparr>"
    by (simp add: authenticateAKA_def decodeAKANonce_def sim_def extractRES_def)
  from aka_material_sound[OF this] this show ?thesis unfolding sim_def by fastforce
qed

end
