(* ===== verification/RpTransport.thy ===== *)
theory RpTransport
  imports SmsDecode SipBuild
begin

text \<open>
  The relay layer of short messages over IMS: RP-DATA, RP-ERROR and RP results
  (\<open>ims/sms_runtime.go\<close>), the message references of submissions (\<open>ims/sms_submit_report.go\<close>) and the
  reports and the cache of SIM data downloads (\<open>ims/sms_download.go\<close>). Times are integers in
  nanoseconds, the zero \<open>time.Time\<close> is None.
\<close>

datatype rp_error = RPDUTruncated | AddressTruncated | AddressLength | OmittedUserData | UserDataLength
  | SMSCUnavailable | TPDULength | ReferenceBusy | InvalidRPResult | SMSRejected nat | SessionClosed | RPTimeout | ContextEnded

subsection \<open>RPDUs\<close>

record rpMessage =
  messageType :: byte
  reference :: byte
  tpdu :: "byte list"

fun skipAddresses :: "nat \<Rightarrow> byte list \<Rightarrow> nat \<Rightarrow> (rp_error, nat) res" where
  "skipAddresses 0 data i = Inr i"
| "skipAddresses (Suc n) data i =
    (if i \<ge> length data then err AddressTruncated
     else rbind (idx data i) (\<lambda>b.
       if unat b > length data - (i + 1) then err AddressLength
       else skipAddresses n data (i + 1 + unat b)))"

definition parseRPDU :: "byte list \<Rightarrow> (rp_error, rpMessage) res" where
  "parseRPDU data =
    (if length data < 2 then err RPDUTruncated
     else rbind (idx data 0) (\<lambda>t. rbind (idx data 1) (\<lambda>r.
       let result = \<lparr>messageType = t AND 0x07, reference = r, tpdu = []\<rparr> in
       if messageType result \<noteq> 1 then Inr result
       else rbind (skipAddresses 2 data 2) (\<lambda>i.
         if i \<ge> length data then err OmittedUserData
         else rbind (idx data i) (\<lambda>b.
           if unat b = 0 \<or> unat b > length data - (i + 1) then err UserDataLength
           else rbind (slice data (i + 1) (i + 1 + unat b)) (\<lambda>t. Inr (result\<lparr>tpdu := t\<rparr>)))))))"

definition normalizeE164 :: "gostring \<Rightarrow> gostring" where
  "normalizeE164 value =
    (case TrimSpace value of
       [] \<Rightarrow> []
     | c # s \<Rightarrow> (if decimal c \<or> c = 43 then [c] else []) @ filter decimal s)"

fun rpDigits :: "gostring \<Rightarrow> (rp_error, byte list) res" where
  "rpDigits [] = Inr []"
| "rpDigits [a] = (if \<not> decimal a then err SMSCUnavailable else Inr [push_bit 4 0x0F OR word_of_nat (a - 48)])"
| "rpDigits (a # b # s) =
    (if \<not> decimal a \<or> \<not> decimal b then err SMSCUnavailable
     else rbind (rpDigits s) (\<lambda>rest. Inr ((push_bit 4 (word_of_nat (b - 48)) OR word_of_nat (a - 48)) # rest)))"

definition encodeRPAddress :: "gostring \<Rightarrow> (rp_error, byte list) res" where
  "encodeRPAddress value =
    (let v = normalizeE164 value; digits = trimPlus v in
     if length digits < 3 \<or> length digits > 20 then err SMSCUnavailable
     else rbind (rpDigits digits) (\<lambda>encoded. Inr ((if hasPlus v then 0x91 else 0x81) # encoded)))"

definition buildRPData :: "byte \<Rightarrow> gostring \<Rightarrow> byte list \<Rightarrow> (rp_error, byte list) res" where
  "buildRPData ref smsc t =
    rbind (encodeRPAddress smsc) (\<lambda>address.
      if t = [] \<or> length t > 232 then err TPDULength
      else Inr ([0x00, ref, 0x00, word_of_nat (length address)] @ address @ [word_of_nat (length t)] @ t))"

definition buildRPError :: "byte \<Rightarrow> byte \<Rightarrow> byte list" where
  "buildRPError ref cause = [0x04, ref, 0x01, cause AND 0x7F]"

definition smsRecipientType :: "gostring \<Rightarrow> string" where
  "smsRecipientType recipient =
    (let r = TrimSpace recipient; digits = trimPlus r in
     if hasPlus r then ''international''
     else if length (bytesOf digits) \<le> 6 then ''short_code'' else ''national'')"

subsection \<open>Results of a submission\<close>

record rpSubmitResult =
  accepted :: bool
  cause :: "nat option"

definition parseRPResult :: "byte list \<Rightarrow> (rp_error, rpSubmitResult) res" where
  "parseRPResult data =
    (if length data < 2 then err InvalidRPResult
     else rbind (idx data 0) (\<lambda>t.
       if t \<noteq> 3 \<and> t \<noteq> 5 then err InvalidRPResult
       else rbind
         (if t = 5 then
            (if length data < 4 then err InvalidRPResult
             else rbind (idx data 2) (\<lambda>n.
               if unat n < 1 \<or> unat n > length data - 3 then err InvalidRPResult
               else rbind (idx data 3) (\<lambda>c. Inr (Some (unat (c AND 0x7F)), 3 + unat n))))
          else Inr (None, 2)) (\<lambda>(c, offset).
         if offset < length data then
           (if length data - offset < 2 then err InvalidRPResult
            else rbind (idx data offset) (\<lambda>iei. rbind (idx data (offset + 1)) (\<lambda>n.
              if iei \<noteq> 0x41 \<or> unat n \<noteq> length data - offset - 2 then err InvalidRPResult
              else Inr \<lparr>accepted = (t = 3), cause = c\<rparr>)))
         else Inr \<lparr>accepted = (t = 3), cause = c\<rparr>)))"

text \<open>A pending submission; the channel of its result has room for one.\<close>

record rpPending =
  pendingCallID :: gostring
  pendingResult :: "rpSubmitResult option"

record rpState =
  pendingRP :: "byte \<rightharpoonup> rpPending"
  nextRPReference :: byte
  rpReuseAfter :: "byte \<Rightarrow> int option"

definition before :: "int \<Rightarrow> int option \<Rightarrow> bool" where
  "before now t \<longleftrightarrow> (case t of Some u \<Rightarrow> now < u | None \<Rightarrow> False)"

abbreviation fiveMinutes :: int where
  "fiveMinutes \<equiv> 300 * 10 ^ 9"

fun beginLoop :: "nat \<Rightarrow> int \<Rightarrow> rpState \<Rightarrow> rpState \<times> (rp_error, byte) res" where
  "beginLoop 0 now s = (s, err ReferenceBusy)"
| "beginLoop (Suc n) now s =
    (let ref = nextRPReference s; s = s\<lparr>nextRPReference := ref + 1\<rparr> in
     if pendingRP s ref \<noteq> None \<or> before now (rpReuseAfter s ref) then beginLoop n now s
     else (s\<lparr>pendingRP := (pendingRP s)(ref \<mapsto> \<lparr>pendingCallID = [], pendingResult = None\<rparr>),
             rpReuseAfter := (rpReuseAfter s)(ref := Some (now + fiveMinutes))\<rparr>, Inr ref))"

definition beginRP :: "int \<Rightarrow> rpState \<Rightarrow> rpState \<times> (rp_error, byte) res" where
  "beginRP now s = beginLoop 256 now s"

definition endRP :: "byte \<Rightarrow> rpState \<Rightarrow> rpState" where
  "endRP ref s = s\<lparr>pendingRP := (pendingRP s)(ref := None)\<rparr>"

text \<open>\<open>sendSIPMessageWithIdentity\<close> records the Call-ID of a request that carries RP-DATA or RP-SMMA.\<close>

definition bindCallID :: "byte list \<Rightarrow> gostring \<Rightarrow> rpState \<Rightarrow> rpState" where
  "bindCallID body callID s =
    (if length body \<ge> 2 \<and> (body ! 0 = 0 \<or> body ! 0 = 6) then
       (case pendingRP s (body ! 1) of
          Some p \<Rightarrow> s\<lparr>pendingRP := (pendingRP s)(body ! 1 \<mapsto> p\<lparr>pendingCallID := callID\<rparr>)\<rparr>
        | None \<Rightarrow> s)
     else s)"

definition receiveRPResult :: "(rune \<Rightarrow> rune) \<Rightarrow> sipRequest \<Rightarrow> byte list \<Rightarrow> rpState \<Rightarrow> rpState" where
  "receiveRPResult lo req data s =
    (case parseRPResult data of
       Inl _ \<Rightarrow> s
     | Inr r \<Rightarrow>
         (case pendingRP s (data ! 1) of
            None \<Rightarrow> s
          | Some p \<Rightarrow>
              let reply = TrimSpace (reqValue lo req ''In-Reply-To'') in
              if reply \<noteq> [] \<and> reply \<noteq> pendingCallID p then s
              else (case pendingResult p of
                      None \<Rightarrow> s\<lparr>pendingRP := (pendingRP s)(data ! 1 \<mapsto> p\<lparr>pendingResult := Some r\<rparr>)\<rparr>
                    | Some _ \<Rightarrow> s)))"

text \<open>What ends the wait when no result has come: the caller, the session, or the timer.\<close>

datatype wait_end = CallerDone | SessionDone | TimerFired

definition awaitRP :: "rpPending \<Rightarrow> wait_end \<Rightarrow> (rp_error, rpSubmitResult) res" where
  "awaitRP p otherwise =
    (case pendingResult p of
       Some r \<Rightarrow> (case cause r of Some c \<Rightarrow> err (SMSRejected c) | None \<Rightarrow> Inr r)
     | None \<Rightarrow> (case otherwise of CallerDone \<Rightarrow> err ContextEnded | SessionDone \<Rightarrow> err SessionClosed | TimerFired \<Rightarrow> err RPTimeout))"

subsection \<open>SIM data downloads\<close>

record SMSPPResult =
  uiccStatus :: "16 word"
  uiccData :: "byte list"

text \<open>\<open>outcome\<close> is None where the handler failed; a failing handler may still have set a status.\<close>

definition simDownloadReport :: "byte \<Rightarrow> byte \<Rightarrow> byte \<Rightarrow> SMSPPResult \<Rightarrow> bool \<Rightarrow> byte list \<times> bool" where
  "simDownloadReport ref pid dcs result0 failed =
    (let result1 = (if failed then result0\<lparr>uiccData := []\<rparr> else result0);
         success0 = (\<not> failed \<and> (uiccStatus result1 = 0x9000 \<or> drop_bit 8 (uiccStatus result1) = 0x91));
         fcs = (if \<not> failed \<and> uiccStatus result1 = 0x9300 then 0xD4 else 0xD5);
         success = (if length (uiccData result1) > 140 then False else success0);
         result = (if length (uiccData result1) > 140 then result1\<lparr>uiccData := []\<rparr> else result1);
         report = (if \<not> success then buildRPError ref 111 else [0x02, ref]) in
     if success \<and> uiccData result = [] then (report, True)
     else
       let udl = (if dcs AND 0x8C = 0 \<or> dcs AND 0xF4 = 0xF0 then length (uiccData result) * 8 div 7
                  else length (uiccData result));
           tpdu = [0] @ (if \<not> success then [fcs] else [])
             @ (if uiccData result = [] then [0] else [7, pid, dcs, word_of_nat udl] @ uiccData result) in
       (report @ [0x41, word_of_nat (length tpdu)] @ tpdu, success))"

text \<open>The reports already given, by digest of the message, and the digests in the order they came.\<close>

record simCache =
  simDownloadReports :: "byte list \<rightharpoonup> byte list"
  simDownloadOrder :: "byte list list"

definition downloadKey :: "(rune \<Rightarrow> rune) \<Rightarrow> (byte list \<Rightarrow> byte list) \<Rightarrow> sipRequest \<Rightarrow> byte list \<Rightarrow> byte list" where
  "downloadKey lo sha256 req payload =
    sha256 (bytesOf (reqValue lo req ''Call-ID'') @ [0] @ bytesOf (reqValue lo req ''CSeq'') @ [0] @ payload)"

definition storeReport :: "byte list \<Rightarrow> byte list \<Rightarrow> simCache \<Rightarrow> simCache" where
  "storeReport key report c0 =
    (let c = (if length (simDownloadOrder c0) = 64
              then \<lparr>simDownloadReports = (simDownloadReports c0)(hd (simDownloadOrder c0) := None),
                    simDownloadOrder = tl (simDownloadOrder c0)\<rparr>
              else c0) in
     \<lparr>simDownloadReports = (simDownloadReports c)(key \<mapsto> report), simDownloadOrder = simDownloadOrder c @ [key]\<rparr>)"

text \<open>
  \<open>uicc\<close> is the handler: the result it sets and whether it failed; None where none is configured. The
  second part of the result is whether the UICC was asked.
\<close>

definition processSIMDownload ::
    "(rune \<Rightarrow> rune) \<Rightarrow> (byte list \<Rightarrow> byte list) \<Rightarrow> (byte list \<Rightarrow> byte list \<Rightarrow> SMSPPResult \<times> bool) option \<Rightarrow>
     sipRequest \<Rightarrow> rpMessage \<Rightarrow> byte list \<Rightarrow> byte \<Rightarrow> byte \<Rightarrow> simCache \<Rightarrow> (byte list \<times> bool) \<times> simCache" where
  "processSIMDownload lo sha256 uicc req rpdu payload pid dcs cache =
    (let key = downloadKey lo sha256 req payload in
     case simDownloadReports cache key of
       Some cached \<Rightarrow> ((cached, False), cache)
     | None \<Rightarrow>
         let (result, failed) = (case uicc of Some ask \<Rightarrow> ask (tpdu rpdu) payload
                                 | None \<Rightarrow> (\<lparr>uiccStatus = 0, uiccData = []\<rparr>, True));
             report = fst (simDownloadReport (reference rpdu) pid dcs result failed) in
         ((report, uicc \<noteq> None), storeReport key report cache))"

subsection \<open>Inbound messages\<close>

record ReceivedSMS =
  rsCallID :: gostring
  rsFrom :: gostring
  rsText :: gostring
  rsTimestamp :: "sms_time option"
  rsEncoding :: SMSEncoding
  rsConcat :: "SMSConcatInfo option"
  rsReference :: byte
  rsRawRPDU :: gostring
  rsRawTPDU :: gostring
  rsDecodeError :: "sms_error fault option"

record ReceivedSMSStatus =
  rtCallID :: gostring
  rtTo :: gostring
  rtMessageReference :: nat
  rtStatusCode :: nat
  rtDeliveryStatus :: gostring
  rtServiceCenterTimestamp :: "sms_time option"
  rtDischargeTimestamp :: "sms_time option"
  rtReference :: byte
  rtRawRPDU :: gostring
  rtRawTPDU :: gostring
  rtDecodeError :: "sms_error fault option"

text \<open>The callbacks of the provider, the standard library's MIME reader, and the tables of the decoder.\<close>

record inbound_env =
  lowerTable :: "rune \<Rightarrow> rune"
  textTables :: text_env
  sha256 :: "byte list \<Rightarrow> byte list"
  extractPayload :: "sipRequest \<Rightarrow> byte list option"
  OnSMS :: "(ReceivedSMS \<Rightarrow> bool) option"
  OnSMSStatus :: "(ReceivedSMSStatus \<Rightarrow> bool) option"
  OnSIMDataDownload :: "(byte list \<Rightarrow> byte list \<Rightarrow> SMSPPResult \<times> bool) option"

text \<open>What the handler does, in order: a message kept, a delivery report sent, the notice of free memory.\<close>

datatype inbound_effect =
    Kept ReceivedSMS bool | KeptStatus ReceivedSMSStatus bool | Downloaded bool | Report "byte list" | MemoryNotice

record inbound_state =
  rp :: rpState
  simReports :: simCache

definition invokeSMSCallback :: "inbound_env \<Rightarrow> ReceivedSMS \<Rightarrow> bool" where
  "invokeSMSCallback env m = (case OnSMS env of None \<Rightarrow> True | Some f \<Rightarrow> f m)"

definition invokeSMSStatusCallback :: "inbound_env \<Rightarrow> ReceivedSMSStatus \<Rightarrow> bool" where
  "invokeSMSStatusCallback env m = (case OnSMSStatus env of None \<Rightarrow> True | Some f \<Rightarrow> f m)"

definition intPtrValue :: "nat option \<Rightarrow> nat" where
  "intPtrValue p = (case p of Some n \<Rightarrow> n | None \<Rightarrow> 0)"

definition receivedStatus ::
    "gostring \<Rightarrow> SMSMessage \<Rightarrow> rpMessage \<Rightarrow> byte list \<Rightarrow> sms_error fault option \<Rightarrow> ReceivedSMSStatus" where
  "receivedStatus callID m rpdu payload e =
    \<lparr>rtCallID = callID, rtTo = msgTo m, rtMessageReference = intPtrValue (msgMessageReference m),
     rtStatusCode = intPtrValue (msgStatusCode m), rtDeliveryStatus = msgDeliveryStatus m,
     rtServiceCenterTimestamp = msgServiceCenterTimestamp m, rtDischargeTimestamp = msgDischargeTimestamp m,
     rtReference = reference rpdu, rtRawRPDU = hexUpper payload, rtRawTPDU = hexUpper (tpdu rpdu), rtDecodeError = e\<rparr>"

definition receivedSMS ::
    "gostring \<Rightarrow> SMSMessage \<Rightarrow> rpMessage \<Rightarrow> byte list \<Rightarrow> sms_error fault option \<Rightarrow> ReceivedSMS" where
  "receivedSMS callID m rpdu payload e =
    \<lparr>rsCallID = callID, rsFrom = msgFrom m, rsText = msgText m, rsTimestamp = msgServiceCenterTimestamp m,
     rsEncoding = msgEncoding m, rsConcat = msgConcat m, rsReference = reference rpdu,
     rsRawRPDU = hexUpper payload, rsRawTPDU = hexUpper (tpdu rpdu), rsDecodeError = e\<rparr>"

definition deliverTPDU ::
    "inbound_env \<Rightarrow> sipRequest \<Rightarrow> byte list \<Rightarrow> rpMessage \<Rightarrow> SMSMessage \<Rightarrow> sms_error fault option \<Rightarrow> inbound_state \<Rightarrow>
     inbound_effect list \<times> inbound_state" where
  "deliverTPDU env req payload rpdu m e s =
    (let callID = TrimSpace (reqValue (lowerTable env) req ''Call-ID'');
         refuse = (\<lambda>c. Report (buildRPError (reference rpdu) c)) in
     if msgSIMDataDownload m then
       (if e \<noteq> None then ([refuse 95], s)
        else case processSIMDownload (lowerTable env) (sha256 env) (OnSIMDataDownload env) req rpdu payload
                    (word_of_nat (msgProtocolID m)) (word_of_nat (msgDataCodingScheme m)) (simReports s) of
          ((report, asked), cache) \<Rightarrow> ([Downloaded asked, Report report], s\<lparr>simReports := cache\<rparr>))
     else if msgDirection m = SMSDirectionStatusReport then
       (let status = receivedStatus callID m rpdu payload e in
        if (msgMessageReference m = None \<or> msgStatusCode m = None) \<and> e = None then ([refuse 95], s)
        else if \<not> invokeSMSStatusCallback env status then ([KeptStatus status False, refuse 111], s)
        else ([KeptStatus status True, Report [0x02, reference rpdu]], s))
     else if msgDirection m = SMSDirectionReceived \<or> e \<noteq> None then
       (let received = receivedSMS callID m rpdu payload e in
        if \<not> invokeSMSCallback env received then ([Kept received False, refuse 111], s)
        else ([Kept received True, Report [0x02, reference rpdu], MemoryNotice], s))
     else ([refuse 95], s))"

definition processSMSMessage ::
    "inbound_env \<Rightarrow> sipRequest \<Rightarrow> inbound_state \<Rightarrow> inbound_effect list \<times> inbound_state" where
  "processSMSMessage env req s =
    (case extractPayload env req of
       None \<Rightarrow> ([Report (buildRPError 0 95)], s)
     | Some payload \<Rightarrow>
         (case parseRPDU payload of
            Inl _ \<Rightarrow> ([Report (buildRPError (if length payload > 1 then payload ! 1 else 0) 95)], s)
          | Inr rpdu \<Rightarrow>
              if messageType rpdu \<noteq> 1 then
                ([], s\<lparr>rp := receiveRPResult (lowerTable env) req payload (rp s)\<rparr>)
              else (case DecodeSMSDeliverTPDU (textTables env) (tpdu rpdu) of
                  (Some m, e) \<Rightarrow> deliverTPDU env req payload rpdu m e s
                | (None, e) \<Rightarrow>
                    deliverTPDU env req payload rpdu
                      (blankMessage SMSStatusUnknown SMSDirectionUnknown SMSEncodingUnknown []) e s)))"

subsection \<open>Submissions\<close>

record SMSSubmitPart =
  sp_Part :: nat
  sp_Total :: nat
  sp_Reference :: byte
  sp_SIPCode :: int
  sp_RPAcknowledged :: bool
  sp_RPCause :: "nat option"
  sp_Accepted :: bool
  sp_SubmissionStatus :: string

record SMSSubmitResult =
  sr_PartsTotal :: nat
  sr_PartsAttempted :: nat
  sr_PartsAccepted :: nat
  sr_AllPartsAccepted :: bool
  sr_SubmissionStatus :: string
  sr_PartResults :: "SMSSubmitPart list"

datatype submit_error = PartContext | PartReserve "rp_error fault" | PartTruncated | PartBuild "rp_error fault"
  | PartTransport | PartResult "rp_error fault" | PartRejected int

text \<open>
  What the outside does for one part: the time, whether the context has ended, the Call-ID of the
  MESSAGE, its final response and whether the transaction failed, the requests that arrive until the
  wait is over, and what ends the wait if none of them answers it.
\<close>

record part_env =
  pe_time :: int
  pe_ctxDone :: bool
  pe_callID :: gostring
  pe_response :: "int option"
  pe_sendErr :: bool
  pe_arrivals :: "(sipRequest \<times> byte list) list"
  pe_end :: wait_end

definition arrive :: "(rune \<Rightarrow> rune) \<Rightarrow> sipRequest \<times> byte list \<Rightarrow> rpState \<Rightarrow> rpState" where
  "arrive lo a s = receiveRPResult lo (fst a) (snd a) s"

definition success2xx :: "int option \<Rightarrow> bool" where
  "success2xx r \<longleftrightarrow> (case r of Some c \<Rightarrow> 200 \<le> c \<and> c < 300 | None \<Rightarrow> False)"

definition partOutcome ::
    "SMSSubmitTPDU \<Rightarrow> byte \<Rightarrow> part_env \<Rightarrow> rpPending option \<Rightarrow> SMSSubmitPart \<times> submit_error option" where
  "partOutcome part ref e pending =
    (let p = \<lparr>sp_Part = st_Part part, sp_Total = st_Total part, sp_Reference = ref,
              sp_SIPCode = (case pe_response e of Some c \<Rightarrow> c | None \<Rightarrow> 0), sp_RPAcknowledged = False,
              sp_RPCause = None, sp_Accepted = False, sp_SubmissionStatus = ''rejected_by_ims''\<rparr> in
     if \<not> pe_sendErr e \<and> success2xx (pe_response e) then
       (case pending of
          None \<Rightarrow> (p, Some PartTransport)
        | Some q \<Rightarrow>
            (case awaitRP q (pe_end e) of
               Inr r \<Rightarrow>
                 if accepted r then
                   (p\<lparr>sp_RPAcknowledged := True, sp_RPCause := cause r, sp_Accepted := True,
                      sp_SubmissionStatus := ''accepted_by_smsc''\<rparr>, None)
                 else (p\<lparr>sp_RPCause := cause r, sp_SubmissionStatus :=
                         (if cause r \<noteq> None then ''rejected_by_smsc'' else ''rp_unconfirmed'')\<rparr>, None)
             | Inl f \<Rightarrow>
                 (case pendingResult q of
                    Some r \<Rightarrow> (p\<lparr>sp_RPCause := cause r, sp_SubmissionStatus :=
                       (if cause r \<noteq> None then ''rejected_by_smsc'' else ''rp_unconfirmed'')\<rparr>, Some (PartResult f))
                  | None \<Rightarrow> (p\<lparr>sp_SubmissionStatus := ''rp_unconfirmed''\<rparr>, Some (PartResult f)))))
     else (p, if pe_sendErr e then Some PartTransport else None))"

text \<open>The counters of the result after a part was attempted.\<close>

definition recordPart :: "SMSSubmitPart \<Rightarrow> SMSSubmitResult \<Rightarrow> SMSSubmitResult" where
  "recordPart p r = r\<lparr>sr_PartsAttempted := sr_PartsAttempted r + 1,
     sr_PartsAccepted := sr_PartsAccepted r + of_bool (sp_Accepted p), sr_PartResults := sr_PartResults r @ [p]\<rparr>"

text \<open>
  The loop of \<open>SendSMS\<close> over the parts. The reference of a part is released when its turn ends. The
  deferred releases at the end of \<open>SendSMS\<close> repeat that and are left out: they could find a reference
  reserved again only in a send of more than the five minutes for which it is not given out. A MESSAGE
  that is sent is logged with its RP-DATA.
\<close>

fun submitParts ::
    "(rune \<Rightarrow> rune) \<Rightarrow> gostring \<Rightarrow> (SMSSubmitTPDU \<times> part_env) list \<Rightarrow> SMSSubmitResult \<Rightarrow> rpState \<Rightarrow>
     (SMSSubmitResult \<times> submit_error option \<times> byte list list) \<times> rpState" where
  "submitParts lo smsc [] r s =
    ((r\<lparr>sr_AllPartsAccepted := True, sr_SubmissionStatus := ''accepted_by_smsc''\<rparr>, None, []), s)"
| "submitParts lo smsc ((part, e) # rest) r s =
    (if pe_ctxDone e then ((r\<lparr>sr_SubmissionStatus := ''failed''\<rparr>, Some PartContext, []), s)
     else case beginRP (pe_time e) s of
       (s, Inl f) \<Rightarrow> ((r, Some (PartReserve f), []), s)
     | (s, Inr ref) \<Rightarrow>
         if length (st_TPDU part) < 2 then ((r, Some PartTruncated, []), endRP ref s)
         else case buildRPData ref smsc ((st_TPDU part)[1 := ref]) of
           Inl f \<Rightarrow> ((r, Some (PartBuild f), []), endRP ref s)
         | Inr rpdu \<Rightarrow>
             let s = fold (arrive lo) (pe_arrivals e) (bindCallID rpdu (pe_callID e) s);
                 (p, sendErr) = partOutcome part ref e (pendingRP s ref);
                 s = endRP ref s;
                 r = recordPart p r in
             case sendErr of
               Some f \<Rightarrow> ((r\<lparr>sr_SubmissionStatus := ''failed''\<rparr>, Some f, [rpdu]), s)
             | None \<Rightarrow>
                 if \<not> sp_Accepted p
                 then ((r\<lparr>sr_SubmissionStatus := ''rejected''\<rparr>, Some (PartRejected (sp_SIPCode p)), [rpdu]), s)
                 else (case submitParts lo smsc rest r s of
                         ((r', f, sent), s') \<Rightarrow> ((r', f, rpdu # sent), s')))"

definition emptyResult :: "nat \<Rightarrow> SMSSubmitResult" where
  "emptyResult n = \<lparr>sr_PartsTotal = n, sr_PartsAttempted = 0, sr_PartsAccepted = 0, sr_AllPartsAccepted = False,
     sr_SubmissionStatus = ''pending'', sr_PartResults = []\<rparr>"

end
