(* ===== verification/RpTransport_Props.thy ===== *)
theory RpTransport_Props
  imports RpTransport SmsDecode_Total
begin

text \<open>
  Short messages over IMS: message references are not reused while an answer to them can still come,
  a submission is reported accepted only when the service centre acknowledged every part, an incoming
  message is acknowledged only after it was kept, and the UICC sees a download once.
\<close>

subsection \<open>Message references\<close>

text \<open>The reference table with the log of what it handed out; time is whatever the clock says.\<close>

type_synonym rp_log = "rpState \<times> (int \<times> byte) list"

inductive rp_step :: "(rune \<Rightarrow> rune) \<Rightarrow> rp_log \<Rightarrow> rp_log \<Rightarrow> bool" for lo where
  begin_ok: "beginRP now s = (s', Inr ref) \<Longrightarrow> rp_step lo (s, h) (s', (now, ref) # h)"
| begin_busy: "beginRP now s = (s', Inl f) \<Longrightarrow> rp_step lo (s, h) (s', h)"
| end_ref: "rp_step lo (s, h) (endRP ref s, h)"
| bind_id: "rp_step lo (s, h) (bindCallID body callID s, h)"
| result: "rp_step lo (s, h) (receiveRPResult lo req data s, h)"

definition rp_start :: "rp_log \<Rightarrow> bool" where
  "rp_start l \<longleftrightarrow> pendingRP (fst l) = Map.empty \<and> rpReuseAfter (fst l) = (\<lambda>_. None) \<and> snd l = []"

definition rp_inv :: "rp_log \<Rightarrow> bool" where
  "rp_inv l \<longleftrightarrow> (\<forall>(t, ref) \<in> set (snd l). \<exists>u. rpReuseAfter (fst l) ref = Some u \<and> t + fiveMinutes \<le> u)"

lemma beginLoop_Inr:
  "beginLoop n now s = (s', Inr ref) \<Longrightarrow>
   pendingRP s ref = None \<and> \<not> before now (rpReuseAfter s ref)
   \<and> pendingRP s' = (pendingRP s)(ref \<mapsto> \<lparr>pendingCallID = [], pendingResult = None\<rparr>)
   \<and> rpReuseAfter s' = (rpReuseAfter s)(ref := Some (now + fiveMinutes))"
  by (induction n now s rule: beginLoop.induct) (auto simp: Let_def split: if_splits)

lemmas beginRP_Inr = beginLoop_Inr[of 256, folded beginRP_def]

lemma beginLoop_Inl:
  "beginLoop n now s = (s', Inl f) \<Longrightarrow>
   f = Fail ReferenceBusy \<and> pendingRP s' = pendingRP s \<and> rpReuseAfter s' = rpReuseAfter s"
  by (induction n now s rule: beginLoop.induct) (auto simp: Let_def split: if_splits)

lemmas beginRP_Inl = beginLoop_Inl[of 256, folded beginRP_def]

lemma reuse_unchanged [simp]:
  "rpReuseAfter (endRP ref s) = rpReuseAfter s"
  "rpReuseAfter (bindCallID body callID s) = rpReuseAfter s"
  "rpReuseAfter (receiveRPResult lo req data s) = rpReuseAfter s"
  by (auto simp: endRP_def bindCallID_def receiveRPResult_def Let_def split: option.splits sum.splits)

interpretation refs: guarded_system rp_start "rp_step lo" rp_inv for lo
proof
  show "rp_start l \<Longrightarrow> rp_inv l" for l by (simp add: rp_start_def rp_inv_def)
  fix l l' assume inv: "rp_inv l" and step: "rp_step lo l l'"
  from step show "rp_inv l'"
  proof cases
    case (begin_ok now s s' ref h)
    note b = beginRP_Inr[OF begin_ok(3)]
    have "t \<le> now" if "(t, ref) \<in> set h" for t
      using inv b that by (fastforce simp: rp_inv_def begin_ok(1) before_def)
    then show ?thesis using inv b by (fastforce simp: rp_inv_def begin_ok(1,2))
  next
    case (begin_busy now s s' f h)
    then show ?thesis using inv beginRP_Inl[OF begin_busy(3)] by (simp add: rp_inv_def)
  qed (use inv in \<open>simp_all add: rp_inv_def\<close>)
qed

text \<open>
  C28: Whatever submissions, releases and results have happened, a message reference that is handed out
  is not pending, and it was last handed out at least five minutes ago; a result that arrives late
  cannot be taken for the answer to another message.
\<close>

theorem rp_reference_fresh:
  assumes "reachable rp_start (rp_step lo) (s, h)" and "beginRP now s = (s', Inr ref)"
  shows "pendingRP s ref = None \<and> (\<forall>t. (t, ref) \<in> set h \<longrightarrow> t + fiveMinutes \<le> now)"
proof -
  have "rp_inv (s, h)" using assms(1) by (rule refs.reachable_inv)
  then show ?thesis using beginRP_Inr[OF assms(2)] by (fastforce simp: rp_inv_def before_def)
qed

lemma beginRP_example:
  "beginRP now \<lparr>pendingRP = Map.empty, nextRPReference = 9, rpReuseAfter = (\<lambda>_. None)\<rparr>
   = (\<lparr>pendingRP = [9 \<mapsto> \<lparr>pendingCallID = [], pendingResult = None\<rparr>], nextRPReference = 10,
       rpReuseAfter = (\<lambda>_. None)(9 := Some (now + fiveMinutes))\<rparr>, Inr 9)"
  by (simp add: beginRP_def eval_nat_numeral before_def)

definition rpSample :: rpState where
  "rpSample = \<lparr>pendingRP = Map.empty, nextRPReference = 9, rpReuseAfter = (\<lambda>_. None)\<rparr>"

theorem rp_reference_fresh_witness:
  "\<exists>s h s'. reachable rp_start (rp_step (\<lambda>r. r)) (s, h) \<and> (0, 9) \<in> set h
    \<and> beginRP 1 s = (s', Inr 10) \<and> pendingRP s 10 = None \<and> (10 :: byte) \<notin> snd ` set h"
proof -
  define s1 where "s1 = fst (beginRP 0 rpSample)"
  have s1: "beginRP 0 rpSample = (s1, Inr 9)" by (simp add: s1_def rpSample_def beginRP_example)
  have "reachable rp_start (rp_step (\<lambda>r. r)) (rpSample, [])"
    by (rule reachable.start) (simp add: rp_start_def rpSample_def)
  then have run: "reachable rp_start (rp_step (\<lambda>r. r)) (s1, [(0, 9)])"
    using rp_step.begin_ok[OF s1] by (rule reachable.next_step)
  obtain s2 where s2: "beginRP 1 s1 = (s2, Inr 10)"
    by (simp add: s1_def rpSample_def beginRP_example) (simp add: beginRP_def eval_nat_numeral before_def)
  have "pendingRP s1 10 = None" using rp_reference_fresh[OF run s2] by blast
  then show ?thesis using run s2 by fastforce
qed

subsection \<open>Answers to a submission\<close>

definition answers :: "(rune \<Rightarrow> rune) \<Rightarrow> byte \<Rightarrow> gostring \<Rightarrow> sipRequest \<times> byte list \<Rightarrow> rpSubmitResult \<Rightarrow> bool" where
  "answers lo ref callID a r \<longleftrightarrow> parseRPResult (snd a) = Inr r \<and> snd a ! 1 = ref \<and>
     (let reply = TrimSpace (reqValue lo (fst a) ''In-Reply-To'') in reply = [] \<or> reply = callID)"

lemma receive_pending:
  assumes "pendingRP s ref = Some q"
  shows "\<exists>q'. pendingRP (arrive lo a s) ref = Some q' \<and> pendingCallID q' = pendingCallID q
    \<and> (q' = q \<or> (\<exists>r. pendingResult q' = Some r \<and> answers lo ref (pendingCallID q) a r))"
  using assms
  by (auto simp: arrive_def receiveRPResult_def answers_def Let_def split: sum.splits option.splits)

lemma arrivals_pending:
  assumes "pendingRP s ref = Some q"
  shows "\<exists>q'. pendingRP (fold (arrive lo) as s) ref = Some q' \<and> pendingCallID q' = pendingCallID q
    \<and> (\<forall>r. pendingResult q' = Some r \<longrightarrow>
         pendingResult q = Some r \<or> (\<exists>a \<in> set as. answers lo ref (pendingCallID q) a r))"
  using assms
proof (induction as arbitrary: s q)
  case (Cons a as)
  obtain p where p: "pendingRP (arrive lo a s) ref = Some p" "pendingCallID p = pendingCallID q"
    "p = q \<or> (\<exists>r. pendingResult p = Some r \<and> answers lo ref (pendingCallID q) a r)"
    using receive_pending[OF Cons.prems, of lo a] by blast
  show ?case using Cons.IH[OF p(1)] p(2,3) by fastforce
qed simp

lemma buildRPData_Inr:
  assumes "buildRPData ref smsc t = Inr rpdu"
  shows "rpdu ! 0 = 0 \<and> rpdu ! 1 = ref \<and> 2 \<le> length rpdu"
  using assms by (auto simp: buildRPData_def rbind_Inr_iff split: if_splits)

text \<open>One part: what the outcome rests on.\<close>

lemma part_accepted:
  assumes began: "beginRP now s = (s1, Inr ref)" and build: "buildRPData ref smsc t = Inr rpdu"
    and s2: "s2 = fold (arrive lo) as (bindCallID rpdu callID s1)"
    and out: "partOutcome part ref e (pendingRP s2 ref) = (p, f)" and "sp_Accepted p"
  shows "f = None \<and> sp_Reference p = ref \<and> (\<exists>a \<in> set as. \<exists>r. answers lo ref callID a r \<and> accepted r)"
proof -
  have "pendingRP s1 ref = Some \<lparr>pendingCallID = [], pendingResult = None\<rparr>"
    using beginRP_Inr[OF began] by simp
  then have "pendingRP (bindCallID rpdu callID s1) ref = Some \<lparr>pendingCallID = callID, pendingResult = None\<rparr>"
    using buildRPData_Inr[OF build] by (simp add: bindCallID_def)
  from arrivals_pending[OF this, of lo as] obtain q where q: "pendingRP s2 ref = Some q"
    "\<And>r. pendingResult q = Some r \<Longrightarrow> \<exists>a \<in> set as. answers lo ref callID a r"
    unfolding s2 by auto
  show ?thesis using out \<open>sp_Accepted p\<close> q
    by (auto simp: partOutcome_def awaitRP_def Let_def split: if_splits option.splits sum.splits wait_end.splits)
qed

lemma parseRPResult_ack: "parseRPResult data = Inr r \<Longrightarrow> accepted r \<Longrightarrow> data ! 0 = 3"
  by (auto simp: parseRPResult_def rbind_Inr_iff idx_def split: if_splits)

text \<open>Every part of a list was sent and acknowledged.\<close>

definition acknowledged ::
    "(rune \<Rightarrow> rune) \<Rightarrow> gostring \<Rightarrow> (SMSSubmitTPDU \<times> part_env) \<Rightarrow> byte list \<Rightarrow> bool" where
  "acknowledged lo smsc item rpdu \<longleftrightarrow>
     (\<exists>ref. buildRPData ref smsc ((st_TPDU (fst item))[1 := ref]) = Inr rpdu
       \<and> (\<exists>(req, data) \<in> set (pe_arrivals (snd item)). data ! 0 = 3 \<and> data ! 1 = ref
            \<and> (let reply = TrimSpace (reqValue lo req ''In-Reply-To'') in reply = [] \<or> reply = pe_callID (snd item))))"

lemma submitParts_acknowledged:
  "submitParts lo smsc items r0 s = ((r, f, sent), s') \<Longrightarrow> \<not> sr_AllPartsAccepted r0 \<Longrightarrow> sr_AllPartsAccepted r \<Longrightarrow>
   f = None \<and> list_all2 (acknowledged lo smsc) items sent
   \<and> sr_PartsAccepted r = sr_PartsAccepted r0 + length items \<and> length (sr_PartResults r) = length (sr_PartResults r0) + length items"
proof (induction items arbitrary: r0 s r f sent s')
  case (Cons item rest)
  obtain part e where item: "item = (part, e)" by fastforce
  obtain s1 b where b: "beginRP (pe_time e) s = (s1, b)" by fastforce
  have nd: "\<not> pe_ctxDone e" using Cons.prems item by (auto split: if_splits)
  obtain ref where ref: "b = Inr ref" using Cons.prems item nd b by (cases b) auto
  have len: "\<not> length (st_TPDU part) < 2" using Cons.prems item nd b ref by (auto split: if_splits)
  obtain rpdu where rpdu: "buildRPData ref smsc ((st_TPDU part)[1 := ref]) = Inr rpdu"
    using Cons.prems item nd b ref len by (cases "buildRPData ref smsc ((st_TPDU part)[1 := ref])") auto
  define s2 where "s2 = fold (arrive lo) (pe_arrivals e) (bindCallID rpdu (pe_callID e) s1)"
  obtain p g where p: "partOutcome part ref e (pendingRP s2 ref) = (p, g)" by fastforce
  define r2 where "r2 = recordPart p r0"
  have run: "(case g of
               Some f \<Rightarrow> ((r2\<lparr>sr_SubmissionStatus := ''failed''\<rparr>, Some f, [rpdu]), endRP ref s2)
             | None \<Rightarrow>
                 if \<not> sp_Accepted p
                 then ((r2\<lparr>sr_SubmissionStatus := ''rejected''\<rparr>, Some (PartRejected (sp_SIPCode p)), [rpdu]), endRP ref s2)
                 else (case submitParts lo smsc rest r2 (endRP ref s2) of
                         ((r', f, sent), s') \<Rightarrow> ((r', f, rpdu # sent), s'))) = ((r, f, sent), s')"
    unfolding r2_def using Cons.prems(1) item nd b ref len rpdu p
    by (simp add: Let_def s2_def[symmetric] split del: if_split)
  have no: "\<not> sr_AllPartsAccepted r2" using Cons.prems(2) by (simp add: r2_def recordPart_def)
  then have acc: "g = None" "sp_Accepted p" using run Cons.prems(3) by (auto split: option.splits if_splits)
  obtain sent' where rec: "submitParts lo smsc rest r2 (endRP ref s2) = ((r, f, sent'), s')" and sent: "sent = rpdu # sent'"
    using run acc by (auto split: prod.splits)
  have "acknowledged lo smsc (part, e) rpdu"
    using part_accepted[OF b[unfolded ref] rpdu s2_def p acc(2)] rpdu parseRPResult_ack
    unfolding acknowledged_def answers_def by fastforce
  moreover have "f = None \<and> list_all2 (acknowledged lo smsc) rest sent'
    \<and> sr_PartsAccepted r = sr_PartsAccepted r2 + length rest \<and> length (sr_PartResults r) = length (sr_PartResults r2) + length rest"
    using Cons.IH[OF rec no Cons.prems(3)] .
  ultimately show ?case using sent acc item by (simp add: r2_def recordPart_def)
qed auto

text \<open>
  C29: A submission is reported as accepted in all parts only if every part was sent as the RP-DATA of
  its own reference and, while it was pending, an RP-ACK with that reference came that named no other
  call; a SIP 200, an RP-ERROR, a timeout or an answer to another message never count.
\<close>

theorem submission_accepted:
  assumes "submitParts lo smsc items (emptyResult (length items)) s = ((r, f, sent), s')"
    and "sr_AllPartsAccepted r"
  shows "f = None \<and> sr_PartsAccepted r = length items \<and> length sent = length items
    \<and> (\<forall>i < length items. acknowledged lo smsc (items ! i) (sent ! i))"
proof -
  have "\<not> sr_AllPartsAccepted (emptyResult (length items))" by (simp add: emptyResult_def)
  from submitParts_acknowledged[OF assms(1) this assms(2)]
  show ?thesis by (auto simp: emptyResult_def list_all2_conv_all_nth)
qed

definition ackRequest :: sipRequest where
  "ackRequest = \<lparr>Method = runes ''MESSAGE'', URI = [], reqHeaders = Map.empty, reqBody = []\<rparr>"

definition sampleSubmit :: "(SMSSubmitTPDU \<times> part_env) list" where
  "sampleSubmit = [(\<lparr>st_To = runes ''+441'', st_Encoding = SMSEncodingGSM7PDU, st_TPDU = [1, 0, 7], st_Part = 1,
       st_Total = 1, st_ConcatReference = None\<rparr>,
     \<lparr>pe_time = 0, pe_ctxDone = False, pe_callID = runes ''c'', pe_response = Some 202, pe_sendErr = False,
       pe_arrivals = [(ackRequest, [3, 9])], pe_end = TimerFired\<rparr>)]"

definition sampleCentre :: gostring where
  "sampleCentre = runes ''+447700''"

lemma sampleSubmit_run:
  "\<exists>r sent s'. submitParts (\<lambda>r. r) sampleCentre sampleSubmit (emptyResult (length sampleSubmit)) rpSample
     = ((r, None, sent), s') \<and> sr_AllPartsAccepted r"
proof -
  have norm: "normalizeE164 sampleCentre = sampleCentre"
    by (simp add: sampleCentre_def normalizeE164_def TrimSpace_def isSpace_def decimal_def)
  have address: "encodeRPAddress sampleCentre = Inr [0x91, 0x44, 0x77, 0]"
    unfolding encodeRPAddress_def norm by (simp add: sampleCentre_def trimPlus_def hasPlus_def decimal_def)
  have rpdu: "buildRPData 9 sampleCentre [1, 9, 7] = Inr [0, 9, 0, 4, 0x91, 0x44, 0x77, 0, 3, 1, 9, 7]"
    unfolding buildRPData_def address by simp
  have reply: "TrimSpace (reqValue (\<lambda>r. r) ackRequest ''In-Reply-To'') = []"
    by (simp add: reqValue_def headerValue_def headerValues_def ackRequest_def)
  have "parseRPResult [3, 9] = Inr \<lparr>accepted = True, cause = None\<rparr>"
    by (simp add: parseRPResult_def idx_def)
  then show ?thesis
    unfolding sampleSubmit_def rpSample_def
    by (simp add: beginRP_example rpdu bindCallID_def arrive_def receiveRPResult_def reply
        partOutcome_def awaitRP_def success2xx_def emptyResult_def recordPart_def endRP_def)
qed

theorem submission_accepted_witness:
  "\<exists>r sent s'. submitParts (\<lambda>r. r) sampleCentre sampleSubmit (emptyResult (length sampleSubmit)) rpSample
     = ((r, None, sent), s') \<and> sr_PartsAccepted r = 1
     \<and> acknowledged (\<lambda>r. r) sampleCentre (sampleSubmit ! 0) (sent ! 0)"
proof -
  obtain r sent s' where run: "submitParts (\<lambda>r. r) sampleCentre sampleSubmit
      (emptyResult (length sampleSubmit)) rpSample = ((r, None, sent), s')" and all: "sr_AllPartsAccepted r"
    using sampleSubmit_run by blast
  have "length sampleSubmit = 1" by (simp add: sampleSubmit_def)
  then show ?thesis using submission_accepted[OF run all] run by auto
qed

subsection \<open>Incoming messages\<close>

fun isReport :: "inbound_effect \<Rightarrow> bool" where
  "isReport (Report r) = True"
| "isReport _ = False"

lemma parseRPDU_Inr:
  assumes "parseRPDU payload = Inr rpdu"
  shows "2 \<le> length payload \<and> reference rpdu = payload ! 1"
proof (cases "length payload < 2")
  case False
  then have "0 < length payload" "Suc 0 < length payload" by linarith+
  then have i: "idx payload 0 = Inr (payload ! 0)" "idx payload (Suc 0) = Inr (payload ! 1)"
    by (simp_all add: idx_def del: length_greater_0_conv)
  show ?thesis using assms False
    by (auto simp: parseRPDU_def i rbind_Inr_iff Let_def split: if_splits)
qed (use assms in \<open>simp add: parseRPDU_def\<close>)

lemma simDownloadReport_reference:
  "fst (simDownloadReport ref pid dcs result failed) ! Suc 0 = ref"
  by (simp add: simDownloadReport_def buildRPError_def Let_def)

lemma simDownloadReport_positive:
  "fst (simDownloadReport ref pid dcs result failed) ! 0 = 2 \<longleftrightarrow>
    \<not> failed \<and> (uiccStatus result = 0x9000 \<or> drop_bit 8 (uiccStatus result) = 0x91) \<and> length (uiccData result) \<le> 140"
  by (auto simp: simDownloadReport_def buildRPError_def Let_def)

text \<open>
  A message that downloads to the UICC, with the digest \<open>key\<close> of its Call-ID, CSeq and RPDU, whose handler
  answers without an error, with status 9000 or 91xx and at most 140 octets.
\<close>

definition uiccConfirms :: "byte list \<Rightarrow> inbound_env \<Rightarrow> sipRequest \<Rightarrow> bool" where
  "uiccConfirms key env req \<longleftrightarrow>
    (\<exists>payload rpdu m ask result.
      extractPayload env req = Some payload \<and> parseRPDU payload = Inr rpdu \<and> messageType rpdu = 1 \<and>
      DecodeSMSDeliverTPDU (textTables env) (tpdu rpdu) = (Some m, None) \<and> msgSIMDataDownload m \<and>
      key = downloadKey (lowerTable env) (sha256 env) req payload \<and>
      OnSIMDataDownload env = Some ask \<and> ask (tpdu rpdu) payload = (result, False) \<and>
      (uiccStatus result = 0x9000 \<or> drop_bit 8 (uiccStatus result) = 0x91) \<and> length (uiccData result) \<le> 140)"

definition requestKey :: "inbound_env \<Rightarrow> sipRequest \<Rightarrow> byte list" where
  "requestKey env req = downloadKey (lowerTable env) (sha256 env) req (the (extractPayload env req))"

text \<open>Messages one after the other; between them the table of references changes in any way.\<close>

definition inboundRun :: "(rpState \<times> inbound_env \<times> sipRequest) list \<Rightarrow> inbound_state \<Rightarrow> inbound_state" where
  "inboundRun ms s = fold (\<lambda>(r, env, req) s. snd (processSMSMessage env req (s\<lparr>rp := r\<rparr>))) ms s"

text \<open>Every positive report of the cache stems from a confirmation by the UICC.\<close>

definition cacheTruthful :: "(rpState \<times> inbound_env \<times> sipRequest) list \<Rightarrow> simCache \<Rightarrow> bool" where
  "cacheTruthful ms c \<longleftrightarrow>
    (\<forall>key report. simDownloadReports c key = Some report \<and> report ! 0 = 2 \<longrightarrow>
      (\<exists>(r, env, req) \<in> set ms. uiccConfirms key env req))"

lemma cacheTruthful_more: "cacheTruthful ms c \<Longrightarrow> set ms \<subseteq> set ms' \<Longrightarrow> cacheTruthful ms' c"
  unfolding cacheTruthful_def by blast

lemma storeReport_truthful:
  assumes "cacheTruthful ms c" and "report ! 0 = 2 \<Longrightarrow> \<exists>(r, env, req) \<in> set ms. uiccConfirms key env req"
  shows "cacheTruthful ms (storeReport key report c)"
  using assms by (auto simp: cacheTruthful_def storeReport_def Let_def)

text \<open>What one RP-DATA leads to: the effects before its only report, what they give it the right to say.\<close>

definition sound_effects ::
    "(rpState \<times> inbound_env \<times> sipRequest) list \<Rightarrow> inbound_env \<Rightarrow> sipRequest \<Rightarrow> simCache \<Rightarrow> inbound_effect list \<Rightarrow> bool" where
  "sound_effects ms env req c es \<longleftrightarrow>
    (\<exists>pre report post payload rpdu.
      es = pre @ Report report # post \<and> filter isReport pre = [] \<and> filter isReport post = []
      \<and> extractPayload env req = Some payload \<and> parseRPDU payload = Inr rpdu
      \<and> (report ! 1 = reference rpdu \<or> simDownloadReports c (requestKey env req) = Some report)
      \<and> (report ! 0 = 2 \<longrightarrow>
           (\<exists>m. Kept m True \<in> set pre \<and> invokeSMSCallback env m \<and> rsRawRPDU m = hexUpper payload)
         \<or> (\<exists>m. KeptStatus m True \<in> set pre \<and> invokeSMSStatusCallback env m \<and> rtRawRPDU m = hexUpper payload)
         \<or> (\<exists>(r', env', req') \<in> set ms. uiccConfirms (requestKey env req) env' req')))"

lemma sound_effectsI:
  assumes "es = pre @ Report report # post" "filter isReport pre = []" "filter isReport post = []"
    and "extractPayload env req = Some payload" "parseRPDU payload = Inr rpdu"
    and "report ! 1 = reference rpdu \<or> simDownloadReports c (requestKey env req) = Some report"
    and "report ! 0 = 2 \<Longrightarrow>
           (\<exists>m. Kept m True \<in> set pre \<and> invokeSMSCallback env m \<and> rsRawRPDU m = hexUpper payload)
         \<or> (\<exists>m. KeptStatus m True \<in> set pre \<and> invokeSMSStatusCallback env m \<and> rtRawRPDU m = hexUpper payload)
         \<or> (\<exists>(r', env', req') \<in> set ms. uiccConfirms (requestKey env req) env' req')"
  shows "sound_effects ms env req c es"
  unfolding sound_effects_def using assms by blast

text \<open>A download, asked or repeated, keeps the cache truthful and answers what it allows.\<close>

lemma download_sound:
  assumes p: "extractPayload env req = Some payload" and rpdu: "parseRPDU payload = Inr rpdu" "messageType rpdu = 1"
    and m: "DecodeSMSDeliverTPDU (textTables env) (tpdu rpdu) = (Some m, None)" "msgSIMDataDownload m"
    and me: "(r, env, req) \<in> set ms" and c: "cacheTruthful ms c"
    and run: "processSIMDownload (lowerTable env) (sha256 env) (OnSIMDataDownload env) req rpdu payload pid dcs c
      = ((report, asked), c')"
  shows "cacheTruthful ms c' \<and> sound_effects ms env req c [Downloaded asked, Report report]"
proof -
  define key where "key = requestKey env req"
  have key: "downloadKey (lowerTable env) (sha256 env) req payload = key" using p by (simp add: key_def requestKey_def)
  have good: "\<exists>(r', env', req') \<in> set ms. uiccConfirms key env' req'" if positive: "report ! 0 = 2"
  proof (cases "simDownloadReports c key")
    case (Some cached)
    then have "report = cached" using run by (simp add: processSIMDownload_def key)
    then show ?thesis using c Some positive by (auto simp: cacheTruthful_def)
  next
    case None
    obtain ask result where ask: "OnSIMDataDownload env = Some ask" "ask (tpdu rpdu) payload = (result, False)"
      "uiccStatus result = 0x9000 \<or> drop_bit 8 (uiccStatus result) = 0x91" "length (uiccData result) \<le> 140"
      using run None positive
      by (auto simp: processSIMDownload_def key simDownloadReport_positive Let_def split: option.splits prod.splits)
    then have "uiccConfirms key env req" unfolding uiccConfirms_def using p rpdu m key by blast
    then show ?thesis using me by blast
  qed
  have "c' = c \<or> c' = storeReport key report c"
    using run by (auto simp: processSIMDownload_def key Let_def split: option.splits prod.splits)
  then have "cacheTruthful ms c'" using c storeReport_truthful[OF c good] by auto
  moreover have "report ! 1 = reference rpdu \<or> simDownloadReports c key = Some report"
    using run by (auto simp: processSIMDownload_def key simDownloadReport_reference Let_def split: option.splits prod.splits)
  then have "sound_effects ms env req c [Downloaded asked, Report report]"
    using good by (intro sound_effectsI[OF _ _ _ p rpdu(1), of _ "[Downloaded asked]" report "[]"]) (simp_all flip: key_def)
  ultimately show ?thesis ..
qed

lemma deliverTPDU_sound:
  assumes p: "extractPayload env req = Some payload" and rpdu: "parseRPDU payload = Inr rpdu" "messageType rpdu = 1"
    and m: "DecodeSMSDeliverTPDU (textTables env) (tpdu rpdu) = (Some m, e) \<or> \<not> msgSIMDataDownload m"
    and me: "(r, env, req) \<in> set ms" and c: "cacheTruthful ms (simReports s)"
    and run: "deliverTPDU env req payload rpdu m e s = (es, s')"
  shows "cacheTruthful ms (simReports s') \<and> sound_effects ms env req (simReports s) es"
proof (cases "msgSIMDataDownload m")
  case True
  show ?thesis
  proof (cases e)
    case None
    obtain report asked cache where d: "processSIMDownload (lowerTable env) (sha256 env) (OnSIMDataDownload env) req rpdu payload
        (word_of_nat (msgProtocolID m)) (word_of_nat (msgDataCodingScheme m)) (simReports s) = ((report, asked), cache)"
      by (metis prod.collapse)
    then have "es = [Downloaded asked, Report report]" "s' = s\<lparr>simReports := cache\<rparr>"
      using run True None by (simp_all add: deliverTPDU_def Let_def)
    then show ?thesis using download_sound[OF p rpdu _ True me c d] m True None by simp
  next
    case (Some f)
    then show ?thesis using run True c
      by (auto simp: deliverTPDU_def buildRPError_def intro!: sound_effectsI[OF _ _ _ p rpdu(1), of _ "[]" _ "[]"])
  qed
next
  case False
  have keeps: "simReports s' = simReports s" using run False by (auto simp: deliverTPDU_def Let_def split: if_splits)
  have "sound_effects ms env req (simReports s) es"
  proof -
    consider (refused) c where "es = [Report (buildRPError (reference rpdu) c)]"
      | (lost) m c where "es = [Kept m False, Report (buildRPError (reference rpdu) c)]"
      | (lostStatus) m c where "es = [KeptStatus m False, Report (buildRPError (reference rpdu) c)]"
      | (status) m where "es = [KeptStatus m True, Report [2, reference rpdu]]" "invokeSMSStatusCallback env m" "rtRawRPDU m = hexUpper payload"
      | (kept) m where "es = [Kept m True, Report [2, reference rpdu], MemoryNotice]" "invokeSMSCallback env m" "rsRawRPDU m = hexUpper payload"
      using run False by (auto simp: deliverTPDU_def Let_def receivedStatus_def receivedSMS_def split: if_splits)
    then show ?thesis
    proof cases
      case refused
      then show ?thesis by (intro sound_effectsI[OF _ _ _ p rpdu(1), of _ "[]" _ "[]"]) (auto simp: buildRPError_def)
    next
      case lost
      then show ?thesis by (intro sound_effectsI[OF _ _ _ p rpdu(1), of _ "[_]" _ "[]"]) (auto simp: buildRPError_def)
    next
      case lostStatus
      then show ?thesis by (intro sound_effectsI[OF _ _ _ p rpdu(1), of _ "[_]" _ "[]"]) (auto simp: buildRPError_def)
    next
      case status
      then show ?thesis by (intro sound_effectsI[OF _ _ _ p rpdu(1), of _ "[_]" _ "[]"]) auto
    next
      case kept
      then show ?thesis by (intro sound_effectsI[OF _ _ _ p rpdu(1), of _ "[_]" _ "[MemoryNotice]"]) auto
    qed
  qed
  then show ?thesis using keeps c by simp
qed

text \<open>What any MESSAGE leads to: nothing, a refusal of what is not an RPDU, or the sound effects of an RP-DATA.\<close>

lemma message_sound:
  assumes me: "(r, env, req) \<in> set ms" and c: "cacheTruthful ms (simReports s)"
    and run: "processSMSMessage env req s = (es, s')"
  shows "cacheTruthful ms (simReports s')
    \<and> (es = [] \<or> (\<exists>ref. es = [Report (buildRPError ref 95)]
           \<and> (\<forall>payload. extractPayload env req = Some payload \<longrightarrow> 2 \<le> length payload \<longrightarrow> ref = payload ! 1))
         \<or> sound_effects ms env req (simReports s) es)"
proof (cases "extractPayload env req")
  case None
  then show ?thesis using run c by (auto simp: processSMSMessage_def)
next
  case (Some payload)
  show ?thesis
  proof (cases "parseRPDU payload")
    case (Inl f)
    then show ?thesis using run Some c by (auto simp: processSMSMessage_def)
  next
    case (Inr rpdu)
    show ?thesis
    proof (cases "messageType rpdu = 1")
      case False
      then show ?thesis using run Some Inr c by (auto simp: processSMSMessage_def)
    next
      case True
      obtain mo e where d: "DecodeSMSDeliverTPDU (textTables env) (tpdu rpdu) = (mo, e)" by (metis prod.collapse)
      then obtain m where "deliverTPDU env req payload rpdu m e s = (es, s')" and "mo = Some m \<or> \<not> msgSIMDataDownload m"
        using run Some Inr True by (cases mo) (auto simp: processSMSMessage_def blankMessage_def)
      then have "deliverTPDU env req payload rpdu m e s = (es, s')"
        and "DecodeSMSDeliverTPDU (textTables env) (tpdu rpdu) = (Some m, e) \<or> \<not> msgSIMDataDownload m"
        using d by auto
      from deliverTPDU_sound[OF Some Inr True this(2) me c this(1)] show ?thesis by blast
    qed
  qed
qed

lemma inboundRun_truthful:
  assumes "simDownloadReports (simReports s) = Map.empty"
  shows "cacheTruthful ms (simReports (inboundRun ms s))"
proof (induction ms rule: rev_induct)
  case Nil
  then show ?case using assms by (simp add: inboundRun_def cacheTruthful_def)
next
  case (snoc x ms)
  obtain r env req where x: "x = (r, env, req)" by (metis prod_cases3)
  obtain es s' where run: "processSMSMessage env req ((inboundRun ms s)\<lparr>rp := r\<rparr>) = (es, s')" by (metis prod.collapse)
  have "cacheTruthful (ms @ [x]) (simReports ((inboundRun ms s)\<lparr>rp := r\<rparr>))"
    using cacheTruthful_more[OF snoc.IH, of "ms @ [x]"] by auto
  moreover have "(r, env, req) \<in> set (ms @ [x])" using x by simp
  moreover have "inboundRun (ms @ [x]) s = s'" using run x by (simp add: inboundRun_def)
  ultimately show ?case using message_sound[OF _ _ run] by simp
qed

text \<open>
  C30: After any run of incoming messages, whose handlers answer in any way, the next one leads to at most
  one delivery report. That report carries the message's reference, or is the one kept from an earlier
  delivery of the same download. It is a positive acknowledgement only if, before it is sent, the message
  or the status report with the complete RPDU has been kept by its callback, or the handler of the UICC
  has answered a download of the same Call-ID, CSeq and RPDU without an error, with status 9000 or 91xx
  and at most 140 octets; in every other case it is not positive.
\<close>

theorem inbound_acknowledged:
  assumes start: "simDownloadReports (simReports s0) = Map.empty"
    and s: "s = (inboundRun ms s0)\<lparr>rp := r\<rparr>"
    and run: "processSMSMessage env req s = (es, s')" and report: "Report report \<in> set es"
  shows "\<exists>pre post. es = pre @ Report report # post \<and> filter isReport (pre @ post) = []
    \<and> (\<forall>payload. extractPayload env req = Some payload \<longrightarrow> 2 \<le> length payload \<longrightarrow>
         report ! 1 = payload ! 1 \<or> simDownloadReports (simReports s) (requestKey env req) = Some report)
    \<and> (report ! 0 = 2 \<longrightarrow> (\<exists>payload. extractPayload env req = Some payload
         \<and> ((\<exists>m. Kept m True \<in> set pre \<and> invokeSMSCallback env m \<and> rsRawRPDU m = hexUpper payload)
          \<or> (\<exists>m. KeptStatus m True \<in> set pre \<and> invokeSMSStatusCallback env m \<and> rtRawRPDU m = hexUpper payload)
          \<or> (\<exists>(r', env', req') \<in> set (ms @ [(r, env, req)]). uiccConfirms (requestKey env req) env' req'))))"
proof -
  let ?ms = "ms @ [(r, env, req)]"
  have c: "cacheTruthful ?ms (simReports s)"
    using cacheTruthful_more[OF inboundRun_truthful[OF start, of ms], of ?ms] s by auto
  have me: "(r, env, req) \<in> set ?ms" by simp
  from message_sound[OF me c run] report consider
      (refused) ref where "es = [Report (buildRPError ref 95)]"
        "\<forall>payload. extractPayload env req = Some payload \<longrightarrow> 2 \<le> length payload \<longrightarrow> ref = payload ! 1"
    | (sound) "sound_effects ?ms env req (simReports s) es"
    by auto
  then show ?thesis
  proof cases
    case refused
    then show ?thesis using report by (intro exI[of _ "[]"]) (auto simp: buildRPError_def)
  next
    case sound
    then obtain pre report' post payload rpdu where
      es: "es = pre @ Report report' # post" "filter isReport pre = []" "filter isReport post = []"
      and p: "extractPayload env req = Some payload" "parseRPDU payload = Inr rpdu"
      and rest: "report' ! 1 = reference rpdu \<or> simDownloadReports (simReports s) (requestKey env req) = Some report'"
        "report' ! 0 = 2 \<longrightarrow>
           (\<exists>m. Kept m True \<in> set pre \<and> invokeSMSCallback env m \<and> rsRawRPDU m = hexUpper payload)
         \<or> (\<exists>m. KeptStatus m True \<in> set pre \<and> invokeSMSStatusCallback env m \<and> rtRawRPDU m = hexUpper payload)
         \<or> (\<exists>(r', env', req') \<in> set ?ms. uiccConfirms (requestKey env req) env' req')"
      unfolding sound_effects_def by blast
    have "Report report \<in> set (filter isReport es)" using report by simp
    then have "report' = report" using es by simp
    then show ?thesis using es p rest parseRPDU_Inr[OF p(2)]
      by (intro exI[of _ pre] exI[of _ post]) (simp del: bex_simps set_append)
  qed
qed

subsection \<open>The download cache\<close>

definition cache_ok :: "simCache \<Rightarrow> bool" where
  "cache_ok c \<longleftrightarrow> distinct (simDownloadOrder c) \<and> set (simDownloadOrder c) = dom (simDownloadReports c)
     \<and> length (simDownloadOrder c) \<le> 64"

lemma storeReport_ok:
  assumes "cache_ok c" and "simDownloadReports c key = None"
  shows "cache_ok (storeReport key report c)"
proof (cases "length (simDownloadOrder c) = 64")
  case True
  then obtain k ks where k: "simDownloadOrder c = k # ks" by (cases "simDownloadOrder c") auto
  then show ?thesis using assms True by (auto simp: cache_ok_def storeReport_def)
next
  case False
  then show ?thesis using assms by (auto simp: cache_ok_def storeReport_def)
qed

text \<open>A cached report stays while fewer than 64 others were stored after it.\<close>

definition reportHeld :: "byte list \<Rightarrow> byte list \<Rightarrow> nat \<Rightarrow> simCache \<Rightarrow> bool" where
  "reportHeld key report n c \<longleftrightarrow> cache_ok c \<and> simDownloadReports c key = Some report
     \<and> (\<exists>xs ys. simDownloadOrder c = xs @ key # ys \<and> length ys \<le> n)"

lemma storeReport_holds:
  assumes "cache_ok c" and "simDownloadReports c key = None"
  shows "reportHeld key report 0 (storeReport key report c)"
  using storeReport_ok[OF assms] by (auto simp: reportHeld_def storeReport_def Let_def)

lemma storeReport_keeps:
  assumes c: "reportHeld key report n c" and n: "n < 63" and new: "simDownloadReports c other = None"
  shows "reportHeld key report (Suc n) (storeReport other r' c)"
proof -
  obtain xs ys where o: "simDownloadOrder c = xs @ key # ys" "length ys \<le> n" using c by (auto simp: reportHeld_def)
  have ok: "cache_ok c" and r: "simDownloadReports c key = Some report" using c by (auto simp: reportHeld_def)
  have "other \<noteq> key" using r new by auto
  show ?thesis
  proof (cases "length (simDownloadOrder c) = 64")
    case True
    then obtain z zs where z: "xs = z # zs" using o n by (cases xs) auto
    then have "z \<noteq> key" using ok o by (auto simp: cache_ok_def)
    have "simDownloadOrder (storeReport other r' c) = zs @ key # ys @ [other]"
      "simDownloadReports (storeReport other r' c) key = Some report"
      using o z r True \<open>other \<noteq> key\<close> \<open>z \<noteq> key\<close> by (auto simp: storeReport_def)
    then show ?thesis using storeReport_ok[OF ok new] o unfolding reportHeld_def
      by (intro conjI exI[of _ zs] exI[of _ "ys @ [other]"]) auto
  next
    case False
    then have "simDownloadOrder (storeReport other r' c) = xs @ key # ys @ [other]"
      "simDownloadReports (storeReport other r' c) key = Some report"
      using o r \<open>other \<noteq> key\<close> by (auto simp: storeReport_def)
    then show ?thesis using storeReport_ok[OF ok new] o unfolding reportHeld_def
      by (intro conjI exI[of _ xs] exI[of _ "ys @ [other]"]) auto
  qed
qed

text \<open>Downloads one after the other: request, RP-DATA, payload, protocol identifier and coding scheme.\<close>

type_synonym download = "sipRequest \<times> rpMessage \<times> byte list \<times> byte \<times> byte"

definition downloadStep where
  "downloadStep lo sha uicc d c = (case d of (req, rpdu, payload, pid, dcs) \<Rightarrow>
     snd (processSIMDownload lo sha uicc req rpdu payload pid dcs c))"

lemma downloadStep_held:
  assumes "reportHeld key report n c" "n < 63"
  shows "reportHeld key report (Suc n) (downloadStep lo sha uicc d c)"
proof -
  obtain req rpdu payload pid dcs where d: "d = (req, rpdu, payload, pid, dcs)" by (cases d) auto
  show ?thesis
  proof (cases "simDownloadReports c (downloadKey lo sha req payload)")
    case None
    then show ?thesis using storeReport_keeps[OF assms None]
      by (auto simp: downloadStep_def d processSIMDownload_def Let_def split: prod.splits option.splits)
  next
    case (Some r)
    then have "downloadStep lo sha uicc d c = c" by (simp add: downloadStep_def d processSIMDownload_def)
    then show ?thesis using assms by (auto simp: reportHeld_def intro: le_SucI)
  qed
qed

lemma downloads_held:
  "reportHeld key report n c \<Longrightarrow> n + length ds \<le> 63 \<Longrightarrow> reportHeld key report (n + length ds) (fold (downloadStep lo sha uicc) ds c)"
proof (induction ds arbitrary: n c)
  case (Cons d ds)
  then have "reportHeld key report (Suc n) (downloadStep lo sha uicc d c)" by (intro downloadStep_held) auto
  then show ?case using Cons.IH[of "Suc n" "downloadStep lo sha uicc d c"] Cons.prems by simp
qed simp

text \<open>
  A SIM data download that is repeated after at most 63 others is answered with the very same report
  without asking the UICC again, so a retransmission is never executed twice; and the cache never holds
  more than 64 reports.
\<close>

theorem sim_download_once:
  assumes "cache_ok c" and "processSIMDownload lo sha uicc req rpdu payload pid dcs c = ((report, asked), c1)"
    and "length ds \<le> 63" and "c2 = fold (downloadStep lo sha uicc) ds c1"
  shows "cache_ok c1 \<and> length (simDownloadOrder c2) \<le> 64
    \<and> (asked \<or> simDownloadReports c (downloadKey lo sha req payload) = None
        \<longrightarrow> processSIMDownload lo sha uicc req rpdu payload pid dcs c2 = ((report, False), c2))"
proof (cases "simDownloadReports c (downloadKey lo sha req payload)")
  case None
  define key where "key = downloadKey lo sha req payload"
  have "c1 = storeReport key report c"
    using assms(2) None by (auto simp: processSIMDownload_def key_def Let_def split: prod.splits option.splits)
  then have h: "reportHeld key report 0 c1" using storeReport_holds assms(1) None key_def by simp
  then have "reportHeld key report (length ds) c2" using downloads_held[OF h, of ds lo sha uicc] assms(3,4) by simp
  then have "cache_ok c2" "simDownloadReports c2 key = Some report" by (auto simp: reportHeld_def)
  then show ?thesis using h by (simp add: reportHeld_def cache_ok_def processSIMDownload_def flip: key_def)
next
  case (Some r)
  then have c1: "c1 = c" "\<not> asked" using assms(2) by (auto simp: processSIMDownload_def Let_def)
  have ok: "cache_ok c' \<Longrightarrow> cache_ok (downloadStep lo sha uicc d c')" for d c'
    using storeReport_ok
    by (cases d) (auto simp: downloadStep_def processSIMDownload_def Let_def split: option.splits prod.splits)
  have "cache_ok c' \<Longrightarrow> cache_ok (fold (downloadStep lo sha uicc) ds c')" for c'
    using ok by (induction ds arbitrary: c') auto
  then have "cache_ok c2" using assms(1,4) c1 by simp
  then show ?thesis using assms(1) c1 Some by (simp add: cache_ok_def)
qed


definition samplePP :: "byte list \<Rightarrow> byte list \<Rightarrow> SMSPPResult \<times> bool" where
  "samplePP t p = (\<lparr>uiccStatus = 0x9000, uiccData = []\<rparr>, False)"

theorem sim_download_once_witness:
  "processSIMDownload (\<lambda>r. r) (\<lambda>d. d) (Some samplePP) ackRequest \<lparr>messageType = 1, reference = 9, tpdu = [4]\<rparr> [1, 9] 0x7F 0xF6
      \<lparr>simDownloadReports = [[0, 0, 1, 9] \<mapsto> [2, 9]], simDownloadOrder = [[0, 0, 1, 9]]\<rparr> = (([2, 9], False),
      \<lparr>simDownloadReports = [[0, 0, 1, 9] \<mapsto> [2, 9]], simDownloadOrder = [[0, 0, 1, 9]]\<rparr>)"
proof -
  have key: "downloadKey (\<lambda>r. r) (\<lambda>d. d) ackRequest [1, 9] = [0, 0, 1, 9]"
    by (simp add: downloadKey_def reqValue_def headerValue_def headerValues_def ackRequest_def)
  have first: "processSIMDownload (\<lambda>r. r) (\<lambda>d. d) (Some samplePP) ackRequest \<lparr>messageType = 1, reference = 9, tpdu = [4]\<rparr> [1, 9] 0x7F 0xF6
      \<lparr>simDownloadReports = Map.empty, simDownloadOrder = []\<rparr> = (([2, 9], True),
      \<lparr>simDownloadReports = [[0, 0, 1, 9] \<mapsto> [2, 9]], simDownloadOrder = [[0, 0, 1, 9]]\<rparr>)"
    by (simp add: processSIMDownload_def key samplePP_def simDownloadReport_def storeReport_def Let_def)
  have "cache_ok \<lparr>simDownloadReports = Map.empty, simDownloadOrder = []\<rparr>" by (simp add: cache_ok_def)
  from sim_download_once[OF this first, of "[]"] show ?thesis by simp
qed

subsection \<open>A message received\<close>

text \<open>An SMS-DELIVER from +44 with empty text, kept by the callback.\<close>

definition sampleTables :: text_env where
  "sampleTables = \<lparr>isPrint = (\<lambda>_. True), isHan = (\<lambda>_. False), upperTable = (\<lambda>r. r), gb18030 = (\<lambda>_. None),
     nationalDecode = (\<lambda>_ _ _. ([], True))\<rparr>"

definition sampleInbound :: inbound_env where
  "sampleInbound = \<lparr>lowerTable = (\<lambda>r. r), textTables = sampleTables, sha256 = (\<lambda>d. d), extractPayload = (\<lambda>r. Some (reqBody r)),
     OnSMS = Some (\<lambda>_. True), OnSMSStatus = None, OnSIMDataDownload = None\<rparr>"

definition sampleTPDU :: "byte list" where
  "sampleTPDU = [4, 2, 0x91, 0x44, 0, 0, 0x62, 0x01, 0x01, 0x00, 0x00, 0x00, 0x00, 0]"

definition sampleMessage :: sipRequest where
  "sampleMessage = \<lparr>Method = runes ''MESSAGE'', URI = [], reqHeaders = Map.empty,
     reqBody = [1, 9, 0, 0, 14] @ sampleTPDU\<rparr>"

lemma sampleTPDU_decoded:
  "\<exists>m. DecodeSMSDeliverTPDU sampleTables sampleTPDU = (Some m, None) \<and> msgDirection m = SMSDirectionReceived
     \<and> \<not> msgSIMDataDownload m"
proof -
  obtain raw where raw: "hexEncode (0 # sampleTPDU) = raw" by simp
  have hex: "hexDecode (ToUpper (upperTable sampleTables) (TrimSpace raw)) = Some (0 # sampleTPDU)"
    unfolding raw[symmetric] by (simp only: TrimSpace_hexEncode hexDecode_ToUpper)
  have ts: "decodeSMSTimestamp [0x62, 0x01, 0x01, 0, 0, 0, 0] =
      Inr \<lparr>year = 2026, month = 10, day = 10, hour = 0, minute = 0, second = 0, offset = 0\<rparr>"
    by (simp add: decodeSMSTimestamp_def timestampComponent_def Let_def)
  show ?thesis
    unfolding DecodeSMSDeliverTPDU_def decodeSMSPDU_def raw hex Let_def option.case
    by (simp add: sampleTPDU_def cursorByte_def cursorBytes_def slice_def idx_def decodeDeliverPDU_def
        readTPAddress_def decodeNumericAddress_def ts decodeUserData_def decodeSMSAlphabet_def decodeUserText_def
        unpackSeptets_def decodeGSM7WithHeader_def isSIMDataDownload_def blankMessage_def)
qed

definition emptyInbound :: inbound_state where
  "emptyInbound = \<lparr>rp = rpSample, simReports = \<lparr>simDownloadReports = Map.empty, simDownloadOrder = []\<rparr>\<rparr>"

definition downloadInbound :: inbound_env where
  "downloadInbound = sampleInbound\<lparr>OnSIMDataDownload := Some samplePP\<rparr>"

definition downloadTPDU :: "byte list" where
  "downloadTPDU = [4, 2, 0x91, 0x44, 0x7F, 0xF6, 0x62, 0x01, 0x01, 0x00, 0x00, 0x00, 0x00, 0]"

definition downloadMessage :: sipRequest where
  "downloadMessage = \<lparr>Method = runes ''MESSAGE'', URI = [], reqHeaders = Map.empty,
     reqBody = [1, 9, 0, 0, 14] @ downloadTPDU\<rparr>"

lemma downloadTPDU_decoded:
  "\<exists>m. DecodeSMSDeliverTPDU sampleTables downloadTPDU = (Some m, None) \<and> msgSIMDataDownload m"
proof -
  obtain raw where raw: "hexEncode (0 # downloadTPDU) = raw" by simp
  have hex: "hexDecode (ToUpper (upperTable sampleTables) (TrimSpace raw)) = Some (0 # downloadTPDU)"
    unfolding raw[symmetric] by (simp only: TrimSpace_hexEncode hexDecode_ToUpper)
  have ts: "decodeSMSTimestamp [0x62, 0x01, 0x01, 0, 0, 0, 0] =
      Inr \<lparr>year = 2026, month = 10, day = 10, hour = 0, minute = 0, second = 0, offset = 0\<rparr>"
    by (simp add: decodeSMSTimestamp_def timestampComponent_def Let_def)
  show ?thesis
    unfolding DecodeSMSDeliverTPDU_def decodeSMSPDU_def raw hex Let_def option.case
    by (simp add: downloadTPDU_def cursorByte_def cursorBytes_def slice_def idx_def decodeDeliverPDU_def
        readTPAddress_def decodeNumericAddress_def ts decodeUserData_def decodeSMSAlphabet_def decodeUserText_def
        unpackSeptets_def decodeGSM7WithHeader_def isSIMDataDownload_def blankMessage_def Let_def split: option.split)
qed

lemma parse_sample:
  "length xs = 14 \<Longrightarrow> parseRPDU ([1, 9, 0, 0, 14] @ xs) = Inr \<lparr>messageType = 1, reference = 9, tpdu = xs\<rparr>"
proof -
  assume len: "length xs = 14"
  have two: "skipAddresses 2 d i = skipAddresses (Suc (Suc 0)) d i" for d i by (simp only: numeral_2_eq_2)
  have skip: "skipAddresses 2 (1 # 9 # 0 # 0 # 14 # xs) 2 = Inr 4" unfolding two by (simp add: idx_def)
  show ?thesis by (simp add: parseRPDU_def idx_def slice_def len skip)
qed

lemma message_run:
  "\<exists>m. processSMSMessage sampleInbound sampleMessage emptyInbound = ([Kept m True, Report [2, 9], MemoryNotice], emptyInbound)"
proof -
  obtain m0 where "DecodeSMSDeliverTPDU sampleTables sampleTPDU = (Some m0, None)"
    "msgDirection m0 = SMSDirectionReceived" "\<not> msgSIMDataDownload m0" using sampleTPDU_decoded by blast
  moreover have "parseRPDU (1 # 9 # 0 # 0 # 14 # sampleTPDU) = Inr \<lparr>messageType = 1, reference = 9, tpdu = sampleTPDU\<rparr>"
    using parse_sample[of sampleTPDU] by (simp add: sampleTPDU_def)
  ultimately show ?thesis
    by (simp add: processSMSMessage_def sampleInbound_def sampleMessage_def deliverTPDU_def invokeSMSCallback_def)
qed

lemma download_run:
  "\<exists>s'. processSMSMessage downloadInbound downloadMessage emptyInbound = ([Downloaded True, Report [2, 9]], s')"
proof -
  obtain m0 where "DecodeSMSDeliverTPDU sampleTables downloadTPDU = (Some m0, None)" "msgSIMDataDownload m0"
    using downloadTPDU_decoded by blast
  moreover have "parseRPDU (1 # 9 # 0 # 0 # 14 # downloadTPDU) = Inr \<lparr>messageType = 1, reference = 9, tpdu = downloadTPDU\<rparr>"
    using parse_sample[of downloadTPDU] by (simp add: downloadTPDU_def)
  ultimately show ?thesis
    by (simp add: processSMSMessage_def downloadInbound_def sampleInbound_def downloadMessage_def deliverTPDU_def
        processSIMDownload_def emptyInbound_def samplePP_def simDownloadReport_def Let_def)
qed

theorem inbound_acknowledged_witness:
  "(\<exists>m. processSMSMessage sampleInbound sampleMessage emptyInbound = ([Kept m True, Report [2, 9], MemoryNotice], emptyInbound)
     \<and> rsRawRPDU m = hexUpper (reqBody sampleMessage))
   \<and> (\<exists>s'. processSMSMessage downloadInbound downloadMessage emptyInbound = ([Downloaded True, Report [2, 9]], s')
     \<and> uiccConfirms (requestKey downloadInbound downloadMessage) downloadInbound downloadMessage)"
proof -
  have start: "simDownloadReports (simReports emptyInbound) = Map.empty"
    and same: "emptyInbound = (inboundRun [] emptyInbound)\<lparr>rp := rpSample\<rparr>"
    by (simp_all add: emptyInbound_def inboundRun_def)
  note app = inbound_acknowledged[OF start same, of _ _ _ _ "[2, 9]"]
  obtain m where m: "processSMSMessage sampleInbound sampleMessage emptyInbound = ([Kept m True, Report [2, 9], MemoryNotice], emptyInbound)"
    using message_run by blast
  have "rsRawRPDU m = hexUpper (reqBody sampleMessage)"
    using app[OF m] by (auto simp: sampleInbound_def uiccConfirms_def Cons_eq_append_conv)
  moreover obtain s' where d: "processSMSMessage downloadInbound downloadMessage emptyInbound = ([Downloaded True, Report [2, 9]], s')"
    using download_run by blast
  have "uiccConfirms (requestKey downloadInbound downloadMessage) downloadInbound downloadMessage"
    using app[OF d] by (auto simp: Cons_eq_append_conv)
  ultimately show ?thesis using m d by blast
qed

end
