(* ===== verification/Spec2Isabelle.thy ===== *)
theory Spec2Isabelle
  imports Registrar_Props Eap_Props Router_Props IkeWire_Props IkeKeys_Props Esp_Props IkeCrypt_Props IkeDh Sms_Props Mms_Props Amr_Props Jitter_Playout Rtp_Props Dispatch_Props
    Security_Props Journal_Props Journal_Fair SipBuild_Props SipDigest_Props RpTransport_Props
begin

text \<open>
  Verification of the core of Rykvo-Voice, a telephony server in Go (\<open>src/backend\<close>): it drives modems
  and SIM readers, opens the IPsec tunnel of Wi-Fi calling to the operator (IKEv2 with EAP-AKA, ESP in
  user space), registers with the operator's IMS over that tunnel (SIP), carries calls, short messages and
  MMS, and hands calls to local SIP clients.

  How the parts interact. A SIP client registers with the registrar; the call scheduler (router) decides
  which registrations a call may ring and holds a module and an account for it. Towards the operator an
  EAP-AKA exchange inside IKE, signed by the SIM, authenticates the tunnel; IKE derives the keys of the
  ESP tunnel; SIP messages pass through the tunnel, their REGISTER authenticated by a digest over the same
  SIM, and protected by the security associations negotiated with it; short messages are TPDUs in RPDUs in
  SIP MESSAGE bodies; the audio of a call is RTP through the playout buffer. Work runs on bounded workers
  under keyed locks, and completed work survives a database failure in the outcome journal.

  THEORIES AND SOURCES (paths under \<open>src/backend/internal\<close>; \<open>ike\<close> and \<open>ims\<close> are below \<open>vocat/vowifi\<close>).

  Shared. Prelude: bytes, the result type \<open>res\<close> (\<open>Inl Panic\<close> is a Go panic, \<open>Inl (Err e)\<close> a returned
  error), checked indexing and slicing, big-endian integers, loops over map keys, and two interfaces:
  \<open>stream_codec\<close> and \<open>guarded_system\<close>. GoText and GoStrings: runes, UTF-8, UTF-16, hex, and what is used
  of \<open>strings\<close>, \<open>bytes\<close> and \<open>strconv\<close>. Cbc: cipher-block chaining over a block function.

  Call scheduler, \<open>telephony/router.go\<close>. Router has the state (policies, registrations, calls with
  their legs, the two reservation tables) and every exported method as a function on it; Router_Calls
  the equations of the call-level methods; Router_Inv the invariant; Router_Ops and Router_Lifecycle its
  preservation by each method; Router_System the transition system (any operation, the clock, or a
  reordering of the maps), with \<open>guarded_system\<close> interpreted on it; Router_Winner what no later
  step undoes (a call's winner stays its winner); Router_Props the properties.

  IKE, \<open>ike/wire.go\<close>, \<open>crypto.go\<close>, \<open>child.go\<close>, \<open>eap.go\<close>. IkeWire: header, payload chain, proposals,
  suite selection. IkeKeys: \<open>prf+\<close> and the derivation of IKE and CHILD_SA keys. IkeCrypt: encrypted
  payload, fragmentation and reassembly. IkeDh: both MODP groups, square and multiply. IkeChild: traffic
  selectors and configuration payloads. Aka and Eap: EAP-AKA packets, attributes, the FIPS 186-2
  generator with its compression function, and the client. Fips: that generator and SHA-1's compression
  written from FIPS 186-2 and FIPS 180, and that the code's function computes them. The \<open>_Props\<close>
  theories: round trips, no panic, agreement with RFC 7296 and FIPS 186-2, authentication.

  ESP tunnel, \<open>ike/esp.go\<close>. Esp seals and opens packets; Esp_Replay has the window (interface
  \<open>replay_guard\<close>) and its exact characterisation; Esp_Props safety, no replay and the round trip.

  IMS signalling, \<open>ims\<close>. Sip: \<open>message.go\<close>, both readers of a connection. SipBuild: responses, header
  parameters and session timers (\<open>sms_runtime.go\<close>, \<open>call_runtime.go\<close>, \<open>call_session.go\<close>). SipDigest:
  \<open>digest.go\<close>. RpTransport: RPDUs, message references, submission, incoming messages and SIM data
  download (\<open>sms_runtime.go\<close>, \<open>sms_submit_report.go\<close>, \<open>sms_download.go\<close>).

  IMS media, \<open>ims\<close>. Amr: the payload format of \<open>amr_packet.go\<close>. Rtp: G.711, \<open>WritePCM\<close> and the receive
  loop of \<open>rtp_media.go\<close>. Jitter: the playout buffer of \<open>rtp_jitter.go\<close> and \<open>rtp_compressed.go\<close>.
  Pcm: loss concealment of \<open>rtp_pcm.go\<close>. Jitter_Props, Jitter_Frames and Jitter_Playout: runs of the
  buffer, that every call on it returns, and the playout of a punctual stream.

  Messages. Gsm7, Sms and SmsDecode: \<open>vocat/device/sms_pdu.go\<close>, the alphabet, submission and decoding;
  Sms_Segments (interface \<open>segmenter\<close>, for septets and for UTF-16 units), Sms_Submit, Sms_RoundTrip,
  SmsDecode_Total and Sms_Props its lemmas and properties. Mms: \<open>mms/pdu.go\<close>.

  Registrar: \<open>sipregistrar/registrar.go\<close>, every method as a step on the tables, with Registrar_Props.
  Dispatch: \<open>dispatch/group.go\<close> and \<open>locks.go\<close> as interleaving transition systems, with Dispatch_Props.

  Journal: \<open>durable/journal.go\<close> over a directory of named entries with the entries that survive a crash beside
  it; every call of the system may fail. Journal_Props: no outcome is lost, over runs with crashes
  (\<open>guarded_system\<close> is interpreted on them, with a ledger of what is owed). Journal_Fair: the replay is fair.

  Security: \<open>ims/security.go\<close> and \<open>security_linux.go\<close>, the security agreement of the registration, its keys
  and the plans of \<open>ip xfrm\<close> commands. Security_Props: an agreement is a configuration the installer
  accepts, and what is installed is removed.

  CONVENTIONS. A struct is a record and a tagged set of constants a datatype; machine integers are words
  where they can wrap and \<open>int\<close> or \<open>nat\<close> where a bound of the code excludes it. A string is the list of
  its runes where the code ranges over it and a byte list where it is data. A Go map is an association
  list, so that an iteration order is part of the state, or a map. Pointers that are shared are
  identifiers in a table (calls of the router, packets of the playout buffer). A method under a mutex is
  one step. An error text is a constructor; a method that changes its receiver and then fails returns the
  changed receiver beside the error.

  WHAT IS A PARAMETER, and the hypothesis that states its documented behaviour. AES, HMAC and SHA-1: the
  record \<open>crypto\<close> with \<open>crypto_ok\<close>, and \<open>sha1_ok\<close> and
  \<open>env_ok\<close> for EAP (sizes of blocks and digests, decryption inverting encryption). MD5,
  SHA-256 and base64: function arguments without a hypothesis, except that the authentication theorems
  speak of equality of digests. The random source: the bytes or values it will deliver; freshness of the
  registrar's nonces is a hypothesis of the theorem that needs it. The clock: an integer argument or a
  field, in nanoseconds. The SIM: a function from a challenge to its answer. The unicode tables, the GB
  18030 decoder and the national language tables, audio codecs, the comparison of floating point pitch
  scores, MIME extraction, callbacks of the runtime and the digest package of the registrar, the JSON
  codec of the journal (whose round trip on the outcomes is the hypothesis \<open>outcomes_ok\<close>),
  \<open>net.IP.String\<close> and the \<open>ip\<close> command (\<open>ip_ok\<close>): arguments.
  Every call of the operating system in the journal and every command of an installation may fail.

  BOUNDS AND FUEL. No operation is modelled with fuel except where the code itself counts: 256 message
  references are tried (\<open>beginLoop\<close>), 16 random SPIs and 32 ports, 128 records in a pass of
  the replay, 64 reports of SIM downloads are kept, a SIP header has at most 64 KiB and a body 1 MiB,
  the registrar's tables have 2048 entries, an EAP packet 64 attributes. The loops over input are
  recursive functions with a measure; the loop that splits a message, which could fail to advance,
  returns an option and is proved to return. The buffer of the stream reader is a parameter of at least
  16 bytes, as \<open>bufio\<close> guarantees.

  NOT MODELLED. The HTTP interface, its handlers and the web client, and the PostgreSQL and file stores:
  their behaviour is that of the libraries they call. Drivers of serial ports, QMI, PC/SC and Linux
  network namespaces: system calls. The orchestration of a session (\<open>orchestrator.go\<close>, \<open>provider.go\<close> of
  \<open>ike\<close> and \<open>ims\<close>, \<open>runtime/manager.go\<close>, the call state machine of \<open>call_runtime.go\<close>): goroutines over
  sockets and timers; their wire formats, keys, checks and tables are the theories above. Carrier rule
  tables: data. Audio codecs: native libraries.
\<close>

end
